(* ===== verification/Prelude.thy ===== *)
theory Prelude
  imports Main "HOL-Library.Word" "HOL-Library.Sublist" "HOL-Library.Multiset"
begin

unbundle bit_operations_syntax

text \<open>
  The vocabulary every component theory shares: the C integer widths, the ways the C code
  can go wrong (\<open>fault\<close>), sequencing of steps that can fault, reading and writing of
  network byte order, the decimal printing of \<open>printf ("%u")\<close>, the comparison of memory
  blocks (\<open>memcmp\<close>) and the splitting of a buffer into fixed-size records.
\<close>

named_theorems be_simps
named_theorems fault_simps

section \<open>Machine integers and faults\<close>

type_synonym u8 = "8 word"
type_synonym u16 = "16 word"
type_synonym u32 = "32 word"
type_synonym u64 = "64 word"

text \<open>
  What ends an execution of the C program outside its own error returns: a dereference of a
  null pointer or of freed memory, an access outside an object, a division by zero, a failing
  \<open>assert\<close>, a call of \<open>exit_gracefully (1)\<close>. \<open>Inl\<close> of a fault is such an execution. \<open>OutOfFuel\<close> is
  none of the program's: it marks a loop of the model that took more turns than its bound, and every
  theorem that a run is \<open>Inr\<close> excludes it.
\<close>

datatype fault = NullDeref | UseAfterFree | OutOfBounds | DivByZero | AssertFail | ExitCalled | OutOfFuel

type_synonym 'a run = "fault + 'a"

fun fbind :: "'a run \<Rightarrow> ('a \<Rightarrow> 'b run) \<Rightarrow> 'b run" where
  "fbind (Inl e) f = Inl e"
| "fbind (Inr x) f = f x"

definition c_assert :: "bool \<Rightarrow> 'a run \<Rightarrow> 'a run" where
  "c_assert b r = (if b then r else Inl AssertFail)"

lemma fbind_Inr_iff [fault_simps]: "fbind r f = Inr y \<longleftrightarrow> (\<exists>x. r = Inr x \<and> f x = Inr y)"
  by (cases r) auto

lemma fbind_Inl_iff [fault_simps]:
  "fbind r f = Inl e \<longleftrightarrow> r = Inl e \<or> (\<exists>x. r = Inr x \<and> f x = Inl e)"
  by (cases r) auto

lemma fbind_cong [fundef_cong]:
  "r = r' \<Longrightarrow> (\<And>x. r' = Inr x \<Longrightarrow> f x = g x) \<Longrightarrow> fbind r f = fbind r' g"
  by (cases r') auto

lemma c_assert_True [simp]: "c_assert True r = r"
  by (simp add: c_assert_def)

lemma c_assert_Inr [fault_simps]: "c_assert b r = Inr x \<longleftrightarrow> b \<and> r = Inr x"
  by (simp add: c_assert_def)

section \<open>Network byte order\<close>

text \<open>The C conversions to an unsigned type of 8, 16 and 32 bits (reduction modulo its range).\<close>

definition u8n :: "nat \<Rightarrow> u8" where "u8n n = word_of_nat n"

definition u16n :: "nat \<Rightarrow> u16" where "u16n n = word_of_nat n"

definition u32n :: "nat \<Rightarrow> u32" where "u32n n = word_of_nat n"

lemma unat_u8n [simp]: "unat (u8n n) = n mod 256"
  by (simp add: u8n_def unat_of_nat)

lemma unat_u16n [simp]: "unat (u16n n) = n mod 65536"
  by (simp add: u16n_def unat_of_nat)

lemma unat_u32n [simp]: "unat (u32n n) = n mod 4294967296"
  by (simp add: u32n_def unat_of_nat)

lemma u8n_unat [simp]: "u8n (unat b) = b"
  by (simp add: u8n_def)

lemma u16n_unat [simp]: "u16n (unat b) = b"
  by (simp add: u16n_def)

lemma u32n_unat [simp]: "u32n (unat b) = b"
  by (simp add: u32n_def)

lemma u8n_eq_iff: "u8n m = b \<longleftrightarrow> m mod 256 = unat b"
  by (metis unat_u8n word_unat_eq_iff)

lemma unat_u8_less [simp]: "unat (b :: u8) < 256"
  using unsigned_less [of b, where ?'a = nat] by simp

lemma unat_u16_less [simp]: "unat (w :: u16) < 65536"
  using unsigned_less [of w, where ?'a = nat] by simp

lemma unat_u32_less [simp]: "unat (w :: u32) < 4294967296"
  using unsigned_less [of w, where ?'a = nat] by simp

lemma neg_less_uint [simp]: "- numeral k < uint (w :: 'a::len word)"
  by (rule order.strict_trans2 [of _ 0]) auto

lemma neg_uint_less [simp]: "- uint (w :: 'a::len word) < numeral k"
  by (rule order.strict_trans1 [of _ 0]) auto

definition be16 :: "u8 \<Rightarrow> u8 \<Rightarrow> u16" where
  "be16 a b = u16n (unat a * 256 + unat b)"

definition be32 :: "u8 \<Rightarrow> u8 \<Rightarrow> u8 \<Rightarrow> u8 \<Rightarrow> u32" where
  "be32 a b c d = u32n (unat a * 16777216 + unat b * 65536 + unat c * 256 + unat d)"

text \<open>\<open>memcpy\<close> of two or four bytes followed by \<open>ntohs\<close>, \<open>ntohl\<close>: \<open>None\<close> when the memory
  that can be read is shorter.\<close>

fun rd16 :: "u8 list \<Rightarrow> u16 option" where
  "rd16 (a # b # _) = Some (be16 a b)"
| "rd16 _ = None"

fun rd32 :: "u8 list \<Rightarrow> u32 option" where
  "rd32 (a # b # c # d # _) = Some (be32 a b c d)"
| "rd32 _ = None"

definition bytes16 :: "u16 \<Rightarrow> u8 list" where
  "bytes16 w = [u8n (unat w div 256), u8n (unat w)]"

definition bytes32 :: "u32 \<Rightarrow> u8 list" where
  "bytes32 w = [u8n (unat w div 16777216), u8n (unat w div 65536),
     u8n (unat w div 256), u8n (unat w)]"

lemma bytes_bound16:
  fixes a b :: nat
  assumes "a < 256" "b < 256"
  shows "a * 256 + b < 65536"
  using assms by linarith

lemma bytes_bound32:
  fixes a b c d :: nat
  assumes "a < 256" "b < 256" "c < 256" "d < 256"
  shows "a * 16777216 + b * 65536 + c * 256 + d < 4294967296"
  using assms by linarith

lemma bytes_split32:
  fixes a b c d :: nat
  assumes "a < 256" "b < 256" "c < 256" "d < 256"
  shows "(a * 16777216 + b * 65536 + c * 256 + d) div 16777216 = a"
    and "(a * 16777216 + b * 65536 + c * 256 + d) div 65536 mod 256 = b"
    and "(a * 16777216 + b * 65536 + c * 256 + d) div 256 mod 256 = c"
    and "(a * 16777216 + b * 65536 + c * 256 + d) mod 256 = d"
proof -
  have *: "(x * n + r) div n = x" "(x * n + r) mod n = r" if "r < n" for x n r :: nat
    using that by simp_all
  have 1: "a * 16777216 + b * 65536 + c * 256 + d = (a * 65536 + b * 256 + c) * 256 + d" by simp
  have 2: "a * 16777216 + b * 65536 + c * 256 + d = (a * 256 + b) * 65536 + (c * 256 + d)" by simp
  have 3: "a * 16777216 + b * 65536 + c * 256 + d = a * 16777216 + (b * 65536 + c * 256 + d)" by simp
  have r: "c * 256 + d < 65536" "b * 65536 + c * 256 + d < 16777216"
    using assms by linarith+
  show "(a * 16777216 + b * 65536 + c * 256 + d) div 16777216 = a"
    unfolding 3 by (rule * [OF r(2)])
  show "(a * 16777216 + b * 65536 + c * 256 + d) div 65536 mod 256 = b"
    unfolding 2 * [OF r(1)] by (rule * [OF assms(2)])
  have "a * 65536 + b * 256 + c = (a * 256 + b) * 256 + c" by simp
  then show "(a * 16777216 + b * 65536 + c * 256 + d) div 256 mod 256 = c"
    unfolding 1 * [OF assms(4)] by (simp only: * [OF assms(3)])
  show "(a * 16777216 + b * 65536 + c * 256 + d) mod 256 = d"
    unfolding 1 by (rule * [OF assms(4)])
qed

lemma bytes_join32:
  fixes n :: nat
  assumes "n < 4294967296"
  shows "n div 16777216 mod 256 * 16777216 + n div 65536 mod 256 * 65536 + n div 256 mod 256 * 256
    + n mod 256 = n"
proof -
  have 1: "n div 65536 = n div 256 div 256" and 2: "n div 16777216 = n div 256 div 256 div 256"
    by (simp_all flip: div_mult2_eq)
  have 3: "n div 256 div 256 div 256 < 256"
    using assms by (simp add: less_mult_imp_div_less)
  have "n = n div 256 * 256 + n mod 256" by simp
  moreover have "n div 256 = n div 256 div 256 * 256 + n div 256 mod 256" by simp
  moreover have "n div 256 div 256 = n div 256 div 256 div 256 * 256 + n div 256 div 256 mod 256"
    by simp
  ultimately show ?thesis unfolding 1 2 using mod_less [OF 3] by linarith
qed

lemma unat_be16 [be_simps]: "unat (be16 a b) = unat a * 256 + unat b"
  using bytes_bound16 [of "unat a" "unat b"] by (simp add: be16_def)

lemma unat_be32 [be_simps]:
  "unat (be32 a b c d) = unat a * 16777216 + unat b * 65536 + unat c * 256 + unat d"
  using bytes_bound32 [of "unat a" "unat b" "unat c" "unat d"] by (simp add: be32_def)

lemma bytes16_be16 [simp]: "bytes16 (be16 a b) = [a, b]"
  by (simp add: bytes16_def unat_be16 u8n_eq_iff)

lemma bytes32_be32 [simp]: "bytes32 (be32 a b c d) = [a, b, c, d]"
  using bytes_split32 [of "unat a" "unat b" "unat c" "unat d"]
  by (simp add: bytes32_def unat_be32 u8n_eq_iff)

lemma be32_bytes [simp]:
  "be32 (u8n (unat w div 16777216)) (u8n (unat w div 65536)) (u8n (unat w div 256)) (u8n (unat w))
    = w" (is "?l = w")
proof -
  have "unat ?l = unat w"
    by (simp only: unat_be32 unat_u8n bytes_join32 [OF unat_u32_less [of w]])
  then show ?thesis by (simp add: word_unat_eq_iff)
qed

lemma be16_bytes [simp]: "be16 (u8n (unat w div 256)) (u8n (unat w)) = w" (is "?l = w")
proof -
  have "unat w div 256 < 256"
    using unat_u16_less [of w] by (simp add: less_mult_imp_div_less)
  then have "unat ?l = unat w" by (simp add: unat_be16)
  then show ?thesis by (simp add: word_unat_eq_iff)
qed

lemma length_bytes32 [simp]: "length (bytes32 w) = 4"
  by (simp add: bytes32_def)

lemma length_bytes16 [simp]: "length (bytes16 w) = 2"
  by (simp add: bytes16_def)

lemma rd32_bytes32 [simp]: "rd32 (bytes32 w @ xs) = Some w"
  by (simp add: bytes32_def)

lemma rd16_bytes16 [simp]: "rd16 (bytes16 w @ xs) = Some w"
  by (simp add: bytes16_def)

lemma bytes32_inject [simp]: "bytes32 v = bytes32 w \<longleftrightarrow> v = w"
  by (metis append_Nil2 option.inject rd32_bytes32)

lemma rd32_Some_iff: "(\<exists>w. rd32 xs = Some w) \<longleftrightarrow> 4 \<le> length xs"
  by (cases xs rule: rd32.cases) auto

lemma rd16_Some_iff: "(\<exists>w. rd16 xs = Some w) \<longleftrightarrow> 2 \<le> length xs"
  by (cases xs rule: rd16.cases) auto

section \<open>Decimal printing\<close>

definition digit_char :: "nat \<Rightarrow> char" where
  "digit_char n = char_of (48 + n)"

fun dec :: "nat \<Rightarrow> string" where
  "dec n = (if n < 10 then [digit_char n] else dec (n div 10) @ [digit_char (n mod 10)])"

declare dec.simps [simp del]

definition isdigit :: "char \<Rightarrow> bool" where
  "isdigit c \<longleftrightarrow> 48 \<le> (of_char c :: nat) \<and> (of_char c :: nat) \<le> 57"

definition isspace :: "char \<Rightarrow> bool" where
  "isspace c \<longleftrightarrow> (of_char c :: nat) = 32 \<or> (9 \<le> (of_char c :: nat) \<and> (of_char c :: nat) \<le> 13)"

definition digit_val :: "char \<Rightarrow> nat" where
  "digit_val c = of_char c - 48"

lemma of_char_digit_char [simp]: "n < 10 \<Longrightarrow> (of_char (digit_char n) :: nat) = 48 + n"
  by (simp add: digit_char_def)

lemma digit_val_digit_char [simp]: "n < 10 \<Longrightarrow> digit_val (digit_char n) = n"
  by (simp add: digit_val_def)

lemma isdigit_digit_char [simp]: "n < 10 \<Longrightarrow> isdigit (digit_char n)"
  by (simp add: isdigit_def)

lemma isdigit_not_isspace: "isdigit c \<Longrightarrow> \<not> isspace c"
  by (auto simp: isdigit_def isspace_def)

lemma dec_not_Nil [simp]: "dec n \<noteq> []"
  by (subst dec.simps) simp

lemma dec_digits: "c \<in> set (dec n) \<Longrightarrow> isdigit c"
proof (induction n rule: dec.induct)
  case (1 n)
  then show ?case
    by (cases "n < 10") (auto simp: dec.simps [of n])
qed

lemma length_dec_le: "n < 10 ^ k \<Longrightarrow> 0 < k \<Longrightarrow> length (dec n) \<le> k"
proof (induction k arbitrary: n)
  case 0
  then show ?case by simp
next
  case (Suc k)
  show ?case
  proof (cases "n < 10")
    case True
    then show ?thesis by (simp add: dec.simps [of n])
  next
    case False
    then have "0 < k" using Suc.prems by (cases k) auto
    moreover have "n div 10 < 10 ^ k"
      using Suc.prems by (simp add: less_mult_imp_div_less)
    ultimately have "length (dec (n div 10)) \<le> k" by (rule Suc.IH [rotated])
    with False show ?thesis by (simp add: dec.simps [of n])
  qed
qed

lemma length_dec_u32: "length (dec (unat (w :: u32))) \<le> 10"
  using order.strict_trans [OF unat_u32_less [of w], of "10 ^ 10"] by (intro length_dec_le) auto

text \<open>For evaluation.\<close>

lemma digit_chars:
  "digit_char 0 = CHR ''0''" "digit_char 1 = CHR ''1''" "digit_char 2 = CHR ''2''"
  "digit_char 3 = CHR ''3''" "digit_char 4 = CHR ''4''" "digit_char 5 = CHR ''5''"
  "digit_char 6 = CHR ''6''" "digit_char 7 = CHR ''7''" "digit_char 8 = CHR ''8''"
  "digit_char 9 = CHR ''9''"
  by code_simp+

lemmas dec_eval = dec.simps digit_chars digit_chars [simplified]

text \<open>Reading a run of digits back, most significant first.\<close>

definition undec :: "nat \<Rightarrow> string \<Rightarrow> nat" where
  "undec acc ds = foldl (\<lambda>v c. v * 10 + digit_val c) acc ds"

lemma undec_dec: "undec 0 (dec n) = n"
proof (induction n rule: dec.induct)
  case (1 n)
  show ?case
  proof (cases "n < 10")
    case True
    then show ?thesis by (simp add: dec.simps [of n] undec_def)
  next
    case False
    with 1 have "undec 0 (dec (n div 10)) = n div 10" by simp
    with False show ?thesis by (simp add: dec.simps [of n] undec_def)
  qed
qed

lemma dec_inject [simp]: "dec m = dec n \<longleftrightarrow> m = n"
  by (metis undec_dec)

section \<open>Memory comparison and fixed-size records\<close>

text \<open>\<open>memcmp\<close> of two blocks of the same length: the sign of the first difference.\<close>

fun memcmp :: "u8 list \<Rightarrow> u8 list \<Rightarrow> int" where
  "memcmp (x # xs) (y # ys) = (if x = y then memcmp xs ys else if x < y then -1 else 1)"
| "memcmp _ _ = 0"

lemma memcmp_eq_0: "length xs = length ys \<Longrightarrow> memcmp xs ys = 0 \<longleftrightarrow> xs = ys"
  by (induction xs ys rule: list_induct2) auto

lemma memcmp_refl [simp]: "memcmp xs xs = 0"
  by (induction xs) auto

lemma memcmp_swap: "length xs = length ys \<Longrightarrow> memcmp ys xs = - memcmp xs ys"
  by (induction xs ys rule: list_induct2) auto

lemma memcmp_trans:
  "length xs = length ys \<Longrightarrow> length ys = length zs \<Longrightarrow>
    memcmp xs ys < 0 \<Longrightarrow> memcmp ys zs < 0 \<Longrightarrow> memcmp xs zs < 0"
  by (induction xs ys zs rule: list_induct3) (auto split: if_splits)

fun chunks :: "nat \<Rightarrow> nat \<Rightarrow> 'a list \<Rightarrow> 'a list list" where
  "chunks n 0 xs = []"
| "chunks n (Suc k) xs = take n xs # chunks n k (drop n xs)"

lemma length_chunks [simp]: "length (chunks n k xs) = k"
  by (induction k arbitrary: xs) auto

lemma concat_chunks: "concat (chunks n k xs) = take (k * n) xs"
  by (induction k arbitrary: xs) (auto simp: take_add)

lemma chunks_width: "k * n \<le> length xs \<Longrightarrow> c \<in> set (chunks n k xs) \<Longrightarrow> length c = n"
proof (induction k arbitrary: xs)
  case 0
  then show ?case by simp
next
  case (Suc k)
  then show ?case using Suc.IH [of "drop n xs"] by auto
qed

end
