(* ===== verification/BgpTypes.thy ===== *)
theory BgpTypes
  imports Prelude
begin

text \<open>
  The state of a BGP session as the engine under src/src/bgp keeps it: the fields of
  \<open>struct bgp_peer\<close> (bgp.h) that the modelled functions read or write, the capabilities learned
  from the OPEN message, and the selection of the per-daemon database by the type of the peer
  (bgp_util.c). Absent from the record are the sockets, the log and the buffers of the peer.
\<close>

section \<open>Constants of pmacct-defines.h, bgp.h and bgp\_packet.h\<close>

definition FUNC_TYPE_BGP :: nat where "FUNC_TYPE_BGP = 1"
definition FUNC_TYPE_BMP :: nat where "FUNC_TYPE_BMP = 2"
definition FUNC_TYPE_MAX :: nat where "FUNC_TYPE_MAX = 8"

definition AFI_IP :: nat where "AFI_IP = 1"
definition AFI_IP6 :: nat where "AFI_IP6 = 2"
definition AFI_BGP_LS :: nat where "AFI_BGP_LS = 16388"
definition AFI_MAX :: nat where "AFI_MAX = 3"

definition SAFI_UNICAST :: nat where "SAFI_UNICAST = 1"
definition SAFI_MULTICAST :: nat where "SAFI_MULTICAST = 2"
definition SAFI_MPLS_LABEL :: nat where "SAFI_MPLS_LABEL = 4"
definition SAFI_LS_GLOBAL :: nat where "SAFI_LS_GLOBAL = 71"
definition SAFI_LS_VPN :: nat where "SAFI_LS_VPN = 72"
definition SAFI_MPLS_VPN :: nat where "SAFI_MPLS_VPN = 128"
definition SAFI_MAX :: nat where "SAFI_MAX = 129"

definition AF_UNSPEC :: nat where "AF_UNSPEC = 0"
definition AF_INET :: nat where "AF_INET = 2"
definition AF_INET6 :: nat where "AF_INET6 = 10"

lemmas bgp_consts = FUNC_TYPE_BGP_def FUNC_TYPE_BMP_def FUNC_TYPE_MAX_def AFI_IP_def AFI_IP6_def
  AFI_BGP_LS_def AFI_MAX_def SAFI_UNICAST_def SAFI_MULTICAST_def SAFI_MPLS_LABEL_def
  SAFI_LS_GLOBAL_def SAFI_LS_VPN_def SAFI_MPLS_VPN_def SAFI_MAX_def AF_UNSPEC_def AF_INET_def
  AF_INET6_def

text \<open>The session states of bgp.h, in their order.\<close>

datatype bgp_status = Idle | Connect | Active | OpenSent | OpenConfirm | Established | Clearing
  | Deleted

fun status_no :: "bgp_status \<Rightarrow> nat" where
  "status_no Idle = 1"
| "status_no Connect = 2"
| "status_no Active = 3"
| "status_no OpenSent = 4"
| "status_no OpenConfirm = 5"
| "status_no Established = 6"
| "status_no Clearing = 7"
| "status_no Deleted = 8"

instantiation bgp_status :: linorder
begin

definition less_eq_bgp_status :: "bgp_status \<Rightarrow> bgp_status \<Rightarrow> bool" where
  "less_eq_bgp_status a b \<longleftrightarrow> status_no a \<le> status_no b"

definition less_bgp_status :: "bgp_status \<Rightarrow> bgp_status \<Rightarrow> bool" where
  "less_bgp_status a b \<longleftrightarrow> status_no a < status_no b"

instance
proof
  fix a b :: bgp_status
  assume "a \<le> b" "b \<le> a"
  then show "a = b"
    by (cases a; cases b) (auto simp: less_eq_bgp_status_def)
qed (auto simp: less_eq_bgp_status_def less_bgp_status_def)

end

lemmas bgp_status_ord = less_eq_bgp_status_def less_bgp_status_def

section \<open>Peers\<close>

record cap_4as =
  is_used :: bool
  as4 :: u32

record cap_per_af =
  cap :: "nat \<Rightarrow> nat \<Rightarrow> u8"
  afi_max :: nat
  safi_max :: nat

record bgp_peer =
  bp_idx :: nat
  bp_fd :: nat
  bp_type :: nat
  bp_status :: bgp_status
  bp_version :: u8
  bp_myas :: u32
  bp_as :: u32
  bp_ht :: u16
  bp_last_keepalive :: nat
  bp_id :: "(nat \<times> u8 list)"
  bp_addr :: "(nat \<times> u8 list)"
  bp_tcp_port :: u16
  bp_cap_mp :: bool
  bp_cap_4as :: cap_4as
  bp_cap_add_paths :: cap_per_af
  bp_msglen :: nat
  bp_eor :: "nat \<Rightarrow> nat \<Rightarrow> bool"

text \<open>\<open>memset (peer, 0)\<close> and the assignments of \<open>bgp_peer_init\<close> after it; \<open>None\<close> is its \<open>ERR\<close>.\<close>

definition zero_caps :: cap_per_af where
  "zero_caps = \<lparr>cap = (\<lambda>_ _. 0), afi_max = 0, safi_max = 0\<rparr>"

definition zero_peer :: bgp_peer where
  "zero_peer = \<lparr>bp_idx = 0, bp_fd = 0, bp_type = 0, bp_status = Idle, bp_version = 0, bp_myas = 0, bp_as = 0,
     bp_ht = 0, bp_last_keepalive = 0, bp_id = (0, []), bp_addr = (0, []),
     bp_tcp_port = 0, bp_cap_mp = False,
     bp_cap_4as = \<lparr>is_used = False, as4 = 0\<rparr>, bp_cap_add_paths = zero_caps, bp_msglen = 0,
     bp_eor = (\<lambda>_ _. False)\<rparr>"

text \<open>\<open>bgp_select_routing_db\<close> and \<open>bgp_select_misc_db\<close>: the index of the database in the array,
  \<open>None\<close> for \<open>NULL\<close>. The type field only ever holds one of the FUNC\_TYPE constants, none of which
  is negative.\<close>

definition bgp_select_routing_db :: "nat \<Rightarrow> nat option" where
  "bgp_select_routing_db t = (if t < FUNC_TYPE_MAX then Some t else None)"

definition bgp_select_misc_db :: "nat \<Rightarrow> nat option" where
  "bgp_select_misc_db t = (if t < FUNC_TYPE_MAX then Some t else None)"

text \<open>The guard with which most functions start: a peer is given and its database exists.\<close>

definition peer_ok :: "bgp_peer option \<Rightarrow> bool" where
  "peer_ok p \<longleftrightarrow> (case p of None \<Rightarrow> False | Some q \<Rightarrow> bgp_select_routing_db (bp_type q) \<noteq> None)"

definition bgp_afi2family :: "nat \<Rightarrow> nat" where
  "bgp_afi2family afi = (if afi = AFI_IP then AF_INET else if afi = AFI_IP6 then AF_INET6
     else AF_UNSPEC)"

lemma peer_ok_Some [simp]: "peer_ok (Some q) \<longleftrightarrow> bp_type q < FUNC_TYPE_MAX"
  by (simp add: peer_ok_def bgp_select_routing_db_def)

lemma peer_ok_None [simp]: "\<not> peer_ok None"
  by (simp add: peer_ok_def)

lemma peer_ok_misc: "peer_ok (Some q) \<longleftrightarrow> bgp_select_misc_db (bp_type q) \<noteq> None"
  by (simp add: bgp_select_misc_db_def)

end
