(* ===== verification/BgpHash.thy ===== *)
theory BgpHash
  imports BgpTypes
begin

text \<open>
  The hash table of src/src/bgp/bgp\_hash.c: an array of chains of backets, each with the key
  computed at insertion. The two function pointers of \<open>struct hash\<close> are the arguments \<open>hk\<close>
  (\<open>hash_key\<close>) and \<open>hc\<close> (\<open>hash_cmp\<close>) of the operations. The locale \<open>hash_fun\<close> is what a client of
  the table has to promise of the two; its lemmas say that the table is a set of data up to
  \<open>hc\<close>.
\<close>

section \<open>Data\<close>

record 'd hash_backet =
  hb_key :: u32
  hb_data :: 'd

record 'd hash =
  hash_index :: "'d hash_backet list list"
  hash_size :: nat
  hash_count :: nat

section \<open>Operations\<close>

definition hash_create_size :: "nat \<Rightarrow> 'd hash" where
  "hash_create_size sz = \<lparr>hash_index = replicate sz [], hash_size = sz, hash_count = 0\<rparr>"

definition hash_create :: "nat \<Rightarrow> 'd hash" where
  "hash_create buckets = hash_create_size buckets"

definition hash_alloc_intern :: "'d \<Rightarrow> 's \<Rightarrow> ('d \<times> 's) run" where
  "hash_alloc_intern arg s = Inr (arg, s)"

text \<open>The chain of a key, and the walk over it that both \<open>hash_get\<close> and \<open>hash_release\<close> start with.\<close>

definition hash_slot :: "'d hash \<Rightarrow> u32 \<Rightarrow> nat" where
  "hash_slot h key = unat key mod hash_size h"

definition backet_is :: "('d \<Rightarrow> 'd \<Rightarrow> bool) \<Rightarrow> u32 \<Rightarrow> 'd \<Rightarrow> 'd hash_backet \<Rightarrow> bool" where
  "backet_is hc key d b \<longleftrightarrow> hb_key b = key \<and> hc (hb_data b) d"

definition hash_find :: "('d \<Rightarrow> u32) \<Rightarrow> ('d \<Rightarrow> 'd \<Rightarrow> bool) \<Rightarrow> 'd hash \<Rightarrow> 'd \<Rightarrow> 'd option" where
  "hash_find hk hc h d =
     map_option hb_data (find (backet_is hc (hk d) d) (hash_index h ! hash_slot h (hk d)))"

text \<open>A new backet goes to the head of its chain.\<close>

definition hash_push :: "'d hash \<Rightarrow> u32 \<Rightarrow> 'd \<Rightarrow> 'd hash" where
  "hash_push h key d =
     h\<lparr>hash_index := (hash_index h)[hash_slot h key :=
          \<lparr>hb_key = key, hb_data = d\<rparr> # hash_index h ! hash_slot h key],
       hash_count := Suc (hash_count h)\<rparr>"

definition hash_get ::
  "bgp_peer option \<Rightarrow> ('d \<Rightarrow> u32) \<Rightarrow> ('d \<Rightarrow> 'd \<Rightarrow> bool) \<Rightarrow> 'd hash \<Rightarrow> 'd
    \<Rightarrow> ('d \<Rightarrow> 's \<Rightarrow> ('d \<times> 's) run) option \<Rightarrow> 's \<Rightarrow> ('d option \<times> 'd hash \<times> 's) run" where
  "hash_get peer hk hc h d alloc s =
     (if \<not> peer_ok peer then Inr (None, h, s)
      else if hash_size h = 0 then Inl DivByZero
      else case hash_find hk hc h d of
             Some x \<Rightarrow> Inr (Some x, h, s)
           | None \<Rightarrow>
               (case alloc of
                  None \<Rightarrow> Inr (None, h, s)
                | Some f \<Rightarrow> fbind (f d s) (\<lambda>(nd, s'). Inr (Some nd, hash_push h (hk d) nd, s'))))"

fun hash_unlink :: "('d hash_backet \<Rightarrow> bool) \<Rightarrow> 'd hash_backet list
    \<Rightarrow> ('d \<times> 'd hash_backet list) option" where
  "hash_unlink p [] = None"
| "hash_unlink p (b # bs) =
     (if p b then Some (hb_data b, bs)
      else map_option (\<lambda>(r, bs'). (r, b # bs')) (hash_unlink p bs))"

definition hash_release ::
  "('d \<Rightarrow> u32) \<Rightarrow> ('d \<Rightarrow> 'd \<Rightarrow> bool) \<Rightarrow> 'd hash \<Rightarrow> 'd \<Rightarrow> ('d option \<times> 'd hash) run" where
  "hash_release hk hc h d =
     (if hash_size h = 0 then Inl DivByZero
      else let i = hash_slot h (hk d)
           in case hash_unlink (backet_is hc (hk d) d) (hash_index h ! i) of
                None \<Rightarrow> Inr (None, h)
              | Some (r, bs) \<Rightarrow>
                  Inr (Some r, h\<lparr>hash_index := (hash_index h)[i := bs],
                                 hash_count := hash_count h - 1\<rparr>))"

text \<open>The callbacks of \<open>hash_iterate\<close> and \<open>hash_clean\<close> act on a state of the caller's; the chains
  are walked in the order of the array.\<close>

definition hash_iterate :: "('d hash_backet \<Rightarrow> 's \<Rightarrow> 's) \<Rightarrow> 'd hash \<Rightarrow> 's \<Rightarrow> 's" where
  "hash_iterate func h s = fold (fold func) (hash_index h) s"

definition hash_clean :: "('d \<Rightarrow> 's \<Rightarrow> 's) option \<Rightarrow> 'd hash \<Rightarrow> 's \<Rightarrow> 'd hash \<times> 's" where
  "hash_clean free_func h s =
     (h\<lparr>hash_index := map (\<lambda>_. []) (hash_index h),
        hash_count := hash_count h - sum_list (map length (hash_index h))\<rparr>,
      case free_func of None \<Rightarrow> s
      | Some f \<Rightarrow> fold (fold (\<lambda>hb. f (hb_data hb))) (hash_index h) s)"

section \<open>Contents and invariant\<close>

definition hash_entries :: "'d hash \<Rightarrow> 'd list" where
  "hash_entries h = map hb_data (concat (hash_index h))"

definition hash_inv :: "('d \<Rightarrow> bool) \<Rightarrow> ('d \<Rightarrow> u32) \<Rightarrow> ('d \<Rightarrow> 'd \<Rightarrow> bool) \<Rightarrow> 'd hash \<Rightarrow> bool" where
  "hash_inv ok hk hc h \<longleftrightarrow>
     0 < hash_size h \<and> length (hash_index h) = hash_size h
   \<and> (\<forall>i < hash_size h. \<forall>b \<in> set (hash_index h ! i).
        ok (hb_data b) \<and> hb_key b = hk (hb_data b) \<and> hash_slot h (hk (hb_data b)) = i)
   \<and> (\<forall>i < hash_size h.
        sorted_wrt (\<lambda>a b. \<not> hc (hb_data a) (hb_data b)) (hash_index h ! i))
   \<and> hash_count h = length (hash_entries h)"

lemma hash_slot_less [simp]: "0 < hash_size h \<Longrightarrow> hash_slot h k < hash_size h"
  by (simp add: hash_slot_def)

lemma hash_inv_size: "hash_inv ok hk hc h \<Longrightarrow> 0 < hash_size h"
  by (simp add: hash_inv_def)

lemma hash_inv_count: "hash_inv ok hk hc h \<Longrightarrow> hash_count h = length (hash_entries h)"
  by (simp add: hash_inv_def)

lemma hash_inv_create: "0 < n \<Longrightarrow> hash_inv ok hk hc (hash_create n)"
  by (simp add: hash_inv_def hash_create_def hash_create_size_def hash_entries_def)

lemma hash_entries_create [simp]: "hash_entries (hash_create n) = []"
  by (simp add: hash_entries_def hash_create_def hash_create_size_def)

lemma hash_invI:
  assumes "0 < hash_size h" "length (hash_index h) = hash_size h"
    and "\<And>i b. i < hash_size h \<Longrightarrow> b \<in> set (hash_index h ! i) \<Longrightarrow>
      ok (hb_data b) \<and> hb_key b = hk (hb_data b) \<and> hash_slot h (hk (hb_data b)) = i"
    and "\<And>i. i < hash_size h \<Longrightarrow>
      sorted_wrt (\<lambda>a b. \<not> hc (hb_data a) (hb_data b)) (hash_index h ! i)"
    and "hash_count h = length (hash_entries h)"
  shows "hash_inv ok hk hc h"
  using assms by (simp add: hash_inv_def)

lemma hash_inv_backet:
  assumes "hash_inv ok hk hc h" "i < hash_size h" "b \<in> set (hash_index h ! i)"
  shows "ok (hb_data b)" "hb_key b = hk (hb_data b)" "hash_slot h (hk (hb_data b)) = i"
  using assms by (simp_all add: hash_inv_def)

lemma hash_inv_chain:
  assumes "hash_inv ok hk hc h" "i < hash_size h"
  shows "sorted_wrt (\<lambda>a b. \<not> hc (hb_data a) (hb_data b)) (hash_index h ! i)"
  using assms by (simp add: hash_inv_def)

lemma hash_inv_slot:
  assumes "hash_inv ok hk hc h"
  shows "hash_slot h k < hash_size h" "hash_slot h k < length (hash_index h)"
    "length (hash_index h) = hash_size h"
  using assms by (simp_all add: hash_inv_def)

lemma set_hash_entries:
  "x \<in> set (hash_entries h) \<longleftrightarrow>
    (\<exists>i b. i < length (hash_index h) \<and> b \<in> set (hash_index h ! i) \<and> x = hb_data b)"
  unfolding hash_entries_def set_map set_concat image_iff Bex_def UN_iff
  by (metis in_set_conv_nth)

lemma hash_inv_entry:
  assumes "hash_inv ok hk hc h" "x \<in> set (hash_entries h)"
  shows "ok x" and "\<lparr>hb_key = hk x, hb_data = x\<rparr> \<in> set (hash_index h ! hash_slot h (hk x))"
proof -
  from assms obtain i b where b: "i < hash_size h" "b \<in> set (hash_index h ! i)" "x = hb_data b"
    by (auto simp: set_hash_entries hash_inv_slot(3))
  note c = hash_inv_backet [OF assms(1) b(1,2)]
  show "ok x" using c(1) b(3) by simp
  have "\<lparr>hb_key = hk x, hb_data = x\<rparr> = b" using c(2) b(3) by simp
  moreover have "hash_slot h (hk x) = i" using c(3) b(3) by simp
  ultimately show "\<lparr>hb_key = hk x, hb_data = x\<rparr> \<in> set (hash_index h ! hash_slot h (hk x))"
    using b(2) by (simp only:)
qed

lemma mset_concat_update:
  "i < length xss \<Longrightarrow>
    mset (concat (xss[i := ys])) + mset (xss ! i) = mset (concat xss) + mset ys"
proof (induction xss arbitrary: i)
  case Nil
  then show ?case by simp
next
  case (Cons xs xss)
  then show ?case by (cases i) (simp_all add: add_ac)
qed

lemma hash_unlink_Some:
  "hash_unlink p bs = Some (r, bs') \<Longrightarrow>
    \<exists>us b vs. bs = us @ b # vs \<and> bs' = us @ vs \<and> p b \<and> r = hb_data b \<and> (\<forall>u \<in> set us. \<not> p u)"
proof (induction bs arbitrary: bs')
  case Nil
  then show ?case by simp
next
  case (Cons a bs)
  show ?case
  proof (cases "p a")
    case True
    with Cons.prems show ?thesis by (intro exI [of _ "[]"]) auto
  next
    case False
    with Cons.prems obtain bs'' where *: "hash_unlink p bs = Some (r, bs'')" "bs' = a # bs''"
      by auto
    then obtain us b vs where "bs = us @ b # vs" "bs'' = us @ vs" "p b" "r = hb_data b"
      "\<forall>u \<in> set us. \<not> p u"
      using Cons.IH by blast
    with * False show ?thesis by (intro exI [of _ "a # us"]) auto
  qed
qed

lemma hash_unlink_None: "hash_unlink p bs = None \<longleftrightarrow> (\<forall>b \<in> set bs. \<not> p b)"
  by (induction bs) auto

lemma hash_unlink_find: "hash_unlink p bs = None \<longleftrightarrow> find p bs = None"
  by (auto simp: hash_unlink_None find_None_iff)

section \<open>The interface: what a key and a comparison function promise\<close>

locale hash_fun =
  fixes ok :: "'d \<Rightarrow> bool" and hk :: "'d \<Rightarrow> u32" and hc :: "'d \<Rightarrow> 'd \<Rightarrow> bool"
  assumes cmp_refl: "ok x \<Longrightarrow> hc x x"
    and cmp_sym: "ok x \<Longrightarrow> ok y \<Longrightarrow> hc x y \<Longrightarrow> hc y x"
    and cmp_trans: "ok x \<Longrightarrow> ok y \<Longrightarrow> ok z \<Longrightarrow> hc x y \<Longrightarrow> hc y z \<Longrightarrow> hc x z"
    and key_cmp: "ok x \<Longrightarrow> ok y \<Longrightarrow> hc x y \<Longrightarrow> hk x = hk y"
begin

lemma find_None:
  assumes "hash_inv ok hk hc h" "ok d"
  shows "hash_find hk hc h d = None \<longleftrightarrow> (\<forall>x \<in> set (hash_entries h). \<not> hc x d)"
proof
  assume n: "hash_find hk hc h d = None"
  show "\<forall>x \<in> set (hash_entries h). \<not> hc x d"
  proof
    fix x assume x: "x \<in> set (hash_entries h)"
    show "\<not> hc x d"
    proof
      assume c: "hc x d"
      with assms x have "hk x = hk d" by (metis hash_inv_entry(1) key_cmp)
      with hash_inv_entry(2) [OF assms(1) x]
      have "\<exists>b \<in> set (hash_index h ! hash_slot h (hk d)). backet_is hc (hk d) d b"
        using c by (intro bexI) (auto simp: backet_is_def)
      with n show False by (auto simp: hash_find_def find_None_iff)
    qed
  qed
next
  assume a: "\<forall>x \<in> set (hash_entries h). \<not> hc x d"
  from assms have "hash_slot h (hk d) < length (hash_index h)"
    by (simp add: hash_inv_def)
  then have "\<not> hc (hb_data b) d" if "b \<in> set (hash_index h ! hash_slot h (hk d))" for b
    using a that by (metis set_hash_entries)
  then show "hash_find hk hc h d = None"
    by (auto simp: hash_find_def find_None_iff backet_is_def)
qed

lemma find_Some:
  assumes "hash_inv ok hk hc h" "hash_find hk hc h d = Some x"
  shows "x \<in> set (hash_entries h)" and "hc x d" and "ok x"
proof -
  from assms(2) obtain b where b: "b \<in> set (hash_index h ! hash_slot h (hk d))"
    "hc (hb_data b) d" "x = hb_data b"
    unfolding hash_find_def map_option_eq_Some find_Some_iff backet_is_def by (metis nth_mem)
  moreover have "hash_slot h (hk d) < length (hash_index h)"
    using assms(1) by (simp add: hash_inv_def)
  ultimately show x: "x \<in> set (hash_entries h)" and "hc x d"
    by (auto simp: set_hash_entries)
  show "ok x" using hash_inv_entry(1) [OF assms(1) x] .
qed

text \<open>Two entries of one table are never equal under the comparison.\<close>

lemma entries_apart:
  assumes "hash_inv ok hk hc h" "i < j" "j < length (hash_index h ! k)" "k < hash_size h"
  shows "\<not> hc (hb_data (hash_index h ! k ! i)) (hb_data (hash_index h ! k ! j))"
  using assms by (auto simp: hash_inv_def sorted_wrt_iff_nth_less)

lemma entry_unique:
  assumes inv: "hash_inv ok hk hc h" and x: "x \<in> set (hash_entries h)"
    and y: "y \<in> set (hash_entries h)" and c: "hc x y"
  shows "x = y"
proof -
  let ?k = "hash_slot h (hk x)"
  have ok: "ok x" "ok y" using inv x y by (blast intro: hash_inv_entry(1))+
  with c have "hk y = hk x" by (simp add: key_cmp)
  with hash_inv_entry(2) [OF inv x] hash_inv_entry(2) [OF inv y]
  obtain i j where i: "i < length (hash_index h ! ?k)" "hb_data (hash_index h ! ?k ! i) = x"
    and j: "j < length (hash_index h ! ?k)" "hb_data (hash_index h ! ?k ! j) = y"
    by (metis hash_backet.select_convs(2) in_set_conv_nth)
  have k: "?k < hash_size h" using inv by (rule hash_inv_slot)
  consider "i < j" | "j < i" | "i = j" by linarith
  then show ?thesis
  proof cases
    case 1
    from entries_apart [OF inv this j(1) k] i j c show ?thesis by simp
  next
    case 2
    from entries_apart [OF inv this i(1) k] i j cmp_sym [OF ok c] show ?thesis by simp
  next
    case 3
    with i j show ?thesis by simp
  qed
qed

lemma push_entries:
  assumes "hash_inv ok hk hc h"
  shows "mset (hash_entries (hash_push h k d)) = add_mset d (mset (hash_entries h))"
proof -
  let ?i = "hash_slot h k" and ?new = "\<lparr>hb_key = k, hb_data = d\<rparr>"
  have "?i < length (hash_index h)" using assms by (simp add: hash_inv_def)
  from mset_concat_update [OF this, of "?new # hash_index h ! ?i"]
  have "mset (concat ((hash_index h)[?i := ?new # hash_index h ! ?i]))
      = add_mset ?new (mset (concat (hash_index h)))"
    by simp
  then have "image_mset hb_data (mset (concat ((hash_index h)[?i := ?new # hash_index h ! ?i])))
      = image_mset hb_data (add_mset ?new (mset (concat (hash_index h))))"
    by (rule arg_cong)
  then show ?thesis
    by (simp add: hash_entries_def hash_push_def flip: mset_map)
qed

lemma push_inv:
  assumes inv: "hash_inv ok hk hc h" and "ok d" "ok nd" "hk nd = hk d"
    and new: "\<forall>x \<in> set (hash_entries h). \<not> hc nd x"
  shows "hash_inv ok hk hc (hash_push h (hk d) nd)"
proof -
  let ?h' = "hash_push h (hk d) nd" and ?i = "hash_slot h (hk d)"
  have i: "?i < hash_size h" "length (hash_index h) = hash_size h"
    using inv by (simp_all add: hash_inv_def)
  have s: "hash_size ?h' = hash_size h" "\<And>k. hash_slot ?h' k = hash_slot h k"
    by (simp_all add: hash_push_def hash_slot_def)
  have n: "hash_index ?h' ! j = (if j = ?i then \<lparr>hb_key = hk d, hb_data = nd\<rparr> # hash_index h ! j
      else hash_index h ! j)" if "j < hash_size h" for j
    using that i by (auto simp: hash_push_def nth_list_update)
  have "size (mset (hash_entries ?h')) = Suc (size (mset (hash_entries h)))"
    by (simp add: push_entries [OF inv])
  then have "length (hash_entries ?h') = Suc (length (hash_entries h))" by simp
  moreover have "hash_count ?h' = Suc (hash_count h)" by (simp add: hash_push_def)
  moreover have fresh: "\<not> hc nd (hb_data b)" if "b \<in> set (hash_index h ! ?i)" for b
    using new hash_inv_slot(2) [OF inv] that by (metis set_hash_entries)
  moreover have "length (hash_index ?h') = hash_size h"
    using i by (simp add: hash_push_def)
  ultimately show ?thesis
  proof (intro hash_invI)
    fix j assume "j < hash_size ?h'"
    then have j: "j < hash_size h" by (simp add: s)
    note chain = hash_inv_chain [OF inv j]
    show "sorted_wrt (\<lambda>a b. \<not> hc (hb_data a) (hb_data b)) (hash_index ?h' ! j)"
      using chain n [OF j] fresh by auto
    fix c assume "c \<in> set (hash_index ?h' ! j)"
    then consider "c = \<lparr>hb_key = hk d, hb_data = nd\<rparr>" "j = ?i" | "c \<in> set (hash_index h ! j)"
      using n [OF j] by (auto split: if_splits)
    then show "ok (hb_data c) \<and> hb_key c = hk (hb_data c) \<and> hash_slot ?h' (hk (hb_data c)) = j"
    proof cases
      case 1
      then show ?thesis using assms(2-4) by (simp add: s)
    next
      case 2
      from hash_inv_backet [OF inv j this] show ?thesis by (simp add: s)
    qed
  qed (use i hash_inv_count [OF inv] in \<open>simp_all add: s(1)\<close>)
qed

text \<open>The table after \<open>hash_release\<close>: the released datum is gone, everything else stays.\<close>

lemma release_None:
  assumes "hash_inv ok hk hc h" "ok d"
  shows "(\<exists>h'. hash_release hk hc h d = Inr (None, h')) \<longleftrightarrow> (\<forall>x \<in> set (hash_entries h). \<not> hc x d)"
proof -
  have "hash_size h \<noteq> 0" using assms by (simp add: hash_inv_def)
  then have "(\<exists>h'. hash_release hk hc h d = Inr (None, h')) \<longleftrightarrow> hash_find hk hc h d = None"
    using hash_unlink_find [of "backet_is hc (hk d) d" "hash_index h ! hash_slot h (hk d)"]
    by (cases "hash_unlink (backet_is hc (hk d) d) (hash_index h ! hash_slot h (hk d))")
       (auto simp: hash_release_def hash_find_def Let_def)
  then show ?thesis by (simp add: find_None [OF assms])
qed

lemma release_Some:
  assumes inv: "hash_inv ok hk hc h" and r: "hash_release hk hc h d = Inr (Some x, h')"
  shows "hc x d" and "mset (hash_entries h) = add_mset x (mset (hash_entries h'))"
    and "hash_inv ok hk hc h'"
proof -
  let ?i = "hash_slot h (hk d)"
  have i: "?i < hash_size h" "length (hash_index h) = hash_size h" "hash_size h \<noteq> 0"
    using inv by (simp_all add: hash_inv_def)
  from r i obtain bs where bs: "hash_unlink (backet_is hc (hk d) d) (hash_index h ! ?i) = Some (x, bs)"
    and h': "h' = h\<lparr>hash_index := (hash_index h)[?i := bs], hash_count := hash_count h - 1\<rparr>"
    by (auto simp: hash_release_def Let_def split: option.splits)
  from hash_unlink_Some [OF bs] obtain us b vs where u: "hash_index h ! ?i = us @ b # vs"
    "bs = us @ vs" "backet_is hc (hk d) d b" "x = hb_data b"
    by blast
  then show "hc x d" by (simp add: backet_is_def)
  have "mset (concat ((hash_index h)[?i := bs])) + mset (hash_index h ! ?i)
      = mset (concat (hash_index h)) + mset bs"
    using i by (intro mset_concat_update) simp
  then have m: "mset (concat (hash_index h)) = add_mset b (mset (concat ((hash_index h)[?i := bs])))"
    by (simp add: u)
  then have "image_mset hb_data (mset (concat (hash_index h)))
      = image_mset hb_data (add_mset b (mset (concat ((hash_index h)[?i := bs]))))"
    by (rule arg_cong)
  then show e: "mset (hash_entries h) = add_mset x (mset (hash_entries h'))"
    by (simp add: hash_entries_def h' u(4) flip: mset_map)
  then have len: "length (hash_entries h) = Suc (length (hash_entries h'))"
    by (metis size_add_mset size_mset)
  have s: "hash_size h' = hash_size h" "\<And>k. hash_slot h' k = hash_slot h k"
    by (simp_all add: h' hash_slot_def)
  have n: "hash_index h' ! j = (if j = ?i then us @ vs else hash_index h ! j)"
    if "j < hash_size h" for j
    using that i by (auto simp: h' nth_list_update u)
  have sub: "set (hash_index h' ! j) \<subseteq> set (hash_index h ! j)" if "j < hash_size h" for j
    using n [OF that] by (auto simp: u)
  show "hash_inv ok hk hc h'"
  proof (rule hash_invI)
    fix j assume "j < hash_size h'"
    then have j: "j < hash_size h" by (simp add: s)
    show "sorted_wrt (\<lambda>a b. \<not> hc (hb_data a) (hb_data b)) (hash_index h' ! j)"
      using hash_inv_chain [OF inv j] n [OF j] u(1) by (auto simp: sorted_wrt_append)
    fix c assume "c \<in> set (hash_index h' ! j)"
    then have "c \<in> set (hash_index h ! j)" using sub [OF j] by blast
    from hash_inv_backet [OF inv j this]
    show "ok (hb_data c) \<and> hb_key c = hk (hb_data c) \<and> hash_slot h' (hk (hb_data c)) = j"
      by (simp add: s)
  next
    show "hash_count h' = length (hash_entries h')"
      using hash_inv_count [OF inv] len by (simp add: h')
  qed (use i in \<open>simp_all add: s(1)\<close>, simp add: h')
qed

lemma release_mem:
  assumes inv: "hash_inv ok hk hc h" and x: "x \<in> set (hash_entries h)"
  shows "\<exists>y h'. hash_release hk hc h x = Inr (Some y, h')"
proof -
  have "ok x" using hash_inv_entry(1) [OF inv x] .
  then have "\<nexists>h'. hash_release hk hc h x = Inr (None, h')"
    using release_None [OF inv] x cmp_refl by blast
  moreover have "hash_size h \<noteq> 0" using inv by (simp add: hash_inv_def)
  ultimately show ?thesis
    by (auto simp: hash_release_def Let_def split: option.splits)
qed

end

end
