(* ===== verification/BgpIntern.thy ===== *)
theory BgpIntern
  imports BgpHash
begin

text \<open>
  Interned, reference-counted objects: what \<open>aspath_intern\<close>, \<open>community_intern\<close>,
  \<open>ecommunity_intern\<close>, \<open>lcommunity_intern\<close> and their \<open>_unintern\<close> counterparts have in common. A
  pool is the heap of the objects of one kind together with the hash table (bgp\_hash.c) that
  holds the addresses of the interned ones. \<open>malloc\<close> gives an address never used before; its
  failure ends the process in the C code and is not modelled. The C functions of the four kinds
  have the same text up to the names of the structure's operations; these are collected in a
  record, and the locale \<open>obj_class\<close> says what they must satisfy.
\<close>

section \<open>Pools\<close>

record 'o pool =
  heap :: "nat \<Rightarrow> 'o option"
  brk :: nat
  tab :: "nat hash"

definition pool_init :: "nat \<Rightarrow> 'o pool" where
  "pool_init buckets = \<lparr>heap = (\<lambda>_. None), brk = 1, tab = hash_create buckets\<rparr>"

definition deref :: "'o pool \<Rightarrow> nat \<Rightarrow> 'o run" where
  "deref P a = (case heap P a of None \<Rightarrow> Inl UseAfterFree | Some x \<Rightarrow> Inr x)"

definition pool_alloc :: "'o pool \<Rightarrow> 'o \<Rightarrow> nat \<times> 'o pool" where
  "pool_alloc P x = (brk P, P\<lparr>heap := (heap P)(brk P \<mapsto> x), brk := Suc (brk P)\<rparr>)"

definition pool_store :: "'o pool \<Rightarrow> nat \<Rightarrow> 'o \<Rightarrow> 'o pool" where
  "pool_store P a x = P\<lparr>heap := (heap P)(a \<mapsto> x)\<rparr>"

definition pool_free :: "'o pool \<Rightarrow> nat \<Rightarrow> 'o pool" where
  "pool_free P a = P\<lparr>heap := (heap P)(a := None)\<rparr>"

text \<open>
  The operations of one kind of object: hash key, comparison, reading and writing the reference
  count, the writes that computing the key makes to the object (an AS path caches its string),
  and filling in the string when it is missing.
\<close>

record 'o obj_ops =
  o_key :: "'o \<Rightarrow> u32"
  o_cmp :: "'o \<Rightarrow> 'o \<Rightarrow> bool"
  o_ref :: "'o \<Rightarrow> nat"
  o_set_ref :: "nat \<Rightarrow> 'o \<Rightarrow> 'o"
  o_touch :: "'o \<Rightarrow> 'o"
  o_mkstr :: "'o \<Rightarrow> 'o"

definition pkey :: "'o obj_ops \<Rightarrow> (nat \<Rightarrow> 'o option) \<Rightarrow> nat \<Rightarrow> u32" where
  "pkey ops h a = (case h a of None \<Rightarrow> 0 | Some x \<Rightarrow> o_key ops x)"

definition pcmp :: "'o obj_ops \<Rightarrow> (nat \<Rightarrow> 'o option) \<Rightarrow> nat \<Rightarrow> nat \<Rightarrow> bool" where
  "pcmp ops h a b = (case h a of None \<Rightarrow> False
     | Some x \<Rightarrow> (case h b of None \<Rightarrow> False | Some y \<Rightarrow> o_cmp ops x y))"

section \<open>Interning and releasing\<close>

definition bump_ref :: "'o obj_ops \<Rightarrow> 'o \<Rightarrow> 'o" where
  "bump_ref ops x = o_set_ref ops (Suc (o_ref ops x)) x"

definition obj_intern ::
  "'o obj_ops \<Rightarrow> bgp_peer option \<Rightarrow> 'o pool \<Rightarrow> nat \<Rightarrow> (nat option \<times> 'o pool) run" where
  "obj_intern ops peer P a =
     (if \<not> peer_ok peer then Inr (None, P)
      else fbind (deref P a) (\<lambda>x.
        c_assert (o_ref ops x = 0)
          (let P0 = pool_store P a (o_touch ops x)
           in fbind (hash_get peer (pkey ops (heap P0)) (pcmp ops (heap P0)) (tab P0) a
                       (Some hash_alloc_intern) ())
                (\<lambda>(found, t, _).
                   case found of
                     None \<Rightarrow> Inl NullDeref
                   | Some r \<Rightarrow>
                       let P1 = (if r \<noteq> a then pool_free P0 a else P0)\<lparr>tab := t\<rparr>
                       in fbind (deref P1 r)
                            (\<lambda>y. Inr (Some r, pool_store P1 r (o_mkstr ops (bump_ref ops y))))))))"

definition obj_unintern ::
  "'o obj_ops \<Rightarrow> bgp_peer option \<Rightarrow> 'o pool \<Rightarrow> nat option \<Rightarrow> 'o pool run" where
  "obj_unintern ops peer P ptr =
     (if \<not> peer_ok peer then Inr P
      else case ptr of
        None \<Rightarrow> Inl NullDeref
      | Some a \<Rightarrow>
          fbind (deref P a) (\<lambda>x.
            let n = (if o_ref ops x \<noteq> 0 then o_ref ops x - 1 else o_ref ops x);
                P0 = pool_store P a (o_set_ref ops n x)
            in if n \<noteq> 0 then Inr P0
               else let P1 = pool_store P a (o_touch ops (o_set_ref ops n x))
                    in fbind (hash_release (pkey ops (heap P1)) (pcmp ops (heap P1)) (tab P1) a)
                         (\<lambda>(ret, t).
                            c_assert (ret \<noteq> None) (Inr (pool_free (P1\<lparr>tab := t\<rparr>) a)))))"

text \<open>\<open>refcnt++\<close> on an object already interned, as \<open>bgp_attr_intern\<close> does for shared attributes.\<close>

definition obj_share :: "'o obj_ops \<Rightarrow> 'o pool \<Rightarrow> nat \<Rightarrow> 'o pool run" where
  "obj_share ops P a = fbind (deref P a) (\<lambda>x. Inr (pool_store P a (bump_ref ops x)))"

section \<open>The pool invariant\<close>

abbreviation pool_ptrs :: "'o pool \<Rightarrow> nat set" where
  "pool_ptrs P \<equiv> set (hash_entries (tab P))"

definition live :: "('o \<Rightarrow> bool) \<Rightarrow> (nat \<Rightarrow> 'o option) \<Rightarrow> nat \<Rightarrow> bool" where
  "live good h a \<longleftrightarrow> (case h a of None \<Rightarrow> False | Some x \<Rightarrow> good x)"

definition pool_inv :: "'o obj_ops \<Rightarrow> ('o \<Rightarrow> bool) \<Rightarrow> 'o pool \<Rightarrow> bool" where
  "pool_inv ops good P \<longleftrightarrow>
     hash_inv (live good (heap P)) (pkey ops (heap P)) (pcmp ops (heap P)) (tab P)
   \<and> distinct (hash_entries (tab P))
   \<and> (\<forall>a \<in> pool_ptrs P. \<exists>x. heap P a = Some x \<and> good x \<and> 0 < o_ref ops x)
   \<and> (\<forall>a. heap P a \<noteq> None \<longrightarrow> a < brk P)"

lemma hash_inv_cong:
  assumes inv: "hash_inv ok hk hc h"
    and "\<And>x. x \<in> set (hash_entries h) \<Longrightarrow> ok' x \<and> hk' x = hk x"
    and "\<And>x y. x \<in> set (hash_entries h) \<Longrightarrow> y \<in> set (hash_entries h) \<Longrightarrow> hc' x y = hc x y"
  shows "hash_inv ok' hk' hc' h"
proof (rule hash_invI)
  fix i assume i: "i < hash_size h"
  then have mem: "hb_data b \<in> set (hash_entries h)" if "b \<in> set (hash_index h ! i)" for b
    using that hash_inv_slot(3) [OF inv] by (auto simp: set_hash_entries)
  show "sorted_wrt (\<lambda>a b. \<not> hc' (hb_data a) (hb_data b)) (hash_index h ! i)"
    using hash_inv_chain [OF inv i] by (rule sorted_wrt_mono_rel [rotated]) (simp add: assms(3) mem)
  fix b assume b: "b \<in> set (hash_index h ! i)"
  from hash_inv_backet [OF inv i b] assms(2) [OF mem [OF b]]
  show "ok' (hb_data b) \<and> hb_key b = hk' (hb_data b) \<and> hash_slot h (hk' (hb_data b)) = i"
    by simp
next
  show "0 < hash_size h" using inv by (rule hash_inv_size)
  show "length (hash_index h) = hash_size h" using inv by (rule hash_inv_slot(3))
  show "hash_count h = length (hash_entries h)" using inv by (rule hash_inv_count)
qed

lemma pool_inv_init: "0 < n \<Longrightarrow> pool_inv ops good (pool_init n)"
  by (simp add: pool_inv_def pool_init_def hash_inv_create)

lemma pool_invD:
  assumes "pool_inv ops good P"
  shows "hash_inv (live good (heap P)) (pkey ops (heap P)) (pcmp ops (heap P)) (tab P)"
    and "distinct (hash_entries (tab P))"
    and "a \<in> pool_ptrs P \<Longrightarrow> \<exists>x. heap P a = Some x \<and> good x \<and> 0 < o_ref ops x"
    and "heap P a \<noteq> None \<Longrightarrow> a < brk P"
    and "heap P (brk P) = None"
  using assms by (auto simp: pool_inv_def)

lemma pool_fresh_not_ptr: "pool_inv ops good P \<Longrightarrow> heap P a = None \<Longrightarrow> a \<notin> pool_ptrs P"
  by (auto simp: pool_inv_def)

lemma live_Some [simp]: "h a = Some x \<Longrightarrow> live good h a = good x"
  by (simp add: live_def)

section \<open>The interface of an object kind\<close>

locale obj_class =
  fixes ops :: "'o obj_ops" and good :: "'o \<Rightarrow> bool"
  assumes cmp_refl: "good x \<Longrightarrow> o_cmp ops x x"
    and cmp_sym: "good x \<Longrightarrow> good y \<Longrightarrow> o_cmp ops x y \<Longrightarrow> o_cmp ops y x"
    and cmp_trans: "good x \<Longrightarrow> good y \<Longrightarrow> good z \<Longrightarrow> o_cmp ops x y \<Longrightarrow> o_cmp ops y z \<Longrightarrow> o_cmp ops x z"
    and key_cmp: "good x \<Longrightarrow> good y \<Longrightarrow> o_cmp ops x y \<Longrightarrow> o_key ops x = o_key ops y"
    and ref_set: "o_ref ops (o_set_ref ops n x) = n"
    and ref_touch: "o_ref ops (o_touch ops x) = o_ref ops x"
    and ref_mkstr: "o_ref ops (o_mkstr ops x) = o_ref ops x"
    and good_set: "good x \<Longrightarrow> good (o_set_ref ops n x)"
    and good_touch: "good x \<Longrightarrow> good (o_touch ops x)"
    and good_mkstr: "good x \<Longrightarrow> good (o_mkstr ops x)"
    and cmp_set: "good x \<Longrightarrow> o_cmp ops (o_set_ref ops n x) x \<and> o_cmp ops x (o_set_ref ops n x)"
    and cmp_touch: "good x \<Longrightarrow> o_cmp ops (o_touch ops x) x \<and> o_cmp ops x (o_touch ops x)"
    and cmp_mkstr: "good x \<Longrightarrow> o_cmp ops (o_mkstr ops x) x \<and> o_cmp ops x (o_mkstr ops x)"
begin

lemma hash_fun_heap: "hash_fun (live good h) (pkey ops h) (pcmp ops h)"
proof
  show "live good h x \<Longrightarrow> pcmp ops h x x" for x
    by (auto simp: live_def pcmp_def cmp_refl split: option.splits)
  show "live good h x \<Longrightarrow> live good h y \<Longrightarrow> pcmp ops h x y \<Longrightarrow> pcmp ops h y x" for x y
    by (auto simp: live_def pcmp_def cmp_sym split: option.splits)
  show "live good h x \<Longrightarrow> live good h y \<Longrightarrow> live good h z \<Longrightarrow> pcmp ops h x y \<Longrightarrow> pcmp ops h y z
      \<Longrightarrow> pcmp ops h x z" for x y z
    by (auto simp: live_def pcmp_def split: option.splits intro: cmp_trans)
  show "live good h x \<Longrightarrow> live good h y \<Longrightarrow> pcmp ops h x y \<Longrightarrow> pkey ops h x = pkey ops h y" for x y
    by (auto simp: live_def pcmp_def pkey_def key_cmp split: option.splits)
qed

text \<open>Equal objects compare alike with everything: storing one for the other changes nothing the
  table can see.\<close>

lemma cmp_eq_left: "good x \<Longrightarrow> good x' \<Longrightarrow> good y \<Longrightarrow> o_cmp ops x x' \<Longrightarrow> o_cmp ops x y = o_cmp ops x' y"
  by (meson cmp_sym cmp_trans)

lemma cmp_eq_right: "good x \<Longrightarrow> good x' \<Longrightarrow> good y \<Longrightarrow> o_cmp ops x x' \<Longrightarrow> o_cmp ops y x = o_cmp ops y x'"
  by (meson cmp_sym cmp_trans)

lemma hash_inv_store:
  assumes inv: "hash_inv (live good h) (pkey ops h) (pcmp ops h) t"
    and x: "h a = Some x" "good x" and x': "good x'" "o_cmp ops x x'"
  shows "hash_inv (live good (h(a \<mapsto> x'))) (pkey ops (h(a \<mapsto> x'))) (pcmp ops (h(a \<mapsto> x'))) t"
proof (rule hash_inv_cong [OF inv])
  fix p assume p: "p \<in> set (hash_entries t)"
  have "live good h p" using hash_inv_entry(1) [OF inv p] .
  then show "live good (h(a \<mapsto> x')) p \<and> pkey ops (h(a \<mapsto> x')) p = pkey ops h p"
    using x x' key_cmp by (auto simp: live_def pkey_def)
  fix q assume "q \<in> set (hash_entries t)"
  then have "live good h q" by (rule hash_inv_entry(1) [OF inv])
  with \<open>live good h p\<close> show "pcmp ops (h(a \<mapsto> x')) p q = pcmp ops h p q"
    using x x' cmp_eq_left [of x x'] cmp_eq_right [of x x'] cmp_refl
    by (auto simp: live_def pcmp_def split: option.splits)
qed

lemma hash_inv_other:
  assumes inv: "hash_inv (live good h) (pkey ops h) (pcmp ops h) t" and "a \<notin> set (hash_entries t)"
  shows "hash_inv (live good (h(a := v))) (pkey ops (h(a := v))) (pcmp ops (h(a := v))) t"
proof (rule hash_inv_cong [OF inv])
  fix p assume p: "p \<in> set (hash_entries t)"
  then have "p \<noteq> a" using assms(2) by auto
  with hash_inv_entry(1) [OF inv p]
  show "live good (h(a := v)) p \<and> pkey ops (h(a := v)) p = pkey ops h p"
    by (simp add: live_def pkey_def)
  fix q assume "q \<in> set (hash_entries t)"
  then have "q \<noteq> a" using assms(2) by auto
  with \<open>p \<noteq> a\<close> show "pcmp ops (h(a := v)) p q = pcmp ops h p q"
    by (auto simp: pcmp_def split: option.splits)
qed

lemma intern_spec:
  assumes inv: "pool_inv ops good P" and peer: "peer_ok peer"
    and x: "heap P a = Some x" "good x" "o_ref ops x = 0"
  shows "\<exists>r P' z. obj_intern ops peer P a = Inr (Some r, P') \<and> pool_inv ops good P'
    \<and> heap P' r = Some z \<and> o_cmp ops z x \<and> brk P' = brk P
    \<and> (r = a \<and> a \<notin> pool_ptrs P \<and> pool_ptrs P' = insert a (pool_ptrs P) \<and> o_ref ops z = 1
          \<and> heap P' = (heap P)(a \<mapsto> z) \<and> (\<forall>q \<in> pool_ptrs P. \<not> pcmp ops (heap P) q a)
       \<or> r \<noteq> a \<and> r \<in> pool_ptrs P \<and> pool_ptrs P' = pool_ptrs P
          \<and> (\<exists>y. heap P r = Some y \<and> o_ref ops z = Suc (o_ref ops y) \<and> o_cmp ops y x)
          \<and> heap P' = (heap P)(a := None, r \<mapsto> z))"
proof -
  note D = pool_invD [OF inv]
  let ?x0 = "o_touch ops x"
  let ?P0 = "pool_store P a ?x0"
  let ?h0 = "(heap P)(a \<mapsto> ?x0)"
  have a: "a \<notin> pool_ptrs P" using D(3) [of a] x by auto
  have gx0: "good ?x0" "o_cmp ops ?x0 x" "o_cmp ops x ?x0" using x good_touch cmp_touch by blast+
  have h0: "heap ?P0 = ?h0" "tab ?P0 = tab P" "brk ?P0 = brk P" by (simp_all add: pool_store_def)
  have inv0: "hash_inv (live good ?h0) (pkey ops ?h0) (pcmp ops ?h0) (tab P)"
    using D(1) x(1,2) gx0(1,3) by (rule hash_inv_store)
  note hf = hash_fun_heap [of ?h0]
  have sz: "hash_size (tab P) \<noteq> 0" using D(1) by (simp add: hash_inv_def)
  have la: "live good ?h0 a" by (simp add: gx0)
  show ?thesis
  proof (cases "hash_find (pkey ops ?h0) (pcmp ops ?h0) (tab P) a")
    case (Some r)
    from hash_fun.find_Some [OF hf inv0 Some] have r: "r \<in> pool_ptrs P" "pcmp ops ?h0 r a" by blast+
    then have ra: "r \<noteq> a" using a by auto
    from D(3) [OF r(1)] obtain y where y: "heap P r = Some y" "good y" "0 < o_ref ops y" by blast
    let ?z = "o_mkstr ops (bump_ref ops y)"
    let ?P' = "pool_store (pool_free ?P0 a) r ?z"
    have yx: "o_cmp ops y ?x0" using r(2) y ra by (simp add: pcmp_def)
    have gz: "good ?z" "o_cmp ops ?z y" "o_cmp ops y ?z" "o_ref ops ?z = Suc (o_ref ops y)"
      using y(2) good_set good_mkstr cmp_set cmp_mkstr cmp_trans ref_set ref_mkstr
      unfolding bump_ref_def by metis+
    have run: "obj_intern ops peer P a = Inr (Some r, ?P')"
      using peer x sz Some ra y
      by (simp add: obj_intern_def deref_def h0 hash_get_def Let_def pool_free_def pool_store_def)
    have h': "heap ?P' = (heap P)(a := None, r \<mapsto> ?z)" "tab ?P' = tab P" "brk ?P' = brk P"
      using ra by (auto simp: pool_store_def pool_free_def)
    let ?h1 = "(heap P)(a := None)"
    have "hash_inv (live good ?h1) (pkey ops ?h1) (pcmp ops ?h1) (tab P)"
      using D(1) a by (rule hash_inv_other)
    moreover have "?h1 r = Some y" using ra y by simp
    ultimately have "hash_inv (live good (heap ?P')) (pkey ops (heap ?P')) (pcmp ops (heap ?P')) (tab ?P')"
      unfolding h' using y(2) gz(1,3) by (rule hash_inv_store)
    moreover have "\<forall>q \<in> pool_ptrs P. \<exists>w. heap ?P' q = Some w \<and> good w \<and> 0 < o_ref ops w"
      using D(3) a gz(1,4) by (auto simp: h')
    ultimately have inv': "pool_inv ops good ?P'"
      using D(2) D(4) y(1) by (auto simp: pool_inv_def h')
    have "o_cmp ops ?z x" using gz(1,2) yx gx0 y(2) x(2) cmp_trans by meson
    moreover have "o_cmp ops y x" using yx gx0 y(2) x(2) cmp_trans by meson
    ultimately show ?thesis using run inv' h' ra r y gz(4) by auto
  next
    case None
    let ?z = "o_mkstr ops (bump_ref ops ?x0)"
    let ?t = "hash_push (tab P) (pkey ops ?h0 a) a"
    let ?P' = "pool_store (?P0\<lparr>tab := ?t\<rparr>) a ?z"
    have gz: "good ?z" "o_cmp ops ?z ?x0" "o_cmp ops ?x0 ?z" "o_ref ops ?z = 1"
      using gx0(1) good_set good_mkstr cmp_set cmp_mkstr cmp_trans ref_set ref_mkstr ref_touch x(3)
      unfolding bump_ref_def by (metis One_nat_def)+
    have run: "obj_intern ops peer P a = Inr (Some a, ?P')"
      using peer x sz None
      by (simp add: obj_intern_def deref_def h0 hash_get_def Let_def pool_store_def
          hash_alloc_intern_def)
    have h': "heap ?P' = (heap P)(a \<mapsto> ?z)" "tab ?P' = ?t" "brk ?P' = brk P"
      by (auto simp: pool_store_def)
    have new: "\<forall>q \<in> pool_ptrs P. \<not> pcmp ops ?h0 q a"
      using hash_fun.find_None [OF hf inv0 la] None by simp
    then have new': "\<forall>q \<in> pool_ptrs P. \<not> pcmp ops ?h0 a q"
      using hash_fun.cmp_sym [OF hf la] hash_inv_entry(1) [OF inv0] by blast
    have "hash_inv (live good ?h0) (pkey ops ?h0) (pcmp ops ?h0) ?t"
      using hash_fun.push_inv [OF hf inv0 la la refl new'] .
    moreover have "?h0 a = Some ?x0" by simp
    ultimately have "hash_inv (live good (?h0(a \<mapsto> ?z))) (pkey ops (?h0(a \<mapsto> ?z)))
        (pcmp ops (?h0(a \<mapsto> ?z))) ?t"
      using gx0(1) gz(1,3) by (rule hash_inv_store)
    then have hi: "hash_inv (live good (heap ?P')) (pkey ops (heap ?P')) (pcmp ops (heap ?P')) (tab ?P')"
      by (simp add: h')
    have m: "mset (hash_entries ?t) = add_mset a (mset (hash_entries (tab P)))"
      using hf inv0 by (rule hash_fun.push_entries)
    then have ptrs: "pool_ptrs ?P' = insert a (pool_ptrs P)"
      by (metis h'(2) set_mset_add_mset_insert set_mset_mset)
    have "distinct (hash_entries ?t)"
      using D(2) a m by (metis distinct.simps(2) mset.simps(2) mset_eq_imp_distinct_iff)
    then have inv': "pool_inv ops good ?P'"
      using hi D(3) D(4) gz(1,4) x(1) ptrs by (auto simp: pool_inv_def h')
    have "\<not> pcmp ops (heap P) q a" if "q \<in> pool_ptrs P" for q
    proof -
      have "q \<noteq> a" using that a by auto
      with D(3) [OF that] new that x cmp_eq_right [OF gx0(1) x(2) _ gx0(2)]
      show ?thesis by (auto simp: pcmp_def)
    qed
    moreover have "o_cmp ops ?z x" using gz gx0 x(2) cmp_trans by meson
    ultimately show ?thesis using run inv' h' a ptrs gz(4) by auto
  qed
qed

lemma unintern_spec:
  assumes inv: "pool_inv ops good P" and peer: "peer_ok peer" and a: "a \<in> pool_ptrs P"
    and x: "heap P a = Some x"
  shows "\<exists>P'. obj_unintern ops peer P (Some a) = Inr P' \<and> pool_inv ops good P' \<and> brk P' = brk P
    \<and> (if o_ref ops x = 1
       then pool_ptrs P' = pool_ptrs P - {a} \<and> heap P' = (heap P)(a := None)
       else pool_ptrs P' = pool_ptrs P
          \<and> heap P' = (heap P)(a \<mapsto> o_set_ref ops (o_ref ops x - 1) x))"
proof -
  note D = pool_invD [OF inv]
  from D(3) [OF a] x have gx: "good x" "0 < o_ref ops x" by auto
  let ?y = "o_set_ref ops (o_ref ops x - 1) x"
  let ?P0 = "pool_store P a ?y"
  let ?h0 = "(heap P)(a \<mapsto> ?y)"
  have gy: "good ?y" "o_cmp ops x ?y" "o_ref ops ?y = o_ref ops x - 1"
    using gx good_set cmp_set ref_set by blast+
  have h0: "heap ?P0 = ?h0" "tab ?P0 = tab P" "brk ?P0 = brk P" by (simp_all add: pool_store_def)
  have inv0: "hash_inv (live good ?h0) (pkey ops ?h0) (pcmp ops ?h0) (tab P)"
    using D(1) x gx(1) gy(1,2) by (rule hash_inv_store)
  show ?thesis
  proof (cases "o_ref ops x = 1")
    case False
    with gx have n: "o_ref ops x - 1 \<noteq> 0" by simp
    have "obj_unintern ops peer P (Some a) = Inr ?P0"
      using peer x gx n by (simp add: obj_unintern_def deref_def Let_def)
    moreover have "pool_inv ops good ?P0"
      using inv0 D(2-4) x gy n by (auto simp: pool_inv_def pool_store_def)
    ultimately show ?thesis using False h0 by auto
  next
    case True
    let ?w = "o_touch ops (o_set_ref ops 0 x)"
    let ?P1 = "pool_store P a ?w"
    let ?h1 = "(heap P)(a \<mapsto> ?w)"
    have gw: "good ?w" "o_cmp ops x ?w"
      using gx(1) good_set good_touch cmp_set cmp_touch cmp_trans by meson+
    have inv1: "hash_inv (live good ?h1) (pkey ops ?h1) (pcmp ops ?h1) (tab P)"
      using D(1) x gx(1) gw by (rule hash_inv_store)
    note hf = hash_fun_heap [of ?h1]
    from hash_fun.release_mem [OF hf inv1 a] obtain b t where
      rel: "hash_release (pkey ops ?h1) (pcmp ops ?h1) (tab P) a = Inr (Some b, t)"
      by blast
    note R = hash_fun.release_Some [OF hf inv1 rel]
    have "b \<in> pool_ptrs P" using R(2) by (metis set_mset_mset union_single_eq_member)
    from hash_fun.entry_unique [OF hf inv1 this a R(1)] have ba: "b = a" .
    have d: "a \<notin> set (hash_entries t)" "distinct (hash_entries t)"
      "set (hash_entries t) = pool_ptrs P - {a}"
    proof -
      have "distinct (a # hash_entries t)"
        using D(2) R(2) ba by (metis mset.simps(2) mset_eq_imp_distinct_iff)
      then show "a \<notin> set (hash_entries t)" "distinct (hash_entries t)" by auto
      moreover have "pool_ptrs P = insert a (set (hash_entries t))"
        using R(2) ba by (metis set_mset_add_mset_insert set_mset_mset)
      ultimately show "set (hash_entries t) = pool_ptrs P - {a}" by auto
    qed
    let ?P' = "pool_free (?P1\<lparr>tab := t\<rparr>) a"
    have run: "obj_unintern ops peer P (Some a) = Inr ?P'"
      using peer x gx True rel by (simp add: obj_unintern_def deref_def Let_def pool_store_def)
    have "hash_inv (live good (?h1(a := None))) (pkey ops (?h1(a := None)))
        (pcmp ops (?h1(a := None))) t"
      using R(3) d(1) by (rule hash_inv_other)
    then have "pool_inv ops good ?P'"
      using D(3,4) d by (auto simp: pool_inv_def pool_store_def pool_free_def)
    moreover have "pool_ptrs ?P' = pool_ptrs P - {a}" "heap ?P' = (heap P)(a := None)" "brk ?P' = brk P"
      using d(3) by (auto simp: pool_store_def pool_free_def)
    ultimately show ?thesis using run True by auto
  qed
qed

lemma share_spec:
  assumes inv: "pool_inv ops good P" and a: "a \<in> pool_ptrs P" and x: "heap P a = Some x"
  shows "\<exists>P'. obj_share ops P a = Inr P' \<and> pool_inv ops good P' \<and> tab P' = tab P \<and> brk P' = brk P
    \<and> heap P' = (heap P)(a \<mapsto> bump_ref ops x)"
proof -
  note D = pool_invD [OF inv]
  from D(3) [OF a] x have gx: "good x" by auto
  have gy: "good (bump_ref ops x)" "o_cmp ops x (bump_ref ops x)"
    "o_ref ops (bump_ref ops x) = Suc (o_ref ops x)"
    using gx good_set cmp_set ref_set unfolding bump_ref_def by blast+
  have "hash_inv (live good ((heap P)(a \<mapsto> bump_ref ops x))) (pkey ops ((heap P)(a \<mapsto> bump_ref ops x)))
      (pcmp ops ((heap P)(a \<mapsto> bump_ref ops x))) (tab P)"
    using D(1) x gx gy(1,2) by (rule hash_inv_store)
  then have "pool_inv ops good (pool_store P a (bump_ref ops x))"
    using D(2-4) x gy by (auto simp: pool_inv_def pool_store_def)
  then show ?thesis
    using x by (auto simp: obj_share_def deref_def pool_store_def)
qed

lemma alloc_inv:
  assumes inv: "pool_inv ops good P" and al: "pool_alloc P x = (a, P1)"
  shows "pool_inv ops good P1" "a = brk P" "heap P1 = (heap P)(a \<mapsto> x)" "tab P1 = tab P"
    "a \<notin> pool_ptrs P"
proof -
  note D = pool_invD [OF inv]
  show p: "a = brk P" "heap P1 = (heap P)(a \<mapsto> x)" "tab P1 = tab P"
    using al by (auto simp: pool_alloc_def)
  have b: "brk P1 = Suc (brk P)" using al by (auto simp: pool_alloc_def)
  show n: "a \<notin> pool_ptrs P"
    using pool_fresh_not_ptr [OF inv D(5)] p(1) by simp
  have "hash_inv (live good (heap P1)) (pkey ops (heap P1)) (pcmp ops (heap P1)) (tab P1)"
    unfolding p(2,3) using D(1) pool_fresh_not_ptr [OF inv D(5)] unfolding p(1) by (rule hash_inv_other)
  then show "pool_inv ops good P1"
    using D(2-4) n by (auto simp: pool_inv_def p b less_Suc_eq)
qed

text \<open>Two interned objects that compare equal are the same object.\<close>

lemma canonical:
  assumes inv: "pool_inv ops good P" and "a \<in> pool_ptrs P" "b \<in> pool_ptrs P"
    and "heap P a = Some x" "heap P b = Some y" "o_cmp ops x y"
  shows "a = b"
  using hash_fun.entry_unique [OF hash_fun_heap pool_invD(1) [OF inv] assms(2,3)] assms(4-6)
  by (simp add: pcmp_def)

end

end
