(* ===== verification/BgpPool.thy ===== *)
theory BgpPool
  imports BgpIntern
begin

text \<open>
  Pools as their clients see them. First the lookup that \<open>aspath_parse\<close> and
  \<open>aspath_parse_ast\<close> make: the object to find is a temporary of the caller, and when there is
  no equal one in the table a duplicate of it goes in. Then the step relation of the clients and the
  balance of references that holds in every state it reaches.
\<close>

section \<open>Looking up and storing a duplicate\<close>

text \<open>\<open>dup\<close> gives the new object and what the call leaves in the old one.\<close>

definition obj_hash_alloc ::
  "('o \<Rightarrow> ('o \<times> 'o) run) \<Rightarrow> nat \<Rightarrow> 'o pool \<Rightarrow> (nat \<times> 'o pool) run" where
  "obj_hash_alloc dup arg P =
     fbind (deref P arg) (\<lambda>x. fbind (dup x) (\<lambda>(new, x'). Inr (pool_alloc (pool_store P arg x') new)))"

definition obj_get_dup ::
  "'o obj_ops \<Rightarrow> ('o \<Rightarrow> ('o \<times> 'o) run) \<Rightarrow> bgp_peer option \<Rightarrow> 'o pool \<Rightarrow> 'o
    \<Rightarrow> (nat option \<times> 'o pool) run" where
  "obj_get_dup ops dup peer P x =
     (case pool_alloc P (o_touch ops x) of (tmp, P1) \<Rightarrow>
        fbind (hash_get peer (pkey ops (heap P1)) (pcmp ops (heap P1)) (tab P1) tmp
                 (Some (obj_hash_alloc dup)) P1)
          (\<lambda>(found, t, P2).
             let P3 = (pool_free P2 tmp)\<lparr>tab := t\<rparr>
             in case found of
                  None \<Rightarrow> Inr (None, P3)
                | Some r \<Rightarrow> fbind (deref P3 r) (\<lambda>y. Inr (Some r, pool_store P3 r (bump_ref ops y)))))"

definition dup_ok :: "'o obj_ops \<Rightarrow> ('o \<Rightarrow> bool) \<Rightarrow> ('o \<Rightarrow> ('o \<times> 'o) run) \<Rightarrow> bool" where
  "dup_ok ops good dup \<longleftrightarrow> (\<forall>x. good x \<longrightarrow> (\<exists>new x'. dup (o_touch ops x) = Inr (new, x')
     \<and> good new \<and> o_ref ops new = 0 \<and> o_cmp ops new (o_touch ops x)))"

section \<open>Clients\<close>

text \<open>
  The clients of a pool own references: a reference is gained by interning a freshly built object
  (the parsers), by a lookup that stores a copy (\<open>aspath_parse\<close>) or by sharing an interned one (\<open>bgp_attr_intern\<close>), and given back by
  \<open>unintern\<close>. The second component of a state is the multiset of the references held.
\<close>

inductive pool_step ::
  "'o obj_ops \<Rightarrow> ('o \<Rightarrow> bool) \<Rightarrow> bgp_peer option \<Rightarrow> 'o pool \<times> nat multiset \<Rightarrow> 'o pool \<times> nat multiset \<Rightarrow> bool"
  for ops good peer where
  build: "good x \<Longrightarrow> o_ref ops x = 0 \<Longrightarrow> pool_alloc P x = (a, P1) \<Longrightarrow>
     obj_intern ops peer P1 a = Inr (Some r, P') \<Longrightarrow>
     pool_step ops good peer (P, H) (P', add_mset r H)"
| lookup: "good x \<Longrightarrow> dup_ok ops good dup \<Longrightarrow> obj_get_dup ops dup peer P x = Inr (Some r, P') \<Longrightarrow>
     pool_step ops good peer (P, H) (P', add_mset r H)"
| share: "a \<in># H \<Longrightarrow> obj_share ops P a = Inr P' \<Longrightarrow>
     pool_step ops good peer (P, H) (P', add_mset a H)"
| release: "a \<in># H \<Longrightarrow> obj_unintern ops peer P (Some a) = Inr P' \<Longrightarrow>
     pool_step ops good peer (P, H) (P', H - {#a#})"

inductive pool_reach ::
  "'o obj_ops \<Rightarrow> ('o \<Rightarrow> bool) \<Rightarrow> bgp_peer option \<Rightarrow> nat \<Rightarrow> 'o pool \<times> nat multiset \<Rightarrow> bool"
  for ops good peer n where
  init: "pool_reach ops good peer n (pool_init n, {#})"
| step: "pool_reach ops good peer n s \<Longrightarrow> pool_step ops good peer s t \<Longrightarrow>
     pool_reach ops good peer n t"

inductive_cases pool_stepE: "pool_step ops good peer (P, H) t"

text \<open>The accounts balance: the table holds exactly the objects someone has a reference to, and the
  count of each is the number of references.\<close>

definition balanced :: "'o obj_ops \<Rightarrow> ('o \<Rightarrow> bool) \<Rightarrow> 'o pool \<times> nat multiset \<Rightarrow> bool" where
  "balanced ops good s \<longleftrightarrow> (case s of (P, H) \<Rightarrow>
     pool_inv ops good P \<and> pool_ptrs P = set_mset H
   \<and> (\<forall>a x. a \<in># H \<longrightarrow> heap P a = Some x \<longrightarrow> o_ref ops x = count H a))"

context obj_class
begin

lemma get_dup_spec:
  assumes inv: "pool_inv ops good P" and peer: "peer_ok peer" and x: "good x"
    and dup: "dup_ok ops good dup"
  shows "\<exists>r z P'. obj_get_dup ops dup peer P x = Inr (Some r, P') \<and> pool_inv ops good P'
    \<and> o_cmp ops z x \<and> good z \<and> heap P' = (heap P)(r \<mapsto> z)
    \<and> (if r \<in> pool_ptrs P
       then pool_ptrs P' = pool_ptrs P \<and> (\<exists>y. heap P r = Some y \<and> o_ref ops z = Suc (o_ref ops y) \<and> o_cmp ops y z)
       else heap P r = None \<and> pool_ptrs P' = insert r (pool_ptrs P) \<and> o_ref ops z = 1)"
proof -
  note D = pool_invD [OF inv]
  let ?a = "brk P" and ?x0 = "o_touch ops x"
  let ?h0 = "(heap P)(?a \<mapsto> ?x0)"
  let ?P1 = "P\<lparr>heap := ?h0, brk := Suc ?a\<rparr>"
  have a: "?a \<notin> pool_ptrs P" "heap P ?a = None" using pool_fresh_not_ptr [OF inv D(5)] D(5) by auto
  have gx0: "good ?x0" "o_cmp ops ?x0 x" "o_cmp ops x ?x0" using x good_touch cmp_touch by blast+
  have inv0: "hash_inv (live good ?h0) (pkey ops ?h0) (pcmp ops ?h0) (tab P)"
    using D(1) a(1) by (rule hash_inv_other)
  note hf = hash_fun_heap [of ?h0]
  have sz: "hash_size (tab P) \<noteq> 0" using D(1) by (simp add: hash_inv_def)
  have la: "live good ?h0 ?a" by (simp add: gx0)
  have al: "pool_alloc P ?x0 = (?a, ?P1)" by (simp add: pool_alloc_def)
  show ?thesis
  proof (cases "hash_find (pkey ops ?h0) (pcmp ops ?h0) (tab P) ?a")
    case (Some r)
    from hash_fun.find_Some [OF hf inv0 Some] have r: "r \<in> pool_ptrs P" "pcmp ops ?h0 r ?a" by blast+
    then have ra: "r \<noteq> ?a" using a by auto
    from D(3) [OF r(1)] obtain y where y: "heap P r = Some y" "good y" by blast
    have z: "good (bump_ref ops y)" "o_ref ops (bump_ref ops y) = Suc (o_ref ops y)"
      "o_cmp ops y (bump_ref ops y)" "o_cmp ops (bump_ref ops y) y"
      using y(2) good_set ref_set cmp_set unfolding bump_ref_def by blast+
    let ?P3 = "(pool_free ?P1 ?a)\<lparr>tab := tab P\<rparr>"
    have P3: "heap ?P3 = heap P" using a(2) by (auto simp: pool_free_def)
    have run: "obj_get_dup ops dup peer P x = Inr (Some r, pool_store ?P3 r (bump_ref ops y))"
      using peer sz Some y(1) P3
      by (simp add: obj_get_dup_def al hash_get_def Let_def deref_def)
    have h: "heap (pool_store ?P3 r (bump_ref ops y)) = (heap P)(r \<mapsto> bump_ref ops y)"
      using P3 by (simp add: pool_store_def)
    have "pool_inv ops good (pool_store ?P3 r (bump_ref ops y))"
      unfolding pool_inv_def h
      using hash_inv_store [OF D(1) y z(1,3)] D(2,3) D(4) y(1) z
      by (auto simp: pool_store_def pool_free_def less_Suc_eq)
    moreover have "o_cmp ops (bump_ref ops y) x"
    proof -
      have "o_cmp ops y ?x0" using r(2) y ra by (simp add: pcmp_def)
      from cmp_trans [OF z(1) y(2) gx0(1) z(4) this] gx0(2) show ?thesis
        by (rule cmp_trans [OF z(1) gx0(1) x])
    qed
    ultimately show ?thesis
      using run h r(1) y(1) z by (auto simp: pool_store_def pool_free_def)
  next
    case None
    from dup x obtain new x' where d: "dup ?x0 = Inr (new, x')" "good new" "o_ref ops new = 0"
      "o_cmp ops new ?x0"
      unfolding dup_ok_def by blast
    let ?b = "Suc ?a" and ?z = "bump_ref ops new"
    have z: "good ?z" "o_ref ops ?z = 1" "o_cmp ops ?z new" "o_cmp ops new ?z"
      using d(2,3) good_set ref_set cmp_set unfolding bump_ref_def by auto
    have b: "?b \<notin> pool_ptrs P" "heap P ?b = None"
      using D(3) [of ?b] D(4) [of ?b] by (auto intro: ccontr)
    let ?k = "pkey ops ?h0 ?a"
    let ?t = "hash_push (tab P) ?k ?b"
    let ?P2 = "snd (pool_alloc (pool_store ?P1 ?a x') new)"
    let ?P3 = "(pool_free ?P2 ?a)\<lparr>tab := ?t\<rparr>"
    have P3: "heap ?P3 = (heap P)(?b \<mapsto> new)"
      using a(2) by (auto simp: pool_free_def pool_alloc_def pool_store_def)
    have run: "obj_get_dup ops dup peer P x = Inr (Some ?b, pool_store ?P3 ?b ?z)"
      using peer sz None d(1) P3
      by (simp add: obj_get_dup_def al hash_get_def Let_def deref_def obj_hash_alloc_def
          pool_store_def pool_alloc_def)
    have h: "heap (pool_store ?P3 ?b ?z) = (heap P)(?b \<mapsto> ?z)"
      using P3 by (simp add: pool_store_def)
    let ?h1 = "(heap P)(?b \<mapsto> ?z)"
    have k: "pkey ops ?h1 ?b = ?k"
      using key_cmp [OF z(1) d(2) z(3)] key_cmp [OF d(2) gx0(1) d(4)] by (simp add: pkey_def)
    have "\<not> pcmp ops ?h1 ?b q" if q: "q \<in> pool_ptrs P" for q
    proof
      assume c: "pcmp ops ?h1 ?b q"
      from D(3) [OF q] obtain y where y: "heap P q = Some y" "good y" by blast
      have "q \<noteq> ?a" "q \<noteq> ?b" using q a b by auto
      then have "o_cmp ops ?z y" using c y by (simp add: pcmp_def)
      then have "o_cmp ops y ?z" by (rule cmp_sym [OF z(1) y(2)])
      then have "o_cmp ops y new" using z(3) by (rule cmp_trans [OF y(2) z(1) d(2)])
      then have "o_cmp ops y ?x0" using d(4) by (rule cmp_trans [OF y(2) d(2) gx0(1)])
      then have "pcmp ops ?h0 q ?a" using y \<open>q \<noteq> ?a\<close> by (simp add: pcmp_def)
      then show False using hash_fun.find_None [OF hf inv0 la] None q by simp
    qed
    then have "hash_inv (live good ?h1) (pkey ops ?h1) (pcmp ops ?h1)
        (hash_push (tab P) (pkey ops ?h1 ?b) ?b)"
      using hash_inv_other [OF D(1) b(1)] z(1)
      by (intro hash_fun.push_inv [OF hash_fun_heap]) auto
    then have hi: "hash_inv (live good ?h1) (pkey ops ?h1) (pcmp ops ?h1) ?t" by (simp only: k)
    have m: "mset (hash_entries ?t) = add_mset ?b (mset (hash_entries (tab P)))"
      using hash_fun_heap D(1) by (rule hash_fun.push_entries)
    then have ptrs: "set (hash_entries ?t) = insert ?b (pool_ptrs P)"
      by (metis set_mset_add_mset_insert set_mset_mset)
    have dist: "distinct (hash_entries ?t)"
      using D(2) b(1) m by (metis distinct.simps(2) mset.simps(2) mset_eq_imp_distinct_iff)
    have t: "tab (pool_store ?P3 ?b ?z) = ?t" "brk (pool_store ?P3 ?b ?z) = Suc ?b"
      by (simp_all add: pool_store_def pool_free_def pool_alloc_def)
    have "pool_inv ops good (pool_store ?P3 ?b ?z)"
      unfolding pool_inv_def h t using hi dist D(3) D(4) z(1,2) ptrs
      by (auto simp: less_Suc_eq)
    moreover have "o_cmp ops ?z x"
      using cmp_trans [OF z(1) d(2) gx0(1) z(3) d(4)] gx0(2) by (rule cmp_trans [OF z(1) gx0(1) x])
    ultimately show ?thesis using run h t(1) ptrs b z(1,2) by auto
  qed
qed

lemma step_balanced:
  assumes "pool_step ops good peer s t" and "peer_ok peer" and "balanced ops good s"
  shows "balanced ops good t"
  using assms
proof (induction rule: pool_step.induct)
  case (build x P a P1 r P' H)
  then have inv: "pool_inv ops good P" and ptr: "pool_ptrs P = set_mset H"
    and ref: "\<And>a x. a \<in># H \<Longrightarrow> heap P a = Some x \<Longrightarrow> o_ref ops x = count H a"
    by (auto simp: balanced_def)
  note A = alloc_inv [OF inv build(3)]
  have nH: "a \<notin># H" using A(5) ptr by simp
  have "heap P1 a = Some x" by (simp add: A(3))
  from intern_spec [OF A(1) build(5) this build(1,2)] build(4)
  obtain z where I: "pool_inv ops good P'" "heap P' r = Some z"
    and C: "r = a \<and> pool_ptrs P' = insert a (pool_ptrs P1) \<and> o_ref ops z = 1
          \<and> heap P' = (heap P1)(a \<mapsto> z)
       \<or> r \<noteq> a \<and> r \<in> pool_ptrs P1 \<and> pool_ptrs P' = pool_ptrs P1
          \<and> (\<exists>y. heap P1 r = Some y \<and> o_ref ops z = Suc (o_ref ops y))
          \<and> heap P' = (heap P1)(a := None, r \<mapsto> z)"
    by auto
  from C show ?case
  proof (elim disjE conjE exE)
    assume c: "r = a" "pool_ptrs P' = insert a (pool_ptrs P1)" "o_ref ops z = 1"
      "heap P' = (heap P1)(a \<mapsto> z)"
    have "o_ref ops w = count (add_mset r H) q"
      if "q \<in># add_mset r H" "heap P' q = Some w" for q w
    proof (cases "q = a")
      case True
      then show ?thesis using that c nH by (simp add: not_in_iff)
    next
      case False
      then have "q \<in># H" "heap P q = Some w" using that c A(3) by auto
      with ref False c show ?thesis by simp
    qed
    then show ?thesis using I c A ptr by (auto simp: balanced_def)
  next
    fix y
    assume c: "r \<noteq> a" "r \<in> pool_ptrs P1" "pool_ptrs P' = pool_ptrs P1" "heap P1 r = Some y"
      "o_ref ops z = Suc (o_ref ops y)" "heap P' = (heap P1)(a := None, r \<mapsto> z)"
    then have rH: "r \<in># H" using A(4) ptr by simp
    have "heap P r = Some y" using c A(3) by simp
    then have yr: "o_ref ops y = count H r" using ref rH by simp
    have "o_ref ops w = count (add_mset r H) q"
      if "q \<in># add_mset r H" "heap P' q = Some w" for q w
    proof (cases "q = r")
      case True
      then show ?thesis using that c yr by simp
    next
      case False
      then have q: "q \<in># H" using that(1) by simp
      then have "q \<noteq> a" using nH by auto
      then have "heap P q = Some w" using that(2) False c A(3) by simp
      with ref q False show ?thesis by simp
    qed
    moreover have "set_mset (add_mset r H) = set_mset H" using rH by auto
    ultimately show ?thesis using I c A ptr by (auto simp: balanced_def)
  qed
next
  case (lookup x dup P r P' H)
  then have inv: "pool_inv ops good P" and ptr: "pool_ptrs P = set_mset H"
    and ref: "\<And>a x. a \<in># H \<Longrightarrow> heap P a = Some x \<Longrightarrow> o_ref ops x = count H a"
    by (auto simp: balanced_def)
  from get_dup_spec [OF inv lookup(4,1,2)] lookup(3) obtain z where
    I: "pool_inv ops good P'" "heap P' = (heap P)(r \<mapsto> z)"
    and C: "if r \<in> pool_ptrs P
       then pool_ptrs P' = pool_ptrs P \<and> (\<exists>y. heap P r = Some y \<and> o_ref ops z = Suc (o_ref ops y))
       else heap P r = None \<and> pool_ptrs P' = insert r (pool_ptrs P) \<and> o_ref ops z = 1"
    by (cases "r \<in> pool_ptrs P") auto
  have "o_ref ops w = count (add_mset r H) q"
    if "q \<in># add_mset r H" "heap P' q = Some w" for q w
    using that I(2) C ptr ref by (cases "q = r") (auto simp: not_in_iff split: if_splits)
  then show ?case using I(1) C ptr by (auto simp: balanced_def split: if_splits)
next
  case (share a H P P')
  then have inv: "pool_inv ops good P" and ptr: "pool_ptrs P = set_mset H"
    and ref: "\<And>a x. a \<in># H \<Longrightarrow> heap P a = Some x \<Longrightarrow> o_ref ops x = count H a"
    by (auto simp: balanced_def)
  have a: "a \<in> pool_ptrs P" using share ptr by simp
  then obtain x where x: "heap P a = Some x" using pool_invD(3) [OF inv] by blast
  from share_spec [OF inv a x] share(2)
  have P': "pool_inv ops good P'" "tab P' = tab P" "heap P' = (heap P)(a \<mapsto> bump_ref ops x)"
    by auto
  have "o_ref ops (bump_ref ops x) = Suc (o_ref ops x)" by (simp add: bump_ref_def ref_set)
  then have "o_ref ops w = count (add_mset a H) q"
    if "q \<in># add_mset a H" "heap P' q = Some w" for q w
    using that P'(3) ref x share(1) by (cases "q = a") auto
  then show ?case using P' ptr share(1) by (auto simp: balanced_def)
next
  case (release a H P P')
  then have inv: "pool_inv ops good P" and ptr: "pool_ptrs P = set_mset H"
    and ref: "\<And>a x. a \<in># H \<Longrightarrow> heap P a = Some x \<Longrightarrow> o_ref ops x = count H a"
    by (auto simp: balanced_def)
  have a: "a \<in> pool_ptrs P" using release ptr by simp
  then obtain x where x: "heap P a = Some x" using pool_invD(3) [OF inv] by blast
  have c: "o_ref ops x = count H a" using ref release(1) x by simp
  from unintern_spec [OF inv release(3) a x] release(2)
  have P': "pool_inv ops good P'"
    "if o_ref ops x = 1 then pool_ptrs P' = pool_ptrs P - {a} \<and> heap P' = (heap P)(a := None)
     else pool_ptrs P' = pool_ptrs P \<and> heap P' = (heap P)(a \<mapsto> o_set_ref ops (o_ref ops x - 1) x)"
    by auto
  show ?case
  proof (cases "o_ref ops x = 1")
    case True
    then have "set_mset (H - {#a#}) = set_mset H - {a}"
      using c by (auto simp: set_eq_iff in_diff_count)
    moreover have "o_ref ops w = count (H - {#a#}) q"
      if "q \<in># H - {#a#}" "heap P' q = Some w" for q w
    proof -
      have "q \<noteq> a" using that(1) True c by (auto simp: in_diff_count)
      moreover have "q \<in># H" using that(1) by (rule in_diffD)
      ultimately show ?thesis using that(2) P'(2) True ref by simp
    qed
    ultimately show ?thesis using P' True ptr by (auto simp: balanced_def)
  next
    case False
    moreover have "0 < count H a" using release(1) by (simp add: count_greater_zero_iff)
    ultimately have gt: "1 < count H a" using c by linarith
    then have "set_mset (H - {#a#}) = set_mset H"
      using release(1) by (auto simp: in_diff_count set_eq_iff)
    moreover have "o_ref ops w = count (H - {#a#}) q"
      if "q \<in># H - {#a#}" "heap P' q = Some w" for q w
    proof (cases "q = a")
      case True
      then show ?thesis using that(2) P'(2) False c by (auto simp: ref_set)
    next
      case q: False
      have "q \<in># H" using that(1) by (rule in_diffD)
      then show ?thesis using that(2) P'(2) False q ref by simp
    qed
    ultimately show ?thesis using P' False ptr by (auto simp: balanced_def)
  qed
qed

lemma reach_balanced:
  assumes "pool_reach ops good peer n s" "peer_ok peer" "0 < n"
  shows "balanced ops good s"
  using assms
proof (induction rule: pool_reach.induct)
  case init
  then show ?case
    by (auto simp: balanced_def pool_inv_init) (simp add: pool_init_def)
next
  case (step s t)
  then show ?case by (blast intro: step_balanced)
qed

text \<open>What a holder of a reference may rely on, in every state a client can reach.\<close>

lemma reach_safe:
  assumes "pool_reach ops good peer n (P, H)" "peer_ok peer" "0 < n"
  shows "a \<in># H \<Longrightarrow> \<exists>x. heap P a = Some x \<and> good x \<and> o_ref ops x = count H a"
    and "a \<in># H \<Longrightarrow> \<exists>P'. obj_unintern ops peer P (Some a) = Inr P'"
    and "H = {#} \<Longrightarrow> hash_entries (tab P) = []"
    and "hash_count (tab P) = card (set_mset H)"
proof -
  from reach_balanced [OF assms] have b: "pool_inv ops good P" "pool_ptrs P = set_mset H"
    and r: "\<And>a x. a \<in># H \<Longrightarrow> heap P a = Some x \<Longrightarrow> o_ref ops x = count H a"
    by (auto simp: balanced_def)
  note D = pool_invD [OF b(1)]
  show "a \<in># H \<Longrightarrow> \<exists>x. heap P a = Some x \<and> good x \<and> o_ref ops x = count H a"
    using D(3) b(2) r by blast
  show "\<exists>P'. obj_unintern ops peer P (Some a) = Inr P'" if "a \<in># H"
  proof -
    have a: "a \<in> pool_ptrs P" using that b(2) by simp
    from D(3) [OF a] obtain x where "heap P a = Some x" by blast
    from unintern_spec [OF b(1) assms(2) a this] show ?thesis by blast
  qed
  show "H = {#} \<Longrightarrow> hash_entries (tab P) = []"
    using b(2) by simp
  show "hash_count (tab P) = card (set_mset H)"
    using hash_inv_count [OF D(1)] distinct_card [OF D(2)] b(2) by simp
qed

end

end
