(* ===== verification/Jhash.thy ===== *)
theory Jhash
  imports Prelude
begin

text \<open>
  The hash functions of src/src/jhash.h on 32-bit words. The key of \<open>jhash\<close> is the list of the
  bytes it reads, that of \<open>jhash2\<close> the list of words; the loop that consumes 12 bytes (three
  words) a turn is a recursion on the rest of the key, and the fall-through \<open>switch\<close> on the
  remaining length adds the bytes that are there. The properties relate the two routines: the
  optimised one for words is \<open>jhash\<close> of the words' bytes on a little-endian machine.
\<close>

type_synonym jstate = "u32 \<times> u32 \<times> u32"

definition JHASH_GOLDEN_RATIO :: u32 where
  "JHASH_GOLDEN_RATIO = 0x9e3779b9"

text \<open>The three lines of a third of the macro, with their shift amounts.\<close>

definition jhash_row :: "nat \<Rightarrow> nat \<Rightarrow> nat \<Rightarrow> jstate \<Rightarrow> jstate" where
  "jhash_row i j l s = (case s of (a, b, c) \<Rightarrow>
     let a = (a - b - c) XOR drop_bit i c;
         b = (b - c - a) XOR push_bit j a;
         c = (c - a - b) XOR drop_bit l b
     in (a, b, c))"

definition jhash_mix :: "jstate \<Rightarrow> jstate" where
  "jhash_mix s = jhash_row 3 10 15 (jhash_row 12 16 5 (jhash_row 13 8 13 s))"

text \<open>Byte \<open>i\<close> of the key, shifted left by \<open>s\<close>; nothing when the key is shorter.\<close>

definition jbyte :: "u8 list \<Rightarrow> nat \<Rightarrow> nat \<Rightarrow> u32" where
  "jbyte k i s = (if i < length k then push_bit s (ucast (k ! i)) else 0)"

definition jword :: "u8 list \<Rightarrow> nat \<Rightarrow> u32" where
  "jword k i = jbyte k i 0 + jbyte k (i + 1) 8 + jbyte k (i + 2) 16 + jbyte k (i + 3) 24"

fun jhash_loop :: "u8 list \<Rightarrow> jstate \<Rightarrow> u8 list \<times> jstate" where
  "jhash_loop k (a, b, c) =
     (if 12 \<le> length k
      then jhash_loop (drop 12 k) (jhash_mix (a + jword k 0, b + jword k 4, c + jword k 8))
      else (k, (a, b, c)))"

declare jhash_loop.simps [simp del]

definition jhash_tail :: "u8 list \<Rightarrow> jstate \<Rightarrow> jstate" where
  "jhash_tail k s = (case s of (a, b, c) \<Rightarrow>
     (a + jword k 0, b + jword k 4, c + jbyte k 10 24 + jbyte k 9 16 + jbyte k 8 8))"

definition jhash :: "u8 list \<Rightarrow> u32 \<Rightarrow> u32" where
  "jhash key initval =
     (case jhash_loop key (JHASH_GOLDEN_RATIO, JHASH_GOLDEN_RATIO, initval) of
        (k, (a, b, c)) \<Rightarrow>
          snd (snd (jhash_mix (jhash_tail k (a, b, c + u32n (length key))))))"

fun jhash2_loop :: "u32 list \<Rightarrow> jstate \<Rightarrow> u32 list \<times> jstate" where
  "jhash2_loop (x # y # z # k) (a, b, c) = jhash2_loop k (jhash_mix (a + x, b + y, c + z))"
| "jhash2_loop k s = (k, s)"

fun jhash2_tail :: "u32 list \<Rightarrow> jstate \<Rightarrow> jstate" where
  "jhash2_tail [] s = s"
| "jhash2_tail [x] (a, b, c) = (a + x, b, c)"
| "jhash2_tail (x # y # _) (a, b, c) = (a + x, b + y, c)"

definition jhash2 :: "u32 list \<Rightarrow> u32 \<Rightarrow> u32" where
  "jhash2 key initval =
     (case jhash2_loop key (JHASH_GOLDEN_RATIO, JHASH_GOLDEN_RATIO, initval) of
        (k, (a, b, c)) \<Rightarrow>
          snd (snd (jhash_mix (jhash2_tail k (a, b, c + u32n (length key) * 4)))))"

definition jhash_3words :: "u32 \<Rightarrow> u32 \<Rightarrow> u32 \<Rightarrow> u32 \<Rightarrow> u32" where
  "jhash_3words a b c initval =
     snd (snd (jhash_mix (a + JHASH_GOLDEN_RATIO, b + JHASH_GOLDEN_RATIO, c + initval)))"

definition jhash_2words :: "u32 \<Rightarrow> u32 \<Rightarrow> u32 \<Rightarrow> u32" where
  "jhash_2words a b initval = jhash_3words a b 0 initval"

definition jhash_1word :: "u32 \<Rightarrow> u32 \<Rightarrow> u32" where
  "jhash_1word a initval = jhash_3words a 0 0 initval"

section \<open>Hashing words is hashing their bytes\<close>

text \<open>The bytes of a word in the memory of a little-endian machine.\<close>

definition le_bytes :: "u32 \<Rightarrow> u8 list" where
  "le_bytes w = rev (bytes32 w)"

lemma length_le_bytes [simp]: "length (le_bytes w) = 4"
  by (simp add: le_bytes_def)

lemma unat_jbyte:
  assumes "i < length k" "s \<le> 24"
  shows "unat (jbyte k i s) = unat (k ! i) * 2 ^ s"
proof -
  let ?b = "unat (k ! i)"
  have "?b < 2 ^ 8" by simp
  moreover have "(2 :: nat) ^ s \<le> 2 ^ 24" using assms(2) by (intro power_increasing) auto
  ultimately have "?b * 2 ^ s < 2 ^ 8 * 2 ^ 24"
    by (intro mult_less_le_imp_less) auto
  then have lt: "?b * 2 ^ s < 2 ^ 32" by simp
  have "unat (ucast (k ! i) :: u32) = ?b"
    by (simp add: unsigned_ucast_eq take_bit_nat_eq_self less_trans [OF unat_u8_less])
  moreover have "unat (push_bit s (ucast (k ! i) :: u32))
      = push_bit s (unat (ucast (k ! i) :: u32)) mod 2 ^ 32"
    by (simp only: unsigned_push_bit_eq take_bit_eq_mod) simp
  ultimately have "unat (push_bit s (ucast (k ! i) :: u32)) = (?b * 2 ^ s) mod 2 ^ 32"
    by (simp only: push_bit_nat_def)
  with lt assms(1) show ?thesis by (simp add: jbyte_def)
qed

lemma jword_be32:
  assumes "i + 3 < length k"
  shows "jword k i = be32 (k ! (i + 3)) (k ! (i + 2)) (k ! (i + 1)) (k ! i)"
proof -
  have b: "jbyte k (i + j) (8 * j) = u32n (unat (k ! (i + j)) * 2 ^ (8 * j))" if "j < 4" for j
  proof -
    have "unat (jbyte k (i + j) (8 * j)) = unat (k ! (i + j)) * 2 ^ (8 * j)"
      using that assms by (intro unat_jbyte) auto
    then show ?thesis by (metis u32n_unat)
  qed
  have s: "u32n m + u32n n = u32n (m + n)" for m n by (simp add: u32n_def)
  show ?thesis
    using b [of 0] b [of 1] b [of 2] b [of 3]
    by (simp add: jword_def be32_def s add_ac mult.commute)
qed

lemma jword_le_bytes:
  assumes "take 4 (drop i k) = le_bytes w"
  shows "jword k i = w"
proof -
  have "length (take 4 (drop i k)) = 4" using assms by simp
  then have len: "i + 4 \<le> length k" by auto
  have n: "k ! (i + j) = le_bytes w ! j" if "j < 4" for j
    using that len nth_take [of j 4 "drop i k"] by (simp add: assms)
  show ?thesis
    using len n [of 0] n [of 1] n [of 2] n [of 3]
    by (simp add: jword_be32 le_bytes_def bytes32_def)
qed

definition words_mem :: "u32 list \<Rightarrow> u8 list" where
  "words_mem ws = concat (map le_bytes ws)"

lemma words_mem_simps [simp]:
  "words_mem [] = []" "words_mem (w # ws) = le_bytes w @ words_mem ws"
  by (simp_all add: words_mem_def)

lemma length_words_mem [simp]: "length (words_mem ws) = 4 * length ws"
  by (induction ws) simp_all

lemma jhash_loop_short: "length k < 12 \<Longrightarrow> jhash_loop k s = (k, s)"
  by (cases s) (simp add: jhash_loop.simps)

lemma jhash_loop_words:
  "jhash_loop (words_mem ws) s = (case jhash2_loop ws s of (r, s') \<Rightarrow> (words_mem r, s'))"
proof (induction ws s rule: jhash2_loop.induct)
  case (1 x y z k a b c)
  have "jword (words_mem (x # y # z # k)) 0 = x" "jword (words_mem (x # y # z # k)) 4 = y"
    "jword (words_mem (x # y # z # k)) 8 = z"
    by (rule jword_le_bytes, simp)+
  moreover have "drop 12 (words_mem (x # y # z # k)) = words_mem k" by simp
  moreover have "12 \<le> length (words_mem (x # y # z # k))" by simp
  ultimately show ?case
    by (subst jhash_loop.simps) (simp only: if_True 1 jhash2_loop.simps(1))
qed (simp_all add: jhash_loop_short)

lemma jhash2_rest: "jhash2_loop ws s = (r, s') \<Longrightarrow> length r < 3"
  by (induction ws s rule: jhash2_loop.induct) auto

lemma jhash_tail_words:
  assumes "length r < 3"
  shows "jhash_tail (words_mem r) s = jhash2_tail r s"
proof -
  have out: "jbyte k i t = 0" if "length k \<le> i" for k i t using that by (simp add: jbyte_def)
  obtain a b c where s: "s = (a, b, c)" by (cases s)
  consider "r = []" | x where "r = [x]" | x y where "r = [x, y]"
    using assms by (cases r; cases "tl r"; cases "tl (tl r)") auto
  then show ?thesis
  proof cases
    case 2
    have "jword (words_mem [x]) 0 = x" by (rule jword_le_bytes) simp
    moreover have "jword (words_mem [x]) 4 = 0" by (simp add: jword_def out)
    ultimately show ?thesis
      by (simp only: 2 s jhash_tail_def jhash2_tail.simps prod.case) (simp add: out)
  next
    case 3
    have "jword (words_mem [x, y]) 0 = x" "jword (words_mem [x, y]) 4 = y"
      by (rule jword_le_bytes, simp)+
    then show ?thesis
      by (simp only: 3 s jhash_tail_def jhash2_tail.simps prod.case) (simp add: out)
  qed (simp add: s jhash_tail_def jword_def out)
qed

text \<open>The word-wise hash is the byte-wise hash of the same memory.\<close>

lemma jhash2_bytes: "jhash2 ws initval = jhash (words_mem ws) initval"
proof -
  obtain r a b c where l:
    "jhash2_loop ws (JHASH_GOLDEN_RATIO, JHASH_GOLDEN_RATIO, initval) = (r, (a, b, c))"
    by (metis prod_cases4)
  then have "length r < 3" by (rule jhash2_rest)
  moreover have "u32n (length (words_mem ws)) = u32n (length ws) * 4" by (simp add: u32n_def)
  ultimately show ?thesis
    by (simp only: jhash2_def jhash_def jhash_loop_words l prod.case jhash_tail_words)
qed

text \<open>The mixing step loses nothing: it is undone by running it backwards.\<close>

definition jhash_unrow :: "nat \<Rightarrow> nat \<Rightarrow> nat \<Rightarrow> jstate \<Rightarrow> jstate" where
  "jhash_unrow i j l s = (case s of (a, b, c) \<Rightarrow>
     let c = (c XOR drop_bit l b) + b + a;
         b = (b XOR push_bit j a) + a + c;
         a = (a XOR drop_bit i c) + c + b
     in (a, b, c))"

definition jhash_unmix :: "jstate \<Rightarrow> jstate" where
  "jhash_unmix s = jhash_unrow 13 8 13 (jhash_unrow 12 16 5 (jhash_unrow 3 10 15 s))"

lemma xor_cancel: "((x :: u32) XOR y) XOR y = x"
  by (simp add: xor.assoc)

lemma unrow_row: "jhash_unrow i j l (jhash_row i j l s) = s"
  by (cases s)
     (simp only: jhash_row_def jhash_unrow_def Let_def prod.case xor_cancel diff_add_cancel)

lemma jhash_unmix_mix: "jhash_unmix (jhash_mix s) = s"
  by (simp add: jhash_mix_def jhash_unmix_def unrow_row)

lemma row_unrow: "jhash_row i j l (jhash_unrow i j l s) = s"
  by (cases s)
     (simp only: jhash_row_def jhash_unrow_def Let_def prod.case xor_cancel add_diff_cancel_right')

lemma jhash_mix_unmix: "jhash_mix (jhash_unmix s) = s"
  by (simp add: jhash_mix_def jhash_unmix_def row_unrow)

text \<open>The mixing step loses nothing: two hash states that differ still differ after it.\<close>

lemma jhash_mix_bijective: "bij jhash_mix"
  by (rule o_bij [of jhash_unmix]) (auto simp: fun_eq_iff jhash_unmix_mix jhash_mix_unmix)

end
