(* ===== verification/BgpAspath.thy ===== *)
theory BgpAspath
  imports BgpPool Jhash
begin

text \<open>
  AS paths (bgp\_aspath.c, bgp\_aspath.h): segments of AS numbers, their normal form, the counts the
  decision code asks for, and the printing of a path into a buffer that the C code sizes by hand.
  A segment's \<open>as\<close>/\<open>length\<close> pair is the list of the AS numbers the code can reach, so a chain of
  segments is a list of records; the 16-bit \<open>length\<close> shows where numbers are appended. Failing
  allocations end the C process and are not modelled.
\<close>

section \<open>Segments\<close>

definition AS_SET :: u8 where "AS_SET = 1"
definition AS_SEQUENCE :: u8 where "AS_SEQUENCE = 2"
definition AS_CONFED_SEQUENCE :: u8 where "AS_CONFED_SEQUENCE = 3"
definition AS_CONFED_SET :: u8 where "AS_CONFED_SET = 4"

lemmas as_types = AS_SET_def AS_SEQUENCE_def AS_CONFED_SEQUENCE_def AS_CONFED_SET_def

definition BGP_PRIVATE_AS_MIN :: u32 where "BGP_PRIVATE_AS_MIN = 64512"
definition BGP_PRIVATE_AS_MAX :: u32 where "BGP_PRIVATE_AS_MAX = 65535"
definition BGP_AS_MAX :: u32 where "BGP_AS_MAX = 65535"

record assegment =
  seg_type :: u8
  seg_as :: "u32 list"

abbreviation seg_length :: "assegment \<Rightarrow> nat" where
  "seg_length seg \<equiv> length (seg_as seg)"

record aspath =
  as_refcnt :: nat
  as_segments :: "assegment list"
  as_last :: u32
  as_str :: "string option"

definition aspath_new :: aspath where
  "aspath_new = \<lparr>as_refcnt = 0, as_segments = [], as_last = 0, as_str = None\<rparr>"

text \<open>A new segment of length 0; the parser fills longer ones before it looks at them.\<close>

definition assegment_new :: "u8 \<Rightarrow> u32 list \<Rightarrow> assegment" where
  "assegment_new t asns = \<lparr>seg_type = t, seg_as = asns\<rparr>"

definition assegment_dup :: "assegment \<Rightarrow> assegment" where
  "assegment_dup seg = assegment_new (seg_type seg) (seg_as seg)"

definition assegment_dup_all :: "assegment list \<Rightarrow> assegment list" where
  "assegment_dup_all segs = map assegment_dup segs"

text \<open>\<open>seg->length += num\<close> on a \<open>u_short\<close>: what lies beyond the wrapped length is out of reach.\<close>

definition assegment_append_asns :: "assegment \<Rightarrow> u32 list \<Rightarrow> assegment" where
  "assegment_append_asns seg asnos =
     seg\<lparr>seg_as := take (unat (u16n (seg_length seg + length asnos))) (seg_as seg @ asnos)\<rparr>"

definition int_cmp :: "u32 \<Rightarrow> u32 \<Rightarrow> int" where
  "int_cmp as1 as2 = (if as1 = as2 then 0 else if as2 < as1 then 1 else -1)"

definition is_set_type :: "u8 \<Rightarrow> bool" where
  "is_set_type t \<longleftrightarrow> t = AS_SET \<or> t = AS_CONFED_SET"

definition assegment_types_packable :: "assegment \<Rightarrow> assegment \<Rightarrow> bool" where
  "assegment_types_packable x y \<longleftrightarrow> seg_type x = seg_type y \<and> seg_type x = AS_SEQUENCE"

text \<open>The loop that weeds out duplicates in place behind a \<open>tail\<close> index.\<close>

function weed_loop :: "u32 list \<Rightarrow> nat \<Rightarrow> nat \<Rightarrow> u32 list \<times> nat" where
  "weed_loop as tail i =
     (if i < length as
      then if as ! tail = as ! i then weed_loop as tail (i + 1)
           else weed_loop (if tail + 1 < i then as[tail + 1 := as ! i] else as) (tail + 1) (i + 1)
      else (as, tail))"
  by pat_completeness auto
termination by (relation "measure (\<lambda>(as, tail, i). length as - i)") auto

declare weed_loop.simps [simp del]

definition weed_dupes :: "u32 list \<Rightarrow> u32 list" where
  "weed_dupes as = (case weed_loop as 0 1 of
     (as', tail) \<Rightarrow> if length as' \<noteq> 0 then take (tail + 1) as' else as')"

text \<open>\<open>qsort\<close> with \<open>int_cmp\<close> is an ascending sort of unsigned numbers.\<close>

definition assegment_tidy :: "assegment \<Rightarrow> assegment" where
  "assegment_tidy seg =
     (if is_set_type (seg_type seg)
      then seg\<lparr>seg_as := weed_dupes (sort (seg_as seg))\<rparr> else seg)"

fun pack_loop :: "assegment \<Rightarrow> assegment list \<Rightarrow> assegment \<times> assegment list" where
  "pack_loop pin [] = (pin, [])"
| "pack_loop pin (seg # rest) =
     (if assegment_types_packable pin seg
      then pack_loop (assegment_append_asns pin (seg_as seg)) rest
      else (pin, seg # rest))"

lemma pack_loop_length: "length (snd (pack_loop pin segs)) \<le> length segs"
  by (induction pin segs rule: pack_loop.induct) (simp_all add: le_Suc_eq)

function assegment_normalise :: "assegment list \<Rightarrow> assegment list" where
  "assegment_normalise [] = []"
| "assegment_normalise (seg # rest) =
     (let (pin, rest') = pack_loop (assegment_tidy seg) rest in pin # assegment_normalise rest')"
  by pat_completeness auto
termination
proof (relation "measure length")
  fix seg rest x pin rest'
  assume "x = pack_loop (assegment_tidy seg) rest" "(pin, rest') = x"
  then have "length rest' \<le> length rest"
    by (metis pack_loop_length snd_conv)
  then show "(rest', seg # rest) \<in> measure length" by simp
qed simp

section \<open>Counting\<close>

fun assegment_count_asns :: "assegment list \<Rightarrow> nat \<Rightarrow> int" where
  "assegment_count_asns [] from = 0"
| "assegment_count_asns (seg # rest) from =
     (int (seg_length seg) - int from) + assegment_count_asns rest 0"

fun count_confeds_loop :: "assegment list \<Rightarrow> nat" where
  "count_confeds_loop [] = 0"
| "count_confeds_loop (seg # rest) =
     (if seg_type seg = AS_CONFED_SEQUENCE then seg_length seg
      else if seg_type seg = AS_CONFED_SET then 1 else 0) + count_confeds_loop rest"

definition aspath_count_confeds :: "aspath \<Rightarrow> nat" where
  "aspath_count_confeds p = count_confeds_loop (as_segments p)"

fun count_hops_loop :: "assegment list \<Rightarrow> nat" where
  "count_hops_loop [] = 0"
| "count_hops_loop (seg # rest) =
     (if seg_type seg = AS_SEQUENCE then seg_length seg
      else if seg_type seg = AS_SET then 1 else 0) + count_hops_loop rest"

definition aspath_count_hops :: "aspath \<Rightarrow> nat" where
  "aspath_count_hops p = count_hops_loop (as_segments p)"

definition ASSEGMENT_SIZE :: "nat \<Rightarrow> bool \<Rightarrow> nat" where
  "ASSEGMENT_SIZE n use32bit = 2 + n * (if use32bit then 4 else 2)"

definition aspath_size :: "aspath \<Rightarrow> nat" where
  "aspath_size p = fold (\<lambda>seg sz. sz + ASSEGMENT_SIZE (seg_length seg) True) (as_segments p) 0"

definition aspath_highest :: "aspath \<Rightarrow> u32" where
  "aspath_highest p =
     fold (\<lambda>seg. fold (\<lambda>asn highest.
        if highest < asn \<and> (asn < BGP_PRIVATE_AS_MIN \<or> BGP_PRIVATE_AS_MAX < asn)
        then asn else highest) (seg_as seg)) (as_segments p) 0"

fun has_as4_loop :: "assegment list \<Rightarrow> bool" where
  "has_as4_loop [] = False"
| "has_as4_loop (seg # rest) =
     (if list_ex (\<lambda>asn. BGP_AS_MAX < asn) (seg_as seg) then True else has_as4_loop rest)"

definition aspath_has_as4 :: "aspath \<Rightarrow> bool" where
  "aspath_has_as4 p = has_as4_loop (as_segments p)"

definition aspath_count_numas :: "aspath \<Rightarrow> nat" where
  "aspath_count_numas p = fold (\<lambda>seg num. num + seg_length seg) (as_segments p) 0"

section \<open>Questions about a path\<close>

text \<open>The pointer arguments may be null; \<open>as[0]\<close> of an empty segment is outside the object.\<close>

definition first_as :: "assegment \<Rightarrow> u32 run" where
  "first_as seg = (case seg_as seg of [] \<Rightarrow> Inl OutOfBounds | x # _ \<Rightarrow> Inr x)"

definition aspath_firstas_check :: "aspath option \<Rightarrow> u32 \<Rightarrow> bool run" where
  "aspath_firstas_check ptr asno =
     (case ptr of None \<Rightarrow> Inr False
      | Some p \<Rightarrow>
          (case as_segments p of [] \<Rightarrow> Inr False
           | seg # _ \<Rightarrow> if seg_type seg = AS_SEQUENCE
                       then fbind (first_as seg) (\<lambda>x. Inr (x = asno)) else Inr False))"

definition aspath_loop_check :: "aspath option \<Rightarrow> u32 \<Rightarrow> nat" where
  "aspath_loop_check ptr asno =
     (case ptr of None \<Rightarrow> 0
      | Some p \<Rightarrow>
          fold (\<lambda>seg. fold (\<lambda>asn count. if asn = asno then Suc count else count) (seg_as seg))
            (as_segments p) 0)"

fun private_as_loop :: "assegment list \<Rightarrow> bool" where
  "private_as_loop [] = True"
| "private_as_loop (seg # rest) =
     (if list_ex (\<lambda>asn. asn < BGP_PRIVATE_AS_MIN \<or> BGP_PRIVATE_AS_MAX < asn) (seg_as seg)
      then False else private_as_loop rest)"

definition aspath_private_as_check :: "aspath option \<Rightarrow> bool" where
  "aspath_private_as_check ptr =
     (case ptr of None \<Rightarrow> False
      | Some p \<Rightarrow> if as_segments p = [] then False else private_as_loop (as_segments p))"

definition is_confed_type :: "u8 \<Rightarrow> bool" where
  "is_confed_type t \<longleftrightarrow> t = AS_CONFED_SEQUENCE \<or> t = AS_CONFED_SET"

fun skip_confeds :: "assegment list \<Rightarrow> assegment list" where
  "skip_confeds [] = []"
| "skip_confeds (seg # rest) = (if is_confed_type (seg_type seg) then skip_confeds rest else seg # rest)"

definition aspath_cmp_left :: "aspath option \<Rightarrow> aspath option \<Rightarrow> bool run" where
  "aspath_cmp_left ptr1 ptr2 =
     (case (ptr1, ptr2) of
        (Some p1, Some p2) \<Rightarrow>
          (case (skip_confeds (as_segments p1), skip_confeds (as_segments p2)) of
             (seg1 # _, seg2 # _) \<Rightarrow>
               if seg_type seg1 = AS_SEQUENCE \<and> seg_type seg2 = AS_SEQUENCE
               then fbind (first_as seg1) (\<lambda>x. fbind (first_as seg2) (\<lambda>y. Inr (x = y)))
               else Inr False
           | _ \<Rightarrow> Inr False)
      | _ \<Rightarrow> Inr False)"

definition aspath_cmp_left_confed :: "aspath option \<Rightarrow> aspath option \<Rightarrow> bool run" where
  "aspath_cmp_left_confed ptr1 ptr2 =
     (case (ptr1, ptr2) of
        (Some p1, Some p2) \<Rightarrow>
          (case (as_segments p1, as_segments p2) of
             (seg1 # _, seg2 # _) \<Rightarrow>
               if seg_type seg1 \<noteq> AS_CONFED_SEQUENCE \<or> seg_type seg2 \<noteq> AS_CONFED_SEQUENCE
               then Inr False
               else fbind (first_as seg1) (\<lambda>x. fbind (first_as seg2) (\<lambda>y. Inr (x = y)))
           | _ \<Rightarrow> Inr False)
      | _ \<Rightarrow> Inr False)"

fun cmp_segments :: "assegment list \<Rightarrow> assegment list \<Rightarrow> bool" where
  "cmp_segments [] [] = True"
| "cmp_segments [] (_ # _) = False"
| "cmp_segments (_ # _) [] = False"
| "cmp_segments (seg1 # rest1) (seg2 # rest2) =
     (if seg_type seg1 \<noteq> seg_type seg2 then False
      else if seg_length seg1 \<noteq> seg_length seg2 then False
      else if list_ex (\<lambda>(x, y). x \<noteq> y) (zip (seg_as seg1) (seg_as seg2)) then False
      else cmp_segments rest1 rest2)"

definition aspath_cmp :: "aspath \<Rightarrow> aspath \<Rightarrow> bool" where
  "aspath_cmp p1 p2 = cmp_segments (as_segments p1) (as_segments p2)"

section \<open>Printing\<close>

text \<open>
  \<open>snprintf (str_buf + len, str_size - len, ...)\<close>: what is in the buffer, and \<open>len\<close>, which counts
  the characters that would have been written. Once \<open>len\<close> is past \<open>str_size\<close> the difference, as a
  \<open>size_t\<close>, no longer bounds anything.
\<close>

definition str_print :: "nat \<Rightarrow> string \<times> nat \<Rightarrow> string \<Rightarrow> (string \<times> nat) run" where
  "str_print str_size st s =
     (case st of (buf, len) \<Rightarrow>
        if str_size < len then Inl OutOfBounds
        else Inr (buf @ take (str_size - len - 1) s, len + length s))"

definition aspath_delimiter_char :: "u8 \<Rightarrow> bool \<Rightarrow> char" where
  "aspath_delimiter_char t at_start =
     (if t = AS_SET then (if at_start then CHR ''{'' else CHR ''}'')
      else if t = AS_CONFED_SET then (if at_start then CHR ''['' else CHR '']'')
      else if t = AS_CONFED_SEQUENCE then (if at_start then CHR ''('' else CHR '')'')
      else CHR '' '')"

definition ASPATH_STR_DEFAULT_LEN :: nat where "ASPATH_STR_DEFAULT_LEN = 32"

definition ASN_STR_LEN :: nat where "ASN_STR_LEN = 10 + 1"

definition SEGMENT_STR_LEN :: "assegment \<Rightarrow> nat" where
  "SEGMENT_STR_LEN seg = seg_length seg * ASN_STR_LEN + 2 + 1 + 1"

definition separator_of :: "u8 \<Rightarrow> char option" where
  "separator_of t =
     (if t = AS_SET \<or> t = AS_CONFED_SET then Some CHR '',''
      else if t = AS_SEQUENCE \<or> t = AS_CONFED_SEQUENCE then Some CHR '' ''
      else None)"

fun print_asns :: "nat \<Rightarrow> char \<Rightarrow> u32 list \<Rightarrow> string \<times> nat \<Rightarrow> (string \<times> nat) run" where
  "print_asns str_size sep [] st = Inr st"
| "print_asns str_size sep (asn # rest) st =
     fbind (str_print str_size st (dec (unat asn))) (\<lambda>st1.
       fbind (if rest \<noteq> [] then str_print str_size st1 [sep] else Inr st1)
         (print_asns str_size sep rest))"

definition print_delim :: "nat \<Rightarrow> assegment \<Rightarrow> bool \<Rightarrow> string \<times> nat \<Rightarrow> (string \<times> nat) run" where
  "print_delim str_size seg at_start st =
     (if seg_type seg \<noteq> AS_SEQUENCE
      then str_print str_size st [aspath_delimiter_char (seg_type seg) at_start] else Inr st)"

text \<open>The loop over the segments; the result \<open>None\<close> is the early return of an empty string on a
  segment of unknown type. \<open>last_as\<close> is the field \<open>last_as\<close>, written as the numbers are printed.\<close>

fun print_segments :: "assegment list \<Rightarrow> nat \<Rightarrow> string \<times> nat \<Rightarrow> u32
    \<Rightarrow> ((nat \<times> string \<times> nat) option \<times> u32) run" where
  "print_segments [] str_size st last_as = Inr (Some (str_size, st), last_as)"
| "print_segments (seg # rest) str_size st last_as =
     (case separator_of (seg_type seg) of
        None \<Rightarrow> Inr (None, last_as)
      | Some sep \<Rightarrow>
          let str_size = (if snd st + SEGMENT_STR_LEN seg > str_size
                          then snd st + SEGMENT_STR_LEN seg else str_size)
          in fbind (print_delim str_size seg True st) (\<lambda>st.
               fbind (print_asns str_size sep (seg_as seg) st) (\<lambda>st.
                 let last_as = (if seg_as seg = [] then last_as else last (seg_as seg))
                 in fbind (print_delim str_size seg False st) (\<lambda>st.
                      fbind (if rest \<noteq> [] then str_print str_size st '' '' else Inr st) (\<lambda>st.
                        print_segments rest str_size st last_as)))))"

definition aspath_make_empty :: string where
  "aspath_make_empty = []"

definition aspath_make_str_count :: "aspath \<Rightarrow> (string \<times> aspath) run" where
  "aspath_make_str_count p =
     (if as_segments p = [] then Inr (aspath_make_empty, p)
      else let str_size = max (nat (assegment_count_asns (as_segments p) 0) * ASN_STR_LEN + 2 + 1)
                              ASPATH_STR_DEFAULT_LEN
           in fbind (print_segments (as_segments p) str_size ([], 0) (as_last p)) (\<lambda>(r, last_as).
                case r of
                  None \<Rightarrow> Inr (aspath_make_empty, p\<lparr>as_last := last_as\<rparr>)
                | Some (str_size, buf, len) \<Rightarrow>
                    c_assert (len < str_size) (Inr (buf, p\<lparr>as_last := last_as\<rparr>))))"

definition aspath_str_update :: "aspath \<Rightarrow> aspath run" where
  "aspath_str_update p =
     fbind (aspath_make_str_count p) (\<lambda>(s, p). Inr (p\<lparr>as_str := Some s\<rparr>))"

definition aspath_print :: "aspath option \<Rightarrow> string option" where
  "aspath_print ptr = (case ptr of None \<Rightarrow> None | Some p \<Rightarrow> as_str p)"

definition aspath_dup :: "aspath \<Rightarrow> (aspath \<times> aspath) run" where
  "aspath_dup p =
     fbind (aspath_make_str_count p) (\<lambda>(s, p).
       Inr (\<lparr>as_refcnt = 0, as_segments = assegment_dup_all (as_segments p),
             as_last = as_last p, as_str = Some s\<rparr>, p))"

end
