(* ===== verification/AspathNormal.thy ===== *)
theory AspathNormal
  imports BgpAspath
begin

text \<open>
  The normal form of AS paths that \<open>assegment_normalise\<close> computes: sets sorted and free of
  duplicates, no two sequences next to each other. The comment on the C function asks that each
  distinct path has one internal representation; what a path denotes, whatever its segmentation, is
  here the list of its \<open>atom\<close>s.
\<close>

section \<open>The in-place removal of duplicates\<close>

lemma weed_loop_spec:
  "tail < i \<Longrightarrow> i \<le> length as \<Longrightarrow> weed_loop as tail i = (as', t) \<Longrightarrow>
     length as' = length as \<and> t < length as
   \<and> take (t + 1) as' = take tail as @ remdups_adj (as ! tail # drop i as)"
proof (induction as tail i rule: weed_loop.induct)
  case (1 as tail i)
  show ?case
  proof (cases "i < length as")
    case False
    then have "weed_loop as tail i = (as, tail)" by (simp add: weed_loop.simps)
    with 1(5) have "as' = as" "t = tail" by simp_all
    with 1(3,4) False show ?thesis
      by (simp add: take_Suc_conv_app_nth)
  next
    case i: True
    then have d: "drop i as = as ! i # drop (i + 1) as" by (simp add: Cons_nth_drop_Suc)
    show ?thesis
    proof (cases "as ! tail = as ! i")
      case True
      with i have "weed_loop as tail i = weed_loop as tail (i + 1)" by (subst weed_loop.simps) simp
      with 1 i True show ?thesis unfolding d by simp
    next
      case False
      define as1 where "as1 = (if tail + 1 < i then as[tail + 1 := as ! i] else as)"
      have w: "weed_loop as tail i = weed_loop as1 (tail + 1) (i + 1)"
        using i False by (subst weed_loop.simps) (simp add: as1_def)
      have len: "length as1 = length as" by (simp add: as1_def)
      have "as1 ! (tail + 1) = as ! i"
        using i 1(3) by (cases "tail + 1 = i") (auto simp: as1_def)
      moreover have "take (tail + 1) as1 = take tail as @ [as ! tail]"
        using i 1(3) by (simp add: as1_def take_Suc_conv_app_nth)
      moreover have "drop (i + 1) as1 = drop (i + 1) as"
        using 1(3) by (simp add: as1_def)
      moreover have "length as' = length as1 \<and> t < length as1
        \<and> take (t + 1) as' = take (tail + 1) as1
            @ remdups_adj (as1 ! (tail + 1) # drop (i + 1) as1)"
        using 1(2) [OF i False] 1(3,5) i w len by (simp add: as1_def)
      ultimately show ?thesis using False len unfolding d by simp
    qed
  qed
qed

lemma weed_dupes_remdups_adj: "weed_dupes as = remdups_adj as"
proof (cases as)
  case Nil
  then show ?thesis by (simp add: weed_dupes_def weed_loop.simps)
next
  case (Cons x xs)
  obtain as' t where w: "weed_loop as 0 1 = (as', t)" by (cases "weed_loop as 0 1")
  with weed_loop_spec [OF _ _ w] Cons show ?thesis by (auto simp: weed_dupes_def)
qed

lemma distinct_remdups_adj_sorted: "sorted (xs :: 'a :: linorder list) \<Longrightarrow> distinct (remdups_adj xs)"
  by (induction xs rule: remdups_adj.induct) auto

lemma tidy_type [simp]: "seg_type (assegment_tidy seg) = seg_type seg"
  by (simp add: assegment_tidy_def)

lemma tidy_set: "set (seg_as (assegment_tidy seg)) = set (seg_as seg)"
  by (simp add: assegment_tidy_def weed_dupes_remdups_adj)

section \<open>Normal form\<close>

definition seg_tidy :: "assegment \<Rightarrow> bool" where
  "seg_tidy seg \<longleftrightarrow> (is_set_type (seg_type seg) \<longrightarrow> sorted (seg_as seg) \<and> distinct (seg_as seg))"

definition segs_normal :: "assegment list \<Rightarrow> bool" where
  "segs_normal segs \<longleftrightarrow>
     list_all seg_tidy segs \<and> successively (\<lambda>x y. \<not> assegment_types_packable x y) segs"

lemma seg_tidy_tidy: "seg_tidy (assegment_tidy seg)"
  by (simp add: seg_tidy_def assegment_tidy_def weed_dupes_remdups_adj distinct_remdups_adj_sorted)

lemma tidy_idem: "seg_tidy seg \<Longrightarrow> assegment_tidy seg = seg"
  by (simp add: seg_tidy_def assegment_tidy_def weed_dupes_remdups_adj remdups_adj_distinct sort_key_id_if_sorted)

lemma packable_sequence:
  "assegment_types_packable x y \<longleftrightarrow> seg_type x = AS_SEQUENCE \<and> seg_type y = AS_SEQUENCE"
  by (auto simp: assegment_types_packable_def)

lemma sequence_not_set [simp]: "\<not> is_set_type AS_SEQUENCE"
  by (simp add: is_set_type_def as_types)

lemma append_asns_type [simp]: "seg_type (assegment_append_asns seg xs) = seg_type seg"
  by (simp add: assegment_append_asns_def)

lemma pack_loop_spec:
  assumes "pack_loop pin segs = (pin', rest)"
  shows "seg_type pin' = seg_type pin"
    and "seg_tidy pin \<Longrightarrow> seg_tidy pin'"
    and "rest \<noteq> [] \<Longrightarrow> \<not> assegment_types_packable pin' (hd rest)"
proof -
  have "seg_type pin' = seg_type pin \<and> (seg_tidy pin \<longrightarrow> seg_tidy pin')
    \<and> (rest \<noteq> [] \<longrightarrow> \<not> assegment_types_packable pin' (hd rest))"
    using assms
    by (induction pin segs rule: pack_loop.induct)
       (auto simp: packable_sequence seg_tidy_def split: if_splits)
  then show "seg_type pin' = seg_type pin" "seg_tidy pin \<Longrightarrow> seg_tidy pin'"
    "rest \<noteq> [] \<Longrightarrow> \<not> assegment_types_packable pin' (hd rest)"
    by blast+
qed

lemma normalise_step:
  "pack_loop (assegment_tidy seg) rest = (pin, rest') \<Longrightarrow>
     assegment_normalise (seg # rest) = pin # assegment_normalise rest'"
  by simp

lemma normalise_hd:
  "segs \<noteq> [] \<Longrightarrow> assegment_normalise segs \<noteq> []
    \<and> seg_type (hd (assegment_normalise segs)) = seg_type (hd segs)"
proof (cases segs)
  case (Cons seg rest)
  obtain pin rest' where p: "pack_loop (assegment_tidy seg) rest = (pin, rest')"
    by (cases "pack_loop (assegment_tidy seg) rest")
  from pack_loop_spec(1) [OF p] show ?thesis unfolding Cons normalise_step [OF p] by simp
qed simp

declare assegment_normalise.simps [simp del]

lemma normalise_Nil [simp]: "assegment_normalise [] = []"
  by (rule assegment_normalise.simps)

text \<open>Induction along the segments that are pinned.\<close>

lemma normalise_cases [case_names Nil Pin]:
  assumes "P []"
    and "\<And>seg rest pin rest'. pack_loop (assegment_tidy seg) rest = (pin, rest') \<Longrightarrow> P rest' \<Longrightarrow>
      assegment_normalise (seg # rest) = pin # assegment_normalise rest' \<Longrightarrow> P (seg # rest)"
  shows "P segs"
proof (induction segs rule: assegment_normalise.induct)
  case 1
  then show ?case by (rule assms(1))
next
  case (2 seg rest)
  obtain pin rest' where p: "pack_loop (assegment_tidy seg) rest = (pin, rest')"
    by (cases "pack_loop (assegment_tidy seg) rest")
  then show ?case
    by (rule assms(2)) (use 2 p in \<open>simp_all add: assegment_normalise.simps\<close>)
qed

lemma segs_normal_Cons:
  "segs_normal (seg # rest) \<longleftrightarrow> seg_tidy seg \<and> segs_normal rest
    \<and> (rest \<noteq> [] \<longrightarrow> \<not> assegment_types_packable seg (hd rest))"
  by (cases rest) (auto simp: segs_normal_def)

lemma segs_normal_Nil [simp]: "segs_normal []"
  by (simp add: segs_normal_def)

lemma normalise_normal_lemma: "segs_normal (assegment_normalise segs)"
proof (induction segs rule: normalise_cases)
  case Nil
  then show ?case by simp
next
  case (Pin seg rest pin rest')
  note S = pack_loop_spec [OF Pin(1)]
  have "\<not> assegment_types_packable pin (hd (assegment_normalise rest'))"
    if "assegment_normalise rest' \<noteq> []"
  proof -
    have "rest' \<noteq> []" using that by auto
    with normalise_hd [OF this] S(3) show ?thesis by (simp add: packable_sequence)
  qed
  with Pin.IH S(2) [OF seg_tidy_tidy] show ?case
    unfolding Pin.hyps(2) segs_normal_Cons by simp
qed

lemma pack_loop_stop:
  "rest = [] \<or> \<not> assegment_types_packable pin (hd rest) \<Longrightarrow> pack_loop pin rest = (pin, rest)"
  by (cases rest) auto

lemma normalise_id: "segs_normal segs \<Longrightarrow> assegment_normalise segs = segs"
proof (induction segs)
  case Nil
  then show ?case by simp
next
  case (Cons seg rest)
  then have t: "assegment_tidy seg = seg" by (simp add: segs_normal_Cons tidy_idem)
  have "pack_loop (assegment_tidy seg) rest = (seg, rest)"
    unfolding t by (rule pack_loop_stop) (use Cons.prems in \<open>auto simp: segs_normal_Cons\<close>)
  from normalise_step [OF this] Cons show ?case by (simp add: segs_normal_Cons)
qed

section \<open>What a path denotes\<close>

datatype atom = Hop u32 | Group u8 "u32 list"

definition seg_atoms :: "assegment \<Rightarrow> atom list" where
  "seg_atoms seg =
     (if seg_type seg = AS_SEQUENCE then map Hop (seg_as seg)
      else if is_set_type (seg_type seg)
        then [Group (seg_type seg) (sorted_list_of_set (set (seg_as seg)))]
      else [Group (seg_type seg) (seg_as seg)])"

definition path_atoms :: "assegment list \<Rightarrow> atom list" where
  "path_atoms segs = concat (map seg_atoms segs)"

lemma path_atoms_simps [simp]:
  "path_atoms [] = []" "path_atoms (seg # rest) = seg_atoms seg @ path_atoms rest"
  by (simp_all add: path_atoms_def)

definition total_asns :: "assegment list \<Rightarrow> nat" where
  "total_asns segs = sum_list (map seg_length segs)"

lemma total_asns_simps [simp]:
  "total_asns [] = 0" "total_asns (seg # rest) = seg_length seg + total_asns rest"
  by (simp_all add: total_asns_def)

lemma seg_atoms_tidy: "seg_atoms (assegment_tidy seg) = seg_atoms seg"
  using tidy_set [of seg] by (simp add: seg_atoms_def) (simp add: assegment_tidy_def)

lemma length_tidy: "seg_length (assegment_tidy seg) \<le> seg_length seg"
  by (simp add: assegment_tidy_def weed_dupes_remdups_adj)
     (metis length_sort remdups_adj_length)

lemma append_asns_fits:
  "seg_length seg + length xs < 65536 \<Longrightarrow> seg_as (assegment_append_asns seg xs) = seg_as seg @ xs"
  by (simp add: assegment_append_asns_def)

lemma pack_loop_atoms:
  "pack_loop pin segs = (pin', rest) \<Longrightarrow> seg_length pin + total_asns segs < 65536 \<Longrightarrow>
     path_atoms (pin' # rest) = path_atoms (pin # segs)
   \<and> seg_length pin' + total_asns rest = seg_length pin + total_asns segs"
proof (induction pin segs rule: pack_loop.induct)
  case (1 pin)
  then show ?case by simp
next
  case (2 pin seg rest0)
  show ?case
  proof (cases "assegment_types_packable pin seg")
    case True
    let ?pin = "assegment_append_asns pin (seg_as seg)"
    have a: "seg_as ?pin = seg_as pin @ seg_as seg"
      using 2(3) by (intro append_asns_fits) simp
    have "path_atoms (pin' # rest) = path_atoms (?pin # rest0)
        \<and> seg_length pin' + total_asns rest = seg_length ?pin + total_asns rest0"
      using 2 True a by simp
    moreover have "seg_atoms ?pin = seg_atoms pin @ seg_atoms seg"
      using True a by (simp add: seg_atoms_def packable_sequence)
    ultimately show ?thesis using a by simp
  next
    case False
    with 2(2) show ?thesis by auto
  qed
qed

lemma normalise_atoms_lemma:
  "total_asns segs < 65536 \<Longrightarrow> path_atoms (assegment_normalise segs) = path_atoms segs"
proof (induction segs rule: normalise_cases)
  case Nil
  then show ?case by simp
next
  case (Pin seg rest pin rest')
  have b: "seg_length (assegment_tidy seg) + total_asns rest < 65536"
    using Pin.prems length_tidy [of seg] by simp
  from pack_loop_atoms [OF Pin.hyps(1) b] b Pin.IH show ?case
    by (simp add: Pin.hyps(2) seg_atoms_tidy)
qed

text \<open>The atoms determine a normal path, provided its sequences are not empty.\<close>

fun pack_atom :: "atom \<Rightarrow> assegment list \<Rightarrow> assegment list" where
  "pack_atom (Group t xs) segs = assegment_new t xs # segs"
| "pack_atom (Hop a) [] = [assegment_new AS_SEQUENCE [a]]"
| "pack_atom (Hop a) (seg # rest) =
     (if seg_type seg = AS_SEQUENCE then assegment_new AS_SEQUENCE (a # seg_as seg) # rest
      else assegment_new AS_SEQUENCE [a] # seg # rest)"

definition full_sequences :: "assegment list \<Rightarrow> bool" where
  "full_sequences segs \<longleftrightarrow> (\<forall>seg \<in> set segs. seg_type seg = AS_SEQUENCE \<longrightarrow> seg_as seg \<noteq> [])"

lemma pack_hops:
  assumes "rest = [] \<or> seg_type (hd rest) \<noteq> AS_SEQUENCE"
  shows "foldr pack_atom (map Hop as) rest
    = (if as = [] then rest else assegment_new AS_SEQUENCE as # rest)"
proof (induction as)
  case (Cons a as)
  then show ?case using assms by (cases rest) (auto simp: assegment_new_def)
qed simp

lemma assegment_new_self: "assegment_new (seg_type seg) (seg_as seg) = seg"
  by (simp add: assegment_new_def)

lemma unpack_atoms:
  "segs_normal segs \<Longrightarrow> full_sequences segs \<Longrightarrow> foldr pack_atom (path_atoms segs) [] = segs"
proof (induction segs)
  case Nil
  then show ?case by simp
next
  case (Cons seg rest)
  have r: "foldr pack_atom (path_atoms rest) [] = rest"
    using Cons by (simp add: segs_normal_Cons full_sequences_def)
  consider (seq) "seg_type seg = AS_SEQUENCE" | (set) "is_set_type (seg_type seg)"
    | (other) "seg_type seg \<noteq> AS_SEQUENCE" "\<not> is_set_type (seg_type seg)"
    by blast
  then show ?case
  proof cases
    case seq
    then have "rest = [] \<or> seg_type (hd rest) \<noteq> AS_SEQUENCE"
      using Cons.prems by (auto simp: segs_normal_Cons packable_sequence)
    moreover have "seg_as seg \<noteq> []" using Cons.prems seq by (simp add: full_sequences_def)
    ultimately show ?thesis
      using seq pack_hops [of rest "seg_as seg"] assegment_new_self [of seg]
      by (simp add: r seg_atoms_def)
  next
    case set
    moreover from this have "seg_type seg \<noteq> AS_SEQUENCE" by auto
    moreover have "sorted_list_of_set (set (seg_as seg)) = seg_as seg"
      using Cons.prems set
      by (simp add: segs_normal_Cons seg_tidy_def sorted_list_of_set.idem_if_sorted_distinct)
    ultimately show ?thesis using assegment_new_self [of seg] by (simp add: r seg_atoms_def)
  next
    case other
    then show ?thesis using assegment_new_self [of seg] by (simp add: r seg_atoms_def)
  qed
qed

lemma pack_loop_full:
  "pack_loop pin segs = (pin', rest) \<Longrightarrow> full_sequences (pin # segs) \<Longrightarrow>
     seg_length pin + total_asns segs < 65536 \<Longrightarrow> full_sequences (pin' # rest)"
proof (induction pin segs rule: pack_loop.induct)
  case (2 pin seg rest0)
  show ?case
  proof (cases "assegment_types_packable pin seg")
    case True
    have a: "seg_as (assegment_append_asns pin (seg_as seg)) = seg_as pin @ seg_as seg"
      using 2(4) by (intro append_asns_fits) simp
    with 2 True show ?thesis by (auto simp: full_sequences_def packable_sequence)
  next
    case False
    with 2 show ?thesis by auto
  qed
qed auto

lemma normalise_full:
  "full_sequences segs \<Longrightarrow> total_asns segs < 65536 \<Longrightarrow> full_sequences (assegment_normalise segs)"
proof (induction segs rule: normalise_cases)
  case Nil
  then show ?case by simp
next
  case (Pin seg rest pin rest')
  have b: "seg_length (assegment_tidy seg) + total_asns rest < 65536"
    using Pin.prems(2) length_tidy [of seg] by simp
  have "seg_as (assegment_tidy seg) = [] \<longleftrightarrow> seg_as seg = []"
    using tidy_set [of seg] by (metis set_empty)
  then have "full_sequences (assegment_tidy seg # rest)"
    using Pin.prems(1) by (simp add: full_sequences_def)
  from pack_loop_full [OF Pin.hyps(1) this b] pack_loop_atoms [OF Pin.hyps(1) b] b Pin.IH
  show ?case by (simp add: Pin.hyps(2) full_sequences_def)
qed

theorem normalise_canonical:
  assumes "full_sequences xs" "full_sequences ys" "total_asns xs < 65536" "total_asns ys < 65536"
  shows "assegment_normalise xs = assegment_normalise ys \<longleftrightarrow> path_atoms xs = path_atoms ys"
  using assms by (metis normalise_atoms_lemma normalise_full normalise_normal_lemma unpack_atoms)

end
