(* ===== verification/AspathText.thy ===== *)
theory AspathText
  imports AspathNormal
begin

text \<open>
  Printing and parsing of AS paths (\<open>aspath_make_str_count\<close>, \<open>aspath_gettoken\<close>,
  \<open>aspath_str2aspath\<close>, \<open>aspath_ast2aspath\<close>): the text of a path without the buffer arithmetic, the
  proof that the buffer is never too small, and the round trip through the tokens.
\<close>

section \<open>The text of a path\<close>

fun asns_text :: "char \<Rightarrow> u32 list \<Rightarrow> string" where
  "asns_text sep [] = []"
| "asns_text sep [a] = dec (unat a)"
| "asns_text sep (a # as) = dec (unat a) @ sep # asns_text sep as"

definition delim_text :: "u8 \<Rightarrow> bool \<Rightarrow> string" where
  "delim_text t at_start = (if t = AS_SEQUENCE then [] else [aspath_delimiter_char t at_start])"

definition seg_text :: "assegment \<Rightarrow> string" where
  "seg_text seg = delim_text (seg_type seg) True
     @ asns_text (the (separator_of (seg_type seg))) (seg_as seg) @ delim_text (seg_type seg) False"

fun segs_text :: "assegment list \<Rightarrow> string" where
  "segs_text [] = []"
| "segs_text [seg] = seg_text seg"
| "segs_text (seg # segs) = seg_text seg @ CHR '' '' # segs_text segs"

definition known_types :: "assegment list \<Rightarrow> bool" where
  "known_types segs \<longleftrightarrow> list_all (\<lambda>seg. separator_of (seg_type seg) \<noteq> None) segs"

definition path_text :: "assegment list \<Rightarrow> string" where
  "path_text segs = (if known_types segs then segs_text segs else [])"

fun path_last :: "assegment list \<Rightarrow> u32 \<Rightarrow> u32" where
  "path_last [] l = l"
| "path_last (seg # rest) l =
     (if separator_of (seg_type seg) = None then l
      else path_last rest (if seg_as seg = [] then l else last (seg_as seg)))"

section \<open>The buffer is large enough\<close>

lemma str_print_fits:
  "length buf + length s < n \<Longrightarrow>
     str_print n (buf, length buf) s = Inr (buf @ s, length (buf @ s))"
  by (simp add: str_print_def)

lemma asns_text_bound: "length (asns_text sep as) + (if as = [] then 0 else 1) \<le> 11 * length as"
proof (induction sep as rule: asns_text.induct)
  case (2 sep a)
  have "length (dec (unat a)) \<le> 10" by (rule length_dec_u32)
  then show ?case by simp
next
  case (3 sep a b as)
  have "length (dec (unat a)) \<le> 10" by (rule length_dec_u32)
  with 3 show ?case by simp
qed simp

lemma print_asns_fits:
  "length buf + length (asns_text sep as) < n \<Longrightarrow>
     print_asns n sep as (buf, length buf)
       = Inr (buf @ asns_text sep as, length (buf @ asns_text sep as))"
proof (induction sep as arbitrary: buf rule: asns_text.induct)
  case (2 sep a)
  then show ?case by (simp add: str_print_fits)
next
  case (3 sep a b as)
  have "print_asns n sep (b # as) (buf @ dec (unat a) @ [sep], length (buf @ dec (unat a) @ [sep]))
    = Inr ((buf @ dec (unat a) @ [sep]) @ asns_text sep (b # as),
        length ((buf @ dec (unat a) @ [sep]) @ asns_text sep (b # as)))"
    using 3(2) by (intro 3(1)) simp
  moreover have "str_print n (buf, length buf) (dec (unat a))
      = Inr (buf @ dec (unat a), length (buf @ dec (unat a)))"
    using 3(2) by (intro str_print_fits) simp
  moreover have "str_print n (buf @ dec (unat a), length (buf @ dec (unat a))) [sep]
      = Inr ((buf @ dec (unat a)) @ [sep], length ((buf @ dec (unat a)) @ [sep]))"
    using 3(2) by (intro str_print_fits) simp
  ultimately show ?case by (subst print_asns.simps(2)) simp
qed simp

lemma print_delim_fits:
  "length buf + length (delim_text (seg_type seg) b) < n \<Longrightarrow>
     print_delim n seg b (buf, length buf)
       = Inr (buf @ delim_text (seg_type seg) b, length (buf @ delim_text (seg_type seg) b))"
  by (auto simp: print_delim_def delim_text_def str_print_def split: if_splits)

lemma delim_text_bound: "length (delim_text t b) \<le> 1"
  by (simp add: delim_text_def)

lemma seg_text_bound: "length (seg_text seg) + 1 < SEGMENT_STR_LEN seg"
  using asns_text_bound [of "the (separator_of (seg_type seg))" "seg_as seg"]
    delim_text_bound [of "seg_type seg" True] delim_text_bound [of "seg_type seg" False]
  by (simp add: seg_text_def SEGMENT_STR_LEN_def ASN_STR_LEN_def)

text \<open>One turn of the loop.\<close>

lemma print_segments_step:
  fixes rest :: "assegment list"
  assumes sep: "separator_of (seg_type seg) = Some sep" and len: "length buf < n"
  defines "n' \<equiv> max n (length buf + SEGMENT_STR_LEN seg)"
    and "buf' \<equiv> buf @ seg_text seg @ (if rest = [] then [] else '' '')"
  shows "print_segments (seg # rest) n (buf, length buf) l
    = print_segments rest n' (buf', length buf') (if seg_as seg = [] then l else last (seg_as seg))"
    and "length buf' < n'"
proof -
  let ?t = "seg_type seg"
  define b1 where "b1 = buf @ delim_text ?t True"
  define b2 where "b2 = b1 @ asns_text sep (seg_as seg)"
  define b3 where "b3 = b2 @ delim_text ?t False"
  have b3: "b3 = buf @ seg_text seg" by (simp add: b1_def b2_def b3_def seg_text_def sep)
  have room: "length b3 + 1 < n'"
    using seg_text_bound [of seg] by (simp add: b3 n'_def)
  then show "length buf' < n'" by (simp add: b3 buf'_def split: if_splits)
  have n': "(if length buf + SEGMENT_STR_LEN seg > n then length buf + SEGMENT_STR_LEN seg else n) = n'"
    by (simp add: n'_def)
  have 1: "print_delim n' seg True (buf, length buf) = Inr (b1, length b1)"
    unfolding b1_def by (rule print_delim_fits) (use room in \<open>simp add: b1_def b2_def b3_def\<close>)
  have 2: "print_asns n' sep (seg_as seg) (b1, length b1) = Inr (b2, length b2)"
    unfolding b2_def by (rule print_asns_fits) (use room in \<open>simp add: b2_def b3_def\<close>)
  have 3: "print_delim n' seg False (b2, length b2) = Inr (b3, length b3)"
    unfolding b3_def by (rule print_delim_fits) (use room in \<open>simp add: b3_def\<close>)
  have 4: "(if rest \<noteq> [] then str_print n' (b3, length b3) '' '' else Inr (b3, length b3))
      = Inr (buf', length buf')"
    using room str_print_fits [of b3 "'' ''" n'] by (simp add: b3 buf'_def)
  show "print_segments (seg # rest) n (buf, length buf) l
    = print_segments rest n' (buf', length buf') (if seg_as seg = [] then l else last (seg_as seg))"
    by (simp only: print_segments.simps sep option.case snd_conv n' Let_def 1 2 3 4 fbind.simps)
qed

lemma segs_text_Cons:
  "segs_text (seg # rest) = seg_text seg @ (if rest = [] then [] else '' '') @ segs_text rest"
  by (cases rest) simp_all

lemma print_segments_text:
  "length buf < n \<Longrightarrow>
     (\<exists>m. print_segments segs n (buf, length buf) l
        = Inr (if known_types segs then Some (m, buf @ segs_text segs, length (buf @ segs_text segs))
               else None, path_last segs l)
      \<and> length (buf @ (if known_types segs then segs_text segs else [])) < m)"
proof (induction segs arbitrary: n buf l)
  case Nil
  then show ?case by (auto simp: known_types_def)
next
  case (Cons seg rest)
  show ?case
  proof (cases "separator_of (seg_type seg)")
    case None
    then show ?thesis using Cons.prems by (auto simp: known_types_def)
  next
    case (Some sep)
    from Cons.IH [OF print_segments_step(2) [OF Some Cons.prems, of rest]] show ?thesis
      unfolding print_segments_step(1) [OF Some Cons.prems, of rest l]
      by (auto simp: known_types_def Some segs_text_Cons)
  qed
qed

text \<open>The assertion at the end of the C function never fails, nothing is cut off, and the result is
  the text of the path.\<close>

lemma make_str_text:
  "aspath_make_str_count p
    = Inr (path_text (as_segments p), p\<lparr>as_last := path_last (as_segments p) (as_last p)\<rparr>)"
proof (cases "as_segments p = []")
  case True
  then show ?thesis
    by (simp add: aspath_make_str_count_def aspath_make_empty_def path_text_def known_types_def)
next
  case False
  let ?n = "max (nat (assegment_count_asns (as_segments p) 0) * ASN_STR_LEN + 2 + 1)
    ASPATH_STR_DEFAULT_LEN"
  have "length ([] :: string) < ?n" by (simp add: ASPATH_STR_DEFAULT_LEN_def)
  from print_segments_text [OF this, of "as_segments p" "as_last p"] obtain m where
    "print_segments (as_segments p) ?n ([], 0) (as_last p)
      = Inr (if known_types (as_segments p)
             then Some (m, segs_text (as_segments p), length (segs_text (as_segments p))) else None,
             path_last (as_segments p) (as_last p))"
    "length (if known_types (as_segments p) then segs_text (as_segments p) else []) < m"
    unfolding append_Nil list.size by blast
  then show ?thesis
    using False by (auto simp: aspath_make_str_count_def aspath_make_empty_def path_text_def Let_def
        split: if_splits)
qed

lemma path_last_atoms: "path_last segs (path_last segs l) = path_last segs l"
  by (induction segs arbitrary: l) auto

section \<open>Tokens\<close>

datatype as_token = as_token_asval | as_token_set_start | as_token_set_end
  | as_token_confed_seq_start | as_token_confed_seq_end | as_token_confed_set_start
  | as_token_confed_set_end | as_token_unknown

definition token_char :: "char \<Rightarrow> as_token option" where
  "token_char c =
     (if c = CHR ''{'' then Some as_token_set_start
      else if c = CHR ''}'' then Some as_token_set_end
      else if c = CHR ''('' then Some as_token_confed_seq_start
      else if c = CHR '')'' then Some as_token_confed_seq_end
      else if c = CHR ''['' then Some as_token_confed_set_start
      else if c = CHR '']'' then Some as_token_confed_set_end
      else None)"

definition as_value :: "string \<Rightarrow> u32" where
  "as_value ds = fold (\<lambda>c asval. asval * 10 + u32n (digit_val c)) ds 0"

text \<open>The result is \<open>NULL\<close> at the end of the string, else the rest of the string with the token and
  the value of \<open>*asno\<close>. On an unknown character the code returns \<open>p++\<close>, so the rest still starts
  with that character.\<close>

definition aspath_gettoken :: "string \<Rightarrow> u32 \<Rightarrow> (string \<times> as_token \<times> u32) option" where
  "aspath_gettoken buf asno =
     (let p = dropWhile (\<lambda>c. isspace c \<or> c = CHR '','') buf
      in case p of
           [] \<Rightarrow> None
         | c # p' \<Rightarrow>
             (case token_char c of
                Some token \<Rightarrow> Some (p', token, asno)
              | None \<Rightarrow>
                  if isdigit c
                  then Some (dropWhile isdigit p, as_token_asval, as_value (takeWhile isdigit p))
                  else Some (p, as_token_unknown, asno)))"

definition aspath_segment_add :: "assegment list \<Rightarrow> u8 \<Rightarrow> assegment list" where
  "aspath_segment_add segs t = segs @ [assegment_new t []]"

definition aspath_as_add :: "assegment list \<Rightarrow> u32 \<Rightarrow> assegment list" where
  "aspath_as_add segs asno =
     (if segs = [] then segs else butlast segs @ [assegment_append_asns (last segs) [asno]])"

text \<open>One turn of the \<open>switch\<close>: the segments, \<open>as_type\<close> and \<open>needtype\<close>; \<open>None\<close> is the failure on
  an unknown token.\<close>

type_synonym str_state = "assegment list \<times> u8 \<times> bool"

definition str2aspath_start :: "u8 \<Rightarrow> assegment list \<Rightarrow> str_state" where
  "str2aspath_start t segs = (aspath_segment_add segs t, t, False)"

definition str2aspath_step :: "as_token \<Rightarrow> u32 \<Rightarrow> str_state \<Rightarrow> str_state option" where
  "str2aspath_step token asno st = (case st of (segs, as_type, needtype) \<Rightarrow>
     (case token of
        as_token_asval \<Rightarrow>
          Some (aspath_as_add (if needtype then aspath_segment_add segs as_type else segs) asno,
                as_type, False)
      | as_token_set_start \<Rightarrow> Some (str2aspath_start AS_SET segs)
      | as_token_set_end \<Rightarrow> Some (segs, AS_SEQUENCE, True)
      | as_token_confed_seq_start \<Rightarrow> Some (str2aspath_start AS_CONFED_SEQUENCE segs)
      | as_token_confed_seq_end \<Rightarrow> Some (segs, AS_SEQUENCE, True)
      | as_token_confed_set_start \<Rightarrow> Some (str2aspath_start AS_CONFED_SET segs)
      | as_token_confed_set_end \<Rightarrow> Some (segs, AS_SEQUENCE, True)
      | as_token_unknown \<Rightarrow> None))"

lemma dropWhile_length: "length (dropWhile P xs) \<le> length xs"
  by (induction xs) auto

lemma gettoken_shorter:
  assumes "aspath_gettoken buf asno = Some (rest, token, asno')" "token \<noteq> as_token_unknown"
  shows "length rest < length buf"
proof -
  let ?p = "dropWhile (\<lambda>c. isspace c \<or> c = CHR '','') buf"
  obtain c p' where p: "?p = c # p'"
    using assms(1) by (auto simp: aspath_gettoken_def Let_def split: list.splits)
  have "length (c # p') \<le> length buf" using dropWhile_length [of _ buf] p by metis
  moreover have "length rest \<le> length p'"
    using assms p dropWhile_length [of isdigit p']
    by (auto simp: aspath_gettoken_def Let_def split: option.splits if_splits)
  ultimately show ?thesis by simp
qed

function str2aspath_loop :: "string \<Rightarrow> u32 \<Rightarrow> str_state \<Rightarrow> str_state option" where
  "str2aspath_loop str asno st =
     (case aspath_gettoken str asno of
        None \<Rightarrow> Some st
      | Some (str', token, asno') \<Rightarrow>
          (if token = as_token_unknown then None
           else Option.bind (str2aspath_step token asno' st) (str2aspath_loop str' asno')))"
  by pat_completeness auto
termination
  by (relation "measure (\<lambda>(str, _). length str)") (auto dest: gettoken_shorter)

declare str2aspath_loop.simps [simp del]

definition aspath_str2aspath :: "string \<Rightarrow> aspath option run" where
  "aspath_str2aspath str =
     (case str2aspath_loop str 0 ([], AS_SEQUENCE, True) of
        None \<Rightarrow> Inr None
      | Some (segs, _, _) \<Rightarrow>
          fbind (aspath_make_str_count (aspath_new\<lparr>as_segments := segs\<rparr>))
            (\<lambda>(_, p). Inr (Some p)))"

definition aspath_ast2aspath :: "u32 \<Rightarrow> aspath run" where
  "aspath_ast2aspath asn =
     fbind (aspath_make_str_count
              (aspath_new\<lparr>as_segments :=
                 aspath_as_add (aspath_segment_add [] AS_SEQUENCE) asn\<rparr>))
       (\<lambda>(_, p). Inr p)"

section \<open>Reading back what was printed\<close>

lemma as_value_dec: "as_value (dec (unat a)) = a"
proof -
  have step: "u32n n * 10 + u32n d = u32n (n * 10 + d)" for n d by (simp add: u32n_def)
  have "fold (\<lambda>c v. v * 10 + u32n (digit_val c)) ds (u32n n) = u32n (undec n ds)" for ds n
    by (induction ds arbitrary: n) (simp_all add: undec_def step)
  from this [of "dec (unat a)" 0] show ?thesis
    by (simp add: as_value_def undec_dec) (simp add: u32n_def)
qed

lemma digit_plain: "isdigit c \<Longrightarrow> \<not> isspace c \<and> c \<noteq> CHR '','' \<and> token_char c = None"
  by (auto simp: isdigit_not_isspace) (auto simp: isdigit_def token_char_def)

lemma gettoken_skip:
  "isspace c \<or> c = CHR '','' \<Longrightarrow> aspath_gettoken (c # buf) n = aspath_gettoken buf n"
  by (auto simp: aspath_gettoken_def)

lemma loop_skip:
  "isspace c \<or> c = CHR '','' \<Longrightarrow> str2aspath_loop (c # buf) n st = str2aspath_loop buf n st"
  by (subst (1 2) str2aspath_loop.simps) (simp only: gettoken_skip)

lemma isspace_space [simp]: "isspace CHR '' ''"
  by (simp add: isspace_def)

lemma gettoken_number:
  assumes "r = [] \<or> \<not> isdigit (hd r)"
  shows "aspath_gettoken (dec (unat a) @ r) n = Some (r, as_token_asval, a)"
proof -
  obtain c ds where d: "dec (unat a) = c # ds" by (cases "dec (unat a)") auto
  have digits: "isdigit x" if "x \<in> set (c # ds)" for x
    using dec_digits [of x "unat a"] that by (simp add: d)
  have tw: "takeWhile isdigit ((c # ds) @ r) = c # ds" "dropWhile isdigit ((c # ds) @ r) = r"
    using digits assms by (cases r; simp add: takeWhile_append dropWhile_append)+
  show ?thesis
    using tw digit_plain [of c] digits as_value_dec [of a]
    by (simp add: aspath_gettoken_def d Let_def)
qed

lemma loop_number:
  assumes "r = [] \<or> \<not> isdigit (hd r)"
  shows "str2aspath_loop (dec (unat a) @ r) n (segs, t, need)
    = str2aspath_loop r a
        (aspath_as_add (if need then aspath_segment_add segs t else segs) a, t, False)"
  by (subst str2aspath_loop.simps) (simp add: gettoken_number [OF assms] str2aspath_step_def)

lemma gettoken_sign:
  assumes "token_char c = Some tok"
  shows "aspath_gettoken (c # r) n = Some (r, tok, n)"
proof -
  have "\<not> isspace c" "c \<noteq> CHR '',''"
    using assms by (auto simp: token_char_def isspace_def split: if_splits)
  then show ?thesis using assms by (simp add: aspath_gettoken_def)
qed

lemma loop_sign:
  assumes "token_char c = Some tok" "str2aspath_step tok n st = Some st'"
  shows "str2aspath_loop (c # r) n st = str2aspath_loop r n st'"
proof -
  have "tok \<noteq> as_token_unknown"
    using assms(1) by (auto simp: token_char_def split: if_splits)
  then show ?thesis
    using assms by (subst str2aspath_loop.simps) (simp add: gettoken_sign)
qed

lemma as_add_last:
  "seg_length seg < 65535 \<Longrightarrow>
     aspath_as_add (segs @ [seg]) a = segs @ [seg\<lparr>seg_as := seg_as seg @ [a]\<rparr>]"
  by (simp add: aspath_as_add_def assegment_append_asns_def)

definition sep_char :: "char \<Rightarrow> bool" where
  "sep_char c \<longleftrightarrow> c = CHR '' '' \<or> c = CHR '',''"

lemma sep_char_plain: "sep_char c \<Longrightarrow> (isspace c \<or> c = CHR '','') \<and> \<not> isdigit c"
  by (auto simp: sep_char_def isdigit_def)

lemma loop_asns:
  "sep_char sep \<Longrightarrow> r = [] \<or> \<not> isdigit (hd r) \<Longrightarrow> seg_length seg + length as < 65536 \<Longrightarrow>
     \<exists>n'. str2aspath_loop (asns_text sep as @ r) n (segs @ [seg], t, False)
       = str2aspath_loop r n' (segs @ [seg\<lparr>seg_as := seg_as seg @ as\<rparr>], t, False)"
proof (induction sep as arbitrary: seg n rule: asns_text.induct)
  case (1 sep)
  then show ?case by auto
next
  case (2 sep a)
  then show ?case by (auto simp: loop_number as_add_last)
next
  case (3 sep a b as)
  let ?seg = "seg\<lparr>seg_as := seg_as seg @ [a]\<rparr>"
  have sep: "isspace sep \<or> sep = CHR '',''" "\<not> isdigit sep" using sep_char_plain [OF 3(2)] by auto
  from 3(1) [OF 3(2,3), of ?seg a] 3(4) obtain n' where
    "str2aspath_loop (asns_text sep (b # as) @ r) a (segs @ [?seg], t, False)
      = str2aspath_loop r n' (segs @ [?seg\<lparr>seg_as := seg_as ?seg @ b # as\<rparr>], t, False)"
    by auto
  moreover have "str2aspath_loop (asns_text sep (a # b # as) @ r) n (segs @ [seg], t, False)
      = str2aspath_loop (asns_text sep (b # as) @ r) a (segs @ [?seg], t, False)"
    using 3(4) sep by (simp add: loop_number loop_skip as_add_last)
  ultimately show ?case by auto
qed

lemma sep_of_char: "separator_of t = Some sep \<Longrightarrow> sep_char sep"
  by (auto simp: separator_of_def sep_char_def split: if_splits)

text \<open>The delimiters of the segments that have some.\<close>

lemma delim_step:
  assumes "separator_of t = Some sep" "t \<noteq> AS_SEQUENCE"
  shows "\<exists>tok. token_char (aspath_delimiter_char t True) = Some tok
      \<and> str2aspath_step tok n (segs, as_type, need) = Some (segs @ [assegment_new t []], t, False)"
    and "\<exists>tok. token_char (aspath_delimiter_char t False) = Some tok
      \<and> str2aspath_step tok n (segs', t', need') = Some (segs', AS_SEQUENCE, True)"
    and "\<not> isdigit (aspath_delimiter_char t False)"
  using assms
  by (auto simp: separator_of_def aspath_delimiter_char_def token_char_def str2aspath_step_def
      str2aspath_start_def aspath_segment_add_def isdigit_def split: if_splits)

lemma loop_segment:
  assumes sep: "separator_of (seg_type seg) = Some sep" and len: "seg_length seg < 65536"
    and r: "r = [] \<or> \<not> isdigit (hd r)"
    and seq: "seg_type seg = AS_SEQUENCE \<Longrightarrow> need \<and> seg_as seg \<noteq> []"
  shows "\<exists>n'. str2aspath_loop (seg_text seg @ r) n (acc, AS_SEQUENCE, need)
    = str2aspath_loop r n' (acc @ [seg], AS_SEQUENCE, seg_type seg \<noteq> AS_SEQUENCE)"
proof (cases "seg_type seg = AS_SEQUENCE")
  case True
  then obtain a as where as: "seg_as seg = a # as" using seq by (cases "seg_as seg") auto
  have new: "assegment_new AS_SEQUENCE (a # as) = seg"
    using assegment_new_self [of seg] True as by simp
  have sp: "sep = CHR '' ''" using sep True by (simp add: separator_of_def as_types)
  let ?seg = "assegment_new AS_SEQUENCE [a]"
  have one: "aspath_as_add (aspath_segment_add acc AS_SEQUENCE) a = acc @ [?seg]"
    by (simp add: aspath_segment_add_def as_add_last assegment_new_def)
  have upd: "?seg\<lparr>seg_as := seg_as ?seg @ as\<rparr> = seg"
    unfolding new [symmetric] by (simp add: assegment_new_def)
  show ?thesis
  proof (cases as)
    case Nil
    then show ?thesis
      using True seq r one new by (auto simp: seg_text_def delim_text_def as loop_number)
  next
    case (Cons b bs)
    have "\<exists>n'. str2aspath_loop (asns_text sep as @ r) a (acc @ [?seg], AS_SEQUENCE, False)
      = str2aspath_loop r n' (acc @ [seg], AS_SEQUENCE, False)"
      using loop_asns [OF sep_of_char [OF sep] r, of ?seg as a acc AS_SEQUENCE] len
      unfolding upd by (simp add: as assegment_new_def)
    moreover have "str2aspath_loop (seg_text seg @ r) n (acc, AS_SEQUENCE, need)
      = str2aspath_loop (asns_text sep as @ r) a (acc @ [?seg], AS_SEQUENCE, False)"
      using True seq one sep sep_char_plain [OF sep_of_char [OF sep]]
      by (simp add: seg_text_def delim_text_def as Cons loop_number loop_skip)
    ultimately show ?thesis using True by auto
  qed
next
  case False
  let ?t = "seg_type seg"
  let ?r = "aspath_delimiter_char ?t False # r"
  note D = delim_step [OF sep False]
  have t: "seg_text seg @ r = aspath_delimiter_char ?t True # asns_text sep (seg_as seg) @ ?r"
    using False by (simp add: seg_text_def delim_text_def sep)
  have upd: "(assegment_new ?t [])\<lparr>seg_as := seg_as (assegment_new ?t []) @ seg_as seg\<rparr> = seg"
    by (cases seg) (simp add: assegment_new_def)
  from D(1) have "str2aspath_loop (seg_text seg @ r) n (acc, AS_SEQUENCE, need)
      = str2aspath_loop (asns_text sep (seg_as seg) @ ?r) n (acc @ [assegment_new ?t []], ?t, False)"
    unfolding t by (metis loop_sign)
  also have "\<exists>n'. \<dots> = str2aspath_loop ?r n' (acc @ [seg], ?t, False)"
    using loop_asns [OF sep_of_char [OF sep], of ?r "assegment_new ?t []" "seg_as seg" n acc ?t]
      D(3) len
    unfolding upd by (simp add: assegment_new_def)
  then obtain n' where "str2aspath_loop (asns_text sep (seg_as seg) @ ?r) n
      (acc @ [assegment_new ?t []], ?t, False) = str2aspath_loop ?r n' (acc @ [seg], ?t, False)" ..
  also have "str2aspath_loop ?r n' (acc @ [seg], ?t, False)
      = str2aspath_loop r n' (acc @ [seg], AS_SEQUENCE, True)"
    using D(2) by (metis loop_sign)
  finally show ?thesis using False by auto
qed

lemma loop_segments:
  "known_types segs \<Longrightarrow> full_sequences segs \<Longrightarrow> \<forall>seg \<in> set segs. seg_length seg < 65536 \<Longrightarrow>
     successively (\<lambda>x y. \<not> assegment_types_packable x y) segs \<Longrightarrow>
     (segs \<noteq> [] \<Longrightarrow> seg_type (hd segs) = AS_SEQUENCE \<Longrightarrow> need) \<Longrightarrow>
     \<exists>need'. str2aspath_loop (segs_text segs) n (acc, AS_SEQUENCE, need)
       = Some (acc @ segs, AS_SEQUENCE, need')"
proof (induction segs arbitrary: n acc need)
  case Nil
  then show ?case by (simp add: str2aspath_loop.simps aspath_gettoken_def)
next
  case (Cons seg rest)
  let ?r = "(if rest = [] then [] else '' '') @ segs_text rest"
  obtain sep where sep: "separator_of (seg_type seg) = Some sep"
    using Cons.prems(1) by (auto simp: known_types_def)
  have r: "?r = [] \<or> \<not> isdigit (hd ?r)" by (simp add: isdigit_def)
  from loop_segment [OF sep _ r, of need n acc] Cons.prems obtain n' where
    "str2aspath_loop (segs_text (seg # rest)) n (acc, AS_SEQUENCE, need)
      = str2aspath_loop ?r n' (acc @ [seg], AS_SEQUENCE, seg_type seg \<noteq> AS_SEQUENCE)"
    unfolding segs_text_Cons append_assoc by (auto simp: full_sequences_def)
  moreover have "str2aspath_loop ?r n' st = str2aspath_loop (segs_text rest) n' st" for st
    by (simp add: loop_skip)
  moreover have "\<exists>need'. str2aspath_loop (segs_text rest) n'
      (acc @ [seg], AS_SEQUENCE, seg_type seg \<noteq> AS_SEQUENCE)
      = Some ((acc @ [seg]) @ rest, AS_SEQUENCE, need')"
    by (rule Cons.IH)
       (use Cons.prems in \<open>auto simp: known_types_def full_sequences_def successively_Cons
          packable_sequence\<close>)
  ultimately show ?case by simp
qed

lemma str2aspath_text:
  assumes "segs_normal segs" "full_sequences segs" "known_types segs"
    and "\<forall>seg \<in> set segs. seg_length seg < 65536"
  shows "aspath_str2aspath (path_text segs)
    = Inr (Some (aspath_new\<lparr>as_segments := segs, as_last := path_last segs 0\<rparr>))"
proof -
  from loop_segments [OF assms(3,2,4), of True 0 "[]"] assms(1) obtain need where
    "str2aspath_loop (segs_text segs) 0 ([], AS_SEQUENCE, True) = Some (segs, AS_SEQUENCE, need)"
    by (auto simp: segs_normal_def)
  then show ?thesis
    by (simp add: aspath_str2aspath_def path_text_def assms(3) make_str_text)
       (simp add: aspath_new_def)
qed

end
