(* ===== verification/AspathPool.thy ===== *)
theory AspathPool
  imports AspathText
begin

text \<open>
  AS paths on the wire and in the table of interned paths: \<open>assegments_parse\<close> and
  \<open>aspath_parse\<close>, the hash key and the comparison, \<open>aspath_intern\<close> and \<open>aspath_unintern\<close>, and the
  reconciliation of AS\_PATH with AS4\_PATH. The wire buffer is the list of the bytes that may be
  read from \<open>s\<close> on; \<open>len\<close> is what the caller says of it.
\<close>

section \<open>The wire format\<close>

fun read_asns :: "bool \<Rightarrow> nat \<Rightarrow> u8 list \<Rightarrow> (u32 list \<times> u8 list) run" where
  "read_asns use32bit 0 s = Inr ([], s)"
| "read_asns use32bit (Suc n) s =
     (if use32bit
      then (case rd32 s of None \<Rightarrow> Inl OutOfBounds
            | Some w \<Rightarrow> fbind (read_asns use32bit n (drop 4 s)) (\<lambda>(ws, s'). Inr (w # ws, s')))
      else (case rd16 s of None \<Rightarrow> Inl OutOfBounds
            | Some w \<Rightarrow> fbind (read_asns use32bit n (drop 2 s)) (\<lambda>(ws, s'). Inr (ucast w # ws, s'))))"

text \<open>
  The loop over the segments. The variables \<open>bytes\<close> and \<open>aspathlen\<close> are of type \<open>size_t\<close>; the
  check on \<open>seg_size\<close> keeps \<open>aspathlen - seg_size\<close> from wrapping, because their sum is always
  \<open>len\<close>. \<open>None\<close> is the return of a null pointer on a malformed segment.
\<close>

function segments_loop :: "bool \<Rightarrow> u8 list \<Rightarrow> nat \<Rightarrow> nat \<Rightarrow> nat \<Rightarrow> bool \<Rightarrow> assegment list
    \<Rightarrow> assegment list option run" where
  "segments_loop bmp s len bytes aspathlen use32bit segs =
     (if aspathlen = 0 then Inr (Some segs)
      else case s of
        t # l # s1 \<Rightarrow>
          let use32 = (if bmp \<and> 2 < aspathlen \<and> l \<noteq> 0 \<and> (aspathlen - 2) div unat l = 4
                       then True else use32bit);
              seg_size = ASSEGMENT_SIZE (unat l) use32
          in if len < bytes + seg_size \<or> l = 0 then Inr None
             else fbind (read_asns use32 (unat l) s1) (\<lambda>(ws, s2).
                    segments_loop bmp s2 len (bytes + seg_size) (aspathlen - seg_size) use32
                      (segs @ [assegment_new t ws]))
      | _ \<Rightarrow> Inl OutOfBounds)"
  by pat_completeness auto
termination
  by (relation "measure (\<lambda>(bmp, s, len, bytes, aspathlen, u, segs). aspathlen)")
     (auto simp: ASSEGMENT_SIZE_def)

declare segments_loop.simps [simp del]

definition assegments_parse :: "bool \<Rightarrow> u8 list \<Rightarrow> nat \<Rightarrow> bool \<Rightarrow> assegment list run" where
  "assegments_parse bmp s len use32bit =
     (if len = 0 then Inr []
      else if len mod 2 \<noteq> 0 then Inr []
      else fbind (segments_loop bmp s len 0 len use32bit []) (\<lambda>r.
             case r of None \<Rightarrow> Inr [] | Some segs \<Rightarrow> Inr (assegment_normalise segs)))"

section \<open>Key, comparison, interning\<close>

definition c_bytes :: "string \<Rightarrow> u8 list" where
  "c_bytes s = map (\<lambda>c. u8n (of_char c)) s"

definition aspath_key_make :: "aspath \<Rightarrow> (u32 \<times> aspath) run" where
  "aspath_key_make p =
     fbind (if as_str p = None then aspath_str_update p else Inr p) (\<lambda>p.
       Inr (jhash (c_bytes (the (as_str p))) 2334325, p))"

definition aspath_set_str :: "aspath \<Rightarrow> aspath run" where
  "aspath_set_str p = (if as_str p = None then aspath_str_update p else Inr p)"

text \<open>
  The operations record of the AS paths. \<open>aspath_key_make\<close> and the update of a missing string never
  fault (\<open>key_make_ok\<close>, \<open>set_str_ok\<close> below), so the fields take the results out of \<open>Inr\<close>.
\<close>

definition aspath_ops :: "aspath obj_ops" where
  "aspath_ops =
     \<lparr>o_key = (\<lambda>p. case aspath_key_make p of Inl _ \<Rightarrow> 0 | Inr (k, _) \<Rightarrow> k),
      o_cmp = aspath_cmp,
      o_ref = as_refcnt,
      o_set_ref = (\<lambda>n p. p\<lparr>as_refcnt := n\<rparr>),
      o_touch = (\<lambda>p. case aspath_key_make p of Inl _ \<Rightarrow> p | Inr (_, q) \<Rightarrow> q),
      o_mkstr = (\<lambda>p. case aspath_set_str p of Inl _ \<Rightarrow> p | Inr q \<Rightarrow> q)\<rparr>"

definition aspath_init :: "nat \<Rightarrow> aspath pool" where
  "aspath_init buckets = pool_init 32767"

definition aspath_intern ::
  "bgp_peer option \<Rightarrow> aspath pool \<Rightarrow> nat \<Rightarrow> (nat option \<times> aspath pool) run" where
  "aspath_intern peer P a = obj_intern aspath_ops peer P a"

definition aspath_unintern :: "bgp_peer option \<Rightarrow> aspath pool \<Rightarrow> nat option \<Rightarrow> aspath pool run" where
  "aspath_unintern peer P ptr = obj_unintern aspath_ops peer P ptr"

text \<open>A null result ends the process in \<open>hash_get\<close>.\<close>

definition aspath_hash_alloc :: "aspath \<Rightarrow> (aspath \<times> aspath) run" where
  "aspath_hash_alloc arg =
     fbind (aspath_dup arg) (\<lambda>(new, arg). if as_str new = None then Inl ExitCalled else Inr (new, arg))"

definition aspath_lookup ::
  "bgp_peer option \<Rightarrow> aspath pool \<Rightarrow> aspath \<Rightarrow> (nat option \<times> aspath pool) run" where
  "aspath_lookup peer P p = obj_get_dup aspath_ops aspath_hash_alloc peer P p"

definition is_bmp :: "bgp_peer option \<Rightarrow> bool" where
  "is_bmp peer = (case peer of None \<Rightarrow> False | Some p \<Rightarrow> bp_type p = FUNC_TYPE_BMP)"

definition aspath_parse ::
  "bgp_peer option \<Rightarrow> aspath pool \<Rightarrow> u8 list \<Rightarrow> nat \<Rightarrow> bool \<Rightarrow> (nat option \<times> aspath pool) run" where
  "aspath_parse peer P s len use32bit =
     (if \<not> peer_ok peer then Inr (None, P)
      else if len mod 2 \<noteq> 0 then Inr (None, P)
      else fbind (assegments_parse (is_bmp peer) s len use32bit) (\<lambda>segs.
             aspath_lookup peer P (aspath_new\<lparr>as_segments := segs\<rparr>)))"

definition aspath_parse_ast ::
  "bgp_peer option \<Rightarrow> aspath pool \<Rightarrow> u32 \<Rightarrow> (nat option \<times> aspath pool) run" where
  "aspath_parse_ast peer P asn =
     (if \<not> peer_ok peer then Inr (None, P)
      else fbind (aspath_ast2aspath asn) (\<lambda>p. aspath_lookup peer P p))"

section \<open>Merging and reconciliation\<close>

text \<open>\<open>last->next\<close> of an empty first path is a null dereference.\<close>

definition aspath_merge :: "aspath option \<Rightarrow> aspath option \<Rightarrow> aspath option run" where
  "aspath_merge ptr1 ptr2 =
     (case (ptr1, ptr2) of
        (Some as1, Some as2) \<Rightarrow>
          if as_segments as1 = [] then Inl NullDeref
          else fbind (aspath_str_update
                        (as2\<lparr>as_segments := assegment_dup_all (as_segments as1) @ as_segments as2\<rparr>))
                 (\<lambda>p. Inr (Some p))
      | _ \<Rightarrow> Inr None)"

text \<open>The \<open>switch\<close> with its fall-through from AS\_CONFED\_SEQUENCE: the new \<open>hops\<close> and \<open>cpasns\<close>,
  which a segment of unknown type leaves as they are.\<close>

definition reconcile_switch :: "assegment \<Rightarrow> int \<Rightarrow> int \<Rightarrow> int \<times> int" where
  "reconcile_switch seg hops cpasns =
     (let len = int (seg_length seg) in
      if is_set_type (seg_type seg) then (hops - 1, len)
      else if seg_type seg = AS_CONFED_SEQUENCE \<or> seg_type seg = AS_SEQUENCE
        then let hops = (if seg_type seg = AS_CONFED_SEQUENCE \<and> hops < len then len else hops)
             in (hops - len, min len hops)
      else (hops, cpasns))"

fun reconcile_loop :: "assegment list \<Rightarrow> int \<Rightarrow> int \<Rightarrow> assegment list run" where
  "reconcile_loop [] hops cpasns = Inr []"
| "reconcile_loop (seg # rest) hops cpasns =
     (if 0 < hops
      then case reconcile_switch seg hops cpasns of (hops, cpasns) \<Rightarrow>
             c_assert (cpasns \<le> int (seg_length seg))
               (let newseg = assegment_append_asns (assegment_new (seg_type seg) [])
                               (take (nat cpasns) (seg_as seg))
                in fbind (reconcile_loop rest hops cpasns) (\<lambda>segs. Inr (newseg # segs)))
      else Inr [])"

definition reconcile_hops :: "aspath \<Rightarrow> aspath \<Rightarrow> int" where
  "reconcile_hops p p4 =
     (let hops = int (aspath_count_hops p + aspath_count_confeds p) - int (aspath_count_hops p4)
      in if hops < 0 then int (aspath_count_hops p) else hops)"

text \<open>From the segments copied by the loop (a null \<open>newpath\<close> when there are none) to the result.\<close>

definition reconcile_finish :: "assegment list \<Rightarrow> aspath \<Rightarrow> aspath option run" where
  "reconcile_finish segs p4 =
     (let newpath = (if segs = [] then None else Some (aspath_new\<lparr>as_segments := segs\<rparr>))
      in fbind (aspath_dup p4) (\<lambda>(dup4, _).
         fbind (aspath_merge newpath (Some dup4)) (\<lambda>mergedpath.
           case mergedpath of
             None \<Rightarrow> Inl NullDeref
           | Some m \<Rightarrow>
               fbind (aspath_str_update (m\<lparr>as_segments := assegment_normalise (as_segments m)\<rparr>))
                 (\<lambda>r. Inr (Some r)))))"

definition aspath_reconcile_as4 :: "aspath option \<Rightarrow> aspath option \<Rightarrow> aspath option run" where
  "aspath_reconcile_as4 ptr ptr4 =
     (case ptr of None \<Rightarrow> Inr None
      | Some p \<Rightarrow>
        (case ptr4 of None \<Rightarrow> Inl NullDeref
         | Some p4 \<Rightarrow>
           if reconcile_hops p p4 = 0 then fbind (aspath_dup p4) (\<lambda>(new, _). Inr (Some new))
           else fbind (reconcile_loop (as_segments p) (reconcile_hops p p4) 0)
                  (\<lambda>segs. reconcile_finish segs p4)))"

end
