(* ===== verification/AspathFacts.thy ===== *)
theory AspathFacts
  imports AspathPool
begin

text \<open>
  What the AS path component guarantees: the wire parser stays inside its buffer and inverts the
  encoding, the operations satisfy the contract of interned objects, and the reconciliation of
  AS\_PATH with AS4\_PATH never trips its assertion on paths of known segment types.
\<close>

section \<open>The contract of the table\<close>

lemma int_cmp_sorts: "sorted_wrt (\<lambda>a b. int_cmp a b \<le> 0) (sort xs)"
proof -
  have "sorted_wrt (\<le>) (sort xs)" by simp
  then show ?thesis by (rule sorted_wrt_mono_rel [rotated]) (auto simp: int_cmp_def)
qed

lemma cmp_segments_eq: "cmp_segments xs ys \<longleftrightarrow> xs = ys"
proof (induction xs ys rule: cmp_segments.induct)
  case (4 x xs y ys)
  have "list_ex (\<lambda>(x, y). x \<noteq> y) (zip as bs) \<longleftrightarrow> as \<noteq> bs" if "length as = length bs"
    for as bs :: "u32 list"
    using that by (induction as bs rule: list_induct2) auto
  then show ?case using 4 by (cases x; cases y) auto
qed auto

definition aspath_good :: "aspath \<Rightarrow> bool" where
  "aspath_good p \<longleftrightarrow> as_str p = None \<or> as_str p = Some (path_text (as_segments p))"

definition path_key :: "assegment list \<Rightarrow> u32" where
  "path_key segs = jhash (c_bytes (path_text segs)) 2334325"

definition with_str :: "aspath \<Rightarrow> aspath" where
  "with_str p = (if as_str p = None
     then p\<lparr>as_last := path_last (as_segments p) (as_last p), as_str := Some (path_text (as_segments p))\<rparr>
     else p)"

lemma str_update_ok:
  "aspath_str_update p = Inr (p\<lparr>as_last := path_last (as_segments p) (as_last p),
     as_str := Some (path_text (as_segments p))\<rparr>)"
  by (simp add: aspath_str_update_def make_str_text)

lemma set_str_ok: "aspath_set_str p = Inr (with_str p)"
  by (simp add: aspath_set_str_def with_str_def str_update_ok)

lemma with_str_fields [simp]:
  "as_refcnt (with_str p) = as_refcnt p" "as_segments (with_str p) = as_segments p"
  by (simp_all add: with_str_def)

lemma with_str_good: "aspath_good p \<Longrightarrow> as_str (with_str p) = Some (path_text (as_segments p))"
  by (auto simp: with_str_def aspath_good_def)

lemma key_make_ok:
  "aspath_key_make p = Inr (jhash (c_bytes (the (as_str (with_str p)))) 2334325, with_str p)"
  by (simp add: aspath_key_make_def with_str_def str_update_ok)

lemma aspath_ops_simps [simp]:
  "o_cmp aspath_ops p q \<longleftrightarrow> as_segments p = as_segments q"
  "o_ref aspath_ops p = as_refcnt p"
  "o_set_ref aspath_ops n p = p\<lparr>as_refcnt := n\<rparr>"
  "o_touch aspath_ops p = with_str p"
  "o_mkstr aspath_ops p = with_str p"
  "aspath_good p \<Longrightarrow> o_key aspath_ops p = path_key (as_segments p)"
  by (simp_all add: aspath_ops_def aspath_cmp_def cmp_segments_eq key_make_ok set_str_ok
      with_str_good path_key_def)

interpretation asp: obj_class aspath_ops aspath_good
  by unfold_locales (auto simp: with_str_good aspath_good_def)

lemma dup_all_self: "assegment_dup_all segs = segs"
  by (simp add: assegment_dup_all_def assegment_dup_def assegment_new_self map_idI)

lemma aspath_dup_ok: "dup_ok aspath_ops aspath_good aspath_hash_alloc"
  by (auto simp: dup_ok_def aspath_hash_alloc_def aspath_dup_def make_str_text aspath_good_def
      dup_all_self with_str_def)

text \<open>Sharing the key function with the table itself.\<close>

interpretation aspath_hash: hash_fun "aspath_good" "o_key aspath_ops" "aspath_cmp"
  by unfold_locales (auto simp: aspath_cmp_def cmp_segments_eq)

section \<open>Reading the wire format\<close>

lemma read_asns_ok:
  "n * (if b then 4 else 2) \<le> length s \<Longrightarrow>
     \<exists>ws. read_asns b n s = Inr (ws, drop (n * (if b then 4 else 2)) s) \<and> length ws = n"
proof (induction n arbitrary: s)
  case (Suc n)
  let ?w = "if b then 4 else 2 :: nat"
  obtain ws where "read_asns b n (drop ?w s) = Inr (ws, drop (n * ?w) (drop ?w s))" "length ws = n"
    using Suc.IH [of "drop ?w s"] Suc.prems by fastforce
  moreover have "drop (n * ?w) (drop ?w s) = drop (Suc n * ?w) s" by (simp add: add.commute)
  moreover have "b \<Longrightarrow> \<exists>w. rd32 s = Some w" "\<not> b \<Longrightarrow> \<exists>w. rd16 s = Some w"
    using Suc.prems by (auto simp: rd32_Some_iff rd16_Some_iff)
  ultimately show ?case by (cases b) auto
qed simp

lemma segments_loop_ok:
  "bytes + aspathlen = len \<Longrightarrow> aspathlen \<le> length s \<Longrightarrow> even aspathlen \<Longrightarrow>
     full_sequences segs \<Longrightarrow> 2 * total_asns segs \<le> bytes \<Longrightarrow>
     \<exists>r. segments_loop bmp s len bytes aspathlen use32bit segs = Inr r
       \<and> (\<forall>segs'. r = Some segs' \<longrightarrow> full_sequences segs' \<and> 2 * total_asns segs' \<le> len)"
proof (induction bmp s len bytes aspathlen use32bit segs rule: segments_loop.induct)
  case (1 bmp s len bytes aspathlen use32bit segs)
  show ?case
  proof (cases "aspathlen = 0")
    case True
    with 1 show ?thesis by (subst segments_loop.simps) auto
  next
    case False
    with 1(4) have "2 \<le> aspathlen" by auto
    with 1(3) obtain t l s1 where s: "s = t # l # s1"
      by (metis Suc_le_D Suc_le_length_iff numeral_2_eq_2 le_trans)
    define use32 where "use32 = (if bmp \<and> 2 < aspathlen \<and> l \<noteq> 0 \<and> (aspathlen - 2) div unat l = 4
                       then True else use32bit)"
    define sz where "sz = ASSEGMENT_SIZE (unat l) use32"
    let ?w = "if use32 then 4 else 2 :: nat"
    have step: "segments_loop bmp s len bytes aspathlen use32bit segs =
       (if len < bytes + sz \<or> l = 0 then Inr None
        else fbind (read_asns use32 (unat l) s1) (\<lambda>(ws, s2).
               segments_loop bmp s2 len (bytes + sz) (aspathlen - sz) use32
                      (segs @ [assegment_new t ws])))"
      using False by (subst segments_loop.simps) (simp add: s Let_def use32_def sz_def)
    show ?thesis
    proof (cases "len < bytes + sz \<or> l = 0")
      case True
      then show ?thesis unfolding step by auto
    next
      case ok: False
      then have sz: "sz \<le> aspathlen" "2 + unat l * ?w = sz"
        using 1(2) by (auto simp: sz_def ASSEGMENT_SIZE_def)
      then have "unat l * ?w \<le> length s1" using 1(3) s by simp
      from read_asns_ok [OF this] obtain ws where
        ws: "read_asns use32 (unat l) s1 = Inr (ws, drop (unat l * ?w) s1)" "length ws = unat l"
        by blast
      let ?s2 = "drop (unat l * ?w) s1" and ?segs = "segs @ [assegment_new t ws]"
      have "unat l \<noteq> 0" using ok by (simp add: unat_eq_zero)
      then have "ws \<noteq> []" using ws(2) by auto
      then have "full_sequences ?segs"
        using 1(5) by (simp add: full_sequences_def assegment_new_def)
      moreover have "2 * total_asns ?segs \<le> bytes + sz"
        using 1(6) ws(2) sz(2) by (auto simp: total_asns_def assegment_new_def split: if_splits)
      moreover have "even (aspathlen - sz)" "bytes + sz + (aspathlen - sz) = len"
        "aspathlen - sz \<le> length ?s2"
        using 1(2-4) sz s by (auto split: if_splits)
      ultimately show ?thesis
        using 1(1) [OF False s refl use32_def sz_def ok _ refl] ws(1)
        unfolding step using ok by auto
    qed
  qed
qed

lemma assegments_parse_ok:
  assumes "len \<le> length s"
  shows "\<exists>segs. assegments_parse bmp s len use32bit = Inr segs \<and> segs_normal segs
    \<and> (len < 131072 \<longrightarrow> full_sequences segs)"
proof (cases "len = 0 \<or> len mod 2 \<noteq> 0")
  case True
  then show ?thesis by (auto simp: assegments_parse_def full_sequences_def)
next
  case False
  then obtain r where r: "segments_loop bmp s len 0 len use32bit [] = Inr r"
    "\<And>segs. r = Some segs \<Longrightarrow> full_sequences segs \<and> 2 * total_asns segs \<le> len"
    using segments_loop_ok [of 0 len len s "[]" bmp use32bit] assms
    by (auto simp: full_sequences_def)
  show ?thesis
  proof (cases r)
    case None
    then show ?thesis using r False by (auto simp: assegments_parse_def full_sequences_def)
  next
    case (Some segs)
    then have "len < 131072 \<longrightarrow> full_sequences (assegment_normalise segs)"
      using r(2) [OF Some] by (auto intro: normalise_full)
    with Some r(1) False show ?thesis
      by (auto simp: assegments_parse_def normalise_normal_lemma)
  qed
qed

text \<open>The encoding of RFC 4271 and RFC 6793: type, count, AS numbers of two or four octets.\<close>

definition wire_asn :: "bool \<Rightarrow> u32 \<Rightarrow> u8 list" where
  "wire_asn use32bit a = (if use32bit then bytes32 a else bytes16 (ucast a))"

definition wire_seg :: "bool \<Rightarrow> assegment \<Rightarrow> u8 list" where
  "wire_seg use32bit seg =
     seg_type seg # u8n (seg_length seg) # concat (map (wire_asn use32bit) (seg_as seg))"

definition wire_path :: "bool \<Rightarrow> assegment list \<Rightarrow> u8 list" where
  "wire_path use32bit segs = concat (map (wire_seg use32bit) segs)"

definition wire_fits :: "bool \<Rightarrow> assegment list \<Rightarrow> bool" where
  "wire_fits use32bit segs \<longleftrightarrow>
     (\<forall>seg \<in> set segs. 0 < seg_length seg \<and> seg_length seg < 256
        \<and> (\<not> use32bit \<longrightarrow> (\<forall>a \<in> set (seg_as seg). a < 65536)))"

lemma ucast_ucast_u16: "a < 65536 \<Longrightarrow> ucast (ucast a :: u16) = (a :: u32)"
proof -
  assume a: "a < 65536"
  then have "unat a < 65536" by (simp add: word_less_nat_alt)
  then have "unat (ucast (ucast a :: u16) :: u32) = unat a"
    by (simp add: unsigned_ucast_eq unsigned_take_bit_eq take_bit_nat_eq_self)
  then show ?thesis by (simp add: word_unat_eq_iff)
qed

lemma length_wire_asns:
  "length (concat (map (wire_asn b) ws)) = length ws * (if b then 4 else 2)"
  by (induction ws) (auto simp: wire_asn_def)

lemma read_wire_asns:
  "\<not> b \<longrightarrow> (\<forall>a \<in> set ws. a < 65536) \<Longrightarrow>
     read_asns b (length ws) (concat (map (wire_asn b) ws) @ r) = Inr (ws, r)"
proof (induction ws)
  case (Cons w ws)
  then show ?case by (cases b) (simp_all add: wire_asn_def ucast_ucast_u16)
qed simp

lemma segments_loop_wire:
  "wire_fits b segs \<Longrightarrow> bytes + length (wire_path b segs) = len \<Longrightarrow>
     segments_loop False (wire_path b segs @ r) len bytes (length (wire_path b segs)) b acc
       = Inr (Some (acc @ segs))"
proof (induction segs arbitrary: bytes acc)
  case Nil
  then show ?case by (simp add: wire_path_def segments_loop.simps)
next
  case (Cons seg segs)
  have fit: "0 < seg_length seg" "seg_length seg < 256" "\<not> b \<longrightarrow> (\<forall>a \<in> set (seg_as seg). a < 65536)"
    "wire_fits b segs"
    using Cons.prems(1) by (auto simp: wire_fits_def)
  let ?l = "u8n (seg_length seg)"
  let ?sz = "ASSEGMENT_SIZE (seg_length seg) b"
  have l: "unat ?l = seg_length seg" "?l \<noteq> 0" using fit by (auto simp: u8n_eq_iff)
  have w: "wire_path b (seg # segs) = seg_type seg # ?l # concat (map (wire_asn b) (seg_as seg))
      @ wire_path b segs"
    by (simp add: wire_path_def wire_seg_def)
  have len: "length (wire_path b (seg # segs)) = ?sz + length (wire_path b segs)"
    by (simp only: w) (simp add: length_wire_asns ASSEGMENT_SIZE_def)
  then have le: "\<not> len < bytes + ?sz" using Cons.prems(2) by simp
  have "segments_loop False (wire_path b (seg # segs) @ r) len bytes
      (length (wire_path b (seg # segs))) b acc
    = fbind (read_asns b (seg_length seg)
        (concat (map (wire_asn b) (seg_as seg)) @ wire_path b segs @ r)) (\<lambda>(ws, s2).
          segments_loop False s2 len (bytes + ?sz) (length (wire_path b segs)) b
            (acc @ [assegment_new (seg_type seg) ws]))"
    unfolding len unfolding w
    by (subst segments_loop.simps) (use le l in \<open>simp add: ASSEGMENT_SIZE_def\<close>)
  also have "\<dots> = segments_loop False (wire_path b segs @ r) len (bytes + ?sz)
      (length (wire_path b segs)) b (acc @ [seg])"
    by (simp add: read_wire_asns [OF fit(3)] assegment_new_self)
  also have "\<dots> = Inr (Some ((acc @ [seg]) @ segs))"
    using Cons.prems(2) len by (intro Cons.IH [OF fit(4)]) simp
  finally show ?case by simp
qed

lemma even_wire_path: "even (length (wire_path b segs))"
  by (induction segs) (auto simp: wire_path_def wire_seg_def length_wire_asns)

lemma wire_path_Nil_iff: "wire_path b segs = [] \<longleftrightarrow> segs = []"
  by (auto simp: wire_path_def wire_seg_def)

lemma parse_wire_lemma:
  assumes "wire_fits b segs"
  shows "assegments_parse False (wire_path b segs @ r) (length (wire_path b segs)) b
    = Inr (assegment_normalise segs)"
  using segments_loop_wire [OF assms, of 0 _ r "[]"] even_wire_path [of b segs]
  by (auto simp: assegments_parse_def wire_path_Nil_iff)

section \<open>Reconciling AS\_PATH with AS4\_PATH\<close>

lemma reconcile_switch_bound:
  "separator_of (seg_type seg) \<noteq> None \<Longrightarrow> reconcile_switch seg hops cp = (hops', cp') \<Longrightarrow>
     cp' \<le> int (seg_length seg)"
  by (auto simp: reconcile_switch_def separator_of_def is_set_type_def Let_def split: if_splits)

lemma reconcile_loop_ok:
  "known_types segs \<Longrightarrow> \<exists>out. reconcile_loop segs hops cp = Inr out \<and> (segs \<noteq> [] \<longrightarrow> 0 < hops \<longrightarrow> out \<noteq> [])"
proof (induction segs arbitrary: hops cp)
  case (Cons seg rest)
  obtain hops' cp' where sw: "reconcile_switch seg hops cp = (hops', cp')"
    by (cases "reconcile_switch seg hops cp")
  have "separator_of (seg_type seg) \<noteq> None" "known_types rest"
    using Cons.prems by (auto simp: known_types_def)
  with reconcile_switch_bound [OF _ sw] Cons.IH [of hops' cp']
  show ?case by (auto simp: sw)
qed auto

definition hops_of :: "atom \<Rightarrow> nat" where
  "hops_of x = (case x of Hop a \<Rightarrow> 1 | Group t as \<Rightarrow> if t = AS_SET then 1 else 0)"

lemma assegment_new_fields:
  "seg_type (assegment_new t as) = t" "seg_as (assegment_new t as) = as"
  by (simp_all add: assegment_new_def)

lemma set_not_sequence: "AS_SET \<noteq> AS_SEQUENCE" "AS_SEQUENCE \<noteq> AS_SET" "AS_SET \<noteq> AS_CONFED_SEQUENCE"
  "AS_SEQUENCE \<noteq> AS_CONFED_SEQUENCE"
  by (simp_all add: as_types)

lemma hops_of_simps [simp]:
  "hops_of (Hop a) = 1" "hops_of (Group t as) = (if t = AS_SET then 1 else 0)"
  "sum_list (map (hops_of \<circ> Hop) xs) = length xs"
proof -
  show "sum_list (map (hops_of \<circ> Hop) xs) = length xs"
    by (induction xs) (auto simp: hops_of_def)
qed (simp_all add: hops_of_def)

lemma count_hops_atoms: "count_hops_loop segs = sum_list (map hops_of (path_atoms segs))"
  by (induction segs) (auto simp: seg_atoms_def is_set_type_def as_types)

lemma count_hops_normalise:
  "total_asns segs < 65536 \<Longrightarrow> count_hops_loop (assegment_normalise segs) = count_hops_loop segs"
  by (simp add: count_hops_atoms normalise_atoms_lemma)

lemma count_hops_append: "count_hops_loop (xs @ ys) = count_hops_loop xs + count_hops_loop ys"
  by (induction xs) auto

lemma total_asns_append: "total_asns (xs @ ys) = total_asns xs + total_asns ys"
  by (simp add: total_asns_def)

lemma reconcile_loop_stop: "hops \<le> 0 \<Longrightarrow> reconcile_loop segs hops cp = Inr []"
  by (cases segs) auto

definition no_confeds :: "assegment list \<Rightarrow> bool" where
  "no_confeds segs \<longleftrightarrow> (\<forall>seg \<in> set segs. seg_type seg = AS_SEQUENCE \<or> seg_type seg = AS_SET)"

lemma no_confeds_known: "no_confeds segs \<Longrightarrow> known_types segs"
  by (auto simp: no_confeds_def known_types_def separator_of_def list_all_iff)

lemma no_confeds_count: "no_confeds segs \<Longrightarrow> count_confeds_loop segs = 0"
  by (induction segs) (auto simp: no_confeds_def as_types)

lemma reconcile_loop_hops:
  "no_confeds segs \<Longrightarrow> total_asns segs < 65536 \<Longrightarrow> 0 \<le> hops \<Longrightarrow> hops \<le> int (count_hops_loop segs) \<Longrightarrow>
     \<exists>out. reconcile_loop segs hops cp = Inr out \<and> int (count_hops_loop out) = hops
       \<and> total_asns out \<le> total_asns segs"
proof (induction segs arbitrary: hops cp)
  case Nil
  then show ?case by simp
next
  case (Cons seg rest)
  have rest: "no_confeds rest" "total_asns rest < 65536" "seg_length seg < 65536"
    using Cons.prems by (auto simp: no_confeds_def)
  have new: "assegment_append_asns (assegment_new t []) (take n (seg_as seg))
      = assegment_new t (take n (seg_as seg))" for t n
    using rest(3) by (simp add: assegment_append_asns_def assegment_new_def min_def)
  consider "hops = 0" | (set) "0 < hops" "seg_type seg = AS_SET"
    | (fit) "seg_type seg = AS_SEQUENCE" "int (seg_length seg) \<le> hops" "0 < hops"
    | (cut) "seg_type seg = AS_SEQUENCE" "hops < int (seg_length seg)" "0 < hops"
    using Cons.prems by (force simp: no_confeds_def)
  then show ?case
  proof cases
    case 1
    then show ?thesis by simp
  next
    case set
    then obtain out where "reconcile_loop rest (hops - 1) (int (seg_length seg)) = Inr out"
      "int (count_hops_loop out) = hops - 1" "total_asns out \<le> total_asns rest"
      using Cons.IH [OF rest(1,2), of "hops - 1"] Cons.prems(4) by (auto simp: as_types)
    then show ?thesis
      using set new [of _ "length (seg_as seg)"]
      by (auto simp: reconcile_switch_def is_set_type_def assegment_new_fields set_not_sequence)
  next
    case fit
    then obtain out where
      "reconcile_loop rest (hops - int (seg_length seg)) (int (seg_length seg)) = Inr out"
      "int (count_hops_loop out) = hops - int (seg_length seg)" "total_asns out \<le> total_asns rest"
      using Cons.IH [OF rest(1,2), of "hops - int (seg_length seg)"] Cons.prems(4) by auto
    then show ?thesis
      using fit new [of _ "length (seg_as seg)"]
      by (auto simp: reconcile_switch_def assegment_new_fields Let_def)
  next
    case cut
    then show ?thesis
      using new by (auto simp: reconcile_switch_def assegment_new_fields reconcile_loop_stop Let_def
          set_not_sequence)
  qed
qed

text \<open>What the function computes once the loop has run.\<close>

lemma reconcile_finish_ok:
  assumes "segs \<noteq> []"
  shows "\<exists>r. reconcile_finish segs p4 = Inr (Some r)
    \<and> as_segments r = assegment_normalise (segs @ as_segments p4) \<and> as_refcnt r = 0
    \<and> as_str r = Some (path_text (as_segments r))"
  using assms
  by (simp add: reconcile_finish_def aspath_dup_def make_str_text aspath_merge_def str_update_ok
      dup_all_self aspath_new_def)

lemma reconcile_dup:
  "reconcile_hops p p4 = 0 \<Longrightarrow> \<exists>r. aspath_reconcile_as4 (Some p) (Some p4) = Inr (Some r)
    \<and> as_segments r = as_segments p4 \<and> as_refcnt r = 0
    \<and> as_str r = Some (path_text (as_segments r))"
  by (simp add: aspath_reconcile_as4_def aspath_dup_def make_str_text dup_all_self)

lemma reconcile_hops_nonneg: "0 \<le> reconcile_hops p p4"
  by (simp add: reconcile_hops_def Let_def)

lemma reconcile_hops_segments: "reconcile_hops p p4 \<noteq> 0 \<Longrightarrow> as_segments p \<noteq> []"
  by (auto simp: reconcile_hops_def Let_def aspath_count_hops_def aspath_count_confeds_def
      split: if_splits)

lemma reconcile_safe_lemma:
  assumes "known_types (as_segments p)"
  shows "\<exists>r. aspath_reconcile_as4 (Some p) (Some p4) = Inr (Some r)
    \<and> (segs_normal (as_segments p4) \<longrightarrow> segs_normal (as_segments r)) \<and> aspath_good r"
proof (cases "reconcile_hops p p4 = 0")
  case True
  from reconcile_dup [OF this] show ?thesis by (auto simp: aspath_good_def)
next
  case False
  then have "0 < reconcile_hops p p4" "as_segments p \<noteq> []"
    using reconcile_hops_nonneg [of p p4] reconcile_hops_segments by auto
  then obtain segs where segs: "reconcile_loop (as_segments p) (reconcile_hops p p4) 0 = Inr segs"
    "segs \<noteq> []"
    using reconcile_loop_ok [OF assms] by blast
  from reconcile_finish_ok [OF segs(2), of p4] show ?thesis
    using False segs(1)
    by (auto simp: aspath_reconcile_as4_def normalise_normal_lemma aspath_good_def)
qed

lemma reconcile_length_lemma:
  assumes "no_confeds (as_segments p)" "aspath_count_hops p4 \<le> aspath_count_hops p"
    and "total_asns (as_segments p) + total_asns (as_segments p4) < 65536"
  shows "\<exists>r. aspath_reconcile_as4 (Some p) (Some p4) = Inr (Some r)
    \<and> aspath_count_hops r = aspath_count_hops p"
proof -
  have h: "reconcile_hops p p4 = int (aspath_count_hops p) - int (aspath_count_hops p4)"
    using assms(1,2) by (simp add: reconcile_hops_def aspath_count_confeds_def no_confeds_count)
  show ?thesis
  proof (cases "reconcile_hops p p4 = 0")
    case True
    with reconcile_dup [OF this] h show ?thesis by (auto simp: aspath_count_hops_def)
  next
    case False
    then obtain segs where segs:
      "reconcile_loop (as_segments p) (reconcile_hops p p4) 0 = Inr segs"
      "int (count_hops_loop segs) = reconcile_hops p p4"
      "total_asns segs \<le> total_asns (as_segments p)"
      using reconcile_loop_hops [OF assms(1), of "reconcile_hops p p4" 0] assms(3)
        reconcile_hops_nonneg [of p p4] h
      by (auto simp: aspath_count_hops_def)
    have "segs \<noteq> []" using segs(2) False by auto
    from reconcile_finish_ok [OF this, of p4] show ?thesis
      using False segs assms(3) h
      by (auto simp: aspath_reconcile_as4_def aspath_count_hops_def count_hops_normalise
          count_hops_append total_asns_append)
  qed
qed

end
