(* ===== verification/BgpValues.thy ===== *)
theory BgpValues
  imports BgpPool
begin

text \<open>
  What standard, extended and large communities have in common: an attribute is a reference count,
  an array of fixed-size values in network byte order and a printed form. The three structures of
  the C code differ only in the size of a value (4, 8, 12 octets) and in the functions that print
  it. Here: the record, the printing into a buffer of known size, the ordered insertion of the
  extended and large kinds, the byte-sum hash and the comparison, and the interface
  \<open>value_order\<close> from which the set semantics of the sorted arrays follows.
\<close>

record value_attr =
  va_refcnt :: nat
  va_val :: "u8 list list"
  va_str :: "string option"

definition va_new :: value_attr where
  "va_new = \<lparr>va_refcnt = 0, va_val = [], va_str = None\<rparr>"

definition va_width :: "nat \<Rightarrow> value_attr \<Rightarrow> bool" where
  "va_width w com \<longleftrightarrow> (\<forall>v \<in> set (va_val com). length v = w)"

text \<open>The memory behind \<open>val\<close>.\<close>

definition va_mem :: "value_attr \<Rightarrow> u8 list" where
  "va_mem com = concat (va_val com)"

section \<open>Buffers\<close>

text \<open>\<open>strcpy\<close> or \<open>sprintf\<close> of a string at the end of what is written, terminator included, and
  the store of one character.\<close>

definition buf_puts :: "nat \<Rightarrow> string \<Rightarrow> string \<Rightarrow> string run" where
  "buf_puts n buf s = (if length buf + length s + 1 \<le> n then Inr (buf @ s) else Inl OutOfBounds)"

definition buf_putc :: "nat \<Rightarrow> string \<Rightarrow> char \<Rightarrow> string run" where
  "buf_putc n buf c = (if length buf < n then Inr (buf @ [c]) else Inl OutOfBounds)"

lemma buf_puts_fits [simp]: "length buf + length s < n \<Longrightarrow> buf_puts n buf s = Inr (buf @ s)"
  by (simp add: buf_puts_def)

lemma buf_putc_fits [simp]: "length buf < n \<Longrightarrow> buf_putc n buf c = Inr (buf @ [c])"
  by (simp add: buf_putc_def)

fun words_text :: "string list \<Rightarrow> string" where
  "words_text [] = []"
| "words_text [s] = s"
| "words_text (s # ss) = s @ CHR '' '' # words_text ss"

section \<open>Ordered insertion\<close>

text \<open>The scan for the place of a value, and the insertion: 0 when the value is there already.\<close>

fun value_insert :: "u8 list \<Rightarrow> u8 list list \<Rightarrow> int \<times> u8 list list" where
  "value_insert x [] = (1, [x])"
| "value_insert x (p # ps) =
     (let ret = memcmp p x
      in if ret = 0 then (0, p # ps)
         else if ret > 0 then (1, x # p # ps)
         else case value_insert x ps of (r, ps') \<Rightarrow> (r, p # ps'))"

definition value_add :: "bgp_peer option \<Rightarrow> value_attr \<Rightarrow> u8 list \<Rightarrow> int \<times> value_attr" where
  "value_add peer com x =
     (if \<not> peer_ok peer then (-1, com)
      else case value_insert x (va_val com) of (r, vs) \<Rightarrow> (r, com\<lparr>va_val := vs\<rparr>))"

definition value_uniq_sort :: "bgp_peer option \<Rightarrow> u8 list list \<Rightarrow> value_attr option" where
  "value_uniq_sort peer vals =
     (if peer_ok peer then Some (fold (\<lambda>v com. snd (value_add peer com v)) vals va_new) else None)"

section \<open>Hash and comparison\<close>

definition value_hash :: "value_attr \<Rightarrow> u32" where
  "value_hash com = fold (\<lambda>b key. key + ucast b) (va_mem com) 0"

definition value_cmp :: "value_attr \<Rightarrow> value_attr \<Rightarrow> bool" where
  "value_cmp com1 com2 \<longleftrightarrow> length (va_val com1) = length (va_val com2)
     \<and> memcmp (va_mem com1) (va_mem com2) = 0"

lemma concat_width:
  "\<forall>v \<in> set xs. length v = w \<Longrightarrow> \<forall>v \<in> set ys. length v = w \<Longrightarrow> length xs = length ys \<Longrightarrow>
     concat xs = concat ys \<longleftrightarrow> xs = ys"
proof (induction xs arbitrary: ys)
  case Nil
  then show ?case by simp
next
  case (Cons x xs)
  then obtain y ys' where "ys = y # ys'" by (cases ys) auto
  with Cons show ?case by auto
qed

lemma length_concat_width: "\<forall>v \<in> set xs. length v = w \<Longrightarrow> length (concat xs) = length xs * w"
  by (induction xs) auto

lemma value_cmp_eq:
  assumes "va_width w com1" "va_width w com2"
  shows "value_cmp com1 com2 \<longleftrightarrow> va_val com1 = va_val com2"
proof -
  have "memcmp (va_mem com1) (va_mem com2) = 0 \<longleftrightarrow> va_mem com1 = va_mem com2"
    if "length (va_val com1) = length (va_val com2)"
    using assms that
    by (intro memcmp_eq_0) (simp add: va_mem_def va_width_def length_concat_width [where w = w])
  then show ?thesis
    using assms concat_width [of "va_val com1" w "va_val com2"]
    by (auto simp: value_cmp_def va_mem_def va_width_def)
qed

lemma value_hash_eq: "va_val com1 = va_val com2 \<Longrightarrow> value_hash com1 = value_hash com2"
  by (simp add: value_hash_def va_mem_def)

section \<open>Pool operations\<close>

text \<open>\<open>mk\<close> prints; a null result leaves the string null.\<close>

definition value_ops :: "(value_attr \<Rightarrow> string option run) \<Rightarrow> value_attr obj_ops" where
  "value_ops mk =
     \<lparr>o_key = value_hash, o_cmp = value_cmp, o_ref = va_refcnt,
      o_set_ref = (\<lambda>n com. com\<lparr>va_refcnt := n\<rparr>), o_touch = (\<lambda>com. com),
      o_mkstr = (\<lambda>com. if va_str com \<noteq> None then com
                       else case mk com of Inl _ \<Rightarrow> com | Inr s \<Rightarrow> com\<lparr>va_str := s\<rparr>)\<rparr>"

lemma value_ops_simps [simp]:
  "o_key (value_ops mk) = value_hash" "o_cmp (value_ops mk) = value_cmp"
  "o_ref (value_ops mk) = va_refcnt" "o_set_ref (value_ops mk) n com = com\<lparr>va_refcnt := n\<rparr>"
  "o_touch (value_ops mk) com = com"
  by (simp_all add: value_ops_def)

lemma value_mkstr_fields [simp]:
  "va_val (o_mkstr (value_ops mk) com) = va_val com"
  "va_refcnt (o_mkstr (value_ops mk) com) = va_refcnt com"
  by (simp_all add: value_ops_def split: sum.split)

lemma value_cmp_same: "va_val x = va_val y \<Longrightarrow> value_cmp x y"
  by (simp add: value_cmp_def va_mem_def)

lemma va_width_cong: "va_val x = va_val y \<Longrightarrow> va_width w x = va_width w y"
  by (simp add: va_width_def)

lemma value_ops_class: "obj_class (value_ops mk) (va_width w)"
proof (rule obj_class.intro, unfold value_ops_simps value_mkstr_fields)
  show "va_width w x \<Longrightarrow> va_width w y \<Longrightarrow> value_cmp x y \<Longrightarrow> value_cmp y x" for x y
    by (simp add: value_cmp_eq)
  show "va_width w x \<Longrightarrow> va_width w y \<Longrightarrow> va_width w z \<Longrightarrow> value_cmp x y \<Longrightarrow> value_cmp y z
      \<Longrightarrow> value_cmp x z" for x y z
    by (simp add: value_cmp_eq)
  show "va_width w x \<Longrightarrow> va_width w y \<Longrightarrow> value_cmp x y \<Longrightarrow> value_hash x = value_hash y" for x y
    using value_cmp_eq [of w x y] value_hash_eq [of x y] by blast
  show "va_width w x \<Longrightarrow> va_width w (x\<lparr>va_refcnt := n\<rparr>)" for x n
    by (simp add: va_width_def)
  show "va_width w x \<Longrightarrow> va_width w (o_mkstr (value_ops mk) x)" for x
    by (simp add: va_width_def)
qed (simp_all add: value_cmp_same)

section \<open>Sorted arrays are sets\<close>

locale value_order =
  fixes vcmp :: "u8 list \<Rightarrow> u8 list \<Rightarrow> int" and valid :: "u8 list \<Rightarrow> bool"
  assumes cmp_eq: "valid x \<Longrightarrow> valid y \<Longrightarrow> vcmp x y = 0 \<longleftrightarrow> x = y"
    and cmp_swap: "valid x \<Longrightarrow> valid y \<Longrightarrow> vcmp y x = - vcmp x y"
    and cmp_less_trans: "valid x \<Longrightarrow> valid y \<Longrightarrow> valid z \<Longrightarrow>
      vcmp x y < 0 \<Longrightarrow> vcmp y z < 0 \<Longrightarrow> vcmp x z < 0"
begin

text \<open>Two ascending arrays with the same values are the same array.\<close>

lemma ascending_unique:
  "sorted_wrt (\<lambda>x y. vcmp x y < 0) xs \<Longrightarrow> sorted_wrt (\<lambda>x y. vcmp x y < 0) ys \<Longrightarrow>
     \<forall>x \<in> set xs. valid x \<Longrightarrow> set xs = set ys \<Longrightarrow> xs = ys"
proof (induction xs arbitrary: ys)
  case Nil
  then show ?case by simp
next
  case (Cons x xs)
  then obtain y ys' where ys: "ys = y # ys'" by (cases ys) auto
  have v: "valid z" if "z \<in> set (y # ys')" for z using that Cons.prems(3,4) ys by auto
  have "y = x"
  proof (rule ccontr)
    assume ne: "y \<noteq> x"
    then have "y \<in> set xs" "x \<in> set ys'" using Cons.prems(4) ys by auto
    then have "vcmp x y < 0" "vcmp y x < 0" using Cons.prems(1,2) ys by auto
    moreover have "valid x" "valid y" using v Cons.prems(3) by auto
    ultimately show False using cmp_swap [of x y] by simp
  qed
  have irr: "x \<notin> set xs" "y \<notin> set ys'"
    using Cons.prems(1,2,3) ys v cmp_eq [of x x] cmp_eq [of y y] by auto
  then have "set xs = set ys'" using Cons.prems(4) ys \<open>y = x\<close> by auto
  with Cons.IH [of ys'] Cons.prems ys \<open>y = x\<close> show ?case by auto
qed

lemma ascending_distinct:
  "sorted_wrt (\<lambda>x y. vcmp x y < 0) xs \<Longrightarrow> \<forall>x \<in> set xs. valid x \<Longrightarrow> distinct xs"
proof (induction xs)
  case (Cons x xs)
  then show ?case using cmp_eq [of x x] by auto
qed simp

end

text \<open>\<open>memcmp\<close> orders the blocks of any one size.\<close>

lemma memcmp_value_order: "value_order memcmp (\<lambda>v. length v = w)"
proof
  show "length x = w \<Longrightarrow> length y = w \<Longrightarrow> length z = w \<Longrightarrow> memcmp x y < 0 \<Longrightarrow> memcmp y z < 0
      \<Longrightarrow> memcmp x z < 0" for x y z
    using memcmp_trans [of x y z] by simp
  show "length x = w \<Longrightarrow> length y = w \<Longrightarrow> memcmp y x = - memcmp x y" for x y
    by (rule memcmp_swap) simp
qed (simp add: memcmp_eq_0)

interpretation v8: value_order memcmp "\<lambda>v. length v = 8"
  by (rule memcmp_value_order)

interpretation v12: value_order memcmp "\<lambda>v. length v = 12"
  by (rule memcmp_value_order)

abbreviation ascending :: "u8 list list \<Rightarrow> bool" where
  "ascending \<equiv> sorted_wrt (\<lambda>x y. memcmp x y < 0)"

lemma value_insert_spec:
  assumes "ascending vs" "\<forall>v \<in> set vs. length v = w" "length x = w"
  shows "ascending (snd (value_insert x vs))" "set (snd (value_insert x vs)) = insert x (set vs)"
    "fst (value_insert x vs) = (if x \<in> set vs then 0 else 1)"
proof -
  have "ascending (snd (value_insert x vs)) \<and> set (snd (value_insert x vs)) = insert x (set vs)
    \<and> fst (value_insert x vs) = (if x \<in> set vs then 0 else 1)"
    using assms(1,2)
  proof (induction vs)
    case Nil
    then show ?case by simp
  next
    case (Cons p ps)
    have len: "length p = w" "\<forall>v \<in> set ps. length v = w" using Cons.prems by auto
    have sw: "memcmp x p = - memcmp p x" using len(1) assms(3) by (intro memcmp_swap) simp
    consider "p = x" | "memcmp p x > 0" | "memcmp p x < 0" "p \<noteq> x"
      using memcmp_eq_0 [of p x] len(1) assms(3) by (metis linorder_cases)
    then show ?case
    proof cases
      case 1
      then show ?thesis using Cons.prems by auto
    next
      case 2
      then have px: "memcmp x p < 0" using sw by simp
      have all: "memcmp x q < 0" if "q \<in> set ps" for q
        using that Cons.prems len assms(3) by (intro memcmp_trans [OF _ _ px]) auto
      have "x \<noteq> p" using px by auto
      moreover have "x \<notin> set ps" using all [of x] by auto
      ultimately show ?thesis using 2 px all Cons.prems(1) by simp
    next
      case 3
      obtain r ps' where i: "value_insert x ps = (r, ps')" by (cases "value_insert x ps")
      have ih: "ascending ps'" "set ps' = insert x (set ps)" "r = (if x \<in> set ps then 0 else 1)"
        using Cons.IH Cons.prems(1) len(2) i by simp_all
      have "value_insert x (p # ps) = (r, p # ps')" using 3 i by simp
      then show ?thesis using ih 3 Cons.prems(1) by auto
    qed
  qed
  then show "ascending (snd (value_insert x vs))" "set (snd (value_insert x vs)) = insert x (set vs)"
    "fst (value_insert x vs) = (if x \<in> set vs then 0 else 1)"
    by blast+
qed

lemma value_uniq_sort_spec:
  assumes "peer_ok peer" "\<forall>v \<in> set vals. length v = w"
  shows "\<exists>com. value_uniq_sort peer vals = Some com \<and> ascending (va_val com)
    \<and> set (va_val com) = set vals \<and> va_refcnt com = 0 \<and> va_str com = None \<and> va_width w com"
proof -
  have "ascending (va_val (fold (\<lambda>v com. snd (value_add peer com v)) vals com))
    \<and> set (va_val (fold (\<lambda>v com. snd (value_add peer com v)) vals com)) = set vals \<union> set (va_val com)
    \<and> va_refcnt (fold (\<lambda>v com. snd (value_add peer com v)) vals com) = va_refcnt com
    \<and> va_str (fold (\<lambda>v com. snd (value_add peer com v)) vals com) = va_str com"
    if "ascending (va_val com)" "va_width w com" for com
    using that assms(2)
  proof (induction vals arbitrary: com)
    case (Cons x vals)
    obtain r vs where i: "value_insert x (va_val com) = (r, vs)" by (cases "value_insert x (va_val com)")
    have add: "snd (value_add peer com x) = com\<lparr>va_val := vs\<rparr>"
      using assms(1) i by (simp add: value_add_def)
    have "length x = w" using Cons.prems(3) by simp
    with value_insert_spec [OF Cons.prems(1), of w x] Cons.prems(2) i
    have "ascending vs" "set vs = insert x (set (va_val com))"
      by (auto simp: va_width_def)
    with Cons.IH [of "com\<lparr>va_val := vs\<rparr>"] Cons.prems add show ?case
      by (auto simp: va_width_def)
  qed simp
  from this [of va_new] assms show ?thesis
    by (auto simp: value_uniq_sort_def va_new_def va_width_def)
qed

end
