(* ===== verification/BgpCommunity.thy ===== *)
theory BgpCommunity
  imports BgpValues Jhash
begin

text \<open>
  Standard, extended and large communities (bgp\_community.c, bgp\_ecommunity.c,
  bgp\_lcommunity.c). \<open>num\<close> is the configuration key \<open>bgp_comms_num\<close>; the buffer handed to a parser
  is the list of the bytes that may be read. A value is a block of 4, 8 or 12 octets.
\<close>

section \<open>Standard communities\<close>

type_synonym community = value_attr

definition COMMUNITY_INTERNET :: u32 where "COMMUNITY_INTERNET = 0x0"
definition COMMUNITY_NO_EXPORT :: u32 where "COMMUNITY_NO_EXPORT = 0xFFFFFF01"
definition COMMUNITY_NO_ADVERTISE :: u32 where "COMMUNITY_NO_ADVERTISE = 0xFFFFFF02"
definition COMMUNITY_LOCAL_AS :: u32 where "COMMUNITY_LOCAL_AS = 0xFFFFFF03"

lemmas community_consts = COMMUNITY_INTERNET_def COMMUNITY_NO_EXPORT_def
  COMMUNITY_NO_ADVERTISE_def COMMUNITY_LOCAL_AS_def

definition community_new :: "bgp_peer option \<Rightarrow> community option" where
  "community_new peer = (if peer_ok peer then Some va_new else None)"

definition community_add_val :: "bgp_peer option \<Rightarrow> community \<Rightarrow> u32 \<Rightarrow> community" where
  "community_add_val peer com val =
     (if peer_ok peer then com\<lparr>va_val := va_val com @ [bytes32 val]\<rparr> else com)"

text \<open>\<open>memcpy\<close> of \<open>c * sizeof (val)\<close> bytes, where \<open>val\<close> is a pointer: eight bytes for each of the
  \<open>c\<close> values that follow, twice what there is.\<close>

fun community_del_loop :: "u8 list list \<Rightarrow> u8 list \<Rightarrow> u8 list list run" where
  "community_del_loop [] val = Inr []"
| "community_del_loop (p # ps) val =
     (if memcmp p val = 0 then (if 0 < length ps then Inl OutOfBounds else Inr [])
      else fbind (community_del_loop ps val) (\<lambda>ps'. Inr (p # ps')))"

definition community_del_val :: "community \<Rightarrow> u8 list \<Rightarrow> community run" where
  "community_del_val com val =
     fbind (community_del_loop (va_val com) val) (\<lambda>vs. Inr (com\<lparr>va_val := vs\<rparr>))"

definition community_delete :: "community \<Rightarrow> community \<Rightarrow> community run" where
  "community_delete com1 com2 =
     fold (\<lambda>v r. fbind r (\<lambda>com. community_del_val com v)) (va_val com2) (Inr com1)"

definition com_host :: "u8 list \<Rightarrow> u32" where
  "com_host v = (case rd32 v of None \<Rightarrow> 0 | Some x \<Rightarrow> x)"

definition community_compare :: "u8 list \<Rightarrow> u8 list \<Rightarrow> int" where
  "community_compare a1 a2 =
     (if com_host a1 < com_host a2 then -1 else if com_host a2 < com_host a1 then 1 else 0)"

definition community_include :: "community \<Rightarrow> u32 \<Rightarrow> bool" where
  "community_include com val = list_ex (\<lambda>p. memcmp (bytes32 val) p = 0) (va_val com)"

definition community_val_get :: "community \<Rightarrow> nat \<Rightarrow> u32 run" where
  "community_val_get com i =
     (if i < length (va_val com) then Inr (com_host (va_val com ! i)) else Inl OutOfBounds)"

text \<open>The loop and the \<open>qsort\<close> with \<open>community_compare\<close>; a null \<open>new\<close> is dereferenced.\<close>

definition community_uniq_sort :: "bgp_peer option \<Rightarrow> u8 list list \<Rightarrow> community run" where
  "community_uniq_sort peer vals =
     (case community_new peer of
        None \<Rightarrow> Inl NullDeref
      | Some new \<Rightarrow>
          let new = fold (\<lambda>v new. if community_include new (com_host v) then new
                                  else community_add_val peer new (com_host v)) vals new
          in Inr (new\<lparr>va_val := sort_key com_host (va_val new)\<rparr>))"

definition as_val_text :: "u32 \<Rightarrow> string" where
  "as_val_text v = dec (unat (drop_bit 16 v AND 0xFFFF)) @ '':'' @ dec (unat (v AND 0xFFFF))"

definition community_word :: "bool \<Rightarrow> u32 \<Rightarrow> string" where
  "community_word num v =
     (if \<not> num then
        (if v = COMMUNITY_INTERNET then ''internet''
         else if v = COMMUNITY_NO_EXPORT then ''no-export''
         else if v = COMMUNITY_NO_ADVERTISE then ''no-advertise''
         else if v = COMMUNITY_LOCAL_AS then ''local-AS''
         else as_val_text v)
      else as_val_text v)"

definition community_word_len :: "bool \<Rightarrow> u32 \<Rightarrow> nat" where
  "community_word_len num v =
     (if \<not> num then
        (if v = COMMUNITY_INTERNET then length '' internet''
         else if v = COMMUNITY_NO_EXPORT then length '' no-export''
         else if v = COMMUNITY_NO_ADVERTISE then length '' no-advertise''
         else if v = COMMUNITY_LOCAL_AS then length '' local-AS''
         else length '' 65536:65535'')
      else length '' 65536:65535'')"

text \<open>One value into the buffer, after a space unless it is the first.\<close>

definition put_word :: "nat \<Rightarrow> string \<times> bool \<Rightarrow> string \<Rightarrow> (string \<times> bool) run" where
  "put_word n st s = (case st of (buf, first) \<Rightarrow>
     fbind (if first then Inr buf else buf_putc n buf CHR '' '') (\<lambda>buf.
     fbind (buf_puts n buf s) (\<lambda>buf. Inr (buf, False))))"

fun community_fill :: "bool \<Rightarrow> nat \<Rightarrow> u8 list list \<Rightarrow> string \<times> bool \<Rightarrow> (string \<times> bool) run" where
  "community_fill num n [] st = Inr st"
| "community_fill num n (v # vs) st =
     fbind (put_word n st (community_word num (com_host v))) (community_fill num n vs)"

definition community_com2str :: "bool \<Rightarrow> bgp_peer option \<Rightarrow> community \<Rightarrow> string option run" where
  "community_com2str num peer com =
     (if \<not> peer_ok peer then Inr None
      else if va_val com = [] then Inr (Some [])
      else let len = sum_list (map (\<lambda>v. community_word_len num (com_host v)) (va_val com))
           in fbind (community_fill num len (va_val com) ([], True)) (\<lambda>(buf, _). Inr (Some buf)))"

definition community_hash_make :: "community \<Rightarrow> u32" where
  "community_hash_make com = value_hash com"

definition community_cmp :: "community option \<Rightarrow> community option \<Rightarrow> bool" where
  "community_cmp ptr1 ptr2 =
     (case (ptr1, ptr2) of (None, None) \<Rightarrow> True | (Some com1, Some com2) \<Rightarrow> value_cmp com1 com2
      | _ \<Rightarrow> False)"

definition community_ops :: "bool \<Rightarrow> bgp_peer option \<Rightarrow> community obj_ops" where
  "community_ops num peer = value_ops (community_com2str num peer)"

definition community_init :: "nat \<Rightarrow> community pool" where
  "community_init buckets = pool_init buckets"

definition community_intern ::
  "bool \<Rightarrow> bgp_peer option \<Rightarrow> community pool \<Rightarrow> nat \<Rightarrow> (nat option \<times> community pool) run" where
  "community_intern num peer P a = obj_intern (community_ops num peer) peer P a"

definition community_unintern ::
  "bool \<Rightarrow> bgp_peer option \<Rightarrow> community pool \<Rightarrow> nat option \<Rightarrow> community pool run" where
  "community_unintern num peer P ptr = obj_unintern (community_ops num peer) peer P ptr"

definition read_values :: "nat \<Rightarrow> u8 list \<Rightarrow> nat \<Rightarrow> u8 list list run" where
  "read_values w pnt len = (if len \<le> length pnt then Inr (chunks w (len div w) pnt) else Inl OutOfBounds)"

definition community_parse :: "bool \<Rightarrow> bgp_peer option \<Rightarrow> community pool \<Rightarrow> u8 list \<Rightarrow> nat
    \<Rightarrow> (nat option \<times> community pool) run" where
  "community_parse num peer P pnt len =
     (if len mod 4 \<noteq> 0 then Inr (None, P)
      else fbind (read_values 4 pnt len) (\<lambda>vals.
           fbind (community_uniq_sort peer vals) (\<lambda>new.
             case pool_alloc P new of (a, P1) \<Rightarrow> community_intern num peer P1 a)))"

text \<open>\<open>community_str2com_simple\<close>: \<open>None\<close> is the return of ERR.\<close>

fun str2com_loop :: "string \<Rightarrow> bool \<Rightarrow> bool \<Rightarrow> u32 \<Rightarrow> u32 \<Rightarrow> u32 option" where
  "str2com_loop p separator digit low high =
     (case p of
        [] \<Rightarrow> if digit then Some (high + low) else None
      | c # p' \<Rightarrow>
          if isdigit c \<or> c = CHR '':''
          then if c = CHR '':''
               then if separator then None else str2com_loop p' True False 0 (push_bit 16 low)
               else str2com_loop p' separator True (low * 10 + u32n (digit_val c)) high
          else if digit then Some (high + low) else None)"

declare str2com_loop.simps [simp del]

definition community_str2com_simple :: "string \<Rightarrow> u32 option" where
  "community_str2com_simple buf =
     (case dropWhile isspace buf of
        [] \<Rightarrow> None
      | c # p' \<Rightarrow> if isdigit c then str2com_loop (c # p') False False 0 0 else None)"

text \<open>The copies are not cleared: \<open>refcnt\<close> and \<open>str\<close> hold whatever the allocation held.\<close>

definition community_dup :: "nat \<Rightarrow> string option \<Rightarrow> community \<Rightarrow> community" where
  "community_dup junk_refcnt junk_str com =
     \<lparr>va_refcnt = junk_refcnt, va_val = va_val com, va_str = junk_str\<rparr>"

section \<open>Extended communities\<close>

type_synonym ecommunity = value_attr

definition ECOMMUNITY_SIZE :: nat where "ECOMMUNITY_SIZE = 8"

datatype ecom_format = ECOMMUNITY_FORMAT_ROUTE_MAP | ECOMMUNITY_FORMAT_COMMUNITY_LIST
  | ECOMMUNITY_FORMAT_DISPLAY

definition ecommunity_new :: "bgp_peer option \<Rightarrow> ecommunity option" where
  "ecommunity_new peer = (if peer_ok peer then Some va_new else None)"

definition ecommunity_add_val :: "bgp_peer option \<Rightarrow> ecommunity \<Rightarrow> u8 list \<Rightarrow> int \<times> ecommunity" where
  "ecommunity_add_val peer ecom x = value_add peer ecom x"

definition ecommunity_uniq_sort :: "bgp_peer option \<Rightarrow> u8 list list \<Rightarrow> ecommunity option" where
  "ecommunity_uniq_sort peer vals = value_uniq_sort peer vals"

definition ecom_prefix :: "bool \<Rightarrow> ecom_format \<Rightarrow> u8 \<Rightarrow> string" where
  "ecom_prefix num format t =
     (if num then ''''
      else case format of
        ECOMMUNITY_FORMAT_COMMUNITY_LIST \<Rightarrow> if t = 2 then ''rt '' else ''soo ''
      | ECOMMUNITY_FORMAT_DISPLAY \<Rightarrow> if t = 2 then ''RT:'' else ''SoO:''
      | ECOMMUNITY_FORMAT_ROUTE_MAP \<Rightarrow> '''')"

definition inet_ntoa :: "u8 \<Rightarrow> u8 \<Rightarrow> u8 \<Rightarrow> u8 \<Rightarrow> string" where
  "inet_ntoa a b c d = dec (unat a) @ ''.'' @ dec (unat b) @ ''.'' @ dec (unat c) @ ''.'' @ dec (unat d)"

text \<open>What is printed for one value: encodings 0, 1 and 2 (AS, IP, four-octet AS) of the types 2
  and 3 (route target, site of origin), and a question mark for the others.\<close>

fun ecom_word :: "bool \<Rightarrow> ecom_format \<Rightarrow> u8 list \<Rightarrow> string run" where
  "ecom_word num format [encode, t, b2, b3, b4, b5, b6, b7] =
     (if encode \<noteq> 0 \<and> encode \<noteq> 1 \<and> encode \<noteq> 2 then Inr ''?''
      else if t \<noteq> 2 \<and> t \<noteq> 3 then Inr ''?''
      else if encode = 2
        then Inr (ecom_prefix num format t @ dec (unat (be32 b2 b3 b4 b5)) @ '':'' @ dec (unat (be16 b6 b7)))
      else if encode = 0
        then Inr (ecom_prefix num format t @ dec (unat (be16 b2 b3)) @ '':'' @ dec (unat (be32 b4 b5 b6 b7)))
      else Inr (ecom_prefix num format t @ inet_ntoa b2 b3 b4 b5 @ '':'' @ dec (unat (be16 b6 b7))))"
| "ecom_word num format _ = Inl OutOfBounds"

definition ECOMMUNITY_STR_DEFAULT_LEN :: nat where "ECOMMUNITY_STR_DEFAULT_LEN = 27"

text \<open>\<open>while (str_pnt + LEN >= str_size) str_size *= 2\<close>; a size of 0, which never occurs, would
  loop for ever.\<close>

function str_grow :: "nat \<Rightarrow> nat \<Rightarrow> nat" where
  "str_grow need str_size =
     (if str_size \<noteq> 0 \<and> str_size \<le> need then str_grow need (str_size * 2) else str_size)"
  by pat_completeness auto
termination by (relation "measure (\<lambda>(need, str_size). Suc need - str_size)") auto

declare str_grow.simps [simp del]

fun ecom_fill :: "bool \<Rightarrow> ecom_format \<Rightarrow> u8 list list \<Rightarrow> nat \<Rightarrow> string \<times> bool \<Rightarrow> (string \<times> bool) run" where
  "ecom_fill num format [] str_size st = Inr st"
| "ecom_fill num format (v # vs) str_size st =
     (let str_size = str_grow (length (fst st) + ECOMMUNITY_STR_DEFAULT_LEN) str_size
      in fbind (ecom_word num format v) (\<lambda>s. fbind (put_word str_size st s)
           (ecom_fill num format vs str_size)))"

definition ecommunity_ecom2str ::
  "bool \<Rightarrow> ecom_format \<Rightarrow> bgp_peer option \<Rightarrow> ecommunity \<Rightarrow> string option run" where
  "ecommunity_ecom2str num format peer ecom =
     (if \<not> peer_ok peer then Inr None
      else if va_val ecom = [] then Inr (Some [])
      else fbind (ecom_fill num format (va_val ecom) (ECOMMUNITY_STR_DEFAULT_LEN + 1) ([], True))
             (\<lambda>(buf, _). Inr (Some buf)))"

definition ecommunity_hash_make :: "ecommunity \<Rightarrow> u32" where
  "ecommunity_hash_make ecom = value_hash ecom"

definition ecommunity_cmp :: "ecommunity \<Rightarrow> ecommunity \<Rightarrow> bool" where
  "ecommunity_cmp ecom1 ecom2 = value_cmp ecom1 ecom2"

definition ecommunity_ops :: "bool \<Rightarrow> bgp_peer option \<Rightarrow> ecommunity obj_ops" where
  "ecommunity_ops num peer = value_ops (ecommunity_ecom2str num ECOMMUNITY_FORMAT_DISPLAY peer)"

definition ecommunity_init :: "nat \<Rightarrow> ecommunity pool" where
  "ecommunity_init buckets = pool_init buckets"

definition ecommunity_intern ::
  "bool \<Rightarrow> bgp_peer option \<Rightarrow> ecommunity pool \<Rightarrow> nat \<Rightarrow> (nat option \<times> ecommunity pool) run" where
  "ecommunity_intern num peer P a = obj_intern (ecommunity_ops num peer) peer P a"

definition ecommunity_unintern ::
  "bool \<Rightarrow> bgp_peer option \<Rightarrow> ecommunity pool \<Rightarrow> nat option \<Rightarrow> ecommunity pool run" where
  "ecommunity_unintern num peer P ptr = obj_unintern (ecommunity_ops num peer) peer P ptr"

definition ecommunity_parse :: "bool \<Rightarrow> bgp_peer option \<Rightarrow> ecommunity pool \<Rightarrow> u8 list \<Rightarrow> nat
    \<Rightarrow> (nat option \<times> ecommunity pool) run" where
  "ecommunity_parse num peer P pnt len =
     (if len mod ECOMMUNITY_SIZE \<noteq> 0 then Inr (None, P)
      else fbind (read_values ECOMMUNITY_SIZE pnt len) (\<lambda>vals.
             case ecommunity_uniq_sort peer vals of
               None \<Rightarrow> Inr (None, P)
             | Some new \<Rightarrow> (case pool_alloc P new of (a, P1) \<Rightarrow> ecommunity_intern num peer P1 a)))"

definition ecommunity_dup :: "nat \<Rightarrow> string option \<Rightarrow> ecommunity \<Rightarrow> ecommunity" where
  "ecommunity_dup junk_refcnt junk_str ecom =
     \<lparr>va_refcnt = junk_refcnt, va_val = va_val ecom, va_str = junk_str\<rparr>"

section \<open>Large communities\<close>

type_synonym lcommunity = value_attr

definition LCOMMUNITY_SIZE :: nat where "LCOMMUNITY_SIZE = 12"

definition lcommunity_new :: "bgp_peer option \<Rightarrow> lcommunity option" where
  "lcommunity_new peer = (if peer_ok peer then Some va_new else None)"

definition lcommunity_add_val :: "bgp_peer option \<Rightarrow> lcommunity \<Rightarrow> u8 list \<Rightarrow> int \<times> lcommunity" where
  "lcommunity_add_val peer lcom x = value_add peer lcom x"

definition lcommunity_uniq_sort :: "bgp_peer option \<Rightarrow> u8 list list \<Rightarrow> lcommunity option" where
  "lcommunity_uniq_sort peer vals = value_uniq_sort peer vals"

definition lcom_word :: "u8 list \<Rightarrow> string run" where
  "lcom_word v =
     (case (rd32 v, rd32 (drop 4 v), rd32 (drop 8 v)) of
        (Some p1, Some p2, Some p3) \<Rightarrow>
          Inr (dec (unat p1) @ '':'' @ dec (unat p2) @ '':'' @ dec (unat p3))
      | _ \<Rightarrow> Inl OutOfBounds)"

definition LCOMMUNITY_STR_DEFAULT_LEN :: nat where "LCOMMUNITY_STR_DEFAULT_LEN = 32"

fun lcom_fill :: "u8 list list \<Rightarrow> nat \<Rightarrow> string \<times> bool \<Rightarrow> (string \<times> bool) run" where
  "lcom_fill [] str_size st = Inr st"
| "lcom_fill (v # vs) str_size st =
     (let str_size = str_size + (LCOMMUNITY_STR_DEFAULT_LEN + 1)
      in fbind (lcom_word v) (\<lambda>s. fbind (put_word str_size st s) (lcom_fill vs str_size)))"

definition lcommunity_lcom2str :: "bgp_peer option \<Rightarrow> lcommunity \<Rightarrow> string option run" where
  "lcommunity_lcom2str peer lcom =
     (if \<not> peer_ok peer then Inr None
      else if va_val lcom = [] then Inr (Some [])
      else fbind (lcom_fill (va_val lcom) 0 ([], True)) (\<lambda>(buf, _). Inr (Some buf)))"

definition lcommunity_hash_make :: "lcommunity \<Rightarrow> u32" where
  "lcommunity_hash_make lcom = value_hash lcom"

definition lcommunity_cmp :: "lcommunity \<Rightarrow> lcommunity \<Rightarrow> bool" where
  "lcommunity_cmp lcom1 lcom2 = value_cmp lcom1 lcom2"

definition lcommunity_ops :: "bgp_peer option \<Rightarrow> lcommunity obj_ops" where
  "lcommunity_ops peer = value_ops (lcommunity_lcom2str peer)"

definition lcommunity_init :: "nat \<Rightarrow> lcommunity pool" where
  "lcommunity_init buckets = pool_init buckets"

definition lcommunity_intern ::
  "bgp_peer option \<Rightarrow> lcommunity pool \<Rightarrow> nat \<Rightarrow> (nat option \<times> lcommunity pool) run" where
  "lcommunity_intern peer P a = obj_intern (lcommunity_ops peer) peer P a"

definition lcommunity_unintern ::
  "bgp_peer option \<Rightarrow> lcommunity pool \<Rightarrow> nat option \<Rightarrow> lcommunity pool run" where
  "lcommunity_unintern peer P ptr = obj_unintern (lcommunity_ops peer) peer P ptr"

definition lcommunity_parse :: "bgp_peer option \<Rightarrow> lcommunity pool \<Rightarrow> u8 list \<Rightarrow> nat
    \<Rightarrow> (nat option \<times> lcommunity pool) run" where
  "lcommunity_parse peer P pnt len =
     (if len mod LCOMMUNITY_SIZE \<noteq> 0 then Inr (None, P)
      else fbind (read_values LCOMMUNITY_SIZE pnt len) (\<lambda>vals.
             case lcommunity_uniq_sort peer vals of
               None \<Rightarrow> Inr (None, P)
             | Some new \<Rightarrow> (case pool_alloc P new of (a, P1) \<Rightarrow> lcommunity_intern peer P1 a)))"

definition lcommunity_dup :: "nat \<Rightarrow> string option \<Rightarrow> lcommunity \<Rightarrow> lcommunity" where
  "lcommunity_dup junk_refcnt junk_str lcom =
     \<lparr>va_refcnt = junk_refcnt, va_val = va_val lcom, va_str = junk_str\<rparr>"

end
