(* ===== verification/CommunityFacts.thy ===== *)
theory CommunityFacts
  imports BgpCommunity
begin

text \<open>
  What the three kinds of communities guarantee: the buffers computed before or during printing are
  large enough, parsing turns the octets of an attribute into the ordered array of its distinct
  values, equal attributes are interned once, and the text of a community reads back.
\<close>

section \<open>Printing\<close>

lemma words_text_Cons: "words_text (s # ss) = s @ concat (map ((#) CHR '' '') ss)"
proof (induction ss arbitrary: s)
  case (Cons r ss)
  from Cons [of r] show ?case by simp
qed simp

lemma put_word_fits:
  "length buf + length s + (if first then 0 else 1) < n \<Longrightarrow>
     put_word n (buf, first) s = Inr (buf @ (if first then [] else '' '') @ s, False)"
  by (cases first) (simp_all add: put_word_def buf_puts_def buf_putc_def)

lemma and_FFFF: "unat (v AND 0xFFFF :: u32) = unat v mod 65536"
proof -
  have "v AND 0xFFFF = take_bit 16 v" by (simp add: take_bit_eq_mask mask_eq_exp_minus_1)
  also have "\<dots> = v mod 65536" by (simp add: take_bit_eq_mod)
  finally show ?thesis by (simp add: unat_mod)
qed

lemma high_half: "unat (drop_bit 16 v AND 0xFFFF :: u32) = unat v div 65536"
proof -
  have "unat (drop_bit 16 v) = unat v div 65536"
    by (simp add: drop_bit_eq_div unat_div)
  moreover have "unat v div 65536 < 65536"
    using unat_u32_less [of v] by (simp add: less_mult_imp_div_less)
  ultimately show ?thesis unfolding and_FFFF by simp
qed

lemma length_dec_16: "n < 65536 \<Longrightarrow> length (dec n) \<le> 5"
  by (intro length_dec_le) auto

lemma length_as_val_text: "length (as_val_text v) \<le> 11"
proof -
  have "unat v div 65536 < 65536"
    using unat_u32_less [of v] by (simp add: less_mult_imp_div_less)
  then show ?thesis
    using length_dec_16 [of "unat v div 65536"] length_dec_16 [of "unat v mod 65536"]
    unfolding as_val_text_def high_half unfolding and_FFFF by simp
qed

lemma community_word_room: "Suc (length (community_word num v)) \<le> community_word_len num v"
  using length_as_val_text [of v] by (simp add: community_word_def community_word_len_def)

lemma community_fill_rest:
  "length buf + sum_list (map (\<lambda>v. community_word_len num (com_host v)) vs) < n \<Longrightarrow>
     community_fill num n vs (buf, False)
       = Inr (buf @ concat (map (\<lambda>v. CHR '' '' # community_word num (com_host v)) vs), False)"
proof (induction vs arbitrary: buf)
  case (Cons v vs)
  have room: "length buf + length (community_word num (com_host v)) + 1
      + sum_list (map (\<lambda>v. community_word_len num (com_host v)) vs) < n"
    using Cons.prems community_word_room [of num "com_host v"] by simp
  then have "put_word n (buf, False) (community_word num (com_host v))
      = Inr (buf @ '' '' @ community_word num (com_host v), False)"
    using put_word_fits [of buf "community_word num (com_host v)" False n] by simp
  moreover have "community_fill num n vs (buf @ '' '' @ community_word num (com_host v), False)
      = Inr ((buf @ '' '' @ community_word num (com_host v))
          @ concat (map (\<lambda>v. CHR '' '' # community_word num (com_host v)) vs), False)"
    using room by (intro Cons.IH) simp
  ultimately show ?case by simp
qed simp

definition community_text :: "bool \<Rightarrow> community \<Rightarrow> string" where
  "community_text num com = words_text (map (\<lambda>v. community_word num (com_host v)) (va_val com))"

lemma com2str_text:
  assumes "peer_ok peer"
  shows "community_com2str num peer com = Inr (Some (community_text num com))"
proof (cases "va_val com")
  case Nil
  then show ?thesis using assms by (simp add: community_com2str_def community_text_def)
next
  case (Cons v vs)
  let ?n = "sum_list (map (\<lambda>v. community_word_len num (com_host v)) (va_val com))"
  have room: "length (community_word num (com_host v))
      + sum_list (map (\<lambda>v. community_word_len num (com_host v)) vs) < ?n"
    using community_word_room [of num "com_host v"] by (simp add: Cons)
  then have "put_word ?n ([], True) (community_word num (com_host v))
      = Inr (community_word num (com_host v), False)"
    using put_word_fits [of "[]" "community_word num (com_host v)" True ?n] by simp
  with community_fill_rest [OF room] assms show ?thesis
    by (simp add: community_com2str_def community_text_def Cons words_text_Cons comp_def)
qed

section \<open>Printing extended communities\<close>

lemma str_grow_enough: "0 < n \<Longrightarrow> need < str_grow need n"
proof (induction need n rule: str_grow.induct)
  case (1 need n)
  then show ?case by (cases "n \<le> need") (simp_all add: str_grow.simps [of need n])
qed

lemma str_grow_pos: "0 < n \<Longrightarrow> 0 < str_grow need n"
  using str_grow_enough [of n need] by simp

lemma length_dec_8: "n < 256 \<Longrightarrow> length (dec n) \<le> 3"
  by (intro length_dec_le) auto

lemma length_inet_ntoa: "length (inet_ntoa a b c d) \<le> 15"
  using length_dec_8 [OF unat_u8_less [of a]] length_dec_8 [OF unat_u8_less [of b]]
    length_dec_8 [OF unat_u8_less [of c]] length_dec_8 [OF unat_u8_less [of d]]
  by (simp add: inet_ntoa_def)

lemma ecom_prefix_short: "length (ecom_prefix num format t) \<le> 4"
  by (simp add: ecom_prefix_def split: ecom_format.splits)

definition ecom_word_text :: "bool \<Rightarrow> ecom_format \<Rightarrow> u8 list \<Rightarrow> string" where
  "ecom_word_text num format v = (case ecom_word num format v of Inl _ \<Rightarrow> [] | Inr s \<Rightarrow> s)"

lemma ecom_word_ok:
  assumes "length v = 8"
  shows "ecom_word num format v = Inr (ecom_word_text num format v)"
    and "length (ecom_word_text num format v) \<le> 25"
proof -
  from assms obtain e t b2 b3 b4 b5 b6 b7 where v: "v = [e, t, b2, b3, b4, b5, b6, b7]"
    by (auto simp: length_Suc_conv eval_nat_numeral)
  note L = length_dec_u32 [of "be32 b2 b3 b4 b5"] length_dec_u32 [of "be32 b4 b5 b6 b7"]
    length_dec_16 [OF unat_u16_less [of "be16 b6 b7"]]
    length_dec_16 [OF unat_u16_less [of "be16 b2 b3"]]
    ecom_prefix_short [of num format t] length_inet_ntoa [of b2 b3 b4 b5]
  have "\<exists>s. ecom_word num format v = Inr s \<and> length s \<le> 25"
    unfolding v ecom_word.simps using L by (simp split: if_splits)
  then show "ecom_word num format v = Inr (ecom_word_text num format v)"
    "length (ecom_word_text num format v) \<le> 25"
    by (auto simp: ecom_word_text_def)
qed

lemma ecom_fill_rest:
  "\<forall>v \<in> set vs. length v = 8 \<Longrightarrow> 0 < n \<Longrightarrow>
     ecom_fill num format vs n (buf, False)
       = Inr (buf @ concat (map (\<lambda>v. CHR '' '' # ecom_word_text num format v) vs), False)"
proof (induction vs arbitrary: buf n)
  case (Cons v vs)
  let ?n = "str_grow (length buf + ECOMMUNITY_STR_DEFAULT_LEN) n" and ?s = "ecom_word_text num format v"
  have v: "length v = 8" using Cons.prems(1) by simp
  have n: "length buf + 27 < ?n"
    using str_grow_enough [OF Cons.prems(2)] by (simp add: ECOMMUNITY_STR_DEFAULT_LEN_def)
  have "put_word ?n (buf, False) ?s = Inr (buf @ '' '' @ ?s, False)"
    using put_word_fits [of buf ?s False ?n] ecom_word_ok(2) [OF v, of num format] n by simp
  with Cons.IH [of ?n "buf @ '' '' @ ?s"] Cons.prems n show ?case
    by (simp add: ecom_word_ok(1) [OF v])
qed simp

definition ecommunity_text :: "bool \<Rightarrow> ecom_format \<Rightarrow> ecommunity \<Rightarrow> string" where
  "ecommunity_text num format ecom = words_text (map (ecom_word_text num format) (va_val ecom))"

lemma ecom2str_text:
  assumes "peer_ok peer" "va_width 8 ecom"
  shows "ecommunity_ecom2str num format peer ecom = Inr (Some (ecommunity_text num format ecom))"
proof (cases "va_val ecom")
  case Nil
  then show ?thesis using assms by (simp add: ecommunity_ecom2str_def ecommunity_text_def)
next
  case (Cons v vs)
  let ?n = "str_grow ECOMMUNITY_STR_DEFAULT_LEN (Suc ECOMMUNITY_STR_DEFAULT_LEN)"
  let ?s = "ecom_word_text num format v"
  have v: "length v = 8" "\<forall>v \<in> set vs. length v = 8"
    using assms(2) by (auto simp: va_width_def Cons)
  have n: "27 < ?n"
    using str_grow_enough [of "Suc ECOMMUNITY_STR_DEFAULT_LEN" ECOMMUNITY_STR_DEFAULT_LEN]
    by (simp add: ECOMMUNITY_STR_DEFAULT_LEN_def)
  have "put_word ?n ([], True) ?s = Inr (?s, False)"
    using put_word_fits [of "[]" ?s True ?n] ecom_word_ok(2) [OF v(1), of num format] n by simp
  with ecom_fill_rest [OF v(2), of ?n num format ?s] n assms(1) show ?thesis
    by (simp add: ecommunity_ecom2str_def ecommunity_text_def Cons words_text_Cons comp_def
        ecom_word_ok(1) [OF v(1)])
qed

section \<open>Printing large communities\<close>

definition lcom_word_text :: "u8 list \<Rightarrow> string" where
  "lcom_word_text v = (case lcom_word v of Inl _ \<Rightarrow> [] | Inr s \<Rightarrow> s)"

lemma lcom_word_ok:
  assumes "length v = 12"
  shows "lcom_word v = Inr (lcom_word_text v)" and "length (lcom_word_text v) \<le> 32"
proof -
  obtain p1 p2 p3 where p: "rd32 v = Some p1" "rd32 (drop 4 v) = Some p2" "rd32 (drop 8 v) = Some p3"
    using assms rd32_Some_iff [of v] rd32_Some_iff [of "drop 4 v"] rd32_Some_iff [of "drop 8 v"]
    by auto
  then have "lcom_word v = Inr (dec (unat p1) @ '':'' @ dec (unat p2) @ '':'' @ dec (unat p3))"
    by (simp add: lcom_word_def)
  then show "lcom_word v = Inr (lcom_word_text v)" "length (lcom_word_text v) \<le> 32"
    using length_dec_u32 [of p1] length_dec_u32 [of p2] length_dec_u32 [of p3]
    by (simp_all add: lcom_word_text_def)
qed

lemma lcom_fill_rest:
  "\<forall>v \<in> set vs. length v = 12 \<Longrightarrow> length buf < n \<Longrightarrow>
     lcom_fill vs n (buf, False) = Inr (buf @ concat (map (\<lambda>v. CHR '' '' # lcom_word_text v) vs), False)"
proof (induction vs arbitrary: buf n)
  case (Cons v vs)
  let ?n = "n + (LCOMMUNITY_STR_DEFAULT_LEN + 1)" and ?s = "lcom_word_text v"
  have v: "length v = 12" using Cons.prems(1) by simp
  have room: "length (buf @ '' '' @ ?s) < ?n"
    using Cons.prems(2) lcom_word_ok(2) [OF v] by (simp add: LCOMMUNITY_STR_DEFAULT_LEN_def)
  then have "put_word ?n (buf, False) ?s = Inr (buf @ '' '' @ ?s, False)"
    using put_word_fits [of buf ?s False ?n] by simp
  with Cons.IH [OF _ room] Cons.prems show ?case
    by (simp add: lcom_word_ok(1) [OF v])
qed simp

definition lcommunity_text :: "lcommunity \<Rightarrow> string" where
  "lcommunity_text lcom = words_text (map lcom_word_text (va_val lcom))"

lemma lcom2str_text:
  assumes "peer_ok peer" "va_width 12 lcom"
  shows "lcommunity_lcom2str peer lcom = Inr (Some (lcommunity_text lcom))"
proof (cases "va_val lcom")
  case Nil
  then show ?thesis using assms by (simp add: lcommunity_lcom2str_def lcommunity_text_def)
next
  case (Cons v vs)
  let ?n = "Suc LCOMMUNITY_STR_DEFAULT_LEN" and ?s = "lcom_word_text v"
  have v: "length v = 12" "\<forall>v \<in> set vs. length v = 12"
    using assms(2) by (auto simp: va_width_def Cons)
  have room: "length ?s < ?n"
    using lcom_word_ok(2) [OF v(1)] by (simp add: LCOMMUNITY_STR_DEFAULT_LEN_def)
  then have "put_word ?n ([], True) ?s = Inr (?s, False)"
    using put_word_fits [of "[]" ?s True ?n] by simp
  with lcom_fill_rest [OF v(2) room] assms(1) show ?thesis
    by (simp add: lcommunity_lcom2str_def lcommunity_text_def Cons words_text_Cons comp_def
        lcom_word_ok(1) [OF v(1)])
qed

section \<open>Parsing\<close>

lemma bytes32_com_host: "length x = 4 \<Longrightarrow> bytes32 (com_host x) = x"
  by (auto simp: length_Suc_conv eval_nat_numeral com_host_def)

lemma com_host_inject: "length x = 4 \<Longrightarrow> length y = 4 \<Longrightarrow> com_host x = com_host y \<longleftrightarrow> x = y"
  by (metis bytes32_com_host)

lemma com_host_bytes32 [simp]: "com_host (bytes32 v) = v"
  using rd32_bytes32 [of v "[]"] by (simp add: com_host_def)

interpretation v4: value_order community_compare "\<lambda>v. length v = 4"
  by unfold_locales (auto simp: community_compare_def com_host_inject split: if_splits)

abbreviation com_ascending :: "u8 list list \<Rightarrow> bool" where
  "com_ascending \<equiv> sorted_wrt (\<lambda>x y. community_compare x y < 0)"

lemma community_include_iff:
  "va_width 4 com \<Longrightarrow> community_include com val \<longleftrightarrow> bytes32 val \<in> set (va_val com)"
  by (force simp: community_include_def list_ex_iff va_width_def memcmp_eq_0)

lemma uniq_fold:
  assumes "peer_ok peer"
  shows "va_width 4 new \<Longrightarrow> distinct (va_val new) \<Longrightarrow> \<forall>v \<in> set vals. length v = 4 \<Longrightarrow>
    new' = fold (\<lambda>v new. if community_include new (com_host v) then new
                  else community_add_val peer new (com_host v)) vals new \<Longrightarrow>
    va_width 4 new' \<and> distinct (va_val new') \<and> set (va_val new') = set (va_val new) \<union> set vals
      \<and> va_refcnt new' = va_refcnt new \<and> va_str new' = va_str new"
proof (induction vals arbitrary: new)
  case (Cons v vals)
  have v: "bytes32 (com_host v) = v" using Cons.prems(3) by (simp add: bytes32_com_host)
  show ?case
  proof (cases "community_include new (com_host v)")
    case True
    with Cons community_include_iff [OF Cons.prems(1)] v show ?thesis by auto
  next
    case False
    let ?new = "new\<lparr>va_val := va_val new @ [v]\<rparr>"
    have "va_width 4 ?new" "distinct (va_val ?new)"
      using Cons.prems(1-3) False community_include_iff [OF Cons.prems(1)] v
      by (auto simp: va_width_def)
    from Cons.IH [OF this] Cons.prems(3,4) False v assms show ?thesis
      by (auto simp: community_add_val_def)
  qed
qed simp

lemma sort_key_ascending:
  assumes "distinct vs" "\<forall>v \<in> set vs. length v = 4"
  shows "com_ascending (sort_key com_host vs)"
proof -
  let ?s = "sort_key com_host vs"
  have "inj_on com_host (set ?s)"
    using assms(2) by (auto simp: inj_on_def com_host_inject)
  then have "distinct (map com_host ?s)" using assms(1) by (simp add: distinct_map)
  moreover have "sorted (map com_host ?s)" by simp
  ultimately have "sorted_wrt (<) (map com_host ?s)" by (simp add: strict_sorted_iff)
  then show ?thesis
    unfolding sorted_wrt_map
    by (rule sorted_wrt_mono_rel [rotated]) (simp add: community_compare_def)
qed

lemma uniq_sort_spec:
  assumes "peer_ok peer" "\<forall>v \<in> set vals. length v = 4"
  shows "\<exists>com. community_uniq_sort peer vals = Inr com \<and> com_ascending (va_val com)
    \<and> set (va_val com) = set vals \<and> va_refcnt com = 0 \<and> va_str com = None \<and> va_width 4 com"
proof -
  have "va_width 4 va_new" "distinct (va_val va_new)" by (simp_all add: va_new_def va_width_def)
  from uniq_fold [OF assms(1) this assms(2) refl] show ?thesis
    using assms(1) by (auto simp: community_uniq_sort_def community_new_def Let_def va_new_def va_width_def
        intro: sort_key_ascending)
qed

lemma community_parse_null: "len mod 4 = 0 \<Longrightarrow> len \<le> length pnt \<Longrightarrow> \<not> peer_ok peer \<Longrightarrow>
    community_parse num peer P pnt len = Inl NullDeref"
  by (simp add: community_parse_def read_values_def community_uniq_sort_def community_new_def)

section \<open>Interning\<close>

interpretation com: obj_class "community_ops num peer" "va_width 4" for num peer
  unfolding community_ops_def by (rule value_ops_class)

interpretation ecom: obj_class "ecommunity_ops num peer" "va_width 8" for num peer
  unfolding ecommunity_ops_def by (rule value_ops_class)

interpretation lcom: obj_class "lcommunity_ops peer" "va_width 12" for peer
  unfolding lcommunity_ops_def by (rule value_ops_class)

text \<open>Interning a new attribute: the object returned has the values of the new one, and no interned
  object changes its values.\<close>

definition same_values :: "value_attr pool \<Rightarrow> value_attr pool \<Rightarrow> bool" where
  "same_values P P' \<longleftrightarrow> (\<forall>q \<in> pool_ptrs P. q \<in> pool_ptrs P'
     \<and> map_option va_val (heap P' q) = map_option va_val (heap P q))"

lemma value_intern_new:
  assumes inv: "pool_inv (value_ops mk) (va_width w) P" and peer: "peer_ok peer"
    and com: "va_width w com" "va_refcnt com = 0" and al: "pool_alloc P com = (a, P1)"
  shows "\<exists>r P' com'. obj_intern (value_ops mk) peer P1 a = Inr (Some r, P')
    \<and> pool_inv (value_ops mk) (va_width w) P' \<and> r \<in> pool_ptrs P'
    \<and> heap P' r = Some com' \<and> va_val com' = va_val com \<and> same_values P P'"
proof -
  note oc = value_ops_class [of mk w]
  note A = obj_class.alloc_inv [OF oc inv al]
  have "heap P1 a = Some com" by (simp add: A(3))
  from obj_class.intern_spec [OF oc A(1) peer this com(1)] com(2)
  obtain r z P' where I: "obj_intern (value_ops mk) peer P1 a = Inr (Some r, P')"
    "pool_inv (value_ops mk) (va_width w) P'" "heap P' r = Some z" "value_cmp z com"
    and C: "r = a \<and> pool_ptrs P' = insert a (pool_ptrs P1) \<and> heap P' = (heap P1)(a \<mapsto> z)
       \<or> r \<noteq> a \<and> r \<in> pool_ptrs P1 \<and> pool_ptrs P' = pool_ptrs P1
          \<and> (\<exists>y. heap P1 r = Some y \<and> value_cmp y com) \<and> heap P' = (heap P1)(a := None, r \<mapsto> z)"
    by fastforce
  have r: "r \<in> pool_ptrs P'" using C by auto
  then have "va_width w z" using pool_invD(3) [OF I(2)] I(3) by fastforce
  then have z: "va_val z = va_val com" using I(4) com(1) by (simp add: value_cmp_eq)
  have "same_values P P'"
    unfolding same_values_def
  proof (intro ballI conjI)
    fix q assume q: "q \<in> pool_ptrs P"
    then show "q \<in> pool_ptrs P'" using C A(4) by auto
    have qa: "q \<noteq> a" using q A(5) by auto
    show "map_option va_val (heap P' q) = map_option va_val (heap P q)"
    proof (cases "q = r")
      case True
      then obtain y where y: "heap P r = Some y" "value_cmp y com"
        "heap P' = (heap P1)(a := None, r \<mapsto> z)"
        using C qa A(3) by auto
      moreover have "va_width w y"
        using pool_invD(3) [OF inv q] y(1) True by auto
      ultimately show ?thesis using True z com(1) by (simp add: value_cmp_eq)
    next
      case False
      then show ?thesis using C qa A(3) by auto
    qed
  qed
  with I r z show ?thesis by auto
qed

text \<open>The three parsers.\<close>

lemma chunks_values:
  "len mod w = 0 \<Longrightarrow> len \<le> length pnt \<Longrightarrow> \<forall>v \<in> set (chunks w (len div w) pnt). length v = w"
  using chunks_width [of "len div w" w pnt] div_times_less_eq_dividend [of len w] by auto

lemma community_parse_spec:
  assumes inv: "pool_inv (community_ops num peer) (va_width 4) P" and peer: "peer_ok peer"
    and len: "len mod 4 = 0" "len \<le> length pnt"
  shows "\<exists>r P' com. community_parse num peer P pnt len = Inr (Some r, P')
    \<and> pool_inv (community_ops num peer) (va_width 4) P' \<and> r \<in> pool_ptrs P'
    \<and> heap P' r = Some com \<and> com_ascending (va_val com)
    \<and> set (va_val com) = set (chunks 4 (len div 4) pnt) \<and> same_values P P'"
proof -
  from uniq_sort_spec [OF peer chunks_values [OF len]] obtain new where
    N: "community_uniq_sort peer (chunks 4 (len div 4) pnt) = Inr new" "com_ascending (va_val new)"
    "set (va_val new) = set (chunks 4 (len div 4) pnt)" "va_refcnt new = 0" "va_width 4 new"
    by blast
  obtain a P1 where al: "pool_alloc P new = (a, P1)" by (cases "pool_alloc P new")
  from value_intern_new [OF inv [unfolded community_ops_def] peer N(5,4) al] N len al
  show ?thesis
    by (auto simp: community_parse_def read_values_def community_intern_def community_ops_def)
qed

lemma ecommunity_parse_spec:
  assumes inv: "pool_inv (ecommunity_ops num peer) (va_width 8) P" and peer: "peer_ok peer"
    and len: "len mod 8 = 0" "len \<le> length pnt"
  shows "\<exists>r P' com. ecommunity_parse num peer P pnt len = Inr (Some r, P')
    \<and> pool_inv (ecommunity_ops num peer) (va_width 8) P' \<and> r \<in> pool_ptrs P'
    \<and> heap P' r = Some com \<and> ascending (va_val com)
    \<and> set (va_val com) = set (chunks 8 (len div 8) pnt) \<and> same_values P P'"
proof -
  from value_uniq_sort_spec [OF peer chunks_values [OF len]] obtain new where
    N: "value_uniq_sort peer (chunks 8 (len div 8) pnt) = Some new" "ascending (va_val new)"
    "set (va_val new) = set (chunks 8 (len div 8) pnt)" "va_refcnt new = 0" "va_width 8 new"
    by blast
  obtain a P1 where al: "pool_alloc P new = (a, P1)" by (cases "pool_alloc P new")
  from value_intern_new [OF inv [unfolded ecommunity_ops_def] peer N(5,4) al] N len al
  show ?thesis
    by (auto simp: ecommunity_parse_def read_values_def ecommunity_intern_def ecommunity_ops_def
        ecommunity_uniq_sort_def ECOMMUNITY_SIZE_def)
qed

lemma lcommunity_parse_spec:
  assumes inv: "pool_inv (lcommunity_ops peer) (va_width 12) P" and peer: "peer_ok peer"
    and len: "len mod 12 = 0" "len \<le> length pnt"
  shows "\<exists>r P' com. lcommunity_parse peer P pnt len = Inr (Some r, P')
    \<and> pool_inv (lcommunity_ops peer) (va_width 12) P' \<and> r \<in> pool_ptrs P'
    \<and> heap P' r = Some com \<and> ascending (va_val com)
    \<and> set (va_val com) = set (chunks 12 (len div 12) pnt) \<and> same_values P P'"
proof -
  from value_uniq_sort_spec [OF peer chunks_values [OF len]] obtain new where
    N: "value_uniq_sort peer (chunks 12 (len div 12) pnt) = Some new" "ascending (va_val new)"
    "set (va_val new) = set (chunks 12 (len div 12) pnt)" "va_refcnt new = 0" "va_width 12 new"
    by blast
  obtain a P1 where al: "pool_alloc P new = (a, P1)" by (cases "pool_alloc P new")
  from value_intern_new [OF inv [unfolded lcommunity_ops_def] peer N(5,4) al] N len al
  show ?thesis
    by (auto simp: lcommunity_parse_def read_values_def lcommunity_intern_def lcommunity_ops_def
        lcommunity_uniq_sort_def LCOMMUNITY_SIZE_def)
qed

text \<open>Two attributes have the same address exactly when they have the same set of values, whatever
  the order and repetition of the values on the wire.\<close>

lemma community_parse_canonical:
  assumes inv: "pool_inv (community_ops num peer) (va_width 4) P" and peer: "peer_ok peer"
    and len1: "len1 mod 4 = 0" "len1 \<le> length pnt1" and len2: "len2 mod 4 = 0" "len2 \<le> length pnt2"
  shows "\<exists>a1 P1 a2 P2. community_parse num peer P pnt1 len1 = Inr (Some a1, P1)
    \<and> community_parse num peer P1 pnt2 len2 = Inr (Some a2, P2)
    \<and> (a1 = a2 \<longleftrightarrow> set (chunks 4 (len1 div 4) pnt1) = set (chunks 4 (len2 div 4) pnt2))"
proof -
  from community_parse_spec [OF inv peer len1] obtain a1 P1 com1 where
    1: "community_parse num peer P pnt1 len1 = Inr (Some a1, P1)"
    "pool_inv (community_ops num peer) (va_width 4) P1" "a1 \<in> pool_ptrs P1" "heap P1 a1 = Some com1"
    "com_ascending (va_val com1)" "set (va_val com1) = set (chunks 4 (len1 div 4) pnt1)"
    by blast
  from community_parse_spec [OF 1(2) peer len2] obtain a2 P2 com2 where
    2: "community_parse num peer P1 pnt2 len2 = Inr (Some a2, P2)"
    "pool_inv (community_ops num peer) (va_width 4) P2" "a2 \<in> pool_ptrs P2" "heap P2 a2 = Some com2"
    "com_ascending (va_val com2)" "set (va_val com2) = set (chunks 4 (len2 div 4) pnt2)"
    "same_values P1 P2"
    by blast
  from 2(7) 1(3,4) have s: "a1 \<in> pool_ptrs P2" "map_option va_val (heap P2 a1) = Some (va_val com1)"
    unfolding same_values_def by auto
  then obtain com1' where 3: "a1 \<in> pool_ptrs P2" "heap P2 a1 = Some com1'"
    "va_val com1' = va_val com1"
    by (cases "heap P2 a1") auto
  have w: "va_width 4 com2" "va_width 4 com1'"
    using pool_invD(3) [OF 2(2,3)] 2(4) pool_invD(3) [OF 2(2) 3(1)] 3(2) by auto
  have "va_val com1' = va_val com2" if "set (va_val com1) = set (va_val com2)"
    using v4.ascending_unique [of "va_val com1'" "va_val com2"] 1(5) 2(5) 3(3) that w
    by (auto simp: va_width_def)
  then have "a1 = a2" if "set (va_val com1) = set (va_val com2)"
    using com.canonical [OF 2(2) 3(1) 2(3) 3(2) 2(4)] that w
    by (simp add: community_ops_def value_cmp_same)
  moreover have "set (va_val com1) = set (va_val com2)" if "a1 = a2"
    using that 2(4) 3(2,3) by auto
  ultimately show ?thesis using 1(1,6) 2(1,6) by auto
qed

section \<open>Reading one community; deleting\<close>

lemma str2com_digits:
  assumes "list_all isdigit ds"
  shows "str2com_loop (ds @ r) sp d (u32n m) high
    = str2com_loop r sp (d \<or> ds \<noteq> []) (u32n (undec m ds)) high"
  using assms
proof (induction ds arbitrary: d m)
  case Nil
  then show ?case by (simp add: undec_def)
next
  case (Cons c ds)
  have c: "isdigit c" "c \<noteq> CHR '':''" using Cons.prems by (auto simp: isdigit_def)
  have "u32n m * 10 + u32n (digit_val c) = u32n (m * 10 + digit_val c)" by (simp add: u32n_def)
  with Cons.IH [of True "m * 10 + digit_val c"] Cons.prems c show ?case
    by (simp add: str2com_loop.simps [of "c # ds @ r"] undec_def)
qed

lemma list_all_dec: "list_all isdigit (dec n)"
  by (auto simp: list_all_iff dec_digits)

lemma str2com_text: "community_str2com_simple (as_val_text v) = Some v"
proof -
  let ?h = "unat (drop_bit 16 v AND 0xFFFF)" and ?l = "unat (v AND 0xFFFF)"
  obtain c ds where d: "dec ?h = c # ds" by (cases "dec ?h") auto
  have c: "isdigit c" "\<not> isspace c"
    using dec_digits [of c ?h] isdigit_not_isspace [of c] by (auto simp: d)
  have sep: "\<not> isdigit CHR '':''" by (simp add: isdigit_def)
  have "str2com_loop (as_val_text v) False False (u32n 0) 0
      = str2com_loop ('':'' @ dec ?l) False True (u32n ?h) 0"
    using str2com_digits [OF list_all_dec, of ?h "'':'' @ dec ?l" False False 0 0]
    by (simp add: as_val_text_def undec_dec)
  also have "\<dots> = str2com_loop (dec ?l @ []) True False (u32n 0) (push_bit 16 (u32n ?h))"
    using sep by (simp add: str2com_loop.simps [of "CHR '':'' # dec ?l"] u32n_def)
  also have "\<dots> = Some (push_bit 16 (u32n ?h) + u32n ?l)"
    using str2com_digits [OF list_all_dec, of ?l "[]" True False 0 "push_bit 16 (u32n ?h)"]
    by (simp add: undec_dec str2com_loop.simps [of "[]"])
  also have "push_bit 16 (u32n ?h) + u32n ?l = u32n (?h * 65536 + ?l)"
    by (simp add: u32n_def push_bit_eq_mult)
  also have "\<dots> = v"
    unfolding high_half unfolding and_FFFF by (simp add: div_mult_mod_eq)
  finally have "str2com_loop (as_val_text v) False False 0 0 = Some v" by (simp add: u32n_def)
  then show ?thesis
    using c by (simp add: community_str2com_simple_def as_val_text_def d)
qed

lemma community_del_overrun:
  assumes "va_val com = xs @ v # y # ys" "va_width 4 com" "v \<notin> set xs"
  shows "community_del_val com v = Inl OutOfBounds"
proof -
  have "community_del_loop (xs @ v # y # ys) v = Inl OutOfBounds"
    if "\<forall>x \<in> set (v # xs). length x = 4" "v \<notin> set xs"
    using that
  proof (induction xs)
    case (Cons x xs)
    then have "memcmp x v \<noteq> 0" using memcmp_eq_0 [of x v] by auto
    with Cons show ?case by simp
  qed simp
  with assms show ?thesis by (simp add: community_del_val_def va_width_def)
qed

end
