(* ===== verification/BgpPrefix.thy ===== *)
theory BgpPrefix
  imports BgpTypes
begin

text \<open>
  Network prefixes (bgp\_prefix.c): the comparison of prefixes bit by bit, netmasks, the masking of
  host bits, and reading prefixes from strings. A \<open>struct prefix\<close> is its family, its length
  and the 16 octets of its union; an IPv4 address occupies the first four. The libc functions
  \<open>inet_aton\<close> and \<open>inet_pton\<close> are arguments of the definitions that call them.
\<close>

section \<open>The structure\<close>

record prefix =
  p_family :: nat
  p_len :: nat
  p_bytes :: "u8 list"

definition prefix_new :: prefix where
  "prefix_new = \<lparr>p_family = 0, p_len = 0, p_bytes = replicate 16 0\<rparr>"

definition prefix_ipv4_new :: prefix where
  "prefix_ipv4_new = prefix_new\<lparr>p_family := AF_INET\<rparr>"

definition prefix_ipv6_new :: prefix where
  "prefix_ipv6_new = prefix_new\<lparr>p_family := AF_INET6\<rparr>"

text \<open>What every prefix handed to these functions satisfies; the octets read below are then inside
  the union.\<close>

definition prefix_ok :: "prefix \<Rightarrow> bool" where
  "prefix_ok p \<longleftrightarrow> length (p_bytes p) = 16 \<and> p_len p \<le> 128"

definition maskbit :: "nat \<Rightarrow> u8" where
  "maskbit i = [0x00, 0x80, 0xc0, 0xe0, 0xf0, 0xf8, 0xfc, 0xfe, 0xff] ! i"

definition afi2family :: "nat \<Rightarrow> nat" where
  "afi2family afi = (if afi = AFI_IP then AF_INET else if afi = AFI_IP6 then AF_INET6 else 0)"

definition family2afi :: "nat \<Rightarrow> nat" where
  "family2afi family = (if family = AF_INET then AFI_IP else if family = AF_INET6 then AFI_IP6 else 0)"

section \<open>Comparing\<close>

text \<open>\<open>while (offset--) if (np[offset] != pp[offset]) return ...\<close>\<close>

fun same_octets :: "u8 list \<Rightarrow> u8 list \<Rightarrow> nat \<Rightarrow> bool" where
  "same_octets np pp 0 = True"
| "same_octets np pp (Suc offset) = (if np ! offset \<noteq> pp ! offset then False else same_octets np pp offset)"

definition same_network :: "nat \<Rightarrow> u8 list \<Rightarrow> u8 list \<Rightarrow> bool" where
  "same_network len np pp =
     (let offset = len div 8; shift = len mod 8
      in if shift \<noteq> 0 \<and> maskbit shift AND (np ! offset XOR pp ! offset) \<noteq> 0 then False
         else same_octets np pp offset)"

definition prefix_match :: "prefix \<Rightarrow> prefix \<Rightarrow> bool" where
  "prefix_match n p =
     (if p_len p < p_len n then False else same_network (p_len n) (p_bytes n) (p_bytes p))"

definition prefix_cmp :: "prefix \<Rightarrow> prefix \<Rightarrow> bool" where
  "prefix_cmp p1 p2 =
     (if p_family p1 \<noteq> p_family p2 \<or> p_len p1 \<noteq> p_len p2 then True
      else \<not> same_network (p_len p1) (p_bytes p1) (p_bytes p2))"

definition prefix_same :: "prefix \<Rightarrow> prefix \<Rightarrow> bool" where
  "prefix_same p1 p2 =
     (p_family p1 = p_family p2 \<and> p_len p1 = p_len p2
      \<and> (p_family p1 = AF_INET \<and> memcmp (take 4 (p_bytes p1)) (take 4 (p_bytes p2)) = 0
       \<or> p_family p1 = AF_INET6 \<and> memcmp (take 16 (p_bytes p1)) (take 16 (p_bytes p2)) = 0))"

definition prefix_copy :: "prefix \<Rightarrow> prefix \<Rightarrow> prefix" where
  "prefix_copy dest src =
     \<lparr>p_family = p_family src, p_len = p_len src,
      p_bytes = (if p_family src = AF_INET then take 4 (p_bytes src) @ drop 4 (p_bytes dest)
                 else if p_family src = AF_INET6 then take 16 (p_bytes src) @ drop 16 (p_bytes dest)
                 else p_bytes dest)\<rparr>"

definition prefix_family_str :: "prefix \<Rightarrow> string" where
  "prefix_family_str p =
     (if p_family p = AF_INET then ''inet'' else if p_family p = AF_INET6 then ''inet6'' else ''unspec'')"

definition prefix_blen :: "prefix \<Rightarrow> nat" where
  "prefix_blen p = (if p_family p = AF_INET then 4 else if p_family p = AF_INET6 then 16 else 0)"

definition prefix_ipv4_any :: "prefix \<Rightarrow> bool" where
  "prefix_ipv4_any p \<longleftrightarrow> take 4 (p_bytes p) = [0, 0, 0, 0] \<and> p_len p = 0"

section \<open>Masks\<close>

text \<open>The octets of a netmask of an address of \<open>n\<close> octets; a length that needs more of them
  writes behind the address.\<close>

definition masklen2bytes :: "nat \<Rightarrow> nat \<Rightarrow> u8 list run" where
  "masklen2bytes n masklen =
     (let offset = masklen div 8; bit = masklen mod 8;
          written = replicate offset 0xff @ (if bit \<noteq> 0 then [maskbit bit] else [])
      in if n < length written then Inl OutOfBounds
         else Inr (written @ replicate (n - length written) 0))"

definition masklen2ip :: "nat \<Rightarrow> u8 list run" where
  "masklen2ip masklen = masklen2bytes 4 masklen"

definition masklen2ip6 :: "nat \<Rightarrow> u8 list run" where
  "masklen2ip6 masklen = masklen2bytes 16 masklen"

text \<open>\<open>while (val) { len++; val <<= 1; }\<close>: an octet is zero after eight shifts at the latest.\<close>

fun shift_count :: "nat \<Rightarrow> u8 \<Rightarrow> nat" where
  "shift_count 0 val = 0"
| "shift_count (Suc n) val = (if val = 0 then 0 else Suc (shift_count n (push_bit 1 val)))"

fun ip_masklen :: "u8 list \<Rightarrow> nat" where
  "ip_masklen [] = 0"
| "ip_masklen (b # pnt) = (if b = 0xff then 8 + ip_masklen pnt else shift_count 8 b)"

text \<open>\<open>ip6_masklen\<close> looks at \<open>*pnt\<close> before it compares the length: for the mask of all ones it reads
  the octet behind the address, \<open>stray\<close> here.\<close>

fun ip6_masklen_loop :: "u8 list \<Rightarrow> u8 \<Rightarrow> nat \<Rightarrow> nat" where
  "ip6_masklen_loop [] stray len =
     (if stray = 0xff \<and> len < 128 then len + 8
      else if len < 128 then len + shift_count 8 stray else len)"
| "ip6_masklen_loop (b # pnt) stray len =
     (if b = 0xff \<and> len < 128 then ip6_masklen_loop pnt stray (len + 8)
      else if len < 128 then len + shift_count 8 b else len)"

definition ip6_masklen :: "u8 list \<Rightarrow> u8 \<Rightarrow> nat" where
  "ip6_masklen netmask stray = ip6_masklen_loop netmask stray 0"

text \<open>Masking the octet the length falls into and clearing those after it, up to octet \<open>n\<close>.\<close>

definition apply_mask_bytes :: "nat \<Rightarrow> nat \<Rightarrow> u8 list \<Rightarrow> u8 list" where
  "apply_mask_bytes n len bs =
     (let index = len div 8; offset = len mod 8
      in if index < n
         then take index bs @ (bs ! index AND maskbit offset) # replicate (n - Suc index) 0 @ drop n bs
         else bs)"

definition apply_mask_ipv4 :: "prefix \<Rightarrow> prefix" where
  "apply_mask_ipv4 p = p\<lparr>p_bytes := apply_mask_bytes 4 (p_len p) (p_bytes p)\<rparr>"

definition apply_mask_ipv6 :: "prefix \<Rightarrow> prefix" where
  "apply_mask_ipv6 p = p\<lparr>p_bytes := apply_mask_bytes 16 (p_len p) (p_bytes p)\<rparr>"

definition apply_mask :: "prefix \<Rightarrow> prefix" where
  "apply_mask p = (if p_family p = AF_INET then apply_mask_ipv4 p
     else if p_family p = AF_INET6 then apply_mask_ipv6 p else p)"

text \<open>The classes of netinet/in.h, on the address in host byte order.\<close>

definition IN_CLASSA :: "u32 \<Rightarrow> bool" where "IN_CLASSA a \<longleftrightarrow> a AND 0x80000000 = 0"
definition IN_CLASSB :: "u32 \<Rightarrow> bool" where "IN_CLASSB a \<longleftrightarrow> a AND 0xc0000000 = 0x80000000"
definition IN_CLASSC :: "u32 \<Rightarrow> bool" where "IN_CLASSC a \<longleftrightarrow> a AND 0xe0000000 = 0xc0000000"

definition ntohl :: "u8 list \<Rightarrow> u32" where
  "ntohl bs = (case rd32 bs of None \<Rightarrow> 0 | Some w \<Rightarrow> w)"

definition apply_classful_mask_ipv4 :: "prefix \<Rightarrow> prefix" where
  "apply_classful_mask_ipv4 p =
     (let destination = ntohl (p_bytes p)
      in if p_len p = 32 then p
         else if IN_CLASSC destination then apply_mask_ipv4 (p\<lparr>p_len := 24\<rparr>)
         else if IN_CLASSB destination then apply_mask_ipv4 (p\<lparr>p_len := 16\<rparr>)
         else apply_mask_ipv4 (p\<lparr>p_len := 8\<rparr>))"

text \<open>Addresses as their four octets: the C operations on \<open>in_addr_t\<close> act on each octet alone.\<close>

definition ipv4_network_addr :: "u8 list \<Rightarrow> nat \<Rightarrow> u8 list run" where
  "ipv4_network_addr hostaddr masklen =
     fbind (masklen2ip masklen) (\<lambda>mask. Inr (map2 (AND) hostaddr mask))"

definition ipv4_broadcast_addr :: "u8 list \<Rightarrow> nat \<Rightarrow> u8 list run" where
  "ipv4_broadcast_addr hostaddr masklen =
     fbind (masklen2ip masklen) (\<lambda>mask.
       Inr (if masklen \<noteq> 31 then map2 (\<lambda>h m. h OR NOT m) hostaddr mask
            else map2 (\<lambda>h m. h XOR NOT m) hostaddr mask))"

section \<open>Strings\<close>

definition all_digit :: "string \<Rightarrow> bool" where
  "all_digit str = list_all isdigit str"

text \<open>\<open>atoi\<close>: white space, a sign, digits; glibc saturates at the bounds of \<open>long\<close>. The cast to
  \<open>u_char\<close> keeps the value modulo 256.\<close>

definition atoi :: "string \<Rightarrow> int" where
  "atoi str =
     (let s = dropWhile isspace str;
          digits = (\<lambda>s. int (undec 0 (takeWhile isdigit s)))
      in case s of
           [] \<Rightarrow> 0
         | c # s' \<Rightarrow> if c = CHR ''-'' then - min (digits s') (2 ^ 63)
                    else if c = CHR ''+'' then min (digits s') (2 ^ 63 - 1)
                    else min (digits s) (2 ^ 63 - 1))"

definition u_char_atoi :: "string \<Rightarrow> nat" where
  "u_char_atoi str = nat (atoi str mod 256)"

definition split_slash :: "string \<Rightarrow> string \<times> string option" where
  "split_slash str =
     (let cp = takeWhile (\<lambda>c. c \<noteq> CHR ''/'') str; pnt = dropWhile (\<lambda>c. c \<noteq> CHR ''/'') str
      in (cp, case pnt of [] \<Rightarrow> None | _ # plen \<Rightarrow> Some plen))"

text \<open>\<open>aton\<close> gives the four octets of a valid address. The result is the return value (as a truth
  value) with the prefix as it is left.\<close>

definition str2prefix_ipv4 :: "(string \<Rightarrow> u8 list option) \<Rightarrow> string \<Rightarrow> prefix \<Rightarrow> bool \<times> prefix" where
  "str2prefix_ipv4 aton str p =
     (let store = (\<lambda>bs p. p\<lparr>p_bytes := bs @ drop 4 (p_bytes p)\<rparr>)
      in case split_slash str of
           (cp, None) \<Rightarrow>
             (case aton cp of
                None \<Rightarrow> (False, p)
              | Some bs \<Rightarrow> (True, (store bs p)\<lparr>p_family := AF_INET, p_len := 32\<rparr>))
         | (cp, Some pnt) \<Rightarrow>
             (let (ret, p) = (case aton cp of None \<Rightarrow> (False, p) | Some bs \<Rightarrow> (True, store bs p));
                  plen = u_char_atoi pnt
              in if 32 < plen then (False, p)
                 else (ret, p\<lparr>p_family := AF_INET, p_len := plen\<rparr>)))"

definition str2prefix_ipv6 :: "(string \<Rightarrow> u8 list option) \<Rightarrow> string \<Rightarrow> prefix \<Rightarrow> bool \<times> prefix" where
  "str2prefix_ipv6 pton str p =
     (case split_slash str of
        (cp, None) \<Rightarrow>
          (case pton cp of
             None \<Rightarrow> (False, p)
           | Some bs \<Rightarrow> (True, p\<lparr>p_bytes := bs, p_len := 128, p_family := AF_INET6\<rparr>))
      | (cp, Some pnt) \<Rightarrow>
          (case pton cp of
             None \<Rightarrow> (False, p)
           | Some bs \<Rightarrow>
               let p = p\<lparr>p_bytes := bs\<rparr>; plen = u_char_atoi pnt
               in if 128 < plen then (False, p)
                  else (True, p\<lparr>p_len := plen, p_family := AF_INET6\<rparr>)))"

definition str2prefix ::
  "(string \<Rightarrow> u8 list option) \<Rightarrow> (string \<Rightarrow> u8 list option) \<Rightarrow> string \<Rightarrow> prefix \<Rightarrow> bool \<times> prefix" where
  "str2prefix aton pton str p =
     (case str2prefix_ipv4 aton str p of
        (True, p) \<Rightarrow> (True, p)
      | (False, p) \<Rightarrow> str2prefix_ipv6 pton str p)"

definition netmask_str2prefix_str ::
  "(string \<Rightarrow> u8 list option) \<Rightarrow> string \<Rightarrow> string option \<Rightarrow> string option" where
  "netmask_str2prefix_str aton net_str mask_str =
     (case aton net_str of
        None \<Rightarrow> None
      | Some network \<Rightarrow>
          let prefixlen =
            (case mask_str of
               Some s \<Rightarrow> map_option ip_masklen (aton s)
             | None \<Rightarrow>
                 let destination = ntohl network
                 in if destination = 0 then Some 0
                    else if IN_CLASSC destination then Some 24
                    else if IN_CLASSB destination then Some 16
                    else if IN_CLASSA destination then Some 8
                    else None)
          in map_option (\<lambda>l. net_str @ ''/'' @ dec l) prefixlen)"

end
