(* ===== verification/BgpTable.thy ===== *)
theory BgpTable
  imports BgpPrefix
begin

text \<open>
  The routing table (bgp\_table.c, bgp\_table.h): a Patricia tree of prefixes, whose nodes carry a
  lock count and the buckets of \<open>bgp_info\<close> chains. The chain of parent pointers is the path from the
  root, so a node is a constructor term; a pointer to a node that callers keep is represented by the
  prefix of the node, which never changes and is unique in the tree. \<open>'i\<close> is the type of the
  \<open>bgp_info\<close> entries.
\<close>

section \<open>Nodes and tables\<close>

datatype 'i bgp_node =
  Tip
| Node (n_p: prefix) (n_lock: u32) (n_info: "'i list list") (l_left: "'i bgp_node") (l_right: "'i bgp_node")

record 'i bgp_table =
  t_afi :: nat
  t_safi :: nat
  t_top :: "'i bgp_node"
  t_count :: nat

text \<open>The fields of \<open>struct bgp_misc_structs\<close> that the table reads.\<close>

definition BGP_ASPATH_HASH_PATHID :: nat where "BGP_ASPATH_HASH_PATHID = 0"
definition BGP_ASPATH_HASH_MPLSVPNRD :: nat where "BGP_ASPATH_HASH_MPLSVPNRD = 1"

record misc_db =
  is_readonly :: bool
  skip_rib :: bool
  has_msglog :: bool
  table_peer_buckets :: nat
  table_per_peer_buckets :: nat
  table_per_peer_hash :: nat

definition bgp_table_init :: "nat \<Rightarrow> nat \<Rightarrow> 'i bgp_table" where
  "bgp_table_init afi safi = \<lparr>t_afi = afi, t_safi = safi, t_top = Tip, t_count = 0\<rparr>"

definition empty_info :: "misc_db \<Rightarrow> 'i list list" where
  "empty_info bms = replicate (table_peer_buckets bms * table_per_peer_buckets bms) []"

definition bgp_node_create :: "misc_db \<Rightarrow> prefix \<Rightarrow> 'i bgp_node" where
  "bgp_node_create bms p = Node p 0 (empty_info bms) Tip Tip"

definition bgp_node_set :: "misc_db \<Rightarrow> prefix \<Rightarrow> 'i bgp_node" where
  "bgp_node_set bms p = bgp_node_create bms (prefix_copy prefix_new p)"

section \<open>Bits of prefixes\<close>

text \<open>\<open>check_bit\<close> of a host prefix of full length looks at the octet behind the address; \<open>stray\<close> is
  what is there.\<close>

definition check_bit :: "u8 list \<Rightarrow> u8 \<Rightarrow> nat \<Rightarrow> bool run" where
  "check_bit p stray prefixlen =
     c_assert (prefixlen \<le> 128)
       (let offset = prefixlen div 8; shift = 7 - prefixlen mod 8
        in Inr (bit (if offset < length p then p ! offset else stray) shift))"

function common_octets :: "u8 list \<Rightarrow> u8 list \<Rightarrow> nat \<Rightarrow> nat \<Rightarrow> nat" where
  "common_octets np pp n i = (if i < n \<and> np ! i = pp ! i then common_octets np pp n (i + 1) else i)"
  by pat_completeness auto
termination by (relation "measure (\<lambda>(np, pp, n, i). n - i)") auto

declare common_octets.simps [simp del]

function common_bits :: "u8 \<Rightarrow> u8 \<Rightarrow> nat \<Rightarrow> nat \<Rightarrow> nat" where
  "common_bits diff m len n =
     (if len < n \<and> m AND diff = 0 then common_bits diff (drop_bit 1 m) (len + 1) n else len)"
  by pat_completeness auto
termination by (relation "measure (\<lambda>(diff, m, len, n). n - len)") auto

declare common_bits.simps [simp del]

definition route_common :: "prefix \<Rightarrow> prefix \<Rightarrow> prefix \<Rightarrow> prefix" where
  "route_common n p new =
     (let np = p_bytes n; pp = p_bytes p;
          i = common_octets np pp (p_len p div 8) 0;
          newp = take i np @ drop i (p_bytes new)
      in if i * 8 \<noteq> p_len p
         then let len = common_bits (np ! i XOR pp ! i) 0x80 (i * 8) (p_len p)
              in new\<lparr>p_len := len, p_bytes := newp[i := np ! i AND maskbit (len mod 8)]\<rparr>
         else new\<lparr>p_len := i * 8, p_bytes := newp\<rparr>)"

section \<open>Locks and links\<close>

definition lock_count :: "misc_db \<Rightarrow> u32 \<Rightarrow> u32" where
  "lock_count bms lk = (if is_readonly bms then lk else lk + 1)"

fun bgp_lock_node :: "misc_db \<Rightarrow> 'i bgp_node \<Rightarrow> 'i bgp_node" where
  "bgp_lock_node bms Tip = Tip"
| "bgp_lock_node bms (Node p lk info l r) = Node p (lock_count bms lk) info l r"

fun set_link :: "u8 \<Rightarrow> 'i bgp_node \<Rightarrow> 'i bgp_node \<Rightarrow> 'i bgp_node run" where
  "set_link stray (Node p lk info l r) new =
     (case new of
        Tip \<Rightarrow> Inl NullDeref
      | Node q _ _ _ _ \<Rightarrow>
          fbind (check_bit (p_bytes q) stray (p_len p)) (\<lambda>b.
            Inr (if b then Node p lk info l new else Node p lk info new r)))"
| "set_link stray Tip new = Inl NullDeref"

text \<open>Going down: is the prefix \<open>p\<close> at or below the node, and is it the node's own?\<close>

definition goes_on :: "prefix \<Rightarrow> prefix \<Rightarrow> bool" where
  "goes_on q p \<longleftrightarrow> p_len q \<le> p_len p \<and> prefix_match q p"

section \<open>Finding or adding a node\<close>

text \<open>The new subtree, the node returned (locked), and what is added to \<open>count\<close>. The first equation
  is the end of the walk at an empty link, the last branch the split of a node by a common prefix.\<close>

fun node_get :: "misc_db \<Rightarrow> u8 \<Rightarrow> 'i bgp_node \<Rightarrow> prefix \<Rightarrow> ('i bgp_node \<times> prefix \<times> nat) run" where
  "node_get bms stray Tip p =
     (let new = bgp_node_set bms p in Inr (bgp_lock_node bms new, n_p new, 1))"
| "node_get bms stray (Node q lk info l r) p =
     (if goes_on q p
      then if p_len q = p_len p then Inr (bgp_lock_node bms (Node q lk info l r), q, 0)
           else fbind (check_bit (p_bytes p) stray (p_len q)) (\<lambda>b.
                if b then fbind (node_get bms stray r p) (\<lambda>(c, k, n). Inr (Node q lk info l c, k, n))
                else fbind (node_get bms stray l p) (\<lambda>(c, k, n). Inr (Node q lk info c r, k, n)))
      else let new = bgp_node_create bms ((route_common q p prefix_new)\<lparr>p_family := p_family p\<rparr>)
           in fbind (set_link stray new (Node q lk info l r)) (\<lambda>new.
              if p_len (n_p new) \<noteq> p_len p
              then let leaf = bgp_lock_node bms (bgp_node_set bms p)
                   in fbind (set_link stray new leaf) (\<lambda>new. Inr (new, n_p leaf, 2))
              else Inr (bgp_lock_node bms new, n_p new, 1)))"

definition bgp_node_get ::
  "misc_db \<Rightarrow> u8 \<Rightarrow> 'i bgp_table \<Rightarrow> prefix \<Rightarrow> ('i bgp_table \<times> prefix) run" where
  "bgp_node_get bms stray table p =
     fbind (node_get bms stray (t_top table) p) (\<lambda>(top, k, n).
       Inr (table\<lparr>t_top := top, t_count := t_count table + n\<rparr>, k))"

section \<open>Unlocking and deleting\<close>

text \<open>The link that takes the place of the node, and whether it was freed (a node with two children
  stays).\<close>

fun bgp_node_delete :: "'i bgp_node \<Rightarrow> ('i bgp_node \<times> bool) run" where
  "bgp_node_delete (Node p lk info l r) =
     c_assert (lk = 0) (c_assert (list_all (\<lambda>c. c = []) info)
       (case (l, r) of
          (Node _ _ _ _ _, Node _ _ _ _ _) \<Rightarrow> Inr (Node p lk info l r, False)
        | (Node _ _ _ _ _, Tip) \<Rightarrow> Inr (l, True)
        | (Tip, _) \<Rightarrow> Inr (r, True)))"
| "bgp_node_delete Tip = Inl NullDeref"

text \<open>A pointer to a node that is not in the tree any more dangles.\<close>

fun node_unlock :: "misc_db \<Rightarrow> u8 \<Rightarrow> 'i bgp_node \<Rightarrow> prefix \<Rightarrow> ('i bgp_node \<times> bool \<times> nat) run" where
  "node_unlock bms stray Tip k = Inl UseAfterFree"
| "node_unlock bms stray (Node q lk info l r) k =
     (if \<not> goes_on q k then Inl UseAfterFree
      else if p_len q = p_len k then
        (if is_readonly bms then Inr (Node q lk info l r, False, 0)
         else if lk - 1 = 0
           then fbind (bgp_node_delete (Node q (lk - 1) info l r)) (\<lambda>(t, del).
                  Inr (t, del, if del then 1 else 0))
           else Inr (Node q (lk - 1) info l r, False, 0))
      else fbind (check_bit (p_bytes k) stray (p_len q)) (\<lambda>b.
           fbind (if b then fbind (node_unlock bms stray r k) (\<lambda>(c, del, n). Inr (Node q lk info l c, del, n))
                  else fbind (node_unlock bms stray l k) (\<lambda>(c, del, n). Inr (Node q lk info c r, del, n)))
             (\<lambda>(t, del, n).
                if del \<and> lk = 0
                then fbind (bgp_node_delete t) (\<lambda>(t', del'). Inr (t', del', if del' then n + 1 else n))
                else Inr (t, False, n))))"

definition bgp_unlock_node :: "misc_db \<Rightarrow> u8 \<Rightarrow> 'i bgp_table \<Rightarrow> prefix \<Rightarrow> 'i bgp_table run" where
  "bgp_unlock_node bms stray table k =
     fbind (node_unlock bms stray (t_top table) k) (\<lambda>(top, _, n).
       Inr (table\<lparr>t_top := top, t_count := t_count table - n\<rparr>))"

fun node_lock :: "misc_db \<Rightarrow> u8 \<Rightarrow> 'i bgp_node \<Rightarrow> prefix \<Rightarrow> 'i bgp_node run" where
  "node_lock bms stray Tip k = Inl UseAfterFree"
| "node_lock bms stray (Node q lk info l r) k =
     (if \<not> goes_on q k then Inl UseAfterFree
      else if p_len q = p_len k then Inr (bgp_lock_node bms (Node q lk info l r))
      else fbind (check_bit (p_bytes k) stray (p_len q)) (\<lambda>b.
             if b then fbind (node_lock bms stray r k) (\<lambda>c. Inr (Node q lk info l c))
             else fbind (node_lock bms stray l k) (\<lambda>c. Inr (Node q lk info c r))))"

section \<open>Longest match\<close>

definition BGP_NODE_VECTOR_MAX_DEPTH :: nat where "BGP_NODE_VECTOR_MAX_DEPTH = 128"

text \<open>The state of the walk: the last match, and the vector of all matches when the caller wants it
  (an array of 128 entries).\<close>

type_synonym 'i match_state = "(prefix \<times> 'i) option \<times> (prefix \<times> 'i) list option"

definition push_match :: "prefix \<Rightarrow> 'i \<Rightarrow> 'i match_state \<Rightarrow> 'i match_state run" where
  "push_match q x st = (case snd st of
     None \<Rightarrow> Inr (Some (q, x), None)
   | Some v \<Rightarrow> if length v < BGP_NODE_VECTOR_MAX_DEPTH then Inr (Some (q, x), Some (v @ [(q, x)]))
               else Inl OutOfBounds)"

fun scan_infos :: "('i \<Rightarrow> bool) \<Rightarrow> bool \<Rightarrow> prefix \<Rightarrow> 'i list \<Rightarrow> 'i match_state \<Rightarrow> 'i match_state run" where
  "scan_infos ok exact q [] st = Inr st"
| "scan_infos ok exact q (x # xs) st =
     (if ok x then fbind (push_match q x st) (\<lambda>st. if exact then Inr st else scan_infos ok exact q xs st)
      else scan_infos ok exact q xs st)"

fun scan_buckets :: "('i \<Rightarrow> bool) \<Rightarrow> bool \<Rightarrow> prefix \<Rightarrow> 'i list list \<Rightarrow> nat \<Rightarrow> nat \<Rightarrow> 'i match_state
    \<Rightarrow> 'i match_state run" where
  "scan_buckets ok exact q info modulo0 0 st = Inr st"
| "scan_buckets ok exact q info modulo0 (Suc n) st =
     (if modulo0 < length info
      then fbind (scan_infos ok exact q (info ! modulo0) st) (scan_buckets ok exact q info (modulo0 + 1) n)
      else Inl OutOfBounds)"

fun node_match :: "('i \<Rightarrow> bool) \<Rightarrow> u8 \<Rightarrow> prefix \<Rightarrow> nat \<Rightarrow> nat \<Rightarrow> 'i bgp_node \<Rightarrow> 'i match_state
    \<Rightarrow> 'i match_state run" where
  "node_match ok stray p modulo0 n Tip st = Inr st"
| "node_match ok stray p modulo0 n (Node q lk info l r) st =
     (if goes_on q p
      then fbind (scan_buckets ok (p_len q = p_len p) q info modulo0 n st) (\<lambda>st.
           fbind (check_bit (p_bytes p) stray (p_len q)) (\<lambda>b.
             node_match ok stray p modulo0 n (if b then r else l) st))
      else Inr st)"

text \<open>How many buckets are looked at.\<close>

definition modulo_idx_max :: "misc_db \<Rightarrow> nat" where
  "modulo_idx_max bms =
     (if table_per_peer_hash bms = BGP_ASPATH_HASH_PATHID then table_per_peer_buckets bms else 1)"

definition match_buckets :: "misc_db \<Rightarrow> nat" where
  "match_buckets bms =
     (if table_per_peer_hash bms = BGP_ASPATH_HASH_PATHID
         \<or> table_per_peer_hash bms = BGP_ASPATH_HASH_MPLSVPNRD
      then table_per_peer_buckets bms else 1)"

text \<open>\<open>modulo_func\<close> gets the number of buckets per peer, \<open>ok\<close> is \<open>cmp_func\<close> returning zero. The node
  found is locked.\<close>

definition bgp_node_match ::
  "misc_db \<Rightarrow> u8 \<Rightarrow> 'i bgp_table \<Rightarrow> prefix \<Rightarrow> (nat \<Rightarrow> nat) option \<Rightarrow> ('i \<Rightarrow> bool) \<Rightarrow> bool
    \<Rightarrow> ('i bgp_table \<times> (prefix \<times> 'i) option \<times> (prefix \<times> 'i) list option) run" where
  "bgp_node_match bms stray table p modulo_func ok bnv =
     (let modulo0 = (case modulo_func of None \<Rightarrow> 0 | Some f \<Rightarrow> f (match_buckets bms))
      in fbind (node_match ok stray p modulo0 (modulo_idx_max bms) (t_top table)
                  (None, if bnv then Some [] else None)) (\<lambda>(found, v).
           case found of
             None \<Rightarrow> Inr (table, None, v)
           | Some (q, x) \<Rightarrow>
               fbind (node_lock bms stray (t_top table) q) (\<lambda>top.
                 Inr (table\<lparr>t_top := top\<rparr>, Some (q, x), v))))"

definition bgp_node_match_ipv4 ::
  "misc_db \<Rightarrow> u8 \<Rightarrow> 'i bgp_table \<Rightarrow> u8 list \<Rightarrow> (nat \<Rightarrow> nat) option \<Rightarrow> ('i \<Rightarrow> bool) \<Rightarrow> bool
    \<Rightarrow> ('i bgp_table \<times> (prefix \<times> 'i) option \<times> (prefix \<times> 'i) list option) run" where
  "bgp_node_match_ipv4 bms stray table addr =
     bgp_node_match bms stray table
       \<lparr>p_family = AF_INET, p_len = 32, p_bytes = addr @ replicate 12 0\<rparr>"

definition bgp_node_match_ipv6 ::
  "misc_db \<Rightarrow> u8 \<Rightarrow> 'i bgp_table \<Rightarrow> u8 list \<Rightarrow> (nat \<Rightarrow> nat) option \<Rightarrow> ('i \<Rightarrow> bool) \<Rightarrow> bool
    \<Rightarrow> ('i bgp_table \<times> (prefix \<times> 'i) option \<times> (prefix \<times> 'i) list option) run" where
  "bgp_node_match_ipv6 bms stray table addr =
     bgp_node_match bms stray table \<lparr>p_family = AF_INET6, p_len = 128, p_bytes = addr\<rparr>"

section \<open>Walking the table\<close>

definition bgp_table_top :: "misc_db \<Rightarrow> 'i bgp_table option \<Rightarrow> ('i bgp_table option \<times> prefix option)" where
  "bgp_table_top bms ptr =
     (case ptr of None \<Rightarrow> (None, None)
      | Some table \<Rightarrow>
          (case t_top table of Tip \<Rightarrow> (Some table, None)
           | Node q lk info l r \<Rightarrow>
               (Some (table\<lparr>t_top := bgp_lock_node bms (Node q lk info l r)\<rparr>), Some q)))"

fun root_p :: "'i bgp_node \<Rightarrow> prefix option" where
  "root_p Tip = None"
| "root_p (Node q _ _ _ _) = Some q"

definition or_else :: "'a option \<Rightarrow> 'a option \<Rightarrow> 'a option" where
  "or_else x y = (case x of None \<Rightarrow> y | Some _ \<Rightarrow> x)"

text \<open>The next node: a child, left before right, or the right child of the nearest ancestor whose
  left subtree the node is in. \<open>up\<close> is what climbing the parent pointers would find.\<close>

fun next_node :: "u8 \<Rightarrow> 'i bgp_node \<Rightarrow> prefix \<Rightarrow> prefix option \<Rightarrow> prefix option run" where
  "next_node stray Tip k up = Inl UseAfterFree"
| "next_node stray (Node q lk info l r) k up =
     (if \<not> goes_on q k then Inl UseAfterFree
      else if p_len q = p_len k then Inr (or_else (root_p l) (or_else (root_p r) up))
      else fbind (check_bit (p_bytes k) stray (p_len q)) (\<lambda>b.
             if b then next_node stray r k up else next_node stray l k (or_else (root_p r) up)))"

definition bgp_route_next ::
  "misc_db \<Rightarrow> u8 \<Rightarrow> 'i bgp_table \<Rightarrow> prefix \<Rightarrow> ('i bgp_table \<times> prefix option) run" where
  "bgp_route_next bms stray table node =
     fbind (next_node stray (t_top table) node None) (\<lambda>next.
     fbind (case next of None \<Rightarrow> Inr table
            | Some k \<Rightarrow> fbind (node_lock bms stray (t_top table) k) (\<lambda>top. Inr (table\<lparr>t_top := top\<rparr>)))
       (\<lambda>table. fbind (bgp_unlock_node bms stray table node) (\<lambda>table. Inr (table, next))))"

text \<open>Freeing the whole tree, children first; \<open>count\<close> goes down with every node.\<close>

fun free_nodes :: "'i bgp_node \<Rightarrow> int \<Rightarrow> int" where
  "free_nodes Tip n = n"
| "free_nodes (Node _ _ _ l r) n = free_nodes r (free_nodes l n) - 1"

definition bgp_table_free :: "'i bgp_table option \<Rightarrow> unit run" where
  "bgp_table_free ptr =
     (case ptr of None \<Rightarrow> Inr ()
      | Some rt \<Rightarrow> c_assert (free_nodes (t_top rt) (int (t_count rt)) = 0) (Inr ()))"

end
