(* ===== verification/PrefixFacts.thy ===== *)
theory PrefixFacts
  imports BgpPrefix
begin

text \<open>
  Prefixes as bit strings. \<open>p_bits\<close> is the network part of a prefix; matching is the prefix order on
  bit strings, masking cuts the address to it, and the two netmask conversions are inverse.
\<close>

section \<open>The bits of an address\<close>

definition octet_bits :: "u8 \<Rightarrow> bool list" where
  "octet_bits b = map (\<lambda>i. bit b (7 - i)) [0..<8]"

definition bits :: "u8 list \<Rightarrow> bool list" where
  "bits bs = concat (map octet_bits bs)"

definition p_bits :: "prefix \<Rightarrow> bool list" where
  "p_bits p = take (p_len p) (bits (p_bytes p))"

lemma length_octet_bits [simp]: "length (octet_bits b) = 8"
  by (simp add: octet_bits_def)

lemma bits_simps [simp]: "bits [] = []" "bits (b # bs) = octet_bits b @ bits bs"
  "bits (xs @ ys) = bits xs @ bits ys"
  by (simp_all add: bits_def)

lemma length_bits [simp]: "length (bits bs) = 8 * length bs"
  by (induction bs) simp_all

lemma nth_bits: "i < 8 * length bs \<Longrightarrow> bits bs ! i = bit (bs ! (i div 8)) (7 - i mod 8)"
proof (induction bs arbitrary: i)
  case (Cons b bs)
  show ?case
  proof (cases "i < 8")
    case True
    then show ?thesis by (simp add: nth_append octet_bits_def)
  next
    case False
    then have "bits (b # bs) ! i = bits bs ! (i - 8)" by (simp add: nth_append)
    also have "\<dots> = bit (bs ! ((i - 8) div 8)) (7 - (i - 8) mod 8)"
      using Cons False by simp
    finally have "bits (b # bs) ! i = bit (bs ! ((i - 8) div 8)) (7 - (i - 8) mod 8)" .
    moreover have "(i - 8) div 8 = i div 8 - 1" "(i - 8) mod 8 = i mod 8" "i div 8 \<noteq> 0"
      using False by (simp_all add: le_div_geq le_mod_geq)
    ultimately show ?thesis by (simp add: nth_Cons')
  qed
qed simp

lemma length_p_bits: "prefix_ok p \<Longrightarrow> length (p_bits p) = p_len p"
  by (simp add: p_bits_def prefix_ok_def)

section \<open>The mask of the last octet\<close>

lemma maskbit_push: "s \<le> 8 \<Longrightarrow> maskbit s = push_bit (8 - s) (mask s)"
proof -
  assume "s \<le> 8"
  then consider "s = 0" | "s = 1" | "s = 2" | "s = 3" | "s = 4" | "s = 5" | "s = 6" | "s = 7" | "s = 8"
    by linarith
  then show ?thesis
    by cases (simp_all add: maskbit_def mask_eq_exp_minus_1 push_bit_eq_mult)
qed

lemma bit_maskbit: "s \<le> 8 \<Longrightarrow> i < 8 \<Longrightarrow> bit (maskbit s) i \<longleftrightarrow> 8 - s \<le> i"
  by (auto simp: maskbit_push bit_push_bit_iff bit_mask_iff)

lemma u8_eq_iff: "(x :: u8) = y \<longleftrightarrow> (\<forall>i < 8. bit x i = bit y i)"
  by (auto intro!: bit_word_eqI)

lemma all_bits_rev: "(\<forall>i < (8 :: nat). P i) \<longleftrightarrow> (\<forall>j < 8. P (7 - j))"
proof
  assume r: "\<forall>j < (8 :: nat). P (7 - j)"
  show "\<forall>i < (8 :: nat). P i"
  proof (intro allI impI)
    fix i :: nat
    assume "i < 8"
    then have "7 - (7 - i) = i" "7 - i < 8" by auto
    with r show "P i" by metis
  qed
qed auto

lemma mask_diff:
  assumes "s \<le> 8"
  shows "maskbit s AND (x XOR y) = 0 \<longleftrightarrow> (\<forall>j < s. bit x (7 - j) = bit y (7 - j))"
proof -
  have "maskbit s AND (x XOR y) = 0 \<longleftrightarrow> (\<forall>i < 8. 8 - s \<le> i \<longrightarrow> bit x i = bit y i)"
    using assms by (auto simp: u8_eq_iff [of _ 0] bit_and_iff bit_xor_iff bit_maskbit)
  also have "\<dots> \<longleftrightarrow> (\<forall>j < 8. 8 - s \<le> 7 - j \<longrightarrow> bit x (7 - j) = bit y (7 - j))"
    by (rule all_bits_rev)
  also have "\<dots> \<longleftrightarrow> (\<forall>j < s. bit x (7 - j) = bit y (7 - j))"
    using assms by (auto simp: Suc_diff_le dest: less_le_trans)
  finally show ?thesis .
qed

section \<open>Matching\<close>

lemma same_octets_iff: "same_octets np pp n \<longleftrightarrow> (\<forall>i < n. np ! i = pp ! i)"
  by (induction n) (auto simp: less_Suc_eq)

lemma take_eq_iff_nth:
  "n \<le> length xs \<Longrightarrow> n \<le> length ys \<Longrightarrow> take n xs = take n ys \<longleftrightarrow> (\<forall>i < n. xs ! i = ys ! i)"
  by (auto simp: list_eq_iff_nth_eq)

lemma all_below_split8:
  "(\<forall>i < (n :: nat). P (i div 8) (i mod 8))
    \<longleftrightarrow> (\<forall>k < n div 8. \<forall>j < 8. P k j) \<and> (\<forall>j < n mod 8. P (n div 8) j)" (is "?l \<longleftrightarrow> ?r")
proof
  assume l: ?l
  have d: "(8 * k + j) div 8 = k" "(8 * k + j) mod 8 = j" if "j < 8" for k j :: nat
    using that by auto
  show ?r
  proof (intro conjI allI impI)
    fix k j :: nat
    assume a: "k < n div 8" "j < 8"
    then have "8 * k + j < n" by linarith
    with l d [OF a(2), of k] show "P k j" by metis
  next
    fix j :: nat
    assume a: "j < n mod 8"
    then have j: "j < 8" by (meson less_trans mod_less_divisor zero_less_numeral)
    have "8 * (n div 8) + j < n" using a mult_div_mod_eq [of 8 n] by linarith
    with l d [OF j, of "n div 8"] show "P (n div 8) j" by metis
  qed
next
  assume r: ?r
  show ?l
  proof (intro allI impI)
    fix i :: nat
    assume i: "i < n"
    show "P (i div 8) (i mod 8)"
    proof (cases "i div 8 < n div 8")
      case True
      with r show ?thesis by simp
    next
      case False
      then have "i div 8 = n div 8" using i by (meson div_le_mono le_neq_implies_less less_imp_le)
      moreover from this have "i mod 8 < n mod 8"
        using i by (metis add_less_cancel_left mult_div_mod_eq)
      ultimately show ?thesis using r by simp
    qed
  qed
qed

lemma same_network_bits:
  assumes "length np = 16" "length pp = 16" "len \<le> 128"
  shows "same_network len np pp \<longleftrightarrow> take len (bits np) = take len (bits pp)"
proof -
  have "take len (bits np) = take len (bits pp) \<longleftrightarrow> (\<forall>i < len. bits np ! i = bits pp ! i)"
    using assms by (intro take_eq_iff_nth) auto
  also have "\<dots> \<longleftrightarrow> (\<forall>i < len. bit (np ! (i div 8)) (7 - i mod 8) = bit (pp ! (i div 8)) (7 - i mod 8))"
    using assms by (auto simp: nth_bits)
  also have "\<dots> \<longleftrightarrow> (\<forall>k < len div 8. \<forall>j < 8. bit (np ! k) (7 - j) = bit (pp ! k) (7 - j))
      \<and> (\<forall>j < len mod 8. bit (np ! (len div 8)) (7 - j) = bit (pp ! (len div 8)) (7 - j))"
    by (rule all_below_split8)
  also have "\<dots> \<longleftrightarrow> same_octets np pp (len div 8)
      \<and> maskbit (len mod 8) AND (np ! (len div 8) XOR pp ! (len div 8)) = 0"
  proof -
    have "(\<forall>j < 8. bit x (7 - j) = bit y (7 - j)) \<longleftrightarrow> x = y" for x y :: u8
      unfolding u8_eq_iff using all_bits_rev [of "\<lambda>i. bit x i = bit y i"] by simp
    then show ?thesis by (simp add: same_octets_iff mask_diff less_imp_le)
  qed
  also have "\<dots> \<longleftrightarrow> same_network len np pp"
    by (auto simp: same_network_def Let_def maskbit_def)
  finally show ?thesis by simp
qed

lemma prefix_match_bits:
  assumes "prefix_ok n" "prefix_ok p"
  shows "prefix_match n p \<longleftrightarrow> Sublist.prefix (p_bits n) (p_bits p)"
proof (cases "p_len p < p_len n")
  case True
  then have "\<not> Sublist.prefix (p_bits n) (p_bits p)"
    using prefix_length_le length_p_bits [OF assms(1)] length_p_bits [OF assms(2)]
    by (metis not_le)
  with True show ?thesis by (simp add: prefix_match_def)
next
  case False
  have "same_network (p_len n) (p_bytes n) (p_bytes p)
      \<longleftrightarrow> take (p_len n) (bits (p_bytes n)) = take (p_len n) (bits (p_bytes p))"
    using assms by (intro same_network_bits) (auto simp: prefix_ok_def)
  also have "take (p_len n) (bits (p_bytes p)) = take (p_len n) (p_bits p)"
    using False by (simp add: p_bits_def min_def)
  also have "take (p_len n) (bits (p_bytes n)) = take (p_len n) (p_bits p)
      \<longleftrightarrow> Sublist.prefix (p_bits n) (p_bits p)"
    using length_p_bits [OF assms(1)] by (metis p_bits_def append_eq_conv_conj prefix_def)
  finally show ?thesis using False by (simp add: prefix_match_def)
qed

lemma prefix_cmp_bits:
  assumes "prefix_ok p1" "prefix_ok p2"
  shows "\<not> prefix_cmp p1 p2 \<longleftrightarrow> p_family p1 = p_family p2 \<and> p_bits p1 = p_bits p2"
proof -
  have "same_network (p_len p1) (p_bytes p1) (p_bytes p2)
      \<longleftrightarrow> take (p_len p1) (bits (p_bytes p1)) = take (p_len p1) (bits (p_bytes p2))"
    using assms by (intro same_network_bits) (auto simp: prefix_ok_def)
  note sn = this
  show ?thesis
  proof (cases "p_len p1 = p_len p2")
    case True
    then show ?thesis unfolding prefix_cmp_def sn p_bits_def by simp
  next
    case False
    then have "p_bits p1 \<noteq> p_bits p2"
      using length_p_bits [OF assms(1)] length_p_bits [OF assms(2)] by metis
    with False show ?thesis by (simp add: prefix_cmp_def)
  qed
qed

section \<open>Netmasks\<close>

lemma octet_bits_maskbit: "s \<le> 8 \<Longrightarrow> octet_bits (maskbit s) = replicate s True @ replicate (8 - s) False"
  by (rule nth_equalityI) (auto simp: octet_bits_def bit_maskbit nth_append)

lemma octet_bits_consts: "octet_bits 0 = replicate 8 False" "octet_bits 255 = replicate 8 True"
proof -
  have "maskbit 0 = 0" "maskbit 8 = 255" by (simp_all add: maskbit_def)
  then show "octet_bits 0 = replicate 8 False" "octet_bits 255 = replicate 8 True"
    using octet_bits_maskbit [of 0] octet_bits_maskbit [of 8] by simp_all
qed

lemma bits_replicate:
  "bits (replicate k 0) = replicate (8 * k) False" "bits (replicate k 255) = replicate (8 * k) True"
  by (induction k) (simp_all add: octet_bits_consts flip: replicate_add)

lemma masklen2bytes_ok:
  assumes "len \<le> 8 * n"
  shows "\<exists>m. masklen2bytes n len = Inr m \<and> length m = n
    \<and> bits m = replicate len True @ replicate (8 * n - len) False"
proof (cases "len mod 8 = 0")
  case True
  then obtain k where k: "len = 8 * k" by auto
  then have "k \<le> n" using assms by simp
  then show ?thesis
    using k by (auto simp: masklen2bytes_def Let_def bits_replicate diff_mult_distrib2)
next
  case False
  let ?k = "len div 8" and ?s = "len mod 8"
  have len: "len = 8 * ?k + ?s" by simp
  have "0 < ?s" using False by simp
  then have k: "Suc ?k \<le> n" using assms len by linarith
  have s: "?s \<le> 8" by (simp add: less_imp_le)
  have "bits (replicate ?k 255 @ [maskbit ?s] @ replicate (n - Suc ?k) 0)
      = replicate (8 * ?k) True @ (replicate ?s True @ replicate (8 - ?s) False)
        @ replicate (8 * (n - Suc ?k)) False"
    by (simp add: bits_replicate octet_bits_maskbit [OF s])
  also have "\<dots> = replicate (8 * ?k + ?s) True @ replicate ((8 - ?s) + 8 * (n - Suc ?k)) False"
    by (simp only: replicate_add append_assoc)
  also have "(8 - ?s) + 8 * (n - Suc ?k) = 8 * n - len"
    using k s len by (simp add: diff_mult_distrib2)
  finally show ?thesis
    using False k by (simp add: masklen2bytes_def Let_def)
qed

lemma masklen2bytes_overrun: "8 * n < len \<Longrightarrow> masklen2bytes n len = Inl OutOfBounds"
proof -
  assume "8 * n < len"
  moreover have "len mod 8 < 8" "len = 8 * (len div 8) + len mod 8" by simp_all
  ultimately have "n < len div 8 + (if len mod 8 \<noteq> 0 then 1 else 0)"
    by (auto split: if_splits; linarith)
  then show ?thesis by (auto simp: masklen2bytes_def Let_def)
qed

lemma shift_count_numeral:
  "shift_count (numeral k) val
    = (if val = 0 then 0 else Suc (shift_count (pred_numeral k) (push_bit 1 val)))"
  by (simp add: numeral_eq_Suc)

lemma shift_count_maskbit: "s \<le> 8 \<Longrightarrow> shift_count 8 (maskbit s) = s"
proof -
  assume "s \<le> 8"
  then consider "s = 0" | "s = 1" | "s = 2" | "s = 3" | "s = 4" | "s = 5" | "s = 6" | "s = 7" | "s = 8"
    by linarith
  then show ?thesis
    by cases (simp_all add: maskbit_def shift_count_numeral)
qed

lemma maskbit_not_ones: "s < 8 \<Longrightarrow> maskbit s \<noteq> 255"
proof
  assume "s < 8" "maskbit s = 255"
  then have "maskbit s = maskbit 8" by (simp add: maskbit_def)
  with shift_count_maskbit [of s] shift_count_maskbit [of 8] \<open>s < 8\<close> show False by simp
qed

declare shift_count.simps [simp del]

lemma ip_masklen_form:
  "s < 8 \<Longrightarrow> ip_masklen (replicate k 255 @ maskbit s # r) = 8 * k + s"
  by (induction k) (simp_all add: shift_count_maskbit maskbit_not_ones)

lemma ip_masklen_ones: "ip_masklen (replicate k 255) = 8 * k"
  by (induction k) simp_all

lemma masklen2bytes_form:
  assumes "masklen2bytes n len = Inr m"
  shows "m = replicate n 255 \<and> len = 8 * n
    \<or> (\<exists>k s r. s < 8 \<and> m = replicate k 255 @ maskbit s # r \<and> len = 8 * k + s \<and> k < n)"
proof (cases "len = 8 * n")
  case True
  with assms show ?thesis by (auto simp: masklen2bytes_def Let_def)
next
  case False
  moreover have "\<not> 8 * n < len" using assms masklen2bytes_overrun by fastforce
  ultimately have lt: "len div 8 < n" by (simp add: div_less_iff_less_mult)
  let ?r = "replicate (n - Suc (len div 8)) 0"
  have "m = replicate (len div 8) 255 @ maskbit (len mod 8) # ?r"
  proof (cases "len mod 8 = 0")
    case True
    have "n - len div 8 = Suc (n - Suc (len div 8))" using lt by simp
    then show ?thesis using assms True lt by (auto simp: masklen2bytes_def Let_def maskbit_def)
  next
    case False
    then show ?thesis using assms lt by (auto simp: masklen2bytes_def Let_def)
  qed
  with lt show ?thesis
    by (intro disjI2 exI [of _ "len div 8"] exI [of _ "len mod 8"] exI [of _ ?r]) auto
qed

lemma ip_masklen_roundtrip: "masklen2ip len = Inr m \<Longrightarrow> ip_masklen m = len"
  using masklen2bytes_form [of 4 len m]
  by (auto simp: masklen2ip_def ip_masklen_form ip_masklen_ones)

lemma ip6_loop_form:
  "s < 8 \<Longrightarrow> len + 8 * k < 128 \<Longrightarrow>
     ip6_masklen_loop (replicate k 255 @ maskbit s # r) stray len = len + 8 * k + s"
  by (induction k arbitrary: len) (simp_all add: shift_count_maskbit maskbit_not_ones)

lemma ip6_loop_ones:
  "len + 8 * k = 128 \<Longrightarrow> ip6_masklen_loop (replicate k 255) stray len = 128"
  by (induction k arbitrary: len) simp_all

lemma ip6_masklen_roundtrip: "masklen2ip6 len = Inr m \<Longrightarrow> ip6_masklen m stray = len"
  using masklen2bytes_form [of 16 len m] ip6_loop_ones [of 0 16 stray]
  by (auto simp: masklen2ip6_def ip6_masklen_def ip6_loop_form)

section \<open>Masking addresses\<close>

lemma octet_bits_and: "octet_bits (x AND y) = map2 (\<and>) (octet_bits x) (octet_bits y)"
  by (rule nth_equalityI) (auto simp: octet_bits_def bit_and_iff)

lemma octet_bits_or_not: "octet_bits (x OR NOT y) = map2 (\<lambda>a m. a \<or> \<not> m) (octet_bits x) (octet_bits y)"
  by (rule nth_equalityI) (auto simp: octet_bits_def bit_or_iff bit_not_iff)

lemma octet_bits_xor_not: "octet_bits (x XOR NOT y) = map2 (=) (octet_bits x) (octet_bits y)"
  by (rule nth_equalityI) (auto simp: octet_bits_def bit_xor_iff bit_not_iff)

lemma bits_map2:
  assumes "\<And>x y. octet_bits (f x y) = map2 g (octet_bits x) (octet_bits y)"
  shows "length xs = length ys \<Longrightarrow> bits (map2 f xs ys) = map2 g (bits xs) (bits ys)"
  by (induction xs ys rule: list_induct2) (simp_all add: assms)

lemma map2_mask:
  "len \<le> length as \<Longrightarrow> n = length as - len \<Longrightarrow>
     map2 g as (replicate len True @ replicate n False)
       = map (\<lambda>a. g a True) (take len as) @ map (\<lambda>a. g a False) (drop len as)"
  by (rule nth_equalityI) (auto simp: nth_append min_def)

lemma network_addr_bits:
  assumes "length host = 4" "len \<le> 32"
  shows "\<exists>net. ipv4_network_addr host len = Inr net
    \<and> bits net = take len (bits host) @ replicate (32 - len) False"
proof -
  from masklen2bytes_ok [of len 4] assms(2) obtain m where m: "masklen2ip len = Inr m" "length m = 4"
    "bits m = replicate len True @ replicate (32 - len) False"
    by (auto simp: masklen2ip_def)
  have "bits (map2 (AND) host m) = map2 (\<and>) (bits host) (bits m)"
    using assms(1) m(2) by (intro bits_map2 octet_bits_and) simp
  also have "\<dots> = take len (bits host) @ replicate (32 - len) False"
    unfolding m(3) using assms
    by (subst map2_mask) (auto simp: map_replicate_const)
  finally show ?thesis using m(1) by (simp add: ipv4_network_addr_def)
qed

lemma broadcast_addr_bits:
  assumes "length host = 4" "len \<le> 32"
  shows "\<exists>bc. ipv4_broadcast_addr host len = Inr bc
    \<and> bits bc = take len (bits host)
        @ (if len = 31 then map Not (drop 31 (bits host)) else replicate (32 - len) True)"
proof -
  from masklen2bytes_ok [of len 4] assms(2) obtain m where m: "masklen2ip len = Inr m" "length m = 4"
    "bits m = replicate len True @ replicate (32 - len) False"
    by (auto simp: masklen2ip_def)
  show ?thesis
  proof (cases "len = 31")
    case True
    have "bits (map2 (\<lambda>h m. h XOR NOT m) host m) = map2 (=) (bits host) (bits m)"
      using assms(1) m(2) by (intro bits_map2 octet_bits_xor_not) simp
    also have "\<dots> = take len (bits host) @ map Not (drop len (bits host))"
      unfolding m(3) using assms by (subst map2_mask) auto
    finally show ?thesis using m(1) True by (simp add: ipv4_broadcast_addr_def)
  next
    case False
    have "bits (map2 (\<lambda>h m. h OR NOT m) host m) = map2 (\<lambda>a m. a \<or> \<not> m) (bits host) (bits m)"
      using assms(1) m(2) by (intro bits_map2 octet_bits_or_not) simp
    also have "\<dots> = take len (bits host) @ replicate (32 - len) True"
      unfolding m(3) using assms by (subst map2_mask) (auto simp: map_replicate_const)
    finally show ?thesis using m(1) False by (simp add: ipv4_broadcast_addr_def)
  qed
qed

lemma apply_mask_bits:
  assumes "len \<le> 8 * n" "n \<le> length bs"
  shows "bits (apply_mask_bytes n len bs)
    = take len (bits bs) @ replicate (8 * n - len) False @ bits (drop n bs)"
    and "length (apply_mask_bytes n len bs) = length bs"
proof -
  have tb: "take (8 * k) (bits bs) = bits (take k bs)" if "k \<le> length bs" for k
    using that
  proof (induction k arbitrary: bs)
    case (Suc k)
    then show ?case by (cases bs) auto
  qed simp
  show "length (apply_mask_bytes n len bs) = length bs"
    using assms by (auto simp: apply_mask_bytes_def Let_def)
  show "bits (apply_mask_bytes n len bs)
    = take len (bits bs) @ replicate (8 * n - len) False @ bits (drop n bs)"
  proof (cases "len div 8 < n")
    case True
    let ?k = "len div 8" and ?s = "len mod 8"
    have len: "len = 8 * ?k + ?s" by simp
    have s: "?s \<le> 8" by (simp add: less_imp_le)
    have bs: "bs = take ?k bs @ bs ! ?k # drop (Suc ?k) bs"
      using True assms(2) by (simp add: id_take_nth_drop)
    have "octet_bits (bs ! ?k AND maskbit ?s) = take ?s (octet_bits (bs ! ?k)) @ replicate (8 - ?s) False"
      unfolding octet_bits_and octet_bits_maskbit [OF s] using s
      by (subst map2_mask) (auto simp: map_replicate_const)
    then have "bits (apply_mask_bytes n len bs) = bits (take ?k bs) @ take ?s (octet_bits (bs ! ?k))
        @ (replicate (8 - ?s) False @ replicate (8 * (n - Suc ?k)) False) @ bits (drop n bs)"
      using True by (simp add: apply_mask_bytes_def Let_def bits_replicate)
    moreover have "take len (bits bs) = bits (take ?k bs) @ take ?s (octet_bits (bs ! ?k))"
    proof -
      have "bits bs = bits (take ?k bs) @ octet_bits (bs ! ?k) @ bits (drop (Suc ?k) bs)"
        by (subst bs) simp
      moreover have "length (bits (take ?k bs)) = 8 * ?k" using True assms(2) by simp
      ultimately show ?thesis by (simp add: minus_mult_div_eq_mod)
    qed
    moreover have "8 * n - len = (8 - ?s) + 8 * (n - Suc ?k)"
      using True s len by (simp add: diff_mult_distrib2)
    then have "replicate (8 * n - len) False
        = replicate (8 - ?s) False @ replicate (8 * (n - Suc ?k)) False"
      by (simp only: replicate_add)
    ultimately show ?thesis by simp
  next
    case False
    then have l: "len = 8 * n" using assms(1) by simp
    have "bits bs = bits (take n bs) @ bits (drop n bs)"
      by (metis append_take_drop_id bits_simps(3))
    moreover have "length (bits (take n bs)) = 8 * n" using assms(2) by simp
    ultimately show ?thesis using False l tb [OF assms(2)] by (simp add: apply_mask_bytes_def)
  qed
qed

lemma apply_mask_p_bits:
  assumes "prefix_ok p" "p_family p = AF_INET \<Longrightarrow> p_len p \<le> 32"
  shows "p_bits (apply_mask p) = p_bits p" "prefix_ok (apply_mask p)"
proof -
  have "bits (p_bytes (apply_mask_ipv4 p)) = take (p_len p) (bits (p_bytes p))
      @ replicate (32 - p_len p) False @ bits (drop 4 (p_bytes p))" if "p_len p \<le> 32"
    using apply_mask_bits(1) [of "p_len p" 4 "p_bytes p"] assms(1) that
    by (simp add: apply_mask_ipv4_def prefix_ok_def)
  moreover have "bits (p_bytes (apply_mask_ipv6 p)) = take (p_len p) (bits (p_bytes p))
      @ replicate (128 - p_len p) False @ bits (drop 16 (p_bytes p))"
    using apply_mask_bits(1) [of "p_len p" 16 "p_bytes p"] assms(1)
    by (simp add: apply_mask_ipv6_def prefix_ok_def)
  moreover have "p_len (apply_mask p) = p_len p" "p_len (apply_mask_ipv4 p) = p_len p"
    "p_len (apply_mask_ipv6 p) = p_len p"
    by (simp_all add: apply_mask_def apply_mask_ipv4_def apply_mask_ipv6_def)
  moreover have "length (p_bytes p) = 16" "p_len p \<le> 128" using assms(1) by (simp_all add: prefix_ok_def)
  ultimately show "p_bits (apply_mask p) = p_bits p"
    using assms(2) by (auto simp: apply_mask_def p_bits_def)
  show "prefix_ok (apply_mask p)"
    using assms apply_mask_bits(2) [of "p_len p" 4 "p_bytes p"]
      apply_mask_bits(2) [of "p_len p" 16 "p_bytes p"]
    by (auto simp: apply_mask_def apply_mask_ipv4_def apply_mask_ipv6_def prefix_ok_def)
qed

section \<open>Reading a prefix\<close>

lemma u_char_atoi_dec:
  assumes "n < 2 ^ 63"
  shows "u_char_atoi (dec n) = n mod 256"
proof -
  obtain c ds where d: "dec n = c # ds" by (cases "dec n") auto
  have c: "isdigit c" using dec_digits [of c n] by (simp add: d)
  then have "\<not> isspace c" "c \<noteq> CHR ''-''" "c \<noteq> CHR ''+''"
    using isdigit_not_isspace by (auto simp: isdigit_def)
  moreover have "takeWhile isdigit (dec n) = dec n" by (simp add: takeWhile_eq_all_conv dec_digits)
  ultimately have "atoi (dec n) = min (int (undec 0 (dec n))) (2 ^ 63 - 1)"
    by (simp add: atoi_def d)
  also have "\<dots> = int n" using assms by (simp add: undec_dec)
  finally show ?thesis by (simp add: u_char_atoi_def nat_mod_distrib)
qed

lemma split_slash_at: "CHR ''/'' \<notin> set cp \<Longrightarrow> split_slash (cp @ CHR ''/'' # plen) = (cp, Some plen)"
  by (induction cp) (auto simp: split_slash_def)

lemma str2prefix_ipv4_len:
  assumes "CHR ''/'' \<notin> set cp" "aton cp = Some bs" "n < 2 ^ 63"
  shows "str2prefix_ipv4 aton (cp @ CHR ''/'' # dec n) p
    = (let q = p\<lparr>p_bytes := bs @ drop 4 (p_bytes p)\<rparr>
       in if n mod 256 \<le> 32 then (True, q\<lparr>p_family := AF_INET, p_len := n mod 256\<rparr>) else (False, q))"
  using assms by (simp add: str2prefix_ipv4_def split_slash_at u_char_atoi_dec Let_def)

end
