(* ===== verification/RouteCommon.thy ===== *)
theory RouteCommon
  imports BgpTable PrefixFacts
begin

text \<open>
  \<open>route_common\<close> computes the longest common prefix of two bit strings, octet by octet and then bit
  by bit; \<open>check_bit\<close> reads one bit. Everything the tree needs to know of octets and masks is here.
\<close>

section \<open>The loops\<close>

lemma common_octets_spec:
  "i \<le> n \<Longrightarrow> i \<le> common_octets np pp n i \<and> common_octets np pp n i \<le> n
    \<and> (\<forall>j. i \<le> j \<longrightarrow> j < common_octets np pp n i \<longrightarrow> np ! j = pp ! j)
    \<and> (common_octets np pp n i < n \<longrightarrow> np ! common_octets np pp n i \<noteq> pp ! common_octets np pp n i)"
proof (induction np pp n i rule: common_octets.induct)
  case (1 np pp n i)
  show ?case
  proof (cases "i < n \<and> np ! i = pp ! i")
    case True
    then have "common_octets np pp n i = common_octets np pp n (i + 1)"
      by (subst common_octets.simps) simp
    moreover have "j = i \<or> i + 1 \<le> j" if "i \<le> j" for j using that by auto
    ultimately show ?thesis using 1 True by (metis Suc_eq_plus1 Suc_leD Suc_leI)
  next
    case False
    then have "common_octets np pp n i = i" by (subst common_octets.simps) auto
    with 1(2) False show ?thesis by auto
  qed
qed

lemma bit_80: "bit (drop_bit j (0x80 :: u8)) i \<longleftrightarrow> i + j = 7"
proof -
  have "(0x80 :: u8) = 2 ^ 7" by simp
  then show ?thesis by (simp only: bit_drop_bit_eq bit_exp_iff comp_def) auto
qed

definition probe :: "nat \<Rightarrow> u8" where
  "probe j = drop_bit j 0x80"

lemma probe_0: "0x80 = probe 0"
  by (simp add: probe_def)

lemma probe_step: "drop_bit 1 (probe j) = probe (j + 1)"
  unfolding probe_def drop_bit_drop_bit by (simp only: add.commute)

lemma probe_and: "probe j AND diff = 0 \<longleftrightarrow> (j \<le> 7 \<longrightarrow> \<not> bit diff (7 - j))"
proof -
  have "probe j AND diff = 0 \<longleftrightarrow> (\<forall>i < 8. i + j = 7 \<longrightarrow> \<not> bit diff i)"
    by (auto simp: u8_eq_iff [of _ 0] bit_and_iff bit_80 probe_def)
  also have "\<dots> \<longleftrightarrow> (j \<le> 7 \<longrightarrow> \<not> bit diff (7 - j))"
    by (auto simp: le_diff_conv) (metis add_diff_cancel_right')
  finally show ?thesis .
qed

lemma common_bits_probe:
  "b + j \<le> n \<Longrightarrow> \<exists>k. common_bits diff (probe j) (b + j) n = b + k \<and> j \<le> k \<and> b + k \<le> n
    \<and> (\<forall>t. j \<le> t \<longrightarrow> t < k \<longrightarrow> t \<le> 7 \<longrightarrow> \<not> bit diff (7 - t))
    \<and> (b + k < n \<longrightarrow> k \<le> 7 \<and> bit diff (7 - k))"
proof (induction "n - (b + j)" arbitrary: j)
  case 0
  then have "b + j = n" by simp
  then show ?case by (intro exI [of _ j]) (simp add: common_bits.simps)
next
  case (Suc x)
  show ?case
  proof (cases "probe j AND diff = 0")
    case True
    have lt: "b + j < n" using Suc(2) by simp
    have "common_bits diff (probe j) (b + j) n = common_bits diff (drop_bit 1 (probe j)) (b + j + 1) n"
      using True lt by (subst common_bits.simps) simp
    then have "common_bits diff (probe j) (b + j) n = common_bits diff (probe (j + 1)) (b + (j + 1)) n"
      unfolding probe_step by (simp only: add.assoc)
    moreover obtain k where "common_bits diff (probe (j + 1)) (b + (j + 1)) n = b + k" "j + 1 \<le> k"
      "b + k \<le> n" "\<forall>t. j + 1 \<le> t \<longrightarrow> t < k \<longrightarrow> t \<le> 7 \<longrightarrow> \<not> bit diff (7 - t)"
      "b + k < n \<longrightarrow> k \<le> 7 \<and> bit diff (7 - k)"
      using Suc(1) [of "j + 1"] Suc(2) lt by force
    moreover have "j \<le> 7 \<longrightarrow> \<not> bit diff (7 - j)" using True by (simp add: probe_and)
    moreover have "j = t \<or> j + 1 \<le> t" if "j \<le> t" for t using that by auto
    ultimately show ?thesis by (intro exI [of _ k]) (metis Suc_eq_plus1 Suc_leD)
  next
    case False
    then have "common_bits diff (probe j) (b + j) n = b + j"
      by (subst common_bits.simps) simp
    moreover have "j \<le> 7 \<and> bit diff (7 - j)" using False by (simp add: probe_and)
    ultimately show ?thesis using Suc.prems by (intro exI [of _ j]) simp
  qed
qed

lemma common_bits_spec:
  "b \<le> n \<Longrightarrow> \<exists>k. common_bits diff 0x80 b n = b + k \<and> b + k \<le> n
    \<and> (\<forall>t. t < k \<longrightarrow> t \<le> 7 \<longrightarrow> \<not> bit diff (7 - t))
    \<and> (b + k < n \<longrightarrow> k \<le> 7 \<and> bit diff (7 - k))"
  using common_bits_probe [of b 0 n diff] unfolding probe_0 [symmetric] by simp

section \<open>The common prefix\<close>

lemma lcp_take:
  "L \<le> length xs \<Longrightarrow> L \<le> length ys \<Longrightarrow> take L xs = take L ys \<Longrightarrow>
     (L < length ys \<Longrightarrow> L < length xs \<and> xs ! L \<noteq> ys ! L) \<Longrightarrow>
     longest_common_prefix xs ys = take L xs"
proof (induction L arbitrary: xs ys)
  case 0
  then show ?case by (cases xs; cases ys) auto
next
  case (Suc L)
  then obtain x xs' ys' where "xs = x # xs'" "ys = x # ys'"
    by (cases xs; cases ys) auto
  with Suc show ?case by auto
qed

lemma nth_bits_octet:
  "length bs = 16 \<Longrightarrow> k < 16 \<Longrightarrow> t < 8 \<Longrightarrow> bits bs ! (8 * k + t) = bit (bs ! k) (7 - t)"
  by (subst nth_bits) auto

text \<open>Where the two loops stop: after \<open>i\<close> equal octets and \<open>k\<close> equal bits of the next one.\<close>

lemma route_common_stop:
  assumes "prefix_ok n" "prefix_ok p"
  shows "\<exists>i k. p_len (route_common n p new) = 8 * i + k \<and> k \<le> 7 \<and> 8 * i + k \<le> p_len p
    \<and> i = common_octets (p_bytes n) (p_bytes p) (p_len p div 8) 0
    \<and> (\<forall>j < i. p_bytes n ! j = p_bytes p ! j)
    \<and> (\<forall>t < k. bit (p_bytes n ! i) (7 - t) = bit (p_bytes p ! i) (7 - t))
    \<and> (8 * i + k < p_len p \<longrightarrow> bit (p_bytes n ! i) (7 - k) \<noteq> bit (p_bytes p ! i) (7 - k))"
proof -
  let ?np = "p_bytes n" and ?pp = "p_bytes p" and ?m = "p_len p div 8"
  define i where "i = common_octets ?np ?pp ?m 0"
  have i: "i \<le> ?m" "\<forall>j < i. ?np ! j = ?pp ! j" "i < ?m \<Longrightarrow> ?np ! i \<noteq> ?pp ! i"
    using common_octets_spec [of 0 ?m ?np ?pp] by (auto simp: i_def)
  show ?thesis
  proof (cases "8 * i = p_len p")
    case True
    then have "p_len (route_common n p new) = 8 * i"
      by (simp add: route_common_def Let_def mult.commute flip: i_def)
    with True i(2) show ?thesis
      by (intro exI [of _ i] exI [of _ 0]) (simp add: i_def)
  next
    case False
    let ?d = "?np ! i XOR ?pp ! i"
    have le: "8 * i \<le> p_len p" using i(1) by linarith
    have L: "p_len (route_common n p new) = common_bits ?d 0x80 (8 * i) (p_len p)"
      using False by (simp add: route_common_def Let_def mult.commute flip: i_def)
    from common_bits_spec [of "8 * i" "p_len p" ?d] le obtain k where
      k: "common_bits ?d 0x80 (8 * i) (p_len p) = 8 * i + k" "8 * i + k \<le> p_len p"
      "\<forall>t. t < k \<longrightarrow> t \<le> 7 \<longrightarrow> \<not> bit ?d (7 - t)" "8 * i + k < p_len p \<Longrightarrow> k \<le> 7 \<and> bit ?d (7 - k)"
      by auto
    have k7: "k \<le> 7"
    proof (cases "8 * i + k < p_len p")
      case True
      then show ?thesis using k(4) by simp
    next
      case False
      then have eq: "8 * i + k = p_len p" using k(2) by simp
      show ?thesis
      proof (cases "i < ?m")
        case True
        then have "?np ! i \<noteq> ?pp ! i" by (rule i(3))
        then obtain u where u: "u < 8" "bit (?np ! i) u \<noteq> bit (?pp ! i) u"
          by (auto simp: u8_eq_iff)
        then have "bit ?d (7 - (7 - u))" by (simp add: bit_xor_iff)
        then have "\<not> 7 - u < k" using k(3) by (meson diff_le_self)
        then show ?thesis by simp
      next
        case False
        then have "i = ?m" using i(1) by simp
        then have "k = p_len p mod 8" using eq by (metis add_left_cancel mult_div_mod_eq)
        then show ?thesis by (simp add: less_Suc_eq_le [symmetric])
      qed
    qed
    have b: "bit ?d (7 - t) \<longleftrightarrow> bit (?np ! i) (7 - t) \<noteq> bit (?pp ! i) (7 - t)" for t
      by (simp add: bit_xor_iff)
    show ?thesis
      using L k k7 i(2) by (intro exI [of _ i] exI [of _ k]) (auto simp: b i_def [symmetric])
  qed
qed

lemma route_common_take:
  fixes n p new :: prefix
  assumes "prefix_ok n" "prefix_ok p"
  defines "L \<equiv> p_len (route_common n p new)"
  shows "L \<le> p_len p" "take L (bits (p_bytes n)) = take L (bits (p_bytes p))"
    "L < p_len p \<Longrightarrow> bits (p_bytes n) ! L \<noteq> bits (p_bytes p) ! L"
proof -
  let ?np = "p_bytes n" and ?pp = "p_bytes p"
  from route_common_stop [OF assms(1,2), of new] obtain i k where
    L: "L = 8 * i + k" "k \<le> 7" "L \<le> p_len p"
    and oct: "\<forall>j < i. ?np ! j = ?pp ! j" and eq: "\<forall>t < k. bit (?np ! i) (7 - t) = bit (?pp ! i) (7 - t)"
    and diff: "L < p_len p \<Longrightarrow> bit (?np ! i) (7 - k) \<noteq> bit (?pp ! i) (7 - k)"
    unfolding L_def by auto
  have len: "length ?np = 16" "length ?pp = 16" "p_len p \<le> 128" using assms by (simp_all add: prefix_ok_def)
  have d: "L div 8 = i" "L mod 8 = k" using L by auto
  show "L \<le> p_len p" by (rule L(3))
  have "\<forall>x < L. bit (?np ! (x div 8)) (7 - x mod 8) = bit (?pp ! (x div 8)) (7 - x mod 8)"
    using oct eq unfolding all_below_split8 [of L "\<lambda>a b. bit (?np ! a) (7 - b) = bit (?pp ! a) (7 - b)"] d
    by auto
  then show "take L (bits ?np) = take L (bits ?pp)"
    using len L(3) by (subst take_eq_iff_nth) (auto simp: nth_bits)
  show "bits ?np ! L \<noteq> bits ?pp ! L" if "L < p_len p"
    using diff [OF that] that len d by (subst (1 2) nth_bits) auto
qed

lemma route_common_ok:
  assumes "prefix_ok n" "prefix_ok p" "length (p_bytes new) = 16"
  shows "prefix_ok (route_common n p new)"
    and "p_bits (route_common n p new) = longest_common_prefix (bits (p_bytes n)) (p_bits p)"
proof -
  let ?np = "p_bytes n" and ?pp = "p_bytes p" and ?c = "route_common n p new"
  note T = route_common_take [OF assms(1,2), of new]
  from route_common_stop [OF assms(1,2), of new] obtain i k where
    L: "p_len ?c = 8 * i + k" "k \<le> 7" "8 * i + k \<le> p_len p"
    and i: "i = common_octets ?np ?pp (p_len p div 8) 0"
    by auto
  have len: "length ?np = 16" "length ?pp = 16" "p_len p \<le> 128"
    using assms by (simp_all add: prefix_ok_def)
  have i16: "i \<le> 16" using L(3) len(3) by linarith
  show ok: "prefix_ok ?c"
    using T(1) len i16 assms(3) by (auto simp: prefix_ok_def route_common_def Let_def min_def simp flip: i)
  have "take (p_len ?c) (bits (p_bytes ?c)) = take (p_len ?c) (bits ?np)"
  proof (cases "8 * i = p_len p")
    case True
    then have "p_bytes ?c = take i ?np @ drop i (p_bytes new)" "p_len ?c = 8 * i"
      by (simp_all add: route_common_def Let_def mult.commute flip: i)
    moreover have "bits ?np = bits (take i ?np) @ bits (drop i ?np)"
      by (metis append_take_drop_id bits_simps(3))
    ultimately show ?thesis using i16 len(1) by simp
  next
    case False
    have byt: "p_bytes ?c = (take i ?np @ drop i (p_bytes new))[i := ?np ! i AND maskbit k]"
      using False L(1,2) by (simp add: route_common_def Let_def mult.commute flip: i)
    have i15: "i < 16" using False L len(3) by linarith
    have "\<forall>x < p_len ?c. bit (p_bytes ?c ! (x div 8)) (7 - x mod 8) = bit (?np ! (x div 8)) (7 - x mod 8)"
    proof -
      have d: "p_len ?c div 8 = i" "p_len ?c mod 8 = k" using L by auto
      have "p_bytes ?c ! j = ?np ! j" if "j < i" for j
        using that i15 len(1) assms(3) by (simp add: byt nth_append)
      moreover have "bit (p_bytes ?c ! i) (7 - t) = bit (?np ! i) (7 - t)" if "t < k" for t
        using that i15 len(1) assms(3) L(2) by (auto simp: byt bit_and_iff bit_maskbit)
      ultimately show ?thesis
        unfolding all_below_split8 [of "p_len ?c" "\<lambda>a b. bit (p_bytes ?c ! a) (7 - b) = bit (?np ! a) (7 - b)"] d
        by auto
    qed
    then show ?thesis
      using ok len T(1) by (subst take_eq_iff_nth) (auto simp: nth_bits prefix_ok_def)
  qed
  moreover have "longest_common_prefix (bits ?np) (p_bits p) = take (p_len ?c) (bits ?np)"
  proof (rule lcp_take)
    have lp: "length (p_bits p) = p_len p" using assms(2) by (rule length_p_bits)
    show "p_len ?c \<le> length (bits ?np)" "p_len ?c \<le> length (p_bits p)" using T(1) len lp by auto
    show "take (p_len ?c) (bits ?np) = take (p_len ?c) (p_bits p)"
      using T(1,2) by (simp add: p_bits_def min_def)
    assume "p_len ?c < length (p_bits p)"
    then show "p_len ?c < length (bits ?np) \<and> bits ?np ! p_len ?c \<noteq> p_bits p ! p_len ?c"
      using T(3) lp len by (simp add: p_bits_def)
  qed
  ultimately show "p_bits ?c = longest_common_prefix (bits ?np) (p_bits p)"
    by (simp add: p_bits_def)
qed

text \<open>The case in which the tree calls it: \<open>n\<close> is not a prefix of \<open>p\<close>.\<close>

lemma lcp_of_not_prefix:
  assumes "prefix_ok n" "\<not> Sublist.prefix (p_bits n) ys"
  shows "longest_common_prefix (bits (p_bytes n)) ys = longest_common_prefix (p_bits n) ys"
    and "length (longest_common_prefix (p_bits n) ys) < p_len n"
proof -
  have gen: "length (longest_common_prefix (take m xs) ys) < m
      \<and> longest_common_prefix xs ys = longest_common_prefix (take m xs) ys"
    if "\<not> Sublist.prefix (take m xs) ys" "m \<le> length xs" for m and xs ys :: "bool list"
    using that
  proof (induction m arbitrary: xs ys)
    case (Suc m)
    then obtain x xs' where "xs = x # xs'" by (cases xs) auto
    with Suc show ?case by (cases ys) auto
  qed simp
  have "p_len n \<le> length (bits (p_bytes n))" using assms(1) by (simp add: prefix_ok_def)
  with gen [of "p_len n" "bits (p_bytes n)" ys] assms(2)
  show "longest_common_prefix (bits (p_bytes n)) ys = longest_common_prefix (p_bits n) ys"
    "length (longest_common_prefix (p_bits n) ys) < p_len n"
    by (simp_all add: p_bits_def)
qed

section \<open>Single bits\<close>

lemma check_bit_ok:
  assumes "prefix_ok p" "i < p_len p"
  shows "check_bit (p_bytes p) stray i = Inr (p_bits p ! i)"
  using assms by (auto simp: check_bit_def prefix_ok_def Let_def p_bits_def nth_bits)

lemma check_bit_returns: "i \<le> 128 \<Longrightarrow> \<exists>b. check_bit bs stray i = Inr b"
  by (simp add: check_bit_def Let_def)

lemma lcp_next_differ:
  "longest_common_prefix xs ys = zs \<Longrightarrow> length zs < length xs \<Longrightarrow> length zs < length ys \<Longrightarrow>
     xs ! length zs \<noteq> ys ! length zs"
  by (induction xs ys arbitrary: zs rule: longest_common_prefix.induct) (auto split: if_splits)

lemma prefix_snoc_nth:
  "Sublist.prefix xs ys \<Longrightarrow> length xs < length ys \<Longrightarrow> Sublist.prefix (xs @ [ys ! length xs]) ys"
  by (auto simp: prefix_def nth_append) (metis append_Cons append_Nil hd_Cons_tl hd_conv_nth)

lemma prefix_nth: "Sublist.prefix (xs @ [b]) ys \<Longrightarrow> ys ! length xs = b"
  by (auto simp: prefix_def nth_append)

end
