(* ===== verification/TableFacts.thy ===== *)
theory TableFacts
  imports RouteCommon
begin

text \<open>
  What the tree stands for. \<open>rib t\<close> is the finite map from networks (bit strings) to lock count and
  buckets; the nodes with lock count zero, which \<open>bgp_node_get\<close> creates to split an edge, are not in it.
  \<open>patricia\<close> is the invariant of the tree, and every operation is one on the map.
\<close>

section \<open>Abstraction and invariant\<close>

fun rib :: "'i bgp_node \<Rightarrow> bool list \<Rightarrow> (u32 \<times> 'i list list) option" where
  "rib Tip ks = None"
| "rib (Node q lk info l r) ks =
     (if ks = p_bits q then (if lk = 0 then None else Some (lk, info))
      else if Sublist.prefix (p_bits q @ [True]) ks then rib r ks
      else if Sublist.prefix (p_bits q @ [False]) ks then rib l ks
      else None)"

text \<open>The keys below a link extend the key above it by the bit of the link; a node nobody holds is a
  stub: it has no entries and two children.\<close>

fun patricia :: "misc_db \<Rightarrow> bool list \<Rightarrow> 'i bgp_node \<Rightarrow> bool" where
  "patricia bms xs Tip = True"
| "patricia bms xs (Node q lk info l r) =
     (prefix_ok q \<and> Sublist.prefix xs (p_bits q) \<and> length info = length (empty_info bms :: 'i list list)
      \<and> (lk = 0 \<longrightarrow> info = empty_info bms \<and> l \<noteq> Tip \<and> r \<noteq> Tip)
      \<and> patricia bms (p_bits q @ [False]) l \<and> patricia bms (p_bits q @ [True]) r)"

fun num_nodes :: "'i bgp_node \<Rightarrow> nat" where
  "num_nodes Tip = 0"
| "num_nodes (Node q lk info l r) = num_nodes l + num_nodes r + 1"

definition table_ok :: "misc_db \<Rightarrow> 'i bgp_table \<Rightarrow> bool" where
  "table_ok bms table \<longleftrightarrow> patricia bms [] (t_top table) \<and> t_count table = num_nodes (t_top table)"

text \<open>What the callers pass: an IPv4 prefix of at most 32 bits or an IPv6 prefix.\<close>

definition prefix_wf :: "prefix \<Rightarrow> bool" where
  "prefix_wf p \<longleftrightarrow> prefix_ok p \<and> (p_family p = AF_INET \<and> p_len p \<le> 32 \<or> p_family p = AF_INET6)"

text \<open>\<open>apply_mask\<close> clears the host bits: the network bits stay, every bit of the address after them is
  zero, and what lies behind an IPv4 address is not touched.\<close>

lemma apply_mask_clears:
  assumes "prefix_wf p"
  defines "n \<equiv> (if p_family p = AF_INET then 4 else 16)"
  shows "prefix_wf (apply_mask p) \<and> p_bits (apply_mask p) = p_bits p
    \<and> bits (p_bytes (apply_mask p))
      = p_bits p @ replicate (8 * n - p_len p) False @ bits (drop n (p_bytes p))"
proof -
  have p: "length (p_bytes p) = 16" "p_len p \<le> 128" "p_family p = AF_INET \<Longrightarrow> p_len p \<le> 32"
    "p_family p = AF_INET \<or> p_family p = AF_INET6"
    using assms by (auto simp: prefix_wf_def prefix_ok_def AF_INET_def AF_INET6_def)
  have keep: "p_family (apply_mask p) = p_family p" "p_len (apply_mask p) = p_len p"
    by (simp_all add: apply_mask_def apply_mask_ipv4_def apply_mask_ipv6_def)
  note M = apply_mask_p_bits [of p]
  have "prefix_wf (apply_mask p)" "p_bits (apply_mask p) = p_bits p"
    using M p assms(1) keep by (auto simp: prefix_wf_def)
  moreover have "p_bytes (apply_mask p) = apply_mask_bytes n (p_len p) (p_bytes p)"
    using p(4) by (auto simp: apply_mask_def apply_mask_ipv4_def apply_mask_ipv6_def n_def
        AF_INET_def AF_INET6_def)
  moreover have "p_len p \<le> 8 * n" "n \<le> length (p_bytes p)" using p by (auto simp: n_def)
  ultimately show ?thesis by (simp add: apply_mask_bits(1) p_bits_def)
qed

lemma prefix_wf_ok [simp]: "prefix_wf p \<Longrightarrow> prefix_ok p"
  by (simp add: prefix_wf_def)

lemma prefix_copy_bits:
  assumes "prefix_wf p"
  shows "p_bits (prefix_copy prefix_new p) = p_bits p" "prefix_ok (prefix_copy prefix_new p)"
    "p_len (prefix_copy prefix_new p) = p_len p"
proof -
  have len: "length (p_bytes p) = 16" using assms by (simp add: prefix_wf_def prefix_ok_def)
  have "take (p_len p) (bits (take 4 (p_bytes p) @ zs)) = take (p_len p) (bits (p_bytes p))"
    if "p_len p \<le> 32" for zs
  proof -
    have "bits (p_bytes p) = bits (take 4 (p_bytes p)) @ bits (drop 4 (p_bytes p))"
      by (metis append_take_drop_id bits_simps(3))
    then show ?thesis using that len by simp
  qed
  then show "p_bits (prefix_copy prefix_new p) = p_bits p"
    using assms len by (auto simp: prefix_wf_def prefix_copy_def p_bits_def prefix_ok_def AF_INET_def AF_INET6_def)
  show "prefix_ok (prefix_copy prefix_new p)" "p_len (prefix_copy prefix_new p) = p_len p"
    using assms len by (auto simp: prefix_wf_def prefix_ok_def prefix_copy_def prefix_new_def
        AF_INET_def AF_INET6_def)
qed

section \<open>One step down\<close>

lemma prefix_snocD: "Sublist.prefix (xs @ [b]) ys \<Longrightarrow> Sublist.prefix xs ys"
  by (rule append_prefixD)

lemma prefix_snoc_unique:
  "Sublist.prefix (xs @ [b]) ys \<Longrightarrow> Sublist.prefix (xs @ [c]) ys \<Longrightarrow> b = c"
  by (auto dest!: prefix_nth)

lemma prefix_snoc_neq: "Sublist.prefix (xs @ [b]) ys \<Longrightarrow> ys \<noteq> xs"
  by auto

lemma rib_below [simp]:
  "Sublist.prefix (p_bits q @ [b]) ks \<Longrightarrow> rib (Node q lk info l r) ks = rib (if b then r else l) ks"
  using prefix_snoc_unique [of "p_bits q" False ks True] by (auto simp del: prefix_snoc dest: prefix_snoc_neq)

lemma rib_prefix: "patricia bms xs t \<Longrightarrow> rib t ks = Some x \<Longrightarrow> Sublist.prefix xs ks"
proof (induction t arbitrary: xs)
  case (Node q lk info l r)
  from Node.prems Node.IH(1) [of "p_bits q @ [False]"] Node.IH(2) [of "p_bits q @ [True]"]
  show ?case by (auto split: if_splits dest: prefix_snocD prefix_order.trans)
qed simp

lemma patricia_mono: "patricia bms ys t \<Longrightarrow> Sublist.prefix xs ys \<Longrightarrow> patricia bms xs t"
  by (cases t) (auto intro: prefix_order.trans)

lemma patricia_self: "patricia bms xs (Node q lk info l r) \<Longrightarrow> patricia bms (p_bits q) (Node q lk info l r)"
  by simp

lemma goes_on_bits:
  "prefix_ok q \<Longrightarrow> prefix_ok p \<Longrightarrow> goes_on q p \<longleftrightarrow> Sublist.prefix (p_bits q) (p_bits p)"
  using prefix_match_bits [of q p] prefix_length_le [of "p_bits q" "p_bits p"]
  by (auto simp: goes_on_def length_p_bits)

lemma walk_cases:
  assumes "prefix_ok q" "prefix_ok p"
  obtains (same) "goes_on q p" "p_len q = p_len p" "p_bits q = p_bits p"
  | (down) b where "goes_on q p" "p_len q \<noteq> p_len p" "p_len q < p_len p"
      "check_bit (p_bytes p) stray (p_len q) = Inr b" "Sublist.prefix (p_bits q @ [b]) (p_bits p)"
  | (off) "\<not> goes_on q p" "\<not> Sublist.prefix (p_bits q) (p_bits p)"
proof -
  note len = length_p_bits [OF assms(1)] length_p_bits [OF assms(2)]
  consider "\<not> goes_on q p" | "goes_on q p" "p_len q = p_len p" | "goes_on q p" "p_len q < p_len p"
    by (metis goes_on_def le_neq_implies_less)
  then show thesis
  proof cases
    case 1
    then show ?thesis using off goes_on_bits [OF assms] by blast
  next
    case 2
    then show ?thesis
      using same goes_on_bits [OF assms] len by (metis not_equal_is_parallel parallelD1)
  next
    case 3
    then have "check_bit (p_bytes p) stray (p_len q) = Inr (p_bits p ! p_len q)"
      using check_bit_ok [OF assms(2)] by blast
    moreover have "Sublist.prefix (p_bits q @ [p_bits p ! p_len q]) (p_bits p)"
      using prefix_snoc_nth [of "p_bits q" "p_bits p"] 3 goes_on_bits [OF assms] len by simp
    ultimately show ?thesis using 3 by (intro down [of "p_bits p ! p_len q"]) simp_all
  qed
qed

section \<open>Getting a node\<close>

definition bump :: "misc_db \<Rightarrow> (u32 \<times> 'i list list) option \<Rightarrow> u32 \<times> 'i list list" where
  "bump bms e = (case e of None \<Rightarrow> (1, empty_info bms) | Some (lk, info) \<Rightarrow> (lk + 1, info))"

definition lock_room :: "(u32 \<times> 'i list list) option \<Rightarrow> bool" where
  "lock_room e \<longleftrightarrow> (case e of None \<Rightarrow> True | Some (lk, info) \<Rightarrow> lk + 1 \<noteq> 0)"

definition get_ok where
  "get_ok bms xs t p res \<longleftrightarrow> (\<exists>t' k n. res = Inr (t', k, n) \<and> patricia bms xs t' \<and> t' \<noteq> Tip
     \<and> prefix_ok k \<and> p_bits k = p_bits p \<and> num_nodes t' = num_nodes t + n
     \<and> rib t' = (rib t)(p_bits p \<mapsto> bump bms (rib t (p_bits p))))"

lemma set_link_bit:
  "check_bit (p_bytes k) stray (p_len c) = Inr b \<Longrightarrow>
     set_link stray (Node c lk info l r) (Node k lk' info' l' r')
       = Inr (if b then Node c lk info l (Node k lk' info' l' r') else Node c lk info (Node k lk' info' l' r') r)"
  by simp

lemma rib_not_below:
  "patricia bms xs t \<Longrightarrow> \<not> Sublist.prefix xs ks \<Longrightarrow> rib t ks = None"
  using rib_prefix [of bms xs t ks] by (cases "rib t ks") auto

lemma rib_branches:
  assumes "\<And>ks. \<not> Sublist.prefix (p_bits c @ [False]) ks \<Longrightarrow> rib l ks = None"
    and "\<And>ks. \<not> Sublist.prefix (p_bits c @ [True]) ks \<Longrightarrow> rib r ks = None"
  shows "rib (Node c lk info l r) ks
    = (if ks = p_bits c then if lk = 0 then None else Some (lk, info) else or_else (rib l ks) (rib r ks))"
  using assms prefix_snoc_unique [of "p_bits c" True ks False]
  by (auto simp: or_else_def simp del: prefix_snoc split: option.splits)

lemma get_tip:
  assumes "prefix_wf p" "Sublist.prefix xs (p_bits p)" "\<not> is_readonly bms"
  shows "get_ok bms xs Tip p (node_get bms stray Tip p)"
  using assms prefix_copy_bits [OF assms(1)]
  by (auto simp: get_ok_def bgp_node_set_def bgp_node_create_def lock_count_def bump_def fun_eq_iff)

lemma get_split:
  fixes info :: "'i list list"
  defines "t \<equiv> \<lambda>q lk info l r. Node q lk (info :: 'i list list) l r"
  assumes inv: "patricia bms xs (Node q lk info l r)" and p: "prefix_wf p" "Sublist.prefix xs (p_bits p)"
    and rw: "\<not> is_readonly bms" and off: "\<not> goes_on q p" "\<not> Sublist.prefix (p_bits q) (p_bits p)"
  shows "get_ok bms xs (Node q lk info l r) p (node_get bms stray (Node q lk info l r) p)"
proof -
  let ?t = "Node q lk info l r"
  define c where "c = (route_common q p prefix_new)\<lparr>p_family := p_family p\<rparr>"
  define z where "z = longest_common_prefix (p_bits q) (p_bits p)"
  have ok: "prefix_ok q" "prefix_ok p" using inv p by simp_all
  note len = length_p_bits [OF ok(1)] length_p_bits [OF ok(2)]
  note lcp = lcp_of_not_prefix [OF ok(1) off(2)]
  have new: "length (p_bytes prefix_new) = 16" by (simp add: prefix_new_def)
  have c: "prefix_ok c" "p_bits c = z"
    using route_common_ok [OF ok new] lcp(1) by (simp_all add: c_def z_def prefix_ok_def p_bits_def)
  then have lz: "p_len c = length z" using length_p_bits [of c] by simp
  have zq: "Sublist.prefix z (p_bits q)" "Sublist.prefix z (p_bits p)" "length z < length (p_bits q)"
    using lcp(2) len unfolding z_def by (simp_all add: longest_common_prefix_prefix1 longest_common_prefix_prefix2)
  have xz: "Sublist.prefix xs z"
    unfolding z_def using inv p(2) by (simp add: longest_common_prefix_max_prefix)
  define b where "b = p_bits q ! length z"
  have qb: "Sublist.prefix (z @ [b]) (p_bits q)" unfolding b_def by (rule prefix_snoc_nth [OF zq(1,3)])
  have cb: "check_bit (p_bytes q) stray (p_len c) = Inr b"
    using check_bit_ok [OF ok(1)] zq(3) len by (simp add: lz b_def)
  have tree: "patricia bms (z @ [b]) ?t"
    using patricia_mono [OF patricia_self [OF inv] qb] .
  have only: "rib ?t ks = None" if "\<not> Sublist.prefix (z @ [b]) ks" for ks
    using rib_not_below [OF tree that] .
  have none: "rib ?t (p_bits p) = None"
    using rib_not_below [OF patricia_self [OF inv] off(2)] .
  show ?thesis
  proof (cases "length z = p_len p")
    case True
    then have zp: "z = p_bits p" using zq(2) len by (metis not_equal_is_parallel parallelD1)
    let ?c = "\<lambda>lk. if b then Node c lk (empty_info bms) Tip ?t else Node c lk (empty_info bms) ?t Tip"
    have "node_get bms stray ?t p = Inr (?c 1, c, 1)"
      using off(1) True cb rw
      by (simp add: bgp_node_create_def lock_count_def lz flip: c_def)
    moreover have "patricia bms xs (?c 1)" using c xz tree by (cases b) (simp_all del: patricia.simps add: patricia.simps(1) patricia.simps(2) [of _ _ c])
    moreover have "rib (?c 1) ks = ((rib ?t)(p_bits p \<mapsto> bump bms (rib ?t (p_bits p)))) ks" for ks
      using only none rib_branches [of c Tip ?t 1 "empty_info bms" ks] rib_branches [of c ?t Tip 1 "empty_info bms" ks]
      by (cases b) (auto simp: c zp [symmetric] bump_def or_else_def simp del: rib.simps(2) split: option.splits)
    ultimately show ?thesis using c zp by (auto simp: get_ok_def fun_eq_iff simp del: fun_upd_apply)
  next
    case False
    define d where "d = p_bits p ! length z"
    have lt: "length z < length (p_bits p)"
      using False zq(2) len prefix_length_le by fastforce
    have pd: "Sublist.prefix (z @ [d]) (p_bits p)" unfolding d_def by (rule prefix_snoc_nth [OF zq(2) lt])
    have bd: "d = (\<not> b)"
      using lcp_next_differ [OF z_def [symmetric] zq(3) lt] by (simp add: b_def d_def)
    define k where "k = prefix_copy prefix_new p"
    have k: "p_bits k = p_bits p" "prefix_ok k" "p_len k = p_len p"
      unfolding k_def by (rule prefix_copy_bits [OF p(1)])+
    have cd: "check_bit (p_bytes k) stray (p_len c) = Inr d"
      using check_bit_ok [OF k(2)] lt len by (simp add: lz d_def k)
    let ?k = "Node k 1 (empty_info bms) Tip Tip"
    let ?c = "if b then Node c 0 (empty_info bms) ?k ?t else Node c 0 (empty_info bms) ?t ?k"
    have "node_get bms stray ?t p = Inr (?c, k, 2)"
      using off(1) False cb cd rw bd
      by (simp add: bgp_node_create_def bgp_node_set_def lock_count_def lz flip: c_def k_def)
    moreover have "patricia bms xs ?c" using c xz tree k pd bd
      by (cases b) (simp_all del: patricia.simps prefix_snoc add: patricia.simps(1) patricia.simps(2) [of _ _ c] patricia.simps(2) [of _ _ k])
    moreover have kk: "rib ?k ks = (if ks = p_bits p then Some (1, empty_info bms) else None)" for ks
      by (simp add: k)
    moreover have "rib ?c ks = ((rib ?t)(p_bits p \<mapsto> bump bms (rib ?t (p_bits p)))) ks" for ks
    proof -
      have ko: "rib ?k ks = None" if "\<not> Sublist.prefix (z @ [d]) ks" for ks
        using that pd by (subst kk) auto
      have "rib ?c ks = (if ks = z then None else or_else (rib ?k ks) (rib ?t ks))"
      proof (cases b)
        case True
        have "rib (Node c 0 (empty_info bms) ?k ?t) ks = (if ks = p_bits c then if (0 :: u32) = 0
            then None else Some (0, empty_info bms) else or_else (rib ?k ks) (rib ?t ks))"
          using True only ko bd by (intro rib_branches) (simp_all add: c del: rib.simps prefix_snoc)
        with True show ?thesis by (simp add: c del: rib.simps)
      next
        case False
        have "or_else (rib ?t ks) (rib ?k ks) = or_else (rib ?k ks) (rib ?t ks)"
          using none by (simp add: kk or_else_def del: rib.simps split: option.splits)
        moreover have "rib (Node c 0 (empty_info bms) ?t ?k) ks = (if ks = p_bits c then if (0 :: u32) = 0
            then None else Some (0, empty_info bms) else or_else (rib ?t ks) (rib ?k ks))"
          using False only ko bd by (intro rib_branches) (simp_all add: c del: rib.simps prefix_snoc)
        ultimately show ?thesis using False by (simp add: c del: rib.simps)
      qed
      moreover have "rib ?t z = None" "z \<noteq> p_bits p" using only lt by auto
      ultimately show ?thesis using none by (simp add: kk or_else_def bump_def del: rib.simps)
    qed
    ultimately show ?thesis using c k by (auto simp: get_ok_def fun_eq_iff simp del: fun_upd_apply)
  qed
qed

lemma node_get_ok:
  assumes "patricia bms xs t" "prefix_wf p" "Sublist.prefix xs (p_bits p)" "\<not> is_readonly bms"
    and "lock_room (rib t (p_bits p))"
  shows "get_ok bms xs t p (node_get bms stray t p)"
  using assms
proof (induction t arbitrary: xs)
  case Tip
  then show ?case by (intro get_tip)
next
  case (Node q lk info l r)
  then have ok: "prefix_ok q" "prefix_ok p" by simp_all
  from ok show ?case
  proof (cases rule: walk_cases [where stray = stray])
    case same
    have "lk + 1 \<noteq> 0" using Node.prems(5) same by (cases "lk = 0") (auto simp: lock_room_def)
    with same Node.prems show ?thesis
      by (auto simp: get_ok_def lock_count_def bump_def fun_eq_iff)
  next
    case (down b)
    define c where "c = (if b then r else l)"
    have below: "rib (Node q lk info l r) (p_bits p) = rib c (p_bits p)"
      unfolding c_def by (rule rib_below [OF down(5)])
    have "patricia bms (p_bits q @ [b]) c" using Node.prems(1) by (cases b) (simp_all add: c_def)
    then have "get_ok bms (p_bits q @ [b]) c p (node_get bms stray c p)"
      using Node.IH Node.prems(2,4,5) down(5) unfolding below by (cases b) (simp_all add: c_def)
    then obtain t' k n where c': "node_get bms stray c p = Inr (t', k, n)" "patricia bms (p_bits q @ [b]) t'"
      "t' \<noteq> Tip" "prefix_ok k" "p_bits k = p_bits p" "num_nodes t' = num_nodes c + n"
      "rib t' = (rib c)(p_bits p \<mapsto> bump bms (rib c (p_bits p)))"
      by (auto simp: get_ok_def)
    let ?t = "if b then Node q lk info l t' else Node q lk info t' r"
    have "node_get bms stray (Node q lk info l r) p = Inr (?t, k, n)"
      using down c'(1) by (cases b) (simp_all add: c_def)
    moreover have "patricia bms xs ?t" "num_nodes ?t = num_nodes (Node q lk info l r) + n"
      using Node.prems c' by (auto simp: c_def)
    moreover have "rib ?t ks = ((rib (Node q lk info l r))
        (p_bits p \<mapsto> bump bms (rib (Node q lk info l r) (p_bits p)))) ks" for ks
      using c'(7) down(5) prefix_snoc_unique [of "p_bits q" True ks False] by (cases b) (auto simp: c_def)
    ultimately show ?thesis using c' by (auto simp: get_ok_def fun_eq_iff simp del: fun_upd_apply)
  next
    case off
    with Node.prems show ?thesis by (intro get_split)
  qed
qed

section \<open>Unlocking a node\<close>

definition drop_lock :: "u32 \<times> 'i list list \<Rightarrow> (u32 \<times> 'i list list) option" where
  "drop_lock e = (if fst e = 1 then None else Some (fst e - 1, snd e))"

definition unlock_ok where
  "unlock_ok bms xs t k res \<longleftrightarrow> (\<exists>t' del n. res = Inr (t', del, n) \<and> patricia bms xs t'
     \<and> (\<not> del \<longrightarrow> t' \<noteq> Tip) \<and> num_nodes t' + n = num_nodes t
     \<and> rib t' = (rib t)(p_bits k := Option.bind (rib t (p_bits k)) drop_lock))"

lemma rib_other_branch:
  "patricia bms (p_bits q @ [b]) t \<Longrightarrow> rib t (p_bits q) = None"
  using rib_prefix [of bms "p_bits q @ [b]" t "p_bits q"] by (cases "rib t (p_bits q)") (auto dest: prefix_length_le)

text \<open>A stub with one child is replaced by the child.\<close>

lemma delete_ok:
  assumes "patricia bms (p_bits q @ [False]) l" "patricia bms (p_bits q @ [True]) r" "prefix_ok q"
    "Sublist.prefix xs (p_bits q)"
  shows "\<exists>t' del. bgp_node_delete (Node q 0 (empty_info bms) l r) = Inr (t', del) \<and> patricia bms xs t'
    \<and> (\<not> del \<longrightarrow> t' \<noteq> Tip) \<and> num_nodes t' + (if del then 1 else 0) = num_nodes l + num_nodes r + 1
    \<and> rib t' = rib (Node q 0 (empty_info bms) l r)"
proof -
  have none: "rib Tip ks = None" for ks by simp
  have "rib (Node q 0 (empty_info bms) l r) ks = (if ks = p_bits q then if (0 :: u32) = 0
            then None else Some (0, empty_info bms) else or_else (rib l ks) (rib r ks))" for ks
    using rib_not_below [OF assms(1)] rib_not_below [OF assms(2)] by (intro rib_branches)
  moreover have "rib l (p_bits q) = None" "rib r (p_bits q) = None"
    using assms(1,2) by (auto intro: rib_other_branch)
  ultimately have eq: "rib (Node q 0 (empty_info bms) l r) = (\<lambda>ks. or_else (rib l ks) (rib r ks))"
    by (auto simp: fun_eq_iff or_else_def simp del: rib.simps)
  have tops: "patricia bms xs l" "patricia bms xs r"
    using assms patricia_mono by (meson prefix_order.trans prefix_snocD prefix_order.refl)+
  have info: "list_all (\<lambda>c. c = []) (empty_info bms :: 'a list list)"
    by (simp add: empty_info_def list_all_iff)
  consider "l = Tip" | "l \<noteq> Tip" "r = Tip" | "l \<noteq> Tip" "r \<noteq> Tip" by blast
  then show ?thesis
  proof cases
    case 1
    then have "bgp_node_delete (Node q 0 (empty_info bms) l r) = Inr (r, True)" using info by simp
    with tops 1 show ?thesis unfolding eq by (simp add: or_else_def ex_bool_eq)
  next
    case 2
    then have "bgp_node_delete (Node q 0 (empty_info bms) l r) = Inr (l, True)"
      using info by (cases l) simp_all
    with tops 2 show ?thesis unfolding eq
      by (simp add: or_else_def fun_eq_iff ex_bool_eq split: option.splits)
  next
    case 3
    then have "bgp_node_delete (Node q 0 (empty_info bms) l r) = Inr (Node q 0 (empty_info bms) l r, False)"
      using info by (cases l; cases r) simp_all
    with 3 assms show ?thesis unfolding eq [symmetric] by (simp add: ex_bool_eq)
  qed
qed

lemma node_unlock_ok:
  assumes "patricia bms xs t" "prefix_ok k" "\<not> is_readonly bms"
    and "rib t (p_bits k) = Some (lk0, info0)" "lk0 = 1 \<Longrightarrow> info0 = empty_info bms"
  shows "unlock_ok bms xs t k (node_unlock bms stray t k)"
  using assms
proof (induction t arbitrary: xs)
  case Tip
  then show ?case by simp
next
  case (Node q lk info l r)
  then have ok: "prefix_ok q" by simp
  let ?t = "Node q lk info l r"
  have sub: "patricia bms (p_bits q @ [False]) l" "patricia bms (p_bits q @ [True]) r"
    "Sublist.prefix xs (p_bits q)"
    using Node.prems(1) by simp_all
  from ok Node.prems(2) show ?case
  proof (cases rule: walk_cases [where stray = stray])
    case same
    then have e: "lk = lk0" "info = info0" "lk \<noteq> 0" using Node.prems(4) by (auto split: if_splits)
    show ?thesis
    proof (cases "lk = 1")
      case False
      then have "lk - 1 \<noteq> 0" by simp
      with e same Node.prems False show ?thesis
        by (auto simp: unlock_ok_def drop_lock_def fun_eq_iff)
    next
      case True
      have info: "info = empty_info bms" using e True Node.prems(5) by simp
      from delete_ok [OF sub(1,2) ok sub(3)] obtain t' del where
        d: "bgp_node_delete (Node q 0 (empty_info bms) l r) = Inr (t', del)" "patricia bms xs t'"
          "\<not> del \<longrightarrow> t' \<noteq> Tip" "num_nodes t' + (if del then 1 else 0) = num_nodes l + num_nodes r + 1"
          "rib t' = rib (Node q 0 (empty_info bms) l r)"
        by blast
      then have "node_unlock bms stray ?t k = Inr (t', del, if del then 1 else 0)"
        using same Node.prems(3) True info by (simp del: bgp_node_delete.simps)
      with d True same Node.prems show ?thesis
        by (auto simp: unlock_ok_def drop_lock_def fun_eq_iff)
    qed
  next
    case (down b)
    define c where "c = (if b then r else l)"
    have below: "rib ?t (p_bits k) = rib c (p_bits k)" unfolding c_def by (rule rib_below [OF down(5)])
    have "patricia bms (p_bits q @ [b]) c" using Node.prems(1) by (cases b) (simp_all add: c_def)
    then have "unlock_ok bms (p_bits q @ [b]) c k (node_unlock bms stray c k)"
      using Node.IH Node.prems(2-5) unfolding below by (cases b) (simp_all add: c_def)
    then obtain c' del n where c': "node_unlock bms stray c k = Inr (c', del, n)"
      "patricia bms (p_bits q @ [b]) c'" "\<not> del \<longrightarrow> c' \<noteq> Tip" "num_nodes c' + n = num_nodes c"
      "rib c' = (rib c)(p_bits k := Option.bind (rib c (p_bits k)) drop_lock)"
      by (auto simp: unlock_ok_def)
    define l' r' where "l' = (if b then l else c')" and "r' = (if b then c' else r)"
    let ?t' = "Node q lk info l' r'"
    have un: "node_unlock bms stray ?t k = (if del \<and> lk = 0
        then fbind (bgp_node_delete ?t') (\<lambda>(t', del'). Inr (t', del', if del' then n + 1 else n))
        else Inr (?t', False, n))"
      using down c'(1) by (cases b) (simp_all add: c_def l'_def r'_def del: bgp_node_delete.simps)
    have sub': "patricia bms (p_bits q @ [False]) l'" "patricia bms (p_bits q @ [True]) r'"
      using sub c'(2) by (auto simp: l'_def r'_def)
    have nn: "num_nodes l' + num_nodes r' + n = num_nodes l + num_nodes r"
      using c'(4) by (auto simp: l'_def r'_def c_def)
    have rb: "rib ?t' = (rib ?t)(p_bits k := Option.bind (rib ?t (p_bits k)) drop_lock)"
    proof
      fix ks
      show "rib ?t' ks = ((rib ?t)(p_bits k := Option.bind (rib ?t (p_bits k)) drop_lock)) ks"
        using c'(5) down(5) prefix_snoc_unique [of "p_bits q" True ks False]
        by (cases b) (auto simp: c_def l'_def r'_def)
    qed
    show ?thesis
    proof (cases "del \<and> lk = 0")
      case True
      then have info: "info = empty_info bms" using Node.prems(1) by simp
      from delete_ok [OF sub' ok sub(3)] obtain t' del' where
        d: "bgp_node_delete ?t' = Inr (t', del')" "patricia bms xs t'" "\<not> del' \<longrightarrow> t' \<noteq> Tip"
          "num_nodes t' + (if del' then 1 else 0) = num_nodes l' + num_nodes r' + 1" "rib t' = rib ?t'"
        using True info by blast
      have "node_unlock bms stray ?t k = Inr (t', del', if del' then n + 1 else n)"
        unfolding un d(1) using True by simp
      with d nn rb show ?thesis
        by (auto simp: unlock_ok_def split: if_splits)
    next
      case False
      have "patricia bms xs ?t'"
        using Node.prems(1) sub' False c'(3) by (auto simp: l'_def r'_def)
      moreover have "node_unlock bms stray ?t k = Inr (?t', False, n)" unfolding un using False by auto
      ultimately show ?thesis using rb nn by (auto simp: unlock_ok_def simp del: rib.simps patricia.simps)
    qed
  next
    case off
    then have "rib ?t (p_bits k) = None" using rib_not_below [OF patricia_self [OF Node.prems(1)]] by simp
    then show ?thesis using Node.prems(4) by simp
  qed
qed

section \<open>The operations on a table\<close>

abbreviation table_rib :: "'i bgp_table \<Rightarrow> bool list \<Rightarrow> (u32 \<times> 'i list list) option" where
  "table_rib table \<equiv> rib (t_top table)"

lemma table_init_ok: "table_ok bms (bgp_table_init afi safi)" "table_rib (bgp_table_init afi safi) = Map.empty"
  by (auto simp: table_ok_def bgp_table_init_def)

text \<open>Stubs never outnumber the nodes in use, so the tree has fewer than twice as many nodes as the
  table has networks.\<close>

fun held :: "'i bgp_node \<Rightarrow> nat" where
  "held Tip = 0"
| "held (Node q lk info l r) = held l + held r + (if lk = 0 then 0 else 1)"

lemma held_pos: "patricia bms xs t \<Longrightarrow> t \<noteq> Tip \<Longrightarrow> 0 < held t"
  by (induction t arbitrary: xs) (auto split: if_splits)

lemma num_nodes_bound: "patricia bms xs t \<Longrightarrow> t \<noteq> Tip \<Longrightarrow> num_nodes t < 2 * held t"
proof (induction t arbitrary: xs)
  case (Node q lk info l r)
  have "num_nodes l < 2 * held l \<or> l = Tip" "num_nodes r < 2 * held r \<or> r = Tip"
    using Node by auto
  moreover have "lk = 0 \<longrightarrow> l \<noteq> Tip \<and> r \<noteq> Tip" using Node.prems by simp
  ultimately show ?case by auto
qed simp

lemma dom_rib_node:
  assumes "patricia bms xs (Node q lk info l r)"
  shows "dom (rib (Node q lk info l r)) = dom (rib l) \<union> dom (rib r) \<union> (if lk = 0 then {} else {p_bits q})"
    and "dom (rib l) \<inter> dom (rib r) = {}" and "p_bits q \<notin> dom (rib l) \<union> dom (rib r)"
proof -
  have sub: "patricia bms (p_bits q @ [False]) l" "patricia bms (p_bits q @ [True]) r" using assms by simp_all
  have none: "rib l (p_bits q) = None" "rib r (p_bits q) = None"
    using sub by (auto intro: rib_other_branch)
  have "rib (Node q lk info l r) ks = (if ks = p_bits q then if lk = 0 then None else Some (lk, info)
      else or_else (rib l ks) (rib r ks))" for ks
    using rib_not_below [OF sub(1)] rib_not_below [OF sub(2)] by (intro rib_branches)
  then show "dom (rib (Node q lk info l r)) = dom (rib l) \<union> dom (rib r) \<union> (if lk = 0 then {} else {p_bits q})"
    using none by (auto simp: dom_def or_else_def simp del: rib.simps split: if_splits option.splits)
  show "dom (rib l) \<inter> dom (rib r) = {}"
    using rib_prefix [OF sub(1)] rib_prefix [OF sub(2)] prefix_snoc_unique [of "p_bits q" False _ True]
    by fastforce
  show "p_bits q \<notin> dom (rib l) \<union> dom (rib r)" using none by auto
qed

lemma card_dom_rib: "patricia bms xs t \<Longrightarrow> finite (dom (rib t)) \<and> card (dom (rib t)) = held t"
proof (induction t arbitrary: xs)
  case Tip
  then show ?case by (simp add: dom_def)
next
  case (Node q lk info l r)
  have "finite (dom (rib l)) \<and> card (dom (rib l)) = held l" "finite (dom (rib r)) \<and> card (dom (rib r)) = held r"
    using Node.IH Node.prems by auto
  with dom_rib_node [OF Node.prems] show ?case
    by (simp add: card_Un_disjoint del: rib.simps)
qed

lemma free_nodes_count: "free_nodes t n = n - int (num_nodes t)"
  by (induction t arbitrary: n) auto

end
