(* ===== verification/TableMatch.thy ===== *)
theory TableMatch
  imports TableFacts
begin

text \<open>
  \<open>bgp_node_match\<close> finds the longest matching network that has an entry its caller accepts, and the
  octet that \<open>check_bit\<close> reads behind a full-length address does not change the result. With a vector it does
  the same, and gives all matches on the way, as long as there is room for them. Walking the
  table visits the nodes in preorder and leaves the tree as it was.
\<close>

section \<open>Longest match\<close>

text \<open>The entries of a node that the walk looks at, and what it may find.\<close>

definition window :: "nat \<Rightarrow> nat \<Rightarrow> 'i list list \<Rightarrow> 'i list" where
  "window modulo0 n info = concat (take n (drop modulo0 info))"

definition hit where
  "hit ok p modulo0 n t ks x \<longleftrightarrow> (\<exists>lk info. rib t ks = Some (lk, info) \<and> Sublist.prefix ks (p_bits p)
     \<and> x \<in> set (window modulo0 n info) \<and> ok x)"

lemma push_match_plain [simp]: "push_match q x (s, None) = Inr (Some (q, x), None)"
  by (simp add: push_match_def)

lemma scan_infos_ok:
  "\<exists>s'. scan_infos ok exact q xs (s, None) = Inr (s', None)
    \<and> (if \<exists>x \<in> set xs. ok x then \<exists>x \<in> set xs. ok x \<and> s' = Some (q, x) else s' = s)"
proof (induction xs arbitrary: s)
  case (Cons x xs)
  show ?case
  proof (cases "ok x")
    case True
    show ?thesis using True Cons.IH [of "Some (q, x)"] by (cases exact) (auto split: if_splits)
  next
    case False
    from Cons.IH [of s] obtain s' where "scan_infos ok exact q xs (s, None) = Inr (s', None)"
      "if \<exists>x \<in> set xs. ok x then \<exists>x \<in> set xs. ok x \<and> s' = Some (q, x) else s' = s"
      by blast
    with False show ?thesis by (intro exI [of _ s']) auto
  qed
qed simp

lemma scan_buckets_ok:
  "modulo0 + n \<le> length info \<Longrightarrow> \<exists>s'. scan_buckets ok exact q info modulo0 n (s, None) = Inr (s', None)
    \<and> (if \<exists>x \<in> set (window modulo0 n info). ok x
        then \<exists>x \<in> set (window modulo0 n info). ok x \<and> s' = Some (q, x) else s' = s)"
proof (induction n arbitrary: modulo0 s)
  case (Suc n)
  have lt: "modulo0 < length info" using Suc.prems by simp
  then have w: "window modulo0 (Suc n) info = info ! modulo0 @ window (modulo0 + 1) n info"
    by (simp add: window_def Cons_nth_drop_Suc [symmetric])
  from scan_infos_ok [of ok exact q "info ! modulo0" s] obtain s1 where
    s1: "scan_infos ok exact q (info ! modulo0) (s, None) = Inr (s1, None)"
      "if \<exists>x \<in> set (info ! modulo0). ok x then \<exists>x \<in> set (info ! modulo0). ok x \<and> s1 = Some (q, x) else s1 = s"
    by blast
  from Suc.IH [of "modulo0 + 1" s1] Suc.prems obtain s2 where
    s2: "scan_buckets ok exact q info (modulo0 + 1) n (s1, None) = Inr (s2, None)"
      "if \<exists>x \<in> set (window (modulo0 + 1) n info). ok x
       then \<exists>x \<in> set (window (modulo0 + 1) n info). ok x \<and> s2 = Some (q, x) else s2 = s1"
    by auto
  have "scan_buckets ok exact q info modulo0 (Suc n) (s, None) = Inr (s2, None)"
    using lt s1(1) s2(1) by simp
  with s1(2) s2(2) show ?case unfolding w by (auto split: if_splits)
qed (simp add: window_def)

lemma window_empty [simp]: "window modulo0 n (empty_info bms) = []"
  by (auto simp: window_def empty_info_def dest!: in_set_takeD in_set_dropD)

definition match_ok where
  "match_ok ok p modulo0 n t s s' \<longleftrightarrow>
     (if \<exists>ks x. hit ok p modulo0 n t ks x
      then \<exists>q x. s' = Some (q, x) \<and> prefix_ok q \<and> hit ok p modulo0 n t (p_bits q) x
             \<and> (\<forall>ks y. hit ok p modulo0 n t ks y \<longrightarrow> length ks \<le> p_len q)
      else s' = s)"

text \<open>Below a node, what may be found is at the node or in the subtree that the walk enters.\<close>

lemma hit_node:
  assumes inv: "patricia bms xs (Node q lk info l r)" and p: "prefix_ok p"
  shows "if goes_on q p
    then \<exists>b. check_bit (p_bytes p) stray (p_len q) = Inr b \<and>
      (\<forall>ks x. hit ok p m n (Node q lk info l r) ks x \<longleftrightarrow>
         ks = p_bits q \<and> x \<in> set (window m n info) \<and> ok x \<or> hit ok p m n (if b then r else l) ks x)
    else \<forall>ks x. \<not> hit ok p m n (Node q lk info l r) ks x"
proof -
  let ?t = "Node q lk info l r"
  have ok: "prefix_ok q" using inv by simp
  have stub: "lk \<noteq> 0" if "x \<in> set (window m n info)" for x
    using that inv by auto
  have sub: "patricia bms (p_bits q @ [False]) l" "patricia bms (p_bits q @ [True]) r"
    using inv by simp_all
  have split: "hit ok p m n ?t ks x \<longleftrightarrow> ks = p_bits q \<and> Sublist.prefix (p_bits q) (p_bits p)
      \<and> x \<in> set (window m n info) \<and> ok x \<or> hit ok p m n l ks x \<or> hit ok p m n r ks x" for ks x
  proof -
    have "rib ?t ks = (if ks = p_bits q then if lk = 0 then None else Some (lk, info)
        else or_else (rib l ks) (rib r ks))"
      using rib_not_below [OF sub(1)] rib_not_below [OF sub(2)] by (intro rib_branches)
    moreover have "rib l ks = None \<or> rib r ks = None"
      using dom_rib_node(2) [OF inv] by blast
    ultimately show ?thesis
      using stub dom_rib_node(3) [OF inv]
      by (auto simp: hit_def or_else_def simp del: rib.simps split: option.splits)
  qed
  have nohit: "\<not> hit ok p m n c ks x" if "patricia bms (p_bits q @ [b]) c"
    "\<not> Sublist.prefix (p_bits q @ [b]) (p_bits p)" for b c ks x
    using that rib_prefix [OF that(1)] by (auto simp: hit_def dest: prefix_order.trans)
  from ok p show ?thesis
  proof (cases rule: walk_cases [where stray = stray])
    case same
    obtain b where b: "check_bit (p_bytes p) stray (p_len q) = Inr b"
      using check_bit_returns [of "p_len q"] ok by (auto simp: prefix_ok_def)
    have "\<not> hit ok p m n l ks x \<and> \<not> hit ok p m n r ks x" for ks x
      using nohit [OF sub(1)] nohit [OF sub(2)] same(3) by (auto dest: prefix_length_le)
    then show ?thesis using same(1) b by (auto simp: split same(3))
  next
    case (down b)
    have "\<not> hit ok p m n (if b then l else r) ks x" for ks x
      using nohit [OF sub(1)] nohit [OF sub(2)] down(5) prefix_snoc_unique [of "p_bits q" False _ True]
      by (cases b) auto
    then show ?thesis using down(1,4) by (cases b) (auto simp: split prefix_snocD [OF down(5)])
  next
    case off
    have "\<not> hit ok p m n ?t ks x" for ks x
      using off rib_prefix [OF patricia_self [OF inv]] by (auto simp: hit_def simp del: rib.simps dest: prefix_order.trans)
    with off show ?thesis by auto
  qed
qed

lemma node_match_ok:
  assumes "patricia bms xs t" "prefix_ok p" "modulo0 + n \<le> length (empty_info bms :: 'i list list)"
  shows "\<exists>s'. node_match ok stray p modulo0 n t (s, None) = Inr (s', None)
    \<and> match_ok ok p modulo0 n (t :: 'i bgp_node) s s'"
  using assms
proof (induction t arbitrary: xs s)
  case Tip
  then show ?case by (auto simp: match_ok_def hit_def)
next
  case (Node q lk info l r)
  let ?t = "Node q lk info l r"
  have ok: "prefix_ok q" using Node.prems by simp
  have step: ?case if go: "goes_on q p" and b: "check_bit (p_bytes p) stray (p_len q) = Inr b"
    and hits: "\<And>ks x. hit ok p modulo0 n ?t ks x \<longleftrightarrow>
      ks = p_bits q \<and> x \<in> set (window modulo0 n info) \<and> ok x \<or> hit ok p modulo0 n (if b then r else l) ks x" for b
  proof -
    define c where "c = (if b then r else l)"
    have inv: "patricia bms (p_bits q @ [b]) c" using Node.prems(1) by (auto simp: c_def)
    have "modulo0 + n \<le> length info" using Node.prems by simp
    from scan_buckets_ok [OF this, of ok "p_len q = p_len p" q s] obtain s1 where
      s1: "scan_buckets ok (p_len q = p_len p) q info modulo0 n (s, None) = Inr (s1, None)"
        "if \<exists>x \<in> set (window modulo0 n info). ok x
         then \<exists>x \<in> set (window modulo0 n info). ok x \<and> s1 = Some (q, x) else s1 = s"
      by blast
    have "\<exists>s'. node_match ok stray p modulo0 n c (s1, None) = Inr (s', None) \<and> match_ok ok p modulo0 n c s1 s'"
      using Node.IH(1) [of "p_bits q @ [b]" s1] Node.IH(2) [of "p_bits q @ [b]" s1] inv Node.prems(2,3)
      by (auto simp: c_def)
    then obtain s2 where
      s2: "node_match ok stray p modulo0 n c (s1, None) = Inr (s2, None)" "match_ok ok p modulo0 n c s1 s2"
      by blast
    have "node_match ok stray p modulo0 n ?t (s, None) = Inr (s2, None)"
      using go b s1(1) s2(1) by (simp add: c_def)
    moreover have long: "p_len q \<le> length ks" if "hit ok p modulo0 n c ks x" for ks x
      using that rib_prefix [OF inv] length_p_bits [OF ok] prefix_length_le [of "p_bits q @ [b]" ks]
      by (auto simp: hit_def)
    have "match_ok ok p modulo0 n ?t s s2"
    proof (cases "\<exists>ks x. hit ok p modulo0 n c ks x")
      case True
      then obtain q' x where q': "s2 = Some (q', x)" "prefix_ok q'" "hit ok p modulo0 n c (p_bits q') x"
        "\<And>ks y. hit ok p modulo0 n c ks y \<Longrightarrow> length ks \<le> p_len q'"
        using s2(2) unfolding match_ok_def by auto
      have "p_len q \<le> p_len q'" using long [OF q'(3)] length_p_bits [OF q'(2)] by simp
      then have "length ks \<le> p_len q'" if "hit ok p modulo0 n ?t ks y" for ks y
        using that q'(4) length_p_bits [OF ok] unfolding hits [folded c_def] by auto
      moreover have "hit ok p modulo0 n ?t (p_bits q') x" unfolding hits [folded c_def] using q'(3) by blast
      ultimately show ?thesis using q'(1,2) unfolding match_ok_def by auto
    next
      case False
      then have "s2 = s1" using s2(2) unfolding match_ok_def by auto
      moreover have "hit ok p modulo0 n ?t ks x \<longleftrightarrow> ks = p_bits q \<and> x \<in> set (window modulo0 n info) \<and> ok x" for ks x
        unfolding hits [folded c_def] using False by blast
      ultimately show ?thesis using s1(2) ok length_p_bits [OF ok] unfolding match_ok_def
        by (cases "\<exists>x \<in> set (window modulo0 n info). ok x") auto
    qed
    ultimately show ?thesis by blast
  qed
  show ?case
  proof (cases "goes_on q p")
    case True
    then show ?thesis
      using hit_node [OF Node.prems(1,2), where stray = stray and ok = ok and m = modulo0 and n = n] step by auto
  next
    case False
    then have "\<not> hit ok p modulo0 n ?t ks x" for ks x
      using hit_node [OF Node.prems(1,2), where stray = stray and ok = ok and m = modulo0 and n = n] by auto
    with False show ?thesis by (auto simp: match_ok_def)
  qed
qed

section \<open>The vector of matches\<close>

text \<open>What the walk puts into the vector, in its order; at the network that was asked for, only the first entry
  of each bucket.\<close>

definition accepted :: "('i \<Rightarrow> bool) \<Rightarrow> bool \<Rightarrow> 'i list \<Rightarrow> 'i list" where
  "accepted ok exact xs = (if exact then take 1 (filter ok xs) else filter ok xs)"

definition bucket_matches :: "('i \<Rightarrow> bool) \<Rightarrow> bool \<Rightarrow> prefix \<Rightarrow> 'i list list \<Rightarrow> (prefix \<times> 'i) list" where
  "bucket_matches ok exact q xss = concat (map (\<lambda>xs. map (Pair q) (accepted ok exact xs)) xss)"

fun match_vector :: "('i \<Rightarrow> bool) \<Rightarrow> u8 \<Rightarrow> prefix \<Rightarrow> nat \<Rightarrow> nat \<Rightarrow> 'i bgp_node \<Rightarrow> (prefix \<times> 'i) list" where
  "match_vector ok stray p modulo0 n Tip = []"
| "match_vector ok stray p modulo0 n (Node q lk info l r) =
     (if goes_on q p
      then bucket_matches ok (p_len q = p_len p) q (take n (drop modulo0 info)) @
           (case check_bit (p_bytes p) stray (p_len q) of
              Inl _ \<Rightarrow> [] | Inr b \<Rightarrow> match_vector ok stray p modulo0 n (if b then r else l))
      else [])"

text \<open>A step of the walk with a vector does what it does without one, and appends \<open>ms\<close>, as far as there is room.\<close>

definition pushes :: "('i match_state \<Rightarrow> 'i match_state run) \<Rightarrow> (prefix \<times> 'i) list \<Rightarrow> bool" where
  "pushes f ms \<longleftrightarrow> (\<forall>s s' v. f (s, None) = Inr (s', None) \<longrightarrow> length v \<le> BGP_NODE_VECTOR_MAX_DEPTH \<longrightarrow>
     f (s, Some v) = (if length v + length ms \<le> BGP_NODE_VECTOR_MAX_DEPTH then Inr (s', Some (v @ ms)) else Inl OutOfBounds))"

lemma pushes_bind:
  assumes f: "pushes f ms" and g: "pushes g ms'" and n: "\<And>s r. f (s, None) = Inr r \<Longrightarrow> snd r = None"
  shows "pushes (\<lambda>st. fbind (f st) g) (ms @ ms')"
  unfolding pushes_def
proof (intro allI impI)
  fix s s' and v :: "(prefix \<times> 'a) list"
  assume r: "fbind (f (s, None)) g = Inr (s', None)" and v: "length v \<le> BGP_NODE_VECTOR_MAX_DEPTH"
  obtain s1 where s1: "f (s, None) = Inr (s1, None)" using r n by (cases "f (s, None)") fastforce+
  have fv: "f (s, Some v) = (if length v + length ms \<le> BGP_NODE_VECTOR_MAX_DEPTH then Inr (s1, Some (v @ ms)) else Inl OutOfBounds)"
    using f s1 v unfolding pushes_def by blast
  have "g (s1, Some (v @ ms)) = (if length (v @ ms) + length ms' \<le> BGP_NODE_VECTOR_MAX_DEPTH
      then Inr (s', Some ((v @ ms) @ ms')) else Inl OutOfBounds)" if "length v + length ms \<le> BGP_NODE_VECTOR_MAX_DEPTH"
    using g r s1 that unfolding pushes_def by simp
  then show "fbind (f (s, Some v)) g = (if length v + length (ms @ ms') \<le> BGP_NODE_VECTOR_MAX_DEPTH
      then Inr (s', Some (v @ ms @ ms')) else Inl OutOfBounds)"
    unfolding fv by (auto simp: add.assoc)
qed

lemma pushes_id: "pushes (\<lambda>st. Inr st) []"
  by (simp add: pushes_def)

lemma pushes_push: "pushes (push_match q x) [(q, x)]"
  by (auto simp: pushes_def push_match_def)

lemma push_plain: "push_match q x (s, None) = Inr r \<Longrightarrow> snd r = None"
  by (auto simp: push_match_def)

lemma pushes_infos: "pushes (scan_infos ok exact q xs) (map (Pair q) (accepted ok exact xs))"
proof (induction xs)
  case Nil
  have "scan_infos ok exact q [] = (\<lambda>st. Inr st)" by (rule ext) simp
  then show ?case using pushes_id by (simp add: accepted_def)
next
  case (Cons x xs)
  have eq: "scan_infos ok exact q (x # xs) = (\<lambda>st. if ok x then fbind (push_match q x st) (\<lambda>st. if exact then Inr st
      else scan_infos ok exact q xs st) else scan_infos ok exact q xs st)" by (rule ext) simp
  show ?case
  proof (cases "ok x")
    case True
    have "pushes (\<lambda>st. if exact then Inr st else scan_infos ok exact q xs st)
        (if exact then [] else map (Pair q) (accepted ok exact xs))"
      using Cons.IH pushes_id by (cases exact) auto
    from pushes_bind [OF pushes_push this push_plain] show ?thesis unfolding eq using True by (auto simp: accepted_def)
  next
    case False
    have "scan_infos ok exact q (x # xs) = scan_infos ok exact q xs" unfolding eq using False by simp
    moreover have "accepted ok exact (x # xs) = accepted ok exact xs" using False by (simp add: accepted_def)
    ultimately show ?thesis using Cons.IH by simp
  qed
qed

lemma infos_plain: "scan_infos ok exact q xs (s, None) = Inr r \<Longrightarrow> snd r = None"
  using scan_infos_ok [of ok exact q xs s] by auto

lemma pushes_buckets: "pushes (scan_buckets ok exact q info modulo0 n) (bucket_matches ok exact q (take n (drop modulo0 info)))"
proof (induction n arbitrary: modulo0)
  case 0
  have "scan_buckets ok exact q info modulo0 0 = (\<lambda>st. Inr st)" by (rule ext) simp
  then show ?case using pushes_id by (simp add: bucket_matches_def)
next
  case (Suc n)
  show ?case
  proof (cases "modulo0 < length info")
    case True
    then have "take (Suc n) (drop modulo0 info) = info ! modulo0 # take n (drop (modulo0 + 1) info)"
      by (metis Cons_nth_drop_Suc Suc_eq_plus1 take_Suc_Cons)
    moreover have "scan_buckets ok exact q info modulo0 (Suc n) =
        (\<lambda>st. fbind (scan_infos ok exact q (info ! modulo0) st) (scan_buckets ok exact q info (modulo0 + 1) n))"
      using True by (intro ext) simp
    ultimately show ?thesis
      using pushes_bind [OF pushes_infos Suc.IH [of "modulo0 + 1"] infos_plain] by (simp add: bucket_matches_def)
  qed (simp add: pushes_def)
qed

lemma buckets_plain: "scan_buckets ok exact q info modulo0 n (s, None) = Inr r \<Longrightarrow> snd r = None"
proof (induction n arbitrary: modulo0 s)
  case (Suc n)
  then show ?case
    by (cases "scan_infos ok exact q (info ! modulo0) (s, None)")
      (auto split: if_splits dest: infos_plain)
qed auto

lemma pushes_match: "pushes (node_match ok stray p modulo0 n t) (match_vector ok stray p modulo0 n t)"
proof (induction t)
  case Tip
  have "node_match ok stray p modulo0 n Tip = (\<lambda>st. Inr st)" by (rule ext) simp
  then show ?case using pushes_id by simp
next
  case (Node q lk info l r)
  show ?case
  proof (cases "goes_on q p")
    case True
    show ?thesis
    proof (cases "check_bit (p_bytes p) stray (p_len q)")
      case (Inl e)
      then have "node_match ok stray p modulo0 n (Node q lk info l r) (s, None) \<noteq> Inr r'" for s r'
        using True by (cases "scan_buckets ok (p_len q = p_len p) q info modulo0 n (s, None)") auto
      then show ?thesis by (simp add: pushes_def del: node_match.simps)
    next
      case (Inr b)
      have "node_match ok stray p modulo0 n (Node q lk info l r) =
          (\<lambda>st. fbind (scan_buckets ok (p_len q = p_len p) q info modulo0 n st) (node_match ok stray p modulo0 n (if b then r else l)))"
        using True Inr by (intro ext) simp
      moreover have "pushes (node_match ok stray p modulo0 n (if b then r else l)) (match_vector ok stray p modulo0 n (if b then r else l))"
        using Node.IH by simp
      ultimately show ?thesis
        using pushes_bind [OF pushes_buckets _ buckets_plain] True Inr by auto
    qed
  next
    case False
    have "node_match ok stray p modulo0 n (Node q lk info l r) = (\<lambda>st. Inr st)" using False by (intro ext) simp
    then show ?thesis using pushes_id False by simp
  qed
qed

lemma set_bucket_matches:
  "(q', x) \<in> set (bucket_matches ok exact q xss) \<Longrightarrow> q' = q \<and> x \<in> set (concat xss) \<and> ok x"
  "\<not> exact \<Longrightarrow> x \<in> set (concat xss) \<Longrightarrow> ok x \<Longrightarrow> (q, x) \<in> set (bucket_matches ok exact q xss)"
  by (cases exact; auto simp: bucket_matches_def accepted_def dest!: in_set_takeD)
    (auto simp: bucket_matches_def accepted_def)

text \<open>The vector has entries that match, and all of those above the network that was asked for.\<close>

lemma matches_hits:
  assumes "patricia bms xs t" "prefix_ok p"
  shows "(\<forall>q x. (q, x) \<in> set (match_vector ok stray p modulo0 n t) \<longrightarrow> prefix_ok q \<and> hit ok p modulo0 n t (p_bits q) x) \<and>
    (\<forall>ks x. hit ok p modulo0 n t ks x \<longrightarrow> length ks < p_len p \<longrightarrow> (\<exists>q. p_bits q = ks \<and> (q, x) \<in> set (match_vector ok stray p modulo0 n t)))"
  using assms
proof (induction t arbitrary: xs)
  case Tip
  then show ?case by (simp add: hit_def)
next
  case (Node q lk info l r)
  let ?t = "Node q lk info l r"
  note hn = hit_node [OF Node.prems, where stray = stray and ok = ok and m = modulo0 and n = n]
  show ?case
  proof (cases "goes_on q p")
    case True
    then obtain b where b: "check_bit (p_bytes p) stray (p_len q) = Inr b"
      "\<And>ks x. hit ok p modulo0 n ?t ks x \<longleftrightarrow>
        ks = p_bits q \<and> x \<in> set (window modulo0 n info) \<and> ok x \<or> hit ok p modulo0 n (if b then r else l) ks x"
      using hn by auto
    let ?c = "if b then r else l" let ?b = "bucket_matches ok (p_len q = p_len p) q (take n (drop modulo0 info))"
    have m: "match_vector ok stray p modulo0 n ?t = ?b @ match_vector ok stray p modulo0 n ?c" using True b(1) by simp
    have inv: "patricia bms (p_bits q @ [b]) ?c" and q: "prefix_ok q" using Node.prems(1) by auto
    have IH: "(q', x) \<in> set (match_vector ok stray p modulo0 n ?c) \<Longrightarrow> prefix_ok q' \<and> hit ok p modulo0 n ?c (p_bits q') x"
      "hit ok p modulo0 n ?c ks x \<Longrightarrow> length ks < p_len p \<Longrightarrow> \<exists>q. p_bits q = ks \<and> (q, x) \<in> set (match_vector ok stray p modulo0 n ?c)" for q' x ks
      using Node.IH(1) [of "p_bits q @ [b]"] Node.IH(2) [of "p_bits q @ [b]"] inv Node.prems(2) by (cases b; auto)+
    have "prefix_ok q' \<and> hit ok p modulo0 n ?t (p_bits q') x" if "(q', x) \<in> set (match_vector ok stray p modulo0 n ?t)" for q' x
      using that q IH(1) [of q' x] set_bucket_matches(1) [of q' x] unfolding m b(2) set_append Un_iff window_def by blast
    moreover have "\<exists>q'. p_bits q' = ks \<and> (q', x) \<in> set (match_vector ok stray p modulo0 n ?t)"
      if h: "hit ok p modulo0 n ?t ks x" and len: "length ks < p_len p" for ks x
    proof (cases "hit ok p modulo0 n ?c ks x")
      case True
      from IH(2) [OF this len] show ?thesis unfolding m by auto
    next
      case False
      then have k: "ks = p_bits q" "x \<in> set (window modulo0 n info)" "ok x" using h unfolding b(2) by simp_all
      have "p_len q \<noteq> p_len p" using len k(1) length_p_bits [OF q] by simp
      then have "(q, x) \<in> set ?b" using set_bucket_matches(2) k by (simp add: window_def)
      then show ?thesis using k(1) unfolding m by auto
    qed
    ultimately show ?thesis by blast
  qed (use hn in auto)
qed

section \<open>Locking and walking\<close>

fun preorder :: "'i bgp_node \<Rightarrow> prefix list" where
  "preorder Tip = []"
| "preorder (Node q lk info l r) = q # preorder l @ preorder r"

definition hd_or :: "'a list \<Rightarrow> 'a option \<Rightarrow> 'a option" where
  "hd_or xs d = (case xs of [] \<Rightarrow> d | x # _ \<Rightarrow> Some x)"

lemma root_p_preorder: "or_else (root_p t) d = hd_or (preorder t) d"
  by (cases t) (auto simp: or_else_def hd_or_def)

lemma hd_or_append: "hd_or (xs @ ys) d = hd_or xs (hd_or ys d)"
  by (cases xs) (auto simp: hd_or_def)

lemma preorder_prefix: "patricia bms xs t \<Longrightarrow> q \<in> set (preorder t) \<Longrightarrow> Sublist.prefix xs (p_bits q) \<and> prefix_ok q"
proof (induction t arbitrary: xs)
  case (Node q0 lk info l r)
  from Node.prems Node.IH(1) [of "p_bits q0 @ [False]"] Node.IH(2) [of "p_bits q0 @ [True]"]
  show ?case by (auto dest: prefix_snocD prefix_order.trans)
qed simp

lemma distinct_preorder: "patricia bms xs t \<Longrightarrow> distinct (map p_bits (preorder t))"
proof (induction t arbitrary: xs)
  case (Node q lk info l r)
  then have sub: "patricia bms (p_bits q @ [False]) l" "patricia bms (p_bits q @ [True]) r" by simp_all
  have "p_bits x \<noteq> p_bits y" if "x \<in> set (preorder l)" "y \<in> set (preorder r)" for x y
    using preorder_prefix [OF sub(1) that(1)] preorder_prefix [OF sub(2) that(2)]
      prefix_snoc_unique [of "p_bits q" False "p_bits x" True] by auto
  moreover have "p_bits x \<noteq> p_bits q" if "x \<in> set (preorder l) \<union> set (preorder r)" for x
    using that preorder_prefix [OF sub(1), of x] preorder_prefix [OF sub(2), of x] by (auto dest: prefix_length_le)
  ultimately show ?case using Node.IH sub by (force simp: image_iff)
qed simp

text \<open>Where a node of the tree is, seen from the root.\<close>

lemma key_cases:
  assumes "patricia bms xs (Node q lk info l r)" "x \<in> set (preorder (Node q lk info l r))"
    and "prefix_ok k" "p_bits k = p_bits x"
  obtains (here) "goes_on q k" "p_len q = p_len k" "p_bits k = p_bits q" "x = q"
  | (left) "goes_on q k" "p_len q \<noteq> p_len k" "check_bit (p_bytes k) stray (p_len q) = Inr False"
      "x \<in> set (preorder l)" "Sublist.prefix (p_bits q @ [False]) (p_bits k)"
  | (right) "goes_on q k" "p_len q \<noteq> p_len k" "check_bit (p_bytes k) stray (p_len q) = Inr True"
      "x \<in> set (preorder r)" "Sublist.prefix (p_bits q @ [True]) (p_bits k)"
proof -
  have ok: "prefix_ok q" and sub: "patricia bms (p_bits q @ [False]) l" "patricia bms (p_bits q @ [True]) r"
    using assms(1) by simp_all
  have l: "x \<in> set (preorder l) \<Longrightarrow> Sublist.prefix (p_bits q @ [False]) (p_bits k)"
    and r: "x \<in> set (preorder r) \<Longrightarrow> Sublist.prefix (p_bits q @ [True]) (p_bits k)"
    using preorder_prefix [OF sub(1)] preorder_prefix [OF sub(2)] assms(4) by auto
  consider "x = q" | "x \<in> set (preorder l)" | "x \<in> set (preorder r)" using assms(2) by auto
  then show thesis
  proof cases
    case 1
    from ok assms(3) show ?thesis
      by (cases rule: walk_cases [where stray = stray]) (use 1 assms(4) here in \<open>auto dest: prefix_length_le\<close>)
  next
    case 2
    from ok assms(3) show ?thesis
    proof (cases rule: walk_cases [where stray = stray])
      case (down b)
      then show ?thesis using left 2 l [OF 2] prefix_snoc_unique [of "p_bits q" b "p_bits k" False] by simp
    qed (use l [OF 2] in \<open>auto dest: prefix_length_le prefix_snocD\<close>)
  next
    case 3
    from ok assms(3) show ?thesis
    proof (cases rule: walk_cases [where stray = stray])
      case (down b)
      then show ?thesis using right 3 r [OF 3] prefix_snoc_unique [of "p_bits q" b "p_bits k" True] by simp
    qed (use r [OF 3] in \<open>auto dest: prefix_length_le prefix_snocD\<close>)
  qed
qed

lemma distinct_mapI: "distinct (map f xs) \<Longrightarrow> distinct xs"
  by (simp add: distinct_map)

lemma split_unique: "distinct xs \<Longrightarrow> xs = as @ x # bs \<Longrightarrow> xs = cs @ x # ds \<Longrightarrow> bs = ds"
  by (metis append_Cons_eq_iff distinct.simps(2) distinct_append not_distinct_conv_prefix)

lemma next_node_ok:
  "patricia bms xs t \<Longrightarrow> preorder t = as @ x # bs \<Longrightarrow> prefix_ok k \<Longrightarrow> p_bits k = p_bits x \<Longrightarrow>
     next_node stray t k up = Inr (hd_or bs up)"
proof (induction t arbitrary: xs as bs up)
  case (Node q lk info l r)
  have x: "x \<in> set (preorder (Node q lk info l r))" using Node.prems(2) by simp
  have dist: "distinct (map p_bits (preorder (Node q lk info l r)))" by (rule distinct_preorder [OF Node.prems(1)])
  have sub: "patricia bms (p_bits q @ [False]) l" "patricia bms (p_bits q @ [True]) r" using Node.prems(1) by simp_all
  from Node.prems(1) x Node.prems(3,4) show ?case
  proof (cases rule: key_cases [where stray = stray])
    case here
    have "as = []" using Node.prems(2) dist here(4) by (cases as) auto
    then have "bs = preorder l @ preorder r" using Node.prems(2) by simp
    with here show ?thesis by (simp add: root_p_preorder hd_or_append)
  next
    case left
    then obtain as' bs' where s: "preorder l = as' @ x # bs'" by (meson split_list)
    have "bs = bs' @ preorder r"
      using split_unique [OF distinct_mapI [OF dist], of as x bs "q # as'" "bs' @ preorder r"] Node.prems(2) s
      by simp
    with left Node.IH(1) [OF sub(1) s Node.prems(3,4)] show ?thesis by (simp add: root_p_preorder hd_or_append)
  next
    case right
    then obtain as' bs' where s: "preorder r = as' @ x # bs'" by (meson split_list)
    have "bs = bs'"
      using split_unique [OF distinct_mapI [OF dist], of as x bs "q # preorder l @ as'" bs'] Node.prems(2) s
      by simp
    with right Node.IH(2) [OF sub(2) s Node.prems(3,4)] show ?thesis by simp
  qed
qed simp

text \<open>Changing the lock count of one node.\<close>

fun relock :: "(u32 \<Rightarrow> u32) \<Rightarrow> bool list \<Rightarrow> 'i bgp_node \<Rightarrow> 'i bgp_node" where
  "relock f ks Tip = Tip"
| "relock f ks (Node q lk info l r) =
     (if ks = p_bits q then Node q (f lk) info l r
      else if Sublist.prefix (p_bits q @ [True]) ks then Node q lk info l (relock f ks r)
      else if Sublist.prefix (p_bits q @ [False]) ks then Node q lk info (relock f ks l) r
      else Node q lk info l r)"

fun locks_room :: "bool list \<Rightarrow> 'i bgp_node \<Rightarrow> bool" where
  "locks_room ks Tip = True"
| "locks_room ks (Node q lk info l r) =
     ((p_bits q = ks \<longrightarrow> lk + 1 \<noteq> 0) \<and> locks_room ks l \<and> locks_room ks r)"

lemma relock_Tip [simp]: "relock f ks t = Tip \<longleftrightarrow> t = Tip"
  by (cases t) auto

lemma relock_below [simp]:
  "Sublist.prefix (p_bits q @ [b]) ks \<Longrightarrow> relock f ks (Node q lk info l r)
     = (if b then Node q lk info l (relock f ks r) else Node q lk info (relock f ks l) r)"
  using prefix_snoc_unique [of "p_bits q" False ks True] by (auto simp del: prefix_snoc dest: prefix_snoc_neq)

lemma preorder_relock [simp]: "preorder (relock f ks t) = preorder t"
  by (induction t) auto

lemma locks_room_relock: "ks \<noteq> ks' \<Longrightarrow> locks_room ks t \<Longrightarrow> locks_room ks (relock f ks' t)"
  by (induction t) auto

lemma relock_commute: "ks \<noteq> ks' \<Longrightarrow> relock f ks (relock g ks' t) = relock g ks' (relock f ks t)"
  by (induction t) auto

lemma node_lock_ok:
  assumes "patricia bms xs t" "x \<in> set (preorder t)" "prefix_ok k" "p_bits k = p_bits x"
  shows "node_lock bms stray t k = Inr (relock (lock_count bms) (p_bits k) t)"
  using assms
proof (induction t arbitrary: xs)
  case (Node q lk info l r)
  have sub: "patricia bms (p_bits q @ [False]) l" "patricia bms (p_bits q @ [True]) r" using Node.prems(1) by simp_all
  from Node.prems show ?case
  proof (cases rule: key_cases [where stray = stray])
    case here
    then show ?thesis by simp
  next
    case left
    with Node.IH(1) [OF sub(1) _ Node.prems(3,4)] show ?thesis by (simp del: relock.simps)
  next
    case right
    with Node.IH(2) [OF sub(2) _ Node.prems(3,4)] show ?thesis by (simp del: relock.simps)
  qed
qed simp

text \<open>A lock taken on a node of the tree keeps the invariant; giving it back restores the tree.\<close>

lemma lock_count_pos: "\<not> is_readonly bms \<Longrightarrow> lk + 1 \<noteq> 0 \<Longrightarrow> lock_count bms lk \<noteq> 0"
  by (simp add: lock_count_def)

lemma relock_patricia:
  "patricia bms xs t \<Longrightarrow> locks_room ks t \<Longrightarrow> patricia bms xs (relock (lock_count bms) ks t)"
proof (induction t arbitrary: xs)
  case (Node q lk info l r)
  then show ?case using lock_count_pos [of bms lk] by (auto simp: lock_count_def)
qed simp

lemma relock_unlock:
  assumes "patricia bms xs t" "locks_room (p_bits k) t" "x \<in> set (preorder t)" "prefix_ok k" "p_bits k = p_bits x"
  shows "node_unlock bms stray (relock (lock_count bms) (p_bits k) t) k = Inr (t, False, 0)"
  using assms
proof (induction t arbitrary: xs)
  case (Node q lk info l r)
  have sub: "patricia bms (p_bits q @ [False]) l" "patricia bms (p_bits q @ [True]) r" using Node.prems(1) by simp_all
  have room: "locks_room (p_bits k) l" "locks_room (p_bits k) r" "p_bits k = p_bits q \<longrightarrow> lk + 1 \<noteq> 0"
    using Node.prems(2) by simp_all
  from Node.prems(1,3-5) show ?case
  proof (cases rule: key_cases [where stray = stray])
    case here
    have "bgp_node_delete (Node q 0 info l r) = Inr (Node q 0 info l r, False)" if "lk = 0"
    proof -
      have "info = empty_info bms" "l \<noteq> Tip" "r \<noteq> Tip" using Node.prems(1) that by simp_all
      then show ?thesis by (cases l; cases r) (simp_all add: empty_info_def list_all_iff)
    qed
    with here room(3) show ?thesis by (auto simp: lock_count_def simp del: bgp_node_delete.simps)
  next
    case left
    with Node.IH(1) [OF sub(1) room(1) _ Node.prems(4,5)] show ?thesis by (simp del: relock.simps)
  next
    case right
    with Node.IH(2) [OF sub(2) room(2) _ Node.prems(4,5)] show ?thesis by (simp del: relock.simps)
  qed
qed simp

text \<open>A walk: the first node, then \<open>bgp_route_next\<close> until there is none, as every loop over a table does.
  The nodes met, and where the walk is after \<open>n\<close> steps.\<close>

fun table_walk :: "misc_db \<Rightarrow> u8 \<Rightarrow> nat \<Rightarrow> 'i bgp_table \<Rightarrow> prefix option
    \<Rightarrow> (prefix list \<times> 'i bgp_table \<times> prefix option) run" where
  "table_walk bms stray n table None = Inr ([], table, None)"
| "table_walk bms stray 0 table (Some k) = Inr ([], table, Some k)"
| "table_walk bms stray (Suc n) table (Some k) =
     fbind (bgp_route_next bms stray table k) (\<lambda>(table, next).
     fbind (table_walk bms stray n table next) (\<lambda>(ks, table, cur). Inr (k # ks, table, cur)))"

definition locked_at where
  "locked_at bms t k = relock (lock_count bms) (p_bits k) t"

lemma route_next_ok:
  assumes "patricia bms [] t" "\<And>k. k \<in> set (preorder t) \<Longrightarrow> locks_room (p_bits k) t"
    and "preorder t = as @ k # bs" and "t_top table = locked_at bms t k"
  shows "bgp_route_next bms stray table k
    = Inr (table\<lparr>t_top := (case bs of [] \<Rightarrow> t | k' # _ \<Rightarrow> locked_at bms t k')\<rparr>, hd_or bs None)"
proof -
  have k: "k \<in> set (preorder t)" "prefix_ok k"
    using assms(3) preorder_prefix [OF assms(1), of k] by simp_all
  note inv = relock_patricia [OF assms(1) assms(2) [OF k(1)]]
  have nx: "next_node stray (locked_at bms t k) k None = Inr (hd_or bs None)"
    unfolding locked_at_def using assms(3) k(2) by (intro next_node_ok [OF inv]) simp_all
  have un: "node_unlock bms stray (locked_at bms t k) k = Inr (t, False, 0)"
    unfolding locked_at_def by (rule relock_unlock [OF assms(1) assms(2) [OF k(1)] k refl])
  show ?thesis
  proof (cases bs)
    case Nil
    with nx un assms(4) show ?thesis
      by (simp add: bgp_route_next_def bgp_unlock_node_def hd_or_def)
  next
    case (Cons k' bs')
    have k': "k' \<in> set (preorder t)" "prefix_ok k'" "p_bits k \<noteq> p_bits k'"
      using assms(3) Cons preorder_prefix [OF assms(1), of k'] distinct_preorder [OF assms(1)] by auto
    have lk: "node_lock bms stray (locked_at bms t k) k' = Inr (locked_at bms (locked_at bms t k') k)"
      unfolding locked_at_def relock_commute [OF k'(3)]
      using k' by (intro node_lock_ok [OF inv, of k']) simp_all
    have "node_unlock bms stray (locked_at bms (locked_at bms t k') k) k = Inr (locked_at bms t k', False, 0)"
      unfolding locked_at_def using k assms(2) [OF k(1)] locks_room_relock [OF k'(3)]
      by (intro relock_unlock [OF relock_patricia [OF assms(1) assms(2) [OF k'(1)]]]) simp_all
    with nx lk assms(4) Cons show ?thesis
      by (simp add: bgp_route_next_def bgp_unlock_node_def hd_or_def)
  qed
qed

lemma table_walk_from:
  assumes "patricia bms [] t" "\<And>k. k \<in> set (preorder t) \<Longrightarrow> locks_room (p_bits k) t"
  shows "preorder t = as @ k # bs \<Longrightarrow> t_top table = locked_at bms t k \<Longrightarrow> length bs < n \<Longrightarrow>
    table_walk bms stray n table (Some k) = Inr (k # bs, table\<lparr>t_top := t\<rparr>, None)"
proof (induction bs arbitrary: as k n table)
  case Nil
  from route_next_ok [OF assms Nil(1,2)] Nil(3) show ?case by (cases n) (simp_all add: hd_or_def)
next
  case (Cons k' bs)
  then obtain m where n: "n = Suc m" by (cases n) auto
  have "table_walk bms stray m (table\<lparr>t_top := locked_at bms t k'\<rparr>) (Some k')
      = Inr (k' # bs, table\<lparr>t_top := t\<rparr>, None)"
    using Cons.IH [of "as @ [k]" k' "table\<lparr>t_top := locked_at bms t k'\<rparr>" m] Cons.prems n by simp
  with route_next_ok [OF assms Cons.prems(1,2)] n show ?case by (simp add: hd_or_def)
qed

lemma table_walk_ok:
  assumes "table_ok bms table" "\<And>k. k \<in> set (preorder (t_top table)) \<Longrightarrow> locks_room (p_bits k) (t_top table)"
    and "bgp_table_top bms (Some table) = (Some table', start)" "t_count table \<le> n"
  shows "table_walk bms stray n table' start = Inr (preorder (t_top table), table, None)"
proof (cases "t_top table")
  case Tip
  with assms(3) show ?thesis by (auto simp: bgp_table_top_def)
next
  case (Node q lk info l r)
  have inv: "patricia bms [] (t_top table)" using assms(1) by (simp add: table_ok_def)
  have top: "table' = table\<lparr>t_top := locked_at bms (t_top table) q\<rparr>" "start = Some q"
    using assms(3) Node by (auto simp: bgp_table_top_def locked_at_def)
  have pre: "preorder (t_top table) = [] @ q # preorder l @ preorder r" using Node by simp
  have "length (preorder t) = num_nodes t" for t :: "'a bgp_node" by (induction t) auto
  moreover have "num_nodes (t_top table) \<le> n" using assms(1,4) by (simp add: table_ok_def)
  ultimately have "length (preorder l @ preorder r) < n" using Node by simp
  from table_walk_from [OF inv assms(2) pre _ this] top pre show ?thesis by simp
qed

section \<open>The lookup, with its lock\<close>

lemma rib_preorder: "rib t ks = Some e \<Longrightarrow> \<exists>x \<in> set (preorder t). p_bits x = ks"
  by (induction t) (auto split: if_splits)

lemma table_match_ok:
  fixes table :: "'i bgp_table" and bms :: misc_db and mf :: "(nat \<Rightarrow> nat) option"
  defines "m \<equiv> (case mf of None \<Rightarrow> 0 | Some f \<Rightarrow> f (match_buckets bms))"
  assumes "table_ok bms table" "prefix_ok p" "m + modulo_idx_max bms \<le> length (empty_info bms :: 'i list list)"
  shows "\<exists>found. match_ok ok p m (modulo_idx_max bms) (t_top table) None found
    \<and> bgp_node_match bms stray table p mf ok False
        = Inr (case found of None \<Rightarrow> table
               | Some (q, x) \<Rightarrow> table\<lparr>t_top := relock (lock_count bms) (p_bits q) (t_top table)\<rparr>, found, None)"
proof -
  have inv: "patricia bms [] (t_top table)" using assms(2) by (simp add: table_ok_def)
  from node_match_ok [OF inv assms(3,4), of ok stray None] obtain found where
    f: "node_match ok stray p m (modulo_idx_max bms) (t_top table) (None, None) = Inr (found, None)"
      "match_ok ok p m (modulo_idx_max bms) (t_top table) None found"
    by blast
  show ?thesis
  proof (cases found)
    case None
    with f show ?thesis by (auto simp: bgp_node_match_def m_def)
  next
    case (Some qx)
    then obtain q x where q: "found = Some (q, x)" "prefix_ok q"
      "hit ok p m (modulo_idx_max bms) (t_top table) (p_bits q) x"
      using f(2) by (auto simp: match_ok_def split: if_splits)
    then obtain y where "y \<in> set (preorder (t_top table))" "p_bits q = p_bits y"
      by (auto simp: hit_def dest!: rib_preorder)
    with node_lock_ok [OF inv this(1) q(2) this(2), of stray] f q show ?thesis
      by (auto simp: bgp_node_match_def m_def)
  qed
qed

text \<open>With the vector: the same result and lock as without it, and all matches, unless these are more than
  the vector holds.\<close>

lemma table_match_vector:
  fixes table :: "'i bgp_table" and bms :: misc_db and mf :: "(nat \<Rightarrow> nat) option"
  defines "m \<equiv> (case mf of None \<Rightarrow> 0 | Some f \<Rightarrow> f (match_buckets bms))"
  assumes "table_ok bms table" "prefix_ok p" "m + modulo_idx_max bms \<le> length (empty_info bms :: 'i list list)"
    and "bgp_node_match bms stray table p mf ok False = Inr (table', found, None)"
  shows "bgp_node_match bms stray table p mf ok True
    = (if length (match_vector ok stray p m (modulo_idx_max bms) (t_top table)) \<le> BGP_NODE_VECTOR_MAX_DEPTH
       then Inr (table', found, Some (match_vector ok stray p m (modulo_idx_max bms) (t_top table))) else Inl OutOfBounds)"
proof -
  let ?ms = "match_vector ok stray p m (modulo_idx_max bms) (t_top table)"
  have inv: "patricia bms [] (t_top table)" using assms(2) by (simp add: table_ok_def)
  from node_match_ok [OF inv assms(3,4), of ok stray None] obtain f where
    f: "node_match ok stray p m (modulo_idx_max bms) (t_top table) (None, None) = Inr (f, None)"
    by blast
  have "node_match ok stray p m (modulo_idx_max bms) (t_top table) (None, Some [])
      = (if length ?ms \<le> BGP_NODE_VECTOR_MAX_DEPTH then Inr (f, Some ?ms) else Inl OutOfBounds)"
    using pushes_match [of ok stray p m "modulo_idx_max bms" "t_top table"] f unfolding pushes_def by fastforce
  with f assms(5) show ?thesis
    by (cases f; cases "node_lock bms stray (t_top table) (fst (the f))") (auto simp: bgp_node_match_def m_def)
qed

lemma table_vector_matches:
  assumes "table_ok bms table" "prefix_ok p"
  shows "(q, x) \<in> set (match_vector ok stray p m n (t_top table)) \<Longrightarrow> hit ok p m n (t_top table) (p_bits q) x"
    and "hit ok p m n (t_top table) ks x \<Longrightarrow> length ks < p_len p
      \<Longrightarrow> \<exists>q. p_bits q = ks \<and> (q, x) \<in> set (match_vector ok stray p m n (t_top table))"
  using matches_hits [of bms "[]" "t_top table" p ok stray m n] assms by (auto simp: table_ok_def)

end
