(* ===== verification/BgpOpen.thy ===== *)
theory BgpOpen
  imports BgpAspath
begin

text \<open>
  The opening of a session (bgp\_msg.c, bgp\_packet.h): the messages the daemon writes (KEEPALIVE,
  OPEN, NOTIFICATION), the reading of NOTIFICATION, and \<open>bgp_parse_open_msg\<close> with its two nested
  loops over options and capabilities. A packet is the list of the bytes that may be read from its
  pointer on; what is read behind them is \<open>OutOfBounds\<close>. The callers never pass null pointers.
\<close>

section \<open>Constants and the layout of the header\<close>

definition BGP_BUFFER_SIZE :: nat where "BGP_BUFFER_SIZE = 100000"
definition BGP_MARKER_SIZE :: nat where "BGP_MARKER_SIZE = 16"
definition BGP_HEADER_SIZE :: nat where "BGP_HEADER_SIZE = 19"
definition BGP_MIN_OPEN_MSG_SIZE :: nat where "BGP_MIN_OPEN_MSG_SIZE = 29"
definition BGP_MIN_NOTIFICATION_MSG_SIZE :: nat where "BGP_MIN_NOTIFICATION_MSG_SIZE = 21"
definition BGP_MAX_MSGLEN :: nat where "BGP_MAX_MSGLEN = 4096"
definition BGP_NOTIFY_CEASE_SM_LEN :: nat where "BGP_NOTIFY_CEASE_SM_LEN = 255"

definition BGP_OPEN :: u8 where "BGP_OPEN = 1"
definition BGP_UPDATE :: u8 where "BGP_UPDATE = 2"
definition BGP_NOTIFICATION :: u8 where "BGP_NOTIFICATION = 3"
definition BGP_KEEPALIVE :: u8 where "BGP_KEEPALIVE = 4"
definition BGP_ROUTE_REFRESH :: u8 where "BGP_ROUTE_REFRESH = 5"
definition BGP_VERSION4 :: u8 where "BGP_VERSION4 = 4"

definition BGP_NOTIFY_CEASE :: u8 where "BGP_NOTIFY_CEASE = 6"
definition BGP_NOTIFY_CEASE_ADMIN_SHUTDOWN :: u8 where "BGP_NOTIFY_CEASE_ADMIN_SHUTDOWN = 2"
definition BGP_NOTIFY_CEASE_ADMIN_RESET :: u8 where "BGP_NOTIFY_CEASE_ADMIN_RESET = 4"

definition BGP_OPTION_CAPABILITY :: u8 where "BGP_OPTION_CAPABILITY = 2"
definition BGP_CAPABILITY_MULTIPROTOCOL :: u8 where "BGP_CAPABILITY_MULTIPROTOCOL = 1"
definition BGP_CAPABILITY_ROUTE_REFRESH :: u8 where "BGP_CAPABILITY_ROUTE_REFRESH = 2"
definition BGP_CAPABILITY_EXTENDED_NEXT_HOP_ENCODING :: u8 where
  "BGP_CAPABILITY_EXTENDED_NEXT_HOP_ENCODING = 5"
definition BGP_CAPABILITY_4_OCTET_AS_NUMBER :: u8 where "BGP_CAPABILITY_4_OCTET_AS_NUMBER = 0x41"
definition BGP_CAPABILITY_ADD_PATHS :: u8 where "BGP_CAPABILITY_ADD_PATHS = 0x45"
definition CAPABILITY_CODE_AS4_LEN :: u8 where "CAPABILITY_CODE_AS4_LEN = 4"
definition BGP_AS_TRANS :: nat where "BGP_AS_TRANS = 23456"

lemmas msg_consts = BGP_BUFFER_SIZE_def BGP_MARKER_SIZE_def BGP_HEADER_SIZE_def
  BGP_MIN_OPEN_MSG_SIZE_def BGP_MIN_NOTIFICATION_MSG_SIZE_def BGP_MAX_MSGLEN_def
  BGP_NOTIFY_CEASE_SM_LEN_def BGP_OPEN_def BGP_UPDATE_def BGP_NOTIFICATION_def BGP_KEEPALIVE_def
  BGP_ROUTE_REFRESH_def BGP_VERSION4_def BGP_NOTIFY_CEASE_def
  BGP_NOTIFY_CEASE_ADMIN_SHUTDOWN_def BGP_NOTIFY_CEASE_ADMIN_RESET_def

lemmas cap_consts = BGP_OPTION_CAPABILITY_def BGP_CAPABILITY_MULTIPROTOCOL_def
  BGP_CAPABILITY_ROUTE_REFRESH_def BGP_CAPABILITY_EXTENDED_NEXT_HOP_ENCODING_def
  BGP_CAPABILITY_4_OCTET_AS_NUMBER_def BGP_CAPABILITY_ADD_PATHS_def CAPABILITY_CODE_AS4_LEN_def
  BGP_AS_TRANS_def

text \<open>The return codes \<open>SUCCESS\<close> and \<open>ERR\<close>.\<close>

definition SUCCESS :: int where "SUCCESS = 0"
definition ERR :: int where "ERR = -1"

text \<open>Reading one octet, a block of octets, and big-endian numbers at an offset.\<close>

definition peek :: "u8 list \<Rightarrow> nat \<Rightarrow> u8 run" where
  "peek s i = (if i < length s then Inr (s ! i) else Inl OutOfBounds)"

definition block :: "u8 list \<Rightarrow> nat \<Rightarrow> nat \<Rightarrow> u8 list run" where
  "block s i n = (if i + n \<le> length s then Inr (take n (drop i s)) else Inl OutOfBounds)"

definition peek16 :: "u8 list \<Rightarrow> nat \<Rightarrow> u16 run" where
  "peek16 s i = (case rd16 (drop i s) of None \<Rightarrow> Inl OutOfBounds | Some w \<Rightarrow> Inr w)"

definition peek32 :: "u8 list \<Rightarrow> nat \<Rightarrow> u32 run" where
  "peek32 s i = (case rd32 (drop i s) of None \<Rightarrow> Inl OutOfBounds | Some w \<Rightarrow> Inr w)"

definition bgp_max_msglen_check :: "nat \<Rightarrow> bool" where
  "bgp_max_msglen_check len \<longleftrightarrow> len \<le> BGP_MAX_MSGLEN"

fun bgp_marker_check :: "u8 list \<Rightarrow> nat \<Rightarrow> bool run" where
  "bgp_marker_check s 0 = Inr True"
| "bgp_marker_check [] (Suc n) = Inl OutOfBounds"
| "bgp_marker_check (b # s) (Suc n) = (if b \<noteq> 0xff then Inr False else bgp_marker_check s n)"

section \<open>Configuration\<close>

text \<open>
  What the code reads from \<open>config\<close> and from the database of the daemon: \<open>has_id_check\<close> tells
  whether the function pointer \<open>bgp_msg_open_router_id_check\<close> is set (to \<open>bgp_router_id_check\<close>; it is
  null in the BMP daemon). \<open>inet_aton\<close> and \<open>inet_pton6\<close> are \<open>inet_aton\<close> and \<open>inet_pton (AF_INET6)\<close> of the C library.
\<close>

record bgp_config =
  disable_router_id_check :: bool
  has_id_check :: bool
  cap_add_path_ignore :: bool
  tmp_route_refresh :: bool
  comms_num :: bool
  daemon_as :: u32
  daemon_ip :: "string option"
  daemon_id :: "string option"
  inet_aton :: "string \<Rightarrow> u8 list option"
  inet_pton6 :: "string \<Rightarrow> u8 list option"

type_synonym host_addr = "nat \<times> u8 list"

definition str_to_addr :: "bgp_config \<Rightarrow> string \<Rightarrow> host_addr \<Rightarrow> host_addr" where
  "str_to_addr cfg str a =
     (case inet_aton cfg str of Some x \<Rightarrow> (AF_INET, x)
      | None \<Rightarrow> (case inet_pton6 cfg str of Some x \<Rightarrow> (AF_INET6, x) | None \<Rightarrow> a))"

definition is_any :: "host_addr \<Rightarrow> bool" where
  "is_any a \<longleftrightarrow> fst a = AF_INET \<and> take 4 (snd a) = replicate 4 0
     \<or> fst a = AF_INET6 \<and> take 16 (snd a) = replicate 16 0"

text \<open>The identifiers of peers are only ever set to four octets or to zero, so comparing family and
  octets is the \<open>memcmp\<close> of the code.\<close>

definition bgp_router_id_check :: "bgp_peer list \<Rightarrow> bgp_peer \<Rightarrow> int" where
  "bgp_router_id_check peers peer =
     (if \<not> peer_ok (Some peer) then ERR
      else if list_ex (\<lambda>i. i \<noteq> bp_idx peer \<and> bp_id (peers ! i) = bp_id peer) [0..<length peers]
           then ERR else 0)"

section \<open>Messages written\<close>

definition marker :: "u8 list" where "marker = replicate BGP_MARKER_SIZE 0xff"

definition bgp_write_keepalive_msg :: "u8 list" where
  "bgp_write_keepalive_msg = marker @ bytes16 (u16n BGP_HEADER_SIZE) @ [BGP_KEEPALIVE]"

text \<open>The router identifier of the reply: the configured one, else the configured address, else
  1.2.3.4 (\<open>my_id_static\<close>), provided they are IPv4 and not all zero.\<close>

definition id_trial :: "bgp_config \<Rightarrow> string option \<Rightarrow> host_addr \<Rightarrow> host_addr" where
  "id_trial cfg s cur =
     (case s of None \<Rightarrow> cur
      | Some str \<Rightarrow>
          if \<not> is_any (str_to_addr cfg str (0, replicate 16 0)) \<and> fst cur = 0
          then let a = str_to_addr cfg str cur
               in if fst a \<noteq> AF_INET then (0, replicate 16 0) else a
          else cur)"

definition my_router_id :: "bgp_config \<Rightarrow> u8 list" where
  "my_router_id cfg =
     (let a = id_trial cfg (daemon_ip cfg) (id_trial cfg (daemon_id cfg) (0, replicate 16 0));
          a = (if fst a = 0 then str_to_addr cfg ''1.2.3.4'' a else a)
      in take 4 (snd a))"

text \<open>
  \<open>cp\<close> is the block of capabilities to reply and \<open>as4_at\<close> the place of the four-octet AS number in
  it. \<open>junk\<close> is the octet that is in the buffer of the message at the place of the option length: the
  code sets it only when there are capabilities to send. \<open>None\<close> is the return of \<open>ERR\<close>.
\<close>

definition bgp_write_open_msg ::
  "bgp_config \<Rightarrow> u8 \<Rightarrow> u8 list \<Rightarrow> bgp_peer \<Rightarrow> nat option \<Rightarrow> u8 list option" where
  "bgp_write_open_msg cfg junk cp peer as4_at =
     (if BGP_AS_MAX < bp_myas peer \<and> as4_at = None then None
      else
        let myas = (if BGP_AS_MAX < bp_myas peer then u16n BGP_AS_TRANS else ucast (bp_myas peer));
            cp = (case as4_at of None \<Rightarrow> cp
                  | Some i \<Rightarrow> take i cp @ bytes32 (bp_myas peer) @ drop (i + 4) cp);
            optlen = (if cp \<noteq> [] then u8n (length cp) else junk)
        in Some (marker @ bytes16 (u16n (BGP_MIN_OPEN_MSG_SIZE + unat optlen)) @ [BGP_OPEN]
             @ [BGP_VERSION4] @ bytes16 myas @ bytes16 (bp_ht peer) @ my_router_id cfg @ [optlen]
             @ cp))"

text \<open>
  \<open>bgp_write_notification_msg\<close>: the message is a buffer of \<open>msglen\<close> octets. With a shutdown message
  the octet for its length is not counted in the test of the room, so that one octet behind the
  buffer can be written. The result is what is sent (the first \<open>ret\<close> octets).
\<close>

definition bgp_write_notification_msg ::
  "nat \<Rightarrow> u8 \<Rightarrow> u8 \<Rightarrow> u8 list option \<Rightarrow> u8 list run" where
  "bgp_write_notification_msg msglen n_major n_minor shutdown_msg =
     (if msglen < BGP_MIN_NOTIFICATION_MSG_SIZE then Inr []
      else
        let maj = (if n_major = 0 then BGP_NOTIFY_CEASE else n_major);
            mnr = (if n_minor = 0 then BGP_NOTIFY_CEASE_ADMIN_SHUTDOWN else n_minor);
            head = (\<lambda>len. marker @ bytes16 (u16n len) @ [BGP_NOTIFICATION, maj, mnr])
        in case shutdown_msg of
             None \<Rightarrow> Inr (head BGP_MIN_NOTIFICATION_MSG_SIZE)
           | Some m \<Rightarrow>
               let n = length m mod 65536
               in if n \<le> BGP_NOTIFY_CEASE_SM_LEN \<and> BGP_MIN_NOTIFICATION_MSG_SIZE + n \<le> msglen
                  then if msglen < BGP_MIN_NOTIFICATION_MSG_SIZE + n + 1 then Inl OutOfBounds
                       else Inr (head (BGP_MIN_NOTIFICATION_MSG_SIZE + n + 1) @ [u8n n] @ take n m)
                  else Inr (head BGP_MIN_NOTIFICATION_MSG_SIZE))"

section \<open>NOTIFICATION read\<close>

text \<open>The result: what is returned, the two codes and the text written to a buffer of
  \<open>shutdown_msglen\<close> octets.\<close>

definition bgp_parse_notification_msg ::
  "bgp_peer \<Rightarrow> u8 list \<Rightarrow> nat \<Rightarrow> (int \<times> u8 \<times> u8 \<times> u8 list) run" where
  "bgp_parse_notification_msg peer pkt shutdown_msglen =
     (if bp_msglen peer < BGP_MIN_NOTIFICATION_MSG_SIZE then Inr (ERR, 0, 0, [])
      else
        let rem_len = bp_msglen peer - BGP_MIN_NOTIFICATION_MSG_SIZE
        in fbind (peek pkt 19) (\<lambda>maj. fbind (peek pkt 20) (\<lambda>mnr.
           if maj = BGP_NOTIFY_CEASE
              \<and> (mnr = BGP_NOTIFY_CEASE_ADMIN_SHUTDOWN \<or> mnr = BGP_NOTIFY_CEASE_ADMIN_RESET)
              \<and> rem_len \<noteq> 0
           then fbind (peek pkt BGP_MIN_NOTIFICATION_MSG_SIZE) (\<lambda>l.
                if unat l \<le> rem_len \<and> unat l < shutdown_msglen
                then fbind (block pkt (BGP_MIN_NOTIFICATION_MSG_SIZE + 1) (unat l)) (\<lambda>m.
                     Inr (int (BGP_MIN_NOTIFICATION_MSG_SIZE + unat l + 1), maj, mnr, m))
                else Inr (int BGP_MIN_NOTIFICATION_MSG_SIZE, maj, mnr, []))
           else Inr (int BGP_MIN_NOTIFICATION_MSG_SIZE, maj, mnr, []))))"

section \<open>Capabilities\<close>

text \<open>
  What the loops of \<open>bgp_parse_open_msg\<close> change: the peer, the AS number of the capability, the reply
  under construction (\<open>bgp_open_cap_reply\<close> up to \<open>bgp_open_cap_reply_ptr\<close>) and the place of the AS
  number in it (\<open>cap_as4_ptr\<close>; when off line that pointer goes to the packet and is never used).
\<close>

record open_st =
  o_peer :: bgp_peer
  o_remote_as4 :: u32
  o_as4_at :: "nat option"
  o_reply :: "u8 list"

definition reply_put :: "u8 list \<Rightarrow> open_st \<Rightarrow> open_st run" where
  "reply_put bs st =
     (if length (o_reply st) + length bs \<le> BGP_BUFFER_SIZE - BGP_MIN_OPEN_MSG_SIZE
      then Inr (st\<lparr>o_reply := o_reply st @ bs\<rparr>) else Inl OutOfBounds)"

text \<open>Copying the whole capability to the reply.\<close>

definition reply_copy :: "u8 list \<Rightarrow> u8 \<Rightarrow> open_st \<Rightarrow> open_st run" where
  "reply_copy s cap_len st = fbind (block s 0 (unat cap_len + 2)) (\<lambda>bs. reply_put bs st)"

definition cap_multiprotocol :: "bool \<Rightarrow> u8 list \<Rightarrow> u8 \<Rightarrow> open_st \<Rightarrow> open_st run" where
  "cap_multiprotocol online s cap_len st =
     fbind (block s 2 4) (\<lambda>_.
       let st = st\<lparr>o_peer := (o_peer st)\<lparr>bp_cap_mp := True\<rparr>\<rparr>
       in if online then reply_copy s cap_len st else Inr st)"

definition cap_as4 :: "bool \<Rightarrow> u8 list \<Rightarrow> u8 \<Rightarrow> open_st \<Rightarrow> open_st run" where
  "cap_as4 online s cap_len st =
     fbind (peek32 s 2) (\<lambda>asn.
       let st = st\<lparr>o_peer := (o_peer st)\<lparr>bp_cap_4as := \<lparr>is_used = True, as4 = asn\<rparr>\<rparr>,
                  o_remote_as4 := asn\<rparr>
       in if online then reply_copy s cap_len (st\<lparr>o_as4_at := Some (length (o_reply st) + 2)\<rparr>)
          else Inr st)"

text \<open>One entry of ADD-PATH: it is recorded when it fits the array, \<open>sndrcv\<close> being any value off line
  and 2 or 3 on line.\<close>

definition add_path_set :: "u16 \<Rightarrow> u8 \<Rightarrow> u8 \<Rightarrow> bgp_peer \<Rightarrow> bgp_peer" where
  "add_path_set afi safi sndrcv peer =
     (if unat afi < AFI_MAX \<and> unat safi < SAFI_MAX
      then let c = bp_cap_add_paths peer
           in peer\<lparr>bp_cap_add_paths :=
                \<lparr>cap = (cap c)(unat afi := (cap c (unat afi))(unat safi := sndrcv)),
                 afi_max = max (afi_max c) (unat afi), safi_max = max (safi_max c) (unat safi)\<rparr>\<rparr>
      else peer)"

text \<open>\<open>at\<close> is the place of the length of the capability in the reply, once its head was written
  (\<open>cap_set\<close>, \<open>cap_newlen_ptr\<close>).\<close>

function add_paths_loop ::
  "bool \<Rightarrow> u8 list \<Rightarrow> nat \<Rightarrow> nat \<Rightarrow> nat option \<Rightarrow> open_st \<Rightarrow> open_st run" where
  "add_paths_loop online s cap_len cap_idx at st =
     (if cap_len \<le> cap_idx then Inr st
      else fbind (block s (2 + cap_idx) 4) (\<lambda>d.
        let afi = be16 (d ! 0) (d ! 1); safi = d ! 2; sndrcv = d ! 3
        in if (\<not> online \<and> sndrcv \<noteq> 0) \<or> (online \<and> (sndrcv = 2 \<or> sndrcv = 3))
           then let st = st\<lparr>o_peer := add_path_set afi safi sndrcv (o_peer st)\<rparr>
                in if online
                   then fbind (case at of
                                 None \<Rightarrow> fbind (reply_put [s ! 0, 0] st) (\<lambda>st'.
                                           Inr (length (o_reply st) + 1, st'))
                               | Some i \<Rightarrow> Inr (i, st)) (\<lambda>(i, st).
                        let st = st\<lparr>o_reply := (o_reply st)[i := (o_reply st ! i) + 4]\<rparr>
                        in fbind (reply_put [d ! 0, d ! 1, safi, 1] st)
                             (add_paths_loop online s cap_len (cap_idx + 4) (Some i)))
                   else add_paths_loop online s cap_len (cap_idx + 4) at st
           else add_paths_loop online s cap_len (cap_idx + 4) at st))"
  by pat_completeness auto
termination
  by (relation "measure (\<lambda>(online, s, cap_len, cap_idx, at, st). cap_len - cap_idx)") auto

declare add_paths_loop.simps [simp del]

definition cap_add_paths :: "bgp_config \<Rightarrow> bool \<Rightarrow> u8 list \<Rightarrow> u8 \<Rightarrow> open_st \<Rightarrow> open_st run" where
  "cap_add_paths cfg online s cap_len st =
     (if cap_add_path_ignore cfg then Inr st else add_paths_loop online s (unat cap_len) 0 None st)"

definition cap_route_refresh :: "bgp_config \<Rightarrow> u8 list \<Rightarrow> u8 \<Rightarrow> open_st \<Rightarrow> open_st run" where
  "cap_route_refresh cfg s cap_len st =
     (if tmp_route_refresh cfg then reply_copy s cap_len st else Inr st)"

text \<open>Extended next hop: entries of six octets are read (and only logged).\<close>

definition cap_ext_next_hop :: "bool \<Rightarrow> u8 list \<Rightarrow> u8 \<Rightarrow> open_st \<Rightarrow> open_st run" where
  "cap_ext_next_hop online s cap_len st =
     fbind (block s 2 ((unat cap_len + 5) div 6 * 6)) (\<lambda>_.
       if online then reply_copy s cap_len st else Inr st)"

text \<open>The first component tells that no error return was met.\<close>

definition capability ::
  "bgp_config \<Rightarrow> bool \<Rightarrow> u8 list \<Rightarrow> u8 \<Rightarrow> u8 \<Rightarrow> open_st \<Rightarrow> (bool \<times> open_st) run" where
  "capability cfg online s cap_type cap_len st =
     (let ok = (\<lambda>r. fbind r (\<lambda>st. Inr (True, st)))
      in if cap_type = BGP_CAPABILITY_MULTIPROTOCOL then ok (cap_multiprotocol online s cap_len st)
         else if cap_type = BGP_CAPABILITY_4_OCTET_AS_NUMBER then
           (if cap_len = CAPABILITY_CODE_AS4_LEN then ok (cap_as4 online s cap_len st)
            else Inr (False, st))
         else if cap_type = BGP_CAPABILITY_ADD_PATHS then ok (cap_add_paths cfg online s cap_len st)
         else if cap_type = BGP_CAPABILITY_ROUTE_REFRESH then ok (cap_route_refresh cfg s cap_len st)
         else if cap_type = BGP_CAPABILITY_EXTENDED_NEXT_HOP_ENCODING
           then ok (cap_ext_next_hop online s cap_len st)
         else Inr (True, st))"

function cap_loop ::
  "bgp_config \<Rightarrow> bool \<Rightarrow> u8 list \<Rightarrow> int \<Rightarrow> open_st \<Rightarrow> (bool \<times> open_st) run" where
  "cap_loop cfg online s optcap_len st =
     (if optcap_len \<le> 0 then Inr (True, st)
      else case s of
        cap_type # cap_len # _ \<Rightarrow>
          if optcap_len < int (unat cap_len) then Inr (False, st)
          else fbind (capability cfg online s cap_type cap_len st) (\<lambda>(ok, st).
                 if ok then cap_loop cfg online (drop (unat cap_len + 2) s)
                              (optcap_len - (int (unat cap_len) + 2)) st
                 else Inr (False, st))
      | _ \<Rightarrow> Inl OutOfBounds)"
  by pat_completeness auto
termination
  by (relation "measure (\<lambda>(cfg, online, s, optcap_len, st). nat optcap_len)") auto

declare cap_loop.simps [simp del]

section \<open>Options\<close>

text \<open>After the capabilities of an option the length octet of its copy is set, or the copy is taken
  back when no capability was answered.\<close>

definition close_option :: "nat \<Rightarrow> open_st \<Rightarrow> open_st" where
  "close_option base st =
     (if base + 2 < length (o_reply st)
      then st\<lparr>o_reply := (o_reply st)[base + 1 := u8n (length (o_reply st) - base - 2)]\<rparr>
      else st\<lparr>o_reply := take base (o_reply st)\<rparr>)"

text \<open>The loop over the options. Its counter \<open>len\<close> is an octet, and the length of an option is
  compared with it before the two octets of the option's head are taken off.\<close>

function opt_loop ::
  "bgp_config \<Rightarrow> bool \<Rightarrow> u8 list \<Rightarrow> u8 \<Rightarrow> open_st \<Rightarrow> (bool \<times> open_st) run" where
  "opt_loop cfg online s len st =
     (if len = 0 then Inr (True, st)
      else case s of
        opt_type # opt_len # s2 \<Rightarrow>
          if len < opt_len then Inr (False, st)
          else if opt_type = BGP_OPTION_CAPABILITY then
            fbind (reply_put [opt_type, opt_len] st) (\<lambda>st1.
            fbind (cap_loop cfg online s2 (int (unat opt_len)) st1) (\<lambda>(ok, st2).
              if ok then opt_loop cfg online (drop (unat opt_len) s2) (len - 2 - opt_len)
                           (close_option (length (o_reply st)) st2)
              else Inr (False, st2)))
          else opt_loop cfg online (drop (unat opt_len) s2) (len - 2 - opt_len) st
      | _ \<Rightarrow> Inl OutOfBounds)"
  by pat_completeness auto
termination
  by (relation "measure (\<lambda>(cfg, online, s, len, st). length s)") auto

declare opt_loop.simps [simp del]

section \<open>OPEN\<close>

text \<open>The AS number of the peer, from the two-octet field and the capability; \<open>None\<close> is an error.\<close>

definition remote_asn :: "u16 \<Rightarrow> u32 \<Rightarrow> u32 option" where
  "remote_asn remote_as remote_as4 =
     (if unat remote_as = BGP_AS_TRANS
      then if remote_as4 \<noteq> 0 \<and> unat remote_as4 \<noteq> BGP_AS_TRANS then Some remote_as4 else None
      else if remote_as4 = 0 \<or> unat remote_as4 = unat remote_as then Some (ucast remote_as)
      else None)"

text \<open>The options, when there is room for at least one; \<open>False\<close> is an error return.\<close>

definition open_options ::
  "bgp_config \<Rightarrow> bool \<Rightarrow> u8 list \<Rightarrow> u8 \<Rightarrow> open_st \<Rightarrow> (bool \<times> open_st) run" where
  "open_options cfg online pkt optlen st =
     (if 2 \<le> unat optlen
      then fbind (peek16 pkt 16) (\<lambda>bgpo_len.
           if unat bgpo_len < BGP_MIN_OPEN_MSG_SIZE + unat optlen then Inr (False, st)
           else opt_loop cfg online (drop BGP_MIN_OPEN_MSG_SIZE pkt) optlen st)
      else Inr (True, st))"

text \<open>The reply to an OPEN message on line: one packet of OPEN and KEEPALIVE.\<close>

definition open_reply ::
  "bgp_config \<Rightarrow> u8 \<Rightarrow> nat \<Rightarrow> open_st \<Rightarrow> bgp_peer \<times> u8 list option" where
  "open_reply cfg junk now st =
     (let peer = (o_peer st)\<lparr>bp_myas := if daemon_as cfg = 0 then bp_as (o_peer st) else daemon_as cfg\<rparr>
      in case bgp_write_open_msg cfg junk (o_reply st) peer (o_as4_at st) of
           None \<Rightarrow> (peer, None)
         | Some m \<Rightarrow> (peer\<lparr>bp_last_keepalive := now\<rparr>, Some (m @ bgp_write_keepalive_msg)))"

text \<open>\<open>bgp_parse_open_msg\<close>: the value returned, the peer and the packets sent. \<open>peers\<close> are the peers of
  the daemon, read by the check of router identifiers.\<close>

definition bgp_parse_open_msg ::
  "bgp_config \<Rightarrow> bgp_peer list \<Rightarrow> u8 \<Rightarrow> bgp_peer \<Rightarrow> u8 list \<Rightarrow> nat \<Rightarrow> bool
    \<Rightarrow> (int \<times> bgp_peer \<times> u8 list list) run" where
  "bgp_parse_open_msg cfg peers junk peer pkt now online =
     (if \<not> peer_ok (Some peer) then Inr (ERR, peer, [])
      else if online \<and> OpenSent \<le> bp_status peer then Inr (ERR, peer, [])
      else
        let peer = peer\<lparr>bp_status := Active\<rparr>
        in fbind (peek pkt 19) (\<lambda>version.
           if version \<noteq> BGP_VERSION4 then Inr (ERR, peer, [])
           else fbind (peek16 pkt 20) (\<lambda>remote_as. fbind (peek16 pkt 22) (\<lambda>hold.
                fbind (block pkt 24 4) (\<lambda>rid. fbind (peek pkt 28) (\<lambda>optlen.
           let peer = peer\<lparr>bp_ht := max 5 hold, bp_id := (AF_INET, rid), bp_version := BGP_VERSION4\<rparr>;
               chk = (if \<not> disable_router_id_check cfg \<and> has_id_check cfg
                      then bgp_router_id_check peers peer else 0)
           in if chk \<noteq> 0 then Inr (chk, peer, [])
              else fbind (open_options cfg online pkt optlen
                     \<lparr>o_peer = peer, o_remote_as4 = 0, o_as4_at = None, o_reply = []\<rparr>) (\<lambda>(ok, st).
                if \<not> ok then Inr (ERR, o_peer st, [])
                else case remote_asn remote_as (o_remote_as4 st) of
                  None \<Rightarrow> Inr (ERR, o_peer st, [])
                | Some asn \<Rightarrow>
                    let st = st\<lparr>o_peer := (o_peer st)\<lparr>bp_as := asn\<rparr>\<rparr>;
                        ret = int (BGP_MIN_OPEN_MSG_SIZE + unat optlen)
                    in if online
                       then case open_reply cfg junk now st of
                              (peer, None) \<Rightarrow> Inr (ERR, peer, [])
                            | (peer, Some m) \<Rightarrow> Inr (ret, peer\<lparr>bp_status := Established\<rparr>, [m])
                       else Inr (ret, (o_peer st)\<lparr>bp_status := Established\<rparr>, []))))))))"

end
