(* ===== verification/BgpAttr.thy ===== *)
theory BgpAttr
  imports AspathPool BgpCommunity BgpOpen
begin

text \<open>
  Path attributes and their table (bgp\_util.c, bgp.h, bgp\_table.h, network.h): the record that an
  UPDATE message fills, route distinguishers, the extra attributes of a route, the hash key and the
  comparison of attributes, \<open>bgp_attr_intern\<close> and \<open>bgp_attr_unintern\<close> over the five pools of the
  routing database, and the use of AS4\_PATH. The host is little-endian.
\<close>

section \<open>Memory read as numbers on the host\<close>

definition le32 :: "u8 list \<Rightarrow> u32" where
  "le32 bs = u32n (unat (bs ! 0) + unat (bs ! 1) * 256 + unat (bs ! 2) * 65536
     + unat (bs ! 3) * 16777216)"

section \<open>Route distinguishers\<close>

definition RD_TYPE_AS :: u16 where "RD_TYPE_AS = 0"
definition RD_TYPE_IP :: u16 where "RD_TYPE_IP = 1"
definition RD_TYPE_AS4 :: u16 where "RD_TYPE_AS4 = 2"
definition RD_TYPE_MASK :: u16 where "RD_TYPE_MASK = 0x0FFF"
definition RD_ORIGIN_BGP :: u16 where "RD_ORIGIN_BGP = 0x4000"
definition RD_ORIGIN_MASK :: u16 where "RD_ORIGIN_MASK = 0xF000"

lemmas rd_consts = RD_TYPE_AS_def RD_TYPE_IP_def RD_TYPE_AS4_def RD_TYPE_MASK_def
  RD_ORIGIN_BGP_def RD_ORIGIN_MASK_def

text \<open>\<open>rd_t\<close> is \<open>struct rd_as\<close>; the packed structures \<open>rd_ip\<close> and \<open>rd_as4\<close> have four octets and two on
  the same memory, which \<open>rd_wide\<close> writes through.\<close>

record rd_t =
  rd_type :: u16
  rd_as :: u16
  rd_val :: u32

definition rd_zero :: rd_t where
  "rd_zero = \<lparr>rd_type = 0, rd_as = 0, rd_val = 0\<rparr>"

definition rd_wide :: "u32 \<Rightarrow> u16 \<Rightarrow> rd_t \<Rightarrow> rd_t" where
  "rd_wide admin val rd =
     rd\<lparr>rd_as := ucast admin, rd_val := drop_bit 16 admin OR push_bit 16 (ucast val)\<rparr>"

definition bgp_rd_type_get :: "u16 \<Rightarrow> u16" where
  "bgp_rd_type_get t = t AND RD_TYPE_MASK"

definition bgp_rd_origin_get :: "u16 \<Rightarrow> u16" where
  "bgp_rd_origin_get t = t AND RD_ORIGIN_MASK"

definition bgp_rd_origin_set :: "rd_t \<Rightarrow> u16 \<Rightarrow> rd_t" where
  "bgp_rd_origin_set rd source = rd\<lparr>rd_type := source OR bgp_rd_type_get (rd_type rd)\<rparr>"

section \<open>Attributes\<close>

definition BGP_BMAP_ATTR_MULTI_EXIT_DISC :: u8 where "BGP_BMAP_ATTR_MULTI_EXIT_DISC = 1"
definition BGP_BMAP_ATTR_LOCAL_PREF :: u8 where "BGP_BMAP_ATTR_LOCAL_PREF = 2"
definition BGP_BMAP_ATTR_AIGP :: u8 where "BGP_BMAP_ATTR_AIGP = 4"

lemmas bmap_consts = BGP_BMAP_ATTR_MULTI_EXIT_DISC_def BGP_BMAP_ATTR_LOCAL_PREF_def
  BGP_BMAP_ATTR_AIGP_def

text \<open>\<open>nexthop\<close> are the four octets of the address; a \<open>host_addr\<close> is its family and the octets that
  belong to it, \<open>(0, [])\<close> when it was cleared.\<close>

record bgp_attr =
  at_aspath :: "nat option"
  at_community :: "nat option"
  at_ecommunity :: "nat option"
  at_lcommunity :: "nat option"
  at_refcnt :: nat
  at_rpki_maxlen :: u8
  at_nexthop :: "u8 list"
  at_mp_nexthop :: host_addr
  at_med :: u32
  at_local_pref :: u32
  at_origin :: u8
  at_bitmap :: u8

definition attr_zero :: bgp_attr where
  "attr_zero = \<lparr>at_aspath = None, at_community = None, at_ecommunity = None, at_lcommunity = None,
     at_refcnt = 0, at_rpki_maxlen = 0, at_nexthop = replicate 4 0, at_mp_nexthop = (0, []),
     at_med = 0, at_local_pref = 0, at_origin = 0, at_bitmap = 0\<rparr>"

record bgp_attr_extra =
  ax_bitmap :: u8
  ax_rd :: rd_t
  ax_label :: "u8 list"
  ax_path_id :: u32
  ax_aigp :: u64
  ax_psid_li :: u32
  ax_otc :: u32
  ax_ls :: "(u8 list \<times> nat) option"

definition extra_zero :: bgp_attr_extra where
  "extra_zero = \<lparr>ax_bitmap = 0, ax_rd = rd_zero, ax_label = replicate 3 0, ax_path_id = 0,
     ax_aigp = 0, ax_psid_li = 0, ax_otc = 0, ax_ls = None\<rparr>"

section \<open>Comparing addresses\<close>

fun ip6_addr_cmp_loop :: "u8 list \<Rightarrow> u8 list \<Rightarrow> nat \<Rightarrow> int" where
  "ip6_addr_cmp_loop a b 0 = 0"
| "ip6_addr_cmp_loop a b (Suc n) =
     (if le32 a = le32 b then ip6_addr_cmp_loop (drop 4 a) (drop 4 b) n
      else if le32 b < le32 a then 1 else -1)"

definition ip6_addr_cmp :: "u8 list \<Rightarrow> u8 list \<Rightarrow> int" where
  "ip6_addr_cmp a b = ip6_addr_cmp_loop a b 4"

definition v4_mapped :: "u8 list \<Rightarrow> u8 list" where
  "v4_mapped a = replicate 10 0 @ [0xff, 0xff] @ a"

definition host_addr_cmp2 :: "host_addr \<Rightarrow> host_addr \<Rightarrow> int" where
  "host_addr_cmp2 a1 a2 =
     (if fst a1 = AF_INET \<and> fst a2 = AF_INET
      then if le32 (snd a1) = le32 (snd a2) then 0
           else if le32 (snd a2) < le32 (snd a1) then 1 else -1
      else if fst a1 = AF_INET6 \<and> fst a2 = AF_INET6 then ip6_addr_cmp (snd a1) (snd a2)
      else if fst a1 = AF_INET \<and> fst a2 = AF_INET6 \<and> snd a2 ! 10 = 0xff \<and> snd a2 ! 11 = 0xff
        then ip6_addr_cmp (snd a2) (v4_mapped (snd a1))
      else if fst a1 = AF_INET6 \<and> fst a2 = AF_INET \<and> snd a1 ! 10 = 0xff \<and> snd a1 ! 11 = 0xff
        then ip6_addr_cmp (snd a1) (v4_mapped (snd a2))
      else if fst a1 = 0 \<and> fst a2 = 0 then 0 else -1)"

section \<open>The pools of a routing database\<close>

text \<open>The hash tables of \<open>struct bgp_rt_structs\<close> with the heaps of the objects they hold.\<close>

record attr_db =
  ashash :: "aspath pool"
  comhash :: "community pool"
  ecomhash :: "ecommunity pool"
  lcomhash :: "lcommunity pool"
  attrhash :: "bgp_attr pool"

text \<open>The key of what a pointer of the attribute points to, nothing for a null one. A dangling pointer
  is caught by \<open>attr_alive\<close>, which stands for the dereferences made to compute a key.\<close>

definition ptr_key :: "'o obj_ops \<Rightarrow> 'o pool \<Rightarrow> nat option \<Rightarrow> u32" where
  "ptr_key ops P p = (case p of None \<Rightarrow> 0 | Some a \<Rightarrow> pkey ops (heap P) a)"

definition ptr_alive :: "'o pool \<Rightarrow> nat option \<Rightarrow> unit run" where
  "ptr_alive P p = (case p of None \<Rightarrow> Inr () | Some a \<Rightarrow> fbind (deref P a) (\<lambda>_. Inr ()))"

definition attr_alive :: "attr_db \<Rightarrow> bgp_attr \<Rightarrow> unit run" where
  "attr_alive D x =
     fbind (ptr_alive (ashash D) (at_aspath x)) (\<lambda>_.
     fbind (ptr_alive (comhash D) (at_community x)) (\<lambda>_.
     fbind (ptr_alive (ecomhash D) (at_ecommunity x)) (\<lambda>_.
            ptr_alive (lcomhash D) (at_lcommunity x))))"

definition attrhash_key_make :: "bgp_config \<Rightarrow> bgp_peer option \<Rightarrow> attr_db \<Rightarrow> bgp_attr \<Rightarrow> u32" where
  "attrhash_key_make cfg peer D x =
     ucast (at_origin x) + le32 (at_nexthop x) + at_med x + at_local_pref x + ucast (at_bitmap x)
     + ptr_key aspath_ops (ashash D) (at_aspath x)
     + ptr_key (community_ops (comms_num cfg) peer) (comhash D) (at_community x)
     + ptr_key (ecommunity_ops (comms_num cfg) peer) (ecomhash D) (at_ecommunity x)
     + ptr_key (lcommunity_ops peer) (lcomhash D) (at_lcommunity x)"

definition attrhash_cmp :: "bgp_attr \<Rightarrow> bgp_attr \<Rightarrow> bool" where
  "attrhash_cmp x y \<longleftrightarrow>
     at_rpki_maxlen x = at_rpki_maxlen y \<and> at_bitmap x = at_bitmap y \<and> at_origin x = at_origin y
     \<and> at_nexthop x = at_nexthop y \<and> at_aspath x = at_aspath y \<and> at_community x = at_community y
     \<and> at_ecommunity x = at_ecommunity y \<and> at_lcommunity x = at_lcommunity y
     \<and> at_med x = at_med y \<and> at_local_pref x = at_local_pref y
     \<and> host_addr_cmp2 (at_mp_nexthop x) (at_mp_nexthop y) = 0"

text \<open>The operations record of the attributes, over the other four pools as they are.\<close>

definition attr_ops :: "bgp_config \<Rightarrow> bgp_peer option \<Rightarrow> attr_db \<Rightarrow> bgp_attr obj_ops" where
  "attr_ops cfg peer D =
     \<lparr>o_key = attrhash_key_make cfg peer D, o_cmp = attrhash_cmp, o_ref = at_refcnt,
      o_set_ref = (\<lambda>n x. x\<lparr>at_refcnt := n\<rparr>), o_touch = (\<lambda>x. x), o_mkstr = (\<lambda>x. x)\<rparr>"

definition bgp_attr_init :: "nat \<Rightarrow> attr_db" where
  "bgp_attr_init buckets =
     \<lparr>ashash = aspath_init buckets, comhash = community_init buckets,
      ecomhash = ecommunity_init buckets, lcomhash = lcommunity_init buckets,
      attrhash = pool_init buckets\<rparr>"

section \<open>Interning attributes\<close>

text \<open>An object that was not interned yet is, another one gets one reference more.\<close>

definition intern_ref ::
  "'o obj_ops \<Rightarrow> bgp_peer option \<Rightarrow> 'o pool \<Rightarrow> nat option \<Rightarrow> (nat option \<times> 'o pool) run" where
  "intern_ref ops peer P p =
     (case p of None \<Rightarrow> Inr (None, P)
      | Some a \<Rightarrow> fbind (deref P a) (\<lambda>x.
          if o_ref ops x = 0 then obj_intern ops peer P a
          else fbind (obj_share ops P a) (\<lambda>P. Inr (Some a, P))))"

definition bgp_attr_hash_alloc :: "bgp_attr \<Rightarrow> (bgp_attr \<times> bgp_attr) run" where
  "bgp_attr_hash_alloc val = Inr (val\<lparr>at_refcnt := 0\<rparr>, val)"

definition bgp_attr_intern ::
  "bgp_config \<Rightarrow> bgp_peer option \<Rightarrow> attr_db \<Rightarrow> bgp_attr \<Rightarrow> (nat option \<times> bgp_attr \<times> attr_db) run" where
  "bgp_attr_intern cfg peer D x =
     (if \<not> peer_ok peer then Inr (None, x, D)
      else
        fbind (intern_ref aspath_ops peer (ashash D) (at_aspath x)) (\<lambda>(p1, P1).
        fbind (intern_ref (community_ops (comms_num cfg) peer) peer (comhash D) (at_community x)) (\<lambda>(p2, P2).
        fbind (intern_ref (ecommunity_ops (comms_num cfg) peer) peer (ecomhash D) (at_ecommunity x)) (\<lambda>(p3, P3).
        fbind (intern_ref (lcommunity_ops peer) peer (lcomhash D) (at_lcommunity x)) (\<lambda>(p4, P4).
          let x = x\<lparr>at_aspath := p1, at_community := p2, at_ecommunity := p3, at_lcommunity := p4\<rparr>;
              D = D\<lparr>ashash := P1, comhash := P2, ecomhash := P3, lcomhash := P4\<rparr>
          in fbind (attr_alive D x) (\<lambda>_.
             fbind (obj_get_dup (attr_ops cfg peer D) bgp_attr_hash_alloc peer (attrhash D) x) (\<lambda>(found, P5).
               if found = None then Inl NullDeref
               else Inr (found, x, D\<lparr>attrhash := P5\<rparr>))))))))"

text \<open>Releasing a part of an attribute, if there is one.\<close>

definition unintern_ref ::
  "'o obj_ops \<Rightarrow> bgp_peer option \<Rightarrow> 'o pool \<Rightarrow> nat option \<Rightarrow> 'o pool run" where
  "unintern_ref ops peer P p = (case p of None \<Rightarrow> Inr P | Some a \<Rightarrow> obj_unintern ops peer P (Some a))"

definition unintern_parts ::
  "bgp_config \<Rightarrow> bgp_peer option \<Rightarrow> attr_db \<Rightarrow> bgp_attr \<Rightarrow> attr_db run" where
  "unintern_parts cfg peer D x =
     fbind (unintern_ref aspath_ops peer (ashash D) (at_aspath x)) (\<lambda>P1.
     fbind (unintern_ref (community_ops (comms_num cfg) peer) peer (comhash D) (at_community x)) (\<lambda>P2.
     fbind (unintern_ref (ecommunity_ops (comms_num cfg) peer) peer (ecomhash D) (at_ecommunity x)) (\<lambda>P3.
     fbind (unintern_ref (lcommunity_ops peer) peer (lcomhash D) (at_lcommunity x)) (\<lambda>P4.
       Inr (D\<lparr>ashash := P1, comhash := P2, ecomhash := P3, lcomhash := P4\<rparr>)))))"

text \<open>The count is an \<open>unsigned long\<close>: one less than zero is its greatest value. A failing
  \<open>hash_release\<close> is only logged.\<close>

definition bgp_attr_unintern ::
  "bgp_config \<Rightarrow> bgp_peer option \<Rightarrow> attr_db \<Rightarrow> nat \<Rightarrow> attr_db run" where
  "bgp_attr_unintern cfg peer D a =
     (if \<not> peer_ok peer then Inr D
      else fbind (deref (attrhash D) a) (\<lambda>x.
        let n = (if at_refcnt x = 0 then 2 ^ 64 - 1 else at_refcnt x - 1);
            P = pool_store (attrhash D) a (x\<lparr>at_refcnt := n\<rparr>);
            ops = attr_ops cfg peer D
        in fbind (if n = 0
                  then fbind (attr_alive D x) (\<lambda>_.
                       fbind (hash_release (pkey ops (heap P)) (pcmp ops (heap P)) (tab P) a) (\<lambda>(ret, t).
                         Inr (pool_free (P\<lparr>tab := t\<rparr>) a)))
                  else Inr P) (\<lambda>P.
             unintern_parts cfg peer (D\<lparr>attrhash := P\<rparr>) x)))"

section \<open>AS4\_PATH\<close>

text \<open>\<open>bgp_attr_munge_as4path\<close>: nothing to do for a peer with four-octet AS numbers. The path that the
  reconciliation makes is a new object. When there is no AS\_PATH, there is none either, and the null
  pointer goes to \<open>aspath_unintern\<close>.\<close>

definition bgp_attr_munge_as4path ::
  "bgp_peer \<Rightarrow> attr_db \<Rightarrow> bgp_attr \<Rightarrow> nat \<Rightarrow> (bgp_attr \<times> attr_db) run" where
  "bgp_attr_munge_as4path peer D x as4path =
     (if is_used (bp_cap_4as peer) then Inr (x, D)
      else
        fbind (case at_aspath x of None \<Rightarrow> Inr None
               | Some a \<Rightarrow> fbind (deref (ashash D) a) (\<lambda>p. Inr (Some p))) (\<lambda>p.
        fbind (deref (ashash D) as4path) (\<lambda>p4.
        fbind (aspath_reconcile_as4 p (Some p4)) (\<lambda>newpath.
        fbind (aspath_unintern (Some peer) (ashash D) (at_aspath x)) (\<lambda>P.
          case newpath of
            None \<Rightarrow> Inl NullDeref
          | Some new \<Rightarrow>
              (case pool_alloc P new of (b, P1) \<Rightarrow>
                 fbind (aspath_intern (Some peer) P1 b) (\<lambda>(r, P2).
                   Inr (x\<lparr>at_aspath := r\<rparr>, D\<lparr>ashash := P2\<rparr>))))))))"

section \<open>Extra attributes of a route\<close>

definition cap_of :: "bgp_peer \<Rightarrow> nat \<Rightarrow> nat \<Rightarrow> bool" where
  "cap_of peer afi safi \<longleftrightarrow> cap (bp_cap_add_paths peer) afi safi \<noteq> 0"

text \<open>\<open>bgp_attr_extra_get\<close>: the record of the route, made on demand (\<open>bgp_attr_extra_new\<close>).\<close>

definition bgp_attr_extra_get :: "bgp_attr_extra option \<Rightarrow> bgp_attr_extra" where
  "bgp_attr_extra_get r = (case r of None \<Rightarrow> extra_zero | Some x \<Rightarrow> x)"

text \<open>\<open>bgp_attr_extra_process\<close> on the field \<open>attr_extra\<close> of the route. Each block changes the record of
  the route when its condition holds; the last one does when any block did.\<close>

definition bgp_attr_extra_process ::
  "bgp_peer \<Rightarrow> nat \<Rightarrow> nat \<Rightarrow> bgp_attr_extra \<Rightarrow> bgp_attr_extra option \<Rightarrow> bgp_attr_extra option" where
  "bgp_attr_extra_process peer afi safi ex r0 =
     (let upd = (\<lambda>c f (used, r). if c then (True, Some (f (bgp_attr_extra_get r))) else (used, r));
          s = (False, r0);
          s = upd (safi = SAFI_MPLS_LABEL \<or> safi = SAFI_MPLS_VPN)
                (\<lambda>x. (if safi = SAFI_MPLS_VPN then x\<lparr>ax_rd := ax_rd ex\<rparr> else x)\<lparr>ax_label := ax_label ex\<rparr>) s;
          s = upd (cap_of peer afi safi) (\<lambda>x. x\<lparr>ax_path_id := ax_path_id ex\<rparr>) s;
          aigp = ax_bitmap ex AND BGP_BMAP_ATTR_AIGP \<noteq> 0;
          s = upd aigp (\<lambda>x. x\<lparr>ax_aigp := ax_aigp ex, ax_bitmap := ax_bitmap x OR BGP_BMAP_ATTR_AIGP\<rparr>) s;
          s = upd (ax_psid_li ex \<noteq> 0) (\<lambda>x. x\<lparr>ax_psid_li := ax_psid_li ex\<rparr>) s;
          s = upd (ax_otc ex \<noteq> 0) (\<lambda>x. x\<lparr>ax_otc := ax_otc ex\<rparr>) s
      in if fst s \<and> \<not> aigp
         then map_option (\<lambda>x. x\<lparr>ax_bitmap := ax_bitmap x AND NOT BGP_BMAP_ATTR_AIGP\<rparr>) (snd s)
         else snd s)"

end
