(* ===== verification/BgpAttrParse.thy ===== *)
theory BgpAttrParse
  imports BgpAttr
begin

text \<open>
  The parsing of the path attributes of an UPDATE message (bgp\_msg.c): \<open>bgp_attr_parse\<close> and one
  function per attribute. \<open>ptr\<close> is the list of the octets that may be read from the pointer on, the
  rest of the message and of its buffer included; \<open>len\<close> is the length the message gives.
\<close>

section \<open>Constants and state\<close>

definition BGP_ATTR_MIN_LEN :: int where "BGP_ATTR_MIN_LEN = 3"
definition BGP_ATTR_FLAG_EXTLEN :: u8 where "BGP_ATTR_FLAG_EXTLEN = 0x10"
definition BGP_ATTR_ORIGIN :: u8 where "BGP_ATTR_ORIGIN = 1"
definition BGP_ATTR_AS_PATH :: u8 where "BGP_ATTR_AS_PATH = 2"
definition BGP_ATTR_NEXT_HOP :: u8 where "BGP_ATTR_NEXT_HOP = 3"
definition BGP_ATTR_MULTI_EXIT_DISC :: u8 where "BGP_ATTR_MULTI_EXIT_DISC = 4"
definition BGP_ATTR_LOCAL_PREF :: u8 where "BGP_ATTR_LOCAL_PREF = 5"
definition BGP_ATTR_COMMUNITIES :: u8 where "BGP_ATTR_COMMUNITIES = 8"
definition BGP_ATTR_MP_REACH_NLRI :: u8 where "BGP_ATTR_MP_REACH_NLRI = 14"
definition BGP_ATTR_MP_UNREACH_NLRI :: u8 where "BGP_ATTR_MP_UNREACH_NLRI = 15"
definition BGP_ATTR_EXT_COMMUNITIES :: u8 where "BGP_ATTR_EXT_COMMUNITIES = 16"
definition BGP_ATTR_AS4_PATH :: u8 where "BGP_ATTR_AS4_PATH = 17"
definition BGP_ATTR_AIGP :: u8 where "BGP_ATTR_AIGP = 26"
definition BGP_ATTR_BGP_LS :: u8 where "BGP_ATTR_BGP_LS = 29"
definition BGP_ATTR_LARGE_COMMUNITIES :: u8 where "BGP_ATTR_LARGE_COMMUNITIES = 32"
definition BGP_ATTR_OTC :: u8 where "BGP_ATTR_OTC = 35"
definition BGP_ATTR_PREFIX_SID :: u8 where "BGP_ATTR_PREFIX_SID = 40"
definition BGP_PREFIX_SID_LI_TLV :: u8 where "BGP_PREFIX_SID_LI_TLV = 1"
definition BGP_MP_REACH_MIN_SIZE :: nat where "BGP_MP_REACH_MIN_SIZE = 5"
definition BGP_MP_UNREACH_MIN_SIZE :: nat where "BGP_MP_UNREACH_MIN_SIZE = 3"

lemmas attr_consts = BGP_ATTR_MIN_LEN_def BGP_ATTR_FLAG_EXTLEN_def BGP_ATTR_ORIGIN_def
  BGP_ATTR_AS_PATH_def BGP_ATTR_NEXT_HOP_def BGP_ATTR_MULTI_EXIT_DISC_def BGP_ATTR_LOCAL_PREF_def
  BGP_ATTR_COMMUNITIES_def BGP_ATTR_MP_REACH_NLRI_def BGP_ATTR_MP_UNREACH_NLRI_def
  BGP_ATTR_EXT_COMMUNITIES_def BGP_ATTR_AS4_PATH_def BGP_ATTR_AIGP_def BGP_ATTR_BGP_LS_def
  BGP_ATTR_LARGE_COMMUNITIES_def BGP_ATTR_OTC_def BGP_ATTR_PREFIX_SID_def
  BGP_PREFIX_SID_LI_TLV_def BGP_MP_REACH_MIN_SIZE_def BGP_MP_UNREACH_MIN_SIZE_def

text \<open>A section of reachable or unreachable prefixes of the message.\<close>

record bgp_nlri =
  nl_afi :: nat
  nl_safi :: nat
  nl_nlri :: "u8 list"
  nl_length :: nat

definition nlri_zero :: bgp_nlri where
  "nlri_zero = \<lparr>nl_afi = 0, nl_safi = 0, nl_nlri = [], nl_length = 0\<rparr>"

text \<open>What the attribute parsers write to: the structures of \<open>bgp_parse_update_msg\<close>, the local
  \<open>as4_path\<close> of \<open>bgp_attr_parse\<close>, and the pools.\<close>

record attr_st =
  s_attr :: bgp_attr
  s_extra :: bgp_attr_extra
  s_mp_update :: bgp_nlri
  s_mp_withdraw :: bgp_nlri
  s_as4_path :: "nat option"
  s_db :: attr_db

type_synonym attr_parser = "u8 list \<Rightarrow> nat \<Rightarrow> attr_st \<Rightarrow> (int \<times> attr_st) run"

section \<open>Attributes kept in pools\<close>

definition bgp_attr_parse_aspath :: "bgp_peer \<Rightarrow> attr_parser" where
  "bgp_attr_parse_aspath peer ptr len s =
     fbind (aspath_parse (Some peer) (ashash (s_db s)) ptr len (is_used (bp_cap_4as peer))) (\<lambda>(p, P).
       Inr (SUCCESS, s\<lparr>s_attr := (s_attr s)\<lparr>at_aspath := p\<rparr>, s_db := (s_db s)\<lparr>ashash := P\<rparr>\<rparr>))"

definition bgp_attr_parse_as4path :: "bgp_peer \<Rightarrow> attr_parser" where
  "bgp_attr_parse_as4path peer ptr len s =
     fbind (aspath_parse (Some peer) (ashash (s_db s)) ptr len True) (\<lambda>(p, P).
       Inr (SUCCESS, s\<lparr>s_as4_path := p, s_db := (s_db s)\<lparr>ashash := P\<rparr>\<rparr>))"

definition bgp_attr_parse_community :: "bgp_config \<Rightarrow> bgp_peer \<Rightarrow> attr_parser" where
  "bgp_attr_parse_community cfg peer ptr len s =
     (if len = 0 then Inr (SUCCESS, s\<lparr>s_attr := (s_attr s)\<lparr>at_community := None\<rparr>\<rparr>)
      else fbind (community_parse (comms_num cfg) (Some peer) (comhash (s_db s)) ptr len) (\<lambda>(p, P).
        Inr (SUCCESS, s\<lparr>s_attr := (s_attr s)\<lparr>at_community := p\<rparr>,
                        s_db := (s_db s)\<lparr>comhash := P\<rparr>\<rparr>)))"

definition bgp_attr_parse_ecommunity :: "bgp_config \<Rightarrow> bgp_peer \<Rightarrow> attr_parser" where
  "bgp_attr_parse_ecommunity cfg peer ptr len s =
     (if len = 0 then Inr (SUCCESS, s\<lparr>s_attr := (s_attr s)\<lparr>at_ecommunity := None\<rparr>\<rparr>)
      else fbind (ecommunity_parse (comms_num cfg) (Some peer) (ecomhash (s_db s)) ptr len) (\<lambda>(p, P).
        Inr (SUCCESS, s\<lparr>s_attr := (s_attr s)\<lparr>at_ecommunity := p\<rparr>,
                        s_db := (s_db s)\<lparr>ecomhash := P\<rparr>\<rparr>)))"

definition bgp_attr_parse_lcommunity :: "bgp_peer \<Rightarrow> attr_parser" where
  "bgp_attr_parse_lcommunity peer ptr len s =
     (if len = 0 then Inr (SUCCESS, s\<lparr>s_attr := (s_attr s)\<lparr>at_lcommunity := None\<rparr>\<rparr>)
      else fbind (lcommunity_parse (Some peer) (lcomhash (s_db s)) ptr len) (\<lambda>(p, P).
        Inr (SUCCESS, s\<lparr>s_attr := (s_attr s)\<lparr>at_lcommunity := p\<rparr>,
                        s_db := (s_db s)\<lparr>lcomhash := P\<rparr>\<rparr>)))"

section \<open>Attributes of fixed size\<close>

definition bgp_attr_parse_nexthop :: attr_parser where
  "bgp_attr_parse_nexthop ptr len s =
     (if len \<noteq> 4 then Inr (ERR, s)
      else fbind (block ptr 0 4) (\<lambda>a. Inr (SUCCESS, s\<lparr>s_attr := (s_attr s)\<lparr>at_nexthop := a\<rparr>\<rparr>)))"

definition bgp_attr_parse_med :: attr_parser where
  "bgp_attr_parse_med ptr len s =
     (if len \<noteq> 4 then Inr (ERR, s)
      else fbind (peek32 ptr 0) (\<lambda>w. Inr (SUCCESS, s\<lparr>s_attr := (s_attr s)\<lparr>at_med := w,
             at_bitmap := at_bitmap (s_attr s) OR BGP_BMAP_ATTR_MULTI_EXIT_DISC\<rparr>\<rparr>)))"

definition bgp_attr_parse_local_pref :: attr_parser where
  "bgp_attr_parse_local_pref ptr len s =
     (if len \<noteq> 4 then Inr (ERR, s)
      else fbind (peek32 ptr 0) (\<lambda>w. Inr (SUCCESS, s\<lparr>s_attr := (s_attr s)\<lparr>at_local_pref := w,
             at_bitmap := at_bitmap (s_attr s) OR BGP_BMAP_ATTR_LOCAL_PREF\<rparr>\<rparr>)))"

definition bgp_attr_parse_origin :: attr_parser where
  "bgp_attr_parse_origin ptr len s =
     (if len \<noteq> 1 then Inr (ERR, s)
      else fbind (peek ptr 0) (\<lambda>b. Inr (SUCCESS, s\<lparr>s_attr := (s_attr s)\<lparr>at_origin := b\<rparr>\<rparr>)))"

text \<open>The accumulated IGP metric: eight octets, most significant first.\<close>

definition be64 :: "u8 list \<Rightarrow> u64" where
  "be64 bs = foldl (\<lambda>v b. push_bit 8 v OR ucast b) 0 bs"

definition bgp_attr_parse_aigp :: attr_parser where
  "bgp_attr_parse_aigp ptr len s =
     (if len < 3 then Inr (ERR, s)
      else if len = 3 then Inr (SUCCESS, s\<lparr>s_extra := (s_extra s)\<lparr>ax_aigp := 0\<rparr>\<rparr>)
      else if len = 11 then
        fbind (block ptr 3 8) (\<lambda>bs. Inr (SUCCESS, s\<lparr>s_extra := (s_extra s)\<lparr>ax_aigp := be64 bs,
          ax_bitmap := ax_bitmap (s_extra s) OR BGP_BMAP_ATTR_AIGP\<rparr>\<rparr>))
      else Inr (ERR, s\<lparr>s_extra := (s_extra s)\<lparr>ax_aigp := 0\<rparr>\<rparr>))"

text \<open>The length of the label index TLV is checked, but not that the attribute is as long.\<close>

definition bgp_attr_parse_prefix_sid :: attr_parser where
  "bgp_attr_parse_prefix_sid ptr len s =
     (if len < 3 then Inr (ERR, s)
      else fbind (peek ptr 0) (\<lambda>tlv_type. fbind (peek16 ptr 1) (\<lambda>tlv_len.
        if tlv_type = BGP_PREFIX_SID_LI_TLV
        then if tlv_len = 7
             then fbind (peek32 ptr 6) (\<lambda>w. Inr (SUCCESS, s\<lparr>s_extra := (s_extra s)\<lparr>ax_psid_li := w\<rparr>\<rparr>))
             else Inr (ERR, s)
        else Inr (SUCCESS, s))))"

definition bgp_attr_parse_otc :: attr_parser where
  "bgp_attr_parse_otc ptr len s =
     (if len < 4 then Inr (ERR, s)
      else fbind (peek32 ptr 0) (\<lambda>w. Inr (SUCCESS, s\<lparr>s_extra := (s_extra s)\<lparr>ax_otc := w\<rparr>\<rparr>)))"

definition bgp_attr_parse_ls :: attr_parser where
  "bgp_attr_parse_ls ptr len s =
     (if len < 4 then Inr (ERR, s)
      else Inr (SUCCESS, s\<lparr>s_extra := (s_extra s)\<lparr>ax_ls := Some (ptr, len)\<rparr>\<rparr>))"

section \<open>Multiprotocol prefixes\<close>

text \<open>The next hop of MP\_REACH\_NLRI, by its length: IPv4, RD and IPv4, IPv6 (alone or followed by a
  link-local address), RD and IPv6. Of 48 octets nothing is kept.\<close>

definition mp_nexthop_of :: "nat \<Rightarrow> u8 list \<Rightarrow> host_addr run" where
  "mp_nexthop_of nhlen ptr =
     (if nhlen = 4 then fbind (block ptr 0 4) (\<lambda>a. Inr (AF_INET, a))
      else if nhlen = 12 then fbind (block ptr 8 4) (\<lambda>a. Inr (AF_INET, a))
      else if nhlen = 16 \<or> nhlen = 32 then fbind (block ptr 0 16) (\<lambda>a. Inr (AF_INET6, a))
      else if nhlen = 24 then fbind (block ptr 8 16) (\<lambda>a. Inr (AF_INET6, a))
      else Inr (0, []))"

text \<open>The octet of the next hop's length is a \<open>char\<close>, which is signed: lengths above 127 become large
  16-bit numbers, and are refused with the other lengths. \<open>mpreachlen\<close> is a 16-bit number that the
  checks keep from wrapping.\<close>

definition bgp_attr_parse_mp_reach :: "bgp_peer \<Rightarrow> attr_parser" where
  "bgp_attr_parse_mp_reach peer ptr len s =
     (if \<not> peer_ok (Some peer) then Inr (ERR, s)
      else if len < BGP_MP_REACH_MIN_SIZE then Inr (ERR, s)
      else fbind (peek16 ptr 0) (\<lambda>afi. fbind (peek ptr 2) (\<lambda>safi. fbind (peek ptr 3) (\<lambda>nh.
        let mpreachlen = len - 4;
            nhlen = (if unat nh < 128 then unat nh else 65536 - 256 + unat nh)
        in if nhlen \<in> {4, 12, 16, 24, 32, 48}
           then if nhlen < mpreachlen
                then fbind (mp_nexthop_of nhlen (drop 4 ptr)) (\<lambda>a.
                  let s = s\<lparr>s_attr := (s_attr s)\<lparr>at_mp_nexthop := a\<rparr>\<rparr>;
                      nlri_len = mpreachlen - nhlen - 1
                  in if nlri_len = 0 \<or> len < nlri_len then Inr (ERR, s)
                     else Inr (SUCCESS, s\<lparr>s_mp_update := \<lparr>nl_afi = unat afi, nl_safi = unat safi,
                            nl_nlri = drop (4 + nhlen + 1) ptr, nl_length = nlri_len\<rparr>\<rparr>))
                else Inr (ERR, s)
           else Inr (ERR, s)))))"

definition bgp_attr_parse_mp_unreach :: attr_parser where
  "bgp_attr_parse_mp_unreach ptr len s =
     (if len < BGP_MP_UNREACH_MIN_SIZE then Inr (ERR, s)
      else fbind (peek16 ptr 0) (\<lambda>afi. fbind (peek ptr 2) (\<lambda>safi.
        Inr (SUCCESS, s\<lparr>s_mp_withdraw := \<lparr>nl_afi = unat afi, nl_safi = unat safi,
               nl_nlri = drop 3 ptr, nl_length = len - 3\<rparr>\<rparr>))))"

section \<open>The loop\<close>

text \<open>The \<open>switch\<close>. The case of BGP-LS falls through to the default: its result is dropped.\<close>

definition attr_switch :: "bgp_config \<Rightarrow> bgp_peer \<Rightarrow> u8 \<Rightarrow> attr_parser" where
  "attr_switch cfg peer type ptr len s =
     (if type = BGP_ATTR_AS_PATH then bgp_attr_parse_aspath peer ptr len s
      else if type = BGP_ATTR_AS4_PATH then bgp_attr_parse_as4path peer ptr len s
      else if type = BGP_ATTR_NEXT_HOP then bgp_attr_parse_nexthop ptr len s
      else if type = BGP_ATTR_COMMUNITIES then bgp_attr_parse_community cfg peer ptr len s
      else if type = BGP_ATTR_EXT_COMMUNITIES then bgp_attr_parse_ecommunity cfg peer ptr len s
      else if type = BGP_ATTR_LARGE_COMMUNITIES then bgp_attr_parse_lcommunity peer ptr len s
      else if type = BGP_ATTR_MULTI_EXIT_DISC then bgp_attr_parse_med ptr len s
      else if type = BGP_ATTR_LOCAL_PREF then bgp_attr_parse_local_pref ptr len s
      else if type = BGP_ATTR_ORIGIN then bgp_attr_parse_origin ptr len s
      else if type = BGP_ATTR_MP_REACH_NLRI then bgp_attr_parse_mp_reach peer ptr len s
      else if type = BGP_ATTR_MP_UNREACH_NLRI then bgp_attr_parse_mp_unreach ptr len s
      else if type = BGP_ATTR_AIGP then bgp_attr_parse_aigp ptr len s
      else if type = BGP_ATTR_PREFIX_SID then bgp_attr_parse_prefix_sid ptr len s
      else if type = BGP_ATTR_OTC then bgp_attr_parse_otc ptr len s
      else if type = BGP_ATTR_BGP_LS
        then fbind (bgp_attr_parse_ls ptr len s) (\<lambda>(_, s). Inr (0, s))
      else Inr (0, s))"

text \<open>The head of an attribute: type, length, octets used by the head.\<close>

definition attr_head :: "u8 list \<Rightarrow> (u8 \<times> nat \<times> nat) run" where
  "attr_head ptr =
     fbind (peek ptr 0) (\<lambda>flag. fbind (peek ptr 1) (\<lambda>type.
       if flag AND BGP_ATTR_FLAG_EXTLEN \<noteq> 0
       then fbind (peek16 ptr 2) (\<lambda>w. Inr (type, unat w, 4))
       else fbind (peek ptr 2) (\<lambda>b. Inr (type, unat b, 3))))"

function attr_loop ::
  "bgp_config \<Rightarrow> bgp_peer \<Rightarrow> u8 list \<Rightarrow> int \<Rightarrow> attr_st \<Rightarrow> (int \<times> attr_st) run" where
  "attr_loop cfg peer ptr to_the_end s =
     (if to_the_end \<le> 0 then Inr (SUCCESS, s)
      else if to_the_end < BGP_ATTR_MIN_LEN then Inr (ERR, s)
      else fbind (attr_head ptr) (\<lambda>(type, attr_len, hd).
        if to_the_end - int hd < int attr_len then Inr (ERR, s)
        else fbind (attr_switch cfg peer type (drop hd ptr) attr_len s) (\<lambda>(ret, s).
          if ret < 0 then Inr (ret, s)
          else attr_loop cfg peer (drop (hd + attr_len) ptr) (to_the_end - int hd - int attr_len) s)))"
  by pat_completeness auto
termination
  by (relation "measure (\<lambda>(cfg, peer, ptr, to_the_end, s). nat to_the_end)")
    (auto simp: attr_head_def fault_simps split: if_splits)

declare attr_loop.simps [simp del]

text \<open>\<open>bgp_attr_parse\<close>: after the loop the AS4\_PATH, if there was one, is used and released. On an
  error in the loop it is not released.\<close>

definition bgp_attr_parse ::
  "bgp_config \<Rightarrow> bgp_peer \<Rightarrow> u8 list \<Rightarrow> nat \<Rightarrow> attr_st \<Rightarrow> (int \<times> attr_st) run" where
  "bgp_attr_parse cfg peer ptr len s =
     (if \<not> peer_ok (Some peer) then Inr (ERR, s)
      else fbind (attr_loop cfg peer ptr (int len) (s\<lparr>s_as4_path := None\<rparr>)) (\<lambda>(ret, s).
        if ret < 0 then Inr (ret, s)
        else case s_as4_path s of
          None \<Rightarrow> Inr (SUCCESS, s)
        | Some ap4 \<Rightarrow>
            fbind (bgp_attr_munge_as4path peer (s_db s) (s_attr s) ap4) (\<lambda>(x, D).
            fbind (aspath_unintern (Some peer) (ashash D) (Some ap4)) (\<lambda>P.
              Inr (SUCCESS, s\<lparr>s_attr := x, s_db := D\<lparr>ashash := P\<rparr>\<rparr>)))))"

end
