(* ===== verification/AttrFacts.thy ===== *)
theory AttrFacts
  imports BgpAttr AspathFacts CommunityFacts
begin

text \<open>
  The comparison of attributes is an equivalence that the hash key respects, so attributes are
  interned objects like the AS paths and communities they point to. Then a pool as a part of its
  clients sees it: what others do keeps the objects this part holds references to.
\<close>

section \<open>Comparison of addresses\<close>

lemma le32_be32: "le32 bs = be32 (bs ! 3) (bs ! 2) (bs ! 1) (bs ! 0)"
  by (simp add: le32_def be32_def algebra_simps)

lemma list4: "length bs = 4 \<Longrightarrow> bs = [bs ! 0, bs ! 1, bs ! 2, bs ! 3]"
  by (auto simp: numeral_eq_Suc length_Suc_conv)

lemma le32_take: "4 \<le> length a \<Longrightarrow> 4 \<le> length b \<Longrightarrow> le32 a = le32 b \<longleftrightarrow> take 4 a = take 4 b"
proof
  assume l: "4 \<le> length a" "4 \<le> length b" and "le32 a = le32 b"
  then have "bytes32 (le32 a) = bytes32 (le32 b)" by simp
  then have "\<forall>i < 4. a ! i = b ! i" by (auto simp: le32_be32 numeral_eq_Suc less_Suc_eq)
  then show "take 4 a = take 4 b" using l by (intro nth_equalityI) auto
next
  assume l: "4 \<le> length a" "4 \<le> length b" and "take 4 a = take 4 b"
  then have "\<forall>i < 4. a ! i = b ! i" by (metis nth_take)
  then show "le32 a = le32 b" by (simp add: le32_def)
qed

lemma ip6_addr_cmp_loop_0:
  "4 * n \<le> length a \<Longrightarrow> 4 * n \<le> length b \<Longrightarrow> ip6_addr_cmp_loop a b n = 0 \<longleftrightarrow> take (4 * n) a = take (4 * n) b"
proof (induction n arbitrary: a b)
  case (Suc n)
  have "take (4 * Suc n) a = take (4 * Suc n) b
    \<longleftrightarrow> take 4 a = take 4 b \<and> take (4 * n) (drop 4 a) = take (4 * n) (drop 4 b)"
    using Suc.prems by (simp add: take_add)
  then show ?case using Suc by (auto simp: le32_take)
qed simp

definition ha_good :: "host_addr \<Rightarrow> bool" where
  "ha_good a \<longleftrightarrow> fst a = 0 \<or> fst a = AF_INET \<and> length (snd a) = 4
     \<or> fst a = AF_INET6 \<and> length (snd a) = 16"

text \<open>An address as 16 octets, IPv4 mapped to IPv6.\<close>

definition ha_view :: "host_addr \<Rightarrow> u8 list option" where
  "ha_view a = (if fst a = 0 then None else if fst a = AF_INET then Some (v4_mapped (snd a))
     else Some (snd a))"

lemma ip6_addr_cmp_0: "length a = 16 \<Longrightarrow> length b = 16 \<Longrightarrow> ip6_addr_cmp a b = 0 \<longleftrightarrow> a = b"
  using ip6_addr_cmp_loop_0 [of 4 a b] by (simp add: ip6_addr_cmp_def)

lemma length_v4_mapped [simp]: "length (v4_mapped a) = 12 + length a"
  by (simp add: v4_mapped_def)

lemma v4_mapped_nth [simp]: "v4_mapped a ! 10 = 0xff" "v4_mapped a ! 11 = 0xff"
  by (simp_all add: v4_mapped_def nth_append)

lemma v4_mapped_inject [simp]: "v4_mapped a = v4_mapped b \<longleftrightarrow> a = b"
  by (simp add: v4_mapped_def)

lemma host_addr_cmp2_view:
  assumes "ha_good a" "ha_good b"
  shows "host_addr_cmp2 a b = 0 \<longleftrightarrow> ha_view a = ha_view b"
proof -
  have le: "le32 s = le32 t \<longleftrightarrow> s = t" if "length s = 4" "length t = 4" for s t
    using le32_take [of s t] that by simp
  have six: "ip6_addr_cmp s t = 0 \<longleftrightarrow> s = t" if "length s = 16" "length t = 16" for s t
    using ip6_addr_cmp_0 that by auto
  have mapped: "s ! 10 = 0xff \<and> s ! 11 = 0xff \<and> ip6_addr_cmp s (v4_mapped t) = 0 \<longleftrightarrow> s = v4_mapped t"
    if "length s = 16" "length t = 4" for s t
    using six [of s "v4_mapped t"] that by auto
  from assms consider "fst a = 0 \<or> fst b = 0" | "fst a = AF_INET" "fst b = AF_INET" "length (snd a) = 4" "length (snd b) = 4"
    | "fst a = AF_INET6" "fst b = AF_INET6" "length (snd a) = 16" "length (snd b) = 16"
    | "fst a = AF_INET" "fst b = AF_INET6" "length (snd a) = 4" "length (snd b) = 16"
    | "fst a = AF_INET6" "fst b = AF_INET" "length (snd a) = 16" "length (snd b) = 4"
    unfolding ha_good_def by metis
  then show ?thesis
  proof cases
    case 4
    then show ?thesis using mapped [of "snd b" "snd a"]
      by (auto simp: ha_view_def host_addr_cmp2_def AF_INET_def AF_INET6_def)
  next
    case 5
    then show ?thesis using mapped [of "snd a" "snd b"]
      by (auto simp: ha_view_def host_addr_cmp2_def AF_INET_def AF_INET6_def)
  qed (use le six in \<open>auto simp: ha_view_def host_addr_cmp2_def AF_INET_def AF_INET6_def\<close>)
qed

section \<open>The contract of attributes\<close>

definition attr_good :: "bgp_attr \<Rightarrow> bool" where
  "attr_good x \<longleftrightarrow> ha_good (at_mp_nexthop x)"

definition attr_view where
  "attr_view x = (at_rpki_maxlen x, at_bitmap x, at_origin x, at_nexthop x, at_aspath x,
     at_community x, at_ecommunity x, at_lcommunity x, at_med x, at_local_pref x,
     ha_view (at_mp_nexthop x))"

lemma attrhash_cmp_view: "attr_good x \<Longrightarrow> attr_good y \<Longrightarrow> attrhash_cmp x y \<longleftrightarrow> attr_view x = attr_view y"
  using host_addr_cmp2_view [of "at_mp_nexthop x" "at_mp_nexthop y"]
  by (auto simp: attrhash_cmp_def attr_view_def attr_good_def)

lemma attr_ops_simps [simp]:
  "o_key (attr_ops cfg peer D) = attrhash_key_make cfg peer D" "o_cmp (attr_ops cfg peer D) = attrhash_cmp"
  "o_ref (attr_ops cfg peer D) = at_refcnt" "o_set_ref (attr_ops cfg peer D) n x = x\<lparr>at_refcnt := n\<rparr>"
  "o_touch (attr_ops cfg peer D) x = x" "o_mkstr (attr_ops cfg peer D) x = x"
  by (simp_all add: attr_ops_def)

lemma attr_view_ref [simp]:
  "attr_view (x\<lparr>at_refcnt := n\<rparr>) = attr_view x" "attr_good (x\<lparr>at_refcnt := n\<rparr>) = attr_good x"
  by (simp_all add: attr_view_def attr_good_def)

interpretation atr: obj_class "attr_ops cfg peer D" attr_good for cfg peer D
proof
  show "attr_good x \<Longrightarrow> attr_good y \<Longrightarrow> o_cmp (attr_ops cfg peer D) x y \<Longrightarrow>
      o_key (attr_ops cfg peer D) x = o_key (attr_ops cfg peer D) y" for x y
    by (simp add: attrhash_cmp_def attrhash_key_make_def)
qed (simp_all add: attrhash_cmp_view)

lemma attr_dup_ok: "dup_ok (attr_ops cfg peer D) attr_good bgp_attr_hash_alloc"
  by (simp add: dup_ok_def bgp_attr_hash_alloc_def attrhash_cmp_view)


section \<open>A pool seen by a part of its clients\<close>

definition kept :: "'o obj_ops \<Rightarrow> ('o \<Rightarrow> bool) \<Rightarrow> 'o pool \<Rightarrow> 'o pool \<Rightarrow> nat \<Rightarrow> bool" where
  "kept ops good P P' b \<longleftrightarrow>
     (\<exists>x y. heap P b = Some x \<and> heap P' b = Some y \<and> good x \<and> good y \<and> o_cmp ops x y)"

definition opt_mset :: "nat option \<Rightarrow> nat multiset" where
  "opt_mset p = (case p of None \<Rightarrow> {#} | Some a \<Rightarrow> {#a#})"

lemma opt_mset_simps [simp]: "opt_mset None = {#}" "opt_mset (Some a) = {#a#}"
  by (simp_all add: opt_mset_def)

lemma balancedD:
  assumes "balanced ops good (P, H)"
  shows "pool_inv ops good P" "pool_ptrs P = set_mset H"
    and "a \<in># H \<Longrightarrow> \<exists>x. heap P a = Some x \<and> good x \<and> o_ref ops x = count H a"
proof -
  show b: "pool_inv ops good P" "pool_ptrs P = set_mset H"
    using assms by (auto simp: balanced_def)
  show "\<exists>x. heap P a = Some x \<and> good x \<and> o_ref ops x = count H a" if "a \<in># H"
    using pool_invD(3) [OF b(1), of a] that assms by (auto simp: balanced_def)
qed

lemma pool_step_frame:
  "pool_step ops good peer s t \<Longrightarrow> pool_step ops good peer (fst s, snd s + F) (fst t, snd t + F)"
proof (induction rule: pool_step.induct)
  case (release a H P P')
  then have "pool_step ops good peer (P, H + F) (P', H + F - {#a#})"
    by (intro pool_step.release) auto
  then show ?case using release(1) by simp
qed (auto intro: pool_step.intros)

context obj_class
begin

lemma kept_refl: "heap P b = Some x \<Longrightarrow> good x \<Longrightarrow> kept ops good P P b"
  by (auto simp: kept_def cmp_refl)

lemma kept_trans: "kept ops good P P1 b \<Longrightarrow> kept ops good P1 P2 b \<Longrightarrow> kept ops good P P2 b"
  unfolding kept_def by (metis cmp_trans option.inject)

lemma kept_key: "kept ops good P P' b \<Longrightarrow> pkey ops (heap P') b = pkey ops (heap P) b"
  by (auto simp: kept_def pkey_def key_cmp)

lemma step_kept:
  assumes "pool_step ops good peer s t" and "peer_ok peer"
    and "balanced ops good (fst s, snd s + F)" and "b \<in># F"
  shows "kept ops good (fst s) (fst t) b"
  using assms
proof (induction rule: pool_step.induct)
  case (build x P a P1 r P' H)
  from build(6,7) balancedD [OF build(6)] obtain y where
    inv: "pool_inv ops good P" and bP: "b \<in> pool_ptrs P" and y: "heap P b = Some y" "good y"
    by fastforce
  note A = alloc_inv [OF inv build(3)]
  have "heap P1 a = Some x" by (simp add: A(3))
  from intern_spec [OF A(1) build(5) this build(1,2)] build(4)
  obtain z where z: "heap P' r = Some z" "pool_inv ops good P'" "o_cmp ops z x"
    and C: "r = a \<and> a \<notin> pool_ptrs P1 \<and> heap P' = (heap P1)(a \<mapsto> z) \<or>
     r \<noteq> a \<and> r \<in> pool_ptrs P1 \<and> pool_ptrs P' = pool_ptrs P1
          \<and> (\<exists>y. heap P1 r = Some y \<and> o_cmp ops y x) \<and> heap P' = (heap P1)(a := None, r \<mapsto> z)"
    by auto
  have ba: "b \<noteq> a" using A(5) bP by auto
  from C show ?case
  proof (elim disjE conjE exE)
    assume "heap P' = (heap P1)(a \<mapsto> z)"
    then show ?thesis using ba y A(3) by (auto simp: kept_def cmp_refl)
  next
    fix w
    assume c: "r \<in> pool_ptrs P1" "heap P1 r = Some w" "o_cmp ops w x" "pool_ptrs P' = pool_ptrs P1"
      "heap P' = (heap P1)(a := None, r \<mapsto> z)"
    have gz: "good z" using pool_invD(3) [OF z(2)] c(1,4) z(1) by force
    show ?thesis
    proof (cases "b = r")
      case True
      then have "w = y" using c ba y A(3) by auto
      then have "o_cmp ops y z" using c(3) z(3) gz y(2) build(1) cmp_sym cmp_trans by meson
      then show ?thesis using True y gz z(1) by (auto simp: kept_def)
    next
      case False
      then show ?thesis using c ba y A(3) by (auto simp: kept_def cmp_refl)
    qed
  qed
next
  case (lookup x dup P r P' H)
  from lookup(5,6) balancedD [OF lookup(5)] obtain y where
    inv: "pool_inv ops good P" and bP: "b \<in> pool_ptrs P" and y: "heap P b = Some y" "good y"
    by fastforce
  from get_dup_spec [OF inv lookup(4,1,2)] lookup(3) obtain z where
    z: "good z" "heap P' = (heap P)(r \<mapsto> z)" "r \<in> pool_ptrs P \<longrightarrow> (\<exists>y. heap P r = Some y \<and> o_cmp ops y z)"
    by (cases "r \<in> pool_ptrs P") auto
  then show ?case using y bP by (cases "b = r") (auto simp: kept_def cmp_refl)
next
  case (share a H P P')
  from share(4,5) balancedD [OF share(4)] obtain y where
    inv: "pool_inv ops good P" and bP: "b \<in> pool_ptrs P" and y: "heap P b = Some y" "good y"
    by fastforce
  have a: "a \<in> pool_ptrs P" using share(1) balancedD(2) [OF share(4)] by simp
  then obtain x where x: "heap P a = Some x" "good x" using pool_invD(3) [OF inv] by blast
  from share_spec [OF inv a x(1)] share(2) have "heap P' = (heap P)(a \<mapsto> bump_ref ops x)" by auto
  then show ?case using x y by (cases "b = a") (auto simp: kept_def cmp_refl bump_ref_def good_set cmp_set)
next
  case (release a H P P')
  from release(4,5) balancedD [OF release(4)] obtain y where
    inv: "pool_inv ops good P" and bP: "b \<in> pool_ptrs P" and y: "heap P b = Some y" "good y"
    by fastforce
  have a: "a \<in> pool_ptrs P" using release(1) balancedD(2) [OF release(4)] by simp
  then obtain x where x: "heap P a = Some x" "good x" using pool_invD(3) [OF inv] by blast
  have ref: "o_ref ops x = count (H + F) a" using balancedD(3) [OF release(4), of a] release(1) x by auto
  from unintern_spec [OF inv release(3) a x(1)] release(2)
  have P': "heap P' = (if o_ref ops x = 1 then (heap P)(a := None)
      else (heap P)(a \<mapsto> o_set_ref ops (o_ref ops x - 1) x))" by (auto split: if_splits)
  have "o_ref ops x \<noteq> 1" if "b = a"
  proof -
    have "0 < count H a" "0 < count F a" using release(1,5) that by auto
    then show ?thesis using ref unfolding count_union by linarith
  qed
  then show ?case using P' x y by (cases "b = a") (auto simp: kept_def cmp_refl good_set cmp_set)
qed

text \<open>A step leaves the accounts of the other clients in order.\<close>

lemma step_frame:
  assumes "pool_step ops good peer (P, H) (P', H')" and "peer_ok peer" and "balanced ops good (P, H + F)"
  shows "balanced ops good (P', H' + F)" and "b \<in># F \<Longrightarrow> kept ops good P P' b"
  using step_balanced [OF pool_step_frame [OF assms(1), of F] assms(2)] step_kept [OF assms(1,2)] assms(3)
  by simp_all

lemma intern_ref_held:
  assumes bal: "balanced ops good (P, H)" and peer: "peer_ok peer" and p: "opt_mset p \<subseteq># H"
  shows "\<exists>P'. intern_ref ops peer P p = Inr (p, P') \<and> balanced ops good (P', opt_mset p + H)
    \<and> (\<forall>b. b \<in># H \<longrightarrow> kept ops good P P' b)"
proof (cases p)
  case None
  then show ?thesis using bal balancedD(3) [OF bal] by (auto simp: intern_ref_def intro: kept_refl)
next
  case (Some a)
  then have a: "a \<in># H" using p by simp
  from balancedD(3) [OF bal this] obtain x where x: "heap P a = Some x" "o_ref ops x = count H a" by blast
  have inv: "pool_inv ops good P" and ap: "a \<in> pool_ptrs P" using balancedD(1,2) [OF bal] a by auto
  from share_spec [OF inv ap x(1)] obtain P' where
    P': "obj_share ops P a = Inr P'" "tab P' = tab P" "heap P' = (heap P)(a \<mapsto> bump_ref ops x)"
    "pool_inv ops good P'" by blast
  have st: "pool_step ops good peer (P, H) (P', add_mset a H)" using a P'(1) by (rule pool_step.share)
  have "intern_ref ops peer P p = Inr (p, P')"
    using Some x a P'(1) by (simp add: intern_ref_def deref_def count_eq_zero_iff)
  moreover have "balanced ops good (P', opt_mset p + H)"
    using step_balanced [OF st peer bal] Some by simp
  moreover have "kept ops good P P' b" if b: "b \<in># H" for b
  proof -
    from balancedD(3) [OF bal b] x(1) P'(3) show ?thesis
      by (cases "b = a") (auto simp: kept_def cmp_refl bump_ref_def good_set cmp_set)
  qed
  ultimately show ?thesis by blast
qed

lemma unintern_ref_held:
  assumes bal: "balanced ops good (P, opt_mset p + H)" and peer: "peer_ok peer"
  shows "\<exists>P'. unintern_ref ops peer P p = Inr P' \<and> balanced ops good (P', H)
    \<and> (\<forall>b. b \<in># H \<longrightarrow> kept ops good P P' b)"
proof (cases p)
  case None
  then show ?thesis using bal balancedD(3) [of ops good P H] by (auto simp: unintern_ref_def intro: kept_refl)
next
  case (Some a)
  have inv: "pool_inv ops good P" and ap: "a \<in> pool_ptrs P" using balancedD(1,2) [OF bal] Some by auto
  then obtain x where "heap P a = Some x" using pool_invD(3) by blast
  from unintern_spec [OF inv peer ap this] obtain P' where P': "obj_unintern ops peer P (Some a) = Inr P'" by blast
  then have st: "pool_step ops good peer (P, {#a#}) (P', {#a#} - {#a#})" by (intro pool_step.release) simp
  have bal': "balanced ops good (P, {#a#} + H)" using bal Some by simp
  from step_frame [OF st peer bal'] show ?thesis using P' Some by (auto simp: unintern_ref_def)
qed

end

end
