(* ===== verification/AttrBalance.thy ===== *)
theory AttrBalance
  imports AttrFacts
begin

text \<open>
  The five pools together: a reference to an attribute stands for one reference to each of its parts,
  and with these counted the balance of every pool is kept by all that the clients do.
\<close>

record attr_refs =
  h_as :: "nat multiset"
  h_com :: "nat multiset"
  h_ecom :: "nat multiset"
  h_lcom :: "nat multiset"
  h_attr :: "nat multiset"

text \<open>The references that the holders of attributes own through them.\<close>

definition part_of :: "(bgp_attr \<Rightarrow> nat option) \<Rightarrow> (nat \<Rightarrow> bgp_attr option) \<Rightarrow> nat \<Rightarrow> nat multiset" where
  "part_of f h a = (case h a of None \<Rightarrow> {#} | Some x \<Rightarrow> opt_mset (f x))"

definition part_refs :: "(bgp_attr \<Rightarrow> nat option) \<Rightarrow> attr_db \<Rightarrow> nat multiset \<Rightarrow> nat multiset" where
  "part_refs f D H = (\<Sum>a \<in># H. part_of f (heap (attrhash D)) a)"

definition attr_bal :: "bgp_config \<Rightarrow> bgp_peer option \<Rightarrow> attr_db \<times> attr_refs \<Rightarrow> bool" where
  "attr_bal cfg peer s \<longleftrightarrow> (case s of (D, R) \<Rightarrow>
     balanced aspath_ops aspath_good (ashash D, h_as R + part_refs at_aspath D (h_attr R))
   \<and> balanced (community_ops (comms_num cfg) peer) (va_width 4)
       (comhash D, h_com R + part_refs at_community D (h_attr R))
   \<and> balanced (ecommunity_ops (comms_num cfg) peer) (va_width 8)
       (ecomhash D, h_ecom R + part_refs at_ecommunity D (h_attr R))
   \<and> balanced (lcommunity_ops peer) (va_width 12)
       (lcomhash D, h_lcom R + part_refs at_lcommunity D (h_attr R))
   \<and> balanced (attr_ops cfg peer D) attr_good (attrhash D, h_attr R))"

text \<open>What the clients do: with one of the parts, or with attributes built from parts they hold.\<close>

inductive attr_step ::
  "bgp_config \<Rightarrow> bgp_peer option \<Rightarrow> attr_db \<times> attr_refs \<Rightarrow> attr_db \<times> attr_refs \<Rightarrow> bool"
  for cfg peer where
  as_path: "pool_step aspath_ops aspath_good peer (ashash D, h_as R) (P, H) \<Longrightarrow>
     attr_step cfg peer (D, R) (D\<lparr>ashash := P\<rparr>, R\<lparr>h_as := H\<rparr>)"
| communities: "pool_step (community_ops (comms_num cfg) peer) (va_width 4) peer
       (comhash D, h_com R) (P, H) \<Longrightarrow>
     attr_step cfg peer (D, R) (D\<lparr>comhash := P\<rparr>, R\<lparr>h_com := H\<rparr>)"
| ecommunities: "pool_step (ecommunity_ops (comms_num cfg) peer) (va_width 8) peer
       (ecomhash D, h_ecom R) (P, H) \<Longrightarrow>
     attr_step cfg peer (D, R) (D\<lparr>ecomhash := P\<rparr>, R\<lparr>h_ecom := H\<rparr>)"
| lcommunities: "pool_step (lcommunity_ops peer) (va_width 12) peer (lcomhash D, h_lcom R) (P, H) \<Longrightarrow>
     attr_step cfg peer (D, R) (D\<lparr>lcomhash := P\<rparr>, R\<lparr>h_lcom := H\<rparr>)"
| intern: "attr_good x \<Longrightarrow> opt_mset (at_aspath x) \<subseteq># h_as R \<Longrightarrow> opt_mset (at_community x) \<subseteq># h_com R \<Longrightarrow>
     opt_mset (at_ecommunity x) \<subseteq># h_ecom R \<Longrightarrow> opt_mset (at_lcommunity x) \<subseteq># h_lcom R \<Longrightarrow>
     bgp_attr_intern cfg peer D x = Inr (Some a, x', D') \<Longrightarrow>
     attr_step cfg peer (D, R) (D', R\<lparr>h_attr := add_mset a (h_attr R)\<rparr>)"
| unintern: "a \<in># h_attr R \<Longrightarrow> bgp_attr_unintern cfg peer D a = Inr D' \<Longrightarrow>
     attr_step cfg peer (D, R) (D', R\<lparr>h_attr := h_attr R - {#a#}\<rparr>)"

inductive attr_reach :: "bgp_config \<Rightarrow> bgp_peer option \<Rightarrow> nat \<Rightarrow> attr_db \<times> attr_refs \<Rightarrow> bool"
  for cfg peer n where
  init: "attr_reach cfg peer n (bgp_attr_init n, \<lparr>h_as = {#}, h_com = {#}, h_ecom = {#}, h_lcom = {#}, h_attr = {#}\<rparr>)"
| step: "attr_reach cfg peer n s \<Longrightarrow> attr_step cfg peer s t \<Longrightarrow> attr_reach cfg peer n t"

section \<open>Keys of attributes\<close>

lemma attr_balanced_cong:
  assumes bal: "balanced (attr_ops cfg peer D) attr_good (P, H)"
    and key: "\<And>a x. a \<in># H \<Longrightarrow> heap P a = Some x \<Longrightarrow>
      attrhash_key_make cfg peer D' x = attrhash_key_make cfg peer D x"
  shows "balanced (attr_ops cfg peer D') attr_good (P, H)"
proof -
  note B = balancedD [OF bal]
  have "hash_inv (live attr_good (heap P)) (pkey (attr_ops cfg peer D') (heap P))
      (pcmp (attr_ops cfg peer D') (heap P)) (tab P)"
    using pool_invD(1) [OF B(1)]
  proof (rule hash_inv_cong)
    fix a assume "a \<in> pool_ptrs P"
    then have "a \<in># H" using B(2) by simp
    from B(3) [OF this] key [OF this] show "live attr_good (heap P) a
        \<and> pkey (attr_ops cfg peer D') (heap P) a = pkey (attr_ops cfg peer D) (heap P) a"
      by (auto simp: pkey_def)
  qed (simp add: pcmp_def split: option.split)
  then show ?thesis using bal by (simp add: balanced_def pool_inv_def)
qed

lemma in_part_refs: "a \<in># H \<Longrightarrow> heap (attrhash D) a = Some x \<Longrightarrow> f x = Some p \<Longrightarrow> p \<in># part_refs f D H"
  by (force simp: part_refs_def part_of_def)

context obj_class
begin

lemma ptr_key_kept:
  "(\<And>b. p = Some b \<Longrightarrow> kept ops good P P' b) \<Longrightarrow> ptr_key ops P' p = ptr_key ops P p"
  by (cases p) (auto simp: ptr_key_def kept_key)

lemma kept_all: "balanced ops good (P, H) \<Longrightarrow> b \<in># H \<Longrightarrow> kept ops good P P b"
  using balancedD(3) [of ops good P H b] by (auto intro: kept_refl)

end

text \<open>When the parts that the attributes refer to keep what they hold, so do the keys.\<close>

definition parts_kept where
  "parts_kept cfg peer D D' H \<longleftrightarrow>
     (\<forall>b. b \<in># part_refs at_aspath D H \<longrightarrow> kept aspath_ops aspath_good (ashash D) (ashash D') b)
   \<and> (\<forall>b. b \<in># part_refs at_community D H \<longrightarrow>
        kept (community_ops (comms_num cfg) peer) (va_width 4) (comhash D) (comhash D') b)
   \<and> (\<forall>b. b \<in># part_refs at_ecommunity D H \<longrightarrow>
        kept (ecommunity_ops (comms_num cfg) peer) (va_width 8) (ecomhash D) (ecomhash D') b)
   \<and> (\<forall>b. b \<in># part_refs at_lcommunity D H \<longrightarrow>
        kept (lcommunity_ops peer) (va_width 12) (lcomhash D) (lcomhash D') b)"

lemma parts_kept_key:
  assumes "parts_kept cfg peer D D' H" and "a \<in># H" and "heap (attrhash D) a = Some x"
  shows "attrhash_key_make cfg peer D' x = attrhash_key_make cfg peer D x"
proof -
  note mem = in_part_refs [where D = D, OF assms(2,3)]
  have "ptr_key aspath_ops (ashash D') (at_aspath x) = ptr_key aspath_ops (ashash D) (at_aspath x)"
    using assms(1) mem by (intro asp.ptr_key_kept) (auto simp: parts_kept_def)
  moreover have "ptr_key (community_ops (comms_num cfg) peer) (comhash D') (at_community x)
      = ptr_key (community_ops (comms_num cfg) peer) (comhash D) (at_community x)"
    using assms(1) mem by (intro com.ptr_key_kept) (auto simp: parts_kept_def)
  moreover have "ptr_key (ecommunity_ops (comms_num cfg) peer) (ecomhash D') (at_ecommunity x)
      = ptr_key (ecommunity_ops (comms_num cfg) peer) (ecomhash D) (at_ecommunity x)"
    using assms(1) mem by (intro ecom.ptr_key_kept) (auto simp: parts_kept_def)
  moreover have "ptr_key (lcommunity_ops peer) (lcomhash D') (at_lcommunity x)
      = ptr_key (lcommunity_ops peer) (lcomhash D) (at_lcommunity x)"
    using assms(1) mem by (intro lcom.ptr_key_kept) (auto simp: parts_kept_def)
  ultimately show ?thesis by (simp add: attrhash_key_make_def)
qed

lemma attr_balanced_kept:
  "balanced (attr_ops cfg peer D) attr_good (attrhash D, H) \<Longrightarrow> parts_kept cfg peer D D' H \<Longrightarrow>
    balanced (attr_ops cfg peer D') attr_good (attrhash D, H)"
  by (erule attr_balanced_cong) (rule parts_kept_key)

lemma attr_balD:
  assumes "attr_bal cfg peer (D, R)"
  shows "balanced aspath_ops aspath_good (ashash D, h_as R + part_refs at_aspath D (h_attr R))"
    and "balanced (community_ops (comms_num cfg) peer) (va_width 4)
       (comhash D, h_com R + part_refs at_community D (h_attr R))"
    and "balanced (ecommunity_ops (comms_num cfg) peer) (va_width 8)
       (ecomhash D, h_ecom R + part_refs at_ecommunity D (h_attr R))"
    and "balanced (lcommunity_ops peer) (va_width 12)
       (lcomhash D, h_lcom R + part_refs at_lcommunity D (h_attr R))"
    and "balanced (attr_ops cfg peer D) attr_good (attrhash D, h_attr R)"
  using assms by (simp_all add: attr_bal_def)

lemma part_refs_same [simp]:
  "part_refs f (D\<lparr>ashash := P1\<rparr>) H = part_refs f D H" "part_refs f (D\<lparr>comhash := P2\<rparr>) H = part_refs f D H"
  "part_refs f (D\<lparr>ecomhash := P3\<rparr>) H = part_refs f D H" "part_refs f (D\<lparr>lcomhash := P4\<rparr>) H = part_refs f D H"
  by (simp_all add: part_refs_def)

lemma part_refs_add [simp]:
  "part_refs f D (add_mset a H) = part_of f (heap (attrhash D)) a + part_refs f D H"
  "part_refs f D {#} = {#}"
  by (simp_all add: part_refs_def)

lemma part_refs_cong:
  "(\<And>a. a \<in># H \<Longrightarrow> part_of f (heap (attrhash D')) a = part_of f (heap (attrhash D)) a) \<Longrightarrow>
    part_refs f D' H = part_refs f D H"
  unfolding part_refs_def by (rule arg_cong [where f = sum_mset], rule image_mset_cong)

lemma parts_keptI [intro]:
  assumes "attr_bal cfg peer (D, R)"
    and "\<And>b. b \<in># part_refs at_aspath D (h_attr R) \<Longrightarrow> ashash D' \<noteq> ashash D \<Longrightarrow> kept aspath_ops aspath_good (ashash D) (ashash D') b"
    and "\<And>b. b \<in># part_refs at_community D (h_attr R) \<Longrightarrow> comhash D' \<noteq> comhash D \<Longrightarrow>
        kept (community_ops (comms_num cfg) peer) (va_width 4) (comhash D) (comhash D') b"
    and "\<And>b. b \<in># part_refs at_ecommunity D (h_attr R) \<Longrightarrow> ecomhash D' \<noteq> ecomhash D \<Longrightarrow>
        kept (ecommunity_ops (comms_num cfg) peer) (va_width 8) (ecomhash D) (ecomhash D') b"
    and "\<And>b. b \<in># part_refs at_lcommunity D (h_attr R) \<Longrightarrow> lcomhash D' \<noteq> lcomhash D \<Longrightarrow>
        kept (lcommunity_ops peer) (va_width 12) (lcomhash D) (lcomhash D') b"
  shows "parts_kept cfg peer D D' (h_attr R)"
proof -
  note B = attr_balD [OF assms(1)]
  show ?thesis unfolding parts_kept_def
    using assms(2-5) asp.kept_all [OF B(1)] com.kept_all [OF B(2)] ecom.kept_all [OF B(3)]
      lcom.kept_all [OF B(4)]
    by (metis union_iff)
qed

section \<open>The steps with one of the parts\<close>

lemma as_path_step:
  assumes "attr_bal cfg peer (D, R)" "peer_ok peer"
    and "pool_step aspath_ops aspath_good peer (ashash D, h_as R) (P, H)"
  shows "attr_bal cfg peer (D\<lparr>ashash := P\<rparr>, R\<lparr>h_as := H\<rparr>)"
proof -
  note B = attr_balD [OF assms(1)]
  have "balanced (attr_ops cfg peer (D\<lparr>ashash := P\<rparr>)) attr_good (attrhash D, h_attr R)"
    using asp.step_frame [OF assms(3,2) B(1)]
    by (intro attr_balanced_kept [OF B(5)] parts_keptI [OF assms(1)]) auto
  then show ?thesis using B asp.step_frame(1) [OF assms(3,2) B(1)] by (simp add: attr_bal_def)
qed

lemma communities_step:
  assumes "attr_bal cfg peer (D, R)" "peer_ok peer"
    and "pool_step (community_ops (comms_num cfg) peer) (va_width 4) peer (comhash D, h_com R) (P, H)"
  shows "attr_bal cfg peer (D\<lparr>comhash := P\<rparr>, R\<lparr>h_com := H\<rparr>)"
proof -
  note B = attr_balD [OF assms(1)]
  have "balanced (attr_ops cfg peer (D\<lparr>comhash := P\<rparr>)) attr_good (attrhash D, h_attr R)"
    using com.step_frame [OF assms(3,2) B(2)]
    by (intro attr_balanced_kept [OF B(5)] parts_keptI [OF assms(1)]) auto
  then show ?thesis using B com.step_frame(1) [OF assms(3,2) B(2)] by (simp add: attr_bal_def)
qed

lemma ecommunities_step:
  assumes "attr_bal cfg peer (D, R)" "peer_ok peer"
    and "pool_step (ecommunity_ops (comms_num cfg) peer) (va_width 8) peer (ecomhash D, h_ecom R) (P, H)"
  shows "attr_bal cfg peer (D\<lparr>ecomhash := P\<rparr>, R\<lparr>h_ecom := H\<rparr>)"
proof -
  note B = attr_balD [OF assms(1)]
  have "balanced (attr_ops cfg peer (D\<lparr>ecomhash := P\<rparr>)) attr_good (attrhash D, h_attr R)"
    using ecom.step_frame [OF assms(3,2) B(3)]
    by (intro attr_balanced_kept [OF B(5)] parts_keptI [OF assms(1)]) auto
  then show ?thesis using B ecom.step_frame(1) [OF assms(3,2) B(3)] by (simp add: attr_bal_def)
qed

lemma lcommunities_step:
  assumes "attr_bal cfg peer (D, R)" "peer_ok peer"
    and "pool_step (lcommunity_ops peer) (va_width 12) peer (lcomhash D, h_lcom R) (P, H)"
  shows "attr_bal cfg peer (D\<lparr>lcomhash := P\<rparr>, R\<lparr>h_lcom := H\<rparr>)"
proof -
  note B = attr_balD [OF assms(1)]
  have "balanced (attr_ops cfg peer (D\<lparr>lcomhash := P\<rparr>)) attr_good (attrhash D, h_attr R)"
    using lcom.step_frame [OF assms(3,2) B(4)]
    by (intro attr_balanced_kept [OF B(5)] parts_keptI [OF assms(1)]) auto
  then show ?thesis using B lcom.step_frame(1) [OF assms(3,2) B(4)] by (simp add: attr_bal_def)
qed

section \<open>Interning and releasing attributes\<close>

text \<open>The value of the attribute at an address.\<close>

definition attr_at where
  "attr_at D b = map_option attr_view (heap (attrhash D) b)"

lemma attr_at_kept:
  "kept (attr_ops cfg peer D0) attr_good (attrhash D) (attrhash D') b \<Longrightarrow> attr_at D' b = attr_at D b"
  by (auto simp: kept_def attr_at_def attrhash_cmp_view)

definition part_field :: "(bgp_attr \<Rightarrow> nat option) \<Rightarrow> bool" where
  "part_field f \<longleftrightarrow> (\<forall>x y. attrhash_cmp x y \<longrightarrow> f x = f y) \<and> (\<forall>x n. f (x\<lparr>at_refcnt := n\<rparr>) = f x)"

lemma part_fields [simp]:
  "part_field at_aspath" "part_field at_community" "part_field at_ecommunity" "part_field at_lcommunity"
  by (simp_all add: part_field_def attrhash_cmp_def)

lemma attr_ops_attrhash [simp]: "attr_ops cfg peer (D\<lparr>attrhash := P\<rparr>) = attr_ops cfg peer D"
  by (simp add: attr_ops_def attrhash_key_make_def fun_eq_iff)

lemma attr_alive_held:
  assumes "\<And>p. at_aspath x = Some p \<Longrightarrow> heap (ashash D) p \<noteq> None"
    and "\<And>p. at_community x = Some p \<Longrightarrow> heap (comhash D) p \<noteq> None"
    and "\<And>p. at_ecommunity x = Some p \<Longrightarrow> heap (ecomhash D) p \<noteq> None"
    and "\<And>p. at_lcommunity x = Some p \<Longrightarrow> heap (lcomhash D) p \<noteq> None"
  shows "attr_alive D x = Inr ()"
  using assms by (auto simp: attr_alive_def ptr_alive_def deref_def split: option.splits)

lemma held_alive: "balanced ops good (P, H) \<Longrightarrow> opt_mset p \<subseteq># H \<Longrightarrow> p = Some b \<Longrightarrow> heap P b \<noteq> None"
  using balancedD(3) [of ops good P H b] by auto

lemma part_refs_lookup:
  assumes f: "part_field f" and z: "heap P' r = Some z" "attrhash_cmp z x"
    and old: "\<And>a. a \<in># H \<Longrightarrow> a \<noteq> r \<Longrightarrow> heap P' a = heap (attrhash D) a"
    and r: "r \<in># H \<Longrightarrow> \<exists>y. heap (attrhash D) r = Some y \<and> attrhash_cmp y z"
  shows "part_refs f (D1\<lparr>attrhash := P'\<rparr>) (add_mset r H) = opt_mset (f x) + part_refs f D H"
proof -
  have "part_of f (heap P') a = part_of f (heap (attrhash D)) a" if a: "a \<in># H" for a
  proof (cases "a = r")
    case True
    with r a z f show ?thesis by (auto simp: part_of_def part_field_def)
  next
    case False
    with old a show ?thesis by (simp add: part_of_def)
  qed
  then have "part_refs f (D1\<lparr>attrhash := P'\<rparr>) H = part_refs f D H"
    by (intro part_refs_cong) simp
  moreover have "f z = f x" using f z(2) unfolding part_field_def by blast
  ultimately show ?thesis using z(1) by (simp add: part_of_def)
qed

lemma attr_intern_step:
  assumes bal: "attr_bal cfg peer (D, R)" and peer: "peer_ok peer" and x: "attr_good x"
    and held: "opt_mset (at_aspath x) \<subseteq># h_as R" "opt_mset (at_community x) \<subseteq># h_com R"
      "opt_mset (at_ecommunity x) \<subseteq># h_ecom R" "opt_mset (at_lcommunity x) \<subseteq># h_lcom R"
  shows "\<exists>r D' z. bgp_attr_intern cfg peer D x = Inr (Some r, x, D')
    \<and> attr_bal cfg peer (D', R\<lparr>h_attr := add_mset r (h_attr R)\<rparr>)
    \<and> heap (attrhash D') r = Some z \<and> attrhash_cmp z x
    \<and> (\<forall>b. b \<noteq> r \<longrightarrow> heap (attrhash D') b = heap (attrhash D) b)
    \<and> (\<forall>b. b \<in># h_attr R \<longrightarrow> attr_at D' b = attr_at D b) \<and> attr_at D' r = Some (attr_view x)"
proof -
  note B = attr_balD [OF bal]
  have sub: "opt_mset (at_aspath x) \<subseteq># h_as R + part_refs at_aspath D (h_attr R)"
    "opt_mset (at_community x) \<subseteq># h_com R + part_refs at_community D (h_attr R)"
    "opt_mset (at_ecommunity x) \<subseteq># h_ecom R + part_refs at_ecommunity D (h_attr R)"
    "opt_mset (at_lcommunity x) \<subseteq># h_lcom R + part_refs at_lcommunity D (h_attr R)"
    using held by (simp_all add: subset_mset.add_increasing2)
  from asp.intern_ref_held [OF B(1) peer sub(1)] obtain P1 where
    p1: "intern_ref aspath_ops peer (ashash D) (at_aspath x) = Inr (at_aspath x, P1)"
    "balanced aspath_ops aspath_good (P1, opt_mset (at_aspath x) + (h_as R + part_refs at_aspath D (h_attr R)))"
    "\<And>b. b \<in># part_refs at_aspath D (h_attr R) \<Longrightarrow> kept aspath_ops aspath_good (ashash D) P1 b"
    by auto
  from com.intern_ref_held [OF B(2) peer sub(2)] obtain P2 where
    p2: "intern_ref (community_ops (comms_num cfg) peer) peer (comhash D) (at_community x) = Inr (at_community x, P2)"
    "balanced (community_ops (comms_num cfg) peer) (va_width 4)
      (P2, opt_mset (at_community x) + (h_com R + part_refs at_community D (h_attr R)))"
    "\<And>b. b \<in># part_refs at_community D (h_attr R) \<Longrightarrow>
      kept (community_ops (comms_num cfg) peer) (va_width 4) (comhash D) P2 b"
    by auto
  from ecom.intern_ref_held [OF B(3) peer sub(3)] obtain P3 where
    p3: "intern_ref (ecommunity_ops (comms_num cfg) peer) peer (ecomhash D) (at_ecommunity x) = Inr (at_ecommunity x, P3)"
    "balanced (ecommunity_ops (comms_num cfg) peer) (va_width 8)
      (P3, opt_mset (at_ecommunity x) + (h_ecom R + part_refs at_ecommunity D (h_attr R)))"
    "\<And>b. b \<in># part_refs at_ecommunity D (h_attr R) \<Longrightarrow>
      kept (ecommunity_ops (comms_num cfg) peer) (va_width 8) (ecomhash D) P3 b"
    by auto
  from lcom.intern_ref_held [OF B(4) peer sub(4)] obtain P4 where
    p4: "intern_ref (lcommunity_ops peer) peer (lcomhash D) (at_lcommunity x) = Inr (at_lcommunity x, P4)"
    "balanced (lcommunity_ops peer) (va_width 12)
      (P4, opt_mset (at_lcommunity x) + (h_lcom R + part_refs at_lcommunity D (h_attr R)))"
    "\<And>b. b \<in># part_refs at_lcommunity D (h_attr R) \<Longrightarrow>
      kept (lcommunity_ops peer) (va_width 12) (lcomhash D) P4 b"
    by auto
  let ?D1 = "D\<lparr>ashash := P1, comhash := P2, ecomhash := P3, lcomhash := P4\<rparr>"
  have alive: "attr_alive ?D1 x = Inr ()"
    using held_alive [OF p1(2)] held_alive [OF p2(2)] held_alive [OF p3(2)] held_alive [OF p4(2)]
    by (intro attr_alive_held) auto
  have "parts_kept cfg peer D ?D1 (h_attr R)"
    using p1(3) p2(3) p3(3) p4(3) by (intro parts_keptI [OF bal]) auto
  with B(5) have b5: "balanced (attr_ops cfg peer ?D1) attr_good (attrhash D, h_attr R)"
    by (rule attr_balanced_kept)
  from atr.get_dup_spec [OF balancedD(1) [OF b5] peer x attr_dup_ok] obtain r z P5 where
    dup: "obj_get_dup (attr_ops cfg peer ?D1) bgp_attr_hash_alloc peer (attrhash D) x = Inr (Some r, P5)"
    and z: "attrhash_cmp z x" "heap P5 = (heap (attrhash D))(r \<mapsto> z)"
      "r \<in> pool_ptrs (attrhash D) \<longrightarrow> (\<exists>y. heap (attrhash D) r = Some y \<and> attrhash_cmp y z)"
    by (metis attr_ops_simps(2))
  have st: "pool_step (attr_ops cfg peer ?D1) attr_good peer (attrhash D, F) (P5, add_mset r F)" for F
    using x attr_dup_ok dup by (rule pool_step.lookup)
  from atr.step_balanced [OF st peer b5]
  have b6: "balanced (attr_ops cfg peer ?D1) attr_good (P5, add_mset r (h_attr R))" .
  have "kept (attr_ops cfg peer ?D1) attr_good (attrhash D) P5 b" if "b \<in># h_attr R" for b
    using atr.step_frame(2) [OF st [of "{#}"] peer, of "h_attr R"] b5 that by simp
  then have at: "attr_at (?D1\<lparr>attrhash := P5\<rparr>) b = attr_at D b" if "b \<in># h_attr R" for b
    using that attr_at_kept [of cfg peer ?D1 D "?D1\<lparr>attrhash := P5\<rparr>"] by simp
  have "attr_good z" using balancedD(3) [OF b6, of r] z(2) by simp
  then have at_r: "attr_at (?D1\<lparr>attrhash := P5\<rparr>) r = Some (attr_view x)"
    using z(1,2) x by (simp add: attr_at_def attrhash_cmp_view)
  have refs: "part_refs f (?D1\<lparr>attrhash := P5\<rparr>) (add_mset r (h_attr R)) = opt_mset (f x) + part_refs f D (h_attr R)"
    if "part_field f" for f
    using z balancedD(2) [OF b5] by (intro part_refs_lookup [OF that _ z(1)]) auto
  have run: "bgp_attr_intern cfg peer D x = Inr (Some r, x, ?D1\<lparr>attrhash := P5\<rparr>)"
    using peer p1(1) p2(1) p3(1) p4(1) alive dup by (simp add: bgp_attr_intern_def Let_def)
  moreover have "attr_bal cfg peer (?D1\<lparr>attrhash := P5\<rparr>, R\<lparr>h_attr := add_mset r (h_attr R)\<rparr>)"
    using p1(2) p2(2) p3(2) p4(2) b6 refs by (simp add: attr_bal_def ac_simps)
  ultimately show ?thesis using z at at_r by auto
qed

text \<open>An attribute equal to one that is held gets the address of that one.\<close>

lemma attr_intern_canonical:
  assumes bal: "attr_bal cfg peer (D, R)" and peer: "peer_ok peer" and x: "attr_good x"
    and held: "opt_mset (at_aspath x) \<subseteq># h_as R" "opt_mset (at_community x) \<subseteq># h_com R"
      "opt_mset (at_ecommunity x) \<subseteq># h_ecom R" "opt_mset (at_lcommunity x) \<subseteq># h_lcom R"
    and b: "b \<in># h_attr R" "heap (attrhash D) b = Some y" "attrhash_cmp y x"
  shows "\<exists>D'. bgp_attr_intern cfg peer D x = Inr (Some b, x, D')
    \<and> attr_bal cfg peer (D', R\<lparr>h_attr := add_mset b (h_attr R)\<rparr>)"
proof -
  from attr_intern_step [OF bal peer x held] obtain r D' z where
    run: "bgp_attr_intern cfg peer D x = Inr (Some r, x, D')"
    and bal': "attr_bal cfg peer (D', R\<lparr>h_attr := add_mset r (h_attr R)\<rparr>)"
    and z: "heap (attrhash D') r = Some z" "attrhash_cmp z x"
    and old: "\<And>b. b \<noteq> r \<Longrightarrow> heap (attrhash D') b = heap (attrhash D) b"
    by metis
  have b5: "balanced (attr_ops cfg peer D') attr_good (attrhash D', add_mset r (h_attr R))"
    using attr_balD(5) [OF bal'] by simp
  have "b = r"
  proof (rule ccontr)
    assume "b \<noteq> r"
    with old b(2) have hb: "heap (attrhash D') b = Some y" by simp
    have "attr_good y" "attr_good z"
      using balancedD(3) [OF b5, of b] balancedD(3) [OF b5, of r] b(1) hb z(1) by auto
    then have "attrhash_cmp y z" using b(3) z(2) x by (simp add: attrhash_cmp_view)
    then have "b = r"
      using atr.canonical [OF balancedD(1) [OF b5] _ _ hb z(1)] balancedD(2) [OF b5] b(1) by simp
    with \<open>b \<noteq> r\<close> show False by simp
  qed
  then show ?thesis using run bal' by blast
qed

text \<open>The first half of \<open>bgp_attr_unintern\<close> is the \<open>unintern\<close> of any other object.\<close>

lemma attr_unintern_first:
  assumes bal: "balanced (attr_ops cfg peer D) attr_good (attrhash D, H)" and peer: "peer_ok peer"
    and a: "a \<in># H" and x: "heap (attrhash D) a = Some x" and alive: "attr_alive D x = Inr ()"
  shows "\<exists>Q. bgp_attr_unintern cfg peer D a = unintern_parts cfg peer (D\<lparr>attrhash := Q\<rparr>) x
    \<and> balanced (attr_ops cfg peer D) attr_good (Q, H - {#a#})
    \<and> (\<forall>b. b \<in># H - {#a#} \<longrightarrow> kept (attr_ops cfg peer D) attr_good (attrhash D) Q b)"
proof -
  let ?ops = "attr_ops cfg peer D" and ?P = "attrhash D"
  note B = balancedD [OF bal]
  have ap: "a \<in> pool_ptrs ?P" using a B(2) by simp
  have pos: "at_refcnt x \<noteq> 0" using B(3) [OF a] x a by (auto simp: count_eq_zero_iff)
  from atr.unintern_spec [OF B(1) peer ap x] obtain Q where Q: "obj_unintern ?ops peer ?P (Some a) = Inr Q"
    by blast
  define n where "n = (if at_refcnt x = 0 then 2 ^ 64 - 1 else at_refcnt x - 1)"
  then have n: "(if at_refcnt x \<noteq> 0 then at_refcnt x - 1 else at_refcnt x) = n" using pos by simp
  let ?S = "pool_store ?P a (x\<lparr>at_refcnt := n\<rparr>)"
  have first: "(if n = 0
      then fbind (attr_alive D x) (\<lambda>_.
           fbind (hash_release (pkey ?ops (heap ?S)) (pcmp ?ops (heap ?S)) (tab ?S) a) (\<lambda>(ret, t).
             Inr (pool_free (?S\<lparr>tab := t\<rparr>) a)))
      else Inr ?S) = Inr Q"
    using Q peer x n alive
    by (auto simp: obj_unintern_def deref_def Let_def pool_store_def c_assert_def fbind_Inr_iff
        split: sum.splits prod.splits if_splits)
  have run: "bgp_attr_unintern cfg peer D a = unintern_parts cfg peer (D\<lparr>attrhash := Q\<rparr>) x"
    using peer x unfolding bgp_attr_unintern_def deref_def Let_def
    by (simp only: option.case fbind.simps not_True_eq_False if_False flip: n_def)
      (simp only: first fbind.simps)
  have "pool_step ?ops attr_good peer (?P, {#a#}) (Q, {#a#} - {#a#})"
    by (rule pool_step.release) (use Q in auto)
  from atr.step_frame [OF this peer, of "H - {#a#}"] bal a run show ?thesis by auto
qed

lemma attr_unintern_step:
  assumes bal: "attr_bal cfg peer (D, R)" and peer: "peer_ok peer" and a: "a \<in># h_attr R"
  shows "\<exists>D'. bgp_attr_unintern cfg peer D a = Inr D'
    \<and> attr_bal cfg peer (D', R\<lparr>h_attr := h_attr R - {#a#}\<rparr>)
    \<and> (\<forall>b. b \<in># h_attr R - {#a#} \<longrightarrow> attr_at D' b = attr_at D b)"
proof -
  note B = attr_balD [OF bal]
  let ?H = "h_attr R - {#a#}"
  from balancedD(3) [OF B(5) a] obtain x where x: "heap (attrhash D) a = Some x" by blast
  have split: "part_refs f D (h_attr R) = opt_mset (f x) + part_refs f D ?H" for f
    using part_refs_add(1) [of f D a ?H] a x by (simp add: part_of_def)
  have own: "opt_mset (f x) \<subseteq># G + part_refs f D (h_attr R)" for f G
    unfolding split by (simp add: subset_mset.add_increasing)
  have "attr_alive D x = Inr ()"
    using held_alive [OF B(1) own] held_alive [OF B(2) own] held_alive [OF B(3) own] held_alive [OF B(4) own]
    by (intro attr_alive_held) auto
  from attr_unintern_first [OF B(5) peer a x this] obtain Q where
    run: "bgp_attr_unintern cfg peer D a = unintern_parts cfg peer (D\<lparr>attrhash := Q\<rparr>) x"
    and Q: "balanced (attr_ops cfg peer D) attr_good (Q, ?H)"
      "\<And>b. b \<in># ?H \<Longrightarrow> kept (attr_ops cfg peer D) attr_good (attrhash D) Q b"
    by blast
  have refs: "part_refs f (D1\<lparr>attrhash := Q\<rparr>) ?H = part_refs f D ?H" if "part_field f" for f D1
    by (rule part_refs_cong)
      (use Q(2) that in \<open>fastforce simp: kept_def part_of_def part_field_def\<close>)
  have b: "balanced aspath_ops aspath_good (ashash D, opt_mset (at_aspath x) + (h_as R + part_refs at_aspath D ?H))"
    "balanced (community_ops (comms_num cfg) peer) (va_width 4)
      (comhash D, opt_mset (at_community x) + (h_com R + part_refs at_community D ?H))"
    "balanced (ecommunity_ops (comms_num cfg) peer) (va_width 8)
      (ecomhash D, opt_mset (at_ecommunity x) + (h_ecom R + part_refs at_ecommunity D ?H))"
    "balanced (lcommunity_ops peer) (va_width 12)
      (lcomhash D, opt_mset (at_lcommunity x) + (h_lcom R + part_refs at_lcommunity D ?H))"
    using B(1-4) by (simp_all add: split ac_simps)
  from asp.unintern_ref_held [OF b(1) peer] obtain P1 where
    p1: "unintern_ref aspath_ops peer (ashash D) (at_aspath x) = Inr P1"
    "balanced aspath_ops aspath_good (P1, h_as R + part_refs at_aspath D ?H)"
    "\<And>b. b \<in># part_refs at_aspath D ?H \<Longrightarrow> kept aspath_ops aspath_good (ashash D) P1 b" by auto
  from com.unintern_ref_held [OF b(2) peer] obtain P2 where
    p2: "unintern_ref (community_ops (comms_num cfg) peer) peer (comhash D) (at_community x) = Inr P2"
    "balanced (community_ops (comms_num cfg) peer) (va_width 4) (P2, h_com R + part_refs at_community D ?H)"
    "\<And>b. b \<in># part_refs at_community D ?H \<Longrightarrow>
      kept (community_ops (comms_num cfg) peer) (va_width 4) (comhash D) P2 b" by auto
  from ecom.unintern_ref_held [OF b(3) peer] obtain P3 where
    p3: "unintern_ref (ecommunity_ops (comms_num cfg) peer) peer (ecomhash D) (at_ecommunity x) = Inr P3"
    "balanced (ecommunity_ops (comms_num cfg) peer) (va_width 8) (P3, h_ecom R + part_refs at_ecommunity D ?H)"
    "\<And>b. b \<in># part_refs at_ecommunity D ?H \<Longrightarrow>
      kept (ecommunity_ops (comms_num cfg) peer) (va_width 8) (ecomhash D) P3 b" by auto
  from lcom.unintern_ref_held [OF b(4) peer] obtain P4 where
    p4: "unintern_ref (lcommunity_ops peer) peer (lcomhash D) (at_lcommunity x) = Inr P4"
    "balanced (lcommunity_ops peer) (va_width 12) (P4, h_lcom R + part_refs at_lcommunity D ?H)"
    "\<And>b. b \<in># part_refs at_lcommunity D ?H \<Longrightarrow>
      kept (lcommunity_ops peer) (va_width 12) (lcomhash D) P4 b" by auto
  let ?D1 = "D\<lparr>attrhash := Q, ashash := P1, comhash := P2, ecomhash := P3, lcomhash := P4\<rparr>"
  have "bgp_attr_unintern cfg peer D a = Inr ?D1"
    using p1(1) p2(1) p3(1) p4(1) by (simp add: run unintern_parts_def)
  moreover have "balanced (attr_ops cfg peer ?D1) attr_good (Q, ?H)"
  proof (rule attr_balanced_cong [OF Q(1)])
    fix b w assume w: "b \<in># ?H" "heap Q b = Some w"
    have "parts_kept cfg peer (D\<lparr>attrhash := Q\<rparr>) ?D1 ?H"
      using p1(3) p2(3) p3(3) p4(3) refs [where ?D1.0 = D] by (simp add: parts_kept_def)
    from parts_kept_key [OF this w(1)] w(2)
    show "attrhash_key_make cfg peer ?D1 w = attrhash_key_make cfg peer D w"
      by (simp add: attrhash_key_make_def)
  qed
  moreover have "attr_at ?D1 b = attr_at D b" if "b \<in># ?H" for b
    using Q(2) [OF that] attr_at_kept [of cfg peer D D ?D1] by simp
  ultimately show ?thesis
    using p1(2) p2(2) p3(2) p4(2) refs by (auto simp: attr_bal_def)
qed

section \<open>All that the clients do\<close>

lemma attr_bal_init:
  "0 < n \<Longrightarrow> attr_bal cfg peer (bgp_attr_init n, \<lparr>h_as = {#}, h_com = {#}, h_ecom = {#}, h_lcom = {#}, h_attr = {#}\<rparr>)"
  by (simp add: attr_bal_def bgp_attr_init_def balanced_def pool_inv_init aspath_init_def community_init_def
      ecommunity_init_def lcommunity_init_def) (simp add: pool_init_def)

lemma attr_step_balanced:
  "attr_step cfg peer s t \<Longrightarrow> peer_ok peer \<Longrightarrow> attr_bal cfg peer s \<Longrightarrow> attr_bal cfg peer t"
proof (induction rule: attr_step.induct)
  case (intern x R D a x' D')
  from attr_intern_step [OF intern(8,7,1-5)] intern(6) show ?case by auto
next
  case (unintern a R D D')
  from attr_unintern_step [OF unintern(4,3,1)] unintern(2) show ?case by auto
qed (simp_all add: as_path_step communities_step ecommunities_step lcommunities_step)

lemma attr_reach_balanced:
  "attr_reach cfg peer n s \<Longrightarrow> peer_ok peer \<Longrightarrow> 0 < n \<Longrightarrow> attr_bal cfg peer s"
  by (induction rule: attr_reach.induct) (auto intro: attr_bal_init attr_step_balanced)

text \<open>What the holder of a reference to an attribute may rely on.\<close>

lemma attr_held:
  assumes bal: "attr_bal cfg peer (D, R)" and a: "a \<in># h_attr R"
  shows "\<exists>x. heap (attrhash D) a = Some x \<and> at_refcnt x = count (h_attr R) a
    \<and> (\<forall>p. at_aspath x = Some p \<longrightarrow> heap (ashash D) p \<noteq> None)
    \<and> (\<forall>p. at_community x = Some p \<longrightarrow> heap (comhash D) p \<noteq> None)
    \<and> (\<forall>p. at_ecommunity x = Some p \<longrightarrow> heap (ecomhash D) p \<noteq> None)
    \<and> (\<forall>p. at_lcommunity x = Some p \<longrightarrow> heap (lcomhash D) p \<noteq> None)"
proof -
  note B = attr_balD [OF bal]
  from balancedD(3) [OF B(5) a] obtain x where
    x: "heap (attrhash D) a = Some x" "at_refcnt x = count (h_attr R) a" by auto
  note mem = in_part_refs [where D = D, OF a x(1)]
  have "heap (ashash D) p \<noteq> None" if "at_aspath x = Some p" for p
    using balancedD(3) [OF B(1), of p] mem [where f = at_aspath, OF that] by auto
  moreover have "heap (comhash D) p \<noteq> None" if "at_community x = Some p" for p
    using balancedD(3) [OF B(2), of p] mem [where f = at_community, OF that] by auto
  moreover have "heap (ecomhash D) p \<noteq> None" if "at_ecommunity x = Some p" for p
    using balancedD(3) [OF B(3), of p] mem [where f = at_ecommunity, OF that] by auto
  moreover have "heap (lcomhash D) p \<noteq> None" if "at_lcommunity x = Some p" for p
    using balancedD(3) [OF B(4), of p] mem [where f = at_lcommunity, OF that] by auto
  ultimately show ?thesis using x by blast
qed

lemma attr_nothing_held:
  assumes bal: "attr_bal cfg peer (D, R)" and R: "h_as R = {#}" "h_com R = {#}" "h_ecom R = {#}"
    "h_lcom R = {#}" "h_attr R = {#}"
  shows "hash_entries (tab (ashash D)) = [] \<and> hash_entries (tab (comhash D)) = []
    \<and> hash_entries (tab (ecomhash D)) = [] \<and> hash_entries (tab (lcomhash D)) = []
    \<and> hash_entries (tab (attrhash D)) = []"
  using balancedD(2) [OF attr_balD(1) [OF bal]] balancedD(2) [OF attr_balD(2) [OF bal]]
    balancedD(2) [OF attr_balD(3) [OF bal]] balancedD(2) [OF attr_balD(4) [OF bal]]
    balancedD(2) [OF attr_balD(5) [OF bal]]
  by (simp add: R)

end
