(* ===== verification/RunLogic.thy ===== *)
theory RunLogic
  imports Prelude
begin

text \<open>
  Reasoning about runs, the results of functions that may fault: \<open>post Q r\<close> says that the value has
  the property \<open>Q\<close> when there is one, \<open>runs Q r\<close> that there is one and it has it.
\<close>

fun post :: "('a \<Rightarrow> bool) \<Rightarrow> 'a run \<Rightarrow> bool" where
  "post Q (Inl e) = True"
| "post Q (Inr x) = Q x"

fun runs :: "('a \<Rightarrow> bool) \<Rightarrow> 'a run \<Rightarrow> bool" where
  "runs Q (Inl e) = False"
| "runs Q (Inr x) = Q x"

lemma post_fbind: "(\<And>x. r = Inr x \<Longrightarrow> post Q (f x)) \<Longrightarrow> post Q (fbind r f)"
  by (cases r) auto

lemma post_bind: "post R r \<Longrightarrow> (\<And>x. R x \<Longrightarrow> post Q (f x)) \<Longrightarrow> post Q (fbind r f)"
  by (cases r) auto

lemma post_if: "(b \<Longrightarrow> post Q r) \<Longrightarrow> (\<not> b \<Longrightarrow> post Q s) \<Longrightarrow> post Q (if b then r else s)"
  by simp

lemma post_Inr: "r = Inr x \<Longrightarrow> post Q r \<Longrightarrow> Q x"
  by simp

lemmas post_intros = post_if post_fbind

lemma runs_bind: "runs R r \<Longrightarrow> (\<And>x. R x \<Longrightarrow> runs Q (f x)) \<Longrightarrow> runs Q (fbind r f)"
  by (cases r) auto

lemma runs_if: "(b \<Longrightarrow> runs Q r) \<Longrightarrow> (\<not> b \<Longrightarrow> runs Q s) \<Longrightarrow> runs Q (if b then r else s)"
  by simp

lemma runs_mono: "runs R r \<Longrightarrow> (\<And>x. R x \<Longrightarrow> Q x) \<Longrightarrow> runs Q r"
  by (cases r) auto

lemma runs_iff: "runs Q r \<longleftrightarrow> (\<exists>x. r = Inr x \<and> Q x)"
  by (cases r) auto

end
