(* ===== verification/BgpRoute.thy ===== *)
theory BgpRoute
  imports BgpAttrParse BgpTable
begin

text \<open>
  Routes in the tables (bgp\_msg.c, bgp\_util.c, bgp\_lookup.c): the entries (\<open>struct bgp_info\<close>) that
  hang at the nodes of the routing table, the choice of their bucket, and the processing of one
  announced or withdrawn prefix. This is the BGP daemon, whose callbacks for extra data
  (\<open>bgp_extra_data_process\<close>, \<open>_cmp\<close>, \<open>_free\<close>) are null, so that the field \<open>bmed\<close> of an entry stays
  zero; the logging of messages is left out. A pointer to a peer is represented by the peer's index.
\<close>

section \<open>Entries and databases\<close>

record bgp_info =
  ri_peer :: nat
  ri_attr :: nat
  ri_extra :: "bgp_attr_extra option"

type_synonym info_node = "bgp_info bgp_node"

record rt_db =
  rt_attrs :: attr_db
  rt_rib :: "nat \<Rightarrow> nat \<Rightarrow> bgp_info bgp_table"

section \<open>The bucket of a route\<close>

text \<open>The arithmetic is that of 32-bit unsigned numbers; null pointers are \<open>None\<close>. The sum of the
  fields of a route distinguisher is cut to 16 bits.\<close>

definition bgp_route_info_modulo_pathid ::
  "misc_db \<Rightarrow> bgp_peer \<Rightarrow> u32 option \<Rightarrow> nat \<Rightarrow> nat run" where
  "bgp_route_info_modulo_pathid bms peer path_id per_peer_buckets =
     (let local_path_id = (case path_id of None \<Rightarrow> 1 | Some i \<Rightarrow> if i = 0 then 1 else i)
      in if per_peer_buckets = 0 \<or> table_peer_buckets bms * per_peer_buckets = 0 then Inl DivByZero
         else Inr ((bp_fd peer * per_peer_buckets + unat (local_path_id - 1) mod per_peer_buckets)
                     mod 2 ^ 32 mod (table_peer_buckets bms * per_peer_buckets)))"

definition bgp_route_info_modulo_mplsvpnrd ::
  "misc_db \<Rightarrow> bgp_peer \<Rightarrow> rd_t option \<Rightarrow> nat \<Rightarrow> nat run" where
  "bgp_route_info_modulo_mplsvpnrd bms peer rd per_peer_buckets =
     (let local_rd = (case rd of None \<Rightarrow> 0 | Some d \<Rightarrow>
                        u16n (unat (rd_type d) + unat (rd_as d) + unat (rd_val d)))
      in if per_peer_buckets = 0 \<or> table_peer_buckets bms * per_peer_buckets = 0 then Inl DivByZero
         else Inr ((bp_fd peer * per_peer_buckets + unat local_rd mod per_peer_buckets)
                     mod 2 ^ 32 mod (table_peer_buckets bms * per_peer_buckets)))"

text \<open>The function pointer \<open>bgp_route_info_modulo\<close>, chosen by the configured hash.\<close>

definition bgp_route_info_modulo ::
  "misc_db \<Rightarrow> bgp_peer \<Rightarrow> rd_t option \<Rightarrow> u32 option \<Rightarrow> nat \<Rightarrow> nat run" where
  "bgp_route_info_modulo bms peer rd path_id n =
     (if table_per_peer_hash bms = BGP_ASPATH_HASH_PATHID
      then bgp_route_info_modulo_pathid bms peer path_id n
      else bgp_route_info_modulo_mplsvpnrd bms peer rd n)"

section \<open>The entries of a node\<close>

text \<open>Reading and writing the array \<open>info\<close> through a pointer to a node.\<close>

fun node_info :: "u8 \<Rightarrow> 'i bgp_node \<Rightarrow> prefix \<Rightarrow> 'i list list run" where
  "node_info stray Tip k = Inl UseAfterFree"
| "node_info stray (Node q lk info l r) k =
     (if \<not> goes_on q k then Inl UseAfterFree
      else if p_len q = p_len k then Inr info
      else fbind (check_bit (p_bytes k) stray (p_len q)) (\<lambda>b.
             if b then node_info stray r k else node_info stray l k))"

fun node_set_info :: "u8 \<Rightarrow> 'i list list \<Rightarrow> 'i bgp_node \<Rightarrow> prefix \<Rightarrow> 'i bgp_node run" where
  "node_set_info stray v Tip k = Inl UseAfterFree"
| "node_set_info stray v (Node q lk info l r) k =
     (if \<not> goes_on q k then Inl UseAfterFree
      else if p_len q = p_len k then Inr (Node q lk v l r)
      else fbind (check_bit (p_bytes k) stray (p_len q)) (\<lambda>b.
             if b then fbind (node_set_info stray v r k) (\<lambda>c. Inr (Node q lk info l c))
             else fbind (node_set_info stray v l k) (\<lambda>c. Inr (Node q lk info c r))))"

definition get_chain :: "u8 \<Rightarrow> 'i bgp_table \<Rightarrow> prefix \<Rightarrow> nat \<Rightarrow> 'i list run" where
  "get_chain stray table k bucket =
     fbind (node_info stray (t_top table) k) (\<lambda>info.
       if bucket < length info then Inr (info ! bucket) else Inl OutOfBounds)"

definition set_chain :: "u8 \<Rightarrow> 'i bgp_table \<Rightarrow> prefix \<Rightarrow> nat \<Rightarrow> 'i list \<Rightarrow> 'i bgp_table run" where
  "set_chain stray table k bucket chain =
     fbind (node_info stray (t_top table) k) (\<lambda>info.
     fbind (node_set_info stray (info[bucket := chain]) (t_top table) k) (\<lambda>top.
       Inr (table\<lparr>t_top := top\<rparr>)))"

definition table_lock :: "misc_db \<Rightarrow> u8 \<Rightarrow> 'i bgp_table \<Rightarrow> prefix \<Rightarrow> 'i bgp_table run" where
  "table_lock bms stray table k =
     fbind (node_lock bms stray (t_top table) k) (\<lambda>top. Inr (table\<lparr>t_top := top\<rparr>))"

text \<open>\<open>bgp_info_add\<close>: the entry goes to the front of its chain and holds a lock of the node.\<close>

definition bgp_info_add ::
  "misc_db \<Rightarrow> u8 \<Rightarrow> 'i bgp_table \<Rightarrow> prefix \<Rightarrow> 'i \<Rightarrow> nat \<Rightarrow> 'i bgp_table run" where
  "bgp_info_add bms stray table k ri bucket =
     fbind (get_chain stray table k bucket) (\<lambda>chain.
     fbind (set_chain stray table k bucket (ri # chain)) (\<lambda>table.
       table_lock bms stray table k))"

text \<open>\<open>bgp_info_delete\<close> and \<open>bgp_info_free\<close> of the entry at position \<open>i\<close> of its chain.\<close>

definition bgp_info_delete ::
  "bgp_config \<Rightarrow> misc_db \<Rightarrow> u8 \<Rightarrow> bgp_peer \<Rightarrow> attr_db \<Rightarrow> bgp_info bgp_table \<Rightarrow> prefix \<Rightarrow> nat \<Rightarrow> nat
    \<Rightarrow> (attr_db \<times> bgp_info bgp_table) run" where
  "bgp_info_delete cfg bms stray peer D table k bucket i =
     fbind (get_chain stray table k bucket) (\<lambda>chain.
     fbind (set_chain stray table k bucket (take i chain @ drop (Suc i) chain)) (\<lambda>table.
     fbind (bgp_attr_unintern cfg (Some peer) D (ri_attr (chain ! i))) (\<lambda>D.
     fbind (bgp_unlock_node bms stray table k) (\<lambda>table. Inr (D, table)))))"

section \<open>Finding the entry of a route\<close>

definition extra_is :: "(bgp_attr_extra \<Rightarrow> bool) \<Rightarrow> bgp_info \<Rightarrow> bool" where
  "extra_is f ri \<longleftrightarrow> (case ri_extra ri of None \<Rightarrow> False | Some x \<Rightarrow> f x)"

text \<open>The conditions of the loop \<open>for (ri = route->info[modulo]; ...)\<close> on the entry it stops at.\<close>

definition same_route :: "bgp_peer \<Rightarrow> nat \<Rightarrow> nat \<Rightarrow> bgp_attr_extra \<Rightarrow> bgp_info \<Rightarrow> bool" where
  "same_route peer afi safi ex ri \<longleftrightarrow>
     ri_peer ri = bp_idx peer
     \<and> (safi = SAFI_MPLS_VPN \<longrightarrow> extra_is (\<lambda>x. ax_rd x = ax_rd ex) ri)
     \<and> (cap_of peer afi safi \<longrightarrow> extra_is (\<lambda>x. ax_path_id ex = ax_path_id x) ri)"

fun find_route :: "('i \<Rightarrow> bool) \<Rightarrow> 'i list \<Rightarrow> nat option" where
  "find_route P [] = None"
| "find_route P (x # xs) = (if P x then Some 0 else map_option Suc (find_route P xs))"

section \<open>One announced prefix\<close>

text \<open>
  The node of the prefix. The tree functions read and write the octets up to the length of the
  prefix, so a length above 128, which \<open>bgp_nlri_parse\<close> can hand over, leads outside of the
  structure; the model stops there.
\<close>

definition route_node :: "misc_db \<Rightarrow> u8 \<Rightarrow> bgp_info bgp_table \<Rightarrow> prefix
    \<Rightarrow> (bgp_info bgp_table \<times> prefix) run" where
  "route_node bms stray table p =
     (if 128 < p_len p then Inl OutOfBounds else bgp_node_get bms stray table p)"

definition put_table :: "nat \<Rightarrow> nat \<Rightarrow> bgp_info bgp_table \<Rightarrow> rt_db \<Rightarrow> rt_db" where
  "put_table afi safi table db = db\<lparr>rt_rib := (rt_rib db)(afi := (rt_rib db afi)(safi := table))\<rparr>"

text \<open>An entry was found at position \<open>i\<close>: nothing changes when the attributes are the same (the extra
  attributes are not compared), else they are replaced.\<close>

definition update_old ::
  "bgp_config \<Rightarrow> misc_db \<Rightarrow> u8 \<Rightarrow> bgp_peer \<Rightarrow> nat \<Rightarrow> nat \<Rightarrow> bgp_attr_extra \<Rightarrow> attr_db
    \<Rightarrow> bgp_info bgp_table \<Rightarrow> prefix \<Rightarrow> nat \<Rightarrow> nat \<Rightarrow> nat \<Rightarrow> (attr_db \<times> bgp_info bgp_table) run" where
  "update_old cfg bms stray peer afi safi ex D table k bucket i attr_new =
     fbind (get_chain stray table k bucket) (\<lambda>chain.
     let ri = chain ! i in
     fbind (deref (attrhash D) (ri_attr ri)) (\<lambda>old. fbind (deref (attrhash D) attr_new) (\<lambda>new.
       if attrhash_cmp old new
       then fbind (bgp_unlock_node bms stray table k) (\<lambda>table.
            fbind (bgp_attr_unintern cfg (Some peer) D attr_new) (\<lambda>D. Inr (D, table)))
       else fbind (bgp_attr_unintern cfg (Some peer) D (ri_attr ri)) (\<lambda>D.
            let ri = ri\<lparr>ri_attr := attr_new,
                        ri_extra := bgp_attr_extra_process peer afi safi ex (ri_extra ri)\<rparr>
            in fbind (set_chain stray table k bucket (chain[i := ri])) (\<lambda>table.
               fbind (bgp_unlock_node bms stray table k) (\<lambda>table. Inr (D, table)))))))"

text \<open>No entry was found: a new one is added.\<close>

definition update_new ::
  "misc_db \<Rightarrow> u8 \<Rightarrow> bgp_peer \<Rightarrow> nat \<Rightarrow> nat \<Rightarrow> bgp_attr_extra \<Rightarrow> attr_db
    \<Rightarrow> bgp_info bgp_table \<Rightarrow> prefix \<Rightarrow> nat \<Rightarrow> nat \<Rightarrow> (attr_db \<times> bgp_info bgp_table) run" where
  "update_new bms stray peer afi safi ex D table k bucket attr_new =
     (let ri = \<lparr>ri_peer = bp_idx peer, ri_attr = attr_new,
                ri_extra = bgp_attr_extra_process peer afi safi ex None\<rparr>
      in fbind (bgp_info_add bms stray table k ri bucket) (\<lambda>table.
         fbind (bgp_unlock_node bms stray table k) (\<lambda>table. Inr (D, table))))"

text \<open>\<open>bgp_process_update\<close>. Without a table only the log needs the attributes, which are interned and
  released again. The attributes come back, their pointers being those of the interned parts.\<close>

definition bgp_process_update ::
  "bgp_config \<Rightarrow> misc_db \<Rightarrow> u8 \<Rightarrow> bgp_peer \<Rightarrow> prefix \<Rightarrow> bgp_attr \<Rightarrow> bgp_attr_extra \<Rightarrow> nat \<Rightarrow> nat \<Rightarrow> rt_db
    \<Rightarrow> (int \<times> bgp_attr \<times> rt_db) run" where
  "bgp_process_update cfg bms stray peer p attr ex afi safi db =
     (if \<not> peer_ok (Some peer) then Inr (ERR, attr, db)
      else if \<not> skip_rib bms then
        fbind (bgp_route_info_modulo bms peer (Some (ax_rd ex)) (Some (ax_path_id ex))
                 (table_per_peer_buckets bms)) (\<lambda>bucket.
        fbind (route_node bms stray (rt_rib db afi safi) p) (\<lambda>(table, k).
        fbind (get_chain stray table k bucket) (\<lambda>chain.
        fbind (bgp_attr_intern cfg (Some peer) (rt_attrs db) attr) (\<lambda>(found, attr, D).
          case found of None \<Rightarrow> Inl NullDeref | Some attr_new \<Rightarrow>
          fbind (case find_route (same_route peer afi safi ex) chain of
                   Some i \<Rightarrow> update_old cfg bms stray peer afi safi ex D table k bucket i attr_new
                 | None \<Rightarrow> update_new bms stray peer afi safi ex D table k bucket attr_new) (\<lambda>(D, table).
            Inr (SUCCESS, attr, put_table afi safi table (db\<lparr>rt_attrs := D\<rparr>)))))))
      else if has_msglog bms then
        fbind (bgp_attr_intern cfg (Some peer) (rt_attrs db) attr) (\<lambda>(found, attr, D).
          case found of None \<Rightarrow> Inl NullDeref | Some a \<Rightarrow>
          fbind (bgp_attr_unintern cfg (Some peer) D a) (\<lambda>D. Inr (SUCCESS, attr, db\<lparr>rt_attrs := D\<rparr>)))
      else Inr (SUCCESS, attr, db))"

section \<open>One withdrawn prefix\<close>

text \<open>\<open>bgp_process_withdraw\<close>. The node is made when the prefix was never announced, and goes away with
  the last lock.\<close>

definition bgp_process_withdraw ::
  "bgp_config \<Rightarrow> misc_db \<Rightarrow> u8 \<Rightarrow> bgp_peer \<Rightarrow> prefix \<Rightarrow> bgp_attr_extra \<Rightarrow> nat \<Rightarrow> nat \<Rightarrow> rt_db
    \<Rightarrow> (int \<times> rt_db) run" where
  "bgp_process_withdraw cfg bms stray peer p ex afi safi db =
     (if \<not> peer_ok (Some peer) then Inr (ERR, db)
      else if \<not> skip_rib bms then
        fbind (bgp_route_info_modulo bms peer (Some (ax_rd ex)) (Some (ax_path_id ex))
                 (table_per_peer_buckets bms)) (\<lambda>bucket.
        fbind (route_node bms stray (rt_rib db afi safi) p) (\<lambda>(table, k).
        fbind (get_chain stray table k bucket) (\<lambda>chain.
        fbind (case find_route (same_route peer afi safi ex) chain of
                 Some i \<Rightarrow> bgp_info_delete cfg bms stray peer (rt_attrs db) table k bucket i
               | None \<Rightarrow> Inr (rt_attrs db, table)) (\<lambda>(D, table).
        fbind (bgp_unlock_node bms stray table k) (\<lambda>table.
          Inr (SUCCESS, put_table afi safi table (db\<lparr>rt_attrs := D\<rparr>)))))))
      else Inr (SUCCESS, db))"

end
