(* ===== verification/BgpUpdate.thy ===== *)
theory BgpUpdate
  imports BgpRoute
begin

text \<open>
  UPDATE messages (bgp\_msg.c): the parsing of a section of prefixes (\<open>bgp_nlri_parse\<close>: path
  identifiers, unicast prefixes, labelled prefixes, VPN prefixes with their route distinguisher), and
  \<open>bgp_parse_update_msg\<close>, which cuts the message into sections and processes them. The blackholing of
  bgp\_blackhole.c is switched off (no \<open>bgp_blackhole_stdcomm_list\<close>), and \<open>bgp_ls_nlri_parse\<close> of
  bgp\_ls.c is an argument.
\<close>

section \<open>Labels\<close>

definition check_bosbit :: "u8 \<Rightarrow> bool" where
  "check_bosbit b \<longleftrightarrow> b AND 1 \<noteq> 0"

function label_skip :: "u8 list \<Rightarrow> nat \<Rightarrow> nat \<Rightarrow> nat run" where
  "label_skip s psize labels_size =
     (if labels_size + 3 \<le> psize
      then fbind (peek s (labels_size + 2)) (\<lambda>b.
             if check_bosbit b then Inr labels_size else label_skip s psize (labels_size + 3))
      else Inr labels_size)"
  by pat_completeness auto
termination by (relation "measure (\<lambda>(s, psize, n). psize + 3 - n)") auto

declare label_skip.simps [simp del]

text \<open>The octets of all labels; the last label is kept. \<open>None\<close> goes to the fail lane.\<close>

definition read_labels ::
  "bool \<Rightarrow> u8 list \<Rightarrow> nat \<Rightarrow> bgp_attr_extra \<Rightarrow> (nat option \<times> bgp_attr_extra) run" where
  "read_labels upd s psize ex =
     fbind (if upd then label_skip s psize 0 else Inr 0) (\<lambda>n.
       if n + 3 \<le> psize
       then fbind (block s n 3) (\<lambda>l. Inr (Some (n + 3), ex\<lparr>ax_label := l\<rparr>))
       else Inr (None, ex))"

section \<open>Route distinguishers of a message\<close>

definition read_rd :: "u8 list \<Rightarrow> rd_t \<Rightarrow> (bool \<times> rd_t) run" where
  "read_rd s rd =
     fbind (peek16 s 0) (\<lambda>type.
       let rd = rd\<lparr>rd_type := type\<rparr>
       in if type = RD_TYPE_AS then
            fbind (peek16 s 2) (\<lambda>a. fbind (peek32 s 4) (\<lambda>v.
              Inr (True, bgp_rd_origin_set (rd\<lparr>rd_as := a, rd_val := v\<rparr>) RD_ORIGIN_BGP)))
          else if type = RD_TYPE_IP then
            fbind (block s 2 4) (\<lambda>ip. fbind (peek16 s 6) (\<lambda>v.
              Inr (True, bgp_rd_origin_set (rd_wide (le32 ip) v rd) RD_ORIGIN_BGP)))
          else if type = RD_TYPE_AS4 then
            fbind (peek32 s 2) (\<lambda>a. fbind (peek16 s 6) (\<lambda>v.
              Inr (True, bgp_rd_origin_set (rd_wide a v rd) RD_ORIGIN_BGP)))
          else Inr (False, rd))"

section \<open>One prefix\<close>

text \<open>\<open>memcpy\<close> of \<open>n\<close> octets at offset \<open>i\<close> to the 16 octets of a cleared address, and the prefix with
  the length field reduced by the labels before it (an octet, which wraps).\<close>

definition read_addr :: "u8 list \<Rightarrow> nat \<Rightarrow> nat \<Rightarrow> u8 list run" where
  "read_addr s i n =
     (if 16 < n then Inl OutOfBounds
      else fbind (block s i n) (\<lambda>bs. Inr (bs @ replicate (16 - n) 0)))"

definition len_minus :: "nat \<Rightarrow> nat \<Rightarrow> nat" where
  "len_minus prefixlen n = nat ((int prefixlen - 8 * int n) mod 256)"

definition nlri_prefix :: "nat \<Rightarrow> nat \<Rightarrow> u8 list \<Rightarrow> prefix" where
  "nlri_prefix afi n bs = \<lparr>p_family = bgp_afi2family afi, p_len = n, p_bytes = bs\<rparr>"

definition too_long :: "nat \<Rightarrow> nat \<Rightarrow> nat \<Rightarrow> bool" where
  "too_long afi n extra_bits \<longleftrightarrow> afi = AFI_IP \<and> 32 + extra_bits < n \<or> afi = AFI_IP6 \<and> 128 + extra_bits < n"

text \<open>Each gets the octets behind the length, the length, \<open>psize\<close> and the extra attributes, after the
  checks of the length; \<open>None\<close> goes to the fail lane.\<close>

definition nlri_labelled ::
  "bool \<Rightarrow> nat \<Rightarrow> u8 list \<Rightarrow> nat \<Rightarrow> nat \<Rightarrow> bgp_attr_extra \<Rightarrow> (prefix option \<times> bgp_attr_extra) run" where
  "nlri_labelled upd afi s prefixlen psize ex =
     fbind (read_labels upd s psize ex) (\<lambda>(labels, ex). case labels of
       None \<Rightarrow> Inr (None, ex)
     | Some n \<Rightarrow> fbind (read_addr s n (psize - n)) (\<lambda>bs.
         Inr (Some (nlri_prefix afi (len_minus prefixlen n) bs), ex)))"

definition nlri_vpn ::
  "bool \<Rightarrow> nat \<Rightarrow> u8 list \<Rightarrow> nat \<Rightarrow> nat \<Rightarrow> bgp_attr_extra \<Rightarrow> (prefix option \<times> bgp_attr_extra) run" where
  "nlri_vpn upd afi s prefixlen psize ex =
     fbind (read_labels upd s psize ex) (\<lambda>(labels, ex). case labels of
       None \<Rightarrow> Inr (None, ex)
     | Some n \<Rightarrow>
         if psize < n + 8 then Inr (None, ex)
         else fbind (read_rd (drop n s) (ax_rd ex)) (\<lambda>(ok, rd).
           let ex = ex\<lparr>ax_rd := rd\<rparr>
           in if \<not> ok then Inr (None, ex)
              else fbind (read_addr s (n + 8) (psize - (n + 8))) (\<lambda>bs.
                Inr (Some (nlri_prefix afi (len_minus prefixlen (n + 8)) bs), ex))))"

section \<open>A section of prefixes\<close>

text \<open>\<open>n_attr\<close> is \<open>None\<close> for withdrawn prefixes; \<open>n_count\<close> is \<open>nlri_count\<close> of the message.\<close>

record nlri_st =
  n_attr :: "bgp_attr option"
  n_extra :: bgp_attr_extra
  n_db :: rt_db
  n_count :: int

definition nlri_process ::
  "bgp_config \<Rightarrow> misc_db \<Rightarrow> u8 \<Rightarrow> bgp_peer \<Rightarrow> nat \<Rightarrow> nat \<Rightarrow> prefix \<Rightarrow> nlri_st \<Rightarrow> nlri_st run" where
  "nlri_process cfg bms stray peer afi safi p st =
     fbind (case n_attr st of
              Some attr \<Rightarrow>
                fbind (bgp_process_update cfg bms stray peer p attr (n_extra st) afi safi (n_db st))
                  (\<lambda>(_, attr, db). Inr (st\<lparr>n_attr := Some attr, n_db := db\<rparr>))
            | None \<Rightarrow>
                fbind (bgp_process_withdraw cfg bms stray peer p (n_extra st) afi safi (n_db st))
                  (\<lambda>(_, db). Inr (st\<lparr>n_db := db\<rparr>))) (\<lambda>st.
       Inr (if 0 \<le> n_count st then st\<lparr>n_count := n_count st + 1\<rparr> else st))"

text \<open>The path identifier in front of a prefix: how many octets it takes.\<close>

definition read_path_id ::
  "bgp_peer \<Rightarrow> nat \<Rightarrow> nat \<Rightarrow> u8 list \<Rightarrow> bgp_attr_extra \<Rightarrow> (nat \<times> bgp_attr_extra) run" where
  "read_path_id peer afi safi s ex =
     (if (afi = AFI_IP \<or> afi = AFI_IP6) \<and> (safi = SAFI_UNICAST \<or> safi = SAFI_MULTICAST)
         \<and> cap_of peer afi safi
      then fbind (peek32 s 0) (\<lambda>w. Inr (4, ex\<lparr>ax_path_id := w\<rparr>))
      else Inr (0, ex))"

text \<open>The prefix and \<open>psize\<close>; \<open>rest\<close> is the variable \<open>end\<close> after the octet of the length was read.
  \<open>None\<close> goes to the fail lane, \<open>Some None\<close> is an unsupported kind of prefix.\<close>

definition read_prefix ::
  "bool \<Rightarrow> nat \<Rightarrow> nat \<Rightarrow> u8 list \<Rightarrow> nat \<Rightarrow> int \<Rightarrow> bgp_attr_extra
    \<Rightarrow> ((prefix \<times> nat) option option \<times> bgp_attr_extra) run" where
  "read_prefix upd afi safi s prefixlen rest ex =
     (let psize = (prefixlen + 7) div 8;
          keep = (\<lambda>r. fbind r (\<lambda>(p, ex). Inr (map_option (\<lambda>p. Some (p, psize)) p, ex)))
      in if safi = SAFI_UNICAST then
           (if too_long afi prefixlen 0 \<or> rest < int psize then Inr (None, ex)
            else fbind (read_addr s 0 psize) (\<lambda>bs.
                   Inr (Some (Some (nlri_prefix afi prefixlen bs, psize)), ex)))
         else if safi = SAFI_MPLS_LABEL then
           (if too_long afi prefixlen 24 \<or> rest < int psize \<or> psize < 3 then Inr (None, ex)
            else keep (nlri_labelled upd afi s prefixlen psize ex))
         else if safi = SAFI_MPLS_VPN then
           (if too_long afi prefixlen 88 \<or> rest < int psize \<or> psize < 3 then Inr (None, ex)
            else keep (nlri_vpn upd afi s prefixlen psize ex))
         else Inr (Some None, ex))"

text \<open>One turn of the loop: whether it goes on, the octets of the path identifier, and \<open>psize\<close>, which an
  unsupported prefix leaves as it was.\<close>

definition nlri_step ::
  "bgp_config \<Rightarrow> misc_db \<Rightarrow> u8 \<Rightarrow> bgp_peer \<Rightarrow> bool \<Rightarrow> nat \<Rightarrow> nat \<Rightarrow> u8 list \<Rightarrow> int \<Rightarrow> nat \<Rightarrow> nlri_st
    \<Rightarrow> (bool \<times> nat \<times> nat \<times> nlri_st) run" where
  "nlri_step cfg bms stray peer upd afi safi s rest psize st =
     fbind (read_path_id peer afi safi s (n_extra st)) (\<lambda>(pid, ex).
     fbind (peek s pid) (\<lambda>l.
     fbind (read_prefix upd afi safi (drop (pid + 1) s) (unat l) (rest - 1) ex) (\<lambda>(r, ex).
       let st = st\<lparr>n_extra := ex\<rparr>
       in case r of
            None \<Rightarrow> Inr (False, pid, psize, st)
          | Some None \<Rightarrow> Inr (True, pid, psize, st\<lparr>n_count := ERR\<rparr>)
          | Some (Some (p, psize)) \<Rightarrow>
              fbind (nlri_process cfg bms stray peer afi safi p st) (\<lambda>st.
                Inr (True, pid, psize, st)))))"

text \<open>The loop: \<open>left\<close> is \<open>lim - pnt\<close>. The variable \<open>end\<close> goes down by one with every prefix only.\<close>

function nlri_loop ::
  "bgp_config \<Rightarrow> misc_db \<Rightarrow> u8 \<Rightarrow> bgp_peer \<Rightarrow> bool \<Rightarrow> nat \<Rightarrow> nat \<Rightarrow> u8 list \<Rightarrow> int \<Rightarrow> int \<Rightarrow> nat \<Rightarrow> nlri_st
    \<Rightarrow> (int \<times> nlri_st) run" where
  "nlri_loop cfg bms stray peer upd afi safi s left rest psize st =
     (if left \<le> 0 then Inr (SUCCESS, st)
      else fbind (nlri_step cfg bms stray peer upd afi safi s rest psize st) (\<lambda>(ok, pid, psize, st).
        if \<not> ok then Inr (ERR, st\<lparr>n_count := ERR\<rparr>)
        else nlri_loop cfg bms stray peer upd afi safi (drop (pid + 1 + psize) s)
               (left - int (pid + 1 + psize)) (rest - 1) psize st))"
  by pat_completeness auto
termination
  by (relation "measure (\<lambda>(cfg, bms, stray, peer, upd, afi, safi, s, left, e, psize, st). nat left)") auto

declare nlri_loop.simps [simp del]

definition bgp_nlri_parse ::
  "bgp_config \<Rightarrow> misc_db \<Rightarrow> u8 \<Rightarrow> bgp_peer \<Rightarrow> bool \<Rightarrow> bgp_nlri \<Rightarrow> nlri_st \<Rightarrow> (int \<times> nlri_st) run" where
  "bgp_nlri_parse cfg bms stray peer upd info st =
     (if \<not> peer_ok (Some peer) then Inr (ERR, st\<lparr>n_count := ERR\<rparr>)
      else nlri_loop cfg bms stray peer upd (nl_afi info) (nl_safi info) (nl_nlri info)
             (int (nl_length info)) (int (nl_length info)) 0 st)"

section \<open>UPDATE\<close>

text \<open>What the sections share: the attributes, the database, \<open>nlri_count\<close> and the flag \<open>parsed\<close>.\<close>

record upd_st =
  u_attr :: bgp_attr
  u_extra :: bgp_attr_extra
  u_db :: rt_db
  u_count :: int
  u_parsed :: bool

definition nlri_section ::
  "bgp_config \<Rightarrow> misc_db \<Rightarrow> u8 \<Rightarrow> bgp_peer \<Rightarrow> bool \<Rightarrow> bool \<Rightarrow> bgp_nlri \<Rightarrow> upd_st \<Rightarrow> upd_st run" where
  "nlri_section cfg bms stray peer cond upd info u =
     (if cond
      then fbind (bgp_nlri_parse cfg bms stray peer upd info
                    \<lparr>n_attr = if upd then Some (u_attr u) else None, n_extra = u_extra u,
                     n_db = u_db u, n_count = u_count u\<rparr>) (\<lambda>(_, st).
             Inr \<lparr>u_attr = (case n_attr st of Some x \<Rightarrow> x | None \<Rightarrow> u_attr u), u_extra = n_extra st,
                  u_db = n_db st, u_count = n_count st, u_parsed = True\<rparr>)
      else Inr u)"

definition mp_kind :: "bgp_nlri \<Rightarrow> nat \<Rightarrow> bool" where
  "mp_kind n afi \<longleftrightarrow> nl_length n \<noteq> 0 \<and> nl_afi n = afi
     \<and> (nl_safi n = SAFI_UNICAST \<or> nl_safi n = SAFI_MPLS_LABEL \<or> nl_safi n = SAFI_MPLS_VPN)"

definition ls_kind :: "bgp_nlri \<Rightarrow> bool" where
  "ls_kind n \<longleftrightarrow> nl_length n \<noteq> 0 \<and> nl_afi n = AFI_BGP_LS
     \<and> (nl_safi n = SAFI_LS_GLOBAL \<or> nl_safi n = SAFI_LS_VPN)"

text \<open>\<open>bgp_ls_nlri_parse\<close>, with its flag for updates.\<close>

type_synonym ls_parser = "bool \<Rightarrow> bgp_nlri \<Rightarrow> upd_st \<Rightarrow> upd_st run"

definition ls_section :: "ls_parser \<Rightarrow> bool \<Rightarrow> bgp_nlri \<Rightarrow> upd_st \<Rightarrow> upd_st run" where
  "ls_section ls upd info u =
     (if ls_kind info then fbind (ls upd info u) (\<lambda>u. Inr (u\<lparr>u_parsed := True\<rparr>)) else Inr u)"

definition all_sections ::
  "bgp_config \<Rightarrow> misc_db \<Rightarrow> u8 \<Rightarrow> ls_parser \<Rightarrow> bgp_peer \<Rightarrow> bgp_nlri \<Rightarrow> bgp_nlri \<Rightarrow> bgp_nlri \<Rightarrow> bgp_nlri
    \<Rightarrow> upd_st \<Rightarrow> upd_st run" where
  "all_sections cfg bms stray ls peer withdraw update mp_update mp_withdraw u =
     fbind (nlri_section cfg bms stray peer (nl_length withdraw \<noteq> 0) False withdraw u) (\<lambda>u.
     fbind (nlri_section cfg bms stray peer (nl_length update \<noteq> 0) True update u) (\<lambda>u.
     fbind (nlri_section cfg bms stray peer (mp_kind mp_update AFI_IP) True mp_update u) (\<lambda>u.
     fbind (nlri_section cfg bms stray peer (mp_kind mp_withdraw AFI_IP) False mp_withdraw u) (\<lambda>u.
     fbind (nlri_section cfg bms stray peer (mp_kind mp_update AFI_IP6) True mp_update u) (\<lambda>u.
     fbind (nlri_section cfg bms stray peer (mp_kind mp_withdraw AFI_IP6) False mp_withdraw u) (\<lambda>u.
     fbind (ls_section ls True mp_update u) (\<lambda>u.
            ls_section ls False mp_withdraw u)))))))"

text \<open>The family of which the message marks the end of the table (End-of-RIB), if it does.\<close>

definition eor_of :: "nat \<Rightarrow> nat \<Rightarrow> nat \<Rightarrow> bgp_nlri \<Rightarrow> bool \<Rightarrow> (nat \<times> nat) option" where
  "eor_of update_len withdraw_len attribute_len mp_withdraw parsed =
     (if update_len = 0 \<and> withdraw_len = 0
      then if attribute_len = 0 then Some (AFI_IP, SAFI_UNICAST)
           else if nl_length mp_withdraw = 0 \<and> nl_afi mp_withdraw \<noteq> 0 \<and> nl_safi mp_withdraw \<noteq> 0
                   \<and> \<not> parsed
                then Some (nl_afi mp_withdraw, nl_safi mp_withdraw)
                else None
      else None)"

definition set_eor :: "(nat \<times> nat) option \<Rightarrow> bgp_peer \<Rightarrow> bgp_peer" where
  "set_eor e peer =
     (case e of None \<Rightarrow> peer
      | Some (afi, safi) \<Rightarrow>
          if afi < AFI_MAX \<and> safi < SAFI_MAX
          then peer\<lparr>bp_eor := (bp_eor peer)(afi := (bp_eor peer afi)(safi := True))\<rparr> else peer)"

text \<open>The lengths of a message: withdrawn routes, attributes, announced routes. All counters are
  16-bit numbers. \<open>None\<close> is an error return.\<close>

definition update_lengths :: "u8 list \<Rightarrow> (u16 \<times> u16 \<times> u16) option run" where
  "update_lengths pkt =
     fbind (block pkt 0 20) (\<lambda>_. fbind (peek16 pkt 16) (\<lambda>bgpo_len.
     fbind (peek16 pkt 19) (\<lambda>withdraw_len.
       let rest = bgpo_len - 19
       in if rest < withdraw_len then Inr None
          else let rest = rest - withdraw_len - 2
               in fbind (peek16 pkt (21 + unat withdraw_len)) (\<lambda>attribute_len.
                    if rest < attribute_len then Inr None
                    else Inr (Some (withdraw_len, attribute_len, rest - attribute_len - 2))))))"

definition unicast_nlri :: "u8 list \<Rightarrow> u16 \<Rightarrow> bgp_nlri" where
  "unicast_nlri s n =
     (if n = 0 then nlri_zero
      else \<lparr>nl_afi = AFI_IP, nl_safi = SAFI_UNICAST, nl_nlri = s, nl_length = unat n\<rparr>)"

text \<open>\<open>bgp_parse_update_msg\<close>. An error in the attributes returns without releasing those that were
  interned before it.\<close>

definition bgp_parse_update_msg ::
  "bgp_config \<Rightarrow> misc_db \<Rightarrow> u8 \<Rightarrow> ls_parser \<Rightarrow> bgp_peer \<Rightarrow> u8 list \<Rightarrow> rt_db \<Rightarrow> int
    \<Rightarrow> (int \<times> bgp_peer \<times> rt_db \<times> int) run" where
  "bgp_parse_update_msg cfg bms stray ls peer pkt db nlri_count =
     (if \<not> peer_ok (Some peer) then Inr (ERR, peer, db, nlri_count)
      else fbind (update_lengths pkt) (\<lambda>lens. case lens of
        None \<Rightarrow> Inr (ERR, peer, db, nlri_count)
      | Some (wlen, alen, ulen) \<Rightarrow>
          let s0 = \<lparr>s_attr = attr_zero, s_extra = extra_zero, s_mp_update = nlri_zero,
                    s_mp_withdraw = nlri_zero, s_as4_path = None, s_db = rt_attrs db\<rparr>;
              attrs = drop (23 + unat wlen) pkt;
              withdraw = unicast_nlri (drop 21 pkt) wlen;
              update = unicast_nlri (drop (unat alen) attrs) ulen
          in fbind (if alen = 0 then Inr (SUCCESS, s0)
                    else bgp_attr_parse cfg peer attrs (unat alen) s0) (\<lambda>(ret, s).
             if ret < 0 then Inr (ret, peer, db\<lparr>rt_attrs := s_db s\<rparr>, nlri_count)
             else
               fbind (all_sections cfg bms stray ls peer withdraw update (s_mp_update s) (s_mp_withdraw s)
                        \<lparr>u_attr = s_attr s, u_extra = s_extra s, u_db = db\<lparr>rt_attrs := s_db s\<rparr>,
                         u_count = nlri_count, u_parsed = False\<rparr>) (\<lambda>u.
               let peer' = set_eor (eor_of (unat ulen) (unat wlen) (unat alen) (s_mp_withdraw s)
                                      (u_parsed u)) peer
               in fbind (unintern_parts cfg (Some peer') (rt_attrs (u_db u)) (u_attr u)) (\<lambda>D.
                  fbind (peek16 pkt 16) (\<lambda>bgpo_len.
                    Inr (int (unat bgpo_len), peer', (u_db u)\<lparr>rt_attrs := D\<rparr>, u_count u)))))))"

end
