(* ===== verification/BgpSession.thy ===== *)
theory BgpSession
  imports BgpUpdate
begin

text \<open>
  The session of the BGP daemon (bgp\_msg.c, bgp.c): the reassembly of messages from the stream of a
  TCP connection, the dispatch of a message on its type and the session status, and the turn of the
  main loop that joins them.
\<close>

section \<open>Dispatch of messages\<close>

definition BGP_NOTIFY_HEADER_ERR :: int where "BGP_NOTIFY_HEADER_ERR = 1"
definition BGP_NOTIFY_OPEN_ERR :: int where "BGP_NOTIFY_OPEN_ERR = 2"
definition BGP_NOTIFY_UPDATE_ERR :: int where "BGP_NOTIFY_UPDATE_ERR = 3"
definition BGP_NOTIFY_FSM_ERR :: int where "BGP_NOTIFY_FSM_ERR = 5"

lemmas notify_consts = BGP_NOTIFY_HEADER_ERR_def BGP_NOTIFY_OPEN_ERR_def BGP_NOTIFY_UPDATE_ERR_def
  BGP_NOTIFY_FSM_ERR_def

text \<open>The environment of a daemon: its configuration, the settings of its database, the peers that the
  check of router identifiers looks at, the octet of uninitialised memory of \<open>bgp_write_open_msg\<close>,
  the octet behind a prefix (\<open>check_bit\<close>), and the parser of BGP-LS.\<close>

record daemon =
  d_cfg :: bgp_config
  d_bms :: misc_db
  d_peers :: "bgp_peer list"
  d_junk :: u8
  d_stray :: u8
  d_ls :: ls_parser

text \<open>What a message changes: the peer, the database, the packets sent to the peer, \<open>nlri_count\<close>.\<close>

record session =
  ss_peer :: bgp_peer
  ss_db :: rt_db
  ss_sent :: "u8 list list"
  ss_count :: int

text \<open>A message makes \<open>bgp_parse_msg\<close> return, or lets it go on behind the message.\<close>

datatype verdict = Return int | Go_on

definition msg_open :: "daemon \<Rightarrow> nat \<Rightarrow> bool \<Rightarrow> u8 list \<Rightarrow> session \<Rightarrow> (verdict \<times> session) run" where
  "msg_open d now online pkt s =
     fbind (bgp_parse_open_msg (d_cfg d) (d_peers d) (d_junk d) (ss_peer s) pkt now online) (\<lambda>(ret, peer, out).
       let s = s\<lparr>ss_peer := peer, ss_sent := ss_sent s @ out\<rparr>
       in Inr (if ret < 0 then Return BGP_NOTIFY_OPEN_ERR else Go_on, s))"

definition msg_notification :: "u8 list \<Rightarrow> session \<Rightarrow> (verdict \<times> session) run" where
  "msg_notification pkt s =
     fbind (bgp_parse_notification_msg (ss_peer s) pkt (BGP_NOTIFY_CEASE_SM_LEN + 1)) (\<lambda>_.
       Inr (Return ERR, s))"

definition msg_keepalive :: "nat \<Rightarrow> bool \<Rightarrow> session \<Rightarrow> session" where
  "msg_keepalive now online s =
     (let peer = ss_peer s
      in if bp_status peer < OpenSent then s
         else
           let peer = (if bp_status peer < Established then peer\<lparr>bp_status := Established\<rparr> else peer)
           in if online
              then s\<lparr>ss_peer := peer\<lparr>bp_last_keepalive := now\<rparr>,
                     ss_sent := ss_sent s @ [bgp_write_keepalive_msg]\<rparr>
              else s\<lparr>ss_peer := peer\<rparr>)"

definition msg_update :: "daemon \<Rightarrow> u8 list \<Rightarrow> session \<Rightarrow> (verdict \<times> session) run" where
  "msg_update d pkt s =
     (if bp_status (ss_peer s) < Established then Inr (Return BGP_NOTIFY_FSM_ERR, s)
      else fbind (bgp_parse_update_msg (d_cfg d) (d_bms d) (d_stray d) (d_ls d) (ss_peer s) pkt (ss_db s)
                    (ss_count s)) (\<lambda>(ret, peer, db, n).
        let s = s\<lparr>ss_peer := peer, ss_db := db, ss_count := n\<rparr>
        in Inr (if ret < 0 then Return BGP_NOTIFY_UPDATE_ERR else Go_on, s)))"

text \<open>One turn of the loop over the messages in the buffer; \<open>first\<close> tells that it is the first one.
  The length of the message comes with the verdict.\<close>

definition msg_step ::
  "daemon \<Rightarrow> nat \<Rightarrow> bool \<Rightarrow> bool \<Rightarrow> u8 list \<Rightarrow> session \<Rightarrow> (verdict \<times> nat \<times> session) run" where
  "msg_step d now online first pkt s =
     (if bp_msglen (ss_peer s) < BGP_HEADER_SIZE \<and> first then Inr (Return BGP_NOTIFY_HEADER_ERR, 0, s)
      else fbind (peek16 pkt 16) (\<lambda>w. let bgp_len = unat w in
        if \<not> bgp_max_msglen_check bgp_len then Inr (Return BGP_NOTIFY_HEADER_ERR, bgp_len, s)
        else fbind (bgp_marker_check pkt BGP_MARKER_SIZE) (\<lambda>ok.
          if \<not> ok then Inr (Return BGP_NOTIFY_HEADER_ERR, bgp_len, s)
          else fbind (peek pkt 18) (\<lambda>type.
            fbind (if type = BGP_OPEN then msg_open d now online pkt s
                   else if type = BGP_NOTIFICATION then msg_notification pkt s
                   else if type = BGP_KEEPALIVE then Inr (Go_on, msg_keepalive now online s)
                   else if type = BGP_UPDATE then msg_update d pkt s
                   else if type = BGP_ROUTE_REFRESH then Inr (Go_on, s)
                   else Inr (Return BGP_NOTIFY_HEADER_ERR, s)) (\<lambda>(v, s).
              Inr (v, bgp_len, s))))))"

text \<open>The loop of \<open>bgp_parse_msg\<close>. It need not end: a message of length 0 is read again and again.
  \<open>None\<close> is a loop that took \<open>fuel\<close> turns without an end. The counter is a 32-bit number.\<close>

fun msg_loop ::
  "nat \<Rightarrow> daemon \<Rightarrow> nat \<Rightarrow> bool \<Rightarrow> bool \<Rightarrow> u8 list \<Rightarrow> session \<Rightarrow> (int \<times> session) run option" where
  "msg_loop 0 d now online first pkt s =
     (if bp_msglen (ss_peer s) = 0 then Some (Inr (SUCCESS, s)) else None)"
| "msg_loop (Suc fuel) d now online first pkt s =
     (if bp_msglen (ss_peer s) = 0 then Some (Inr (SUCCESS, s))
      else case msg_step d now online first pkt s of
        Inl e \<Rightarrow> Some (Inl e)
      | Inr (Return c, _, s) \<Rightarrow> Some (Inr (c, s))
      | Inr (Go_on, bgp_len, s) \<Rightarrow>
          let peer = ss_peer s;
              left = nat ((int (bp_msglen peer) - int bgp_len) mod 2 ^ 32)
          in msg_loop fuel d now online (bgp_len = 0 \<and> first) (drop bgp_len pkt)
               (s\<lparr>ss_peer := peer\<lparr>bp_msglen := left\<rparr>\<rparr>))"

definition bgp_parse_msg ::
  "nat \<Rightarrow> daemon \<Rightarrow> nat \<Rightarrow> bool \<Rightarrow> u8 list \<Rightarrow> session \<Rightarrow> (int \<times> session) run option" where
  "bgp_parse_msg fuel d now online buf s =
     (if \<not> peer_ok (Some (ss_peer s)) then Some (Inr (ERR, s))
      else msg_loop fuel d now online True buf (s\<lparr>ss_count := 0\<rparr>))"

section \<open>Reassembly of messages\<close>

text \<open>\<open>struct bgp_peer_buf\<close>: the buffer, how much of the message is in it, how much is expected (0 until
  the header is complete).\<close>

record bgp_peer_buf =
  pb_base :: "u8 list"
  pb_cur_len :: nat
  pb_exp_len :: nat

datatype outcome = Again | Reset | Message

text \<open>\<open>recv\<close> of at most \<open>asked\<close> octets to the buffer at \<open>cur_len\<close>: the kernel has \<open>data\<close>, nothing when
  the connection is closed. The buffer has a fixed size.\<close>

definition recv_into :: "bgp_peer_buf \<Rightarrow> nat \<Rightarrow> u8 list \<Rightarrow> (nat \<times> bgp_peer_buf) run" where
  "recv_into b asked data =
     (let got = take asked data; at = pb_cur_len b
      in if length (pb_base b) < at + length got then Inl OutOfBounds
         else Inr (length got, b\<lparr>pb_base := take at (pb_base b) @ got @ drop (at + length got) (pb_base b)\<rparr>))"

text \<open>The first block: the header. \<open>msglen\<close> is that of the peer. The outcome \<open>Message\<close> goes on to the
  second block or to the parser.\<close>

definition recv_header ::
  "bgp_peer_buf \<Rightarrow> nat \<Rightarrow> u8 list \<Rightarrow> (outcome \<times> bgp_peer_buf \<times> nat) run" where
  "recv_header b msglen data =
     fbind (recv_into b (BGP_HEADER_SIZE - pb_cur_len b) data) (\<lambda>(ret, b).
       if ret = 0 then Inr (Reset, b, msglen)
       else
         let b = b\<lparr>pb_cur_len := pb_cur_len b + ret\<rparr>
         in if pb_cur_len b \<noteq> BGP_HEADER_SIZE then Inr (Again, b, msglen)
            else fbind (bgp_marker_check (pb_base b) BGP_MARKER_SIZE) (\<lambda>ok.
              if \<not> ok then Inr (Reset, b\<lparr>pb_cur_len := 0, pb_exp_len := 0\<rparr>, 0)
              else fbind (peek16 (pb_base b) 16) (\<lambda>w.
                if pb_cur_len b = unat w
                then Inr (Message, b\<lparr>pb_cur_len := 0, pb_exp_len := 0\<rparr>, unat w)
                else Inr (Message, b\<lparr>pb_exp_len := unat w\<rparr>, msglen))))"

text \<open>The second block: the rest of the message. How much is asked for is a 32-bit difference.\<close>

definition recv_body ::
  "bgp_peer_buf \<Rightarrow> nat \<Rightarrow> u8 list \<Rightarrow> (outcome \<times> bgp_peer_buf \<times> nat) run" where
  "recv_body b msglen data =
     fbind (recv_into b (nat ((int (pb_exp_len b) - int (pb_cur_len b)) mod 2 ^ 32)) data) (\<lambda>(ret, b).
       if ret = 0 then Inr (Reset, b, msglen)
       else
         let b = b\<lparr>pb_cur_len := pb_cur_len b + ret\<rparr>
         in if pb_cur_len b = pb_exp_len b
            then Inr (Message, b\<lparr>pb_cur_len := 0, pb_exp_len := 0\<rparr>, pb_exp_len b)
            else Inr (Again, b, msglen))"

text \<open>A turn: the first \<open>recv\<close> is made when no length is known, the second one when one is.\<close>

definition recv_turn ::
  "bgp_peer_buf \<Rightarrow> nat \<Rightarrow> u8 list \<Rightarrow> u8 list \<Rightarrow> (outcome \<times> bgp_peer_buf \<times> nat) run" where
  "recv_turn b msglen data1 data2 =
     fbind (if pb_exp_len b = 0 then recv_header b msglen data1 else Inr (Message, b, msglen))
       (\<lambda>(o1, b, msglen).
          if o1 = Message \<and> pb_exp_len b \<noteq> 0 then recv_body b msglen data2 else Inr (o1, b, msglen))"

section \<open>A turn of the main loop for a peer\<close>

text \<open>What is done with the peer at the end of the turn: wait for more, or close the session, with or
  without a NOTIFICATION.\<close>

datatype turn_end = Wait | Close "u8 option"

text \<open>After a message is complete: a KEEPALIVE when half of the hold time has passed, then the parser
  (without a cross-connect map). \<open>now\<close> is not before the last keepalive.\<close>

definition due_keepalive :: "nat \<Rightarrow> session \<Rightarrow> session" where
  "due_keepalive now s =
     (let peer = ss_peer s
      in if bp_status peer = Established
            \<and> int (unat (bp_ht peer) div 2) < int now - int (bp_last_keepalive peer)
         then s\<lparr>ss_peer := peer\<lparr>bp_last_keepalive := now\<rparr>,
                ss_sent := ss_sent s @ [bgp_write_keepalive_msg]\<rparr>
         else s)"

definition peer_turn ::
  "nat \<Rightarrow> daemon \<Rightarrow> nat \<Rightarrow> bgp_peer_buf \<Rightarrow> u8 list \<Rightarrow> u8 list \<Rightarrow> session
    \<Rightarrow> (turn_end \<times> bgp_peer_buf \<times> session) run option" where
  "peer_turn fuel d now b data1 data2 s =
     (case recv_turn b (bp_msglen (ss_peer s)) data1 data2 of
        Inl e \<Rightarrow> Some (Inl e)
      | Inr (oc, b, msglen) \<Rightarrow>
          let s = s\<lparr>ss_peer := (ss_peer s)\<lparr>bp_msglen := msglen\<rparr>\<rparr>
          in case oc of
               Again \<Rightarrow> Some (Inr (Wait, b, s))
             | Reset \<Rightarrow> Some (Inr (Close None, b, s))
             | Message \<Rightarrow>
                 map_option (\<lambda>r. fbind r (\<lambda>(ret, s).
                     Inr (if ret = 0 then Wait else if ret < 0 then Close None
                          else Close (Some (u8n (nat ret))), b, s)))
                   (bgp_parse_msg fuel d now True (pb_base b) (due_keepalive now s)))"

end
