(* ===== verification/StreamFacts.thy ===== *)
theory StreamFacts
  imports BgpSession
begin

text \<open>
  The reassembly of messages from the stream of octets: however the network cuts the stream, the
  parser gets the messages that were sent, one by one; and the turn of the main loop always ends.
\<close>

section \<open>Reading ahead\<close>

lemma rd16_take: "2 \<le> length s \<Longrightarrow> rd16 s = Some (be16 (s ! 0) (s ! 1))"
  by (cases s rule: rd16.cases) auto

lemma peek16_nth: "i + 2 \<le> length s \<Longrightarrow> peek16 s i = Inr (be16 (s ! i) (s ! Suc i))"
  by (simp add: peek16_def rd16_take)

lemma marker_check_all: "n \<le> length s \<Longrightarrow> \<forall>i < n. s ! i = 0xff \<Longrightarrow> bgp_marker_check s n = Inr True"
proof (induction s n rule: bgp_marker_check.induct)
  case (3 b s n)
  then have "b = 0xff" "\<forall>i < n. s ! i = 0xff" by (metis nth_Cons_0 zero_less_Suc, metis nth_Cons_Suc Suc_less_eq)
  then show ?case using 3 by simp
qed auto

lemma marker_check_total: "n \<le> length s \<Longrightarrow> \<exists>b. bgp_marker_check s n = Inr b"
  by (induction s n rule: bgp_marker_check.induct) auto

section \<open>Messages in the stream\<close>

text \<open>A message as it is sent: the marker, its own length, and the rest.\<close>

definition framed :: "u8 list \<Rightarrow> bool" where
  "framed m \<longleftrightarrow> BGP_HEADER_SIZE \<le> length m \<and> (\<forall>i < BGP_MARKER_SIZE. m ! i = 0xff)
     \<and> unat (be16 (m ! 16) (m ! 17)) = length m"

text \<open>The buffer of \<open>size\<close> octets holds the first \<open>n\<close> octets of \<open>m\<close>.\<close>

definition holds :: "nat \<Rightarrow> u8 list \<Rightarrow> nat \<Rightarrow> bgp_peer_buf \<Rightarrow> bool" where
  "holds sz m n b \<longleftrightarrow> length (pb_base b) = sz \<and> length m \<le> sz \<and> n < length m \<and> pb_cur_len b = n
     \<and> take n (pb_base b) = take n m \<and> pb_exp_len b = (if n < BGP_HEADER_SIZE then 0 else length m)"

lemma recv_into_next:
  assumes "length (pb_base b) = sz" "length m \<le> sz" "pb_cur_len b = n" "take n (pb_base b) = take n m"
    and "n \<le> length m" "data = take j (drop n m @ rest)" "k = min asked j" "n + k \<le> length m"
  shows "\<exists>b'. recv_into b asked data = Inr (k, b') \<and> length (pb_base b') = sz \<and> pb_cur_len b' = n
    \<and> pb_exp_len b' = pb_exp_len b \<and> take (n + k) (pb_base b') = take (n + k) m"
proof -
  have got: "take asked data = take k (drop n m)" "length (take k (drop n m)) = k"
    using assms by auto
  have "take (n + k) (take n (pb_base b) @ take k (drop n m) @ drop (n + k) (pb_base b)) = take (n + k) m"
    using assms got(2) by (simp add: take_add)
  moreover have "\<not> length (pb_base b) < n + k" using assms(1,2,8) by simp
  ultimately show ?thesis
    using assms(1-3,8) unfolding recv_into_def Let_def got by simp
qed

lemma same_header:
  assumes "take n s = take n m" "19 \<le> n" "n \<le> length s" "n \<le> length m"
  shows "i < 19 \<Longrightarrow> s ! i = m ! i"
  using assms by (metis less_le_trans nth_take)

lemma framed_header:
  assumes m: "framed m" and s: "take 19 s = take 19 m" "19 \<le> length s"
  shows "bgp_marker_check s BGP_MARKER_SIZE = Inr True" "peek16 s 16 = Inr (be16 (m ! 16) (m ! 17))"
proof -
  have l: "19 \<le> length m" using m by (simp add: framed_def msg_consts)
  note same = same_header [OF s(1) order_refl s(2) l]
  show "bgp_marker_check s BGP_MARKER_SIZE = Inr True"
    using m s(2) same by (intro marker_check_all) (auto simp: framed_def msg_consts)
  show "peek16 s 16 = Inr (be16 (m ! 16) (m ! 17))"
    using s(2) same [of 16] same [of 17] by (simp add: peek16_nth)
qed

section \<open>A turn on a message\<close>

definition turn_done :: "nat \<Rightarrow> u8 list \<Rightarrow> bgp_peer_buf \<Rightarrow> bool" where
  "turn_done sz m b \<longleftrightarrow> length (pb_base b) = sz \<and> pb_cur_len b = 0 \<and> pb_exp_len b = 0
     \<and> take (length m) (pb_base b) = m"

lemma recv_body_framed:
  assumes h: "holds sz m n b" and n: "BGP_HEADER_SIZE \<le> n" and m: "length m < 65536"
    and data: "data = take j (drop n m @ rest)" "0 < j"
  shows "\<exists>b'. n + j < length m \<and> recv_body b l data = Inr (Again, b', l) \<and> holds sz m (n + j) b'
    \<or> length m \<le> n + j \<and> recv_body b l data = Inr (Message, b', length m) \<and> turn_done sz m b'"
proof -
  let ?asked = "nat ((int (pb_exp_len b) - int (pb_cur_len b)) mod 2 ^ 32)"
  have asked: "?asked = length m - n" using h n m by (auto simp: holds_def nat_diff_distrib' nat_eq_iff)
  have "\<exists>b'. recv_into b ?asked data = Inr (min (length m - n) j, b') \<and> length (pb_base b') = sz \<and> pb_cur_len b' = n
      \<and> pb_exp_len b' = pb_exp_len b
      \<and> take (n + min (length m - n) j) (pb_base b') = take (n + min (length m - n) j) m"
    unfolding asked using h by (intro recv_into_next [OF _ _ _ _ _ data(1) refl]) (auto simp: holds_def)
  then obtain b' k where b': "recv_into b ?asked data = Inr (k, b')" "length (pb_base b') = sz" "pb_cur_len b' = n"
      "pb_exp_len b' = length m" "take (n + k) (pb_base b') = take (n + k) m" and k: "k = min (length m - n) j"
    unfolding asked using h n by (auto simp: holds_def)
  have pos: "k \<noteq> 0" using data(2) h by (auto simp: k holds_def)
  have body: "recv_body b l data = (if n + k = length m
      then Inr (Message, b'\<lparr>pb_cur_len := 0, pb_exp_len := 0\<rparr>, length m)
      else Inr (Again, b'\<lparr>pb_cur_len := n + k\<rparr>, l))"
    unfolding recv_body_def b'(1) using pos b'(3,4) by simp
  show ?thesis
  proof (cases "n + j < length m")
    case True
    then have "k = j" by (simp add: k)
    with True b' h n have "holds sz m (n + j) (b'\<lparr>pb_cur_len := n + k\<rparr>)" by (simp add: holds_def)
    then show ?thesis unfolding body using True \<open>k = j\<close> by auto
  next
    case False
    then have nk: "n + k = length m" using h by (auto simp: k holds_def)
    have "turn_done sz m (b'\<lparr>pb_cur_len := 0, pb_exp_len := 0\<rparr>)" using b' nk by (simp add: turn_done_def)
    then show ?thesis unfolding body using False nk by auto
  qed
qed

text \<open>What \<open>recv\<close> gives in a turn: up to \<open>j1\<close> and then up to \<open>j2\<close> octets of the stream.\<close>

definition first_got :: "bgp_peer_buf \<Rightarrow> nat \<Rightarrow> nat" where
  "first_got b j1 = (if pb_exp_len b = 0 then min (BGP_HEADER_SIZE - pb_cur_len b) j1 else 0)"

lemma recv_turn_framed:
  assumes h: "holds sz m n b" and m: "framed m" and str: "str = drop n m @ rest" and j: "0 < j1" "0 < j2"
  shows "\<exists>b' n'. recv_turn b l (take j1 str) (take j2 (drop (first_got b j1) str)) = Inr (Again, b', l)
        \<and> n < n' \<and> holds sz m n' b'
      \<or> recv_turn b l (take j1 str) (take j2 (drop (first_got b j1) str)) = Inr (Message, b', length m)
        \<and> turn_done sz m b'"
proof -
  have m16: "length m < 65536" using m unat_u16_less [of "be16 (m ! 16) (m ! 17)"] by (simp add: framed_def)
  have m19: "19 \<le> length m" using m by (simp add: framed_def msg_consts)
  show ?thesis
  proof (cases "n < BGP_HEADER_SIZE")
    case False
    then have "pb_exp_len b \<noteq> 0" using h m19 by (auto simp: holds_def)
    then have "first_got b j1 = 0" "recv_turn b l (take j1 str) data = recv_body b l data" for data
      by (auto simp: first_got_def recv_turn_def)
    with recv_body_framed [OF h _ m16 _ j(2), where rest = rest and l = l] False str show ?thesis
      by (metis add_less_cancel_left add.right_neutral drop0 j(2) leI)
  next
    case True
    then have e: "pb_exp_len b = 0" using h by (simp add: holds_def)
    let ?k = "min (BGP_HEADER_SIZE - pb_cur_len b) j1"
    have k: "first_got b j1 = ?k" using e by (simp add: first_got_def)
    have cur: "pb_cur_len b = n" "n < 19" using h True by (simp_all add: holds_def msg_consts)
    have pos: "0 < ?k" using True j cur by (simp add: msg_consts)
    have le: "n + ?k \<le> 19" using cur by (simp add: msg_consts)
    have "\<exists>b'. recv_into b (BGP_HEADER_SIZE - pb_cur_len b) (take j1 str) = Inr (?k, b')
        \<and> length (pb_base b') = sz \<and> pb_cur_len b' = n
        \<and> pb_exp_len b' = pb_exp_len b \<and> take (n + ?k) (pb_base b') = take (n + ?k) m"
      using h le m19 unfolding str
      by (intro recv_into_next [OF _ _ _ _ _ refl refl]) (auto simp: holds_def)
    then obtain b1 where b1: "recv_into b (BGP_HEADER_SIZE - pb_cur_len b) (take j1 str) = Inr (?k, b1)"
        "length (pb_base b1) = sz" "pb_cur_len b1 = n" "pb_exp_len b1 = 0"
        "take (n + ?k) (pb_base b1) = take (n + ?k) m"
      using e by auto
    show ?thesis
    proof (cases "n + ?k = 19")
      case False
      with le have lt: "n + ?k < 19" by simp
      have "recv_header b l (take j1 str) = Inr (Again, b1\<lparr>pb_cur_len := n + ?k\<rparr>, l)"
        using b1(1,3) pos lt by (simp add: recv_header_def Let_def msg_consts)
      then have "recv_turn b l (take j1 str) data = Inr (Again, b1\<lparr>pb_cur_len := n + ?k\<rparr>, l)" for data
        using e by (simp add: recv_turn_def)
      moreover have "holds sz m (n + ?k) (b1\<lparr>pb_cur_len := n + ?k\<rparr>)"
        using b1 h lt m19 unfolding holds_def msg_consts by auto
      ultimately show ?thesis using pos by (meson less_add_same_cancel1)
    next
      case eq: True
      let ?b = "b1\<lparr>pb_cur_len := 19\<rparr>"
      have base: "take 19 (pb_base b1) = take 19 m" "19 \<le> length (pb_base b1)"
        using b1(2,5) h m19 unfolding eq by (auto simp: holds_def)
      have len: "unat (be16 (m ! 16) (m ! 17)) = length m" using m by (simp add: framed_def)
      have head: "recv_header b l (take j1 str) = (if length m = 19
          then Inr (Message, ?b\<lparr>pb_cur_len := 0, pb_exp_len := 0\<rparr>, length m)
          else Inr (Message, ?b\<lparr>pb_exp_len := length m\<rparr>, l))"
        using b1(1,3) pos eq framed_header [OF m base] len
        by (simp add: recv_header_def Let_def msg_consts)
      show ?thesis
      proof (cases "length m = 19")
        case True
        then have "recv_turn b l (take j1 str) data = Inr (Message, ?b\<lparr>pb_cur_len := 0, pb_exp_len := 0\<rparr>, length m)" for data
          using e head by (simp add: recv_turn_def)
        moreover have "turn_done sz m (?b\<lparr>pb_cur_len := 0, pb_exp_len := 0\<rparr>)"
          using base b1(2) True by (simp add: turn_done_def)
        ultimately show ?thesis by blast
      next
        case False
        have "length m \<noteq> 0" using m19 by auto
        then have body: "recv_turn b l (take j1 str) data = recv_body (?b\<lparr>pb_exp_len := length m\<rparr>) l data" for data
          using e head False by (simp add: recv_turn_def)
        have h2: "holds sz m 19 (?b\<lparr>pb_exp_len := length m\<rparr>)"
          using base b1(2) h False m19 by (simp add: holds_def msg_consts)
        have "drop ?k str = drop 19 m @ rest" using eq cur h m19 unfolding str by (auto simp: holds_def add.commute)
        with recv_body_framed [OF h2 _ m16 refl j(2), where rest = rest and l = l] obtain b' where
          b': "recv_body (?b\<lparr>pb_exp_len := length m\<rparr>) l (take j2 (drop ?k str)) = Inr (Again, b', l)
              \<and> holds sz m (19 + j2) b'
            \<or> recv_body (?b\<lparr>pb_exp_len := length m\<rparr>) l (take j2 (drop ?k str)) = Inr (Message, b', length m)
              \<and> turn_done sz m b'"
          by (auto simp: msg_consts)
        show ?thesis unfolding body k
          using b' cur by (intro exI [of _ b'] exI [of _ "19 + j2"]) auto
      qed
    qed
  qed
qed

section \<open>The stream of a connection\<close>

text \<open>The turns of the main loop for one peer until the stream is used up: \<open>amounts\<close> tells how much each
  \<open>recv\<close> gives, and the messages handed to the parser are collected.\<close>

fun recv_stream :: "bgp_peer_buf \<Rightarrow> nat \<Rightarrow> (nat \<times> nat) list \<Rightarrow> u8 list \<Rightarrow> u8 list list run" where
  "recv_stream b l [] str = Inr []"
| "recv_stream b l ((j1, j2) # amounts) str =
     (if str = [] then Inr []
      else fbind (recv_turn b l (take j1 str) (take j2 (drop (first_got b j1) str))) (\<lambda>(oc, b', l').
        case oc of
          Reset \<Rightarrow> Inr []
        | Again \<Rightarrow> recv_stream b' l' amounts (drop (pb_cur_len b' - pb_cur_len b) str)
        | Message \<Rightarrow> fbind (recv_stream b' 0 amounts (drop (l' - pb_cur_len b) str)) (\<lambda>ms.
            Inr (take l' (pb_base b') # ms))))"

lemma recv_stream_rest:
  assumes "holds sz m n b" and "\<forall>m' \<in> set (m # ms). framed m' \<and> length m' \<le> sz"
    and "\<forall>(j1, j2) \<in> set amounts. 0 < j1 \<and> 0 < j2"
    and "length (drop n m @ concat ms) \<le> length amounts"
  shows "recv_stream b l amounts (drop n m @ concat ms) = Inr (m # ms)"
  using assms
proof (induction amounts arbitrary: b l n m ms)
  case Nil
  then show ?case by (simp add: holds_def)
next
  case (Cons p amounts)
  obtain j1 j2 where p: "p = (j1, j2)" "0 < j1" "0 < j2" using Cons.prems(3) by (cases p) auto
  let ?str = "drop n m @ concat ms"
  have n: "n < length m" "pb_cur_len b = n" using Cons.prems(1) by (simp_all add: holds_def)
  have m: "framed m" using Cons.prems(2) by simp
  from recv_turn_framed [OF Cons.prems(1) m refl p(2,3), where rest = "concat ms" and l = l] obtain b' n' where
    "recv_turn b l (take j1 ?str) (take j2 (drop (first_got b j1) ?str)) = Inr (Again, b', l)
        \<and> n < n' \<and> holds sz m n' b'
      \<or> recv_turn b l (take j1 ?str) (take j2 (drop (first_got b j1) ?str)) = Inr (Message, b', length m)
        \<and> turn_done sz m b'" by blast
  then show ?case
  proof (elim disjE conjE)
    assume t: "recv_turn b l (take j1 ?str) (take j2 (drop (first_got b j1) ?str)) = Inr (Again, b', l)"
      and n': "n < n'" "holds sz m n' b'"
    have cur: "pb_cur_len b' = n'" "n' < length m" using n'(2) by (simp_all add: holds_def)
    have "drop (n' - n) ?str = drop n' m @ concat ms" using n'(1) cur(2) by simp
    then have "recv_stream b l (p # amounts) ?str = recv_stream b' l amounts (drop n' m @ concat ms)"
      using t n cur p(1) by simp
    also have "\<dots> = Inr (m # ms)"
      using Cons.prems(2,3,4) n'(1) n(1) by (intro Cons.IH [OF n'(2)]) auto
    finally show ?thesis .
  next
    assume t: "recv_turn b l (take j1 ?str) (take j2 (drop (first_got b j1) ?str)) = Inr (Message, b', length m)"
      and d: "turn_done sz m b'"
    have "drop (length m - n) ?str = concat ms" using n(1) by simp
    then have eq: "recv_stream b l (p # amounts) ?str
        = fbind (recv_stream b' 0 amounts (concat ms)) (\<lambda>ms. Inr (take (length m) (pb_base b') # ms))"
      using t n p(1) by simp
    have "recv_stream b' 0 amounts (concat ms) = Inr ms"
    proof (cases ms)
      case Nil
      then show ?thesis by (cases amounts) auto
    next
      case (Cons m2 ms2)
      have "holds sz m2 0 b'"
        using d Cons.prems(2) Cons by (auto simp: holds_def turn_done_def framed_def msg_consts)
      from Cons.IH [OF this, of ms2 0] show ?thesis
        using Cons.prems(2,3,4) Cons n(1) by auto
    qed
    then show ?thesis using eq d by (simp add: turn_done_def)
  qed
qed

end
