(* ===== verification/AttrSafe.thy ===== *)
theory AttrSafe
  imports BgpAttrParse AttrBalance RunLogic StreamFacts
begin

text \<open>
  The parsing of attributes is safe: given the octets it was told of and twenty more, it ends without a
  fault, whatever these octets are, and every object it interned is owned by the message.
\<close>

section \<open>Steps of the pools\<close>

lemma aspath_parse_step:
  assumes inv: "pool_inv aspath_ops aspath_good P" and peer: "peer_ok peer" and len: "len \<le> length s"
  shows "\<exists>p P'. aspath_parse peer P s len use32bit = Inr (p, P')
    \<and> (p = None \<and> odd len \<and> P' = P \<or> (\<exists>a. p = Some a \<and> pool_step aspath_ops aspath_good peer (P, H) (P', add_mset a H)))"
proof (cases "len mod 2 = 0")
  case True
  from assegments_parse_ok [OF len] obtain segs where
    segs: "assegments_parse (is_bmp peer) s len use32bit = Inr segs" by blast
  let ?x = "aspath_new\<lparr>as_segments := segs\<rparr>"
  have good: "aspath_good ?x" by (simp add: aspath_good_def aspath_new_def)
  from asp.get_dup_spec [OF inv peer good aspath_dup_ok] obtain r P' where
    g: "obj_get_dup aspath_ops aspath_hash_alloc peer P ?x = Inr (Some r, P')" by blast
  have "aspath_parse peer P s len use32bit = Inr (Some r, P')"
    using peer True segs g by (simp add: aspath_parse_def aspath_lookup_def)
  moreover have "pool_step aspath_ops aspath_good peer (P, H) (P', add_mset r H)"
    using good aspath_dup_ok g by (rule pool_step.lookup)
  ultimately show ?thesis by blast
qed (use peer in \<open>simp add: aspath_parse_def odd_iff_mod_2_eq_one\<close>)

text \<open>A freshly built object of one of the three kinds of communities.\<close>

lemma value_build_step:
  assumes inv: "pool_inv (value_ops mk) (va_width w) P" and peer: "peer_ok peer"
    and com: "va_width w com" "va_refcnt com = 0" and al: "pool_alloc P com = (a, P1)"
  shows "\<exists>r P'. obj_intern (value_ops mk) peer P1 a = Inr (Some r, P')
    \<and> pool_step (value_ops mk) (va_width w) peer (P, H) (P', add_mset r H)"
proof -
  note oc = value_ops_class [of mk w]
  note A = obj_class.alloc_inv [OF oc inv al]
  have "heap P1 a = Some com" by (simp add: A(3))
  from obj_class.intern_spec [OF oc A(1) peer this com(1)] com(2) obtain r P' where
    I: "obj_intern (value_ops mk) peer P1 a = Inr (Some r, P')" by fastforce
  have "o_ref (value_ops mk) com = 0" using com(2) by simp
  from com(1) this al I have "pool_step (value_ops mk) (va_width w) peer (P, H) (P', add_mset r H)"
    by (rule pool_step.build)
  with I show ?thesis by blast
qed

lemma community_parse_step:
  assumes inv: "pool_inv (community_ops num peer) (va_width 4) P" and peer: "peer_ok peer" and len: "len \<le> length s"
  shows "\<exists>p P'. community_parse num peer P s len = Inr (p, P')
    \<and> (p = None \<and> P' = P
       \<or> (\<exists>a. p = Some a \<and> pool_step (community_ops num peer) (va_width 4) peer (P, H) (P', add_mset a H)))"
proof (cases "len mod 4 = 0")
  case True
  from uniq_sort_spec [OF peer chunks_values [OF True len]] obtain new where
    N: "community_uniq_sort peer (chunks 4 (len div 4) s) = Inr new" "va_refcnt new = 0" "va_width 4 new"
    by blast
  obtain a P1 where al: "pool_alloc P new = (a, P1)" by (cases "pool_alloc P new")
  from value_build_step [OF inv [unfolded community_ops_def] peer N(3,2) al, of H] N len True al
  show ?thesis
    by (auto simp: community_parse_def read_values_def community_intern_def community_ops_def)
qed (use peer in \<open>simp add: community_parse_def\<close>)

lemma ecommunity_parse_step:
  assumes inv: "pool_inv (ecommunity_ops num peer) (va_width 8) P" and peer: "peer_ok peer" and len: "len \<le> length s"
  shows "\<exists>p P'. ecommunity_parse num peer P s len = Inr (p, P')
    \<and> (p = None \<and> P' = P
       \<or> (\<exists>a. p = Some a \<and> pool_step (ecommunity_ops num peer) (va_width 8) peer (P, H) (P', add_mset a H)))"
proof (cases "len mod 8 = 0")
  case True
  from value_uniq_sort_spec [OF peer chunks_values [OF True len]] obtain new where
    N: "value_uniq_sort peer (chunks 8 (len div 8) s) = Some new" "va_refcnt new = 0" "va_width 8 new"
    by blast
  obtain a P1 where al: "pool_alloc P new = (a, P1)" by (cases "pool_alloc P new")
  from value_build_step [OF inv [unfolded ecommunity_ops_def] peer N(3,2) al, of H] N len True al
  show ?thesis
    by (auto simp: ecommunity_parse_def read_values_def ecommunity_intern_def ecommunity_ops_def
        ecommunity_uniq_sort_def ECOMMUNITY_SIZE_def)
qed (use peer in \<open>simp add: ecommunity_parse_def ECOMMUNITY_SIZE_def\<close>)

lemma lcommunity_parse_step:
  assumes inv: "pool_inv (lcommunity_ops peer) (va_width 12) P" and peer: "peer_ok peer" and len: "len \<le> length s"
  shows "\<exists>p P'. lcommunity_parse peer P s len = Inr (p, P')
    \<and> (p = None \<and> P' = P
       \<or> (\<exists>a. p = Some a \<and> pool_step (lcommunity_ops peer) (va_width 12) peer (P, H) (P', add_mset a H)))"
proof (cases "len mod 12 = 0")
  case True
  from value_uniq_sort_spec [OF peer chunks_values [OF True len]] obtain new where
    N: "value_uniq_sort peer (chunks 12 (len div 12) s) = Some new" "va_refcnt new = 0" "va_width 12 new"
    by blast
  obtain a P1 where al: "pool_alloc P new = (a, P1)" by (cases "pool_alloc P new")
  from value_build_step [OF inv [unfolded lcommunity_ops_def] peer N(3,2) al, of H] N len True al
  show ?thesis
    by (auto simp: lcommunity_parse_def read_values_def lcommunity_intern_def lcommunity_ops_def
        lcommunity_uniq_sort_def LCOMMUNITY_SIZE_def)
qed (use peer in \<open>simp add: lcommunity_parse_def LCOMMUNITY_SIZE_def\<close>)

section \<open>The invariant of the parser\<close>

text \<open>A section of prefixes of the message, and what may be read behind it.\<close>

definition mp_room :: "bgp_nlri \<Rightarrow> bool" where
  "mp_room n \<longleftrightarrow> nl_length n < 65536 \<and> (nl_length n = 0 \<or> nl_length n + 20 \<le> length (nl_nlri n))"

text \<open>The message owns a reference to every part of the attributes and to the AS4\_PATH.\<close>

definition attr_inv :: "bgp_config \<Rightarrow> bgp_peer \<Rightarrow> attr_refs \<Rightarrow> attr_st \<Rightarrow> bool" where
  "attr_inv cfg peer R s \<longleftrightarrow> attr_bal cfg (Some peer) (s_db s, R) \<and> attr_good (s_attr s)
     \<and> mp_room (s_mp_update s) \<and> mp_room (s_mp_withdraw s)
     \<and> opt_mset (s_as4_path s) + opt_mset (at_aspath (s_attr s)) \<subseteq># h_as R
     \<and> opt_mset (at_community (s_attr s)) \<subseteq># h_com R
     \<and> opt_mset (at_ecommunity (s_attr s)) \<subseteq># h_ecom R
     \<and> opt_mset (at_lcommunity (s_attr s)) \<subseteq># h_lcom R"

definition safe :: "bgp_config \<Rightarrow> bgp_peer \<Rightarrow> attr_refs \<Rightarrow> attr_st \<Rightarrow> (int \<times> attr_st) run \<Rightarrow> bool" where
  "safe cfg peer R s r \<longleftrightarrow> runs (\<lambda>(ret, s'). \<exists>R'. attr_inv cfg peer R' s' \<and> h_attr R' = h_attr R
     \<and> attrhash (s_db s') = attrhash (s_db s)) r"

lemma safeI:
  "h_attr R' = h_attr R \<Longrightarrow> runs (\<lambda>(ret, s'). attr_inv cfg peer R' s' \<and> attrhash (s_db s') = attrhash (s_db s)) r
    \<Longrightarrow> safe cfg peer R s r"
  unfolding safe_def by (erule runs_mono) auto

lemma safe_here: "attr_inv cfg peer R s' \<Longrightarrow> s_db s' = s_db s \<Longrightarrow> safe cfg peer R s (Inr (ret, s'))"
  by (rule safeI [where R' = R]) auto

lemma safe_if: "(b \<Longrightarrow> safe cfg peer R s r) \<Longrightarrow> (\<not> b \<Longrightarrow> safe cfg peer R s r') \<Longrightarrow> safe cfg peer R s (if b then r else r')"
  by simp

text \<open>Fields outside of the pools.\<close>

lemma attr_inv_simps [simp]:
  "attr_inv cfg peer R (s\<lparr>s_extra := e\<rparr>) = attr_inv cfg peer R s"
  "attr_inv cfg peer R s \<Longrightarrow> mp_room n \<Longrightarrow> attr_inv cfg peer R (s\<lparr>s_mp_update := n\<rparr>)"
  "attr_inv cfg peer R s \<Longrightarrow> mp_room n \<Longrightarrow> attr_inv cfg peer R (s\<lparr>s_mp_withdraw := n\<rparr>)"
  by (simp_all add: attr_inv_def)

lemma attr_inv_set:
  assumes "attr_inv cfg peer R s" and "attr_good x" and "at_aspath x = at_aspath (s_attr s)"
    "at_community x = at_community (s_attr s)" "at_ecommunity x = at_ecommunity (s_attr s)"
    "at_lcommunity x = at_lcommunity (s_attr s)"
  shows "attr_inv cfg peer R (s\<lparr>s_attr := x\<rparr>)"
  using assms by (simp add: attr_inv_def)

lemma own_left: "A + B \<subseteq># C \<Longrightarrow> A + P \<subseteq># P + (C :: nat multiset)"
  by (metis add.commute mset_subset_eq_add_left mset_subset_eq_mono_add_left_cancel subset_mset.order_trans)

lemma own_right: "A + B \<subseteq># C \<Longrightarrow> P + B \<subseteq># P + (C :: nat multiset)"
  by (metis mset_subset_eq_add_right mset_subset_eq_mono_add_left_cancel subset_mset.order_trans)

lemma own_drop: "A + B \<subseteq># C \<Longrightarrow> B \<subseteq># (C :: nat multiset)"
  by (metis mset_subset_eq_add_right subset_mset.order_trans)

lemma attr_invD:
  assumes "attr_inv cfg peer R s"
  shows "attr_bal cfg (Some peer) (s_db s, R)" "attr_good (s_attr s)"
    "opt_mset (s_as4_path s) + opt_mset (at_aspath (s_attr s)) \<subseteq># h_as R"
    "opt_mset (at_community (s_attr s)) \<subseteq># h_com R" "opt_mset (at_ecommunity (s_attr s)) \<subseteq># h_ecom R"
    "opt_mset (at_lcommunity (s_attr s)) \<subseteq># h_lcom R" "mp_room (s_mp_update s)" "mp_room (s_mp_withdraw s)"
  using assms by (simp_all add: attr_inv_def)

lemma aspath_parse_bal:
  assumes bal: "attr_bal cfg (Some peer) (D, R)" and peer: "peer_ok (Some peer)" and len: "len \<le> length ptr"
  shows "\<exists>p P'. aspath_parse (Some peer) (ashash D) ptr len b = Inr (p, P')
    \<and> attr_bal cfg (Some peer) (D\<lparr>ashash := P'\<rparr>, R\<lparr>h_as := opt_mset p + h_as R\<rparr>)"
proof -
  have pinv: "pool_inv aspath_ops aspath_good (ashash D)" using balancedD(1) [OF attr_balD(1) [OF bal]] .
  from aspath_parse_step [OF pinv peer len, where H = "h_as R" and use32bit = b] obtain p P' where
    r: "aspath_parse (Some peer) (ashash D) ptr len b = Inr (p, P')"
    "p = None \<and> P' = ashash D \<or> (\<exists>a. p = Some a
       \<and> pool_step aspath_ops aspath_good (Some peer) (ashash D, h_as R) (P', add_mset a (h_as R)))"
    by blast
  then show ?thesis using as_path_step [OF bal peer] bal by auto
qed

lemma safe_aspath:
  assumes inv: "attr_inv cfg peer R s" and peer: "peer_ok (Some peer)" and len: "len \<le> length ptr"
  shows "safe cfg peer R s (bgp_attr_parse_aspath peer ptr len s)"
    and "safe cfg peer R s (bgp_attr_parse_as4path peer ptr len s)"
proof -
  note I = attr_invD [OF inv]
  from aspath_parse_bal [OF I(1) peer len, of "is_used (bp_cap_4as peer)"] obtain p P' where
    p: "aspath_parse (Some peer) (ashash (s_db s)) ptr len (is_used (bp_cap_4as peer)) = Inr (p, P')"
    "attr_bal cfg (Some peer) ((s_db s)\<lparr>ashash := P'\<rparr>, R\<lparr>h_as := opt_mset p + h_as R\<rparr>)" by blast
  show "safe cfg peer R s (bgp_attr_parse_aspath peer ptr len s)"
    using p I own_left [OF I(3), of "opt_mset p"]
    by (intro safeI [where R' = "R\<lparr>h_as := opt_mset p + h_as R\<rparr>"])
      (simp_all add: bgp_attr_parse_aspath_def attr_inv_def attr_good_def)
  from aspath_parse_bal [OF I(1) peer len, of True] obtain q Q' where
    q: "aspath_parse (Some peer) (ashash (s_db s)) ptr len True = Inr (q, Q')"
    "attr_bal cfg (Some peer) ((s_db s)\<lparr>ashash := Q'\<rparr>, R\<lparr>h_as := opt_mset q + h_as R\<rparr>)" by blast
  show "safe cfg peer R s (bgp_attr_parse_as4path peer ptr len s)"
    using q I own_right [OF I(3), of "opt_mset q"]
    by (intro safeI [where R' = "R\<lparr>h_as := opt_mset q + h_as R\<rparr>"])
      (simp_all add: bgp_attr_parse_as4path_def attr_inv_def)
qed

lemma safe_community:
  assumes inv: "attr_inv cfg peer R s" and peer: "peer_ok (Some peer)" and len: "len \<le> length ptr"
  shows "safe cfg peer R s (bgp_attr_parse_community cfg peer ptr len s)"
proof (cases "len = 0")
  case True
  then show ?thesis using attr_invD [OF inv]
    by (intro safeI [where R' = R]) (simp_all add: bgp_attr_parse_community_def attr_inv_def attr_good_def)
next
  case False
  note I = attr_invD [OF inv]
  have pinv: "pool_inv (community_ops (comms_num cfg) (Some peer)) (va_width 4) (comhash (s_db s))"
    using balancedD(1) [OF attr_balD(2) [OF I(1)]] .
  from community_parse_step [OF pinv peer len, where H = "h_com R"] obtain p P' where
    r: "community_parse (comms_num cfg) (Some peer) (comhash (s_db s)) ptr len = Inr (p, P')"
    "p = None \<and> P' = comhash (s_db s) \<or> (\<exists>a. p = Some a
       \<and> pool_step (community_ops (comms_num cfg) (Some peer)) (va_width 4) (Some peer) (comhash (s_db s), h_com R) (P', add_mset a (h_com R)))"
    by blast
  then have bal: "attr_bal cfg (Some peer) ((s_db s)\<lparr>comhash := P'\<rparr>, R\<lparr>h_com := opt_mset p + h_com R\<rparr>)"
    using communities_step [OF I(1) peer] I(1) by auto
  show ?thesis
    using r(1) False bal I
    by (intro safeI [where R' = "R\<lparr>h_com := opt_mset p + h_com R\<rparr>"])
      (simp_all add: bgp_attr_parse_community_def attr_inv_def attr_good_def)
qed

lemma safe_ecommunity:
  assumes inv: "attr_inv cfg peer R s" and peer: "peer_ok (Some peer)" and len: "len \<le> length ptr"
  shows "safe cfg peer R s (bgp_attr_parse_ecommunity cfg peer ptr len s)"
proof (cases "len = 0")
  case True
  then show ?thesis using attr_invD [OF inv]
    by (intro safeI [where R' = R]) (simp_all add: bgp_attr_parse_ecommunity_def attr_inv_def attr_good_def)
next
  case False
  note I = attr_invD [OF inv]
  have pinv: "pool_inv (ecommunity_ops (comms_num cfg) (Some peer)) (va_width 8) (ecomhash (s_db s))"
    using balancedD(1) [OF attr_balD(3) [OF I(1)]] .
  from ecommunity_parse_step [OF pinv peer len, where H = "h_ecom R"] obtain p P' where
    r: "ecommunity_parse (comms_num cfg) (Some peer) (ecomhash (s_db s)) ptr len = Inr (p, P')"
    "p = None \<and> P' = ecomhash (s_db s) \<or> (\<exists>a. p = Some a
       \<and> pool_step (ecommunity_ops (comms_num cfg) (Some peer)) (va_width 8) (Some peer) (ecomhash (s_db s), h_ecom R) (P', add_mset a (h_ecom R)))"
    by blast
  then have bal: "attr_bal cfg (Some peer) ((s_db s)\<lparr>ecomhash := P'\<rparr>, R\<lparr>h_ecom := opt_mset p + h_ecom R\<rparr>)"
    using ecommunities_step [OF I(1) peer] I(1) by auto
  show ?thesis
    using r(1) False bal I
    by (intro safeI [where R' = "R\<lparr>h_ecom := opt_mset p + h_ecom R\<rparr>"])
      (simp_all add: bgp_attr_parse_ecommunity_def attr_inv_def attr_good_def)
qed

lemma safe_lcommunity:
  assumes inv: "attr_inv cfg peer R s" and peer: "peer_ok (Some peer)" and len: "len \<le> length ptr"
  shows "safe cfg peer R s (bgp_attr_parse_lcommunity peer ptr len s)"
proof (cases "len = 0")
  case True
  then show ?thesis using attr_invD [OF inv]
    by (intro safeI [where R' = R]) (simp_all add: bgp_attr_parse_lcommunity_def attr_inv_def attr_good_def)
next
  case False
  note I = attr_invD [OF inv]
  have pinv: "pool_inv (lcommunity_ops (Some peer)) (va_width 12) (lcomhash (s_db s))"
    using balancedD(1) [OF attr_balD(4) [OF I(1)]] .
  from lcommunity_parse_step [OF pinv peer len, where H = "h_lcom R"] obtain p P' where
    r: "lcommunity_parse (Some peer) (lcomhash (s_db s)) ptr len = Inr (p, P')"
    "p = None \<and> P' = lcomhash (s_db s) \<or> (\<exists>a. p = Some a
       \<and> pool_step (lcommunity_ops (Some peer)) (va_width 12) (Some peer) (lcomhash (s_db s), h_lcom R) (P', add_mset a (h_lcom R)))"
    by blast
  then have bal: "attr_bal cfg (Some peer) ((s_db s)\<lparr>lcomhash := P'\<rparr>, R\<lparr>h_lcom := opt_mset p + h_lcom R\<rparr>)"
    using lcommunities_step [OF I(1) peer] I(1) by auto
  show ?thesis
    using r(1) False bal I
    by (intro safeI [where R' = "R\<lparr>h_lcom := opt_mset p + h_lcom R\<rparr>"])
      (simp_all add: bgp_attr_parse_lcommunity_def attr_inv_def attr_good_def)
qed

text \<open>The attributes that stay in the record. Each is read inside the octets that may be read.\<close>

lemma peek_ok: "i < length s \<Longrightarrow> peek s i = Inr (s ! i)"
  by (simp add: peek_def)

lemma peek32_ok: "i + 4 \<le> length s \<Longrightarrow> \<exists>w. peek32 s i = Inr w"
  by (cases "drop i s" rule: rd32.cases) (auto simp: peek32_def dest: arg_cong [where f = length])

lemma block_ok: "i + n \<le> length s \<Longrightarrow> block s i n = Inr (take n (drop i s))"
  by (simp add: block_def)

lemma safe_plain:
  assumes inv: "attr_inv cfg peer R s" and len: "len + 20 \<le> length ptr" and short: "len < 65536"
  shows "safe cfg peer R s (bgp_attr_parse_nexthop ptr len s)"
    and "safe cfg peer R s (bgp_attr_parse_med ptr len s)"
    and "safe cfg peer R s (bgp_attr_parse_local_pref ptr len s)"
    and "safe cfg peer R s (bgp_attr_parse_origin ptr len s)"
    and "safe cfg peer R s (bgp_attr_parse_aigp ptr len s)"
    and "safe cfg peer R s (bgp_attr_parse_prefix_sid ptr len s)"
    and "safe cfg peer R s (bgp_attr_parse_otc ptr len s)"
    and "safe cfg peer R s (bgp_attr_parse_ls ptr len s)"
    and "safe cfg peer R s (bgp_attr_parse_mp_unreach ptr len s)"
proof -
  note I = attr_invD [OF inv]
  have set: "safe cfg peer R s (Inr (ret, s\<lparr>s_attr := x\<rparr>))"
    if "attr_good x" "at_aspath x = at_aspath (s_attr s)" "at_community x = at_community (s_attr s)"
      "at_ecommunity x = at_ecommunity (s_attr s)" "at_lcommunity x = at_lcommunity (s_attr s)" for x ret
    using attr_inv_set [OF inv that] by (intro safe_here) simp_all
  have rest: "safe cfg peer R s (Inr (ret, s\<lparr>s_extra := e\<rparr>))" "safe cfg peer R s (Inr (ret, s))"
    "mp_room n \<Longrightarrow> safe cfg peer R s (Inr (ret, s\<lparr>s_mp_withdraw := n\<rparr>))" for ret e n
    using inv by (simp_all add: safe_here)
  have good: "attr_good (s_attr s)" using I(2) .
  obtain w0 where w0: "peek32 ptr 0 = Inr w0" using peek32_ok [of 0 ptr] len by auto
  show "safe cfg peer R s (bgp_attr_parse_nexthop ptr len s)"
    using len good by (auto simp: bgp_attr_parse_nexthop_def block_ok attr_good_def intro!: set rest)
  show "safe cfg peer R s (bgp_attr_parse_med ptr len s)"
    using w0 good by (auto simp: bgp_attr_parse_med_def attr_good_def intro!: set rest)
  show "safe cfg peer R s (bgp_attr_parse_local_pref ptr len s)"
    using w0 good by (auto simp: bgp_attr_parse_local_pref_def attr_good_def intro!: set rest)
  show "safe cfg peer R s (bgp_attr_parse_origin ptr len s)"
    using len good by (auto simp: bgp_attr_parse_origin_def attr_good_def peek_def intro!: set rest)
  show "safe cfg peer R s (bgp_attr_parse_aigp ptr len s)"
    using len block_ok [of 3 8 ptr] by (auto simp: bgp_attr_parse_aigp_def intro!: rest)
  show "safe cfg peer R s (bgp_attr_parse_otc ptr len s)"
    using w0 by (auto simp: bgp_attr_parse_otc_def intro!: rest)
  show "safe cfg peer R s (bgp_attr_parse_ls ptr len s)"
    by (auto simp: bgp_attr_parse_ls_def intro!: rest)
  show "safe cfg peer R s (bgp_attr_parse_mp_unreach ptr len s)"
    using len short peek16_nth [of 0 ptr] peek_ok [of 2 ptr]
    by (auto simp: bgp_attr_parse_mp_unreach_def BGP_MP_UNREACH_MIN_SIZE_def mp_room_def intro!: rest)
  show "safe cfg peer R s (bgp_attr_parse_prefix_sid ptr len s)"
  proof (cases "len < 3")
    case True
    then show ?thesis by (simp add: bgp_attr_parse_prefix_sid_def rest)
  next
    case False
    then obtain w6 where "peek32 ptr 6 = Inr w6" using peek32_ok [of 6 ptr] len by auto
    moreover have "peek ptr 0 = Inr (ptr ! 0)" using len by (intro peek_ok) auto
    ultimately show ?thesis using False len peek16_nth [of 1 ptr]
      by (auto simp: bgp_attr_parse_prefix_sid_def intro!: rest)
  qed
qed

lemma mp_nexthop_ok:
  "nhlen \<le> length ptr \<Longrightarrow> \<exists>a. mp_nexthop_of nhlen ptr = Inr a \<and> ha_good a"
  by (auto simp: mp_nexthop_of_def block_ok ha_good_def AF_INET_def AF_INET6_def)

lemma safe_mp_reach:
  assumes inv: "attr_inv cfg peer R s" and peer: "peer_ok (Some peer)" and len: "len + 20 \<le> length ptr" and short: "len < 65536"
  shows "safe cfg peer R s (bgp_attr_parse_mp_reach peer ptr len s)"
proof (cases "len < BGP_MP_REACH_MIN_SIZE")
  case True
  then show ?thesis using inv peer by (simp add: bgp_attr_parse_mp_reach_def safe_here)
next
  case False
  then have l: "5 \<le> len" by (simp add: BGP_MP_REACH_MIN_SIZE_def)
  define nhlen where "nhlen = (if unat (ptr ! 3) < 128 then unat (ptr ! 3) else 65536 - 256 + unat (ptr ! 3))"
  have inv': "safe cfg peer R s (Inr (ret, s\<lparr>s_attr := (s_attr s)\<lparr>at_mp_nexthop := a\<rparr>\<rparr>))"
    if "ha_good a" for ret a
    using attr_inv_set [OF inv, of "(s_attr s)\<lparr>at_mp_nexthop := a\<rparr>"] that
    by (auto simp: attr_good_def intro!: safe_here)
  have inv2: "safe cfg peer R s (Inr (ret, s\<lparr>s_attr := (s_attr s)\<lparr>at_mp_nexthop := a\<rparr>, s_mp_update := n\<rparr>))"
    if "ha_good a" "mp_room n" for ret a n
    using attr_inv_set [OF inv, of "(s_attr s)\<lparr>at_mp_nexthop := a\<rparr>"] that
    by (auto simp: attr_good_def intro!: safe_here attr_inv_simps)
  have p: "peek16 ptr 0 = Inr (be16 (ptr ! 0) (ptr ! 1))" "peek ptr 2 = Inr (ptr ! 2)" "peek ptr 3 = Inr (ptr ! 3)"
    using l len peek16_nth [of 0 ptr] peek_ok [of 2 ptr] peek_ok [of 3 ptr] by simp_all
  show ?thesis
  proof (cases "nhlen < len - 4")
    case True
    then have "nhlen \<le> length (drop 4 ptr)" using len by simp
    from mp_nexthop_ok [OF this] obtain a where
      a: "mp_nexthop_of nhlen (drop 4 ptr) = Inr a" "ha_good a" by blast
    have "mp_room \<lparr>nl_afi = f, nl_safi = g, nl_nlri = drop (4 + nhlen + 1) ptr, nl_length = len - 4 - nhlen - 1\<rparr>" for f g
      using True len short by (simp add: mp_room_def) arith
    note room = this
    show ?thesis
      unfolding bgp_attr_parse_mp_reach_def Let_def p fbind.simps nhlen_def [symmetric] a(1)
      by (intro safe_if safe_here [OF inv refl] inv' inv2 a(2) room)
  next
    case False
    then show ?thesis
      unfolding bgp_attr_parse_mp_reach_def Let_def p fbind.simps nhlen_def [symmetric]
      by (intro safe_if safe_here [OF inv refl]) simp
  qed
qed

lemma safe_switch:
  assumes inv: "attr_inv cfg peer R s" and peer: "peer_ok (Some peer)" and len: "len + 20 \<le> length ptr" and short: "len < 65536"
  shows "safe cfg peer R s (attr_switch cfg peer type ptr len s)"
proof -
  have l: "len \<le> length ptr" using len by simp
  have ls: "safe cfg peer R s (fbind (bgp_attr_parse_ls ptr len s) (\<lambda>(_, s). Inr (0, s)))"
    using safe_plain(8) [OF inv len short] unfolding safe_def by (rule runs_bind) auto
  show ?thesis
    unfolding attr_switch_def
    using safe_aspath [OF inv peer l] safe_community [OF inv peer l] safe_ecommunity [OF inv peer l]
      safe_lcommunity [OF inv peer l] safe_mp_reach [OF inv peer len short] safe_plain [OF inv len short] ls safe_here [OF inv refl]
    by presburger
qed

section \<open>The loop\<close>

lemma attr_head_ok:
  assumes "4 \<le> length ptr"
  shows "\<exists>type n hd. attr_head ptr = Inr (type, n, hd) \<and> hd \<le> 4 \<and> n < 65536"
proof -
  have "peek ptr 0 = Inr (ptr ! 0)" using assms by (intro peek_ok) auto
  then show ?thesis
    using assms peek_ok [of 1 ptr] peek_ok [of 2 ptr] peek16_nth [of 2 ptr]
    by (auto simp: attr_head_def intro: less_trans [OF unat_u8_less])
qed

lemma safe_loop:
  assumes "attr_inv cfg peer R s" "peer_ok (Some peer)" "nat left + 20 \<le> length ptr"
  shows "safe cfg peer R s (attr_loop cfg peer ptr left s)"
  using assms
proof (induction "nat left" arbitrary: ptr left s R rule: less_induct)
  case less
  show ?case
  proof (cases "left < BGP_ATTR_MIN_LEN")
    case True
    then show ?thesis using less.prems(1) by (subst attr_loop.simps) (auto simp: safe_here)
  next
    case False
    then have l: "3 \<le> left" by (simp add: BGP_ATTR_MIN_LEN_def)
    from attr_head_ok [of ptr] less.prems(3) obtain type n hd where
      h: "attr_head ptr = Inr (type, n, hd)" "hd \<le> 4" "n < 65536" by auto
    show ?thesis
    proof (cases "left - int hd < int n")
      case True
      then show ?thesis using less.prems(1) l h False
        by (subst attr_loop.simps) (auto simp: safe_here)
    next
      case fits: False
      have hd: "3 \<le> hd" using h(1) by (auto simp: attr_head_def fault_simps split: if_splits)
      have "n + 20 \<le> length (drop hd ptr)" using fits less.prems(3) l by simp
      from safe_switch [OF less.prems(1,2) this h(3), of type] obtain ret s' R' where
        sw: "attr_switch cfg peer type (drop hd ptr) n s = Inr (ret, s')" "attr_inv cfg peer R' s'"
          "h_attr R' = h_attr R" "attrhash (s_db s') = attrhash (s_db s)"
        by (auto simp: safe_def runs_iff)
      have eq: "attr_loop cfg peer ptr left s = (if ret < 0 then Inr (ret, s')
          else attr_loop cfg peer (drop (hd + n) ptr) (left - int hd - int n) s')"
        using l h(1) False fits sw(1) by (subst attr_loop.simps) simp
      show ?thesis
      proof (cases "ret < 0")
        case True
        then show ?thesis unfolding eq using sw(2-4) by (auto simp: safe_def)
      next
        case False
        have "safe cfg peer R' s' (attr_loop cfg peer (drop (hd + n) ptr) (left - int hd - int n) s')"
          using l hd fits less.prems(3) by (intro less.hyps [OF _ sw(2) less.prems(2)]) auto
        then show ?thesis unfolding eq using False sw(3,4) by (simp add: safe_def)
      qed
    qed
  qed
qed

text \<open>What \<open>bgp_attr_parse\<close> leaves behind. The AS4\_PATH is not used for a peer with four-octet AS
  numbers; for another one there must be an AS\_PATH.\<close>

lemma attr_inv_start:
  assumes "attr_bal cfg (Some peer) (s_db s, R)" "s_attr s = attr_zero" "s_as4_path s = None"
    "s_mp_update s = nlri_zero" "s_mp_withdraw s = nlri_zero"
  shows "attr_inv cfg peer R s"
  using assms by (simp add: attr_inv_def attr_zero_def attr_good_def ha_good_def mp_room_def nlri_zero_def)

lemma aspath_unintern_bal:
  assumes bal: "attr_bal cfg (Some peer) (D, R)" and peer: "peer_ok (Some peer)" and a: "a \<in># h_as R"
  shows "\<exists>P'. aspath_unintern (Some peer) (ashash D) (Some a) = Inr P'
    \<and> attr_bal cfg (Some peer) (D\<lparr>ashash := P'\<rparr>, R\<lparr>h_as := h_as R - {#a#}\<rparr>)"
proof -
  note B = attr_balD(1) [OF bal]
  have ap: "a \<in> pool_ptrs (ashash D)" using balancedD(2) [OF B] a by auto
  then obtain x where "heap (ashash D) a = Some x" using pool_invD(3) [OF balancedD(1) [OF B]] by blast
  from asp.unintern_spec [OF balancedD(1) [OF B] peer ap this] obtain P' where
    P': "obj_unintern aspath_ops (Some peer) (ashash D) (Some a) = Inr P'" by blast
  then have "pool_step aspath_ops aspath_good (Some peer) (ashash D, h_as R) (P', h_as R - {#a#})"
    using a by (intro pool_step.release)
  from as_path_step [OF bal peer this] P' show ?thesis by (auto simp: aspath_unintern_def)
qed

lemma safe_attr_parse:
  assumes inv: "attr_bal cfg (Some peer) (s_db s, R)" "s_attr s = attr_zero"
      "s_mp_update s = nlri_zero" "s_mp_withdraw s = nlri_zero" and peer: "peer_ok (Some peer)"
    and len: "len + 20 \<le> length ptr" and as4: "is_used (bp_cap_4as peer)"
  shows "runs (\<lambda>(ret, s'). \<exists>R'. attr_inv cfg peer R' (s'\<lparr>s_as4_path := None\<rparr>) \<and> h_attr R' = h_attr R
     \<and> attrhash (s_db s') = attrhash (s_db s)) (bgp_attr_parse cfg peer ptr len s)"
proof -
  have start: "attr_inv cfg peer R (s\<lparr>s_as4_path := None\<rparr>)" using inv by (intro attr_inv_start) simp_all
  from safe_loop [OF start peer, of "int len" ptr] len obtain ret s' R' where
    l: "attr_loop cfg peer ptr (int len) (s\<lparr>s_as4_path := None\<rparr>) = Inr (ret, s')" "attr_inv cfg peer R' s'"
      "h_attr R' = h_attr R" "attrhash (s_db s') = attrhash (s_db s)"
    by (auto simp: safe_def runs_iff)
  note I = attr_invD [OF l(2)]
  have keep: "attr_inv cfg peer R' (s'\<lparr>s_as4_path := None\<rparr>)"
    using I own_drop [OF I(3)] by (simp add: attr_inv_def)
  show ?thesis
  proof (cases "ret < 0 \<or> s_as4_path s' = None")
    case True
    then have "\<exists>r. bgp_attr_parse cfg peer ptr len s = Inr (r, s')"
      using l(1) peer by (auto simp: bgp_attr_parse_def split: option.splits)
    then show ?thesis using keep l(3,4) by auto
  next
    case False
    then obtain a where a: "s_as4_path s' = Some a" by auto
    with I(3) have mem: "a \<in># h_as R'" "opt_mset (at_aspath (s_attr s')) \<subseteq># h_as R' - {#a#}"
      by (simp_all add: insert_subset_eq_iff)
    from aspath_unintern_bal [OF I(1) peer mem(1)] obtain P' where
      u: "aspath_unintern (Some peer) (ashash (s_db s')) (Some a) = Inr P'"
        "attr_bal cfg (Some peer) ((s_db s')\<lparr>ashash := P'\<rparr>, R'\<lparr>h_as := h_as R' - {#a#}\<rparr>)" by blast
    have "bgp_attr_parse cfg peer ptr len s = Inr (SUCCESS, s'\<lparr>s_attr := s_attr s', s_db := (s_db s')\<lparr>ashash := P'\<rparr>\<rparr>)"
      using l(1) peer False a as4 u(1) by (simp add: bgp_attr_parse_def bgp_attr_munge_as4path_def)
    moreover have "attr_inv cfg peer (R'\<lparr>h_as := h_as R' - {#a#}\<rparr>)
        (s'\<lparr>s_attr := s_attr s', s_db := (s_db s')\<lparr>ashash := P'\<rparr>, s_as4_path := None\<rparr>)"
      using I u(2) mem(2) by (simp add: attr_inv_def)
    ultimately show ?thesis using l(3,4) by (auto intro!: exI [of _ "R'\<lparr>h_as := h_as R' - {#a#}\<rparr>"])
  qed
qed

end
