(* ===== verification/RibFacts.thy ===== *)
theory RibFacts
  imports BgpRoute TableMatch
begin

text \<open>
  Entries in the tables. Reading and writing the buckets of a node, and the map of entries that a
  table stands for: in it the lock count of a network is the number of its entries, and the networks
  without entries are not there.
\<close>

section \<open>The buckets of a node\<close>

lemma node_info_ok:
  assumes "patricia bms xs t" "prefix_ok k" "rib t (p_bits k) = Some (lk0, info0)"
  shows "node_info stray t k = Inr info0"
  using assms
proof (induction t arbitrary: xs)
  case (Node q lk info l r)
  then have ok: "prefix_ok q" by simp
  have sub: "patricia bms (p_bits q @ [False]) l" "patricia bms (p_bits q @ [True]) r"
    using Node.prems(1) by simp_all
  from ok Node.prems(2) show ?case
  proof (cases rule: walk_cases [where stray = stray])
    case same
    then show ?thesis using Node.prems(3) by (auto split: if_splits)
  next
    case (down b)
    have "rib (if b then r else l) (p_bits k) = Some (lk0, info0)"
      using Node.prems(3) rib_below [OF down(5), of lk info l r] by simp
    then show ?thesis using Node.IH Node.prems(2) sub down by (cases b) (auto simp del: rib.simps)
  next
    case off
    then show ?thesis
      using Node.prems(3) rib_not_below [OF patricia_self [OF Node.prems(1)]] by simp
  qed
qed simp

definition put_ok where
  "put_ok bms xs t k e res \<longleftrightarrow> (\<exists>t'. res = Inr t' \<and> patricia bms xs t' \<and> t' \<noteq> Tip
     \<and> num_nodes t' = num_nodes t \<and> rib t' = (rib t)(p_bits k \<mapsto> e))"

lemma put_ok_down:
  assumes "patricia bms xs (Node q lk info l r)" "Sublist.prefix (p_bits q @ [b]) (p_bits k)"
    and "put_ok bms (p_bits q @ [b]) (if b then r else l) k e res"
  shows "put_ok bms xs (Node q lk info l r) k e
    (fbind res (\<lambda>c. Inr (if b then Node q lk info l c else Node q lk info c r)))"
proof -
  from assms(3) obtain c where c: "res = Inr c" "patricia bms (p_bits q @ [b]) c" "c \<noteq> Tip"
    "num_nodes c = num_nodes (if b then r else l)" "rib c = (rib (if b then r else l))(p_bits k \<mapsto> e)"
    by (auto simp: put_ok_def)
  let ?t = "if b then Node q lk info l c else Node q lk info c r"
  have "rib ?t ks = ((rib (Node q lk info l r))(p_bits k \<mapsto> e)) ks" for ks
    using c(5) assms(2) prefix_snoc_unique [of "p_bits q" True ks False] by (cases b) auto
  then show ?thesis
    using assms(1) c(1-4) by (auto simp: put_ok_def fun_eq_iff simp del: fun_upd_apply rib.simps)
qed

lemma node_set_info_ok:
  assumes "patricia bms xs t" "prefix_ok k" "rib t (p_bits k) = Some (lk0, info0)" "length v = length info0"
  shows "put_ok bms xs t k (lk0, v) (node_set_info stray v t k)"
  using assms
proof (induction t arbitrary: xs)
  case (Node q lk info l r)
  then have ok: "prefix_ok q" by simp
  have sub: "patricia bms (p_bits q @ [False]) l" "patricia bms (p_bits q @ [True]) r"
    using Node.prems(1) by simp_all
  from ok Node.prems(2) show ?case
  proof (cases rule: walk_cases [where stray = stray])
    case same
    then show ?thesis using Node.prems by (auto simp: put_ok_def fun_eq_iff split: if_splits)
  next
    case (down b)
    have "rib (if b then r else l) (p_bits k) = Some (lk0, info0)"
      using Node.prems(3) rib_below [OF down(5), of lk info l r] by simp
    with down have "put_ok bms (p_bits q @ [b]) (if b then r else l) k (lk0, v)
        (node_set_info stray v (if b then r else l) k)"
      using Node.IH Node.prems(2,4) sub by (cases b) (auto simp del: rib.simps)
    from put_ok_down [OF Node.prems(1) down(5) this] down show ?thesis
      by (cases b) (simp_all del: rib.simps)
  next
    case off
    then show ?thesis
      using Node.prems(3) rib_not_below [OF patricia_self [OF Node.prems(1)]] by simp
  qed
qed simp

lemma node_lock_put:
  assumes "patricia bms xs t" "prefix_ok k" "rib t (p_bits k) = Some (lk0, info0)" "lk0 + 1 \<noteq> 0"
    "\<not> is_readonly bms"
  shows "put_ok bms xs t k (lk0 + 1, info0) (node_lock bms stray t k)"
  using assms
proof (induction t arbitrary: xs)
  case (Node q lk info l r)
  then have ok: "prefix_ok q" by simp
  have sub: "patricia bms (p_bits q @ [False]) l" "patricia bms (p_bits q @ [True]) r"
    using Node.prems(1) by simp_all
  from ok Node.prems(2) show ?case
  proof (cases rule: walk_cases [where stray = stray])
    case same
    then show ?thesis using Node.prems by (auto simp: put_ok_def lock_count_def fun_eq_iff split: if_splits)
  next
    case (down b)
    have "rib (if b then r else l) (p_bits k) = Some (lk0, info0)"
      using Node.prems(3) rib_below [OF down(5), of lk info l r] by simp
    with down have "put_ok bms (p_bits q @ [b]) (if b then r else l) k (lk0 + 1, info0)
        (node_lock bms stray (if b then r else l) k)"
      using Node.IH Node.prems(2,4,5) sub by (cases b) (auto simp del: rib.simps)
    from put_ok_down [OF Node.prems(1) down(5) this] down show ?thesis
      by (cases b) (simp_all del: rib.simps)
  next
    case off
    then show ?thesis
      using Node.prems(3) rib_not_below [OF patricia_self [OF Node.prems(1)]] by simp
  qed
qed simp

section \<open>The operations on a table\<close>

lemma get_chain_ok:
  assumes "table_ok bms table" "prefix_ok k" "table_rib table (p_bits k) = Some (lk, info)" "b < length info"
  shows "get_chain stray table k b = Inr (info ! b)"
  using node_info_ok [OF _ assms(2,3), of bms "[]" stray] assms by (simp add: get_chain_def table_ok_def)

lemma set_chain_ok:
  assumes "table_ok bms table" "prefix_ok k" "table_rib table (p_bits k) = Some (lk, info)"
  shows "\<exists>table'. set_chain stray table k b ch = Inr table' \<and> table_ok bms table'
    \<and> table_rib table' = (table_rib table)(p_bits k \<mapsto> (lk, info[b := ch]))"
proof -
  have p: "patricia bms [] (t_top table)" using assms(1) by (simp add: table_ok_def)
  from node_set_info_ok [OF p assms(2,3), of "info[b := ch]" stray] obtain t' where
    "node_set_info stray (info[b := ch]) (t_top table) k = Inr t'" "patricia bms [] t'"
    "num_nodes t' = num_nodes (t_top table)" "rib t' = (table_rib table)(p_bits k \<mapsto> (lk, info[b := ch]))"
    by (auto simp: put_ok_def)
  then show ?thesis
    using node_info_ok [OF p assms(2,3), of stray] assms(1) by (simp add: set_chain_def table_ok_def)
qed

lemma table_lock_ok:
  assumes "table_ok bms table" "prefix_ok k" "table_rib table (p_bits k) = Some (lk, info)" "lk + 1 \<noteq> 0"
    "\<not> is_readonly bms"
  shows "\<exists>table'. table_lock bms stray table k = Inr table' \<and> table_ok bms table'
    \<and> table_rib table' = (table_rib table)(p_bits k \<mapsto> (lk + 1, info))"
proof -
  have p: "patricia bms [] (t_top table)" using assms(1) by (simp add: table_ok_def)
  from node_lock_put [OF p assms(2-5), of stray] obtain t' where
    "node_lock bms stray (t_top table) k = Inr t'" "patricia bms [] t'"
    "num_nodes t' = num_nodes (t_top table)" "rib t' = (table_rib table)(p_bits k \<mapsto> (lk + 1, info))"
    by (auto simp: put_ok_def)
  then show ?thesis using assms(1) by (simp add: table_lock_def table_ok_def)
qed

lemma table_get_ok:
  assumes "table_ok bms table" "prefix_wf p" "\<not> is_readonly bms" "lock_room (table_rib table (p_bits p))"
  shows "\<exists>table' k. bgp_node_get bms stray table p = Inr (table', k) \<and> table_ok bms table'
    \<and> prefix_ok k \<and> p_bits k = p_bits p
    \<and> table_rib table' = (table_rib table)(p_bits p \<mapsto> bump bms (table_rib table (p_bits p)))"
  using node_get_ok [of bms "[]" "t_top table" p stray] assms
  by (auto simp: get_ok_def bgp_node_get_def table_ok_def)

lemma table_unlock_ok:
  assumes "table_ok bms table" "prefix_ok k" "\<not> is_readonly bms"
    and "table_rib table (p_bits k) = Some (lk, info)" "lk = 1 \<Longrightarrow> info = empty_info bms"
  shows "\<exists>table'. bgp_unlock_node bms stray table k = Inr table' \<and> table_ok bms table'
    \<and> table_rib table' = (table_rib table)(p_bits k := drop_lock (lk, info))"
proof -
  have "unlock_ok bms [] (t_top table) k (node_unlock bms stray (t_top table) k)"
    using node_unlock_ok [OF _ assms(2,3,4,5)] assms(1) by (simp add: table_ok_def)
  then show ?thesis
    using assms by (fastforce simp: unlock_ok_def bgp_unlock_node_def table_ok_def)
qed

section \<open>The map of entries\<close>

type_synonym 'i entries = "bool list \<Rightarrow> 'i list list"

definition total :: "'i list list \<Rightarrow> nat" where
  "total info = length (concat info)"

text \<open>\<open>L\<close> are the locks of a network beside those of its entries: there are none in the tables of the BGP
  daemon, whose walks give back what they take; the lookups of the RPKI daemon keep theirs.\<close>

definition rib_with :: "(bool list \<Rightarrow> nat) \<Rightarrow> 'i entries \<Rightarrow> bool list \<Rightarrow> (u32 \<times> 'i list list) option" where
  "rib_with L E ks = (if L ks + total (E ks) = 0 then None else Some (u32n (L ks + total (E ks)), E ks))"

definition rib_of :: "'i entries \<Rightarrow> bool list \<Rightarrow> (u32 \<times> 'i list list) option" where
  "rib_of E ks = (if total (E ks) = 0 then None else Some (u32n (total (E ks)), E ks))"

text \<open>The table stands for the map of entries. Lock counts have 32 bits; there must be room for the
  locks taken in passing.\<close>

definition stands_with :: "misc_db \<Rightarrow> (bool list \<Rightarrow> nat) \<Rightarrow> 'i bgp_table \<Rightarrow> 'i entries \<Rightarrow> bool" where
  "stands_with bms L table E \<longleftrightarrow> table_ok bms table \<and> table_rib table = rib_with L E
     \<and> (\<forall>ks. length (E ks) = length (empty_info bms :: 'i list list) \<and> L ks + total (E ks) < 2 ^ 32)"

definition stands_for :: "misc_db \<Rightarrow> 'i bgp_table \<Rightarrow> 'i entries \<Rightarrow> bool" where
  "stands_for bms table E \<longleftrightarrow> table_ok bms table \<and> table_rib table = rib_of E
     \<and> (\<forall>ks. length (E ks) = length (empty_info bms :: 'i list list) \<and> total (E ks) < 2 ^ 32)"

lemma rib_with_none: "rib_with (\<lambda>_. 0) E = rib_of E"
  by (simp add: rib_with_def rib_of_def fun_eq_iff)

lemma stands_with_none: "stands_with bms (\<lambda>_. 0) table E = stands_for bms table E"
  by (simp add: stands_with_def stands_for_def rib_with_none)

lemma total_0 [simp]: "total info = 0 \<longleftrightarrow> (\<forall>c \<in> set info. c = [])"
  by (simp add: total_def)

lemma total_replicate: "total info = 0 \<Longrightarrow> info = replicate (length info) []"
  by (induction info) (auto simp: total_def)

lemma total_update:
  "b < length info \<Longrightarrow> total (info[b := c]) + length (info ! b) = total info + length c"
proof (induction info arbitrary: b)
  case (Cons a info)
  then show ?case by (cases b) (auto simp: total_def)
qed simp

lemma u32n_inj: "m < 2 ^ 32 \<Longrightarrow> n < 2 ^ 32 \<Longrightarrow> u32n m = u32n n \<longleftrightarrow> m = n"
proof
  assume "m < 2 ^ 32" "n < 2 ^ 32" "u32n m = u32n n"
  then have "unat (u32n m) = unat (u32n n)" "m < 4294967296" "n < 4294967296" by simp_all
  then show "m = n" by simp
qed simp

section \<open>A network in use\<close>

text \<open>Between \<open>bgp_node_get\<close> and the last \<open>bgp_unlock_node\<close>: the network \<open>ks\<close> has \<open>m\<close> locks and the
  buckets \<open>info\<close>, the others are those of the map.\<close>

definition entries_with :: "misc_db \<Rightarrow> (bool list \<Rightarrow> nat) \<Rightarrow> 'i entries \<Rightarrow> bool" where
  "entries_with bms L E \<longleftrightarrow>
     (\<forall>ks. length (E ks) = length (empty_info bms :: 'i list list) \<and> L ks + total (E ks) < 2 ^ 32)"

definition in_use_with :: "misc_db \<Rightarrow> (bool list \<Rightarrow> nat) \<Rightarrow> 'i bgp_table \<Rightarrow> 'i entries \<Rightarrow> bool list \<Rightarrow> nat
    \<Rightarrow> 'i list list \<Rightarrow> bool" where
  "in_use_with bms L table E ks m info \<longleftrightarrow> table_ok bms table \<and> entries_with bms L E
     \<and> length info = length (empty_info bms :: 'i list list) \<and> m < 2 ^ 32
     \<and> table_rib table = (rib_with L E)(ks \<mapsto> (u32n m, info))"

abbreviation in_use :: "misc_db \<Rightarrow> 'i bgp_table \<Rightarrow> 'i entries \<Rightarrow> bool list \<Rightarrow> nat \<Rightarrow> 'i list list \<Rightarrow> bool" where
  "in_use bms \<equiv> in_use_with bms (\<lambda>_. 0)"

lemma stands_with_entries: "stands_with bms L table E \<Longrightarrow> entries_with bms L E"
  by (simp add: stands_with_def entries_with_def)

lemma empty_total: "entries_with bms L E \<Longrightarrow> total (E ks) = 0 \<Longrightarrow> E ks = empty_info bms"
  using total_replicate [of "E ks"] by (simp add: entries_with_def empty_info_def)

lemma total_empty [simp]: "total (empty_info bms :: 'i list list) = 0"
  by (simp add: empty_info_def)

lemma u32n_Suc: "u32n (Suc n) = u32n n + 1"
  by (simp add: u32n_def)

lemma u32n_eq_0: "n < 2 ^ 32 \<Longrightarrow> u32n n = 0 \<longleftrightarrow> n = 0"
  using u32n_inj [of n 0] by (simp add: u32n_def)

lemma u32n_eq_1: "n < 2 ^ 32 \<Longrightarrow> u32n n = 1 \<longleftrightarrow> n = 1"
  using u32n_inj [of n 1] by (simp add: u32n_def)

lemma bump_with:
  assumes E: "entries_with bms L E" and n: "Suc (L ks + total (E ks)) < 2 ^ 32"
  shows "lock_room (rib_with L E ks)" "bump bms (rib_with L E ks) = (u32n (Suc (L ks + total (E ks))), E ks)"
proof -
  show "lock_room (rib_with L E ks)"
    using n u32n_eq_0 [of "Suc (L ks + total (E ks))"] by (auto simp: rib_with_def lock_room_def u32n_Suc)
  show "bump bms (rib_with L E ks) = (u32n (Suc (L ks + total (E ks))), E ks)"
    using empty_total [OF E, of ks] by (auto simp: rib_with_def bump_def u32n_Suc u32n_def)
qed

lemma use_get_with:
  assumes s: "stands_with bms L table E" and p: "prefix_wf p" and ro: "\<not> is_readonly bms"
    and room: "Suc (L (p_bits p) + total (E (p_bits p))) < 2 ^ 32"
  shows "\<exists>table' k. bgp_node_get bms stray table p = Inr (table', k) \<and> prefix_ok k \<and> p_bits k = p_bits p
    \<and> in_use_with bms L table' E (p_bits p) (Suc (L (p_bits p) + total (E (p_bits p)))) (E (p_bits p))"
proof -
  have E: "entries_with bms L E" using s by (rule stands_with_entries)
  have t: "table_ok bms table" "table_rib table = rib_with L E" using s by (simp_all add: stands_with_def)
  show ?thesis
    using table_get_ok [OF t(1) p ro, of stray] bump_with [OF E room] E room t(2)
    by (auto simp: in_use_with_def entries_with_def)
qed

lemma use_get:
  assumes "stands_for bms table E" "prefix_wf p" "\<not> is_readonly bms" "Suc (total (E (p_bits p))) < 2 ^ 32"
  shows "\<exists>table' k. bgp_node_get bms stray table p = Inr (table', k) \<and> prefix_ok k \<and> p_bits k = p_bits p
    \<and> in_use bms table' E (p_bits p) (Suc (total (E (p_bits p)))) (E (p_bits p))"
  using use_get_with [of bms "\<lambda>_. 0" table E p stray] assms by (simp add: stands_with_none)

lemma in_useD:
  fixes info :: "'i list list"
  assumes "in_use_with bms L table E ks m info"
  shows "table_ok bms table" "table_rib table ks = Some (u32n m, info)" "entries_with bms L E" "m < 2 ^ 32"
    "length info = length (empty_info bms :: 'i list list)" "table_rib table = (rib_with L E)(ks \<mapsto> (u32n m, info))"
  using assms by (simp_all add: in_use_with_def)

lemma use_chain:
  assumes "in_use_with bms L table E (p_bits k) m info" "prefix_ok k" "b < length info"
  shows "get_chain stray table k b = Inr (info ! b)"
  using get_chain_ok [OF in_useD(1) [OF assms(1)] assms(2) in_useD(2) [OF assms(1)] assms(3)] .

lemma use_set:
  assumes u: "in_use_with bms L table E (p_bits k) m info" and "prefix_ok k"
  shows "\<exists>table'. set_chain stray table k b ch = Inr table'
    \<and> in_use_with bms L table' E (p_bits k) m (info[b := ch])"
  using set_chain_ok [OF in_useD(1) [OF u] assms(2) in_useD(2) [OF u], of stray b ch] u
  by (auto simp: in_use_with_def)

lemma use_lock:
  assumes u: "in_use_with bms L table E (p_bits k) m info" and "prefix_ok k" "\<not> is_readonly bms" "Suc m < 2 ^ 32"
  shows "\<exists>table'. table_lock bms stray table k = Inr table' \<and> in_use_with bms L table' E (p_bits k) (Suc m) info"
proof -
  have "u32n m + 1 \<noteq> 0" using u32n_eq_0 [OF assms(4)] by (simp add: u32n_Suc)
  from table_lock_ok [OF in_useD(1) [OF u] assms(2) in_useD(2) [OF u] this assms(3), of stray] u assms(4)
  show ?thesis by (auto simp: in_use_with_def u32n_Suc)
qed

lemma use_unlock:
  assumes u: "in_use_with bms L table E (p_bits k) (Suc m) info" and "prefix_ok k" "\<not> is_readonly bms" "0 < m"
  shows "\<exists>table'. bgp_unlock_node bms stray table k = Inr table' \<and> in_use_with bms L table' E (p_bits k) m info"
proof -
  have "u32n (Suc m) \<noteq> 1" using u32n_eq_1 [of "Suc m"] in_useD(4) [OF u] assms(4) by simp
  with table_unlock_ok [OF in_useD(1) [OF u] assms(2,3) in_useD(2) [OF u], of stray] u show ?thesis
    by (auto simp: in_use_with_def drop_lock_def u32n_Suc)
qed

lemma drop_settles:
  assumes "Suc (L ks + total info) < 2 ^ 32"
  shows "drop_lock (u32n (Suc (L ks + total info)), info) = rib_with L (E(ks := info)) ks"
  using u32n_eq_1 [OF assms] by (simp add: drop_lock_def rib_with_def u32n_Suc del: total_0)

lemma use_settle_with:
  assumes u: "in_use_with bms L table E (p_bits k) (Suc (L (p_bits k) + total info)) info"
    and "prefix_ok k" "\<not> is_readonly bms"
  shows "\<exists>table'. bgp_unlock_node bms stray table k = Inr table' \<and> stands_with bms L table' (E(p_bits k := info))"
proof -
  note D = in_useD [OF u]
  let ?n = "L (p_bits k) + total info"
  have one: "u32n (Suc ?n) = 1 \<longleftrightarrow> ?n = 0" using u32n_eq_1 [of "Suc ?n"] D(4) by simp
  have "info = empty_info bms" if "?n = 0"
    using total_replicate [of info] that D(5) by (simp add: empty_info_def del: total_0)
  with table_unlock_ok [OF D(1) assms(2,3) D(2), of stray] one obtain table' where
    t': "bgp_unlock_node bms stray table k = Inr table'" "table_ok bms table'"
    "table_rib table' = (table_rib table)(p_bits k := drop_lock (u32n (Suc ?n), info))"
    by auto
  have "table_rib table' = rib_with L (E(p_bits k := info))"
    unfolding t'(3) D(6) drop_settles [of L "p_bits k" info E, OF D(4)] by (auto simp: fun_eq_iff rib_with_def simp del: total_0)
  then show ?thesis using t'(1,2) D(3-5) by (auto simp: stands_with_def entries_with_def)
qed

lemma use_settle:
  assumes "in_use bms table E (p_bits k) (Suc (total info)) info" "prefix_ok k" "\<not> is_readonly bms"
  shows "\<exists>table'. bgp_unlock_node bms stray table k = Inr table' \<and> stands_for bms table' (E(p_bits k := info))"
  using use_settle_with [of bms "\<lambda>_. 0" table E k info stray] assms by (simp add: stands_with_none)

text \<open>A lock that is kept: taken on a network that the table holds, it is one more of the others.\<close>

lemma lock_kept:
  assumes s: "stands_with bms L table E" and "prefix_ok k" "\<not> is_readonly bms"
    and ks: "L (p_bits k) + total (E (p_bits k)) \<noteq> 0" and room: "Suc (L (p_bits k) + total (E (p_bits k))) < 2 ^ 32"
  shows "\<exists>top. node_lock bms stray (t_top table) k = Inr top
    \<and> stands_with bms (L(p_bits k := Suc (L (p_bits k)))) (table\<lparr>t_top := top\<rparr>) E"
proof -
  let ?n = "L (p_bits k) + total (E (p_bits k))"
  have t: "table_ok bms table" "table_rib table = rib_with L E" using s by (simp_all add: stands_with_def)
  have r: "table_rib table (p_bits k) = Some (u32n ?n, E (p_bits k))" using ks t(2) by (simp add: rib_with_def del: total_0)
  have "u32n ?n + 1 \<noteq> 0" using u32n_eq_0 [OF room] by (simp add: u32n_Suc)
  from table_lock_ok [OF t(1) assms(2) r this assms(3), of stray] obtain top where
    top: "node_lock bms stray (t_top table) k = Inr top" "table_ok bms (table\<lparr>t_top := top\<rparr>)"
    "rib top = (table_rib table)(p_bits k \<mapsto> (u32n ?n + 1, E (p_bits k)))"
    by (auto simp: table_lock_def fault_simps)
  have "rib top = rib_with (L(p_bits k := Suc (L (p_bits k)))) E"
    unfolding top(3) t(2) by (auto simp: fun_eq_iff rib_with_def u32n_Suc simp del: total_0)
  with top(1,2) s room show ?thesis by (auto simp: stands_with_def)
qed

end
