(* ===== verification/RouteFacts.thy ===== *)
theory RouteFacts
  imports RibFacts AttrBalance
begin

text \<open>
  Announcing and withdrawing a prefix, on the routing tables and the pools of attributes together:
  the tables stand for maps from networks to entries, and the references to attributes are exactly
  those of the entries.
\<close>

section \<open>Another peer\<close>

text \<open>The accounts of the pools do not depend on the peer that a function is called for.\<close>

lemma ops_peer:
  assumes "peer_ok p" "peer_ok q"
  shows "community_ops n p = community_ops n q" "ecommunity_ops n p = ecommunity_ops n q"
    "lcommunity_ops p = lcommunity_ops q"
proof -
  have "community_com2str n p = community_com2str n q" "lcommunity_lcom2str p = lcommunity_lcom2str q"
    "ecommunity_ecom2str n f p = ecommunity_ecom2str n f q" for f
    using assms by (auto simp: fun_eq_iff community_com2str_def ecommunity_ecom2str_def lcommunity_lcom2str_def)
  then show "community_ops n p = community_ops n q" "ecommunity_ops n p = ecommunity_ops n q"
    "lcommunity_ops p = lcommunity_ops q"
    by (simp_all add: community_ops_def ecommunity_ops_def lcommunity_ops_def)
qed

lemma attr_bal_peer: "peer_ok p \<Longrightarrow> peer_ok q \<Longrightarrow> attr_bal cfg p s \<longleftrightarrow> attr_bal cfg q s"
proof -
  assume ok: "peer_ok p" "peer_ok q"
  note ops = ops_peer [OF ok]
  have "attr_ops cfg p D = attr_ops cfg q D" for D
    by (simp add: attr_ops_def attrhash_key_make_def fun_eq_iff ops)
  then show ?thesis by (simp add: attr_bal_def ops)
qed

section \<open>The references of the entries\<close>

definition attrs_of :: "bgp_info list list \<Rightarrow> nat multiset" where
  "attrs_of info = image_mset ri_attr (mset (concat info))"

definition entry_refs :: "bgp_info entries \<Rightarrow> nat multiset" where
  "entry_refs E = (\<Sum>ks | total (E ks) \<noteq> 0. attrs_of (E ks))"

definition some_entries :: "bgp_info entries \<Rightarrow> bool" where
  "some_entries E \<longleftrightarrow> finite {ks. total (E ks) \<noteq> 0}"

lemma attrs_of_empty: "total info = 0 \<Longrightarrow> attrs_of info = {#}"
  by (simp add: attrs_of_def total_def)

lemma attrs_of_update:
  assumes "b < length info"
  shows "attrs_of (info[b := c]) + image_mset ri_attr (mset (info ! b)) = attrs_of info + image_mset ri_attr (mset c)"
  using assms
proof (induction info arbitrary: b)
  case (Cons a info)
  then show ?case by (cases b) (auto simp: attrs_of_def ac_simps)
qed simp

lemma entry_refs_over:
  "finite S \<Longrightarrow> {ks. total (E ks) \<noteq> 0} \<subseteq> S \<Longrightarrow> entry_refs E = (\<Sum>ks \<in> S. attrs_of (E ks))"
  unfolding entry_refs_def by (rule sum.mono_neutral_left) (auto intro: attrs_of_empty)

lemma entry_refs_update:
  assumes "some_entries E"
  shows "entry_refs (E(ks := info)) + attrs_of (E ks) = entry_refs E + attrs_of info"
    and "some_entries (E(ks := info))"
proof -
  let ?S = "insert ks {ks. total (E ks) \<noteq> 0}"
  have fin: "finite ?S" using assms by (simp add: some_entries_def)
  have sub: "{k. total ((E(ks := info)) k) \<noteq> 0} \<subseteq> ?S" by (auto simp del: total_0)
  then show "some_entries (E(ks := info))" using fin by (simp add: some_entries_def finite_subset)
  have "entry_refs (E(ks := info)) = (\<Sum>k \<in> ?S. attrs_of ((E(ks := info)) k))"
    by (rule entry_refs_over [OF fin sub])
  also have "\<dots> = attrs_of info + (\<Sum>k \<in> ?S - {ks}. attrs_of (E k))"
    using fin by (subst sum.remove [of _ ks]) (auto intro!: sum.cong arg_cong2 [where f = "(+)"])
  finally have 1: "entry_refs (E(ks := info)) = attrs_of info + (\<Sum>k \<in> ?S - {ks}. attrs_of (E k))" .
  have "entry_refs E = (\<Sum>k \<in> ?S. attrs_of (E k))" by (rule entry_refs_over [OF fin]) auto
  also have "\<dots> = attrs_of (E ks) + (\<Sum>k \<in> ?S - {ks}. attrs_of (E k))"
    using fin by (subst sum.remove [of _ ks]) auto
  finally show "entry_refs (E(ks := info)) + attrs_of (E ks) = entry_refs E + attrs_of info"
    using 1 by (simp add: ac_simps)
qed

lemma stands_for_finite: "stands_for bms table E \<Longrightarrow> some_entries E"
proof -
  assume s: "stands_for bms table E"
  then have "dom (table_rib table) = {ks. total (E ks) \<noteq> 0}"
    by (auto simp: stands_for_def rib_of_def dom_def simp del: total_0)
  then show "some_entries E"
    using s card_dom_rib [of bms "[]" "t_top table"] by (simp add: some_entries_def stands_for_def table_ok_def)
qed

text \<open>All tables together.\<close>

type_synonym ribs = "nat \<Rightarrow> nat \<Rightarrow> bgp_info entries"

definition tables :: "(nat \<times> nat) set" where
  "tables = {..<AFI_MAX} \<times> {..<SAFI_MAX}"

definition rib_refs :: "ribs \<Rightarrow> nat multiset" where
  "rib_refs Es = (\<Sum>(afi, safi) \<in> tables. entry_refs (Es afi safi))"

definition set_rib :: "ribs \<Rightarrow> nat \<Rightarrow> nat \<Rightarrow> bgp_info entries \<Rightarrow> ribs" where
  "set_rib Es afi safi E = Es(afi := (Es afi)(safi := E))"

lemma set_rib_simps [simp]:
  "set_rib Es afi safi E afi safi = E" "afi' \<noteq> afi \<or> safi' \<noteq> safi \<Longrightarrow> set_rib Es afi safi E afi' safi' = Es afi' safi'"
  by (auto simp: set_rib_def)

lemma rib_refs_update:
  assumes "(afi, safi) \<in> tables"
  shows "rib_refs (set_rib Es afi safi E) + entry_refs (Es afi safi) = rib_refs Es + entry_refs E"
proof -
  have fin: "finite tables" by (simp add: tables_def)
  let ?rest = "\<Sum>(a, s) \<in> tables - {(afi, safi)}. entry_refs (Es a s)"
  have 1: "rib_refs Es = entry_refs (Es afi safi) + ?rest"
    unfolding rib_refs_def using fin assms by (subst sum.remove [of _ "(afi, safi)"]) auto
  have "(\<Sum>(a, s) \<in> tables - {(afi, safi)}. entry_refs (set_rib Es afi safi E a s)) = ?rest"
    by (intro sum.cong refl) (auto simp: set_rib_def split: if_splits prod.splits)
  then have "rib_refs (set_rib Es afi safi E) = entry_refs E + ?rest"
    unfolding rib_refs_def using fin assms by (subst sum.remove [of _ "(afi, safi)"]) auto
  with 1 show ?thesis by (simp add: ac_simps)
qed

text \<open>The invariant: every table stands for its map of entries, the pools are in balance, and the
  attributes are referred to by the entries. The references to parts of attributes that a message in
  progress owns are in \<open>R\<close>.\<close>

definition db_ok :: "bgp_config \<Rightarrow> misc_db \<Rightarrow> bgp_peer \<Rightarrow> rt_db \<Rightarrow> ribs \<Rightarrow> attr_refs \<Rightarrow> bool" where
  "db_ok cfg bms peer db Es R \<longleftrightarrow> (\<forall>afi safi. stands_for bms (rt_rib db afi safi) (Es afi safi))
     \<and> attr_bal cfg (Some peer) (rt_attrs db, R\<lparr>h_attr := rib_refs Es\<rparr>)"

section \<open>What announcing and withdrawing do to the entries\<close>

text \<open>The buckets of the network after an announcement with the attributes at address \<open>a\<close>.\<close>

definition announced ::
  "bgp_peer \<Rightarrow> nat \<Rightarrow> nat \<Rightarrow> bgp_attr_extra \<Rightarrow> nat \<Rightarrow> nat \<Rightarrow> bgp_info list list \<Rightarrow> bgp_info list list" where
  "announced peer afi safi ex b a info =
     (let chain = info ! b
      in case find_route (same_route peer afi safi ex) chain of
           None \<Rightarrow> info[b := \<lparr>ri_peer = bp_idx peer, ri_attr = a,
                       ri_extra = bgp_attr_extra_process peer afi safi ex None\<rparr> # chain]
         | Some i \<Rightarrow> if ri_attr (chain ! i) = a then info
                     else info[b := chain[i := (chain ! i)\<lparr>ri_attr := a,
                            ri_extra := bgp_attr_extra_process peer afi safi ex (ri_extra (chain ! i))\<rparr>]])"

definition withdrawn ::
  "bgp_peer \<Rightarrow> nat \<Rightarrow> nat \<Rightarrow> bgp_attr_extra \<Rightarrow> nat \<Rightarrow> bgp_info list list \<Rightarrow> bgp_info list list" where
  "withdrawn peer afi safi ex b info =
     (case find_route (same_route peer afi safi ex) (info ! b) of
        None \<Rightarrow> info
      | Some i \<Rightarrow> info[b := take i (info ! b) @ drop (Suc i) (info ! b)])"

lemma find_route_less: "find_route P xs = Some i \<Longrightarrow> i < length xs \<and> P (xs ! i)"
  by (induction xs arbitrary: i) (auto split: if_splits)

lemma refs_chain_update:
  "i < length chain \<Longrightarrow> image_mset ri_attr (mset (chain[i := x])) + {#ri_attr (chain ! i)#}
    = image_mset ri_attr (mset chain) + {#ri_attr x#}"
proof (induction chain arbitrary: i)
  case (Cons a chain)
  then show ?case by (cases i) (auto simp: ac_simps)
qed simp

lemma refs_chain_remove:
  "i < length chain \<Longrightarrow> image_mset ri_attr (mset (take i chain @ drop (Suc i) chain)) + {#ri_attr (chain ! i)#}
    = image_mset ri_attr (mset chain)"
proof (induction chain arbitrary: i)
  case (Cons a chain)
  then show ?case by (cases i) (auto simp: ac_simps)
qed simp

section \<open>One network of one table\<close>

text \<open>An entry of the table is an attribute in use.\<close>

lemma attrs_of_member: "b < length info \<Longrightarrow> i < length (info ! b) \<Longrightarrow> ri_attr (info ! b ! i) \<in># attrs_of info"
  by (auto simp: attrs_of_def intro!: imageI bexI [of _ "info ! b"])

lemma sum_member:
  fixes f :: "'k \<Rightarrow> nat multiset"
  assumes "finite S" "k \<in> S"
  shows "f k \<subseteq># (\<Sum>k \<in> S. f k)"
proof -
  have "(\<Sum>k \<in> S. f k) = f k + (\<Sum>k \<in> S - {k}. f k)" using assms by (rule sum.remove)
  then show ?thesis by simp
qed

text \<open>Equations between multisets are solved element by element.\<close>

lemma mset_cancel:
  assumes "A + (B :: nat multiset) = C + D" "D + E = B + F" "F + X = E + Y"
  shows "A + X = C + Y"
proof (rule multiset_eqI)
  fix z
  have "count A z + count B z = count C z + count D z" "count D z + count E z = count B z + count F z"
    "count F z + count X z = count E z + count Y z"
    using assms by (metis count_union)+
  then show "count (A + X) z = count (C + Y) z" by simp
qed

lemma entry_in_refs:
  assumes "(afi, safi) \<in> tables" "some_entries (Es afi safi)" "x \<in># attrs_of (Es afi safi ks)"
  shows "x \<in># rib_refs Es"
proof -
  have "total (Es afi safi ks) \<noteq> 0"
  proof
    assume "total (Es afi safi ks) = 0"
    from attrs_of_empty [OF this] assms(3) show False by simp
  qed
  with assms(2,3) have "x \<in># entry_refs (Es afi safi)"
    unfolding entry_refs_def some_entries_def by (intro mset_subset_eqD [OF sum_member]) auto
  moreover have "finite tables" by (simp add: tables_def)
  from sum_member [OF this assms(1), of "\<lambda>(a, s). entry_refs (Es a s)"]
  have "entry_refs (Es afi safi) \<subseteq># rib_refs Es" by (simp add: rib_refs_def)
  ultimately show ?thesis by (rule mset_subset_eqD [rotated])
qed

lemma rib_refs_change:
  assumes t: "(afi, safi) \<in> tables" and s: "some_entries (Es afi safi)"
    and "attrs_of info + X = attrs_of (Es afi safi ks) + Y"
  shows "rib_refs (set_rib Es afi safi ((Es afi safi)(ks := info))) + X = rib_refs Es + Y"
proof -
  let ?E = "Es afi safi" let ?E' = "?E(ks := info)" let ?Es' = "set_rib Es afi safi ?E'"
  show ?thesis
    using rib_refs_update [OF t, of Es "(Es afi safi)(ks := info)"] entry_refs_update(1) [OF s, of ks info] assms(3)
    by (rule mset_cancel)
qed

text \<open>Two attributes in use are equal when they are the same.\<close>

lemma attr_same:
  assumes bal: "attr_bal cfg peer (D, R)" and "a \<in># h_attr R" "b \<in># h_attr R"
    and "heap (attrhash D) a = Some x" "heap (attrhash D) b = Some y"
  shows "attrhash_cmp x y \<longleftrightarrow> a = b"
proof -
  note B = balancedD [OF attr_balD(5) [OF bal]]
  have "attr_good x" using B(3) [OF assms(2)] assms(4) by auto
  moreover have "a = b" if "attrhash_cmp x y"
    using atr.canonical [OF B(1) _ _ assms(4,5)] B(2) assms(2,3) that by simp
  ultimately show ?thesis using assms(4,5) by (auto simp: attrhash_cmp_view)
qed

lemma attr_deref:
  "attr_bal cfg peer (D, R) \<Longrightarrow> a \<in># h_attr R \<Longrightarrow> \<exists>x. deref (attrhash D) a = Inr x \<and> heap (attrhash D) a = Some x"
  using balancedD(3) [OF attr_balD(5)] by (fastforce simp: deref_def)

lemma attr_unintern_held:
  assumes "attr_bal cfg peer (D, R\<lparr>h_attr := H + {#a#}\<rparr>)" "peer_ok peer"
  shows "\<exists>D'. bgp_attr_unintern cfg peer D a = Inr D' \<and> attr_bal cfg peer (D', R\<lparr>h_attr := H\<rparr>)
    \<and> (\<forall>b. b \<in># H \<longrightarrow> attr_at D' b = attr_at D b)"
  using attr_unintern_step [OF assms, of a] by auto

lemma update_old_ok:
  assumes bal: "attr_bal cfg (Some peer) (D, R\<lparr>h_attr := add_mset a H\<rparr>)" and peer: "peer_ok (Some peer)"
    and u: "in_use bms table E (p_bits k) (Suc (total info)) info" and k: "prefix_ok k" and ro: "\<not> is_readonly bms"
    and b: "b < length info" and i: "i < length (info ! b)" and old: "attrs_of info \<subseteq># H"
    and same: "find_route (same_route peer afi safi ex) (info ! b) = Some i"
  shows "\<exists>D' table'. update_old cfg bms stray peer afi safi ex D table k b i a = Inr (D', table')
    \<and> stands_for bms table' (E(p_bits k := announced peer afi safi ex b a info))
    \<and> (\<exists>H'. attr_bal cfg (Some peer) (D', R\<lparr>h_attr := H'\<rparr>)
         \<and> H' + attrs_of info = H + attrs_of (announced peer afi safi ex b a info)
         \<and> (\<forall>c. c \<in># H' \<longrightarrow> attr_at D' c = attr_at D c))"
proof -
  let ?ri = "info ! b ! i"
  have mem: "ri_attr ?ri \<in># H" using attrs_of_member [OF b i] old by (rule mset_subset_eqD [rotated])
  from attr_deref [OF bal, of "ri_attr ?ri"] mem obtain xo where xo: "deref (attrhash D) (ri_attr ?ri) = Inr xo"
    "heap (attrhash D) (ri_attr ?ri) = Some xo" by auto
  from attr_deref [OF bal, of a] obtain xn where xn: "deref (attrhash D) a = Inr xn"
    "heap (attrhash D) a = Some xn" by auto
  have eq: "attrhash_cmp xo xn \<longleftrightarrow> ri_attr ?ri = a"
    using attr_same [OF bal _ _ xo(2) xn(2)] mem by simp
  note chain = use_chain [OF u k b, of stray]
  show ?thesis
  proof (cases "ri_attr ?ri = a")
    case True
    have ann: "announced peer afi safi ex b a info = info" using same True by (simp add: announced_def)
    from use_settle [OF u k ro, of stray] obtain table' where
      t': "bgp_unlock_node bms stray table k = Inr table'" "stands_for bms table' (E(p_bits k := info))" by blast
    from attr_unintern_held [where cfg = cfg and peer = "Some peer" and D = D and R = R and H = H and a = a] bal peer obtain D' where
      D': "bgp_attr_unintern cfg (Some peer) D a = Inr D'" "attr_bal cfg (Some peer) (D', R\<lparr>h_attr := H\<rparr>)"
        "\<forall>c. c \<in># H \<longrightarrow> attr_at D' c = attr_at D c" by auto
    have "update_old cfg bms stray peer afi safi ex D table k b i a = Inr (D', table')"
      using chain xo(1) xn(1) eq True t'(1) D'(1) by (simp add: update_old_def Let_def)
    with t' D' ann show ?thesis by (intro exI [of _ D'] exI [of _ table']) (auto intro!: exI [of _ H])
  next
    case False
    define ri' where "ri' = ?ri\<lparr>ri_attr := a, ri_extra := bgp_attr_extra_process peer afi safi ex (ri_extra ?ri)\<rparr>"
    let ?info = "info[b := (info ! b)[i := ri']]"
    have ann: "announced peer afi safi ex b a info = ?info"
      using same False by (simp add: announced_def ri'_def Let_def)
    obtain H1 where H1: "H = add_mset (ri_attr ?ri) H1" using mem by (metis insert_DiffM)
    from attr_unintern_held [where cfg = cfg and peer = "Some peer" and D = D and R = R and H = "add_mset a H1" and a = "ri_attr ?ri"] bal peer obtain D' where
      D': "bgp_attr_unintern cfg (Some peer) D (ri_attr ?ri) = Inr D'"
        "attr_bal cfg (Some peer) (D', R\<lparr>h_attr := add_mset a H1\<rparr>)"
        "\<forall>c. c \<in># add_mset a H1 \<longrightarrow> attr_at D' c = attr_at D c"
      by (auto simp: H1 add_mset_commute)
    from use_set [OF u k, of stray b "(info ! b)[i := ri']"] obtain t1 where
      t1: "set_chain stray table k b ((info ! b)[i := ri']) = Inr t1"
        "in_use bms t1 E (p_bits k) (Suc (total info)) ?info" by blast
    have tot: "total ?info = total info" using total_update [OF b, of "(info ! b)[i := ri']"] by simp
    from use_settle [OF t1(2) [folded tot] k ro, of stray] obtain table' where
      t': "bgp_unlock_node bms stray t1 k = Inr table'" "stands_for bms table' (E(p_bits k := ?info))" by blast
    have "update_old cfg bms stray peer afi safi ex D table k b i a = Inr (D', table')"
      using chain xo(1) xn(1) eq False t'(1) t1(1) D'(1) by (simp add: update_old_def Let_def ri'_def)
    moreover have "add_mset a H1 + attrs_of info = H + attrs_of ?info"
      using mset_cancel [OF attrs_of_update [OF b, of "(info ! b)[i := ri']", symmetric]
          refs_chain_update [OF i, of ri', symmetric], of "add_mset a H1" H]
      by (simp add: H1 ri'_def add_mset_commute ac_simps)
    ultimately show ?thesis using t' D' ann
      by (intro exI [of _ D'] exI [of _ table']) (auto intro!: exI [of _ "add_mset a H1"])
  qed
qed

lemma update_new_ok:
  assumes u: "in_use bms table E (p_bits k) (Suc (total info)) info" and k: "prefix_ok k" and ro: "\<not> is_readonly bms"
    and b: "b < length info" and room: "Suc (Suc (total info)) < 2 ^ 32"
    and new: "find_route (same_route peer afi safi ex) (info ! b) = None"
  shows "\<exists>table'. update_new bms stray peer afi safi ex D table k b a = Inr (D, table')
    \<and> stands_for bms table' (E(p_bits k := announced peer afi safi ex b a info))
    \<and> add_mset a H + attrs_of info = H + attrs_of (announced peer afi safi ex b a info)"
proof -
  define ri where "ri = \<lparr>ri_peer = bp_idx peer, ri_attr = a, ri_extra = bgp_attr_extra_process peer afi safi ex None\<rparr>"
  let ?info = "info[b := ri # info ! b]"
  have ann: "announced peer afi safi ex b a info = ?info" using new by (simp add: announced_def ri_def)
  from use_set [OF u k, of stray b "ri # info ! b"] obtain t1 where
    t1: "set_chain stray table k b (ri # info ! b) = Inr t1" "in_use bms t1 E (p_bits k) (Suc (total info)) ?info"
    by blast
  from use_lock [OF t1(2) k ro room, of stray] obtain t2 where
    t2: "table_lock bms stray t1 k = Inr t2" "in_use bms t2 E (p_bits k) (Suc (Suc (total info))) ?info" by blast
  have tot: "total ?info = Suc (total info)" using total_update [OF b, of "ri # info ! b"] by simp
  from use_settle [OF t2(2) [folded tot] k ro, of stray] obtain t3 where
    t3: "bgp_unlock_node bms stray t2 k = Inr t3" "stands_for bms t3 (E(p_bits k := ?info))" by blast
  have "update_new bms stray peer afi safi ex D table k b a = Inr (D, t3)"
    using use_chain [OF u k b, of stray] t1(1) t2(1) t3(1)
    by (simp add: update_new_def bgp_info_add_def flip: ri_def)
  moreover have "add_mset a H + attrs_of info = H + attrs_of ?info"
    using attrs_of_update [OF b, of "ri # info ! b"] by (simp add: ri_def)
  ultimately show ?thesis using t3(2) ann by auto
qed

section \<open>Announcements\<close>

text \<open>The bucket of a route lies inside the array.\<close>

definition buckets_ok :: "misc_db \<Rightarrow> bool" where
  "buckets_ok bms \<longleftrightarrow> 0 < table_peer_buckets bms \<and> 0 < table_per_peer_buckets bms"

lemma modulo_ok:
  assumes "buckets_ok bms"
  shows "\<exists>b. bgp_route_info_modulo bms peer rd pid (table_per_peer_buckets bms) = Inr b
    \<and> b < length (empty_info bms :: 'i list list)"
  using assms
  by (auto simp: bgp_route_info_modulo_def bgp_route_info_modulo_pathid_def bgp_route_info_modulo_mplsvpnrd_def
      buckets_ok_def empty_info_def Let_def)

lemma put_table_simps [simp]:
  "rt_attrs (put_table afi safi t db) = rt_attrs db"
  "rt_rib (put_table afi safi t db) a s = (if a = afi \<and> s = safi then t else rt_rib db a s)"
  by (simp_all add: put_table_def)

lemma route_node_ok:
  assumes s: "stands_for bms table E" and p: "prefix_wf p" and ro: "\<not> is_readonly bms"
    and room: "Suc (total (E (p_bits p))) < 2 ^ 32"
  shows "\<exists>table' k. route_node bms stray table p = Inr (table', k) \<and> prefix_ok k \<and> p_bits k = p_bits p
    \<and> in_use bms table' E (p_bits k) (Suc (total (E (p_bits p)))) (E (p_bits p))"
proof -
  have "p_len p \<le> 128" using p by (simp add: prefix_wf_def prefix_ok_def)
  then show ?thesis using use_get [OF s p ro room, of stray] by (auto simp: route_node_def)
qed

lemma announced_member:
  assumes "b < length info"
  shows "a \<in># attrs_of (announced peer afi safi ex b a info)"
proof (cases "find_route (same_route peer afi safi ex) (info ! b)")
  case None
  then show ?thesis
    using assms attrs_of_member [of b "announced peer afi safi ex b a info" 0] by (simp add: announced_def Let_def)
next
  case (Some i)
  then show ?thesis
    using assms attrs_of_member [of b "announced peer afi safi ex b a info" i] find_route_less [OF Some]
    by (auto simp: announced_def Let_def)
qed

lemma db_ok_put:
  fixes Es
  assumes db: "db_ok cfg bms peer db Es R" and t: "(afi, safi) \<in> tables"
    and s: "stands_for bms table' ((Es afi safi)(ks := info))"
    and bal: "attr_bal cfg (Some peer) (D', R\<lparr>h_attr := H\<rparr>)"
    and H: "H + attrs_of (Es afi safi ks) = rib_refs Es + attrs_of info"
  defines "Es' \<equiv> set_rib Es afi safi ((Es afi safi)(ks := info))"
  shows "db_ok cfg bms peer (put_table afi safi table' (db\<lparr>rt_attrs := D'\<rparr>)) Es' R" and "H = rib_refs Es'"
proof -
  have "some_entries (Es afi safi)" using db by (intro stands_for_finite [of bms "rt_rib db afi safi"]) (simp add: db_ok_def)
  from rib_refs_change [where Es = Es and info = info and X = "attrs_of (Es afi safi ks)" and ks = ks
      and Y = "attrs_of info", OF t this]
  have "rib_refs Es' + attrs_of (Es afi safi ks) = rib_refs Es + attrs_of info"
    by (simp add: Es'_def add.commute)
  with H have "H + attrs_of (Es afi safi ks) = rib_refs Es' + attrs_of (Es afi safi ks)" by simp
  then show "H = rib_refs Es'" by simp
  with bal s db show "db_ok cfg bms peer (put_table afi safi table' (db\<lparr>rt_attrs := D'\<rparr>)) Es' R"
    by (auto simp: db_ok_def Es'_def set_rib_def)
qed

lemma info_refs:
  assumes db: "db_ok cfg bms peer db Es R" and t: "(afi, safi) \<in> tables"
  shows "attrs_of (Es afi safi ks) \<subseteq># rib_refs Es"
proof (cases "total (Es afi safi ks) = 0")
  case False
  have "some_entries (Es afi safi)"
    using db by (intro stands_for_finite [of bms "rt_rib db afi safi"]) (simp add: db_ok_def)
  with False have "attrs_of (Es afi safi ks) \<subseteq># entry_refs (Es afi safi)"
    unfolding entry_refs_def some_entries_def by (intro sum_member) auto
  also have "\<dots> \<subseteq># rib_refs Es"
    using sum_member [of tables "(afi, safi)" "\<lambda>(a, s). entry_refs (Es a s)"] t by (simp add: rib_refs_def tables_def)
  finally show ?thesis .
qed (simp add: attrs_of_empty del: total_0)

lemma process_update_ok:
  assumes db: "db_ok cfg bms peer db Es R" and peer: "peer_ok (Some peer)" and p: "prefix_wf p"
    and conf: "\<not> is_readonly bms" "\<not> skip_rib bms" "buckets_ok bms" and t: "(afi, safi) \<in> tables"
    and room: "Suc (Suc (total (Es afi safi (p_bits p)))) < 2 ^ 32" and x: "attr_good x"
    and held: "opt_mset (at_aspath x) \<subseteq># h_as R" "opt_mset (at_community x) \<subseteq># h_com R"
      "opt_mset (at_ecommunity x) \<subseteq># h_ecom R" "opt_mset (at_lcommunity x) \<subseteq># h_lcom R"
  shows "\<exists>b a db' Es'. bgp_route_info_modulo bms peer (Some (ax_rd ex)) (Some (ax_path_id ex)) (table_per_peer_buckets bms) = Inr b
    \<and> bgp_process_update cfg bms stray peer p x ex afi safi db = Inr (SUCCESS, x, db')
    \<and> db_ok cfg bms peer db' Es' R
    \<and> Es' = set_rib Es afi safi ((Es afi safi)(p_bits p := announced peer afi safi ex b a (Es afi safi (p_bits p))))
    \<and> attr_at (rt_attrs db') a = Some (attr_view x) \<and> a \<in># rib_refs Es'
    \<and> (\<forall>c. c \<in># rib_refs Es \<longrightarrow> c \<in># rib_refs Es' \<longrightarrow> attr_at (rt_attrs db') c = attr_at (rt_attrs db) c)"
proof -
  let ?E = "Es afi safi" and ?ks = "p_bits p" let ?info = "?E ?ks"
  have s: "stands_for bms (rt_rib db afi safi) ?E" and bal: "attr_bal cfg (Some peer) (rt_attrs db, R\<lparr>h_attr := rib_refs Es\<rparr>)"
    using db by (simp_all add: db_ok_def)
  from modulo_ok [OF conf(3), of peer "Some (ax_rd ex)" "Some (ax_path_id ex)", where 'i = bgp_info] obtain b where
    b: "bgp_route_info_modulo bms peer (Some (ax_rd ex)) (Some (ax_path_id ex)) (table_per_peer_buckets bms) = Inr b"
      "b < length ?info"
    using s by (auto simp: stands_for_def)
  from route_node_ok [OF s p conf(1), of stray] room obtain t1 k where
    t1: "route_node bms stray (rt_rib db afi safi) p = Inr (t1, k)" "prefix_ok k" "p_bits k = ?ks"
      "in_use bms t1 ?E (p_bits k) (Suc (total ?info)) ?info"
    by auto
  note chain = use_chain [OF t1(4,2) b(2), of stray]
  from attr_intern_step [OF bal peer x] held obtain a D z where
    i: "bgp_attr_intern cfg (Some peer) (rt_attrs db) x = Inr (Some a, x, D)"
      "attr_bal cfg (Some peer) (D, R\<lparr>h_attr := add_mset a (rib_refs Es)\<rparr>)"
      "\<forall>c. c \<in># rib_refs Es \<longrightarrow> attr_at D c = attr_at (rt_attrs db) c" "attr_at D a = Some (attr_view x)"
    by auto
  have "\<exists>D' table' H'. (case find_route (same_route peer afi safi ex) (?info ! b) of
        Some i \<Rightarrow> update_old cfg bms stray peer afi safi ex D t1 k b i a
      | None \<Rightarrow> update_new bms stray peer afi safi ex D t1 k b a) = Inr (D', table')
    \<and> stands_for bms table' (?E(?ks := announced peer afi safi ex b a ?info))
    \<and> attr_bal cfg (Some peer) (D', R\<lparr>h_attr := H'\<rparr>)
    \<and> H' + attrs_of ?info = rib_refs Es + attrs_of (announced peer afi safi ex b a ?info)
    \<and> (\<forall>c. c \<in># H' \<longrightarrow> attr_at D' c = attr_at D c)"
  proof (cases "find_route (same_route peer afi safi ex) (?info ! b)")
    case None
    from update_new_ok [OF t1(4,2) conf(1) b(2) room None, where stray = stray and a = a and D = D and H = "rib_refs Es"] None i(2) t1(3)
    show ?thesis by (auto intro!: exI [of _ "add_mset a (rib_refs Es)"])
  next
    case (Some n)
    have "n < length (?info ! b)" using find_route_less [OF Some] by simp
    from update_old_ok [OF i(2) peer t1(4,2) conf(1) b(2) this info_refs [OF db t] Some, where stray = stray] Some t1(3)
    show ?thesis by auto
  qed
  then obtain D' table' H' where u: "(case find_route (same_route peer afi safi ex) (?info ! b) of
        Some i \<Rightarrow> update_old cfg bms stray peer afi safi ex D t1 k b i a
      | None \<Rightarrow> update_new bms stray peer afi safi ex D t1 k b a) = Inr (D', table')"
    "stands_for bms table' (?E(?ks := announced peer afi safi ex b a ?info))"
    "attr_bal cfg (Some peer) (D', R\<lparr>h_attr := H'\<rparr>)"
    "H' + attrs_of ?info = rib_refs Es + attrs_of (announced peer afi safi ex b a ?info)"
    "\<forall>c. c \<in># H' \<longrightarrow> attr_at D' c = attr_at D c" by blast
  note P = db_ok_put [OF db t u(2-4)]
  have run: "bgp_process_update cfg bms stray peer p x ex afi safi db
      = Inr (SUCCESS, x, put_table afi safi table' (db\<lparr>rt_attrs := D'\<rparr>))"
    using peer conf(2) b(1) t1(1) chain i(1) u(1) by (simp add: bgp_process_update_def)
  have "a \<in># rib_refs (set_rib Es afi safi (?E(?ks := announced peer afi safi ex b a ?info)))"
    using stands_for_finite [OF u(2)] announced_member [OF b(2)]
    by (intro entry_in_refs [OF t, where ks = ?ks]) simp_all
  with P(2) have "a \<in># H'" by simp
  with u(5) i(4) have at: "attr_at D' a = Some (attr_view x)" by simp
  show ?thesis
    using b(1) run P at u(5) i(3) \<open>a \<in># H'\<close>
    by (intro exI [of _ b] exI [of _ a] exI [of _ "put_table afi safi table' (db\<lparr>rt_attrs := D'\<rparr>)"]
        exI [of _ "set_rib Es afi safi (?E(?ks := announced peer afi safi ex b a ?info))"]) auto
qed

section \<open>Withdrawals\<close>

lemma info_delete_with:
  assumes bal: "attr_bal cfg (Some peer) (D, R\<lparr>h_attr := H\<rparr>)" and peer: "peer_ok (Some peer)"
    and u: "in_use_with bms L table E (p_bits k) (Suc (L (p_bits k) + total info)) info" and k: "prefix_ok k" and ro: "\<not> is_readonly bms"
    and b: "b < length info" and i: "i < length (info ! b)" and old: "attrs_of info \<subseteq># H"
  defines "info' \<equiv> info[b := take i (info ! b) @ drop (Suc i) (info ! b)]"
  shows "\<exists>D' table'. bgp_info_delete cfg bms stray peer D table k b i = Inr (D', table')
    \<and> in_use_with bms L table' E (p_bits k) (Suc (L (p_bits k) + total info')) info'
    \<and> (\<exists>H'. attr_bal cfg (Some peer) (D', R\<lparr>h_attr := H'\<rparr>) \<and> H' + attrs_of info = H + attrs_of info'
         \<and> (\<forall>c. c \<in># H' \<longrightarrow> attr_at D' c = attr_at D c))"
proof -
  let ?ri = "info ! b ! i" and ?chain = "take i (info ! b) @ drop (Suc i) (info ! b)"
  have "ri_attr ?ri \<in># H" using attrs_of_member [OF b i] old by (rule mset_subset_eqD [rotated])
  then obtain H' where H': "H = add_mset (ri_attr ?ri) H'" by (metis insert_DiffM)
  from attr_unintern_held [where cfg = cfg and peer = "Some peer" and D = D and R = R and H = H' and a = "ri_attr ?ri"] bal peer
  obtain D' where D': "bgp_attr_unintern cfg (Some peer) D (ri_attr ?ri) = Inr D'"
      "attr_bal cfg (Some peer) (D', R\<lparr>h_attr := H'\<rparr>)" "\<forall>c. c \<in># H' \<longrightarrow> attr_at D' c = attr_at D c"
    by (auto simp: H')
  from use_set [OF u k, of stray b ?chain] obtain t1 where
    t1: "set_chain stray table k b ?chain = Inr t1" "in_use_with bms L t1 E (p_bits k) (Suc (L (p_bits k) + total info)) info'"
    by (auto simp: info'_def)
  have tot: "total info = Suc (total info')"
    using total_update [OF b, of ?chain] i by (simp add: info'_def)
  from use_unlock [of bms L t1 E k "L (p_bits k) + total info" info', OF t1(2) k ro] tot obtain t2 where
    t2: "bgp_unlock_node bms stray t1 k = Inr t2" "in_use_with bms L t2 E (p_bits k) (Suc (L (p_bits k) + total info')) info'" by auto
  have "bgp_info_delete cfg bms stray peer D table k b i = Inr (D', t2)"
    using use_chain [OF u k b, of stray] t1(1) D'(1) t2(1) by (simp add: bgp_info_delete_def)
  moreover have "H' + attrs_of info = H + attrs_of info'"
    using mset_cancel [OF attrs_of_update [OF b, of ?chain, symmetric], of "{#}" "{#ri_attr ?ri#}" H' H]
      refs_chain_remove [OF i] by (simp add: H' info'_def ac_simps)
  ultimately show ?thesis using t2(2) D' by blast
qed

lemmas info_delete_ok = info_delete_with [where L = "\<lambda>_. 0", simplified add_0]

lemma process_withdraw_ok:
  assumes db: "db_ok cfg bms peer db Es R" and peer: "peer_ok (Some peer)" and p: "prefix_wf p"
    and conf: "\<not> is_readonly bms" "\<not> skip_rib bms" "buckets_ok bms" and t: "(afi, safi) \<in> tables"
    and room: "Suc (total (Es afi safi (p_bits p))) < 2 ^ 32"
  shows "\<exists>b db' Es'. bgp_route_info_modulo bms peer (Some (ax_rd ex)) (Some (ax_path_id ex)) (table_per_peer_buckets bms) = Inr b
    \<and> bgp_process_withdraw cfg bms stray peer p ex afi safi db = Inr (SUCCESS, db')
    \<and> db_ok cfg bms peer db' Es' R
    \<and> Es' = set_rib Es afi safi ((Es afi safi)(p_bits p := withdrawn peer afi safi ex b (Es afi safi (p_bits p))))
    \<and> (\<forall>c. c \<in># rib_refs Es' \<longrightarrow> attr_at (rt_attrs db') c = attr_at (rt_attrs db) c)"
proof -
  let ?E = "Es afi safi" and ?ks = "p_bits p" let ?info = "?E ?ks"
  have s: "stands_for bms (rt_rib db afi safi) ?E" and bal: "attr_bal cfg (Some peer) (rt_attrs db, R\<lparr>h_attr := rib_refs Es\<rparr>)"
    using db by (simp_all add: db_ok_def)
  from modulo_ok [OF conf(3), of peer "Some (ax_rd ex)" "Some (ax_path_id ex)", where 'i = bgp_info] obtain b where
    b: "bgp_route_info_modulo bms peer (Some (ax_rd ex)) (Some (ax_path_id ex)) (table_per_peer_buckets bms) = Inr b"
      "b < length ?info"
    using s by (auto simp: stands_for_def)
  from route_node_ok [OF s p conf(1) room, of stray] obtain t1 k where
    t1: "route_node bms stray (rt_rib db afi safi) p = Inr (t1, k)" "prefix_ok k" "p_bits k = ?ks"
      "in_use bms t1 ?E (p_bits k) (Suc (total ?info)) ?info"
    by auto
  note chain = use_chain [OF t1(4,2) b(2), of stray]
  let ?info' = "withdrawn peer afi safi ex b ?info"
  have "\<exists>D' table' H'. (case find_route (same_route peer afi safi ex) (?info ! b) of
        Some i \<Rightarrow> bgp_info_delete cfg bms stray peer (rt_attrs db) t1 k b i
      | None \<Rightarrow> Inr (rt_attrs db, t1)) = Inr (D', table')
    \<and> in_use bms table' ?E (p_bits k) (Suc (total ?info')) ?info'
    \<and> attr_bal cfg (Some peer) (D', R\<lparr>h_attr := H'\<rparr>) \<and> H' + attrs_of ?info = rib_refs Es + attrs_of ?info'
    \<and> (\<forall>c. c \<in># H' \<longrightarrow> attr_at D' c = attr_at (rt_attrs db) c)"
  proof (cases "find_route (same_route peer afi safi ex) (?info ! b)")
    case None
    then show ?thesis using bal t1(4) by (auto simp: withdrawn_def intro!: exI [of _ "rib_refs Es"])
  next
    case (Some n)
    have "n < length (?info ! b)" using find_route_less [OF Some] by simp
    from info_delete_ok [OF bal peer t1(4,2) conf(1) b(2) this info_refs [OF db t], where stray = stray] Some
    show ?thesis by (auto simp: withdrawn_def)
  qed
  then obtain D' table' H' where u: "(case find_route (same_route peer afi safi ex) (?info ! b) of
        Some i \<Rightarrow> bgp_info_delete cfg bms stray peer (rt_attrs db) t1 k b i
      | None \<Rightarrow> Inr (rt_attrs db, t1)) = Inr (D', table')"
    "in_use bms table' ?E (p_bits k) (Suc (total ?info')) ?info'"
    "attr_bal cfg (Some peer) (D', R\<lparr>h_attr := H'\<rparr>)" "H' + attrs_of ?info = rib_refs Es + attrs_of ?info'"
    "\<forall>c. c \<in># H' \<longrightarrow> attr_at D' c = attr_at (rt_attrs db) c" by blast
  from use_settle [OF u(2) t1(2) conf(1), of stray] t1(3) obtain t2 where
    t2: "bgp_unlock_node bms stray table' k = Inr t2" "stands_for bms t2 (?E(?ks := ?info'))" by auto
  note P = db_ok_put [OF db t t2(2) u(3,4)]
  have "bgp_process_withdraw cfg bms stray peer p ex afi safi db
      = Inr (SUCCESS, put_table afi safi t2 (db\<lparr>rt_attrs := D'\<rparr>))"
    using peer conf(2) b(1) t1(1) chain u(1) t2(1) by (simp add: bgp_process_withdraw_def)
  then show ?thesis
    using b(1) P u(5)
    by (intro exI [of _ b] exI [of _ "put_table afi safi t2 (db\<lparr>rt_attrs := D'\<rparr>)"]
        exI [of _ "set_rib Es afi safi (?E(?ks := ?info'))"]) auto
qed

section \<open>The empty database\<close>

lemma db_ok_init:
  assumes "0 < n"
  shows "db_ok cfg bms peer \<lparr>rt_attrs = bgp_attr_init n, rt_rib = \<lambda>afi safi. bgp_table_init afi safi\<rparr>
    (\<lambda>_ _ _. empty_info bms) \<lparr>h_as = {#}, h_com = {#}, h_ecom = {#}, h_lcom = {#}, h_attr = {#}\<rparr>"
proof -
  have "rib_refs (\<lambda>_ _ _. empty_info bms) = {#}"
    by (simp add: rib_refs_def entry_refs_def)
  moreover have "stands_for bms (bgp_table_init afi safi :: bgp_info bgp_table) (\<lambda>_. empty_info bms)" for afi safi
    by (auto simp: stands_for_def table_ok_def bgp_table_init_def rib_of_def fun_eq_iff)
  ultimately show ?thesis using attr_bal_init [OF assms] by (simp add: db_ok_def)
qed

section \<open>A route announced and withdrawn\<close>

text \<open>The entry of a new route is the one that the same route finds.\<close>

lemma same_route_new:
  "same_route peer afi safi ex \<lparr>ri_peer = bp_idx peer, ri_attr = a,
     ri_extra = bgp_attr_extra_process peer afi safi ex None\<rparr>"
  by (auto simp: same_route_def extra_is_def bgp_attr_extra_process_def bgp_attr_extra_get_def Let_def)

lemma withdrawn_announced:
  assumes "b < length info" "find_route (same_route peer afi safi ex) (info ! b) = None"
  shows "withdrawn peer afi safi ex b (announced peer afi safi ex b a info) = info"
  using assms same_route_new [of peer afi safi ex a] by (simp add: withdrawn_def announced_def Let_def)

end
