(* ===== verification/PeerRoutes.thy ===== *)
theory PeerRoutes
  imports RouteFacts
begin

text \<open>
  The entries of one peer among those of all: the buckets that are the peer's, and what a message of the
  peer leaves of the entries of the others.
\<close>

section \<open>The buckets of a peer\<close>

definition foreign :: "bgp_peer \<Rightarrow> bgp_info \<Rightarrow> bool" where
  "foreign peer ri \<longleftrightarrow> ri_peer ri \<noteq> bp_idx peer"

definition fd_ok :: "misc_db \<Rightarrow> bgp_peer \<Rightarrow> bool" where
  "fd_ok bms peer \<longleftrightarrow> (bp_fd peer + 1) * table_per_peer_buckets bms \<le> 2 ^ 32"

text \<open>The first bucket of a peer. Whatever the route, its bucket is one of the peer's.\<close>

definition first_bucket :: "misc_db \<Rightarrow> bgp_peer \<Rightarrow> nat" where
  "first_bucket bms peer = bp_fd peer mod table_peer_buckets bms * table_per_peer_buckets bms"

lemma bucket_arith:
  fixes f n p x :: nat
  assumes "0 < n" "0 < p" "x < n" "(f + 1) * n \<le> 2 ^ 32"
  shows "(f * n + x) mod 2 ^ 32 mod (p * n) = f mod p * n + x"
proof -
  have "f * n + x < 2 ^ 32" using assms(3,4) by simp
  then have 1: "(f * n + x) mod 2 ^ 32 = f * n + x" by (rule mod_less)
  have eq: "f * n + x = (f mod p * n + x) + (f div p) * (p * n)"
    by (metis ab_semigroup_add_class.add_ac(1) add.commute distrib_right div_mult_mod_eq mult.assoc)
  have 2: "(f * n + x) mod (p * n) = (f mod p * n + x) mod (p * n)" by (subst eq) (rule mod_mult_self1)
  have "f mod p * n + x < (f mod p + 1) * n" using assms(3) by simp
  also have "\<dots> \<le> p * n" using assms(2) by (intro mult_right_mono) (simp_all add: Suc_leI)
  finally show ?thesis unfolding 1 2 by (rule mod_less)
qed

lemma modulo_window:
  assumes "buckets_ok bms" "fd_ok bms peer"
  defines "n \<equiv> table_per_peer_buckets bms"
  shows "\<exists>x. bgp_route_info_modulo bms peer rd pid n = Inr (first_bucket bms peer + x) \<and> x < n"
    and "bgp_route_info_modulo bms peer None None n = Inr (first_bucket bms peer)"
    and "first_bucket bms peer + n \<le> length (empty_info bms :: 'i list list)"
proof -
  have pos: "0 < n" "0 < table_peer_buckets bms" using assms(1) by (simp_all add: buckets_ok_def n_def)
  have fd: "(bp_fd peer + 1) * n \<le> 2 ^ 32" using assms(2) by (simp add: fd_ok_def n_def)
  have arith: "(bp_fd peer * n + x) mod 2 ^ 32 mod (table_peer_buckets bms * n) = first_bucket bms peer + x"
    if "x < n" for x
    using bucket_arith [OF pos that fd] by (simp add: first_bucket_def n_def)
  have less: "u mod n < n" for u using pos(1) by simp
  show "\<exists>x. bgp_route_info_modulo bms peer rd pid n = Inr (first_bucket bms peer + x) \<and> x < n"
    unfolding bgp_route_info_modulo_def bgp_route_info_modulo_pathid_def bgp_route_info_modulo_mplsvpnrd_def Let_def arith [OF less]
    using pos less by auto
  show "bgp_route_info_modulo bms peer None None n = Inr (first_bucket bms peer)"
    unfolding bgp_route_info_modulo_def bgp_route_info_modulo_pathid_def bgp_route_info_modulo_mplsvpnrd_def Let_def arith [OF less]
    using pos by simp
  have "(bp_fd peer mod table_peer_buckets bms + 1) * n \<le> table_peer_buckets bms * n"
    using pos by (intro mult_right_mono) (simp_all add: Suc_leI)
  then show "first_bucket bms peer + n \<le> length (empty_info bms :: 'i list list)"
    by (simp add: first_bucket_def empty_info_def n_def)
qed

definition own_bucket :: "misc_db \<Rightarrow> bgp_peer \<Rightarrow> nat \<Rightarrow> bool" where
  "own_bucket bms peer b \<longleftrightarrow>
     first_bucket bms peer \<le> b \<and> b < first_bucket bms peer + table_per_peer_buckets bms"

section \<open>What a peer changes\<close>

definition others :: "bgp_peer \<Rightarrow> bgp_info list list \<Rightarrow> bgp_info list list" where
  "others peer info = map (filter (foreign peer)) info"

definition placed :: "misc_db \<Rightarrow> bgp_peer \<Rightarrow> bgp_info list list \<Rightarrow> bool" where
  "placed bms peer info \<longleftrightarrow> (\<forall>b < length info. own_bucket bms peer b \<or> list_all (foreign peer) (info ! b))"

text \<open>The entries of other peers stay, and those of the peer stay in its buckets.\<close>

definition own_change :: "misc_db \<Rightarrow> bgp_peer \<Rightarrow> ribs \<Rightarrow> ribs \<Rightarrow> bool" where
  "own_change bms peer Es Es' \<longleftrightarrow> (\<forall>afi safi ks. others peer (Es' afi safi ks) = others peer (Es afi safi ks)
     \<and> (fd_ok bms peer \<and> placed bms peer (Es afi safi ks) \<longrightarrow> placed bms peer (Es' afi safi ks)))"

lemma own_change_refl [simp]: "own_change bms peer Es Es"
  by (simp add: own_change_def)

lemma own_change_trans: "own_change bms peer Es Es' \<Longrightarrow> own_change bms peer Es' Es'' \<Longrightarrow> own_change bms peer Es Es''"
  by (simp add: own_change_def)

lemma own_change_set:
  assumes "others peer info = others peer (Es afi safi ks)"
    and "fd_ok bms peer \<Longrightarrow> placed bms peer (Es afi safi ks) \<Longrightarrow> placed bms peer info"
  shows "own_change bms peer Es (set_rib Es afi safi ((Es afi safi)(ks := info)))"
  using assms by (auto simp: own_change_def set_rib_def)

lemma bucket_own:
  assumes "buckets_ok bms" "fd_ok bms peer"
    and "bgp_route_info_modulo bms peer rd pid (table_per_peer_buckets bms) = Inr b"
  shows "own_bucket bms peer b"
  using modulo_window(1) [OF assms(1,2), of rd pid] assms(3) by (auto simp: own_bucket_def)

lemma others_update:
  "b < length info \<Longrightarrow> filter (foreign peer) c = filter (foreign peer) (info ! b) \<Longrightarrow>
    others peer (info[b := c]) = others peer info"
  by (simp add: others_def map_update list_update_same_conv)

lemma placed_update: "own_bucket bms peer b \<Longrightarrow> placed bms peer info \<Longrightarrow> placed bms peer (info[b := c])"
  unfolding placed_def
proof (intro allI impI)
  fix i
  assume "own_bucket bms peer b" "\<forall>b < length info. own_bucket bms peer b \<or> list_all (foreign peer) (info ! b)"
    "i < length (info[b := c])"
  then show "own_bucket bms peer i \<or> list_all (foreign peer) (info[b := c] ! i)" by (cases "i = b") auto
qed

lemma filter_replace:
  "i < length xs \<Longrightarrow> \<not> P (xs ! i) \<Longrightarrow> \<not> P x \<Longrightarrow> filter P (xs[i := x]) = filter P xs"
  by (simp add: upd_conv_take_nth_drop id_take_nth_drop [of i xs, THEN arg_cong [of _ _ "filter P"]])

lemma filter_remove:
  "i < length xs \<Longrightarrow> \<not> P (xs ! i) \<Longrightarrow> filter P (take i xs @ drop (Suc i) xs) = filter P xs"
  by (simp add: id_take_nth_drop [of i xs, THEN arg_cong [of _ _ "filter P"]])

lemma found_own:
  "find_route (same_route peer afi safi ex) xs = Some i \<Longrightarrow> i < length xs \<and> \<not> foreign peer (xs ! i)"
  using find_route_less [of "same_route peer afi safi ex" xs i] by (simp add: foreign_def same_route_def)

lemma announced_change:
  assumes b: "bgp_route_info_modulo bms peer rd pid (table_per_peer_buckets bms) = Inr b" "buckets_ok bms"
    and len: "b < length (Es afi safi ks)"
  shows "own_change bms peer Es (set_rib Es afi safi ((Es afi safi)(ks := announced peer afi safi ex b a (Es afi safi ks))))"
proof (rule own_change_set)
  let ?info = "Es afi safi ks"
  show "others peer (announced peer afi safi ex b a ?info) = others peer ?info"
  proof (cases "find_route (same_route peer afi safi ex) (?info ! b)")
    case None
    then show ?thesis using others_update [OF len] by (simp add: announced_def foreign_def)
  next
    case (Some i)
    note own = found_own [OF Some]
    have "filter (foreign peer) ((?info ! b)[i := (?info ! b ! i)\<lparr>ri_attr := a, ri_extra := e\<rparr>])
        = filter (foreign peer) (?info ! b)" for e
      using own by (intro filter_replace) (simp_all add: foreign_def)
    then show ?thesis using Some others_update [OF len] by (simp add: announced_def Let_def)
  qed
  show "placed bms peer (announced peer afi safi ex b a ?info)" if "fd_ok bms peer" "placed bms peer ?info"
    using placed_update [OF bucket_own [OF b(2) that(1) b(1)] that(2)] that(2)
    by (simp add: announced_def Let_def split: option.split)
qed

lemma withdrawn_change:
  assumes b: "bgp_route_info_modulo bms peer rd pid (table_per_peer_buckets bms) = Inr b" "buckets_ok bms"
    and len: "b < length (Es afi safi ks)"
  shows "own_change bms peer Es (set_rib Es afi safi ((Es afi safi)(ks := withdrawn peer afi safi ex b (Es afi safi ks))))"
proof (rule own_change_set)
  let ?info = "Es afi safi ks"
  show "others peer (withdrawn peer afi safi ex b ?info) = others peer ?info"
  proof (cases "find_route (same_route peer afi safi ex) (?info ! b)")
    case (Some i)
    then show ?thesis using others_update [OF len filter_remove] found_own [OF Some] by (simp add: withdrawn_def)
  qed (simp add: withdrawn_def)
  show "placed bms peer (withdrawn peer afi safi ex b ?info)" if "fd_ok bms peer" "placed bms peer ?info"
    using placed_update [OF bucket_own [OF b(2) that(1) b(1)] that(2)] that(2)
    by (simp add: withdrawn_def split: option.split)
qed

end
