(* ===== verification/UpdateFacts.thy ===== *)
theory UpdateFacts
  imports AttrSafe PeerRoutes BgpUpdate
begin

text \<open>
  UPDATE messages: a section of unicast prefixes announces or withdraws exactly the prefixes that are
  encoded in it, and a message with unicast sections keeps the routing database in order, whatever its
  octets are.
\<close>

section \<open>Room for more entries\<close>

text \<open>The lock counts of all networks have room for \<open>k\<close> more entries and two locks taken in passing.\<close>

definition room :: "ribs \<Rightarrow> nat \<Rightarrow> bool" where
  "room Es k \<longleftrightarrow> (\<forall>afi safi ks. total (Es afi safi ks) + k + 2 < 2 ^ 32)"

definition conf_ok :: "misc_db \<Rightarrow> bool" where
  "conf_ok bms \<longleftrightarrow> \<not> is_readonly bms \<and> \<not> skip_rib bms \<and> buckets_ok bms"

lemma room_less: "room Es k \<Longrightarrow> j \<le> k \<Longrightarrow> room Es j"
  unfolding room_def by (meson add_le_mono le_less_trans le_refl)

lemma room_add [intro]: "room Es (j + k) \<Longrightarrow> room Es k"
  by (erule room_less) simp

lemma total_update_le:
  "b < length info \<Longrightarrow> length c \<le> length (info ! b) + d \<Longrightarrow> total (info[b := c]) \<le> total info + d"
  using total_update [of b info c] by linarith

lemma total_announced: "b < length info \<Longrightarrow> total (announced peer afi safi ex b a info) \<le> Suc (total info)"
  using total_update_le [of b info _ 1]
  by (cases "find_route (same_route peer afi safi ex) (info ! b)") (simp_all add: announced_def Let_def)

lemma total_withdrawn: "b < length info \<Longrightarrow> total (withdrawn peer afi safi ex b info) \<le> total info"
  using total_update_le [of b info _ 0]
  by (cases "find_route (same_route peer afi safi ex) (info ! b)")
     (simp_all add: withdrawn_def min_def find_route_less [THEN conjunct1] less_imp_le)

lemma room_set:
  assumes "room Es (Suc k)" "total info \<le> Suc (total (Es afi safi ks))"
  shows "room (set_rib Es afi safi ((Es afi safi)(ks := info))) k"
  unfolding room_def
proof (intro allI)
  fix a s q
  have "total (Es afi safi ks) + Suc k + 2 < 2 ^ 32" "total (Es a s q) + Suc k + 2 < 2 ^ 32"
    using assms(1) unfolding room_def by blast+
  then show "total (set_rib Es afi safi ((Es afi safi)(ks := info)) a s q) + k + 2 < 2 ^ 32"
    using assms(2) by (auto simp: set_rib_def)
qed

text \<open>The parts of the attributes that the message owns.\<close>

definition owns :: "attr_refs \<Rightarrow> bgp_attr \<Rightarrow> bool" where
  "owns R x \<longleftrightarrow> attr_good x \<and> opt_mset (at_aspath x) \<subseteq># h_as R \<and> opt_mset (at_community x) \<subseteq># h_com R
     \<and> opt_mset (at_ecommunity x) \<subseteq># h_ecom R \<and> opt_mset (at_lcommunity x) \<subseteq># h_lcom R"

definition nlri_inv :: "ribs \<Rightarrow> bgp_config \<Rightarrow> misc_db \<Rightarrow> bgp_peer \<Rightarrow> attr_refs \<Rightarrow> bgp_attr option \<Rightarrow> nat \<Rightarrow> nlri_st \<Rightarrow> bool" where
  "nlri_inv before cfg bms peer R xo k st \<longleftrightarrow> n_attr st = xo \<and> (\<exists>Es. db_ok cfg bms peer (n_db st) Es R \<and> room Es k
     \<and> own_change bms peer before Es)"

lemma nlri_inv_extra [simp]:
  "nlri_inv before cfg bms peer R xo k (st\<lparr>n_extra := e\<rparr>) = nlri_inv before cfg bms peer R xo k st"
  "nlri_inv before cfg bms peer R xo k (st\<lparr>n_count := c\<rparr>) = nlri_inv before cfg bms peer R xo k st"
  by (simp_all add: nlri_inv_def)

lemma nlri_inv_less: "nlri_inv before cfg bms peer R xo k st \<Longrightarrow> j \<le> k \<Longrightarrow> nlri_inv before cfg bms peer R xo j st"
  by (auto simp: nlri_inv_def intro: room_less)

lemma nlri_process_ok:
  assumes inv: "nlri_inv before cfg bms peer R xo (Suc k) st" and conf: "conf_ok bms" and peer: "peer_ok (Some peer)"
    and p: "prefix_wf p" and t: "(afi, safi) \<in> tables" and own: "\<And>x. xo = Some x \<Longrightarrow> owns R x"
  shows "runs (nlri_inv before cfg bms peer R xo k) (nlri_process cfg bms stray peer afi safi p st)"
proof -
  from inv obtain Es where db: "db_ok cfg bms peer (n_db st) Es R" and rm: "room Es (Suc k)" and xo: "n_attr st = xo"
    and chg: "own_change bms peer before Es"
    by (auto simp: nlri_inv_def)
  have c: "\<not> is_readonly bms" "\<not> skip_rib bms" "buckets_ok bms" using conf by (auto simp: conf_ok_def)
  have len: "length (Es afi safi (p_bits p)) = length (empty_info bms :: bgp_info list list)"
    using db by (simp add: db_ok_def stands_for_def)
  have r: "Suc (Suc (total (Es afi safi (p_bits p)))) < 2 ^ 32"
  proof -
    have "total (Es afi safi (p_bits p)) + Suc k + 2 < 2 ^ 32" using rm unfolding room_def by blast
    then show ?thesis by simp
  qed
  have b_ok: "b < length (Es afi safi (p_bits p))"
    if "bgp_route_info_modulo bms peer rd pid (table_per_peer_buckets bms) = Inr b" for b rd pid
    using modulo_ok [OF c(3), of peer rd pid, where 'i = bgp_info] that len by auto
  show ?thesis
  proof (cases xo)
    case None
    from r have r1: "Suc (total (Es afi safi (p_bits p))) < 2 ^ 32" by simp
    from process_withdraw_ok [OF db peer p c t r1, where ex = "n_extra st" and stray = stray]
    obtain b db' where
      b: "bgp_route_info_modulo bms peer (Some (ax_rd (n_extra st))) (Some (ax_path_id (n_extra st))) (table_per_peer_buckets bms) = Inr b"
      and w: "bgp_process_withdraw cfg bms stray peer p (n_extra st) afi safi (n_db st) = Inr (SUCCESS, db')"
      "db_ok cfg bms peer db' (set_rib Es afi safi ((Es afi safi)(p_bits p :=
         withdrawn peer afi safi (n_extra st) b (Es afi safi (p_bits p))))) R"
      by blast
    from room_set [OF rm, of "withdrawn peer afi safi (n_extra st) b (Es afi safi (p_bits p))" afi safi "p_bits p"]
      total_withdrawn [OF b_ok [OF b], of peer afi safi "n_extra st"]
      own_change_trans [OF chg withdrawn_change [where Es = Es and afi = afi and safi = safi and ks = "p_bits p" and ex = "n_extra st", OF b c(3) b_ok [OF b]]]
    show ?thesis using w xo None by (auto simp: nlri_process_def nlri_inv_def)
  next
    case (Some x)
    have own': "attr_good x" "opt_mset (at_aspath x) \<subseteq># h_as R" "opt_mset (at_community x) \<subseteq># h_com R"
      "opt_mset (at_ecommunity x) \<subseteq># h_ecom R" "opt_mset (at_lcommunity x) \<subseteq># h_lcom R"
      using own [OF Some] by (simp_all add: owns_def)
    from process_update_ok [OF db peer p c t r own', where ex = "n_extra st" and stray = stray]
    obtain b a db' where
      b: "bgp_route_info_modulo bms peer (Some (ax_rd (n_extra st))) (Some (ax_path_id (n_extra st))) (table_per_peer_buckets bms) = Inr b"
      and w: "bgp_process_update cfg bms stray peer p x (n_extra st) afi safi (n_db st) = Inr (SUCCESS, x, db')"
      "db_ok cfg bms peer db' (set_rib Es afi safi ((Es afi safi)(p_bits p :=
         announced peer afi safi (n_extra st) b a (Es afi safi (p_bits p))))) R"
      by blast
    from room_set [OF rm, of "announced peer afi safi (n_extra st) b a (Es afi safi (p_bits p))" afi safi "p_bits p"]
      total_announced [OF b_ok [OF b], of peer afi safi "n_extra st" a]
      own_change_trans [OF chg announced_change [where Es = Es and afi = afi and safi = safi and ks = "p_bits p" and ex = "n_extra st" and a = a, OF b c(3) b_ok [OF b]]]
    show ?thesis using w xo Some by (auto simp: nlri_process_def nlri_inv_def)
  qed
qed

section \<open>A section of unicast prefixes\<close>

lemma read_addr_ok: "i + n \<le> length s \<Longrightarrow> n \<le> 16 \<Longrightarrow> read_addr s i n = Inr (take n (drop i s) @ replicate (16 - n) 0)"
  by (simp add: read_addr_def block_ok)

lemma unicast_prefix_ok:
  assumes afi: "afi = AFI_IP \<or> afi = AFI_IP6" and n: "\<not> too_long afi n 0" and s: "(n + 7) div 8 \<le> length s"
  shows "\<exists>bs. read_addr s 0 ((n + 7) div 8) = Inr bs \<and> prefix_wf (nlri_prefix afi n bs)"
proof -
  have "n \<le> 128" "afi = AFI_IP \<Longrightarrow> n \<le> 32" using afi n by (auto simp: too_long_def)
  then have "(n + 7) div 8 \<le> 16" by simp
  with s \<open>n \<le> 128\<close> \<open>afi = AFI_IP \<Longrightarrow> n \<le> 32\<close> afi show ?thesis
    by (auto simp: read_addr_ok prefix_wf_def prefix_ok_def nlri_prefix_def bgp_afi2family_def bgp_consts)
qed

lemma unicast_tables: "afi = AFI_IP \<or> afi = AFI_IP6 \<Longrightarrow> (afi, SAFI_UNICAST) \<in> tables"
  by (auto simp: tables_def bgp_consts)

lemma nlri_step_ok:
  assumes inv: "nlri_inv before cfg bms peer R xo (Suc k) st" and conf: "conf_ok bms" and peer: "peer_ok (Some peer)"
    and own: "\<And>x. xo = Some x \<Longrightarrow> owns R x" and afi: "afi = AFI_IP \<or> afi = AFI_IP6" and s: "21 \<le> length s"
  shows "runs (\<lambda>(ok, pid, psize, st'). nlri_inv before cfg bms peer R xo k st')
    (nlri_step cfg bms stray peer upd afi SAFI_UNICAST s rest psize st)"
proof -
  obtain w where w: "peek32 s 0 = Inr w" using peek32_ok [of 0 s] s by auto
  then obtain pid ex where pid: "read_path_id peer afi SAFI_UNICAST s (n_extra st) = Inr (pid, ex)" "pid \<le> 4"
    by (cases "cap_of peer afi SAFI_UNICAST") (use afi in \<open>auto simp: read_path_id_def\<close>)
  have l: "peek s pid = Inr (s ! pid)" using pid(2) s by (intro peek_ok) simp
  let ?n = "unat (s ! pid)" and ?s = "drop (pid + 1) s"
  show ?thesis
  proof (cases "too_long afi ?n 0 \<or> rest - 1 < int ((?n + 7) div 8)")
    case True
    then show ?thesis using pid l nlri_inv_less [OF inv, of k]
      by (simp add: nlri_step_def read_prefix_def)
  next
    case False
    have "?n \<le> 128" using False afi by (auto simp: too_long_def)
    then have "(?n + 7) div 8 \<le> length ?s" using s pid(2) by simp
    from unicast_prefix_ok [OF afi _ this] False obtain bs where
      bs: "read_addr ?s 0 ((?n + 7) div 8) = Inr bs" "prefix_wf (nlri_prefix afi ?n bs)" by auto
    from nlri_process_ok [OF _ conf peer bs(2) unicast_tables [OF afi] own, where k = k and st = "st\<lparr>n_extra := ex\<rparr>" and stray = stray and cfg = cfg and xo = xo] inv
    obtain st' where "nlri_process cfg bms stray peer afi SAFI_UNICAST (nlri_prefix afi ?n bs) (st\<lparr>n_extra := ex\<rparr>) = Inr st'"
      "nlri_inv before cfg bms peer R xo k st'"
      by (auto simp: runs_iff)
    then show ?thesis using pid l False bs(1) by (simp add: nlri_step_def read_prefix_def Let_def)
  qed
qed

lemma nlri_loop_ok:
  assumes "nlri_inv before cfg bms peer R xo (nat left + k) st" "conf_ok bms" "peer_ok (Some peer)"
    "\<And>x. xo = Some x \<Longrightarrow> owns R x" "afi = AFI_IP \<or> afi = AFI_IP6" "left \<le> 0 \<or> nat left + 20 \<le> length s"
  shows "runs (\<lambda>(ret, st'). nlri_inv before cfg bms peer R xo k st')
    (nlri_loop cfg bms stray peer upd afi SAFI_UNICAST s left rest psize st)"
  using assms
proof (induction "nat left" arbitrary: s left rest psize st rule: less_induct)
  case less
  show ?case
  proof (cases "left \<le> 0")
    case True
    then show ?thesis using nlri_inv_less [OF less.prems(1), of k] by (simp add: nlri_loop.simps)
  next
    case False
    then obtain m where m: "nat left = Suc m" "m + k + 1 = nat left + k" by (cases "nat left") auto
    have "21 \<le> length s" using less.prems(6) False m(1) by simp
    from nlri_step_ok [OF _ less.prems(2-5) this, where cfg = cfg and before = before and xo = xo and k = "m + k" and st = st and stray = stray and upd = upd and rest = rest and psize = psize] less.prems(1) m
    obtain ok pid psize' st' where
      st: "nlri_step cfg bms stray peer upd afi SAFI_UNICAST s rest psize st = Inr (ok, pid, psize', st')"
        "nlri_inv before cfg bms peer R xo (m + k) st'"
      by (auto simp: runs_iff)
    show ?thesis
    proof (cases ok)
      case False
      then show ?thesis using st \<open>\<not> left \<le> 0\<close> nlri_inv_less [OF st(2), of k] by (simp add: nlri_loop.simps)
    next
      case True
      let ?d = "pid + 1 + psize'"
      have "runs (\<lambda>(ret, st'). nlri_inv before cfg bms peer R xo k st')
        (nlri_loop cfg bms stray peer upd afi SAFI_UNICAST (drop ?d s) (left - int ?d) (rest - 1) psize' st')"
      proof (rule less.hyps)
        show "nat (left - int ?d) < nat left" using False by simp
        show "nlri_inv before cfg bms peer R xo (nat (left - int ?d) + k) st'"
          using m(1) by (intro nlri_inv_less [OF st(2)]) simp
        show "left - int ?d \<le> 0 \<or> nat (left - int ?d) + 20 \<le> length (drop ?d s)"
          using less.prems(6) False by auto
      qed (use less.prems in auto)
      then show ?thesis using st(1) True \<open>\<not> left \<le> 0\<close> by (subst nlri_loop.simps) simp
    qed
  qed
qed

section \<open>A section as the sender writes it\<close>

text \<open>A path identifier, the length of a prefix in bits and its octets; on the wire, the identifier is
  present when the peer announced it may send several paths for a prefix.\<close>

type_synonym wire_prefix = "u32 \<times> u8 \<times> u8 list"

fun wire_ok :: "nat \<Rightarrow> wire_prefix \<Rightarrow> bool" where
  "wire_ok afi (pid, n, bs) \<longleftrightarrow> \<not> too_long afi (unat n) 0 \<and> length bs = (unat n + 7) div 8"

fun wire_octets :: "bool \<Rightarrow> wire_prefix \<Rightarrow> u8 list" where
  "wire_octets paths (pid, n, bs) = (if paths then bytes32 pid else []) @ n # bs"

fun wire_size :: "wire_prefix \<Rightarrow> nat" where
  "wire_size (pid, n, bs) = length bs"

definition wire_section :: "bool \<Rightarrow> wire_prefix list \<Rightarrow> u8 list" where
  "wire_section paths xs = concat (map (wire_octets paths) xs)"

fun nlri_turn ::
  "bgp_config \<Rightarrow> misc_db \<Rightarrow> u8 \<Rightarrow> bgp_peer \<Rightarrow> nat \<Rightarrow> wire_prefix \<Rightarrow> nlri_st \<Rightarrow> nlri_st run" where
  "nlri_turn cfg bms stray peer afi (pid, n, bs) st =
     nlri_process cfg bms stray peer afi SAFI_UNICAST
       (nlri_prefix afi (unat n) (bs @ replicate (16 - length bs) 0))
       (if cap_of peer afi SAFI_UNICAST then st\<lparr>n_extra := (n_extra st)\<lparr>ax_path_id := pid\<rparr>\<rparr> else st)"

fun nlri_turns ::
  "bgp_config \<Rightarrow> misc_db \<Rightarrow> u8 \<Rightarrow> bgp_peer \<Rightarrow> nat \<Rightarrow> wire_prefix list \<Rightarrow> nlri_st \<Rightarrow> (int \<times> nlri_st) run" where
  "nlri_turns cfg bms stray peer afi [] st = Inr (SUCCESS, st)"
| "nlri_turns cfg bms stray peer afi (x # xs) st =
     fbind (nlri_turn cfg bms stray peer afi x st) (nlri_turns cfg bms stray peer afi xs)"

lemma wire_section_simps [simp]:
  "wire_section paths [] = []"
  "wire_section paths (x # xs) = wire_octets paths x @ wire_section paths xs"
  by (simp_all add: wire_section_def)

lemma peek32_bytes [simp]: "peek32 (bytes32 w @ s) 0 = Inr w"
  by (simp add: peek32_def bytes32_def fault_simps)

lemma length_wire: "length (wire_octets paths x) = (if paths then 4 else 0) + 1 + wire_size x"
  by (cases x) simp

lemma nlri_step_wire:
  assumes ok: "wire_ok afi x" and afi: "afi = AFI_IP \<or> afi = AFI_IP6" and rest: "int (wire_size x) < rest"
  shows "nlri_step cfg bms stray peer upd afi SAFI_UNICAST (wire_octets (cap_of peer afi SAFI_UNICAST) x @ s)
      rest psize st =
    fbind (nlri_turn cfg bms stray peer afi x st)
      (\<lambda>st. Inr (True, if cap_of peer afi SAFI_UNICAST then 4 else 0, wire_size x, st))"
proof -
  obtain pid n bs where x: "x = (pid, n, bs)" by (cases x)
  have long: "\<not> too_long afi (unat n) 0" and len: "(unat n + 7) div 8 = length bs" using ok x by simp_all
  have "length bs \<le> 16" using long afi len by (auto simp: too_long_def)
  then have addr: "read_addr (bs @ s) 0 (length bs) = Inr (bs @ replicate (16 - length bs) 0)"
    by (simp add: read_addr_ok)
  have head: "peek (c # t) 0 = Inr c" "peek (bytes32 w @ c # t) 4 = Inr c" for c t w
    by (simp_all add: peek_ok nth_append)
  show ?thesis
    using afi x rest long len addr
    by (auto simp: nlri_step_def read_path_id_def read_prefix_def head Let_def)
qed

text \<open>The claimed length of a section may cut the last prefix: the variable \<open>end\<close> only goes down by one
  with every prefix, so the code goes on behind the section.\<close>

lemma nlri_loop_turns:
  assumes "\<forall>x \<in> set xs. wire_ok afi x" "afi = AFI_IP \<or> afi = AFI_IP6" "xs \<noteq> []"
    "left \<le> int (length (wire_section (cap_of peer afi SAFI_UNICAST) xs))"
    "int (length (wire_section (cap_of peer afi SAFI_UNICAST) (butlast xs))) < left"
    "int (wire_size (last xs)) + int (length xs) \<le> rest" "left \<le> rest"
  shows "nlri_loop cfg bms stray peer upd afi SAFI_UNICAST
      (wire_section (cap_of peer afi SAFI_UNICAST) xs @ behind) left rest psize st =
    nlri_turns cfg bms stray peer afi xs st"
  using assms
proof (induction xs arbitrary: left rest psize st)
  case (Cons x xs)
  let ?c = "cap_of peer afi SAFI_UNICAST" and ?w = "int (length (wire_octets (cap_of peer afi SAFI_UNICAST) x))"
  have pos: "\<not> left \<le> 0" using Cons.prems(5) by simp
  have fits: "int (wire_size x) < rest"
    using Cons.prems(5-7) length_wire [of ?c x] by (cases "xs = []") auto
  have tail: "nlri_loop cfg bms stray peer upd afi SAFI_UNICAST (wire_section ?c xs @ behind) (left - ?w)
      (rest - 1) ps st' = nlri_turns cfg bms stray peer afi xs st'" for ps st'
  proof (cases "xs = []")
    case True
    then show ?thesis using Cons.prems(4) by (simp add: nlri_loop.simps)
  next
    case False
    then show ?thesis using Cons.prems length_wire [of ?c x] by (intro Cons.IH) auto
  qed
  have "nlri_loop cfg bms stray peer upd afi SAFI_UNICAST (wire_section ?c (x # xs) @ behind) left rest psize st
      = fbind (nlri_turn cfg bms stray peer afi x st) (\<lambda>st'.
          nlri_loop cfg bms stray peer upd afi SAFI_UNICAST (wire_section ?c xs @ behind) (left - ?w) (rest - 1)
            (wire_size x) st')"
    using nlri_step_wire [OF _ Cons.prems(2) fits, of cfg bms stray peer upd "wire_section ?c xs @ behind" psize st] Cons.prems(1) pos
    by (subst nlri_loop.simps) (cases "nlri_turn cfg bms stray peer afi x st"; simp add: length_wire)
  then show ?case by (simp add: tail)
qed simp

section \<open>A whole message\<close>

text \<open>The parser gives the references it holds back.\<close>

context obj_class
begin

lemma unintern_ref_step:
  assumes bal: "balanced ops good (P, H + K)" and peer: "peer_ok peer" and p: "opt_mset p \<subseteq># H"
  shows "\<exists>P'. unintern_ref ops peer P p = Inr P'
    \<and> (P' = P \<and> H - opt_mset p = H \<or> pool_step ops good peer (P, H) (P', H - opt_mset p))"
proof (cases p)
  case (Some a)
  then have a: "a \<in># H" using p by simp
  then have ap: "a \<in> pool_ptrs P" using balancedD(2) [OF bal] by auto
  then obtain x where "heap P a = Some x" using pool_invD(3) [OF balancedD(1) [OF bal]] by blast
  from unintern_spec [OF balancedD(1) [OF bal] peer ap this] obtain P' where
    P': "obj_unintern ops peer P (Some a) = Inr P'" by blast
  with a have "pool_step ops good peer (P, H) (P', H - {#a#})" by (intro pool_step.release)
  with P' Some show ?thesis by (auto simp: unintern_ref_def)
qed (simp add: unintern_ref_def)

end

definition disown :: "bgp_attr \<Rightarrow> attr_refs \<Rightarrow> attr_refs" where
  "disown x R = R\<lparr>h_as := h_as R - opt_mset (at_aspath x), h_com := h_com R - opt_mset (at_community x),
     h_ecom := h_ecom R - opt_mset (at_ecommunity x), h_lcom := h_lcom R - opt_mset (at_lcommunity x)\<rparr>"

lemma disown_attr: "disown x (R\<lparr>h_attr := H\<rparr>) = (disown x R)\<lparr>h_attr := H\<rparr>"
  by (cases R) (simp add: disown_def)

lemma unintern_parts_ok:
  assumes bal: "attr_bal cfg peer (D, R)" and peer: "peer_ok peer" and own: "owns R x"
  shows "\<exists>D'. unintern_parts cfg peer D x = Inr D' \<and> attr_bal cfg peer (D', disown x R)"
proof -
  have own': "opt_mset (at_aspath x) \<subseteq># h_as R" "opt_mset (at_community x) \<subseteq># h_com R"
      "opt_mset (at_ecommunity x) \<subseteq># h_ecom R" "opt_mset (at_lcommunity x) \<subseteq># h_lcom R"
    using own by (simp_all add: owns_def)
  from asp.unintern_ref_step [OF attr_balD(1) [OF bal] peer own'(1)] as_path_step [OF bal peer] bal
  obtain P1 where p1: "unintern_ref aspath_ops peer (ashash D) (at_aspath x) = Inr P1"
      "attr_bal cfg peer (D\<lparr>ashash := P1\<rparr>, R\<lparr>h_as := h_as R - opt_mset (at_aspath x)\<rparr>)"
    by fastforce
  from com.unintern_ref_step [OF attr_balD(2) [OF p1(2)] peer, of "at_community x"]
    communities_step [OF p1(2) peer] p1(2) own'(2)
  obtain P2 where p2: "unintern_ref (community_ops (comms_num cfg) peer) peer (comhash D) (at_community x) = Inr P2"
      "attr_bal cfg peer (D\<lparr>ashash := P1, comhash := P2\<rparr>, R\<lparr>h_as := h_as R - opt_mset (at_aspath x),
         h_com := h_com R - opt_mset (at_community x)\<rparr>)"
    by fastforce
  from ecom.unintern_ref_step [OF attr_balD(3) [OF p2(2)] peer, of "at_ecommunity x"]
    ecommunities_step [OF p2(2) peer] p2(2) own'(3)
  obtain P3 where p3: "unintern_ref (ecommunity_ops (comms_num cfg) peer) peer (ecomhash D) (at_ecommunity x) = Inr P3"
      "attr_bal cfg peer (D\<lparr>ashash := P1, comhash := P2, ecomhash := P3\<rparr>, R\<lparr>h_as := h_as R - opt_mset (at_aspath x),
         h_com := h_com R - opt_mset (at_community x), h_ecom := h_ecom R - opt_mset (at_ecommunity x)\<rparr>)"
    by fastforce
  from lcom.unintern_ref_step [OF attr_balD(4) [OF p3(2)] peer, of "at_lcommunity x"]
    lcommunities_step [OF p3(2) peer] p3(2) own'(4)
  obtain P4 where p4: "unintern_ref (lcommunity_ops peer) peer (lcomhash D) (at_lcommunity x) = Inr P4"
      "attr_bal cfg peer (D\<lparr>ashash := P1, comhash := P2, ecomhash := P3, lcomhash := P4\<rparr>, disown x R)"
    unfolding disown_def by fastforce
  from p1(1) p2(1) p3(1) p4 show ?thesis by (simp add: unintern_parts_def)
qed

text \<open>What holds between the sections.\<close>

definition upd_inv :: "ribs \<Rightarrow> bgp_config \<Rightarrow> misc_db \<Rightarrow> bgp_peer \<Rightarrow> attr_refs \<Rightarrow> nat \<Rightarrow> upd_st \<Rightarrow> bool" where
  "upd_inv before cfg bms peer R k u \<longleftrightarrow> owns R (u_attr u) \<and> (\<exists>Es. db_ok cfg bms peer (u_db u) Es R
     \<and> room Es k \<and> own_change bms peer before Es)"

text \<open>Sections whose prefixes are plain: labelled prefixes, prefixes of a VPN and BGP-LS are left out.\<close>

definition plain_section :: "bgp_nlri \<Rightarrow> bool" where
  "plain_section n \<longleftrightarrow> nl_length n = 0
     \<or> nl_safi n \<noteq> SAFI_MPLS_LABEL \<and> nl_safi n \<noteq> SAFI_MPLS_VPN \<and> \<not> ls_kind n"

lemma nlri_section_ok:
  assumes inv: "upd_inv before cfg bms peer R (65536 + k) u" and conf: "conf_ok bms" and peer: "peer_ok (Some peer)"
    and info: "cond \<Longrightarrow> mp_room info \<and> nl_safi info = SAFI_UNICAST \<and> (nl_afi info = AFI_IP \<or> nl_afi info = AFI_IP6)"
  shows "runs (upd_inv before cfg bms peer R k) (nlri_section cfg bms stray peer cond upd info u)"
proof (cases cond)
  case False
  then show ?thesis using inv by (auto simp: nlri_section_def upd_inv_def)
next
  case True
  let ?xo = "if upd then Some (u_attr u) else None"
  let ?st = "\<lparr>n_attr = ?xo, n_extra = u_extra u, n_db = u_db u, n_count = u_count u\<rparr>"
  have n: "nl_length info < 65536" "nl_length info = 0 \<or> nl_length info + 20 \<le> length (nl_nlri info)"
    using info [OF True] by (auto simp: mp_room_def)
  have "nlri_inv before cfg bms peer R ?xo (nat (int (nl_length info)) + k) ?st"
    using inv n(1) room_less [of _ "65536 + k" "nl_length info + k"] by (fastforce simp: nlri_inv_def upd_inv_def)
  moreover have "\<And>x. ?xo = Some x \<Longrightarrow> owns R x" using inv by (simp add: upd_inv_def split: if_splits)
  ultimately have "runs (\<lambda>(ret, st'). nlri_inv before cfg bms peer R ?xo k st')
      (nlri_loop cfg bms stray peer upd (nl_afi info) SAFI_UNICAST (nl_nlri info) (int (nl_length info))
        (int (nl_length info)) 0 ?st)"
    using conf peer info [OF True] n(2) by (intro nlri_loop_ok) auto
  then show ?thesis
    using True peer info [OF True] inv
    by (auto simp: runs_iff nlri_section_def bgp_nlri_parse_def nlri_inv_def upd_inv_def split: if_splits)
qed

lemma sections_ok:
  assumes inv: "upd_inv before cfg bms peer R 393216 u" and conf: "conf_ok bms" and peer: "peer_ok (Some peer)"
    and rooms: "mp_room mp_update" "mp_room mp_withdraw"
    and plain: "plain_section mp_update" "plain_section mp_withdraw"
    and uni: "\<And>n. n = withdraw \<or> n = update \<Longrightarrow> nl_length n \<noteq> 0 \<Longrightarrow> mp_room n \<and> nl_safi n = SAFI_UNICAST \<and> nl_afi n = AFI_IP"
  shows "runs (upd_inv before cfg bms peer R 0)
    (all_sections cfg bms stray ls peer withdraw update mp_update mp_withdraw u)"
proof -
  have kind: "mp_kind n afi \<Longrightarrow> plain_section n \<Longrightarrow> nl_safi n = SAFI_UNICAST \<and> nl_afi n = afi"
    "plain_section n \<Longrightarrow> \<not> ls_kind n" for n afi
    by (auto simp: mp_kind_def plain_section_def ls_kind_def)
  have step: "runs (upd_inv before cfg bms peer R k) (nlri_section cfg bms stray peer cond upd info v)"
    if "upd_inv before cfg bms peer R (65536 + k) v"
      "cond \<Longrightarrow> mp_room info \<and> nl_safi info = SAFI_UNICAST \<and> (nl_afi info = AFI_IP \<or> nl_afi info = AFI_IP6)"
    for k cond upd info v
    using nlri_section_ok [OF that(1) conf peer that(2)] .
  have "\<not> ls_kind mp_update" "\<not> ls_kind mp_withdraw" using kind(2) plain by blast+
  then have ls: "ls_section ls b mp_update v = Inr v" "ls_section ls b mp_withdraw v = Inr v" for b v
    by (simp_all add: ls_section_def)
  show ?thesis
    unfolding all_sections_def ls
    apply (rule runs_bind, rule step [where k = 327680])
      apply (use inv in simp)
     apply (use uni in blast)
    apply (rule runs_bind, rule step [where k = 262144], simp, use uni in blast)
    apply (rule runs_bind, rule step [where k = 196608], simp, use kind(1) rooms plain in blast)
    apply (rule runs_bind, rule step [where k = 131072], simp, use kind(1) rooms plain in blast)
    apply (rule runs_bind, rule step [where k = 65536], simp, use kind(1) rooms plain in blast)
    apply (rule runs_bind, rule step [where k = 0], simp, use kind(1) rooms plain in blast)
    apply simp
    done
qed

abbreviation attr_start :: "attr_db \<Rightarrow> attr_st" where
  "attr_start D \<equiv> \<lparr>s_attr = attr_zero, s_extra = extra_zero, s_mp_update = nlri_zero,
     s_mp_withdraw = nlri_zero, s_as4_path = None, s_db = D\<rparr>"

abbreviation msg_attrs :: "bgp_config \<Rightarrow> bgp_peer \<Rightarrow> u8 list \<Rightarrow> u16 \<Rightarrow> u16 \<Rightarrow> attr_db \<Rightarrow> (int \<times> attr_st) run" where
  "msg_attrs cfg peer pkt wlen alen D \<equiv>
     bgp_attr_parse cfg peer (drop (23 + unat wlen) pkt) (unat alen) (attr_start D)"

lemma update_attrs_ok:
  assumes bal: "attr_bal cfg (Some peer) (D, R)" and peer: "peer_ok (Some peer)" and as4: "is_used (bp_cap_4as peer)"
    and fits: "43 + unat wlen + unat alen \<le> length pkt"
    and plain: "\<forall>ret s. msg_attrs cfg peer pkt wlen alen D = Inr (ret, s) \<longrightarrow>
      plain_section (s_mp_update s) \<and> plain_section (s_mp_withdraw s)"
  shows "runs (\<lambda>(ret, s). (\<exists>R'. attr_inv cfg peer R' (s\<lparr>s_as4_path := None\<rparr>) \<and> h_attr R' = h_attr R)
      \<and> plain_section (s_mp_update s) \<and> plain_section (s_mp_withdraw s))
    (if alen = 0 then Inr (SUCCESS, attr_start D) else msg_attrs cfg peer pkt wlen alen D)"
proof (cases "alen = 0")
  case True
  then show ?thesis using attr_inv_start [of cfg peer "attr_start D" R] bal
    by (auto simp: plain_section_def nlri_zero_def intro!: exI [of _ R])
next
  case False
  have "runs (\<lambda>(ret, s'). \<exists>R'. attr_inv cfg peer R' (s'\<lparr>s_as4_path := None\<rparr>) \<and> h_attr R' = h_attr R
      \<and> attrhash (s_db s') = attrhash (s_db (attr_start D))) (msg_attrs cfg peer pkt wlen alen D)"
    using bal fits by (intro safe_attr_parse peer as4) simp_all
  then show ?thesis using False plain by (auto simp: runs_iff)
qed

text \<open>The end of a message: the flag of End-of-RIB, and the references.\<close>

lemma update_end_ok:
  assumes db: "db_ok cfg bms peer db Es R" and peer: "peer_ok (Some peer)" and own: "owns R x"
  shows "\<exists>D. unintern_parts cfg (Some (set_eor e peer)) (rt_attrs db) x = Inr D
    \<and> peer_ok (Some (set_eor e peer)) \<and> db_ok cfg bms (set_eor e peer) (db\<lparr>rt_attrs := D\<rparr>) Es (disown x R)"
proof -
  have ok: "peer_ok (Some (set_eor e peer))" using peer by (auto simp: set_eor_def split: option.split)
  have bal: "attr_bal cfg (Some (set_eor e peer)) (rt_attrs db, R\<lparr>h_attr := rib_refs Es\<rparr>)"
    using db attr_bal_peer [OF peer ok] by (simp add: db_ok_def)
  from unintern_parts_ok [OF bal ok, of x] own obtain D where
    D: "unintern_parts cfg (Some (set_eor e peer)) (rt_attrs db) x = Inr D"
      "attr_bal cfg (Some (set_eor e peer)) (D, (disown x R)\<lparr>h_attr := rib_refs Es\<rparr>)"
    by (auto simp: owns_def disown_attr)
  then show ?thesis using db ok by (simp add: db_ok_def)
qed

lemma set_eor_same: "bp_idx (set_eor e peer) = bp_idx peer" "bp_fd (set_eor e peer) = bp_fd peer"
  by (simp_all add: set_eor_def split: option.split)

lemma update_safe:
  assumes db: "db_ok cfg bms peer db Es R" and rm: "room Es 393216" and conf: "conf_ok bms"
    and peer: "peer_ok (Some peer)" and as4: "is_used (bp_cap_4as peer)"
    and lens: "update_lengths pkt = Inr (Some (wlen, alen, ulen))"
    and fits: "43 + unat wlen + unat alen + unat ulen \<le> length pkt"
    and plain: "\<forall>ret s. msg_attrs cfg peer pkt wlen alen (rt_attrs db) = Inr (ret, s) \<longrightarrow>
      plain_section (s_mp_update s) \<and> plain_section (s_mp_withdraw s)"
  shows "runs (\<lambda>(ret, peer', db', count'). peer_ok (Some peer') \<and> (\<exists>Es' R'. db_ok cfg bms peer' db' Es' R'
      \<and> own_change bms peer Es Es') \<and> bp_idx peer' = bp_idx peer \<and> bp_fd peer' = bp_fd peer)
    (bgp_parse_update_msg cfg bms stray ls peer pkt db n)"
proof -
  let ?R = "R\<lparr>h_attr := rib_refs Es\<rparr>"
  have bal: "attr_bal cfg (Some peer) (rt_attrs db, ?R)" using db by (simp add: db_ok_def)
  from update_attrs_ok [OF bal peer as4 _ plain] fits obtain ret s R' where
    s: "(if alen = 0 then Inr (SUCCESS, attr_start (rt_attrs db)) else msg_attrs cfg peer pkt wlen alen (rt_attrs db)) = Inr (ret, s)"
      "attr_inv cfg peer R' (s\<lparr>s_as4_path := None\<rparr>)" "h_attr R' = rib_refs Es"
      "plain_section (s_mp_update s)" "plain_section (s_mp_withdraw s)"
    by (auto simp: runs_iff)
  note I = attr_invD [OF s(2), simplified]
  have R': "R'\<lparr>h_attr := rib_refs Es\<rparr> = R'" using s(3) by (cases R') simp
  have db1: "db_ok cfg bms peer (db\<lparr>rt_attrs := s_db s\<rparr>) Es R'" using db I(1) by (simp add: db_ok_def R')
  show ?thesis
  proof (cases "ret < 0")
    case True
    then show ?thesis using db1 peer lens s(1) by (auto simp: bgp_parse_update_msg_def)
  next
    case False
    let ?u = "\<lparr>u_attr = s_attr s, u_extra = s_extra s, u_db = db\<lparr>rt_attrs := s_db s\<rparr>, u_count = n, u_parsed = False\<rparr>"
    let ?w = "unicast_nlri (drop 21 pkt) wlen" and ?a = "unicast_nlri (drop (unat alen) (drop (23 + unat wlen) pkt)) ulen"
    have "upd_inv Es cfg bms peer R' 393216 ?u" using I db1 rm by (auto simp: upd_inv_def owns_def)
    moreover have "mp_room m \<and> nl_safi m = SAFI_UNICAST \<and> nl_afi m = AFI_IP"
      if "m = ?w \<or> m = ?a" "nl_length m \<noteq> 0" for m
      using that fits by (auto simp: unicast_nlri_def mp_room_def nlri_zero_def split: if_splits)
    ultimately have "runs (upd_inv Es cfg bms peer R' 0)
        (all_sections cfg bms stray ls peer ?w ?a (s_mp_update s) (s_mp_withdraw s) ?u)"
      by (rule sections_ok [OF _ conf peer I(7,8) s(4,5)])
    then obtain u Es' where
      u: "all_sections cfg bms stray ls peer ?w ?a (s_mp_update s) (s_mp_withdraw s) ?u = Inr u"
        "owns R' (u_attr u)" "db_ok cfg bms peer (u_db u) Es' R'" "own_change bms peer Es Es'"
      by (auto simp: runs_iff upd_inv_def)
    let ?e = "eor_of (unat ulen) (unat wlen) (unat alen) (s_mp_withdraw s) (u_parsed u)"
    from update_end_ok [OF u(3) peer u(2), of ?e] obtain D where
      D: "unintern_parts cfg (Some (set_eor ?e peer)) (rt_attrs (u_db u)) (u_attr u) = Inr D"
        "peer_ok (Some (set_eor ?e peer))"
        "db_ok cfg bms (set_eor ?e peer) ((u_db u)\<lparr>rt_attrs := D\<rparr>) Es' (disown (u_attr u) R')" by blast
    obtain len where len: "peek16 pkt 16 = Inr len" using peek16_nth [of 16 pkt] fits by simp
    have "bgp_parse_update_msg cfg bms stray ls peer pkt db n
        = Inr (int (unat len), set_eor ?e peer, (u_db u)\<lparr>rt_attrs := D\<rparr>, u_count u)"
      using peer lens s(1) False u(1) D(1) len by (simp add: bgp_parse_update_msg_def Let_def split del: if_split)
    then show ?thesis using D(2,3) u(4) set_eor_same [of ?e peer] by auto
  qed
qed

section \<open>The three lengths of a message\<close>

text \<open>The counters have 16 bits: a message one or two octets short of a length field makes a section of
  65534 octets or so.\<close>

lemma u16_minus_le: "b \<le> a \<Longrightarrow> unat (a - b :: u16) + unat b = unat a"
  using unat_sub_if' [of a b] by (simp add: word_le_nat_alt)

lemma u16_minus_2: "if 2 \<le> unat (a :: u16) then unat (a - 2) + 2 = unat a else unat (a - 2) = 65534 + unat a"
  using unat_sub_if' [of a 2] by auto

lemma lengths_add_up:
  assumes lens: "update_lengths pkt = Inr (Some (wlen, alen, ulen))" and len: "peek16 pkt 16 = Inr len" and min: "19 \<le> len"
  shows "(\<exists>k \<le> 2. 23 + unat wlen + unat alen + unat ulen = unat len + k * 65536)
    \<and> (23 + unat wlen + unat alen + unat ulen = unat len \<longleftrightarrow> 23 + unat wlen + unat alen \<le> unat len)"
proof -
  define r1 r2 r3 r4 where r: "r1 = len - 19" "r2 = r1 - wlen" "r3 = r2 - 2" "r4 = r3 - alen"
  have "\<not> r1 < wlen" "\<not> r3 < alen" "ulen = r4 - 2"
    using lens len unfolding r update_lengths_def Let_def fault_simps
    by (auto simp: fault_simps split: if_splits sum.splits)
  then have eqs: "unat r1 + 19 = unat len" "unat r2 + unat wlen = unat r1" "unat r4 + unat alen = unat r3"
      "if 2 \<le> unat r2 then unat r3 + 2 = unat r2 else unat r3 = 65534 + unat r2"
      "if 2 \<le> unat r4 then unat ulen + 2 = unat r4 else unat ulen = 65534 + unat r4"
    using u16_minus_le [OF min] u16_minus_le [of wlen r1] u16_minus_le [of alen r3] u16_minus_2 [of r2] u16_minus_2 [of r4]
    by (simp_all only: r(2-4) [symmetric] r(1) [symmetric] not_less) simp_all
  let ?s = "23 + unat wlen + unat alen + unat ulen"
  define k where "k = (if 2 \<le> unat r2 then 0 else 1) + (if 2 \<le> unat r4 then 0 else 1 :: nat)"
  have "?s = unat len + k * 65536"
    unfolding k_def using eqs by (cases "2 \<le> unat r2"; cases "2 \<le> unat r4"; simp)
  moreover have "2 \<le> unat r2 \<and> 2 \<le> unat r4 \<longleftrightarrow> 23 + unat wlen + unat alen \<le> unat len"
    using eqs unat_u16_less [of alen] unat_u16_less [of r3] by (cases "2 \<le> unat r2"; simp; linarith)
  moreover have "k \<le> 2" "k = 0 \<longleftrightarrow> 2 \<le> unat r2 \<and> 2 \<le> unat r4" by (simp_all add: k_def)
  ultimately show ?thesis by auto
qed

end
