(* ===== verification/SessionFacts.thy ===== *)
theory SessionFacts
  imports StreamFacts RunLogic
begin

text \<open>
  The state of a session: what the messages leave of the peer, the invariant of the sessions that the
  main loop can reach, and the end of every turn.
\<close>

section \<open>What the capabilities change\<close>

definition core :: "bgp_peer \<Rightarrow> bgp_peer" where
  "core p = p\<lparr>bp_cap_mp := False, bp_cap_4as := \<lparr>is_used = False, as4 = 0\<rparr>, bp_cap_add_paths := zero_caps\<rparr>"

lemma core_simps [simp]:
  "core (p\<lparr>bp_cap_mp := b\<rparr>) = core p" "core (p\<lparr>bp_cap_4as := c\<rparr>) = core p"
  "core (p\<lparr>bp_cap_add_paths := a\<rparr>) = core p" "core (add_path_set afi safi sr p) = core p"
  by (simp_all add: core_def add_path_set_def Let_def)

lemma core_eqD:
  assumes "core p = core q"
  shows "bp_type p = bp_type q" "bp_status p = bp_status q" "bp_version p = bp_version q"
    "bp_ht p = bp_ht q" "bp_msglen p = bp_msglen q" "bp_id p = bp_id q" "bp_idx p = bp_idx q"
  using assms by (cases p; cases q; simp add: core_def)+

lemma reply_put_core: "reply_put bs st = Inr st' \<Longrightarrow> o_peer st' = o_peer st"
  by (auto simp: reply_put_def split: if_splits)

lemma reply_copy_core: "reply_copy s n st = Inr st' \<Longrightarrow> o_peer st' = o_peer st"
  by (auto simp: reply_copy_def fault_simps dest: reply_put_core)

lemma add_paths_loop_core:
  "add_paths_loop online s cap_len i at st = Inr st' \<Longrightarrow> core (o_peer st') = core (o_peer st)"
proof (induction "cap_len - i" arbitrary: online i at st rule: less_induct)
  case less
  show ?case
  proof (cases "cap_len \<le> i")
    case True
    then show ?thesis using less.prems by (simp add: add_paths_loop.simps)
  next
    case False
    then have IH: "add_paths_loop online s cap_len (i + 4) at st = Inr st' \<Longrightarrow> core (o_peer st') = core (o_peer st)"
      for online at st by (intro less.hyps) auto
    from False less.prems show ?thesis
      by (subst (asm) add_paths_loop.simps)
        (auto simp: fault_simps Let_def split: if_splits option.splits dest!: IH reply_put_core)
  qed
qed

lemma capability_core:
  "capability cfg online s ct cl st = Inr (ok, st') \<Longrightarrow> core (o_peer st') = core (o_peer st)"
  by (auto simp: capability_def Let_def fault_simps cap_multiprotocol_def cap_as4_def cap_add_paths_def
      cap_route_refresh_def cap_ext_next_hop_def split: if_splits dest!: reply_copy_core add_paths_loop_core)

lemma cap_loop_core:
  "cap_loop cfg online s n st = Inr (ok, st') \<Longrightarrow> core (o_peer st') = core (o_peer st)"
proof (induction "nat n" arbitrary: s n st rule: less_induct)
  case less
  show ?case
  proof (cases "n \<le> 0")
    case True
    then show ?thesis using less.prems by (simp add: cap_loop.simps)
  next
    case False
    then have IH: "cap_loop cfg online s (n - (uint (k :: u8) + 2)) st = Inr (ok, st') \<Longrightarrow>
        core (o_peer st') = core (o_peer st)" for s k st by (intro less.hyps) auto
    from False less.prems show ?thesis
      by (subst (asm) cap_loop.simps)
        (auto simp: fault_simps split: if_splits list.splits dest!: IH capability_core)
  qed
qed

lemma close_option_core [simp]: "o_peer (close_option base st) = o_peer st"
  by (simp add: close_option_def)

lemma opt_loop_core:
  "opt_loop cfg online s n st = Inr (ok, st') \<Longrightarrow> core (o_peer st') = core (o_peer st)"
proof (induction "length s" arbitrary: s n st rule: less_induct)
  case less
  show ?case
  proof (cases "n = 0")
    case True
    then show ?thesis using less.prems by (simp add: opt_loop.simps)
  next
    case False
    have IH: "s = a # b # s2 \<Longrightarrow> opt_loop cfg online (drop k s2) m st = Inr (ok, st') \<Longrightarrow>
        core (o_peer st') = core (o_peer st)" for a b s2 k m st by (intro less.hyps) auto
    from False less.prems show ?thesis
      by (subst (asm) opt_loop.simps)
        (auto simp: fault_simps split: if_splits list.splits dest!: IH cap_loop_core reply_put_core)
  qed
qed

section \<open>What a message changes\<close>

lemma open_options_core:
  "open_options cfg online pkt n st = Inr (ok, st') \<Longrightarrow> core (o_peer st') = core (o_peer st)"
  by (auto simp: open_options_def fault_simps split: if_splits dest: opt_loop_core)

lemma open_reply_core:
  assumes "open_reply cfg junk now st = (peer, m)"
  shows "bp_type peer = bp_type (o_peer st)" "bp_status peer = bp_status (o_peer st)"
    "bp_version peer = bp_version (o_peer st)" "bp_ht peer = bp_ht (o_peer st)"
    "bp_msglen peer = bp_msglen (o_peer st)" "bp_id peer = bp_id (o_peer st)"
  using assms by (auto simp: open_reply_def Let_def split: option.splits)

text \<open>What holds of a peer between the turns of the main loop.\<close>

definition peer_inv :: "bgp_peer \<Rightarrow> bool" where
  "peer_inv p \<longleftrightarrow> bp_type p < FUNC_TYPE_MAX \<and> bp_status p \<in> {Idle, Active, Established}
     \<and> (bp_status p = Established \<longrightarrow> bp_version p = BGP_VERSION4 \<and> 5 \<le> bp_ht p
          \<and> fst (bp_id p) = AF_INET \<and> length (snd (bp_id p)) = 4)"

lemma block_length: "block s i n = Inr bs \<Longrightarrow> length bs = n"
  by (auto simp: block_def split: if_splits)

lemma max5 [simp]: "5 \<le> max 5 (w :: u16)"
  by simp

text \<open>A peer that a message may leave: as it was, reset by an OPEN in error, or opened.\<close>

definition opened :: "bgp_peer \<Rightarrow> bgp_peer \<Rightarrow> bool" where
  "opened peer q \<longleftrightarrow> bp_type q = bp_type peer \<and> bp_status q = Active \<and> bp_msglen q = bp_msglen peer
     \<and> bp_version q = BGP_VERSION4 \<and> 5 \<le> bp_ht q \<and> fst (bp_id q) = AF_INET \<and> length (snd (bp_id q)) = 4"

lemma open_options_opened:
  assumes "open_options cfg online pkt n st = Inr (ok, st')" and "opened peer (o_peer st)"
  shows "opened peer (o_peer st')"
  using assms(2) core_eqD [OF open_options_core [OF assms(1)]] by (simp add: opened_def)

lemma open_reply_opened:
  assumes "open_reply cfg junk now st = (q, m)" and "opened peer (o_peer st)"
  shows "opened peer q"
  using assms(2) open_reply_core [OF assms(1)] by (simp add: opened_def)

lemma opened_set [simp]: "opened peer (q\<lparr>bp_as := a\<rparr>) = opened peer q"
  by (simp add: opened_def)

definition open_result :: "bgp_peer \<Rightarrow> bgp_peer \<Rightarrow> bool" where
  "open_result peer peer' \<longleftrightarrow> peer' = peer \<or> peer' = peer\<lparr>bp_status := Active\<rparr> \<or> opened peer peer'
    \<or> (\<exists>q. opened peer q \<and> peer' = q\<lparr>bp_status := Established\<rparr>)"

lemma open_resultI:
  "open_result peer peer" "open_result peer (peer\<lparr>bp_status := Active\<rparr>)"
  "opened peer q \<Longrightarrow> open_result peer q" "opened peer q \<Longrightarrow> open_result peer (q\<lparr>bp_status := Established\<rparr>)"
  by (auto simp: open_result_def)

lemma parse_open_post:
  "post (\<lambda>(ret, peer', out). open_result peer peer') (bgp_parse_open_msg cfg peers junk peer pkt now online)"
  unfolding bgp_parse_open_msg_def Let_def
proof (intro post_intros, goal_cases)
  case (4 version remote_as hold rid optlen)
  then show ?case by (auto intro!: open_resultI simp: opened_def dest: block_length)
next
  case (5 version remote_as hold rid optlen r)
  let ?p = "peer\<lparr>bp_status := Active, bp_ht := max 5 hold, bp_id := (AF_INET, rid), bp_version := BGP_VERSION4\<rparr>"
  obtain ok st where r: "r = (ok, st)" by (cases r)
  have "opened peer ?p" using 5 block_length by (auto simp: opened_def)
  with 5 r have st: "opened peer (o_peer st)" by (auto dest: open_options_opened)
  then have "opened peer q" if "open_reply cfg junk now (st\<lparr>o_peer := (o_peer st)\<lparr>bp_as := asn\<rparr>\<rparr>) = (q, m)" for q m asn
    using that by (auto dest: open_reply_opened)
  then show ?case using st r by (auto intro: open_resultI split: option.splits prod.splits)
qed (auto intro: open_resultI)

lemma open_result_inv:
  "open_result peer peer' \<Longrightarrow> peer_inv peer \<Longrightarrow> peer_inv peer' \<and> bp_msglen peer' = bp_msglen peer"
  by (auto simp: open_result_def peer_inv_def opened_def)

lemma set_eor_inv [simp]:
  "peer_inv (set_eor e p) = peer_inv p" "bp_msglen (set_eor e p) = bp_msglen p"
  by (auto simp: set_eor_def peer_inv_def split: option.split prod.split)

lemma update_post:
  "post (\<lambda>(ret, peer', db', n). \<exists>e. peer' = set_eor e peer)
     (bgp_parse_update_msg cfg bms stray ls peer pkt db cnt)"
proof -
  have same: "\<exists>e. peer = set_eor e peer" by (rule exI [of _ None]) (simp add: set_eor_def)
  show ?thesis unfolding bgp_parse_update_msg_def Let_def
    by (intro post_intros) (auto simp: same intro!: post_intros split: option.split prod.split)
qed

text \<open>A message keeps the invariant; when the loop goes on, the length is that of the header.\<close>

definition kept_by :: "u8 list \<Rightarrow> session \<Rightarrow> verdict \<times> nat \<times> session \<Rightarrow> bool" where
  "kept_by pkt s r \<longleftrightarrow> (case r of (v, n, s') \<Rightarrow> peer_inv (ss_peer s') \<and> bp_msglen (ss_peer s') = bp_msglen (ss_peer s)
     \<and> v \<noteq> Return 0 \<and> (v = Go_on \<longrightarrow> (\<exists>w. peek16 pkt 16 = Inr w \<and> n = unat w)))"

lemma msg_open_post:
  "peer_inv (ss_peer s) \<Longrightarrow> post (\<lambda>(v, s'). peer_inv (ss_peer s') \<and> bp_msglen (ss_peer s') = bp_msglen (ss_peer s) \<and> v \<noteq> Return 0)
     (msg_open d now online pkt s)"
  unfolding msg_open_def Let_def
  by (intro post_intros) (auto dest!: post_Inr [OF _ parse_open_post] open_result_inv simp: notify_consts)

lemma msg_update_post:
  "peer_inv (ss_peer s) \<Longrightarrow> post (\<lambda>(v, s'). peer_inv (ss_peer s') \<and> bp_msglen (ss_peer s') = bp_msglen (ss_peer s) \<and> v \<noteq> Return 0)
     (msg_update d pkt s)"
  unfolding msg_update_def Let_def
  by (intro post_intros) (auto dest!: post_Inr [OF _ update_post] simp: notify_consts)

lemma msg_keepalive_inv:
  "peer_inv (ss_peer s) \<Longrightarrow> peer_inv (ss_peer (msg_keepalive now online s))
    \<and> bp_msglen (ss_peer (msg_keepalive now online s)) = bp_msglen (ss_peer s)"
  by (auto simp: msg_keepalive_def Let_def peer_inv_def bgp_status_ord)

lemma dispatch_post:
  assumes inv: "peer_inv (ss_peer s)"
  shows "post (\<lambda>(v, s'). peer_inv (ss_peer s') \<and> bp_msglen (ss_peer s') = bp_msglen (ss_peer s) \<and> v \<noteq> Return 0)
      (if type = BGP_OPEN then msg_open d now online pkt s
       else if type = BGP_NOTIFICATION then msg_notification pkt s
       else if type = BGP_KEEPALIVE then Inr (Go_on, msg_keepalive now online s)
       else if type = BGP_UPDATE then msg_update d pkt s
       else if type = BGP_ROUTE_REFRESH then Inr (Go_on, s)
       else Inr (Return BGP_NOTIFY_HEADER_ERR, s))"
  using inv msg_keepalive_inv
  by (auto simp: msg_notification_def notify_consts ERR_def intro!: post_intros msg_open_post msg_update_post)

lemma msg_step_post:
  assumes inv: "peer_inv (ss_peer s)"
  shows "post (kept_by pkt s) (msg_step d now online first pkt s)"
  unfolding msg_step_def Let_def
  apply (rule post_if, use inv in \<open>simp add: kept_by_def notify_consts\<close>)
  apply (rule post_fbind, rule post_if, use inv in \<open>simp add: kept_by_def notify_consts\<close>)
  apply (rule post_fbind, rule post_if, use inv in \<open>simp add: kept_by_def notify_consts\<close>)
  apply (rule post_fbind, rule post_bind [OF dispatch_post [OF inv]])
  apply (auto simp: kept_by_def)
  done

section \<open>The buffer between turns\<close>

definition buf_ok :: "bgp_peer_buf \<Rightarrow> bool" where
  "buf_ok b \<longleftrightarrow> pb_exp_len b \<noteq> 0 \<longrightarrow> BGP_HEADER_SIZE \<le> pb_cur_len b \<and> pb_cur_len b \<le> length (pb_base b)
     \<and> (\<exists>w. peek16 (pb_base b) 16 = Inr w \<and> unat w = pb_exp_len b)"

lemma recv_into_result:
  "recv_into b asked data = Inr (n, b') \<Longrightarrow> pb_cur_len b' = pb_cur_len b \<and> pb_exp_len b' = pb_exp_len b
    \<and> length (pb_base b') = length (pb_base b) \<and> pb_cur_len b + n \<le> length (pb_base b)
    \<and> take (pb_cur_len b) (pb_base b') = take (pb_cur_len b) (pb_base b)"
  by (auto simp: recv_into_def Let_def split: if_splits)

definition turn_result :: "outcome \<times> bgp_peer_buf \<times> nat \<Rightarrow> bool" where
  "turn_result r \<longleftrightarrow> (case r of (oc, b, l) \<Rightarrow> buf_ok b
     \<and> (if oc = Message then l = 0 \<or> (\<exists>w. peek16 (pb_base b) 16 = Inr w \<and> unat w = l) else l = 0))"

lemma peek16_prefix:
  assumes "take n s = take n t" "18 \<le> n" "n \<le> length s" "n \<le> length t"
  shows "peek16 s 16 = peek16 t 16"
proof -
  have "s ! i = t ! i" if "i < n" for i using assms that by (metis nth_take)
  then show ?thesis using assms by (simp add: peek16_nth)
qed

lemma recv_header_post:
  assumes e: "pb_exp_len b = 0"
  shows "post (\<lambda>(oc, b', l). l = 0 \<and> pb_exp_len b' = 0
      \<or> oc = Message \<and> (pb_exp_len b' = 0 \<and> turn_result (oc, b', l) \<or> l = 0 \<and> buf_ok b'))
    (recv_header b 0 data)"
  unfolding recv_header_def Let_def
proof (rule post_bind [where R = "\<lambda>(n, b'). pb_exp_len b' = 0 \<and> pb_cur_len b' + n \<le> length (pb_base b')"])
  show "post (\<lambda>(n, b'). pb_exp_len b' = 0 \<and> pb_cur_len b' + n \<le> length (pb_base b'))
      (recv_into b (BGP_HEADER_SIZE - pb_cur_len b) data)"
    using e recv_into_result by (cases "recv_into b (BGP_HEADER_SIZE - pb_cur_len b) data") fastforce+
qed (auto intro!: post_intros simp: turn_result_def buf_ok_def)

lemma recv_body_post:
  assumes ok: "buf_ok b" and e: "pb_exp_len b \<noteq> 0"
  shows "post turn_result (recv_body b 0 data)"
  unfolding recv_body_def Let_def
proof (rule post_fbind, clarify)
  fix n b'
  assume "recv_into b (nat ((int (pb_exp_len b) - int (pb_cur_len b)) mod 2 ^ 32)) data = Inr (n, b')"
  note r = recv_into_result [OF this]
  have "peek16 (pb_base b') 16 = peek16 (pb_base b) 16"
    using ok e r by (intro peek16_prefix [of "pb_cur_len b"]) (auto simp: buf_ok_def msg_consts)
  then show "post turn_result (if n = 0 then Inr (Reset, b', 0)
      else if pb_cur_len (b'\<lparr>pb_cur_len := pb_cur_len b' + n\<rparr>) = pb_exp_len (b'\<lparr>pb_cur_len := pb_cur_len b' + n\<rparr>)
      then Inr (Message, b'\<lparr>pb_cur_len := pb_cur_len b' + n\<rparr>\<lparr>pb_cur_len := 0, pb_exp_len := 0\<rparr>, pb_exp_len (b'\<lparr>pb_cur_len := pb_cur_len b' + n\<rparr>))
      else Inr (Again, b'\<lparr>pb_cur_len := pb_cur_len b' + n\<rparr>, 0))"
    using ok e r by (auto simp: turn_result_def buf_ok_def)
qed

lemma recv_turn_post:
  assumes ok: "buf_ok b"
  shows "post turn_result (recv_turn b 0 data1 data2)"
proof (cases "pb_exp_len b = 0")
  case False
  then have "recv_turn b 0 data1 data2 = recv_body b 0 data2" by (simp add: recv_turn_def)
  then show ?thesis using recv_body_post [OF ok False] by simp
next
  case True
  then have "recv_turn b 0 data1 data2 = fbind (recv_header b 0 data1) (\<lambda>(o1, b, l).
      if o1 = Message \<and> pb_exp_len b \<noteq> 0 then recv_body b l data2 else Inr (o1, b, l))"
    by (simp add: recv_turn_def)
  moreover have "post turn_result \<dots>"
  proof (rule post_bind [OF recv_header_post [OF True]], clarify)
    fix oc b' l
    assume "l = 0 \<and> pb_exp_len b' = 0
      \<or> oc = Message \<and> (pb_exp_len b' = 0 \<and> turn_result (oc, b', l) \<or> l = 0 \<and> buf_ok b')"
    then show "post turn_result (if oc = Message \<and> pb_exp_len b' \<noteq> 0 then recv_body b' l data2 else Inr (oc, b', l))"
      using recv_body_post [of b' data2] by (auto simp: turn_result_def buf_ok_def)
  qed
  ultimately show ?thesis by simp
qed

section \<open>The loop over the messages\<close>

lemma msg_loop_ends:
  assumes "peer_inv (ss_peer s)" and len: "bp_msglen (ss_peer s) = 0 \<or> (\<exists>w. peek16 pkt 16 = Inr w \<and> unat w = bp_msglen (ss_peer s))"
  shows "\<exists>r. msg_loop 1 d now online first pkt s = Some r
    \<and> post (\<lambda>(ret, s'). peer_inv (ss_peer s') \<and> (ret = 0 \<longrightarrow> bp_msglen (ss_peer s') = 0)) r"
proof (cases "bp_msglen (ss_peer s) = 0")
  case True
  then show ?thesis using assms(1) by simp
next
  case False
  then obtain w where w: "peek16 pkt 16 = Inr w" "unat w = bp_msglen (ss_peer s)" using len by auto
  note step = msg_step_post [OF assms(1), of pkt d now online first]
  show ?thesis
  proof (cases "msg_step d now online first pkt s")
    case (Inl e)
    then show ?thesis using False by simp
  next
    case (Inr r)
    obtain v n s' where r: "r = (v, n, s')" by (cases r)
    show ?thesis
    proof (cases v)
      case (Return c)
      with step Inr r have "c \<noteq> 0" by (simp add: kept_by_def)
      then show ?thesis using False Inr r step Return by (simp add: kept_by_def)
    next
      case Go_on
      with step Inr r w have "peer_inv (ss_peer s')" "bp_msglen (ss_peer s') = n" by (simp_all add: kept_by_def)
      then show ?thesis using False Inr r Go_on by (simp add: peer_inv_def)
    qed
  qed
qed

section \<open>Turns and sessions\<close>

lemma due_keepalive_simps [simp]:
  "peer_inv (ss_peer (due_keepalive now s)) = peer_inv (ss_peer s)"
  "bp_msglen (ss_peer (due_keepalive now s)) = bp_msglen (ss_peer s)"
  by (simp_all add: due_keepalive_def Let_def peer_inv_def)

definition conn_inv :: "bgp_peer_buf \<times> session \<Rightarrow> bool" where
  "conn_inv c \<longleftrightarrow> (case c of (b, s) \<Rightarrow> buf_ok b \<and> peer_inv (ss_peer s) \<and> bp_msglen (ss_peer s) = 0)"

lemma peer_turn_ends:
  assumes inv: "conn_inv (b, s)"
  shows "\<exists>r. peer_turn 1 d now b data1 data2 s = Some r
    \<and> post (\<lambda>(e, b', s'). peer_inv (ss_peer s') \<and> (e = Wait \<longrightarrow> conn_inv (b', s'))) r"
proof -
  have ok: "buf_ok b" "peer_inv (ss_peer s)" "bp_msglen (ss_peer s) = 0"
    using inv by (simp_all add: conn_inv_def)
  note turn = recv_turn_post [OF ok(1), of data1 data2]
  show ?thesis
  proof (cases "recv_turn b 0 data1 data2")
    case (Inl e)
    then show ?thesis using ok by (simp add: peer_turn_def)
  next
    case (Inr r)
    obtain oc b' l where r: "r = (oc, b', l)" by (cases r)
    with turn Inr have t: "turn_result (oc, b', l)" by simp
    have p: "peer_inv ((ss_peer s)\<lparr>bp_msglen := n\<rparr>)" for n using ok(2) by (simp add: peer_inv_def)
    show ?thesis
    proof (cases oc)
      case Message
      let ?s = "due_keepalive now (s\<lparr>ss_peer := (ss_peer s)\<lparr>bp_msglen := l\<rparr>\<rparr>)"
      from t Message have l: "l = 0 \<or> (\<exists>w. peek16 (pb_base b') 16 = Inr w \<and> unat w = l)" and b': "buf_ok b'"
        by (simp_all add: turn_result_def)
      have inv': "peer_inv (ss_peer ?s)" "bp_msglen (ss_peer ?s) = l" using p by simp_all
      have tm: "peer_ok (Some (ss_peer ?s))" using inv'(1) by (simp add: peer_inv_def)
      have "\<exists>r. msg_loop 1 d now True True (pb_base b') (?s\<lparr>ss_count := 0\<rparr>) = Some r
          \<and> post (\<lambda>(ret, s'). peer_inv (ss_peer s') \<and> (ret = 0 \<longrightarrow> bp_msglen (ss_peer s') = 0)) r"
        using l inv' by (intro msg_loop_ends) auto
      then obtain r' where r': "bgp_parse_msg 1 d now True (pb_base b') ?s = Some r'"
        "post (\<lambda>(ret, s'). peer_inv (ss_peer s') \<and> (ret = 0 \<longrightarrow> bp_msglen (ss_peer s') = 0)) r'"
        using tm by (auto simp: bgp_parse_msg_def simp del: peer_ok_Some msg_loop.simps)
      then have "peer_turn 1 d now b data1 data2 s = Some (fbind r' (\<lambda>(ret, s).
          Inr (if ret = 0 then Wait else if ret < 0 then Close None else Close (Some (u8n (nat ret))), b', s)))"
        using Inr r ok(3) Message by (simp add: peer_turn_def)
      then show ?thesis
        using b' by (auto intro!: post_bind [OF r'(2)] simp: conn_inv_def)
    qed (use t Inr r ok p in \<open>auto simp: peer_turn_def turn_result_def conn_inv_def\<close>)
  qed
qed

text \<open>A connection starts with an empty buffer and a peer that \<open>bgp_peer_init\<close> cleared.\<close>

inductive conn_reach :: "daemon \<Rightarrow> bgp_peer_buf \<times> session \<Rightarrow> bool" for d where
  init: "pb_cur_len b = 0 \<Longrightarrow> pb_exp_len b = 0 \<Longrightarrow> bp_type (ss_peer s) < FUNC_TYPE_MAX \<Longrightarrow>
     bp_status (ss_peer s) = Idle \<Longrightarrow> bp_msglen (ss_peer s) = 0 \<Longrightarrow> conn_reach d (b, s)"
| turn: "conn_reach d (b, s) \<Longrightarrow> peer_turn fuel d now b data1 data2 s = Some (Inr (Wait, b', s')) \<Longrightarrow>
     conn_reach d (b', s')"

lemma msg_loop_more: "msg_loop n d now online first pkt s = Some r \<Longrightarrow> n \<le> m \<Longrightarrow> msg_loop m d now online first pkt s = Some r"
proof (induction n arbitrary: m first pkt s)
  case 0
  then show ?case by (cases m) (auto split: if_splits)
next
  case (Suc n)
  then obtain k where m: "m = Suc k" "n \<le> k" by (cases m) auto
  with Suc.prems Suc.IH [of _ _ _ k] show ?case
    by (auto simp: Let_def split: if_splits sum.splits prod.splits verdict.splits)
qed

lemma peer_turn_more:
  "peer_turn n d now b data1 data2 s = Some r \<Longrightarrow> n \<le> m \<Longrightarrow> peer_turn m d now b data1 data2 s = Some r"
  by (auto simp: peer_turn_def bgp_parse_msg_def Let_def split: sum.splits prod.splits outcome.splits if_splits
      dest: msg_loop_more)

lemma conn_reach_inv: "conn_reach d c \<Longrightarrow> conn_inv c"
proof (induction rule: conn_reach.induct)
  case (init b s)
  then show ?case by (simp add: conn_inv_def buf_ok_def peer_inv_def)
next
  case (turn b s fuel now data1 data2 b' s')
  from peer_turn_ends [OF turn.IH, of d now data1 data2] obtain r where
    r: "peer_turn 1 d now b data1 data2 s = Some r"
    "post (\<lambda>(e, b', s'). peer_inv (ss_peer s') \<and> (e = Wait \<longrightarrow> conn_inv (b', s'))) r" by blast
  have "r = Inr (Wait, b', s')"
    using peer_turn_more [OF r(1), of "max 1 fuel"] peer_turn_more [OF turn(2), of "max 1 fuel"] by simp
  with r(2) show ?case by simp
qed

end
