(* ===== verification/Faults.thy ===== *)
theory Faults
  imports UpdateFacts SessionFacts
begin

text \<open>
  Messages of a peer that lead the code outside of its buffers or to a null pointer. Each lemma is a
  message, or a family of messages, on which the model faults.
\<close>

section \<open>The length of a header\<close>

text \<open>A length below that of the header makes \<open>exp_len - cur_len\<close> wrap: \<open>recv\<close> is told to read up to four
  gigabytes to the rest of a buffer of 100000 octets.\<close>

lemma header_overrun:
  assumes b: "pb_cur_len b = 0" "pb_exp_len b = 0" "length (pb_base b) = BGP_BUFFER_SIZE"
    and h: "length h = BGP_HEADER_SIZE" "take BGP_MARKER_SIZE h = marker"
      "0 < unat (be16 (h ! 16) (h ! 17))" "unat (be16 (h ! 16) (h ! 17)) < BGP_HEADER_SIZE"
    and data: "BGP_BUFFER_SIZE - BGP_HEADER_SIZE < length data" "length data < 2 ^ 31"
  shows "recv_turn b l h data = Inl OutOfBounds"
proof -
  let ?w = "be16 (h ! 16) (h ! 17)"
  let ?b = "b\<lparr>pb_base := h @ drop 19 (pb_base b), pb_cur_len := 19, pb_exp_len := unat ?w\<rparr>"
  have mark: "bgp_marker_check (h @ s) 16 = Inr True" for s
  proof (rule marker_check_all)
    show "\<forall>i < 16. (h @ s) ! i = 0xff"
    proof (intro allI impI)
      fix i :: nat assume i: "i < 16"
      then have "(h @ s) ! i = take 16 h ! i" using h(1) by (simp add: nth_append msg_consts)
      also have "\<dots> = 0xff" using h(2) i by (simp add: marker_def msg_consts)
      finally show "(h @ s) ! i = 0xff" .
    qed
  qed (use h(1) in \<open>simp add: msg_consts\<close>)
  have "peek16 (h @ s) 16 = Inr ?w" for s using h(1) by (simp add: peek16_nth nth_append msg_consts)
  with mark h b have "recv_header b l h = Inr (Message, ?b, l)"
    by (simp add: recv_header_def recv_into_def msg_consts Let_def)
  moreover have "recv_body ?b l data = Inl OutOfBounds"
  proof -
    have w: "int (unat ?w) < 19" using h(4) unfolding msg_consts by linarith
    have m: "(int (unat ?w) - 19) mod 2 ^ 32 = int (unat ?w) - 19 + 2 ^ 32"
      by (subst mod_add_self2 [symmetric], rule mod_pos_pos_trivial) (use w in simp_all)
    have "length data \<le> nat ((int (unat ?w) - 19) mod 2 ^ 32)"
      using data(2) unfolding m by (simp add: le_nat_iff add_increasing2)
    then show ?thesis using data(1) b(3) h(1) by (simp add: recv_body_def recv_into_def msg_consts Let_def)
  qed
  ultimately show ?thesis using b(2) h(3) by (simp add: recv_turn_def)
qed

section \<open>OPEN\<close>

text \<open>The length of an option is compared with what is left before the two octets of its head are taken
  off, and the counter is an octet: the options of a message that ends behind such a head are read on
  behind it.\<close>

lemma open_option_overrun:
  assumes peer: "peer_ok (Some peer)" and online: "online \<Longrightarrow> bp_status peer < OpenSent"
    and check: "disable_router_id_check cfg" and x: "x = 1 \<or> x = 2"
    and as: "length asn = 2" and ht: "length hold = 2" and rid: "length rid = 4"
  shows "bgp_parse_open_msg cfg peers junk peer
      (marker @ [0, 31, BGP_OPEN, BGP_VERSION4] @ asn @ hold @ rid @ [2, type, x]) now online = Inl OutOfBounds"
proof -
  obtain a0 a1 h0 h1 r0 r1 r2 r3 where l: "asn = [a0, a1]" "hold = [h0, h1]" "rid = [r0, r1, r2, r3]"
    using as ht rid by (auto simp: numeral_eq_Suc length_Suc_conv)
  let ?pkt = "marker @ [0, 31, BGP_OPEN, BGP_VERSION4] @ asn @ hold @ rid @ [2, type, x]"
  have m: "length marker = 16" by (simp add: marker_def msg_consts)
  have p: "peek ?pkt 19 = Inr BGP_VERSION4" "peek16 ?pkt 20 = Inr (be16 a0 a1)" "peek16 ?pkt 22 = Inr (be16 h0 h1)"
    "block ?pkt 24 4 = Inr rid" "peek ?pkt 28 = Inr 2" "peek16 ?pkt 16 = Inr (be16 0 31)"
    "drop 29 ?pkt = [type, x]"
    using m by (simp_all add: l peek_def peek16_def block_def nth_append)
  have cap: "cap_loop cfg online [] (int (unat x)) st = Inl OutOfBounds" for st
    using x by (auto simp: cap_loop.simps)
  have opt: "opt_loop cfg online [type, x] 2 (\<lparr>o_peer = q, o_remote_as4 = 0, o_as4_at = None, o_reply = []\<rparr>) = Inl OutOfBounds" for q
    using x cap by (auto simp: opt_loop.simps reply_put_def msg_consts)
  show ?thesis
    using peer online check p(1-5) p(6,7) opt
    by (simp add: bgp_parse_open_msg_def open_options_def be16_def msg_consts not_le)
qed

section \<open>AS4\_PATH without AS\_PATH\<close>

lemma munge_without_path:
  assumes "\<not> is_used (bp_cap_4as peer)" "at_aspath x = None" "heap (ashash D) a = Some p4" "peer_ok (Some peer)"
  shows "bgp_attr_munge_as4path peer D x a = Inl NullDeref"
  using assms by (simp add: bgp_attr_munge_as4path_def deref_def aspath_reconcile_as4_def aspath_unintern_def
      obj_unintern_def)

text \<open>A peer with two-octet AS numbers that sends an AS4\_PATH and nothing else stops the daemon.\<close>

lemma as4_path_alone:
  assumes bal: "attr_bal cfg (Some peer) (s_db s, R)" and attr: "s_attr s = attr_zero"
    and peer: "peer_ok (Some peer)" and as2: "\<not> is_used (bp_cap_4as peer)"
    and path: "even (length path)" "length path < 256"
  shows "bgp_attr_parse cfg peer ([0xc0, BGP_ATTR_AS4_PATH, u8n (length path)] @ path @ behind)
      (3 + length path) s = Inl NullDeref"
proof -
  let ?n = "length path" and ?p = "path @ behind"
  let ?ptr = "[0xc0, BGP_ATTR_AS4_PATH, u8n ?n] @ ?p" and ?s = "s\<lparr>s_as4_path := None\<rparr>"
  have inv: "pool_inv aspath_ops aspath_good (ashash (s_db s))"
    using balancedD(1) [OF attr_balD(1) [OF bal]] .
  have len: "?n \<le> length ?p" by simp
  obtain a P' where a: "aspath_parse (Some peer) (ashash (s_db s)) ?p ?n True = Inr (Some a, P')"
      "pool_step aspath_ops aspath_good (Some peer) (ashash (s_db s), h_as R) (P', add_mset a (h_as R))"
    using aspath_parse_step [OF inv peer len, of True "h_as R"] path(1) peer by auto
  have "attr_bal cfg (Some peer) ((s_db s)\<lparr>ashash := P'\<rparr>, R\<lparr>h_as := add_mset a (h_as R)\<rparr>)"
    using as_path_step [OF bal peer a(2)] .
  from balancedD(3) [OF attr_balD(1) [OF this], of a] obtain p4 where p4: "heap P' a = Some p4" by auto
  have "attr_head ?ptr = Inr (BGP_ATTR_AS4_PATH, ?n, 3)"
    using path(2) by (simp add: attr_head_def peek_def BGP_ATTR_FLAG_EXTLEN_def unat_u8n)
  moreover have "attr_switch cfg peer BGP_ATTR_AS4_PATH ?p ?n ?s
      = Inr (SUCCESS, ?s\<lparr>s_as4_path := Some a, s_db := (s_db s)\<lparr>ashash := P'\<rparr>\<rparr>)"
    using a(1) by (simp add: attr_switch_def bgp_attr_parse_as4path_def attr_consts)
  ultimately have "attr_loop cfg peer ?ptr (int (3 + ?n)) ?s
      = Inr (SUCCESS, ?s\<lparr>s_as4_path := Some a, s_db := (s_db s)\<lparr>ashash := P'\<rparr>\<rparr>)"
    by (simp add: attr_loop.simps BGP_ATTR_MIN_LEN_def SUCCESS_def)
  then show ?thesis
    using peer as2 attr p4 munge_without_path [of peer attr_zero "(s_db s)\<lparr>ashash := P'\<rparr>" a]
    by (simp add: bgp_attr_parse_def SUCCESS_def attr_zero_def)
qed

section \<open>Prefixes behind their section\<close>

text \<open>The variable \<open>end\<close> is what is left of the section only for its first prefix. The last prefix of a
  section may lack octets: they are taken from behind the section, and the prefix is announced.\<close>

lemma nlri_reads_behind:
  assumes x: "wire_ok AFI_IP (pid, n, bs)" and y: "wire_ok AFI_IP (pid', n', cs @ ds)"
    and cap: "\<not> cap_of peer AFI_IP SAFI_UNICAST" and peer: "peer_ok (Some peer)"
    and room: "length ds \<le> length bs"
  shows "bgp_nlri_parse cfg bms stray peer upd
      \<lparr>nl_afi = AFI_IP, nl_safi = SAFI_UNICAST, nl_nlri = n # bs @ n' # cs @ ds @ behind,
       nl_length = 2 + length bs + length cs\<rparr> st
    = nlri_turns cfg bms stray peer AFI_IP [(pid, n, bs), (pid', n', cs @ ds)] st"
proof -
  have "nlri_loop cfg bms stray peer upd AFI_IP SAFI_UNICAST
      (wire_section (cap_of peer AFI_IP SAFI_UNICAST) [(pid, n, bs), (pid', n', cs @ ds)] @ behind)
      (int (2 + length bs + length cs)) (int (2 + length bs + length cs)) 0 st
    = nlri_turns cfg bms stray peer AFI_IP [(pid, n, bs), (pid', n', cs @ ds)] st"
    using x y room by (intro nlri_loop_turns) (auto simp: cap)
  then show ?thesis using peer by (simp add: bgp_nlri_parse_def cap)
qed

section \<open>NOTIFICATION\<close>

text \<open>The octet of the text's length is not counted in \<open>rem_len\<close>: a text as long as the rest of the message
  is read one octet too far.\<close>

lemma notification_overrun:
  assumes pkt: "length pkt = BGP_MIN_NOTIFICATION_MSG_SIZE + 1 + n" "bp_msglen peer = length pkt"
    and codes: "pkt ! 19 = BGP_NOTIFY_CEASE" "pkt ! 20 = BGP_NOTIFY_CEASE_ADMIN_SHUTDOWN"
    and n: "pkt ! 21 = u8n (n + 1)" "n < 255" "n + 1 < size_of_text"
  shows "bgp_parse_notification_msg peer pkt size_of_text = Inl OutOfBounds"
  using assms by (simp add: bgp_parse_notification_msg_def msg_consts peek_def block_def unat_u8n)

text \<open>With a text that just fits the buffer, its last octet is written behind.\<close>

lemma notification_write_overrun:
  assumes "length text \<le> BGP_NOTIFY_CEASE_SM_LEN"
  shows "bgp_write_notification_msg (BGP_MIN_NOTIFICATION_MSG_SIZE + length text) maj mnr (Some text) = Inl OutOfBounds"
  using assms by (simp add: bgp_write_notification_msg_def msg_consts)

text \<open>The octet of the option length of an OPEN without capabilities is whatever the buffer holds.\<close>

lemma open_optlen_unset:
  assumes "unat (bp_myas peer) \<le> unat BGP_AS_MAX"
  shows "\<exists>m. bgp_write_open_msg cfg junk [] peer None = Some m \<and> last m = junk"
  using assms
  by (simp add: bgp_write_open_msg_def word_less_nat_alt)

end
