(* ===== verification/BgpPeer.thy ===== *)
theory BgpPeer
  imports BgpSession Jhash
begin

text \<open>
  What the daemon does with a peer beside its messages (bgp\_util.c, addr.c): creating and closing it,
  with the deletion of all its entries from the routing tables; the cache of peers that the looking
  glass searches; the batches by which new peers are admitted.
\<close>

section \<open>Addresses of peers\<close>

definition host_addr_cmp :: "host_addr \<Rightarrow> host_addr \<Rightarrow> int" where
  "host_addr_cmp a1 a2 =
     (if fst a1 = AF_INET \<and> fst a2 = AF_INET
      then if le32 (snd a1) = le32 (snd a2) then 0
           else if le32 (snd a2) < le32 (snd a1) then 1 else -1
      else if fst a1 = AF_INET6 \<and> fst a2 = AF_INET6 then ip6_addr_cmp (snd a1) (snd a2)
      else if fst a1 = AF_INET \<and> fst a2 = AF_INET6 then ip6_addr_cmp (snd a2) (v4_mapped (snd a1))
      else if fst a1 = AF_INET6 \<and> fst a2 = AF_INET then ip6_addr_cmp (snd a1) (v4_mapped (snd a2))
      else -1)"

definition hash_modulo :: "u32 \<Rightarrow> nat \<Rightarrow> nat run" where
  "hash_modulo v n = (if n = 0 then Inl DivByZero else Inr (unat v mod n))"

definition addr_hash :: "host_addr \<Rightarrow> nat \<Rightarrow> nat run" where
  "addr_hash ha n = hash_modulo
     (if fst ha = AF_INET then jhash_1word (le32 (snd ha)) 0
      else if fst ha = AF_INET6
        then jhash_3words (le32 (drop 4 (snd ha))) (le32 (drop 8 (snd ha))) (le32 (drop 12 (snd ha))) 0
      else 0) n"

definition addr_port_hash :: "host_addr \<Rightarrow> u16 \<Rightarrow> nat \<Rightarrow> nat run" where
  "addr_port_hash ha port n = hash_modulo
     (if fst ha = AF_INET then jhash_2words (le32 (snd ha)) (ucast port) 0
      else if fst ha = AF_INET6
        then jhash_3words (ucast port) (le32 (drop 8 (snd ha))) (le32 (drop 12 (snd ha))) 0
      else 0) n"

section \<open>The cache of peers\<close>

text \<open>
  Two arrays of lists of peers are kept, one to be searched by address and one by address and port. Each
  function takes the array as its argument and then works on the global \<open>peers_cache\<close> instead. A
  pointer to a peer is the index of the peer.
\<close>

record peer_caches =
  peers_cache :: "nat list list"
  peers_port_cache :: "nat list list"

datatype which_cache = By_addr | By_port

definition bgp_peer_cache_init :: "nat \<Rightarrow> nat list list" where
  "bgp_peer_cache_init buckets = replicate buckets []"

definition bgp_peer_cache_insert :: "which_cache \<Rightarrow> nat \<Rightarrow> nat \<Rightarrow> peer_caches \<Rightarrow> peer_caches run" where
  "bgp_peer_cache_insert cache bucket peer s =
     (if bucket < length (peers_cache s)
      then Inr (s\<lparr>peers_cache := (peers_cache s)[bucket := peers_cache s ! bucket @ [peer]]\<rparr>)
      else Inl OutOfBounds)"

text \<open>The result is \<open>SUCCESS\<close> when the peer was found; \<open>remove1\<close> takes out its first occurrence.\<close>

definition bgp_peer_cache_delete ::
  "which_cache \<Rightarrow> nat \<Rightarrow> nat \<Rightarrow> peer_caches \<Rightarrow> (int \<times> peer_caches) run" where
  "bgp_peer_cache_delete cache bucket peer s =
     (if bucket < length (peers_cache s)
      then Inr (if peer \<in> set (peers_cache s ! bucket) then SUCCESS else ERR,
                s\<lparr>peers_cache := (peers_cache s)[bucket := remove1 peer (peers_cache s ! bucket)]\<rparr>)
      else Inl OutOfBounds)"

fun cache_search_loop :: "bgp_peer list \<Rightarrow> host_addr \<Rightarrow> u16 \<Rightarrow> nat list \<Rightarrow> nat option run" where
  "cache_search_loop peers ha port [] = Inr None"
| "cache_search_loop peers ha port (i # is) =
     (if length peers \<le> i then Inl OutOfBounds
      else if port \<noteq> 0 \<and> bp_tcp_port (peers ! i) \<noteq> port then cache_search_loop peers ha port is
      else if host_addr_cmp (bp_addr (peers ! i)) ha = 0 then Inr (Some i)
      else cache_search_loop peers ha port is)"

definition bgp_peer_cache_search ::
  "bgp_peer list \<Rightarrow> which_cache \<Rightarrow> nat \<Rightarrow> host_addr \<Rightarrow> u16 \<Rightarrow> peer_caches \<Rightarrow> nat option run" where
  "bgp_peer_cache_search peers cache bucket ha port s =
     (if bucket < length (peers_cache s) then cache_search_loop peers ha port (peers_cache s ! bucket)
      else Inl OutOfBounds)"

section \<open>Batches\<close>

text \<open>The pointer to a batch is an option; \<open>TRUE\<close> is 1. The counters are \<open>int\<close>s and the stamp is a time.\<close>

record bgp_peer_batch =
  bb_num :: int
  bb_num_current :: int
  bb_base_stamp :: int
  bb_interval :: int

definition bgp_batch_init :: "int \<Rightarrow> int \<Rightarrow> bgp_peer_batch" where
  "bgp_batch_init n i = \<lparr>bb_num = n, bb_num_current = 0, bb_base_stamp = 0, bb_interval = i\<rparr>"

definition bgp_batch_reset :: "int \<Rightarrow> bgp_peer_batch \<Rightarrow> bgp_peer_batch" where
  "bgp_batch_reset now bp = bp\<lparr>bb_num_current := bb_num bp, bb_base_stamp := now\<rparr>"

definition of_test :: "bool \<Rightarrow> int" where
  "of_test b = (if b then 1 else 0)"

definition bgp_batch_is_not_empty :: "bgp_peer_batch option \<Rightarrow> int" where
  "bgp_batch_is_not_empty bp = (case bp of None \<Rightarrow> ERR | Some b \<Rightarrow> of_test (bb_num_current b \<noteq> 0))"

definition bgp_batch_is_expired :: "int \<Rightarrow> bgp_peer_batch option \<Rightarrow> int" where
  "bgp_batch_is_expired now bp =
     (case bp of None \<Rightarrow> ERR | Some b \<Rightarrow> of_test (bb_base_stamp b + bb_interval b < now))"

definition bgp_batch_is_enabled :: "bgp_peer_batch option \<Rightarrow> int" where
  "bgp_batch_is_enabled bp = (case bp of None \<Rightarrow> ERR | Some b \<Rightarrow> of_test (bb_num b \<noteq> 0))"

definition bgp_batch_is_admitted :: "int \<Rightarrow> bgp_peer_batch option \<Rightarrow> int" where
  "bgp_batch_is_admitted now bp =
     (case bp of None \<Rightarrow> ERR | Some b \<Rightarrow>
        of_test (bgp_batch_is_not_empty bp \<noteq> 0 \<or> bgp_batch_is_expired now bp \<noteq> 0))"

definition bgp_batch_increase_counter :: "bgp_peer_batch \<Rightarrow> bgp_peer_batch" where
  "bgp_batch_increase_counter bp = bp\<lparr>bb_num_current := bb_num_current bp + 1\<rparr>"

definition bgp_batch_decrease_counter :: "bgp_peer_batch \<Rightarrow> bgp_peer_batch" where
  "bgp_batch_decrease_counter bp = bp\<lparr>bb_num_current := bb_num_current bp - 1\<rparr>"

definition bgp_batch_rollback :: "bgp_peer_batch option \<Rightarrow> bgp_peer_batch option" where
  "bgp_batch_rollback bp =
     (case bp of None \<Rightarrow> None | Some b \<Rightarrow>
        if bgp_batch_is_enabled bp \<noteq> 0
        then let b = bgp_batch_increase_counter b
             in Some (if bb_num_current b = bb_num b then bgp_batch_init (bb_num b) (bb_interval b) else b)
        else Some b)"

section \<open>Deleting the entries of a peer\<close>

text \<open>
  One chain: the next entry is saved before the current one is freed. \<open>i\<close> is where the current entry is
  in what is left of the chain. The log of the deletions is left out.
\<close>

fun delete_entries ::
  "bgp_config \<Rightarrow> misc_db \<Rightarrow> u8 \<Rightarrow> bgp_peer \<Rightarrow> prefix \<Rightarrow> nat \<Rightarrow> bgp_info list \<Rightarrow> nat \<Rightarrow> attr_db
    \<Rightarrow> bgp_info bgp_table \<Rightarrow> (attr_db \<times> bgp_info bgp_table) run" where
  "delete_entries cfg bms stray peer k b [] i D table = Inr (D, table)"
| "delete_entries cfg bms stray peer k b (ri # ris) i D table =
     (if ri_peer ri = bp_idx peer
      then fbind (bgp_info_delete cfg bms stray peer D table k b i) (\<lambda>(D, table).
             delete_entries cfg bms stray peer k b ris i D table)
      else delete_entries cfg bms stray peer k b ris (Suc i) D table)"

fun delete_buckets ::
  "bgp_config \<Rightarrow> misc_db \<Rightarrow> u8 \<Rightarrow> bgp_peer \<Rightarrow> prefix \<Rightarrow> nat \<Rightarrow> nat \<Rightarrow> attr_db
    \<Rightarrow> bgp_info bgp_table \<Rightarrow> (attr_db \<times> bgp_info bgp_table) run" where
  "delete_buckets cfg bms stray peer k b 0 D table = Inr (D, table)"
| "delete_buckets cfg bms stray peer k b (Suc n) D table =
     fbind (get_chain stray table k b) (\<lambda>chain.
     fbind (delete_entries cfg bms stray peer k b chain 0 D table) (\<lambda>(D, table).
       delete_buckets cfg bms stray peer k (Suc b) n D table))"

text \<open>The walk. The node is locked while its entries are deleted, so that it is there when the next one
  is looked for.\<close>

fun delete_walk ::
  "bgp_config \<Rightarrow> misc_db \<Rightarrow> u8 \<Rightarrow> bgp_peer \<Rightarrow> nat \<Rightarrow> attr_db \<Rightarrow> bgp_info bgp_table \<Rightarrow> prefix option
    \<Rightarrow> (attr_db \<times> bgp_info bgp_table) run" where
  "delete_walk cfg bms stray peer fuel D table None = Inr (D, table)"
| "delete_walk cfg bms stray peer 0 D table (Some k) = Inl OutOfFuel"
| "delete_walk cfg bms stray peer (Suc fuel) D table (Some k) =
     fbind (bgp_route_info_modulo bms peer None None (table_per_peer_buckets bms)) (\<lambda>b.
     fbind (delete_buckets cfg bms stray peer k b (table_per_peer_buckets bms) D table) (\<lambda>(D, table).
     fbind (bgp_route_next bms stray table k) (\<lambda>(table, next).
       delete_walk cfg bms stray peer fuel D table next)))"

definition bgp_table_info_delete ::
  "bgp_config \<Rightarrow> misc_db \<Rightarrow> u8 \<Rightarrow> bgp_peer \<Rightarrow> attr_db \<Rightarrow> bgp_info bgp_table
    \<Rightarrow> (attr_db \<times> bgp_info bgp_table) run" where
  "bgp_table_info_delete cfg bms stray peer D table =
     (case bgp_table_top bms (Some table) of
        (Some table', node) \<Rightarrow> delete_walk cfg bms stray peer (t_count table) D table' node
      | (None, _) \<Rightarrow> Inr (D, table))"

text \<open>The tables in the order of the two loops; the entries of BGP-LS are not part of these tables.\<close>

definition all_tables :: "(nat \<times> nat) list" where
  "all_tables = [(afi, safi). afi \<leftarrow> [AFI_IP..<AFI_MAX], safi \<leftarrow> [SAFI_UNICAST..<SAFI_MAX]]"

fun delete_in_tables ::
  "bgp_config \<Rightarrow> misc_db \<Rightarrow> u8 \<Rightarrow> bgp_peer \<Rightarrow> (nat \<times> nat) list \<Rightarrow> rt_db \<Rightarrow> rt_db run" where
  "delete_in_tables cfg bms stray peer [] db = Inr db"
| "delete_in_tables cfg bms stray peer ((afi, safi) # ts) db =
     fbind (bgp_table_info_delete cfg bms stray peer (rt_attrs db) (rt_rib db afi safi)) (\<lambda>(D, table).
       delete_in_tables cfg bms stray peer ts (put_table afi safi table (db\<lparr>rt_attrs := D\<rparr>)))"

definition bgp_peer_info_delete ::
  "bgp_config \<Rightarrow> misc_db \<Rightarrow> u8 \<Rightarrow> bgp_peer \<Rightarrow> rt_db \<Rightarrow> rt_db run" where
  "bgp_peer_info_delete cfg bms stray peer db =
     (if bgp_select_routing_db (bp_type peer) = None then Inr db
      else delete_in_tables cfg bms stray peer all_tables db)"

section \<open>Creating and closing a peer\<close>

text \<open>\<open>bgp_peer_init\<close> without a cross-connect map: the result, the peer and its buffer of zeros.\<close>

definition bgp_peer_init :: "nat \<Rightarrow> nat \<Rightarrow> bgp_peer \<Rightarrow> bgp_peer_buf \<Rightarrow> int \<times> bgp_peer \<times> bgp_peer_buf" where
  "bgp_peer_init type buflen peer b =
     (if bgp_select_misc_db type = None then (ERR, peer, b)
      else (0, zero_peer\<lparr>bp_type := type, bp_status := Idle\<rparr>,
            \<lparr>pb_base = replicate buflen 0, pb_cur_len = 0, pb_exp_len = 0\<rparr>))"

text \<open>Taking the peer out of the two lists of the cache, when there is a cache.\<close>

definition cache_forget ::
  "nat \<Rightarrow> bgp_peer \<Rightarrow> peer_caches option \<Rightarrow> peer_caches option run" where
  "cache_forget max_peers peer cs =
     (case cs of None \<Rightarrow> Inr None
      | Some c \<Rightarrow>
          fbind (addr_hash (bp_addr peer) max_peers) (\<lambda>b.
          fbind (bgp_peer_cache_delete By_addr b (bp_idx peer) c) (\<lambda>(_, c).
          fbind (addr_port_hash (bp_addr peer) (bp_tcp_port peer) max_peers) (\<lambda>b.
          fbind (bgp_peer_cache_delete By_port b (bp_idx peer) c) (\<lambda>(_, c). Inr (Some c))))))"

text \<open>\<open>bgp_peer_close\<close> without a cross-connect map. The result: what is sent (empty for nothing), the
  peer, the database and the caches. The buffer of the peer is freed.\<close>

definition closed_peer :: "bgp_peer \<Rightarrow> bgp_peer" where
  "closed_peer peer = peer\<lparr>bp_fd := 0, bp_id := (0, []), bp_addr := (0, []), bp_eor := (\<lambda>_ _. False)\<rparr>"

definition bgp_peer_close ::
  "bgp_config \<Rightarrow> misc_db \<Rightarrow> u8 \<Rightarrow> nat \<Rightarrow> bgp_peer \<Rightarrow> bool \<Rightarrow> (u8 \<times> u8) option \<Rightarrow> u8 list option \<Rightarrow> rt_db
    \<Rightarrow> peer_caches option \<Rightarrow> (u8 list \<times> bgp_peer \<times> rt_db \<times> peer_caches option) run" where
  "bgp_peer_close cfg bms stray max_peers peer no_quiet notification shutdown_msg db cs =
     (if bgp_select_misc_db (bp_type peer) = None then Inr ([], peer, db, cs)
      else
        fbind (case notification of None \<Rightarrow> Inr []
               | Some (n_major, n_minor) \<Rightarrow>
                   bgp_write_notification_msg (BGP_MIN_NOTIFICATION_MSG_SIZE + BGP_NOTIFY_CEASE_SM_LEN + 1)
                     n_major n_minor shutdown_msg) (\<lambda>sent.
        fbind (if no_quiet then Inr db else bgp_peer_info_delete cfg bms stray peer db) (\<lambda>db.
        fbind (cache_forget max_peers peer cs) (\<lambda>cs.
          Inr (sent, closed_peer peer, db, cs)))))"

end
