(* ===== verification/Rpki.thy ===== *)
theory Rpki
  imports BgpPeer
begin

text \<open>
  Route origin validation (rpki\_lookup.c, rpki\_msg.c, rpki\_util.c and the globals of rpki.c): the
  tables of validated ROA payloads, their lookup, adding and deleting payloads, and reading them from
  a file. The tables are those of bgp\_table.c with one bucket; the attribute of an entry holds the
  origin AS as a path of one AS number and the maximum length. Logging is left out. The JSON library
  is not: its values are a datatype, of which the code asks for members, elements and kinds.
\<close>

section \<open>Constants and databases\<close>

definition ROA_STATUS_UNKNOWN :: u8 where "ROA_STATUS_UNKNOWN = 0"
definition ROA_STATUS_INVALID :: u8 where "ROA_STATUS_INVALID = 1"
definition ROA_STATUS_VALID :: u8 where "ROA_STATUS_VALID = 2"
definition ROA_STATUS_OVERLAP_VALID :: u8 where "ROA_STATUS_OVERLAP_VALID = 3"
definition ROA_STATUS_OVERLAP_UNKNOWN :: u8 where "ROA_STATUS_OVERLAP_UNKNOWN = 4"
definition ROA_STATUS_MAX :: u8 where "ROA_STATUS_MAX = 4"

lemmas roa_consts = ROA_STATUS_UNKNOWN_def ROA_STATUS_INVALID_def ROA_STATUS_VALID_def
  ROA_STATUS_OVERLAP_VALID_def ROA_STATUS_OVERLAP_UNKNOWN_def ROA_STATUS_MAX_def

definition FUNC_TYPE_RPKI :: nat where "FUNC_TYPE_RPKI = 3"
definition DEFAULT_BGP_INFO_PER_PEER_HASH :: nat where "DEFAULT_BGP_INFO_PER_PEER_HASH = 1"
definition HASHTABSIZE :: nat where "HASHTABSIZE = 65535"

text \<open>The names of the states, by number.\<close>

definition rpki_roa :: "string list" where
  "rpki_roa = [''u'', ''i'', ''v'', ''V'', ''U'']"

definition rpki_roa_print :: "u8 \<Rightarrow> string" where
  "rpki_roa_print roa = (if roa \<le> ROA_STATUS_MAX then rpki_roa ! unat roa else rpki_roa ! unat ROA_STATUS_UNKNOWN)"

definition rpki_str2roa :: "string \<Rightarrow> u8" where
  "rpki_str2roa roa_str =
     (if roa_str = ''u'' then ROA_STATUS_UNKNOWN
      else if roa_str = ''i'' then ROA_STATUS_INVALID
      else if roa_str = ''v'' then ROA_STATUS_VALID
      else ROA_STATUS_UNKNOWN)"

text \<open>The structure cleared by \<open>rpki_prepare_thread\<close>, then filled in. There is no function that
  chooses the bucket of an entry: the first one is taken, which is the only one.\<close>

definition misc_zero :: misc_db where
  "misc_zero = \<lparr>is_readonly = False, skip_rib = False, has_msglog = False, table_peer_buckets = 0,
     table_per_peer_buckets = 0, table_per_peer_hash = 0\<rparr>"

definition rpki_link_misc_structs :: "misc_db \<Rightarrow> misc_db" where
  "rpki_link_misc_structs m_data = m_data\<lparr>table_peer_buckets := 1,
     table_per_peer_buckets := DEFAULT_BGP_INFO_PER_PEER_HASH, table_per_peer_hash := BGP_ASPATH_HASH_PATHID\<rparr>"

definition rpki_misc_db :: misc_db where
  "rpki_misc_db = rpki_link_misc_structs misc_zero"

definition rpki_init_dummy_peer :: "bgp_peer \<Rightarrow> bgp_peer" where
  "rpki_init_dummy_peer peer = zero_peer\<lparr>bp_type := FUNC_TYPE_RPKI\<rparr>"

definition rpki_peer :: bgp_peer where
  "rpki_peer = rpki_init_dummy_peer zero_peer"

text \<open>Of \<open>rpki_roa_db\<close>, the attributes and the two tables that are used.\<close>

record roa_db =
  ro_attrs :: attr_db
  ro_v4 :: "bgp_info bgp_table"
  ro_v6 :: "bgp_info bgp_table"

definition roa_db_init :: roa_db where
  "roa_db_init = \<lparr>ro_attrs = bgp_attr_init HASHTABSIZE, ro_v4 = bgp_table_init AFI_IP SAFI_UNICAST,
     ro_v6 = bgp_table_init AFI_IP6 SAFI_UNICAST\<rparr>"

section \<open>Matching with a result\<close>

text \<open>\<open>bgp_node_match\<close> for a comparison that leaves something behind (\<open>nmct2->ret_code\<close>) and can fault:
  \<open>Inr (True, c)\<close> is a result other than zero.\<close>

fun scan_infos_s :: "('i \<Rightarrow> 's \<Rightarrow> (bool \<times> 's) run) \<Rightarrow> bool \<Rightarrow> prefix \<Rightarrow> 'i list \<Rightarrow> 'i match_state \<times> 's
    \<Rightarrow> ('i match_state \<times> 's) run" where
  "scan_infos_s cmp exact q [] (st, c) = Inr (st, c)"
| "scan_infos_s cmp exact q (x # xs) (st, c) =
     fbind (cmp x c) (\<lambda>(differs, c).
       if differs then scan_infos_s cmp exact q xs (st, c)
       else fbind (push_match q x st) (\<lambda>st.
              if exact then Inr (st, c) else scan_infos_s cmp exact q xs (st, c)))"

fun scan_buckets_s :: "('i \<Rightarrow> 's \<Rightarrow> (bool \<times> 's) run) \<Rightarrow> bool \<Rightarrow> prefix \<Rightarrow> 'i list list \<Rightarrow> nat \<Rightarrow> nat
    \<Rightarrow> 'i match_state \<times> 's \<Rightarrow> ('i match_state \<times> 's) run" where
  "scan_buckets_s cmp exact q info modulo0 0 st = Inr st"
| "scan_buckets_s cmp exact q info modulo0 (Suc n) st =
     (if modulo0 < length info
      then fbind (scan_infos_s cmp exact q (info ! modulo0) st) (scan_buckets_s cmp exact q info (modulo0 + 1) n)
      else Inl OutOfBounds)"

fun node_match_s :: "('i \<Rightarrow> 's \<Rightarrow> (bool \<times> 's) run) \<Rightarrow> u8 \<Rightarrow> prefix \<Rightarrow> nat \<Rightarrow> nat \<Rightarrow> 'i bgp_node
    \<Rightarrow> 'i match_state \<times> 's \<Rightarrow> ('i match_state \<times> 's) run" where
  "node_match_s cmp stray p modulo0 n Tip st = Inr st"
| "node_match_s cmp stray p modulo0 n (Node q lk info l r) st =
     (if goes_on q p
      then fbind (scan_buckets_s cmp (p_len q = p_len p) q info modulo0 n st) (\<lambda>st.
           fbind (check_bit (p_bytes p) stray (p_len q)) (\<lambda>b.
             node_match_s cmp stray p modulo0 n (if b then r else l) st))
      else Inr st)"

definition bgp_node_match_s ::
  "misc_db \<Rightarrow> u8 \<Rightarrow> 'i bgp_table \<Rightarrow> prefix \<Rightarrow> (nat \<Rightarrow> nat) option \<Rightarrow> ('i \<Rightarrow> 's \<Rightarrow> (bool \<times> 's) run) \<Rightarrow> 's \<Rightarrow> bool
    \<Rightarrow> ('i bgp_table \<times> (prefix \<times> 'i) option \<times> (prefix \<times> 'i) list option \<times> 's) run" where
  "bgp_node_match_s bms stray table p modulo_func cmp c bnv =
     (let modulo0 = (case modulo_func of None \<Rightarrow> 0 | Some f \<Rightarrow> f (match_buckets bms))
      in fbind (node_match_s cmp stray p modulo0 (modulo_idx_max bms) (t_top table)
                  ((None, if bnv then Some [] else None), c)) (\<lambda>((found, v), c).
           case found of
             None \<Rightarrow> Inr (table, None, v, c)
           | Some (q, x) \<Rightarrow>
               fbind (node_lock bms stray (t_top table) q) (\<lambda>top.
                 Inr (table\<lparr>t_top := top\<rparr>, Some (q, x), v, c))))"

section \<open>Looking a prefix up\<close>

definition evaluate_last_asn :: "aspath option \<Rightarrow> u32" where
  "evaluate_last_asn as = (case as of None \<Rightarrow> 0 | Some p \<Rightarrow> as_last p)"

text \<open>\<open>TRUE\<close> is a difference; the second component is \<open>ret_code\<close>.\<close>

definition rpki_prefix_lookup_node_match_cmp ::
  "attr_db \<Rightarrow> prefix \<Rightarrow> u32 \<Rightarrow> bgp_info \<Rightarrow> u8 \<Rightarrow> (bool \<times> u8) run" where
  "rpki_prefix_lookup_node_match_cmp D p last_as info ret_code =
     fbind (deref (attrhash D) (ri_attr info)) (\<lambda>x.
       case at_aspath x of
         None \<Rightarrow> Inr (True, ret_code)
       | Some a \<Rightarrow> fbind (deref (ashash D) a) (\<lambda>path.
           if p_len p \<le> unat (at_rpki_maxlen x) \<and> evaluate_last_asn (Some path) = last_as
           then Inr (False, ROA_STATUS_VALID)
           else Inr (True, if ret_code \<noteq> ROA_STATUS_VALID then ROA_STATUS_INVALID else ret_code)))"

text \<open>There is no table for another family, and \<open>bgp_node_match\<close> returns at once. The node of a valid
  result is locked, and nobody unlocks it.\<close>

definition rpki_prefix_lookup :: "u8 \<Rightarrow> roa_db option \<Rightarrow> prefix \<Rightarrow> u32 \<Rightarrow> (u8 \<times> roa_db option) run" where
  "rpki_prefix_lookup stray rpki_roa_db p last_as =
     (case rpki_roa_db of
        None \<Rightarrow> Inr (ROA_STATUS_UNKNOWN, None)
      | Some db \<Rightarrow>
          let cmp = rpki_prefix_lookup_node_match_cmp (ro_attrs db) p last_as;
              look = (\<lambda>table. bgp_node_match_s rpki_misc_db stray table p None cmp ROA_STATUS_UNKNOWN False);
              afi = family2afi (p_family p)
          in if afi = AFI_IP then
               fbind (look (ro_v4 db)) (\<lambda>(table, _, _, ret_code). Inr (ret_code, Some (db\<lparr>ro_v4 := table\<rparr>)))
             else if afi = AFI_IP6 then
               fbind (look (ro_v6 db)) (\<lambda>(table, _, _, ret_code). Inr (ret_code, Some (db\<lparr>ro_v6 := table\<rparr>)))
             else Inr (ROA_STATUS_UNKNOWN, Some db))"

text \<open>The levels of a vector from the most specific one on: \<open>origin\<close> gives the last AS number of the path
  of an entry and the own AS number of its peer. The result is the state and the number of levels seen.\<close>

fun vector_levels :: "(bgp_info \<Rightarrow> (u32 \<times> u32) run) \<Rightarrow> u8 \<Rightarrow> (prefix \<times> bgp_info) list \<Rightarrow> nat \<Rightarrow> u8 \<Rightarrow> roa_db option
    \<Rightarrow> (u8 \<times> nat \<times> roa_db option) run" where
  "vector_levels origin stray [] level roa db = Inr (roa, level, db)"
| "vector_levels origin stray ((p, info) # vs) level roa db =
     fbind (origin info) (\<lambda>(last_as, myas).
     fbind (rpki_prefix_lookup stray db p (if last_as = 0 then myas else last_as)) (\<lambda>(roa, db).
       if roa = ROA_STATUS_UNKNOWN \<or> roa = ROA_STATUS_VALID then Inr (roa, level + 1, db)
       else vector_levels origin stray vs (level + 1) roa db))"

definition rpki_vector_prefix_lookup :: "(bgp_info \<Rightarrow> (u32 \<times> u32) run) \<Rightarrow> u8 \<Rightarrow> (prefix \<times> bgp_info) list option
    \<Rightarrow> roa_db option \<Rightarrow> (u8 \<times> roa_db option) run" where
  "rpki_vector_prefix_lookup origin stray bnv db =
     (case bnv of None \<Rightarrow> Inr (ROA_STATUS_UNKNOWN, db)
      | Some v \<Rightarrow>
          fbind (vector_levels origin stray (rev v) 0 ROA_STATUS_UNKNOWN db) (\<lambda>(roa, level, db).
            Inr (if 1 < level then
                   if roa = ROA_STATUS_UNKNOWN then ROA_STATUS_OVERLAP_UNKNOWN
                   else if roa = ROA_STATUS_VALID then ROA_STATUS_OVERLAP_VALID else roa
                 else roa, db)))"

text \<open>What \<open>origin\<close> reads in the databases of the BGP daemon.\<close>

definition route_origin :: "attr_db \<Rightarrow> bgp_peer list \<Rightarrow> bgp_info \<Rightarrow> (u32 \<times> u32) run" where
  "route_origin D peers info =
     fbind (deref (attrhash D) (ri_attr info)) (\<lambda>x.
     fbind (case at_aspath x of None \<Rightarrow> Inr None
            | Some a \<Rightarrow> fbind (deref (ashash D) a) (\<lambda>p. Inr (Some p))) (\<lambda>path.
       if ri_peer info < length peers then Inr (evaluate_last_asn path, bp_myas (peers ! ri_peer info))
       else Inl OutOfBounds))"

section \<open>Adding and deleting a payload\<close>

text \<open>
  The node of a prefix. An IPv4 prefix of the cache protocol is a \<open>struct prefix_ipv4\<close>, which ends
  behind its four octets, and no prefix has more than sixteen; a greater length, which the code accepts
  from the cache, makes it read behind the object, and the model stops there.
\<close>

definition roa_node :: "u8 \<Rightarrow> bgp_info bgp_table \<Rightarrow> prefix \<Rightarrow> (bgp_info bgp_table \<times> prefix) run" where
  "roa_node stray table p =
     (if 128 < p_len p \<or> p_family p = AF_INET \<and> 32 < p_len p then Inl OutOfBounds
      else bgp_node_get rpki_misc_db stray table p)"

text \<open>The attribute of a payload: built, interned, and its path given up by the caller.\<close>

definition roa_attr ::
  "bgp_config \<Rightarrow> bgp_peer \<Rightarrow> attr_db \<Rightarrow> u32 \<Rightarrow> u8 \<Rightarrow> (nat \<times> attr_db) run" where
  "roa_attr cfg peer D asn maxlen =
     fbind (aspath_parse_ast (Some peer) (ashash D) asn) (\<lambda>(path, P).
     fbind (bgp_attr_intern cfg (Some peer) (D\<lparr>ashash := P\<rparr>)
              (attr_zero\<lparr>at_rpki_maxlen := maxlen, at_aspath := path\<rparr>)) (\<lambda>(attr_new, attr, D).
     fbind (unintern_ref aspath_ops (Some peer) (ashash D) (at_aspath attr)) (\<lambda>P.
       case attr_new of None \<Rightarrow> Inl NullDeref | Some a \<Rightarrow> Inr (a, D\<lparr>ashash := P\<rparr>))))"

text \<open>Reading and writing the table of a family.\<close>

definition roa_table :: "nat \<Rightarrow> roa_db \<Rightarrow> bgp_info bgp_table option" where
  "roa_table afi db = (if afi = AFI_IP then Some (ro_v4 db) else if afi = AFI_IP6 then Some (ro_v6 db) else None)"

definition put_roa_table :: "nat \<Rightarrow> bgp_info bgp_table \<Rightarrow> roa_db \<Rightarrow> roa_db" where
  "put_roa_table afi table db = (if afi = AFI_IP then db\<lparr>ro_v4 := table\<rparr> else db\<lparr>ro_v6 := table\<rparr>)"

definition rpki_info_add ::
  "bgp_config \<Rightarrow> u8 \<Rightarrow> bgp_peer \<Rightarrow> prefix \<Rightarrow> u32 \<Rightarrow> u8 \<Rightarrow> roa_db \<Rightarrow> (int \<times> roa_db) run" where
  "rpki_info_add cfg stray peer p asn maxlen db =
     (let afi = family2afi (p_family p)
      in case roa_table afi db of
           None \<Rightarrow> Inr (ERR, db)
         | Some rib \<Rightarrow>
             fbind (roa_node stray rib p) (\<lambda>(rib, route).
             fbind (roa_attr cfg peer (ro_attrs db) asn maxlen) (\<lambda>(attr_new, D).
             let new = \<lparr>ri_peer = bp_idx peer, ri_attr = attr_new, ri_extra = None\<rparr> in
             fbind (bgp_info_add rpki_misc_db stray rib route new 0) (\<lambda>rib.
             fbind (bgp_unlock_node rpki_misc_db stray rib route) (\<lambda>rib.
               Inr (SUCCESS, put_roa_table afi rib (db\<lparr>ro_attrs := D\<rparr>)))))))"

definition rpki_attrhash_cmp :: "bgp_attr \<Rightarrow> bgp_attr \<Rightarrow> bool" where
  "rpki_attrhash_cmp attr1 attr2 \<longleftrightarrow> at_aspath attr1 = at_aspath attr2"

fun find_roa :: "attr_db \<Rightarrow> bgp_peer \<Rightarrow> bgp_attr \<Rightarrow> bgp_info list \<Rightarrow> nat option run" where
  "find_roa D peer new [] = Inr None"
| "find_roa D peer new (ri # rest) =
     (let next = fbind (find_roa D peer new rest) (\<lambda>i. Inr (map_option Suc i))
      in if ri_peer ri = bp_idx peer
         then fbind (deref (attrhash D) (ri_attr ri)) (\<lambda>x. if rpki_attrhash_cmp x new then Inr (Some 0) else next)
         else next)"

text \<open>One turn of the loop over the lengths.\<close>

definition roa_delete_at ::
  "bgp_config \<Rightarrow> u8 \<Rightarrow> bgp_peer \<Rightarrow> prefix \<Rightarrow> u32 \<Rightarrow> attr_db \<Rightarrow> bgp_info bgp_table
    \<Rightarrow> (attr_db \<times> bgp_info bgp_table) run" where
  "roa_delete_at cfg stray peer p asn D rib =
     fbind (roa_node stray rib p) (\<lambda>(rib, route).
     fbind (roa_attr cfg peer D asn 0) (\<lambda>(attr_new, D).
     fbind (get_chain stray rib route 0) (\<lambda>chain.
     fbind (deref (attrhash D) attr_new) (\<lambda>new.
     fbind (find_roa D peer new chain) (\<lambda>found.
     fbind (case found of None \<Rightarrow> Inr (D, rib)
            | Some i \<Rightarrow> bgp_info_delete cfg rpki_misc_db stray peer D rib route 0 i) (\<lambda>(D, rib).
     fbind (bgp_attr_unintern cfg (Some peer) D attr_new) (\<lambda>D.
     fbind (bgp_unlock_node rpki_misc_db stray rib route) (\<lambda>rib. Inr (D, rib)))))))))"

fun roa_delete_lens ::
  "bgp_config \<Rightarrow> u8 \<Rightarrow> bgp_peer \<Rightarrow> nat \<Rightarrow> prefix \<Rightarrow> u32 \<Rightarrow> attr_db \<Rightarrow> bgp_info bgp_table
    \<Rightarrow> (attr_db \<times> bgp_info bgp_table) run" where
  "roa_delete_lens cfg stray peer 0 p asn D rib = Inr (D, rib)"
| "roa_delete_lens cfg stray peer (Suc n) p asn D rib =
     fbind (roa_delete_at cfg stray peer p asn D rib) (\<lambda>(D, rib).
       roa_delete_lens cfg stray peer n (p\<lparr>p_len := p_len p + 1\<rparr>) asn D rib)"

text \<open>The lengths from that of the prefix to \<open>end\<close>. With an \<open>end\<close> of 255 the loop of the code, whose
  counter has 8 bits, does not end; \<open>roa_node\<close> stops the model before.\<close>

definition rpki_info_delete ::
  "bgp_config \<Rightarrow> u8 \<Rightarrow> bgp_peer \<Rightarrow> prefix \<Rightarrow> u32 \<Rightarrow> u8 \<Rightarrow> roa_db \<Rightarrow> (int \<times> roa_db) run" where
  "rpki_info_delete cfg stray peer p asn maxlen db =
     (let afi = family2afi (p_family p)
      in case roa_table afi db of
           None \<Rightarrow> Inr (ERR, db)
         | Some rib \<Rightarrow>
             fbind (roa_delete_lens cfg stray peer (Suc (max (p_len p) (unat maxlen)) - p_len p) p asn (ro_attrs db) rib)
               (\<lambda>(D, rib). Inr (SUCCESS, put_roa_table afi rib (db\<lparr>ro_attrs := D\<rparr>))))"

section \<open>Emptying the tables\<close>

definition rpki_ribs_free ::
  "bgp_config \<Rightarrow> u8 \<Rightarrow> bgp_peer \<Rightarrow> roa_db \<Rightarrow> attr_db run" where
  "rpki_ribs_free cfg stray peer db =
     fbind (bgp_table_info_delete cfg rpki_misc_db stray peer (ro_attrs db) (ro_v4 db)) (\<lambda>(D, rib_v4).
     fbind (bgp_table_info_delete cfg rpki_misc_db stray peer D (ro_v6 db)) (\<lambda>(D, rib_v6).
     fbind (bgp_table_free (Some rib_v4)) (\<lambda>_.
     fbind (bgp_table_free (Some rib_v6)) (\<lambda>_. Inr D))))"

definition roa_tables_init :: "attr_db \<Rightarrow> roa_db" where
  "roa_tables_init D = \<lparr>ro_attrs = D, ro_v4 = bgp_table_init AFI_IP SAFI_UNICAST,
     ro_v6 = bgp_table_init AFI_IP6 SAFI_UNICAST\<rparr>"

definition rpki_ribs_reset :: "bgp_config \<Rightarrow> u8 \<Rightarrow> bgp_peer \<Rightarrow> roa_db \<Rightarrow> roa_db run" where
  "rpki_ribs_reset cfg stray peer db =
     fbind (rpki_ribs_free cfg stray peer db) (\<lambda>D. Inr (roa_tables_init D))"

section \<open>The file of payloads\<close>

datatype json =
  JObject "(string \<times> json) list"
| JArray "json list"
| JString string
| JInteger int
| JOther

fun json_object_get :: "json \<Rightarrow> string \<Rightarrow> json option" where
  "json_object_get (JObject ms) key = map_of ms key"
| "json_object_get _ key = None"

text \<open>\<open>bgp_str2asn\<close>: characters before the first digit are skipped, what \<open>strtoul\<close> reads must be all that
  remains, and \<open>errno\<close> (here whether it is set) is not cleared before. The result is the AS number.\<close>

definition bgp_str2asn :: "bool \<Rightarrow> string \<Rightarrow> u32 option \<times> bool" where
  "bgp_str2asn errno asn_str =
     (let asn_ptr = dropWhile (\<lambda>c. \<not> isdigit c) asn_str;
          ds = takeWhile isdigit asn_ptr; v = undec 0 ds;
          errno = (errno \<or> 2 ^ 64 \<le> v);
          asn = (if 2 ^ 64 \<le> v then u32n (2 ^ 64 - 1) else u32n v)
      in if ds = [] \<or> dropWhile isdigit asn_ptr \<noteq> [] then (None, errno)
         else if errno then (None, False)
         else (Some asn, errno))"

definition roa_asn :: "bool \<Rightarrow> json option \<Rightarrow> u32 option \<times> bool" where
  "roa_asn errno asn_json =
     (case asn_json of
        Some (JString s) \<Rightarrow> bgp_str2asn errno s
      | Some (JInteger i) \<Rightarrow> (Some (word_of_int i), errno)
      | _ \<Rightarrow> (None, errno))"

text \<open>One element of the array: the payload it stands for, \<open>None\<close> when it is skipped.\<close>

definition roa_of_json ::
  "(string \<Rightarrow> u8 list option) \<Rightarrow> (string \<Rightarrow> u8 list option) \<Rightarrow> bool \<Rightarrow> json
    \<Rightarrow> (prefix \<times> u32 \<times> u8) option \<times> bool" where
  "roa_of_json aton pton errno roa_json =
     (case json_object_get roa_json ''prefix'' of
        Some (JString str) \<Rightarrow>
          (case str2prefix aton pton str prefix_new of
             (False, _) \<Rightarrow> (None, errno)
           | (True, p) \<Rightarrow>
               (case roa_asn errno (json_object_get roa_json ''asn'') of
                  (None, errno) \<Rightarrow> (None, errno)
                | (Some asn, errno) \<Rightarrow>
                    (case json_object_get roa_json ''maxLength'' of
                       Some (JInteger i) \<Rightarrow> (Some (p, asn, word_of_int i), errno)
                     | _ \<Rightarrow> (None, errno))))
      | _ \<Rightarrow> (None, errno))"

fun load_roas ::
  "bgp_config \<Rightarrow> u8 \<Rightarrow> (string \<Rightarrow> u8 list option) \<Rightarrow> (string \<Rightarrow> u8 list option) \<Rightarrow> bool \<Rightarrow> json list
    \<Rightarrow> roa_db \<Rightarrow> roa_db run" where
  "load_roas cfg stray aton pton errno [] db = Inr db"
| "load_roas cfg stray aton pton errno (j # js) db =
     (case roa_of_json aton pton errno j of
        (None, errno) \<Rightarrow> load_roas cfg stray aton pton errno js db
      | (Some (p, asn, maxlen), errno) \<Rightarrow>
          fbind (rpki_info_add cfg stray rpki_peer p asn maxlen db) (\<lambda>(_, db).
            load_roas cfg stray aton pton errno js db))"

definition rpki_roas_file_load ::
  "bgp_config \<Rightarrow> u8 \<Rightarrow> (string \<Rightarrow> u8 list option) \<Rightarrow> (string \<Rightarrow> u8 list option) \<Rightarrow> bool \<Rightarrow> json option
    \<Rightarrow> roa_db \<Rightarrow> (int \<times> roa_db) run" where
  "rpki_roas_file_load cfg stray aton pton errno file db =
     (case file of
        Some (JObject ms) \<Rightarrow>
          (case map_of ms ''roas'' of
             Some (JArray js) \<Rightarrow>
               fbind (load_roas cfg stray aton pton errno js db) (\<lambda>db. Inr (SUCCESS, db))
           | _ \<Rightarrow> Inr (ERR, db))
      | _ \<Rightarrow> Inr (ERR, db))"

text \<open>Loading into new tables, which replace the old ones when all went well; the others are freed. The
  time given to lookups in progress is left out.\<close>

definition rpki_roas_file_reload ::
  "bgp_config \<Rightarrow> u8 \<Rightarrow> (string \<Rightarrow> u8 list option) \<Rightarrow> (string \<Rightarrow> u8 list option) \<Rightarrow> bool \<Rightarrow> bool \<Rightarrow> json option
    \<Rightarrow> roa_db \<Rightarrow> roa_db run" where
  "rpki_roas_file_reload cfg stray aton pton errno configured file db =
     (if configured then
        fbind (rpki_roas_file_load cfg stray aton pton errno file (roa_tables_init (ro_attrs db))) (\<lambda>(ret, new).
          if ret = 0
          then fbind (rpki_ribs_free cfg stray rpki_peer (db\<lparr>ro_attrs := ro_attrs new\<rparr>)) (\<lambda>D.
                 Inr (new\<lparr>ro_attrs := D\<rparr>))
          else fbind (rpki_ribs_free cfg stray rpki_peer new) (\<lambda>D. Inr (db\<lparr>ro_attrs := D\<rparr>)))
      else Inr db)"

end
