(* ===== verification/BgpDaemon.thy ===== *)
theory BgpDaemon
  imports BgpPeer
begin

text \<open>
  The main loop of the BGP daemon (\<open>skinny_bgp_daemon_online\<close> in bgp.c) over all its peers: accepting a
  connection into a free slot of the array of peers, refusing or replacing a second connection from the
  same address, choosing the peer whose socket is read, and closing. A turn of the loop gets from outside
  what \<open>accept\<close>, \<open>select\<close> and \<open>recv\<close> return. The cross-connect, signals, dumps and logs are left out.
\<close>

section \<open>The state\<close>

definition BGP_NOTIFY_SUBCODE_UNSPECIFIC :: u8 where "BGP_NOTIFY_SUBCODE_UNSPECIFIC = 0"

text \<open>The array of peers with their buffers, what the loop keeps, and all that was sent (to which
  socket). \<open>dm_max_idx\<close> is one more than the last slot in use at the last recount.\<close>

record bgp_daemon =
  dm_peers :: "bgp_peer list"
  dm_bufs :: "bgp_peer_buf list"
  dm_batch :: bgp_peer_batch
  dm_caches :: "peer_caches option"
  dm_db :: rt_db
  dm_max_idx :: nat
  dm_rr :: nat
  dm_recalc :: bool
  dm_sent :: "(nat \<times> u8 list) list"

text \<open>A slot before its first use (\<open>memset\<close>), and the daemon at its start. The batch is a local variable that
  is not initialised when only one of the two settings is given; \<open>junk\<close> is what it holds then.\<close>

definition empty_buf :: bgp_peer_buf where
  "empty_buf = \<lparr>pb_base = [], pb_cur_len = 0, pb_exp_len = 0\<rparr>"

definition daemon_start :: "bgp_peer_batch \<Rightarrow> nat \<Rightarrow> bool \<Rightarrow> int \<Rightarrow> int \<Rightarrow> nat \<Rightarrow> bgp_daemon" where
  "daemon_start junk max_peers lg batch_num batch_interval buckets =
     \<lparr>dm_peers = replicate max_peers zero_peer, dm_bufs = replicate max_peers empty_buf,
      dm_batch = (if (batch_num = 0) \<noteq> (batch_interval = 0) then junk
                  else bgp_batch_init batch_num batch_interval),
      dm_caches = (if lg then Some \<lparr>peers_cache = bgp_peer_cache_init max_peers,
                                    peers_port_cache = bgp_peer_cache_init max_peers\<rparr> else None),
      dm_db = \<lparr>rt_attrs = bgp_attr_init buckets, rt_rib = (\<lambda>afi safi. bgp_table_init afi safi)\<rparr>,
      dm_max_idx = 0, dm_rr = 0, dm_recalc = False, dm_sent = []\<rparr>"

section \<open>Counting the slots in use\<close>

fun last_in_use :: "bgp_peer list \<Rightarrow> nat \<Rightarrow> nat \<Rightarrow> nat" where
  "last_in_use [] i found = found"
| "last_in_use (p # ps) i found = last_in_use ps (i + 1) (if bp_fd p \<noteq> 0 then i + 1 else found)"

definition daemon_recalc :: "bgp_daemon \<Rightarrow> bgp_daemon" where
  "daemon_recalc s =
     (if dm_recalc s then s\<lparr>dm_max_idx := last_in_use (dm_peers s) 0 0, dm_recalc := False\<rparr> else s)"

section \<open>Closing a slot\<close>

definition close_slot ::
  "daemon \<Rightarrow> (u8 \<times> u8) option \<Rightarrow> nat \<Rightarrow> bgp_daemon \<Rightarrow> bgp_daemon run" where
  "close_slot d notification i s =
     (let peer = dm_peers s ! i
      in fbind (bgp_peer_close (d_cfg d) (d_bms d) (d_stray d) (length (dm_peers s)) peer False notification None
                  (dm_db s) (dm_caches s)) (\<lambda>(sent, peer', db, cs).
           Inr (s\<lparr>dm_peers := (dm_peers s)[i := peer'],
                  dm_bufs := (dm_bufs s)[i := (dm_bufs s ! i)\<lparr>pb_base := []\<rparr>],
                  dm_db := db, dm_caches := cs,
                  dm_sent := dm_sent s @ (if sent = [] then [] else [(bp_fd peer, sent)])\<rparr>)))"

section \<open>A new connection\<close>

fun free_slot :: "bgp_peer list \<Rightarrow> nat option" where
  "free_slot [] = None"
| "free_slot (p # ps) = (if bp_fd p = 0 then Some 0 else map_option Suc (free_slot ps))"

text \<open>What is done to the batch when a peer is admitted.\<close>

definition batch_admit :: "int \<Rightarrow> bgp_peer_batch \<Rightarrow> bgp_peer_batch" where
  "batch_admit now b =
     (if bgp_batch_is_enabled (Some b) \<noteq> 0
      then let b = (if bgp_batch_is_expired now (Some b) \<noteq> 0 then bgp_batch_reset now b else b)
           in if bgp_batch_is_not_empty (Some b) \<noteq> 0 then bgp_batch_decrease_counter b else b
      else b)"

text \<open>The new peer enters the two lists of the cache.\<close>

definition cache_enter ::
  "nat \<Rightarrow> bgp_peer \<Rightarrow> peer_caches option \<Rightarrow> peer_caches option run" where
  "cache_enter max_peers peer cs =
     (case cs of None \<Rightarrow> Inr None
      | Some c \<Rightarrow>
          fbind (addr_hash (bp_addr peer) max_peers) (\<lambda>b.
          fbind (bgp_peer_cache_insert By_addr b (bp_idx peer) c) (\<lambda>c.
          fbind (addr_port_hash (bp_addr peer) (bp_tcp_port peer) max_peers) (\<lambda>b.
          fbind (bgp_peer_cache_insert By_port b (bp_idx peer) c) (\<lambda>c. Inr (Some c))))))"

text \<open>The address of a socket: an IPv4-mapped address becomes the IPv4 one, and an unknown family no address.\<close>

definition ipv4_mapped_to_ipv4 :: "host_addr \<Rightarrow> host_addr" where
  "ipv4_mapped_to_ipv4 sa =
     (if fst sa \<noteq> AF_INET6 \<or> take 12 (snd sa) \<noteq> replicate 10 0 @ [0xff, 0xff] then sa
      else (AF_INET, take 4 (drop 12 (snd sa))))"

definition sa_to_addr :: "host_addr \<Rightarrow> u16 \<Rightarrow> u16 \<Rightarrow> host_addr \<times> u16" where
  "sa_to_addr sa sa_port port =
     (if fst sa = AF_INET then (sa, sa_port)
      else if fst sa = AF_INET6 then (sa, sa_port)
      else ((0, []), port))"

text \<open>The slots are compared with the new one, \<open>i\<close>. A slot with the same address (and port, if ports are
  compared) is stale when its hold time has passed since its last keepalive, and then it is closed; else
  the new connection is, and the loop is left.\<close>

fun conflicts ::
  "daemon \<Rightarrow> bool \<Rightarrow> nat \<Rightarrow> nat \<Rightarrow> nat list \<Rightarrow> bgp_daemon \<Rightarrow> bgp_daemon run" where
  "conflicts d ports now i [] s = Inr s"
| "conflicts d ports now i (j # js) s =
     (let p = dm_peers s ! j; q = dm_peers s ! i
      in if i \<noteq> j \<and> bp_addr p = bp_addr q \<and> (ports \<longrightarrow> bp_tcp_port p = bp_tcp_port q)
         then if int (unat (bp_ht p)) < int now - int (bp_last_keepalive p)
              then fbind (close_slot d None j s) (conflicts d ports now i js)
              else close_slot d None i s
         else conflicts d ports now i js s)"

text \<open>What \<open>accept\<close> returns, and whether the list of allowed hosts admits it.\<close>

record connection =
  cn_fd :: nat
  cn_addr :: host_addr
  cn_port :: u16
  cn_allowed :: bool

definition daemon_accept ::
  "daemon \<Rightarrow> bool \<Rightarrow> nat \<Rightarrow> connection \<Rightarrow> bgp_daemon \<Rightarrow> bgp_daemon run" where
  "daemon_accept d ports now c s =
     (if \<not> cn_allowed c then Inr s
      else case free_slot (dm_peers s) of
        None \<Rightarrow> Inr s
      | Some i \<Rightarrow>
          if bgp_batch_is_admitted (int now) (Some (dm_batch s)) = 0 then Inr s
          else case bgp_peer_init FUNC_TYPE_BGP BGP_BUFFER_SIZE (dm_peers s ! i) (dm_bufs s ! i) of
            (ret, peer, buf) \<Rightarrow>
              if ret \<noteq> 0 then Inr s
              else
                let (ha, port) = sa_to_addr (ipv4_mapped_to_ipv4 (cn_addr c)) (cn_port c) (bp_tcp_port peer);
                    peer = peer\<lparr>bp_fd := cn_fd c, bp_idx := i, bp_addr := ha, bp_tcp_port := port\<rparr>;
                    s = s\<lparr>dm_recalc := True, dm_batch := batch_admit (int now) (dm_batch s),
                          dm_peers := (dm_peers s)[i := peer], dm_bufs := (dm_bufs s)[i := buf]\<rparr>
                in fbind (cache_enter (length (dm_peers s)) peer (dm_caches s)) (\<lambda>cs.
                     conflicts d ports now i [0..<length (dm_peers s)] (s\<lparr>dm_caches := cs\<rparr>)))"

section \<open>Reading from a peer\<close>

text \<open>The first slot whose socket is ready, from the one whose turn it is.\<close>

fun pick_slot :: "bgp_peer list \<Rightarrow> nat \<Rightarrow> nat \<Rightarrow> (nat \<Rightarrow> bool) \<Rightarrow> nat list \<Rightarrow> nat option" where
  "pick_slot peers max_idx rr ready [] = None"
| "pick_slot peers max_idx rr ready (i # is) =
     (let loc = (i + rr) mod max_idx
      in if bp_fd (peers ! loc) \<noteq> 0 \<and> ready (bp_fd (peers ! loc)) then Some loc
         else pick_slot peers max_idx rr ready is)"

definition daemon_read ::
  "nat \<Rightarrow> daemon \<Rightarrow> nat \<Rightarrow> (nat \<Rightarrow> bool) \<Rightarrow> u8 list \<Rightarrow> u8 list \<Rightarrow> bgp_daemon \<Rightarrow> bgp_daemon run" where
  "daemon_read fuel d now ready data1 data2 s =
     (case pick_slot (dm_peers s) (dm_max_idx s) (dm_rr s) ready [0..<dm_max_idx s] of
        None \<Rightarrow> Inr s
      | Some i \<Rightarrow>
          let peer = dm_peers s ! i
          in case peer_turn fuel (d\<lparr>d_peers := dm_peers s\<rparr>) now (dm_bufs s ! i) data1 data2
                   \<lparr>ss_peer = peer, ss_db = dm_db s, ss_sent = [], ss_count = 0\<rparr> of
               None \<Rightarrow> Inl OutOfFuel
             | Some r \<Rightarrow> fbind r (\<lambda>(turn, buf, ss).
                 let s = s\<lparr>dm_rr := (dm_rr s + 1) mod dm_max_idx s,
                           dm_peers := (dm_peers s)[i := ss_peer ss], dm_bufs := (dm_bufs s)[i := buf],
                           dm_db := ss_db ss, dm_sent := dm_sent s @ map (Pair (bp_fd peer)) (ss_sent ss)\<rparr>
                 in case turn of
                      Wait \<Rightarrow> Inr s
                    | Close n \<Rightarrow>
                        fbind (close_slot d (map_option (\<lambda>m. (m, BGP_NOTIFY_SUBCODE_UNSPECIFIC)) n) i s) (\<lambda>s.
                          Inr (s\<lparr>dm_recalc := True\<rparr>))))"

text \<open>One turn of the loop.\<close>

definition daemon_turn ::
  "nat \<Rightarrow> daemon \<Rightarrow> bool \<Rightarrow> nat \<Rightarrow> connection option \<Rightarrow> (nat \<Rightarrow> bool) \<Rightarrow> u8 list \<Rightarrow> u8 list \<Rightarrow> bgp_daemon
    \<Rightarrow> bgp_daemon run" where
  "daemon_turn fuel d ports now conn ready data1 data2 s =
     fbind (case conn of None \<Rightarrow> Inr (daemon_recalc s)
            | Some c \<Rightarrow> daemon_accept d ports now c (daemon_recalc s))
       (daemon_read fuel d now ready data1 data2)"

end
