(* ===== verification/BgpLookup.thy ===== *)
theory BgpLookup
  imports Rpki BgpDaemon
begin

text \<open>
  Looking routes up for flows (bgp\_lookup.c), of the BGP daemon: the peer that stands for the exporter
  of a flow, the longest match of its source and destination among the entries of that peer, the default
  route and the next hop followed from peer to peer, the queries of the looking glass, and the copies of
  the attributes as text between a packet and a cache. Logging is left out.
\<close>

section \<open>Addresses of sockets\<close>

definition ETHERTYPE_IP :: nat where "ETHERTYPE_IP = 0x0800"
definition ETHERTYPE_IPV6 :: nat where "ETHERTYPE_IPV6 = 0x86dd"

lemmas ethertypes = ETHERTYPE_IP_def ETHERTYPE_IPV6_def

text \<open>The port of a socket address is held in network order; \<open>ntohs\<close> swaps its octets.\<close>

record sockaddr =
  sa_addr :: host_addr
  sa_port :: u16

definition ntohs :: "u16 \<Rightarrow> u16" where
  "ntohs w = u16n (unat w mod 256 * 256 + unat w div 256)"

definition sa_addr_cmp :: "sockaddr \<Rightarrow> host_addr \<Rightarrow> int" where
  "sa_addr_cmp sa a =
     (let s = sa_addr sa
      in if fst a = AF_INET \<and> fst s = AF_INET
         then if le32 (snd s) = le32 (snd a) then 0 else if le32 (snd a) < le32 (snd s) then 1 else ERR
         else if fst a = AF_INET6 \<and> fst s = AF_INET6 then ip6_addr_cmp (snd s) (snd a)
         else if fst a = AF_INET \<and> fst s = AF_INET6 then ip6_addr_cmp (snd s) (v4_mapped (snd a))
         else if fst a = AF_INET6 \<and> fst s = AF_INET then ip6_addr_cmp (v4_mapped (snd s)) (snd a)
         else ERR)"

definition sa_port_cmp :: "sockaddr \<Rightarrow> u16 \<Rightarrow> int" where
  "sa_port_cmp sa port =
     (if fst (sa_addr sa) = AF_INET then if ntohs (sa_port sa) = port then 0 else 1
      else if fst (sa_addr sa) = AF_INET6 then if ntohs (sa_port sa) = port then 0 else 1
      else ERR)"

text \<open>The socket address of an IPv4 address, cleared before.\<close>

definition sockaddr_in :: "u8 list \<Rightarrow> sockaddr" where
  "sockaddr_in octets = \<lparr>sa_addr = (AF_INET, octets), sa_port = 0\<rparr>"

text \<open>A 32-bit address out of an identifier: its low half, as it lies in memory.\<close>

definition s_addr :: "u64 \<Rightarrow> u8 list" where
  "s_addr bta = rev (bytes32 (ucast bta))"

section \<open>The peer of an exporter\<close>

text \<open>Of the entry of the exporter, the slots found last (none: 0).\<close>

record xflow_status_entry =
  peer_v4_idx :: nat
  peer_v6_idx :: nat

definition get_peer_idx :: "nat \<Rightarrow> xflow_status_entry option \<Rightarrow> nat" where
  "get_peer_idx l3_proto xs =
     (case xs of None \<Rightarrow> 0
      | Some e \<Rightarrow> if l3_proto = ETHERTYPE_IP then peer_v4_idx e
                   else if l3_proto = ETHERTYPE_IPV6 then peer_v6_idx e else 0)"

definition put_peer_idx :: "nat \<Rightarrow> nat \<Rightarrow> xflow_status_entry option \<Rightarrow> xflow_status_entry option" where
  "put_peer_idx l3_proto i xs =
     (case xs of None \<Rightarrow> None
      | Some e \<Rightarrow> Some (if l3_proto = ETHERTYPE_IP then e\<lparr>peer_v4_idx := i\<rparr>
                         else if l3_proto = ETHERTYPE_IPV6 then e\<lparr>peer_v6_idx := i\<rparr> else e))"

text \<open>The port compared is that of slot \<open>j\<close>: the code names the slot of the entry, \<open>peer_idx\<close>, also in the
  loop over all slots, where it is 0.\<close>

definition peer_is :: "bgp_config \<Rightarrow> bgp_peer list \<Rightarrow> sockaddr \<Rightarrow> bool \<Rightarrow> nat \<Rightarrow> nat \<Rightarrow> bool" where
  "peer_is cfg peers sa compare_bgp_port j i \<longleftrightarrow>
     \<not> disable_router_id_check cfg \<and> sa_addr_cmp sa (bp_id (peers ! i)) = 0
     \<or> sa_addr_cmp sa (bp_addr (peers ! i)) = 0
       \<and> (\<not> compare_bgp_port \<or> sa_port_cmp sa (bp_tcp_port (peers ! j)) = 0)"

fun find_slot :: "(nat \<Rightarrow> bool) \<Rightarrow> nat list \<Rightarrow> nat option" where
  "find_slot P [] = None"
| "find_slot P (i # is) = (if P i then Some i else find_slot P is)"

definition bgp_lookup_find_bgp_peer ::
  "bgp_config \<Rightarrow> bgp_peer list \<Rightarrow> sockaddr \<Rightarrow> xflow_status_entry option \<Rightarrow> nat \<Rightarrow> bool
    \<Rightarrow> (nat option \<times> xflow_status_entry option) run" where
  "bgp_lookup_find_bgp_peer cfg peers sa xs_entry l3_proto compare_bgp_port =
     (let peer_idx = get_peer_idx l3_proto xs_entry
      in if peer_idx \<noteq> 0 then
           if length peers \<le> peer_idx then Inl OutOfBounds
           else if peer_is cfg peers sa compare_bgp_port peer_idx peer_idx then Inr (Some peer_idx, xs_entry)
           else Inr (None, put_peer_idx l3_proto 0 xs_entry)
         else case find_slot (peer_is cfg peers sa compare_bgp_port peer_idx) [0..<length peers] of
                None \<Rightarrow> Inr (None, xs_entry)
              | Some i \<Rightarrow> Inr (Some i, put_peer_idx l3_proto i xs_entry))"

section \<open>The entries that belong to a lookup\<close>

record node_match_cmp_term2 =
  nm_peer :: bgp_peer
  nm_afi :: nat
  nm_safi :: nat
  nm_rd :: "rd_t option"
  nm_peer_dst_ip :: "host_addr option"

text \<open>The conditions that are still to be met are counted up and down again; \<open>True\<close> is a difference.\<close>

definition next_hop_is :: "bgp_attr \<Rightarrow> host_addr \<Rightarrow> bool" where
  "next_hop_is x dst \<longleftrightarrow>
     (if fst (at_mp_nexthop x) \<noteq> 0 then host_addr_cmp (at_mp_nexthop x) dst = 0
      else le32 (at_nexthop x) \<noteq> 0 \<and> fst dst = AF_INET \<and> le32 (at_nexthop x) = le32 (snd dst))"

definition bgp_lookup_node_match_cmp_bgp ::
  "attr_db \<Rightarrow> node_match_cmp_term2 \<Rightarrow> bgp_info \<Rightarrow> bool run" where
  "bgp_lookup_node_match_cmp_bgp D nmct2 info =
     (if ri_peer info \<noteq> bp_idx (nm_peer nmct2) then Inr True
      else
        let vpn = (nm_safi nmct2 = SAFI_MPLS_VPN);
            paths = cap_of (nm_peer nmct2) (nm_afi nmct2) (nm_safi nmct2);
            no_match = (if vpn then 1 else 0) + (if paths \<and> nm_peer_dst_ip nmct2 \<noteq> None then 1 else 0 :: int)
        in fbind (if vpn then case ri_extra info of None \<Rightarrow> Inr no_match
                    | Some ex \<Rightarrow> (case nm_rd nmct2 of None \<Rightarrow> Inl NullDeref
                        | Some rd \<Rightarrow> Inr (if ax_rd ex = rd then no_match - 1 else no_match))
                  else Inr no_match) (\<lambda>no_match.
           fbind (if paths then case nm_peer_dst_ip nmct2 of None \<Rightarrow> Inr no_match
                    | Some dst \<Rightarrow> fbind (deref (attrhash D) (ri_attr info)) (\<lambda>x.
                        Inr (if next_hop_is x dst then no_match - 1 else no_match))
                  else Inr no_match) (\<lambda>no_match. Inr (no_match \<noteq> 0))))"

section \<open>The environment of a lookup\<close>

text \<open>
  What a lookup reads and does not write: the configuration, the databases' parameters, the array of
  peers, and two pieces of memory that nobody sets: octets behind an address (\<open>le_stray\<close>) and a socket
  address on the stack (\<open>le_junk\<close>). \<open>le_follow_nexthop\<close> is the configured array of prefixes up to its first
  cleared one, or all 32 of them. \<open>le_agent_map\<close> is the map from BGP peers to exporters (pretag.c) when
  there is one: the identifier it gives for an agent, zero for none.
\<close>

record lookup_env =
  le_cfg :: bgp_config
  le_bms :: misc_db
  le_stray :: u8
  le_junk :: sockaddr
  le_peers :: "bgp_peer list"
  le_rpki :: bool
  le_flow_collector :: bool
  le_compare_ports :: bool
  le_follow_default :: int
  le_follow_nexthop :: "prefix list"
  le_follow_nexthop_external :: bool
  le_agent_map :: "(sockaddr \<Rightarrow> u64) option"

text \<open>Of \<open>struct packet_ptrs\<close>, what a lookup reads; the addresses are those of the IP header, and
  \<open>pp_peer_dst_ip\<close> is what the handlers of the collectors (\<open>NF_peer_dst_ip_handler\<close>,
  \<open>SF_peer_dst_ip_handler\<close>) read from the flow.\<close>

record bgp_lookup_info =
  inner_ip_src :: "u8 list"
  inner_ip_dst :: "u8 list"
  inner_ipv6_src :: "u8 list"
  inner_ipv6_dst :: "u8 list"

definition PM_FTYPE_SRV6_IPV4 :: nat where "PM_FTYPE_SRV6_IPV4 = 22"
definition PM_FTYPE_SRV6_IPV6 :: nat where "PM_FTYPE_SRV6_IPV6 = 23"
definition NF_NET_BGP :: u8 where "NF_NET_BGP = 4"
definition RD_ORIGIN_MAP :: u16 where "RD_ORIGIN_MAP = 0x1000"

record packet_ptrs =
  pp_agent :: sockaddr
  pp_l3_proto :: nat
  pp_traffic_type :: nat
  pp_ip_src :: "u8 list"
  pp_ip_dst :: "u8 list"
  pp_bta_af :: nat
  pp_bta :: u64
  pp_bta2 :: u64
  pp_lookup_bgp_port :: "u16 option"
  pp_bitr :: rd_t
  pp_peer_dst_ip :: host_addr

text \<open>What it writes. A pointer to a node and the one to an entry of it are set and cleared together.\<close>

record lookup_side =
  sd_hit :: "(prefix \<times> bgp_info) option"
  sd_mask :: u8
  sd_method :: u8
  sd_roa :: u8

record lookup_state =
  ls_src :: lookup_side
  ls_dst :: lookup_side
  ls_info :: "bgp_info option"
  ls_peer :: "nat option"
  ls_nexthop_info :: "bgp_info option"
  ls_status :: "xflow_status_entry option"
  ls_db :: rt_db
  ls_roas :: "roa_db option"

section \<open>One address\<close>

text \<open>\<open>bgp_node_match_ipv4\<close> and \<open>bgp_node_match_ipv6\<close> with the comparison of this daemon; all matches are
  collected when origins are validated, for which there is a vector then.\<close>

definition addr_prefix :: "nat \<Rightarrow> u8 list \<Rightarrow> prefix" where
  "addr_prefix afi addr =
     (if afi = AFI_IP then \<lparr>p_family = AF_INET, p_len = 32, p_bytes = addr @ replicate 12 0\<rparr>
      else \<lparr>p_family = AF_INET6, p_len = 128, p_bytes = addr\<rparr>)"

definition match_entries ::
  "misc_db \<Rightarrow> u8 \<Rightarrow> node_match_cmp_term2 \<Rightarrow> nat \<Rightarrow> nat \<Rightarrow> prefix \<Rightarrow> bool \<Rightarrow> rt_db
    \<Rightarrow> ((prefix \<times> bgp_info) option \<times> (prefix \<times> bgp_info) list option \<times> rt_db) run" where
  "match_entries bms stray nmct2 afi safi p bnv db =
     fbind (bgp_route_info_modulo bms (nm_peer nmct2) (nm_rd nmct2) None (match_buckets bms)) (\<lambda>modulo.
     fbind (bgp_node_match_s bms stray (rt_rib db afi safi) p (Some (\<lambda>_. modulo))
              (\<lambda>info (). fbind (bgp_lookup_node_match_cmp_bgp (rt_attrs db) nmct2 info) (\<lambda>b. Inr (b, ()))) ()
              bnv) (\<lambda>(table, found, v, _).
       Inr (found, v, put_table afi safi table db)))"

text \<open>One side of a flow: looked up unless it was found before. The mask counts when it is not shorter
  than the one that is there.\<close>

definition side_lookup ::
  "lookup_env \<Rightarrow> node_match_cmp_term2 \<Rightarrow> nat \<Rightarrow> u8 list \<Rightarrow> lookup_side \<Rightarrow> lookup_state
    \<Rightarrow> (lookup_side \<times> lookup_state) run" where
  "side_lookup E nmct2 afi addr side s =
     (if sd_hit side \<noteq> None then Inr (side, s)
      else fbind (match_entries (le_bms E) (le_stray E) nmct2 afi (nm_safi nmct2) (addr_prefix afi addr) (le_rpki E)
                    (ls_db s)) (\<lambda>(result, bnv, db).
           let s = s\<lparr>ls_db := db, ls_info := map_option snd result\<rparr>
           in case result of None \<Rightarrow> Inr (side, s)
              | Some (q, info) \<Rightarrow>
                  let side = side\<lparr>sd_hit := Some (q, info)\<rparr>
                  in if unat (sd_mask side) \<le> p_len q then
                       let side = side\<lparr>sd_mask := u8n (p_len q), sd_method := NF_NET_BGP\<rparr>
                       in if le_rpki E
                          then fbind (rpki_vector_prefix_lookup (route_origin (rt_attrs db) (le_peers E)) (le_stray E)
                                        bnv (ls_roas s)) (\<lambda>(roa, roas).
                                 Inr (side\<lparr>sd_roa := roa\<rparr>, s\<lparr>ls_roas := roas\<rparr>))
                          else Inr (side, s)
                     else Inr (side, s)))"

text \<open>Which addresses those are: of the packet, or of the one inside a tunnel.\<close>

definition lookup_addrs ::
  "bgp_lookup_info option \<Rightarrow> packet_ptrs \<Rightarrow> (nat \<times> u8 list \<times> u8 list) option run" where
  "lookup_addrs bl_info pp =
     (if pp_l3_proto pp = ETHERTYPE_IP then Inr (Some (AFI_IP, pp_ip_src pp, pp_ip_dst pp))
      else if pp_l3_proto pp = ETHERTYPE_IPV6 then
        if pp_traffic_type pp = PM_FTYPE_SRV6_IPV4 then
          case bl_info of None \<Rightarrow> Inl NullDeref
          | Some b \<Rightarrow> Inr (Some (AFI_IP, inner_ip_src b, inner_ip_dst b))
        else if pp_traffic_type pp = PM_FTYPE_SRV6_IPV6 then
          case bl_info of None \<Rightarrow> Inl NullDeref
          | Some b \<Rightarrow> Inr (Some (AFI_IP6, inner_ipv6_src b, inner_ipv6_dst b))
        else Inr (Some (AFI_IP6, pp_ip_src pp, pp_ip_dst pp))
      else Inr None)"

text \<open>Both sides, in the tables of one SAFI.\<close>

definition lookup_pass ::
  "lookup_env \<Rightarrow> bgp_lookup_info option \<Rightarrow> packet_ptrs \<Rightarrow> bgp_peer \<Rightarrow> host_addr \<Rightarrow> rd_t \<Rightarrow> nat \<Rightarrow> lookup_state
    \<Rightarrow> lookup_state run" where
  "lookup_pass E bl_info pp peer peer_dst_ip rd safi s =
     fbind (lookup_addrs bl_info pp) (\<lambda>addrs.
       case addrs of None \<Rightarrow> Inr s
       | Some (afi, src, dst) \<Rightarrow>
           let nmct2 = \<lparr>nm_peer = peer, nm_afi = afi, nm_safi = safi, nm_rd = Some rd, nm_peer_dst_ip = None\<rparr>
           in fbind (side_lookup E nmct2 afi src (ls_src s) s) (\<lambda>(side, s).
              let s = s\<lparr>ls_src := side\<rparr>
              in fbind (side_lookup E (nmct2\<lparr>nm_peer_dst_ip := Some peer_dst_ip\<rparr>) afi dst (ls_dst s) s) (\<lambda>(side, s).
                   Inr (s\<lparr>ls_dst := side\<rparr>))))"

definition found_both :: "lookup_state \<Rightarrow> bool" where
  "found_both s \<longleftrightarrow> sd_hit (ls_src s) \<noteq> None \<and> sd_hit (ls_dst s) \<noteq> None"

text \<open>The tables of the route distinguisher, or the unicast ones, and then those of labelled routes (the
  daemon has a table for each of them). The result names the SAFI of the last ones.\<close>

definition lookup_passes ::
  "lookup_env \<Rightarrow> bgp_lookup_info option \<Rightarrow> packet_ptrs \<Rightarrow> bgp_peer \<Rightarrow> host_addr \<Rightarrow> rd_t \<Rightarrow> nat \<Rightarrow> lookup_state
    \<Rightarrow> (nat \<times> lookup_state) run" where
  "lookup_passes E bl_info pp peer peer_dst_ip rd safi s =
     fbind (lookup_pass E bl_info pp peer peer_dst_ip rd safi s) (\<lambda>s.
       if \<not> found_both s \<and> safi \<noteq> SAFI_MPLS_LABEL \<and> pp_l3_proto pp \<in> {ETHERTYPE_IP, ETHERTYPE_IPV6}
       then fbind (lookup_pass E bl_info pp peer peer_dst_ip rd SAFI_MPLS_LABEL s) (\<lambda>s. Inr (SAFI_MPLS_LABEL, s))
       else Inr (safi, s))"

section \<open>All matches of a prefix\<close>

text \<open>\<open>bgp_lookup_node_vector_unicast\<close>: the vector of a network and all that contain it, for the peer. There
  is no table for another family, and the vector stays as it is.\<close>

definition bgp_lookup_node_vector_unicast ::
  "misc_db \<Rightarrow> u8 \<Rightarrow> prefix option \<Rightarrow> bgp_peer option \<Rightarrow> (prefix \<times> bgp_info) list option \<Rightarrow> rt_db
    \<Rightarrow> (int \<times> (prefix \<times> bgp_info) list option \<times> rt_db) run" where
  "bgp_lookup_node_vector_unicast bms stray p peer bnv db =
     (case (p, peer, bnv) of
        (Some p, Some peer, Some v) \<Rightarrow>
          if \<not> peer_ok (Some peer) then Inr (ERR, bnv, db)
          else
            let afi = family2afi (p_family p);
                nmct2 = \<lparr>nm_peer = peer, nm_afi = afi, nm_safi = SAFI_UNICAST, nm_rd = None, nm_peer_dst_ip = None\<rparr>
            in if afi = 0 then Inr (SUCCESS, bnv, db)
               else fbind (match_entries bms stray nmct2 afi SAFI_UNICAST p True db) (\<lambda>(_, v, db).
                      Inr (SUCCESS, v, db))
      | _ \<Rightarrow> Inr (ERR, bnv, db))"

section \<open>Following the next hop\<close>

definition MAX_HOPS_FOLLOW_NH :: nat where "MAX_HOPS_FOLLOW_NH = 20"
definition MAX_NH_SELF_REFERENCES :: nat where "MAX_NH_SELF_REFERENCES = 1"

text \<open>The next hop of an entry, as the prefix that is matched; the one of MP\_REACH\_NLRI comes first.\<close>

definition next_hop :: "bgp_attr \<Rightarrow> prefix" where
  "next_hop x =
     (if fst (at_mp_nexthop x) = AF_INET then addr_prefix AFI_IP (snd (at_mp_nexthop x))
      else if fst (at_mp_nexthop x) = AF_INET6 then addr_prefix AFI_IP6 (snd (at_mp_nexthop x))
      else addr_prefix AFI_IP (at_nexthop x))"

text \<open>The socket address of a next hop. It is written to a \<open>struct sockaddr\<close> of 16 octets, where an IPv6
  address, which begins behind the eighth, does not fit.\<close>

definition next_hop_sockaddr :: "bgp_attr \<Rightarrow> sockaddr run" where
  "next_hop_sockaddr x =
     (if fst (at_mp_nexthop x) = AF_INET then Inr (sockaddr_in (snd (at_mp_nexthop x)))
      else if fst (at_mp_nexthop x) = AF_INET6 then Inl OutOfBounds
      else Inr (sockaddr_in (at_nexthop x)))"

text \<open>The first four octets of the address of a peer, as a host prefix.\<close>

definition peer_host :: "bgp_peer \<Rightarrow> prefix" where
  "peer_host peer = addr_prefix AFI_IP (take 4 (snd (bp_addr peer) @ replicate 4 0))"

definition nh_peer_is :: "lookup_env \<Rightarrow> sockaddr \<Rightarrow> nat \<Rightarrow> bool" where
  "nh_peer_is E sa i \<longleftrightarrow> sa_addr_cmp sa (bp_addr (le_peers E ! i)) = 0
     \<or> \<not> disable_router_id_check (le_cfg E) \<and> sa_addr_cmp sa (bp_id (le_peers E ! i)) = 0"

definition map_agent :: "lookup_env \<Rightarrow> sockaddr \<Rightarrow> sockaddr" where
  "map_agent E sa =
     (case le_agent_map E of None \<Rightarrow> sa
      | Some f \<Rightarrow> if f sa = 0 then sa else sa\<lparr>sa_addr := (AF_INET, s_addr (f sa))\<rparr>)"

text \<open>The node of the destination, looked up among the unicast routes of the first peer.\<close>

definition nexthop_node ::
  "lookup_env \<Rightarrow> packet_ptrs \<Rightarrow> bgp_peer \<Rightarrow> prefix option \<Rightarrow> rt_db \<Rightarrow> (prefix option \<times> rt_db) run" where
  "nexthop_node E pp nh_peer result_node db =
     (let nmct2 = \<lparr>nm_peer = nh_peer, nm_afi = 0, nm_safi = 0, nm_rd = Some rd_zero, nm_peer_dst_ip = Some (0, [])\<rparr>;
          look = (\<lambda>afi. fbind (match_entries (le_bms E) (le_stray E) nmct2 afi SAFI_UNICAST
                                 (addr_prefix afi (pp_ip_dst pp)) False db)
                     (\<lambda>(result, _, db). Inr (map_option fst result, db)))
      in if result_node \<noteq> None then Inr (result_node, db)
         else if pp_l3_proto pp = ETHERTYPE_IP then look AFI_IP
         else if pp_l3_proto pp = ETHERTYPE_IPV6 then look AFI_IP6
         else Inr (None, db))"

text \<open>The entry of the peer at that node, in the first of its buckets: the code goes over all of them,
  and reads the first one each time.\<close>

definition nexthop_entry ::
  "lookup_env \<Rightarrow> packet_ptrs \<Rightarrow> bgp_peer \<Rightarrow> prefix option \<Rightarrow> rt_db \<Rightarrow> bgp_info option run" where
  "nexthop_entry E pp nh_peer result_node db =
     (case result_node of None \<Rightarrow> Inr None
      | Some k \<Rightarrow>
          fbind (bgp_route_info_modulo (le_bms E) nh_peer None None (table_per_peer_buckets (le_bms E))) (\<lambda>modulo.
          fbind (get_chain (le_stray E)
                   (rt_rib db (if pp_l3_proto pp = ETHERTYPE_IP then AFI_IP else AFI_IP6) SAFI_UNICAST) k modulo)
            (\<lambda>chain. Inr (find (\<lambda>info. ri_peer info = bp_idx nh_peer) chain))))"

fun follow_hops ::
  "lookup_env \<Rightarrow> packet_ptrs \<Rightarrow> nat \<Rightarrow> nat \<Rightarrow> sockaddr \<Rightarrow> prefix option \<Rightarrow> bgp_info option \<Rightarrow> rt_db
    \<Rightarrow> (bgp_info option \<times> rt_db) run" where
  "follow_hops E pp ttl self sa result_node saved_info db =
     (let sa = map_agent E sa
      in case find_slot (nh_peer_is E sa) [0..<length (le_peers E)] of
           None \<Rightarrow> Inr (saved_info, db)
         | Some i \<Rightarrow>
             let nh_peer = le_peers E ! i
             in fbind (nexthop_node E pp nh_peer result_node db) (\<lambda>(result_node, db).
                fbind (nexthop_entry E pp nh_peer result_node db) (\<lambda>info.
                  case info of None \<Rightarrow> Inr (saved_info, db)
                  | Some ri \<Rightarrow> fbind (deref (attrhash (rt_attrs db)) (ri_attr ri)) (\<lambda>x.
                      let nh = next_hop x;
                          matched = list_ex (\<lambda>p. prefix_match p nh) (le_follow_nexthop E);
                          stop = Inr (if le_follow_nexthop_external E then Some ri else saved_info, db)
                      in if \<not> matched \<or> self = 0 then stop
                         else case ttl of 0 \<Rightarrow> stop
                              | Suc ttl \<Rightarrow>
                                  let self = (if prefix_match (peer_host nh_peer) nh then self - 1 else self)
                                  in fbind (next_hop_sockaddr x) (\<lambda>sa.
                                       follow_hops E pp ttl self sa result_node (Some ri) db)))))"

definition bgp_follow_nexthop_lookup :: "lookup_env \<Rightarrow> packet_ptrs \<Rightarrow> lookup_state \<Rightarrow> lookup_state run" where
  "bgp_follow_nexthop_lookup E pp s =
     fbind (follow_hops E pp MAX_HOPS_FOLLOW_NH MAX_NH_SELF_REFERENCES (pp_agent pp) None None (ls_db s))
       (\<lambda>(saved_info, db).
         let s = s\<lparr>ls_db := db\<rparr>
         in Inr (if saved_info \<noteq> None then s\<lparr>ls_nexthop_info := saved_info\<rparr> else s))"

section \<open>Source and destination of a flow\<close>

text \<open>The socket address of the exporter: the one given by a map, or that of the flow. What nobody sets of
  the first is the port when the map names none, and everything when its family is another one.\<close>

definition exporter :: "lookup_env \<Rightarrow> packet_ptrs \<Rightarrow> (sockaddr \<times> bool) run" where
  "exporter E pp =
     (if pp_bta pp = 0 \<and> pp_bta2 pp = 0 then Inr (pp_agent pp, le_compare_ports E)
      else if pp_bta_af pp = ETHERTYPE_IP then
        Inr (case pp_lookup_bgp_port pp of
               None \<Rightarrow> ((le_junk E)\<lparr>sa_addr := (AF_INET, s_addr (pp_bta pp))\<rparr>, le_compare_ports E)
             | Some n \<Rightarrow> (\<lparr>sa_addr = (AF_INET, s_addr (pp_bta pp)), sa_port = n\<rparr>, True))
      else if pp_bta_af pp = ETHERTYPE_IPV6 then Inl OutOfBounds
      else Inr (le_junk E, le_compare_ports E))"

text \<open>The route distinguisher of the flow, and the SAFI that it calls for. Without one both stay what they
  are, also from one round to the next.\<close>

definition flow_rd :: "packet_ptrs \<Rightarrow> rd_t \<Rightarrow> nat \<Rightarrow> rd_t \<times> nat" where
  "flow_rd pp rd safi =
     (if pp_bitr pp = rd_zero then (rd, safi)
      else if rd_as (pp_bitr pp) = 0 \<and> rd_val (pp_bitr pp) = 0
              \<and> bgp_rd_origin_get (rd_type (pp_bitr pp)) = RD_ORIGIN_MAP
      then (rd_zero, SAFI_UNICAST)
      else (bgp_rd_origin_set (pp_bitr pp) RD_ORIGIN_BGP, SAFI_MPLS_VPN))"

definition flow_dst_ip :: "lookup_env \<Rightarrow> packet_ptrs \<Rightarrow> bgp_peer \<Rightarrow> host_addr" where
  "flow_dst_ip E pp peer =
     (if (cap_of peer AFI_IP SAFI_UNICAST \<or> cap_of peer AFI_IP6 SAFI_UNICAST) \<and> le_flow_collector E
      then pp_peer_dst_ip pp else (0, []))"

text \<open>A side whose match is the default network is looked up again.\<close>

definition default_prefix :: "nat \<Rightarrow> prefix" where
  "default_prefix l3_proto =
     \<lparr>p_family = (if l3_proto = ETHERTYPE_IP then AF_INET else AF_INET6), p_len = 0, p_bytes = replicate 16 0\<rparr>"

definition is_default :: "packet_ptrs \<Rightarrow> lookup_side \<Rightarrow> bool" where
  "is_default pp side \<longleftrightarrow> pp_l3_proto pp \<in> {ETHERTYPE_IP, ETHERTYPE_IPV6}
     \<and> (case sd_hit side of None \<Rightarrow> False | Some (q, _) \<Rightarrow> prefix_match q (default_prefix (pp_l3_proto pp)))"

definition drop_default :: "packet_ptrs \<Rightarrow> lookup_side \<Rightarrow> lookup_side" where
  "drop_default pp side = (if is_default pp side then side\<lparr>sd_hit := None\<rparr> else side)"

text \<open>One round: the peer, its tables, the default route. The rounds are as many as \<open>follow_default\<close> allows,
  if it is not negative; \<open>fuel\<close> bounds them for the model. The next hop is that of \<open>info\<close>, the entry found
  by the last lookup.\<close>

fun lookup_rounds ::
  "nat \<Rightarrow> lookup_env \<Rightarrow> bgp_lookup_info option \<Rightarrow> packet_ptrs \<Rightarrow> sockaddr \<Rightarrow> bool \<Rightarrow> int \<Rightarrow> rd_t \<Rightarrow> nat
    \<Rightarrow> lookup_state \<Rightarrow> lookup_state run" where
  "lookup_rounds 0 E bl_info pp sa compare_bgp_port follow_default rd safi s = Inl OutOfFuel"
| "lookup_rounds (Suc fuel) E bl_info pp sa compare_bgp_port follow_default rd safi s =
     fbind (bgp_lookup_find_bgp_peer (le_cfg E) (le_peers E) sa (ls_status s) (pp_l3_proto pp) compare_bgp_port)
       (\<lambda>(found, status).
         let s = s\<lparr>ls_peer := found, ls_status := status\<rparr>
         in case found of None \<Rightarrow> Inr s
            | Some i \<Rightarrow>
                let peer = le_peers E ! i; (rd, safi) = flow_rd pp rd safi
                in fbind (lookup_passes E bl_info pp peer (flow_dst_ip E pp peer) rd safi s) (\<lambda>(safi, s).
                   let finish = (\<lambda>s.
                         if le_follow_nexthop E \<noteq> [] \<and> sd_hit (ls_dst s) \<noteq> None \<and> safi \<noteq> SAFI_MPLS_VPN
                         then bgp_follow_nexthop_lookup E pp s else Inr s)
                   in if follow_default = 0 \<or> safi = SAFI_MPLS_VPN then finish s
                      else
                        let default = is_default pp (ls_src s) \<or> is_default pp (ls_dst s);
                            s = s\<lparr>ls_src := drop_default pp (ls_src s), ls_dst := drop_default pp (ls_dst s)\<rparr>
                        in if found_both s \<or> \<not> default then finish s
                           else case ls_info s of None \<Rightarrow> finish s
                                | Some ri \<Rightarrow>
                                    fbind (deref (attrhash (rt_attrs (ls_db s))) (ri_attr ri)) (\<lambda>x.
                                    fbind (next_hop_sockaddr x) (\<lambda>sa.
                                      lookup_rounds fuel E bl_info pp sa False (follow_default - 1) rd safi s))))"

text \<open>\<open>bgp_srcdst_lookup\<close>, for packets whose masks, methods and states of origin are those of \<open>s\<close>.\<close>

definition bgp_srcdst_lookup ::
  "nat \<Rightarrow> lookup_env \<Rightarrow> bgp_lookup_info option \<Rightarrow> packet_ptrs \<Rightarrow> lookup_state \<Rightarrow> lookup_state run" where
  "bgp_srcdst_lookup fuel E bl_info pp s =
     fbind (exporter E pp) (\<lambda>(sa, compare_bgp_port).
       lookup_rounds fuel E bl_info pp sa compare_bgp_port (le_follow_default E) rd_zero SAFI_UNICAST
         (s\<lparr>ls_src := (ls_src s)\<lparr>sd_hit := None\<rparr>, ls_dst := (ls_dst s)\<lparr>sd_hit := None\<rparr>, ls_info := None,
            ls_peer := None, ls_nexthop_info := None\<rparr>))"

end
