(* ===== verification/LookingGlass.thy ===== *)
theory LookingGlass
  imports BgpLookup
begin

text \<open>
  What bgp\_lookup.c does for others than the flows: the two queries of the looking glass (a prefix
  looked up for a peer, the list of peers), and the texts of BGP attributes copied from a packet into
  the cache of a plugin and back.
\<close>

section \<open>The looking glass\<close>

definition BGP_LOOKUP_OK :: int where "BGP_LOOKUP_OK = 0"
definition BGP_LOOKUP_NOPREFIX :: int where "BGP_LOOKUP_NOPREFIX = 1"
definition BGP_LOOKUP_NOPEER :: int where "BGP_LOOKUP_NOPEER = 2"
definition BGP_LOOKUP_NOEOR :: int where "BGP_LOOKUP_NOEOR = 3"
definition BGP_LOOKUP_ERR :: int where "BGP_LOOKUP_ERR = -1"

lemmas lookup_results = BGP_LOOKUP_OK_def BGP_LOOKUP_NOPREFIX_def BGP_LOOKUP_NOPEER_def BGP_LOOKUP_NOEOR_def
  BGP_LOOKUP_ERR_def

record bgp_lg_req_ipl_data =
  lq_peer :: sockaddr
  lq_pref :: prefix
  lq_rd :: rd_t

text \<open>A reply is its list of results; the count of them, which the code keeps beside, is the length.\<close>

record bgp_lg_rep_ipl_data =
  lr_afi :: nat
  lr_safi :: nat
  lr_pref :: prefix
  lr_info :: bgp_info

definition bgp_lg_rep_init :: "'r list \<Rightarrow> 'r list" where
  "bgp_lg_rep_init rep = []"

definition bgp_lg_rep_data_add :: "'r list \<Rightarrow> 'r \<Rightarrow> 'r list" where
  "bgp_lg_rep_data_add rep data = rep @ [data]"

definition bgp_lg_rep_ipl_data_add ::
  "bgp_lg_rep_ipl_data list \<Rightarrow> nat \<Rightarrow> nat \<Rightarrow> prefix \<Rightarrow> bgp_info \<Rightarrow> bgp_lg_rep_ipl_data list" where
  "bgp_lg_rep_ipl_data_add rep afi safi pref info =
     bgp_lg_rep_data_add rep \<lparr>lr_afi = afi, lr_safi = safi, lr_pref = pref, lr_info = info\<rparr>"

definition bgp_lg_rep_gp_data_add :: "nat list \<Rightarrow> bgp_peer \<Rightarrow> nat list" where
  "bgp_lg_rep_gp_data_add rep peer = bgp_lg_rep_data_add rep (bp_idx peer)"

text \<open>The peer that a query names: by its address, or by address and port when there is one. The query has
  room for a \<open>struct sockaddr\<close> of 16 octets, and an IPv6 address is read from behind it.\<close>

definition lg_peer :: "bgp_peer list \<Rightarrow> peer_caches \<Rightarrow> sockaddr \<Rightarrow> nat option run" where
  "lg_peer peers caches sa =
     (if fst (sa_addr sa) = AF_INET6 then Inl OutOfBounds
      else case sa_to_addr (sa_addr sa) (ntohs (sa_port sa)) 0 of
        (peer_ha, peer_port) \<Rightarrow>
          if peer_port = 0
          then fbind (addr_hash peer_ha (length peers)) (\<lambda>bucket.
                 bgp_peer_cache_search peers By_addr bucket peer_ha 0 caches)
          else fbind (addr_port_hash peer_ha peer_port (length peers)) (\<lambda>bucket.
                 bgp_peer_cache_search peers By_port bucket peer_ha peer_port caches))"

text \<open>The tables asked are those of the route distinguisher or the unicast ones, then those of labelled
  routes. The AFI of the comparison is that of IPv4 in any case.\<close>

fun lg_tables ::
  "misc_db \<Rightarrow> u8 \<Rightarrow> bgp_peer \<Rightarrow> bgp_lg_req_ipl_data \<Rightarrow> nat \<Rightarrow> nat list \<Rightarrow> rt_db
    \<Rightarrow> (int \<times> bgp_lg_rep_ipl_data list \<times> rt_db) run" where
  "lg_tables bms stray peer req afi [] db = Inr (BGP_LOOKUP_NOPREFIX, [], db)"
| "lg_tables bms stray peer req afi (safi # safis) db =
     fbind (match_entries bms stray
              \<lparr>nm_peer = peer, nm_afi = AFI_IP, nm_safi = safi, nm_rd = Some (lq_rd req), nm_peer_dst_ip = None\<rparr>
              afi safi (lq_pref req) False db) (\<lambda>(result, _, db).
       case result of
         Some (q, info) \<Rightarrow> Inr (BGP_LOOKUP_OK, bgp_lg_rep_ipl_data_add [] afi safi q info, db)
       | None \<Rightarrow> lg_tables bms stray peer req afi safis db)"

definition rd_as4_as :: "rd_t \<Rightarrow> u32" where
  "rd_as4_as rd = ucast (rd_as rd) OR push_bit 16 (rd_val rd)"

definition bgp_lg_daemon_ip_lookup ::
  "misc_db \<Rightarrow> u8 \<Rightarrow> bgp_peer list \<Rightarrow> peer_caches \<Rightarrow> bgp_lg_req_ipl_data \<Rightarrow> rt_db
    \<Rightarrow> (int \<times> bgp_lg_rep_ipl_data list \<times> rt_db) run" where
  "bgp_lg_daemon_ip_lookup bms stray peers caches req db =
     fbind (lg_peer peers caches (lq_peer req)) (\<lambda>found.
       case found of None \<Rightarrow> Inr (BGP_LOOKUP_NOPEER, [], db)
       | Some i \<Rightarrow>
           let peer = peers ! i;
               afi = family2afi (p_family (lq_pref req));
               safi = (if rd_as4_as (lq_rd req) \<noteq> 0 then SAFI_MPLS_VPN else SAFI_UNICAST)
           in if afi = 0 then Inr (BGP_LOOKUP_OK, [], db)
              else if \<not> bp_eor peer afi SAFI_UNICAST then Inr (BGP_LOOKUP_NOEOR, [], db)
              else lg_tables bms stray peer req afi [safi, SAFI_MPLS_LABEL] db)"

text \<open>Every slot whose socket is open.\<close>

definition bgp_lg_daemon_get_peers :: "nat list option \<Rightarrow> bgp_peer list option \<Rightarrow> int \<times> nat list option" where
  "bgp_lg_daemon_get_peers rep peers =
     (case (rep, peers) of
        (Some rep, Some peers) \<Rightarrow>
          (BGP_LOOKUP_OK,
           Some (fold (\<lambda>peer rep. if bp_fd peer \<noteq> 0 then bgp_lg_rep_gp_data_add rep peer else rep) peers rep))
      | _ \<Rightarrow> (BGP_LOOKUP_ERR, rep))"

section \<open>The texts of attributes\<close>

definition MAX_BGP_STD_COMMS :: nat where "MAX_BGP_STD_COMMS = 96"
definition MAX_BGP_EXT_COMMS :: nat where "MAX_BGP_EXT_COMMS = 96"
definition MAX_BGP_LRG_COMMS :: nat where "MAX_BGP_LRG_COMMS = 96"
definition MAX_BGP_ASPATH :: nat where "MAX_BGP_ASPATH = 128"

definition COUNT_STD_COMM :: u64 where "COUNT_STD_COMM = 0x0000000004000000"
definition COUNT_EXT_COMM :: u64 where "COUNT_EXT_COMM = 0x0000000008000000"
definition COUNT_LRG_COMM :: u64 where "COUNT_LRG_COMM = 0x0000000000040000"
definition COUNT_AS_PATH :: u64 where "COUNT_AS_PATH = 0x0000000010000000"
definition COUNT_SRC_STD_COMM :: u64 where "COUNT_SRC_STD_COMM = 0x0000002000000000"
definition COUNT_SRC_EXT_COMM :: u64 where "COUNT_SRC_EXT_COMM = 0x0000004000000000"
definition COUNT_SRC_LRG_COMM :: u64 where "COUNT_SRC_LRG_COMM = 0x0000000000080000"
definition COUNT_SRC_AS_PATH :: u64 where "COUNT_SRC_AS_PATH = 0x0000001000000000"

text \<open>The arrays of a packet, and the copies of them that a cache allocates.\<close>

record pkt_legacy_bgp_primitives =
  pl_std_comms :: "u8 list"
  pl_ext_comms :: "u8 list"
  pl_lrg_comms :: "u8 list"
  pl_as_path :: "u8 list"
  pl_src_std_comms :: "u8 list"
  pl_src_ext_comms :: "u8 list"
  pl_src_lrg_comms :: "u8 list"
  pl_src_as_path :: "u8 list"

record cache_legacy_bgp_primitives =
  cl_std_comms :: "u8 list option"
  cl_ext_comms :: "u8 list option"
  cl_lrg_comms :: "u8 list option"
  cl_as_path :: "u8 list option"
  cl_src_std_comms :: "u8 list option"
  cl_src_ext_comms :: "u8 list option"
  cl_src_lrg_comms :: "u8 list option"
  cl_src_as_path :: "u8 list option"

text \<open>Copying the first \<open>n\<close> octets into an allocated block, and from one into a cleared array.\<close>

definition to_cache :: "bool \<Rightarrow> nat \<Rightarrow> u8 list \<Rightarrow> u8 list option" where
  "to_cache counted n field = (if counted then Some (take n field) else None)"

definition to_packet :: "nat \<Rightarrow> u8 list option \<Rightarrow> u8 list" where
  "to_packet n field = (case field of None \<Rightarrow> replicate n 0 | Some v \<Rightarrow> take n v)"

definition pkt_to_cache_legacy_bgp_primitives ::
  "cache_legacy_bgp_primitives option \<Rightarrow> pkt_legacy_bgp_primitives option \<Rightarrow> u64 \<Rightarrow> u64
    \<Rightarrow> cache_legacy_bgp_primitives option" where
  "pkt_to_cache_legacy_bgp_primitives c p what_to_count what_to_count_2 =
     (case (c, p) of
        (Some c, Some p) \<Rightarrow> Some
          \<lparr>cl_std_comms = to_cache (what_to_count AND COUNT_STD_COMM \<noteq> 0) MAX_BGP_STD_COMMS (pl_std_comms p),
           cl_ext_comms = to_cache (what_to_count AND COUNT_EXT_COMM \<noteq> 0) MAX_BGP_EXT_COMMS (pl_ext_comms p),
           cl_lrg_comms = to_cache (what_to_count_2 AND COUNT_LRG_COMM \<noteq> 0) MAX_BGP_LRG_COMMS (pl_lrg_comms p),
           cl_as_path = to_cache (what_to_count AND COUNT_AS_PATH \<noteq> 0) MAX_BGP_ASPATH (pl_as_path p),
           cl_src_std_comms =
             to_cache (what_to_count AND COUNT_SRC_STD_COMM \<noteq> 0) MAX_BGP_STD_COMMS (pl_src_std_comms p),
           cl_src_ext_comms =
             to_cache (what_to_count AND COUNT_SRC_EXT_COMM \<noteq> 0) MAX_BGP_EXT_COMMS (pl_src_ext_comms p),
           cl_src_lrg_comms =
             to_cache (what_to_count_2 AND COUNT_SRC_LRG_COMM \<noteq> 0) MAX_BGP_LRG_COMMS (pl_src_lrg_comms p),
           cl_src_as_path = to_cache (what_to_count AND COUNT_SRC_AS_PATH \<noteq> 0) MAX_BGP_ASPATH (pl_src_as_path p)\<rparr>
      | _ \<Rightarrow> c)"

definition cache_to_pkt_legacy_bgp_primitives ::
  "pkt_legacy_bgp_primitives option \<Rightarrow> cache_legacy_bgp_primitives option
    \<Rightarrow> pkt_legacy_bgp_primitives option" where
  "cache_to_pkt_legacy_bgp_primitives p c =
     (case (p, c) of
        (Some _, Some c) \<Rightarrow> Some
          \<lparr>pl_std_comms = to_packet MAX_BGP_STD_COMMS (cl_std_comms c),
           pl_ext_comms = to_packet MAX_BGP_EXT_COMMS (cl_ext_comms c),
           pl_lrg_comms = to_packet MAX_BGP_LRG_COMMS (cl_lrg_comms c),
           pl_as_path = to_packet MAX_BGP_ASPATH (cl_as_path c),
           pl_src_std_comms = to_packet MAX_BGP_STD_COMMS (cl_src_std_comms c),
           pl_src_ext_comms = to_packet MAX_BGP_EXT_COMMS (cl_src_ext_comms c),
           pl_src_lrg_comms = to_packet MAX_BGP_LRG_COMMS (cl_src_lrg_comms c),
           pl_src_as_path = to_packet MAX_BGP_ASPATH (cl_src_as_path c)\<rparr>
      | _ \<Rightarrow> p)"

definition free_cache_legacy_bgp_primitives ::
  "cache_legacy_bgp_primitives option \<Rightarrow> cache_legacy_bgp_primitives option" where
  "free_cache_legacy_bgp_primitives c = None"

text \<open>What was counted comes back, and zeros for the rest, whatever was in the cache before.\<close>

definition pkt_fits :: "pkt_legacy_bgp_primitives \<Rightarrow> bool" where
  "pkt_fits p \<longleftrightarrow> length (pl_std_comms p) = 96 \<and> length (pl_ext_comms p) = 96 \<and> length (pl_lrg_comms p) = 96
     \<and> length (pl_as_path p) = 128 \<and> length (pl_src_std_comms p) = 96 \<and> length (pl_src_ext_comms p) = 96
     \<and> length (pl_src_lrg_comms p) = 96 \<and> length (pl_src_as_path p) = 128"

lemma to_packet_cache: "to_packet n (to_cache b n v) = (if b then take n v else replicate n 0)"
  by (simp add: to_packet_def to_cache_def)

lemma cache_roundtrip:
  assumes "pkt_fits p"
    and "w AND COUNT_STD_COMM \<noteq> 0" "w AND COUNT_EXT_COMM \<noteq> 0" "w2 AND COUNT_LRG_COMM \<noteq> 0" "w AND COUNT_AS_PATH \<noteq> 0"
    "w AND COUNT_SRC_STD_COMM \<noteq> 0" "w AND COUNT_SRC_EXT_COMM \<noteq> 0" "w2 AND COUNT_SRC_LRG_COMM \<noteq> 0"
    "w AND COUNT_SRC_AS_PATH \<noteq> 0"
  shows "cache_to_pkt_legacy_bgp_primitives (Some p') (pkt_to_cache_legacy_bgp_primitives (Some c) (Some p) w w2) = Some p"
  using assms
  by (simp add: cache_to_pkt_legacy_bgp_primitives_def pkt_to_cache_legacy_bgp_primitives_def to_packet_cache
      pkt_fits_def MAX_BGP_STD_COMMS_def MAX_BGP_EXT_COMMS_def MAX_BGP_LRG_COMMS_def MAX_BGP_ASPATH_def)

end
