(* ===== verification/PeerFacts.thy ===== *)
theory PeerFacts
  imports BgpPeer PeerRoutes
begin

text \<open>
  Closing a session. Deleting the entries of a peer goes over a table whose nodes disappear behind the
  walk; what remains is the map of entries without those of the peer, in all tables, with the references
  to attributes given back.
\<close>

section \<open>The order of the nodes\<close>

text \<open>No operation on a node adds nodes or changes their order.\<close>

lemma set_info_preorder: "node_set_info stray v t k = Inr t' \<Longrightarrow> preorder t' = preorder t"
  by (induction t arbitrary: t') (auto simp: fault_simps split: if_splits)

lemma lock_preorder: "node_lock bms stray t k = Inr t' \<Longrightarrow> preorder t' = preorder t"
  by (induction t arbitrary: t') (auto simp: fault_simps split: if_splits)

lemma delete_preorder: "bgp_node_delete t = Inr (t', del) \<Longrightarrow> subseq (preorder t') (preorder t)"
  by (induction t) (auto simp: fault_simps intro: list_emb_append2 split: bgp_node.splits)

lemma delete_sub:
  assumes "bgp_node_delete (Node q lk info l r) = Inr (t', del)" "subseq (preorder l) us" "subseq (preorder r) vs"
  shows "subseq (preorder t') (q # us @ vs)"
  using delete_preorder [OF assms(1)] assms(2,3)
  by (auto intro: subseq_order.trans list_emb_append_mono simp del: bgp_node_delete.simps)

lemma unlock_preorder: "node_unlock bms stray t k = Inr (t', del, n) \<Longrightarrow> subseq (preorder t') (preorder t)"
proof (induction t arbitrary: t' del n)
  case (Node q lk info l r)
  from Node.prems show ?case
    by (auto simp: fault_simps list_emb_append_mono simp del: bgp_node_delete.simps split: if_splits
        dest!: Node.IH elim!: delete_sub)
qed simp

lemma subseq_split:
  assumes "subseq zs (us @ x # vs)" "distinct (us @ x # vs)" "x \<in> set zs"
  shows "\<exists>as bs. zs = as @ x # bs \<and> subseq as us \<and> subseq bs vs"
proof -
  from assms(1) obtain as ys where z: "zs = as @ ys" "subseq as us" "subseq ys (x # vs)"
    by (auto simp: subseq_append_iff)
  have "x \<notin> set as" "x \<notin> set vs" using assms(2) z(2) by (auto dest: list_emb_set)
  then have "x \<in> set ys" using assms(3) z(1) by simp
  with z(3) \<open>x \<notin> set vs\<close> obtain bs where "ys = x # bs" "subseq bs vs"
    by (cases ys) (auto split: if_splits dest: list_emb_set)
  with z show ?thesis by auto
qed

lemma subseq_subset: "subseq xs ys \<Longrightarrow> set xs \<subseteq> set ys"
  by (induction rule: list_emb.induct) auto

lemma apart:
  assumes "distinct (map f (us @ x # vs))" "y \<in> f ` set vs" "set zs \<subseteq> insert x (set us)"
  shows "y \<notin> f ` set zs"
proof -
  have "f ` set zs \<subseteq> insert (f x) (f ` set us)" using assms(3) by auto
  moreover have "f x \<notin> f ` set vs" "f ` set us \<inter> f ` set vs = {}" using assms(1) by auto
  then have "y \<noteq> f x" "y \<notin> f ` set us" using assms(2) by blast+
  ultimately show ?thesis by blast
qed

lemma not_in_rib: "ks \<notin> p_bits ` set (preorder t) \<Longrightarrow> rib t ks = None"
  using rib_preorder [of t ks] by (cases "rib t ks") auto

lemma length_preorder: "length (preorder t) = num_nodes t"
  by (induction t) auto

section \<open>Locking any node\<close>

lemma locks_room_rib: "patricia bms xs t \<Longrightarrow> lock_room (rib t ks) \<Longrightarrow> locks_room ks t"
proof (induction t arbitrary: xs)
  case (Node q lk info l r)
  then have sub: "patricia bms (p_bits q @ [False]) l" "patricia bms (p_bits q @ [True]) r" by simp_all
  have here: "lk + 1 \<noteq> 0" if "ks = p_bits q"
    using Node.prems(2) that by (cases "lk = 0") (auto simp: lock_room_def)
  have "lock_room (rib l ks)"
  proof (cases "Sublist.prefix (p_bits q @ [False]) ks")
    case True
    then show ?thesis using Node.prems(2) rib_below [OF True, of lk info l r] by simp
  qed (simp add: rib_not_below [OF sub(1)] lock_room_def)
  moreover have "lock_room (rib r ks)"
  proof (cases "Sublist.prefix (p_bits q @ [True]) ks")
    case True
    then show ?thesis using Node.prems(2) rib_below [OF True, of lk info l r] by simp
  qed (simp add: rib_not_below [OF sub(2)] lock_room_def)
  ultimately show ?case using Node.IH sub here by auto
qed simp

lemma rib_relock:
  assumes "patricia bms xs t" "x \<in> set (preorder t)" "p_bits x = ks" "lock_room (rib t ks)" "\<not> is_readonly bms"
  shows "rib (relock (lock_count bms) ks t) = (rib t)(ks \<mapsto> bump bms (rib t ks))"
  using assms
proof (induction t arbitrary: xs)
  case (Node q lk info l r)
  have x: "prefix_ok x" using preorder_prefix [OF Node.prems(1,2)] by simp
  have sub: "patricia bms (p_bits q @ [False]) l" "patricia bms (p_bits q @ [True]) r" using Node.prems(1) by simp_all
  have down: "rib (if b then Node q lk info l c else Node q lk info c r) =
      (rib (Node q lk info l r))(ks \<mapsto> bump bms (rib (Node q lk info l r) ks))"
    if "Sublist.prefix (p_bits q @ [b]) ks"
      "rib c = (rib (if b then r else l))(ks \<mapsto> bump bms (rib (if b then r else l) ks))" for b c
  proof
    fix k
    show "rib (if b then Node q lk info l c else Node q lk info c r) k =
      ((rib (Node q lk info l r))(ks \<mapsto> bump bms (rib (Node q lk info l r) ks))) k"
      using that(2) that(1) prefix_snoc_unique [of "p_bits q" True k False] rib_below [OF that(1), of lk info l r]
      by (cases b) auto
  qed
  from Node.prems(1,2) x refl show ?case
  proof (cases rule: key_cases [where stray = 0])
    case here
    then have "p_bits q = ks" using Node.prems(3) by simp
    moreover have "lk = 0 \<Longrightarrow> info = empty_info bms" using Node.prems(1) by simp
    ultimately show ?thesis using Node.prems(4,5)
      by (auto simp: fun_eq_iff bump_def lock_count_def lock_room_def)
  next
    case left
    have s: "Sublist.prefix (p_bits q @ [False]) ks" using left(5) Node.prems(3) by simp
    have "lock_room (rib l ks)" using Node.prems(4) rib_below [OF s, of lk info l r] by simp
    with Node.IH(1) [OF sub(1) left(4) Node.prems(3)] Node.prems(5)
    have "rib (relock (lock_count bms) ks l) = (rib l)(ks \<mapsto> bump bms (rib l ks))" by blast
    with down [OF s, of "relock (lock_count bms) ks l"] show ?thesis
      unfolding relock_below [OF s] by (simp del: rib.simps fun_upd_apply)
  next
    case right
    have s: "Sublist.prefix (p_bits q @ [True]) ks" using right(5) Node.prems(3) by simp
    have "lock_room (rib r ks)" using Node.prems(4) rib_below [OF s, of lk info l r] by simp
    with Node.IH(2) [OF sub(2) right(4) Node.prems(3)] Node.prems(5)
    have "rib (relock (lock_count bms) ks r) = (rib r)(ks \<mapsto> bump bms (rib r ks))" by blast
    with down [OF s, of "relock (lock_count bms) ks r"] show ?thesis
      unfolding relock_below [OF s] by (simp del: rib.simps fun_upd_apply)
  qed
qed simp

lemma num_nodes_relock [simp]: "num_nodes (relock f ks t) = num_nodes t"
  using length_preorder [of "relock f ks t"] length_preorder [of t] by simp

lemma lock_any:
  assumes "table_ok bms table" "k \<in> set (preorder (t_top table))" "lock_room (table_rib table (p_bits k))"
    "\<not> is_readonly bms"
  shows "\<exists>t'. node_lock bms stray (t_top table) k = Inr t' \<and> table_ok bms (table\<lparr>t_top := t'\<rparr>)
    \<and> rib t' = (table_rib table)(p_bits k \<mapsto> bump bms (table_rib table (p_bits k)))
    \<and> preorder t' = preorder (t_top table)"
proof -
  have p: "patricia bms [] (t_top table)" using assms(1) by (simp add: table_ok_def)
  have k: "prefix_ok k" using preorder_prefix [OF p assms(2)] by simp
  let ?t = "relock (lock_count bms) (p_bits k) (t_top table)"
  have "node_lock bms stray (t_top table) k = Inr ?t" by (rule node_lock_ok [OF p assms(2) k refl])
  moreover have "patricia bms [] ?t" by (rule relock_patricia [OF p locks_room_rib [OF p assms(3)]])
  moreover note rib_relock [OF p assms(2) refl assms(3,4)]
  ultimately show ?thesis using assms(1) by (intro exI [of _ ?t]) (simp add: table_ok_def)
qed

section \<open>The entries of one node\<close>

definition purge :: "bgp_peer \<Rightarrow> nat \<Rightarrow> nat \<Rightarrow> bgp_info list list \<Rightarrow> bgp_info list list" where
  "purge peer m n info = map (\<lambda>j. if m \<le> j \<and> j < m + n then filter (foreign peer) (info ! j) else info ! j)
     [0..<length info]"

lemma length_purge [simp]: "length (purge peer m n info) = length info"
  by (simp add: purge_def)

lemma nth_purge [simp]:
  "j < length info \<Longrightarrow> purge peer m n info ! j
     = (if m \<le> j \<and> j < m + n then filter (foreign peer) (info ! j) else info ! j)"
  by (simp add: purge_def)

lemma purge_0 [simp]: "purge peer m 0 info = info"
  by (rule nth_equalityI) auto

lemma purge_idem [simp]: "purge peer m n (purge peer m n info) = purge peer m n info"
  by (rule nth_equalityI) auto

lemma purge_Suc: "m < length info \<Longrightarrow>
    purge peer (Suc m) n (info[m := filter (foreign peer) (info ! m)]) = purge peer m (Suc n) info"
  by (rule nth_equalityI) (auto simp: nth_list_update)

lemma purge_empty: "total info = 0 \<Longrightarrow> purge peer m n info = info"
proof (rule nth_equalityI)
  fix i
  assume "total info = 0" "i < length (purge peer m n info)"
  then have "info ! i = []" by simp
  with \<open>i < _\<close> show "purge peer m n info ! i = info ! i" by simp
qed simp

lemma total_purge: "total (purge peer m n info) \<le> total info"
proof -
  have "length (purge peer m n info ! j) \<le> length (info ! j)" if "j < length info" for j using that by simp
  then have "sum_list (map length (purge peer m n info)) \<le> sum_list (map length info)"
    by (intro sum_list_mono2) simp_all
  then show ?thesis by (simp add: total_def length_concat)
qed

text \<open>Giving back references: \<open>A\<close> are those of the entries before, \<open>A'\<close> those after.\<close>

lemma refs_drop:
  assumes "H' + A = H + A'" "A' \<subseteq># A" "A \<subseteq># (H :: nat multiset)"
  shows "H' \<subseteq># H" "A' \<subseteq># H'"
proof -
  have c: "count H' x + count A x = count H x + count A' x" "count A' x \<le> count A x" "count A x \<le> count H x" for x
    using arg_cong [OF assms(1), of "\<lambda>M. count M x"] assms(2,3) by (simp_all add: mset_subset_eq_count)
  show "H' \<subseteq># H"
  proof (rule mset_subset_eqI)
    show "count H' x \<le> count H x" for x using c [of x] by linarith
  qed
  show "A' \<subseteq># H'"
  proof (rule mset_subset_eqI)
    show "count A' x \<le> count H' x" for x using c [of x] by linarith
  qed
qed

lemma refs_chain:
  assumes "H' + (A :: nat multiset) = H + A'" "H'' + A' = H' + A''"
  shows "H'' + A = H + A''"
proof (rule multiset_eqI)
  fix x
  show "count (H'' + A) x = count (H + A'') x"
    using arg_cong [OF assms(1), of "\<lambda>M. count M x"] arg_cong [OF assms(2), of "\<lambda>M. count M x"] by simp
qed

lemma attrs_of_sub:
  assumes "b < length info" "mset ch \<subseteq># mset (info ! b)"
  shows "attrs_of (info[b := ch]) \<subseteq># attrs_of info"
proof (rule mset_subset_eqI)
  fix x
  have "count (image_mset ri_attr (mset ch)) x \<le> count (image_mset ri_attr (mset (info ! b))) x"
    using image_mset_subseteq_mono [OF assms(2)] by (rule mset_subset_eq_count)
  then show "count (attrs_of (info[b := ch])) x \<le> count (attrs_of info) x"
    using arg_cong [OF attrs_of_update [OF assms(1), of ch], of "\<lambda>M. count M x"] by (simp del: count_image_mset)
qed

lemma info_delete_sub:
  assumes "bgp_info_delete cfg bms stray peer D table k b i = Inr (D', table')"
  shows "subseq (preorder (t_top table')) (preorder (t_top table))"
  using assms
  by (auto simp: bgp_info_delete_def get_chain_def set_chain_def bgp_unlock_node_def fault_simps split: prod.splits if_splits
      dest!: unlock_preorder set_info_preorder)

lemma delete_entries_ok:
  assumes "attr_bal cfg (Some peer) (D, R\<lparr>h_attr := H\<rparr>)" "peer_ok (Some peer)"
    and "in_use_with bms L table E (p_bits k) (Suc (L (p_bits k) + total info)) info" "prefix_ok k" "\<not> is_readonly bms"
    and "b < length info" "attrs_of info \<subseteq># H" "info ! b = pre @ ris"
  defines "info' \<equiv> info[b := pre @ filter (foreign peer) ris]"
  shows "\<exists>D' table'. delete_entries cfg bms stray peer k b ris (length pre) D table = Inr (D', table')
    \<and> in_use_with bms L table' E (p_bits k) (Suc (L (p_bits k) + total info')) info'
    \<and> subseq (preorder (t_top table')) (preorder (t_top table))
    \<and> (\<exists>H'. attr_bal cfg (Some peer) (D', R\<lparr>h_attr := H'\<rparr>) \<and> H' + attrs_of info = H + attrs_of info'
         \<and> (\<forall>c. c \<in># H' \<longrightarrow> attr_at D' c = attr_at D c) \<and> attrs_of info' \<subseteq># H' \<and> H' \<subseteq># H)"
  using assms(1,3,6-8) unfolding info'_def
proof (induction ris arbitrary: D table info pre H)
  case Nil
  then have "info[b := pre] = info" by (metis append_Nil2 list_update_id)
  with Nil show ?case by auto
next
  case (Cons ri ris)
  show ?case
  proof (cases "foreign peer ri")
    case True
    from Cons.IH [OF Cons.prems(1-4), of "pre @ [ri]"] Cons.prems(5) True
    show ?thesis by (simp add: foreign_def)
  next
    case False
    let ?i = "length pre"
    define info1 where "info1 = info[b := pre @ ris]"
    have i: "?i < length (info ! b)" "take ?i (info ! b) @ drop (Suc ?i) (info ! b) = pre @ ris"
      using Cons.prems(5) by simp_all
    from info_delete_with [OF Cons.prems(1) assms(2) Cons.prems(2) assms(4,5) Cons.prems(3) i(1) Cons.prems(4), of stray]
    obtain D1 t1 H1 where 1: "bgp_info_delete cfg bms stray peer D table k b ?i = Inr (D1, t1)"
      "in_use_with bms L t1 E (p_bits k) (Suc (L (p_bits k) + total info1)) info1" "attr_bal cfg (Some peer) (D1, R\<lparr>h_attr := H1\<rparr>)"
      "H1 + attrs_of info = H + attrs_of info1" "\<forall>c. c \<in># H1 \<longrightarrow> attr_at D1 c = attr_at D c"
      unfolding i(2) info1_def by blast
    have "mset (pre @ ris) \<subseteq># mset (info ! b)" using Cons.prems(5) by simp
    from refs_drop [OF 1(4) attrs_of_sub [OF Cons.prems(3) this, folded info1_def] Cons.prems(4)]
    have sub: "attrs_of info1 \<subseteq># H1" and "H1 \<subseteq># H" by simp_all
    have b1: "b < length info1" "info1 ! b = pre @ ris" using Cons.prems(3) by (simp_all add: info1_def)
    have up: "info1[b := pre @ filter (foreign peer) ris] = info[b := pre @ filter (foreign peer) (ri # ris)]"
      using False by (simp add: info1_def)
    from Cons.IH [OF 1(3,2) b1(1) sub b1(2)] obtain D2 t2 H2 where 2:
      "delete_entries cfg bms stray peer k b ris ?i D1 t1 = Inr (D2, t2)"
      "in_use_with bms L t2 E (p_bits k) (Suc (L (p_bits k) + total (info[b := pre @ filter (foreign peer) (ri # ris)])))
         (info[b := pre @ filter (foreign peer) (ri # ris)])"
      "subseq (preorder (t_top t2)) (preorder (t_top t1))"
      "attr_bal cfg (Some peer) (D2, R\<lparr>h_attr := H2\<rparr>)"
      "H2 + attrs_of info1 = H1 + attrs_of (info[b := pre @ filter (foreign peer) (ri # ris)])"
      "\<forall>c. c \<in># H2 \<longrightarrow> attr_at D2 c = attr_at D1 c"
      "attrs_of (info[b := pre @ filter (foreign peer) (ri # ris)]) \<subseteq># H2" "H2 \<subseteq># H1"
      unfolding up by blast
    have "subseq (preorder (t_top t2)) (preorder (t_top table))"
      using 2(3) info_delete_sub [OF 1(1)] by (rule subseq_order.trans)
    moreover have "H2 + attrs_of info = H + attrs_of (info[b := pre @ filter (foreign peer) (ri # ris)])"
      using 1(4) 2(5) by (rule refs_chain)
    moreover have "attr_at D2 c = attr_at D c" if "c \<in># H2" for c
      using that 1(5) 2(6) mset_subset_eqD [OF 2(8) that] by simp
    moreover have "H2 \<subseteq># H" using 2(8) \<open>H1 \<subseteq># H\<close> by (rule subset_mset.order_trans)
    moreover have "delete_entries cfg bms stray peer k b (ri # ris) ?i D table = Inr (D2, t2)"
      using False 1(1) 2(1) by (simp add: foreign_def)
    ultimately show ?thesis using 2 by blast
  qed
qed

lemma delete_buckets_ok:
  assumes "attr_bal cfg (Some peer) (D, R\<lparr>h_attr := H\<rparr>)" "peer_ok (Some peer)"
    and "in_use_with bms L table E (p_bits k) (Suc (L (p_bits k) + total info)) info" "prefix_ok k" "\<not> is_readonly bms"
    and "b + n \<le> length info" "attrs_of info \<subseteq># H"
  defines "info' \<equiv> purge peer b n info"
  shows "\<exists>D' table'. delete_buckets cfg bms stray peer k b n D table = Inr (D', table')
    \<and> in_use_with bms L table' E (p_bits k) (Suc (L (p_bits k) + total info')) info'
    \<and> subseq (preorder (t_top table')) (preorder (t_top table))
    \<and> (\<exists>H'. attr_bal cfg (Some peer) (D', R\<lparr>h_attr := H'\<rparr>) \<and> H' + attrs_of info = H + attrs_of info'
         \<and> (\<forall>c. c \<in># H' \<longrightarrow> attr_at D' c = attr_at D c) \<and> H' \<subseteq># H)"
  using assms(1,3,6,7) unfolding info'_def
proof (induction n arbitrary: b D table info H)
  case 0
  then show ?case by auto
next
  case (Suc n)
  define info1 where "info1 = info[b := filter (foreign peer) (info ! b)]"
  have b: "b < length info" using Suc.prems(3) by simp
  from delete_entries_ok [OF Suc.prems(1) assms(2) Suc.prems(2) assms(4,5) b Suc.prems(4), of "[]" "info ! b" stray]
  obtain D1 t1 H1 where 1: "delete_entries cfg bms stray peer k b (info ! b) 0 D table = Inr (D1, t1)"
    "in_use_with bms L t1 E (p_bits k) (Suc (L (p_bits k) + total info1)) info1" "subseq (preorder (t_top t1)) (preorder (t_top table))"
    "attr_bal cfg (Some peer) (D1, R\<lparr>h_attr := H1\<rparr>)" "H1 + attrs_of info = H + attrs_of info1"
    "\<forall>c. c \<in># H1 \<longrightarrow> attr_at D1 c = attr_at D c" "attrs_of info1 \<subseteq># H1" "H1 \<subseteq># H"
    by (auto simp: info1_def)
  have "Suc b + n \<le> length info1" using Suc.prems(3) by (simp add: info1_def)
  from Suc.IH [OF 1(4,2) this 1(7)] purge_Suc [OF b, of peer n] obtain D2 t2 H2 where 2:
    "delete_buckets cfg bms stray peer k (Suc b) n D1 t1 = Inr (D2, t2)"
    "in_use_with bms L t2 E (p_bits k) (Suc (L (p_bits k) + total (purge peer b (Suc n) info))) (purge peer b (Suc n) info)"
    "subseq (preorder (t_top t2)) (preorder (t_top t1))" "attr_bal cfg (Some peer) (D2, R\<lparr>h_attr := H2\<rparr>)"
    "H2 + attrs_of info1 = H1 + attrs_of (purge peer b (Suc n) info)"
    "\<forall>c. c \<in># H2 \<longrightarrow> attr_at D2 c = attr_at D1 c" "H2 \<subseteq># H1"
    by (auto simp: info1_def)
  have "attr_at D2 c = attr_at D c" if "c \<in># H2" for c
    using that 1(6) 2(6) mset_subset_eqD [OF 2(7) that] by simp
  moreover have "delete_buckets cfg bms stray peer k b (Suc n) D table = Inr (D2, t2)"
    using use_chain [OF Suc.prems(2) assms(4) b, of stray] 1(1) 2(1) by simp
  ultimately show ?case
    using 2 refs_chain [OF 1(5) 2(5)] subseq_order.trans [OF 2(3) 1(3)] subset_mset.order_trans [OF 2(7) 1(8)]
    by blast
qed

section \<open>The walk\<close>

lemma in_use_finite:
  assumes "in_use_with bms L table E ks m info"
  shows "some_entries E"
proof -
  note D = in_useD [OF assms]
  have "{ks'. total (E ks') \<noteq> 0} \<subseteq> insert ks (dom (table_rib table))"
    unfolding D(6) by (auto simp: rib_with_def dom_def simp del: total_0)
  moreover have "finite (dom (table_rib table))"
    using card_dom_rib [of bms "[]" "t_top table"] D(1) by (simp add: table_ok_def)
  ultimately show ?thesis by (simp add: some_entries_def finite_subset)
qed

lemma in_preorder:
  assumes "patricia bms [] t" "k \<in> set (preorder t)" "rib t' (p_bits k) = Some e" "subseq (preorder t') (preorder t)"
  shows "k \<in> set (preorder t')"
proof -
  from rib_preorder [OF assms(3)] obtain x where x: "x \<in> set (preorder t')" "p_bits x = p_bits k" by blast
  then have "x \<in> set (preorder t)" using assms(4) by (auto dest: list_emb_set)
  with assms(2) x(2) distinct_preorder [OF assms(1)] have "x = k" by (auto simp: distinct_map dest: inj_onD)
  with x(1) show ?thesis by simp
qed

definition lock_space_with :: "(bool list \<Rightarrow> nat) \<Rightarrow> 'i entries \<Rightarrow> bool" where
  "lock_space_with L E \<longleftrightarrow> (\<forall>ks. Suc (L ks + total (E ks)) < 2 ^ 32)"

abbreviation lock_space :: "'i entries \<Rightarrow> bool" where
  "lock_space \<equiv> lock_space_with (\<lambda>_. 0)"

lemma lock_space_def: "lock_space E \<longleftrightarrow> (\<forall>ks. Suc (total (E ks)) < 2 ^ 32)"
  by (simp add: lock_space_with_def)

lemma bump_space:
  assumes "entries_with bms L E" "lock_space_with L E"
  shows "lock_room (rib_with L E ks)" "bump bms (rib_with L E ks) = (u32n (Suc (L ks + total (E ks))), E ks)"
    "Suc (L ks + total (E ks)) < 2 ^ 32"
proof -
  show n: "Suc (L ks + total (E ks)) < 2 ^ 32" using assms(2) by (simp add: lock_space_with_def)
  show "lock_room (rib_with L E ks)" "bump bms (rib_with L E ks) = (u32n (Suc (L ks + total (E ks))), E ks)"
    using bump_with [OF assms(1) n] by simp_all
qed

text \<open>A step to the next node: it is locked, then the current one is given up.\<close>

lemma route_next_step:
  assumes u: "in_use_with bms L table E (p_bits k) (Suc (L (p_bits k) + total info)) info" and ro: "\<not> is_readonly bms"
    and pre: "preorder (t_top table) = as @ k # rest" and room: "lock_space_with L E"
  defines "E' \<equiv> E(p_bits k := info)"
  shows "\<exists>table'. bgp_route_next bms stray table k = Inr (table', hd_or rest None)
    \<and> subseq (preorder (t_top table')) (preorder (t_top table))
    \<and> (case rest of [] \<Rightarrow> stands_with bms L table' E'
        | k' # _ \<Rightarrow> in_use_with bms L table' E' (p_bits k') (Suc (L (p_bits k') + total (E' (p_bits k')))) (E' (p_bits k')))"
proof -
  have t: "table_ok bms table" "patricia bms [] (t_top table)" using in_useD(1) [OF u] by (simp_all add: table_ok_def)
  have k: "prefix_ok k" using preorder_prefix [OF t(2), of k] pre by simp
  note nx = next_node_ok [OF t(2) pre k refl, of stray None]
  show ?thesis
  proof (cases rest)
    case Nil
    from use_settle_with [OF u k ro, of stray] obtain t' where
      "bgp_unlock_node bms stray table k = Inr t'" "stands_with bms L t' E'" by (auto simp: E'_def)
    moreover from this(1) have "subseq (preorder (t_top t')) (preorder (t_top table))"
      by (auto simp: bgp_unlock_node_def fault_simps dest: unlock_preorder)
    ultimately show ?thesis using nx Nil by (simp add: bgp_route_next_def hd_or_def)
  next
    case (Cons k' rest')
    have k': "k' \<in> set (preorder (t_top table))" "prefix_ok k'" "p_bits k \<noteq> p_bits k'"
      using pre Cons preorder_prefix [OF t(2), of k'] distinct_preorder [OF t(2)] by auto
    have rib': "table_rib table (p_bits k') = rib_with L E (p_bits k')" using in_useD(6) [OF u] k'(3) by simp
    have E: "entries_with bms L E" by (rule in_useD(3) [OF u])
    let ?n = "L (p_bits k') + total (E (p_bits k'))"
    note n = bump_space(3) [OF E room, of "p_bits k'"]
    have "lock_room (table_rib table (p_bits k'))" unfolding rib' by (rule bump_space(1) [OF E room])
    from lock_any [OF t(1) k'(1) this ro, of stray] obtain t1 where
      t1: "node_lock bms stray (t_top table) k' = Inr t1" "table_ok bms (table\<lparr>t_top := t1\<rparr>)"
        "rib t1 = (table_rib table)(p_bits k' \<mapsto> bump bms (table_rib table (p_bits k')))"
        "preorder t1 = preorder (t_top table)" by blast
    have bump: "bump bms (table_rib table (p_bits k')) = (u32n (Suc ?n), E (p_bits k'))"
      unfolding rib' by (rule bump_space(2) [OF E room])
    have rk: "rib t1 (p_bits k) = Some (u32n (Suc (L (p_bits k) + total info)), info)"
      unfolding t1(3) using in_useD(2) [OF u] k'(3) by simp
    have one: "u32n (Suc (L (p_bits k) + total info)) = 1 \<longleftrightarrow> L (p_bits k) + total info = 0"
      using u32n_eq_1 [of "Suc (L (p_bits k) + total info)"] in_useD(4) [OF u] by simp
    have "info = empty_info bms" if "L (p_bits k) + total info = 0"
      using total_replicate [of info] that in_useD(5) [OF u] by (simp add: empty_info_def del: total_0)
    with table_unlock_ok [OF t1(2) k ro, of _ info stray] rk one obtain t2 where
      t2: "bgp_unlock_node bms stray (table\<lparr>t_top := t1\<rparr>) k = Inr t2" "table_ok bms t2"
        "table_rib t2 = (rib t1)(p_bits k := drop_lock (u32n (Suc (L (p_bits k) + total info)), info))"
      by fastforce
    have drop: "drop_lock (u32n (Suc (L (p_bits k) + total info)), info) = rib_with L E' (p_bits k)"
      unfolding E'_def by (rule drop_settles [of L "p_bits k" info E, OF in_useD(4) [OF u]])
    have "table_rib t2 = (rib_with L E')(p_bits k' \<mapsto> (u32n (Suc ?n), E (p_bits k')))"
      unfolding t2(3) t1(3) [unfolded bump] drop in_useD(6) [OF u] using k'(3)
      by (auto simp: fun_eq_iff E'_def rib_with_def simp del: total_0)
    then have "in_use_with bms L t2 E' (p_bits k') (Suc (L (p_bits k') + total (E' (p_bits k')))) (E' (p_bits k'))"
      using t2(2) n k'(3) E in_useD(4,5) [OF u] by (auto simp: in_use_with_def E'_def entries_with_def)
    moreover from t2(1) have "subseq (preorder (t_top t2)) (preorder (t_top table))"
      using t1(4) by (auto simp: bgp_unlock_node_def fault_simps dest!: unlock_preorder)
    ultimately show ?thesis using nx Cons t1(1) t2(1) by (auto simp: bgp_route_next_def hd_or_def)
  qed
qed

text \<open>The entries without those of the peer.\<close>

definition purged :: "bgp_peer \<Rightarrow> nat \<Rightarrow> nat \<Rightarrow> bgp_info entries \<Rightarrow> bgp_info entries" where
  "purged peer m n E = (\<lambda>ks. purge peer m n (E ks))"

lemma lock_space_purged: "lock_space_with L E \<Longrightarrow> lock_space_with L (E(ks := purge peer m n (E ks)))"
  unfolding lock_space_with_def
proof
  fix k
  assume "\<forall>ks. Suc (L ks + total (E ks)) < 2 ^ 32"
  then have "Suc (L k + total (E k)) < 2 ^ 32" by blast
  then show "Suc (L k + total ((E(ks := purge peer m n (E ks))) k)) < 2 ^ 32"
    using total_purge [of peer m n "E k"] by (cases "k = ks") auto
qed

lemma purged_step: "purged peer m n (E(ks := purge peer m n (E ks))) = purged peer m n E"
  by (simp add: purged_def fun_eq_iff)

text \<open>Where a walk stands: at \<open>k\<close>, with \<open>rest\<close> to come, and all other networks free of the peer. \<open>X\<close> are the
  references of the other tables.\<close>

definition walk_inv ::
  "bgp_config \<Rightarrow> misc_db \<Rightarrow> (bool list \<Rightarrow> nat) \<Rightarrow> bgp_peer \<Rightarrow> attr_refs \<Rightarrow> nat multiset \<Rightarrow> nat \<Rightarrow> nat \<Rightarrow> attr_db \<Rightarrow> bgp_info bgp_table
    \<Rightarrow> bgp_info entries \<Rightarrow> prefix \<Rightarrow> prefix list \<Rightarrow> bool" where
  "walk_inv cfg bms L peer R X m n D table E k rest \<longleftrightarrow>
     attr_bal cfg (Some peer) (D, R\<lparr>h_attr := X + entry_refs E\<rparr>)
     \<and> in_use_with bms L table E (p_bits k) (Suc (L (p_bits k) + total (E (p_bits k)))) (E (p_bits k))
     \<and> (\<exists>as. preorder (t_top table) = as @ k # rest) \<and> lock_space_with L E
     \<and> (\<forall>ks. ks \<notin> p_bits ` set (k # rest) \<longrightarrow> purge peer m n (E ks) = E ks)"

lemma in_use_tree: "in_use_with bms L table E ks m info \<Longrightarrow> patricia bms [] (t_top table)"
  by (simp add: in_use_with_def table_ok_def)

text \<open>What remains to be visited after the tree lost nodes: nothing that mattered is missing.\<close>

lemma rest_step:
  assumes "in_use_with bms L table E (p_bits k) m info" "preorder (t_top table) = as @ k # rest"
    and u': "in_use_with bms L table' E' (p_bits k') m' info'" "subseq (preorder (t_top table')) (us @ k' # vs)"
    and us: "us @ k' # vs = as @ k # rest"
    and gone: "\<forall>ks. ks \<notin> p_bits ` set (k' # vs) \<longrightarrow> purge peer i n (E' ks) = E' ks"
  shows "\<exists>as' rest'. preorder (t_top table') = as' @ k' # rest' \<and> subseq as' us \<and> subseq rest' vs
    \<and> (\<forall>ks. ks \<notin> p_bits ` set (k' # rest') \<longrightarrow> purge peer i n (E' ks) = E' ks)"
proof -
  have t: "patricia bms [] (t_top table)" using assms(1) by (rule in_use_tree)
  have pre: "preorder (t_top table) = us @ k' # vs" using assms(2) us by simp
  have dist: "distinct (map p_bits (us @ k' # vs))" using distinct_preorder [OF t] pre by simp
  have k': "k' \<in> set (preorder (t_top table))" using pre by simp
  have "k' \<in> set (preorder (t_top table'))"
    using in_useD(2) [OF u'(1)] u'(2) by (intro in_preorder [OF t k']) (simp_all add: pre)
  from subseq_split [OF u'(2) distinct_mapI [OF dist] this] obtain as' rest' where
    s: "preorder (t_top table') = as' @ k' # rest'" "subseq as' us" "subseq rest' vs" by blast
  have "purge peer i n (E' ks) = E' ks" if ks: "ks \<notin> p_bits ` set (k' # rest')" for ks
  proof (cases "ks \<in> p_bits ` set vs")
    case True
    have "ks \<notin> p_bits ` set as'"
      using subseq_subset [OF s(2)] by (intro apart [OF dist True]) auto
    then have "ks \<notin> p_bits ` set (preorder (t_top table'))" unfolding s(1) using ks by auto
    then have "table_rib table' ks = None" by (rule not_in_rib)
    then have "total (E' ks) = 0"
      unfolding in_useD(6) [OF u'(1)] using ks by (simp add: rib_with_def split: if_splits)
    then show ?thesis by (rule purge_empty)
  next
    case False
    then show ?thesis using ks gone by auto
  qed
  with s show ?thesis by blast
qed

lemma walk_entries:
  assumes inv: "walk_inv cfg bms L peer R X m n D table E k rest" and "peer_ok (Some peer)" "\<not> is_readonly bms"
    and "m + n \<le> length (empty_info bms :: bgp_info list list)"
  defines "E1 \<equiv> E(p_bits k := purge peer m n (E (p_bits k)))"
  shows "\<exists>D1 t1. delete_buckets cfg bms stray peer k m n D table = Inr (D1, t1)
    \<and> in_use_with bms L t1 E (p_bits k) (Suc (L (p_bits k) + total (E1 (p_bits k)))) (E1 (p_bits k))
    \<and> subseq (preorder (t_top t1)) (preorder (t_top table))
    \<and> attr_bal cfg (Some peer) (D1, R\<lparr>h_attr := X + entry_refs E1\<rparr>)
    \<and> (\<forall>c. c \<in># X + entry_refs E1 \<longrightarrow> attr_at D1 c = attr_at D c) \<and> X + entry_refs E1 \<subseteq># X + entry_refs E"
proof -
  have bal: "attr_bal cfg (Some peer) (D, R\<lparr>h_attr := X + entry_refs E\<rparr>)"
    and u: "in_use_with bms L table E (p_bits k) (Suc (L (p_bits k) + total (E (p_bits k)))) (E (p_bits k))"
    using inv by (simp_all add: walk_inv_def)
  obtain as where "preorder (t_top table) = as @ k # rest" using inv by (auto simp: walk_inv_def)
  then have k: "prefix_ok k" using preorder_prefix [OF in_use_tree [OF u], of k] by simp
  note fin = in_use_finite [OF u]
  have old: "attrs_of (E (p_bits k)) \<subseteq># X + entry_refs E"
  proof (cases "total (E (p_bits k)) = 0")
    case False
    then have "attrs_of (E (p_bits k)) \<subseteq># entry_refs E"
      using fin unfolding entry_refs_def some_entries_def by (intro sum_member) auto
    then show ?thesis by (simp add: subset_mset.add_increasing)
  qed (simp add: attrs_of_empty del: total_0)
  have len: "m + n \<le> length (E (p_bits k))" using assms(4) in_useD(5) [OF u] by simp
  from delete_buckets_ok [OF bal assms(2) u k assms(3) len old, of stray] obtain D1 t1 H1 where 1:
    "delete_buckets cfg bms stray peer k m n D table = Inr (D1, t1)"
    "in_use_with bms L t1 E (p_bits k) (Suc (L (p_bits k) + total (E1 (p_bits k)))) (E1 (p_bits k))"
    "subseq (preorder (t_top t1)) (preorder (t_top table))" "attr_bal cfg (Some peer) (D1, R\<lparr>h_attr := H1\<rparr>)"
    "H1 + attrs_of (E (p_bits k)) = X + entry_refs E + attrs_of (purge peer m n (E (p_bits k)))"
    "\<forall>c. c \<in># H1 \<longrightarrow> attr_at D1 c = attr_at D c" "H1 \<subseteq># X + entry_refs E"
    by (auto simp: E1_def)
  have "H1 = X + entry_refs E1"
  proof (rule multiset_eqI)
    show "count H1 x = count (X + entry_refs E1) x" for x
      using arg_cong [OF 1(5), of "\<lambda>M. count M x"]
        arg_cong [OF entry_refs_update(1) [OF fin, of "p_bits k" "purge peer m n (E (p_bits k))"], of "\<lambda>M. count M x"]
      by (simp add: E1_def)
  qed
  with 1 show ?thesis by blast
qed

lemma walk_step:
  assumes inv: "walk_inv cfg bms L peer R X m n D table E k rest" and ok: "peer_ok (Some peer)" "\<not> is_readonly bms"
    "m + n \<le> length (empty_info bms :: bgp_info list list)"
  defines "E1 \<equiv> E(p_bits k := purge peer m n (E (p_bits k)))"
  shows "\<exists>D1 t1 t2 next. delete_buckets cfg bms stray peer k m n D table = Inr (D1, t1)
    \<and> bgp_route_next bms stray t1 k = Inr (t2, next)
    \<and> attr_bal cfg (Some peer) (D1, R\<lparr>h_attr := X + entry_refs E1\<rparr>)
    \<and> (\<forall>c. c \<in># X + entry_refs E1 \<longrightarrow> attr_at D1 c = attr_at D c) \<and> X + entry_refs E1 \<subseteq># X + entry_refs E
    \<and> (case next of None \<Rightarrow> stands_with bms L t2 E1 \<and> (\<forall>ks. purge peer m n (E1 ks) = E1 ks)
        | Some k' \<Rightarrow> \<exists>rest'. walk_inv cfg bms L peer R X m n D1 t2 E1 k' rest' \<and> length rest' < length rest)"
proof -
  have u: "in_use_with bms L table E (p_bits k) (Suc (L (p_bits k) + total (E (p_bits k)))) (E (p_bits k))" and room: "lock_space_with L E"
    and gone: "\<forall>ks. ks \<notin> p_bits ` set (k # rest) \<longrightarrow> purge peer m n (E ks) = E ks"
    using inv by (simp_all add: walk_inv_def)
  obtain as where pre: "preorder (t_top table) = as @ k # rest" using inv by (auto simp: walk_inv_def)
  from walk_entries [OF inv ok, of stray, folded E1_def] obtain D1 t1 where 1:
    "delete_buckets cfg bms stray peer k m n D table = Inr (D1, t1)"
    "in_use_with bms L t1 E (p_bits k) (Suc (L (p_bits k) + total (E1 (p_bits k)))) (E1 (p_bits k))"
    "subseq (preorder (t_top t1)) (preorder (t_top table))"
    "attr_bal cfg (Some peer) (D1, R\<lparr>h_attr := X + entry_refs E1\<rparr>)"
    "\<forall>c. c \<in># X + entry_refs E1 \<longrightarrow> attr_at D1 c = attr_at D c" "X + entry_refs E1 \<subseteq># X + entry_refs E"
    by blast
  from rest_step [OF u pre 1(2) 1(3) [unfolded pre] refl gone] obtain as1 rest1 where
    s1: "preorder (t_top t1) = as1 @ k # rest1" "subseq rest1 rest"
      "\<forall>ks. ks \<notin> p_bits ` set (k # rest1) \<longrightarrow> purge peer m n (E ks) = E ks" by blast
  have E1: "E(p_bits k := E1 (p_bits k)) = E1" by (simp add: E1_def)
  have clean: "\<forall>ks. ks \<notin> p_bits ` set rest1 \<longrightarrow> purge peer m n (E1 ks) = E1 ks" using s1(3) by (simp add: E1_def)
  from route_next_step [OF 1(2) ok(2) s1(1) room, of stray, unfolded E1] obtain t2 where
    t2: "bgp_route_next bms stray t1 k = Inr (t2, hd_or rest1 None)"
      "subseq (preorder (t_top t2)) (preorder (t_top t1))"
      "case rest1 of [] \<Rightarrow> stands_with bms L t2 E1
       | k' # _ \<Rightarrow> in_use_with bms L t2 E1 (p_bits k') (Suc (L (p_bits k') + total (E1 (p_bits k')))) (E1 (p_bits k'))"
    by blast
  show ?thesis
  proof (cases rest1)
    case Nil
    with 1 t2 clean show ?thesis by (auto simp: hd_or_def)
  next
    case (Cons k' r)
    then have u2: "in_use_with bms L t2 E1 (p_bits k') (Suc (L (p_bits k') + total (E1 (p_bits k')))) (E1 (p_bits k'))" using t2(3) by simp
    have "\<forall>ks. ks \<notin> p_bits ` set (k' # r) \<longrightarrow> purge peer m n (E1 ks) = E1 ks" using clean Cons by simp
    from rest_step [where us = "as1 @ [k]" and vs = r, OF 1(2) s1(1) u2 _ _ this] t2(2) s1(1) Cons obtain as2 rest2 where
      s2: "preorder (t_top t2) = as2 @ k' # rest2" "subseq rest2 r"
        "\<forall>ks. ks \<notin> p_bits ` set (k' # rest2) \<longrightarrow> purge peer m n (E1 ks) = E1 ks" by auto
    have "length rest2 < length rest" using list_emb_length [OF s2(2)] list_emb_length [OF s1(2)] Cons by simp
    moreover have "walk_inv cfg bms L peer R X m n D1 t2 E1 k' rest2"
      unfolding walk_inv_def using 1(4) u2 s2 lock_space_purged [OF room] by (auto simp: E1_def)
    ultimately show ?thesis using 1 t2(1) Cons by (auto simp: hd_or_def)
  qed
qed

lemma delete_walk_ok:
  assumes "walk_inv cfg bms L peer R X m n D table E k rest" "length rest < fuel"
    and ok: "peer_ok (Some peer)" "\<not> is_readonly bms" "m + n \<le> length (empty_info bms :: bgp_info list list)"
    and m: "bgp_route_info_modulo bms peer None None n = Inr m" "n = table_per_peer_buckets bms"
  shows "\<exists>D' table'. delete_walk cfg bms stray peer fuel D table (Some k) = Inr (D', table')
    \<and> stands_with bms L table' (purged peer m n E) \<and> X + entry_refs (purged peer m n E) \<subseteq># X + entry_refs E
    \<and> attr_bal cfg (Some peer) (D', R\<lparr>h_attr := X + entry_refs (purged peer m n E)\<rparr>)
    \<and> (\<forall>c. c \<in># X + entry_refs (purged peer m n E) \<longrightarrow> attr_at D' c = attr_at D c)"
  using assms(1,2)
proof (induction fuel arbitrary: D E table k rest)
  case (Suc fuel)
  define E1 where "E1 = E(p_bits k := purge peer m n (E (p_bits k)))"
  have E1: "purged peer m n E1 = purged peer m n E" unfolding E1_def by (rule purged_step)
  from walk_step [OF Suc.prems(1) ok, of stray, folded E1_def] obtain D1 t1 t2 nx where 1:
    "delete_buckets cfg bms stray peer k m n D table = Inr (D1, t1)" "bgp_route_next bms stray t1 k = Inr (t2, nx)"
    "attr_bal cfg (Some peer) (D1, R\<lparr>h_attr := X + entry_refs E1\<rparr>)"
    "\<forall>c. c \<in># X + entry_refs E1 \<longrightarrow> attr_at D1 c = attr_at D c" "X + entry_refs E1 \<subseteq># X + entry_refs E"
    "case nx of None \<Rightarrow> stands_with bms L t2 E1 \<and> (\<forall>ks. purge peer m n (E1 ks) = E1 ks)
     | Some k' \<Rightarrow> \<exists>rest'. walk_inv cfg bms L peer R X m n D1 t2 E1 k' rest' \<and> length rest' < length rest"
    by blast
  have step: "delete_walk cfg bms stray peer (Suc fuel) D table (Some k) = delete_walk cfg bms stray peer fuel D1 t2 nx"
    using m 1(1,2) by simp
  show ?case
  proof (cases nx)
    case None
    with 1(6) have "stands_with bms L t2 E1" "purged peer m n E = E1"
      unfolding E1 [symmetric] by (simp_all add: purged_def fun_eq_iff)
    with step 1 None show ?thesis by auto
  next
    case (Some k')
    with 1(6) obtain rest' where w: "walk_inv cfg bms L peer R X m n D1 t2 E1 k' rest'" "length rest' < length rest" by auto
    with Suc.prems(2) have "length rest' < fuel" by simp
    from Suc.IH [OF w(1) this] obtain D' t' where w':
      "delete_walk cfg bms stray peer fuel D1 t2 (Some k') = Inr (D', t')" "stands_with bms L t' (purged peer m n E)"
      "X + entry_refs (purged peer m n E) \<subseteq># X + entry_refs E1"
      "attr_bal cfg (Some peer) (D', R\<lparr>h_attr := X + entry_refs (purged peer m n E)\<rparr>)"
      "\<forall>c. c \<in># X + entry_refs (purged peer m n E) \<longrightarrow> attr_at D' c = attr_at D1 c"
      unfolding E1 by blast
    have "attr_at D' c = attr_at D c" if "c \<in># X + entry_refs (purged peer m n E)" for c
      using w'(5) 1(4) that mset_subset_eqD [OF w'(3) that] by metis
    moreover have "X + entry_refs (purged peer m n E) \<subseteq># X + entry_refs E"
      using w'(3) 1(5) by (rule subset_mset.order_trans)
    ultimately show ?thesis using step w' Some by metis
  qed
qed simp

section \<open>One table\<close>

lemma table_info_delete_with:
  assumes s: "stands_with bms L table E" and bal: "attr_bal cfg (Some peer) (D, R\<lparr>h_attr := X + entry_refs E\<rparr>)"
    and room: "lock_space_with L E"
    and ok: "peer_ok (Some peer)" "\<not> is_readonly bms" "m + n \<le> length (empty_info bms :: bgp_info list list)"
    and m: "bgp_route_info_modulo bms peer None None n = Inr m" "n = table_per_peer_buckets bms"
  shows "\<exists>D' table'. bgp_table_info_delete cfg bms stray peer D table = Inr (D', table')
    \<and> stands_with bms L table' (purged peer m n E) \<and> X + entry_refs (purged peer m n E) \<subseteq># X + entry_refs E
    \<and> attr_bal cfg (Some peer) (D', R\<lparr>h_attr := X + entry_refs (purged peer m n E)\<rparr>)
    \<and> (\<forall>c. c \<in># X + entry_refs (purged peer m n E) \<longrightarrow> attr_at D' c = attr_at D c)"
proof -
  have t: "table_ok bms table" "table_rib table = rib_with L E" and E: "entries_with bms L E"
    using s stands_with_entries by (auto simp: stands_with_def)
  have none: "purge peer m n (E ks) = E ks" if "ks \<notin> p_bits ` set (preorder (t_top table))" for ks
    using not_in_rib [OF that] t(2) by (intro purge_empty) (simp add: rib_with_def split: if_splits)
  show ?thesis
  proof (cases "t_top table")
    case Tip
    then have "purged peer m n E = E" using none by (simp add: purged_def fun_eq_iff)
    then show ?thesis using Tip s bal by (simp add: bgp_table_info_delete_def bgp_table_top_def)
  next
    case (Node q lk info l r)
    have q: "q \<in> set (preorder (t_top table))" using Node by simp
    have "lock_room (table_rib table (p_bits q))" unfolding t(2) by (rule bump_space(1) [OF E room])
    from lock_any [OF t(1) q this ok(2), of stray] obtain t1 where
      t1: "node_lock bms stray (t_top table) q = Inr t1" "table_ok bms (table\<lparr>t_top := t1\<rparr>)"
        "rib t1 = (table_rib table)(p_bits q \<mapsto> bump bms (table_rib table (p_bits q)))"
        "preorder t1 = preorder (t_top table)" by blast
    have "goes_on q q" using preorder_prefix [of bms "[]" "t_top table" q] t(1) q goes_on_bits [of q q]
      by (simp add: table_ok_def)
    then have top: "bgp_table_top bms (Some table) = (Some (table\<lparr>t_top := t1\<rparr>), Some q)"
      using t1(1) Node by (simp add: bgp_table_top_def)
    have "in_use_with bms L (table\<lparr>t_top := t1\<rparr>) E (p_bits q) (Suc (L (p_bits q) + total (E (p_bits q)))) (E (p_bits q))"
      using t1(2,3) E bump_space(2,3) [OF E room] by (simp add: in_use_with_def t(2) entries_with_def)
    then have "walk_inv cfg bms L peer R X m n D (table\<lparr>t_top := t1\<rparr>) E q (preorder l @ preorder r)"
      unfolding walk_inv_def using bal room none t1(4) Node by auto
    moreover have "length (preorder l @ preorder r) < t_count table"
      using t(1) Node by (simp add: table_ok_def length_preorder)
    ultimately show ?thesis
      using delete_walk_ok [OF _ _ ok m, of cfg L R X D "table\<lparr>t_top := t1\<rparr>" E q _ "t_count table" stray] top
      by (simp add: bgp_table_info_delete_def)
  qed
qed

lemma table_info_delete_ok:
  assumes "stands_for bms table E" "attr_bal cfg (Some peer) (D, R\<lparr>h_attr := X + entry_refs E\<rparr>)" "lock_space E"
    "peer_ok (Some peer)" "\<not> is_readonly bms" "m + n \<le> length (empty_info bms :: bgp_info list list)"
    "bgp_route_info_modulo bms peer None None n = Inr m" "n = table_per_peer_buckets bms"
  shows "\<exists>D' table'. bgp_table_info_delete cfg bms stray peer D table = Inr (D', table')
    \<and> stands_for bms table' (purged peer m n E) \<and> X + entry_refs (purged peer m n E) \<subseteq># X + entry_refs E
    \<and> attr_bal cfg (Some peer) (D', R\<lparr>h_attr := X + entry_refs (purged peer m n E)\<rparr>)
    \<and> (\<forall>c. c \<in># X + entry_refs (purged peer m n E) \<longrightarrow> attr_at D' c = attr_at D c)"
  using table_info_delete_with [where L = "\<lambda>_. 0" and table = table and E = E and D = D and R = R and X = X, of bms cfg peer m n stray] assms by (simp add: stands_with_none)

section \<open>All tables\<close>

lemma purged_twice [simp]: "purged peer m n (purged peer m n E) = purged peer m n E"
  by (simp add: purged_def)

definition purged_in :: "bgp_peer \<Rightarrow> nat \<Rightarrow> nat \<Rightarrow> (nat \<times> nat) set \<Rightarrow> ribs \<Rightarrow> ribs" where
  "purged_in peer m n T Es = (\<lambda>afi safi. if (afi, safi) \<in> T then purged peer m n (Es afi safi) else Es afi safi)"

lemma lock_space_all: "lock_space E \<Longrightarrow> lock_space (purged peer m n E)"
  using total_purge [of peer m n] by (auto simp: lock_space_def purged_def intro: le_less_trans)

lemma delete_in_tables_ok:
  assumes "db_ok cfg bms peer db Es R" "\<forall>afi safi. lock_space (Es afi safi)" "set ts \<subseteq> tables"
    and ok: "peer_ok (Some peer)" "\<not> is_readonly bms" "m + n \<le> length (empty_info bms :: bgp_info list list)"
    and m: "bgp_route_info_modulo bms peer None None n = Inr m" "n = table_per_peer_buckets bms"
  shows "\<exists>db'. delete_in_tables cfg bms stray peer ts db = Inr db'
    \<and> db_ok cfg bms peer db' (purged_in peer m n (set ts) Es) R
    \<and> rib_refs (purged_in peer m n (set ts) Es) \<subseteq># rib_refs Es
    \<and> (\<forall>c. c \<in># rib_refs (purged_in peer m n (set ts) Es) \<longrightarrow> attr_at (rt_attrs db') c = attr_at (rt_attrs db) c)"
  using assms(1-3)
proof (induction ts arbitrary: db Es)
  case Nil
  then show ?case by (simp add: purged_in_def)
next
  case (Cons t ts)
  obtain afi safi where t: "t = (afi, safi)" by (cases t)
  have T: "(afi, safi) \<in> tables" using Cons.prems(3) t by simp
  define E' where "E' = purged peer m n (Es afi safi)"
  define Es' where "Es' = set_rib Es afi safi E'"
  define X where "X = rib_refs Es - entry_refs (Es afi safi)"
  have s: "stands_for bms (rt_rib db afi safi) (Es afi safi)"
    and bal: "attr_bal cfg (Some peer) (rt_attrs db, R\<lparr>h_attr := rib_refs Es\<rparr>)"
    using Cons.prems(1) by (simp_all add: db_ok_def)
  have "entry_refs (Es afi safi) \<subseteq># rib_refs Es"
    using sum_member [OF _ T, of "\<lambda>(a, s). entry_refs (Es a s)"] by (simp add: rib_refs_def tables_def)
  then have X: "rib_refs Es = X + entry_refs (Es afi safi)" by (simp add: X_def)
  with rib_refs_update [OF T, of Es E'] have X': "rib_refs Es' = X + entry_refs E'"
    by (simp add: Es'_def ac_simps)
  from table_info_delete_ok [OF s bal [unfolded X] _ ok m, of stray, folded E'_def] Cons.prems(2) obtain D' table' where
    d: "bgp_table_info_delete cfg bms stray peer (rt_attrs db) (rt_rib db afi safi) = Inr (D', table')"
      "stands_for bms table' E'" "rib_refs Es' \<subseteq># rib_refs Es"
      "attr_bal cfg (Some peer) (D', R\<lparr>h_attr := rib_refs Es'\<rparr>)"
      "\<forall>c. c \<in># rib_refs Es' \<longrightarrow> attr_at D' c = attr_at (rt_attrs db) c"
    unfolding X X' by blast
  let ?db = "put_table afi safi table' (db\<lparr>rt_attrs := D'\<rparr>)"
  have "db_ok cfg bms peer ?db Es' R"
    using d(2,4) Cons.prems(1) by (auto simp: db_ok_def Es'_def set_rib_def)
  moreover have "\<forall>a s. lock_space (Es' a s)"
    using Cons.prems(2) lock_space_all by (auto simp: Es'_def E'_def set_rib_def)
  moreover have "set ts \<subseteq> tables" using Cons.prems(3) by simp
  moreover note Cons.IH [of ?db Es']
  ultimately obtain db' where r: "delete_in_tables cfg bms stray peer ts ?db = Inr db'"
    "db_ok cfg bms peer db' (purged_in peer m n (set ts) Es') R"
    "rib_refs (purged_in peer m n (set ts) Es') \<subseteq># rib_refs Es'"
    "\<forall>c. c \<in># rib_refs (purged_in peer m n (set ts) Es') \<longrightarrow> attr_at (rt_attrs db') c = attr_at D' c"
    by auto
  have same: "purged_in peer m n (set ts) Es' = purged_in peer m n (set (t # ts)) Es"
    by (auto simp: purged_in_def Es'_def E'_def set_rib_def t fun_eq_iff)
  have "attr_at (rt_attrs db') c = attr_at (rt_attrs db) c" if "c \<in># rib_refs (purged_in peer m n (set ts) Es')" for c
    using r(4) d(5) that mset_subset_eqD [OF r(3) that] by metis
  with r d(1) subset_mset.order_trans [OF r(3) d(3)] show ?case unfolding same by (auto simp: t)
qed

lemma set_all_tables: "set all_tables = {AFI_IP..<AFI_MAX} \<times> {SAFI_UNICAST..<SAFI_MAX}"
  by (auto simp: all_tables_def)

lemma all_tables_sub: "set all_tables \<subseteq> tables"
  by (auto simp: set_all_tables tables_def)

section \<open>Closing a peer\<close>

text \<open>The map without the entries of the peer: all of them go, since all are in buckets of the peer.\<close>

definition without :: "bgp_peer \<Rightarrow> ribs \<Rightarrow> ribs" where
  "without peer Es = (\<lambda>afi safi ks. if (afi, safi) \<in> set all_tables then others peer (Es afi safi ks) else Es afi safi ks)"

lemma purge_others:
  assumes "placed bms peer info"
  shows "purge peer (first_bucket bms peer) (table_per_peer_buckets bms) info = others peer info"
proof (rule nth_equalityI)
  fix b assume "b < length (purge peer (first_bucket bms peer) (table_per_peer_buckets bms) info)"
  then have b: "b < length info" by simp
  with assms have "own_bucket bms peer b \<or> filter (foreign peer) (info ! b) = info ! b"
    by (auto simp: placed_def list_all_iff filter_id_conv)
  with b show "purge peer (first_bucket bms peer) (table_per_peer_buckets bms) info ! b = others peer info ! b"
    by (auto simp: others_def own_bucket_def)
qed (simp add: others_def)

definition all_placed :: "misc_db \<Rightarrow> bgp_peer \<Rightarrow> ribs \<Rightarrow> bool" where
  "all_placed bms peer Es \<longleftrightarrow>
     (\<forall>afi safi ks. (afi, safi) \<in> set all_tables \<longrightarrow> placed bms peer (Es afi safi ks))"

lemma peer_info_delete_ok:
  assumes db: "db_ok cfg bms peer db Es R" and room: "\<forall>afi safi. lock_space (Es afi safi)"
    and peer: "peer_ok (Some peer)" and conf: "\<not> is_readonly bms" "buckets_ok bms" "fd_ok bms peer"
    and placed: "all_placed bms peer Es"
  shows "\<exists>db'. bgp_peer_info_delete cfg bms stray peer db = Inr db' \<and> db_ok cfg bms peer db' (without peer Es) R
    \<and> rib_refs (without peer Es) \<subseteq># rib_refs Es
    \<and> (\<forall>c. c \<in># rib_refs (without peer Es) \<longrightarrow> attr_at (rt_attrs db') c = attr_at (rt_attrs db) c)"
proof -
  have "purged_in peer (first_bucket bms peer) (table_per_peer_buckets bms) (set all_tables) Es = without peer Es"
    using placed purge_others by (auto simp: purged_in_def purged_def without_def all_placed_def fun_eq_iff)
  with delete_in_tables_ok [OF db room all_tables_sub peer conf(1) modulo_window(3,2) [OF conf(2,3)] refl, of stray]
  show ?thesis using peer by (auto simp: bgp_peer_info_delete_def bgp_select_routing_db_def)
qed

end
