(* ===== verification/RpkiPaths.thy ===== *)
theory RpkiPaths
  imports Rpki PeerFacts AttrSafe
begin

text \<open>
  The attributes of payloads. All AS paths of the RPKI database have one AS number, which no operation
  on the pools changes; an attribute of a payload stands for the origin AS and the maximum length.
\<close>

section \<open>Paths of one AS number\<close>

definition origin_segs :: "u32 \<Rightarrow> assegment list" where
  "origin_segs asn = [\<lparr>seg_type = AS_SEQUENCE, seg_as = [asn]\<rparr>]"

definition origin_path :: "aspath \<Rightarrow> bool" where
  "origin_path p \<longleftrightarrow> as_str p \<noteq> None \<and> as_segments p = origin_segs (as_last p)"

definition paths_ok :: "aspath pool \<Rightarrow> bool" where
  "paths_ok P \<longleftrightarrow> (\<forall>a p. heap P a = Some p \<longrightarrow> origin_path p)"

text \<open>Addresses are not used twice: an object at an old address is the old one.\<close>

definition paths_from :: "aspath pool \<Rightarrow> aspath pool \<Rightarrow> bool" where
  "paths_from P P' \<longleftrightarrow> paths_ok P' \<and> brk P \<le> brk P'
     \<and> (\<forall>a y. heap P' a = Some y \<longrightarrow> a < brk P \<longrightarrow> (\<exists>x. heap P a = Some x \<and> as_segments x = as_segments y))"

lemma origin_segs_inj [simp]: "origin_segs a = origin_segs b \<longleftrightarrow> a = b"
  by (simp add: origin_segs_def)

lemma paths_from_refl: "paths_ok P \<Longrightarrow> paths_from P P"
  by (auto simp: paths_from_def)

lemma paths_from_trans: "paths_from P P1 \<Longrightarrow> paths_from P1 P2 \<Longrightarrow> paths_from P P2"
  unfolding paths_from_def by (metis order.strict_trans2 order.trans)

lemma paths_from_ok: "paths_from P P' \<Longrightarrow> paths_ok P'"
  by (simp add: paths_from_def)

lemma paths_from_last:
  "paths_from P P' \<Longrightarrow> paths_ok P \<Longrightarrow> heap P a = Some x \<Longrightarrow> heap P' a = Some y \<Longrightarrow> a < brk P \<Longrightarrow> as_last x = as_last y"
  unfolding paths_from_def paths_ok_def origin_path_def by (metis option.inject origin_segs_inj)

lemma origin_path_simps [simp]:
  "origin_path p \<Longrightarrow> with_str p = p" "origin_path (p\<lparr>as_refcnt := n\<rparr>) \<longleftrightarrow> origin_path p"
  by (auto simp: origin_path_def with_str_def)

lemma share_from:
  "obj_share aspath_ops P a = Inr P' \<Longrightarrow> paths_ok P \<Longrightarrow> paths_from P P'"
  by (auto simp: obj_share_def deref_def paths_from_def paths_ok_def pool_store_def bump_ref_def fault_simps
      split: option.splits if_splits)

lemma unintern_from:
  assumes "obj_unintern aspath_ops peer P (Some a) = Inr P'" "paths_ok P"
  shows "paths_from P P'"
proof (cases "peer_ok peer")
  case True
  from assms(1) True obtain x where x: "heap P a = Some x" by (auto simp: obj_unintern_def deref_def fault_simps split: option.splits)
  then have "origin_path x" using assms(2) by (simp add: paths_ok_def)
  then show ?thesis using assms True x
    by (auto simp: obj_unintern_def deref_def paths_from_def paths_ok_def pool_store_def pool_free_def fault_simps Let_def
      split: option.splits if_splits prod.splits)
next
  case False
  then show ?thesis using assms by (simp add: obj_unintern_def paths_from_refl)
qed

lemma unintern_ref_from:
  "unintern_ref aspath_ops peer P p = Inr P' \<Longrightarrow> paths_ok P \<Longrightarrow> paths_from P P'"
  by (auto simp: unintern_ref_def paths_from_refl unintern_from split: option.splits)

lemma ast_path: "aspath_ast2aspath asn = Inr (aspath_new\<lparr>as_segments := origin_segs asn, as_last := asn\<rparr>)"
  by (simp add: aspath_ast2aspath_def make_str_text aspath_new_def aspath_as_add_def aspath_segment_add_def
      origin_segs_def assegment_new_def assegment_append_asns_def separator_of_def)

lemma path_last_origin [simp]: "path_last (origin_segs asn) l = asn"
  by (simp add: origin_segs_def separator_of_def)

lemma lookup_from:
  assumes run: "aspath_lookup peer P x = Inr (Some r, P')" and P: "paths_ok P" "\<And>a. heap P a \<noteq> None \<Longrightarrow> a < brk P"
    and x: "origin_path (with_str x)"
  shows "paths_from P P'"
proof -
  let ?x = "with_str x" and ?a = "brk P"
  let ?h1 = "(heap P)(?a \<mapsto> ?x)"
  have none: "heap P b = None" if "brk P \<le> b" for b using P(2) [of b] that by fastforce
  define new where "new = \<lparr>as_refcnt = 0, as_segments = as_segments x, as_last = as_last ?x,
    as_str = Some (path_text (as_segments x))\<rparr>"
  have dup: "aspath_hash_alloc ?x = Inr (new, ?x)" "origin_path new" "as_segments new = as_segments x"
    using x by (auto simp: aspath_hash_alloc_def aspath_dup_def make_str_text origin_path_def dup_all_self new_def)
  have Q: "origin_path p" if "heap P b = Some p" for b p using P(1) that by (simp add: paths_ok_def)
  have peer: "peer_ok peer"
    using run by (auto simp: aspath_lookup_def obj_get_dup_def pool_alloc_def hash_get_def Let_def split: if_splits)
  have sz: "hash_size (tab P) \<noteq> 0"
    using run peer by (auto simp: aspath_lookup_def obj_get_dup_def pool_alloc_def hash_get_def split: if_splits)
  show ?thesis
  proof (cases "hash_find (pkey aspath_ops ?h1) (pcmp aspath_ops ?h1) (tab P) ?a")
    case (Some q)
    have "r = q \<and> (\<exists>y. heap P r = Some y \<and> r \<noteq> ?a \<and> brk P' = Suc ?a \<and> heap P' = (heap P)(r \<mapsto> bump_ref aspath_ops y))"
      using run peer sz Some none
      by (auto simp: aspath_lookup_def obj_get_dup_def pool_alloc_def hash_get_def Let_def deref_def pool_store_def
          pool_free_def fault_simps fun_eq_iff split: option.splits if_splits)
    then show ?thesis using Q none by (auto simp: paths_from_def paths_ok_def bump_ref_def split: if_splits)
  next
    case None
    have "r = Suc ?a \<and> brk P' = Suc (Suc ?a) \<and> heap P' = (heap P)(Suc ?a \<mapsto> bump_ref aspath_ops new)"
      using run peer sz None none dup(1)
      by (auto simp: aspath_lookup_def obj_get_dup_def pool_alloc_def hash_get_def Let_def deref_def pool_store_def
          pool_free_def obj_hash_alloc_def fault_simps fun_eq_iff split: option.splits if_splits)
    then show ?thesis using Q none dup by (auto simp: paths_from_def paths_ok_def bump_ref_def split: if_splits)
  qed
qed

lemma parse_ast_ok:
  assumes bal: "attr_bal cfg (Some peer) (D, R)" and peer: "peer_ok (Some peer)" and P: "paths_ok (ashash D)"
  shows "\<exists>p P' y. aspath_parse_ast (Some peer) (ashash D) asn = Inr (Some p, P')
    \<and> attr_bal cfg (Some peer) (D\<lparr>ashash := P'\<rparr>, R\<lparr>h_as := add_mset p (h_as R)\<rparr>)
    \<and> paths_from (ashash D) P' \<and> heap P' p = Some y \<and> as_last y = asn"
proof -
  let ?x = "aspath_new\<lparr>as_segments := origin_segs asn, as_last := asn\<rparr>"
  have inv: "pool_inv aspath_ops aspath_good (ashash D)" using balancedD(1) [OF attr_balD(1) [OF bal]] .
  have good: "aspath_good ?x" "origin_path (with_str ?x)"
    by (auto simp: aspath_good_def aspath_new_def origin_path_def with_str_def)
  from asp.get_dup_spec [OF inv peer good(1) aspath_dup_ok] obtain r z P' where
    g: "obj_get_dup aspath_ops aspath_hash_alloc (Some peer) (ashash D) ?x = Inr (Some r, P')" "heap P' r = Some z"
      "as_segments z = origin_segs asn"
    by auto
  have run: "aspath_lookup (Some peer) (ashash D) ?x = Inr (Some r, P')" using g(1) by (simp add: aspath_lookup_def)
  have from_: "paths_from (ashash D) P'"
    by (rule lookup_from [OF run P _ good(2)]) (rule pool_invD(4) [OF inv])
  then have "origin_path z" using g(2) by (auto simp: paths_from_def paths_ok_def)
  then have "as_last z = asn" using g(3) by (simp add: origin_path_def)
  moreover have "aspath_parse_ast (Some peer) (ashash D) asn = Inr (Some r, P')"
    using peer run by (simp add: aspath_parse_ast_def ast_path)
  moreover have "pool_step aspath_ops aspath_good (Some peer) (ashash D, h_as R) (P', add_mset r (h_as R))"
    using good(1) aspath_dup_ok g(1) by (rule pool_step.lookup)
  ultimately show ?thesis using as_path_step [OF bal peer] from_ g(2) by blast
qed

section \<open>Attributes of payloads\<close>

text \<open>The origin AS number and the maximum length.\<close>

definition vrp_at :: "attr_db \<Rightarrow> nat \<Rightarrow> (u32 \<times> u8) option" where
  "vrp_at D a = Option.bind (heap (attrhash D) a) (\<lambda>x. Option.bind (at_aspath x) (\<lambda>p.
     map_option (\<lambda>path. (as_last path, at_rpki_maxlen x)) (heap (ashash D) p)))"

text \<open>An attribute whose pool entry stays has the same payload before and after.\<close>

lemma vrp_kept:
  assumes "attr_bal cfg peer (D, R)" "attr_bal cfg peer (D', R')" "a \<in># h_attr R" "a \<in># h_attr R'"
    and "attr_at D' a = attr_at D a" "paths_ok (ashash D)" "paths_from (ashash D) (ashash D')"
  shows "vrp_at D' a = vrp_at D a"
proof -
  from attr_held [OF assms(1,3)] obtain x where x: "heap (attrhash D) a = Some x"
    "\<And>p. at_aspath x = Some p \<Longrightarrow> heap (ashash D) p \<noteq> None" by blast
  from attr_held [OF assms(2,4)] obtain y where y: "heap (attrhash D') a = Some y"
    "\<And>p. at_aspath y = Some p \<Longrightarrow> heap (ashash D') p \<noteq> None" by blast
  have same: "at_aspath y = at_aspath x" "at_rpki_maxlen y = at_rpki_maxlen x"
    using assms(5) x(1) y(1) by (auto simp: attr_at_def attr_view_def)
  show ?thesis
  proof (cases "at_aspath x")
    case (Some p)
    with x(2) y(2) same obtain u v where uv: "heap (ashash D) p = Some u" "heap (ashash D') p = Some v" by auto
    have "p < brk (ashash D)" using pool_invD(4) [OF balancedD(1) [OF attr_balD(1) [OF assms(1)]], of p] uv(1) by simp
    with paths_from_last [OF assms(7,6) uv] have "as_last u = as_last v" .
    with x(1) y(1) same Some uv show ?thesis by (simp add: vrp_at_def)
  qed (use x(1) y(1) same in \<open>simp add: vrp_at_def\<close>)
qed

lemma attr_intern_from:
  assumes run: "bgp_attr_intern cfg peer D x = Inr (r, x', D')" and P: "paths_ok (ashash D)"
    and held: "\<And>p y. at_aspath x = Some p \<Longrightarrow> heap (ashash D) p = Some y \<Longrightarrow> as_refcnt y \<noteq> 0"
  shows "paths_from (ashash D) (ashash D')"
proof (cases "peer_ok peer")
  case True
  from run True obtain p1 P1 where 1: "intern_ref aspath_ops peer (ashash D) (at_aspath x) = Inr (p1, P1)" "ashash D' = P1"
    by (auto simp: bgp_attr_intern_def fault_simps Let_def split: if_splits prod.splits)
  have "paths_from (ashash D) P1"
  proof (cases "at_aspath x")
    case None
    then show ?thesis using 1(1) P by (simp add: intern_ref_def paths_from_refl)
  next
    case (Some p)
    with 1(1) obtain y where y: "heap (ashash D) p = Some y"
      by (auto simp: intern_ref_def deref_def fault_simps split: option.splits)
    have "obj_share aspath_ops (ashash D) p = Inr P1"
      using 1(1) Some y held [OF Some y] by (auto simp: intern_ref_def deref_def fault_simps)
    then show ?thesis using P by (rule share_from)
  qed
  then show ?thesis using 1(2) by simp
qed (use run P in \<open>simp add: bgp_attr_intern_def paths_from_refl\<close>)

lemma attr_unintern_from:
  assumes "bgp_attr_unintern cfg peer D a = Inr D'" "paths_ok (ashash D)"
  shows "paths_from (ashash D) (ashash D')"
proof (cases "peer_ok peer")
  case True
  then show ?thesis using assms
    by (auto simp: bgp_attr_unintern_def unintern_parts_def deref_def fault_simps Let_def
        intro!: unintern_ref_from split: option.splits if_splits)
qed (use assms in \<open>simp add: bgp_attr_unintern_def paths_from_refl\<close>)

lemma roa_attr_ok:
  assumes bal: "attr_bal cfg (Some peer) (D, R\<lparr>h_attr := H\<rparr>)" and peer: "peer_ok (Some peer)" and P: "paths_ok (ashash D)"
  shows "\<exists>a D'. roa_attr cfg peer D asn maxlen = Inr (a, D')
    \<and> attr_bal cfg (Some peer) (D', R\<lparr>h_attr := add_mset a H\<rparr>)
    \<and> (\<forall>b. b \<in># H \<longrightarrow> attr_at D' b = attr_at D b)
    \<and> paths_from (ashash D) (ashash D') \<and> vrp_at D' a = Some (asn, maxlen)"
proof -
  have comm: "R\<lparr>h_attr := H', h_as := A\<rparr> = R\<lparr>h_as := A, h_attr := H'\<rparr>" for A H' by simp
  from parse_ast_ok [OF bal peer P, of asn] obtain p P1 y where
    1: "aspath_parse_ast (Some peer) (ashash D) asn = Inr (Some p, P1)"
      "attr_bal cfg (Some peer) (D\<lparr>ashash := P1\<rparr>, R\<lparr>h_as := add_mset p (h_as R), h_attr := H\<rparr>)"
      "paths_from (ashash D) P1" "heap P1 p = Some y" "as_last y = asn"
    unfolding comm by auto
  let ?D1 = "D\<lparr>ashash := P1\<rparr>" and ?R1 = "R\<lparr>h_as := add_mset p (h_as R), h_attr := H\<rparr>"
  let ?x = "attr_zero\<lparr>at_rpki_maxlen := maxlen, at_aspath := Some p\<rparr>"
  have good: "attr_good ?x" by (simp add: attr_good_def attr_zero_def ha_good_def)
  have "opt_mset (at_aspath ?x) \<subseteq># h_as ?R1" "opt_mset (at_community ?x) \<subseteq># h_com ?R1"
    "opt_mset (at_ecommunity ?x) \<subseteq># h_ecom ?R1" "opt_mset (at_lcommunity ?x) \<subseteq># h_lcom ?R1"
    by (simp_all add: attr_zero_def)
  from attr_intern_step [OF 1(2) peer good this] obtain a D2 z where
    2: "bgp_attr_intern cfg (Some peer) ?D1 ?x = Inr (Some a, ?x, D2)"
      "attr_bal cfg (Some peer) (D2, R\<lparr>h_as := add_mset p (h_as R), h_attr := add_mset a H\<rparr>)"
      "heap (attrhash D2) a = Some z" "\<forall>b. b \<in># H \<longrightarrow> attr_at D2 b = attr_at D b" "attr_at D2 a = Some (attr_view ?x)"
    by (auto simp: attr_at_def)
  have z: "at_aspath z = Some p" "at_rpki_maxlen z = maxlen"
    using 2(3,5) by (auto simp: attr_at_def attr_view_def attr_zero_def)
  have pos: "as_refcnt y \<noteq> 0"
    using balancedD(3) [OF attr_balD(1) [OF 1(2)], of p] 1(4) by auto
  have "paths_from (ashash ?D1) (ashash D2)"
    by (rule attr_intern_from [OF 2(1)]) (use paths_from_ok [OF 1(3)] 1(4) pos in auto)
  then have from2: "paths_from P1 (ashash D2)" by simp
  from aspath_unintern_bal [OF 2(2) peer, of p] obtain P3 where
    3: "aspath_unintern (Some peer) (ashash D2) (Some p) = Inr P3"
      "attr_bal cfg (Some peer) (D2\<lparr>ashash := P3\<rparr>, R\<lparr>h_attr := add_mset a H\<rparr>)"
    by auto
  let ?D3 = "D2\<lparr>ashash := P3\<rparr>"
  have u: "obj_unintern aspath_ops (Some peer) (ashash D2) (Some p) = Inr P3" using 3(1) by (simp add: aspath_unintern_def)
  have from3: "paths_from (ashash D2) P3" by (rule unintern_from [OF u paths_from_ok [OF from2]])
  have run: "roa_attr cfg peer D asn maxlen = Inr (a, ?D3)"
    using 1(1) 2(1) u by (simp add: roa_attr_def unintern_ref_def)
  have all: "paths_from P1 P3" by (rule paths_from_trans [OF from2 from3])
  have "heap P3 p \<noteq> None" using attr_held [OF 3(2), of a] 2(3) z(1) by simp
  then obtain w where w: "heap P3 p = Some w" by blast
  have "p < brk P1" using pool_invD(4) [OF balancedD(1) [OF attr_balD(1) [OF 1(2)]], of p] 1(4) by simp
  from paths_from_last [OF all paths_from_ok [OF 1(3)] 1(4) w this] have "as_last w = asn" using 1(5) by simp
  then have "vrp_at ?D3 a = Some (asn, maxlen)" using 2(3) z w by (simp add: vrp_at_def)
  moreover have "paths_from (ashash D) (ashash ?D3)" using paths_from_trans [OF 1(3) all] by simp
  moreover have "\<forall>b. b \<in># H \<longrightarrow> attr_at ?D3 b = attr_at D b" using 2(4) by (simp add: attr_at_def)
  ultimately show ?thesis using run 3(2) by blast
qed

end
