(* ===== verification/RpkiTables.thy ===== *)
theory RpkiTables
  imports RpkiPaths
begin

text \<open>
  The tables of payloads: what adding, deleting and emptying do to the map from networks to payloads
  that a table stands for.
\<close>

section \<open>One table\<close>

definition no_refs :: attr_refs where
  "no_refs = \<lparr>h_as = {#}, h_com = {#}, h_ecom = {#}, h_lcom = {#}, h_attr = {#}\<rparr>"

lemma rpki_misc_simps [simp]:
  "\<not> is_readonly rpki_misc_db" "table_per_peer_buckets rpki_misc_db = 1" "empty_info rpki_misc_db = [[]]"
  "modulo_idx_max rpki_misc_db = 1" "bgp_route_info_modulo rpki_misc_db rpki_peer None None 1 = Inr 0"
  by (simp_all add: rpki_misc_db_def rpki_link_misc_structs_def misc_zero_def empty_info_def modulo_idx_max_def
      DEFAULT_BGP_INFO_PER_PEER_HASH_def bgp_route_info_modulo_def bgp_route_info_modulo_pathid_def
      rpki_peer_def rpki_init_dummy_peer_def zero_peer_def)

lemma rpki_peer_ok [simp]: "peer_ok (Some rpki_peer)" "bp_type rpki_peer < FUNC_TYPE_MAX"
  by (simp_all add: rpki_peer_def rpki_init_dummy_peer_def FUNC_TYPE_RPKI_def FUNC_TYPE_MAX_def)

text \<open>The payloads of a chain of entries, and of the entries of a network.\<close>

definition vrps_of :: "attr_db \<Rightarrow> bgp_info list \<Rightarrow> (u32 \<times> u8) list" where
  "vrps_of D ch = map (\<lambda>ri. the (vrp_at D (ri_attr ri))) ch"

definition view :: "attr_db \<Rightarrow> bgp_info entries \<Rightarrow> bool list \<Rightarrow> (u32 \<times> u8) list" where
  "view D E ks = vrps_of D (E ks ! 0)"

text \<open>\<open>X\<close> are the references of the entries of the other table.\<close>

definition table_inv ::
  "bgp_config \<Rightarrow> nat multiset \<Rightarrow> attr_db \<Rightarrow> (bool list \<Rightarrow> nat) \<Rightarrow> bgp_info bgp_table \<Rightarrow> bgp_info entries \<Rightarrow> bool" where
  "table_inv cfg X D L tbl E \<longleftrightarrow> stands_with rpki_misc_db L tbl E
     \<and> attr_bal cfg (Some rpki_peer) (D, no_refs\<lparr>h_attr := X + entry_refs E\<rparr>)
     \<and> paths_ok (ashash D) \<and> (\<forall>a. a \<in># X + entry_refs E \<longrightarrow> vrp_at D a \<noteq> None)
     \<and> (\<forall>ks ri. ri \<in> set (E ks ! 0) \<longrightarrow> ri_peer ri = bp_idx rpki_peer)"

lemma table_invD:
  assumes "table_inv cfg X D L tbl E"
  shows "stands_with rpki_misc_db L tbl E" "attr_bal cfg (Some rpki_peer) (D, no_refs\<lparr>h_attr := X + entry_refs E\<rparr>)"
    "paths_ok (ashash D)" "a \<in># X + entry_refs E \<Longrightarrow> vrp_at D a \<noteq> None"
    "ri \<in> set (E ks ! 0) \<Longrightarrow> ri_peer ri = bp_idx rpki_peer"
  using assms by (auto simp: table_inv_def)

lemma one_bucket: "stands_with rpki_misc_db L tbl E \<Longrightarrow> E ks = [E ks ! 0]"
  by (cases "E ks") (auto simp: stands_with_def dest: spec [of _ ks])

lemma total_one [simp]: "total [ch] = length ch"
  by (simp add: total_def)

lemma attrs_of_one [simp]: "attrs_of [ch] = image_mset ri_attr (mset ch)"
  by (simp add: attrs_of_def)

lemma stands_with_finite: "stands_with bms L table E \<Longrightarrow> some_entries E"
proof -
  assume s: "stands_with bms L table E"
  then have "{ks. total (E ks) \<noteq> 0} \<subseteq> dom (table_rib table)"
    by (auto simp: stands_with_def rib_with_def dom_def simp del: total_0)
  moreover have "finite (dom (table_rib table))"
    using s card_dom_rib [of bms "[]" "t_top table"] by (simp add: stands_with_def table_ok_def)
  ultimately show "some_entries E" unfolding some_entries_def by (rule finite_subset)
qed

lemma entry_ref:
  assumes "stands_with rpki_misc_db L tbl E" "ri \<in> set (E ks ! 0)"
  shows "ri_attr ri \<in># entry_refs E"
proof -
  have "total (E ks) \<noteq> 0" using one_bucket [OF assms(1), of ks] assms(2) by (metis length_pos_if_in_set less_irrefl total_one)
  then have "attrs_of (E ks) \<subseteq># entry_refs E"
    using stands_with_finite [OF assms(1)] unfolding entry_refs_def some_entries_def by (intro sum_member) auto
  moreover have "ri_attr ri \<in># attrs_of (E ks)"
    by (subst one_bucket [OF assms(1), of ks]) (use assms(2) in simp)
  ultimately show ?thesis by (rule mset_subset_eqD)
qed

text \<open>The payloads of attributes that stay are the same.\<close>

definition vrps_same :: "attr_db \<Rightarrow> attr_db \<Rightarrow> nat multiset \<Rightarrow> bool" where
  "vrps_same D D' H \<longleftrightarrow> (\<forall>a. a \<in># H \<longrightarrow> vrp_at D' a = vrp_at D a)"

lemma vrps_sameI:
  assumes "attr_bal cfg peer (D, R\<lparr>h_attr := H\<rparr>)" "attr_bal cfg peer (D', R'\<lparr>h_attr := H'\<rparr>)" "G \<subseteq># H" "G \<subseteq># H'"
    and "\<And>b. b \<in># G \<Longrightarrow> attr_at D' b = attr_at D b" "paths_ok (ashash D)" "paths_from (ashash D) (ashash D')"
  shows "vrps_same D D' G"
  unfolding vrps_same_def
  using vrp_kept [OF assms(1,2) _ _ _ assms(6,7)] assms(3-5) by (auto dest: mset_subset_eqD)

lemma view_same:
  "stands_with rpki_misc_db L tbl E \<Longrightarrow> vrps_same D D' (entry_refs E) \<Longrightarrow> view D' E ks = view D E ks"
  by (auto simp: view_def vrps_of_def vrps_same_def dest: entry_ref)

lemma vrps_same_sub: "vrps_same D D' H \<Longrightarrow> G \<subseteq># H \<Longrightarrow> vrps_same D D' G"
  by (auto simp: vrps_same_def dest: mset_subset_eqD)

section \<open>Adding a payload\<close>

lemma roa_node_ok:
  assumes s: "stands_with rpki_misc_db L tbl E" and p: "prefix_wf p"
    and room: "Suc (L (p_bits p) + total (E (p_bits p))) < 2 ^ 32"
  shows "\<exists>tbl' k. roa_node stray tbl p = Inr (tbl', k) \<and> prefix_ok k \<and> p_bits k = p_bits p
    \<and> in_use_with rpki_misc_db L tbl' E (p_bits k) (Suc (L (p_bits k) + total (E (p_bits k)))) (E (p_bits k))"
proof -
  have "\<not> (128 < p_len p \<or> p_family p = AF_INET \<and> 32 < p_len p)"
    using p by (auto simp: prefix_wf_def prefix_ok_def AF_INET_def AF_INET6_def)
  then show ?thesis using use_get_with [OF s p _ room, of stray] by (auto simp: roa_node_def)
qed

lemma refs_cons:
  assumes "some_entries E" "E ks = [ch]"
  shows "entry_refs (E(ks := [ri # ch])) = add_mset (ri_attr ri) (entry_refs E)"
  using entry_refs_update(1) [OF assms(1), of ks "[ri # ch]"] assms(2) by simp

lemma table_add_ok:
  assumes inv: "table_inv cfg X D L tbl E" and p: "prefix_wf p"
    and room: "Suc (Suc (L (p_bits p) + total (E (p_bits p)))) < 2 ^ 32"
  shows "\<exists>tbl1 k a D' tbl2 tbl3 E'. roa_node stray tbl p = Inr (tbl1, k)
    \<and> roa_attr cfg rpki_peer D asn maxlen = Inr (a, D')
    \<and> bgp_info_add rpki_misc_db stray tbl1 k \<lparr>ri_peer = bp_idx rpki_peer, ri_attr = a, ri_extra = None\<rparr> 0 = Inr tbl2
    \<and> bgp_unlock_node rpki_misc_db stray tbl2 k = Inr tbl3
    \<and> table_inv cfg X D' L tbl3 E' \<and> vrps_same D D' (X + entry_refs E)
    \<and> view D' E' = (view D E)(p_bits p := (asn, maxlen) # view D E (p_bits p))"
proof -
  note I = table_invD [OF inv]
  let ?ks = "p_bits p"
  define ch where "ch = E ?ks ! 0"
  have E: "E ?ks = [ch]" using one_bucket [OF I(1)] by (simp add: ch_def)
  from roa_node_ok [OF I(1) p Suc_lessD [OF room], of stray] obtain tbl1 k where
    1: "roa_node stray tbl p = Inr (tbl1, k)" "prefix_ok k" "p_bits k = ?ks"
      "in_use_with rpki_misc_db L tbl1 E (p_bits k) (Suc (L (p_bits k) + length ch)) [ch]"
    by (auto simp: E)
  from roa_attr_ok [OF I(2) rpki_peer_ok(1) I(3), of asn maxlen] obtain a D' where
    2: "roa_attr cfg rpki_peer D asn maxlen = Inr (a, D')"
      "attr_bal cfg (Some rpki_peer) (D', no_refs\<lparr>h_attr := add_mset a (X + entry_refs E)\<rparr>)"
      "\<forall>b. b \<in># X + entry_refs E \<longrightarrow> attr_at D' b = attr_at D b"
      "paths_from (ashash D) (ashash D')" "vrp_at D' a = Some (asn, maxlen)"
    by blast
  define ri where "ri = \<lparr>ri_peer = bp_idx rpki_peer, ri_attr = a, ri_extra = None :: bgp_attr_extra option\<rparr>"
  let ?E = "E(?ks := [ri # ch])"
  from use_set [OF 1(4,2), of stray 0 "ri # ch"] obtain t1 where
    t1: "set_chain stray tbl1 k 0 (ri # ch) = Inr t1"
      "in_use_with rpki_misc_db L t1 E (p_bits k) (Suc (L (p_bits k) + length ch)) [ri # ch]"
    by auto
  have r: "Suc (Suc (L (p_bits k) + length ch)) < 2 ^ 32" using room by (simp add: E 1(3))
  from use_lock [OF t1(2) 1(2) _ r, of stray] obtain t2 where
    t2: "table_lock rpki_misc_db stray t1 k = Inr t2"
      "in_use_with rpki_misc_db L t2 E (p_bits k) (Suc (L (p_bits k) + total [ri # ch])) [ri # ch]"
    by auto
  from use_settle_with [OF t2(2) 1(2), of stray] obtain t3 where
    t3: "bgp_unlock_node rpki_misc_db stray t2 k = Inr t3" "stands_with rpki_misc_db L t3 ?E"
    by (auto simp: 1(3))
  have add: "bgp_info_add rpki_misc_db stray tbl1 k ri 0 = Inr t2"
    using use_chain [OF 1(4,2), of 0 stray] t1(1) t2(1) by (simp add: bgp_info_add_def)
  have refs: "entry_refs ?E = add_mset a (entry_refs E)"
    using refs_cons [where ks = ?ks, OF stands_with_finite [OF I(1)] E, of ri] by (simp add: ri_def)
  have same: "vrps_same D D' (X + entry_refs E)"
    using 2(3) by (intro vrps_sameI [OF I(2) 2(2) _ _ _ I(3) 2(4)]) auto
  have "vrp_at D' b \<noteq> None" if "b \<in># X + entry_refs ?E" for b
    using that I(4) [of b] same 2(5) by (auto simp: refs vrps_same_def)
  moreover have "ri' \<in> set (?E ks ! 0) \<Longrightarrow> ri_peer ri' = bp_idx rpki_peer" for ks ri'
    using I(5) [of ri' ks] I(5) [of ri' ?ks] E by (auto simp: ri_def split: if_splits)
  ultimately have inv': "table_inv cfg X D' L t3 ?E"
    using t3(2) 2(2) paths_from_ok [OF 2(4)] by (auto simp: table_inv_def refs)
  have "view D' ?E ks = ((view D E)(?ks := (asn, maxlen) # view D E ?ks)) ks" for ks
  proof -
    have "view D' E ks = view D E ks" for ks
      using same by (intro view_same [OF I(1)]) (auto simp: vrps_same_def)
    from this [of ks] this [of ?ks] show ?thesis using 2(5) by (simp add: view_def vrps_of_def ri_def E)
  qed
  then have "view D' ?E = (view D E)(?ks := (asn, maxlen) # view D E ?ks)" by blast
  then show ?thesis using 1(1) 2(1) add t3(1) inv' same unfolding ri_def by blast
qed

section \<open>Deleting a payload\<close>

fun remove_origin :: "u32 \<Rightarrow> (u32 \<times> u8) list \<Rightarrow> (u32 \<times> u8) list" where
  "remove_origin asn [] = []"
| "remove_origin asn (v # vs) = (if fst v = asn then vs else v # remove_origin asn vs)"

definition drop_found :: "nat option \<Rightarrow> 'a list \<Rightarrow> 'a list" where
  "drop_found i xs = (case i of None \<Rightarrow> xs | Some i \<Rightarrow> take i xs @ drop (Suc i) xs)"

lemma drop_found_origin:
  "(\<And>x. x \<in> set xs \<Longrightarrow> Q x \<longleftrightarrow> fst (f x) = asn) \<Longrightarrow>
    map f (drop_found (find_route Q xs) xs) = remove_origin asn (map f xs)"
  by (induction xs) (auto simp: drop_found_def split: option.split)

lemma set_drop_found: "set (drop_found i xs) \<subseteq> set xs"
  by (auto simp: drop_found_def dest: in_set_takeD in_set_dropD split: option.splits)

text \<open>In a balanced database the addresses of paths are as good as their AS numbers.\<close>

lemma origin_pointer:
  assumes bal: "attr_bal cfg peer (D, R)" and P: "paths_ok (ashash D)"
    and a: "a \<in># h_attr R" "heap (attrhash D) a = Some x" "vrp_at D a = Some (u, m)"
    and b: "b \<in># h_attr R" "heap (attrhash D) b = Some y" "vrp_at D b = Some (v, n)"
  shows "at_aspath x = at_aspath y \<longleftrightarrow> u = v"
proof -
  from a(2,3) obtain p s where p: "at_aspath x = Some p" "heap (ashash D) p = Some s" "as_last s = u"
    by (auto simp: vrp_at_def bind_eq_Some_conv)
  from b(2,3) obtain q t where q: "at_aspath y = Some q" "heap (ashash D) q = Some t" "as_last t = v"
    by (auto simp: vrp_at_def bind_eq_Some_conv)
  note B = balancedD [OF attr_balD(1) [OF bal]]
  have mem: "p \<in> pool_ptrs (ashash D)" "q \<in> pool_ptrs (ashash D)"
    using in_part_refs [where D = D and f = at_aspath, OF a(1,2) p(1)] in_part_refs [where D = D and f = at_aspath, OF b(1,2) q(1)] B(2) by auto
  have "p = q" if "u = v"
    using asp.canonical [OF B(1) mem p(2) q(2)] P p q that by (simp add: paths_ok_def origin_path_def)
  then show ?thesis using p q by auto
qed

lemma find_roa_ok:
  assumes "\<And>ri. ri \<in> set ch \<Longrightarrow> ri_peer ri = bp_idx peer
    \<and> (\<exists>x. heap (attrhash D) (ri_attr ri) = Some x \<and> (rpki_attrhash_cmp x new \<longleftrightarrow> Q ri))"
  shows "find_roa D peer new ch = Inr (find_route Q ch)"
  using assms
proof (induction ch)
  case (Cons ri ch)
  from Cons.prems [of ri] obtain x where x: "ri_peer ri = bp_idx peer" "heap (attrhash D) (ri_attr ri) = Some x"
    "rpki_attrhash_cmp x new \<longleftrightarrow> Q ri" by auto
  have "find_roa D peer new ch = Inr (find_route Q ch)" by (rule Cons.IH) (use Cons.prems in auto)
  with x show ?case by (simp add: deref_def)
qed simp

lemma info_delete_from:
  assumes "bgp_info_delete cfg bms stray peer D tbl k b i = Inr (D', tbl')" "paths_ok (ashash D)"
  shows "paths_from (ashash D) (ashash D')"
  using assms by (auto simp: bgp_info_delete_def fault_simps intro: attr_unintern_from)

text \<open>The entry found is deleted, if there is one.\<close>

lemma drop_entry_ok:
  assumes bal: "attr_bal cfg (Some rpki_peer) (D, no_refs\<lparr>h_attr := H\<rparr>)" and P: "paths_ok (ashash D)"
    and u: "in_use_with rpki_misc_db L tbl E (p_bits k) (Suc (L (p_bits k) + length ch)) [ch]" and k: "prefix_ok k"
    and i: "\<forall>j. i = Some j \<longrightarrow> j < length ch" and old: "image_mset ri_attr (mset ch) \<subseteq># H"
  defines "ch' \<equiv> drop_found i ch"
  shows "\<exists>D' tbl' H'. (case i of None \<Rightarrow> Inr (D, tbl)
      | Some j \<Rightarrow> bgp_info_delete cfg rpki_misc_db stray rpki_peer D tbl k 0 j) = Inr (D', tbl')
    \<and> in_use_with rpki_misc_db L tbl' E (p_bits k) (Suc (L (p_bits k) + length ch')) [ch']
    \<and> attr_bal cfg (Some rpki_peer) (D', no_refs\<lparr>h_attr := H'\<rparr>)
    \<and> H' + image_mset ri_attr (mset ch) = H + image_mset ri_attr (mset ch')
    \<and> (\<forall>c. c \<in># H' \<longrightarrow> attr_at D' c = attr_at D c) \<and> paths_from (ashash D) (ashash D')"
proof (cases i)
  case None
  then show ?thesis using bal u paths_from_refl [OF P] by (auto simp: ch'_def drop_found_def)
next
  case (Some j)
  have "in_use_with rpki_misc_db L tbl E (p_bits k) (Suc (L (p_bits k) + total [ch])) [ch]" using u by simp
  from info_delete_with [OF bal rpki_peer_ok(1) this k, of 0 j stray] i old Some obtain D' tbl' H' where
    d: "bgp_info_delete cfg rpki_misc_db stray rpki_peer D tbl k 0 j = Inr (D', tbl')"
      "in_use_with rpki_misc_db L tbl' E (p_bits k) (Suc (L (p_bits k) + length ch')) [ch']"
      "attr_bal cfg (Some rpki_peer) (D', no_refs\<lparr>h_attr := H'\<rparr>)"
      "H' + image_mset ri_attr (mset ch) = H + image_mset ri_attr (mset ch')"
      "\<forall>c. c \<in># H' \<longrightarrow> attr_at D' c = attr_at D c"
    by (auto simp: ch'_def drop_found_def)
  with Some info_delete_from [OF d(1) P] show ?thesis by auto
qed

lemma refs_change:
  assumes "some_entries E" "E ks = [ch]"
  shows "entry_refs (E(ks := [ch'])) + image_mset ri_attr (mset ch) = entry_refs E + image_mset ri_attr (mset ch')"
  using entry_refs_update(1) [OF assms(1), of ks "[ch']"] assms(2) by simp

lemma mset_take_drop: "mset (take j xs @ drop (Suc j) xs) \<subseteq># mset xs"
proof (induction xs arbitrary: j)
  case (Cons x xs)
  then show ?case by (cases j) auto
qed simp

lemma mset_drop_found: "mset (drop_found i xs) \<subseteq># mset xs"
  using mset_take_drop by (auto simp: drop_found_def split: option.split)

lemma table_delete_ok:
  assumes inv: "table_inv cfg X D L tbl E" and p: "prefix_wf p"
    and room: "Suc (L (p_bits p) + total (E (p_bits p))) < 2 ^ 32"
  shows "\<exists>D' tbl' ch'. roa_delete_at cfg stray rpki_peer p asn D tbl = Inr (D', tbl')
    \<and> length ch' \<le> length (E (p_bits p) ! 0) \<and> table_inv cfg X D' L tbl' (E(p_bits p := [ch'])) \<and> vrps_same D D' X
    \<and> view D' (E(p_bits p := [ch'])) = (view D E)(p_bits p := remove_origin asn (view D E (p_bits p)))"
proof -
  note I = table_invD [OF inv]
  let ?ks = "p_bits p"
  define ch where "ch = E ?ks ! 0"
  have E: "E ?ks = [ch]" using one_bucket [OF I(1)] by (simp add: ch_def)
  from roa_node_ok [OF I(1) p room, of stray] obtain tbl1 k where
    1: "roa_node stray tbl p = Inr (tbl1, k)" "prefix_ok k" "p_bits k = ?ks"
      "in_use_with rpki_misc_db L tbl1 E (p_bits k) (Suc (L (p_bits k) + length ch)) [ch]"
    by (auto simp: E)
  let ?H = "X + entry_refs E"
  from roa_attr_ok [OF I(2) rpki_peer_ok(1) I(3), of asn 0] obtain a D1 where
    2: "roa_attr cfg rpki_peer D asn 0 = Inr (a, D1)"
      "attr_bal cfg (Some rpki_peer) (D1, no_refs\<lparr>h_attr := add_mset a ?H\<rparr>)"
      "\<forall>b. b \<in># ?H \<longrightarrow> attr_at D1 b = attr_at D b"
      "paths_from (ashash D) (ashash D1)" "vrp_at D1 a = Some (asn, 0)"
    by blast
  have same1: "vrps_same D D1 ?H" using 2(3) by (intro vrps_sameI [OF I(2) 2(2) _ _ _ I(3) 2(4)]) auto
  note P1 = paths_from_ok [OF 2(4)]
  from attr_deref [OF 2(2), of a] obtain new where
    new: "deref (attrhash D1) a = Inr new" "heap (attrhash D1) a = Some new" by auto
  define f where "f ri = the (vrp_at D1 (ri_attr ri))" for ri :: bgp_info
  have ref: "ri_attr ri \<in># ?H" if "ri \<in> set ch" for ri
    using entry_ref [OF I(1), of ri ?ks] that by (simp add: ch_def)
  have "find_roa D1 rpki_peer new ch = Inr (find_route (\<lambda>ri. fst (f ri) = asn) ch)"
  proof (rule find_roa_ok)
    fix ri assume ri: "ri \<in> set ch"
    from attr_deref [OF 2(2), of "ri_attr ri"] ref [OF ri] obtain x where
      x: "heap (attrhash D1) (ri_attr ri) = Some x" by auto
    have "vrp_at D1 (ri_attr ri) = vrp_at D (ri_attr ri)" using same1 ref [OF ri] by (simp only: vrps_same_def)
    then have "vrp_at D1 (ri_attr ri) \<noteq> None" using I(4) [OF ref [OF ri]] by simp
    then have v: "vrp_at D1 (ri_attr ri) = Some (fst (f ri), snd (f ri))" by (auto simp: f_def)
    have "rpki_attrhash_cmp x new \<longleftrightarrow> fst (f ri) = asn"
      unfolding rpki_attrhash_cmp_def
      by (rule origin_pointer [OF 2(2) P1 _ x v _ new(2) 2(5)]) (use ref [OF ri] in auto)
    moreover have "ri_peer ri = bp_idx rpki_peer" using I(5) [of ri ?ks] ri by (simp add: ch_def)
    ultimately show "ri_peer ri = bp_idx rpki_peer \<and> (\<exists>x. heap (attrhash D1) (ri_attr ri) = Some x
        \<and> (rpki_attrhash_cmp x new \<longleftrightarrow> fst (f ri) = asn))" using x by blast
  qed
  then obtain i where i: "find_roa D1 rpki_peer new ch = Inr i" "i = find_route (\<lambda>ri. fst (f ri) = asn) ch" by blast
  define ch' where "ch' = drop_found i ch"
  let ?E = "E(?ks := [ch'])"
  have old: "image_mset ri_attr (mset ch) \<subseteq># entry_refs E"
    using sum_member [of "{ks. total (E ks) \<noteq> 0}" ?ks "\<lambda>ks. attrs_of (E ks)"] stands_with_finite [OF I(1)] E
    by (cases "ch = []") (auto simp: entry_refs_def some_entries_def simp del: total_0)
  have less: "\<forall>j. i = Some j \<longrightarrow> j < length ch"
    using find_route_less [of "\<lambda>ri. fst (f ri) = asn" ch] i(2) by simp
  from old have "image_mset ri_attr (mset ch) \<subseteq># add_mset a ?H"
    by (auto simp: subseteq_mset_def intro: trans_le_add2 le_SucI)
  from drop_entry_ok [OF 2(2) P1 1(4,2) less this, where stray = stray, folded ch'_def] obtain D2 t2 H2 where
    3: "(case i of None \<Rightarrow> Inr (D1, tbl1)
        | Some j \<Rightarrow> bgp_info_delete cfg rpki_misc_db stray rpki_peer D1 tbl1 k 0 j) = Inr (D2, t2)"
      "in_use_with rpki_misc_db L t2 E (p_bits k) (Suc (L (p_bits k) + length ch')) [ch']"
      "attr_bal cfg (Some rpki_peer) (D2, no_refs\<lparr>h_attr := H2\<rparr>)"
      "H2 + image_mset ri_attr (mset ch) = add_mset a ?H + image_mset ri_attr (mset ch')"
      "\<forall>c. c \<in># H2 \<longrightarrow> attr_at D2 c = attr_at D1 c" "paths_from (ashash D1) (ashash D2)"
    by blast
  have H2: "H2 = (X + entry_refs ?E) + {#a#}"
  proof (rule multiset_eqI)
    show "count H2 c = count (X + entry_refs ?E + {#a#}) c" for c
      using arg_cong [OF 3(4), of "\<lambda>M. count M c"]
        arg_cong [OF refs_change [where ch' = ch', OF stands_with_finite [OF I(1)] E], of "\<lambda>M. count M c"]
      by (auto simp del: count_image_mset split: if_splits)
  qed
  from attr_unintern_held [OF 3(3) [unfolded H2] rpki_peer_ok(1)] obtain D3 where
    4: "bgp_attr_unintern cfg (Some rpki_peer) D2 a = Inr D3"
      "attr_bal cfg (Some rpki_peer) (D3, no_refs\<lparr>h_attr := X + entry_refs ?E\<rparr>)"
      "\<forall>b. b \<in># X + entry_refs ?E \<longrightarrow> attr_at D3 b = attr_at D2 b"
    by blast
  have from3: "paths_from (ashash D2) (ashash D3)" by (rule attr_unintern_from [OF 4(1) paths_from_ok [OF 3(6)]])
  have "in_use_with rpki_misc_db L t2 E (p_bits k) (Suc (L (p_bits k) + total [ch'])) [ch']" using 3(2) by simp
  from use_settle_with [OF this 1(2), of stray] obtain t3 where
    5: "bgp_unlock_node rpki_misc_db stray t2 k = Inr t3" "stands_with rpki_misc_db L t3 ?E"
    by (auto simp: 1(3))
  have run: "roa_delete_at cfg stray rpki_peer p asn D tbl = Inr (D3, t3)"
    using 1(1) 2(1) use_chain [OF 1(4,2), of 0 stray] new(1) i(1) 3(1) 4(1) 5(1)
    by (simp add: roa_delete_at_def)
  have sub: "X + entry_refs ?E \<subseteq># ?H"
  proof -
    have "image_mset ri_attr (mset ch') \<subseteq># image_mset ri_attr (mset ch)"
      unfolding ch'_def by (intro image_mset_subseteq_mono mset_drop_found)
    then have "count (entry_refs ?E) c \<le> count (entry_refs E) c" for c
      using arg_cong [OF refs_change [where ch' = ch', OF stands_with_finite [OF I(1)] E], of "\<lambda>M. count M c"]
        mset_subset_eq_count [of "image_mset ri_attr (mset ch')" "image_mset ri_attr (mset ch)" c]
      by (simp del: count_image_mset)
    then show ?thesis by (simp add: mset_subset_eqI)
  qed
  have "attr_at D3 b = attr_at D b" if "b \<in># X + entry_refs ?E" for b
  proof -
    have "attr_at D3 b = attr_at D2 b" using 4(3) that by blast
    also have "\<dots> = attr_at D1 b" using 3(5) [unfolded H2, rule_format, of b] that by auto
    also have "\<dots> = attr_at D b" using 2(3) mset_subset_eqD [OF sub that] by blast
    finally show ?thesis .
  qed
  then have same: "vrps_same D D3 (X + entry_refs ?E)"
    using sub paths_from_trans [OF 2(4) paths_from_trans [OF 3(6) from3]]
    by (intro vrps_sameI [OF I(2) 4(2) _ _ _ I(3)]) auto
  have "vrp_at D3 b \<noteq> None" if "b \<in># X + entry_refs ?E" for b
    using that I(4) [OF mset_subset_eqD [OF sub that]] same unfolding vrps_same_def by metis
  moreover have "ri_peer ri = bp_idx rpki_peer" if "ri \<in> set (?E ks ! 0)" for ks ri
    using that I(5) [of ri ks] set_drop_found [of i ch] by (auto simp: ch'_def ch_def split: if_splits)
  ultimately have inv': "table_inv cfg X D3 L t3 ?E"
    using 4(2) 5(2) paths_from_ok [OF from3] by (auto simp: table_inv_def)
  have "view D3 ?E ks = ((view D E)(?ks := remove_origin asn (view D E ?ks))) ks" for ks
  proof -
    have "view D3 ?E ks = vrps_of D (?E ks ! 0)"
      using view_same [OF 5(2), of D D3 ks] same by (simp add: view_def vrps_same_def)
    moreover have "vrps_of D ch' = remove_origin asn (vrps_of D ch)"
    proof -
      have "the (vrp_at D (ri_attr ri)) = f ri" if "ri \<in> set ch" for ri
        using same1 ref [OF that] by (simp only: vrps_same_def f_def)
      then have "vrps_of D ch' = map f ch'" "vrps_of D ch = map f ch"
        using set_drop_found [of i ch] by (auto simp: vrps_of_def ch'_def)
      then show ?thesis using drop_found_origin [of ch "\<lambda>ri. fst (f ri) = asn" f asn] by (simp add: ch'_def i(2))
    qed
    ultimately show ?thesis by (simp add: view_def E)
  qed
  then have "view D3 ?E = (view D E)(?ks := remove_origin asn (view D E ?ks))" by blast
  moreover have "length ch' \<le> length ch" unfolding ch'_def using size_mset_mono [OF mset_drop_found [of i ch]] by simp
  ultimately show ?thesis using run inv' vrps_same_sub [OF same, of X] by (auto simp: ch_def)
qed

end
