(* ===== verification/RpkiLookup.thy ===== *)
theory RpkiLookup
  imports RpkiTables
begin

text \<open>
  The lookup of a prefix among the payloads, and the validation of RFC 6811 that it implements.
\<close>

section \<open>The entries that a match looks at\<close>

fun on_path :: "u8 \<Rightarrow> prefix \<Rightarrow> nat \<Rightarrow> nat \<Rightarrow> 'i bgp_node \<Rightarrow> 'i list" where
  "on_path stray p modulo0 n Tip = []"
| "on_path stray p modulo0 n (Node q lk info l r) =
     (if goes_on q p
      then window modulo0 n info @ (case check_bit (p_bytes p) stray (p_len q) of
             Inl _ \<Rightarrow> [] | Inr b \<Rightarrow> on_path stray p modulo0 n (if b then r else l))
      else [])"

lemma match_on_path:
  assumes "patricia bms xs t" "prefix_ok p" "modulo0 + n \<le> length (empty_info bms :: 'i list list)"
    and "node_match ok stray p modulo0 n (t :: 'i bgp_node) (s, None) = Inr (s', None)"
  shows "if \<exists>x \<in> set (on_path stray p modulo0 n t). ok x then s' \<noteq> None else s' = s"
  using assms
proof (induction t arbitrary: xs s)
  case (Node q lk info l r)
  show ?case
  proof (cases "goes_on q p")
    case True
    have len: "modulo0 + n \<le> length info" using Node.prems by simp
    from scan_buckets_ok [OF this, of ok "p_len q = p_len p" q s] obtain s1 where
      s1: "scan_buckets ok (p_len q = p_len p) q info modulo0 n (s, None) = Inr (s1, None)"
        "if \<exists>x \<in> set (window modulo0 n info). ok x
         then \<exists>x \<in> set (window modulo0 n info). ok x \<and> s1 = Some (q, x) else s1 = s"
      by blast
    from Node.prems(4) True s1(1) obtain b where b: "check_bit (p_bytes p) stray (p_len q) = Inr b"
      "node_match ok stray p modulo0 n (if b then r else l) (s1, None) = Inr (s', None)"
      by (auto simp: fault_simps)
    have "if \<exists>x \<in> set (on_path stray p modulo0 n (if b then r else l)). ok x then s' \<noteq> None else s' = s1"
      using Node.IH(1) [of "p_bits q @ [False]" s1] Node.IH(2) [of "p_bits q @ [True]" s1] Node.prems(1-3) b(2)
      by (cases b) simp_all
    then show ?thesis using True b(1) s1(2) by (cases b) (auto split: if_splits)
  qed (use Node.prems in simp)
qed simp

lemma on_path_hit:
  assumes "patricia bms xs t" "prefix_ok p" "modulo0 + n \<le> length (empty_info bms :: 'i list list)"
  shows "x \<in> set (on_path stray p modulo0 n (t :: 'i bgp_node)) \<longleftrightarrow>
    (\<exists>ks lk info. rib t ks = Some (lk, info) \<and> Sublist.prefix ks (p_bits p) \<and> x \<in> set (window modulo0 n info))"
proof -
  from node_match_ok [OF assms, of "\<lambda>y. y = x" stray None] obtain s' where
    s': "node_match (\<lambda>y. y = x) stray p modulo0 n t (None, None) = Inr (s', None)"
      "match_ok (\<lambda>y. y = x) p modulo0 n t None s'" by blast
  have "x \<in> set (on_path stray p modulo0 n t) \<longleftrightarrow> s' \<noteq> None"
    using match_on_path [OF assms s'(1)] by (auto split: if_splits)
  also have "\<dots> \<longleftrightarrow> (\<exists>ks. hit (\<lambda>y. y = x) p modulo0 n t ks x)"
    using s'(2) by (auto simp: match_ok_def hit_def split: if_splits)
  finally show ?thesis by (auto simp: hit_def)
qed

section \<open>The result that the comparison leaves\<close>

definition verdict :: "('i \<Rightarrow> bool) \<Rightarrow> 'i list \<Rightarrow> u8 \<Rightarrow> u8" where
  "verdict ok xs c = (if (\<exists>x \<in> set xs. ok x) \<or> c = ROA_STATUS_VALID then ROA_STATUS_VALID
     else if xs = [] then c else ROA_STATUS_INVALID)"

definition judges :: "('i \<Rightarrow> u8 \<Rightarrow> (bool \<times> u8) run) \<Rightarrow> ('i \<Rightarrow> bool) \<Rightarrow> 'i list \<Rightarrow> bool" where
  "judges cmp ok xs \<longleftrightarrow> (\<forall>x \<in> set xs. \<forall>c. cmp x c = Inr (\<not> ok x, verdict ok [x] c))"

lemma judges_append [simp]: "judges cmp ok (xs @ ys) \<longleftrightarrow> judges cmp ok xs \<and> judges cmp ok ys"
  by (auto simp: judges_def)

lemma verdict_Nil [simp]: "verdict ok [] c = c"
  by (simp add: verdict_def)

lemma verdict_append: "verdict ok (xs @ ys) c = verdict ok ys (verdict ok xs c)"
  by (auto simp: verdict_def roa_consts)

lemma verdict_valid [simp]: "verdict ok xs ROA_STATUS_VALID = ROA_STATUS_VALID"
  by (simp add: verdict_def)

lemma scan_infos_verdict:
  "judges cmp ok xs \<Longrightarrow> scan_infos_s cmp exact q xs (st, c)
    = fbind (scan_infos ok exact q xs st) (\<lambda>st. Inr (st, verdict ok xs c))"
proof (induction xs arbitrary: st c)
  case (Cons x xs)
  have x: "cmp x c = Inr (\<not> ok x, verdict ok [x] c)" and xs: "judges cmp ok xs"
    using Cons.prems by (auto simp: judges_def)
  note step = Cons.IH [OF xs] verdict_append [of ok "[x]" xs c, simplified, symmetric]
  show ?case
  proof (cases "ok x")
    case True
    then have v: "verdict ok (x # xs) c = ROA_STATUS_VALID" "verdict ok [x] c = ROA_STATUS_VALID"
      by (simp_all add: verdict_def)
    show ?thesis using x True step v by (cases "push_match q x st"; cases exact) auto
  next
    case False
    then show ?thesis using x step by simp
  qed
qed simp

lemma scan_buckets_verdict:
  "judges cmp ok (window modulo0 n info) \<Longrightarrow> modulo0 + n \<le> length info \<Longrightarrow>
    scan_buckets_s cmp exact q info modulo0 n (st, c)
      = fbind (scan_buckets ok exact q info modulo0 n st) (\<lambda>st. Inr (st, verdict ok (window modulo0 n info) c))"
proof (induction n arbitrary: modulo0 st c)
  case (Suc n)
  have lt: "modulo0 < length info" using Suc.prems by simp
  then have w: "window modulo0 (Suc n) info = info ! modulo0 @ window (modulo0 + 1) n info"
    by (simp add: window_def Cons_nth_drop_Suc [symmetric])
  have j: "judges cmp ok (info ! modulo0)" "judges cmp ok (window (modulo0 + 1) n info)"
    using Suc.prems(1) unfolding w by simp_all
  have "modulo0 + 1 + n \<le> length info" using Suc.prems(2) by simp
  note IH = Suc.IH [OF j(2) this]
  show ?case
    using lt scan_infos_verdict [OF j(1), of exact q st c] IH
    by (cases "scan_infos ok exact q (info ! modulo0) st") (auto simp: w verdict_append)
qed (simp add: window_def)

lemma node_match_verdict:
  assumes "patricia bms xs t" "modulo0 + n \<le> length (empty_info bms :: 'i list list)"
    and "judges cmp ok (on_path stray p modulo0 n t)"
  shows "node_match_s cmp stray p modulo0 n (t :: 'i bgp_node) (st, c)
    = fbind (node_match ok stray p modulo0 n t st) (\<lambda>st. Inr (st, verdict ok (on_path stray p modulo0 n t) c))"
  using assms
proof (induction t arbitrary: xs st c)
  case (Node q lk info l r)
  show ?case
  proof (cases "goes_on q p")
    case True
    have len: "modulo0 + n \<le> length info" using Node.prems by simp
    have j: "judges cmp ok (window modulo0 n info)" using Node.prems(3) True by simp
    show ?thesis
    proof (cases "check_bit (p_bytes p) stray (p_len q)")
      case (Inl e)
      then show ?thesis using True scan_buckets_verdict [OF j len, of "p_len q = p_len p" q st c]
        by (cases "scan_buckets ok (p_len q = p_len p) q info modulo0 n st") auto
    next
      case (Inr b)
      let ?c = "if b then r else l"
      have "judges cmp ok (on_path stray p modulo0 n ?c)" using Node.prems(3) True Inr by simp
      then have "node_match_s cmp stray p modulo0 n ?c (st, c)
          = fbind (node_match ok stray p modulo0 n ?c st) (\<lambda>st. Inr (st, verdict ok (on_path stray p modulo0 n ?c) c))" for st c
        using Node.IH(1) [of "p_bits q @ [False]" st c] Node.IH(2) [of "p_bits q @ [True]" st c] Node.prems(1,2)
        by (cases b) simp_all
      then show ?thesis using True Inr scan_buckets_verdict [OF j len, of "p_len q = p_len p" q st c]
        by (cases "scan_buckets ok (p_len q = p_len p) q info modulo0 n st") (auto simp: verdict_append)
    qed
  qed simp
qed simp

section \<open>Origin validation\<close>

text \<open>RFC 6811: the payloads that cover the prefix are those of its own network and of all shorter ones;
  one of them with the origin AS and a maximum length that allows the prefix makes the route valid.\<close>

definition covering :: "(bool list \<Rightarrow> (u32 \<times> u8) list) \<Rightarrow> prefix \<Rightarrow> (u32 \<times> u8) list" where
  "covering V p = concat (map V (prefixes (p_bits p)))"

definition matches :: "prefix \<Rightarrow> u32 \<Rightarrow> u32 \<times> u8 \<Rightarrow> bool" where
  "matches p asn v \<longleftrightarrow> fst v = asn \<and> p_len p \<le> unat (snd v)"

definition origin_validation :: "(bool list \<Rightarrow> (u32 \<times> u8) list) \<Rightarrow> prefix \<Rightarrow> u32 \<Rightarrow> u8" where
  "origin_validation V p asn =
     (if list_ex (matches p asn) (covering V p) then ROA_STATUS_VALID
      else if covering V p = [] then ROA_STATUS_UNKNOWN else ROA_STATUS_INVALID)"

lemma path_entries:
  assumes s: "stands_with rpki_misc_db L tbl E" and p: "prefix_ok p"
  shows "x \<in> set (on_path stray p 0 1 (t_top tbl)) \<longleftrightarrow> (\<exists>ks. Sublist.prefix ks (p_bits p) \<and> x \<in> set (E ks ! 0))"
proof -
  have t: "patricia rpki_misc_db [] (t_top tbl)" "table_rib tbl = rib_with L E"
    using s by (simp_all add: stands_with_def table_ok_def)
  have w: "window 0 1 (E ks) = E ks ! 0" for ks by (subst one_bucket [OF s, of ks]) (simp add: window_def)
  have "L ks + total (E ks) \<noteq> 0" if "x \<in> set (E ks ! 0)" for ks
    by (subst one_bucket [OF s, of ks]) (use that in \<open>auto simp: length_pos_if_in_set simp del: total_0\<close>)
  then show ?thesis
    using on_path_hit [OF t(1) p, of 0 1 x stray] w by (auto simp: t(2) rib_with_def simp del: total_0 split: if_splits)
qed

lemma validation_verdict:
  assumes s: "stands_with rpki_misc_db L tbl E" and p: "prefix_ok p"
    and f: "\<And>ks ri. ri \<in> set (E ks ! 0) \<Longrightarrow> ok ri \<longleftrightarrow> matches p asn (the (vrp_at D (ri_attr ri)))"
  shows "verdict ok (on_path stray p 0 1 (t_top tbl)) ROA_STATUS_UNKNOWN = origin_validation (view D E) p asn"
proof -
  let ?xs = "on_path stray p 0 1 (t_top tbl)"
  note P = path_entries [OF s p, where stray = stray]
  have cov: "v \<in> set (covering (view D E) p) \<longleftrightarrow> (\<exists>x \<in> set ?xs. v = the (vrp_at D (ri_attr x)))" for v
  proof -
    have "v \<in> set (covering (view D E) p) \<longleftrightarrow>
        (\<exists>ks. Sublist.prefix ks (p_bits p) \<and> (\<exists>x \<in> set (E ks ! 0). v = the (vrp_at D (ri_attr x))))"
      unfolding covering_def view_def vrps_of_def by auto
    also have "\<dots> \<longleftrightarrow> (\<exists>x \<in> set ?xs. v = the (vrp_at D (ri_attr x)))"
      unfolding Bex_def P by blast
    finally show ?thesis .
  qed
  have 1: "(\<exists>x \<in> set ?xs. ok x) \<longleftrightarrow> list_ex (matches p asn) (covering (view D E) p)"
    unfolding list_ex_iff using P cov f by metis
  have "set (covering (view D E) p) = (\<lambda>x. the (vrp_at D (ri_attr x))) ` set ?xs"
    unfolding set_eq_iff image_iff using cov by blast
  then have 2: "?xs = [] \<longleftrightarrow> covering (view D E) p = []"
    by (metis image_is_empty set_empty)
  show ?thesis unfolding verdict_def origin_validation_def 1 2 by (simp add: roa_consts)
qed

lemma table_lookup_ok:
  assumes inv: "table_inv cfg X D L tbl E" and p: "prefix_wf p"
    and room: "\<And>ks. Suc (L ks + total (E ks)) < 2 ^ 32"
  shows "\<exists>tbl' found L'. bgp_node_match_s rpki_misc_db stray tbl p None (rpki_prefix_lookup_node_match_cmp D p asn)
      ROA_STATUS_UNKNOWN False = Inr (tbl', found, None, origin_validation (view D E) p asn)
    \<and> table_inv cfg X D L' tbl' E
    \<and> (\<exists>ks. Sublist.prefix ks (p_bits p)
          \<and> L' = (if origin_validation (view D E) p asn = ROA_STATUS_VALID then L(ks := Suc (L ks)) else L))"
proof -
  note I = table_invD [OF inv]
  have ok: "prefix_ok p" using p by simp
  have t: "patricia rpki_misc_db [] (t_top tbl)" "table_rib tbl = rib_with L E"
    using I(1) by (simp_all add: stands_with_def table_ok_def)
  define good where "good ri \<longleftrightarrow> matches p asn (the (vrp_at D (ri_attr ri)))" for ri :: bgp_info
  let ?xs = "on_path stray p 0 1 (t_top tbl)"
  let ?cmp = "rpki_prefix_lookup_node_match_cmp D p asn"
  have "judges ?cmp good ?xs"
    unfolding judges_def
  proof (intro ballI allI)
    fix ri c assume "ri \<in> set ?xs"
    then obtain ks where ks: "ri \<in> set (E ks ! 0)" using path_entries [OF I(1) ok] by blast
    have "ri_attr ri \<in># X + entry_refs E" using entry_ref [OF I(1) ks] by simp
    from I(4) [OF this] obtain v where v: "vrp_at D (ri_attr ri) = Some v" by blast
    then obtain x q path where x: "heap (attrhash D) (ri_attr ri) = Some x" "at_aspath x = Some q"
      "heap (ashash D) q = Some path" "v = (as_last path, at_rpki_maxlen x)"
      by (auto simp: vrp_at_def bind_eq_Some_conv)
    then show "?cmp ri c = Inr (\<not> good ri, verdict good [ri] c)"
      using v by (auto simp: rpki_prefix_lookup_node_match_cmp_def deref_def good_def matches_def verdict_def
          evaluate_last_asn_def)
  qed
  note M = node_match_verdict [OF t(1) _ this, of "(None, None)" ROA_STATUS_UNKNOWN]
  have val: "verdict good ?xs ROA_STATUS_UNKNOWN = origin_validation (view D E) p asn"
    by (rule validation_verdict [OF I(1) ok]) (simp add: good_def)
  from node_match_ok [OF t(1) ok, of 0 1 good stray None] obtain s' where
    s': "node_match good stray p 0 1 (t_top tbl) (None, None) = Inr (s', None)"
      "match_ok good p 0 1 (t_top tbl) None s'"
    by auto
  have run: "node_match_s ?cmp stray p 0 1 (t_top tbl) ((None, None), ROA_STATUS_UNKNOWN)
      = Inr ((s', None), origin_validation (view D E) p asn)"
    using M s'(1) val by simp
  have found: "s' \<noteq> None \<longleftrightarrow> origin_validation (view D E) p asn = ROA_STATUS_VALID"
    using match_on_path [OF t(1) ok _ s'(1)] unfolding val [symmetric]
    by (auto simp: verdict_def roa_consts split: if_splits)
  show ?thesis
  proof (cases s')
    case None
    then show ?thesis using run inv found by (auto simp: bgp_node_match_s_def)
  next
    case (Some qx)
    obtain q x where qx: "qx = (q, x)" by (cases qx)
    with s'(2) Some have q: "prefix_ok q" "Sublist.prefix (p_bits q) (p_bits p)"
      "\<exists>lk info. rib (t_top tbl) (p_bits q) = Some (lk, info)"
      by (auto simp: match_ok_def hit_def split: if_splits)
    then have "L (p_bits q) + total (E (p_bits q)) \<noteq> 0" by (auto simp: t(2) rib_with_def split: if_splits)
    from lock_kept [OF I(1) q(1) _ this room, of stray] obtain top where
      top: "node_lock rpki_misc_db stray (t_top tbl) q = Inr top"
        "stands_with rpki_misc_db (L(p_bits q := Suc (L (p_bits q)))) (tbl\<lparr>t_top := top\<rparr>) E"
      by auto
    have "table_inv cfg X D (L(p_bits q := Suc (L (p_bits q)))) (tbl\<lparr>t_top := top\<rparr>) E"
      using inv top(2) by (simp add: table_inv_def)
    moreover have "\<exists>ks. Sublist.prefix ks (p_bits p) \<and> L(p_bits q := Suc (L (p_bits q)))
        = (if origin_validation (view D E) p asn = ROA_STATUS_VALID then L(ks := Suc (L ks)) else L)"
      using found Some q(2) by auto
    ultimately show ?thesis using run Some qx top(1)
      by (intro exI [of _ "tbl\<lparr>t_top := top\<rparr>"] exI [of _ "Some (q, x)"]
          exI [of _ "L(p_bits q := Suc (L (p_bits q)))"]) (simp add: bgp_node_match_s_def)
  qed
qed

end
