(* ===== verification/LookupFacts.thy ===== *)
theory LookupFacts
  imports LookingGlass RpkiLookup PeerFacts
begin

text \<open>
  Lookups for flows on tables that stand for maps of entries: each finds the longest match among the
  entries of the peer, and leaves a lock on its node.
\<close>

section \<open>Matching without a result\<close>

definition decides :: "('i \<Rightarrow> unit \<Rightarrow> (bool \<times> unit) run) \<Rightarrow> ('i \<Rightarrow> bool) \<Rightarrow> 'i list \<Rightarrow> bool" where
  "decides cmp ok xs \<longleftrightarrow> (\<forall>x \<in> set xs. cmp x () = Inr (\<not> ok x, ()))"

lemma decides_append [simp]: "decides cmp ok (xs @ ys) \<longleftrightarrow> decides cmp ok xs \<and> decides cmp ok ys"
  by (auto simp: decides_def)

lemma scan_infos_unit:
  "decides cmp ok xs \<Longrightarrow> scan_infos_s cmp exact q xs (st, ()) = fbind (scan_infos ok exact q xs st) (\<lambda>st. Inr (st, ()))"
proof (induction xs arbitrary: st)
  case (Cons x xs)
  have x: "cmp x () = Inr (\<not> ok x, ())" and xs: "decides cmp ok xs"
    using Cons.prems by (auto simp: decides_def)
  show ?case using x Cons.IH [OF xs] by (cases "ok x"; cases "push_match q x st"; cases exact) auto
qed simp

lemma scan_buckets_unit:
  "decides cmp ok (window modulo0 n info) \<Longrightarrow> modulo0 + n \<le> length info \<Longrightarrow>
    scan_buckets_s cmp exact q info modulo0 n (st, ()) = fbind (scan_buckets ok exact q info modulo0 n st) (\<lambda>st. Inr (st, ()))"
proof (induction n arbitrary: modulo0 st)
  case (Suc n)
  have lt: "modulo0 < length info" using Suc.prems by simp
  then have w: "window modulo0 (Suc n) info = info ! modulo0 @ window (modulo0 + 1) n info"
    by (simp add: window_def Cons_nth_drop_Suc [symmetric])
  have d: "decides cmp ok (info ! modulo0)" "decides cmp ok (window (modulo0 + 1) n info)"
    using Suc.prems(1) unfolding w by simp_all
  have "modulo0 + 1 + n \<le> length info" using Suc.prems(2) by simp
  note IH = Suc.IH [OF d(2) this]
  show ?case
    using lt scan_infos_unit [OF d(1), of exact q st] IH
    by (cases "scan_infos ok exact q (info ! modulo0) st") auto
qed simp

lemma node_match_unit:
  assumes "patricia bms xs t" "modulo0 + n \<le> length (empty_info bms :: 'i list list)"
    and "decides cmp ok (on_path stray p modulo0 n t)"
  shows "node_match_s cmp stray p modulo0 n (t :: 'i bgp_node) (st, ())
    = fbind (node_match ok stray p modulo0 n t st) (\<lambda>st. Inr (st, ()))"
  using assms
proof (induction t arbitrary: xs st)
  case (Node q lk info l r)
  show ?case
  proof (cases "goes_on q p")
    case True
    have len: "modulo0 + n \<le> length info" using Node.prems by simp
    have d: "decides cmp ok (window modulo0 n info)" using Node.prems(3) True by simp
    show ?thesis
    proof (cases "check_bit (p_bytes p) stray (p_len q)")
      case (Inl e)
      then show ?thesis using True scan_buckets_unit [OF d len, of "p_len q = p_len p" q st]
        by (cases "scan_buckets ok (p_len q = p_len p) q info modulo0 n st") auto
    next
      case (Inr b)
      let ?c = "if b then r else l"
      have "decides cmp ok (on_path stray p modulo0 n ?c)" using Node.prems(3) True Inr by simp
      then have "node_match_s cmp stray p modulo0 n ?c (st, ()) = fbind (node_match ok stray p modulo0 n ?c st) (\<lambda>st. Inr (st, ()))" for st
        using Node.IH(1) [of "p_bits q @ [False]" st] Node.IH(2) [of "p_bits q @ [True]" st] Node.prems(1,2)
        by (cases b) simp_all
      then show ?thesis using True Inr scan_buckets_unit [OF d len, of "p_len q = p_len p" q st]
        by (cases "scan_buckets ok (p_len q = p_len p) q info modulo0 n st") auto
    qed
  qed simp
qed simp

section \<open>The entries that a lookup is after\<close>

definition wanted_entry :: "attr_db \<Rightarrow> node_match_cmp_term2 \<Rightarrow> bgp_info \<Rightarrow> bool" where
  "wanted_entry D nm ri \<longleftrightarrow> ri_peer ri = bp_idx (nm_peer nm)
     \<and> (nm_safi nm = SAFI_MPLS_VPN \<longrightarrow> (\<exists>ex. ri_extra ri = Some ex \<and> nm_rd nm = Some (ax_rd ex)))
     \<and> (cap_of (nm_peer nm) (nm_afi nm) (nm_safi nm) \<longrightarrow>
         (\<forall>dst. nm_peer_dst_ip nm = Some dst \<longrightarrow> (\<exists>x. heap (attrhash D) (ri_attr ri) = Some x \<and> next_hop_is x dst)))"

lemma cmp_bgp_ok:
  assumes "heap (attrhash D) (ri_attr ri) \<noteq> None" "nm_rd nm \<noteq> None"
  shows "bgp_lookup_node_match_cmp_bgp D nm ri = Inr (\<not> wanted_entry D nm ri)"
  using assms
  by (auto simp: bgp_lookup_node_match_cmp_bgp_def wanted_entry_def deref_def Let_def split: option.splits)

text \<open>The longest match among the entries \<open>V\<close> of the networks.\<close>

definition longest :: "('i \<Rightarrow> bool) \<Rightarrow> (bool list \<Rightarrow> 'i list) \<Rightarrow> prefix \<Rightarrow> (prefix \<times> 'i) option \<Rightarrow> bool" where
  "longest ok V p found \<longleftrightarrow>
     (case found of
        None \<Rightarrow> \<forall>ks. Sublist.prefix ks (p_bits p) \<longrightarrow> (\<forall>x \<in> set (V ks). \<not> ok x)
      | Some (q, x) \<Rightarrow> prefix_ok q \<and> Sublist.prefix (p_bits q) (p_bits p) \<and> x \<in> set (V (p_bits q)) \<and> ok x
          \<and> (\<forall>ks. Sublist.prefix ks (p_bits p) \<longrightarrow> (\<exists>y \<in> set (V ks). ok y) \<longrightarrow> length ks \<le> length (p_bits q)))"

lemma longest_cong:
  assumes "\<And>ks x. ok x \<Longrightarrow> x \<in> set (V ks) \<longleftrightarrow> x \<in> set (W ks)"
  shows "longest ok V p found \<longleftrightarrow> longest ok W p found"
proof -
  have 1: "(\<exists>y \<in> set (V ks). ok y) \<longleftrightarrow> (\<exists>y \<in> set (W ks). ok y)" for ks using assms by blast
  then have 2: "(\<forall>y \<in> set (V ks). \<not> ok y) \<longleftrightarrow> (\<forall>y \<in> set (W ks). \<not> ok y)" for ks by blast
  have 3: "x \<in> set (V ks) \<and> ok x \<and> b \<longleftrightarrow> x \<in> set (W ks) \<and> ok x \<and> b" for x ks b using assms by blast
  show ?thesis unfolding longest_def 1 2 3 ..
qed

lemma window_entry: "x \<in> set (window m n info) \<Longrightarrow> x \<in> set (concat info)"
  by (auto simp: window_def dest!: in_set_takeD in_set_dropD)

lemma match_longest:
  assumes s: "stands_with bms L table E" and p: "prefix_ok p"
    and m: "m + n \<le> length (empty_info bms :: 'i list list)"
    and f: "match_ok ok p m n (t_top table) None (found :: (prefix \<times> 'i) option)"
  shows "longest ok (\<lambda>ks. window m n (E ks)) p found"
proof -
  have t: "rib (t_top table) = rib_with L E" using s by (simp add: stands_with_def)
  have hit: "hit ok p m n (t_top table) ks x \<longleftrightarrow> Sublist.prefix ks (p_bits p) \<and> x \<in> set (window m n (E ks)) \<and> ok x" for ks x
  proof -
    have "x \<in> set (window m n (E ks)) \<Longrightarrow> L ks + total (E ks) \<noteq> 0"
      using window_entry [of x m n "E ks"] unfolding total_def by (metis add_is_0 length_0_conv list.set(1) empty_iff)
    then show ?thesis unfolding hit_def t rib_with_def by auto
  qed
  have len: "prefix_ok q \<Longrightarrow> length (p_bits q) = p_len q" for q
    by (simp add: p_bits_def prefix_ok_def)
  show ?thesis
    using f len unfolding match_ok_def longest_def hit by (cases found) (auto split: if_splits)
qed

section \<open>One lookup\<close>

type_synonym locks = "nat \<Rightarrow> nat \<Rightarrow> bool list \<Rightarrow> nat"

definition locked_ribs :: "misc_db \<Rightarrow> locks \<Rightarrow> rt_db \<Rightarrow> ribs \<Rightarrow> bool" where
  "locked_ribs bms L db Es \<longleftrightarrow> (\<forall>afi safi. stands_with bms (L afi safi) (rt_rib db afi safi) (Es afi safi))"

definition live_entries :: "attr_db \<Rightarrow> ribs \<Rightarrow> bool" where
  "live_entries D Es \<longleftrightarrow> (\<forall>afi safi ks ri. (afi, safi) \<in> tables \<longrightarrow> ri \<in> set (concat (Es afi safi ks))
     \<longrightarrow> heap (attrhash D) (ri_attr ri) \<noteq> None)"

definition spare_locks :: "nat \<Rightarrow> locks \<Rightarrow> ribs \<Rightarrow> bool" where
  "spare_locks k L Es \<longleftrightarrow> (\<forall>afi safi ks. L afi safi ks + total (Es afi safi ks) + k < 2 ^ 32)"

text \<open>A match leaves its node locked.\<close>

definition pin :: "nat \<Rightarrow> nat \<Rightarrow> (prefix \<times> bgp_info) option \<Rightarrow> locks \<Rightarrow> locks" where
  "pin afi safi found L = (case found of None \<Rightarrow> L
     | Some (q, _) \<Rightarrow> L(afi := (L afi)(safi := (L afi safi)(p_bits q := Suc (L afi safi (p_bits q))))))"

lemma pin_grows: "L a s ks \<le> pin afi safi found L a s ks"
  by (auto simp: pin_def split: option.split)

lemma pin_spare: "spare_locks (Suc k) L Es \<Longrightarrow> spare_locks k (pin afi safi found L) Es"
  unfolding spare_locks_def
proof (intro allI)
  fix a s ks
  assume "\<forall>afi safi ks. L afi safi ks + total (Es afi safi ks) + Suc k < 2 ^ 32"
  then have "L a s ks + total (Es a s ks) + Suc k < 2 ^ 32" by blast
  moreover have "pin afi safi found L a s ks \<le> Suc (L a s ks)" by (auto simp: pin_def split: option.split)
  ultimately show "pin afi safi found L a s ks + total (Es a s ks) + k < 2 ^ 32" by linarith
qed

lemma spare_locks_less: "spare_locks k L Es \<Longrightarrow> j \<le> k \<Longrightarrow> spare_locks j L Es"
  unfolding spare_locks_def by (meson add_le_mono le_less_trans le_refl)

lemma match_entries_ok:
  fixes db :: rt_db
  assumes ribs: "locked_ribs bms L db Es" and live: "live_entries (rt_attrs db) Es" and spare: "spare_locks 1 L Es"
    and p: "prefix_ok p" and ro: "\<not> is_readonly bms" and tab: "(afi, safi) \<in> tables" and rd: "nm_rd nm \<noteq> None"
    and m: "bgp_route_info_modulo bms (nm_peer nm) (nm_rd nm) None (match_buckets bms) = Inr m"
      "m + modulo_idx_max bms \<le> length (empty_info bms :: bgp_info list list)"
  shows "\<exists>found db'. match_entries bms stray nm afi safi p False db = Inr (found, None, db')
    \<and> rt_attrs db' = rt_attrs db \<and> locked_ribs bms (pin afi safi found L) db' Es
    \<and> longest (wanted_entry (rt_attrs db) nm) (\<lambda>ks. window m (modulo_idx_max bms) (Es afi safi ks)) p found"
proof -
  let ?t = "rt_rib db afi safi" let ?n = "modulo_idx_max bms" let ?ok = "wanted_entry (rt_attrs db) nm"
  let ?cmp = "\<lambda>info (). fbind (bgp_lookup_node_match_cmp_bgp (rt_attrs db) nm info) (\<lambda>b. Inr (b, ()))"
  have s: "stands_with bms (L afi safi) ?t (Es afi safi)" using ribs by (simp add: locked_ribs_def)
  then have t: "patricia bms [] (t_top ?t)" "table_rib ?t = rib_with (L afi safi) (Es afi safi)"
    by (simp_all add: stands_with_def table_ok_def)
  have "decides ?cmp ?ok (on_path stray p m ?n (t_top ?t))"
    unfolding decides_def
  proof
    fix ri assume "ri \<in> set (on_path stray p m ?n (t_top ?t))"
    then obtain ks where "ri \<in> set (window m ?n (Es afi safi ks))"
      using on_path_hit [OF t(1) p m(2)] by (auto simp: t(2) rib_with_def split: if_splits)
    then have "ri \<in> set (concat (Es afi safi ks))" by (rule window_entry)
    with live tab have "heap (attrhash (rt_attrs db)) (ri_attr ri) \<noteq> None" unfolding live_entries_def by blast
    from cmp_bgp_ok [OF this rd] show "?cmp ri () = Inr (\<not> ?ok ri, ())" by (simp only: case_unit_Unity fbind.simps)
  qed
  note unit = node_match_unit [OF t(1) m(2) this, of "(None, None)"]
  from node_match_ok [OF t(1) p m(2), of ?ok stray None] obtain found where
    f: "node_match ?ok stray p m ?n (t_top ?t) (None, None) = Inr (found, None)" "match_ok ?ok p m ?n (t_top ?t) None found"
    by blast
  note long = match_longest [OF s p m(2) f(2)]
  have run: "node_match_s ?cmp stray p m ?n (t_top ?t) ((None, None), ()) = Inr ((found, None), ())"
    using unit f(1) by simp
  show ?thesis
  proof (cases found)
    case None
    have "put_table afi safi ?t db = db" by (simp add: put_table_def)
    with None run long ribs show ?thesis
      by (intro exI [of _ found] exI [of _ db]) (simp add: match_entries_def m bgp_node_match_s_def pin_def)
  next
    case (Some qx)
    obtain q x where qx: "qx = (q, x)" by (cases qx)
    with long Some have q: "prefix_ok q" "x \<in> set (window m ?n (Es afi safi (p_bits q)))" by (auto simp: longest_def)
    have "total (Es afi safi (p_bits q)) \<noteq> 0"
      using window_entry [OF q(2)] unfolding total_def by (metis length_0_conv list.set(1) empty_iff)
    then have held: "L afi safi (p_bits q) + total (Es afi safi (p_bits q)) \<noteq> 0" by linarith
    have room: "Suc (L afi safi (p_bits q) + total (Es afi safi (p_bits q))) < 2 ^ 32"
      using spare by (simp add: spare_locks_def del: total_0)
    from lock_kept [OF s q(1) ro held room, of stray] obtain top where
      top: "node_lock bms stray (t_top ?t) q = Inr top"
        "stands_with bms ((L afi safi)(p_bits q := Suc (L afi safi (p_bits q)))) (?t\<lparr>t_top := top\<rparr>) (Es afi safi)"
      by auto
    have "locked_ribs bms (pin afi safi found L) (put_table afi safi (?t\<lparr>t_top := top\<rparr>) db) Es"
      using ribs top(2) Some qx by (auto simp: locked_ribs_def pin_def)
    with Some qx run long top(1) show ?thesis
      by (intro exI [of _ found] exI [of _ "put_table afi safi (?t\<lparr>t_top := top\<rparr>) db"])
        (simp add: match_entries_def m bgp_node_match_s_def)
  qed
qed

text \<open>A peer is searched in all of its buckets when they are chosen by the path identifier, or when it has
  one only; else in the one of the route distinguisher.\<close>

definition all_buckets :: "misc_db \<Rightarrow> bool" where
  "all_buckets bms \<longleftrightarrow> table_per_peer_hash bms = BGP_ASPATH_HASH_PATHID \<or> table_per_peer_buckets bms = 1"

lemma lookup_buckets:
  assumes "buckets_ok bms" "fd_ok bms peer" "all_buckets bms"
  shows "bgp_route_info_modulo bms peer rd None (match_buckets bms) = Inr (first_bucket bms peer)"
    and "modulo_idx_max bms = table_per_peer_buckets bms"
    and "first_bucket bms peer + modulo_idx_max bms \<le> length (empty_info bms :: bgp_info list list)"
proof -
  show n: "modulo_idx_max bms = table_per_peer_buckets bms"
    using assms(3) by (auto simp: all_buckets_def modulo_idx_max_def)
  show "first_bucket bms peer + modulo_idx_max bms \<le> length (empty_info bms :: bgp_info list list)"
    unfolding n by (rule modulo_window(3) [OF assms(1,2)])
  have mb: "match_buckets bms = table_per_peer_buckets bms"
    using assms(3) by (auto simp: all_buckets_def match_buckets_def)
  show "bgp_route_info_modulo bms peer rd None (match_buckets bms) = Inr (first_bucket bms peer)"
  proof (cases "table_per_peer_hash bms = BGP_ASPATH_HASH_PATHID")
    case True
    then have "bgp_route_info_modulo bms peer rd None n = bgp_route_info_modulo bms peer None None n" for n
      by (simp add: bgp_route_info_modulo_def)
    then show ?thesis unfolding mb using modulo_window(2) [OF assms(1,2)] by simp
  next
    case False
    then have 1: "table_per_peer_buckets bms = 1" using assms(3) by (simp add: all_buckets_def)
    from modulo_window(1) [OF assms(1,2), of rd None] show ?thesis unfolding mb 1 by auto
  qed
qed

lemma window_placed:
  assumes "placed bms peer info" "length info = length (empty_info bms :: bgp_info list list)" "ri_peer ri = bp_idx peer"
  shows "ri \<in> set (window (first_bucket bms peer) (table_per_peer_buckets bms) info) \<longleftrightarrow> ri \<in> set (concat info)"
proof
  assume "ri \<in> set (concat info)"
  then obtain c where "c \<in> set info" "ri \<in> set c" by auto
  then obtain b where b: "b < length info" "ri \<in> set (info ! b)" unfolding in_set_conv_nth [of c] by auto
  then have "\<not> list_all (foreign peer) (info ! b)" using assms(3) by (auto simp: list_all_iff foreign_def)
  then have "own_bucket bms peer b" using assms(1) b(1) by (auto simp: placed_def)
  then have o: "first_bucket bms peer \<le> b" "b - first_bucket bms peer < table_per_peer_buckets bms"
    by (auto simp: own_bucket_def)
  have "info ! b \<in> set (take (table_per_peer_buckets bms) (drop (first_bucket bms peer) info))"
    unfolding in_set_conv_nth using o b(1) by (intro exI [of _ "b - first_bucket bms peer"]) auto
  with b(2) show "ri \<in> set (window (first_bucket bms peer) (table_per_peer_buckets bms) info)"
    by (auto simp: window_def)
qed (rule window_entry)

section \<open>The two sides of a flow\<close>

definition env_ok :: "lookup_env \<Rightarrow> bool" where
  "env_ok E \<longleftrightarrow> \<not> is_readonly (le_bms E) \<and> buckets_ok (le_bms E) \<and> all_buckets (le_bms E) \<and> \<not> le_rpki E"

definition addr_ok :: "nat \<Rightarrow> u8 list \<Rightarrow> bool" where
  "addr_ok afi addr \<longleftrightarrow> length addr = (if afi = AFI_IP then 4 else 16)"

lemma addr_prefix_ok [simp]: "addr_ok afi addr \<Longrightarrow> prefix_ok (addr_prefix afi addr)"
  by (auto simp: addr_ok_def addr_prefix_def prefix_ok_def)

text \<open>What a match does to a side.\<close>

definition hit_side :: "lookup_side \<Rightarrow> (prefix \<times> bgp_info) option \<Rightarrow> lookup_side" where
  "hit_side side found = (case found of None \<Rightarrow> side
     | Some (q, ri) \<Rightarrow> if unat (sd_mask side) \<le> p_len q
         then side\<lparr>sd_hit := Some (q, ri), sd_mask := u8n (p_len q), sd_method := NF_NET_BGP\<rparr>
         else side\<lparr>sd_hit := Some (q, ri)\<rparr>)"

lemma hit_side_hit [simp]: "sd_hit side = None \<Longrightarrow> sd_hit (hit_side side found) = found"
  by (auto simp: hit_side_def split: option.split)

text \<open>The entries of a table as a lookup sees them.\<close>

abbreviation entries :: "ribs \<Rightarrow> nat \<Rightarrow> nat \<Rightarrow> bool list \<Rightarrow> bgp_info list" where
  "entries Es afi safi ks \<equiv> concat (Es afi safi ks)"

definition route_is :: "attr_db \<Rightarrow> ribs \<Rightarrow> node_match_cmp_term2 \<Rightarrow> nat \<Rightarrow> prefix \<Rightarrow> (prefix \<times> bgp_info) option \<Rightarrow> bool" where
  "route_is D Es nm afi p found \<longleftrightarrow> longest (wanted_entry D nm) (entries Es afi (nm_safi nm)) p found"

lemma route_entry:
  "route_is D Es nm afi p (Some (q, ri)) \<Longrightarrow> ri \<in> set (entries Es afi (nm_safi nm) (p_bits q)) \<and> prefix_ok q
    \<and> Sublist.prefix (p_bits q) (p_bits p) \<and> wanted_entry D nm ri"
  by (simp add: route_is_def longest_def)

lemma peer_match_ok:
  assumes E: "env_ok E" and ribs: "locked_ribs (le_bms E) L db Es" and live: "live_entries (rt_attrs db) Es"
    and spare: "spare_locks (Suc k) L Es" and p: "prefix_ok p" and tab: "(afi, nm_safi nm) \<in> tables"
    and rd: "nm_rd nm \<noteq> None" and fd: "fd_ok (le_bms E) (nm_peer nm)"
  shows "\<exists>found db'. match_entries (le_bms E) stray nm afi (nm_safi nm) p False db = Inr (found, None, db')
    \<and> rt_attrs db' = rt_attrs db \<and> locked_ribs (le_bms E) (pin afi (nm_safi nm) found L) db' Es
    \<and> spare_locks k (pin afi (nm_safi nm) found L) Es
    \<and> (\<forall>q ri. found = Some (q, ri) \<longrightarrow> prefix_ok q \<and> ri \<in> set (entries Es afi (nm_safi nm) (p_bits q)))
    \<and> ((\<forall>ks. placed (le_bms E) (nm_peer nm) (Es afi (nm_safi nm) ks)) \<longrightarrow> route_is (rt_attrs db) Es nm afi p found)"
proof -
  let ?bms = "le_bms E" let ?safi = "nm_safi nm" let ?b = "first_bucket ?bms (nm_peer nm)"
  have E': "buckets_ok ?bms" "all_buckets ?bms" "\<not> is_readonly ?bms" using E by (simp_all add: env_ok_def)
  note b = lookup_buckets [OF E'(1) fd E'(2)]
  have "spare_locks 1 L Es" using spare by (rule spare_locks_less) simp
  from match_entries_ok [OF ribs live this p E'(3) tab rd b(1,3), of stray] obtain found db' where
    m: "match_entries ?bms stray nm afi ?safi p False db = Inr (found, None, db')" "rt_attrs db' = rt_attrs db"
      "locked_ribs ?bms (pin afi ?safi found L) db' Es"
      "longest (wanted_entry (rt_attrs db) nm) (\<lambda>ks. window ?b (modulo_idx_max ?bms) (Es afi ?safi ks)) p found"
    by blast
  have "ri \<in> set (entries Es afi ?safi (p_bits q))" "prefix_ok q" if "found = Some (q, ri)" for q ri
    using m(4) window_entry that by (auto simp: longest_def)
  moreover have "route_is (rt_attrs db) Es nm afi p found" if pl: "\<forall>ks. placed ?bms (nm_peer nm) (Es afi ?safi ks)"
  proof -
    have len: "length (Es afi ?safi ks) = length (empty_info ?bms :: bgp_info list list)" for ks
      using ribs unfolding locked_ribs_def stands_with_def by blast
    show ?thesis
      unfolding route_is_def
      by (rule longest_cong [THEN iffD1, OF _ m(4)])
        (use window_placed [OF pl [rule_format] len] in \<open>simp add: b(2) wanted_entry_def\<close>)
  qed
  ultimately show ?thesis using m pin_spare [OF spare, of afi ?safi found] by (intro exI [of _ found] exI [of _ db']) simp
qed

text \<open>The state between lookups: the tables stand for the same entries, with locks \<open>L\<close> and room for \<open>k\<close> more,
  and the entry found last is one of them.\<close>

definition entry_of :: "ribs \<Rightarrow> bgp_info \<Rightarrow> bool" where
  "entry_of Es ri \<longleftrightarrow> (\<exists>afi safi ks. (afi, safi) \<in> tables \<and> ri \<in> set (entries Es afi safi ks))"

lemma entry_ofI: "(afi, safi) \<in> tables \<Longrightarrow> ri \<in> set (entries Es afi safi ks) \<Longrightarrow> entry_of Es ri"
  unfolding entry_of_def by blast

definition lookup_inv :: "lookup_env \<Rightarrow> attr_db \<Rightarrow> ribs \<Rightarrow> nat \<Rightarrow> locks \<Rightarrow> lookup_state \<Rightarrow> bool" where
  "lookup_inv E D Es k L s \<longleftrightarrow> rt_attrs (ls_db s) = D \<and> locked_ribs (le_bms E) L (ls_db s) Es \<and> spare_locks k L Es
     \<and> (\<forall>ri. ls_info s = Some ri \<longrightarrow> entry_of Es ri)"

definition same_rest :: "lookup_state \<Rightarrow> lookup_state \<Rightarrow> bool" where
  "same_rest s s' \<longleftrightarrow> ls_peer s' = ls_peer s \<and> ls_nexthop_info s' = ls_nexthop_info s \<and> ls_status s' = ls_status s"

lemma same_rest_simps [simp]:
  "same_rest s s" "same_rest s (s'\<lparr>ls_src := a\<rparr>) = same_rest s s'" "same_rest s (s'\<lparr>ls_dst := a\<rparr>) = same_rest s s'"
  "same_rest (s\<lparr>ls_src := a\<rparr>) s' = same_rest s s'" "same_rest (s\<lparr>ls_dst := a\<rparr>) s' = same_rest s s'"
  by (simp_all add: same_rest_def)

lemma same_rest_trans: "same_rest s s' \<Longrightarrow> same_rest s' s'' \<Longrightarrow> same_rest s s''"
  by (simp add: same_rest_def)

lemma lookup_inv_simps [simp]:
  "lookup_inv E D Es k L (s\<lparr>ls_src := a\<rparr>) = lookup_inv E D Es k L s"
  "lookup_inv E D Es k L (s\<lparr>ls_dst := a\<rparr>) = lookup_inv E D Es k L s"
  "lookup_inv E D Es k L (s\<lparr>ls_peer := b\<rparr>) = lookup_inv E D Es k L s"
  "lookup_inv E D Es k L (s\<lparr>ls_status := c\<rparr>) = lookup_inv E D Es k L s"
  "lookup_inv E D Es k L (s\<lparr>ls_nexthop_info := d\<rparr>) = lookup_inv E D Es k L s"
  by (simp_all add: lookup_inv_def)

lemma lookup_inv_less: "lookup_inv E D Es k L s \<Longrightarrow> j \<le> k \<Longrightarrow> lookup_inv E D Es j L s"
  using spare_locks_less by (auto simp: lookup_inv_def)

text \<open>A side that is looked up in one table: it has a match already, or gets the longest one, which is
  pinned then.\<close>

definition side_step ::
  "attr_db \<Rightarrow> ribs \<Rightarrow> bool \<Rightarrow> node_match_cmp_term2 \<Rightarrow> nat \<Rightarrow> prefix \<Rightarrow> locks \<Rightarrow> locks \<Rightarrow> lookup_side \<Rightarrow> lookup_side \<Rightarrow> bool" where
  "side_step D Es pl nm afi p L L' side side' \<longleftrightarrow>
     (if sd_hit side \<noteq> None then side' = side
      else \<exists>found. side' = hit_side side found \<and> (pl \<longrightarrow> route_is D Es nm afi p found)
        \<and> (\<forall>q ri. found = Some (q, ri) \<longrightarrow> prefix_ok q \<and> ri \<in> set (entries Es afi (nm_safi nm) (p_bits q))
             \<and> L afi (nm_safi nm) (p_bits q) < L' afi (nm_safi nm) (p_bits q)))"

lemma side_step_mono:
  assumes "side_step D Es pl nm afi p L L' side side'" "L0 \<le> L" "L' \<le> L''"
  shows "side_step D Es pl nm afi p L0 L'' side side'"
proof -
  have "L0 a s ks \<le> L a s ks" "L' a s ks \<le> L'' a s ks" for a s ks
    using assms(2,3) by (simp_all add: le_fun_def)
  with assms(1) show ?thesis unfolding side_step_def by (meson le_less_trans less_le_trans)
qed

lemma pin_le: "L \<le> pin afi safi found L"
  using pin_grows by (simp add: le_fun_def)

lemma side_lookup_ok:
  assumes E: "env_ok E" and live: "live_entries D Es" and inv: "lookup_inv E D Es (Suc k) L s"
    and addr: "addr_ok afi addr" and tab: "(afi, nm_safi nm) \<in> tables" and nm: "nm_rd nm \<noteq> None" "fd_ok (le_bms E) (nm_peer nm)"
  defines "pl \<equiv> \<forall>ks. placed (le_bms E) (nm_peer nm) (Es afi (nm_safi nm) ks)"
  shows "\<exists>side' s' L'. side_lookup E nm afi addr side s = Inr (side', s') \<and> lookup_inv E D Es k L' s' \<and> L \<le> L'
    \<and> side_step D Es pl nm afi (addr_prefix afi addr) L L' side side' \<and> same_rest s s'
    \<and> ls_src s' = ls_src s \<and> ls_dst s' = ls_dst s"
proof (cases "sd_hit side")
  case (Some h)
  with inv show ?thesis
    by (intro exI [of _ side] exI [of _ s] exI [of _ L]) (auto simp: side_lookup_def side_step_def intro: lookup_inv_less)
next
  case None
  have I: "rt_attrs (ls_db s) = D" "locked_ribs (le_bms E) L (ls_db s) Es" "spare_locks (Suc k) L Es"
    using inv by (simp_all add: lookup_inv_def)
  let ?p = "addr_prefix afi addr" let ?safi = "nm_safi nm"
  have rpki: "\<not> le_rpki E" using E by (simp add: env_ok_def)
  from peer_match_ok [OF E I(2) _ I(3) addr_prefix_ok [OF addr] tab nm, of "le_stray E"] live I(1) obtain found db' where
    m: "match_entries (le_bms E) (le_stray E) nm afi ?safi ?p False (ls_db s) = Inr (found, None, db')"
      "rt_attrs db' = D" "locked_ribs (le_bms E) (pin afi ?safi found L) db' Es" "spare_locks k (pin afi ?safi found L) Es"
    and hit: "\<forall>q ri. found = Some (q, ri) \<longrightarrow> prefix_ok q \<and> ri \<in> set (entries Es afi ?safi (p_bits q))"
      "pl \<longrightarrow> route_is D Es nm afi ?p found"
    by (auto simp: pl_def)
  let ?s = "s\<lparr>ls_db := db', ls_info := map_option snd found\<rparr>"
  have "side_lookup E nm afi addr side s = Inr (hit_side side found, ?s)"
    using None m(1) rpki by (auto simp: side_lookup_def hit_side_def Let_def split: option.split)
  moreover have "lookup_inv E D Es k (pin afi ?safi found L) ?s"
  proof -
    have "entry_of Es ri" if "found = Some (q, ri)" for q ri using hit(1) that entry_ofI [OF tab] by blast
    with m show ?thesis by (auto simp: lookup_inv_def)
  qed
  moreover have "side_step D Es pl nm afi ?p L (pin afi ?safi found L) side (hit_side side found)"
    using None hit by (auto simp: side_step_def pin_def)
  ultimately show ?thesis
    by (intro exI [of _ "hit_side side found"] exI [of _ ?s] exI [of _ "pin afi ?safi found L"])
      (simp add: pin_le same_rest_def)
qed

definition flow_match :: "bgp_peer \<Rightarrow> nat \<Rightarrow> rd_t \<Rightarrow> host_addr option \<Rightarrow> nat \<Rightarrow> node_match_cmp_term2" where
  "flow_match peer afi rd dst safi =
     \<lparr>nm_peer = peer, nm_afi = afi, nm_safi = safi, nm_rd = Some rd, nm_peer_dst_ip = dst\<rparr>"

lemma flow_match_simps [simp]:
  "nm_peer (flow_match peer afi rd dst safi) = peer" "nm_safi (flow_match peer afi rd dst safi) = safi"
  "nm_rd (flow_match peer afi rd dst safi) = Some rd"
  by (simp_all add: flow_match_def)

definition flow_addrs :: "bgp_lookup_info option \<Rightarrow> packet_ptrs \<Rightarrow> nat \<Rightarrow> u8 list \<Rightarrow> u8 list \<Rightarrow> bool" where
  "flow_addrs bl pp afi src dst \<longleftrightarrow> lookup_addrs bl pp = Inr (Some (afi, src, dst)) \<and> addr_ok afi src \<and> addr_ok afi dst"

lemma flow_addrs_afi: "flow_addrs bl pp afi src dst \<Longrightarrow> afi \<in> {AFI_IP, AFI_IP6} \<and> pp_l3_proto pp \<in> {ETHERTYPE_IP, ETHERTYPE_IPV6}"
  by (auto simp: flow_addrs_def lookup_addrs_def split: if_splits option.splits)

lemma safi_tables:
  "afi \<in> {AFI_IP, AFI_IP6} \<Longrightarrow> safi \<in> {SAFI_UNICAST, SAFI_MPLS_LABEL, SAFI_MPLS_VPN} \<Longrightarrow> (afi, safi) \<in> tables"
  by (auto simp: tables_def bgp_consts)

lemma lookup_pass_ok:
  assumes E: "env_ok E" and live: "live_entries D Es" and inv: "lookup_inv E D Es (Suc (Suc k)) L s"
    and addrs: "flow_addrs bl pp afi src dst" and tab: "(afi, safi) \<in> tables" and fd: "fd_ok (le_bms E) peer"
  defines "pl \<equiv> \<forall>ks. placed (le_bms E) peer (Es afi safi ks)"
  shows "\<exists>s' L'. lookup_pass E bl pp peer ip rd safi s = Inr s' \<and> lookup_inv E D Es k L' s' \<and> L \<le> L' \<and> same_rest s s'
    \<and> side_step D Es pl (flow_match peer afi rd None safi) afi (addr_prefix afi src) L L' (ls_src s) (ls_src s')
    \<and> side_step D Es pl (flow_match peer afi rd (Some ip) safi) afi (addr_prefix afi dst) L L' (ls_dst s) (ls_dst s')"
proof -
  have a: "lookup_addrs bl pp = Inr (Some (afi, src, dst))" "addr_ok afi src" "addr_ok afi dst"
    using addrs by (simp_all add: flow_addrs_def)
  let ?n = "\<lambda>d. flow_match peer afi rd d safi"
  have n: "(afi, nm_safi (?n d)) \<in> tables" "nm_rd (?n d) \<noteq> None" "fd_ok (le_bms E) (nm_peer (?n d))" for d
    using tab fd by simp_all
  from side_lookup_ok [OF E live inv a(2) n, of None "ls_src s"] obtain side1 s1 L1 where
    s1: "side_lookup E (?n None) afi src (ls_src s) s = Inr (side1, s1)" "lookup_inv E D Es (Suc k) L1 s1" "L \<le> L1"
      "side_step D Es pl (?n None) afi (addr_prefix afi src) L L1 (ls_src s) side1" "same_rest s s1" "ls_dst s1 = ls_dst s"
    by (auto simp: pl_def)
  have "lookup_inv E D Es (Suc k) L1 (s1\<lparr>ls_src := side1\<rparr>)" using s1(2) by simp
  from side_lookup_ok [OF E live this a(3) n, of "Some ip" "ls_dst (s1\<lparr>ls_src := side1\<rparr>)"] obtain side2 s2 L2 where
    s2: "side_lookup E (?n (Some ip)) afi dst (ls_dst s) (s1\<lparr>ls_src := side1\<rparr>) = Inr (side2, s2)"
      "lookup_inv E D Es k L2 s2" "L1 \<le> L2"
      "side_step D Es pl (?n (Some ip)) afi (addr_prefix afi dst) L1 L2 (ls_dst s) side2"
      "same_rest s1 s2" "ls_src s2 = side1"
    using s1(6) by (auto simp: pl_def)
  have nd: "(?n None)\<lparr>nm_peer_dst_ip := Some ip\<rparr> = ?n (Some ip)" by (simp add: flow_match_def)
  have "lookup_pass E bl pp peer ip rd safi s = Inr (s2\<lparr>ls_dst := side2\<rparr>)"
    using s1(1,6) s2(1) a(1) unfolding lookup_pass_def flow_match_def by simp
  moreover have "L \<le> L2" using s1(3) s2(3) by (rule order.trans)
  moreover have "side_step D Es pl (?n None) afi (addr_prefix afi src) L L2 (ls_src s) side1"
    by (rule side_step_mono [OF s1(4) _ s2(3)]) simp
  moreover have "side_step D Es pl (?n (Some ip)) afi (addr_prefix afi dst) L L2 (ls_dst s) side2"
    by (rule side_step_mono [OF s2(4) s1(3)]) simp
  ultimately show ?thesis
    using s2 same_rest_trans [OF s1(5) s2(5)] by (intro exI [of _ "s2\<lparr>ls_dst := side2\<rparr>"] exI [of _ L2]) simp
qed

section \<open>Unicast, VPN and labelled tables\<close>

text \<open>The first of the tables that has a route decides.\<close>

fun best_route ::
  "attr_db \<Rightarrow> ribs \<Rightarrow> (nat \<Rightarrow> node_match_cmp_term2) \<Rightarrow> nat \<Rightarrow> prefix \<Rightarrow> nat list \<Rightarrow> (prefix \<times> bgp_info) option \<Rightarrow> bool" where
  "best_route D Es nm afi p [] found \<longleftrightarrow> found = None"
| "best_route D Es nm afi p (safi # safis) found \<longleftrightarrow>
     (if route_is D Es (nm safi) afi p None then best_route D Es nm afi p safis found
      else found \<noteq> None \<and> route_is D Es (nm safi) afi p found)"

lemma route_not_none:
  assumes "route_is D Es nm afi p (Some h)"
  shows "\<not> route_is D Es nm afi p None"
  using assms by (cases h) (auto simp: route_is_def longest_def)

definition searched :: "nat \<Rightarrow> nat list" where
  "searched safi = safi # (if safi = SAFI_MPLS_LABEL then [] else [SAFI_MPLS_LABEL])"

definition side_done ::
  "attr_db \<Rightarrow> ribs \<Rightarrow> bool \<Rightarrow> (nat \<Rightarrow> node_match_cmp_term2) \<Rightarrow> nat \<Rightarrow> prefix \<Rightarrow> nat list \<Rightarrow> locks \<Rightarrow> locks
    \<Rightarrow> lookup_side \<Rightarrow> lookup_side \<Rightarrow> bool" where
  "side_done D Es pl nm afi p safis L L' side side' \<longleftrightarrow>
     (\<exists>found. side' = hit_side side found \<and> (pl \<longrightarrow> best_route D Es nm afi p safis found)
        \<and> (\<forall>q ri. found = Some (q, ri) \<longrightarrow> (\<exists>safi \<in> set safis. L afi safi (p_bits q) < L' afi safi (p_bits q))))"

lemma side_done_first:
  assumes "side_step D Es pl (nm safi) afi p L L' side side'" "sd_hit side = None" "nm_safi (nm safi) = safi"
    and "sd_hit side' \<noteq> None \<or> safis = []" "L' \<le> L''"
  shows "side_done D Es pl nm afi p (safi # safis) L L'' side side'"
proof -
  from assms(1,2) obtain found where f: "side' = hit_side side found" "pl \<longrightarrow> route_is D Es (nm safi) afi p found"
    "\<forall>q ri. found = Some (q, ri) \<longrightarrow> L afi (nm_safi (nm safi)) (p_bits q) < L' afi (nm_safi (nm safi)) (p_bits q)"
    by (auto simp: side_step_def)
  have le: "L' a s ks \<le> L'' a s ks" for a s ks using assms(5) by (simp add: le_fun_def)
  have "pl \<longrightarrow> best_route D Es nm afi p (safi # safis) found"
    using f(1,2) assms(2,4) route_not_none by (cases found) auto
  moreover have "\<forall>q ri. found = Some (q, ri) \<longrightarrow> L afi safi (p_bits q) < L'' afi safi (p_bits q)"
    using f(3) le less_le_trans unfolding assms(3) by blast
  ultimately show ?thesis unfolding side_done_def using f(1) by (intro exI [of _ found]) auto
qed

lemma side_done_second:
  assumes "side_step D Es pl (nm safi) afi p L L1 side side1" "sd_hit side = None" "sd_hit side1 = None"
    and "side_step D Es pl (nm safi2) afi p L1 L2 side1 side2" "nm_safi (nm safi2) = safi2" "L \<le> L1"
  shows "side_done D Es pl nm afi p [safi, safi2] L L2 side side2"
proof -
  from assms(1,2) obtain found where f: "side1 = hit_side side found" "pl \<longrightarrow> route_is D Es (nm safi) afi p found"
    by (auto simp: side_step_def)
  then have "found = None" using assms(2,3) by simp
  with f have 1: "side1 = side" "pl \<longrightarrow> route_is D Es (nm safi) afi p None" by (simp_all add: hit_side_def)
  have "side_done D Es pl nm afi p [safi2] L1 L2 side side2"
    by (rule side_done_first [OF _ _ _ _ order.refl]) (use assms(2,4,5) 1(1) in simp_all)
  then obtain found where f: "side2 = hit_side side found" "pl \<longrightarrow> best_route D Es nm afi p [safi2] found"
    "\<forall>q ri. found = Some (q, ri) \<longrightarrow> L1 afi safi2 (p_bits q) < L2 afi safi2 (p_bits q)"
    by (auto simp: side_done_def)
  have "L a s ks \<le> L1 a s ks" for a s ks using assms(6) by (simp add: le_fun_def)
  then have "\<forall>q ri. found = Some (q, ri) \<longrightarrow> L afi safi2 (p_bits q) < L2 afi safi2 (p_bits q)"
    using f(3) le_less_trans by blast
  with f(1,2) 1(2) show ?thesis unfolding side_done_def by (intro exI [of _ found]) auto
qed

lemma lookup_passes_ok:
  assumes E: "env_ok E" and live: "live_entries D Es" and inv: "lookup_inv E D Es (4 + k) L s"
    and addrs: "flow_addrs bl pp afi src dst" and fd: "fd_ok (le_bms E) peer"
    and safi: "safi \<in> {SAFI_UNICAST, SAFI_MPLS_LABEL, SAFI_MPLS_VPN}"
    and none: "sd_hit (ls_src s) = None" "sd_hit (ls_dst s) = None"
  defines "pl \<equiv> all_placed (le_bms E) peer Es"
  shows "\<exists>safi' s' L'. lookup_passes E bl pp peer ip rd safi s = Inr (safi', s') \<and> safi' \<in> {safi, SAFI_MPLS_LABEL}
    \<and> lookup_inv E D Es k L' s' \<and> L \<le> L' \<and> same_rest s s'
    \<and> side_done D Es pl (flow_match peer afi rd None) afi (addr_prefix afi src) (searched safi) L L' (ls_src s) (ls_src s')
    \<and> side_done D Es pl (flow_match peer afi rd (Some ip)) afi (addr_prefix afi dst) (searched safi) L L' (ls_dst s) (ls_dst s')"
proof -
  note afi = flow_addrs_afi [OF addrs]
  note tab = safi_tables [of afi, OF conjunct1 [OF afi]]
  have "(afi, safi) \<in> tables" using tab safi by blast
  moreover have "lookup_inv E D Es (Suc (Suc (Suc (Suc k)))) L s" using inv by (simp add: numeral_eq_Suc)
  ultimately obtain s1 L1 where
    s1: "lookup_pass E bl pp peer ip rd safi s = Inr s1" "lookup_inv E D Es (Suc (Suc k)) L1 s1" "L \<le> L1" "same_rest s s1"
    and "side_step D Es (\<forall>ks. placed (le_bms E) peer (Es afi safi ks)) (flow_match peer afi rd None safi) afi
       (addr_prefix afi src) L L1 (ls_src s) (ls_src s1)"
      "side_step D Es (\<forall>ks. placed (le_bms E) peer (Es afi safi ks)) (flow_match peer afi rd (Some ip) safi) afi
       (addr_prefix afi dst) L L1 (ls_dst s) (ls_dst s1)"
    using lookup_pass_ok [OF E live _ addrs _ fd, of "Suc (Suc k)" L s safi ip rd] by blast
  moreover have pl: "pl \<Longrightarrow> \<forall>ks. placed (le_bms E) peer (Es afi safi ks)" "pl \<Longrightarrow> \<forall>ks. placed (le_bms E) peer (Es afi SAFI_MPLS_LABEL ks)"
    using afi safi by (auto simp: pl_def all_placed_def set_all_tables bgp_consts)
  ultimately have st1: "side_step D Es pl (flow_match peer afi rd None safi) afi (addr_prefix afi src) L L1 (ls_src s) (ls_src s1)"
    "side_step D Es pl (flow_match peer afi rd (Some ip) safi) afi (addr_prefix afi dst) L L1 (ls_dst s) (ls_dst s1)"
    unfolding side_step_def by meson+
  show ?thesis
  proof (cases "\<not> found_both s1 \<and> safi \<noteq> SAFI_MPLS_LABEL")
    case False
    then have one: "sd_hit (ls_src s1) \<noteq> None \<or> tl (searched safi) = []" "sd_hit (ls_dst s1) \<noteq> None \<or> tl (searched safi) = []"
      by (auto simp: found_both_def searched_def)
    have sr: "searched safi = safi # tl (searched safi)" by (simp add: searched_def)
    have "lookup_passes E bl pp peer ip rd safi s = Inr (safi, s1)" using s1(1) False by (auto simp: lookup_passes_def)
    then show ?thesis
      using s1 lookup_inv_less [OF s1(2)]
        side_done_first [where nm = "flow_match peer afi rd None", OF st1(1) none(1) _ one(1) order.refl]
        side_done_first [where nm = "flow_match peer afi rd (Some ip)", OF st1(2) none(2) _ one(2) order.refl]
      by (intro exI [of _ safi] exI [of _ s1] exI [of _ L1]) (simp add: sr [symmetric])
  next
    case True
    have "(afi, SAFI_MPLS_LABEL) \<in> tables" using tab by blast
    from lookup_pass_ok [OF E live s1(2) addrs this fd, of ip rd] obtain s2 L2 where
      s2: "lookup_pass E bl pp peer ip rd SAFI_MPLS_LABEL s1 = Inr s2" "lookup_inv E D Es k L2 s2" "L1 \<le> L2" "same_rest s1 s2"
      and "side_step D Es (\<forall>ks. placed (le_bms E) peer (Es afi SAFI_MPLS_LABEL ks)) (flow_match peer afi rd None SAFI_MPLS_LABEL)
         afi (addr_prefix afi src) L1 L2 (ls_src s1) (ls_src s2)"
        "side_step D Es (\<forall>ks. placed (le_bms E) peer (Es afi SAFI_MPLS_LABEL ks)) (flow_match peer afi rd (Some ip) SAFI_MPLS_LABEL)
         afi (addr_prefix afi dst) L1 L2 (ls_dst s1) (ls_dst s2)"
      by auto
    then have st2: "side_step D Es pl (flow_match peer afi rd None SAFI_MPLS_LABEL) afi (addr_prefix afi src) L1 L2 (ls_src s1) (ls_src s2)"
      "side_step D Es pl (flow_match peer afi rd (Some ip) SAFI_MPLS_LABEL) afi (addr_prefix afi dst) L1 L2 (ls_dst s1) (ls_dst s2)"
      using pl unfolding side_step_def by meson+
    have two: "side_done D Es pl (flow_match peer afi rd d) afi p (searched safi) L L2 side side2"
      if "side_step D Es pl (flow_match peer afi rd d safi) afi p L L1 side side1" "sd_hit side = None"
        "side_step D Es pl (flow_match peer afi rd d SAFI_MPLS_LABEL) afi p L1 L2 side1 side2" for d p side side1 side2
    proof (cases "sd_hit side1")
      case None
      from side_done_second [where nm = "flow_match peer afi rd d", OF that(1,2) None that(3) _ s1(3)] True show ?thesis
        by (simp add: searched_def)
    next
      case (Some h)
      then have "side2 = side1" using that(3) by (simp add: side_step_def)
      with side_done_first [where nm = "flow_match peer afi rd d", OF that(1,2) _ _ s2(3)] Some True show ?thesis
        by (simp add: searched_def)
    qed
    have "lookup_passes E bl pp peer ip rd safi s = Inr (SAFI_MPLS_LABEL, s2)"
      using s1(1) s2(1) True afi by (simp add: lookup_passes_def)
    then show ?thesis
      using s2 two [OF st1(1) none(1) st2(1)] two [OF st1(2) none(2) st2(2)] order.trans [OF s1(3) s2(3)]
        same_rest_trans [OF s1(4) s2(4)]
      by (intro exI [of _ SAFI_MPLS_LABEL] exI [of _ s2] exI [of _ L2]) simp
  qed
qed

end
