(* ===== verification/DaemonFacts.thy ===== *)
theory DaemonFacts
  imports BgpDaemon SessionFacts AttrFacts PeerFacts
begin

text \<open>
  All peers together: between the turns of the main loop every slot in use knows its place, no two
  sessions come from the same address, and the cache lists exactly the sessions that are open.
\<close>

section \<open>Who a peer is\<close>

text \<open>What a message cannot change of a peer.\<close>

definition who :: "bgp_peer \<Rightarrow> nat \<times> nat \<times> nat \<times> host_addr \<times> u16" where
  "who p = (bp_idx p, bp_fd p, bp_type p, bp_addr p, bp_tcp_port p)"

lemma who_set [simp]:
  "who (p\<lparr>bp_status := st\<rparr>) = who p" "who (p\<lparr>bp_version := v\<rparr>) = who p" "who (p\<lparr>bp_myas := a\<rparr>) = who p"
  "who (p\<lparr>bp_as := a\<rparr>) = who p" "who (p\<lparr>bp_ht := h\<rparr>) = who p" "who (p\<lparr>bp_last_keepalive := t\<rparr>) = who p"
  "who (p\<lparr>bp_id := i\<rparr>) = who p" "who (p\<lparr>bp_msglen := l\<rparr>) = who p" "who (set_eor e p) = who p"
  by (simp_all add: who_def set_eor_def split: option.split)

lemma who_core: "core p = core q \<Longrightarrow> who p = who q"
  by (cases p; cases q) (simp add: core_def who_def)

lemma who_options: "open_options cfg online pkt n st = Inr (ok, st') \<Longrightarrow> who (o_peer st') = who (o_peer st)"
  by (rule who_core) (rule open_options_core)

lemma who_reply: "open_reply cfg junk now st = (q, m) \<Longrightarrow> who q = who (o_peer st)"
  by (auto simp: open_reply_def Let_def split: option.splits)

lemma who_parse_open: "post (\<lambda>(ret, p, out). who p = who peer) (bgp_parse_open_msg cfg peers junk peer pkt now online)"
  unfolding bgp_parse_open_msg_def Let_def
proof (intro post_intros, goal_cases)
  case (5 version remote_as hold rid optlen r)
  then show ?case by (auto dest!: who_options who_reply split: option.splits prod.splits)
qed auto

lemma who_msg_step: "post (\<lambda>(v, n, s'). who (ss_peer s') = who (ss_peer s)) (msg_step d now online first pkt s)"
proof -
  have "post (\<lambda>(v, s'). who (ss_peer s') = who (ss_peer s)) (msg_open d now online pkt s)"
    unfolding msg_open_def Let_def by (intro post_intros) (auto dest!: post_Inr [OF _ who_parse_open])
  moreover have "post (\<lambda>(v, s'). who (ss_peer s') = who (ss_peer s)) (msg_update d pkt s)"
    unfolding msg_update_def Let_def by (intro post_intros) (auto dest!: post_Inr [OF _ update_post])
  moreover have "post (\<lambda>(v, s'). who (ss_peer s') = who (ss_peer s)) (msg_notification pkt s)"
    unfolding msg_notification_def by (intro post_intros) auto
  moreover have "who (ss_peer (msg_keepalive now online s)) = who (ss_peer s)"
    by (simp add: msg_keepalive_def Let_def)
  ultimately show ?thesis
    unfolding msg_step_def Let_def
    by (intro post_intros post_bind [where R = "\<lambda>(v, s'). who (ss_peer s') = who (ss_peer s)"]) auto
qed

lemma who_msg_loop:
  "msg_loop n d now online first pkt s = Some (Inr (ret, s')) \<Longrightarrow> who (ss_peer s') = who (ss_peer s)"
proof (induction n arbitrary: first pkt s)
  case (Suc n)
  note step = who_msg_step [of s d now online first pkt]
  from Suc.prems show ?case
    by (auto simp: Let_def split: if_splits sum.splits verdict.splits prod.splits dest!: Suc.IH post_Inr [OF _ step])
qed (auto split: if_splits)

lemma who_peer_turn:
  assumes "peer_turn fuel d now b data1 data2 s = Some (Inr (e, b', s'))"
  shows "who (ss_peer s') = who (ss_peer s)"
proof -
  have "who (ss_peer (due_keepalive now s)) = who (ss_peer s)" for s by (simp add: due_keepalive_def Let_def)
  then show ?thesis using assms
    by (auto simp: peer_turn_def bgp_parse_msg_def fault_simps Let_def split: sum.splits outcome.splits prod.splits if_splits
        dest!: who_msg_loop)
qed

section \<open>The invariant\<close>

text \<open>The address of a peer, and of a socket, where it may be IPv4-mapped.\<close>

definition sock_wf :: "host_addr \<Rightarrow> bool" where
  "sock_wf ha \<longleftrightarrow> fst ha = AF_INET \<and> length (snd ha) = 4 \<or> fst ha = AF_INET6 \<and> length (snd ha) = 16"

definition addr_wf :: "host_addr \<Rightarrow> bool" where
  "addr_wf ha \<longleftrightarrow> sock_wf ha \<and> (fst ha = AF_INET6 \<longrightarrow> take 12 (snd ha) \<noteq> replicate 10 0 @ [0xff, 0xff])"

lemma no_addr: "\<not> addr_wf (0, [])"
  by (simp add: addr_wf_def sock_wf_def)

lemma peer_addr_wf: "sock_wf sa \<Longrightarrow> addr_wf (fst (sa_to_addr (ipv4_mapped_to_ipv4 sa) sp p))"
  by (auto simp: addr_wf_def sock_wf_def sa_to_addr_def ipv4_mapped_to_ipv4_def AF_INET_def AF_INET6_def)

definition in_slot :: "bgp_peer list \<Rightarrow> nat \<Rightarrow> bool" where
  "in_slot ps i \<longleftrightarrow> i < length ps \<and> bp_fd (ps ! i) \<noteq> 0"

definition slot_ok :: "nat \<Rightarrow> bgp_peer \<Rightarrow> bool" where
  "slot_ok i p \<longleftrightarrow> (if bp_fd p = 0 then bp_addr p = (0, []) \<and> bp_id p = (0, [])
     else bp_idx p = i \<and> bp_type p = FUNC_TYPE_BGP \<and> addr_wf (bp_addr p))"

definition slots_ok :: "bgp_daemon \<Rightarrow> bool" where
  "slots_ok s \<longleftrightarrow> length (dm_bufs s) = length (dm_peers s)
     \<and> (\<forall>i < length (dm_peers s). slot_ok i (dm_peers s ! i))"

definition same_end :: "bool \<Rightarrow> bgp_peer \<Rightarrow> bgp_peer \<Rightarrow> bool" where
  "same_end ports p q \<longleftrightarrow> bp_addr p = bp_addr q \<and> (ports \<longrightarrow> bp_tcp_port p = bp_tcp_port q)"

text \<open>No two sessions with the same end, except with slot \<open>k\<close>.\<close>

definition single_but :: "bool \<Rightarrow> nat set \<Rightarrow> bgp_peer list \<Rightarrow> bool" where
  "single_but ports K ps \<longleftrightarrow> (\<forall>i j. in_slot ps i \<and> in_slot ps j \<and> i \<noteq> j \<and> i \<notin> K \<and> j \<notin> K
     \<longrightarrow> \<not> same_end ports (ps ! i) (ps ! j))"

text \<open>How often a session is to be found in a list of the cache: once for its address, once for its
  address and port.\<close>

definition listed :: "nat \<Rightarrow> bgp_peer \<Rightarrow> nat \<Rightarrow> nat" where
  "listed n p b = (if addr_hash (bp_addr p) n = Inr b then 1 else 0)
     + (if addr_port_hash (bp_addr p) (bp_tcp_port p) n = Inr b then 1 else 0)"

definition cache_of :: "bgp_peer list \<Rightarrow> peer_caches option \<Rightarrow> bool" where
  "cache_of ps cs \<longleftrightarrow> (case cs of None \<Rightarrow> True | Some c \<Rightarrow> length (peers_cache c) = length ps
     \<and> (\<forall>b < length ps. \<forall>i. count (mset (peers_cache c ! b)) i
          = (if in_slot ps i then listed (length ps) (ps ! i) b else 0)))"

definition daemon_inv :: "bool \<Rightarrow> bgp_daemon \<Rightarrow> bool" where
  "daemon_inv ports s \<longleftrightarrow> slots_ok s \<and> single_but ports {} (dm_peers s) \<and> cache_of (dm_peers s) (dm_caches s)
     \<and> dm_max_idx s \<le> length (dm_peers s)"

section \<open>The cache\<close>

lemma hash_less: "addr_hash ha n = Inr b \<Longrightarrow> b < n" "addr_port_hash ha p n = Inr b \<Longrightarrow> b < n"
  by (auto simp: addr_hash_def addr_port_hash_def hash_modulo_def split: if_splits)

lemma count_remove1: "count (mset (remove1 x xs)) y = count (mset xs) y - (if x = y then 1 else 0)"
  by (simp add: mset_remove1)

lemma cache_forget_ok:
  assumes c: "cache_of ps cs" and i: "in_slot ps i" "bp_idx (ps ! i) = i"
    and f: "cache_forget (length ps) (ps ! i) cs = Inr cs'" and p: "bp_fd p = 0"
  shows "cache_of (ps[i := p]) cs'"
proof (cases cs)
  case None
  then show ?thesis using f by (simp add: cache_forget_def cache_of_def)
next
  case (Some c0)
  let ?n = "length ps"
  from Some f i(2) obtain b1 b2 where b: "addr_hash (bp_addr (ps ! i)) ?n = Inr b1"
      "addr_port_hash (bp_addr (ps ! i)) (bp_tcp_port (ps ! i)) ?n = Inr b2"
    and cs': "cs' = Some (c0\<lparr>peers_cache := (let l = (peers_cache c0)[b1 := remove1 i (peers_cache c0 ! b1)]
        in l[b2 := remove1 i (l ! b2)])\<rparr>)"
    by (auto simp: cache_forget_def bgp_peer_cache_delete_def fault_simps Let_def split: if_splits)
  have len: "length (peers_cache c0) = ?n" and cnt: "\<And>b j. b < ?n \<Longrightarrow> count (mset (peers_cache c0 ! b)) j
      = (if in_slot ps j then listed ?n (ps ! j) b else 0)"
    using c Some by (auto simp: cache_of_def)
  have less: "b1 < ?n" "b2 < ?n" using b hash_less by blast+
  have "count (mset (peers_cache (the cs') ! b)) j = (if in_slot (ps[i := p]) j then listed ?n (ps[i := p] ! j) b else 0)"
    if "b < ?n" for b j
    using less len p i(1) cnt [OF that, of j]
    by (cases "j = i"; cases "b = b1"; cases "b = b2")
      (simp_all add: cs' Let_def nth_list_update in_slot_def listed_def b count_remove1 del: mset_remove1)
  then show ?thesis using len by (simp add: cache_of_def cs' Let_def)
qed

lemma cache_enter_ok:
  assumes c: "cache_of ps cs" and i: "i < length ps" "bp_fd (ps ! i) = 0"
    and p: "bp_fd p \<noteq> 0" "bp_idx p = i" and f: "cache_enter (length ps) p cs = Inr cs'"
  shows "cache_of (ps[i := p]) cs'"
proof (cases cs)
  case None
  then show ?thesis using f by (simp add: cache_enter_def cache_of_def)
next
  case (Some c0)
  let ?n = "length ps"
  from Some f p(2) obtain b1 b2 where b: "addr_hash (bp_addr p) ?n = Inr b1"
      "addr_port_hash (bp_addr p) (bp_tcp_port p) ?n = Inr b2"
    and cs': "cs' = Some (c0\<lparr>peers_cache := (let l = (peers_cache c0)[b1 := peers_cache c0 ! b1 @ [i]]
        in l[b2 := l ! b2 @ [i]])\<rparr>)"
    by (auto simp: cache_enter_def bgp_peer_cache_insert_def fault_simps Let_def split: if_splits)
  have len: "length (peers_cache c0) = ?n" and cnt: "\<And>b j. b < ?n \<Longrightarrow> count (mset (peers_cache c0 ! b)) j
      = (if in_slot ps j then listed ?n (ps ! j) b else 0)"
    using c Some by (auto simp: cache_of_def)
  have less: "b1 < ?n" "b2 < ?n" using b hash_less by blast+
  have "count (mset (peers_cache (the cs') ! b)) j = (if in_slot (ps[i := p]) j then listed ?n (ps[i := p] ! j) b else 0)"
    if "b < ?n" for b j
    using that less len p i cnt [OF that, of j] cnt [OF less(1), of j] cnt [OF less(2), of j]
    by (cases "j = i") (auto simp: cs' Let_def nth_list_update in_slot_def listed_def b)
  then show ?thesis using len by (simp add: cache_of_def cs' Let_def)
qed

section \<open>Closing\<close>

lemma close_slot_frame:
  assumes r: "close_slot d n i s = Inr s'" and t: "bp_type (dm_peers s ! i) = FUNC_TYPE_BGP"
  shows "dm_peers s' = (dm_peers s)[i := closed_peer (dm_peers s ! i)]"
    and "cache_forget (length (dm_peers s)) (dm_peers s ! i) (dm_caches s) = Inr (dm_caches s')"
    and "length (dm_bufs s') = length (dm_bufs s)" "dm_max_idx s' = dm_max_idx s" "dm_rr s' = dm_rr s"
    and "dm_batch s' = dm_batch s"
    and "bgp_peer_info_delete (d_cfg d) (d_bms d) (d_stray d) (dm_peers s ! i) (dm_db s) = Inr (dm_db s')"
proof -
  have "bgp_select_misc_db (bp_type (dm_peers s ! i)) \<noteq> None"
    using t by (simp add: bgp_select_misc_db_def FUNC_TYPE_BGP_def FUNC_TYPE_MAX_def)
  with r show "dm_peers s' = (dm_peers s)[i := closed_peer (dm_peers s ! i)]"
    "cache_forget (length (dm_peers s)) (dm_peers s ! i) (dm_caches s) = Inr (dm_caches s')"
    "length (dm_bufs s') = length (dm_bufs s)" "dm_max_idx s' = dm_max_idx s" "dm_rr s' = dm_rr s"
    "dm_batch s' = dm_batch s"
    "bgp_peer_info_delete (d_cfg d) (d_bms d) (d_stray d) (dm_peers s ! i) (dm_db s) = Inr (dm_db s')"
    by (auto simp: close_slot_def bgp_peer_close_def Let_def fault_simps)
qed

lemma closed_peer_simps [simp]:
  "bp_fd (closed_peer p) = 0" "bp_addr (closed_peer p) = (0, [])" "bp_id (closed_peer p) = (0, [])"
  by (simp_all add: closed_peer_def)

lemma nth_update: "j < length xs \<Longrightarrow> xs[i := x] ! j = (if i = j then x else xs ! j)"
  by (cases "i < length xs") (simp_all add: nth_list_update list_update_beyond)

lemma in_slot_update: "in_slot (ps[i := p]) j \<longleftrightarrow> j < length ps \<and> (if j = i then bp_fd p else bp_fd (ps ! j)) \<noteq> 0"
  by (auto simp: in_slot_def nth_update)

lemma single_close:
  assumes "single_but ports (insert i K) ps" "bp_fd p = 0"
  shows "single_but ports K (ps[i := p])"
  using assms by (auto simp: single_but_def in_slot_update in_slot_def nth_update split: if_splits)

lemma single_mono: "single_but ports K ps \<Longrightarrow> K \<subseteq> K' \<Longrightarrow> single_but ports K' ps"
  by (auto simp: single_but_def)

lemma close_slot_ok:
  assumes r: "close_slot d n i s = Inr s'" and s: "slots_ok s" "cache_of (dm_peers s) (dm_caches s)"
    and i: "in_slot (dm_peers s) i"
  shows "slots_ok s' \<and> cache_of (dm_peers s') (dm_caches s')"
proof -
  have *: "bp_type (dm_peers s ! i) = FUNC_TYPE_BGP" "bp_idx (dm_peers s ! i) = i"
    using s(1) i by (auto simp: slots_ok_def slot_ok_def in_slot_def)
  note f = close_slot_frame [OF r *(1)]
  have "slots_ok s'" using s(1) by (auto simp: slots_ok_def f(1,3) nth_update slot_ok_def)
  with cache_forget_ok [OF s(2) i *(2) f(2)] show ?thesis by (simp add: f(1))
qed

section \<open>A second connection\<close>

lemma same_end_cond: "(bp_addr p = bp_addr q \<and> (ports \<longrightarrow> bp_tcp_port p = bp_tcp_port q)) = same_end ports p q"
  by (simp add: same_end_def)

lemma conflict_in_slot:
  assumes "slots_ok s" "in_slot (dm_peers s) i" "j < length (dm_peers s)" "same_end ports (dm_peers s ! j) (dm_peers s ! i)"
  shows "in_slot (dm_peers s) j"
proof -
  have "slot_ok j (dm_peers s ! j)" "slot_ok i (dm_peers s ! i)"
    using assms by (auto simp: slots_ok_def in_slot_def)
  with no_addr show ?thesis using assms by (auto simp: slot_ok_def in_slot_def same_end_def split: if_splits)
qed

text \<open>Without slot \<open>i\<close> no two sessions have the same end, and the slots passed are not at the end of \<open>i\<close>;
  after the loop slot \<open>i\<close> is closed or it is no exception any more.\<close>

definition no_twin :: "bool \<Rightarrow> nat \<Rightarrow> bgp_peer list \<Rightarrow> nat list \<Rightarrow> bool" where
  "no_twin ports i ps js \<longleftrightarrow> (\<forall>j. in_slot ps j \<and> j \<noteq> i \<and> same_end ports (ps ! j) (ps ! i) \<longrightarrow> j \<in> set js)"

lemma no_twin_closed: "no_twin ports i ps (j # js) \<Longrightarrow> j \<noteq> i \<Longrightarrow> bp_fd p = 0 \<Longrightarrow> no_twin ports i (ps[j := p]) js"
  by (auto simp: no_twin_def in_slot_update in_slot_def nth_update split: if_splits)

lemma single_all:
  assumes "single_but ports {i} ps" "no_twin ports i ps []"
  shows "single_but ports {} ps"
  using assms unfolding single_but_def no_twin_def same_end_def by (simp, metis)

lemma conflicts_ok:
  assumes "conflicts d ports now i js s = Inr s'"
    "slots_ok s" "cache_of (dm_peers s) (dm_caches s)" "single_but ports {i} (dm_peers s)"
    "in_slot (dm_peers s) i" "no_twin ports i (dm_peers s) js" "set js \<subseteq> {..<length (dm_peers s)}"
  shows "slots_ok s' \<and> cache_of (dm_peers s') (dm_caches s') \<and> single_but ports {} (dm_peers s')
    \<and> length (dm_peers s') = length (dm_peers s) \<and> dm_max_idx s' = dm_max_idx s \<and> dm_batch s' = dm_batch s"
  using assms
proof (induction js arbitrary: s)
  case Nil
  then show ?case using single_all by simp
next
  case (Cons j js)
  have type: "bp_type (dm_peers s ! k) = FUNC_TYPE_BGP" if "in_slot (dm_peers s) k" for k
    using that Cons.prems(2) by (auto simp: slots_ok_def slot_ok_def in_slot_def)
  show ?case
  proof (cases "i \<noteq> j \<and> same_end ports (dm_peers s ! j) (dm_peers s ! i)")
    case False
    then have "no_twin ports i (dm_peers s) js" using Cons.prems(6) by (auto simp: no_twin_def)
    with False Cons.prems show ?thesis by (intro Cons.IH) (auto simp: Let_def same_end_cond split: if_splits)
  next
    case twin: True
    let ?stale = "int (unat (bp_ht (dm_peers s ! j))) < int now - int (bp_last_keepalive (dm_peers s ! j))"
    have j: "in_slot (dm_peers s) j" using conflict_in_slot [of s i j ports] Cons.prems twin by simp
    show ?thesis
    proof (cases ?stale)
      case True
      with twin Cons.prems(1) obtain s1 where s1: "close_slot d None j s = Inr s1" "conflicts d ports now i js s1 = Inr s'"
        by (auto simp: Let_def same_end_cond fault_simps split: sum.splits)
      note f = close_slot_frame [OF s1(1) type [OF j]]
      have "single_but ports {i} (dm_peers s1)" unfolding f(1)
        by (rule single_close [OF single_mono [OF Cons.prems(4)]]) auto
      moreover have "no_twin ports i (dm_peers s1) js" unfolding f(1)
        by (rule no_twin_closed [OF Cons.prems(6)]) (use twin in auto)
      moreover have "in_slot (dm_peers s1) i" using Cons.prems(5) twin by (simp add: f(1) in_slot_update in_slot_def)
      ultimately show ?thesis
        using Cons.IH [OF s1(2)] close_slot_ok [OF s1(1) Cons.prems(2,3) j] Cons.prems(7) by (simp add: f)
    next
      case False
      with twin Cons.prems(1) have s1: "close_slot d None i s = Inr s'" by (auto simp: Let_def same_end_cond)
      note f = close_slot_frame [OF s1 type [OF Cons.prems(5)]]
      have "single_but ports {} (dm_peers s')" unfolding f(1)
        by (rule single_close) (use Cons.prems(4) in auto)
      then show ?thesis using close_slot_ok [OF s1 Cons.prems(2,3,5)] by (simp add: f)
    qed
  qed
qed

section \<open>The turns of the loop\<close>

lemma last_in_use_le: "last_in_use ps i found \<le> max found (i + length ps)"
proof (induction ps arbitrary: i found)
  case (Cons p ps)
  from Cons.IH [of "i + 1" "if bp_fd p \<noteq> 0 then i + 1 else found"] show ?case by (auto split: if_splits)
qed simp

lemma recalc_ok: "daemon_inv ports s \<Longrightarrow> daemon_inv ports (daemon_recalc s)"
  using last_in_use_le [of "dm_peers s" 0 0] by (auto simp: daemon_inv_def daemon_recalc_def slots_ok_def)

lemma free_slot_Some: "free_slot ps = Some i \<Longrightarrow> i < length ps \<and> bp_fd (ps ! i) = 0"
  by (induction ps arbitrary: i) (auto split: if_splits)

definition new_peer :: "nat \<Rightarrow> connection \<Rightarrow> bgp_peer" where
  "new_peer i c = zero_peer\<lparr>bp_type := FUNC_TYPE_BGP, bp_status := Idle, bp_fd := cn_fd c, bp_idx := i,
     bp_addr := fst (sa_to_addr (ipv4_mapped_to_ipv4 (cn_addr c)) (cn_port c) 0),
     bp_tcp_port := snd (sa_to_addr (ipv4_mapped_to_ipv4 (cn_addr c)) (cn_port c) 0)\<rparr>"

lemma new_peer_simps [simp]:
  "bp_fd (new_peer i c) = cn_fd c" "bp_idx (new_peer i c) = i" "bp_type (new_peer i c) = FUNC_TYPE_BGP"
  "bp_addr (new_peer i c) = fst (sa_to_addr (ipv4_mapped_to_ipv4 (cn_addr c)) (cn_port c) 0)"
  by (simp_all add: new_peer_def)

definition entered :: "nat \<Rightarrow> nat \<Rightarrow> connection \<Rightarrow> peer_caches option \<Rightarrow> bgp_daemon \<Rightarrow> bgp_daemon" where
  "entered now i c cs s = s\<lparr>dm_recalc := True, dm_batch := batch_admit (int now) (dm_batch s),
     dm_peers := (dm_peers s)[i := new_peer i c],
     dm_bufs := (dm_bufs s)[i := \<lparr>pb_base = replicate BGP_BUFFER_SIZE 0, pb_cur_len = 0, pb_exp_len = 0\<rparr>],
     dm_caches := cs\<rparr>"

lemma accept_entered:
  "daemon_accept d ports now c s =
     (if \<not> cn_allowed c then Inr s
      else case free_slot (dm_peers s) of None \<Rightarrow> Inr s
      | Some i \<Rightarrow> if bgp_batch_is_admitted (int now) (Some (dm_batch s)) = 0 then Inr s
          else fbind (cache_enter (length (dm_peers s)) (new_peer i c) (dm_caches s)) (\<lambda>cs.
                 conflicts d ports now i [0..<length (dm_peers s)] (entered now i c cs s)))"
proof -
  have init: "bgp_peer_init FUNC_TYPE_BGP BGP_BUFFER_SIZE p b = (0, zero_peer\<lparr>bp_type := FUNC_TYPE_BGP, bp_status := Idle\<rparr>,
      \<lparr>pb_base = replicate BGP_BUFFER_SIZE 0, pb_cur_len = 0, pb_exp_len = 0\<rparr>)" for p b
    by (simp add: bgp_peer_init_def bgp_select_misc_db_def FUNC_TYPE_BGP_def FUNC_TYPE_MAX_def)
  then show ?thesis
    by (simp add: daemon_accept_def init Let_def split_beta new_peer_def entered_def zero_peer_def cong: option.case_cong if_cong)
qed

lemma accept_ok:
  assumes r: "daemon_accept d ports now c s = Inr s'" and s: "daemon_inv ports s"
    and c: "cn_fd c \<noteq> 0" "sock_wf (cn_addr c)"
  shows "daemon_inv ports s' \<and> length (dm_peers s') = length (dm_peers s)"
proof (cases "s' = s")
  case False
  with r obtain i cs where i: "free_slot (dm_peers s) = Some i"
    and cs: "cache_enter (length (dm_peers s)) (new_peer i c) (dm_caches s) = Inr cs"
    and r1: "conflicts d ports now i [0..<length (dm_peers s)] (entered now i c cs s) = Inr s'"
      (is "conflicts d ports now i ?js ?s1 = _")
    by (auto simp: accept_entered fault_simps split: if_splits option.splits)
  note slot = free_slot_Some [OF i]
  have wf: "addr_wf (bp_addr (new_peer i c))" using peer_addr_wf [OF c(2)] by simp
  from s have s': "slots_ok s" "single_but ports {} (dm_peers s)" "cache_of (dm_peers s) (dm_caches s)"
    "dm_max_idx s \<le> length (dm_peers s)" by (auto simp: daemon_inv_def)
  have "slots_ok ?s1" using s'(1) wf c(1) by (auto simp: slots_ok_def nth_update slot_ok_def entered_def)
  moreover have "cache_of (dm_peers ?s1) (dm_caches ?s1)"
    using cache_enter_ok [OF s'(3) _ _ _ new_peer_simps(2) cs] slot c(1) by (simp add: entered_def)
  moreover have "single_but ports {i} (dm_peers ?s1)"
    using s'(2) by (auto simp: single_but_def in_slot_def nth_update entered_def)
  moreover have "in_slot (dm_peers ?s1) i" using slot c(1) by (simp add: in_slot_def entered_def)
  moreover have "no_twin ports i (dm_peers ?s1) ?js" by (auto simp: no_twin_def in_slot_def entered_def)
  moreover have "set ?js \<subseteq> {..<length (dm_peers ?s1)}" by (auto simp: entered_def)
  ultimately show ?thesis using conflicts_ok [OF r1] s'(4) by (auto simp: daemon_inv_def entered_def)
qed (use s in simp)

text \<open>A message changes of the array only what leaves \<open>who\<close> as it is.\<close>

lemma who_fields: "who p = who q \<longleftrightarrow> bp_idx p = bp_idx q \<and> bp_fd p = bp_fd q \<and> bp_type p = bp_type q
  \<and> bp_addr p = bp_addr q \<and> bp_tcp_port p = bp_tcp_port q"
  by (auto simp: who_def)

lemma who_inv:
  assumes s: "daemon_inv ports s" and w: "who p = who (dm_peers s ! i)" and i: "in_slot (dm_peers s) i"
    and s': "dm_peers s' = (dm_peers s)[i := p]" "length (dm_bufs s') = length (dm_bufs s)"
      "dm_caches s' = dm_caches s" "dm_max_idx s' = dm_max_idx s"
  shows "daemon_inv ports s'"
proof -
  have same: "\<And>j. j < length (dm_peers s) \<Longrightarrow> who (dm_peers s' ! j) = who (dm_peers s ! j)"
    using w by (simp add: s'(1) nth_update)
  have in_slot: "in_slot (dm_peers s') j = in_slot (dm_peers s) j" for j
    using same [of j] by (auto simp: in_slot_def s'(1) who_fields)
  have id: "bp_fd (dm_peers s ! j) = 0 \<Longrightarrow> dm_peers s' ! j = dm_peers s ! j" for j
    using i by (cases "j = i") (auto simp: s'(1) in_slot_def)
  have "slots_ok s'"
    unfolding slots_ok_def
  proof (intro conjI allI impI)
    fix j assume j: "j < length (dm_peers s')"
    then have "slot_ok j (dm_peers s ! j)" using s by (simp add: daemon_inv_def slots_ok_def s'(1))
    then show "slot_ok j (dm_peers s' ! j)" using same [of j] id [of j] j by (auto simp: slot_ok_def who_fields s'(1))
  qed (use s in \<open>simp add: daemon_inv_def slots_ok_def s'\<close>)
  moreover have "single_but ports {} (dm_peers s')"
  proof -
    have "same_end ports (dm_peers s' ! a) (dm_peers s' ! b) = same_end ports (dm_peers s ! a) (dm_peers s ! b)"
      if "in_slot (dm_peers s) a" "in_slot (dm_peers s) b" for a b
      using same [of a] same [of b] that by (simp add: same_end_def who_fields in_slot_def)
    then show ?thesis using s by (simp add: daemon_inv_def single_but_def in_slot)
  qed
  moreover have "cache_of (dm_peers s') (dm_caches s')"
  proof -
    have "listed n (dm_peers s' ! j) b = listed n (dm_peers s ! j) b" if "in_slot (dm_peers s) j" for n j b
      using same [of j] that by (simp add: listed_def who_fields in_slot_def)
    then show ?thesis using s unfolding daemon_inv_def cache_of_def in_slot
      by (simp add: s' cong: if_cong option.case_cong)
  qed
  ultimately show ?thesis using s by (simp add: daemon_inv_def s')
qed

lemma pick_slot_Some:
  "pick_slot ps n rr ready is = Some i \<Longrightarrow> 0 < n \<Longrightarrow> i < n \<and> bp_fd (ps ! i) \<noteq> 0 \<and> ready (bp_fd (ps ! i))"
  by (induction "is") (auto simp: Let_def split: if_splits)

lemma close_inv:
  assumes "close_slot d n i s = Inr s'" "daemon_inv ports s" "in_slot (dm_peers s) i"
  shows "daemon_inv ports s' \<and> length (dm_peers s') = length (dm_peers s)"
proof -
  have "bp_type (dm_peers s ! i) = FUNC_TYPE_BGP"
    using assms(2,3) by (auto simp: daemon_inv_def slots_ok_def slot_ok_def in_slot_def)
  note f = close_slot_frame [OF assms(1) this]
  have "single_but ports {} (dm_peers s')" unfolding f(1)
    by (rule single_close) (use single_mono [of ports "{}"] assms(2) in \<open>auto simp: daemon_inv_def\<close>)
  with close_slot_ok [OF assms(1) _ _ assms(3)] assms(2) f show ?thesis by (auto simp: daemon_inv_def)
qed

definition after_read :: "nat \<Rightarrow> bgp_peer_buf \<Rightarrow> session \<Rightarrow> bgp_daemon \<Rightarrow> bgp_daemon" where
  "after_read i buf ss s = s\<lparr>dm_rr := (dm_rr s + 1) mod dm_max_idx s, dm_peers := (dm_peers s)[i := ss_peer ss],
     dm_bufs := (dm_bufs s)[i := buf], dm_db := ss_db ss,
     dm_sent := dm_sent s @ map (Pair (bp_fd (dm_peers s ! i))) (ss_sent ss)\<rparr>"

lemma read_ok:
  assumes r: "daemon_read fuel d now ready data1 data2 s = Inr s'" and s: "daemon_inv ports s"
  shows "daemon_inv ports s' \<and> length (dm_peers s') = length (dm_peers s)"
proof (cases "pick_slot (dm_peers s) (dm_max_idx s) (dm_rr s) ready [0..<dm_max_idx s]")
  case None
  then show ?thesis using r s by (simp add: daemon_read_def)
next
  case (Some i)
  then have "0 < dm_max_idx s" by (cases "dm_max_idx s") auto
  with pick_slot_Some [OF Some] s have i: "in_slot (dm_peers s) i" by (auto simp: in_slot_def daemon_inv_def)
  from r Some obtain turn buf ss where t: "peer_turn fuel (d\<lparr>d_peers := dm_peers s\<rparr>) now (dm_bufs s ! i) data1 data2
        \<lparr>ss_peer = dm_peers s ! i, ss_db = dm_db s, ss_sent = [], ss_count = 0\<rparr> = Some (Inr (turn, buf, ss))"
    and fin: "(case turn of Wait \<Rightarrow> Inr (after_read i buf ss s)
      | Close n \<Rightarrow> fbind (close_slot d (map_option (\<lambda>m. (m, BGP_NOTIFY_SUBCODE_UNSPECIFIC)) n) i (after_read i buf ss s))
          (\<lambda>s. Inr (s\<lparr>dm_recalc := True\<rparr>))) = Inr s'"
    unfolding daemon_read_def after_read_def Let_def by (auto simp: fbind_Inr_iff split: option.splits)
  let ?s1 = "after_read i buf ss s"
  have w: "who (ss_peer ss) = who (dm_peers s ! i)" using who_peer_turn [OF t] by simp
  have inv: "daemon_inv ports ?s1" by (rule who_inv [OF s w]) (use i in \<open>simp_all add: after_read_def in_slot_def\<close>)
  have "in_slot (dm_peers ?s1) i" using i w by (auto simp: after_read_def in_slot_def who_fields)
  note closed = close_inv [OF _ inv this]
  have len: "length (dm_peers ?s1) = length (dm_peers s)" by (simp add: after_read_def)
  show ?thesis
  proof (cases turn)
    case (Close n)
    with fin obtain s2 where s2: "close_slot d (map_option (\<lambda>m. (m, BGP_NOTIFY_SUBCODE_UNSPECIFIC)) n) i ?s1 = Inr s2"
      "s' = s2\<lparr>dm_recalc := True\<rparr>" by (auto simp: fbind_Inr_iff)
    from closed [OF s2(1)] show ?thesis by (simp add: s2(2) len daemon_inv_def slots_ok_def)
  qed (use fin inv len in simp)
qed

section \<open>All the states that can be reached\<close>

inductive daemon_reach :: "daemon \<Rightarrow> bool \<Rightarrow> nat \<Rightarrow> bgp_daemon \<Rightarrow> bool"
  for d :: daemon and ports :: bool and n :: nat where
  start: "daemon_reach d ports n (daemon_start junk n lg num interval buckets)"
| turn: "daemon_reach d ports n s \<Longrightarrow> daemon_turn fuel d ports now conn ready data1 data2 s = Inr s'
    \<Longrightarrow> (\<And>c. conn = Some c \<Longrightarrow> cn_fd c \<noteq> 0 \<and> sock_wf (cn_addr c)) \<Longrightarrow> daemon_reach d ports n s'"

lemma start_inv: "daemon_inv ports (daemon_start junk n lg num interval buckets)"
  by (auto simp: daemon_inv_def daemon_start_def slots_ok_def slot_ok_def single_but_def cache_of_def in_slot_def
      zero_peer_def bgp_peer_cache_init_def)

lemma reach_inv: "daemon_reach d ports n s \<Longrightarrow> daemon_inv ports s \<and> length (dm_peers s) = n"
proof (induction rule: daemon_reach.induct)
  case (start junk lg num interval buckets)
  show ?case by (simp add: start_inv) (simp add: daemon_start_def)
next
  case (turn s fuel now conn ready data1 data2 s')
  then obtain s1 where s1: "(case conn of None \<Rightarrow> Inr (daemon_recalc s)
      | Some c \<Rightarrow> daemon_accept d ports now c (daemon_recalc s)) = Inr s1"
    and r: "daemon_read fuel d now ready data1 data2 s1 = Inr s'" by (auto simp: daemon_turn_def fault_simps)
  have "daemon_inv ports (daemon_recalc s)" "length (dm_peers (daemon_recalc s)) = n"
    using turn.IH recalc_ok by (auto simp: daemon_recalc_def)
  then have "daemon_inv ports s1 \<and> length (dm_peers s1) = n"
    using s1 turn.hyps(3) accept_ok [of d ports now _ "daemon_recalc s" s1] by (auto split: option.splits)
  with read_ok [OF r] show ?case by auto
qed

section \<open>Searching the cache\<close>

lemma host_addr_cmp_eq:
  assumes "addr_wf a" "addr_wf b"
  shows "host_addr_cmp a b = 0 \<longleftrightarrow> a = b"
proof -
  have le: "le32 s = le32 t \<longleftrightarrow> s = t" if "length s = 4" "length t = 4" for s t
    using le32_take [of s t] that by simp
  have "take 12 s \<noteq> replicate 10 0 @ [0xff, 0xff] \<Longrightarrow> s \<noteq> v4_mapped t" for s t
    by (auto simp: v4_mapped_def)
  then show ?thesis using assms
    by (auto simp: addr_wf_def sock_wf_def host_addr_cmp_def AF_INET_def AF_INET6_def le ip6_addr_cmp_0 prod_eq_iff)
qed

definition wanted :: "bgp_peer list \<Rightarrow> host_addr \<Rightarrow> u16 \<Rightarrow> nat \<Rightarrow> bool" where
  "wanted ps ha port i \<longleftrightarrow> in_slot ps i \<and> bp_addr (ps ! i) = ha \<and> (port = 0 \<or> bp_tcp_port (ps ! i) = port)"

lemma search_loop:
  assumes "\<And>i. i \<in> set is \<Longrightarrow> in_slot ps i \<and> addr_wf (bp_addr (ps ! i))" and "addr_wf ha"
  shows "cache_search_loop ps ha port is = Inr (find (wanted ps ha port) is)"
  using assms(1)
proof (induction "is")
  case (Cons i "is")
  then have i: "in_slot ps i" "addr_wf (bp_addr (ps ! i))" by auto
  have "i < length ps" using i(1) by (simp add: in_slot_def)
  moreover have "wanted ps ha port i \<longleftrightarrow> bp_addr (ps ! i) = ha \<and> (port = 0 \<or> bp_tcp_port (ps ! i) = port)"
    using i by (simp add: wanted_def)
  ultimately show ?case using Cons host_addr_cmp_eq [OF i(2) assms(2)] by (cases "port = 0") simp_all
qed simp

lemma search_exact:
  assumes s: "daemon_inv ports s" and c: "dm_caches s = Some c" and ha: "addr_wf ha"
    and b: "(if port = 0 then addr_hash ha (length (dm_peers s)) else addr_port_hash ha port (length (dm_peers s))) = Inr b"
  shows "bgp_peer_cache_search (dm_peers s) which b ha port c
      = Inr (find (wanted (dm_peers s) ha port) (peers_cache c ! b))"
    and "wanted (dm_peers s) ha port i \<Longrightarrow> i \<in> set (peers_cache c ! b)"
proof -
  let ?n = "length (dm_peers s)"
  have less: "b < ?n" using b hash_less by (cases "port = 0") auto
  have len: "length (peers_cache c) = ?n" and count: "\<And>i. count (mset (peers_cache c ! b)) i
      = (if in_slot (dm_peers s) i then listed ?n (dm_peers s ! i) b else 0)"
    using s c less by (auto simp: daemon_inv_def cache_of_def)
  have mem: "i \<in> set (peers_cache c ! b) \<longleftrightarrow> in_slot (dm_peers s) i \<and> listed ?n (dm_peers s ! i) b \<noteq> 0" for i
    using count [of i] count_greater_zero_iff [of "mset (peers_cache c ! b)" i] by (auto split: if_splits)
  have wf: "in_slot (dm_peers s) i \<Longrightarrow> addr_wf (bp_addr (dm_peers s ! i))" for i
    using s by (auto simp: daemon_inv_def slots_ok_def slot_ok_def in_slot_def)
  show "bgp_peer_cache_search (dm_peers s) which b ha port c
      = Inr (find (wanted (dm_peers s) ha port) (peers_cache c ! b))"
    unfolding bgp_peer_cache_search_def using less len search_loop [of "peers_cache c ! b" _ ha, OF _ ha] mem wf by simp
  show "wanted (dm_peers s) ha port i \<Longrightarrow> i \<in> set (peers_cache c ! b)"
    using b by (auto simp: wanted_def mem listed_def split: if_splits)
qed

section \<open>Batches\<close>

text \<open>While batches are enabled, what is left of a batch is between 0 and its size, and a peer is admitted
  exactly if something is left of the batch or its time has passed.\<close>

definition batch_ok :: "bgp_peer_batch \<Rightarrow> bool" where
  "batch_ok b \<longleftrightarrow> 0 < bb_num b \<longrightarrow> 0 \<le> bb_num_current b \<and> bb_num_current b \<le> bb_num b"

lemma batch_admit_ok:
  assumes "batch_ok b" "0 < bb_num b" "bgp_batch_is_admitted now (Some b) \<noteq> 0"
  shows "batch_ok (batch_admit now b) \<and> bb_num (batch_admit now b) = bb_num b
    \<and> bb_interval (batch_admit now b) = bb_interval b
    \<and> (if bb_base_stamp b + bb_interval b < now
       then bb_base_stamp (batch_admit now b) = now \<and> bb_num_current (batch_admit now b) = bb_num b - 1
       else bb_base_stamp (batch_admit now b) = bb_base_stamp b
         \<and> bb_num_current (batch_admit now b) = bb_num_current b - 1)"
  using assms
  by (auto simp: batch_ok_def batch_admit_def bgp_batch_is_admitted_def bgp_batch_is_enabled_def of_test_def
      bgp_batch_is_expired_def bgp_batch_is_not_empty_def bgp_batch_reset_def bgp_batch_decrease_counter_def Let_def split: if_splits)

end
