(* ===== verification/LookupRounds.thy ===== *)
theory LookupRounds
  imports LookupFacts DaemonFacts
begin

text \<open>
  Whole lookups for flows: the hops to the next peers and the rounds of default routes end and do not
  fault, one round finds the best routes of both addresses, and the peer of an exporter is its session.
\<close>

section \<open>The hops to the next peers\<close>

text \<open>No entry has an IPv6 next hop, which the code cannot store.\<close>

definition hops_v4 :: "attr_db \<Rightarrow> ribs \<Rightarrow> bool" where
  "hops_v4 D Es \<longleftrightarrow> (\<forall>ri. entry_of Es ri \<longrightarrow>
     (\<exists>x. heap (attrhash D) (ri_attr ri) = Some x \<and> fst (at_mp_nexthop x) \<noteq> AF_INET6))"

lemma hops_live: "hops_v4 D Es \<Longrightarrow> live_entries D Es"
  unfolding hops_v4_def live_entries_def entry_of_def by (metis option.distinct(1))

definition peers_ok :: "lookup_env \<Rightarrow> bool" where
  "peers_ok E \<longleftrightarrow> (\<forall>i < length (le_peers E). fd_ok (le_bms E) (le_peers E ! i))"

definition pkt_afi :: "packet_ptrs \<Rightarrow> nat" where
  "pkt_afi pp = (if pp_l3_proto pp = ETHERTYPE_IP then AFI_IP else AFI_IP6)"

definition dst_ok :: "packet_ptrs \<Rightarrow> bool" where
  "dst_ok pp \<longleftrightarrow> pp_l3_proto pp \<in> {ETHERTYPE_IP, ETHERTYPE_IPV6} \<and> addr_ok (pkt_afi pp) (pp_ip_dst pp)"

text \<open>The node of the destination, once it is known, is in the table.\<close>

definition node_held :: "packet_ptrs \<Rightarrow> locks \<Rightarrow> ribs \<Rightarrow> prefix option \<Rightarrow> bool" where
  "node_held pp L Es k \<longleftrightarrow> (\<forall>q. k = Some q \<longrightarrow> prefix_ok q
     \<and> L (pkt_afi pp) SAFI_UNICAST (p_bits q) + total (Es (pkt_afi pp) SAFI_UNICAST (p_bits q)) \<noteq> 0)"

definition db_locked :: "lookup_env \<Rightarrow> attr_db \<Rightarrow> ribs \<Rightarrow> locks \<Rightarrow> rt_db \<Rightarrow> bool" where
  "db_locked E D Es L db \<longleftrightarrow> rt_attrs db = D \<and> locked_ribs (le_bms E) L db Es"

lemma find_slot_Some: "find_slot P is = Some i \<Longrightarrow> i \<in> set is \<and> P i"
  by (induction "is") (auto split: if_splits)

lemma find_slot_None: "find_slot P is = None \<longleftrightarrow> (\<forall>i \<in> set is. \<not> P i)"
  by (induction "is") auto

lemma nexthop_node_ok:
  assumes E: "env_ok E" and db: "db_locked E D Es L db" and live: "live_entries D Es" and pp: "dst_ok pp"
    and held: "node_held pp L Es k" and spare: "spare_locks (if k = None then 1 else 0) L Es" and fd: "fd_ok (le_bms E) peer"
  shows "\<exists>k' db' L'. nexthop_node E pp peer k db = Inr (k', db') \<and> db_locked E D Es L' db' \<and> L \<le> L'
    \<and> spare_locks 0 L' Es \<and> node_held pp L' Es k'"
proof (cases k)
  case (Some q)
  then show ?thesis using db held spare
    by (intro exI [of _ k] exI [of _ db] exI [of _ L]) (simp add: nexthop_node_def)
next
  case None
  let ?nm = "\<lparr>nm_peer = peer, nm_afi = 0, nm_safi = 0, nm_rd = Some rd_zero, nm_peer_dst_ip = Some (0, [])\<rparr>"
  let ?afi = "pkt_afi pp" let ?bms = "le_bms E" let ?p = "addr_prefix ?afi (pp_ip_dst pp)"
  have E': "buckets_ok ?bms" "all_buckets ?bms" "\<not> is_readonly ?bms" using E by (simp_all add: env_ok_def)
  note b = lookup_buckets [OF E'(1) fd E'(2)]
  have tab: "(?afi, SAFI_UNICAST) \<in> tables" by (rule safi_tables) (auto simp: pkt_afi_def)
  have D: "rt_attrs db = D" "locked_ribs ?bms L db Es" using db by (simp_all add: db_locked_def)
  have sp: "spare_locks 1 L Es" using spare None by simp
  have p: "prefix_ok ?p" using pp by (simp add: dst_ok_def)
  have b': "bgp_route_info_modulo ?bms (nm_peer ?nm) (nm_rd ?nm) None (match_buckets ?bms) = Inr (first_bucket ?bms peer)"
    using b(1) by simp
  from match_entries_ok [OF D(2) live [folded D(1)] sp p E'(3) tab _ b' b(3), of "le_stray E"] obtain found db' where
    m: "match_entries ?bms (le_stray E) ?nm ?afi SAFI_UNICAST ?p False db = Inr (found, None, db')" "rt_attrs db' = D"
      "locked_ribs ?bms (pin ?afi SAFI_UNICAST found L) db' Es"
      "longest (wanted_entry D ?nm) (\<lambda>ks. window (first_bucket ?bms peer) (modulo_idx_max ?bms) (Es ?afi SAFI_UNICAST ks)) ?p found"
    unfolding D(1) by auto
  have "nexthop_node E pp peer k db = Inr (map_option fst found, db')"
    using m(1) None pp by (auto simp: nexthop_node_def pkt_afi_def dst_ok_def ethertypes Let_def)
  moreover have "node_held pp (pin ?afi SAFI_UNICAST found L) Es (map_option fst found)"
    using m(4) by (auto simp: node_held_def longest_def pin_def simp del: total_0)
  moreover have "spare_locks 0 (pin ?afi SAFI_UNICAST found L) Es" using pin_spare [of 0 L Es] sp by simp
  ultimately show ?thesis using m(2,3) pin_le by (auto simp: db_locked_def)
qed

lemma nexthop_entry_ok:
  assumes E: "env_ok E" and db: "db_locked E D Es L db" and held: "node_held pp L Es k"
  shows "\<exists>r. nexthop_entry E pp peer k db = Inr r \<and> (\<forall>ri. r = Some ri \<longrightarrow> entry_of Es ri \<and> k \<noteq> None)"
proof (cases k)
  case None
  then show ?thesis by (simp add: nexthop_entry_def)
next
  case (Some q)
  let ?bms = "le_bms E" let ?t = "rt_rib db (pkt_afi pp) SAFI_UNICAST" let ?info = "Es (pkt_afi pp) SAFI_UNICAST (p_bits q)"
  have s: "stands_with ?bms (L (pkt_afi pp) SAFI_UNICAST) ?t (Es (pkt_afi pp) SAFI_UNICAST)"
    using db by (simp add: db_locked_def locked_ribs_def)
  have q: "prefix_ok q" "L (pkt_afi pp) SAFI_UNICAST (p_bits q) + total ?info \<noteq> 0"
    using held Some by (simp_all add: node_held_def del: total_0)
  have "buckets_ok ?bms" using E by (simp add: env_ok_def)
  from modulo_ok [OF this, of peer None None] obtain b where
    b: "bgp_route_info_modulo ?bms peer None None (table_per_peer_buckets ?bms) = Inr b" "b < length (empty_info ?bms :: bgp_info list list)"
    by blast
  have len: "b < length ?info" using s b(2) by (simp add: stands_with_def)
  have "table_ok ?bms ?t" using s by (simp add: stands_with_def)
  moreover obtain lk where "table_rib ?t (p_bits q) = Some (lk, ?info)"
    using s q(2) by (simp add: stands_with_def rib_with_def del: total_0)
  ultimately have c: "get_chain (le_stray E) ?t q b = Inr (?info ! b)" using get_chain_ok q(1) len by blast
  have "nexthop_entry E pp peer k db = Inr (find (\<lambda>info. ri_peer info = bp_idx peer) (?info ! b))"
    using c b(1) Some by (simp add: nexthop_entry_def pkt_afi_def)
  moreover have "entry_of Es ri" if "find (\<lambda>info. ri_peer info = bp_idx peer) (?info ! b) = Some ri" for ri
  proof -
    have "ri \<in> set (?info ! b)" using that by (auto simp: find_Some_iff)
    then have "ri \<in> set (entries Es (pkt_afi pp) SAFI_UNICAST (p_bits q))" using len nth_mem by fastforce
    moreover have "(pkt_afi pp, SAFI_UNICAST) \<in> tables" by (rule safi_tables) (auto simp: pkt_afi_def)
    ultimately show ?thesis using entry_ofI by blast
  qed
  ultimately show ?thesis using Some by simp
qed

lemma follow_hops_ok:
  assumes E: "env_ok E" "peers_ok E" and hops: "hops_v4 D Es" and pp: "dst_ok pp"
    and "db_locked E D Es L db" "node_held pp L Es k" "spare_locks (if k = None then 1 else 0) L Es"
    and "\<forall>ri. saved = Some ri \<longrightarrow> entry_of Es ri"
  shows "\<exists>saved' db' L'. follow_hops E pp ttl self sa k saved db = Inr (saved', db') \<and> db_locked E D Es L' db' \<and> L \<le> L'
    \<and> spare_locks 0 L' Es \<and> (\<forall>ri. saved' = Some ri \<longrightarrow> entry_of Es ri)"
  using assms(5-8)
proof (induction ttl arbitrary: self sa k saved db L rule: less_induct)
  case (less ttl self sa k saved db L)
  let ?sa = "map_agent E sa"
  let ?ok = "\<lambda>r. \<exists>saved' db' L'. r = Inr (saved', db') \<and> db_locked E D Es L' db' \<and> L \<le> L'
    \<and> spare_locks 0 L' Es \<and> (\<forall>ri. saved' = Some ri \<longrightarrow> entry_of Es ri)"
  have sp0: "spare_locks 0 L Es" using less.prems(3) by (rule spare_locks_less) simp
  have stop: "?ok (Inr (saved, db))" using less.prems sp0 by auto
  show ?case
  proof (cases "find_slot (nh_peer_is E ?sa) [0..<length (le_peers E)]")
    case None
    then show ?thesis using stop by (subst follow_hops.simps) simp
  next
    case (Some i)
    let ?peer = "le_peers E ! i"
    have "i < length (le_peers E)" using find_slot_Some [OF Some] by simp
    then have fd: "fd_ok (le_bms E) ?peer" using E(2) by (simp add: peers_ok_def)
    from nexthop_node_ok [OF E(1) less.prems(1) hops_live [OF hops] pp less.prems(2,3) fd] obtain k1 db1 L1 where
      n: "nexthop_node E pp ?peer k db = Inr (k1, db1)" "db_locked E D Es L1 db1" "L \<le> L1" "spare_locks 0 L1 Es"
        "node_held pp L1 Es k1"
      by blast
    from nexthop_entry_ok [OF E(1) n(2,5), of ?peer] obtain r where
      r: "nexthop_entry E pp ?peer k1 db1 = Inr r" "\<forall>ri. r = Some ri \<longrightarrow> entry_of Es ri \<and> k1 \<noteq> None"
      by blast
    have rest: "?ok (Inr (v, db1))" if "\<forall>ri. v = Some ri \<longrightarrow> entry_of Es ri" for v
      using n(2-4) that by blast
    show ?thesis
    proof (cases r)
      case None
      then show ?thesis using rest [OF less.prems(4)] n(1) r(1) Some by (subst follow_hops.simps) simp
    next
      case (Some ri)
      with r(2) have ri: "entry_of Es ri" "k1 \<noteq> None" by auto
      with hops obtain x where x: "heap (attrhash D) (ri_attr ri) = Some x" "fst (at_mp_nexthop x) \<noteq> AF_INET6"
        unfolding hops_v4_def by blast
      have d: "deref (attrhash (rt_attrs db1)) (ri_attr ri) = Inr x"
        using x(1) n(2) by (simp add: deref_def db_locked_def)
      have "\<exists>sa'. next_hop_sockaddr x = Inr sa'" using x(2) by (simp add: next_hop_sockaddr_def)
      then obtain sa' where sa': "next_hop_sockaddr x = Inr sa'" ..
      let ?stop = "Inr (if le_follow_nexthop_external E then Some ri else saved, db1)"
      let ?go = "list_ex (\<lambda>p. prefix_match p (next_hop x)) (le_follow_nexthop E) \<and> self \<noteq> 0"
      let ?self = "if prefix_match (peer_host ?peer) (next_hop x) then self - 1 else self"
      have eq: "follow_hops E pp ttl self sa k saved db = (if \<not> ?go then ?stop
          else case ttl of 0 \<Rightarrow> ?stop | Suc t \<Rightarrow> follow_hops E pp t ?self sa' k1 (Some ri) db1)"
        using \<open>find_slot _ _ = Some i\<close> n(1) r(1) Some d sa'
        by (subst follow_hops.simps) (auto simp: Let_def split: nat.split)
      have st: "?ok ?stop" using less.prems(4) ri(1) by (intro rest) simp
      show ?thesis
      proof (cases "?go \<and> ttl \<noteq> 0")
        case False
        then show ?thesis unfolding eq using st by (cases ttl) auto
      next
        case True
        then obtain t where t: "ttl = Suc t" by (cases ttl) auto
        have "spare_locks (if k1 = None then 1 else 0) L1 Es" using n(4) ri(2) by auto
        from less.IH [where y = t and saved = "Some ri" and self = ?self and sa = sa', OF _ n(2,5) this] ri(1) t obtain saved' db' L' where
          "follow_hops E pp t ?self sa' k1 (Some ri) db1 = Inr (saved', db')" "db_locked E D Es L' db'" "L1 \<le> L'"
          "spare_locks 0 L' Es" "\<forall>ri. saved' = Some ri \<longrightarrow> entry_of Es ri"
          by auto
        then show ?thesis unfolding eq using True t n(3) order.trans by (auto intro!: exI)
      qed
    qed
  qed
qed

lemma follow_nexthop_ok:
  assumes E: "env_ok E" "peers_ok E" and hops: "hops_v4 D Es" and pp: "dst_ok pp" and inv: "lookup_inv E D Es (Suc k) L s"
  shows "\<exists>s' L'. bgp_follow_nexthop_lookup E pp s = Inr s' \<and> lookup_inv E D Es 0 L' s' \<and> L \<le> L'
    \<and> ls_peer s' = ls_peer s \<and> ls_status s' = ls_status s \<and> ls_src s' = ls_src s \<and> ls_dst s' = ls_dst s
    \<and> (\<forall>ri. ls_nexthop_info s' = Some ri \<longrightarrow> ls_nexthop_info s = Some ri \<or> entry_of Es ri)"
proof -
  have db: "db_locked E D Es L (ls_db s)" and sp: "spare_locks (Suc k) L Es"
    using inv by (simp_all add: lookup_inv_def db_locked_def)
  have sp1: "spare_locks (if (None :: prefix option) = None then 1 else 0) L Es" using spare_locks_less [OF sp] by simp
  have "node_held pp L Es None" by (simp add: node_held_def)
  from follow_hops_ok [OF E hops pp db this sp1, of None MAX_HOPS_FOLLOW_NH MAX_NH_SELF_REFERENCES "pp_agent pp"]
  obtain saved db' L' where
    r: "follow_hops E pp MAX_HOPS_FOLLOW_NH MAX_NH_SELF_REFERENCES (pp_agent pp) None None (ls_db s) = Inr (saved, db')"
      "db_locked E D Es L' db'" "L \<le> L'" "spare_locks 0 L' Es" "\<forall>ri. saved = Some ri \<longrightarrow> entry_of Es ri"
    by auto
  let ?s = "s\<lparr>ls_db := db'\<rparr>"
  let ?s' = "if saved \<noteq> None then ?s\<lparr>ls_nexthop_info := saved\<rparr> else ?s"
  have "bgp_follow_nexthop_lookup E pp s = Inr ?s'" using r(1) by (simp add: bgp_follow_nexthop_lookup_def)
  moreover have "lookup_inv E D Es 0 L' ?s'"
    using r inv by (auto simp: lookup_inv_def db_locked_def)
  ultimately show ?thesis using r(3,5) by (intro exI [of _ ?s'] exI [of _ L']) auto
qed

section \<open>The rounds\<close>

definition status_ok :: "nat \<Rightarrow> xflow_status_entry option \<Rightarrow> bool" where
  "status_ok n xs \<longleftrightarrow> (\<forall>e. xs = Some e \<longrightarrow> (peer_v4_idx e = 0 \<or> peer_v4_idx e < n) \<and> (peer_v6_idx e = 0 \<or> peer_v6_idx e < n))"

lemma find_peer_safe:
  assumes "status_ok (length peers) xs"
  shows "\<exists>r xs'. bgp_lookup_find_bgp_peer cfg peers sa xs l3 ports = Inr (r, xs') \<and> status_ok (length peers) xs'
    \<and> (\<forall>i. r = Some i \<longrightarrow> i < length peers)"
proof -
  have idx: "get_peer_idx l3 xs = 0 \<or> get_peer_idx l3 xs < length peers"
    using assms by (auto simp: get_peer_idx_def status_ok_def split: option.split)
  have put: "i < length peers \<or> i = 0 \<Longrightarrow> status_ok (length peers) (put_peer_idx l3 i xs)" for i
    using assms by (auto simp: put_peer_idx_def status_ok_def split: option.splits)
  have found: "i < length peers" if "find_slot P [0..<length peers] = Some i" for P i
    using find_slot_Some [OF that] by simp
  show ?thesis
    using idx put found assms by (auto simp: bgp_lookup_find_bgp_peer_def Let_def split: option.split)
qed

definition hits_ok :: "ribs \<Rightarrow> lookup_state \<Rightarrow> bool" where
  "hits_ok Es s \<longleftrightarrow> (\<forall>h. sd_hit (ls_src s) = Some h \<or> sd_hit (ls_dst s) = Some h \<longrightarrow> entry_of Es (snd h))
     \<and> (\<forall>ri. ls_nexthop_info s = Some ri \<longrightarrow> entry_of Es ri)"

lemma side_step_hit:
  assumes "side_step D Es pl nm afi p L L' side side'" "(afi, nm_safi nm) \<in> tables" "sd_hit side' = Some h"
  shows "sd_hit side = Some h \<or> entry_of Es (snd h)"
proof (cases "sd_hit side")
  case None
  with assms(1) obtain found where f: "side' = hit_side side found"
    "\<forall>q ri. found = Some (q, ri) \<longrightarrow> ri \<in> set (entries Es afi (nm_safi nm) (p_bits q))"
    by (auto simp: side_step_def)
  then have "found = Some h" using assms(3) None by simp
  with f(2) entry_ofI [OF assms(2)] show ?thesis by (cases h) auto
qed (use assms in \<open>simp add: side_step_def\<close>)

lemma lookup_passes_safe:
  assumes E: "env_ok E" and live: "live_entries D Es" and inv: "lookup_inv E D Es (4 + k) L s" and hits: "hits_ok Es s"
    and addrs: "flow_addrs bl pp afi src dst" and fd: "fd_ok (le_bms E) peer"
    and safi: "safi \<in> {SAFI_UNICAST, SAFI_MPLS_LABEL, SAFI_MPLS_VPN}"
  shows "\<exists>safi' s' L'. lookup_passes E bl pp peer ip rd safi s = Inr (safi', s') \<and> safi' \<in> {safi, SAFI_MPLS_LABEL}
    \<and> lookup_inv E D Es k L' s' \<and> L \<le> L' \<and> same_rest s s' \<and> hits_ok Es s'"
proof -
  note afi = flow_addrs_afi [OF addrs]
  note tab = safi_tables [of afi, OF conjunct1 [OF afi]]
  have pass: "\<exists>s' L'. lookup_pass E bl pp peer ip rd safi s = Inr s' \<and> lookup_inv E D Es k L' s' \<and> L \<le> L' \<and> same_rest s s'
      \<and> hits_ok Es s'"
    if "lookup_inv E D Es (Suc (Suc k)) L s" "hits_ok Es s" "(afi, safi) \<in> tables" for k L s safi
  proof -
    from lookup_pass_ok [OF E live that(1) addrs that(3) fd, of ip rd] obtain s' L' pl where
      s': "lookup_pass E bl pp peer ip rd safi s = Inr s'" "lookup_inv E D Es k L' s'" "L \<le> L'" "same_rest s s'"
      and st: "side_step D Es pl (flow_match peer afi rd None safi) afi (addr_prefix afi src) L L' (ls_src s) (ls_src s')"
        "side_step D Es pl (flow_match peer afi rd (Some ip) safi) afi (addr_prefix afi dst) L L' (ls_dst s) (ls_dst s')"
      by blast
    have "hits_ok Es s'"
      using that(2) s'(4) side_step_hit [OF st(1)] side_step_hit [OF st(2)] that(3)
      by (auto simp: hits_ok_def same_rest_def)
    with s' show ?thesis by blast
  qed
  have t: "(afi, safi) \<in> tables" "(afi, SAFI_MPLS_LABEL) \<in> tables" using tab safi by blast+
  have "lookup_inv E D Es (Suc (Suc (Suc (Suc k)))) L s" using inv by (simp add: numeral_eq_Suc)
  from pass [OF this hits t(1)] obtain s1 L1 where
    s1: "lookup_pass E bl pp peer ip rd safi s = Inr s1" "lookup_inv E D Es (Suc (Suc k)) L1 s1" "L \<le> L1" "same_rest s s1"
      "hits_ok Es s1" by blast
  from pass [OF s1(2,5) t(2)] obtain s2 L2 where
    s2: "lookup_pass E bl pp peer ip rd SAFI_MPLS_LABEL s1 = Inr s2" "lookup_inv E D Es k L2 s2" "L1 \<le> L2" "same_rest s1 s2"
      "hits_ok Es s2" by blast
  have l1: "lookup_inv E D Es k L1 s1" using s1(2) by (rule lookup_inv_less) simp
  show ?thesis
  proof (cases "\<not> found_both s1 \<and> safi \<noteq> SAFI_MPLS_LABEL")
    case True
    then have "lookup_passes E bl pp peer ip rd safi s = Inr (SAFI_MPLS_LABEL, s2)"
      using s1(1) s2(1) afi by (simp add: lookup_passes_def)
    then show ?thesis using s2 order.trans [OF s1(3) s2(3)] same_rest_trans [OF s1(4) s2(4)] by blast
  next
    case False
    then have "lookup_passes E bl pp peer ip rd safi s = Inr (safi, s1)" using s1(1) by (auto simp: lookup_passes_def)
    then show ?thesis using s1 l1 by blast
  qed
qed

definition lookup_done :: "lookup_env \<Rightarrow> attr_db \<Rightarrow> ribs \<Rightarrow> locks \<Rightarrow> lookup_state \<Rightarrow> bool" where
  "lookup_done E D Es L s \<longleftrightarrow> (\<exists>L'. lookup_inv E D Es 0 L' s \<and> L \<le> L') \<and> hits_ok Es s
     \<and> status_ok (length (le_peers E)) (ls_status s) \<and> (\<forall>i. ls_peer s = Some i \<longrightarrow> i < length (le_peers E))"

lemma lookup_rounds_ok:
  assumes E: "env_ok E" "peers_ok E" and hops: "hops_v4 D Es" and pp: "dst_ok pp" "flow_addrs bl pp afi src dst"
    and "lookup_inv E D Es (4 * Suc (nat fd) + 1) L s" "hits_ok Es s" "status_ok (length (le_peers E)) (ls_status s)"
    and "0 \<le> fd" "nat fd < fuel" "safi \<in> {SAFI_UNICAST, SAFI_MPLS_LABEL, SAFI_MPLS_VPN}"
  shows "\<exists>s'. lookup_rounds fuel E bl pp sa ports fd rd safi s = Inr s' \<and> lookup_done E D Es L s'"
  using assms(6-11)
proof (induction fuel arbitrary: sa ports fd rd safi s L)
  case (Suc fuel)
  note live = hops_live [OF hops]
  from find_peer_safe [OF Suc.prems(3), of "le_cfg E" sa "pp_l3_proto pp" ports] obtain r xs where
    r: "bgp_lookup_find_bgp_peer (le_cfg E) (le_peers E) sa (ls_status s) (pp_l3_proto pp) ports = Inr (r, xs)"
      "status_ok (length (le_peers E)) xs" "\<forall>i. r = Some i \<longrightarrow> i < length (le_peers E)" by blast
  let ?s = "s\<lparr>ls_peer := r, ls_status := xs\<rparr>"
  have inv0: "lookup_inv E D Es (4 + (4 * nat fd + 1)) L ?s" using Suc.prems(1) by (simp add: algebra_simps)
  have hits0: "hits_ok Es ?s" using Suc.prems(2) by (simp add: hits_ok_def)
  show ?case
  proof (cases r)
    case None
    moreover have "lookup_done E D Es L ?s"
      using lookup_inv_less [OF inv0, of 0] hits0 r(2,3) unfolding lookup_done_def by auto
    ultimately show ?thesis using r(1) by simp
  next
    case (Some i)
    let ?peer = "le_peers E ! i"
    have i: "i < length (le_peers E)" using r(3) Some by simp
    then have fd_i: "fd_ok (le_bms E) ?peer" using E(2) by (simp add: peers_ok_def)
    obtain rd1 safi1 where fr: "flow_rd pp rd safi = (rd1, safi1)" by (cases "flow_rd pp rd safi")
    then have safi1: "safi1 \<in> {SAFI_UNICAST, SAFI_MPLS_LABEL, SAFI_MPLS_VPN}"
      using Suc.prems(6) by (auto simp: flow_rd_def split: if_splits)
    from lookup_passes_safe [OF E(1) live inv0 hits0 pp(2) fd_i safi1, of "flow_dst_ip E pp ?peer" rd1] obtain safi2 s1 L1 where
      s1: "lookup_passes E bl pp ?peer (flow_dst_ip E pp ?peer) rd1 safi1 ?s = Inr (safi2, s1)"
        "safi2 \<in> {safi1, SAFI_MPLS_LABEL}" "lookup_inv E D Es (4 * nat fd + 1) L1 s1" "L \<le> L1" "same_rest ?s s1" "hits_ok Es s1"
      by blast
    define finish where "finish = (\<lambda>s. if le_follow_nexthop E \<noteq> [] \<and> sd_hit (ls_dst s) \<noteq> None \<and> safi2 \<noteq> SAFI_MPLS_VPN
      then bgp_follow_nexthop_lookup E pp s else Inr s)"
    have fin: "\<exists>s'. finish s2 = Inr s' \<and> lookup_done E D Es L s'"
      if "lookup_inv E D Es (Suc k) L1 s2" "hits_ok Es s2" "ls_peer s2 = Some i" "ls_status s2 = xs" for s2 k
    proof (cases "le_follow_nexthop E \<noteq> [] \<and> sd_hit (ls_dst s2) \<noteq> None \<and> safi2 \<noteq> SAFI_MPLS_VPN")
      case True
      from follow_nexthop_ok [OF E hops pp(1) that(1)] obtain s3 L3 where
        s3: "bgp_follow_nexthop_lookup E pp s2 = Inr s3" "lookup_inv E D Es 0 L3 s3" "L1 \<le> L3" "ls_peer s3 = ls_peer s2"
          "ls_status s3 = ls_status s2" "ls_src s3 = ls_src s2" "ls_dst s3 = ls_dst s2"
          "\<forall>ri. ls_nexthop_info s3 = Some ri \<longrightarrow> ls_nexthop_info s2 = Some ri \<or> entry_of Es ri" by blast
      have "hits_ok Es s3" using that(2) s3 unfolding hits_ok_def by metis
      moreover have "L \<le> L3" using s1(4) s3(3) by (rule order.trans)
      ultimately have "lookup_done E D Es L s3"
        using s3 that(3,4) i r(2) unfolding lookup_done_def by auto
      with True s3(1) show ?thesis unfolding finish_def by simp
    next
      case False
      have "lookup_done E D Es L s2"
        using lookup_inv_less [OF that(1), of 0] s1(4) that(2-4) i r(2) unfolding lookup_done_def by auto
      then show ?thesis unfolding finish_def using False by (intro exI [of _ s2]) auto
    qed
    have ps: "ls_peer s1 = Some i" "ls_status s1 = xs" using s1(5) Some by (simp_all add: same_rest_def)
    let ?s2 = "s1\<lparr>ls_src := drop_default pp (ls_src s1), ls_dst := drop_default pp (ls_dst s1)\<rparr>"
    have h2: "hits_ok Es ?s2" using s1(6) by (auto simp: hits_ok_def drop_default_def split: if_splits)
    have i1: "lookup_inv E D Es (Suc (4 * nat fd)) L1 s1" "lookup_inv E D Es (Suc (4 * nat fd)) L1 ?s2"
      using s1(3) by simp_all
    have p2: "ls_peer ?s2 = Some i" "ls_status ?s2 = xs" using ps by simp_all
    note f1 = fin [OF i1(1) s1(6) ps] and f2 = fin [OF i1(2) h2 p2]
    have eq: "lookup_rounds (Suc fuel) E bl pp sa ports fd rd safi s = (if fd = 0 \<or> safi2 = SAFI_MPLS_VPN then finish s1
        else if found_both ?s2 \<or> \<not> (is_default pp (ls_src s1) \<or> is_default pp (ls_dst s1)) then finish ?s2
        else case ls_info ?s2 of None \<Rightarrow> finish ?s2
          | Some ri \<Rightarrow> fbind (deref (attrhash (rt_attrs (ls_db ?s2))) (ri_attr ri)) (\<lambda>x. fbind (next_hop_sockaddr x) (\<lambda>sa.
              lookup_rounds fuel E bl pp sa False (fd - 1) rd1 safi2 ?s2)))"
      unfolding finish_def
      by (simp only: lookup_rounds.simps r(1) [unfolded Some] fbind.simps prod.case Let_def option.case fr
          s1(1) [unfolded Some])
    show ?thesis
    proof (cases "fd = 0 \<or> safi2 = SAFI_MPLS_VPN \<or> found_both ?s2
        \<or> \<not> (is_default pp (ls_src s1) \<or> is_default pp (ls_dst s1)) \<or> ls_info ?s2 = None")
      case True
      then show ?thesis unfolding eq using f1 f2 by (auto split: option.split)
    next
      case False
      then obtain ri where ri: "ls_info ?s2 = Some ri" by auto
      with i1(2) have "entry_of Es ri" by (simp add: lookup_inv_def)
      with hops obtain x where x: "heap (attrhash D) (ri_attr ri) = Some x" "fst (at_mp_nexthop x) \<noteq> AF_INET6"
        unfolding hops_v4_def by blast
      have d: "deref (attrhash (rt_attrs (ls_db ?s2))) (ri_attr ri) = Inr x"
        using x(1) i1(2) by (simp add: deref_def lookup_inv_def)
      have "\<exists>sa'. next_hop_sockaddr x = Inr sa'" using x(2) by (simp add: next_hop_sockaddr_def)
      then obtain sa' where sa': "next_hop_sockaddr x = Inr sa'" ..
      have nat: "nat fd = Suc (nat (fd - 1))" "0 \<le> fd - 1" "nat (fd - 1) < fuel" using False Suc.prems(4,5) by auto
      have inv2: "lookup_inv E D Es (4 * Suc (nat (fd - 1)) + 1) L1 ?s2" using i1(2) unfolding nat(1) by simp
      have "status_ok (length (le_peers E)) (ls_status ?s2)" using r(2) p2(2) by simp
      moreover have "safi2 \<in> {SAFI_UNICAST, SAFI_MPLS_LABEL, SAFI_MPLS_VPN}" using s1(2) safi1 by blast
      ultimately obtain s' where s': "lookup_rounds fuel E bl pp sa' False (fd - 1) rd1 safi2 ?s2 = Inr s'" "lookup_done E D Es L1 s'"
        using Suc.IH [OF inv2 h2 _ nat(2,3)] by blast
      have "lookup_done E D Es L s'" using s'(2) s1(4) order.trans unfolding lookup_done_def by blast
      then show ?thesis unfolding eq using False ri d sa' s'(1) by auto
    qed
  qed
qed simp

section \<open>The whole lookup\<close>

lemma srcdst_safe:
  assumes E: "env_ok E" "peers_ok E" and hops: "hops_v4 (rt_attrs (ls_db s)) Es" and pp: "dst_ok pp" "flow_addrs bl pp afi src dst"
    and map: "pp_bta pp = 0 \<and> pp_bta2 pp = 0 \<or> pp_bta_af pp \<noteq> ETHERTYPE_IPV6"
    and ribs: "locked_ribs (le_bms E) L (ls_db s) Es" "spare_locks (4 * Suc (nat (le_follow_default E)) + 1) L Es"
    and st: "status_ok (length (le_peers E)) (ls_status s)"
    and fuel: "0 \<le> le_follow_default E" "nat (le_follow_default E) < fuel"
  shows "\<exists>s'. bgp_srcdst_lookup fuel E bl pp s = Inr s' \<and> lookup_done E (rt_attrs (ls_db s)) Es L s'"
proof -
  have "\<exists>x. exporter E pp = Inr x" using map by (auto simp: exporter_def)
  then obtain sa ports where x: "exporter E pp = Inr (sa, ports)" by auto
  let ?s = "s\<lparr>ls_src := (ls_src s)\<lparr>sd_hit := None\<rparr>, ls_dst := (ls_dst s)\<lparr>sd_hit := None\<rparr>, ls_info := None,
            ls_peer := None, ls_nexthop_info := None\<rparr>"
  have inv: "lookup_inv E (rt_attrs (ls_db s)) Es (4 * Suc (nat (le_follow_default E)) + 1) L ?s"
    using ribs by (simp add: lookup_inv_def)
  have hits: "hits_ok Es ?s" by (simp add: hits_ok_def)
  have st': "status_ok (length (le_peers E)) (ls_status ?s)" using st by simp
  have "SAFI_UNICAST \<in> {SAFI_UNICAST, SAFI_MPLS_LABEL, SAFI_MPLS_VPN}" by simp
  from lookup_rounds_ok [OF E hops pp inv hits st' fuel this] show ?thesis
    using x by (auto simp: bgp_srcdst_lookup_def)
qed

text \<open>One round, when neither the default route nor the next hop is followed.\<close>

lemma srcdst_longest:
  assumes E: "env_ok E" and live: "live_entries (rt_attrs (ls_db s)) Es" and addrs: "flow_addrs bl pp afi src dst"
    and ribs: "locked_ribs (le_bms E) L (ls_db s) Es" "spare_locks 4 L Es"
    and x: "exporter E pp = Inr (sa, ports)"
    and peer: "bgp_lookup_find_bgp_peer (le_cfg E) (le_peers E) sa (ls_status s) (pp_l3_proto pp) ports = Inr (Some i, xs)"
      "fd_ok (le_bms E) (le_peers E ! i)" "all_placed (le_bms E) (le_peers E ! i) Es"
    and once: "le_follow_default E = 0" "le_follow_nexthop E = []"
    and rd: "flow_rd pp rd_zero SAFI_UNICAST = (rd, safi)"
  shows "\<exists>s' L' f g. bgp_srcdst_lookup (Suc fuel) E bl pp s = Inr s' \<and> ls_peer s' = Some i
    \<and> ls_src s' = hit_side ((ls_src s)\<lparr>sd_hit := None\<rparr>) f \<and> ls_dst s' = hit_side ((ls_dst s)\<lparr>sd_hit := None\<rparr>) g
    \<and> best_route (rt_attrs (ls_db s)) Es (flow_match (le_peers E ! i) afi rd None) afi (addr_prefix afi src)
        [safi, SAFI_MPLS_LABEL] f
    \<and> best_route (rt_attrs (ls_db s)) Es (flow_match (le_peers E ! i) afi rd (Some (flow_dst_ip E pp (le_peers E ! i)))) afi
        (addr_prefix afi dst) [safi, SAFI_MPLS_LABEL] g
    \<and> rt_attrs (ls_db s') = rt_attrs (ls_db s) \<and> locked_ribs (le_bms E) L' (ls_db s') Es \<and> L \<le> L'
    \<and> (\<forall>q ri. f = Some (q, ri) \<or> g = Some (q, ri) \<longrightarrow> (\<exists>safi. 0 < L' afi safi (p_bits q)))"
proof -
  let ?peer = "le_peers E ! i"
  let ?s = "s\<lparr>ls_src := (ls_src s)\<lparr>sd_hit := None\<rparr>, ls_dst := (ls_dst s)\<lparr>sd_hit := None\<rparr>, ls_info := None,
            ls_nexthop_info := None, ls_peer := Some i, ls_status := xs\<rparr>"
  have safi: "safi \<in> {SAFI_UNICAST, SAFI_MPLS_LABEL, SAFI_MPLS_VPN}" "safi \<noteq> SAFI_MPLS_LABEL"
    using rd by (auto simp: flow_rd_def bgp_consts split: if_splits)
  then have sr: "searched safi = [safi, SAFI_MPLS_LABEL]" by (simp add: searched_def)
  have inv: "lookup_inv E (rt_attrs (ls_db s)) Es (4 + 0) L ?s" using ribs by (simp add: lookup_inv_def)
  from lookup_passes_ok [OF E live inv addrs peer(2) safi(1), of "flow_dst_ip E pp ?peer" rd] obtain safi' s' L' where
    p: "lookup_passes E bl pp ?peer (flow_dst_ip E pp ?peer) rd safi ?s = Inr (safi', s')"
      "lookup_inv E (rt_attrs (ls_db s)) Es 0 L' s'" "L \<le> L'" "same_rest ?s s'"
    and d: "side_done (rt_attrs (ls_db s)) Es (all_placed (le_bms E) ?peer Es) (flow_match ?peer afi rd None) afi
        (addr_prefix afi src) [safi, SAFI_MPLS_LABEL] L L' (ls_src ?s) (ls_src s')"
      "side_done (rt_attrs (ls_db s)) Es (all_placed (le_bms E) ?peer Es) (flow_match ?peer afi rd (Some (flow_dst_ip E pp ?peer)))
        afi (addr_prefix afi dst) [safi, SAFI_MPLS_LABEL] L L' (ls_dst ?s) (ls_dst s')"
    unfolding sr by auto
  have dn: "\<exists>f. side' = hit_side side f \<and> best_route D Es nm afi q [safi, SAFI_MPLS_LABEL] f
      \<and> (\<forall>q ri. f = Some (q, ri) \<longrightarrow> (\<exists>safi. 0 < L' afi safi (p_bits q)))"
    if "side_done D Es (all_placed (le_bms E) ?peer Es) nm afi q [safi, SAFI_MPLS_LABEL] L L' side side'" for D nm q side side'
  proof -
    from that peer(3) obtain f where "side' = hit_side side f" "best_route D Es nm afi q [safi, SAFI_MPLS_LABEL] f"
      and l: "\<forall>q ri. f = Some (q, ri) \<longrightarrow> (\<exists>safi \<in> set [safi, SAFI_MPLS_LABEL]. L afi safi (p_bits q) < L' afi safi (p_bits q))"
      unfolding side_done_def by blast
    moreover have "\<forall>q ri. f = Some (q, ri) \<longrightarrow> (\<exists>safi. 0 < L' afi safi (p_bits q))"
      using l less_nat_zero_code neq0_conv by metis
    ultimately show ?thesis by blast
  qed
  from dn [OF d(1)] obtain f where f: "ls_src s' = hit_side ((ls_src s)\<lparr>sd_hit := None\<rparr>) f"
    "best_route (rt_attrs (ls_db s)) Es (flow_match ?peer afi rd None) afi (addr_prefix afi src) [safi, SAFI_MPLS_LABEL] f"
    "\<forall>q ri. f = Some (q, ri) \<longrightarrow> (\<exists>safi. 0 < L' afi safi (p_bits q))" by auto
  from dn [OF d(2)] obtain g where g: "ls_dst s' = hit_side ((ls_dst s)\<lparr>sd_hit := None\<rparr>) g"
    "best_route (rt_attrs (ls_db s)) Es (flow_match ?peer afi rd (Some (flow_dst_ip E pp ?peer))) afi (addr_prefix afi dst)
       [safi, SAFI_MPLS_LABEL] g"
    "\<forall>q ri. g = Some (q, ri) \<longrightarrow> (\<exists>safi. 0 < L' afi safi (p_bits q))" by auto
  have "bgp_srcdst_lookup (Suc fuel) E bl pp s = Inr s'"
    using x peer(1) rd p(1) once by (simp add: bgp_srcdst_lookup_def Let_def)
  moreover have "ls_peer s' = Some i" using p(4) by (simp add: same_rest_def)
  moreover have "rt_attrs (ls_db s') = rt_attrs (ls_db s)" "locked_ribs (le_bms E) L' (ls_db s') Es"
    using p(2) by (simp_all add: lookup_inv_def)
  ultimately show ?thesis using p(3) f g by blast
qed

section \<open>From the daemon's database\<close>

lemma db_ok_locked:
  assumes "db_ok cfg bms peer db Es R"
  shows "locked_ribs bms (\<lambda>_ _ _. 0) db Es" "live_entries (rt_attrs db) Es"
proof -
  show "locked_ribs bms (\<lambda>_ _ _. 0) db Es"
    using assms by (simp add: locked_ribs_def db_ok_def stands_with_none)
  show "live_entries (rt_attrs db) Es"
    unfolding live_entries_def
  proof (intro allI impI)
    fix afi safi ks ri
    assume t: "(afi, safi) \<in> tables" and ri: "ri \<in> set (entries Es afi safi ks)"
    have "ri_attr ri \<in># attrs_of (Es afi safi ks)" using ri unfolding attrs_of_def by auto
    then have "ri_attr ri \<in># rib_refs Es" using info_refs [OF assms t] by (rule mset_subset_eqD [rotated])
    moreover have "attr_bal cfg (Some peer) (rt_attrs db, R\<lparr>h_attr := rib_refs Es\<rparr>)" using assms by (simp add: db_ok_def)
    ultimately show "heap (attrhash (rt_attrs db)) (ri_attr ri) \<noteq> None" using attr_held by fastforce
  qed
qed

text \<open>A node that is pinned stays in its table, with or without entries.\<close>

lemma pinned_stays:
  assumes "locked_ribs bms L db Es" "0 < L afi safi ks"
  shows "table_rib (rt_rib db afi safi) ks \<noteq> None" "t_top (rt_rib db afi safi) \<noteq> Tip"
proof -
  have "table_rib (rt_rib db afi safi) = rib_with (L afi safi) (Es afi safi)"
    using assms(1) by (simp add: locked_ribs_def stands_with_def)
  with assms(2) show r: "table_rib (rt_rib db afi safi) ks \<noteq> None" by (simp add: rib_with_def del: total_0)
  show "t_top (rt_rib db afi safi) \<noteq> Tip" using r by auto
qed

section \<open>The peer of an exporter\<close>

lemma sa_addr_cmp_eq:
  assumes "sock_wf (sa_addr sa)" "addr_wf a"
  shows "sa_addr_cmp sa a = 0 \<longleftrightarrow> a = ipv4_mapped_to_ipv4 (sa_addr sa)"
proof -
  let ?m = "replicate 10 0 @ [0xff, 0xff :: u8]"
  have le: "le32 s = le32 t \<longleftrightarrow> s = t" if "length s = 4" "length t = 4" for s t
    using le32_take [of s t] that by simp
  have six: "s = v4_mapped t \<longleftrightarrow> take 12 s = ?m \<and> t = take 4 (drop 12 s)" if "length s = 16" "length t = 4" for s t
  proof
    assume "take 12 s = ?m \<and> t = take 4 (drop 12 s)"
    then have "s = ?m @ t" using append_take_drop_id [of 12 s] that by simp
    then show "s = v4_mapped t" by (simp add: v4_mapped_def)
  qed (use that in \<open>simp add: v4_mapped_def\<close>)
  obtain f s where sa: "sa_addr sa = (f, s)" by (cases "sa_addr sa")
  obtain g t where a: "a = (g, t)" by (cases a)
  have len4: "length (v4_mapped u) = 16" if "length u = 4" for u :: "u8 list" using that by simp
  consider "f = AF_INET" "length s = 4" "g = AF_INET" "length t = 4"
    | "f = AF_INET6" "length s = 16" "g = AF_INET" "length t = 4"
    | "f = AF_INET" "length s = 4" "g = AF_INET6" "length t = 16" "take 12 t \<noteq> ?m"
    | "f = AF_INET6" "length s = 16" "g = AF_INET6" "length t = 16" "take 12 t \<noteq> ?m"
    using assms by (auto simp: addr_wf_def sock_wf_def sa a)
  then show ?thesis
  proof cases
    case 1
    then show ?thesis using le by (auto simp: sa_addr_cmp_def sa a ipv4_mapped_to_ipv4_def AF_INET_def AF_INET6_def ERR_def)
  next
    case 2
    then show ?thesis using six [of s t] ip6_addr_cmp_0 [OF _ len4, of s t]
      by (auto simp: sa_addr_cmp_def sa a ipv4_mapped_to_ipv4_def AF_INET_def AF_INET6_def)
  next
    case 3
    have "t \<noteq> v4_mapped s" using 3(5) by (auto simp: v4_mapped_def)
    then show ?thesis using 3 ip6_addr_cmp_0 [OF len4 _, of s t]
      by (auto simp: sa_addr_cmp_def sa a ipv4_mapped_to_ipv4_def AF_INET_def AF_INET6_def)
  next
    case 4
    then show ?thesis using ip6_addr_cmp_0 [of s t]
      by (auto simp: sa_addr_cmp_def sa a ipv4_mapped_to_ipv4_def AF_INET_def AF_INET6_def)
  qed
qed

text \<open>What the code takes for the session of an exporter: one with the address of the exporter, and when ports are
  compared, with the port of slot \<open>j\<close>; or, unless the check of router ids is disabled, one whose router id is the
  address of the exporter.\<close>

definition exporter_session :: "bgp_config \<Rightarrow> bgp_peer list \<Rightarrow> sockaddr \<Rightarrow> bool \<Rightarrow> nat \<Rightarrow> nat \<Rightarrow> bool" where
  "exporter_session cfg ps sa port j i \<longleftrightarrow> in_slot ps i \<and>
     (bp_addr (ps ! i) = ipv4_mapped_to_ipv4 (sa_addr sa) \<and> (port \<longrightarrow> sa_port_cmp sa (bp_tcp_port (ps ! j)) = 0)
      \<or> \<not> disable_router_id_check cfg \<and> sa_addr_cmp sa (bp_id (ps ! i)) = 0)"

lemma peer_is_session:
  assumes s: "daemon_inv ports s" and sa: "sock_wf (sa_addr sa)" and i: "i < length (dm_peers s)"
  shows "peer_is cfg (dm_peers s) sa port j i \<longleftrightarrow> exporter_session cfg (dm_peers s) sa port j i"
proof -
  let ?p = "dm_peers s ! i"
  have ok: "slot_ok i ?p" using s i by (simp add: daemon_inv_def slots_ok_def)
  show ?thesis
  proof (cases "bp_fd ?p = 0")
    case True
    then have "bp_addr ?p = (0, [])" "bp_id ?p = (0, [])" using ok by (simp_all add: slot_ok_def)
    moreover have "sa_addr_cmp sa (0, []) \<noteq> 0" by (simp add: sa_addr_cmp_def AF_INET_def AF_INET6_def ERR_def)
    ultimately show ?thesis using True by (simp add: peer_is_def exporter_session_def in_slot_def)
  next
    case False
    then have "addr_wf (bp_addr ?p)" using ok by (simp add: slot_ok_def)
    from sa_addr_cmp_eq [OF sa this] show ?thesis using i False
      by (auto simp: peer_is_def exporter_session_def in_slot_def)
  qed
qed

lemma find_slot_first: "find_slot P is = Some i \<Longrightarrow> \<exists>as bs. is = as @ i # bs \<and> (\<forall>k\<in>set as. \<not> P k)"
proof (induction "is")
  case (Cons k ks)
  show ?case
  proof (cases "P k")
    case False
    with Cons obtain as bs where "ks = as @ i # bs" "\<forall>k\<in>set as. \<not> P k" by auto
    with False show ?thesis by (intro exI [of _ "k # as"] exI [of _ bs]) simp
  qed (use Cons.prems in \<open>auto intro: exI [of _ "[]"]\<close>)
qed simp

lemma find_slot_upt:
  assumes "find_slot P [0..<n] = Some i" "k < i"
  shows "\<not> P k"
proof -
  obtain as bs where e: "[0..<n] = as @ i # bs" "\<forall>k\<in>set as. \<not> P k" using find_slot_first [OF assms(1)] by blast
  have n: "length as < n" using arg_cong [OF e(1), of length] by simp
  then have "i = length as" using arg_cong [OF e(1), of "\<lambda>l. l ! length as"] by simp
  moreover have "as = [0..<length as]" using arg_cong [OF e(1), of "take (length as)"] n by (simp add: take_upt)
  ultimately have "k \<in> set as" using assms(2) by (metis atLeastLessThan_iff le0 set_upt)
  then show ?thesis using e(2) by blast
qed

lemma find_peer_exact:
  fixes cfg :: bgp_config and proto :: nat and port :: bool
  assumes s: "daemon_inv ports s" and sa: "sock_wf (sa_addr sa)" and st: "status_ok (length (dm_peers s)) xs"
  defines "j \<equiv> get_peer_idx proto xs"
  defines "is_peer \<equiv> exporter_session cfg (dm_peers s) sa port j"
  shows "\<exists>r xs'. bgp_lookup_find_bgp_peer cfg (dm_peers s) sa xs proto port = Inr (r, xs')
    \<and> status_ok (length (dm_peers s)) xs'
    \<and> (\<forall>i. r = Some i \<longrightarrow> is_peer i \<and> (if j = 0 then \<forall>k<i. \<not> is_peer k else i = j))
    \<and> (r = None \<longrightarrow> get_peer_idx proto xs' = 0 \<and> (if j = 0 then \<forall>i. \<not> is_peer i else \<not> is_peer j))"
proof -
  let ?ps = "dm_peers s"
  have slot: "peer_is cfg ?ps sa port j i \<longleftrightarrow> is_peer i" if "i < length ?ps" for i
    unfolding is_peer_def by (rule peer_is_session [OF s sa that])
  from find_peer_safe [OF st, of cfg sa proto port] obtain r xs' where
    r: "bgp_lookup_find_bgp_peer cfg ?ps sa xs proto port = Inr (r, xs')" "status_ok (length ?ps) xs'"
      "\<forall>i. r = Some i \<longrightarrow> i < length ?ps" by blast
  show ?thesis
  proof (cases "j = 0")
    case True
    then have eq: "(case find_slot (peer_is cfg ?ps sa port j) [0..<length ?ps] of None \<Rightarrow> Inr (None, xs)
        | Some i \<Rightarrow> Inr (Some i, put_peer_idx proto i xs)) = (Inr (r, xs') :: (nat option \<times> xflow_status_entry option) run)"
      using r(1) by (simp add: bgp_lookup_find_bgp_peer_def j_def)
    show ?thesis
    proof (cases "find_slot (peer_is cfg ?ps sa port j) [0..<length ?ps]")
      case None
      have "\<not> is_peer i" for i
        using None slot [of i] by (cases "i < length ?ps") (auto simp: find_slot_None is_peer_def exporter_session_def in_slot_def)
      then show ?thesis using r True eq None by (auto simp: j_def)
    next
      case (Some i)
      have i: "is_peer i" "i < length ?ps" using find_slot_Some [OF Some] slot by auto
      moreover have "\<not> is_peer k" if "k < i" for k using find_slot_upt [OF Some that] slot [of k] i(2) that by simp
      ultimately show ?thesis using r eq Some True by auto
    qed
  next
    case False
    have j: "j < length ?ps" using st False by (auto simp: j_def get_peer_idx_def status_ok_def split: option.splits if_splits)
    have "(if peer_is cfg ?ps sa port j j then Inr (Some j, xs) else Inr (None, put_peer_idx proto 0 xs))
        = (Inr (r, xs') :: (nat option \<times> xflow_status_entry option) run)"
      using r(1) False j unfolding bgp_lookup_find_bgp_peer_def Let_def j_def by simp
    moreover have "get_peer_idx proto (put_peer_idx proto 0 xs) = 0"
      by (auto simp: get_peer_idx_def put_peer_idx_def split: option.splits)
    ultimately show ?thesis using r slot [OF j] False by (auto split: if_splits)
  qed
qed

section \<open>Lookups that miss\<close>

text \<open>A port that a map of exporters names is compared with its octets swapped.\<close>

lemma exporter_port_swapped:
  assumes "pp_bta pp \<noteq> 0" "pp_bta_af pp = ETHERTYPE_IP" "pp_lookup_bgp_port pp = Some 1790"
  shows "\<exists>sa. exporter E pp = Inr (sa, True) \<and> sa_port_cmp sa 1790 \<noteq> 0 \<and> sa_port_cmp sa 65030 = 0"
  using assms by (simp add: exporter_def sa_port_cmp_def ntohs_def u16n_def)

text \<open>Two sessions behind one address: the port of the second is never looked at.\<close>

definition two_peers :: "bgp_peer list" where
  "two_peers = [zero_peer\<lparr>bp_fd := 5, bp_addr := (AF_INET, [192, 0, 2, 1]), bp_tcp_port := 1790\<rparr>,
     zero_peer\<lparr>bp_idx := 1, bp_fd := 6, bp_addr := (AF_INET, [192, 0, 2, 1]), bp_tcp_port := 1791\<rparr>]"

lemma port_of_first_slot:
  assumes "disable_router_id_check cfg" "ntohs (sa_port sa) = 1791" "sa_addr sa = (AF_INET, [192, 0, 2, 1])"
  shows "bgp_lookup_find_bgp_peer cfg two_peers sa None ETHERTYPE_IP True = Inr (None, None)"
  using assms
  by (simp add: bgp_lookup_find_bgp_peer_def get_peer_idx_def peer_is_def two_peers_def sa_port_cmp_def sa_addr_cmp_def)

text \<open>An entry in the second bucket of its peer, which the follower of next hops does not reach.\<close>

definition second_bucket :: misc_db where
  "second_bucket = \<lparr>is_readonly = False, skip_rib = False, has_msglog = False, table_peer_buckets = 1, table_per_peer_buckets = 2,
     table_per_peer_hash = BGP_ASPATH_HASH_PATHID\<rparr>"

definition second_net :: prefix where
  "second_net = \<lparr>p_family = AF_INET, p_len = 8, p_bytes = 10 # replicate 15 0\<rparr>"

definition second_entry :: rt_db where
  "second_entry = \<lparr>rt_attrs = bgp_attr_init 1, rt_rib = \<lambda>afi safi. \<lparr>t_afi = afi, t_safi = safi,
     t_top = Node second_net 1 [[], [\<lparr>ri_peer = 0, ri_attr = 0, ri_extra = None\<rparr>]] Tip Tip, t_count = 1\<rparr>\<rparr>"

lemma next_hop_first_bucket:
  assumes "le_bms E = second_bucket"
  shows "nexthop_entry E pp zero_peer (Some second_net) second_entry = Inr None"
proof -
  have "bgp_route_info_modulo second_bucket zero_peer None None 2 = Inr 0"
    by (simp add: bgp_route_info_modulo_def bgp_route_info_modulo_pathid_def second_bucket_def zero_peer_def)
  moreover have "prefix_match second_net second_net" by code_simp
  then have "get_chain (le_stray E) (rt_rib second_entry afi safi) second_net 0 = Inr []" for afi safi
    by (simp add: get_chain_def second_entry_def goes_on_def)
  ultimately show ?thesis using assms by (simp add: nexthop_entry_def second_bucket_def)
qed

end
