(* ===== verification/SessionRoutes.thy ===== *)
theory SessionRoutes
  imports PeerFacts UpdateFacts
begin

text \<open>
  The routing tables over the life of the sessions: whatever sessions are opened, UPDATE messages read and
  sessions closed, in any order, the tables hold entries of open sessions only, each in the buckets of
  its session.
\<close>

section \<open>Steps\<close>

text \<open>The open sessions by their slot, and the database. A session that is opened takes a free slot; a message
  is one that \<open>update_safe\<close> admits, and the lock counts have room for it.\<close>

definition fresh_session :: "misc_db \<Rightarrow> nat \<Rightarrow> bgp_peer \<Rightarrow> bool" where
  "fresh_session bms i p \<longleftrightarrow> bp_idx p = i \<and> peer_ok (Some p) \<and> fd_ok bms p"

definition good_message :: "bgp_config \<Rightarrow> bgp_peer \<Rightarrow> rt_db \<Rightarrow> u8 list \<Rightarrow> bool" where
  "good_message cfg p db pkt \<longleftrightarrow> is_used (bp_cap_4as p) \<and> (\<exists>wlen alen ulen.
     update_lengths pkt = Inr (Some (wlen, alen, ulen)) \<and> 43 + unat wlen + unat alen + unat ulen \<le> length pkt
     \<and> (\<forall>ret s. msg_attrs cfg p pkt wlen alen (rt_attrs db) = Inr (ret, s)
         \<longrightarrow> plain_section (s_mp_update s) \<and> plain_section (s_mp_withdraw s)))"

definition has_room :: "misc_db \<Rightarrow> rt_db \<Rightarrow> bool" where
  "has_room bms db \<longleftrightarrow> (\<forall>Es. (\<forall>afi safi. stands_for bms (rt_rib db afi safi) (Es afi safi)) \<longrightarrow> room Es 393216)"

inductive rib_step ::
  "bgp_config \<Rightarrow> misc_db \<Rightarrow> u8 \<Rightarrow> (nat \<Rightarrow> bgp_peer option) \<times> rt_db \<Rightarrow> (nat \<Rightarrow> bgp_peer option) \<times> rt_db \<Rightarrow> bool"
  for cfg :: bgp_config and bms :: misc_db and stray :: u8 where
  sess_open: "P i = None \<Longrightarrow> fresh_session bms i p \<Longrightarrow> rib_step cfg bms stray (P, db) (P(i \<mapsto> p), db)"
| sess_update: "P i = Some p \<Longrightarrow> good_message cfg p db pkt \<Longrightarrow> has_room bms db
    \<Longrightarrow> bgp_parse_update_msg cfg bms stray ls p pkt db n = Inr (ret, p', db', n')
    \<Longrightarrow> rib_step cfg bms stray (P, db) (P(i \<mapsto> p'), db')"
| sess_close: "P i = Some p \<Longrightarrow> has_room bms db \<Longrightarrow> bgp_peer_info_delete cfg bms stray p db = Inr db'
    \<Longrightarrow> rib_step cfg bms stray (P, db) (P(i := None), db')"

section \<open>The invariant\<close>

definition entries_of_open :: "(nat \<Rightarrow> bgp_peer option) \<Rightarrow> ribs \<Rightarrow> bool" where
  "entries_of_open P Es \<longleftrightarrow> (\<forall>afi safi ks chain ri. (afi, safi) \<in> set all_tables \<longrightarrow>
     chain \<in> set (Es afi safi ks) \<longrightarrow> ri \<in> set chain \<longrightarrow> P (ri_peer ri) \<noteq> None)"

definition routes_inv :: "bgp_config \<Rightarrow> misc_db \<Rightarrow> (nat \<Rightarrow> bgp_peer option) \<Rightarrow> rt_db \<Rightarrow> ribs \<Rightarrow> bool" where
  "routes_inv cfg bms P db Es \<longleftrightarrow> (\<forall>q. peer_ok (Some q) \<longrightarrow> (\<exists>R. db_ok cfg bms q db Es R))
     \<and> entries_of_open P Es \<and> (\<forall>i p. P i = Some p \<longrightarrow> fresh_session bms i p \<and> all_placed bms p Es)"

lemma db_ok_any:
  assumes "db_ok cfg bms p db Es R" "peer_ok (Some p)" "peer_ok (Some q)"
  shows "db_ok cfg bms q db Es R"
  using assms attr_bal_peer [OF assms(2,3)] by (simp add: db_ok_def)

lemma others_mem:
  assumes "others p info' = others p info" "chain \<in> set info'" "ri \<in> set chain" "foreign p ri"
  shows "\<exists>chain \<in> set info. ri \<in> set chain"
proof -
  have "filter (foreign p) chain \<in> set (others p info')" using assms(2) by (simp add: others_def)
  with assms(1) obtain c where "c \<in> set info" "filter (foreign p) chain = filter (foreign p) c"
    by (auto simp: others_def)
  moreover have "ri \<in> set (filter (foreign p) chain)" using assms(3,4) by simp
  ultimately show ?thesis by auto
qed

lemma others_bucket:
  assumes "others p info' = others p info" "b < length info'"
  shows "b < length info" "filter (foreign p) (info' ! b) = filter (foreign p) (info ! b)"
proof -
  show "b < length info" using assms map_eq_imp_length_eq unfolding others_def by metis
  then show "filter (foreign p) (info' ! b) = filter (foreign p) (info ! b)"
    using arg_cong [OF assms(1), of "\<lambda>l. l ! b"] assms(2) by (simp add: others_def)
qed

lemma placed_others:
  assumes o: "others p info' = others p info" and q: "bp_idx q \<noteq> bp_idx p" and pl: "placed bms q info"
  shows "placed bms q info'"
proof -
  have "list_all (foreign q) (info' ! b)" if "b < length info'" "\<not> own_bucket bms q b" for b
  proof -
    have "list_all (foreign q) (info ! b)" using pl others_bucket(1) [OF o that(1)] that(2) by (auto simp: placed_def)
    moreover have "x \<in> set (info ! b)" if "x \<in> set (info' ! b)" "\<not> foreign q x" for x
    proof -
      have "x \<in> set (filter (foreign p) (info' ! b))" using that q by (simp add: foreign_def)
      then show ?thesis unfolding others_bucket(2) [OF o \<open>b < length info'\<close>] by simp
    qed
    ultimately show ?thesis by (auto simp: list_all_iff)
  qed
  then show ?thesis by (auto simp: placed_def)
qed

lemma placed_same:
  assumes "bp_idx p' = bp_idx p" "bp_fd p' = bp_fd p"
  shows "placed bms p' info = placed bms p info"
proof -
  have "foreign p' = foreign p" using assms(1) by (simp add: foreign_def fun_eq_iff)
  then show ?thesis by (simp add: placed_def own_bucket_def first_bucket_def assms(2))
qed

text \<open>The slot of the peer may change; for all others everything is as before.\<close>

lemma routes_change:
  assumes inv: "routes_inv cfg bms P db Es" and i: "bp_idx p = i"
    and same: "\<And>afi safi ks. (afi, safi) \<in> set all_tables \<Longrightarrow> others p (Es' afi safi ks) = others p (Es afi safi ks)"
    and db: "peer_ok (Some p')" "db_ok cfg bms p' db' Es' R'"
    and x: "x = None \<Longrightarrow> (\<And>afi safi ks. (afi, safi) \<in> set all_tables \<Longrightarrow> Es' afi safi ks = others p (Es afi safi ks))"
      "\<And>q. x = Some q \<Longrightarrow> fresh_session bms i q \<and> all_placed bms q Es'"
  shows "routes_inv cfg bms (P(i := x)) db' Es'"
proof -
  have "entries_of_open (P(i := x)) Es'"
    unfolding entries_of_open_def
  proof (intro allI impI)
    fix afi safi ks chain ri
    assume t: "(afi, safi) \<in> set all_tables" and c: "chain \<in> set (Es' afi safi ks)" "ri \<in> set chain"
    show "(P(i := x)) (ri_peer ri) \<noteq> None"
    proof (cases "foreign p ri")
      case True
      with others_mem [OF same [OF t] c] inv t show ?thesis
        by (auto simp: routes_inv_def entries_of_open_def foreign_def i)
    next
      case False
      moreover have "x \<noteq> None"
      proof
        assume "x = None"
        from x(1) [OF this t, of ks] c False show False by (auto simp: others_def)
      qed
      ultimately show ?thesis by (auto simp: foreign_def i)
    qed
  qed
  moreover have "fresh_session bms j q \<and> all_placed bms q Es'" if "(P(i := x)) j = Some q" for j q
  proof (cases "j = i")
    case False
    with that inv have q: "fresh_session bms j q" "all_placed bms q Es" by (auto simp: routes_inv_def)
    then have "bp_idx q \<noteq> bp_idx p" using False by (simp add: fresh_session_def i)
    with q placed_others same show ?thesis unfolding all_placed_def by blast
  qed (use that x(2) in auto)
  ultimately show ?thesis using db_ok_any [OF db(2,1)] unfolding routes_inv_def by blast
qed

lemma open_placed:
  assumes "entries_of_open P Es" "P (bp_idx p) = None"
  shows "all_placed bms p Es"
  using assms unfolding all_placed_def placed_def entries_of_open_def list_all_iff foreign_def by (metis nth_mem)

lemma routes_start:
  assumes "0 < n"
  shows "routes_inv cfg bms (\<lambda>_. None) \<lparr>rt_attrs = bgp_attr_init n, rt_rib = \<lambda>afi safi. bgp_table_init afi safi\<rparr>
    (\<lambda>_ _ _. empty_info bms)"
  using db_ok_init [OF assms, of cfg bms] unfolding routes_inv_def entries_of_open_def by (auto simp: empty_info_def)

lemma room_lock: "has_room bms db \<Longrightarrow> \<forall>afi safi. stands_for bms (rt_rib db afi safi) (Es afi safi) \<Longrightarrow> room Es 393216"
  by (simp add: has_room_def)

lemma room_space: "room Es 393216 \<Longrightarrow> \<forall>afi safi. lock_space (Es afi safi)"
proof -
  assume "room Es 393216"
  then have "total (Es afi safi ks) + 393216 + 2 < 2 ^ 32" for afi safi ks by (simp add: room_def)
  then have "Suc (total (Es afi safi ks)) < 2 ^ 32" for afi safi ks
    by (rule le_less_trans [of _ "total (Es afi safi ks) + 393216 + 2", rotated]) simp
  then show ?thesis by (simp add: lock_space_def)
qed

lemma step_inv:
  assumes conf: "conf_ok bms" and step: "rib_step cfg bms stray S S'" and inv: "\<exists>Es. routes_inv cfg bms (fst S) (snd S) Es"
  shows "\<exists>Es. routes_inv cfg bms (fst S') (snd S') Es"
  using step inv
proof cases
  case (sess_open P i p db)
  with inv obtain Es where inv: "routes_inv cfg bms P db Es" by auto
  from sess_open have p: "fresh_session bms i p" and free: "P (bp_idx p) = None" by (auto simp: fresh_session_def)
  have "all_placed bms p Es" using open_placed [of P Es p bms] free inv by (simp add: routes_inv_def)
  with inv p sess_open(3) have "routes_inv cfg bms (P(i \<mapsto> p)) db Es"
    by (auto simp: routes_inv_def entries_of_open_def)
  with sess_open show ?thesis by auto
next
  case (sess_update P i p db pkt ls n ret p' db' n')
  with inv obtain Es where inv: "routes_inv cfg bms P db Es" by auto
  with sess_update have p: "bp_idx p = i" "peer_ok (Some p)" "fd_ok bms p" "all_placed bms p Es"
    by (auto simp: routes_inv_def fresh_session_def)
  with inv obtain R where db: "db_ok cfg bms p db Es R" by (auto simp: routes_inv_def)
  have room: "room Es 393216" using room_lock [OF sess_update(5)] db by (simp add: db_ok_def)
  from sess_update(4) update_safe [OF db room conf p(2), of pkt _ _ _ stray ls n] sess_update(6) obtain Es' R' where
    new: "peer_ok (Some p')" "db_ok cfg bms p' db' Es' R'" "own_change bms p Es Es'" "bp_idx p' = bp_idx p" "bp_fd p' = bp_fd p"
    by (auto simp: good_message_def runs_iff)
  have "all_placed bms p' Es'"
    using p(3,4) new(3) by (simp add: all_placed_def own_change_def placed_same [OF new(4,5)])
  with new p have "routes_inv cfg bms (P(i \<mapsto> p')) db' Es'"
    by (intro routes_change [OF inv p(1) _ new(1,2)]) (auto simp: own_change_def fresh_session_def fd_ok_def)
  with sess_update show ?thesis by auto
next
  case (sess_close P i p db db')
  with inv obtain Es where inv: "routes_inv cfg bms P db Es" by auto
  with sess_close have p: "bp_idx p = i" "peer_ok (Some p)" "fd_ok bms p" "all_placed bms p Es"
    by (auto simp: routes_inv_def fresh_session_def)
  with inv obtain R where db: "db_ok cfg bms p db Es R" by (auto simp: routes_inv_def)
  have "room Es 393216" using room_lock [OF sess_close(4)] db by (simp add: db_ok_def)
  note lock = room_space [OF this]
  from peer_info_delete_ok [OF db lock p(2) _ _ p(3,4), of stray] conf sess_close(5)
  have "db_ok cfg bms p db' (without p Es) R" by (auto simp: conf_ok_def)
  then have "routes_inv cfg bms (P(i := None)) db' (without p Es)"
    by (intro routes_change [OF inv p(1) _ p(2)]) (auto simp: without_def others_def)
  with sess_close show ?thesis by auto
qed

section \<open>All that can happen\<close>

definition rib_start :: "nat \<Rightarrow> (nat \<Rightarrow> bgp_peer option) \<times> rt_db" where
  "rib_start n = (\<lambda>_. None, \<lparr>rt_attrs = bgp_attr_init n, rt_rib = \<lambda>afi safi. bgp_table_init afi safi\<rparr>)"

lemma reach_routes:
  assumes "(rib_step cfg bms stray)\<^sup>*\<^sup>* (rib_start n) (P, db)" "conf_ok bms" "0 < n"
  obtains Es where "routes_inv cfg bms P db Es"
proof -
  have "\<exists>Es. routes_inv cfg bms (fst S) (snd S) Es" if "(rib_step cfg bms stray)\<^sup>*\<^sup>* (rib_start n) S" for S
    using that
  proof induction
    case base
    show ?case using routes_start [OF assms(3)] by (auto simp: rib_start_def)
  next
    case (step S S')
    then show ?case using step_inv [OF assms(2)] by blast
  qed
  from this [OF assms(1)] that show ?thesis by auto
qed

text \<open>The entries in the trees.\<close>

lemma table_entries:
  assumes "stands_for bms table E" "table_rib table ks = Some (l, info)"
  shows "info = E ks"
  using assms by (auto simp: stands_for_def rib_of_def split: if_splits)

lemma no_entries_empty:
  assumes s: "stands_for bms table E" and none: "\<And>ks. total (E ks) = 0"
  shows "t_top table = Tip \<and> t_count table = 0"
proof -
  from s have ok: "patricia bms [] (t_top table)" "t_count table = num_nodes (t_top table)"
    by (auto simp: stands_for_def table_ok_def)
  have "rib (t_top table) = Map.empty" using s none by (auto simp: stands_for_def rib_of_def fun_eq_iff)
  with card_dom_rib [OF ok(1)] have "held (t_top table) = 0" by simp
  with held_pos [OF ok(1)] have "t_top table = Tip" by auto
  with ok(2) show ?thesis by simp
qed

lemma routes_stand:
  assumes "routes_inv cfg bms P db Es"
  shows "stands_for bms (rt_rib db afi safi) (Es afi safi)"
proof -
  have "peer_ok (Some (zero_peer\<lparr>bp_type := FUNC_TYPE_BGP\<rparr>))" by (simp add: FUNC_TYPE_BGP_def FUNC_TYPE_MAX_def)
  with assms obtain R where "db_ok cfg bms (zero_peer\<lparr>bp_type := FUNC_TYPE_BGP\<rparr>) db Es R"
    unfolding routes_inv_def by blast
  then show ?thesis by (simp add: db_ok_def)
qed

lemma closed_tables_empty:
  assumes inv: "routes_inv cfg bms (\<lambda>_. None) db Es" and t: "(afi, safi) \<in> set all_tables"
  shows "t_top (rt_rib db afi safi) = Tip \<and> t_count (rt_rib db afi safi) = 0"
proof (rule no_entries_empty)
  show "stands_for bms (rt_rib db afi safi) (Es afi safi)" by (rule routes_stand [OF inv])
  show "total (Es afi safi ks) = 0" for ks
    using inv t unfolding total_0 routes_inv_def entries_of_open_def by (metis equals0I set_empty)
qed

text \<open>All entries of a tree, those of a node before those below it.\<close>

fun tree_entries :: "'i bgp_node \<Rightarrow> 'i list" where
  "tree_entries Tip = []"
| "tree_entries (Node q lk info l r) = concat info @ tree_entries l @ tree_entries r"

lemma tree_entries_rib:
  "patricia bms xs t \<Longrightarrow> ri \<in> set (tree_entries t)
    \<Longrightarrow> \<exists>ks lk info. rib t ks = Some (lk, info) \<and> ri \<in> set (concat info) \<and> Sublist.prefix xs ks"
proof (induction t arbitrary: xs)
  case (Node q lk info l r)
  note pat = Node.prems(1) [simplified]
  have below: "\<exists>ks n chains. rib (Node q lk info l r) ks = Some (n, chains) \<and> ri \<in> set (concat chains) \<and> Sublist.prefix xs ks"
    if t: "rib t ks = Some (lk', info')" "ri \<in> set (concat info')" "Sublist.prefix (p_bits q @ [b]) ks"
      and tb: "t = (if b then r else l)" for t ks lk' info' b
  proof -
    have "ks \<noteq> p_bits q" using t(3) by (auto simp: Sublist.prefix_def)
    moreover have "Sublist.prefix (p_bits q @ [c]) ks \<longleftrightarrow> c = b" for c
      using t(3) by (auto simp: Sublist.prefix_def)
    ultimately have "rib (Node q lk info l r) ks = rib t ks" using tb by simp
    moreover have "Sublist.prefix xs ks"
      using t(3) pat prefix_order.trans [of xs "p_bits q" ks] append_prefixD by blast
    ultimately show ?thesis using t(1,2) by (intro exI [of _ ks] exI [of _ lk'] exI [of _ info']) (simp del: rib.simps)
  qed
  from Node.prems(2) consider "ri \<in> set (concat info)" | "ri \<in> set (tree_entries l)" | "ri \<in> set (tree_entries r)"
    by auto
  then show ?case
  proof cases
    case 1
    then have "lk \<noteq> 0" using pat by (auto simp: empty_info_def)
    with 1 pat show ?thesis by (intro exI [of _ "p_bits q"] exI [of _ lk] exI [of _ info]) simp
  next
    case 2
    from Node.IH(1) [OF _ this] pat below [where b = False] show ?thesis by (metis (full_types))
  next
    case 3
    from Node.IH(2) [OF _ this] pat below [where b = True] show ?thesis by (metis (full_types))
  qed
qed simp

lemma table_of_open:
  assumes inv: "routes_inv cfg bms P db Es" and t: "(afi, safi) \<in> set all_tables"
  shows "list_all (\<lambda>ri. P (ri_peer ri) \<noteq> None) (tree_entries (t_top (rt_rib db afi safi)))"
  unfolding list_all_iff
proof
  fix ri assume ri: "ri \<in> set (tree_entries (t_top (rt_rib db afi safi)))"
  have "stands_for bms (rt_rib db afi safi) (Es afi safi)" by (rule routes_stand [OF inv])
  moreover from this have "patricia bms [] (t_top (rt_rib db afi safi))" by (simp add: stands_for_def table_ok_def)
  from tree_entries_rib [OF this ri] obtain ks lk info where
    "table_rib (rt_rib db afi safi) ks = Some (lk, info)" "ri \<in> set (concat info)" by blast
  moreover have "entries_of_open P Es" using inv by (simp add: routes_inv_def)
  ultimately show "P (ri_peer ri) \<noteq> None"
    using table_entries [of bms "rt_rib db afi safi" "Es afi safi" ks lk info] t by (auto simp: entries_of_open_def)
qed

section \<open>No step can fault\<close>

lemma close_runs:
  assumes inv: "routes_inv cfg bms P db Es" and conf: "conf_ok bms" and room: "has_room bms db" and p: "P i = Some p"
  shows "\<exists>db'. bgp_peer_info_delete cfg bms stray p db = Inr db' \<and> rib_step cfg bms stray (P, db) (P(i := None), db')"
proof -
  from inv p have ok: "peer_ok (Some p)" "fd_ok bms p" "all_placed bms p Es"
    by (auto simp: routes_inv_def fresh_session_def)
  with inv obtain R where db: "db_ok cfg bms p db Es R" by (auto simp: routes_inv_def)
  have "room Es 393216" using room_lock [OF room] db by (simp add: db_ok_def)
  from peer_info_delete_ok [OF db room_space [OF this] ok(1) _ _ ok(2,3), of stray] conf
  show ?thesis using sess_close [where P = P and i = i, OF p room] by (auto simp: conf_ok_def)
qed

lemma update_runs:
  assumes inv: "routes_inv cfg bms P db Es" and conf: "conf_ok bms" and room: "has_room bms db" and p: "P i = Some p"
    and msg: "good_message cfg p db pkt"
  shows "\<exists>ret p' db' n'. bgp_parse_update_msg cfg bms stray ls p pkt db n = Inr (ret, p', db', n')
    \<and> rib_step cfg bms stray (P, db) (P(i \<mapsto> p'), db')"
proof -
  from inv p have ok: "peer_ok (Some p)" by (auto simp: routes_inv_def fresh_session_def)
  with inv obtain R where db: "db_ok cfg bms p db Es R" by (auto simp: routes_inv_def)
  have "room Es 393216" using room_lock [OF room] db by (simp add: db_ok_def)
  from update_safe [OF db this conf ok, of pkt _ _ _ stray ls n] msg obtain ret p' db' n' where
    u: "bgp_parse_update_msg cfg bms stray ls p pkt db n = Inr (ret, p', db', n')"
    by (auto simp: good_message_def runs_iff)
  with sess_update [where P = P and i = i, OF p msg room u] show ?thesis by blast
qed

end
