(* ===== verification/RpkiData.thy ===== *)
theory RpkiData
  imports RpkiLookup
begin

text \<open>
  The database of payloads as a map from families and networks to lists of payloads, and what adding,
  withdrawing, looking up and emptying do to it.
\<close>

section \<open>Locks of lookups\<close>

text \<open>\<open>L\<close> counts the locks that lookups left on the nodes. There must be room for more of them.\<close>

definition spare_with :: "nat \<Rightarrow> (bool list \<Rightarrow> nat) \<Rightarrow> bgp_info entries \<Rightarrow> bool" where
  "spare_with n L E \<longleftrightarrow> (\<forall>ks. L ks + total (E ks) + n < 2 ^ 32)"

lemma spare_withD: "spare_with n L E \<Longrightarrow> L ks + total (E ks) + n < 2 ^ 32"
  by (simp add: spare_with_def)

lemma spare_weaken: "spare_with n L E \<Longrightarrow> m \<le> n \<Longrightarrow> spare_with m L E"
  unfolding spare_with_def by (meson add_le_cancel_left le_less_trans)

lemma spare_less: "spare_with n L E \<Longrightarrow> total info \<le> total (E ks) \<Longrightarrow> spare_with n L (E(ks := info))"
  unfolding spare_with_def
proof
  fix k
  assume "\<forall>ks. L ks + total (E ks) + n < 2 ^ 32" "total info \<le> total (E ks)"
  then show "L k + total ((E(ks := info)) k) + n < 2 ^ 32" by (cases "k = ks") (auto dest: spec [of _ ks])
qed

section \<open>Withdrawing over the lengths\<close>

definition nets :: "prefix \<Rightarrow> nat set \<Rightarrow> bool list set" where
  "nets p ns = (\<lambda>n. take n (bits (p_bytes p))) ` ns"

definition withdraw_in :: "bool list set \<Rightarrow> u32 \<Rightarrow> (bool list \<Rightarrow> (u32 \<times> u8) list) \<Rightarrow> bool list \<Rightarrow> (u32 \<times> u8) list" where
  "withdraw_in S asn V = (\<lambda>ks. if ks \<in> S then remove_origin asn (V ks) else V ks)"

lemma withdraw_in_none [simp]: "withdraw_in {} asn V = V"
  by (simp add: withdraw_in_def)

lemma withdraw_in_step:
  "ks \<notin> S \<Longrightarrow> withdraw_in S asn (V(ks := remove_origin asn (V ks))) = withdraw_in (insert ks S) asn V"
  by (auto simp: withdraw_in_def fun_eq_iff)

lemma nets_step:
  assumes "prefix_ok (p\<lparr>p_len := p_len p + n\<rparr>)"
  shows "nets p {p_len p ..< p_len p + Suc n} = insert (p_bits p) (nets p {Suc (p_len p) ..< p_len p + Suc n})"
    "p_bits p \<notin> nets p {Suc (p_len p) ..< p_len p + Suc n}"
proof -
  show "nets p {p_len p ..< p_len p + Suc n} = insert (p_bits p) (nets p {Suc (p_len p) ..< p_len p + Suc n})"
  proof -
    have "{p_len p ..< p_len p + Suc n} = insert (p_len p) {Suc (p_len p) ..< p_len p + Suc n}" by auto
    then show ?thesis by (simp only: nets_def p_bits_def image_insert)
  qed
  have "length (bits (p_bytes p)) = 128" "p_len p + n \<le> 128" using assms by (auto simp: prefix_ok_def)
  then show "p_bits p \<notin> nets p {Suc (p_len p) ..< p_len p + Suc n}"
    by (auto simp: nets_def p_bits_def dest: arg_cong [where f = length])
qed

lemma delete_lens_ok:
  assumes "table_inv cfg X D L tbl E" "\<forall>m. p_len p \<le> m \<and> m < p_len p + n \<longrightarrow> prefix_wf (p\<lparr>p_len := m\<rparr>)"
    and "spare_with 2 L E"
  shows "\<exists>D' tbl' E'. roa_delete_lens cfg stray rpki_peer n p asn D tbl = Inr (D', tbl')
    \<and> table_inv cfg X D' L tbl' E' \<and> vrps_same D D' X
    \<and> view D' E' = withdraw_in (nets p {p_len p ..< p_len p + n}) asn (view D E)"
  using assms
proof (induction n arbitrary: p D tbl E)
  case 0
  then show ?case by (auto simp: nets_def vrps_same_def)
next
  case (Suc n)
  have wf: "prefix_wf p" using Suc.prems(2) [rule_format, of "p_len p"] by simp
  have "Suc (L (p_bits p) + total (E (p_bits p))) < 2 ^ 32" using spare_withD [OF Suc.prems(3), of "p_bits p"] by simp
  from table_delete_ok [OF Suc.prems(1) wf this, of stray asn] obtain D1 t1 ch where
    1: "roa_delete_at cfg stray rpki_peer p asn D tbl = Inr (D1, t1)" "length ch \<le> length (E (p_bits p) ! 0)"
      "table_inv cfg X D1 L t1 (E(p_bits p := [ch]))" "vrps_same D D1 X"
      "view D1 (E(p_bits p := [ch])) = (view D E)(p_bits p := remove_origin asn (view D E (p_bits p)))"
    by blast
  let ?E = "E(p_bits p := [ch])" and ?p = "p\<lparr>p_len := p_len p + 1\<rparr>"
  have "length ch \<le> total (E (p_bits p))"
    using 1(2) one_bucket [OF table_invD(1) [OF Suc.prems(1)], of "p_bits p"] by (metis total_one)
  then have room: "spare_with 2 L ?E" by (intro spare_less [OF Suc.prems(3)]) simp
  have "\<forall>m. p_len ?p \<le> m \<and> m < p_len ?p + n \<longrightarrow> prefix_wf (?p\<lparr>p_len := m\<rparr>)"
    using Suc.prems(2) by auto
  from Suc.IH [OF 1(3) this room] obtain D2 t2 E2 where
    2: "roa_delete_lens cfg stray rpki_peer n ?p asn D1 t1 = Inr (D2, t2)" "table_inv cfg X D2 L t2 E2"
      "vrps_same D1 D2 X" "view D2 E2 = withdraw_in (nets ?p {p_len ?p ..< p_len ?p + n}) asn (view D1 ?E)"
    by blast
  have "prefix_wf (p\<lparr>p_len := p_len p + n\<rparr>)" using Suc.prems(2) [rule_format, of "p_len p + n"] by simp
  then have "prefix_ok (p\<lparr>p_len := p_len p + n\<rparr>)" by simp
  note N = nets_step [OF this]
  have "nets ?p {p_len ?p ..< p_len ?p + n} = nets p {Suc (p_len p) ..< p_len p + Suc n}" by (simp add: nets_def)
  then have "view D2 E2 = withdraw_in (nets p {p_len p ..< p_len p + Suc n}) asn (view D E)"
    unfolding 2(4) 1(5) N(1) by (simp only: withdraw_in_step [OF N(2)])
  moreover have "vrps_same D D2 X" using 1(4) 2(3) by (simp add: vrps_same_def)
  ultimately show ?case using 1(1) 2(1,2) by auto
qed

section \<open>Emptying a table\<close>

lemma purge_all: "\<forall>ri \<in> set ch. ri_peer ri = bp_idx peer \<Longrightarrow> purge peer 0 1 [ch] = [[]]"
  by (simp add: purge_def foreign_def filter_empty_conv)

lemma delete_entries_from:
  "delete_entries cfg bms stray peer k b ris i D table = Inr (D', table') \<Longrightarrow> paths_ok (ashash D) \<Longrightarrow>
    paths_from (ashash D) (ashash D')"
proof (induction ris arbitrary: i D table)
  case (Cons ri ris)
  show ?case
  proof (cases "ri_peer ri = bp_idx peer")
    case True
    with Cons.prems(1) obtain D1 t1 where d: "bgp_info_delete cfg bms stray peer D table k b i = Inr (D1, t1)"
      "delete_entries cfg bms stray peer k b ris i D1 t1 = Inr (D', table')" by (auto simp: fault_simps)
    from info_delete_from [OF d(1) Cons.prems(2)] have f: "paths_from (ashash D) (ashash D1)" .
    from Cons.IH [OF d(2) paths_from_ok [OF f]] f show ?thesis by (rule paths_from_trans [rotated])
  qed (use Cons in auto)
qed (simp add: paths_from_refl)

lemma delete_buckets_from:
  "delete_buckets cfg bms stray peer k b n D table = Inr (D', table') \<Longrightarrow> paths_ok (ashash D) \<Longrightarrow>
    paths_from (ashash D) (ashash D')"
proof (induction n arbitrary: b D table)
  case (Suc n)
  from Suc.prems(1) obtain ch D1 t1 where d: "delete_entries cfg bms stray peer k b ch 0 D table = Inr (D1, t1)"
    "delete_buckets cfg bms stray peer k (Suc b) n D1 t1 = Inr (D', table')" by (auto simp: fault_simps)
  from delete_entries_from [OF d(1) Suc.prems(2)] have f: "paths_from (ashash D) (ashash D1)" .
  from Suc.IH [OF d(2) paths_from_ok [OF f]] f show ?case by (rule paths_from_trans [rotated])
qed (simp add: paths_from_refl)

lemma delete_walk_from:
  "delete_walk cfg bms stray peer fuel D table k = Inr (D', table') \<Longrightarrow> paths_ok (ashash D) \<Longrightarrow>
    paths_from (ashash D) (ashash D')"
proof (induction fuel arbitrary: D table k)
  case 0
  then show ?case by (cases k) (simp_all add: paths_from_refl)
next
  case (Suc fuel)
  show ?case
  proof (cases k)
    case (Some q)
    with Suc.prems(1) obtain b D1 t1 t2 nx where d:
      "delete_buckets cfg bms stray peer q b (table_per_peer_buckets bms) D table = Inr (D1, t1)"
      "delete_walk cfg bms stray peer fuel D1 t2 nx = Inr (D', table')" by (auto simp: fault_simps)
    from delete_buckets_from [OF d(1) Suc.prems(2)] have f: "paths_from (ashash D) (ashash D1)" .
    from Suc.IH [OF d(2) paths_from_ok [OF f]] f show ?thesis by (rule paths_from_trans [rotated])
  qed (use Suc.prems in \<open>simp add: paths_from_refl\<close>)
qed

lemma table_info_delete_from:
  "bgp_table_info_delete cfg bms stray peer D table = Inr (D', table') \<Longrightarrow> paths_ok (ashash D) \<Longrightarrow>
    paths_from (ashash D) (ashash D')"
  by (auto simp: bgp_table_info_delete_def paths_from_refl intro: delete_walk_from split: option.splits prod.splits)

lemma no_entry_refs [simp]: "entry_refs (\<lambda>_. [[]]) = {#}"
  by (simp add: entry_refs_def)

lemma table_empty_ok:
  assumes inv: "table_inv cfg X D L tbl E" and room: "spare_with 1 L E"
  shows "\<exists>D' tbl'. bgp_table_info_delete cfg rpki_misc_db stray rpki_peer D tbl = Inr (D', tbl')
    \<and> bgp_table_free (Some tbl') = Inr () \<and> attr_bal cfg (Some rpki_peer) (D', no_refs\<lparr>h_attr := X\<rparr>)
    \<and> paths_ok (ashash D') \<and> vrps_same D D' X"
proof -
  note I = table_invD [OF inv]
  have r: "lock_space_with L E" using room by (simp add: lock_space_with_def spare_with_def)
  have all: "purged rpki_peer 0 1 E = (\<lambda>_. [[]])"
  proof
    show "purged rpki_peer 0 1 E ks = [[]]" for ks
      unfolding purged_def using I(5) by (subst one_bucket [OF I(1)]) (blast intro: purge_all)
  qed
  from table_info_delete_with [OF I(1,2) r rpki_peer_ok(1) _ _ rpki_misc_simps(5), of stray, unfolded all] obtain D' t' where
    d: "bgp_table_info_delete cfg rpki_misc_db stray rpki_peer D tbl = Inr (D', t')"
      "stands_with rpki_misc_db L t' (\<lambda>_. [[]])" "attr_bal cfg (Some rpki_peer) (D', no_refs\<lparr>h_attr := X\<rparr>)"
      "\<forall>c. c \<in># X \<longrightarrow> attr_at D' c = attr_at D c"
    by auto
  have f: "paths_from (ashash D) (ashash D')" by (rule table_info_delete_from [OF d(1) I(3)])
  have "vrps_same D D' X" using d(4) by (intro vrps_sameI [OF I(2) d(3) _ _ _ I(3) f]) auto
  moreover have "bgp_table_free (Some t') = Inr ()"
    using d(2) by (simp add: bgp_table_free_def free_nodes_count stands_with_def table_ok_def)
  ultimately show ?thesis using d(1,3) paths_from_ok [OF f] by blast
qed

end
