(* ===== verification/RpkiFacts.thy ===== *)
theory RpkiFacts
  imports RpkiData
begin

text \<open>
  The database as a whole: the map \<open>V\<close> from families and networks to lists of payloads that it stands
  for, and the locks \<open>L\<close> that lookups left in it.
\<close>

section \<open>The map of payloads\<close>

type_synonym vrps = "nat \<Rightarrow> bool list \<Rightarrow> (u32 \<times> u8) list"
type_synonym lookup_locks = "nat \<Rightarrow> bool list \<Rightarrow> nat"

definition no_vrps :: vrps where "no_vrps = (\<lambda>_ _. [])"

text \<open>\<open>Z\<close> are the references of the entries, \<open>Y\<close> those from elsewhere.\<close>

definition holds_with ::
  "bgp_config \<Rightarrow> nat multiset \<Rightarrow> nat multiset \<Rightarrow> roa_db \<Rightarrow> lookup_locks \<Rightarrow> vrps \<Rightarrow> bool" where
  "holds_with cfg Y Z db L V \<longleftrightarrow> (\<exists>E4 E6. Z = entry_refs E4 + entry_refs E6
     \<and> table_inv cfg (Y + entry_refs E6) (ro_attrs db) (L AFI_IP) (ro_v4 db) E4
     \<and> table_inv cfg (Y + entry_refs E4) (ro_attrs db) (L AFI_IP6) (ro_v6 db) E6
     \<and> V = no_vrps(AFI_IP := view (ro_attrs db) E4, AFI_IP6 := view (ro_attrs db) E6))"

definition holds_roas :: "bgp_config \<Rightarrow> roa_db \<Rightarrow> lookup_locks \<Rightarrow> vrps \<Rightarrow> bool" where
  "holds_roas cfg db L V \<longleftrightarrow> (\<exists>Z. holds_with cfg {#} Z db L V)"

definition spare :: "nat \<Rightarrow> lookup_locks \<Rightarrow> vrps \<Rightarrow> bool" where
  "spare n L V \<longleftrightarrow> (\<forall>afi \<in> {AFI_IP, AFI_IP6}. \<forall>ks. L afi ks + length (V afi ks) + n < 2 ^ 32)"

lemma length_view: "stands_with rpki_misc_db L tbl E \<Longrightarrow> length (view D E ks) = total (E ks)"
  by (metis length_map one_bucket total_one view_def vrps_of_def)

lemma spare_table: "spare n L V \<Longrightarrow> afi \<in> {AFI_IP, AFI_IP6} \<Longrightarrow> stands_with rpki_misc_db (L afi) tbl E \<Longrightarrow> V afi = view D E \<Longrightarrow> spare_with n (L afi) E"
  unfolding spare_def spare_with_def using length_view by metis

lemma afis [simp]: "AFI_IP \<noteq> AFI_IP6" "AFI_IP6 \<noteq> AFI_IP"
  by (simp_all add: bgp_consts)

text \<open>When the payloads of its entries stay, a table stays as it is, whatever other references there are.\<close>

lemma other_table:
  assumes "table_inv cfg X D L tbl E" "attr_bal cfg (Some rpki_peer) (D', no_refs\<lparr>h_attr := X' + entry_refs E\<rparr>)"
    and "paths_ok (ashash D')" "vrps_same D D' (entry_refs E)" "\<forall>a. a \<in># X' \<longrightarrow> vrp_at D' a \<noteq> None"
  shows "table_inv cfg X' D' L tbl E" "view D' E = view D E"
proof -
  note I = table_invD [OF assms(1)]
  show "view D' E = view D E" using view_same [OF I(1) assms(4)] by blast
  have "vrp_at D' a \<noteq> None" if "a \<in># X' + entry_refs E" for a
    using that assms(4,5) I(4) [of a] by (auto simp: vrps_same_def)
  then show "table_inv cfg X' D' L tbl E"
    using I(1,5) assms(2,3) by (auto simp: table_inv_def)
qed

lemma table_inv_pair:
  assumes "table_inv cfg (Y + entry_refs E2) D L tbl E" "table_inv cfg X2 D2 L2 tbl2 E2"
    and "vrps_same D2 D (Y + entry_refs E2)"
  shows "table_inv cfg (Y + entry_refs E) D L2 tbl2 E2" "view D E2 = view D2 E2"
proof -
  note I = table_invD [OF assms(1)]
  have "attr_bal cfg (Some rpki_peer) (D, no_refs\<lparr>h_attr := (Y + entry_refs E) + entry_refs E2\<rparr>)"
    using I(2) by (simp add: ac_simps)
  note O = other_table [OF assms(2) this I(3)]
  show "table_inv cfg (Y + entry_refs E) D L2 tbl2 E2" "view D E2 = view D2 E2"
    using O vrps_same_sub [OF assms(3), of "entry_refs E2"] I(4) by auto
qed

text \<open>One table after the other: what is shown of a table holds of the database.\<close>

lemma roa_frame:
  assumes h: "holds_with cfg Y Z db L V" and tbl: "roa_table afi db = Some tbl"
  obtains X E where "table_inv cfg X (ro_attrs db) (L afi) tbl E" "view (ro_attrs db) E = V afi" "Y \<subseteq># X"
    "\<And>D' l' tbl' E'. table_inv cfg X D' l' tbl' E' \<Longrightarrow> vrps_same (ro_attrs db) D' X \<Longrightarrow>
       \<exists>Z'. holds_with cfg Y Z' (put_roa_table afi tbl' (db\<lparr>ro_attrs := D'\<rparr>)) (L(afi := l')) (V(afi := view D' E'))"
proof -
  from h obtain E4 E6 where i: "table_inv cfg (Y + entry_refs E6) (ro_attrs db) (L AFI_IP) (ro_v4 db) E4"
      "table_inv cfg (Y + entry_refs E4) (ro_attrs db) (L AFI_IP6) (ro_v6 db) E6"
      "V = no_vrps(AFI_IP := view (ro_attrs db) E4, AFI_IP6 := view (ro_attrs db) E6)"
    by (auto simp: holds_with_def)
  from tbl consider "afi = AFI_IP" "tbl = ro_v4 db" | "afi = AFI_IP6" "tbl = ro_v6 db"
    by (auto simp: roa_table_def split: if_splits)
  then show ?thesis
  proof cases
    case 1
    show ?thesis
    proof (rule that [of "Y + entry_refs E6" E4])
      fix D' l' tbl' E'
      assume a: "table_inv cfg (Y + entry_refs E6) D' l' tbl' E'" "vrps_same (ro_attrs db) D' (Y + entry_refs E6)"
      note p = table_inv_pair [OF a(1) i(2) a(2)]
      show "\<exists>Z'. holds_with cfg Y Z' (put_roa_table afi tbl' (db\<lparr>ro_attrs := D'\<rparr>)) (L(afi := l')) (V(afi := view D' E'))"
        unfolding holds_with_def using a(1) p 1 i(3)
        by (intro exI [of _ E'] exI [of _ E6] exI) (auto simp: put_roa_table_def fun_eq_iff)
    qed (use 1 i in auto)
  next
    case 2
    show ?thesis
    proof (rule that [of "Y + entry_refs E4" E6])
      fix D' l' tbl' E'
      assume a: "table_inv cfg (Y + entry_refs E4) D' l' tbl' E'" "vrps_same (ro_attrs db) D' (Y + entry_refs E4)"
      note p = table_inv_pair [OF a(1) i(1) a(2)]
      show "\<exists>Z'. holds_with cfg Y Z' (put_roa_table afi tbl' (db\<lparr>ro_attrs := D'\<rparr>)) (L(afi := l')) (V(afi := view D' E'))"
        unfolding holds_with_def using a(1) p 2 i(3)
        by (intro exI [of _ E4] exI [of _ E'] exI) (auto simp: put_roa_table_def fun_eq_iff)
    qed (use 2 i in auto)
  qed
qed

text \<open>All the tables, with other references around them.\<close>

lemma holds_withD:
  assumes "holds_with cfg Y Z db L V"
  shows "attr_bal cfg (Some rpki_peer) (ro_attrs db, no_refs\<lparr>h_attr := Y + Z\<rparr>)" "paths_ok (ashash (ro_attrs db))"
    "\<forall>a. a \<in># Y + Z \<longrightarrow> vrp_at (ro_attrs db) a \<noteq> None"
  using assms by (auto simp: holds_with_def table_inv_def ac_simps)

lemma holds_other:
  assumes h: "holds_with cfg Y Z db L V" and D': "attr_bal cfg (Some rpki_peer) (D', no_refs\<lparr>h_attr := Y' + Z\<rparr>)"
    and P: "paths_ok (ashash D')" and same: "vrps_same (ro_attrs db) D' Z" and Y': "\<forall>a. a \<in># Y' \<longrightarrow> vrp_at D' a \<noteq> None"
  shows "holds_with cfg Y' Z (db\<lparr>ro_attrs := D'\<rparr>) L V"
proof -
  from h obtain E4 E6 where i: "Z = entry_refs E4 + entry_refs E6"
      "table_inv cfg (Y + entry_refs E6) (ro_attrs db) (L AFI_IP) (ro_v4 db) E4"
      "table_inv cfg (Y + entry_refs E4) (ro_attrs db) (L AFI_IP6) (ro_v6 db) E6"
      "V = no_vrps(AFI_IP := view (ro_attrs db) E4, AFI_IP6 := view (ro_attrs db) E6)"
    by (auto simp: holds_with_def)
  have bal: "attr_bal cfg (Some rpki_peer) (D', no_refs\<lparr>h_attr := (Y' + entry_refs E6) + entry_refs E4\<rparr>)"
    "attr_bal cfg (Some rpki_peer) (D', no_refs\<lparr>h_attr := (Y' + entry_refs E4) + entry_refs E6\<rparr>)"
    using D' by (simp_all add: i(1) ac_simps)
  have s: "vrps_same (ro_attrs db) D' (entry_refs E4)" "vrps_same (ro_attrs db) D' (entry_refs E6)"
    using vrps_same_sub [OF same] i(1) by auto
  have "\<forall>a. a \<in># Y' + Z \<longrightarrow> vrp_at D' a \<noteq> None"
    using Y' same holds_withD(3) [OF h] by (auto simp: vrps_same_def)
  then have v: "\<forall>a. a \<in># Y' + entry_refs E6 \<longrightarrow> vrp_at D' a \<noteq> None" "\<forall>a. a \<in># Y' + entry_refs E4 \<longrightarrow> vrp_at D' a \<noteq> None"
    by (auto simp: i(1))
  show ?thesis
    unfolding holds_with_def
    using other_table [OF i(2) bal(1) P s(1) v(1)] other_table [OF i(3) bal(2) P s(2) v(2)] i(1,4)
    by (intro exI [of _ E4] exI [of _ E6]) simp
qed

lemma ro_attrs_put [simp]: "ro_attrs (put_roa_table afi tbl db) = ro_attrs db"
  by (simp add: put_roa_table_def)

lemma prefix_family:
  assumes "prefix_wf p"
  obtains afi tbl where "afi = family2afi (p_family p)" "roa_table afi db = Some tbl" "afi \<in> {AFI_IP, AFI_IP6}"
  using assms by (auto simp: prefix_wf_def family2afi_def roa_table_def AF_INET_def AF_INET6_def)

text \<open>The room there is, read off the tables.\<close>

definition roa_room :: "roa_db \<Rightarrow> bool" where
  "roa_room db \<longleftrightarrow> (\<forall>tbl \<in> {ro_v4 db, ro_v6 db}. \<forall>ks lk info. table_rib tbl ks = Some (lk, info) \<longrightarrow> unat lk + 2 < 2 ^ 32)"

lemma table_room:
  assumes s: "stands_with rpki_misc_db L tbl E" and r: "\<forall>ks lk info. table_rib tbl ks = Some (lk, info) \<longrightarrow> unat lk + 2 < 2 ^ 32"
  shows "L ks + total (E ks) + 2 < 2 ^ 32"
proof (cases "L ks + total (E ks) = 0")
  case False
  then have "table_rib tbl ks = Some (u32n (L ks + total (E ks)), E ks)" using s by (simp add: stands_with_def rib_with_def)
  moreover have "L ks + total (E ks) < 2 ^ 32" using stands_with_entries [OF s] by (simp add: entries_with_def)
  ultimately show ?thesis using r by fastforce
qed (simp del: total_0)

lemma roa_room_spare: "holds_with cfg Y Z db L V \<Longrightarrow> roa_room db \<Longrightarrow> spare 2 L V"
  unfolding holds_with_def roa_room_def
  by (auto simp: spare_def length_view [OF table_invD(1)] simp del: total_0
      intro!: table_room [OF table_invD(1), simplified])

section \<open>Adding and withdrawing\<close>

definition announce :: "nat \<Rightarrow> bool list \<Rightarrow> u32 \<times> u8 \<Rightarrow> vrps \<Rightarrow> vrps" where
  "announce afi ks v V = V(afi := (V afi)(ks := v # V afi ks))"

definition withdraw :: "nat \<Rightarrow> bool list set \<Rightarrow> u32 \<Rightarrow> vrps \<Rightarrow> vrps" where
  "withdraw afi S asn V = V(afi := withdraw_in S asn (V afi))"

lemma info_add_ok:
  assumes h: "holds_with cfg Y Z db L V" and p: "prefix_wf p" and room: "spare 2 L V"
  shows "\<exists>db' Z'. rpki_info_add cfg stray rpki_peer p asn maxlen db = Inr (SUCCESS, db')
    \<and> vrps_same (ro_attrs db) (ro_attrs db') Y
    \<and> holds_with cfg Y Z' db' L (announce (family2afi (p_family p)) (p_bits p) (asn, maxlen) V)"
proof -
  from prefix_family [OF p, of db] obtain afi tbl where
    t: "afi = family2afi (p_family p)" "roa_table afi db = Some tbl" "afi \<in> {AFI_IP, AFI_IP6}" by blast
  from roa_frame [OF h t(2)] obtain X E where
    x: "table_inv cfg X (ro_attrs db) (L afi) tbl E" "view (ro_attrs db) E = V afi" "Y \<subseteq># X" and
    frame: "\<And>D' l' tbl' E'. table_inv cfg X D' l' tbl' E' \<Longrightarrow> vrps_same (ro_attrs db) D' X \<Longrightarrow>
       \<exists>Z'. holds_with cfg Y Z' (put_roa_table afi tbl' (db\<lparr>ro_attrs := D'\<rparr>)) (L(afi := l')) (V(afi := view D' E'))"
    by blast
  have "spare_with 2 (L afi) E" using spare_table [OF room t(3) table_invD(1) [OF x(1)] x(2) [symmetric]] .
  then have "Suc (Suc (L afi (p_bits p) + total (E (p_bits p)))) < 2 ^ 32" using spare_withD [of 2 "L afi" E "p_bits p"] by simp
  from table_add_ok [OF x(1) p this, of stray asn maxlen] obtain tbl1 k a D' tbl2 tbl3 E' where
    a: "roa_node stray tbl p = Inr (tbl1, k)" "roa_attr cfg rpki_peer (ro_attrs db) asn maxlen = Inr (a, D')"
      "bgp_info_add rpki_misc_db stray tbl1 k \<lparr>ri_peer = bp_idx rpki_peer, ri_attr = a, ri_extra = None\<rparr> 0 = Inr tbl2"
      "bgp_unlock_node rpki_misc_db stray tbl2 k = Inr tbl3"
      "table_inv cfg X D' (L afi) tbl3 E'" "vrps_same (ro_attrs db) D' (X + entry_refs E)"
      "view D' E' = (view (ro_attrs db) E)(p_bits p := (asn, maxlen) # view (ro_attrs db) E (p_bits p))"
    by blast
  have "\<exists>Z'. holds_with cfg Y Z' (put_roa_table afi tbl3 (db\<lparr>ro_attrs := D'\<rparr>)) L (announce afi (p_bits p) (asn, maxlen) V)"
    using frame [OF a(5) vrps_same_sub [OF a(6)]] a(7) x(2) by (simp add: announce_def)
  moreover have "vrps_same (ro_attrs db) D' Y"
    using vrps_same_sub [OF vrps_same_sub [OF a(6), of X] x(3)] by simp
  ultimately show ?thesis using a(1-4) t by (simp add: rpki_info_add_def)
qed

text \<open>The networks of a withdrawal: all the lengths from that of the prefix to the maximum length.\<close>

definition withdrawn_nets :: "prefix \<Rightarrow> u8 \<Rightarrow> bool list set" where
  "withdrawn_nets p maxlen = nets p {p_len p .. max (p_len p) (unat maxlen)}"

lemma info_delete_roa_ok:
  assumes h: "holds_with cfg Y Z db L V" and p: "prefix_wf (p\<lparr>p_len := max (p_len p) (unat maxlen)\<rparr>)" and room: "spare 2 L V"
  shows "\<exists>db' Z'. rpki_info_delete cfg stray rpki_peer p asn maxlen db = Inr (SUCCESS, db')
    \<and> vrps_same (ro_attrs db) (ro_attrs db') Y
    \<and> holds_with cfg Y Z' db' L (withdraw (family2afi (p_family p)) (withdrawn_nets p maxlen) asn V)"
proof -
  let ?n = "Suc (max (p_len p) (unat maxlen)) - p_len p"
  have wf: "prefix_wf (p\<lparr>p_len := m\<rparr>)" if "m < p_len p + ?n" for m
    using p that by (auto simp: prefix_wf_def prefix_ok_def)
  have "prefix_wf p" using wf [of "p_len p"] by simp
  from prefix_family [OF this, of db] obtain afi tbl where
    t: "afi = family2afi (p_family p)" "roa_table afi db = Some tbl" "afi \<in> {AFI_IP, AFI_IP6}" by blast
  from roa_frame [OF h t(2)] obtain X E where
    x: "table_inv cfg X (ro_attrs db) (L afi) tbl E" "view (ro_attrs db) E = V afi" "Y \<subseteq># X" and
    frame: "\<And>D' l' tbl' E'. table_inv cfg X D' l' tbl' E' \<Longrightarrow> vrps_same (ro_attrs db) D' X \<Longrightarrow>
       \<exists>Z'. holds_with cfg Y Z' (put_roa_table afi tbl' (db\<lparr>ro_attrs := D'\<rparr>)) (L(afi := l')) (V(afi := view D' E'))"
    by blast
  have r: "spare_with 2 (L afi) E" using spare_table [OF room t(3) table_invD(1) [OF x(1)] x(2) [symmetric]] .
  have all: "\<forall>m. p_len p \<le> m \<and> m < p_len p + ?n \<longrightarrow> prefix_wf (p\<lparr>p_len := m\<rparr>)" using wf by blast
  from delete_lens_ok [OF x(1) all r, of stray asn] obtain D' tbl' E' where
    d: "roa_delete_lens cfg stray rpki_peer ?n p asn (ro_attrs db) tbl = Inr (D', tbl')"
      "table_inv cfg X D' (L afi) tbl' E'" "vrps_same (ro_attrs db) D' X"
      "view D' E' = withdraw_in (nets p {p_len p ..< p_len p + ?n}) asn (view (ro_attrs db) E)"
    by blast
  have "{p_len p ..< p_len p + ?n} = {p_len p .. max (p_len p) (unat maxlen)}" by auto
  then have "\<exists>Z'. holds_with cfg Y Z' (put_roa_table afi tbl' (db\<lparr>ro_attrs := D'\<rparr>)) L (withdraw afi (withdrawn_nets p maxlen) asn V)"
    using frame [OF d(2,3)] d(4) x(2) by (simp add: withdraw_def withdrawn_nets_def)
  moreover have "vrps_same (ro_attrs db) D' Y" by (rule vrps_same_sub [OF d(3) x(3)])
  ultimately show ?thesis using d(1) t by (simp add: rpki_info_delete_def)
qed

section \<open>Lookups\<close>

lemma prefix_lookup_ok:
  assumes h: "holds_with cfg Y Z db L V" and p: "prefix_wf p" and room: "spare 1 L V"
    and afi: "afi = family2afi (p_family p)" and status: "status = origin_validation (V afi) p asn"
  shows "\<exists>db' ks Z'. rpki_prefix_lookup stray (Some db) p asn = Inr (status, Some db') \<and> Sublist.prefix ks (p_bits p)
    \<and> holds_with cfg Y Z' db' (if status = ROA_STATUS_VALID then L(afi := (L afi)(ks := Suc (L afi ks))) else L) V"
proof -
  from prefix_family [OF p, of db] obtain tbl where
    t: "roa_table afi db = Some tbl" "afi \<in> {AFI_IP, AFI_IP6}" by (auto simp: afi)
  from roa_frame [OF h t(1)] obtain X E where
    x: "table_inv cfg X (ro_attrs db) (L afi) tbl E" "view (ro_attrs db) E = V afi" "Y \<subseteq># X" and
    frame: "\<And>D' l' tbl' E'. table_inv cfg X D' l' tbl' E' \<Longrightarrow> vrps_same (ro_attrs db) D' X \<Longrightarrow>
       \<exists>Z'. holds_with cfg Y Z' (put_roa_table afi tbl' (db\<lparr>ro_attrs := D'\<rparr>)) (L(afi := l')) (V(afi := view D' E'))"
    by blast
  have "spare_with 1 (L afi) E" using spare_table [OF room t(2) table_invD(1) [OF x(1)] x(2) [symmetric]] .
  then have "Suc (L afi ks + total (E ks)) < 2 ^ 32" for ks using spare_withD [of 1 "L afi" E ks] by simp
  from table_lookup_ok [OF x(1) p this, of stray asn] obtain tbl' found l' ks where
    r: "bgp_node_match_s rpki_misc_db stray tbl p None (rpki_prefix_lookup_node_match_cmp (ro_attrs db) p asn)
      ROA_STATUS_UNKNOWN False = Inr (tbl', found, None, status)" "table_inv cfg X (ro_attrs db) l' tbl' E"
      "Sublist.prefix ks (p_bits p)" "l' = (if status = ROA_STATUS_VALID then (L afi)(ks := Suc (L afi ks)) else L afi)"
    by (auto simp: status x(2))
  obtain Z' where "holds_with cfg Y Z' (put_roa_table afi tbl' db) (L(afi := l')) V"
    using frame [OF r(2)] x(2) by (auto simp: vrps_same_def)
  moreover have "L(afi := l') = (if status = ROA_STATUS_VALID then L(afi := (L afi)(ks := Suc (L afi ks))) else L)"
    using r(4) by simp
  moreover have "rpki_prefix_lookup stray (Some db) p asn = Inr (status, Some (put_roa_table afi tbl' db))"
    using t r(1) by (auto simp: rpki_prefix_lookup_def Let_def afi [symmetric] roa_table_def put_roa_table_def)
  ultimately show ?thesis by (intro exI [of _ "put_roa_table afi tbl' db"] exI [of _ ks] exI [of _ Z']) (simp add: r(3))
qed

section \<open>Emptying and filling\<close>

definition no_locks :: lookup_locks where "no_locks = (\<lambda>_ _. 0)"

lemma spare_start [simp]: "n < 2 ^ 32 \<Longrightarrow> spare n no_locks no_vrps"
  by (simp add: spare_def no_locks_def no_vrps_def)

lemma holds_start:
  assumes "attr_bal cfg (Some rpki_peer) (D, no_refs\<lparr>h_attr := Y\<rparr>)" "paths_ok (ashash D)"
    and "\<forall>a. a \<in># Y \<longrightarrow> vrp_at D a \<noteq> None"
  shows "holds_with cfg Y {#} (roa_tables_init D) no_locks no_vrps"
proof -
  have s: "stands_with rpki_misc_db (\<lambda>_. 0) (bgp_table_init afi safi :: bgp_info bgp_table) (\<lambda>_. [[]])" for afi safi
    by (simp add: stands_with_def table_init_ok rib_with_def fun_eq_iff)
  show ?thesis
    unfolding holds_with_def using assms s
    by (intro exI [of _ "\<lambda>_. [[]]"])
      (auto simp: table_inv_def roa_tables_init_def no_locks_def no_vrps_def view_def vrps_of_def fun_eq_iff)
qed

lemma paths_ok_init [simp]: "paths_ok (ashash (bgp_attr_init n))"
  by (simp add: paths_ok_def bgp_attr_init_def aspath_init_def pool_init_def)

lemma roa_db_init_ok: "holds_with cfg {#} {#} roa_db_init no_locks no_vrps"
proof -
  have "attr_bal cfg (Some rpki_peer) (bgp_attr_init HASHTABSIZE, no_refs\<lparr>h_attr := {#}\<rparr>)"
    using attr_bal_init [of HASHTABSIZE cfg "Some rpki_peer"] by (simp add: no_refs_def HASHTABSIZE_def)
  from holds_start [OF this] show ?thesis by (simp add: roa_db_init_def roa_tables_init_def)
qed

lemma ribs_free_ok:
  assumes h: "holds_with cfg Y Z db L V" and room: "spare 1 L V"
  shows "\<exists>D'. rpki_ribs_free cfg stray rpki_peer db = Inr D'
    \<and> attr_bal cfg (Some rpki_peer) (D', no_refs\<lparr>h_attr := Y\<rparr>) \<and> paths_ok (ashash D') \<and> vrps_same (ro_attrs db) D' Y"
proof -
  from h obtain E4 E6 where i: "table_inv cfg (Y + entry_refs E6) (ro_attrs db) (L AFI_IP) (ro_v4 db) E4"
      "table_inv cfg (Y + entry_refs E4) (ro_attrs db) (L AFI_IP6) (ro_v6 db) E6"
      "V = no_vrps(AFI_IP := view (ro_attrs db) E4, AFI_IP6 := view (ro_attrs db) E6)"
    by (auto simp: holds_with_def)
  have r4: "spare_with 1 (L AFI_IP) E4" by (rule spare_table [OF room _ table_invD(1) [OF i(1)]]) (simp_all add: i(3))
  have r6: "spare_with 1 (L AFI_IP6) E6" by (rule spare_table [OF room _ table_invD(1) [OF i(2)]]) (simp_all add: i(3))
  from table_empty_ok [OF i(1) r4, of stray] obtain D1 t1 where
    1: "bgp_table_info_delete cfg rpki_misc_db stray rpki_peer (ro_attrs db) (ro_v4 db) = Inr (D1, t1)"
      "bgp_table_free (Some t1) = Inr ()" "attr_bal cfg (Some rpki_peer) (D1, no_refs\<lparr>h_attr := Y + entry_refs E6\<rparr>)"
      "paths_ok (ashash D1)" "vrps_same (ro_attrs db) D1 (Y + entry_refs E6)" by blast
  have "\<forall>a. a \<in># Y \<longrightarrow> vrp_at D1 a \<noteq> None"
    using 1(5) table_invD(4) [OF i(2)] by (auto simp: vrps_same_def)
  from other_table(1) [OF i(2) 1(3,4) vrps_same_sub [OF 1(5)] this]
  have "table_inv cfg Y D1 (L AFI_IP6) (ro_v6 db) E6" by simp
  from table_empty_ok [OF this r6, of stray] obtain D2 t2 where
    2: "bgp_table_info_delete cfg rpki_misc_db stray rpki_peer D1 (ro_v6 db) = Inr (D2, t2)"
      "bgp_table_free (Some t2) = Inr ()" "attr_bal cfg (Some rpki_peer) (D2, no_refs\<lparr>h_attr := Y\<rparr>)"
      "paths_ok (ashash D2)" "vrps_same D1 D2 Y" by blast
  have "vrps_same (ro_attrs db) D2 Y" using 1(5) 2(5) by (simp add: vrps_same_def)
  then show ?thesis using 1(1,2) 2(1-4) by (simp add: rpki_ribs_free_def)
qed

lemma ribs_reset_ok:
  assumes "holds_with cfg {#} Z db L V" "spare 1 L V"
  shows "\<exists>db'. rpki_ribs_reset cfg stray rpki_peer db = Inr db' \<and> holds_with cfg {#} {#} db' no_locks no_vrps"
  using ribs_free_ok [OF assms, of stray] holds_start [of cfg _ "{#}"] by (fastforce simp: rpki_ribs_reset_def)

text \<open>The payloads that a list of elements gives, in order.\<close>

fun roas_read ::
  "(string \<Rightarrow> u8 list option) \<Rightarrow> (string \<Rightarrow> u8 list option) \<Rightarrow> bool \<Rightarrow> json list \<Rightarrow> (prefix \<times> u32 \<times> u8) list" where
  "roas_read aton pton errno [] = []"
| "roas_read aton pton errno (j # js) =
     (case roa_of_json aton pton errno j of
        (None, errno) \<Rightarrow> roas_read aton pton errno js
      | (Some v, errno) \<Rightarrow> v # roas_read aton pton errno js)"

definition announce_prefix :: "prefix \<times> u32 \<times> u8 \<Rightarrow> vrps \<Rightarrow> vrps" where
  "announce_prefix = (\<lambda>(p, v). announce (family2afi (p_family p)) (p_bits p) v)"

text \<open>What \<open>inet_aton\<close> and \<open>inet_pton\<close> give has four and sixteen octets.\<close>

definition inet_ok :: "(string \<Rightarrow> u8 list option) \<Rightarrow> (string \<Rightarrow> u8 list option) \<Rightarrow> bool" where
  "inet_ok aton pton \<longleftrightarrow> (\<forall>s bs. aton s = Some bs \<longrightarrow> length bs = 4) \<and> (\<forall>s bs. pton s = Some bs \<longrightarrow> length bs = 16)"

lemma str2prefix_wf:
  assumes "inet_ok aton pton" "str2prefix aton pton s p = (True, p')" "length (p_bytes p) = 16"
  shows "prefix_wf p'"
  using assms
  by (auto simp: str2prefix_def str2prefix_ipv4_def str2prefix_ipv6_def inet_ok_def prefix_wf_def prefix_ok_def Let_def
      split: option.splits prod.splits if_splits bool.splits)

lemma roas_read_wf:
  assumes "inet_ok aton pton"
  shows "v \<in> set (roas_read aton pton errno js) \<Longrightarrow> prefix_wf (fst v)"
proof (induction js arbitrary: errno)
  case (Cons j js)
  have "prefix_wf (fst u)" if "roa_of_json aton pton errno j = (Some u, e)" for u e
    using that str2prefix_wf [OF assms]
    by (auto simp: roa_of_json_def prefix_new_def split: option.splits json.splits prod.splits bool.splits)
  then show ?case using Cons by (cases "roa_of_json aton pton errno j") (auto split: option.splits)
qed simp

lemma announce_spare: "spare (Suc n) L V \<Longrightarrow> spare n L (announce afi ks v V)"
  unfolding spare_def announce_def
proof (intro ballI allI)
  fix a k
  assume "\<forall>afi \<in> {AFI_IP, AFI_IP6}. \<forall>ks. L afi ks + length (V afi ks) + Suc n < 2 ^ 32" "a \<in> {AFI_IP, AFI_IP6}"
  then have "L a k + length (V a k) + Suc n < 2 ^ 32" by blast
  then show "L a k + length ((V(afi := (V afi)(ks := v # V afi ks))) a k) + n < 2 ^ 32"
    by (cases "a = afi"; cases "k = ks") auto
qed

lemma spare_mono: "spare n L V \<Longrightarrow> m \<le> n \<Longrightarrow> spare m L V"
  unfolding spare_def by (meson add_le_cancel_left le_less_trans)

lemma load_roas_ok:
  assumes "inet_ok aton pton" "holds_with cfg Y Z db L V" "spare (length js + 2) L V"
  shows "\<exists>db' Z'. load_roas cfg stray aton pton errno js db = Inr db' \<and> vrps_same (ro_attrs db) (ro_attrs db') Y
    \<and> holds_with cfg Y Z' db' L (fold announce_prefix (roas_read aton pton errno js) V)"
  using assms(2,3)
proof (induction js arbitrary: errno db V Z)
  case Nil
  then show ?case by (auto simp: vrps_same_def)
next
  case (Cons j js)
  obtain r errno' where r: "roa_of_json aton pton errno j = (r, errno')" by (cases "roa_of_json aton pton errno j")
  show ?case
  proof (cases r)
    case None
    have "spare (length js + 2) L V" using spare_mono [OF Cons.prems(2)] by simp
    with Cons.IH [OF Cons.prems(1), of errno'] None r show ?thesis by simp
  next
    case (Some v)
    obtain p asn maxlen where v: "v = (p, asn, maxlen)" by (cases v)
    have "prefix_wf p" using roas_read_wf [OF assms(1), of v errno "j # js"] r Some v by simp
    from info_add_ok [OF Cons.prems(1) this spare_mono [OF Cons.prems(2)], of stray asn maxlen] obtain db1 Z1 where
      1: "rpki_info_add cfg stray rpki_peer p asn maxlen db = Inr (SUCCESS, db1)"
        "vrps_same (ro_attrs db) (ro_attrs db1) Y" "holds_with cfg Y Z1 db1 L (announce_prefix v V)"
      by (auto simp: announce_prefix_def v)
    have "spare (length js + 2) L (announce_prefix v V)"
      using announce_spare Cons.prems(2) by (simp add: announce_prefix_def v)
    from Cons.IH [OF 1(3) this, of errno'] 1 r Some v show ?thesis by (auto simp: vrps_same_def)
  qed
qed

section \<open>The file\<close>

definition file_roas :: "json option \<Rightarrow> json list option" where
  "file_roas file = (case file of
     Some (JObject ms) \<Rightarrow> (case map_of ms ''roas'' of Some (JArray js) \<Rightarrow> Some js | _ \<Rightarrow> None)
   | _ \<Rightarrow> None)"

lemma file_load_cases:
  "rpki_roas_file_load cfg stray aton pton errno file db =
     (case file_roas file of
        None \<Rightarrow> Inr (ERR, db)
      | Some js \<Rightarrow> fbind (load_roas cfg stray aton pton errno js db) (\<lambda>db. Inr (SUCCESS, db)))"
  by (auto simp: rpki_roas_file_load_def file_roas_def split: option.splits json.splits)

lemma file_load_ok:
  assumes "inet_ok aton pton" "holds_with cfg Y Z db no_locks no_vrps"
    and small: "\<forall>js. file_roas file = Some js \<longrightarrow> length js + 2 < 2 ^ 32"
  shows "\<exists>ret db' Z'. rpki_roas_file_load cfg stray aton pton errno file db = Inr (ret, db')
    \<and> vrps_same (ro_attrs db) (ro_attrs db') Y
    \<and> (case file_roas file of
         None \<Rightarrow> ret = ERR \<and> db' = db \<and> Z' = Z
       | Some js \<Rightarrow> ret = SUCCESS
           \<and> holds_with cfg Y Z' db' no_locks (fold announce_prefix (roas_read aton pton errno js) no_vrps))"
proof (cases "file_roas file")
  case None
  then show ?thesis by (simp add: file_load_cases vrps_same_def)
next
  case (Some js)
  from load_roas_ok [OF assms(1,2) spare_start [OF small [rule_format, OF Some]], of stray errno] Some
  show ?thesis by (auto simp: file_load_cases)
qed

lemma file_reload_ok:
  assumes io: "inet_ok aton pton" and h: "holds_with cfg {#} Z db L V" and room: "spare 1 L V"
    and small: "\<forall>js. file_roas file = Some js \<longrightarrow> length js + 2 < 2 ^ 32"
  shows "\<exists>db' Z'. rpki_roas_file_reload cfg stray aton pton errno configured file db = Inr db'
    \<and> (case if configured then file_roas file else None of
         None \<Rightarrow> holds_with cfg {#} Z' db' L V
       | Some js \<Rightarrow> holds_with cfg {#} Z' db' no_locks (fold announce_prefix (roas_read aton pton errno js) no_vrps))"
proof (cases configured)
  case False
  then show ?thesis using h by (auto simp: rpki_roas_file_reload_def)
next
  case True
  let ?D = "ro_attrs db" and ?new = "roa_tables_init (ro_attrs db)"
  have new_D: "ro_attrs ?new = ?D" by (simp add: roa_tables_init_def)
  have "attr_bal cfg (Some rpki_peer) (?D, no_refs\<lparr>h_attr := Z\<rparr>)" "\<forall>a. a \<in># Z \<longrightarrow> vrp_at ?D a \<noteq> None"
    using holds_withD(1,3) [OF h] by simp_all
  note new = holds_start [OF this(1) holds_withD(2) [OF h] this(2)]
  from file_load_ok [OF io new small, of stray errno] obtain ret new' Z' where
    1: "rpki_roas_file_load cfg stray aton pton errno file ?new = Inr (ret, new')" "vrps_same ?D (ro_attrs new') Z"
      "case file_roas file of None \<Rightarrow> ret = ERR \<and> new' = ?new \<and> Z' = {#}
       | Some js \<Rightarrow> ret = SUCCESS
           \<and> holds_with cfg Z Z' new' no_locks (fold announce_prefix (roas_read aton pton errno js) no_vrps)"
    by (auto simp: new_D)
  show ?thesis
  proof (cases "file_roas file")
    case None
    then have n: "ret = ERR" "new' = ?new" using 1(3) by simp_all
    from ribs_free_ok [OF new, of stray] obtain D' where
      2: "rpki_ribs_free cfg stray rpki_peer ?new = Inr D'" "attr_bal cfg (Some rpki_peer) (D', no_refs\<lparr>h_attr := {#} + Z\<rparr>)"
        "paths_ok (ashash D')" "vrps_same ?D D' Z" by (auto simp: new_D)
    have "holds_with cfg {#} Z (db\<lparr>ro_attrs := D'\<rparr>) L V" by (rule holds_other [OF h 2(2-4)]) simp
    then show ?thesis using 1(1) 2(1) None n True by (auto simp: rpki_roas_file_reload_def ERR_def)
  next
    case (Some js)
    then have s: "ret = SUCCESS"
      "holds_with cfg Z Z' new' no_locks (fold announce_prefix (roas_read aton pton errno js) no_vrps)"
      using 1(3) by simp_all
    have "attr_bal cfg (Some rpki_peer) (ro_attrs new', no_refs\<lparr>h_attr := Z' + Z\<rparr>)"
      using holds_withD(1) [OF s(2)] by (simp add: add.commute)
    from holds_other [OF h this holds_withD(2) [OF s(2)] 1(2)] holds_withD(3) [OF s(2)]
    have "holds_with cfg Z' Z (db\<lparr>ro_attrs := ro_attrs new'\<rparr>) L V" by auto
    from ribs_free_ok [OF this room, of stray] obtain D' where
      2: "rpki_ribs_free cfg stray rpki_peer (db\<lparr>ro_attrs := ro_attrs new'\<rparr>) = Inr D'"
        "attr_bal cfg (Some rpki_peer) (D', no_refs\<lparr>h_attr := {#} + Z'\<rparr>)" "paths_ok (ashash D')"
        "vrps_same (ro_attrs new') D' Z'" by auto
    have "holds_with cfg {#} Z' (new'\<lparr>ro_attrs := D'\<rparr>) no_locks (fold announce_prefix (roas_read aton pton errno js) no_vrps)"
      by (rule holds_other [OF s(2) 2(2-4)]) simp
    then show ?thesis using 1(1) 2(1) Some s(1) True by (auto simp: rpki_roas_file_reload_def SUCCESS_def)
  qed
qed

section \<open>Vectors\<close>

text \<open>The states of the levels of a vector, the most specific one first, and what is made of them.\<close>

definition vector_status :: "u8 list \<Rightarrow> u8" where
  "vector_status rs =
     (case dropWhile (\<lambda>s. s = ROA_STATUS_INVALID) rs of
        [] \<Rightarrow> if rs = [] then ROA_STATUS_UNKNOWN else ROA_STATUS_INVALID
      | r # _ \<Rightarrow>
          if hd rs \<noteq> ROA_STATUS_INVALID then r
          else if r = ROA_STATUS_VALID then ROA_STATUS_OVERLAP_VALID else ROA_STATUS_OVERLAP_UNKNOWN)"

definition route_status :: "(bgp_info \<Rightarrow> (u32 \<times> u32) run) \<Rightarrow> vrps \<Rightarrow> prefix \<times> bgp_info \<Rightarrow> u8" where
  "route_status origin V = (\<lambda>(p, info). case origin info of
     Inl _ \<Rightarrow> ROA_STATUS_UNKNOWN
   | Inr (last_as, myas) \<Rightarrow>
       origin_validation (V (family2afi (p_family p))) p (if last_as = 0 then myas else last_as))"

lemma origin_validation_cases:
  "origin_validation V p asn \<in> {ROA_STATUS_UNKNOWN, ROA_STATUS_INVALID, ROA_STATUS_VALID}"
  by (simp add: origin_validation_def)

lemma vector_levels_ok:
  assumes "holds_with cfg Y Z db L V" "spare (length vs) L V" "\<forall>(p, info) \<in> set vs. prefix_wf p \<and> (\<exists>a. origin info = Inr a)"
  defines "st \<equiv> dropWhile (\<lambda>s. s = ROA_STATUS_INVALID) (map (route_status origin V) vs)"
  shows "\<exists>db' L' Z'. vector_levels origin stray vs level roa (Some db)
      = Inr (if st = [] then if vs = [] then roa else ROA_STATUS_INVALID else hd st,
          level + (if st = [] then length vs else Suc (length vs - length st)), Some db')
    \<and> holds_with cfg Y Z' db' L' V"
  using assms(1-3) unfolding st_def
proof (induction vs arbitrary: db L Z level roa)
  case Nil
  then show ?case by auto
next
  case (Cons v vs)
  obtain p info where v: "v = (p, info)" by (cases v)
  with Cons.prems(3) obtain last_as myas where o: "origin info = Inr (last_as, myas)" and p: "prefix_wf p" by auto
  let ?asn = "if last_as = 0 then myas else last_as"
  have st: "route_status origin V v = origin_validation (V (family2afi (p_family p))) p ?asn" (is "?st = _")
    by (simp add: route_status_def v o)
  have "spare 1 L V" using spare_mono [OF Cons.prems(2)] by simp
  from prefix_lookup_ok [OF Cons.prems(1) p this refl st, of stray] obtain db1 ks Z1 where
    1: "rpki_prefix_lookup stray (Some db) p ?asn = Inr (?st, Some db1)"
      "holds_with cfg Y Z1 db1 (if ?st = ROA_STATUS_VALID then L(family2afi (p_family p)
        := (L (family2afi (p_family p)))(ks := Suc (L (family2afi (p_family p)) ks))) else L) V"
    by blast
  show ?case
  proof (cases "?st = ROA_STATUS_INVALID")
    case False
    then have "?st = ROA_STATUS_UNKNOWN \<or> ?st = ROA_STATUS_VALID"
      using origin_validation_cases [of "V (family2afi (p_family p))" p ?asn] st by auto
    then show ?thesis using 1 False v o by auto
  next
    case True
    then have h: "holds_with cfg Y Z1 db1 L V" using 1(2) by (simp add: roa_consts)
    have "spare (length vs) L V" using spare_mono [OF Cons.prems(2)] by simp
    from Cons.IH [OF h this, of "level + 1" "?st"] Cons.prems(3) obtain db2 L2 Z2 where
      2: "vector_levels origin stray vs (level + 1) ?st (Some db1)
        = Inr (if dropWhile (\<lambda>s. s = ROA_STATUS_INVALID) (map (route_status origin V) vs) = []
             then if vs = [] then ?st else ROA_STATUS_INVALID
             else hd (dropWhile (\<lambda>s. s = ROA_STATUS_INVALID) (map (route_status origin V) vs)),
            level + 1 + (if dropWhile (\<lambda>s. s = ROA_STATUS_INVALID) (map (route_status origin V) vs) = []
               then length vs
               else Suc (length vs - length (dropWhile (\<lambda>s. s = ROA_STATUS_INVALID) (map (route_status origin V) vs)))),
            Some db2)" "holds_with cfg Y Z2 db2 L2 V"
      by auto
    have len: "length (dropWhile (\<lambda>s. s = ROA_STATUS_INVALID) (map (route_status origin V) vs)) \<le> length vs"
      using length_dropWhile_le [of _ "map (route_status origin V) vs"] by simp
    have ne: "\<not> (?st = ROA_STATUS_UNKNOWN \<or> ?st = ROA_STATUS_VALID)" using True by (simp add: roa_consts)
    have "vector_levels origin stray (v # vs) level roa (Some db) = vector_levels origin stray vs (level + 1) ?st (Some db1)"
      using 1(1) ne by (simp add: v o)
    then show ?thesis using 2 len True by (auto simp: Suc_diff_le)
  qed
qed

lemma vector_lookup_ok:
  assumes "holds_with cfg Y Z db L V" "spare (length v) L V" "\<forall>(p, info) \<in> set v. prefix_wf p \<and> (\<exists>a. origin info = Inr a)"
  shows "\<exists>db' L' Z'. rpki_vector_prefix_lookup origin stray (Some v) (Some db)
      = Inr (vector_status (map (route_status origin V) (rev v)), Some db') \<and> holds_with cfg Y Z' db' L' V"
proof -
  let ?st = "dropWhile (\<lambda>s. s = ROA_STATUS_INVALID) (map (route_status origin V) (rev v))"
  from vector_levels_ok [OF assms(1), of "rev v" origin stray 0 ROA_STATUS_UNKNOWN] assms(2,3) obtain db' L' Z' where
    r: "vector_levels origin stray (rev v) 0 ROA_STATUS_UNKNOWN (Some db)
      = Inr (if ?st = [] then if v = [] then ROA_STATUS_UNKNOWN else ROA_STATUS_INVALID else hd ?st,
          if ?st = [] then length v else Suc (length v - length ?st), Some db')" "holds_with cfg Y Z' db' L' V"
    by auto
  have cases: "s \<in> {ROA_STATUS_UNKNOWN, ROA_STATUS_INVALID, ROA_STATUS_VALID}" if "s \<in> set (map (route_status origin V) (rev v))" for s
    using that assms(3) origin_validation_cases by (fastforce simp: route_status_def)
  show ?thesis
  proof (cases ?st)
    case Nil
    have "vector_status (map (route_status origin V) (rev v)) = (if v = [] then ROA_STATUS_UNKNOWN else ROA_STATUS_INVALID)"
      unfolding vector_status_def Nil by simp
    then show ?thesis using r(1) [unfolded Nil] r(2) by (auto simp: rpki_vector_prefix_lookup_def roa_consts)
  next
    case (Cons s st)
    have s: "s \<noteq> ROA_STATUS_INVALID"
      using hd_dropWhile [of "\<lambda>s. s = ROA_STATUS_INVALID" "map (route_status origin V) (rev v)"] Cons by simp
    have "s \<in> set (map (route_status origin V) (rev v))"
      using set_dropWhileD [of s "\<lambda>s. s = ROA_STATUS_INVALID" "map (route_status origin V) (rev v)"] Cons by simp
    from cases [OF this] s have uv: "s = ROA_STATUS_UNKNOWN \<or> s = ROA_STATUS_VALID" by auto
    have hd: "hd (map (route_status origin V) (rev v)) \<noteq> ROA_STATUS_INVALID \<longleftrightarrow> length ?st = length v"
    proof (cases "map (route_status origin V) (rev v)")
      case (Cons a as)
      moreover from Cons have "length v = Suc (length as)" by (metis length_Cons length_map length_rev)
      ultimately show ?thesis
        using length_dropWhile_le [of "\<lambda>s. s = ROA_STATUS_INVALID" as] by auto
    qed (use \<open>?st = s # st\<close> in simp)
    have len: "length (s # st) \<le> length v"
      using length_dropWhile_le [of "\<lambda>s. s = ROA_STATUS_INVALID" "map (route_status origin V) (rev v)"]
      unfolding Cons by simp
    have "vector_status (map (route_status origin V) (rev v))
        = (if length (s # st) = length v then s
           else if s = ROA_STATUS_VALID then ROA_STATUS_OVERLAP_VALID else ROA_STATUS_OVERLAP_UNKNOWN)"
      unfolding vector_status_def Cons using hd [unfolded Cons] by simp
    then show ?thesis
      using r(1) [unfolded Cons] r(2) len uv by (auto simp: rpki_vector_prefix_lookup_def roa_consts)
  qed
qed

end
