(* ===== verification/RpkiCache.thy ===== *)
theory RpkiCache
  imports Rpki
begin

text \<open>
  The RPKI daemon (rpki.c, rpki\_msg.c, rpki\_util.c): the session with a cache that speaks the RTR
  protocol, and the loop over \<open>select\<close>. The system calls are inputs of a turn: the clock, the socket,
  whether connecting and sending succeed, and the octets the cache will have sent until the connection
  ends. \<open>recv\<close> with \<open>MSG_WAITALL\<close> takes octets off their front, fewer than asked for when they run
  out; a failing \<open>recv\<close> is one that gets none. What is sent is kept in a list.
\<close>

section \<open>The handle of the cache\<close>

definition RPKI_RTR_V0 :: u8 where "RPKI_RTR_V0 = 0"
definition RPKI_RTR_V1 :: u8 where "RPKI_RTR_V1 = 1"
definition RPKI_RTR_V0_DEFAULT_RETRY_IVL :: u32 where "RPKI_RTR_V0_DEFAULT_RETRY_IVL = 10"
definition RPKI_RTR_V0_DEFAULT_REFRESH_IVL :: u32 where "RPKI_RTR_V0_DEFAULT_REFRESH_IVL = 10"
definition RPKI_RTR_V0_DEFAULT_EXPIRE_IVL :: u32 where "RPKI_RTR_V0_DEFAULT_EXPIRE_IVL = 7200"
definition RPKI_RTR_V1_DEFAULT_RETRY_IVL :: u32 where "RPKI_RTR_V1_DEFAULT_RETRY_IVL = 600"
definition RPKI_RTR_V1_DEFAULT_REFRESH_IVL :: u32 where "RPKI_RTR_V1_DEFAULT_REFRESH_IVL = 3600"
definition RPKI_RTR_V1_DEFAULT_EXPIRE_IVL :: u32 where "RPKI_RTR_V1_DEFAULT_EXPIRE_IVL = 7200"

definition RPKI_RTR_PDU_SERIAL_NOTIFY :: u8 where "RPKI_RTR_PDU_SERIAL_NOTIFY = 0"
definition RPKI_RTR_PDU_SERIAL_QUERY :: u8 where "RPKI_RTR_PDU_SERIAL_QUERY = 1"
definition RPKI_RTR_PDU_RESET_QUERY :: u8 where "RPKI_RTR_PDU_RESET_QUERY = 2"
definition RPKI_RTR_PDU_CACHE_RESPONSE :: u8 where "RPKI_RTR_PDU_CACHE_RESPONSE = 3"
definition RPKI_RTR_PDU_IPV4_PREFIX :: u8 where "RPKI_RTR_PDU_IPV4_PREFIX = 4"
definition RPKI_RTR_PDU_IPV6_PREFIX :: u8 where "RPKI_RTR_PDU_IPV6_PREFIX = 6"
definition RPKI_RTR_PDU_END_OF_DATA :: u8 where "RPKI_RTR_PDU_END_OF_DATA = 7"
definition RPKI_RTR_PDU_CACHE_RESET :: u8 where "RPKI_RTR_PDU_CACHE_RESET = 8"
definition RPKI_RTR_PDU_ROUTER_KEY :: u8 where "RPKI_RTR_PDU_ROUTER_KEY = 9"
definition RPKI_RTR_PDU_ERROR_REPORT :: u8 where "RPKI_RTR_PDU_ERROR_REPORT = 10"

lemmas rtr_pdus = RPKI_RTR_PDU_SERIAL_NOTIFY_def RPKI_RTR_PDU_SERIAL_QUERY_def RPKI_RTR_PDU_RESET_QUERY_def
  RPKI_RTR_PDU_CACHE_RESPONSE_def RPKI_RTR_PDU_IPV4_PREFIX_def RPKI_RTR_PDU_IPV6_PREFIX_def
  RPKI_RTR_PDU_END_OF_DATA_def RPKI_RTR_PDU_CACHE_RESET_def RPKI_RTR_PDU_ROUTER_KEY_def
  RPKI_RTR_PDU_ERROR_REPORT_def

definition RPKI_RTR_PDU_SERIAL_NOTIFY_LEN :: nat where "RPKI_RTR_PDU_SERIAL_NOTIFY_LEN = 12"
definition RPKI_RTR_PDU_SERIAL_QUERY_LEN :: u32 where "RPKI_RTR_PDU_SERIAL_QUERY_LEN = 12"
definition RPKI_RTR_PDU_RESET_QUERY_LEN :: u32 where "RPKI_RTR_PDU_RESET_QUERY_LEN = 8"
definition RPKI_RTR_PDU_CACHE_RESPONSE_LEN :: nat where "RPKI_RTR_PDU_CACHE_RESPONSE_LEN = 8"
definition RPKI_RTR_PDU_IPV4_PREFIX_LEN :: nat where "RPKI_RTR_PDU_IPV4_PREFIX_LEN = 20"
definition RPKI_RTR_PDU_IPV6_PREFIX_LEN :: nat where "RPKI_RTR_PDU_IPV6_PREFIX_LEN = 32"
definition RPKI_RTR_PDU_END_OF_DATA_V0_LEN :: nat where "RPKI_RTR_PDU_END_OF_DATA_V0_LEN = 12"
definition RPKI_RTR_PDU_END_OF_DATA_V1_LEN :: nat where "RPKI_RTR_PDU_END_OF_DATA_V1_LEN = 24"
definition RPKI_RTR_PDU_CACHE_RESET_LEN :: nat where "RPKI_RTR_PDU_CACHE_RESET_LEN = 8"
definition ROUTER_KEY_HDR_LEN :: nat where "ROUTER_KEY_HDR_LEN = 32"
definition ERR_REPORT_HDR_LEN :: nat where "ERR_REPORT_HDR_LEN = 8"

lemmas rtr_lens = RPKI_RTR_PDU_SERIAL_NOTIFY_LEN_def RPKI_RTR_PDU_SERIAL_QUERY_LEN_def
  RPKI_RTR_PDU_RESET_QUERY_LEN_def RPKI_RTR_PDU_CACHE_RESPONSE_LEN_def RPKI_RTR_PDU_IPV4_PREFIX_LEN_def
  RPKI_RTR_PDU_IPV6_PREFIX_LEN_def RPKI_RTR_PDU_END_OF_DATA_V0_LEN_def RPKI_RTR_PDU_END_OF_DATA_V1_LEN_def
  RPKI_RTR_PDU_CACHE_RESET_LEN_def ROUTER_KEY_HDR_LEN_def ERR_REPORT_HDR_LEN_def

definition RPKI_RTR_PREFIX_FLAGS_WITHDRAW :: u8 where "RPKI_RTR_PREFIX_FLAGS_WITHDRAW = 0"
definition RPKI_RTR_PREFIX_FLAGS_ANNOUNCE :: u8 where "RPKI_RTR_PREFIX_FLAGS_ANNOUNCE = 1"

text \<open>Times are numbers of seconds; intervals have 32 bits.\<close>

record rpki_rtr_timer =
  tm_tstamp :: int
  tm_ivl :: u32

record rpki_rtr_handle =
  rh_fd :: int
  rh_dont_reconnect :: bool
  rh_now :: int
  rh_refresh :: rpki_rtr_timer
  rh_retry :: rpki_rtr_timer
  rh_expire :: rpki_rtr_timer
  rh_session_id :: u16
  rh_serial :: u32

record rpki_state =
  rk_cache :: rpki_rtr_handle
  rk_db :: roa_db
  rk_in :: "u8 list"
  rk_sent :: "u8 list list"

definition timer_end :: "rpki_rtr_timer \<Rightarrow> int" where
  "timer_end t = tm_tstamp t + uint (tm_ivl t)"

definition timer_left :: "int \<Rightarrow> rpki_rtr_timer \<Rightarrow> int" where
  "timer_left now t = (if timer_end t \<le> now then 0 else timer_end t - now)"

definition rpki_rtr_set_dont_reconnect :: "rpki_rtr_handle \<Rightarrow> rpki_rtr_handle" where
  "rpki_rtr_set_dont_reconnect cache = cache\<lparr>rh_dont_reconnect := True\<rparr>"

definition rpki_rtr_eval_timeout :: "rpki_rtr_handle \<Rightarrow> int" where
  "rpki_rtr_eval_timeout cache =
     (let expire_timeout = timer_left (rh_now cache) (rh_expire cache);
          ret = (if rh_fd cache < 0 then min (timer_left (rh_now cache) (rh_retry cache)) expire_timeout
                 else min (timer_left (rh_now cache) (rh_refresh cache)) expire_timeout)
      in if ret = 0 then 1 else ret)"

text \<open>Forgetting the session and emptying the tables.\<close>

definition rpki_forget :: "bgp_config \<Rightarrow> u8 \<Rightarrow> rpki_state \<Rightarrow> rpki_state run" where
  "rpki_forget cfg stray s =
     fbind (rpki_ribs_reset cfg stray rpki_peer (rk_db s)) (\<lambda>db.
       Inr (s\<lparr>rk_cache := (rk_cache s)\<lparr>rh_session_id := 0, rh_serial := 0\<rparr>, rk_db := db\<rparr>))"

definition rpki_rtr_eval_expire :: "bgp_config \<Rightarrow> u8 \<Rightarrow> rpki_state \<Rightarrow> rpki_state run" where
  "rpki_rtr_eval_expire cfg stray s =
     (let c = rk_cache s
      in if timer_end (rh_expire c) \<le> rh_now c
         then rpki_forget cfg stray (s\<lparr>rk_cache := c\<lparr>rh_expire := (rh_expire c)\<lparr>tm_tstamp := rh_now c\<rparr>\<rparr>\<rparr>)
         else Inr s)"

definition rpki_rtr_close :: "bgp_config \<Rightarrow> u8 \<Rightarrow> rpki_state \<Rightarrow> rpki_state run" where
  "rpki_rtr_close cfg stray s =
     rpki_forget cfg stray (s\<lparr>rk_cache := (rk_cache s)\<lparr>rh_fd := ERR\<rparr>, rk_in := []\<rparr>)"

section \<open>Connecting and querying\<close>

text \<open>\<open>sock\<close> is what \<open>socket\<close> gives, \<open>ok\<close> whether \<open>connect\<close> succeeds, \<open>stream\<close> what the cache will send
  on the connection. The options of the socket are left out.\<close>

definition rpki_rtr_connect ::
  "bgp_config \<Rightarrow> u8 \<Rightarrow> int \<Rightarrow> bool \<Rightarrow> u8 list \<Rightarrow> rpki_state \<Rightarrow> rpki_state run" where
  "rpki_rtr_connect cfg stray sock ok stream s =
     (let c = rk_cache s
      in if timer_end (rh_retry c) \<le> rh_now c
         then let c = c\<lparr>rh_retry := (rh_retry c)\<lparr>tm_tstamp := rh_now c\<rparr>, rh_fd := sock\<rparr>
              in if sock = -1 then Inl ExitCalled
                 else if \<not> ok then rpki_rtr_close cfg stray (s\<lparr>rk_cache := c\<rparr>)
                 else Inr (s\<lparr>rk_cache := c\<lparr>rh_session_id := 0, rh_serial := 0\<rparr>, rk_in := stream\<rparr>)
         else Inr s)"

definition reset_query :: "u8 \<Rightarrow> u8 list" where
  "reset_query version = [version, RPKI_RTR_PDU_RESET_QUERY, 0, 0] @ bytes32 RPKI_RTR_PDU_RESET_QUERY_LEN"

definition serial_query :: "u8 \<Rightarrow> u16 \<Rightarrow> u32 \<Rightarrow> u8 list" where
  "serial_query version session_id serial =
     [version, RPKI_RTR_PDU_SERIAL_QUERY] @ bytes16 session_id @ bytes32 RPKI_RTR_PDU_SERIAL_QUERY_LEN
       @ bytes32 serial"

text \<open>Both queries are sent the same way, when the refresh timer is due: \<open>ok\<close> is whether \<open>send\<close> took
  them as a whole.\<close>

definition rpki_query :: "bgp_config \<Rightarrow> u8 \<Rightarrow> bool \<Rightarrow> u8 list \<Rightarrow> rpki_state \<Rightarrow> rpki_state run" where
  "rpki_query cfg stray ok msg s =
     (let c = rk_cache s
      in if 0 < rh_fd c \<and> timer_end (rh_refresh c) \<le> rh_now c
         then let s = s\<lparr>rk_cache := c\<lparr>rh_refresh := (rh_refresh c)\<lparr>tm_tstamp := rh_now c\<rparr>\<rparr>\<rparr>
              in if ok then Inr (s\<lparr>rk_sent := rk_sent s @ [msg]\<rparr>) else rpki_rtr_close cfg stray s
         else Inr s)"

definition rpki_rtr_send_reset_query ::
  "bgp_config \<Rightarrow> u8 \<Rightarrow> u8 \<Rightarrow> bool \<Rightarrow> rpki_state \<Rightarrow> rpki_state run" where
  "rpki_rtr_send_reset_query cfg stray version ok s = rpki_query cfg stray ok (reset_query version) s"

definition rpki_rtr_send_serial_query ::
  "bgp_config \<Rightarrow> u8 \<Rightarrow> u8 \<Rightarrow> bool \<Rightarrow> rpki_state \<Rightarrow> rpki_state run" where
  "rpki_rtr_send_serial_query cfg stray version ok s =
     rpki_query cfg stray ok
       (serial_query version (rh_session_id (rk_cache s)) (rh_serial (rk_cache s))) s"

section \<open>Receiving\<close>

text \<open>\<open>recv\<close> of \<open>n\<close> octets, and what to do when they all came.\<close>

definition rtr_recv ::
  "bgp_config \<Rightarrow> u8 \<Rightarrow> nat \<Rightarrow> (u8 list \<Rightarrow> rpki_state \<Rightarrow> rpki_state run) \<Rightarrow> rpki_state \<Rightarrow> rpki_state run" where
  "rtr_recv cfg stray n k s =
     (let m = take n (rk_in s); s = s\<lparr>rk_in := drop n (rk_in s)\<rparr>
      in if length m = n then k m s else rpki_rtr_close cfg stray s)"

definition rpki_rtr_recv_cache_response :: "bgp_config \<Rightarrow> u8 \<Rightarrow> rpki_state \<Rightarrow> rpki_state run" where
  "rpki_rtr_recv_cache_response cfg stray =
     rtr_recv cfg stray RPKI_RTR_PDU_CACHE_RESPONSE_LEN (\<lambda>m s.
       Inr (s\<lparr>rk_cache := (rk_cache s)\<lparr>rh_session_id := be16 (m ! 2) (m ! 3)\<rparr>\<rparr>))"

definition rpki_rtr_recv_serial_notify :: "bgp_config \<Rightarrow> u8 \<Rightarrow> rpki_state \<Rightarrow> rpki_state run" where
  "rpki_rtr_recv_serial_notify cfg stray = rtr_recv cfg stray RPKI_RTR_PDU_SERIAL_NOTIFY_LEN (\<lambda>m s. Inr s)"

text \<open>The payload of a prefix message, in the order flags, prefix, AS number, maximum length. The maximum
  length is only logged when it is out of range.\<close>

definition ipv4_payload :: "u8 list \<Rightarrow> u8 \<times> prefix \<times> u32 \<times> u8" where
  "ipv4_payload m = (m ! 8, \<lparr>p_family = AF_INET, p_len = unat (m ! 9), p_bytes = take 4 (drop 12 m) @ replicate 12 0\<rparr>,
     be32 (m ! 16) (m ! 17) (m ! 18) (m ! 19), m ! 10)"

definition ipv6_payload :: "u8 list \<Rightarrow> u8 \<times> prefix \<times> u32 \<times> u8" where
  "ipv6_payload m = (m ! 8, \<lparr>p_family = AF_INET6, p_len = unat (m ! 9), p_bytes = take 16 (drop 12 m)\<rparr>,
     be32 (m ! 28) (m ! 29) (m ! 30) (m ! 31), m ! 10)"

definition rpki_payload :: "bgp_config \<Rightarrow> u8 \<Rightarrow> u8 \<times> prefix \<times> u32 \<times> u8 \<Rightarrow> rpki_state \<Rightarrow> rpki_state run" where
  "rpki_payload cfg stray e s =
     (case e of (flags, p, asn, maxlen) \<Rightarrow>
        if flags = RPKI_RTR_PREFIX_FLAGS_WITHDRAW
        then fbind (rpki_info_delete cfg stray rpki_peer p asn maxlen (rk_db s)) (\<lambda>(_, db). Inr (s\<lparr>rk_db := db\<rparr>))
        else if flags = RPKI_RTR_PREFIX_FLAGS_ANNOUNCE
        then fbind (rpki_info_add cfg stray rpki_peer p asn maxlen (rk_db s)) (\<lambda>(_, db). Inr (s\<lparr>rk_db := db\<rparr>))
        else Inr s)"

definition rpki_rtr_parse_ipv4_prefix :: "bgp_config \<Rightarrow> u8 \<Rightarrow> u8 list \<Rightarrow> rpki_state \<Rightarrow> rpki_state run" where
  "rpki_rtr_parse_ipv4_prefix cfg stray p4m s = rpki_payload cfg stray (ipv4_payload p4m) s"

definition rpki_rtr_parse_ipv6_prefix :: "bgp_config \<Rightarrow> u8 \<Rightarrow> u8 list \<Rightarrow> rpki_state \<Rightarrow> rpki_state run" where
  "rpki_rtr_parse_ipv6_prefix cfg stray p6m s = rpki_payload cfg stray (ipv6_payload p6m) s"

definition rpki_rtr_recv_ipv4_pref :: "bgp_config \<Rightarrow> u8 \<Rightarrow> rpki_state \<Rightarrow> rpki_state run" where
  "rpki_rtr_recv_ipv4_pref cfg stray =
     rtr_recv cfg stray RPKI_RTR_PDU_IPV4_PREFIX_LEN (rpki_rtr_parse_ipv4_prefix cfg stray)"

definition rpki_rtr_recv_ipv6_pref :: "bgp_config \<Rightarrow> u8 \<Rightarrow> rpki_state \<Rightarrow> rpki_state run" where
  "rpki_rtr_recv_ipv6_pref cfg stray =
     rtr_recv cfg stray RPKI_RTR_PDU_IPV6_PREFIX_LEN (rpki_rtr_parse_ipv6_prefix cfg stray)"

text \<open>End of data. A session that is not the expected one is closed, and the rest is done all the same. An
  interval that is zero leaves the old one; \<open>expire.tstamp\<close> is compared, not the expire interval.\<close>

definition eod_timers :: "u8 \<Rightarrow> u8 list \<Rightarrow> rpki_rtr_handle \<Rightarrow> rpki_rtr_handle" where
  "eod_timers version m c =
     (let set = (\<lambda>v t. if v \<noteq> 0 then t\<lparr>tm_ivl := v\<rparr> else t);
          c = c\<lparr>rh_serial := be32 (m ! 8) (m ! 9) (m ! 10) (m ! 11),
                rh_refresh := (rh_refresh c)\<lparr>tm_tstamp := rh_now c\<rparr>,
                rh_expire := (rh_expire c)\<lparr>tm_tstamp := rh_now c\<rparr>\<rparr>
      in if version = RPKI_RTR_V1
         then c\<lparr>rh_retry := set (be32 (m ! 16) (m ! 17) (m ! 18) (m ! 19)) (rh_retry c),
                rh_refresh := set (be32 (m ! 12) (m ! 13) (m ! 14) (m ! 15)) (rh_refresh c),
                rh_expire := set (be32 (m ! 20) (m ! 21) (m ! 22) (m ! 23)) (rh_expire c)\<rparr>
         else c)"

definition eod_invalid :: "u8 \<Rightarrow> rpki_rtr_handle \<Rightarrow> bool" where
  "eod_invalid version c \<longleftrightarrow> version = RPKI_RTR_V1
     \<and> (tm_tstamp (rh_expire c) \<le> uint (tm_ivl (rh_retry c)) \<or> tm_tstamp (rh_expire c) \<le> uint (tm_ivl (rh_refresh c)))"

definition rpki_rtr_recv_eod :: "bgp_config \<Rightarrow> u8 \<Rightarrow> u8 \<Rightarrow> rpki_state \<Rightarrow> rpki_state run" where
  "rpki_rtr_recv_eod cfg stray version =
     rtr_recv cfg stray
       (if version = RPKI_RTR_V0 then RPKI_RTR_PDU_END_OF_DATA_V0_LEN else RPKI_RTR_PDU_END_OF_DATA_V1_LEN) (\<lambda>m s.
       fbind (if rh_session_id (rk_cache s) \<noteq> be16 (m ! 2) (m ! 3) then rpki_rtr_close cfg stray s else Inr s) (\<lambda>s.
       let c = eod_timers version m (rk_cache s); s = s\<lparr>rk_cache := c\<rparr>
       in if eod_invalid version c then rpki_rtr_close cfg stray s else Inr s))"

text \<open>After a short message the tables are emptied twice.\<close>

definition rpki_rtr_recv_cache_reset :: "bgp_config \<Rightarrow> u8 \<Rightarrow> rpki_state \<Rightarrow> rpki_state run" where
  "rpki_rtr_recv_cache_reset cfg stray s =
     fbind (rtr_recv cfg stray RPKI_RTR_PDU_CACHE_RESET_LEN (\<lambda>m s. Inr s) s) (rpki_forget cfg stray)"

text \<open>The lengths in the two messages below are read in the byte order of the host, which is taken to be
  little-endian: what \<open>le32\<close> gives. The octets of \<open>msglen\<close> are those of the header.\<close>

definition rpki_rtr_recv_router_key :: "bgp_config \<Rightarrow> u8 \<Rightarrow> rpki_state \<Rightarrow> rpki_state run" where
  "rpki_rtr_recv_router_key cfg stray =
     rtr_recv cfg stray ROUTER_KEY_HDR_LEN (\<lambda>m s.
       if m ! 0 = RPKI_RTR_V0 then rpki_rtr_close cfg stray s
       else let len = unat (le32 (drop 4 m))
            in if ROUTER_KEY_HDR_LEN < len then rtr_recv cfg stray (len - ROUTER_KEY_HDR_LEN) (\<lambda>m s. Inr s) s
               else Inr s)"

text \<open>The text of the error is printed from where \<open>encpdu_len\<close>, the first four octets of the rest, says: in
  a buffer of \<open>rem_len + 1\<close> octets the last of which is zero. The length itself is read from it too.\<close>

definition error_text :: "u8 list \<Rightarrow> unit run" where
  "error_text rest =
     (if length rest + 1 < 4 then Inl OutOfBounds
      else let at = unat (le32 (rest @ [0])) + 8
           in if at \<le> length rest then Inr () else Inl OutOfBounds)"

definition rpki_rtr_recv_error_report :: "bgp_config \<Rightarrow> u8 \<Rightarrow> rpki_state \<Rightarrow> rpki_state run" where
  "rpki_rtr_recv_error_report cfg stray =
     rtr_recv cfg stray ERR_REPORT_HDR_LEN (\<lambda>m s.
       let len = unat (le32 (drop 4 m))
       in if ERR_REPORT_HDR_LEN < len
          then rtr_recv cfg stray (len - ERR_REPORT_HDR_LEN) (\<lambda>rest s. fbind (error_text rest) (\<lambda>_. Inr s)) s
          else Inr s)"

text \<open>\<open>avail\<close> is the number of octets that have come when the version and the type are looked at.\<close>

definition rpki_rtr_parse_msg :: "bgp_config \<Rightarrow> u8 \<Rightarrow> u8 \<Rightarrow> nat \<Rightarrow> rpki_state \<Rightarrow> rpki_state run" where
  "rpki_rtr_parse_msg cfg stray version avail s =
     (let peek = take (min avail 2) (rk_in s)
      in if rh_fd (rk_cache s) \<le> 0 then Inr s
         else if length peek \<noteq> 2 then rpki_rtr_close cfg stray s
         else if peek ! 0 \<noteq> version
           then fbind (rpki_rtr_close cfg stray s) (\<lambda>s.
                  Inr (s\<lparr>rk_cache := rpki_rtr_set_dont_reconnect (rk_cache s)\<rparr>))
         else let t = peek ! 1
              in if t = RPKI_RTR_PDU_SERIAL_NOTIFY then rpki_rtr_recv_serial_notify cfg stray s
                 else if t = RPKI_RTR_PDU_CACHE_RESPONSE then rpki_rtr_recv_cache_response cfg stray s
                 else if t = RPKI_RTR_PDU_IPV4_PREFIX then rpki_rtr_recv_ipv4_pref cfg stray s
                 else if t = RPKI_RTR_PDU_IPV6_PREFIX then rpki_rtr_recv_ipv6_pref cfg stray s
                 else if t = RPKI_RTR_PDU_END_OF_DATA then rpki_rtr_recv_eod cfg stray (peek ! 0) s
                 else if t = RPKI_RTR_PDU_CACHE_RESET then rpki_rtr_recv_cache_reset cfg stray s
                 else if t = RPKI_RTR_PDU_ROUTER_KEY then rpki_rtr_recv_router_key cfg stray s
                 else if t = RPKI_RTR_PDU_ERROR_REPORT then rpki_rtr_recv_error_report cfg stray s
                 else rpki_rtr_close cfg stray s)"

section \<open>The daemon\<close>

text \<open>What is configured, and the inputs of a turn of the loop: the result of \<open>select\<close>, the clock, whether
  a reload was asked for and what the file then holds, and the results of the system calls.\<close>

record rpki_config =
  rc_roas_file :: bool
  rc_rtr_cache :: bool
  rc_version :: u8

record rpki_turn =
  rt_select :: int
  rt_now :: int
  rt_reload :: bool
  rt_errno :: bool
  rt_file :: "json option"
  rt_socket :: int
  rt_connect :: bool
  rt_stream :: "u8 list"
  rt_send_reset :: bool
  rt_send_serial :: bool
  rt_avail :: nat

definition handle_zero :: rpki_rtr_handle where
  "handle_zero = \<lparr>rh_fd = 0, rh_dont_reconnect = False, rh_now = 0,
     rh_refresh = \<lparr>tm_tstamp = 0, tm_ivl = 0\<rparr>, rh_retry = \<lparr>tm_tstamp = 0, tm_ivl = 0\<rparr>,
     rh_expire = \<lparr>tm_tstamp = 0, tm_ivl = 0\<rparr>, rh_session_id = 0, rh_serial = 0\<rparr>"

definition handle_init :: "u8 \<Rightarrow> int \<Rightarrow> rpki_rtr_handle" where
  "handle_init version now =
     (let ivl = (\<lambda>v0 v1. if version = RPKI_RTR_V0 then v0 else if version = RPKI_RTR_V1 then v1 else 0)
      in handle_zero\<lparr>
           rh_retry := \<lparr>tm_tstamp = 0, tm_ivl = ivl RPKI_RTR_V0_DEFAULT_RETRY_IVL RPKI_RTR_V1_DEFAULT_RETRY_IVL\<rparr>,
           rh_refresh := \<lparr>tm_tstamp = 0, tm_ivl = ivl RPKI_RTR_V0_DEFAULT_REFRESH_IVL RPKI_RTR_V1_DEFAULT_REFRESH_IVL\<rparr>,
           rh_expire := \<lparr>tm_tstamp = now, tm_ivl = ivl RPKI_RTR_V0_DEFAULT_EXPIRE_IVL RPKI_RTR_V1_DEFAULT_EXPIRE_IVL\<rparr>,
           rh_now := now, rh_fd := ERR\<rparr>)"

definition rpki_daemon_init ::
  "bgp_config \<Rightarrow> rpki_config \<Rightarrow> u8 \<Rightarrow> (string \<Rightarrow> u8 list option) \<Rightarrow> (string \<Rightarrow> u8 list option) \<Rightarrow> bool
    \<Rightarrow> json option \<Rightarrow> int \<Rightarrow> rpki_state run" where
  "rpki_daemon_init cfg rc stray aton pton errno file now =
     (if rc_roas_file rc \<and> rc_rtr_cache rc then Inl ExitCalled
      else fbind (if rc_roas_file rc then rpki_roas_file_load cfg stray aton pton errno file roa_db_init
                  else Inr (SUCCESS, roa_db_init)) (\<lambda>(_, db).
           if rc_rtr_cache rc \<and> rc_version rc \<noteq> RPKI_RTR_V0 \<and> rc_version rc \<noteq> RPKI_RTR_V1 then Inl ExitCalled
           else Inr \<lparr>rk_cache = (if rc_rtr_cache rc then handle_init (rc_version rc) now else handle_zero),
                     rk_db = db, rk_in = [], rk_sent = []\<rparr>))"

text \<open>The timer ran out: connect, query, expire.\<close>

definition rpki_timeout :: "bgp_config \<Rightarrow> rpki_config \<Rightarrow> u8 \<Rightarrow> rpki_turn \<Rightarrow> rpki_state \<Rightarrow> rpki_state run" where
  "rpki_timeout cfg rc stray ev s =
     fbind (if rh_fd (rk_cache s) < 0
            then rpki_rtr_connect cfg stray (rt_socket ev) (rt_connect ev) (rt_stream ev) s else Inr s) (\<lambda>s.
     fbind (if rh_session_id (rk_cache s) = 0
            then rpki_rtr_send_reset_query cfg stray (rc_version rc) (rt_send_reset ev) s else Inr s) (\<lambda>s.
     fbind (if rh_serial (rk_cache s) \<noteq> 0
            then rpki_rtr_send_serial_query cfg stray (rc_version rc) (rt_send_serial ev) s else Inr s) (\<lambda>s.
       rpki_rtr_eval_expire cfg stray s)))"

definition rpki_daemon_turn ::
  "bgp_config \<Rightarrow> rpki_config \<Rightarrow> u8 \<Rightarrow> (string \<Rightarrow> u8 list option) \<Rightarrow> (string \<Rightarrow> u8 list option) \<Rightarrow> rpki_turn
    \<Rightarrow> rpki_state \<Rightarrow> rpki_state run" where
  "rpki_daemon_turn cfg rc stray aton pton ev s =
     (let s = (if rc_rtr_cache rc then s\<lparr>rk_cache := (rk_cache s)\<lparr>rh_now := rt_now ev\<rparr>\<rparr> else s)
      in if rt_select ev < 0 then Inr s
         else fbind (if rt_reload ev
                     then fbind (rpki_roas_file_reload cfg stray aton pton (rt_errno ev) (rc_roas_file rc) (rt_file ev)
                                   (rk_db s)) (\<lambda>db. Inr (s\<lparr>rk_db := db\<rparr>))
                     else Inr s) (\<lambda>s.
              if \<not> rc_rtr_cache rc then Inr s
              else if rt_select ev = 0 then rpki_timeout cfg rc stray ev s
              else rpki_rtr_parse_msg cfg stray (rc_version rc) (rt_avail ev) s))"

end
