(* ===== verification/RpkiSession.thy ===== *)
theory RpkiSession
  imports RpkiFacts RpkiCache RunLogic
begin

text \<open>
  The daemon: what its turns make of the payloads, and that none of them faults as long as the cache
  sends prefixes and lengths that exist.
\<close>

section \<open>The state\<close>

text \<open>\<open>n\<close> more locks fit in. In the mode with a cache there are no payloads without a connection.\<close>

definition cache_state :: "nat \<Rightarrow> bgp_config \<Rightarrow> bool \<Rightarrow> vrps \<Rightarrow> rpki_state \<Rightarrow> bool" where
  "cache_state n cfg mode V s \<longleftrightarrow> (\<exists>Z L. holds_with cfg {#} Z (rk_db s) L V \<and> spare n L V)
     \<and> (mode \<longrightarrow> rh_fd (rk_cache s) < 0 \<longrightarrow> V = no_vrps)"

definition cache_ok :: "nat \<Rightarrow> bgp_config \<Rightarrow> bool \<Rightarrow> rpki_state \<Rightarrow> bool" where
  "cache_ok n cfg mode s \<longleftrightarrow> (\<exists>V. cache_state n cfg mode V s)"

lemma cache_stateI:
  "holds_with cfg {#} Z (rk_db s) L V \<Longrightarrow> spare n L V \<Longrightarrow> (mode \<Longrightarrow> rh_fd (rk_cache s) < 0 \<Longrightarrow> V = no_vrps) \<Longrightarrow>
    cache_state n cfg mode V s"
  by (auto simp: cache_state_def)

lemma cache_stateD:
  assumes "cache_state n cfg mode V s"
  obtains Z L where "holds_with cfg {#} Z (rk_db s) L V" "spare n L V" "mode \<Longrightarrow> rh_fd (rk_cache s) < 0 \<Longrightarrow> V = no_vrps"
  using assms by (auto simp: cache_state_def)

lemma cache_state_less: "cache_state n cfg mode V s \<Longrightarrow> m \<le> n \<Longrightarrow> cache_state m cfg mode V s"
  unfolding cache_state_def by (blast intro: spare_mono)

lemma cache_ok_less: "cache_ok n cfg mode s \<Longrightarrow> m \<le> n \<Longrightarrow> cache_ok m cfg mode s"
  unfolding cache_ok_def by (blast intro: cache_state_less)

text \<open>Only the payloads and the socket matter.\<close>

lemma cache_state_cong:
  "rk_db s' = rk_db s \<Longrightarrow> (rh_fd (rk_cache s') < 0 \<Longrightarrow> rh_fd (rk_cache s) < 0) \<Longrightarrow> cache_state n cfg mode V s \<Longrightarrow>
    cache_state n cfg mode V s'"
  by (auto simp: cache_state_def)

lemma cache_ok_cong:
  "rk_db s' = rk_db s \<Longrightarrow> (rh_fd (rk_cache s') < 0 \<Longrightarrow> rh_fd (rk_cache s) < 0) \<Longrightarrow> cache_ok n cfg mode s \<Longrightarrow>
    cache_ok n cfg mode s'"
  unfolding cache_ok_def by (blast intro: cache_state_cong)

lemma cache_room: "cache_state n cfg mode V s \<Longrightarrow> roa_room (rk_db s) \<Longrightarrow> cache_state 2 cfg mode V s"
  unfolding cache_state_def by (blast intro: roa_room_spare)

section \<open>Forgetting and closing\<close>

text \<open>Nothing is left of the payloads, whatever there were.\<close>

definition emptied :: "bgp_config \<Rightarrow> rpki_state \<Rightarrow> bool" where
  "emptied cfg s \<longleftrightarrow> holds_with cfg {#} {#} (rk_db s) no_locks no_vrps
     \<and> rh_session_id (rk_cache s) = 0 \<and> rh_serial (rk_cache s) = 0"

lemma emptied_state: "emptied cfg s \<Longrightarrow> n < 2 ^ 32 \<Longrightarrow> cache_state n cfg mode no_vrps s"
  by (rule cache_stateI [where L = no_locks]) (auto simp: emptied_def)

lemma emptied_ok: "emptied cfg s \<Longrightarrow> n < 2 ^ 32 \<Longrightarrow> cache_ok n cfg mode s"
  unfolding cache_ok_def by (blast intro: emptied_state)

lemma forget_ok:
  assumes "cache_ok 1 cfg mode s"
  shows "runs (\<lambda>s'. emptied cfg s' \<and> rh_fd (rk_cache s') = rh_fd (rk_cache s)) (rpki_forget cfg stray s)"
proof -
  from assms obtain V Z L where "holds_with cfg {#} Z (rk_db s) L V" "spare 1 L V"
    by (auto simp: cache_ok_def elim!: cache_stateD)
  from ribs_reset_ok [OF this, of stray] show ?thesis by (auto simp: rpki_forget_def emptied_def)
qed

lemma close_ok:
  assumes "cache_ok 1 cfg mode s"
  shows "runs (\<lambda>s'. emptied cfg s' \<and> rh_fd (rk_cache s') < 0) (rpki_rtr_close cfg stray s)"
proof -
  have "cache_ok 1 cfg False (s\<lparr>rk_cache := (rk_cache s)\<lparr>rh_fd := ERR\<rparr>, rk_in := []\<rparr>)"
    using assms by (auto simp: cache_ok_def cache_state_def)
  from forget_ok [OF this, of stray] show ?thesis
    unfolding rpki_rtr_close_def by (rule runs_mono) (simp add: ERR_def)
qed

lemma close_ready: "cache_ok 1 cfg mode s \<Longrightarrow> n < 2 ^ 32 \<Longrightarrow> runs (cache_ok n cfg mode) (rpki_rtr_close cfg stray s)"
  by (rule runs_mono [OF close_ok]) (auto intro: emptied_ok)

lemma eval_expire_ok:
  assumes "cache_ok 2 cfg mode s"
  shows "runs (cache_ok 2 cfg mode) (rpki_rtr_eval_expire cfg stray s)"
proof -
  let ?s = "s\<lparr>rk_cache := (rk_cache s)\<lparr>rh_expire := (rh_expire (rk_cache s))\<lparr>tm_tstamp := rh_now (rk_cache s)\<rparr>\<rparr>\<rparr>"
  have "cache_ok 2 cfg mode ?s" by (rule cache_ok_cong [OF _ _ assms]) simp_all
  then have "cache_ok 1 cfg mode ?s" by (rule cache_ok_less) simp
  from forget_ok [OF this, of stray] have "runs (cache_ok 2 cfg mode) (rpki_forget cfg stray ?s)"
    by (rule runs_mono) (simp add: emptied_ok)
  then show ?thesis using assms by (simp add: rpki_rtr_eval_expire_def Let_def)
qed

section \<open>Connecting and querying\<close>

lemma connect_ok:
  assumes "cache_ok 2 cfg mode s" "sock \<noteq> -1" "- 1 \<le> sock"
  shows "runs (cache_ok 2 cfg mode) (rpki_rtr_connect cfg stray sock ok stream s)"
proof -
  let ?c = "(rk_cache s)\<lparr>rh_retry := (rh_retry (rk_cache s))\<lparr>tm_tstamp := rh_now (rk_cache s)\<rparr>, rh_fd := sock\<rparr>"
  have "cache_ok 2 cfg mode (s\<lparr>rk_cache := ?c\<rparr>)" by (rule cache_ok_cong [OF _ _ assms(1)]) (use assms(2,3) in simp_all)
  then have "cache_ok 1 cfg mode (s\<lparr>rk_cache := ?c\<rparr>)" by (rule cache_ok_less) simp
  from close_ready [OF this, of 2 stray]
  have closed: "runs (cache_ok 2 cfg mode) (rpki_rtr_close cfg stray (s\<lparr>rk_cache := ?c\<rparr>))" by simp
  have "cache_ok 2 cfg mode (s\<lparr>rk_cache := ?c\<lparr>rh_session_id := 0, rh_serial := 0\<rparr>, rk_in := stream\<rparr>)"
    by (rule cache_ok_cong [OF _ _ assms(1)]) (use assms(2,3) in simp_all)
  with closed show ?thesis using assms by (simp add: rpki_rtr_connect_def Let_def)
qed

lemma query_ok:
  assumes "cache_ok 2 cfg mode s"
  shows "runs (cache_ok 2 cfg mode) (rpki_query cfg stray ok msg s)"
proof -
  let ?s = "s\<lparr>rk_cache := (rk_cache s)\<lparr>rh_refresh := (rh_refresh (rk_cache s))\<lparr>tm_tstamp := rh_now (rk_cache s)\<rparr>\<rparr>\<rparr>"
  have s: "cache_ok 2 cfg mode ?s" by (rule cache_ok_cong [OF _ _ assms]) simp_all
  then have "cache_ok 1 cfg mode ?s" by (rule cache_ok_less) simp
  from close_ready [OF this, of 2 stray] have "runs (cache_ok 2 cfg mode) (rpki_rtr_close cfg stray ?s)" by simp
  moreover have "cache_ok 2 cfg mode (?s\<lparr>rk_sent := x\<rparr>)" for x by (rule cache_ok_cong [OF _ _ assms]) simp_all
  ultimately show ?thesis using assms by (simp add: rpki_query_def Let_def)
qed

lemma timeout_ok:
  assumes "cache_ok 2 cfg mode s" "rt_socket ev \<noteq> -1" "- 1 \<le> rt_socket ev"
  shows "runs (cache_ok 2 cfg mode) (rpki_timeout cfg rc stray ev s)"
  unfolding rpki_timeout_def rpki_rtr_send_reset_query_def rpki_rtr_send_serial_query_def
  by (intro runs_bind [where R = "cache_ok 2 cfg mode"] runs_if connect_ok query_ok eval_expire_ok)
    (use assms in simp_all)

section \<open>Messages\<close>

lemma recv_ok:
  assumes s: "cache_ok 2 cfg mode s" and n: "n \<le> 2"
    and k: "\<And>m s'. length m = l \<Longrightarrow> m = take l (rk_in s) \<Longrightarrow> rk_in s' = drop l (rk_in s) \<Longrightarrow> rk_cache s' = rk_cache s \<Longrightarrow>
        rk_db s' = rk_db s \<Longrightarrow> cache_ok 2 cfg mode s' \<Longrightarrow> runs (cache_ok n cfg mode) (k m s')"
  shows "runs (cache_ok n cfg mode) (rtr_recv cfg stray l k s)"
proof -
  let ?s = "s\<lparr>rk_in := drop l (rk_in s)\<rparr>"
  have ok: "cache_ok 2 cfg mode ?s" by (rule cache_ok_cong [OF _ _ s]) simp_all
  then have "cache_ok 1 cfg mode ?s" by (rule cache_ok_less) simp
  from close_ready [OF this, of n stray] n have "runs (cache_ok n cfg mode) (rpki_rtr_close cfg stray ?s)" by simp
  moreover have "runs (cache_ok n cfg mode) (k (take l (rk_in s)) ?s)" if "length (take l (rk_in s)) = l"
    by (rule k [OF that]) (use ok in simp_all)
  ultimately show ?thesis unfolding rtr_recv_def Let_def by (intro runs_if) simp_all
qed

text \<open>A message that the code survives: lengths within the address, and an error report, if its length
  (in the byte order of the host) is ever reached, with room for the text in the place it names.\<close>

definition prefix_fits :: "nat \<Rightarrow> u8 list \<Rightarrow> bool" where
  "prefix_fits n m \<longleftrightarrow> unat (m ! 9) \<le> n \<and> (m ! 8 = RPKI_RTR_PREFIX_FLAGS_WITHDRAW \<longrightarrow> unat (m ! 10) \<le> n)"

definition report_fits :: "u8 list \<Rightarrow> bool" where
  "report_fits m \<longleftrightarrow> (let len = unat (le32 (drop 4 (take 8 m))); rest = take (len - 8) (drop 8 m)
     in 8 < len \<longrightarrow> len \<le> length m \<longrightarrow> 11 \<le> len \<and> unat (le32 (rest @ [0])) + 16 \<le> len)"

definition pdu_ok :: "u8 list \<Rightarrow> bool" where
  "pdu_ok m \<longleftrightarrow> (m ! 1 = RPKI_RTR_PDU_IPV4_PREFIX \<longrightarrow> 20 \<le> length m \<longrightarrow> prefix_fits 32 m)
     \<and> (m ! 1 = RPKI_RTR_PDU_IPV6_PREFIX \<longrightarrow> 32 \<le> length m \<longrightarrow> prefix_fits 128 m)
     \<and> (m ! 1 = RPKI_RTR_PDU_ERROR_REPORT \<longrightarrow> 8 \<le> length m \<longrightarrow> report_fits m)"

text \<open>What a prefix message does to the payloads.\<close>

definition payload_effect :: "u8 \<times> prefix \<times> u32 \<times> u8 \<Rightarrow> vrps \<Rightarrow> vrps" where
  "payload_effect = (\<lambda>(flags, p, asn, maxlen) V.
     if flags = RPKI_RTR_PREFIX_FLAGS_WITHDRAW then withdraw (family2afi (p_family p)) (withdrawn_nets p maxlen) asn V
     else if flags = RPKI_RTR_PREFIX_FLAGS_ANNOUNCE then announce (family2afi (p_family p)) (p_bits p) (asn, maxlen) V
     else V)"

definition payload_fits :: "u8 \<times> prefix \<times> u32 \<times> u8 \<Rightarrow> bool" where
  "payload_fits = (\<lambda>(flags, p, asn, maxlen). prefix_wf p
     \<and> (flags = RPKI_RTR_PREFIX_FLAGS_WITHDRAW \<longrightarrow> prefix_wf (p\<lparr>p_len := max (p_len p) (unat maxlen)\<rparr>)))"

lemma ipv4_fits: "length m = 20 \<Longrightarrow> prefix_fits 32 m \<Longrightarrow> payload_fits (ipv4_payload m)"
  by (auto simp: payload_fits_def ipv4_payload_def prefix_fits_def prefix_wf_def prefix_ok_def)

lemma ipv6_fits: "length m = 32 \<Longrightarrow> prefix_fits 128 m \<Longrightarrow> payload_fits (ipv6_payload m)"
  by (auto simp: payload_fits_def ipv6_payload_def prefix_fits_def prefix_wf_def prefix_ok_def)

lemma length_remove_origin: "length (remove_origin asn vs) \<le> length vs"
  by (induction vs) auto

lemma withdraw_spare: "spare n L V \<Longrightarrow> spare n L (withdraw afi S asn V)"
  unfolding spare_def
proof (intro ballI allI)
  fix a k
  assume "\<forall>afi \<in> {AFI_IP, AFI_IP6}. \<forall>ks. L afi ks + length (V afi ks) + n < 2 ^ 32" "a \<in> {AFI_IP, AFI_IP6}"
  then have "L a k + length (V a k) + n < 2 ^ 32" by blast
  moreover have "length (withdraw afi S asn V a k) \<le> length (V a k)"
    by (simp add: withdraw_def withdraw_in_def length_remove_origin)
  ultimately show "L a k + length (withdraw afi S asn V a k) + n < 2 ^ 32" by linarith
qed

lemma payload_ok:
  assumes s: "cache_state 2 cfg mode V s" and fd: "0 \<le> rh_fd (rk_cache s)" and e: "payload_fits e"
  shows "runs (\<lambda>s'. cache_state 1 cfg mode (payload_effect e V) s' \<and> rk_cache s' = rk_cache s) (rpki_payload cfg stray e s)"
proof -
  obtain flags p asn maxlen where e': "e = (flags, p, asn, maxlen)" by (cases e)
  from s obtain Z L where h: "holds_with cfg {#} Z (rk_db s) L V" "spare 2 L V" by (rule cache_stateD)
  show ?thesis
  proof (cases "flags = RPKI_RTR_PREFIX_FLAGS_WITHDRAW")
    case True
    then have "prefix_wf (p\<lparr>p_len := max (p_len p) (unat maxlen)\<rparr>)" using e by (simp add: payload_fits_def e')
    from info_delete_roa_ok [OF h(1) this h(2), of stray asn] obtain db Z' where
      d: "rpki_info_delete cfg stray rpki_peer p asn maxlen (rk_db s) = Inr (SUCCESS, db)"
        "holds_with cfg {#} Z' db L (payload_effect e V)" by (auto simp: payload_effect_def e' True)
    have "spare 1 L (payload_effect e V)"
      using withdraw_spare [OF spare_mono [OF h(2), of 1]] by (simp add: payload_effect_def e' True)
    then show ?thesis using d fd True
      by (auto simp: rpki_payload_def e' intro!: cache_stateI)
  next
    case False
    show ?thesis
    proof (cases "flags = RPKI_RTR_PREFIX_FLAGS_ANNOUNCE")
      case True
      have "prefix_wf p" using e by (simp add: payload_fits_def e')
      from info_add_ok [OF h(1) this h(2), of stray asn maxlen] obtain db Z' where
        a: "rpki_info_add cfg stray rpki_peer p asn maxlen (rk_db s) = Inr (SUCCESS, db)"
          "holds_with cfg {#} Z' db L (payload_effect e V)" using False True by (auto simp: payload_effect_def e')
      have "spare 1 L (payload_effect e V)"
        using announce_spare [of 1] h(2) False True by (simp add: payload_effect_def e' numeral_2_eq_2)
      then show ?thesis using a fd False True
        by (auto simp: rpki_payload_def e' intro!: cache_stateI)
    qed (use False s in \<open>auto simp: rpki_payload_def payload_effect_def e' intro: cache_state_less\<close>)
  qed
qed

lemma recv_payload:
  assumes s: "cache_ok 2 cfg mode s" and fd: "0 < rh_fd (rk_cache s)"
    and fits: "l \<le> length (rk_in s) \<Longrightarrow> payload_fits (f (take l (rk_in s)))"
  shows "runs (cache_ok 1 cfg mode) (rtr_recv cfg stray l (\<lambda>m. rpki_payload cfg stray (f m)) s)"
proof (rule recv_ok [OF s])
  fix m s' assume m: "length m = l" "m = take l (rk_in s)" and s': "rk_cache s' = rk_cache s" "cache_ok 2 cfg mode s'"
  have "payload_fits (f m)" using fits m by auto
  moreover have "0 \<le> rh_fd (rk_cache s')" using s'(1) fd by simp
  moreover obtain V where "cache_state 2 cfg mode V s'" using s'(2) by (auto simp: cache_ok_def)
  ultimately have "runs (\<lambda>s''. cache_state 1 cfg mode (payload_effect (f m) V) s'' \<and> rk_cache s'' = rk_cache s')
      (rpki_payload cfg stray (f m) s')" by (intro payload_ok)
  then show "runs (cache_ok 1 cfg mode) (rpki_payload cfg stray (f m) s')"
    by (rule runs_mono) (auto simp: cache_ok_def)
qed simp

lemma eod_ok:
  assumes "cache_ok 2 cfg mode s"
  shows "runs (cache_ok 1 cfg mode) (rpki_rtr_recv_eod cfg stray version s)"
  unfolding rpki_rtr_recv_eod_def
proof (rule recv_ok [OF assms])
  fix m s' assume s': "cache_ok 2 cfg mode s'"
  have timers: "rh_fd (eod_timers version m c) = rh_fd c" for c by (simp add: eod_timers_def Let_def)
  let ?set = "\<lambda>s. s\<lparr>rk_cache := eod_timers version m (rk_cache s)\<rparr>"
  have set: "cache_ok 1 cfg mode (?set s)" if "cache_ok 1 cfg mode s" for s
    by (rule cache_ok_cong [OF _ _ that]) (simp_all add: timers)
  have 1: "cache_ok 1 cfg mode s'" using s' by (rule cache_ok_less) simp
  show "runs (cache_ok 1 cfg mode) (fbind (if rh_session_id (rk_cache s') \<noteq> be16 (m ! 2) (m ! 3)
      then rpki_rtr_close cfg stray s' else Inr s') (\<lambda>s.
        let c = eod_timers version m (rk_cache s); s = s\<lparr>rk_cache := c\<rparr>
        in if eod_invalid version c then rpki_rtr_close cfg stray s else Inr s))"
    unfolding Let_def
    by (intro runs_bind [where R = "cache_ok 1 cfg mode"] runs_if close_ready) (use 1 set in simp_all)
qed simp

lemma cache_reset_ok:
  assumes "cache_ok 2 cfg mode s"
  shows "runs (cache_ok 1 cfg mode) (rpki_rtr_recv_cache_reset cfg stray s)"
  unfolding rpki_rtr_recv_cache_reset_def
proof (rule runs_bind)
  show "runs (cache_ok 2 cfg mode) (rtr_recv cfg stray RPKI_RTR_PDU_CACHE_RESET_LEN (\<lambda>m s. Inr s) s)"
    by (rule recv_ok [OF assms]) simp_all
  fix s' assume "cache_ok 2 cfg mode s'"
  then have "cache_ok 1 cfg mode s'" by (rule cache_ok_less) simp
  from forget_ok [OF this] show "runs (cache_ok 1 cfg mode) (rpki_forget cfg stray s')"
    by (rule runs_mono) (simp add: emptied_ok)
qed

lemma router_key_ok:
  assumes "cache_ok 2 cfg mode s"
  shows "runs (cache_ok 1 cfg mode) (rpki_rtr_recv_router_key cfg stray s)"
  unfolding rpki_rtr_recv_router_key_def Let_def
proof (rule recv_ok [OF assms])
  fix m s' assume s': "cache_ok 2 cfg mode s'"
  have "runs (cache_ok 1 cfg mode) (rtr_recv cfg stray l (\<lambda>m s. Inr s) s')" for l
    by (rule recv_ok [OF s']) (auto intro: cache_ok_less)
  moreover have "cache_ok 1 cfg mode s'" using s' by (rule cache_ok_less) simp
  ultimately show "runs (cache_ok 1 cfg mode) (if m ! 0 = RPKI_RTR_V0 then rpki_rtr_close cfg stray s'
      else if ROUTER_KEY_HDR_LEN < unat (le32 (drop 4 m))
        then rtr_recv cfg stray (unat (le32 (drop 4 m)) - ROUTER_KEY_HDR_LEN) (\<lambda>m s. Inr s) s' else Inr s')"
    by (intro runs_if close_ready) simp_all
qed simp

lemma error_text_ok:
  "8 < len \<Longrightarrow> length rest = len - 8 \<Longrightarrow> 11 \<le> len \<Longrightarrow> unat (le32 (rest @ [0])) + 16 \<le> len \<Longrightarrow> error_text rest = Inr ()"
  by (simp add: error_text_def Let_def)

lemma error_report_ok:
  assumes s: "cache_ok 2 cfg mode s" and fits: "8 \<le> length (rk_in s) \<Longrightarrow> report_fits (rk_in s)"
  shows "runs (cache_ok 1 cfg mode) (rpki_rtr_recv_error_report cfg stray s)"
  unfolding rpki_rtr_recv_error_report_def Let_def
proof (rule recv_ok [OF s])
  fix m s' assume m: "length m = ERR_REPORT_HDR_LEN" "m = take ERR_REPORT_HDR_LEN (rk_in s)"
    "rk_in s' = drop ERR_REPORT_HDR_LEN (rk_in s)" and s': "cache_ok 2 cfg mode s'"
  let ?len = "unat (le32 (drop 4 m))"
  have 8: "8 \<le> length (rk_in s)" using m by (simp add: rtr_lens)
  have "runs (cache_ok 1 cfg mode) (rtr_recv cfg stray (?len - ERR_REPORT_HDR_LEN)
      (\<lambda>rest s. fbind (error_text rest) (\<lambda>_. Inr s)) s')" if "ERR_REPORT_HDR_LEN < ?len"
  proof (rule recv_ok [OF s'])
    fix rest s'' assume r: "length rest = ?len - ERR_REPORT_HDR_LEN" "rest = take (?len - ERR_REPORT_HDR_LEN) (rk_in s')"
      and s'': "cache_ok 2 cfg mode s''"
    have "?len \<le> length (rk_in s)" using r m(3) 8 that by (simp add: rtr_lens)
    then have "error_text rest = Inr ()"
      using fits [OF 8] r m that by (intro error_text_ok) (auto simp: report_fits_def Let_def rtr_lens)
    then show "runs (cache_ok 1 cfg mode) (fbind (error_text rest) (\<lambda>_. Inr s''))"
      using cache_ok_less [OF s''] by simp
  qed simp
  moreover have "cache_ok 1 cfg mode s'" using s' by (rule cache_ok_less) simp
  ultimately show "runs (cache_ok 1 cfg mode) (if ERR_REPORT_HDR_LEN < ?len
      then rtr_recv cfg stray (?len - ERR_REPORT_HDR_LEN) (\<lambda>rest s. fbind (error_text rest) (\<lambda>_. Inr s)) s' else Inr s')"
    by (intro runs_if) simp_all
qed simp

lemma parse_msg_ok:
  assumes s: "cache_ok 2 cfg mode s" and pdu: "0 < rh_fd (rk_cache s) \<Longrightarrow> 2 \<le> length (rk_in s) \<Longrightarrow> pdu_ok (rk_in s)"
  shows "runs (cache_ok 1 cfg mode) (rpki_rtr_parse_msg cfg stray version avail s)"
proof -
  let ?peek = "take (min avail 2) (rk_in s)"
  have 1: "cache_ok 1 cfg mode s" using s by (rule cache_ok_less) simp
  have closed: "runs (cache_ok 1 cfg mode) (rpki_rtr_close cfg stray s)" by (rule close_ready [OF 1]) simp
  show ?thesis
  proof (cases "0 < rh_fd (rk_cache s) \<and> length ?peek = 2 \<and> ?peek ! 0 = version")
    case False
    have "cache_ok 1 cfg mode (s'\<lparr>rk_cache := rpki_rtr_set_dont_reconnect (rk_cache s')\<rparr>)" if "cache_ok 1 cfg mode s'" for s'
      by (rule cache_ok_cong [OF _ _ that]) (simp_all add: rpki_rtr_set_dont_reconnect_def)
    then have "runs (cache_ok 1 cfg mode) (fbind (rpki_rtr_close cfg stray s) (\<lambda>s.
        Inr (s\<lparr>rk_cache := rpki_rtr_set_dont_reconnect (rk_cache s)\<rparr>)))"
      by (intro runs_bind [OF closed]) (simp only: runs.simps)
    then show ?thesis using False 1 closed unfolding rpki_rtr_parse_msg_def Let_def by (intro runs_if) auto
  next
    case True
    have m: "length ?peek = 2" "2 \<le> length (rk_in s)" using True by auto
    then have t: "?peek ! 1 = rk_in s ! 1" by simp
    note p = pdu [unfolded pdu_ok_def]
    let ?t = "?peek ! 1"
    have v4: "runs (cache_ok 1 cfg mode) (rpki_rtr_recv_ipv4_pref cfg stray s)" if "?t = RPKI_RTR_PDU_IPV4_PREFIX"
      unfolding rpki_rtr_recv_ipv4_pref_def rpki_rtr_parse_ipv4_prefix_def
      by (rule recv_payload [OF s]) (use True p that t m in \<open>auto simp: rtr_lens prefix_fits_def intro!: ipv4_fits\<close>)
    have v6: "runs (cache_ok 1 cfg mode) (rpki_rtr_recv_ipv6_pref cfg stray s)" if "?t = RPKI_RTR_PDU_IPV6_PREFIX"
      unfolding rpki_rtr_recv_ipv6_pref_def rpki_rtr_parse_ipv6_prefix_def
      by (rule recv_payload [OF s]) (use True p that t m in \<open>auto simp: rtr_lens prefix_fits_def intro!: ipv6_fits\<close>)
    have er: "runs (cache_ok 1 cfg mode) (rpki_rtr_recv_error_report cfg stray s)" if "?t = RPKI_RTR_PDU_ERROR_REPORT"
      by (rule error_report_ok [OF s]) (use True p that t m in auto)
    have nt: "runs (cache_ok 1 cfg mode) (rpki_rtr_recv_serial_notify cfg stray s)"
      unfolding rpki_rtr_recv_serial_notify_def by (rule recv_ok [OF s]) (auto intro: cache_ok_less)
    have cr: "runs (cache_ok 1 cfg mode) (rpki_rtr_recv_cache_response cfg stray s)"
      unfolding rpki_rtr_recv_cache_response_def
    proof (rule recv_ok [OF s])
      fix m s' assume s': "cache_ok 2 cfg mode s'"
      have "cache_ok 2 cfg mode (s'\<lparr>rk_cache := (rk_cache s')\<lparr>rh_session_id := be16 (m ! 2) (m ! 3)\<rparr>\<rparr>)"
        by (rule cache_ok_cong [OF _ _ s']) simp_all
      then show "runs (cache_ok 1 cfg mode) (Inr (s'\<lparr>rk_cache := (rk_cache s')\<lparr>rh_session_id := be16 (m ! 2) (m ! 3)\<rparr>\<rparr>))"
        by (simp only: runs.simps) (erule cache_ok_less, simp)
    qed simp
    show ?thesis
      unfolding rpki_rtr_parse_msg_def Let_def
      by (intro runs_if nt cr v4 v6 eod_ok [OF s] cache_reset_ok [OF s] router_key_ok [OF s] er closed)
        (use True 1 closed in auto)
  qed
qed

lemma roas_read_length: "length (roas_read aton pton errno js) \<le> length js"
proof (induction js arbitrary: errno)
  case (Cons j js)
  obtain r e where "roa_of_json aton pton errno j = (r, e)" by (cases "roa_of_json aton pton errno j")
  then show ?case using Cons.IH [of e] by (cases r) auto
qed simp

lemma fold_announce_spare: "spare (length vs + n) L V \<Longrightarrow> spare n L (fold announce_prefix vs V)"
proof (induction vs arbitrary: V)
  case (Cons v vs)
  have "spare (length vs + n) L (announce_prefix v V)"
    using announce_spare [of "length vs + n" L V] Cons.prems by (simp add: announce_prefix_def split: prod.split)
  then show ?case using Cons.IH by simp
qed simp

section \<open>Turns\<close>

definition files_small :: "json option \<Rightarrow> bool" where
  "files_small file \<longleftrightarrow> (\<forall>js. file_roas file = Some js \<longrightarrow> length js + 2 < 2 ^ 32)"

lemma reload_ok:
  assumes io: "inet_ok aton pton" and small: "files_small file" and s: "cache_ok 2 cfg mode s"
    and one: "\<not> (mode \<and> configured)"
  shows "runs (\<lambda>db. cache_ok 2 cfg mode (s\<lparr>rk_db := db\<rparr>) \<or> \<not> mode \<and> cache_ok 0 cfg mode (s\<lparr>rk_db := db\<rparr>))
    (rpki_roas_file_reload cfg stray aton pton errno configured file (rk_db s))"
proof -
  from s obtain V Z L where h: "holds_with cfg {#} Z (rk_db s) L V" "spare 2 L V"
      "mode \<Longrightarrow> rh_fd (rk_cache s) < 0 \<Longrightarrow> V = no_vrps"
    by (auto simp: cache_ok_def elim!: cache_stateD)
  show ?thesis
  proof (cases configured)
    case False
    then show ?thesis using s by (simp add: rpki_roas_file_reload_def)
  next
    case True
    have small': "\<forall>js. file_roas file = Some js \<longrightarrow> length js + 2 < 2 ^ 32" using small by (simp add: files_small_def)
    from file_reload_ok [OF io h(1) spare_mono [OF h(2)] small', of stray errno configured] obtain db' Z' where
      r: "rpki_roas_file_reload cfg stray aton pton errno configured file (rk_db s) = Inr db'"
        "case file_roas file of None \<Rightarrow> holds_with cfg {#} Z' db' L V
         | Some js \<Rightarrow> holds_with cfg {#} Z' db' no_locks (fold announce_prefix (roas_read aton pton errno js) no_vrps)"
      using True by auto
    show ?thesis
    proof (cases "file_roas file")
      case None
      then have "cache_state 2 cfg mode V (s\<lparr>rk_db := db'\<rparr>)"
        using r(2) h(2,3) by (intro cache_stateI [where Z = Z' and L = L]) auto
      then show ?thesis using r(1) by (auto simp: cache_ok_def)
    next
      case (Some js)
      let ?V = "fold announce_prefix (roas_read aton pton errno js) no_vrps"
      have "spare 0 no_locks ?V"
        using fold_announce_spare [of "roas_read aton pton errno js" 0 no_locks no_vrps] roas_read_length [of aton pton errno js]
          small' Some by auto
      then have "cache_state 0 cfg mode ?V (s\<lparr>rk_db := db'\<rparr>)"
        using r(2) Some one True by (intro cache_stateI) auto
      then show ?thesis using r(1) one True by (auto simp: cache_ok_def)
    qed
  qed
qed

text \<open>What is asked of a turn: the answers of the system are possible ones, there is room for locks, and the
  message at the front is one that the code survives.\<close>

definition turn_ok :: "rpki_turn \<Rightarrow> rpki_state \<Rightarrow> bool" where
  "turn_ok ev s \<longleftrightarrow> files_small (rt_file ev) \<and> 0 \<le> rt_socket ev \<and> roa_room (rk_db s)
     \<and> (0 < rh_fd (rk_cache s) \<longrightarrow> 2 \<le> length (rk_in s) \<longrightarrow> pdu_ok (rk_in s))"

lemma turn_runs:
  assumes io: "inet_ok aton pton" and s: "cache_ok 0 cfg (rc_rtr_cache rc) s" and ev: "turn_ok ev s"
    and one: "\<not> (rc_rtr_cache rc \<and> rc_roas_file rc)"
  shows "runs (cache_ok 0 cfg (rc_rtr_cache rc)) (rpki_daemon_turn cfg rc stray aton pton ev s)"
proof -
  let ?mode = "rc_rtr_cache rc"
  let ?s = "if ?mode then s\<lparr>rk_cache := (rk_cache s)\<lparr>rh_now := rt_now ev\<rparr>\<rparr> else s"
  have 0: "cache_ok 0 cfg ?mode ?s" by (rule cache_ok_cong [OF _ _ s]) (auto split: if_splits)
  have room: "roa_room (rk_db s)" using ev by (simp add: turn_ok_def)
  have "cache_ok 2 cfg ?mode s" using s unfolding cache_ok_def by (blast intro: cache_room [OF _ room])
  then have 2: "cache_ok 2 cfg ?mode ?s" by (rule cache_ok_cong [rotated 2]) (auto split: if_splits)
  have pdu: "0 < rh_fd (rk_cache ?s) \<Longrightarrow> 2 \<le> length (rk_in ?s) \<Longrightarrow> pdu_ok (rk_in ?s)"
    using ev by (auto simp: turn_ok_def split: if_splits)
  have weak: "runs (cache_ok 0 cfg ?mode) r" if "runs (cache_ok n cfg ?mode) r" for r n
    by (rule runs_mono [OF that]) (erule cache_ok_less, simp)
  show ?thesis
  proof (cases ?mode)
    case True
    with one have nofile: "\<not> rc_roas_file rc" by simp
    have reload: "fbind (if rt_reload ev then fbind (rpki_roas_file_reload cfg stray aton pton (rt_errno ev) (rc_roas_file rc)
        (rt_file ev) (rk_db ?s)) (\<lambda>db. Inr (?s\<lparr>rk_db := db\<rparr>)) else Inr ?s) f = f ?s" for f :: "rpki_state \<Rightarrow> rpki_state run"
      using nofile by (simp add: rpki_roas_file_reload_def)
    have "runs (cache_ok 0 cfg ?mode) (rpki_timeout cfg rc stray ev ?s)"
      by (rule weak, rule timeout_ok [OF 2]) (use ev in \<open>auto simp: turn_ok_def\<close>)
    moreover have "runs (cache_ok 0 cfg ?mode) (rpki_rtr_parse_msg cfg stray (rc_version rc) (rt_avail ev) ?s)"
      by (rule weak, rule parse_msg_ok [OF 2 pdu])
    ultimately show ?thesis
      unfolding rpki_daemon_turn_def Let_def reload using True 0 by (intro runs_if) simp_all
  next
    case False
    have small: "files_small (rt_file ev)" using ev by (simp add: turn_ok_def)
    have "cache_ok 2 cfg ?mode s" using 2 False by simp
    from reload_ok [OF io small this, of "rc_roas_file rc" stray "rt_errno ev"] False
    have "runs (\<lambda>db. cache_ok 0 cfg ?mode (s\<lparr>rk_db := db\<rparr>))
        (rpki_roas_file_reload cfg stray aton pton (rt_errno ev) (rc_roas_file rc) (rt_file ev) (rk_db s))"
      by (auto elim!: runs_mono intro: cache_ok_less)
    then have "runs (cache_ok 0 cfg ?mode) (fbind (rpki_roas_file_reload cfg stray aton pton (rt_errno ev) (rc_roas_file rc)
        (rt_file ev) (rk_db s)) (\<lambda>db. Inr (s\<lparr>rk_db := db\<rparr>)))" by (auto simp: runs_iff)
    moreover have "fbind r Inr = r" for r :: "rpki_state run" by (cases r) simp_all
    ultimately show ?thesis using 0 False by (simp add: rpki_daemon_turn_def Let_def)
  qed
qed

lemma init_ok:
  assumes io: "inet_ok aton pton" and small: "files_small file"
    and run: "rpki_daemon_init cfg rc stray aton pton errno file now = Inr s"
  shows "cache_ok 0 cfg (rc_rtr_cache rc) s" "\<not> (rc_rtr_cache rc \<and> rc_roas_file rc)"
proof -
  show one: "\<not> (rc_rtr_cache rc \<and> rc_roas_file rc)" using run by (auto simp: rpki_daemon_init_def split: if_splits)
  have small': "\<forall>js. file_roas file = Some js \<longrightarrow> length js + 2 < 2 ^ 32" using small by (simp add: files_small_def)
  have start: "cache_ok 0 cfg mode t" if "rk_db t = roa_db_init" for mode t
    using cache_stateI [of cfg "{#}" t no_locks no_vrps 0 mode] roa_db_init_ok that by (auto simp: cache_ok_def)
  show "cache_ok 0 cfg (rc_rtr_cache rc) s"
  proof (cases "rc_roas_file rc")
    case False
    then have "rk_db s = roa_db_init" using run by (auto simp: rpki_daemon_init_def split: if_splits)
    then show ?thesis by (rule start)
  next
    case True
    with one have mode: "\<not> rc_rtr_cache rc" by simp
    from file_load_ok [OF io roa_db_init_ok small', of cfg stray errno] obtain ret db' Z' where
      l: "rpki_roas_file_load cfg stray aton pton errno file roa_db_init = Inr (ret, db')"
        "case file_roas file of None \<Rightarrow> ret = ERR \<and> db' = roa_db_init \<and> Z' = {#}
         | Some js \<Rightarrow> ret = SUCCESS
             \<and> holds_with cfg {#} Z' db' no_locks (fold announce_prefix (roas_read aton pton errno js) no_vrps)"
      by blast
    have s: "rk_db s = db'" using run True mode l(1) by (auto simp: rpki_daemon_init_def)
    show ?thesis
    proof (cases "file_roas file")
      case None
      then show ?thesis using l(2) s by (intro start) simp
    next
      case (Some js)
      let ?V = "fold announce_prefix (roas_read aton pton errno js) no_vrps"
      have "spare 0 no_locks ?V"
        using fold_announce_spare [of "roas_read aton pton errno js" 0 no_locks no_vrps] roas_read_length [of aton pton errno js]
          small' Some by auto
      then have "cache_state 0 cfg (rc_rtr_cache rc) ?V s"
        using l(2) Some s mode by (intro cache_stateI) auto
      then show ?thesis by (auto simp: cache_ok_def)
    qed
  qed
qed

section \<open>Reachable states\<close>

inductive rpki_reach ::
  "bgp_config \<Rightarrow> rpki_config \<Rightarrow> (string \<Rightarrow> u8 list option) \<Rightarrow> (string \<Rightarrow> u8 list option) \<Rightarrow> rpki_state \<Rightarrow> bool"
  for cfg rc aton pton where
  start: "files_small file \<Longrightarrow> rpki_daemon_init cfg rc stray aton pton errno file now = Inr s \<Longrightarrow>
    rpki_reach cfg rc aton pton s"
| turn: "rpki_reach cfg rc aton pton s \<Longrightarrow> turn_ok ev s \<Longrightarrow>
    rpki_daemon_turn cfg rc stray aton pton ev s = Inr s' \<Longrightarrow> rpki_reach cfg rc aton pton s'"
| look: "rpki_reach cfg rc aton pton s \<Longrightarrow> roa_room (rk_db s) \<Longrightarrow> prefix_wf p \<Longrightarrow>
    rpki_prefix_lookup stray (Some (rk_db s)) p asn = Inr (r, Some db) \<Longrightarrow>
    rpki_reach cfg rc aton pton (s\<lparr>rk_db := db\<rparr>)"

lemma lookup_state:
  assumes s: "cache_state 0 cfg mode V s" and room: "roa_room (rk_db s)" and p: "prefix_wf p"
  shows "\<exists>db. rpki_prefix_lookup stray (Some (rk_db s)) p asn
      = Inr (origin_validation (V (family2afi (p_family p))) p asn, Some db)
    \<and> cache_state 0 cfg mode V (s\<lparr>rk_db := db\<rparr>)"
proof -
  let ?afi = "family2afi (p_family p)"
  from cache_room [OF s room] obtain Z L where h: "holds_with cfg {#} Z (rk_db s) L V" "spare 2 L V"
    "mode \<Longrightarrow> rh_fd (rk_cache s) < 0 \<Longrightarrow> V = no_vrps" by (rule cache_stateD) blast
  from prefix_lookup_ok [OF h(1) p spare_mono [OF h(2)] refl refl, of stray asn] obtain db ks Z' L' where
    r: "rpki_prefix_lookup stray (Some (rk_db s)) p asn = Inr (origin_validation (V ?afi) p asn, Some db)"
      "holds_with cfg {#} Z' db L' V" "L' = L \<or> L' = L(?afi := (L ?afi)(ks := Suc (L ?afi ks)))"
    by (auto split: if_splits)
  have "spare 0 L' V"
    unfolding spare_def
  proof (intro ballI allI)
    fix a k assume "a \<in> {AFI_IP, AFI_IP6}"
    then have "L a k + length (V a k) + 2 < 2 ^ 32" using h(2) unfolding spare_def by blast
    then show "L' a k + length (V a k) + 0 < 2 ^ 32" using r(3) by (cases "a = ?afi"; cases "k = ks") auto
  qed
  then show ?thesis using r(1,2) h(3) by (auto intro!: cache_stateI)
qed

lemma rpki_reach_inv:
  assumes "rpki_reach cfg rc aton pton s" "inet_ok aton pton"
  shows "cache_ok 0 cfg (rc_rtr_cache rc) s \<and> \<not> (rc_rtr_cache rc \<and> rc_roas_file rc)"
  using assms
proof induction
  case (start fl stray errno now s)
  then show ?case using init_ok by blast
next
  case (turn s ev stray s')
  then show ?case using turn_runs [of aton pton cfg rc s ev stray] by simp
next
  case (look s p stray asn r db)
  then obtain V where V: "cache_state 0 cfg (rc_rtr_cache rc) V s" and one: "\<not> (rc_rtr_cache rc \<and> rc_roas_file rc)"
    by (auto simp: cache_ok_def)
  from lookup_state [OF V look.hyps(2,3), of stray asn] look.hyps(4)
  have "cache_state 0 cfg (rc_rtr_cache rc) V (s\<lparr>rk_db := db\<rparr>)" by auto
  then show ?case using one by (auto simp: cache_ok_def)
qed

end
