(* ===== verification/NfTemplate.thy ===== *)
theory NfTemplate
  imports BgpLookup
begin

text \<open>
  Templates of NetFlow v9 and IPFIX (nfv9\_template.c): how a template record becomes the places and
  lengths of fields, the cache of templates, and the places of fields in a record with fields of variable
  length. The files of templates and the logging are left out.
\<close>

section \<open>Constants\<close>

definition IPFIX_TPL_EBIT :: u16 where "IPFIX_TPL_EBIT = 0x8000"
definition IPFIX_VARIABLE_LENGTH :: u16 where "IPFIX_VARIABLE_LENGTH = 65535"
definition NF9_MAX_DEFINED_FIELD :: nat where "NF9_MAX_DEFINED_FIELD = 384"
definition NF9_IPV4_SRC_ADDR :: u16 where "NF9_IPV4_SRC_ADDR = 8"
definition NF9_IPV6_SRC_ADDR :: u16 where "NF9_IPV6_SRC_ADDR = 27"
definition IES_PER_TPL_EXT_DB_ENTRY :: nat where "IES_PER_TPL_EXT_DB_ENTRY = 32"
definition TPL_EXT_DB_ENTRIES :: nat where "TPL_EXT_DB_ENTRIES = 8"
definition TPL_LIST_ENTRIES :: nat where "TPL_LIST_ENTRIES = 256"
definition TPL_MAX_ELEM_REPEATS :: nat where "TPL_MAX_ELEM_REPEATS = 3"
definition TPL_TYPE_UNKNOWN :: u8 where "TPL_TYPE_UNKNOWN = 0"
definition TPL_TYPE_LEGACY :: u8 where "TPL_TYPE_LEGACY = 1"
definition TPL_TYPE_EXT_DB :: u8 where "TPL_TYPE_EXT_DB = 2"

text \<open>The sizes of the headers, which nfacctd.c computes at start.\<close>

definition NfTplHdrV9Sz :: nat where "NfTplHdrV9Sz = 4"
definition NfTplFieldV9Sz :: nat where "NfTplFieldV9Sz = 4"
definition NfOptTplHdrV9Sz :: nat where "NfOptTplHdrV9Sz = 6"

lemmas tpl_consts = IPFIX_VARIABLE_LENGTH_def NF9_MAX_DEFINED_FIELD_def IES_PER_TPL_EXT_DB_ENTRY_def
  TPL_EXT_DB_ENTRIES_def TPL_LIST_ENTRIES_def TPL_MAX_ELEM_REPEATS_def TPL_TYPE_UNKNOWN_def TPL_TYPE_LEGACY_def
  TPL_TYPE_EXT_DB_def NfTplHdrV9Sz_def NfTplFieldV9Sz_def NfOptTplHdrV9Sz_def

section \<open>A template\<close>

text \<open>A field of a type below 384 is described in the array \<open>fld\<close>, up to three of the same type; all others
  in \<open>ext_db\<close>, eight chains of 32. The arrays are functions here, and every access checks their sizes.\<close>

record otpl_field =
  of_off :: "u16 list"
  of_len :: "u16 list"
  of_tpl_len :: "u16 list"
  of_count :: u8

record utpl_field =
  uf_pen :: u32
  uf_type :: u16
  uf_off :: u16
  uf_len :: u16
  uf_tpl_len :: u16
  uf_repeat_id :: u8

text \<open>\<open>Fld t\<close> is \<open>&tpl->fld[t]\<close>, \<open>Ie m i\<close> is \<open>&tpl->ext_db[m].ie[i]\<close>.\<close>

datatype tpl_ptr = Fld nat | Ie nat nat

record tpl_field_list =
  tl_type :: u8
  tl_repeat :: u8
  tl_ptr :: "tpl_ptr option"

datatype layer_prot = L_none | L_ipv4 | L_ipv6

text \<open>The identifier of a template stays in network order, which is only compared; it is a number here.\<close>

record template_cache_entry =
  te_agent :: host_addr
  te_version :: u8
  te_source_id :: u32
  te_template_id :: u16
  te_template_type :: u16
  te_num :: u16
  te_len :: u16
  te_vlen :: bool
  te_fld :: "nat \<Rightarrow> otpl_field"
  te_ext_db :: "nat \<Rightarrow> utpl_field list"
  te_list :: "nat \<Rightarrow> tpl_field_list"
  te_prots :: "layer_prot list"
  te_layers :: u8

definition otpl_zero :: otpl_field where
  "otpl_zero = \<lparr>of_off = [0, 0, 0], of_len = [0, 0, 0], of_tpl_len = [0, 0, 0], of_count = 0\<rparr>"

definition utpl_zero :: utpl_field where
  "utpl_zero = \<lparr>uf_pen = 0, uf_type = 0, uf_off = 0, uf_len = 0, uf_tpl_len = 0, uf_repeat_id = 0\<rparr>"

text \<open>A template that is allocated, cleared, and given its header.\<close>

definition tpl_new :: "host_addr \<Rightarrow> u8 \<Rightarrow> u32 \<Rightarrow> u16 \<Rightarrow> u16 \<Rightarrow> u16 \<Rightarrow> template_cache_entry" where
  "tpl_new agent version sid tid type num =
     \<lparr>te_agent = agent, te_version = version, te_source_id = sid, te_template_id = tid, te_template_type = type,
      te_num = num, te_len = 0, te_vlen = False, te_fld = (\<lambda>_. otpl_zero),
      te_ext_db = (\<lambda>_. replicate IES_PER_TPL_EXT_DB_ENTRY utpl_zero),
      te_list = (\<lambda>_. \<lparr>tl_type = TPL_TYPE_UNKNOWN, tl_repeat = 0, tl_ptr = None\<rparr>),
      te_prots = replicate TPL_MAX_ELEM_REPEATS L_none, te_layers = 0\<rparr>"

section \<open>Fields outside of the known types\<close>

fun next_ie :: "u16 \<Rightarrow> utpl_field list \<Rightarrow> nat \<Rightarrow> u8 \<Rightarrow> nat option \<times> u8" where
  "next_ie type [] i repeat_id = (None, repeat_id)"
| "next_ie type (ie # ies) i repeat_id =
     (let repeat_id = (if uf_type ie = type then repeat_id + 1 else repeat_id)
      in if uf_type ie = 0 then (Some i, repeat_id) else next_ie type ies (Suc i) repeat_id)"

definition ext_db_get_next_ie :: "template_cache_entry \<Rightarrow> u16 \<Rightarrow> nat option \<times> u8" where
  "ext_db_get_next_ie tpl type = next_ie type (te_ext_db tpl (unat type mod TPL_EXT_DB_ENTRIES)) 0 0"

definition ext_db_get_ie :: "template_cache_entry \<Rightarrow> u32 \<Rightarrow> u16 \<Rightarrow> u8 \<Rightarrow> utpl_field option" where
  "ext_db_get_ie tpl pen type repeat_id =
     find (\<lambda>ie. uf_type ie = type \<and> uf_pen ie = pen \<and> uf_repeat_id ie = repeat_id)
       (te_ext_db tpl (unat type mod TPL_EXT_DB_ENTRIES))"

section \<open>Adding a field\<close>

definition evaluate_layer_prot :: "u16 \<Rightarrow> layer_prot" where
  "evaluate_layer_prot type =
     (if type = NF9_IPV4_SRC_ADDR then L_ipv4 else if type = NF9_IPV6_SRC_ADDR then L_ipv6 else L_none)"

definition add_layer :: "u16 \<Rightarrow> template_cache_entry \<Rightarrow> template_cache_entry" where
  "add_layer type tpl =
     (let prot = evaluate_layer_prot type;
          n = (if unat (te_layers tpl) < TPL_MAX_ELEM_REPEATS then te_layers tpl + 1 else te_layers tpl)
      in if prot = L_none then tpl
         else tpl\<lparr>te_layers := n, te_prots := (te_prots tpl)[unat n - 1 := prot]\<rparr>)"

text \<open>A field of a known type. The fourth of a type takes the place of the third. Templates of options
  (\<open>opts\<close>) set the place of a field of fixed length once more.\<close>

definition legacy_field :: "bool \<Rightarrow> u16 \<Rightarrow> u16 \<Rightarrow> nat \<Rightarrow> template_cache_entry \<Rightarrow> template_cache_entry" where
  "legacy_field opts type flen idx tpl =
     (let f = te_fld tpl (unat type);
          c = (if unat (of_count f) < TPL_MAX_ELEM_REPEATS then of_count f + 1 else of_count f);
          i = unat c - 1;
          var = (flen = IPFIX_VARIABLE_LENGTH);
          f = f\<lparr>of_count := c, of_off := (of_off f)[i := if te_vlen tpl \<and> (opts \<longrightarrow> var) then 0 else te_len tpl],
                of_tpl_len := (of_tpl_len f)[i := flen], of_len := (of_len f)[i := if var then 0 else flen]\<rparr>
      in tpl\<lparr>te_fld := (te_fld tpl)(unat type := f), te_vlen := te_vlen tpl \<or> var,
             te_len := if var then 0 else if te_vlen tpl then te_len tpl else te_len tpl + flen,
             te_list := (te_list tpl)(idx := \<lparr>tl_type = TPL_TYPE_LEGACY, tl_repeat = c, tl_ptr = Some (Fld (unat type))\<rparr>)\<rparr>)"

text \<open>A field of another type. There may be no room for it, and then its pointer is null.\<close>

definition ext_field :: "u16 \<Rightarrow> u32 option \<Rightarrow> u16 \<Rightarrow> nat \<Rightarrow> template_cache_entry \<Rightarrow> template_cache_entry" where
  "ext_field type pen flen idx tpl =
     (let m = unat type mod TPL_EXT_DB_ENTRIES; var = (flen = IPFIX_VARIABLE_LENGTH)
      in case ext_db_get_next_ie tpl type of
           (None, _) \<Rightarrow> tpl\<lparr>te_list := (te_list tpl)(idx := (te_list tpl idx)\<lparr>tl_type := TPL_TYPE_EXT_DB, tl_ptr := None\<rparr>)\<rparr>
         | (Some i, repeat_id) \<Rightarrow>
             let ie = te_ext_db tpl m ! i;
                 ie = ie\<lparr>uf_pen := (case pen of None \<Rightarrow> uf_pen ie | Some p \<Rightarrow> p), uf_type := type,
                         uf_off := if te_vlen tpl then 0 else te_len tpl, uf_tpl_len := flen,
                         uf_repeat_id := repeat_id, uf_len := if var then 0 else flen\<rparr>
             in tpl\<lparr>te_ext_db := (te_ext_db tpl)(m := (te_ext_db tpl m)[i := ie]), te_vlen := te_vlen tpl \<or> var,
                    te_len := if var then 0 else if te_vlen tpl then te_len tpl else te_len tpl + flen,
                    te_list := (te_list tpl)(idx :=
                      (te_list tpl idx)\<lparr>tl_type := TPL_TYPE_EXT_DB, tl_ptr := Some (Ie m i)\<rparr>)\<rparr>)"

text \<open>Reading a field specifier at position \<open>p\<close>: type, length, and the enterprise number of IPFIX.\<close>

definition read_field :: "u8 \<Rightarrow> u8 list \<Rightarrow> nat \<Rightarrow> (u16 \<times> u16 \<times> u32 option) run" where
  "read_field version pkt p =
     fbind (peek16 pkt p) (\<lambda>type. fbind (peek16 pkt (p + 2)) (\<lambda>flen.
       if type AND IPFIX_TPL_EBIT \<noteq> 0 \<and> version = 10
       then fbind (peek32 pkt (p + 4)) (\<lambda>pen. Inr (type XOR IPFIX_TPL_EBIT, flen, Some pen))
       else Inr (type, flen, None)))"

definition field_size :: "u32 option \<Rightarrow> nat" where
  "field_size pen = (if pen = None then NfTplFieldV9Sz else NfTplFieldV9Sz + 4)"

definition is_legacy :: "u16 \<Rightarrow> u32 option \<Rightarrow> bool" where
  "is_legacy type pen \<longleftrightarrow> unat type < NF9_MAX_DEFINED_FIELD \<and> pen = None"

section \<open>Templates of data\<close>

text \<open>The loop over the \<open>n\<close> fields that are left, the next one at \<open>h + off\<close>. The counters have 16 bits, and
  do not wrap within the 256 fields that a template can have. The second result is \<open>pens\<close>.\<close>

fun template_fields ::
  "u8 list \<Rightarrow> nat \<Rightarrow> nat \<Rightarrow> nat \<Rightarrow> nat \<Rightarrow> nat \<Rightarrow> u16 \<Rightarrow> template_cache_entry \<Rightarrow> (template_cache_entry option \<times> u16) run" where
  "template_fields pkt h len 0 idx off pens tpl = Inr (Some tpl, pens)"
| "template_fields pkt h len (Suc n) idx off pens tpl =
     (if TPL_LIST_ENTRIES \<le> idx \<or> len \<le> off then Inr (None, pens)
      else fbind (read_field (te_version tpl) pkt (h + off)) (\<lambda>(type, flen, pen).
             template_fields pkt h len n (Suc idx) (off + field_size pen) (if pen = None then pens else pens + 1)
               (if is_legacy type pen then add_layer type (legacy_field False type flen idx tpl)
                else ext_field type pen flen idx tpl)))"

text \<open>A template record at \<open>h\<close>, with \<open>len\<close> octets left in its flowset.\<close>

definition compose_template ::
  "u8 list \<Rightarrow> nat \<Rightarrow> sockaddr \<Rightarrow> u32 \<Rightarrow> u8 \<Rightarrow> nat \<Rightarrow> (template_cache_entry option \<times> u16) run" where
  "compose_template pkt h agent sid version len =
     fbind (peek16 pkt h) (\<lambda>tid. fbind (peek16 pkt (h + 2)) (\<lambda>num.
       template_fields pkt h len (unat num) 0 NfTplHdrV9Sz 0
         (tpl_new (fst (sa_to_addr (sa_addr agent) (ntohs (sa_port agent)) 0)) version sid tid 0 num)))"

section \<open>Templates of options\<close>

text \<open>The loop is the same but for what it does not have: the check of the number of fields, the layers, and
  the check of the pointer to a field for which there is no room.\<close>

fun opt_template_fields ::
  "u8 list \<Rightarrow> nat \<Rightarrow> nat \<Rightarrow> nat \<Rightarrow> nat \<Rightarrow> nat \<Rightarrow> u16 \<Rightarrow> template_cache_entry \<Rightarrow> (template_cache_entry option \<times> u16) run" where
  "opt_template_fields pkt h len 0 idx off pens tpl = Inr (Some tpl, pens)"
| "opt_template_fields pkt h len (Suc n) idx off pens tpl =
     (if len \<le> off then Inr (None, pens)
      else fbind (read_field (te_version tpl) pkt (h + off)) (\<lambda>(type, flen, pen).
             if \<not> is_legacy type pen \<and> fst (ext_db_get_next_ie tpl type) = None then Inl NullDeref
             else if TPL_LIST_ENTRIES \<le> idx then Inl OutOfBounds
             else opt_template_fields pkt h len n (Suc idx) (off + field_size pen) (if pen = None then pens else pens + 1)
               (if is_legacy type pen then legacy_field True type flen idx tpl else ext_field type pen flen idx tpl)))"

text \<open>NetFlow v9 gives the lengths of scopes and options, IPFIX the numbers of fields and of scopes.\<close>

definition compose_opt_template ::
  "u8 list \<Rightarrow> nat \<Rightarrow> sockaddr \<Rightarrow> nat \<Rightarrow> u32 \<Rightarrow> u8 \<Rightarrow> nat \<Rightarrow> (template_cache_entry option \<times> u16) run" where
  "compose_opt_template pkt h agent tpl_type sid version len =
     fbind (peek16 pkt h) (\<lambda>tid. fbind (peek16 pkt (h + 2)) (\<lambda>a. fbind (peek16 pkt (h + 4)) (\<lambda>b.
       let (slen, olen) = (if tpl_type = 1 then (u16n (unat a div NfTplFieldV9Sz), u16n (unat b div NfTplFieldV9Sz))
                           else (b, a - b))
       in if tpl_type \<noteq> 1 \<and> tpl_type \<noteq> 3 then Inr (None, 0)
          else opt_template_fields pkt h len (unat olen + unat slen) 0 NfOptTplHdrV9Sz 0
                 (tpl_new (fst (sa_to_addr (sa_addr agent) (ntohs (sa_port agent)) 0)) version sid tid 1 (olen + slen)))))"

section \<open>The cache\<close>

text \<open>The key has the address of the exporter without its port. The map is one of the vendored library
  libcdada, a map that refuses null values.\<close>

type_synonym tpl_key = "u8 \<times> u16 \<times> u32 \<times> sockaddr"

type_synonym tpl_map = "tpl_key \<rightharpoonup> template_cache_entry"

definition compose_template_key :: "u8 \<Rightarrow> u16 \<Rightarrow> sockaddr \<Rightarrow> u32 \<Rightarrow> tpl_key" where
  "compose_template_key nf_version template_id agent source_id =
     (nf_version, template_id, source_id,
      if fst (sa_addr agent) = AF_INET \<or> fst (sa_addr agent) = AF_INET6 then agent\<lparr>sa_port := 0\<rparr> else agent)"

definition handle_template_v2 ::
  "u8 list \<Rightarrow> nat \<Rightarrow> sockaddr \<Rightarrow> nat \<Rightarrow> u32 \<Rightarrow> nat \<Rightarrow> tpl_map \<Rightarrow> (template_cache_entry option \<times> u16 \<times> tpl_map) run" where
  "handle_template_v2 pkt h agent tpl_type sid len cache =
     fbind (peek16 pkt h) (\<lambda>tid.
       let version = (if tpl_type = 0 \<or> tpl_type = 1 then 9 else if tpl_type = 2 \<or> tpl_type = 3 then 10 else 0);
           key = compose_template_key version tid agent sid
       in fbind (if tpl_type = 0 \<or> tpl_type = 2 then compose_template pkt h agent sid version len
                 else if tpl_type = 1 \<or> tpl_type = 3 then compose_opt_template pkt h agent tpl_type sid version len
                 else Inr (None, 0)) (\<lambda>(tpl, pens). Inr (tpl, pens, cache(key := tpl))))"

definition find_template_v2 :: "u16 \<Rightarrow> sockaddr \<Rightarrow> u8 \<Rightarrow> u32 \<Rightarrow> tpl_map \<Rightarrow> template_cache_entry option" where
  "find_template_v2 tid agent version sid cache = cache (compose_template_key version tid agent sid)"

section \<open>Records with fields of variable length\<close>

text \<open>The length that is in front of a field, in one octet or in three; the first result is how many those
  are, and the second is what \<open>len\<close> holds then.\<close>

definition get_ipfix_vlen :: "u8 list \<Rightarrow> nat \<Rightarrow> nat \<Rightarrow> u16 \<Rightarrow> (int \<times> u16) run" where
  "get_ipfix_vlen pkt base remlen len =
     (if 1 \<le> remlen
      then fbind (peek pkt base) (\<lambda>len8.
             if unat len8 < 255 then Inr (1, ucast len8)
             else if 3 \<le> remlen then fbind (peek16 pkt (base + 1)) (\<lambda>len16. Inr (3, len16))
             else Inr (ERR, len))
      else Inr (ERR, len))"

text \<open>One field of a record at \<open>p\<close>, behind \<open>len\<close> octets of it: the place, length and announced length that
  are stored come in, the new place and length go out, with the new \<open>len\<close> and \<open>vlen\<close>.\<close>

definition resolve_field ::
  "u8 list \<Rightarrow> nat \<Rightarrow> nat \<Rightarrow> u16 \<Rightarrow> bool \<Rightarrow> u16 \<Rightarrow> u16 \<Rightarrow> u16 \<Rightarrow> (int \<times> u16 \<times> u16 \<times> u16 \<times> bool) run" where
  "resolve_field pkt p remlen len vlen foff flen ftpl =
     (let foff = (if vlen then len else foff)
      in if ftpl = IPFIX_VARIABLE_LENGTH
         then fbind (get_ipfix_vlen pkt (p + unat len) (remlen - unat len) flen) (\<lambda>(ret, flen).
                if 0 < ret
                then let add_len = u16n (nat ret)
                     in Inr (SUCCESS, len + add_len, flen, len + (flen + add_len), True)
                else Inr (ERR, foff, flen, len, True))
         else Inr (SUCCESS, foff, flen, len + flen, vlen))"

text \<open>The loop over the \<open>n\<close> fields that are left, \<open>idx\<close> the next. With an error, what was stored stays.\<close>

fun resolve_fields ::
  "u8 list \<Rightarrow> nat \<Rightarrow> nat \<Rightarrow> nat \<Rightarrow> nat \<Rightarrow> u16 \<Rightarrow> bool \<Rightarrow> template_cache_entry \<Rightarrow> (int \<times> template_cache_entry) run" where
  "resolve_fields pkt p remlen 0 idx len vlen tpl = Inr (SUCCESS, tpl\<lparr>te_len := len\<rparr>)"
| "resolve_fields pkt p remlen (Suc n) idx len vlen tpl =
     (if TPL_LIST_ENTRIES \<le> idx then Inl OutOfBounds
      else let item = te_list tpl idx; r = unat (tl_repeat item) - 1;
               go = (\<lambda>(ret, len, vlen, tpl).
                 if ret = ERR \<or> remlen < unat len then Inr (ERR, tpl)
                 else resolve_fields pkt p remlen n (Suc idx) len vlen tpl)
      in if tl_type item = TPL_TYPE_LEGACY
         then case tl_ptr item of
                Some (Fld t) \<Rightarrow>
                  let f = te_fld tpl t
                  in fbind (resolve_field pkt p remlen len vlen (of_off f ! r) (of_len f ! r) (of_tpl_len f ! r))
                       (\<lambda>(ret, foff, flen, len, vlen).
                          go (ret, len, vlen, tpl\<lparr>te_fld := (te_fld tpl)(t :=
                                f\<lparr>of_off := (of_off f)[r := foff], of_len := (of_len f)[r := flen]\<rparr>)\<rparr>))
              | _ \<Rightarrow> Inl NullDeref
         else if tl_type item = TPL_TYPE_EXT_DB
         then case tl_ptr item of
                Some (Ie m i) \<Rightarrow>
                  let ie = te_ext_db tpl m ! i
                  in fbind (resolve_field pkt p remlen len vlen (uf_off ie) (uf_len ie) (uf_tpl_len ie))
                       (\<lambda>(ret, foff, flen, len, vlen).
                          go (ret, len, vlen, tpl\<lparr>te_ext_db := (te_ext_db tpl)(m :=
                                (te_ext_db tpl m)[i := ie\<lparr>uf_off := foff, uf_len := flen\<rparr>])\<rparr>))
              | _ \<Rightarrow> Inl NullDeref
         else go (SUCCESS, len, vlen, tpl))"

definition resolve_vlen_template ::
  "u8 list \<Rightarrow> nat \<Rightarrow> nat \<Rightarrow> template_cache_entry \<Rightarrow> (int \<times> template_cache_entry) run" where
  "resolve_vlen_template pkt p remlen tpl = resolve_fields pkt p remlen (unat (te_num tpl)) 0 0 False tpl"

end
