(* ===== verification/NfFlowset.thy ===== *)
theory NfFlowset
  imports NfTemplate
begin

text \<open>
  Packets of NetFlow v5 and v9 and of IPFIX (nfacctd.c): the flowsets of a packet, the templates of a flowset,
  the records of a flowset. What is done with a record is not part of these functions: they give the places of
  the records, with the template as it is when the record is handed on. The type of the flow of a record
  (\<open>NF_evaluate_flow_type\<close>) is a function of its own. \<open>pkt\<close> is the receive buffer, of which the first \<open>len\<close>
  octets are the packet; there is no replication to other collectors (\<open>tee_dissect\<close>), the counters of malformed
  packets and the log are left out.
\<close>

definition NfHdrV5Sz :: nat where "NfHdrV5Sz = 24"
definition NfHdrV9Sz :: nat where "NfHdrV9Sz = 20"
definition IpFixHdrSz :: nat where "IpFixHdrSz = 16"
definition NfDataHdrV9Sz :: nat where "NfDataHdrV9Sz = 4"
definition NfDataV5Sz :: nat where "NfDataV5Sz = 48"
definition V5_MAXFLOWS :: nat where "V5_MAXFLOWS = 30"

lemmas flowset_consts = NfHdrV5Sz_def NfHdrV9Sz_def IpFixHdrSz_def NfDataHdrV9Sz_def NfDataV5Sz_def V5_MAXFLOWS_def

section \<open>NetFlow v5\<close>

text \<open>The places of the records of a packet, and whether the packet is well-formed.\<close>

definition process_v5_packet :: "u8 list \<Rightarrow> nat \<Rightarrow> (bool \<times> nat list) run" where
  "process_v5_packet pkt len =
     fbind (peek16 pkt 2) (\<lambda>w.
       let n = unat w
       in if len < NfHdrV5Sz then Inr (False, [])
          else if n \<le> V5_MAXFLOWS \<and> n * NfDataV5Sz + NfHdrV5Sz = len
          then Inr (True, map (\<lambda>i. NfHdrV5Sz + i * NfDataV5Sz) [0..<n])
          else Inr (False, []))"

section \<open>Flowsets of templates\<close>

text \<open>The length of a template record, from what it announces.\<close>

definition template_len :: "u8 list \<Rightarrow> nat \<Rightarrow> nat \<Rightarrow> u16 \<Rightarrow> nat run" where
  "template_len pkt tp fid pens =
     (if fid = 0 \<or> fid = 2
      then fbind (peek16 pkt (tp + 2)) (\<lambda>num. Inr (NfTplHdrV9Sz + unat num * NfTplFieldV9Sz + unat pens * 4))
      else if fid = 3
      then fbind (peek16 pkt (tp + 2)) (\<lambda>num. Inr (NfOptTplHdrV9Sz + unat num * NfTplFieldV9Sz + unat pens * 4))
      else fbind (peek16 pkt (tp + 2)) (\<lambda>slen. fbind (peek16 pkt (tp + 4)) (\<lambda>olen.
             Inr (NfOptTplHdrV9Sz + (unat slen + unat olen + unat pens * 4)))))"

text \<open>The loop over the templates of a flowset of templates (\<open>fid\<close> is 0 or 2) or of templates of options (1
  or 3): the next one is at \<open>tp\<close>, \<open>flowoff\<close> octets behind the start of the flowset, which is at \<open>off\<close>. The second
  result is false when the function returns at once. A turn takes 4 octets at least.\<close>

fun template_flowset ::
  "nat \<Rightarrow> u8 list \<Rightarrow> nat \<Rightarrow> nat \<Rightarrow> nat \<Rightarrow> sockaddr \<Rightarrow> u32 \<Rightarrow> nat \<Rightarrow> nat \<Rightarrow> nat \<Rightarrow> tpl_map \<Rightarrow> (tpl_map \<times> bool) run" where
  "template_flowset 0 pkt len off fid agent sid flowsetlen tp flowoff cache = Inl OutOfFuel"
| "template_flowset (Suc fuel) pkt len off fid agent sid flowsetlen tp flowoff cache =
     (if flowsetlen \<le> flowoff then Inr (cache, True)
      else if len < off + flowsetlen then Inr (cache, False)
      else if flowsetlen - flowoff < (if fid = 0 \<or> fid = 2 then NfTplHdrV9Sz else NfOptTplHdrV9Sz) then Inr (cache, True)
      else fbind (handle_template_v2 pkt tp agent fid sid (flowsetlen - flowoff) cache) (\<lambda>(tpl, pens, cache).
             case tpl of
               None \<Rightarrow> Inr (cache, False)
             | Some _ \<Rightarrow> fbind (template_len pkt tp fid pens) (\<lambda>n.
                 template_flowset fuel pkt len off fid agent sid flowsetlen (tp + n) (unat (u16n (flowoff + n))) cache)))"

section \<open>Flowsets of records\<close>

text \<open>The places and lengths of a record whose template has fields of variable length are computed first.\<close>

definition bake :: "u8 list \<Rightarrow> nat \<Rightarrow> nat \<Rightarrow> template_cache_entry \<Rightarrow> (int \<times> template_cache_entry) run" where
  "bake pkt p remlen tpl = (if te_vlen tpl then resolve_vlen_template pkt p remlen tpl else Inr (SUCCESS, tpl))"

text \<open>The loop over the records of a flowset: the place of each and its template. The template is that of the
  cache, and changes. \<open>flowoff\<close> has 16 bits and stays below \<open>flowsetlen\<close>.\<close>

fun data_records ::
  "nat \<Rightarrow> u8 list \<Rightarrow> nat \<Rightarrow> nat \<Rightarrow> nat \<Rightarrow> template_cache_entry \<Rightarrow> ((nat \<times> template_cache_entry) list \<times> nat \<times> template_cache_entry) run" where
  "data_records 0 pkt flowsetlen p flowoff tpl = Inl OutOfFuel"
| "data_records (Suc fuel) pkt flowsetlen p flowoff tpl =
     (if flowoff + unat (te_len tpl) \<le> flowsetlen
      then fbind (bake pkt p (flowsetlen - flowoff) tpl) (\<lambda>(ret, tpl).
             if ret = ERR then Inr ([], flowoff, tpl)
             else let n = unat (te_len tpl)
                  in fbind (data_records fuel pkt flowsetlen (p + n) (flowoff + n) (if te_vlen tpl then tpl\<lparr>te_len := 1\<rparr> else tpl))
                       (\<lambda>(recs, r). Inr ((p, tpl) # recs, r)))
      else Inr ([], flowoff, tpl))"

text \<open>The dry run of the pre-processing checks: how far it comes, and whether it saw an error.\<close>

fun dry_run ::
  "nat \<Rightarrow> u8 list \<Rightarrow> nat \<Rightarrow> nat \<Rightarrow> nat \<Rightarrow> bool \<Rightarrow> template_cache_entry \<Rightarrow> (nat \<times> nat \<times> bool \<times> template_cache_entry) run" where
  "dry_run 0 pkt flowsetlen p flowoff skip tpl = Inl OutOfFuel"
| "dry_run (Suc fuel) pkt flowsetlen p flowoff skip tpl =
     (if flowoff + unat (te_len tpl) \<le> flowsetlen
      then fbind (bake pkt p (flowsetlen - flowoff) tpl) (\<lambda>(ret, tpl).
             let n = unat (te_len tpl)
             in dry_run fuel pkt flowsetlen (p + n) (flowoff + n) (skip \<or> ret = ERR) (if te_vlen tpl then tpl\<lparr>te_len := 1\<rparr> else tpl))
      else Inr (p, flowoff, skip, tpl))"

text \<open>The padding behind the records, if the configuration asks for it: whether the flowset is used.\<close>

definition padding_ok ::
  "nat \<Rightarrow> u8 list \<Rightarrow> bool \<Rightarrow> nat \<Rightarrow> nat \<Rightarrow> nat \<Rightarrow> template_cache_entry \<Rightarrow> (bool \<times> template_cache_entry) run" where
  "padding_ok fuel pkt checks flowsetlen p flowoff tpl =
     (if \<not> checks then Inr (True, tpl)
      else fbind (dry_run fuel pkt flowsetlen p flowoff False tpl) (\<lambda>(q, o', skip, tpl).
             if 0 < flowsetlen - o' \<and> \<not> skip
             then fbind (block pkt q (flowsetlen - o')) (\<lambda>pad. Inr (list_all (\<lambda>b. b = 0) pad, tpl))
             else Inr (True, tpl)))"

section \<open>The type of a flow\<close>

definition NF9_IN_BYTES :: u16 where "NF9_IN_BYTES = 1"
definition NF9_L4_PROTOCOL :: u16 where "NF9_L4_PROTOCOL = 4"
definition NF9_IPV4_DST_ADDR :: u16 where "NF9_IPV4_DST_ADDR = 12"
definition NF9_OUT_BYTES :: u16 where "NF9_OUT_BYTES = 23"
definition NF9_IPV6_DST_ADDR :: u16 where "NF9_IPV6_DST_ADDR = 28"
definition NF9_IPV4_SRC_PREFIX :: u16 where "NF9_IPV4_SRC_PREFIX = 44"
definition NF9_IPV4_DST_PREFIX :: u16 where "NF9_IPV4_DST_PREFIX = 45"
definition NF9_IN_VLAN :: u16 where "NF9_IN_VLAN = 58"
definition NF9_OUT_VLAN :: u16 where "NF9_OUT_VLAN = 59"
definition NF9_IP_PROTOCOL_VERSION :: u16 where "NF9_IP_PROTOCOL_VERSION = 60"
definition NF9_MPLS_LABEL_1 :: u16 where "NF9_MPLS_LABEL_1 = 70"
definition NF9_FLOW_BYTES :: u16 where "NF9_FLOW_BYTES = 85"
definition NF9_LAYER2_PKT_SECTION_DATA :: u16 where "NF9_LAYER2_PKT_SECTION_DATA = 104"
definition NF9_IPV6_DST_PREFIX :: u16 where "NF9_IPV6_DST_PREFIX = 169"
definition NF9_IPV6_SRC_PREFIX :: u16 where "NF9_IPV6_SRC_PREFIX = 170"
definition NF9_NAT_EVENT :: u16 where "NF9_NAT_EVENT = 230"
definition NF9_INITIATOR_OCTETS :: u16 where "NF9_INITIATOR_OCTETS = 231"
definition NF9_RESPONDER_OCTETS :: u16 where "NF9_RESPONDER_OCTETS = 232"
definition NF9_DATALINK_FRAME_SECTION :: u16 where "NF9_DATALINK_FRAME_SECTION = 315"
definition NF9_LAYER2OCTETDELTACOUNT :: u16 where "NF9_LAYER2OCTETDELTACOUNT = 352"
definition NF9_staIPv4Address :: u16 where "NF9_staIPv4Address = 366"

definition PM_FTYPE_IPV4 :: u8 where "PM_FTYPE_IPV4 = 2"
definition PM_FTYPE_IPV6 :: u8 where "PM_FTYPE_IPV6 = 3"
definition PM_FTYPE_VLAN :: u8 where "PM_FTYPE_VLAN = 5"
definition PM_FTYPE_MPLS :: u8 where "PM_FTYPE_MPLS = 10"
definition PM_FTYPE_SRV6 :: u8 where "PM_FTYPE_SRV6 = 20"
definition NF9_FTYPE_DLFS :: u8 where "NF9_FTYPE_DLFS = 4"
definition NF9_FTYPE_EVENT :: u8 where "NF9_FTYPE_EVENT = 100"
definition NF9_FTYPE_NAT_EVENT :: u8 where "NF9_FTYPE_NAT_EVENT = 100"
definition NF9_FTYPE_OPTION :: u8 where "NF9_FTYPE_OPTION = 200"

lemmas nf9_fields = NF9_IN_BYTES_def NF9_L4_PROTOCOL_def NF9_IPV4_DST_ADDR_def NF9_OUT_BYTES_def NF9_IPV6_DST_ADDR_def 
  NF9_IPV4_SRC_PREFIX_def NF9_IPV4_DST_PREFIX_def NF9_IN_VLAN_def NF9_OUT_VLAN_def 
  NF9_IP_PROTOCOL_VERSION_def NF9_MPLS_LABEL_1_def NF9_FLOW_BYTES_def 
  NF9_LAYER2_PKT_SECTION_DATA_def NF9_IPV6_DST_PREFIX_def NF9_IPV6_SRC_PREFIX_def NF9_NAT_EVENT_def 
  NF9_INITIATOR_OCTETS_def NF9_RESPONDER_OCTETS_def NF9_DATALINK_FRAME_SECTION_def 
  NF9_LAYER2OCTETDELTACOUNT_def NF9_staIPv4Address_def
lemmas flow_types = PM_FTYPE_IPV4_def PM_FTYPE_IPV6_def PM_FTYPE_VLAN_def PM_FTYPE_MPLS_def PM_FTYPE_SRV6_def
  NF9_FTYPE_DLFS_def NF9_FTYPE_EVENT_def NF9_FTYPE_NAT_EVENT_def NF9_FTYPE_OPTION_def

text \<open>Whether the template has a field, and the first octet of its first place in the record at \<open>p\<close>.\<close>

definition has_fld :: "template_cache_entry \<Rightarrow> u16 \<Rightarrow> bool" where
  "has_fld tpl t \<longleftrightarrow> of_count (te_fld tpl (unat t)) \<noteq> 0"

definition fld_octet :: "u8 list \<Rightarrow> nat \<Rightarrow> template_cache_entry \<Rightarrow> u16 \<Rightarrow> u8 run" where
  "fld_octet pkt p tpl t = peek pkt (p + unat (of_off (te_fld tpl (unat t)) ! 0))"

definition fld_positive :: "u8 list \<Rightarrow> nat \<Rightarrow> template_cache_entry \<Rightarrow> u16 \<Rightarrow> bool run" where
  "fld_positive pkt p tpl t = (if has_fld tpl t then fbind (fld_octet pkt p tpl t) (\<lambda>b. Inr (0 < b)) else Inr False)"

definition event_flow :: "template_cache_entry \<Rightarrow> bool" where
  "event_flow tpl \<longleftrightarrow> \<not> has_fld tpl NF9_IN_BYTES \<and> \<not> has_fld tpl NF9_OUT_BYTES \<and> \<not> has_fld tpl NF9_FLOW_BYTES \<and>
     \<not> has_fld tpl NF9_INITIATOR_OCTETS \<and> \<not> has_fld tpl NF9_RESPONDER_OCTETS \<and> \<not> has_fld tpl NF9_DATALINK_FRAME_SECTION \<and>
     \<not> has_fld tpl NF9_LAYER2_PKT_SECTION_DATA \<and> \<not> has_fld tpl NF9_LAYER2OCTETDELTACOUNT"

text \<open>The steps hand on the type so far and \<open>have_ip_proto\<close>. First VLAN, MPLS, and the version that the record
  names.\<close>

definition flow_labels :: "u8 list \<Rightarrow> nat \<Rightarrow> template_cache_entry \<Rightarrow> u8 run" where
  "flow_labels pkt p tpl =
     fbind (fld_positive pkt p tpl NF9_IN_VLAN) (\<lambda>a.
     fbind (if a then Inr True else fld_positive pkt p tpl NF9_OUT_VLAN) (\<lambda>vlan.
       Inr ((if vlan then PM_FTYPE_VLAN else 0) + (if has_fld tpl NF9_MPLS_LABEL_1 then PM_FTYPE_MPLS else 0))))"

definition flow_version :: "u8 list \<Rightarrow> nat \<Rightarrow> template_cache_entry \<Rightarrow> u8 \<Rightarrow> (u8 \<times> bool) run" where
  "flow_version pkt p tpl ret =
     (if has_fld tpl NF9_IP_PROTOCOL_VERSION
      then fbind (fld_octet pkt p tpl NF9_IP_PROTOCOL_VERSION) (\<lambda>v.
             Inr (if v = 4 then (ret + PM_FTYPE_IPV4, True) else if v = 6 then (ret + PM_FTYPE_IPV6, True) else (ret, False)))
      else Inr (ret, False))"

text \<open>SRv6: the type so far is replaced. The types of the two encapsulations are those of the lookups.\<close>

definition flow_srv6 :: "u8 list \<Rightarrow> nat \<Rightarrow> template_cache_entry \<Rightarrow> u8 \<times> bool \<Rightarrow> (u8 \<times> bool) run" where
  "flow_srv6 pkt p tpl r =
     (if te_layers tpl \<noteq> 0 \<and> te_prots tpl ! 0 = L_ipv6 \<and> has_fld tpl NF9_L4_PROTOCOL
      then fbind (fld_octet pkt p tpl NF9_L4_PROTOCOL) (\<lambda>tun_prot.
             Inr (if 1 < te_layers tpl
                  then if tun_prot = 4 \<or> tun_prot = 41
                       then if te_prots tpl ! 1 = L_ipv4 then (word_of_nat PM_FTYPE_SRV6_IPV4, True)
                            else if te_prots tpl ! 1 = L_ipv6 then (word_of_nat PM_FTYPE_SRV6_IPV6, True) else r
                       else r
                  else if tun_prot = 143 then (PM_FTYPE_SRV6, True) else r))
      else Inr r)"

text \<open>The guess by the addresses of the template, when nothing told the protocol before.\<close>

definition flow_addresses :: "u8 list \<Rightarrow> nat \<Rightarrow> template_cache_entry \<Rightarrow> u8 \<Rightarrow> u8 run" where
  "flow_addresses pkt p tpl ret =
     (let v4 = has_fld tpl NF9_IPV4_SRC_ADDR \<or> has_fld tpl NF9_IPV4_DST_ADDR;
          v6 = has_fld tpl NF9_IPV6_SRC_ADDR \<or> has_fld tpl NF9_IPV6_DST_ADDR;
          layer = (if te_layers tpl = 0 then L_none else te_prots tpl ! 0)
      in if v4 \<and> v6
         then fbind (if layer = L_ipv4 then fbind (fld_octet pkt p tpl NF9_IPV4_SRC_ADDR) (\<lambda>b. Inr (b \<noteq> 0)) else Inr False) (\<lambda>a4.
              fbind (if \<not> a4 \<and> layer = L_ipv6 then fbind (fld_octet pkt p tpl NF9_IPV6_SRC_ADDR) (\<lambda>b. Inr (b \<noteq> 0)) else Inr False) (\<lambda>a6.
                if a4 then Inr (ret + PM_FTYPE_IPV4)
                else if a6 then Inr (ret + PM_FTYPE_IPV6)
                else fbind (fld_octet pkt p tpl NF9_IPV4_SRC_ADDR) (\<lambda>b.
                       Inr (ret + (if b \<noteq> 0 then PM_FTYPE_IPV4 else PM_FTYPE_IPV6)))))
         else if v4 \<or> has_fld tpl NF9_IPV4_SRC_PREFIX \<or> has_fld tpl NF9_IPV4_DST_PREFIX \<or> has_fld tpl NF9_staIPv4Address
         then Inr (ret + PM_FTYPE_IPV4)
         else if v6 \<or> has_fld tpl NF9_IPV6_SRC_PREFIX \<or> has_fld tpl NF9_IPV6_DST_PREFIX
         then Inr (ret + PM_FTYPE_IPV6)
         else Inr ret)"

text \<open>The type of the record at \<open>p\<close>. Whether the flow is of two directions (\<open>is_bi\<close>) is left out.\<close>

definition NF_evaluate_flow_type :: "u8 list \<Rightarrow> nat \<Rightarrow> template_cache_entry \<Rightarrow> u8 run" where
  "NF_evaluate_flow_type pkt p tpl =
     fbind (if event_flow tpl then Inr NF9_FTYPE_EVENT
            else fbind (flow_labels pkt p tpl) (\<lambda>ret. fbind (flow_version pkt p tpl ret) (\<lambda>r.
                 fbind (flow_srv6 pkt p tpl r) (\<lambda>(ret, have_ip_proto).
                 fbind (if have_ip_proto then Inr ret else flow_addresses pkt p tpl ret) (\<lambda>ret.
                   Inr (if has_fld tpl NF9_DATALINK_FRAME_SECTION \<or> has_fld tpl NF9_LAYER2_PKT_SECTION_DATA
                        then NF9_FTYPE_DLFS else ret)))))) (\<lambda>ret.
       let ret = (if has_fld tpl NF9_NAT_EVENT then NF9_FTYPE_NAT_EVENT else ret)
       in Inr (if te_template_type tpl = 1 then NF9_FTYPE_OPTION else ret))"

section \<open>Packets\<close>

text \<open>The records that are found: those of options and those of flows, at their places.\<close>

datatype nf_record = OptionsRecord nat template_cache_entry | FlowRecord nat template_cache_entry

text \<open>A flowset of records at \<open>off\<close>. The last result is false when the function returns at once.\<close>

definition data_flowset ::
  "nat \<Rightarrow> u8 list \<Rightarrow> nat \<Rightarrow> nat \<Rightarrow> bool \<Rightarrow> sockaddr \<Rightarrow> u8 \<Rightarrow> u32 \<Rightarrow> u16 \<Rightarrow> nat \<Rightarrow> tpl_map \<Rightarrow> (tpl_map \<times> nf_record list \<times> bool) run" where
  "data_flowset fuel pkt len off checks agent version sid tid flowsetlen cache =
     (let key = compose_template_key version tid agent sid
      in if len < off + flowsetlen then Inr (cache, [], False)
         else case find_template_v2 tid agent version sid cache of
                None \<Rightarrow> Inr (cache, [], True)
              | Some tpl \<Rightarrow>
                  if te_template_type tpl = 1
                  then fbind (data_records fuel pkt flowsetlen (off + NfDataHdrV9Sz) NfDataHdrV9Sz tpl) (\<lambda>(recs, o', tpl).
                         Inr (cache(key \<mapsto> tpl), map (\<lambda>(p, tpl). OptionsRecord p tpl) recs, \<not> flowsetlen < o'))
                  else fbind (padding_ok fuel pkt checks flowsetlen (off + NfDataHdrV9Sz) NfDataHdrV9Sz tpl) (\<lambda>(ok, tpl).
                         if \<not> ok then Inr (cache(key \<mapsto> tpl), [], True)
                         else fbind (data_records fuel pkt flowsetlen (off + NfDataHdrV9Sz) NfDataHdrV9Sz tpl) (\<lambda>(recs, o', tpl).
                                Inr (cache(key \<mapsto> tpl), map (\<lambda>(p, tpl). FlowRecord p tpl) recs, \<not> flowsetlen < o'))))"

text \<open>The loop over the flowsets, the next one at \<open>off\<close>, \<open>k\<close> of them read of the \<open>n\<close> of the header.\<close>

fun flowsets ::
  "nat \<Rightarrow> u8 list \<Rightarrow> nat \<Rightarrow> bool \<Rightarrow> sockaddr \<Rightarrow> u8 \<Rightarrow> u32 \<Rightarrow> nat \<Rightarrow> nat \<Rightarrow> nat \<Rightarrow> tpl_map \<Rightarrow> (tpl_map \<times> nf_record list) run" where
  "flowsets 0 pkt len checks agent version sid n k off cache = Inl OutOfFuel"
| "flowsets (Suc fuel) pkt len checks agent version sid n k off cache =
     (if len \<le> off + NfDataHdrV9Sz then Inr (cache, [])
      else fbind (peek16 pkt off) (\<lambda>fid. fbind (peek16 pkt (off + 2)) (\<lambda>flow_len.
        let flowsetlen = unat flow_len
        in if flowsetlen < NfDataHdrV9Sz then Inr (cache, [])
           else fbind (if unat fid \<le> 3
                       then fbind (template_flowset fuel pkt len off (unat fid) agent sid flowsetlen (off + NfDataHdrV9Sz) NfDataHdrV9Sz cache)
                              (\<lambda>(cache, go). Inr (cache, [], go))
                       else if 256 \<le> unat fid
                       then data_flowset fuel pkt len off checks agent version sid fid flowsetlen cache
                       else Inr (cache, [], \<not> len < off + flowsetlen)) (\<lambda>(cache, recs, go).
                  let off = off + flowsetlen
                  in if go \<and> (version = 9 \<and> k + 1 < n \<and> off < len \<or> version = 10 \<and> off < len)
                     then fbind (flowsets fuel pkt len checks agent version sid n (k + 1) off cache) (\<lambda>(cache, recs').
                            Inr (cache, recs @ recs'))
                     else Inr (cache, recs)))))"

definition process_v9_packet ::
  "nat \<Rightarrow> u8 list \<Rightarrow> nat \<Rightarrow> bool \<Rightarrow> sockaddr \<Rightarrow> u8 \<Rightarrow> tpl_map \<Rightarrow> (tpl_map \<times> nf_record list) run" where
  "process_v9_packet fuel pkt len checks agent version cache =
     (let hdr = (if version = 9 then NfHdrV9Sz else if version = 10 then IpFixHdrSz else 0)
      in if len < hdr then Inr (cache, [])
         else fbind (if version = 9 then peek32 pkt 16 else if version = 10 then peek32 pkt 12 else Inr 0) (\<lambda>sid.
              fbind (if version = 9 then peek16 pkt 2 else Inr 0) (\<lambda>n.
                flowsets fuel pkt len checks agent version sid (unat n) 0 hdr cache)))"

end
