(* ===== verification/NfFacts.thy ===== *)
theory NfFacts
  imports NfFlowset RunLogic StreamFacts
begin

text \<open>
  Templates as what they describe: the list of their field specifiers, where each field is kept, and that the
  places and lengths computed for a record are those of its values.
\<close>

section \<open>Field specifiers\<close>

text \<open>Type, length and enterprise number, and their octets.\<close>

type_synonym fspec = "u16 \<times> u16 \<times> u32 option"

fun spec_bytes :: "fspec \<Rightarrow> u8 list" where
  "spec_bytes (t, n, None) = bytes16 t @ bytes16 n"
| "spec_bytes (t, n, Some p) = bytes16 (t XOR IPFIX_TPL_EBIT) @ bytes16 n @ bytes32 p"

text \<open>What can be written: IPFIX has the first bit of the type for the enterprise number.\<close>

fun spec_ok :: "u8 \<Rightarrow> fspec \<Rightarrow> bool" where
  "spec_ok version (t, n, None) \<longleftrightarrow> version \<noteq> 10 \<or> t AND IPFIX_TPL_EBIT = 0"
| "spec_ok version (t, n, Some p) \<longleftrightarrow> version = 10 \<and> t AND IPFIX_TPL_EBIT = 0"

fun is_var :: "fspec \<Rightarrow> bool" where
  "is_var (t, n, p) \<longleftrightarrow> n = IPFIX_VARIABLE_LENGTH"

fun legacy_spec :: "fspec \<Rightarrow> bool" where
  "legacy_spec (t, n, p) \<longleftrightarrow> is_legacy t p"

definition slen :: "fspec \<Rightarrow> nat" where "slen s = unat (fst (snd s))"

text \<open>Where a field behind the fields \<open>ss\<close> is kept.\<close>

type_synonym floc = "tpl_ptr \<times> nat"

definition same_type :: "u16 \<Rightarrow> fspec \<Rightarrow> bool" where
  "same_type t s \<longleftrightarrow> legacy_spec s \<and> fst s = t"

definition same_chain :: "nat \<Rightarrow> fspec \<Rightarrow> bool" where
  "same_chain m s \<longleftrightarrow> \<not> legacy_spec s \<and> unat (fst s) mod TPL_EXT_DB_ENTRIES = m"

definition occurs :: "('a \<Rightarrow> bool) \<Rightarrow> 'a list \<Rightarrow> nat" where
  "occurs P xs = length (filter P xs)"

definition loc :: "fspec list \<Rightarrow> fspec \<Rightarrow> floc" where
  "loc ss s =
     (if legacy_spec s then (Fld (unat (fst s)), occurs (same_type (fst s)) ss)
      else let m = unat (fst s) mod TPL_EXT_DB_ENTRIES in (Ie m (occurs (same_chain m) ss), 0))"

text \<open>The fields for which a template has room.\<close>

definition fits :: "fspec list \<Rightarrow> bool" where
  "fits ss \<longleftrightarrow> length ss \<le> TPL_LIST_ENTRIES \<and>
     (\<forall>t. occurs (same_type t) ss \<le> TPL_MAX_ELEM_REPEATS) \<and>
     (\<forall>m. occurs (same_chain m) ss \<le> IES_PER_TPL_EXT_DB_ENTRY) \<and>
     (\<forall>s\<in>set ss. legacy_spec s \<or> fst s \<noteq> 0)"

lemma occurs_Nil [simp]: "occurs P [] = 0"
  by (simp add: occurs_def)

lemma occurs_append [simp]: "occurs P (xs @ ys) = occurs P xs + occurs P ys"
  by (simp add: occurs_def)

lemma occurs_Cons [simp]: "occurs P (x # xs) = (if P x then Suc (occurs P xs) else occurs P xs)"
  by (simp add: occurs_def)

lemma occurs_take: "i \<le> j \<Longrightarrow> occurs P (take i xs) \<le> occurs P (take j xs)"
  by (metis occurs_append le_add1 le_iff_add take_add)

lemma fits_append: "fits (ss @ ts) \<Longrightarrow> fits ss"
  unfolding fits_def by (auto intro: add_leD1)

lemma occurs_nth_less:
  assumes "i < j" "j \<le> length xs" "P (xs ! i)"
  shows "occurs P (take i xs) < occurs P (take j xs)"
proof -
  have "take (Suc i) xs = take i xs @ [xs ! i]" using assms by (simp add: take_Suc_conv_app_nth)
  then have "occurs P (take (Suc i) xs) = Suc (occurs P (take i xs))" using assms(3) by simp
  with occurs_take [of "Suc i" j P xs] assms(1) show ?thesis by simp
qed

text \<open>Two fields are never kept in the same place.\<close>

lemma loc_less:
  assumes "i < j" "j < length ss"
  shows "loc (take i ss) (ss ! i) \<noteq> loc (take j ss) (ss ! j)"
proof
  assume eq: "loc (take i ss) (ss ! i) = loc (take j ss) (ss ! j)"
  show False
  proof (cases "legacy_spec (ss ! i)")
    case True
    with eq have j: "legacy_spec (ss ! j)" "fst (ss ! j) = fst (ss ! i)"
      by (auto simp: loc_def Let_def word_unat_eq_iff split: if_splits)
    with eq True have "occurs (same_type (fst (ss ! i))) (take i ss) = occurs (same_type (fst (ss ! i))) (take j ss)"
      by (simp add: loc_def)
    moreover have "same_type (fst (ss ! i)) (ss ! i)" using True by (simp add: same_type_def)
    ultimately show False using occurs_nth_less [of i j ss] assms by (metis less_imp_le less_irrefl_nat)
  next
    case False
    let ?m = "unat (fst (ss ! i)) mod TPL_EXT_DB_ENTRIES"
    from eq False have j: "\<not> legacy_spec (ss ! j)" "unat (fst (ss ! j)) mod TPL_EXT_DB_ENTRIES = ?m"
      by (auto simp: loc_def Let_def split: if_splits)
    with eq False have "occurs (same_chain ?m) (take i ss) = occurs (same_chain ?m) (take j ss)"
      by (simp add: loc_def Let_def)
    moreover have "same_chain ?m (ss ! i)" using False by (simp add: same_chain_def)
    ultimately show False using occurs_nth_less [of i j ss] assms by (metis less_imp_le less_irrefl_nat)
  qed
qed

lemma loc_inj: "i < length ss \<Longrightarrow> j < length ss \<Longrightarrow> loc (take i ss) (ss ! i) = loc (take j ss) (ss ! j) \<Longrightarrow> i = j"
  by (metis linorder_neqE_nat loc_less)

section \<open>Reading field specifiers\<close>

lemma peek16_app: "i = length xs \<Longrightarrow> peek16 (xs @ bytes16 w @ ys) i = Inr w"
  by (simp add: peek16_def)

lemma peek32_app: "i = length xs \<Longrightarrow> peek32 (xs @ bytes32 w @ ys) i = Inr w"
  by (simp add: peek32_def)

lemma ebit_set:
  assumes "t AND IPFIX_TPL_EBIT = 0"
  shows "(t XOR IPFIX_TPL_EBIT) AND IPFIX_TPL_EBIT \<noteq> 0"
proof -
  have "(t XOR IPFIX_TPL_EBIT) AND IPFIX_TPL_EBIT = IPFIX_TPL_EBIT"
    using assms by (simp add: bit.conj_xor_distrib2)
  then show ?thesis by (simp add: IPFIX_TPL_EBIT_def)
qed

lemma read_field_bytes:
  assumes "spec_ok version s" "p = length xs"
  shows "read_field version (xs @ spec_bytes s @ ys) p = Inr s"
proof -
  obtain t n pen where s: "s = (t, n, pen)" by (cases s) auto
  show ?thesis
  proof (cases pen)
    case None
    have "peek16 (xs @ bytes16 t @ bytes16 n @ ys) p = Inr t"
      "peek16 ((xs @ bytes16 t) @ bytes16 n @ ys) (p + 2) = Inr n"
      by (rule peek16_app; simp add: assms(2))+
    with assms(1) None show ?thesis by (auto simp: s read_field_def)
  next
    case (Some e)
    let ?t = "t XOR IPFIX_TPL_EBIT"
    have "peek16 (xs @ bytes16 ?t @ bytes16 n @ bytes32 e @ ys) p = Inr ?t"
      "peek16 ((xs @ bytes16 ?t) @ bytes16 n @ bytes32 e @ ys) (p + 2) = Inr n"
      "peek32 ((xs @ bytes16 ?t @ bytes16 n) @ bytes32 e @ ys) (p + 4) = Inr e"
      by (rule peek16_app peek32_app; simp add: assms(2))+
    with assms(1) Some ebit_set [of t] show ?thesis by (auto simp: s read_field_def xor.assoc)
  qed
qed

lemma length_spec_bytes [simp]: "length (spec_bytes s) = field_size (snd (snd s))"
  by (cases s rule: spec_bytes.cases) (simp_all add: field_size_def NfTplFieldV9Sz_def)

section \<open>What a template holds\<close>

text \<open>The place that an entry of \<open>list\<close> names, and the three numbers kept there: the place of the field, its
  length, and the length that the template gives.\<close>

definition item_loc :: "tpl_field_list \<Rightarrow> floc option" where
  "item_loc it =
     (if tl_type it = TPL_TYPE_LEGACY
      then (case tl_ptr it of Some (Fld t) \<Rightarrow> Some (Fld t, unat (tl_repeat it) - 1) | _ \<Rightarrow> None)
      else if tl_type it = TPL_TYPE_EXT_DB
      then (case tl_ptr it of Some (Ie m i) \<Rightarrow> Some (Ie m i, 0) | _ \<Rightarrow> None)
      else None)"

fun slot :: "template_cache_entry \<Rightarrow> floc \<Rightarrow> u16 \<times> u16 \<times> u16" where
  "slot tpl (Fld t, r) = (of_off (te_fld tpl t) ! r, of_len (te_fld tpl t) ! r, of_tpl_len (te_fld tpl t) ! r)"
| "slot tpl (Ie m i, r) = (uf_off (te_ext_db tpl m ! i), uf_len (te_ext_db tpl m ! i), uf_tpl_len (te_ext_db tpl m ! i))"

definition sized :: "template_cache_entry \<Rightarrow> bool" where
  "sized tpl \<longleftrightarrow>
     (\<forall>t. length (of_off (te_fld tpl t)) = TPL_MAX_ELEM_REPEATS \<and> length (of_len (te_fld tpl t)) = TPL_MAX_ELEM_REPEATS \<and>
          length (of_tpl_len (te_fld tpl t)) = TPL_MAX_ELEM_REPEATS) \<and>
     (\<forall>m. length (te_ext_db tpl m) = IES_PER_TPL_EXT_DB_ENTRY)"

text \<open>The place of a field behind the fields \<open>ss\<close> and its length, as far as they are known without a record.\<close>

definition off0 :: "fspec list \<Rightarrow> u16" where
  "off0 ss = (if list_ex is_var ss then 0 else u16n (sum_list (map slen ss)))"

definition len0 :: "fspec \<Rightarrow> u16" where
  "len0 s = (if is_var s then 0 else fst (snd s))"

text \<open>What identifies a field of a chain: type, enterprise number, and how many of the type are in front.\<close>

definition of_type :: "u16 \<Rightarrow> fspec \<Rightarrow> bool" where "of_type t s \<longleftrightarrow> fst s = t"

definition ident :: "fspec list \<Rightarrow> fspec \<Rightarrow> u16 \<times> u32 \<times> u8" where
  "ident cs s = (fst s, case snd (snd s) of None \<Rightarrow> 0 | Some p \<Rightarrow> p, word_of_nat (occurs (of_type (fst s)) cs))"

definition idents :: "fspec list \<Rightarrow> (u16 \<times> u32 \<times> u8) list" where
  "idents cs = map (\<lambda>k. ident (take k cs) (cs ! k)) [0..<length cs]"

definition ie_ident :: "utpl_field \<Rightarrow> u16 \<times> u32 \<times> u8" where
  "ie_ident ie = (uf_type ie, uf_pen ie, uf_repeat_id ie)"

definition chain :: "nat \<Rightarrow> fspec list \<Rightarrow> fspec list" where
  "chain m ss = filter (same_chain m) ss"

lemma idents_Nil [simp]: "idents [] = []"
  by (simp add: idents_def)

lemma length_idents [simp]: "length (idents cs) = length cs"
  by (simp add: idents_def)

lemma idents_snoc [simp]: "idents (cs @ [s]) = idents cs @ [ident cs s]"
  by (simp add: idents_def nth_append)

lemma length_chain: "length (chain m ss) = occurs (same_chain m) ss"
  by (simp add: chain_def occurs_def)

lemma off0_snoc: "off0 (ss @ [s]) = (if is_var s then 0 else if list_ex is_var ss then 0 else off0 ss + fst (snd s))"
  by (simp add: off0_def slen_def u16n_def)

lemma off0_var: "list_ex is_var ss \<Longrightarrow> off0 ss = 0"
  by (simp add: off0_def)

lemma off0_Nil [simp]: "off0 [] = 0"
  by (simp add: off0_def u16n_def)

text \<open>A template that describes the fields \<open>ss\<close>.\<close>

definition describes :: "template_cache_entry \<Rightarrow> fspec list \<Rightarrow> bool" where
  "describes tpl ss \<longleftrightarrow> sized tpl \<and>
     (\<forall>i<length ss. item_loc (te_list tpl i) = Some (loc (take i ss) (ss ! i)) \<and>
        slot tpl (loc (take i ss) (ss ! i)) = (off0 (take i ss), len0 (ss ! i), fst (snd (ss ! i)))) \<and>
     te_vlen tpl = list_ex is_var ss \<and> te_len tpl = off0 ss \<and>
     (\<forall>t. unat (of_count (te_fld tpl (unat t))) = occurs (same_type t) ss) \<and>
     (\<forall>m. map ie_ident (te_ext_db tpl m) =
        idents (chain m ss) @ replicate (IES_PER_TPL_EXT_DB_ENTRY - length (chain m ss)) (0, 0, 0))"

text \<open>The same, step by step.\<close>

fun add_field :: "bool \<Rightarrow> nat \<Rightarrow> fspec \<Rightarrow> template_cache_entry \<Rightarrow> template_cache_entry" where
  "add_field opts idx (t, n, p) tpl =
     (if is_legacy t p
      then if opts then legacy_field True t n idx tpl else add_layer t (legacy_field False t n idx tpl)
      else ext_field t p n idx tpl)"

fun add_fields :: "bool \<Rightarrow> nat \<Rightarrow> fspec list \<Rightarrow> template_cache_entry \<Rightarrow> template_cache_entry" where
  "add_fields opts idx [] tpl = tpl"
| "add_fields opts idx (s # ss) tpl = add_fields opts (Suc idx) ss (add_field opts idx s tpl)"

lemma add_fields_append: "add_fields opts idx (ss @ ts) tpl = add_fields opts (idx + length ss) ts (add_fields opts idx ss tpl)"
  by (induction ss arbitrary: idx tpl) simp_all

lemma describes_new: "describes (tpl_new agent version sid tid type num) []"
  by (simp add: describes_def sized_def tpl_new_def otpl_zero_def TPL_MAX_ELEM_REPEATS_def chain_def ie_ident_def utpl_zero_def)

lemma add_layer_same [simp]:
  "te_fld (add_layer t tpl) = te_fld tpl" "te_ext_db (add_layer t tpl) = te_ext_db tpl"
  "te_list (add_layer t tpl) = te_list tpl" "te_vlen (add_layer t tpl) = te_vlen tpl"
  "te_len (add_layer t tpl) = te_len tpl" "te_num (add_layer t tpl) = te_num tpl"
  "te_version (add_layer t tpl) = te_version tpl" "te_template_type (add_layer t tpl) = te_template_type tpl"
  by (simp_all add: add_layer_def Let_def)

lemma slot_add_layer [simp]: "slot (add_layer t tpl) l = slot tpl l"
  by (cases "(tpl, l)" rule: slot.cases) simp_all

lemma describes_add_layer [simp]: "describes (add_layer t tpl) ss = describes tpl ss"
  by (simp add: describes_def sized_def)

section \<open>Adding fields\<close>

lemma slot_fld:
  assumes "sized tpl" "k < TPL_MAX_ELEM_REPEATS" "te_fld tpl' = (te_fld tpl)(T := f)" "te_ext_db tpl' = te_ext_db tpl"
    "of_off f = (of_off (te_fld tpl T))[k := a]" "of_len f = (of_len (te_fld tpl T))[k := b]"
    "of_tpl_len f = (of_tpl_len (te_fld tpl T))[k := c]"
  shows "slot tpl' l = (if l = (Fld T, k) then (a, b, c) else slot tpl l)"
proof (cases "(tpl, l)" rule: slot.cases)
  case (1 tpl t r)
  with assms show ?thesis by (cases "t = T"; cases "r = k") (auto simp: sized_def)
next
  case (2 tpl m i r)
  with assms show ?thesis by simp
qed

lemma slot_ext:
  assumes "sized tpl" "k < IES_PER_TPL_EXT_DB_ENTRY" "te_fld tpl' = te_fld tpl"
    "te_ext_db tpl' = (te_ext_db tpl)(M := (te_ext_db tpl M)[k := ie])"
  shows "slot tpl' l = (if fst l = Ie M k then (uf_off ie, uf_len ie, uf_tpl_len ie) else slot tpl l)"
proof (cases "(tpl, l)" rule: slot.cases)
  case (1 tpl t r)
  with assms show ?thesis by simp
next
  case (2 tpl m i r)
  with assms show ?thesis by (cases "m = M"; cases "i = k") (auto simp: sized_def)
qed

lemma nth_snoc_spec: "i < length ss \<Longrightarrow> loc (take i (ss @ [s])) ((ss @ [s]) ! i) = loc (take i ss) (ss ! i)"
  by (simp add: nth_append)

lemma loc_new: "i < length ss \<Longrightarrow> loc (take i ss) (ss ! i) \<noteq> loc ss s"
  using loc_less [of i "length ss" "ss @ [s]"] by (simp add: nth_append)

lemma occurs_same_type_other: "same_type t s \<Longrightarrow> same_type t' s \<Longrightarrow> t = t'"
  by (simp add: same_type_def)

lemma describes_slots:
  assumes old: "describes tpl ss" and n: "n = length ss"
    and new: "te_list tpl' = (te_list tpl)(n := it)" "item_loc it = Some (loc ss s)"
      "\<And>l. slot tpl' l = (if fst l = fst (loc ss s) \<and> (legacy_spec s \<longrightarrow> snd l = snd (loc ss s)) then v else slot tpl l)"
      "v = (off0 ss, len0 s, fst (snd s))"
    and i: "i < length (ss @ [s])"
  shows "item_loc (te_list tpl' i) = Some (loc (take i (ss @ [s])) ((ss @ [s]) ! i)) \<and>
    slot tpl' (loc (take i (ss @ [s])) ((ss @ [s]) ! i)) = (off0 (take i (ss @ [s])), len0 ((ss @ [s]) ! i), fst (snd ((ss @ [s]) ! i)))"
proof (cases "i = length ss")
  case True
  then show ?thesis by (simp add: n new)
next
  case False
  with i have less: "i < length ss" by simp
  let ?l = "loc (take i ss) (ss ! i)"
  have "\<not> (fst ?l = fst (loc ss s) \<and> (legacy_spec s \<longrightarrow> snd ?l = snd (loc ss s)))"
  proof
    assume "fst ?l = fst (loc ss s) \<and> (legacy_spec s \<longrightarrow> snd ?l = snd (loc ss s))"
    then have "?l = loc ss s" by (auto simp: loc_def Let_def prod_eq_iff split: if_splits)
    with loc_new [OF less, of s] show False by simp
  qed
  then have "slot tpl' ?l = slot tpl ?l" by (simp only: new(3) if_False)
  with less old show ?thesis by (simp add: n new(1) nth_append describes_def)
qed

lemma describes_legacy:
  assumes old: "describes tpl ss" and fit: "fits (ss @ [(t, n, p)])" and leg: "is_legacy t p"
  shows "describes (legacy_field opts t n (length ss) tpl) (ss @ [(t, n, p)])" (is "describes ?tpl' (ss @ [?s])")
proof -
  let ?T = "unat t" let ?k = "occurs (same_type t) ss" let ?f = "te_fld tpl ?T" let ?c = "of_count ?f"
  have sz: "sized tpl" and c: "unat ?c = ?k" and len: "te_len tpl = off0 ss" and vlen: "te_vlen tpl = list_ex is_var ss"
    using old by (simp_all add: describes_def)
  have same: "same_type t ?s" using leg by (simp add: same_type_def)
  have k: "?k < TPL_MAX_ELEM_REPEATS"
    using fit same by (auto simp: fits_def dest!: spec [of _ t])
  then have c1: "unat (?c + 1) = Suc ?k" using c by (simp add: unat_word_ariths TPL_MAX_ELEM_REPEATS_def)
  have off: "(if te_vlen tpl \<and> (opts \<longrightarrow> n = IPFIX_VARIABLE_LENGTH) then 0 else te_len tpl) = off0 ss"
    by (auto simp: len vlen off0_def)
  have loc: "loc ss ?s = (Fld ?T, ?k)" using leg by (simp add: loc_def)
  have l0: "(if n = IPFIX_VARIABLE_LENGTH then 0 else n) = len0 ?s" by (simp add: len0_def)
  define f where "f = ?f\<lparr>of_count := ?c + 1, of_off := (of_off ?f)[?k := off0 ss], of_tpl_len := (of_tpl_len ?f)[?k := n],
    of_len := (of_len ?f)[?k := len0 ?s]\<rparr>"
  have tpl': "?tpl' = tpl\<lparr>te_fld := (te_fld tpl)(?T := f), te_vlen := te_vlen tpl \<or> n = IPFIX_VARIABLE_LENGTH,
      te_len := if n = IPFIX_VARIABLE_LENGTH then 0 else if te_vlen tpl then te_len tpl else te_len tpl + n,
      te_list := (te_list tpl)(length ss := \<lparr>tl_type = TPL_TYPE_LEGACY, tl_repeat = ?c + 1, tl_ptr = Some (Fld ?T)\<rparr>)\<rparr>"
    using k c c1 by (simp add: legacy_field_def Let_def f_def off l0)
  have sz': "sized ?tpl'" using sz by (simp add: tpl' sized_def f_def)
  have "slot ?tpl' l = (if l = (Fld ?T, ?k) then (off0 ss, len0 ?s, n) else slot tpl l)" for l
    by (rule slot_fld [OF sz k, where f = f]) (simp_all add: tpl', simp_all add: f_def)
  then have slots: "slot ?tpl' l = (if fst l = fst (loc ss ?s) \<and> (legacy_spec ?s \<longrightarrow> snd l = snd (loc ss ?s))
      then (off0 ss, len0 ?s, n) else slot tpl l)" for l
    using leg by (simp add: loc prod_eq_iff)
  have counts: "unat (of_count (te_fld ?tpl' (unat u))) = occurs (same_type u) (ss @ [?s])" for u
  proof (cases "u = t")
    case True
    then show ?thesis using same c1 by (simp add: tpl' f_def)
  next
    case False
    then have "\<not> same_type u ?s" "unat u \<noteq> ?T" by (simp_all add: same_type_def word_unat_eq_iff)
    then show ?thesis using old by (simp add: tpl' describes_def)
  qed
  have "chain m (ss @ [?s]) = chain m ss" for m using leg by (simp add: chain_def same_chain_def)
  moreover have "item_loc \<lparr>tl_type = TPL_TYPE_LEGACY, tl_repeat = ?c + 1, tl_ptr = Some (Fld ?T)\<rparr> = Some (loc ss ?s)"
    by (simp add: item_loc_def loc c1)
  moreover have "te_len ?tpl' = off0 (ss @ [?s])" by (simp add: tpl' off0_snoc len vlen off0_var)
  ultimately show ?thesis
    unfolding describes_def
    using old sz' counts
      describes_slots [OF old refl _ _ slots, where it = "\<lparr>tl_type = TPL_TYPE_LEGACY, tl_repeat = ?c + 1, tl_ptr = Some (Fld ?T)\<rparr>"]
    by (simp add: tpl' describes_def)
qed

text \<open>The first free field of a chain, and how many of the type are in front.\<close>

lemma next_ie_free:
  assumes "map uf_type ies = map fst cs @ 0 # zs" "\<forall>c\<in>set cs. fst c \<noteq> 0" "t \<noteq> 0"
  shows "next_ie t ies i r = (Some (i + length cs), r + word_of_nat (occurs (of_type t) cs))"
  using assms
proof (induction cs arbitrary: ies i r)
  case Nil
  then obtain ie ies' where "ies = ie # ies'" "uf_type ie = 0" by (cases ies) auto
  with Nil show ?case by simp
next
  case (Cons c cs)
  then obtain ie ies' where ies: "ies = ie # ies'" "uf_type ie = fst c" "map uf_type ies' = map fst cs @ 0 # zs"
    by (cases ies) auto
  with Cons.prems have "next_ie t ies i r = next_ie t ies' (Suc i) (if fst c = t then r + 1 else r)" by auto
  also have "\<dots> = (Some (Suc i + length cs), (if fst c = t then r + 1 else r) + word_of_nat (occurs (of_type t) cs))"
    by (rule Cons.IH) (use ies Cons.prems in auto)
  finally show ?case by (simp add: of_type_def [of t c] algebra_simps)
qed

lemma idents_fst: "map fst (idents cs) = map fst cs"
  by (induction cs rule: rev_induct) (simp_all add: ident_def)

lemma describes_ext:
  assumes old: "describes tpl ss" and fit: "fits (ss @ [(t, n, p)])" and ext: "\<not> is_legacy t p"
  shows "describes (ext_field t p n (length ss) tpl) (ss @ [(t, n, p)])" (is "describes ?tpl' (ss @ [?s])")
proof -
  let ?m = "unat t mod TPL_EXT_DB_ENTRIES" let ?cs = "chain ?m ss" let ?k = "length ?cs"
  let ?ies = "te_ext_db tpl ?m" let ?r = "word_of_nat (occurs (of_type t) ?cs)"
  have sz: "sized tpl" and len: "te_len tpl = off0 ss" and vlen: "te_vlen tpl = list_ex is_var ss"
    using old by (simp_all add: describes_def)
  have same: "same_chain ?m ?s" using ext by (simp add: same_chain_def)
  have k: "?k < IES_PER_TPL_EXT_DB_ENTRY" using fit same by (auto simp: fits_def length_chain dest!: spec [of _ ?m])
  have lies: "length ?ies = IES_PER_TPL_EXT_DB_ENTRY" using sz by (simp add: sized_def)
  have ids: "map ie_ident ?ies = idents ?cs @ replicate (IES_PER_TPL_EXT_DB_ENTRY - ?k) (0, 0, 0)"
    using old by (simp add: describes_def)
  have t0: "t \<noteq> 0" using fit ext by (auto simp: fits_def)
  have cs0: "\<forall>c\<in>set ?cs. fst c \<noteq> 0" using fit by (auto simp: fits_def chain_def same_chain_def)
  have "map uf_type ?ies = map fst (map ie_ident ?ies)" by (simp add: ie_ident_def)
  also have "\<dots> = map fst ?cs @ 0 # replicate (IES_PER_TPL_EXT_DB_ENTRY - ?k - 1) 0"
    using k by (cases "IES_PER_TPL_EXT_DB_ENTRY - ?k") (simp_all add: ids idents_fst)
  finally have free: "ext_db_get_next_ie tpl t = (Some ?k, ?r)"
    using next_ie_free [OF _ cs0 t0, where i = 0 and r = 0] by (simp add: ext_db_get_next_ie_def)
  have off: "(if te_vlen tpl then 0 else te_len tpl) = off0 ss" by (simp add: len vlen off0_var)
  have loc: "loc ss ?s = (Ie ?m ?k, 0)" using ext by (simp add: loc_def Let_def length_chain)
  have l0: "(if n = IPFIX_VARIABLE_LENGTH then 0 else n) = len0 ?s" by (simp add: len0_def)
  have free0: "uf_pen (?ies ! ?k) = 0"
  proof -
    have "map ie_ident ?ies ! ?k = (0, 0, 0)" using k by (simp add: ids nth_append)
    then show ?thesis using k lies by (simp add: ie_ident_def)
  qed
  define ie where "ie = (?ies ! ?k)\<lparr>uf_pen := (case p of None \<Rightarrow> uf_pen (?ies ! ?k) | Some p \<Rightarrow> p), uf_type := t, uf_off := off0 ss,
    uf_tpl_len := n, uf_repeat_id := ?r, uf_len := len0 ?s\<rparr>"
  define it where "it = (te_list tpl (length ss))\<lparr>tl_type := TPL_TYPE_EXT_DB, tl_ptr := Some (Ie ?m ?k)\<rparr>"
  have tpl': "?tpl' = tpl\<lparr>te_ext_db := (te_ext_db tpl)(?m := ?ies[?k := ie]), te_vlen := te_vlen tpl \<or> n = IPFIX_VARIABLE_LENGTH,
      te_len := if n = IPFIX_VARIABLE_LENGTH then 0 else if te_vlen tpl then te_len tpl else te_len tpl + n,
      te_list := (te_list tpl)(length ss := it)\<rparr>"
    unfolding ext_field_def Let_def free off l0 by (simp add: ie_def it_def)
  have sz': "sized ?tpl'" using sz by (simp add: tpl' sized_def)
  have "slot ?tpl' l = (if fst l = Ie ?m ?k then (uf_off ie, uf_len ie, uf_tpl_len ie) else slot tpl l)" for l
    by (rule slot_ext [OF sz k]) (simp_all add: tpl')
  then have slots: "slot ?tpl' l = (if fst l = fst (loc ss ?s) \<and> (legacy_spec ?s \<longrightarrow> snd l = snd (loc ss ?s))
      then (off0 ss, len0 ?s, n) else slot tpl l)" for l
    using ext by (simp add: loc ie_def)
  have counts: "occurs (same_type u) (ss @ [?s]) = occurs (same_type u) ss" for u
    using ext by (simp add: same_type_def)
  have idn: "ie_ident ie = ident ?cs ?s"
    by (simp add: ie_ident_def ident_def ie_def free0 split: option.splits)
  have chains: "map ie_ident (te_ext_db ?tpl' m) =
      idents (chain m (ss @ [?s])) @ replicate (IES_PER_TPL_EXT_DB_ENTRY - length (chain m (ss @ [?s]))) (0, 0, 0)" for m
  proof (cases "m = ?m")
    case True
    have "chain ?m (ss @ [?s]) = ?cs @ [?s]" using same by (simp add: chain_def)
    moreover have "replicate (IES_PER_TPL_EXT_DB_ENTRY - ?k) (0, 0, 0) =
        (0, 0, 0) # replicate (IES_PER_TPL_EXT_DB_ENTRY - Suc ?k) (0 :: u16, 0 :: u32, 0 :: u8)"
      using k by (simp flip: replicate_Suc add: Suc_diff_Suc)
    ultimately show ?thesis using True by (simp add: tpl' map_update ids idn list_update_append)
  next
    case False
    then have "chain m (ss @ [?s]) = chain m ss" by (simp add: chain_def same_chain_def)
    then show ?thesis using False old by (simp add: tpl' describes_def)
  qed
  have "item_loc it = Some (loc ss ?s)" by (simp add: item_loc_def loc it_def TPL_TYPE_EXT_DB_def TPL_TYPE_LEGACY_def)
  moreover have "te_len ?tpl' = off0 (ss @ [?s])" by (simp add: tpl' off0_snoc len vlen off0_var)
  ultimately show ?thesis
    unfolding describes_def
    using old sz' counts chains describes_slots [OF old refl _ _ slots, where it = it]
    by (simp add: tpl' describes_def)
qed

lemma describes_add_field:
  "describes tpl ss \<Longrightarrow> fits (ss @ [s]) \<Longrightarrow> describes (add_field opts (length ss) s tpl) (ss @ [s])"
  by (cases s) (simp add: describes_legacy describes_ext)

lemma describes_add_fields:
  "describes tpl [] \<Longrightarrow> fits ss \<Longrightarrow> describes (add_fields opts 0 ss tpl) ss"
proof (induction ss rule: rev_induct)
  case (snoc s ss)
  then show ?case using fits_append [of ss "[s]"] describes_add_field [of _ ss s opts]
    by (simp add: add_fields_append)
qed simp

text \<open>What tells the type of a flow: the counts of fields, and that no layer is IPv6 unless a field is. The places
  of types that the template does not have are empty.\<close>

definition data_template :: "template_cache_entry \<Rightarrow> fspec list \<Rightarrow> bool" where
  "data_template tpl ss \<longleftrightarrow> te_template_type tpl = 0 \<and>
     (\<forall>t. unat (of_count (te_fld tpl (unat t))) = occurs (same_type t) ss) \<and>
     te_prots tpl \<noteq> [] \<and> (L_ipv6 \<in> set (te_prots tpl) \<longrightarrow> list_ex (same_type NF9_IPV6_SRC_ADDR) ss) \<and>
     (\<forall>t. \<not> list_ex (same_type t) ss \<longrightarrow> of_off (te_fld tpl (unat t)) ! 0 = 0 \<and> of_len (te_fld tpl (unat t)) ! 0 = 0)"

lemma fld_add_fields:
  "\<not> list_ex (same_type t) ss \<Longrightarrow> te_fld (add_fields opts idx ss tpl) (unat t) = te_fld tpl (unat t)"
proof (induction ss arbitrary: idx tpl)
  case (Cons s ss)
  then have "te_fld (add_field opts idx s tpl) (unat t) = te_fld tpl (unat t)"
    by (cases s) (auto simp: legacy_field_def ext_field_def add_layer_def same_type_def Let_def word_unat_eq_iff
        split: option.splits prod.splits)
  with Cons show ?case by simp
qed simp

lemma prots_ne_add_fields: "te_prots (add_fields opts idx ss tpl) = [] \<longleftrightarrow> te_prots tpl = []"
proof (induction ss arbitrary: idx tpl)
  case (Cons s ss)
  have "te_prots (add_field opts idx s tpl) = [] \<longleftrightarrow> te_prots tpl = []"
    by (cases s) (auto simp: legacy_field_def ext_field_def add_layer_def Let_def split: option.splits prod.splits)
  with Cons show ?case by simp
qed simp

lemma prots_add_field:
  "L_ipv6 \<in> set (te_prots (add_field opts idx s tpl)) \<Longrightarrow> L_ipv6 \<in> set (te_prots tpl) \<or> same_type NF9_IPV6_SRC_ADDR s"
  by (cases s) (auto simp: legacy_field_def ext_field_def add_layer_def evaluate_layer_prot_def same_type_def Let_def
      split: if_splits option.splits prod.splits dest!: subsetD [OF set_update_subset_insert])

lemma prots_add_fields:
  "L_ipv6 \<in> set (te_prots (add_fields opts idx ss tpl)) \<Longrightarrow> L_ipv6 \<in> set (te_prots tpl) \<or> list_ex (same_type NF9_IPV6_SRC_ADDR) ss"
  by (induction ss arbitrary: idx tpl) (auto dest: prots_add_field)

section \<open>Reading a template\<close>

definition has_pen :: "fspec \<Rightarrow> bool" where "has_pen s \<longleftrightarrow> snd (snd s) \<noteq> None"

definition specs_bytes :: "fspec list \<Rightarrow> u8 list" where
  "specs_bytes ss = concat (map spec_bytes ss)"

lemma specs_bytes_simps [simp]: "specs_bytes [] = []" "specs_bytes (s # ss) = spec_bytes s @ specs_bytes ss"
  by (simp_all add: specs_bytes_def)

lemma add_field_same [simp]:
  "te_version (add_field opts idx s tpl) = te_version tpl" "te_num (add_field opts idx s tpl) = te_num tpl"
  "te_template_type (add_field opts idx s tpl) = te_template_type tpl"
  by (cases s; simp add: legacy_field_def ext_field_def Let_def split: option.splits prod.splits)+

lemma add_fields_same [simp]:
  "te_version (add_fields opts idx ss tpl) = te_version tpl" "te_num (add_fields opts idx ss tpl) = te_num tpl"
  "te_template_type (add_fields opts idx ss tpl) = te_template_type tpl"
  by (induction ss arbitrary: idx tpl) simp_all

lemma add_field_tpl:
  "(if is_legacy t p then add_layer t (legacy_field False t n idx tpl) else ext_field t p n idx tpl) = add_field False idx (t, n, p) tpl"
  by simp

lemma template_fields_bytes:
  assumes "\<forall>s\<in>set ss. spec_ok (te_version tpl) s" "idx + length ss \<le> TPL_LIST_ENTRIES"
    "off + length (specs_bytes ss) \<le> len" "h + off = length xs"
  shows "template_fields (xs @ specs_bytes ss @ ys) h len (length ss) idx off pens tpl =
    Inr (Some (add_fields False idx ss tpl), pens + word_of_nat (occurs has_pen ss))"
  using assms
proof (induction ss arbitrary: idx off pens tpl xs)
  case (Cons s ss)
  obtain t n p where s: "s = (t, n, p)" by (cases s) auto
  have rd: "read_field (te_version tpl) (xs @ spec_bytes s @ specs_bytes ss @ ys) (h + off) = Inr s"
    by (rule read_field_bytes) (use Cons.prems in auto)
  have "0 < field_size p" by (simp add: field_size_def NfTplFieldV9Sz_def)
  then have guard: "\<not> (TPL_LIST_ENTRIES \<le> idx \<or> len \<le> off)" using Cons.prems by (simp add: s)
  have IH: "template_fields ((xs @ spec_bytes s) @ specs_bytes ss @ ys) h len (length ss) (Suc idx) (off + field_size p)
      (if p = None then pens else pens + 1) (add_field False idx s tpl) =
    Inr (Some (add_fields False (Suc idx) ss (add_field False idx s tpl)),
      (if p = None then pens else pens + 1) + word_of_nat (occurs has_pen ss))"
    by (rule Cons.IH) (use Cons.prems in \<open>simp_all add: s del: add_field.simps\<close>)
  have "has_pen s \<longleftrightarrow> p \<noteq> None" by (simp add: s has_pen_def)
  with rd guard IH show ?case
    by (simp add: s add_field_tpl algebra_simps del: spec_bytes.simps add_field.simps split del: if_split)
      (cases p; simp add: algebra_simps)
qed simp

definition tpl_bytes :: "u16 \<Rightarrow> fspec list \<Rightarrow> u8 list" where
  "tpl_bytes tid ss = bytes16 tid @ bytes16 (u16n (length ss)) @ specs_bytes ss"

lemma compose_template_describes:
  assumes ok: "\<forall>s\<in>set ss. spec_ok version s" and fit: "fits ss" and len: "length (tpl_bytes tid ss) \<le> len"
  shows "\<exists>tpl. compose_template (xs @ tpl_bytes tid ss @ ys) (length xs) agent sid version len =
    Inr (Some tpl, word_of_nat (occurs has_pen ss)) \<and> describes tpl ss \<and> unat (te_num tpl) = length ss \<and> data_template tpl ss"
proof -
  let ?new = "tpl_new (fst (sa_to_addr (sa_addr agent) (ntohs (sa_port agent)) 0)) version sid tid 0 (u16n (length ss))"
  let ?pkt = "xs @ tpl_bytes tid ss @ ys"
  have n: "length ss \<le> TPL_LIST_ENTRIES" using fit by (simp add: fits_def)
  then have num: "unat (u16n (length ss)) = length ss" by (simp add: TPL_LIST_ENTRIES_def)
  have "peek16 (xs @ bytes16 tid @ bytes16 (u16n (length ss)) @ specs_bytes ss @ ys) (length xs) = Inr tid"
    "peek16 ((xs @ bytes16 tid) @ bytes16 (u16n (length ss)) @ specs_bytes ss @ ys) (length xs + 2) = Inr (u16n (length ss))"
    by (rule peek16_app; simp)+
  then have rd: "peek16 ?pkt (length xs) = Inr tid" "peek16 ?pkt (length xs + 2) = Inr (u16n (length ss))"
    by (simp_all add: tpl_bytes_def)
  have "template_fields ((xs @ bytes16 tid @ bytes16 (u16n (length ss))) @ specs_bytes ss @ ys) (length xs) len (length ss) 0
      NfTplHdrV9Sz 0 ?new = Inr (Some (add_fields False 0 ss ?new), 0 + word_of_nat (occurs has_pen ss))"
    by (rule template_fields_bytes) (use ok len n in \<open>simp_all add: tpl_new_def tpl_bytes_def NfTplHdrV9Sz_def\<close>)
  then have "compose_template ?pkt (length xs) agent sid version len =
      Inr (Some (add_fields False 0 ss ?new), word_of_nat (occurs has_pen ss))"
    unfolding compose_template_def rd by (simp add: num tpl_bytes_def del: unat_u16n)
  moreover have d: "describes (add_fields False 0 ss ?new) ss"
    by (rule describes_add_fields [OF describes_new fit])
  moreover have "L_ipv6 \<notin> set (te_prots ?new)" by (simp add: tpl_new_def)
  then have "data_template (add_fields False 0 ss ?new) ss"
    using d prots_add_fields [of False 0 ss ?new]
    by (auto simp: data_template_def describes_def tpl_new_def fld_add_fields prots_ne_add_fields otpl_zero_def
        TPL_MAX_ELEM_REPEATS_def)
  ultimately show ?thesis by (simp add: tpl_new_def num del: unat_u16n)
qed

section \<open>Records\<close>

text \<open>The value of a field, with its length in front in the short or in the long form if it is of variable length.\<close>

type_synonym fval = "bool \<times> u8 list"

definition prefix_len :: "fspec \<Rightarrow> fval \<Rightarrow> nat" where
  "prefix_len s v = (if is_var s then if fst v then 3 else 1 else 0)"

definition enc :: "fspec \<Rightarrow> fval \<Rightarrow> u8 list" where
  "enc s v = (if is_var s then if fst v then 255 # bytes16 (u16n (length (snd v))) else [u8n (length (snd v))] else []) @ snd v"

definition val_ok :: "fspec \<Rightarrow> fval \<Rightarrow> bool" where
  "val_ok s v \<longleftrightarrow> (if is_var s then fst v \<or> length (snd v) < 255 else length (snd v) = slen s)"

fun rec_bytes :: "fspec list \<Rightarrow> fval list \<Rightarrow> u8 list" where
  "rec_bytes (s # ss) (v # vs) = enc s v @ rec_bytes ss vs"
| "rec_bytes _ _ = []"

lemma length_enc: "length (enc s v) = prefix_len s v + length (snd v)"
  by (simp add: enc_def prefix_len_def)

lemma rec_bytes_append:
  "length ss = length vs \<Longrightarrow> rec_bytes (ss @ ss') (vs @ vs') = rec_bytes ss vs @ rec_bytes ss' vs'"
  by (induction ss vs rule: list_induct2) simp_all

text \<open>Where the value of field \<open>i\<close> of a record is.\<close>

definition val_off :: "fspec list \<Rightarrow> fval list \<Rightarrow> nat \<Rightarrow> nat" where
  "val_off ss vs i = length (rec_bytes (take i ss) (take i vs)) + prefix_len (ss ! i) (vs ! i)"

definition resolved :: "template_cache_entry \<Rightarrow> fspec list \<Rightarrow> fval list \<Rightarrow> nat \<Rightarrow> bool" where
  "resolved tpl ss vs i \<longleftrightarrow>
     slot tpl (loc (take i ss) (ss ! i)) = (u16n (val_off ss vs i), u16n (length (snd (vs ! i))), fst (snd (ss ! i)))"

lemma u16n_add: "u16n (a + b) = u16n a + u16n b"
  by (simp add: u16n_def)

lemma peek_app: "i = length xs \<Longrightarrow> peek (xs @ b # ys) i = Inr b"
  by (simp add: peek_def)

text \<open>The length in front of a value is read back.\<close>

lemma get_ipfix_vlen_enc:
  assumes "is_var s" "val_ok s v" "length (snd v) < 65536" "length (enc s v) \<le> remlen"
  shows "get_ipfix_vlen (xs @ enc s v @ ys) (length xs) remlen n = Inr (int (prefix_len s v), u16n (length (snd v)))"
proof (cases "fst v")
  case True
  let ?w = "u16n (length (snd v))"
  have enc: "enc s v = 255 # bytes16 ?w @ snd v" using True assms(1) by (simp add: enc_def)
  have "peek16 ((xs @ [255]) @ bytes16 ?w @ snd v @ ys) (Suc (length xs)) = Inr ?w"
    by (rule peek16_app) simp
  then have "peek16 (xs @ 255 # bytes16 ?w @ snd v @ ys) (Suc (length xs)) = Inr ?w" by simp
  moreover have "peek (xs @ 255 # bytes16 ?w @ snd v @ ys) (length xs) = Inr 255" by (rule peek_app) simp
  ultimately show ?thesis using True assms by (simp add: get_ipfix_vlen_def enc prefix_len_def)
next
  case False
  let ?b = "u8n (length (snd v))"
  have enc: "enc s v = ?b # snd v" using False assms(1) by (simp add: enc_def)
  have small: "length (snd v) < 255" using False assms(1,2) by (simp add: val_ok_def)
  have "peek (xs @ ?b # snd v @ ys) (length xs) = Inr ?b" by (rule peek_app) simp
  moreover have "ucast ?b = u16n (length (snd v))" using small by (simp add: u8n_def u16n_def unsigned_of_nat take_bit_nat_eq_self)
  ultimately show ?thesis using False assms small by (simp add: get_ipfix_vlen_def enc prefix_len_def)
qed

text \<open>One field: its place and length, from what the template or an earlier record left there.\<close>

lemma resolve_field_enc:
  assumes "val_ok s v" "length xs + length (enc s v) \<le> remlen" "remlen < 65536" "length pre = p"
    and "vlen \<or> is_var s \<or> foff = u16n (length xs)" "is_var s \<or> flen = fst (snd s)"
  shows "resolve_field (pre @ xs @ enc s v @ ys) p remlen (u16n (length xs)) vlen foff flen (fst (snd s)) =
    Inr (SUCCESS, u16n (length xs + prefix_len s v), u16n (length (snd v)), u16n (length xs + length (enc s v)), vlen \<or> is_var s)"
proof (cases "is_var s")
  case True
  then have t: "fst (snd s) = IPFIX_VARIABLE_LENGTH" by (cases s) simp
  have small: "length xs < 65536" "length (snd v) < 65536" using assms(2,3) by (simp_all add: length_enc)
  have "get_ipfix_vlen ((pre @ xs) @ enc s v @ ys) (length (pre @ xs)) (remlen - length xs) flen =
      Inr (int (prefix_len s v), u16n (length (snd v)))"
    by (rule get_ipfix_vlen_enc) (use True assms small in auto)
  then have g: "get_ipfix_vlen (pre @ xs @ enc s v @ ys) (p + length xs) (remlen - length xs) flen =
      Inr (int (prefix_len s v), u16n (length (snd v)))"
    using assms(4) by simp
  have pos: "0 < prefix_len s v" using True by (simp add: prefix_len_def)
  have u: "unat (u16n (length xs)) = length xs" using small by simp
  show ?thesis
    using pos True by (simp add: resolve_field_def t u g length_enc Let_def del: unat_u16n) (simp add: u16n_def)
next
  case False
  then have "fst (snd s) \<noteq> IPFIX_VARIABLE_LENGTH" by (cases s) simp
  moreover have "length (snd v) = unat (fst (snd s))" using False assms(1) by (simp add: val_ok_def slen_def)
  ultimately show ?thesis
    using False assms(5,6) by (auto simp: resolve_field_def length_enc prefix_len_def u16n_add)
qed

section \<open>The places of the fields of a record\<close>

fun loc_ok :: "floc \<Rightarrow> bool" where
  "loc_ok (Fld t, r) \<longleftrightarrow> r < TPL_MAX_ELEM_REPEATS"
| "loc_ok (Ie m i, r) \<longleftrightarrow> i < IES_PER_TPL_EXT_DB_ENTRY \<and> r = 0"

fun set_slot :: "template_cache_entry \<Rightarrow> floc \<Rightarrow> u16 \<Rightarrow> u16 \<Rightarrow> template_cache_entry" where
  "set_slot tpl (Fld t, r) foff flen =
     tpl\<lparr>te_fld := (te_fld tpl)(t := (te_fld tpl t)\<lparr>of_off := (of_off (te_fld tpl t))[r := foff], of_len := (of_len (te_fld tpl t))[r := flen]\<rparr>)\<rparr>"
| "set_slot tpl (Ie m i, r) foff flen =
     tpl\<lparr>te_ext_db := (te_ext_db tpl)(m := (te_ext_db tpl m)[i := (te_ext_db tpl m ! i)\<lparr>uf_off := foff, uf_len := flen\<rparr>])\<rparr>"

lemma slot_set_slot:
  assumes "sized tpl" "loc_ok l" "loc_ok l'"
  shows "slot (set_slot tpl l a b) l' = (if l' = l then (a, b, snd (snd (slot tpl l))) else slot tpl l')"
  using assms by (cases l rule: loc_ok.cases; cases l' rule: loc_ok.cases) (auto simp: sized_def)

lemma set_slot_same [simp]:
  "te_list (set_slot tpl l a b) = te_list tpl" "te_num (set_slot tpl l a b) = te_num tpl"
  "te_vlen (set_slot tpl l a b) = te_vlen tpl" "te_len (set_slot tpl l a b) = te_len tpl"
  "te_version (set_slot tpl l a b) = te_version tpl" "te_template_type (set_slot tpl l a b) = te_template_type tpl"
  "te_prots (set_slot tpl l a b) = te_prots tpl" "te_layers (set_slot tpl l a b) = te_layers tpl"
  by (cases "(tpl, l, a, b)" rule: set_slot.cases; simp)+

lemma map_ident_update:
  "i < length ies \<Longrightarrow> ie_ident ie = ie_ident (ies ! i) \<Longrightarrow> map ie_ident (ies[i := ie]) = map ie_ident ies"
  by (simp add: map_update)  (metis list_update_id map_update nth_map)

lemma idents_set_slot [simp]:
  "map ie_ident (te_ext_db (set_slot tpl l a b) m) = map ie_ident (te_ext_db tpl m)"
proof (cases "(tpl, l, a, b)" rule: set_slot.cases)
  case (2 tpl m' i r foff flen)
  then show ?thesis
    by (cases "i < length (te_ext_db tpl m')") (auto simp: map_ident_update ie_ident_def list_update_beyond)
qed simp

lemma sized_set_slot [simp]: "sized tpl \<Longrightarrow> sized (set_slot tpl l a b)"
  by (cases "(tpl, l, a, b)" rule: set_slot.cases) (simp_all add: sized_def)

lemma loc_ok_loc:
  assumes "fits (ss @ [s])"
  shows "loc_ok (loc ss s)"
proof (cases "legacy_spec s")
  case True
  then have "same_type (fst s) s" by (simp add: same_type_def)
  with assms have "occurs (same_type (fst s)) ss < TPL_MAX_ELEM_REPEATS" by (auto simp: fits_def dest!: spec [of _ "fst s"])
  with True show ?thesis by (simp add: loc_def)
next
  case False
  let ?m = "unat (fst s) mod TPL_EXT_DB_ENTRIES"
  from False have "same_chain ?m s" by (simp add: same_chain_def)
  with assms have "occurs (same_chain ?m) ss < IES_PER_TPL_EXT_DB_ENTRY"
    unfolding fits_def by (auto dest!: spec [of _ ?m])
  with False show ?thesis by (simp add: loc_def Let_def)
qed

lemma loc_ok_nth: "fits ss \<Longrightarrow> i < length ss \<Longrightarrow> loc_ok (loc (take i ss) (ss ! i))"
  by (metis append_take_drop_id fits_append loc_ok_loc take_Suc_conv_app_nth)

text \<open>One turn of the loop, whatever kind the field is of.\<close>

lemma resolve_turn:
  assumes "item_loc (te_list tpl idx) = Some l" "idx < TPL_LIST_ENTRIES" "slot tpl l = (foff, flen, ftpl)"
  shows "resolve_fields pkt p remlen (Suc n) idx len vlen tpl =
    fbind (resolve_field pkt p remlen len vlen foff flen ftpl) (\<lambda>(ret, foff, flen, len, vlen).
      if ret = ERR \<or> remlen < unat len then Inr (ERR, set_slot tpl l foff flen)
      else resolve_fields pkt p remlen n (Suc idx) len vlen (set_slot tpl l foff flen))"
proof (cases "tl_type (te_list tpl idx) = TPL_TYPE_LEGACY")
  case True
  with assms(1) obtain t where t: "tl_ptr (te_list tpl idx) = Some (Fld t)" "l = (Fld t, unat (tl_repeat (te_list tpl idx)) - 1)"
    by (auto simp: item_loc_def split: option.splits tpl_ptr.splits)
  with True assms(2,3) show ?thesis by (auto simp: Let_def intro!: arg_cong [where f = "fbind _"])
next
  case False
  with assms(1) obtain m i where e: "tl_type (te_list tpl idx) = TPL_TYPE_EXT_DB" "tl_ptr (te_list tpl idx) = Some (Ie m i)" "l = (Ie m i, 0)"
    by (auto simp: item_loc_def split: option.splits tpl_ptr.splits if_splits)
  with False assms(2,3) show ?thesis by (auto simp: Let_def intro!: arg_cong [where f = "fbind _"])
qed

text \<open>A template that describes \<open>ss\<close>, before any record or behind one.\<close>

fun usable_field :: "u16 \<times> u16 \<times> u16 \<Rightarrow> fspec list \<Rightarrow> fspec \<Rightarrow> bool" where
  "usable_field (foff, flen, ftpl) ss s \<longleftrightarrow>
     ftpl = fst (snd s) \<and> (is_var s \<or> flen = ftpl) \<and> (list_ex is_var ss \<or> is_var s \<or> foff = off0 ss)"

definition usable :: "template_cache_entry \<Rightarrow> fspec list \<Rightarrow> bool" where
  "usable tpl ss \<longleftrightarrow> sized tpl \<and> unat (te_num tpl) = length ss \<and> te_vlen tpl = list_ex is_var ss \<and>
     (\<forall>i<length ss. item_loc (te_list tpl i) = Some (loc (take i ss) (ss ! i)) \<and>
        usable_field (slot tpl (loc (take i ss) (ss ! i))) (take i ss) (ss ! i)) \<and>
     (\<forall>m. map ie_ident (te_ext_db tpl m) =
        idents (chain m ss) @ replicate (IES_PER_TPL_EXT_DB_ENTRY - length (chain m ss)) (0, 0, 0)) \<and>
     data_template tpl ss"

lemma set_slot_count [simp]: "of_count (te_fld (set_slot tpl l a b) t) = of_count (te_fld tpl t)"
  by (cases "(tpl, l, a, b)" rule: set_slot.cases) simp_all

lemma data_template_len [simp]: "data_template (tpl\<lparr>te_len := n\<rparr>) ss = data_template tpl ss"
  by (simp add: data_template_def)

lemma data_template_slot:
  assumes d: "data_template tpl ss" and i: "i < length ss"
  shows "data_template (set_slot tpl (loc (take i ss) (ss ! i)) a b) ss"
proof -
  have "te_fld (set_slot tpl (loc (take i ss) (ss ! i)) a b) (unat t) = te_fld tpl (unat t)"
    if "\<not> list_ex (same_type t) ss" for t
    using that i by (auto simp: list_ex_length same_type_def loc_def Let_def word_unat_eq_iff)
  with d show ?thesis by (simp add: data_template_def)
qed

lemma usable_fieldD: "usable tpl ss \<Longrightarrow> i < length ss \<Longrightarrow> usable_field (slot tpl (loc (take i ss) (ss ! i))) (take i ss) (ss ! i)"
  by (simp add: usable_def)

lemma usable_num: "usable tpl ss \<Longrightarrow> unat (te_num tpl) = length ss"
  by (simp add: usable_def)

lemma describes_usable: "describes tpl ss \<Longrightarrow> unat (te_num tpl) = length ss \<Longrightarrow> data_template tpl ss \<Longrightarrow> usable tpl ss"
  by (auto simp: describes_def usable_def len0_def)

lemma usable_set_slot:
  assumes u: "usable tpl ss" and fit: "fits ss" and i: "i < length ss"
    and flen: "is_var (ss ! i) \<or> flen = fst (snd (ss ! i))"
    and foff: "list_ex is_var (take i ss) \<or> is_var (ss ! i) \<or> foff = off0 (take i ss)"
  shows "usable (set_slot tpl (loc (take i ss) (ss ! i)) foff flen) ss" (is "usable ?tpl' ss")
proof -
  let ?l = "\<lambda>i. loc (take i ss) (ss ! i)"
  have sz: "sized tpl" using u by (simp add: usable_def)
  have slots: "slot ?tpl' (?l j) = (if j = i then (foff, flen, snd (snd (slot tpl (?l i)))) else slot tpl (?l j))"
    if "j < length ss" for j
    using slot_set_slot [OF sz loc_ok_nth [OF fit i] loc_ok_nth [OF fit that]] loc_inj [OF that i] by auto
  have "usable_field (slot ?tpl' (?l j)) (take j ss) (ss ! j)" if j: "j < length ss" for j
  proof (cases "j = i")
    case True
    have "usable_field (slot tpl (?l i)) (take i ss) (ss ! i)" using u i by (simp add: usable_def)
    then have "snd (snd (slot tpl (?l i))) = fst (snd (ss ! i))" by (cases "slot tpl (?l i)") simp
    with True show ?thesis using flen foff by (simp add: slots i)
  next
    case False
    then show ?thesis using u j by (simp add: slots usable_def)
  qed
  then show ?thesis using u data_template_slot [OF _ i] by (simp add: usable_def)
qed

text \<open>No octets of the record are in front of the first field of variable length but those of fixed fields.\<close>

lemma rec_bytes_fixed:
  assumes "length ss = length vs" "\<forall>(s, v)\<in>set (zip ss vs). val_ok s v" "\<not> list_ex is_var ss"
  shows "length (rec_bytes ss vs) = sum_list (map slen ss)"
  using assms by (induction ss vs rule: list_induct2) (auto simp: length_enc prefix_len_def val_ok_def)

lemma zip_take_subset: "set (zip (take i xs) (take i ys)) \<subseteq> set (zip xs ys)"
  by (metis set_take_subset take_zip)

lemma slot_len [simp]: "slot (tpl\<lparr>te_len := n\<rparr>) l = slot tpl l"
  by (cases "(tpl, l)" rule: slot.cases) simp_all

lemma usable_len [simp]: "usable (tpl\<lparr>te_len := n\<rparr>) ss = usable tpl ss"
  by (simp add: usable_def sized_def)

definition vals_ok :: "fspec list \<Rightarrow> fval list \<Rightarrow> bool" where
  "vals_ok ss vs \<longleftrightarrow> length ss = length vs \<and> (\<forall>i<length ss. val_ok (ss ! i) (vs ! i))"

lemma rec_bytes_split:
  assumes "length ss = length vs" "i < length ss"
  shows "rec_bytes ss vs = rec_bytes (take i ss) (take i vs) @ enc (ss ! i) (vs ! i) @ rec_bytes (drop (Suc i) ss) (drop (Suc i) vs)"
proof -
  have "rec_bytes ss vs = rec_bytes (take i ss @ drop i ss) (take i vs @ drop i vs)" by simp
  also have "\<dots> = rec_bytes (take i ss) (take i vs) @ rec_bytes (drop i ss) (drop i vs)"
    by (rule rec_bytes_append) (use assms in simp)
  finally show ?thesis using assms by (simp flip: Cons_nth_drop_Suc)
qed

lemma rec_bytes_take_Suc:
  assumes "length ss = length vs" "i < length ss"
  shows "rec_bytes (take (Suc i) ss) (take (Suc i) vs) = rec_bytes (take i ss) (take i vs) @ enc (ss ! i) (vs ! i)"
  using assms by (simp add: take_Suc_conv_app_nth rec_bytes_append)

lemma off0_front:
  assumes "vals_ok ss vs" "i < length ss" "\<not> list_ex is_var (take i ss)"
  shows "off0 (take i ss) = u16n (length (rec_bytes (take i ss) (take i vs)))"
proof -
  have "val_ok s v" if "(s, v) \<in> set (zip (take i ss) (take i vs))" for s v
    using that assms(1) by (auto simp: set_zip vals_ok_def)
  then have "length (rec_bytes (take i ss) (take i vs)) = sum_list (map slen (take i ss))"
    using assms(1,3) by (intro rec_bytes_fixed) (auto simp: vals_ok_def)
  then show ?thesis using assms(3) by (simp add: off0_def)
qed

lemma resolve_fields_record:
  assumes fit: "fits ss" and ok: "vals_ok ss vs" and room: "length (rec_bytes ss vs) \<le> remlen" "remlen < 65536"
    and p: "length pre = p"
  shows "usable tpl ss \<Longrightarrow> idx + n = length ss \<Longrightarrow> \<forall>j<idx. resolved tpl ss vs j \<Longrightarrow>
    \<exists>tpl'. resolve_fields (pre @ rec_bytes ss vs @ ys) p remlen n idx (u16n (length (rec_bytes (take idx ss) (take idx vs))))
        (list_ex is_var (take idx ss)) tpl = Inr (SUCCESS, tpl') \<and>
      usable tpl' ss \<and> (\<forall>j<length ss. resolved tpl' ss vs j) \<and> te_len tpl' = u16n (length (rec_bytes ss vs))"
proof (induction n arbitrary: idx tpl)
  case 0
  then show ?case using ok by (intro exI [of _ "tpl\<lparr>te_len := u16n (length (rec_bytes ss vs))\<rparr>"])
      (simp add: vals_ok_def resolved_def)
next
  case (Suc n)
  let ?s = "ss ! idx" let ?v = "vs ! idx" let ?l = "\<lambda>i. loc (take i ss) (ss ! i)"
  let ?xs = "rec_bytes (take idx ss) (take idx vs)" let ?vlen = "list_ex is_var (take idx ss)"
  have i: "idx < length ss" and lv: "length ss = length vs" using Suc.prems ok by (auto simp: vals_ok_def)
  obtain foff flen ftpl where sl: "slot tpl (?l idx) = (foff, flen, ftpl)" by (cases "slot tpl (?l idx)") auto
  from usable_fieldD [OF Suc.prems(1) i] have uf: "usable_field (foff, flen, ftpl) (take idx ss) ?s" by (simp only: sl)
  let ?tpl = "set_slot tpl (?l idx) (u16n (val_off ss vs idx)) (u16n (length (snd ?v)))"
  have split: "rec_bytes ss vs = ?xs @ enc ?s ?v @ rec_bytes (drop (Suc idx) ss) (drop (Suc idx) vs)"
    by (rule rec_bytes_split [OF lv i])
  have vok: "val_ok ?s ?v" using ok i by (simp add: vals_ok_def)
  have len: "length ?xs + length (enc ?s ?v) \<le> remlen" using room split by simp
  have field: "resolve_field (pre @ rec_bytes ss vs @ ys) p remlen (u16n (length ?xs)) ?vlen foff flen ftpl =
    Inr (SUCCESS, u16n (val_off ss vs idx), u16n (length (snd ?v)), u16n (length ?xs + length (enc ?s ?v)), ?vlen \<or> is_var ?s)"
    using resolve_field_enc [OF vok len room(2) p, of ?vlen foff flen] uf off0_front [OF ok i] by (auto simp: split val_off_def)
  have small: "\<not> remlen < unat (u16n (length ?xs + length (enc ?s ?v)))" using len by simp
  have flen': "is_var ?s \<or> u16n (length (snd ?v)) = fst (snd ?s)" using vok by (cases "is_var ?s") (simp_all add: val_ok_def slen_def)
  have foff': "?vlen \<or> is_var ?s \<or> u16n (val_off ss vs idx) = off0 (take idx ss)"
    using off0_front [OF ok i] by (cases ?vlen) (simp_all add: val_off_def prefix_len_def)
  have u: "usable ?tpl ss" by (rule usable_set_slot [OF Suc.prems(1) fit i flen' foff'])
  have sz: "sized tpl" using Suc.prems(1) by (simp add: usable_def)
  have res: "resolved ?tpl ss vs j" if "j < Suc idx" for j
  proof -
    have j: "j < length ss" using that i by simp
    have "slot ?tpl (?l j) = (if ?l j = ?l idx then (u16n (val_off ss vs idx), u16n (length (snd ?v)), ftpl) else slot tpl (?l j))"
      using slot_set_slot [OF sz loc_ok_nth [OF fit i] loc_ok_nth [OF fit j]] by (simp add: sl)
    then show ?thesis
      using that Suc.prems(3) loc_inj [OF j i] uf by (cases "j = idx") (auto simp: resolved_def)
  qed
  have il: "item_loc (te_list tpl idx) = Some (?l idx)" using Suc.prems(1) i by (simp add: usable_def)
  have il256: "idx < TPL_LIST_ENTRIES" using fit i by (simp add: fits_def)
  have "\<exists>tpl'. resolve_fields (pre @ rec_bytes ss vs @ ys) p remlen n (Suc idx)
      (u16n (length (rec_bytes (take (Suc idx) ss) (take (Suc idx) vs)))) (list_ex is_var (take (Suc idx) ss)) ?tpl = Inr (SUCCESS, tpl') \<and>
    usable tpl' ss \<and> (\<forall>j<length ss. resolved tpl' ss vs j) \<and> te_len tpl' = u16n (length (rec_bytes ss vs))"
    by (rule Suc.IH) (use u res Suc.prems in auto)
  moreover have "list_ex is_var (take (Suc idx) ss) = (?vlen \<or> is_var ?s)" using i by (simp add: take_Suc_conv_app_nth)
  ultimately show ?case
    using small unfolding resolve_turn [OF il il256 sl] field
    by (simp add: rec_bytes_take_Suc [OF lv i] SUCCESS_def ERR_def del: unat_u16n)
qed

theorem resolve_record:
  assumes "usable tpl ss" "fits ss" "vals_ok ss vs" "length (rec_bytes ss vs) \<le> remlen" "remlen < 65536"
  shows "\<exists>tpl'. resolve_vlen_template (pre @ rec_bytes ss vs @ ys) (length pre) remlen tpl = Inr (SUCCESS, tpl') \<and>
    usable tpl' ss \<and> (\<forall>j<length ss. resolved tpl' ss vs j) \<and> te_len tpl' = u16n (length (rec_bytes ss vs))"
  using resolve_fields_record [OF assms(2-5) refl assms(1), of 0 "length ss"]
  by (simp add: resolve_vlen_template_def usable_num [OF assms(1)] u16n_def)

text \<open>The octets of field \<open>i\<close> of the record in front of \<open>rest\<close>.\<close>

definition item_value :: "template_cache_entry \<Rightarrow> nat \<Rightarrow> u8 list \<Rightarrow> u8 list option" where
  "item_value tpl i rest =
     (case item_loc (te_list tpl i) of
        None \<Rightarrow> None
      | Some l \<Rightarrow> case slot tpl l of (foff, flen, _) \<Rightarrow> Some (take (unat flen) (drop (unat foff) rest)))"

lemma val_off_bound:
  assumes "length ss = length vs" "i < length ss"
  shows "val_off ss vs i + length (snd (vs ! i)) \<le> length (rec_bytes ss vs)"
  by (simp add: rec_bytes_split [OF assms] val_off_def length_enc)

lemma value_at:
  assumes "length ss = length vs" "i < length ss"
  shows "take (length (snd (vs ! i))) (drop (val_off ss vs i) (rec_bytes ss vs @ rest)) = snd (vs ! i)"
  by (simp add: rec_bytes_split [OF assms] val_off_def length_enc) (simp add: enc_def prefix_len_def)

lemma resolved_value:
  assumes "usable tpl ss" "vals_ok ss vs" "resolved tpl ss vs i" "i < length ss" "length (rec_bytes ss vs) < 65536"
  shows "item_value tpl i (rec_bytes ss vs @ rest) = Some (snd (vs ! i))"
proof -
  have l: "length ss = length vs" using assms(2) by (simp add: vals_ok_def)
  have "item_loc (te_list tpl i) = Some (loc (take i ss) (ss ! i))" using assms(1,4) by (simp add: usable_def)
  with assms(3) have "item_value tpl i (rec_bytes ss vs @ rest) =
      Some (take (unat (u16n (length (snd (vs ! i))))) (drop (unat (u16n (val_off ss vs i))) (rec_bytes ss vs @ rest)))"
    by (simp add: item_value_def resolved_def)
  with val_off_bound [OF l assms(4)] assms(5) value_at [OF l assms(4)] show ?thesis by simp
qed

end
