(* ===== verification/NfRecords.thy ===== *)
theory NfRecords
  imports NfFacts
begin

text \<open>
  The records of a flowset whose template describes them: each is found at its place, and the values of its
  fields are read back.
\<close>

section \<open>The records of a flowset\<close>

definition ready :: "template_cache_entry \<Rightarrow> fspec list \<Rightarrow> bool" where
  "ready tpl ss \<longleftrightarrow> usable tpl ss \<and> (if list_ex is_var ss then unat (te_len tpl) \<le> 1 else te_len tpl = off0 ss)"

text \<open>What a record's template is like when it is handed on.\<close>

definition baked :: "template_cache_entry \<Rightarrow> fspec list \<Rightarrow> fval list \<Rightarrow> bool" where
  "baked tpl ss vs \<longleftrightarrow> usable tpl ss \<and> (\<forall>i<length ss. resolved tpl ss vs i) \<and> te_len tpl = u16n (length (rec_bytes ss vs))"

lemma describes_ready: "describes tpl ss \<Longrightarrow> unat (te_num tpl) = length ss \<Longrightarrow> data_template tpl ss \<Longrightarrow> ready tpl ss"
  using describes_usable [of tpl ss] by (simp add: ready_def describes_def off0_var)

lemma fixed_prefix:
  assumes "vals_ok ss vs" "\<not> list_ex is_var ss" "i \<le> length ss"
  shows "length (rec_bytes (take i ss) (take i vs)) = sum_list (map slen (take i ss))"
proof (rule rec_bytes_fixed)
  show "\<forall>(s, v)\<in>set (zip (take i ss) (take i vs)). val_ok s v" using assms(1) by (auto simp: set_zip vals_ok_def)
  show "\<not> list_ex is_var (take i ss)" using assms(2) by (auto simp: list_ex_iff dest: in_set_takeD)
qed (use assms in \<open>simp add: vals_ok_def\<close>)

lemma bake_record:
  assumes "ready tpl ss" "fits ss" "vals_ok ss vs" "length (rec_bytes ss vs) \<le> remlen" "remlen < 65536"
  shows "\<exists>tpl'. bake (pre @ rec_bytes ss vs @ ys) (length pre) remlen tpl = Inr (SUCCESS, tpl') \<and> baked tpl' ss vs"
proof (cases "list_ex is_var ss")
  case True
  with assms show ?thesis using resolve_record [of tpl ss vs remlen pre ys]
    by (auto simp: bake_def ready_def baked_def usable_def)
next
  case False
  have u: "usable tpl ss" and len: "te_len tpl = off0 ss" using assms(1) False by (simp_all add: ready_def)
  have "resolved tpl ss vs i" if i: "i < length ss" for i
  proof -
    have nv: "\<not> is_var (ss ! i)" "\<not> list_ex is_var (take i ss)"
      using False i by (auto simp: list_ex_iff dest: in_set_takeD)
    have "usable_field (slot tpl (loc (take i ss) (ss ! i))) (take i ss) (ss ! i)" by (rule usable_fieldD [OF u i])
    then have "slot tpl (loc (take i ss) (ss ! i)) = (off0 (take i ss), fst (snd (ss ! i)), fst (snd (ss ! i)))"
      using nv by (cases "slot tpl (loc (take i ss) (ss ! i))") simp
    moreover have "val_ok (ss ! i) (vs ! i)" using assms(3) i by (simp add: vals_ok_def)
    ultimately show ?thesis
      using nv off0_front [OF assms(3) i] by (simp add: resolved_def val_off_def prefix_len_def val_ok_def slen_def)
  qed
  moreover have "off0 ss = u16n (length (rec_bytes ss vs))"
    using fixed_prefix [OF assms(3) False, of "length ss"] assms(3) False by (simp add: off0_def vals_ok_def)
  ultimately show ?thesis using u len False by (simp add: bake_def baked_def usable_def)
qed

lemma baked_next:
  assumes "baked tpl ss vs" "vals_ok ss vs"
  shows "ready (if te_vlen tpl then tpl\<lparr>te_len := 1\<rparr> else tpl) ss"
proof (cases "list_ex is_var ss")
  case True
  with assms(1) show ?thesis by (simp add: baked_def ready_def usable_def [of tpl])
next
  case False
  have "off0 ss = u16n (length (rec_bytes ss vs))"
    using fixed_prefix [OF assms(2) False, of "length ss"] assms(2) False by (simp add: off0_def vals_ok_def)
  with False assms(1) show ?thesis by (simp add: baked_def ready_def usable_def [of tpl])
qed

text \<open>The octets of the records of a flowset.\<close>

definition recs_bytes :: "fspec list \<Rightarrow> fval list list \<Rightarrow> u8 list" where
  "recs_bytes ss rs = concat (map (rec_bytes ss) rs)"

text \<open>Behind the last record the loop ends: nothing follows, or less than a record of fixed length.\<close>

definition ends :: "fspec list \<Rightarrow> nat \<Rightarrow> bool" where
  "ends ss n \<longleftrightarrow> (if list_ex is_var ss then n = 0 else n < sum_list (map slen ss) \<and> sum_list (map slen ss) < 65536)"

definition record_at :: "u8 list \<Rightarrow> fspec list \<Rightarrow> fval list list \<Rightarrow> nat \<Rightarrow> nat \<times> template_cache_entry \<Rightarrow> nat \<Rightarrow> bool" where
  "record_at pkt ss rs p r j \<longleftrightarrow>
     fst r = p + length (recs_bytes ss (take j rs)) \<and> baked (snd r) ss (rs ! j) \<and>
     (\<exists>rest. drop (fst r) pkt = rec_bytes ss (rs ! j) @ rest)"

lemma record_not_empty:
  assumes "ends ss n" "vals_ok ss vs"
  shows "0 < length (rec_bytes ss vs)"
proof (cases "list_ex is_var ss")
  case True
  then obtain i where i: "i < length ss" "is_var (ss ! i)" by (auto simp: list_ex_length)
  moreover have "length ss = length vs" using assms(2) by (simp add: vals_ok_def)
  ultimately show ?thesis using rec_bytes_split [of ss vs i] by (simp add: length_enc prefix_len_def)
next
  case False
  then show ?thesis using fixed_prefix [OF assms(2) False, of "length ss"] assms by (simp add: ends_def vals_ok_def)
qed

lemma ready_first:
  assumes "ready tpl ss" "ends ss n" "vals_ok ss vs" "length (rec_bytes ss vs) < 65536"
  shows "unat (te_len tpl) \<le> length (rec_bytes ss vs)"
proof (cases "list_ex is_var ss")
  case True
  then have "unat (te_len tpl) \<le> 1" using assms(1) by (simp add: ready_def)
  with record_not_empty [OF assms(2,3)] show ?thesis by linarith
next
  case False
  then show ?thesis using fixed_prefix [OF assms(3) False, of "length ss"] assms by (simp add: ready_def off0_def vals_ok_def)
qed

lemma recs_bytes_Cons [simp]: "recs_bytes ss (vs # rs) = rec_bytes ss vs @ recs_bytes ss rs"
  by (simp add: recs_bytes_def)

lemma recs_bytes_Nil [simp]: "recs_bytes ss [] = []"
  by (simp add: recs_bytes_def)

lemma data_records_read:
  assumes fit: "fits ss" and small: "flowsetlen < 65536" and n: "ends ss n"
  shows "ready tpl ss \<Longrightarrow> rs \<noteq> [] \<or> \<not> list_ex is_var ss \<or> te_len tpl = 1 \<Longrightarrow> \<forall>vs\<in>set rs. vals_ok ss vs \<Longrightarrow>
    length rs < fuel \<Longrightarrow> length pre = p \<Longrightarrow> flowoff + length (recs_bytes ss rs) + n = flowsetlen \<Longrightarrow>
    \<exists>recs tpl'. data_records fuel (pre @ recs_bytes ss rs @ ys) flowsetlen p flowoff tpl = Inr (recs, flowsetlen - n, tpl') \<and>
      ready tpl' ss \<and> length recs = length rs \<and>
      (\<forall>j<length rs. record_at (pre @ recs_bytes ss rs @ ys) ss rs p (recs ! j) j)"
proof (induction rs arbitrary: fuel pre p flowoff tpl)
  case Nil
  then obtain f where f: "fuel = Suc f" by (cases fuel) auto
  have "\<not> flowoff + unat (te_len tpl) \<le> flowsetlen"
    using Nil n by (cases "list_ex is_var ss") (simp_all add: ready_def ends_def off0_def)
  with Nil show ?case by (auto simp: f)
next
  case (Cons vs rs)
  then obtain f where f: "fuel = Suc f" by (cases fuel) auto
  let ?v = "rec_bytes ss vs" let ?pkt = "pre @ recs_bytes ss (vs # rs) @ ys" let ?len = "length (rec_bytes ss vs)"
  have ok: "vals_ok ss vs" using Cons.prems by simp
  have less: "?len < 65536" "flowoff + ?len \<le> flowsetlen" using Cons.prems(6) small by auto
  have guard: "flowoff + unat (te_len tpl) \<le> flowsetlen"
    using ready_first [OF Cons.prems(1) n ok less(1)] less(2) by simp
  have r: "?len \<le> flowsetlen - flowoff" "flowsetlen - flowoff < 65536" using less small by linarith+
  obtain tpl1 where bk: "bake (pre @ ?v @ recs_bytes ss rs @ ys) (length pre) (flowsetlen - flowoff) tpl = Inr (SUCCESS, tpl1)"
    and b1: "baked tpl1 ss vs"
    using bake_record [OF Cons.prems(1) fit ok r, of pre "recs_bytes ss rs @ ys"] by auto
  let ?tpl = "if te_vlen tpl1 then tpl1\<lparr>te_len := 1\<rparr> else tpl1"
  have len1: "unat (te_len tpl1) = ?len" using b1 less(1) by (simp add: baked_def)
  have "rs \<noteq> [] \<or> \<not> list_ex is_var ss \<or> te_len ?tpl = 1" using b1 by (simp add: baked_def usable_def)
  then obtain recs tpl' where IH: "data_records f ((pre @ ?v) @ recs_bytes ss rs @ ys) flowsetlen (p + ?len) (flowoff + ?len) ?tpl =
      Inr (recs, flowsetlen - n, tpl')" "ready tpl' ss" "length recs = length rs"
      "\<forall>j<length rs. record_at ((pre @ ?v) @ recs_bytes ss rs @ ys) ss rs (p + ?len) (recs ! j) j"
    using Cons.IH [OF baked_next [OF b1 ok], of f "pre @ ?v" "p + ?len" "flowoff + ?len"] Cons.prems(3-6) f by auto
  have "data_records fuel ?pkt flowsetlen p flowoff tpl = Inr ((p, tpl1) # recs, flowsetlen - n, tpl')"
    using guard bk IH(1) Cons.prems(5) by (simp add: f len1 Let_def SUCCESS_def ERR_def split del: if_split)
  moreover have "record_at ?pkt ss (vs # rs) p (((p, tpl1) # recs) ! j) j" if "j < length (vs # rs)" for j
  proof (cases j)
    case 0
    then show ?thesis using b1 Cons.prems(5) by (auto simp: record_at_def)
  next
    case (Suc i)
    then show ?thesis using IH(4) that by (auto simp: record_at_def add.assoc)
  qed
  ultimately show ?case using IH(2,3) by (intro exI [of _ "(p, tpl1) # recs"] exI [of _ tpl']) simp
qed

section \<open>Packets\<close>

definition flowset :: "u16 \<Rightarrow> u8 list \<Rightarrow> u8 list" where
  "flowset fid body = bytes16 fid @ bytes16 (u16n (4 + length body)) @ body"

text \<open>An IPFIX packet: the front of its header, the observation domain, a template, records of the template.\<close>

definition ipfix_packet :: "u8 list \<Rightarrow> u32 \<Rightarrow> u16 \<Rightarrow> fspec list \<Rightarrow> fval list list \<Rightarrow> u8 list \<Rightarrow> u8 list" where
  "ipfix_packet hdr sid tid ss rs pad = hdr @ bytes32 sid @ flowset 2 (tpl_bytes tid ss) @ flowset tid (recs_bytes ss rs @ pad)"

lemma length_flowset: "length (flowset fid body) = 4 + length body"
  by (simp add: flowset_def)

lemma length_tpl_bytes: "length (tpl_bytes tid ss) = 4 + 4 * length ss + 4 * occurs has_pen ss"
  by (induction ss) (auto simp: tpl_bytes_def field_size_def has_pen_def NfTplFieldV9Sz_def)

lemma peek16_flowset:
  assumes "length (flowset fid body) < 65536" "i = length xs"
  shows "peek16 (xs @ flowset fid body @ ys) i = Inr fid"
    "peek16 (xs @ flowset fid body @ ys) (i + 2) = Inr (u16n (4 + length body))"
proof -
  have "peek16 ((xs @ bytes16 fid) @ bytes16 (u16n (4 + length body)) @ body @ ys) (i + 2) = Inr (u16n (4 + length body))"
    by (rule peek16_app) (simp add: assms(2))
  then show "peek16 (xs @ flowset fid body @ ys) (i + 2) = Inr (u16n (4 + length body))" by (simp add: flowset_def)
  show "peek16 (xs @ flowset fid body @ ys) i = Inr fid"
    using peek16_app [OF assms(2), where w = fid] by (simp add: flowset_def)
qed

lemma template_len_bytes:
  assumes "fits ss"
  shows "template_len (xs @ tpl_bytes tid ss @ ys) (length xs) 2 (word_of_nat (occurs has_pen ss)) = Inr (length (tpl_bytes tid ss))"
proof -
  have n: "length ss \<le> 256" using assms by (simp add: fits_def TPL_LIST_ENTRIES_def)
  moreover have "occurs has_pen ss \<le> length ss" by (simp add: occurs_def)
  ultimately have pens: "unat (word_of_nat (occurs has_pen ss) :: u16) = occurs has_pen ss"
    by (simp add: unat_of_nat)
  have "peek16 ((xs @ bytes16 tid) @ bytes16 (u16n (length ss)) @ specs_bytes ss @ ys) (length xs + 2) = Inr (u16n (length ss))"
    by (rule peek16_app) simp
  then show ?thesis
    using n pens by (simp add: template_len_def tpl_bytes_def [of tid ss] length_tpl_bytes NfTplHdrV9Sz_def NfTplFieldV9Sz_def)
      (simp add: length_tpl_bytes [unfolded tpl_bytes_def, simplified])
qed

lemma template_flowset_read:
  assumes fit: "fits ss" and ok: "\<forall>s\<in>set ss. spec_ok 10 s" and fuel: "2 \<le> fuel"
    and len: "off + length (flowset 2 (tpl_bytes tid ss)) \<le> len" "len < 65536" and tp: "tp = length xs"
  shows "\<exists>tpl. template_flowset fuel (xs @ tpl_bytes tid ss @ ys) len off 2 agent sid (4 + length (tpl_bytes tid ss)) tp 4 cache =
      Inr (cache(compose_template_key 10 tid agent sid \<mapsto> tpl), True) \<and> ready tpl ss \<and> te_template_type tpl = 0 \<and>
      (list_ex is_var ss \<longrightarrow> te_len tpl = 0)"
proof -
  let ?pkt = "xs @ tpl_bytes tid ss @ ys"
  obtain f where f: "fuel = Suc (Suc f)" using fuel by (metis Suc_le_D numeral_2_eq_2 Suc_le_mono)
  obtain tpl where c: "compose_template ?pkt (length xs) agent sid 10 (length (tpl_bytes tid ss)) = Inr (Some tpl, word_of_nat (occurs has_pen ss))"
    and d: "describes tpl ss" "unat (te_num tpl) = length ss" "data_template tpl ss"
    using compose_template_describes [OF ok fit order.refl, where tid = tid and xs = xs and ys = ys and agent = agent and sid = sid] by auto
  have "peek16 ?pkt (length xs) = Inr tid"
    using peek16_app [of "length xs" xs, where w = tid] by (simp add: tpl_bytes_def)
  then have h: "handle_template_v2 ?pkt (length xs) agent 2 sid (length (tpl_bytes tid ss)) cache =
      Inr (Some tpl, word_of_nat (occurs has_pen ss), cache(compose_template_key 10 tid agent sid \<mapsto> tpl))"
    by (simp add: handle_template_v2_def c Let_def)
  have n: "0 < length (tpl_bytes tid ss)" "4 \<le> length (tpl_bytes tid ss)" "4 + length (tpl_bytes tid ss) < 65536"
    using len by (simp_all add: length_flowset length_tpl_bytes)
  have "template_flowset fuel ?pkt len off 2 agent sid (4 + length (tpl_bytes tid ss)) tp 4 cache =
      Inr (cache(compose_template_key 10 tid agent sid \<mapsto> tpl), True)"
    using len n by (simp add: f tp h template_len_bytes [OF fit] NfTplHdrV9Sz_def length_flowset)
  then show ?thesis using d describes_ready [OF d] by (auto simp: describes_def data_template_def off0_var)
qed

text \<open>An IPFIX packet whose second flowset is \<open>body\<close>: what is left is the loop over its records.\<close>

lemma packet_head:
  assumes fit: "fits ss" and ok: "\<forall>s\<in>set ss. spec_ok 10 s" and tid: "256 \<le> unat tid"
    and hdr: "length hdr = 12" and pkt: "pkt = hdr @ bytes32 sid @ flowset 2 (tpl_bytes tid ss) @ flowset tid body"
    and len: "length pkt < 65536" and ne: "body \<noteq> []" and f: "2 \<le> f"
  shows "\<exists>tpl. ready tpl ss \<and> (list_ex is_var ss \<longrightarrow> te_len tpl = 0) \<and>
    process_v9_packet (Suc (Suc f)) (pkt @ stale) (length pkt) False agent 10 cache =
      fbind (data_records f (pkt @ stale) (4 + length body) (24 + length (tpl_bytes tid ss)) 4 tpl) (\<lambda>(recs, o', tpl').
        Inr (cache(compose_template_key 10 tid agent sid \<mapsto> tpl'), map (\<lambda>(p, tpl). FlowRecord p tpl) recs))"
proof -
  let ?n = "length (tpl_bytes tid ss)" let ?key = "compose_template_key 10 tid agent sid"
  let ?h = "hdr @ bytes32 sid" let ?t = "flowset 2 (tpl_bytes tid ss)" let ?d = "flowset tid body"
  let ?off = "20 + ?n" let ?fl = "4 + length body"
  have p: "pkt @ stale = ?h @ ?t @ ?d @ stale" "pkt @ stale = (?h @ ?t) @ ?d @ stale" by (simp_all add: pkt)
  have lens: "length pkt = 24 + ?n + length body" by (simp add: pkt hdr length_flowset)
  have small: "length ?t < 65536" "length ?d < 65536" using len by (simp_all add: lens length_flowset)
  have n0: "0 < ?n" by (simp add: length_tpl_bytes)
  have h1: "peek32 (pkt @ stale) 12 = Inr sid"
    using peek32_app [of 12 hdr sid "?t @ ?d @ stale"] hdr by (simp add: pkt)
  have h2: "peek16 (pkt @ stale) 16 = Inr 2" "peek16 (pkt @ stale) (16 + 2) = Inr (u16n (4 + ?n))"
    unfolding p(1) by (rule peek16_flowset [OF small(1)]; simp add: hdr)+
  have h3: "peek16 (pkt @ stale) ?off = Inr tid" "peek16 (pkt @ stale) (?off + 2) = Inr (u16n ?fl)"
    unfolding p(2) by (rule peek16_flowset [OF small(2)]; simp add: hdr length_flowset)+
  have l1: "unat (u16n (4 + ?n)) = 4 + ?n" "unat (u16n ?fl) = ?fl" using len by (simp_all add: lens)
  let ?th = "?h @ bytes16 2 @ bytes16 (u16n (4 + ?n))"
  have pt: "pkt @ stale = ?th @ tpl_bytes tid ss @ ?d @ stale" unfolding p(1) flowset_def [of 2] by simp
  have lt: "16 + length ?t \<le> length pkt" "20 = length ?th" by (simp_all add: lens length_flowset hdr)
  obtain tpl where t: "template_flowset (Suc f) (pkt @ stale) (length pkt) 16 2 agent sid (4 + ?n) 20 4 cache =
      Inr (cache(?key \<mapsto> tpl), True)" "ready tpl ss" "te_template_type tpl = 0" "list_ex is_var ss \<longrightarrow> te_len tpl = 0"
    unfolding pt using template_flowset_read [OF fit ok _ lt(1) len lt(2), of "Suc f" "?d @ stale" agent sid cache] f
    by auto
  let ?loop = "data_records f (pkt @ stale) ?fl (24 + ?n) 4 tpl" let ?cache = "cache(?key \<mapsto> tpl)"
  have d: "data_flowset f (pkt @ stale) (length pkt) ?off False agent 10 sid tid ?fl ?cache =
      fbind ?loop (\<lambda>(recs, o', tpl'). Inr (cache(?key \<mapsto> tpl'), map (\<lambda>(p, tpl). FlowRecord p tpl) recs, \<not> ?fl < o'))"
    using t(3) by (simp add: data_flowset_def find_template_v2_def padding_ok_def NfDataHdrV9Sz_def Let_def lens)
  have second: "flowsets (Suc f) (pkt @ stale) (length pkt) False agent 10 sid 0 1 ?off ?cache =
      fbind ?loop (\<lambda>(recs, o', tpl'). Inr (cache(?key \<mapsto> tpl'), map (\<lambda>(p, tpl). FlowRecord p tpl) recs))"
  proof -
    have "\<not> unat tid \<le> 3" using tid by simp
    then show ?thesis
      using d ne tid h3 l1(2) by (cases ?loop) (auto simp: NfDataHdrV9Sz_def Let_def lens simp del: unat_u16n)
  qed
  have "flowsets (Suc (Suc f)) (pkt @ stale) (length pkt) False agent 10 sid 0 0 16 cache =
      fbind ?loop (\<lambda>(recs, o', tpl'). Inr (cache(?key \<mapsto> tpl'), map (\<lambda>(p, tpl). FlowRecord p tpl) recs))"
  proof -
    have "flowsets (Suc (Suc f)) (pkt @ stale) (length pkt) False agent 10 sid 0 0 16 cache =
        fbind (flowsets (Suc f) (pkt @ stale) (length pkt) False agent 10 sid 0 1 ?off ?cache) (\<lambda>(cache, recs). Inr (cache, [] @ recs))"
      by (subst flowsets.simps(2))
        (use h2 l1(1) t(1) n0 in \<open>simp add: NfDataHdrV9Sz_def Let_def lens add.assoc del: unat_u16n flowsets.simps\<close>)
    then show ?thesis unfolding second by (cases ?loop) auto
  qed
  then show ?thesis using h1 t by (auto simp: process_v9_packet_def IpFixHdrSz_def lens simp del: flowsets.simps)
qed

lemma packet_read:
  assumes fit: "fits ss" and ok: "\<forall>s\<in>set ss. spec_ok 10 s" and tid: "256 \<le> unat tid"
    and rs: "\<forall>vs\<in>set rs. vals_ok ss vs" "rs \<noteq> []" and pad: "ends ss (length pad)"
    and hdr: "length hdr = 12" and pkt: "pkt = ipfix_packet hdr sid tid ss rs pad" and len: "length pkt < 65536"
    and fuel: "length rs + 3 < fuel"
  shows "\<exists>recs cache'. process_v9_packet fuel (pkt @ stale) (length pkt) False agent 10 cache =
      Inr (cache', map (\<lambda>(p, tpl). FlowRecord p tpl) recs) \<and> length recs = length rs \<and>
      (\<forall>j<length rs. record_at (pkt @ stale) ss rs (24 + length (tpl_bytes tid ss)) (recs ! j) j)"
proof -
  obtain f where f: "fuel = Suc (Suc f)" "2 \<le> f" "length rs < f"
    using fuel by (intro that [of "fuel - 2"]) auto
  let ?n = "length (tpl_bytes tid ss)" let ?body = "recs_bytes ss rs @ pad"
  let ?pre = "hdr @ bytes32 sid @ flowset 2 (tpl_bytes tid ss) @ bytes16 tid @ bytes16 (u16n (4 + length ?body))"
  have ne: "?body \<noteq> []" using record_not_empty [OF pad] rs by (cases rs) auto
  have p: "pkt = hdr @ bytes32 sid @ flowset 2 (tpl_bytes tid ss) @ flowset tid ?body" "pkt @ stale = ?pre @ recs_bytes ss rs @ pad @ stale"
    by (simp_all add: pkt ipfix_packet_def flowset_def [of tid])
  have lp: "length ?pre = 24 + ?n" by (simp add: hdr length_flowset)
  have small: "4 + length ?body < 65536" using len by (simp add: p(1) length_flowset)
  obtain tpl where t: "ready tpl ss" "process_v9_packet fuel (pkt @ stale) (length pkt) False agent 10 cache =
      fbind (data_records f (pkt @ stale) (4 + length ?body) (24 + ?n) 4 tpl) (\<lambda>(recs, o', tpl').
        Inr (cache(compose_template_key 10 tid agent sid \<mapsto> tpl'), map (\<lambda>(p, tpl). FlowRecord p tpl) recs))"
    using packet_head [OF fit ok tid hdr p(1) len ne f(2), of stale agent cache] by (auto simp: f(1))
  obtain recs tpl' where r: "data_records f (?pre @ recs_bytes ss rs @ pad @ stale) (4 + length ?body) (24 + ?n) 4 tpl =
      Inr (recs, 4 + length ?body - length pad, tpl')" "length recs = length rs"
      "\<forall>j<length rs. record_at (?pre @ recs_bytes ss rs @ pad @ stale) ss rs (24 + ?n) (recs ! j) j"
    using data_records_read [OF fit small pad t(1) _ rs(1) f(3) lp, of 4 "pad @ stale"] rs(2) by auto
  have "process_v9_packet fuel (pkt @ stale) (length pkt) False agent 10 cache =
      Inr (cache(compose_template_key 10 tid agent sid \<mapsto> tpl'), map (\<lambda>(p, tpl). FlowRecord p tpl) recs)"
    unfolding t(2) unfolding p(2) r(1) by simp
  then show ?thesis using r(2) r(3) [folded p(2)] by blast
qed

end
