(* ===== verification/NfSafe.thy ===== *)
theory NfSafe
  imports NfRecords
begin

text \<open>
  Packets of any octets: what the parsers of templates and records can do wrong. \<open>outcome F Q r\<close> says that a
  fault of the run \<open>r\<close> is among \<open>F\<close>, and its value has the property \<open>Q\<close>.
\<close>

fun outcome :: "fault set \<Rightarrow> ('a \<Rightarrow> bool) \<Rightarrow> 'a run \<Rightarrow> bool" where
  "outcome F Q (Inl e) \<longleftrightarrow> e \<in> F"
| "outcome F Q (Inr x) \<longleftrightarrow> Q x"

lemma outcome_bind: "outcome F R r \<Longrightarrow> (\<And>x. R x \<Longrightarrow> outcome F Q (f x)) \<Longrightarrow> outcome F Q (fbind r f)"
  by (cases r) auto

lemma outcome_mono: "outcome F R r \<Longrightarrow> (\<And>x. R x \<Longrightarrow> Q x) \<Longrightarrow> F \<subseteq> G \<Longrightarrow> outcome G Q r"
  by (cases r) auto

lemma outcome_if: "(b \<Longrightarrow> outcome F Q r) \<Longrightarrow> (\<not> b \<Longrightarrow> outcome F Q s) \<Longrightarrow> outcome F Q (if b then r else s)"
  by simp

lemma outcome_peek: "i < length s \<Longrightarrow> outcome F (\<lambda>_. True) (peek s i)"
  by (simp add: peek_def)

lemma outcome_peek16: "i + 2 \<le> length s \<Longrightarrow> outcome F (\<lambda>_. True) (peek16 s i)"
  by (simp add: peek16_nth)

lemma outcome_peek32: "i + 4 \<le> length s \<Longrightarrow> outcome F (\<lambda>_. True) (peek32 s i)"
  using rd32_Some_iff [of "drop i s"] by (auto simp: peek32_def)

lemma outcome_block: "i + n \<le> length s \<Longrightarrow> outcome F (\<lambda>_. True) (block s i n)"
  by (simp add: block_def)

section \<open>Templates\<close>

text \<open>Every entry of the list names a place inside of the arrays, or nothing where there was no room.\<close>

definition item_safe :: "tpl_field_list \<Rightarrow> bool" where
  "item_safe it \<longleftrightarrow> (\<exists>l. item_loc it = Some l \<and> loc_ok l) \<or> tl_type it = TPL_TYPE_EXT_DB \<and> tl_ptr it = None"

definition safe_to :: "nat \<Rightarrow> template_cache_entry \<Rightarrow> bool" where
  "safe_to n tpl \<longleftrightarrow> sized tpl \<and> n \<le> TPL_LIST_ENTRIES \<and> (\<forall>i<n. item_safe (te_list tpl i))"

definition counts_ok :: "template_cache_entry \<Rightarrow> bool" where
  "counts_ok tpl \<longleftrightarrow> (\<forall>t. unat (of_count (te_fld tpl t)) \<le> TPL_MAX_ELEM_REPEATS)"

definition safe_tpl :: "template_cache_entry \<Rightarrow> bool" where
  "safe_tpl tpl \<longleftrightarrow> safe_to (unat (te_num tpl)) tpl"

lemma next_ie_bound: "next_ie t ies i r = (Some k, r') \<Longrightarrow> i \<le> k \<and> k < i + length ies"
  by (induction ies arbitrary: i r) (auto simp: Let_def split: if_splits, fastforce+)

lemma safe_legacy_field:
  assumes "safe_to n tpl" "counts_ok tpl" "n < TPL_LIST_ENTRIES"
  shows "safe_to (Suc n) (legacy_field opts t len n tpl)" "counts_ok (legacy_field opts t len n tpl)"
proof -
  let ?c = "of_count (te_fld tpl (unat t))"
  let ?d = "if unat ?c < TPL_MAX_ELEM_REPEATS then ?c + 1 else ?c"
  have c: "unat ?c \<le> 3" using assms(2) by (simp add: counts_ok_def TPL_MAX_ELEM_REPEATS_def)
  then have "unat (?c + 1) = unat ?c + 1" by (simp add: unat_word_ariths)
  with c have d: "1 \<le> unat ?d" "unat ?d \<le> 3" by (auto simp: TPL_MAX_ELEM_REPEATS_def)
  then have "item_safe \<lparr>tl_type = TPL_TYPE_LEGACY, tl_repeat = ?d, tl_ptr = Some (Fld (unat t))\<rparr>"
    by (auto simp: item_safe_def item_loc_def TPL_MAX_ELEM_REPEATS_def)
  then show "safe_to (Suc n) (legacy_field opts t len n tpl)"
    using assms(1,3) by (simp add: safe_to_def legacy_field_def Let_def sized_def less_Suc_eq)
  show "counts_ok (legacy_field opts t len n tpl)"
    using assms(2) d by (auto simp: counts_ok_def legacy_field_def Let_def TPL_MAX_ELEM_REPEATS_def)
qed

lemma safe_ext_field:
  assumes "safe_to n tpl" "counts_ok tpl" "n < TPL_LIST_ENTRIES"
  shows "safe_to (Suc n) (ext_field t pen len n tpl)" "counts_ok (ext_field t pen len n tpl)"
proof -
  obtain k r where k: "ext_db_get_next_ie tpl t = (k, r)" by (cases "ext_db_get_next_ie tpl t")
  have "safe_to (Suc n) (ext_field t pen len n tpl) \<and> counts_ok (ext_field t pen len n tpl)"
  proof (cases k)
    case None
    then show ?thesis using assms
      by (auto simp: safe_to_def counts_ok_def ext_field_def k Let_def sized_def less_Suc_eq item_safe_def)
  next
    case (Some i)
    have "i < IES_PER_TPL_EXT_DB_ENTRY"
      using next_ie_bound [of t _ 0 0 i r] k Some assms(1) by (fastforce simp: ext_db_get_next_ie_def safe_to_def sized_def)
    then have "item_safe ((te_list tpl n)\<lparr>tl_type := TPL_TYPE_EXT_DB, tl_ptr := Some (Ie m i)\<rparr>)" for m
      by (simp add: item_safe_def item_loc_def TPL_TYPE_EXT_DB_def TPL_TYPE_LEGACY_def)
    then show ?thesis using assms Some
      by (auto simp: safe_to_def counts_ok_def ext_field_def k Let_def sized_def less_Suc_eq)
  qed
  then show "safe_to (Suc n) (ext_field t pen len n tpl)" "counts_ok (ext_field t pen len n tpl)" by simp_all
qed

lemma safe_add_layer [simp]: "safe_to n (add_layer t tpl) = safe_to n tpl" "counts_ok (add_layer t tpl) = counts_ok tpl"
  by (simp_all add: safe_to_def counts_ok_def sized_def)

lemma outcome_read_field: "i + 8 \<le> length pkt \<Longrightarrow> outcome F (\<lambda>_. True) (read_field version pkt i)"
  unfolding read_field_def
  by (intro outcome_bind [OF outcome_peek16] outcome_if outcome_bind [OF outcome_peek32]) auto

lemma template_fields_outcome:
  assumes "h + len + 7 \<le> length pkt"
  shows "safe_to idx tpl \<Longrightarrow> counts_ok tpl \<Longrightarrow>
    outcome {} (\<lambda>(r, pens). \<forall>tpl'. r = Some tpl' \<longrightarrow> safe_to (idx + n) tpl' \<and> te_num tpl' = te_num tpl)
      (template_fields pkt h len n idx off pens tpl)"
proof (induction n arbitrary: idx off pens tpl)
  case (Suc n)
  show ?case
  proof (cases "TPL_LIST_ENTRIES \<le> idx \<or> len \<le> off")
    case False
    have "outcome {} (\<lambda>_. True) (read_field (te_version tpl) pkt (h + off))"
      by (rule outcome_read_field) (use assms False in simp)
    moreover have "outcome {} (\<lambda>(r, pens). \<forall>tpl'. r = Some tpl' \<longrightarrow> safe_to (idx + Suc n) tpl' \<and> te_num tpl' = te_num tpl)
        (template_fields pkt h len n (Suc idx) (off + field_size pen) (if pen = None then pens else pens + 1)
          (add_field False idx (t, flen, pen) tpl))" for t flen pen
      using Suc.IH [of "Suc idx" "add_field False idx (t, flen, pen) tpl"] Suc.prems False
        add_field_same(2) [of False idx "(t, flen, pen)" tpl]
      by (simp add: safe_legacy_field safe_ext_field)
    ultimately show ?thesis using False
      by (auto simp: add_field_tpl simp del: add_field.simps intro!: outcome_bind)
  qed simp
qed simp

lemma safe_new: "safe_to 0 (tpl_new agent version sid tid type num)" "counts_ok (tpl_new agent version sid tid type num)"
  by (simp_all add: safe_to_def sized_def counts_ok_def tpl_new_def otpl_zero_def TPL_MAX_ELEM_REPEATS_def)

lemma compose_template_outcome:
  assumes "h + len + 7 \<le> length pkt" "4 \<le> len"
  shows "outcome {} (\<lambda>(r, pens). \<forall>tpl. r = Some tpl \<longrightarrow> safe_tpl tpl) (compose_template pkt h agent sid version len)"
  unfolding compose_template_def
proof (intro outcome_bind [OF outcome_peek16])
  fix tid num
  let ?new = "tpl_new (fst (sa_to_addr (sa_addr agent) (ntohs (sa_port agent)) 0)) version sid tid 0 num"
  have "outcome {} (\<lambda>(r, pens). \<forall>tpl'. r = Some tpl' \<longrightarrow> safe_to (0 + unat num) tpl' \<and> te_num tpl' = te_num ?new)
      (template_fields pkt h len (unat num) 0 NfTplHdrV9Sz 0 ?new)"
    by (rule template_fields_outcome [OF assms(1) safe_new])
  then show "outcome {} (\<lambda>(r, pens). \<forall>tpl. r = Some tpl \<longrightarrow> safe_tpl tpl)
      (template_fields pkt h len (unat num) 0 NfTplHdrV9Sz 0 ?new)"
    by (rule outcome_mono) (auto simp: safe_tpl_def tpl_new_def)
qed (use assms in auto)

section \<open>Records\<close>

lemma safe_set_slot: "safe_tpl tpl \<Longrightarrow> safe_tpl (set_slot tpl l a b)"
  by (simp add: safe_tpl_def safe_to_def)

lemma safe_len [simp]: "safe_tpl (tpl\<lparr>te_len := n\<rparr>) = safe_tpl tpl"
  by (simp add: safe_tpl_def safe_to_def sized_def)

lemma outcome_vlen:
  assumes "base + remlen \<le> length pkt"
  shows "outcome F (\<lambda>(ret, n). ret = ERR \<or> 0 < ret) (get_ipfix_vlen pkt base remlen n)"
  using assms unfolding get_ipfix_vlen_def
  by (intro outcome_if outcome_bind [OF outcome_peek] outcome_bind [OF outcome_peek16]) auto

lemma outcome_field:
  assumes "p + remlen \<le> length pkt" "unat len \<le> remlen"
  shows "outcome F (\<lambda>_. True) (resolve_field pkt p remlen len vlen foff flen ftpl)"
  unfolding resolve_field_def Let_def
  by (intro outcome_if outcome_bind [OF outcome_vlen]) (use assms in \<open>auto intro: outcome_if\<close>)

lemma resolve_null:
  assumes "tl_type (te_list tpl idx) = TPL_TYPE_EXT_DB" "tl_ptr (te_list tpl idx) = None" "idx < TPL_LIST_ENTRIES"
  shows "resolve_fields pkt p remlen (Suc n) idx len vlen tpl = Inl NullDeref"
  using assms by (simp add: Let_def TPL_TYPE_EXT_DB_def TPL_TYPE_LEGACY_def)

text \<open>A record never makes the code read outside of its flowset, whatever the lengths in it are.\<close>

lemma resolve_fields_outcome:
  assumes "p + remlen \<le> length pkt"
  shows "safe_tpl tpl \<Longrightarrow> idx + n = unat (te_num tpl) \<Longrightarrow> unat len \<le> remlen \<Longrightarrow>
    outcome {NullDeref} (\<lambda>(ret, tpl'). safe_tpl tpl' \<and> te_vlen tpl' = te_vlen tpl \<and> te_template_type tpl' = te_template_type tpl \<and>
        (unat (te_len tpl') \<le> remlen \<or> te_len tpl' = te_len tpl) \<and> (ret \<noteq> ERR \<longrightarrow> unat (te_len tpl') \<le> remlen))
      (resolve_fields pkt p remlen n idx len vlen tpl)"
proof (induction n arbitrary: idx len vlen tpl)
  case 0
  then show ?case by (simp add: safe_tpl_def safe_to_def sized_def)
next
  case (Suc n)
  have idx: "idx < TPL_LIST_ENTRIES" "item_safe (te_list tpl idx)"
    using Suc.prems(1,2) by (auto simp: safe_tpl_def safe_to_def)
  show ?case
  proof (cases "tl_type (te_list tpl idx) = TPL_TYPE_EXT_DB \<and> tl_ptr (te_list tpl idx) = None")
    case True
    then show ?thesis using idx(1) by (simp only: resolve_null) simp
  next
    case False
    with idx(2) obtain l where l: "item_loc (te_list tpl idx) = Some l" by (auto simp: item_safe_def)
    obtain foff flen ftpl where sl: "slot tpl l = (foff, flen, ftpl)" by (cases "slot tpl l") auto
    have next_turn: "outcome {NullDeref} (\<lambda>(ret, tpl'). safe_tpl tpl' \<and> te_vlen tpl' = te_vlen tpl \<and> te_template_type tpl' = te_template_type tpl \<and>
        (unat (te_len tpl') \<le> remlen \<or> te_len tpl' = te_len tpl) \<and> (ret \<noteq> ERR \<longrightarrow> unat (te_len tpl') \<le> remlen))
      (if ret = ERR \<or> remlen < unat len' then Inr (ERR, set_slot tpl l foff flen)
       else resolve_fields pkt p remlen n (Suc idx) len' vlen' (set_slot tpl l foff flen))" for ret foff flen len' vlen'
    proof (cases "ret = ERR \<or> remlen < unat len'")
      case True
      then show ?thesis using Suc.prems(1) by (simp add: safe_set_slot)
    next
      case False
      then show ?thesis
        using Suc.IH [of "set_slot tpl l foff flen" "Suc idx" len' vlen'] Suc.prems by (simp add: safe_set_slot)
    qed
    show ?thesis unfolding resolve_turn [OF l idx(1) sl]
      by (rule outcome_bind [OF outcome_field [OF assms Suc.prems(3)]]) (simp only: split_paired_all prod.case, rule next_turn)
  qed
qed

lemma bake_outcome:
  assumes "safe_tpl tpl" "p + remlen \<le> length pkt" "unat (te_len tpl) \<le> remlen"
  shows "outcome {NullDeref} (\<lambda>(ret, tpl'). safe_tpl tpl' \<and> te_vlen tpl' = te_vlen tpl \<and> te_template_type tpl' = te_template_type tpl \<and>
      unat (te_len tpl') \<le> remlen) (bake pkt p remlen tpl)"
proof (cases "te_vlen tpl")
  case True
  have "outcome {NullDeref} (\<lambda>(ret, tpl'). safe_tpl tpl' \<and> te_vlen tpl' = te_vlen tpl \<and> te_template_type tpl' = te_template_type tpl \<and>
        (unat (te_len tpl') \<le> remlen \<or> te_len tpl' = te_len tpl) \<and> (ret \<noteq> ERR \<longrightarrow> unat (te_len tpl') \<le> remlen))
      (resolve_fields pkt p remlen (unat (te_num tpl)) 0 0 False tpl)"
    by (rule resolve_fields_outcome) (use assms in simp_all)
  then show ?thesis using True assms(3)
    by (simp add: bake_def resolve_vlen_template_def) (erule outcome_mono, auto)
qed (use assms in \<open>simp add: bake_def\<close>)

lemma data_records_outcome:
  "safe_tpl tpl \<Longrightarrow> flowoff \<le> flowsetlen \<Longrightarrow> p + (flowsetlen - flowoff) \<le> length pkt \<Longrightarrow>
   outcome {NullDeref, OutOfFuel} (\<lambda>(recs, o', tpl'). safe_tpl tpl' \<and> o' \<le> flowsetlen \<and>
       (\<forall>(q, t)\<in>set recs. p \<le> q \<and> q + unat (te_len t) \<le> p + (flowsetlen - flowoff)))
     (data_records fuel pkt flowsetlen p flowoff tpl)"
proof (induction fuel arbitrary: p flowoff tpl)
  case (Suc fuel)
  show ?case
  proof (cases "flowoff + unat (te_len tpl) \<le> flowsetlen")
    case True
    let ?rem = "flowsetlen - flowoff"
    have b: "outcome {NullDeref, OutOfFuel} (\<lambda>(ret, tpl'). safe_tpl tpl' \<and> te_vlen tpl' = te_vlen tpl \<and>
        te_template_type tpl' = te_template_type tpl \<and> unat (te_len tpl') \<le> ?rem) (bake pkt p ?rem tpl)"
      by (rule outcome_mono [OF bake_outcome]) (use Suc.prems True in auto)
    have "outcome {NullDeref, OutOfFuel} (\<lambda>(recs, o', tpl'). safe_tpl tpl' \<and> o' \<le> flowsetlen \<and>
         (\<forall>(q, t)\<in>set recs. p \<le> q \<and> q + unat (te_len t) \<le> p + ?rem))
       (if ret = ERR then Inr ([], flowoff, tpl1)
        else let n = unat (te_len tpl1)
             in fbind (data_records fuel pkt flowsetlen (p + n) (flowoff + n) (if te_vlen tpl1 then tpl1\<lparr>te_len := 1\<rparr> else tpl1))
                  (\<lambda>(recs, r). Inr ((p, tpl1) # recs, r)))"
      if t: "safe_tpl tpl1" "unat (te_len tpl1) \<le> ?rem" for ret tpl1
    proof (cases "ret = ERR")
      case False
      let ?n = "unat (te_len tpl1)"
      have "outcome {NullDeref, OutOfFuel} (\<lambda>(recs, o', tpl'). safe_tpl tpl' \<and> o' \<le> flowsetlen \<and>
         (\<forall>(q, t)\<in>set recs. p + ?n \<le> q \<and> q + unat (te_len t) \<le> p + ?n + (flowsetlen - (flowoff + ?n))))
        (data_records fuel pkt flowsetlen (p + ?n) (flowoff + ?n) (if te_vlen tpl1 then tpl1\<lparr>te_len := 1\<rparr> else tpl1))"
        by (rule Suc.IH) (use t Suc.prems in auto)
      with False t(2) Suc.prems show ?thesis
        by (auto simp: Let_def intro!: outcome_bind elim!: outcome_mono) fastforce+
    qed (use t Suc.prems in simp)
    then show ?thesis using True by (auto intro!: outcome_bind [OF b])
  qed (use Suc.prems in simp)
qed simp

lemma dry_run_outcome:
  "safe_tpl tpl \<Longrightarrow> flowoff \<le> flowsetlen \<Longrightarrow> p + (flowsetlen - flowoff) \<le> length pkt \<Longrightarrow>
   outcome {NullDeref, OutOfFuel} (\<lambda>(q, o', skip, tpl'). safe_tpl tpl' \<and> o' \<le> flowsetlen \<and> q + (flowsetlen - o') \<le> length pkt)
     (dry_run fuel pkt flowsetlen p flowoff skip tpl)"
proof (induction fuel arbitrary: p flowoff skip tpl)
  case (Suc fuel)
  show ?case
  proof (cases "flowoff + unat (te_len tpl) \<le> flowsetlen")
    case True
    let ?rem = "flowsetlen - flowoff"
    have b: "outcome {NullDeref, OutOfFuel} (\<lambda>(ret, tpl'). safe_tpl tpl' \<and> te_vlen tpl' = te_vlen tpl \<and>
        te_template_type tpl' = te_template_type tpl \<and> unat (te_len tpl') \<le> ?rem) (bake pkt p ?rem tpl)"
      by (rule outcome_mono [OF bake_outcome]) (use Suc.prems True in auto)
    have "outcome {NullDeref, OutOfFuel} (\<lambda>(q, o', skip, tpl'). safe_tpl tpl' \<and> o' \<le> flowsetlen \<and> q + (flowsetlen - o') \<le> length pkt)
       (dry_run fuel pkt flowsetlen (p + unat (te_len tpl1)) (flowoff + unat (te_len tpl1)) skip'
         (if te_vlen tpl1 then tpl1\<lparr>te_len := 1\<rparr> else tpl1))"
      if "safe_tpl tpl1" "unat (te_len tpl1) \<le> ?rem" for skip' tpl1
      by (rule Suc.IH) (use that Suc.prems in auto)
    then show ?thesis using True by (auto simp: Let_def intro!: outcome_bind [OF b])
  qed (use Suc.prems in simp)
qed simp

definition templates_ok :: "tpl_map \<Rightarrow> bool" where
  "templates_ok cache \<longleftrightarrow> (\<forall>k tpl. cache k = Some tpl \<longrightarrow> safe_tpl tpl)"

lemma templates_ok_upd [simp]: "templates_ok cache \<Longrightarrow> safe_tpl tpl \<Longrightarrow> templates_ok (cache(k \<mapsto> tpl))"
  by (simp add: templates_ok_def)

lemma templates_ok_None [simp]: "templates_ok cache \<Longrightarrow> templates_ok (cache(k := None))"
  by (simp add: templates_ok_def)

lemma templates_ok_empty [simp]: "templates_ok Map.empty"
  by (simp add: templates_ok_def)

fun record_inside :: "nat \<Rightarrow> nf_record \<Rightarrow> bool" where
  "record_inside len (OptionsRecord p tpl) \<longleftrightarrow> p + unat (te_len tpl) \<le> len"
| "record_inside len (FlowRecord p tpl) \<longleftrightarrow> p + unat (te_len tpl) \<le> len"

lemma data_flowset_outcome:
  assumes "templates_ok cache" "len \<le> length pkt" "4 \<le> flowsetlen"
  shows "outcome {NullDeref, OutOfFuel} (\<lambda>(cache', recs, go). templates_ok cache' \<and> (\<forall>r\<in>set recs. record_inside len r) \<and>
      (go \<longrightarrow> off + flowsetlen \<le> len))
    (data_flowset fuel pkt len off checks agent version sid tid flowsetlen cache)"
proof (cases "len < off + flowsetlen")
  case False
  let ?key = "compose_template_key version tid agent sid"
  let ?Q = "\<lambda>(cache', recs, go). templates_ok cache' \<and> (\<forall>r\<in>set recs. record_inside len r) \<and> (go \<longrightarrow> off + flowsetlen \<le> len)"
  have rec: "outcome {NullDeref, OutOfFuel} (\<lambda>(recs, o', tpl'). safe_tpl tpl' \<and> o' \<le> flowsetlen \<and>
      (\<forall>(q, t)\<in>set recs. off + 4 \<le> q \<and> q + unat (te_len t) \<le> off + 4 + (flowsetlen - 4)))
     (data_records fuel pkt flowsetlen (off + 4) 4 tpl)" if "safe_tpl tpl" for tpl
    by (rule data_records_outcome) (use that assms False in auto)
  have flows: "outcome {NullDeref, OutOfFuel} ?Q (fbind (data_records fuel pkt flowsetlen (off + 4) 4 tpl) (\<lambda>(recs, o', tpl).
      Inr (cache(?key \<mapsto> tpl), map (\<lambda>(p, tpl). R p tpl) recs, \<not> flowsetlen < o')))"
    if "safe_tpl tpl" "R = OptionsRecord \<or> R = FlowRecord" for tpl R
    by (rule outcome_bind [OF rec [OF that(1)]]) (use that(2) False assms in \<open>fastforce\<close>)
  have pad: "outcome {NullDeref, OutOfFuel} (\<lambda>(ok, tpl'). safe_tpl tpl') (padding_ok fuel pkt checks flowsetlen (off + 4) 4 tpl)"
    if "safe_tpl tpl" for tpl
  proof (cases checks)
    case True
    have "outcome {NullDeref, OutOfFuel} (\<lambda>(q, o', skip, tpl'). safe_tpl tpl' \<and> o' \<le> flowsetlen \<and> q + (flowsetlen - o') \<le> length pkt)
       (dry_run fuel pkt flowsetlen (off + 4) 4 False tpl)"
      by (rule dry_run_outcome) (use that assms False in auto)
    then show ?thesis unfolding padding_ok_def using True
      by (auto intro!: outcome_bind [of _ _ "dry_run fuel pkt flowsetlen (off + 4) 4 False tpl"] outcome_bind [OF outcome_block])
  qed (use that in \<open>simp add: padding_ok_def\<close>)
  show ?thesis
  proof (cases "find_template_v2 tid agent version sid cache")
    case None
    then show ?thesis using assms False by (simp add: data_flowset_def Let_def)
  next
    case (Some tpl)
    then have safe: "safe_tpl tpl" using assms(1) unfolding find_template_v2_def templates_ok_def by blast
    show ?thesis
    proof (cases "te_template_type tpl = 1")
      case True
      then show ?thesis using flows [OF safe, of OptionsRecord] Some False by (simp add: data_flowset_def Let_def NfDataHdrV9Sz_def)
    next
      case other: False
      let ?go = "\<lambda>(ok, tpl). if \<not> ok then Inr (cache(?key \<mapsto> tpl), [], True)
          else fbind (data_records fuel pkt flowsetlen (off + 4) 4 tpl) (\<lambda>(recs, o', tpl).
            Inr (cache(?key \<mapsto> tpl), map (\<lambda>(p, tpl). FlowRecord p tpl) recs, \<not> flowsetlen < o'))"
      have step: "outcome {NullDeref, OutOfFuel} ?Q (?go (ok, tpl1))" if "safe_tpl tpl1" for ok tpl1
        using flows [OF that, of FlowRecord] that assms(1) False by simp
      have eq: "data_flowset fuel pkt len off checks agent version sid tid flowsetlen cache =
          fbind (padding_ok fuel pkt checks flowsetlen (off + 4) 4 tpl) ?go"
        by (simp only: data_flowset_def Let_def Some option.case False other if_False NfDataHdrV9Sz_def)
      have "outcome {NullDeref, OutOfFuel} ?Q (?go x)" if "case x of (ok, tpl') \<Rightarrow> safe_tpl tpl'" for x
        using step [of "snd x" "fst x"] that by (simp only: case_prod_beta prod.collapse)
      then show ?thesis unfolding eq by (rule outcome_bind [OF pad [OF safe]])
    qed
  qed
qed (use assms in \<open>simp add: data_flowset_def\<close>)

section \<open>Packets\<close>

text \<open>A template that is accepted was in its flowset, but for the end of its last field.\<close>

lemma template_fields_length:
  "template_fields pkt h len n idx off pens tpl = Inr (Some tpl', pens') \<Longrightarrow>
   \<exists>k\<le>n. pens' = pens + word_of_nat k \<and> (n = 0 \<or> off + 4 * n + 4 * k \<le> len + 7)"
proof (induction n arbitrary: idx off pens tpl)
  case (Suc n)
  then have ok: "\<not> (TPL_LIST_ENTRIES \<le> idx \<or> len \<le> off)" by (auto split: if_splits)
  with Suc.prems obtain t flen pen where
      step: "template_fields pkt h len n (Suc idx) (off + field_size pen) (if pen = None then pens else pens + 1)
        (add_field False idx (t, flen, pen) tpl) = Inr (Some tpl', pens')"
    by (auto simp: fault_simps add_field_tpl simp del: add_field.simps split del: if_split)
  have guard: "off < len" using ok by simp
  from Suc.IH [OF step] obtain k where k: "k \<le> n" "pens' = (if pen = None then pens else pens + 1) + word_of_nat k"
      "n = 0 \<or> off + field_size pen + 4 * n + 4 * k \<le> len + 7" by blast
  show ?case
  proof (cases pen)
    case None
    with k guard show ?thesis by (intro exI [of _ k]) (auto simp: field_size_def NfTplFieldV9Sz_def)
  next
    case (Some e)
    with k guard show ?thesis by (intro exI [of _ "Suc k"]) (auto simp: field_size_def NfTplFieldV9Sz_def)
  qed
qed (auto intro: exI [of _ 0])

lemma handle_template_outcome:
  assumes "h + len + 7 \<le> length pkt" "4 \<le> len" "len < 65529" "fid = 0 \<or> fid = 2" "templates_ok cache"
  shows "outcome {} (\<lambda>(r, pens, cache'). templates_ok cache' \<and>
      (r \<noteq> None \<longrightarrow> outcome {} (\<lambda>n. 4 \<le> n \<and> n \<le> len + 7) (template_len pkt h fid pens)))
    (handle_template_v2 pkt h agent fid sid len cache)"
proof -
  obtain tid where tid: "peek16 pkt h = Inr tid" using outcome_peek16 [of h pkt "{}"] assms(1,2) by (cases "peek16 pkt h") auto
  obtain num where num: "peek16 pkt (h + 2) = Inr num"
    using outcome_peek16 [of "h + 2" pkt "{}"] assms(1,2) by (cases "peek16 pkt (h + 2)") auto
  let ?v = "if fid = 0 \<or> fid = 1 then 9 else if fid = 2 \<or> fid = 3 then 10 else (0 :: u8)"
  have c: "outcome {} (\<lambda>(r, pens). \<forall>tpl. r = Some tpl \<longrightarrow> safe_tpl tpl) (compose_template pkt h agent sid ?v len)"
    by (rule compose_template_outcome [OF assms(1,2)])
  then obtain r pens where r: "compose_template pkt h agent sid ?v len = Inr (r, pens)" "\<forall>tpl. r = Some tpl \<longrightarrow> safe_tpl tpl"
    by (cases "compose_template pkt h agent sid ?v len") auto
  have n: "4 \<le> NfTplHdrV9Sz + unat num * NfTplFieldV9Sz + unat pens * 4 \<and>
      NfTplHdrV9Sz + unat num * NfTplFieldV9Sz + unat pens * 4 \<le> len + 7" if some: "r = Some tpl" for tpl
  proof -
    obtain tpl0 where "template_fields pkt h len (unat num) 0 NfTplHdrV9Sz 0 tpl0 = Inr (Some tpl, pens)"
      using r(1) some by (simp add: compose_template_def tid num [simplified])
    from template_fields_length [OF this] obtain k where k: "k \<le> unat num" "pens = word_of_nat k"
        "unat num = 0 \<or> 4 + 4 * unat num + 4 * k \<le> len + 7" by (auto simp: NfTplHdrV9Sz_def)
    then have "unat pens = k" using assms(3) by (auto simp: unat_of_nat)
    with k assms(2) show ?thesis by (auto simp: NfTplHdrV9Sz_def NfTplFieldV9Sz_def)
  qed
  have "handle_template_v2 pkt h agent fid sid len cache = Inr (r, pens, cache(compose_template_key ?v tid agent sid := r))"
    using r(1) assms(4) by (auto simp: handle_template_v2_def tid Let_def)
  moreover have "templates_ok (cache(compose_template_key ?v tid agent sid := r))"
    using r(2) assms(5) by (cases r) simp_all
  ultimately show ?thesis using n assms(4) by (auto simp: template_len_def num [simplified])
qed

lemma template_flowset_outcome:
  assumes "len + 7 \<le> length pkt" "len < 65529" "fid = 0 \<or> fid = 2"
  shows "templates_ok cache \<Longrightarrow> off + flowoff = tp \<Longrightarrow> flowsetlen - flowoff < fuel \<Longrightarrow>
    (flowoff < flowsetlen \<or> off + flowsetlen \<le> len) \<Longrightarrow>
    outcome {} (\<lambda>(cache', go). templates_ok cache' \<and> (go \<longrightarrow> off + flowsetlen \<le> len))
      (template_flowset fuel pkt len off fid agent sid flowsetlen tp flowoff cache)"
proof (induction fuel arbitrary: tp flowoff cache)
  case (Suc fuel)
  show ?case
  proof (cases "flowsetlen \<le> flowoff \<or> len < off + flowsetlen \<or> flowsetlen - flowoff < NfTplHdrV9Sz")
    case True
    then show ?thesis using Suc.prems assms(3) by (auto split: if_splits)
  next
    case False
    let ?rem = "flowsetlen - flowoff"
    have h: "outcome {} (\<lambda>(r, pens, cache'). templates_ok cache' \<and>
        (r \<noteq> None \<longrightarrow> outcome {} (\<lambda>n. 4 \<le> n \<and> n \<le> ?rem + 7) (template_len pkt tp fid pens)))
      (handle_template_v2 pkt tp agent fid sid ?rem cache)"
      by (rule handle_template_outcome) (use False Suc.prems assms in \<open>auto simp: NfTplHdrV9Sz_def\<close>)
    have turn: "outcome {} (\<lambda>(cache', go). templates_ok cache' \<and> (go \<longrightarrow> off + flowsetlen \<le> len))
        (template_flowset fuel pkt len off fid agent sid flowsetlen (tp + n) (unat (u16n (flowoff + n))) cache1)"
      if "templates_ok cache1" "4 \<le> n" "n \<le> ?rem + 7" for cache1 n
    proof -
      have "flowoff + n < 65536" using that False assms(2) by linarith
      then have "unat (u16n (flowoff + n)) = flowoff + n" by simp
      moreover have "flowsetlen - (flowoff + n) < fuel" "flowsetlen \<le> len - off" using that False Suc.prems(3) by linarith+
      ultimately show ?thesis using Suc.IH [of cache1 "flowoff + n" "tp + n"] that False Suc.prems(2) by simp
    qed
    let ?Q = "\<lambda>(cache', go). templates_ok cache' \<and> (go \<longrightarrow> off + flowsetlen \<le> len)"
    let ?go = "\<lambda>(tpl, pens, cache). case tpl of
        None \<Rightarrow> Inr (cache, False)
      | Some _ \<Rightarrow> fbind (template_len pkt tp fid pens) (\<lambda>n.
          template_flowset fuel pkt len off fid agent sid flowsetlen (tp + n) (unat (u16n (flowoff + n))) cache)"
    have step: "outcome {} ?Q (?go (r, pens, cache1))"
      if "templates_ok cache1" "r \<noteq> None \<longrightarrow> outcome {} (\<lambda>n. 4 \<le> n \<and> n \<le> ?rem + 7) (template_len pkt tp fid pens)" for r pens cache1
    proof (cases r)
      case None
      then show ?thesis using that by simp
    next
      case (Some tpl)
      with that(2) have "outcome {} (\<lambda>n. 4 \<le> n \<and> n \<le> ?rem + 7) (template_len pkt tp fid pens)" by simp
      then have "outcome {} ?Q (fbind (template_len pkt tp fid pens) (\<lambda>n.
          template_flowset fuel pkt len off fid agent sid flowsetlen (tp + n) (unat (u16n (flowoff + n))) cache1))"
        by (rule outcome_bind) (use turn that(1) in blast)
      then show ?thesis by (simp add: Some del: unat_u16n)
    qed
    have eq: "template_flowset (Suc fuel) pkt len off fid agent sid flowsetlen tp flowoff cache =
        fbind (handle_template_v2 pkt tp agent fid sid ?rem cache) ?go"
      using False assms(3) by (simp del: unat_u16n)
    have "outcome {} ?Q (?go x)" if "case x of (r, pens, cache') \<Rightarrow> templates_ok cache' \<and>
        (r \<noteq> None \<longrightarrow> outcome {} (\<lambda>n. 4 \<le> n \<and> n \<le> ?rem + 7) (template_len pkt tp fid pens))" for x
    proof -
      obtain r pens cache1 where x: "x = (r, pens, cache1)" by (cases x) auto
      show ?thesis unfolding x by (rule step) (use that in \<open>simp_all add: x\<close>)
    qed
    then show ?thesis unfolding eq by (rule outcome_bind [OF h])
  qed
qed simp

text \<open>The numbers of the flowsets of a packet, from \<open>off\<close> on.\<close>

function flowset_ids :: "u8 list \<Rightarrow> nat \<Rightarrow> nat \<Rightarrow> nat list" where
  "flowset_ids pkt len off =
     (if len \<le> off + 4 then []
      else case (peek16 pkt off, peek16 pkt (off + 2)) of
             (Inr fid, Inr n) \<Rightarrow> if unat n < 4 then [] else unat fid # flowset_ids pkt len (off + unat n)
           | _ \<Rightarrow> [])"
  by pat_completeness auto
termination
  by (relation "measure (\<lambda>(pkt, len, off). len - off)") auto

declare flowset_ids.simps [simp del]

lemma flowsets_outcome:
  assumes "len + 7 \<le> length pkt" "len < 65529"
  shows "templates_ok cache \<Longrightarrow> len + (len - off) < fuel \<Longrightarrow> \<forall>fid\<in>set (flowset_ids pkt len off). fid \<noteq> 1 \<and> fid \<noteq> 3 \<Longrightarrow>
    outcome {NullDeref, OutOfFuel} (\<lambda>(cache', recs). templates_ok cache' \<and> (\<forall>r\<in>set recs. record_inside len r))
      (flowsets fuel pkt len checks agent version sid n k off cache)"
proof (induction fuel arbitrary: k off cache)
  case (Suc fuel)
  let ?F = "{NullDeref, OutOfFuel}" let ?Q = "\<lambda>(cache', recs). templates_ok cache' \<and> (\<forall>r\<in>set recs. record_inside len r)"
  show ?case
  proof (cases "len \<le> off + 4")
    case True
    then show ?thesis using Suc.prems(1) by (simp add: NfDataHdrV9Sz_def)
  next
    case False
    obtain fid where fid: "peek16 pkt off = Inr fid"
      using outcome_peek16 [of off pkt "{}"] assms(1) False by (cases "peek16 pkt off") auto
    obtain w where w: "peek16 pkt (off + 2) = Inr w"
      using outcome_peek16 [of "off + 2" pkt "{}"] assms(1) False by (cases "peek16 pkt (off + 2)") auto
    let ?fl = "unat w"
    show ?thesis
    proof (cases "?fl < 4")
      case True
      then show ?thesis using Suc.prems(1) False fid w [simplified] by (simp add: NfDataHdrV9Sz_def Let_def)
    next
      case fl: False
      have ids: "flowset_ids pkt len off = unat fid # flowset_ids pkt len (off + ?fl)"
        using False fl fid w by (subst flowset_ids.simps) simp
      let ?set = "if unat fid \<le> 3
           then fbind (template_flowset fuel pkt len off (unat fid) agent sid ?fl (off + 4) 4 cache) (\<lambda>(cache, go). Inr (cache, [], go))
           else if 256 \<le> unat fid then data_flowset fuel pkt len off checks agent version sid fid ?fl cache
           else Inr (cache, [], \<not> len < off + ?fl)"
      let ?R = "\<lambda>(cache', recs, go). templates_ok cache' \<and> (\<forall>r\<in>set recs. record_inside len r) \<and> (go \<longrightarrow> off + ?fl \<le> len)"
      have set: "outcome ?F ?R ?set"
      proof (cases "unat fid \<le> 3")
        case True
        have "outcome {} (\<lambda>(cache', go). templates_ok cache' \<and> (go \<longrightarrow> off + ?fl \<le> len))
            (template_flowset fuel pkt len off (unat fid) agent sid ?fl (off + 4) 4 cache)" if "?fl \<noteq> 4"
        proof (cases "len < off + ?fl")
          case True
          then show ?thesis using Suc.prems(1,2) fl that False by (cases fuel) auto
        next
          case inside: False
          show ?thesis
            by (rule template_flowset_outcome) (use assms Suc.prems True False ids fl that inside in auto)
        qed
        moreover have "template_flowset fuel pkt len off (unat fid) agent sid ?fl (off + 4) 4 cache = Inr (cache, True)" if "?fl = 4"
          using Suc.prems(2) False that by (cases fuel) auto
        ultimately show ?thesis using True False Suc.prems(1)
          by (cases "template_flowset fuel pkt len off (unat fid) agent sid ?fl (off + 4) 4 cache"; cases "?fl = 4") auto
      next
        case not_tpl: False
        then show ?thesis using data_flowset_outcome [OF Suc.prems(1), where len = len and pkt = pkt and flowsetlen = ?fl and fuel = fuel and off = off] assms fl Suc.prems(1) by simp
      qed
      have turn: "outcome ?F ?Q (let off = off + ?fl
          in if go \<and> (version = 9 \<and> k + 1 < n \<and> off < len \<or> version = 10 \<and> off < len)
             then fbind (flowsets fuel pkt len checks agent version sid n (k + 1) off cache1) (\<lambda>(cache, recs').
                    Inr (cache, recs @ recs'))
             else Inr (cache1, recs))"
        if "templates_ok cache1" "\<forall>r\<in>set recs. record_inside len r" "go \<longrightarrow> off + ?fl \<le> len" for cache1 recs go
      proof -
        have "outcome ?F ?Q (flowsets fuel pkt len checks agent version sid n (k + 1) (off + ?fl) cache1)"
          if "off + ?fl < len"
          by (rule Suc.IH) (use Suc.prems \<open>templates_ok cache1\<close> fl that in \<open>auto simp: ids\<close>)
        then show ?thesis using that by (auto simp: Let_def intro!: outcome_bind)
      qed
      have eq: "flowsets (Suc fuel) pkt len checks agent version sid n k off cache = fbind ?set (\<lambda>(cache, recs, go).
          let off = off + ?fl
          in if go \<and> (version = 9 \<and> k + 1 < n \<and> off < len \<or> version = 10 \<and> off < len)
             then fbind (flowsets fuel pkt len checks agent version sid n (k + 1) off cache) (\<lambda>(cache, recs').
                    Inr (cache, recs @ recs'))
             else Inr (cache, recs))"
        using False fl by (simp only: flowsets.simps NfDataHdrV9Sz_def if_False fid w fbind.simps Let_def)
      show ?thesis unfolding eq
        by (rule outcome_bind [OF set]) (simp only: split_paired_all prod.case, rule turn, simp_all)
    qed
  qed
qed simp

lemma v9_packet_outcome:
  assumes "len + 7 \<le> length pkt" "len < 65529" "templates_ok cache" "version = 9 \<or> version = 10" "2 * len < fuel"
    and "\<forall>fid\<in>set (flowset_ids pkt len (if version = 9 then 20 else 16)). fid \<noteq> 1 \<and> fid \<noteq> 3"
  shows "outcome {NullDeref, OutOfFuel} (\<lambda>(cache', recs). templates_ok cache' \<and> (\<forall>r\<in>set recs. record_inside len r))
    (process_v9_packet fuel pkt len checks agent version cache)"
proof -
  let ?hdr = "if version = 9 then NfHdrV9Sz else if version = 10 then IpFixHdrSz else 0"
  have f: "outcome {NullDeref, OutOfFuel} (\<lambda>(cache', recs). templates_ok cache' \<and> (\<forall>r\<in>set recs. record_inside len r))
    (flowsets fuel pkt len checks agent version sid n 0 ?hdr cache)" for sid n
    by (rule flowsets_outcome) (use assms in \<open>auto simp: flowset_consts\<close>)
  show ?thesis
  proof (cases "len < ?hdr")
    case False
    then have "16 \<le> len" "version = 9 \<Longrightarrow> 20 \<le> len" using assms(4) by (auto simp: flowset_consts split: if_splits)
    then have h: "outcome {NullDeref, OutOfFuel} (\<lambda>_. True) (if version = 9 then peek32 pkt 16 else if version = 10 then peek32 pkt 12 else Inr 0)"
      "outcome {NullDeref, OutOfFuel} (\<lambda>_. True) (if version = 9 then peek16 pkt 2 else Inr 0)"
      using assms(1,4) by (auto intro!: outcome_peek32 outcome_peek16)
    show ?thesis
      unfolding process_v9_packet_def Let_def if_not_P [OF False]
      by (rule outcome_bind [OF h(1)], rule outcome_bind [OF h(2)], rule f)
  qed (use assms(3) in \<open>simp add: process_v9_packet_def\<close>)
qed

end
