(* ===== verification/SavParser.thy ===== *)
theory SavParser
  imports NfFlowset
begin

text \<open>
  Source address validation (sav\_parser.c, process\_sav\_fields of nfacctd.c, compose\_json\_sav\_fields of
  plugin\_cmn\_json.c): the rules that an IPFIX record of an IPv4 flow carries in a list of sub-templates, and their
  output as JSON. The text of an IPv6 address, by the library's inet\_ntop, is an argument (\<open>ntop6\<close>).
\<close>

section \<open>Rules\<close>

definition SAV_TPL_IPV4_IF2PREFIX :: nat where "SAV_TPL_IPV4_IF2PREFIX = 901"
definition SAV_TPL_IPV6_IF2PREFIX :: nat where "SAV_TPL_IPV6_IF2PREFIX = 902"
definition SAV_TPL_IPV4_PREFIX2IF :: nat where "SAV_TPL_IPV4_PREFIX2IF = 903"
definition SAV_TPL_IPV6_PREFIX2IF :: nat where "SAV_TPL_IPV6_PREFIX2IF = 904"

lemmas sav_tpl_consts = SAV_TPL_IPV4_IF2PREFIX_def SAV_TPL_IPV6_IF2PREFIX_def SAV_TPL_IPV4_PREFIX2IF_def
  SAV_TPL_IPV6_PREFIX2IF_def

text \<open>The union \<open>prefix\<close> is its 16 octets. Its member \<open>ipv4[0]\<close> is the number, in the order of the host
  (the least significant octet first), that the first four octets hold.\<close>

record sav_rule =
  sr_interface_id :: u32
  sr_prefix :: "u8 list"
  sr_prefix_len :: u8
  sr_validation_mode :: u8

definition sav_rule_zero :: sav_rule where
  "sav_rule_zero = \<lparr>sr_interface_id = 0, sr_prefix = replicate 16 0, sr_prefix_len = 0, sr_validation_mode = 0\<rparr>"

definition ipv4_0 :: "sav_rule \<Rightarrow> u32" where
  "ipv4_0 r = be32 (sr_prefix r ! 3) (sr_prefix r ! 2) (sr_prefix r ! 1) (sr_prefix r ! 0)"

definition set_ipv4_0 :: "u32 \<Rightarrow> sav_rule \<Rightarrow> sav_rule" where
  "set_ipv4_0 w r = r\<lparr>sr_prefix := rev (bytes32 w) @ drop 4 (sr_prefix r)\<rparr>"

section \<open>Parsing\<close>

text \<open>The length of a field of variable length at \<open>p\<close>, with the new position and what remains.\<close>

definition decode_varlen :: "u8 list \<Rightarrow> nat \<Rightarrow> nat \<Rightarrow> (u16 \<times> nat \<times> nat) run" where
  "decode_varlen data p remaining =
     (if remaining < 1 then Inr (0, p, remaining)
      else fbind (peek data p) (\<lambda>b.
             if ucast b = (255 :: u16)
             then if remaining - 1 < 2 then Inr (0, p + 1, remaining - 1)
                  else fbind (peek16 data (p + 1)) (\<lambda>len. Inr (len, p + 3, remaining - 3))
             else Inr (ucast b, p + 1, remaining - 1)))"

text \<open>One rule at \<open>p\<close>: the octets that it takes, or -1 for a template of another number.\<close>

definition parse_sav_rule :: "u8 list \<Rightarrow> nat \<Rightarrow> nat \<Rightarrow> (int \<times> sav_rule) run" where
  "parse_sav_rule data p template_id =
     (if template_id = SAV_TPL_IPV4_IF2PREFIX
      then fbind (peek32 data p) (\<lambda>ifid. fbind (peek32 data (p + 4)) (\<lambda>a. fbind (peek data (p + 8)) (\<lambda>plen.
             Inr (9, (set_ipv4_0 a sav_rule_zero)\<lparr>sr_interface_id := ifid, sr_prefix_len := plen\<rparr>))))
      else if template_id = SAV_TPL_IPV6_IF2PREFIX
      then fbind (peek32 data p) (\<lambda>ifid. fbind (block data (p + 4) 16) (\<lambda>a. fbind (peek data (p + 20)) (\<lambda>plen.
             Inr (21, sav_rule_zero\<lparr>sr_interface_id := ifid, sr_prefix := a, sr_prefix_len := plen\<rparr>))))
      else if template_id = SAV_TPL_IPV4_PREFIX2IF
      then fbind (peek32 data p) (\<lambda>a. fbind (peek data (p + 4)) (\<lambda>plen. fbind (peek32 data (p + 5)) (\<lambda>ifid.
             Inr (9, (set_ipv4_0 a sav_rule_zero)\<lparr>sr_interface_id := ifid, sr_prefix_len := plen\<rparr>))))
      else if template_id = SAV_TPL_IPV6_PREFIX2IF
      then fbind (block data p 16) (\<lambda>a. fbind (peek data (p + 16)) (\<lambda>plen. fbind (peek32 data (p + 17)) (\<lambda>ifid.
             Inr (21, sav_rule_zero\<lparr>sr_interface_id := ifid, sr_prefix := a, sr_prefix_len := plen\<rparr>))))
      else Inr (-1, sav_rule_zero))"

definition sav_record_size :: "nat \<Rightarrow> nat option" where
  "sav_record_size tid =
     (if tid = SAV_TPL_IPV4_IF2PREFIX \<or> tid = SAV_TPL_IPV4_PREFIX2IF then Some 9
      else if tid = SAV_TPL_IPV6_IF2PREFIX \<or> tid = SAV_TPL_IPV6_PREFIX2IF then Some 21 else None)"

text \<open>The loop over the \<open>n\<close> rules that are left. \<open>None\<close> is the failure of a rule, which frees the array.\<close>

fun parse_sav_rules :: "u8 list \<Rightarrow> nat \<Rightarrow> nat \<Rightarrow> u8 \<Rightarrow> nat \<Rightarrow> sav_rule list option run" where
  "parse_sav_rules data p tid mode 0 = Inr (Some [])"
| "parse_sav_rules data p tid mode (Suc n) =
     fbind (parse_sav_rule data p tid) (\<lambda>(consumed, rule).
       if consumed < 0 then Inr None
       else fbind (parse_sav_rules data (p + nat consumed) tid mode n) (\<lambda>rs.
              Inr (map_option ((#) (rule\<lparr>sr_validation_mode := mode\<rparr>)) rs)))"

text \<open>The list of sub-templates: the value returned, the array of rules (\<open>None\<close> the null pointer), their
  number, and the number of the sub-template if it is stored.\<close>

definition parse_sav_sub_template_list ::
  "u8 list \<Rightarrow> nat \<Rightarrow> nat \<Rightarrow> u8 \<Rightarrow> (int \<times> sav_rule list option \<times> nat \<times> nat option) run" where
  "parse_sav_sub_template_list data p len mode =
     (if len < 1 then Inr (-1, None, 0, None)
      else fbind (peek data p) (\<lambda>semantic.
        if len - 1 < 2 then Inr (-1, None, 0, None)
        else fbind (peek16 data (p + 1)) (\<lambda>w.
          let tid = unat w
          in if tid < SAV_TPL_IPV4_IF2PREFIX \<or> SAV_TPL_IPV6_PREFIX2IF < tid then Inr (-1, None, 0, None)
             else case sav_record_size tid of
                    None \<Rightarrow> Inr (-1, None, 0, None)
                  | Some rec \<Rightarrow>
                      let num = (len - 3) div rec
                      in if num = 0 then Inr (0, None, 0, None)
                         else fbind (parse_sav_rules data (p + 3) tid mode num) (\<lambda>rs. case rs of
                                None \<Rightarrow> Inr (-1, None, 0, None)
                              | Some rules \<Rightarrow> Inr (0, Some rules, num, Some tid)))))"

section \<open>Texts\<close>

text \<open>An IPv4 address given as a number.\<close>

definition ntop4 :: "u32 \<Rightarrow> string" where
  "ntop4 w = (case bytes32 w of [a, b, c, d] \<Rightarrow> inet_ntoa a b c d | _ \<Rightarrow> [])"

definition sav_rule_to_string :: "(u8 list \<Rightarrow> string) \<Rightarrow> sav_rule \<Rightarrow> nat \<Rightarrow> string" where
  "sav_rule_to_string ntop6 r tid =
     ''interface='' @ dec (unat (sr_interface_id r)) @ '' prefix='' @
     (if tid = SAV_TPL_IPV4_IF2PREFIX \<or> tid = SAV_TPL_IPV4_PREFIX2IF then ntop4 (ipv4_0 r) else ntop6 (sr_prefix r)) @
     ''/'' @ dec (unat (sr_prefix_len r)) @ '' mode='' @ dec (unat (sr_validation_mode r))"

definition sav_mode_name :: "u8 \<Rightarrow> string" where
  "sav_mode_name mode =
     (if mode = 0 then ''interface-to-prefix'' else if mode = 1 then ''prefix-to-interface''
      else if mode = 2 then ''prefix-to-as'' else if mode = 3 then ''interface-to-as'' else ''unknown'')"

text \<open>The address of a rule in the output, where the number of its template is not known.\<close>

definition sav_prefix_text :: "(u8 list \<Rightarrow> string) \<Rightarrow> sav_rule \<Rightarrow> string" where
  "sav_prefix_text ntop6 r =
     (if unat (sr_prefix_len r) \<le> 32 \<and> ipv4_0 r \<noteq> 0 then ntop4 (ipv4_0 r) else ntop6 (sr_prefix r)) @
     ''/'' @ dec (unat (sr_prefix_len r))"

text \<open>The object that is added to a record: the name of the mode, and the interface and prefix of each rule.\<close>

type_synonym sav_json = "string \<times> (nat \<times> string) list"

definition sav_json_of :: "(u8 list \<Rightarrow> string) \<Rightarrow> u8 \<Rightarrow> sav_rule list \<Rightarrow> sav_json" where
  "sav_json_of ntop6 mode rules =
     (sav_mode_name mode, map (\<lambda>r. (unat (sr_interface_id r), sav_prefix_text ntop6 r)) rules)"

section \<open>The fields of a record\<close>

text \<open>What a packet has of the rules, and the copies in the global variables of nfacctd.c, with the objects
  appended to the file of rules.\<close>

record sav_vars =
  sv_rules :: "sav_rule list option"
  sv_rule_count :: nat
  sv_validation_mode :: u8

record sav_state =
  ss_pptrs :: sav_vars
  ss_global :: sav_vars
  ss_file :: "sav_json list"

definition sav_vars_zero :: sav_vars where
  "sav_vars_zero = \<lparr>sv_rules = None, sv_rule_count = 0, sv_validation_mode = 0\<rparr>"

definition SAV_IE_TARGET_TYPE :: u16 where "SAV_IE_TARGET_TYPE = 30002"
definition SAV_IE_MATCHED_CONTENT :: u16 where "SAV_IE_MATCHED_CONTENT = 30003"

text \<open>The fields of the target type and of the list, with the numbers 30002 and 30003, or 2 and 3 when there
  is no field 30003. The rule type and the action are looked up in the same way and not used.\<close>

definition sav_fields :: "template_cache_entry \<Rightarrow> utpl_field option \<times> utpl_field option" where
  "sav_fields tpl =
     (case ext_db_get_ie tpl 0 SAV_IE_MATCHED_CONTENT 0 of
        Some c \<Rightarrow> (ext_db_get_ie tpl 0 SAV_IE_TARGET_TYPE 0, Some c)
      | None \<Rightarrow> (ext_db_get_ie tpl 0 2 0, ext_db_get_ie tpl 0 3 0))"

text \<open>Where the content is, and its length.\<close>

definition sav_content :: "u8 list \<Rightarrow> nat \<Rightarrow> utpl_field \<Rightarrow> (nat \<times> u16) run" where
  "sav_content pkt p c =
     (let q = p + unat (uf_off c)
      in if uf_len c = 65535
         then fbind (peek pkt q) (\<lambda>b.
                if b = 255 then fbind (peek16 pkt (q + 1)) (\<lambda>len. Inr (q + 3, len))
                else Inr (q + 1, ucast b))
         else Inr (q, uf_len c))"

definition process_sav_fields ::
  "(u8 list \<Rightarrow> string) \<Rightarrow> u8 list \<Rightarrow> nat \<Rightarrow> template_cache_entry \<Rightarrow> sav_state \<Rightarrow> sav_state run" where
  "process_sav_fields ntop6 pkt p tpl st =
     (let st = st\<lparr>ss_pptrs := sav_vars_zero\<rparr>
      in case sav_fields tpl of
           (_, None) \<Rightarrow> Inr st
         | (tt, Some c) \<Rightarrow>
             fbind (case tt of None \<Rightarrow> Inr 0 | Some ie \<Rightarrow> peek pkt (p + unat (uf_off ie))) (\<lambda>mode.
             let vars = (ss_pptrs st)\<lparr>sv_validation_mode := mode\<rparr>; st = st\<lparr>ss_pptrs := vars\<rparr>
             in fbind (sav_content pkt p c) (\<lambda>(q, content_len).
                if 0 < content_len \<and> content_len < 65535
                then fbind (parse_sav_sub_template_list pkt q (unat content_len) mode) (\<lambda>(ret, rules, n, _).
                       if ret = 0 \<and> 0 < n
                       then let vars = vars\<lparr>sv_rules := rules, sv_rule_count := n\<rparr>
                            in Inr (st\<lparr>ss_pptrs := vars, ss_global := vars,
                                       ss_file := ss_file st @ [sav_json_of ntop6 mode (the rules)]\<rparr>)
                       else Inr st)
                else Inr st)))"

text \<open>Of the branches on the type of a flow only that of IPv4, without VLAN and MPLS, looks at rules; the other
  branches, and records of options, leave them as they are. Before it does, the masks and the protocol of the
  record are copied into members of one and of two octets, with the lengths that the template gives; a field
  longer than its member is a fault. The copies for a packet filter, the classifiers, the maps and the lookups
  of routes in between, none of which touches the rules, are left out, and no plugin is one that only replicates
  records.\<close>

definition NF9_SRC_MASK :: u16 where "NF9_SRC_MASK = 9"
definition NF9_DST_MASK :: u16 where "NF9_DST_MASK = 13"

definition copy_member :: "u8 list \<Rightarrow> nat \<Rightarrow> template_cache_entry \<Rightarrow> u16 \<Rightarrow> nat \<Rightarrow> unit run" where
  "copy_member pkt p tpl t room =
     (let n = unat (of_len (te_fld tpl (unat t)) ! 0)
      in if room < n then Inl OutOfBounds
         else fbind (block pkt (p + unat (of_off (te_fld tpl (unat t)) ! 0)) n) (\<lambda>_. Inr ()))"

definition sav_flow :: "(u8 list \<Rightarrow> string) \<Rightarrow> u8 list \<Rightarrow> nat \<Rightarrow> template_cache_entry \<Rightarrow> sav_state \<Rightarrow> sav_state run" where
  "sav_flow ntop6 pkt p tpl st =
     fbind (NF_evaluate_flow_type pkt p tpl) (\<lambda>traffic_type.
       if traffic_type = PM_FTYPE_IPV4
       then fbind (copy_member pkt p tpl NF9_SRC_MASK 1) (\<lambda>_.
            fbind (copy_member pkt p tpl NF9_DST_MASK 1) (\<lambda>_.
            fbind (copy_member pkt p tpl NF9_L4_PROTOCOL 2) (\<lambda>_.
              process_sav_fields ntop6 pkt p tpl st)))
       else Inr st)"

fun sav_flows :: "(u8 list \<Rightarrow> string) \<Rightarrow> u8 list \<Rightarrow> nf_record list \<Rightarrow> sav_state \<Rightarrow> sav_state run" where
  "sav_flows ntop6 pkt [] st = Inr st"
| "sav_flows ntop6 pkt (FlowRecord p tpl # recs) st =
     fbind (sav_flow ntop6 pkt p tpl st) (\<lambda>st. sav_flows ntop6 pkt recs st)"
| "sav_flows ntop6 pkt (OptionsRecord p tpl # recs) st = sav_flows ntop6 pkt recs st"

text \<open>The object that a plugin adds to its record. \<open>vars\<close> are those of the packet of the record, if there is
  one; the last rules seen stand in for missing ones.\<close>

definition compose_json_sav_fields ::
  "(u8 list \<Rightarrow> string) \<Rightarrow> sav_vars option \<Rightarrow> sav_vars \<Rightarrow> sav_json option" where
  "compose_json_sav_fields ntop6 vars glob =
     (let v = (case vars of
                 Some v \<Rightarrow> if sv_rules v \<noteq> None \<and> 0 < sv_rule_count v then v else glob
               | None \<Rightarrow> glob)
      in case sv_rules v of
           Some rules \<Rightarrow> if 0 < sv_rule_count v
                        then Some (sav_json_of ntop6 (sv_validation_mode v) (take (sv_rule_count v) rules)) else None
         | None \<Rightarrow> None)"

end
