(* ===== verification/SavCollector.thy ===== *)
theory SavCollector
  imports SavParser
begin

text \<open>
  The collector of rules over TCP (sav-ipfix/production-libfixbuf/sav\_collector\_raw.c). Its messages lie in
  a buffer of 65536 octets, \<open>msg\<close>; a set or a record is named by its position. The signals that stop it and
  its log are left out, and the socket is the list of what recv returns.
\<close>

definition IPFIX_VERSION :: u16 where "IPFIX_VERSION = 10"
definition IPFIX_SET_ID_TEMPLATE :: u16 where "IPFIX_SET_ID_TEMPLATE = 2"
definition TMPL_SAV_MAIN :: u16 where "TMPL_SAV_MAIN = 256"
definition TMPL_SAV_901 :: u16 where "TMPL_SAV_901 = 901"
definition TMPL_SAV_902 :: u16 where "TMPL_SAV_902 = 902"
definition MAX_MSG_SIZE :: nat where "MAX_MSG_SIZE = 65536"
definition MAX_TEMPLATES :: nat where "MAX_TEMPLATES = 256"

lemmas sav_collector_consts = IPFIX_VERSION_def IPFIX_SET_ID_TEMPLATE_def TMPL_SAV_MAIN_def TMPL_SAV_901_def
  TMPL_SAV_902_def MAX_MSG_SIZE_def MAX_TEMPLATES_def

text \<open>The templates, with the number of their fields, the file, whether it has no rule yet, and the number of
  rules. The size of records and the mark of variable length, which nothing sets or reads, are left out.\<close>

record collector =
  co_templates :: "(u16 \<times> u16) list"
  co_output :: string
  co_first :: bool
  co_decoded :: u64

section \<open>Sets of templates\<close>

definition store_template :: "u16 \<Rightarrow> u16 \<Rightarrow> collector \<Rightarrow> collector" where
  "store_template tid field_count st =
     (if length (co_templates st) < MAX_TEMPLATES then st\<lparr>co_templates := co_templates st @ [(tid, field_count)]\<rparr> else st)"

text \<open>Skipping the field specifiers: the position behind them, from \<open>p\<close>, the place of the set.\<close>

fun skip_fields :: "u8 list \<Rightarrow> nat \<Rightarrow> nat \<Rightarrow> nat \<Rightarrow> nat \<Rightarrow> nat run" where
  "skip_fields msg p set_len 0 pos = Inr pos"
| "skip_fields msg p set_len (Suc n) pos =
     (if pos < set_len
      then fbind (peek16 msg (p + pos)) (\<lambda>ie_num. fbind (peek16 msg (p + pos + 2)) (\<lambda>ie_len.
             skip_fields msg p set_len n (if ie_num AND 0x8000 \<noteq> 0 then pos + 8 else pos + 4)))
      else Inr pos)"

lemma skip_fields_mono: "skip_fields msg p set_len n pos = Inr q \<Longrightarrow> pos \<le> q"
proof (induction n arbitrary: pos)
  case (Suc n)
  show ?case
  proof (cases "pos < set_len")
    case True
    with Suc.prems obtain w :: u16 where "skip_fields msg p set_len n (if w AND 0x8000 \<noteq> 0 then pos + 8 else pos + 4) = Inr q"
      by (auto simp: fault_simps)
    from Suc.IH [OF this] show ?thesis by (auto split: if_splits)
  qed (use Suc.prems in simp)
qed simp

function template_set :: "u8 list \<Rightarrow> nat \<Rightarrow> nat \<Rightarrow> nat \<Rightarrow> collector \<Rightarrow> collector run" where
  "template_set msg p set_len pos st =
     (if pos + 4 \<le> set_len
      then fbind (peek16 msg (p + pos)) (\<lambda>tid. fbind (peek16 msg (p + pos + 2)) (\<lambda>n.
             fbind (skip_fields msg p set_len (unat n) (pos + 4)) (\<lambda>pos.
               template_set msg p set_len pos (store_template tid n st))))
      else Inr st)"
  by pat_completeness auto
termination
  by (relation "measure (\<lambda>(msg, p, set_len, pos, st). set_len - pos)") (auto dest!: skip_fields_mono)

declare template_set.simps [simp del]

definition parse_template_set :: "u8 list \<Rightarrow> nat \<Rightarrow> nat \<Rightarrow> collector \<Rightarrow> collector run" where
  "parse_template_set msg p set_len st = template_set msg p set_len 4 st"

section \<open>Rules\<close>

definition newline :: string where "newline = [CHR 0x0A]"

definition rule_901_text :: "u32 \<Rightarrow> u32 \<Rightarrow> u8 \<Rightarrow> string" where
  "rule_901_text iface ipv4 plen =
     ''  {'' @ newline @
     ''    \"template_id\": 901,'' @ newline @
     ''    \"type\": \"ipv4_interface_to_prefix\",'' @ newline @
     ''    \"interface\": '' @ dec (unat iface) @ '','' @ newline @
     ''    \"prefix\": \"'' @ ntop4 ipv4 @ ''/'' @ dec (unat plen) @ ''\"'' @ newline @
     ''  }''"

definition output_rule_901 :: "u8 list \<Rightarrow> nat \<Rightarrow> collector \<Rightarrow> collector run" where
  "output_rule_901 msg p st =
     fbind (peek32 msg p) (\<lambda>iface. fbind (peek32 msg (p + 4)) (\<lambda>ipv4. fbind (peek msg (p + 8)) (\<lambda>plen.
       Inr (st\<lparr>co_output := co_output st @ (if co_first st then [] else '','' @ newline) @ rule_901_text iface ipv4 plen,
               co_first := False, co_decoded := co_decoded st + 1\<rparr>))))"

text \<open>The records of a list, of \<open>rec\<close> octets each; those of template 902 are counted and not read.\<close>

function stl_records :: "u8 list \<Rightarrow> nat \<Rightarrow> nat \<Rightarrow> bool \<Rightarrow> nat \<Rightarrow> nat \<Rightarrow> nat \<Rightarrow> collector \<Rightarrow> (nat \<times> collector) run" where
  "stl_records msg p stl_len v4 rec pos n st =
     (if 0 < rec \<and> pos + rec \<le> stl_len
      then fbind (if v4 then output_rule_901 msg (p + pos) st else Inr st) (\<lambda>st.
             stl_records msg p stl_len v4 rec (pos + rec) (n + 1) st)
      else Inr (n, st))"
  by pat_completeness auto
termination
  by (relation "measure (\<lambda>(msg, p, stl_len, v4, rec, pos, n, st). stl_len - pos)") auto

declare stl_records.simps [simp del]

definition parse_subtemplatelist :: "u8 list \<Rightarrow> nat \<Rightarrow> nat \<Rightarrow> collector \<Rightarrow> (int \<times> collector) run" where
  "parse_subtemplatelist msg p stl_len st =
     (if stl_len < 3 then Inr (-1, st)
      else fbind (peek msg p) (\<lambda>semantic. fbind (peek16 msg (p + 1)) (\<lambda>tid.
        if tid = TMPL_SAV_901 \<or> tid = TMPL_SAV_902
        then fbind (stl_records msg p stl_len (tid = TMPL_SAV_901) (if tid = TMPL_SAV_901 then 9 else 21) 3 0 st)
               (\<lambda>(n, st). Inr (int n, st))
        else Inr (-1, st))))"

text \<open>The records of template 256: type of rule, type of target, the length of the list in two octets, the
  list, the action.\<close>

function sav_main_records :: "u8 list \<Rightarrow> nat \<Rightarrow> nat \<Rightarrow> nat \<Rightarrow> collector \<Rightarrow> collector run" where
  "sav_main_records msg p set_len pos st =
     (if pos + 4 \<le> set_len
      then fbind (peek msg (p + pos)) (\<lambda>rule_type. fbind (peek msg (p + pos + 1)) (\<lambda>target_type.
             fbind (peek16 msg (p + pos + 2)) (\<lambda>stl_len.
               if set_len < pos + 4 + unat stl_len + 1 then Inr st
               else fbind (if 0 < stl_len then parse_subtemplatelist msg (p + pos + 4) (unat stl_len) st else Inr (0, st))
                      (\<lambda>(_, st). sav_main_records msg p set_len (pos + 4 + unat stl_len + 1) st))))
      else Inr st)"
  by pat_completeness auto
termination
  by (relation "measure (\<lambda>(msg, p, set_len, pos, st). set_len - pos)") auto

declare sav_main_records.simps [simp del]

definition parse_data_set_256 :: "u8 list \<Rightarrow> nat \<Rightarrow> nat \<Rightarrow> collector \<Rightarrow> collector run" where
  "parse_data_set_256 msg p set_len st = sav_main_records msg p set_len 4 st"

section \<open>Messages\<close>

text \<open>A set of \<open>data_len\<close> octets at most: its length, or \<open>None\<close> for -1.\<close>

definition parse_set :: "u8 list \<Rightarrow> nat \<Rightarrow> nat \<Rightarrow> collector \<Rightarrow> (nat option \<times> collector) run" where
  "parse_set msg p data_len st =
     (if data_len < 4 then Inr (None, st)
      else fbind (peek16 msg p) (\<lambda>set_id. fbind (peek16 msg (p + 2)) (\<lambda>w.
        let set_len = unat w
        in if set_len < 4 \<or> data_len < set_len then Inr (None, st)
           else fbind (if set_id = IPFIX_SET_ID_TEMPLATE then parse_template_set msg p set_len st
                       else if set_id = TMPL_SAV_MAIN then parse_data_set_256 msg p set_len st
                       else Inr st) (\<lambda>st. Inr (Some set_len, st)))))"

lemma parse_set_len: "parse_set msg p data_len st = Inr (Some n, st') \<Longrightarrow> 4 \<le> n \<and> n \<le> data_len"
  by (auto simp: parse_set_def Let_def fault_simps split: if_splits)

function message_sets :: "u8 list \<Rightarrow> nat \<Rightarrow> nat \<Rightarrow> collector \<Rightarrow> collector run" where
  "message_sets msg msg_len pos st =
     (if pos + 4 \<le> msg_len
      then fbind (parse_set msg pos (msg_len - pos) st) (\<lambda>(n, st).
             case n of None \<Rightarrow> Inr st | Some n \<Rightarrow> message_sets msg msg_len (pos + n) st)
      else Inr st)"
  by pat_completeness auto
termination
  by (relation "measure (\<lambda>(msg, msg_len, pos, st). msg_len - pos)") (auto dest!: parse_set_len)

declare message_sets.simps [simp del]

definition parse_ipfix_header :: "u8 list \<Rightarrow> (int \<times> u16) run" where
  "parse_ipfix_header msg =
     fbind (peek16 msg 0) (\<lambda>version. fbind (peek16 msg 2) (\<lambda>msg_len.
       Inr (if version \<noteq> IPFIX_VERSION then -1 else 0, msg_len)))"

definition process_message :: "u8 list \<Rightarrow> collector \<Rightarrow> (int \<times> collector) run" where
  "process_message msg st =
     fbind (parse_ipfix_header msg) (\<lambda>(ret, msg_len).
       if ret < 0 then Inr (-1, st)
       else fbind (message_sets msg (unat msg_len) 16 st) (\<lambda>st. Inr (0, st)))"

section \<open>A connection\<close>

text \<open>recv returns at most \<open>n\<close> octets of the front of what has arrived; nothing is the end of the stream.\<close>

fun recv_some :: "u8 list list \<Rightarrow> nat \<Rightarrow> u8 list \<times> u8 list list" where
  "recv_some [] n = ([], [])"
| "recv_some (s # ss) n = (if length s \<le> n then (s, ss) else (take n s, drop n s # ss))"

text \<open>Reading exactly \<open>len\<close> octets to position \<open>at\<close> of the buffer; the mark is whether they were read.\<close>

function read_exact :: "u8 list \<Rightarrow> nat \<Rightarrow> nat \<Rightarrow> u8 list list \<Rightarrow> bool \<times> u8 list \<times> u8 list list" where
  "read_exact buf at len ss =
     (if len = 0 then (True, buf, ss)
      else let (got, ss) = recv_some ss len
           in if got = [] then (False, buf, ss)
              else read_exact (take at buf @ got @ drop (at + length got) buf) (at + length got) (len - length got) ss)"
  by pat_completeness auto
termination
  by (relation "measure (\<lambda>(buf, at, len, ss). len)") auto

declare read_exact.simps [simp del]

text \<open>The messages of a connection. Each takes 16 octets of the stream at least, so that as many turns as there
  are octets are enough.\<close>

fun client_messages :: "nat \<Rightarrow> u8 list \<Rightarrow> u8 list list \<Rightarrow> collector \<Rightarrow> collector run" where
  "client_messages 0 msg ss st = Inl OutOfFuel"
| "client_messages (Suc fuel) msg ss st =
     (case read_exact msg 0 16 ss of
        (False, msg, ss) \<Rightarrow> Inr st
      | (True, msg, ss) \<Rightarrow>
          fbind (peek16 msg 2) (\<lambda>w.
            let msg_len = unat w
            in if msg_len < 16 \<or> MAX_MSG_SIZE < msg_len then Inr st
               else case (if 16 < msg_len then read_exact msg 16 (msg_len - 16) ss else (True, msg, ss)) of
                      (False, msg, ss) \<Rightarrow> Inr st
                    | (True, msg, ss) \<Rightarrow>
                        fbind (process_message msg st) (\<lambda>(_, st). client_messages fuel msg ss st)))"

definition handle_client :: "u8 list \<Rightarrow> u8 list list \<Rightarrow> collector \<Rightarrow> collector run" where
  "handle_client msg ss st =
     fbind (client_messages (Suc (length (concat ss))) msg ss
              (st\<lparr>co_first := True, co_output := co_output st @ ''['' @ newline\<rparr>)) (\<lambda>st.
       Inr (st\<lparr>co_output := co_output st @ newline @ '']'' @ newline\<rparr>))"

text \<open>The server: the counters are reset behind each connection.\<close>

fun serve :: "u8 list \<Rightarrow> u8 list list list \<Rightarrow> collector \<Rightarrow> collector run" where
  "serve msg [] st = Inr st"
| "serve msg (ss # conns) st =
     fbind (handle_client msg ss st) (\<lambda>st. serve msg conns (st\<lparr>co_decoded := 0, co_templates := []\<rparr>))"

end
