(* ===== verification/SavFacts.thy ===== *)
theory SavFacts
  imports NfRecords SavCollector
begin

text \<open>
  The rules of a record: from the octets of a list of sub-templates, over the field of the record that holds
  them, to the packets of an exporter.
\<close>

section \<open>Lists of rules\<close>

definition v4_tpl :: "nat \<Rightarrow> bool" where
  "v4_tpl tid \<longleftrightarrow> tid = SAV_TPL_IPV4_IF2PREFIX \<or> tid = SAV_TPL_IPV4_PREFIX2IF"

definition sav_tpl :: "nat \<Rightarrow> bool" where
  "sav_tpl tid \<longleftrightarrow> SAV_TPL_IPV4_IF2PREFIX \<le> tid \<and> tid \<le> SAV_TPL_IPV6_PREFIX2IF"

text \<open>The octets of a rule, by the formats of the four templates.\<close>

definition sav_rule_bytes :: "nat \<Rightarrow> sav_rule \<Rightarrow> u8 list" where
  "sav_rule_bytes tid r =
     (let ifid = bytes32 (sr_interface_id r);
          addr = (if v4_tpl tid then bytes32 (ipv4_0 r) else sr_prefix r) @ [sr_prefix_len r]
      in if tid = SAV_TPL_IPV4_IF2PREFIX \<or> tid = SAV_TPL_IPV6_IF2PREFIX then ifid @ addr else addr @ ifid)"

definition sav_rule_ok :: "nat \<Rightarrow> u8 \<Rightarrow> sav_rule \<Rightarrow> bool" where
  "sav_rule_ok tid mode r \<longleftrightarrow> length (sr_prefix r) = 16 \<and> (v4_tpl tid \<longrightarrow> drop 4 (sr_prefix r) = replicate 12 0) \<and>
     sr_validation_mode r = mode"

definition rule_size :: "nat \<Rightarrow> nat" where
  "rule_size tid = (if v4_tpl tid then 9 else 21)"

definition stl_bytes :: "u8 \<Rightarrow> nat \<Rightarrow> sav_rule list \<Rightarrow> u8 list \<Rightarrow> u8 list" where
  "stl_bytes semantic tid rules rest =
     semantic # bytes16 (u16n tid) @ concat (map (sav_rule_bytes tid) rules) @ rest"

lemma length_sav_rule_bytes:
  "sav_rule_ok tid mode r \<Longrightarrow> length (sav_rule_bytes tid r) = rule_size tid"
  by (auto simp: sav_rule_bytes_def sav_rule_ok_def rule_size_def Let_def)

lemma length_rules_bytes:
  "\<forall>r\<in>set rules. sav_rule_ok tid mode r \<Longrightarrow> length (concat (map (sav_rule_bytes tid) rules)) = length rules * rule_size tid"
  by (induction rules) (auto simp: length_sav_rule_bytes)

lemma prefix_of_ipv4:
  assumes "length p = 16" "drop 4 p = replicate 12 0"
  shows "rev (bytes32 (be32 (p ! 3) (p ! 2) (p ! 1) (p ! 0))) @ replicate 12 0 = p"
proof -
  have "take 4 p = [p ! 0, p ! 1, p ! 2, p ! 3]"
    using assms(1) by (simp add: numeral_eq_Suc take_Suc_conv_app_nth)
  then show ?thesis using assms(2) append_take_drop_id [of 4 p] by simp
qed

lemma set_ipv4_0_prefix:
  "length (sr_prefix r) = 16 \<Longrightarrow> drop 4 (sr_prefix r) = replicate 12 0 \<Longrightarrow> sr_prefix (set_ipv4_0 (ipv4_0 r) sav_rule_zero) = sr_prefix r"
  using prefix_of_ipv4 [of "sr_prefix r"] by (simp add: set_ipv4_0_def ipv4_0_def sav_rule_zero_def)

lemma set_ipv4_0_rule:
  assumes "length (sr_prefix r) = 16" "drop 4 (sr_prefix r) = replicate 12 0"
  shows "(set_ipv4_0 (ipv4_0 r) sav_rule_zero)\<lparr>sr_interface_id := sr_interface_id r, sr_prefix_len := sr_prefix_len r\<rparr> =
    r\<lparr>sr_validation_mode := 0\<rparr>"
  using set_ipv4_0_prefix [OF assms] by (simp add: set_ipv4_0_def sav_rule_zero_def)

lemma block_app: "i = length xs \<Longrightarrow> n = length b \<Longrightarrow> block (xs @ b @ ys) i n = Inr b"
  by (simp add: block_def)

lemma parse_rule_bytes:
  assumes "sav_tpl tid" "sav_rule_ok tid mode r" "p = length xs"
  shows "parse_sav_rule (xs @ sav_rule_bytes tid r @ ys) p tid = Inr (int (rule_size tid), r\<lparr>sr_validation_mode := 0\<rparr>)"
proof -
  let ?i = "bytes32 (sr_interface_id r)" let ?a = "bytes32 (ipv4_0 r)" let ?l = "sr_prefix_len r" let ?p = "sr_prefix r"
  have lp: "length ?p = 16" and z: "v4_tpl tid \<Longrightarrow> drop 4 ?p = replicate 12 0" using assms(2) by (simp_all add: sav_rule_ok_def)
  consider "tid = SAV_TPL_IPV4_IF2PREFIX" | "tid = SAV_TPL_IPV6_IF2PREFIX" | "tid = SAV_TPL_IPV4_PREFIX2IF" | "tid = SAV_TPL_IPV6_PREFIX2IF"
    using assms(1) unfolding sav_tpl_def sav_tpl_consts by linarith
  then show ?thesis
  proof cases
    case 1
    have "peek32 (xs @ ?i @ ?a @ [?l] @ ys) p = Inr (sr_interface_id r)"
      "peek32 ((xs @ ?i) @ ?a @ [?l] @ ys) (p + 4) = Inr (ipv4_0 r)" "peek ((xs @ ?i @ ?a) @ ?l # ys) (p + 8) = Inr ?l"
      by (rule peek32_app peek_app; simp add: assms(3))+
    then show ?thesis using set_ipv4_0_rule [of r] lp z 1
      by (simp add: parse_sav_rule_def sav_rule_bytes_def rule_size_def v4_tpl_def sav_tpl_consts)
  next
    case 2
    have "peek32 (xs @ ?i @ ?p @ [?l] @ ys) p = Inr (sr_interface_id r)"
      "block ((xs @ ?i) @ ?p @ [?l] @ ys) (p + 4) 16 = Inr ?p" "peek ((xs @ ?i @ ?p) @ ?l # ys) (p + 20) = Inr ?l"
      by (rule peek32_app peek_app block_app; simp add: assms(3) lp)+
    then show ?thesis using 2
      by (simp add: parse_sav_rule_def sav_rule_bytes_def rule_size_def v4_tpl_def sav_tpl_consts sav_rule_zero_def)
  next
    case 3
    have "peek32 (xs @ ?a @ [?l] @ ?i @ ys) p = Inr (ipv4_0 r)" "peek ((xs @ ?a) @ ?l # ?i @ ys) (p + 4) = Inr ?l"
      "peek32 ((xs @ ?a @ [?l]) @ ?i @ ys) (p + 5) = Inr (sr_interface_id r)"
      by (rule peek32_app peek_app; simp add: assms(3))+
    then show ?thesis using set_ipv4_0_rule [of r] lp z 3
      by (simp add: parse_sav_rule_def sav_rule_bytes_def rule_size_def v4_tpl_def sav_tpl_consts)
  next
    case 4
    have "block (xs @ ?p @ [?l] @ ?i @ ys) p 16 = Inr ?p" "peek ((xs @ ?p) @ ?l # ?i @ ys) (p + 16) = Inr ?l"
      "peek32 ((xs @ ?p @ [?l]) @ ?i @ ys) (p + 17) = Inr (sr_interface_id r)"
      by (rule peek32_app peek_app block_app; simp add: assms(3) lp)+
    then show ?thesis using 4
      by (simp add: parse_sav_rule_def sav_rule_bytes_def rule_size_def v4_tpl_def sav_tpl_consts sav_rule_zero_def)
  qed
qed

lemma parse_rules_bytes:
  assumes "sav_tpl tid"
  shows "\<forall>r\<in>set rules. sav_rule_ok tid mode r \<Longrightarrow> p = length xs \<Longrightarrow>
    parse_sav_rules (xs @ concat (map (sav_rule_bytes tid) rules) @ ys) p tid mode (length rules) = Inr (Some rules)"
proof (induction rules arbitrary: xs p)
  case (Cons r rules)
  let ?r = "sav_rule_bytes tid r"
  have ok: "sav_rule_ok tid mode r" using Cons.prems by simp
  have "parse_sav_rules ((xs @ ?r) @ concat (map (sav_rule_bytes tid) rules) @ ys) (p + rule_size tid) tid mode (length rules) = Inr (Some rules)"
    by (rule Cons.IH) (use Cons.prems length_sav_rule_bytes [OF ok] in auto)
  moreover have "r\<lparr>sr_validation_mode := mode\<rparr> = r" using ok by (simp add: sav_rule_ok_def)
  ultimately show ?case
    using parse_rule_bytes [OF assms ok Cons.prems(2), of "concat (map (sav_rule_bytes tid) rules) @ ys"] by simp
qed simp

lemma rule_size_pos: "0 < rule_size tid"
  by (simp add: rule_size_def)

lemma parse_stl_bytes:
  assumes tid: "sav_tpl tid" and ok: "\<forall>r\<in>set rules. sav_rule_ok tid mode r" and ne: "rules \<noteq> []"
    and rest: "length rest < rule_size tid" and p: "p = length xs"
  shows "parse_sav_sub_template_list (xs @ stl_bytes semantic tid rules rest @ ys) p (length (stl_bytes semantic tid rules rest)) mode =
    Inr (0, Some rules, length rules, Some tid)"
proof -
  let ?rs = "concat (map (sav_rule_bytes tid) rules)" let ?pkt = "xs @ stl_bytes semantic tid rules rest @ ys"
  have t16: "unat (u16n tid) = tid" using tid by (simp add: sav_tpl_def sav_tpl_consts)
  have len: "length (stl_bytes semantic tid rules rest) = 3 + (length rules * rule_size tid + length rest)"
    using length_rules_bytes [OF ok] by (simp add: stl_bytes_def)
  have num: "(length rules * rule_size tid + length rest) div rule_size tid = length rules"
    using rest rule_size_pos [of tid] by simp
  have h: "peek ?pkt p = Inr semantic" "peek16 ?pkt (p + 1) = Inr (u16n tid)"
    using peek_app [OF p, of semantic] peek16_app [of "p + 1" "xs @ [semantic]", where w = "u16n tid"]
    by (simp_all add: stl_bytes_def p)
  have size: "sav_record_size tid = Some (rule_size tid)"
    using tid by (auto simp: sav_record_size_def rule_size_def v4_tpl_def sav_tpl_def sav_tpl_consts)
  have "parse_sav_rules ((xs @ semantic # bytes16 (u16n tid)) @ ?rs @ rest @ ys) (p + 3) tid mode (length rules) = Inr (Some rules)"
    by (rule parse_rules_bytes [OF tid ok]) (simp add: p)
  then have "parse_sav_rules ?pkt (p + 3) tid mode (length rules) = Inr (Some rules)" by (simp add: stl_bytes_def)
  moreover have "\<not> (tid < SAV_TPL_IPV4_IF2PREFIX \<or> SAV_TPL_IPV6_PREFIX2IF < tid)" using tid by (simp add: sav_tpl_def)
  ultimately show ?thesis
    using ne num t16 h size by (simp add: parse_sav_sub_template_list_def len Let_def del: unat_u16n)
qed

section \<open>The fields of rules in a template\<close>

lemma chain_nth:
  assumes "k < length ss" "same_chain m (ss ! k)"
  shows "chain m ss ! occurs (same_chain m) (take k ss) = ss ! k"
    "occurs (same_chain m) (take k ss) < length (chain m ss)"
    "take (occurs (same_chain m) (take k ss)) (chain m ss) = chain m (take k ss)"
proof -
  have "ss = take k ss @ ss ! k # drop (Suc k) ss" using assms(1) by (simp add: id_take_nth_drop)
  then have "chain m ss = chain m (take k ss @ ss ! k # drop (Suc k) ss)" by simp
  then have split: "chain m ss = chain m (take k ss) @ ss ! k # chain m (drop (Suc k) ss)"
    using assms(2) by (simp add: chain_def)
  have l: "occurs (same_chain m) (take k ss) = length (chain m (take k ss))" by (simp add: length_chain)
  show "chain m ss ! occurs (same_chain m) (take k ss) = ss ! k"
    "occurs (same_chain m) (take k ss) < length (chain m ss)"
    "take (occurs (same_chain m) (take k ss)) (chain m ss) = chain m (take k ss)"
    unfolding l split by simp_all
qed

lemma idents_nth: "k < length cs \<Longrightarrow> idents cs ! k = ident (take k cs) (cs ! k)"
  by (simp add: idents_def)

lemma find_first: "c < length xs \<Longrightarrow> P (xs ! c) \<Longrightarrow> \<forall>j<c. \<not> P (xs ! j) \<Longrightarrow> find P xs = Some (xs ! c)"
  by (auto simp: find_Some_iff)

text \<open>The first field of a type is found by its type, without an enterprise number.\<close>

lemma ext_db_get_ie_first:
  assumes u: "usable tpl ss" and k: "k < length ss" and s: "ss ! k = (t, n, None)" "384 \<le> unat t"
    and first: "\<forall>i<k. fst (ss ! i) \<noteq> t"
  shows "\<exists>ie. ext_db_get_ie tpl 0 t 0 = Some ie \<and> slot tpl (loc (take k ss) (ss ! k)) = (uf_off ie, uf_len ie, uf_tpl_len ie)"
proof -
  let ?m = "unat t mod TPL_EXT_DB_ENTRIES" let ?ies = "te_ext_db tpl ?m"
  let ?c = "occurs (same_chain ?m) (take k ss)" let ?cs = "chain ?m ss"
  have ext: "\<not> legacy_spec (ss ! k)" using s by (simp add: is_legacy_def NF9_MAX_DEFINED_FIELD_def)
  then have same: "same_chain ?m (ss ! k)" using s by (simp add: same_chain_def)
  note cn = chain_nth [OF k same]
  have ids: "map ie_ident ?ies = idents ?cs @ replicate (IES_PER_TPL_EXT_DB_ENTRY - length ?cs) (0, 0, 0)"
    using u by (simp add: usable_def)
  have lies: "length ?ies = IES_PER_TPL_EXT_DB_ENTRY" using u by (simp add: usable_def sized_def)
  have "length (map ie_ident ?ies) = length ?cs + (IES_PER_TPL_EXT_DB_ENTRY - length ?cs)" unfolding ids by simp
  then have c: "?c < length ?ies" using cn(2) by simp
  have nth: "ie_ident (?ies ! j) = ident (take j ?cs) (?cs ! j)" if "j < length ?cs" for j
  proof -
    have "map ie_ident ?ies ! j = ident (take j ?cs) (?cs ! j)" using that by (simp add: ids nth_append idents_nth)
    moreover have "j < length ?ies" using that \<open>length (map ie_ident ?ies) = _\<close> by simp
    ultimately show ?thesis by simp
  qed
  have no: "fst x \<noteq> t" if "x \<in> set (chain ?m (take k ss))" for x
    using that first by (auto simp: chain_def in_set_conv_nth)
  have "occurs (of_type t) (chain ?m (take k ss)) = 0"
    using no by (auto simp: occurs_def of_type_def filter_empty_conv)
  then have "ie_ident (?ies ! ?c) = (t, 0, 0)" using nth [OF cn(2)] cn s by (simp add: ident_def)
  then have hit: "uf_type (?ies ! ?c) = t \<and> uf_pen (?ies ! ?c) = 0 \<and> uf_repeat_id (?ies ! ?c) = 0" by (simp add: ie_ident_def)
  have miss: "\<forall>j<?c. \<not> (uf_type (?ies ! j) = t \<and> uf_pen (?ies ! j) = 0 \<and> uf_repeat_id (?ies ! j) = 0)"
  proof (intro allI impI)
    fix j assume j: "j < ?c"
    have "fst (ie_ident (?ies ! j)) = fst (?cs ! j)" using nth [of j] j cn(2) by (simp add: ident_def)
    moreover have "?cs ! j = chain ?m (take k ss) ! j" using cn(3) j by (metis nth_take)
    moreover have "chain ?m (take k ss) ! j \<in> set (chain ?m (take k ss))" using j by (simp add: length_chain)
    ultimately show "\<not> (uf_type (?ies ! j) = t \<and> uf_pen (?ies ! j) = 0 \<and> uf_repeat_id (?ies ! j) = 0)"
      using no by (auto simp: ie_ident_def)
  qed
  have "ext_db_get_ie tpl 0 t 0 = Some (?ies ! ?c)"
    unfolding ext_db_get_ie_def by (rule find_first [OF c hit miss])
  moreover have "loc (take k ss) (ss ! k) = (Ie ?m ?c, 0)" using ext s by (simp add: loc_def Let_def)
  ultimately show ?thesis by simp
qed

text \<open>A template with the fields of rules, as the draft's exporters send it: the list of rules is the field \<open>k\<close>, the
  type of target the field \<open>t\<close>.\<close>

definition sav_template :: "fspec list \<Rightarrow> nat \<Rightarrow> nat \<Rightarrow> bool" where
  "sav_template ss k t \<longleftrightarrow> k < length ss \<and> t < length ss \<and>
     fst (ss ! k) = SAV_IE_MATCHED_CONTENT \<and> snd (snd (ss ! k)) = None \<and> (\<forall>i<k. fst (ss ! i) \<noteq> SAV_IE_MATCHED_CONTENT) \<and>
     fst (ss ! t) = SAV_IE_TARGET_TYPE \<and> snd (snd (ss ! t)) = None \<and> (\<forall>i<t. fst (ss ! i) \<noteq> SAV_IE_TARGET_TYPE)"

lemma sav_fields_template:
  assumes "usable tpl ss" "sav_template ss k t"
  shows "\<exists>tt c. sav_fields tpl = (Some tt, Some c) \<and>
    slot tpl (loc (take k ss) (ss ! k)) = (uf_off c, uf_len c, uf_tpl_len c) \<and>
    slot tpl (loc (take t ss) (ss ! t)) = (uf_off tt, uf_len tt, uf_tpl_len tt)"
proof -
  obtain n where n: "ss ! k = (SAV_IE_MATCHED_CONTENT, n, None)" using assms(2) by (cases "ss ! k") (auto simp: sav_template_def)
  obtain n' where n': "ss ! t = (SAV_IE_TARGET_TYPE, n', None)" using assms(2) by (cases "ss ! t") (auto simp: sav_template_def)
  obtain c where c: "ext_db_get_ie tpl 0 SAV_IE_MATCHED_CONTENT 0 = Some c"
      "slot tpl (loc (take k ss) (ss ! k)) = (uf_off c, uf_len c, uf_tpl_len c)"
    using ext_db_get_ie_first [OF assms(1) _ n] assms(2) by (auto simp: sav_template_def SAV_IE_MATCHED_CONTENT_def)
  obtain tt where tt: "ext_db_get_ie tpl 0 SAV_IE_TARGET_TYPE 0 = Some tt"
      "slot tpl (loc (take t ss) (ss ! t)) = (uf_off tt, uf_len tt, uf_tpl_len tt)"
    using ext_db_get_ie_first [OF assms(1) _ n'] assms(2) by (auto simp: sav_template_def SAV_IE_TARGET_TYPE_def)
  show ?thesis using c tt by (simp add: sav_fields_def)
qed

section \<open>The rules of a record\<close>

text \<open>A record of rules: field \<open>k\<close> has the list, field \<open>t\<close> the mode.\<close>

definition sav_record :: "nat \<Rightarrow> nat \<Rightarrow> fval list \<Rightarrow> u8 \<Rightarrow> nat \<Rightarrow> sav_rule list \<Rightarrow> bool" where
  "sav_record k t vs mode tid rules \<longleftrightarrow> sav_tpl tid \<and> rules \<noteq> [] \<and> (\<forall>r\<in>set rules. sav_rule_ok tid mode r) \<and>
     snd (vs ! t) = [mode] \<and> (\<exists>semantic rest. length rest < rule_size tid \<and> snd (vs ! k) = stl_bytes semantic tid rules rest)"

definition sav_vars_of :: "u8 \<Rightarrow> sav_rule list \<Rightarrow> sav_vars" where
  "sav_vars_of mode rules = \<lparr>sv_rules = Some rules, sv_rule_count = length rules, sv_validation_mode = mode\<rparr>"

text \<open>The value of a field inside of the buffer.\<close>

lemma value_in_packet:
  assumes "length ss = length vs" "i < length ss" "drop p pkt = rec_bytes ss vs @ rest" "p \<le> length pkt"
  shows "\<exists>xs ys. pkt = xs @ snd (vs ! i) @ ys \<and> length xs = p + val_off ss vs i"
proof -
  let ?q = "p + val_off ss vs i" let ?n = "length (snd (vs ! i))"
  have b: "val_off ss vs i + ?n \<le> length (rec_bytes ss vs)" by (rule val_off_bound [OF assms(1,2)])
  have "take ?n (drop (val_off ss vs i) (drop p pkt)) = snd (vs ! i)"
    unfolding assms(3) by (rule value_at [OF assms(1,2)])
  then have v: "take ?n (drop ?q pkt) = snd (vs ! i)" by (simp add: add.commute)
  have "length (drop p pkt) = length (rec_bytes ss vs) + length rest" unfolding assms(3) by simp
  then have "length (take ?q pkt) = ?q" using b assms(4) by simp
  moreover have "pkt = take ?q pkt @ take ?n (drop ?q pkt) @ drop ?n (drop ?q pkt)"
    by (simp only: append_take_drop_id)
  ultimately show ?thesis unfolding v by blast
qed

lemma process_record:
  assumes b: "baked tpl ss vs" and ok: "vals_ok ss vs" and sv: "sav_template ss k t" and rc: "sav_record k t vs mode tid rules"
    and pkt: "drop p pkt = rec_bytes ss vs @ rest" "p \<le> length pkt" and small: "length (rec_bytes ss vs) < 65536"
  shows "process_sav_fields ntop6 pkt p tpl st = Inr (st\<lparr>ss_pptrs := sav_vars_of mode rules, ss_global := sav_vars_of mode rules,
    ss_file := ss_file st @ [sav_json_of ntop6 mode rules]\<rparr>)"
proof -
  have u: "usable tpl ss" using b by (simp add: baked_def)
  have l: "length ss = length vs" using ok by (simp add: vals_ok_def)
  have k: "k < length ss" and t: "t < length ss" using sv by (simp_all add: sav_template_def)
  obtain semantic rest' where c: "length rest' < rule_size tid" "snd (vs ! k) = stl_bytes semantic tid rules rest'"
    and tid: "sav_tpl tid" and ne: "rules \<noteq> []" and rok: "\<forall>r\<in>set rules. sav_rule_ok tid mode r" and m: "snd (vs ! t) = [mode]"
    using rc by (auto simp: sav_record_def)
  let ?n = "length (snd (vs ! k))"
  obtain tt ie where f: "sav_fields tpl = (Some tt, Some ie)" "slot tpl (loc (take k ss) (ss ! k)) = (uf_off ie, uf_len ie, uf_tpl_len ie)"
      "slot tpl (loc (take t ss) (ss ! t)) = (uf_off tt, uf_len tt, uf_tpl_len tt)"
    using sav_fields_template [OF u sv] by blast
  have rk: "uf_off ie = u16n (val_off ss vs k)" "uf_len ie = u16n ?n" and rt: "uf_off tt = u16n (val_off ss vs t)"
    using b k t f(2,3) by (auto simp: baked_def resolved_def)
  have bk: "val_off ss vs k + ?n < 65536" "val_off ss vs t < 65536"
    using val_off_bound [OF l k] val_off_bound [OF l t] small by linarith+
  have n: "0 < ?n" "?n < 65535"
  proof -
    show "0 < ?n" by (simp add: c(2) stl_bytes_def)
    show "?n < 65535"
    proof (cases "is_var (ss ! k)")
      case True
      then have "0 < val_off ss vs k" by (simp add: val_off_def prefix_len_def)
      with bk show ?thesis by simp
    next
      case False
      then have "unat (fst (snd (ss ! k))) \<noteq> 65535"
        by (cases "ss ! k") (simp add: IPFIX_VARIABLE_LENGTH_def word_unat_eq_iff)
      moreover have "?n = slen (ss ! k)" using ok k False by (simp add: vals_ok_def val_ok_def)
      ultimately show ?thesis using unat_u16_less [of "fst (snd (ss ! k))"] unfolding slen_def by linarith
    qed
  qed
  have offs: "unat (uf_off ie) = val_off ss vs k" "unat (uf_len ie) = ?n" "unat (uf_off tt) = val_off ss vs t"
    using rk rt bk n by simp_all
  have len: "uf_len ie \<noteq> 65535" "0 < uf_len ie" "uf_len ie < 65535"
    using n offs(2) by (auto simp: word_less_nat_alt word_unat_eq_iff)
  obtain xs ys where x: "pkt = xs @ [mode] @ ys" "length xs = p + val_off ss vs t"
    using value_in_packet [OF l t pkt] m by auto
  have mode: "peek pkt (p + unat (uf_off tt)) = Inr mode"
    using peek_app [of "p + unat (uf_off tt)" xs mode ys] x offs(3) by simp
  obtain xs' ys' where x': "pkt = xs' @ snd (vs ! k) @ ys'" "length xs' = p + val_off ss vs k"
    using value_in_packet [OF l k pkt] by auto
  have "parse_sav_sub_template_list pkt (p + unat (uf_off ie)) (unat (uf_len ie)) mode = Inr (0, Some rules, length rules, Some tid)"
    unfolding offs x'(1) c(2) by (rule parse_stl_bytes [OF tid rok ne c(1)]) (simp add: x'(2))
  then show ?thesis
    using len mode ne by (simp add: process_sav_fields_def f(1) sav_content_def sav_vars_of_def sav_vars_zero_def Let_def)
qed

section \<open>Templates of IPv4 flows\<close>

text \<open>A template whose records are of the type IPv4 by the rules of \<open>NF_evaluate_flow_type\<close>, whatever their
  octets: with a count of octets and an IPv4 address or prefix, without the fields that make it another type, and
  with masks and protocol of the size of the members they are copied to.\<close>

definition has_type :: "fspec list \<Rightarrow> u16 \<Rightarrow> bool" where
  "has_type ss t \<longleftrightarrow> list_ex (same_type t) ss"

definition ipv4_flows :: "fspec list \<Rightarrow> bool" where
  "ipv4_flows ss \<longleftrightarrow>
     list_ex (has_type ss) [NF9_IN_BYTES, NF9_OUT_BYTES, NF9_FLOW_BYTES, NF9_INITIATOR_OCTETS, NF9_RESPONDER_OCTETS,
       NF9_LAYER2OCTETDELTACOUNT] \<and>
     list_ex (has_type ss) [NF9_IPV4_SRC_ADDR, NF9_IPV4_DST_ADDR, NF9_IPV4_SRC_PREFIX, NF9_IPV4_DST_PREFIX, NF9_staIPv4Address] \<and>
     \<not> list_ex (has_type ss) [NF9_IPV6_SRC_ADDR, NF9_IPV6_DST_ADDR, NF9_IN_VLAN, NF9_OUT_VLAN, NF9_IP_PROTOCOL_VERSION,
       NF9_MPLS_LABEL_1, NF9_LAYER2_PKT_SECTION_DATA, NF9_NAT_EVENT, NF9_DATALINK_FRAME_SECTION] \<and>
     (\<forall>s\<in>set ss. (same_type NF9_SRC_MASK s \<or> same_type NF9_DST_MASK s \<longrightarrow> unat (fst (snd s)) \<le> 1) \<and>
        (same_type NF9_L4_PROTOCOL s \<longrightarrow> unat (fst (snd s)) \<le> 2))"

lemma occurs_none: "occurs P xs = 0 \<longleftrightarrow> \<not> list_ex P xs"
  by (auto simp: occurs_def filter_empty_conv list_ex_iff)

lemma usable_has_fld:
  assumes "usable tpl ss"
  shows "has_fld tpl t \<longleftrightarrow> has_type ss t"
proof -
  have "unat (of_count (te_fld tpl (unat t))) = occurs (same_type t) ss" using assms by (simp add: usable_def data_template_def)
  then have "of_count (te_fld tpl (unat t)) = 0 \<longleftrightarrow> occurs (same_type t) ss = 0" by (metis unat_eq_0)
  then show ?thesis by (simp add: has_fld_def has_type_def occurs_none)
qed

lemma ipv4_flow_type:
  assumes u: "usable tpl ss" and v4: "ipv4_flows ss"
  shows "NF_evaluate_flow_type pkt p tpl = Inr PM_FTYPE_IPV4"
proof -
  note has = usable_has_fld [OF u]
  have "te_template_type tpl \<noteq> 1" "te_prots tpl ! 0 \<noteq> L_ipv6"
    using u v4 by (auto simp: usable_def data_template_def ipv4_flows_def has_type_def in_set_conv_nth)
  moreover have "event_flow tpl = False" using v4 by (auto simp: event_flow_def has ipv4_flows_def)
  ultimately show ?thesis
    using v4 by (auto simp: NF_evaluate_flow_type_def flow_labels_def fld_positive_def flow_version_def flow_srv6_def
        flow_addresses_def has ipv4_flows_def Let_def)
qed

lemma first_place: "list_ex P xs \<Longrightarrow> \<exists>i<length xs. P (xs ! i) \<and> \<not> list_ex P (take i xs)"
proof (induction xs)
  case (Cons x xs)
  show ?case
  proof (cases "P x")
    case False
    with Cons obtain i where "i < length xs" "P (xs ! i)" "\<not> list_ex P (take i xs)" by auto
    with False show ?thesis by (intro exI [of _ "Suc i"]) simp
  qed (auto intro: exI [of _ 0])
qed simp

lemma copy_member_ok:
  assumes b: "baked tpl ss vs" and ok: "vals_ok ss vs" and pkt: "drop p pkt = rec_bytes ss vs @ rest" "p \<le> length pkt"
    and small: "length (rec_bytes ss vs) < 65536" and room: "\<forall>s\<in>set ss. same_type t s \<longrightarrow> unat (fst (snd s)) \<le> room" "room < 65535"
  shows "copy_member pkt p tpl t room = Inr ()"
proof (cases "has_type ss t")
  case False
  have "data_template tpl ss" using b by (simp add: baked_def usable_def)
  with False have "of_off (te_fld tpl (unat t)) ! 0 = 0" "of_len (te_fld tpl (unat t)) ! 0 = 0"
    by (simp_all add: data_template_def has_type_def)
  then show ?thesis using pkt(2) by (simp add: copy_member_def block_def)
next
  case True
  then obtain i where i: "i < length ss" "same_type t (ss ! i)" "\<not> list_ex (same_type t) (take i ss)"
    using first_place unfolding has_type_def by blast
  have l: "length ss = length vs" using ok by (simp add: vals_ok_def)
  have s: "unat (fst (snd (ss ! i))) \<le> room" using room(1) i(1,2) by simp
  then have var: "\<not> is_var (ss ! i)" using room(2) by (cases "ss ! i") (auto simp: IPFIX_VARIABLE_LENGTH_def)
  then have n: "length (snd (vs ! i)) = unat (fst (snd (ss ! i)))" using ok i(1) by (simp add: vals_ok_def val_ok_def slen_def)
  have bd: "val_off ss vs i + length (snd (vs ! i)) \<le> length (rec_bytes ss vs)" by (rule val_off_bound [OF l i(1)])
  have "loc (take i ss) (ss ! i) = (Fld (unat t), 0)"
    using i(2,3) by (auto simp: same_type_def loc_def occurs_none)
  then have "of_off (te_fld tpl (unat t)) ! 0 = u16n (val_off ss vs i)" "of_len (te_fld tpl (unat t)) ! 0 = u16n (length (snd (vs ! i)))"
    using b i(1) unfolding baked_def resolved_def by (force dest!: spec [of _ i])+
  moreover have "length pkt = p + length (rec_bytes ss vs) + length rest"
    using arg_cong [OF pkt(1), of length] pkt(2) by simp
  ultimately show ?thesis using bd small n s by (simp add: copy_member_def block_def)
qed

section \<open>Packets of rules\<close>

type_synonym sav_list = "u8 \<times> nat \<times> sav_rule list"

definition sav_list_json :: "(u8 list \<Rightarrow> string) \<Rightarrow> sav_list \<Rightarrow> sav_json" where
  "sav_list_json ntop6 x = sav_json_of ntop6 (fst x) (snd (snd x))"

lemma sav_flows_records:
  assumes sv: "sav_template ss k t" and v4: "ipv4_flows ss" and small: "\<forall>vs\<in>set rs0. length (rec_bytes ss vs) < 65536"
  shows "\<forall>j<length recs. record_at pkt ss rs0 p (recs ! j) (i + j) \<and> vals_ok ss (rs0 ! (i + j)) \<and>
      sav_record k t (rs0 ! (i + j)) (fst (ls ! j)) (fst (snd (ls ! j))) (snd (snd (ls ! j))) \<Longrightarrow>
    length ls = length recs \<Longrightarrow> i + length recs \<le> length rs0 \<Longrightarrow>
    \<exists>st'. sav_flows ntop6 pkt (map (\<lambda>(p, tpl). FlowRecord p tpl) recs) st = Inr st' \<and>
      ss_file st' = ss_file st @ map (sav_list_json ntop6) ls \<and>
      (ls \<noteq> [] \<longrightarrow> ss_pptrs st' = sav_vars_of (fst (last ls)) (snd (snd (last ls))) \<and> ss_global st' = ss_pptrs st')"
proof (induction recs arbitrary: ls i st)
  case (Cons r recs)
  obtain mode tid rules ls' where ls: "ls = (mode, tid, rules) # ls'" using Cons.prems(2) by (cases ls) auto
  obtain q tpl where r: "r = (q, tpl)" by (cases r)
  let ?vs = "rs0 ! i"
  have 0: "record_at pkt ss rs0 p r i" "vals_ok ss ?vs" "sav_record k t ?vs mode tid rules"
    using Cons.prems(1) [rule_format, of 0] by (simp_all add: ls)
  then obtain rest where rest: "baked tpl ss ?vs" "drop q pkt = rec_bytes ss ?vs @ rest" by (auto simp: record_at_def r)
  have ne: "rec_bytes ss ?vs \<noteq> []"
  proof -
    have "k < length ss" "length ss = length ?vs" "snd (?vs ! k) \<noteq> []"
      using sv 0(2,3) by (auto simp: sav_template_def vals_ok_def sav_record_def stl_bytes_def)
    then show ?thesis using rec_bytes_split [of ss ?vs k] by (simp add: enc_def)
  qed
  have q: "q \<le> length pkt" using rest(2) ne by (metis drop_all le_cases append_is_Nil_conv)
  have sm: "length (rec_bytes ss ?vs) < 65536" using small Cons.prems(3) by simp
  let ?st = "st\<lparr>ss_pptrs := sav_vars_of mode rules, ss_global := sav_vars_of mode rules,
    ss_file := ss_file st @ [sav_json_of ntop6 mode rules]\<rparr>"
  have u: "usable tpl ss" using rest(1) by (simp add: baked_def)
  have "copy_member pkt q tpl x n = Inr ()" if "\<forall>s\<in>set ss. same_type x s \<longrightarrow> unat (fst (snd s)) \<le> n" "n < 65535" for x n
    by (rule copy_member_ok [OF rest(1) 0(2) rest(2) q sm that])
  then have "sav_flow ntop6 pkt q tpl st = process_sav_fields ntop6 pkt q tpl st"
    using v4 by (simp add: sav_flow_def ipv4_flow_type [OF u v4] ipv4_flows_def)
  then have step: "sav_flow ntop6 pkt q tpl st = Inr ?st"
    by (simp add: process_record [OF rest(1) 0(2) sv 0(3) rest(2) q sm])
  have "\<forall>j<length recs. record_at pkt ss rs0 p (recs ! j) (Suc i + j) \<and> vals_ok ss (rs0 ! (Suc i + j)) \<and>
      sav_record k t (rs0 ! (Suc i + j)) (fst (ls' ! j)) (fst (snd (ls' ! j))) (snd (snd (ls' ! j)))"
  proof (intro allI impI)
    fix j assume "j < length recs"
    then show "record_at pkt ss rs0 p (recs ! j) (Suc i + j) \<and> vals_ok ss (rs0 ! (Suc i + j)) \<and>
      sav_record k t (rs0 ! (Suc i + j)) (fst (ls' ! j)) (fst (snd (ls' ! j))) (snd (snd (ls' ! j)))"
      using Cons.prems(1) [rule_format, of "Suc j"] by (simp add: ls)
  qed
  then obtain st' where IH: "sav_flows ntop6 pkt (map (\<lambda>(p, tpl). FlowRecord p tpl) recs) ?st = Inr st'"
      "ss_file st' = ss_file ?st @ map (sav_list_json ntop6) ls'"
      "ls' \<noteq> [] \<longrightarrow> ss_pptrs st' = sav_vars_of (fst (last ls')) (snd (snd (last ls'))) \<and> ss_global st' = ss_pptrs st'"
    using Cons.IH [of "Suc i" ls' ?st] Cons.prems(2,3) by (auto simp: ls)
  have "ls' = [] \<Longrightarrow> st' = ?st" using IH(1) Cons.prems(2) by (simp add: ls)
  with IH step show ?case by (auto simp: r ls sav_list_json_def)
qed simp

lemma sav_packet_read:
  assumes fit: "fits ss" and ok: "\<forall>s\<in>set ss. spec_ok 10 s" and tid: "256 \<le> unat tid"
    and rs: "\<forall>vs\<in>set rs. vals_ok ss vs" "rs \<noteq> []" and pad: "ends ss (length pad)"
    and hdr: "length hdr = 12" and pkt: "pkt = ipfix_packet hdr sid tid ss rs pad" and len: "length pkt < 65536"
    and fuel: "length rs + 3 < fuel" and sv: "sav_template ss k t" and v4: "ipv4_flows ss" and ls: "length ls = length rs"
    and recs: "\<forall>j<length rs. sav_record k t (rs ! j) (fst (ls ! j)) (fst (snd (ls ! j))) (snd (snd (ls ! j)))"
  shows "\<exists>recs cache' st'. process_v9_packet fuel (pkt @ stale) (length pkt) False agent 10 cache = Inr (cache', recs) \<and>
    sav_flows ntop6 (pkt @ stale) recs st = Inr st' \<and>
    ss_file st' = ss_file st @ map (sav_list_json ntop6) ls \<and>
    ss_pptrs st' = sav_vars_of (fst (last ls)) (snd (snd (last ls))) \<and> ss_global st' = ss_pptrs st'"
proof -
  obtain rr cache' where p: "process_v9_packet fuel (pkt @ stale) (length pkt) False agent 10 cache =
      Inr (cache', map (\<lambda>(p, tpl). FlowRecord p tpl) rr)" "length rr = length rs"
      "\<forall>j<length rs. record_at (pkt @ stale) ss rs (24 + length (tpl_bytes tid ss)) (rr ! j) j"
    using packet_read [OF fit ok tid rs pad hdr pkt len fuel] by blast
  have "length (rec_bytes ss vs) < 65536" if "vs \<in> set rs" for vs
  proof -
    have "length (rec_bytes ss vs) \<le> length (recs_bytes ss rs)"
      using that by (induction rs) auto
    then show ?thesis using len by (simp add: pkt ipfix_packet_def length_flowset)
  qed
  then obtain st' where "sav_flows ntop6 (pkt @ stale) (map (\<lambda>(p, tpl). FlowRecord p tpl) rr) st = Inr st'"
      "ss_file st' = ss_file st @ map (sav_list_json ntop6) ls"
      "ls \<noteq> [] \<longrightarrow> ss_pptrs st' = sav_vars_of (fst (last ls)) (snd (snd (last ls))) \<and> ss_global st' = ss_pptrs st'"
    using sav_flows_records [OF sv v4, of rs rr "pkt @ stale" "24 + length (tpl_bytes tid ss)" 0 ls ntop6 st] p recs ls rs(1) by auto
  moreover have "ls \<noteq> []" using ls rs(2) by auto
  ultimately show ?thesis using p(1) by blast
qed

end
