(* ===== verification/NfFaults.thy ===== *)
theory NfFaults
  imports NfSafe SavFacts
begin

text \<open>
  Where the parsing of templates, records and rules does not do what it is for: loops that do not end, reads
  behind the packet, writes behind an array, fields and records that are not those that were sent, and rules that
  are not looked at.
\<close>

section \<open>Records without octets\<close>

lemma empty_records_endless:
  "\<not> te_vlen tpl \<Longrightarrow> te_len tpl = 0 \<Longrightarrow> flowoff \<le> flowsetlen \<Longrightarrow> data_records fuel pkt flowsetlen p flowoff tpl = Inl OutOfFuel"
  by (induction fuel arbitrary: p) (simp_all add: bake_def SUCCESS_def ERR_def Let_def)

lemma packet_needs_fuel:
  assumes "fits ss" "\<forall>s\<in>set ss. spec_ok 10 s" "256 \<le> unat tid" "length hdr = 12"
    "pkt = hdr @ bytes32 sid @ flowset 2 (tpl_bytes tid ss) @ flowset tid body" "length pkt < 65536" "body \<noteq> []"
    and loop: "\<And>tpl f. ready tpl ss \<Longrightarrow> list_ex is_var ss \<longrightarrow> te_len tpl = 0 \<Longrightarrow>
      data_records f (pkt @ stale) (4 + length body) (24 + length (tpl_bytes tid ss)) 4 tpl = Inl OutOfFuel"
    and f: "2 \<le> f"
  shows "process_v9_packet (Suc (Suc f)) (pkt @ stale) (length pkt) False agent 10 cache = Inl OutOfFuel"
  using packet_head [OF assms(1-7) f, of stale agent cache] loop by auto

text \<open>A template without fields, which in IPFIX withdraws a template, followed by a flowset of it.\<close>

lemma withdrawn_template_endless:
  assumes "256 \<le> unat tid" "length hdr = 12" "body \<noteq> []"
    "pkt = hdr @ bytes32 sid @ flowset 2 (tpl_bytes tid []) @ flowset tid body" "length pkt < 65536"
  shows "process_v9_packet (fuel + 4) (pkt @ stale) (length pkt) False agent 10 cache = Inl OutOfFuel"
proof -
  have "process_v9_packet (Suc (Suc (fuel + 2))) (pkt @ stale) (length pkt) False agent 10 cache = Inl OutOfFuel"
  proof (rule packet_needs_fuel [OF _ _ assms(1,2,4,5,3)])
    fix tpl f assume "ready tpl []"
    then show "data_records f (pkt @ stale) (4 + length body) (24 + length (tpl_bytes tid [])) 4 tpl = Inl OutOfFuel"
      by (intro empty_records_endless) (auto simp: ready_def usable_def)
  qed (simp_all add: fits_def)
  then show ?thesis by (simp add: numeral_eq_Suc)
qed

text \<open>A length of 65533 in three octets is 65536 with them, which is 0.\<close>

lemma wrapped_resolve:
  assumes u: "usable tpl [s]" and v: "is_var s" and fit: "fits [s]" and d: "drop p pkt = 255 # 255 # 253 # rest"
    and r: "3 \<le> remlen"
  shows "\<exists>tpl'. resolve_vlen_template pkt p remlen tpl = Inr (SUCCESS, tpl') \<and> usable tpl' [s] \<and> te_len tpl' = 0"
proof -
  obtain foff flen ftpl where sl: "slot tpl (loc [] s) = (foff, flen, ftpl)" by (cases "slot tpl (loc [] s)") auto
  have ft: "ftpl = IPFIX_VARIABLE_LENGTH" using usable_fieldD [OF u, of 0] v sl by (cases s) simp
  have il: "item_loc (te_list tpl 0) = Some (loc [] s)" using u by (auto simp: usable_def)
  have p: "p < length pkt" using d by (metis drop_all leI list.distinct(1))
  have o1: "peek pkt p = Inr 255" using d p by (metis hd_drop_conv_nth list.sel(1) peek_def)
  have "drop (p + 1) pkt = 255 # 253 # rest" using d by (metis drop_drop drop_Suc_Cons drop_0 One_nat_def add.commute)
  then have o2: "peek16 pkt (p + 1) = Inr 65533" by (simp add: peek16_def be16_def u16n_def)
  have g: "get_ipfix_vlen pkt p remlen flen = Inr (3, 65533)" using o1 o2 r by (simp add: get_ipfix_vlen_def)
  have f: "resolve_field pkt p remlen 0 False foff flen ftpl = Inr (SUCCESS, 3, 65533, 0, True)"
    by (simp add: resolve_field_def ft g u16n_def Let_def)
  have "usable (set_slot tpl (loc [] s) 3 65533) [s]" using usable_set_slot [OF u fit, of 0 65533 3] v by simp
  moreover have "resolve_vlen_template pkt p remlen tpl = Inr (SUCCESS, (set_slot tpl (loc [] s) 3 65533)\<lparr>te_len := 0\<rparr>)"
    using resolve_turn [OF il _ sl, of pkt p remlen 0 0 False] f usable_num [OF u]
    by (simp add: resolve_vlen_template_def TPL_LIST_ENTRIES_def SUCCESS_def ERR_def)
  ultimately show ?thesis by simp
qed

lemma wrapped_records_endless:
  assumes v: "is_var s" and fit: "fits [s]" and d: "drop p pkt = 255 # 255 # 253 # rest" and r: "flowoff + 3 \<le> flowsetlen"
  shows "usable tpl [s] \<Longrightarrow> unat (te_len tpl) \<le> 1 \<Longrightarrow> data_records fuel pkt flowsetlen p flowoff tpl = Inl OutOfFuel"
proof (induction fuel arbitrary: tpl)
  case (Suc fuel)
  have vl: "te_vlen tpl" using Suc.prems(1) v by (simp add: usable_def)
  obtain tpl' where t: "resolve_vlen_template pkt p (flowsetlen - flowoff) tpl = Inr (SUCCESS, tpl')" "usable tpl' [s]" "te_len tpl' = 0"
    using wrapped_resolve [OF Suc.prems(1) v fit d, of "flowsetlen - flowoff"] r by fastforce
  have vl': "te_vlen tpl'" using t(2) v by (simp add: usable_def)
  have "data_records fuel pkt flowsetlen p flowoff (tpl'\<lparr>te_len := 1\<rparr>) = Inl OutOfFuel"
    by (rule Suc.IH) (use t(2) in simp_all)
  then show ?case using t vl vl' r Suc.prems(2) by (simp add: bake_def SUCCESS_def ERR_def Let_def)
qed simp

lemma fits_single: "legacy_spec s \<or> fst s \<noteq> 0 \<Longrightarrow> fits [s]"
  by (auto simp: fits_def TPL_LIST_ENTRIES_def TPL_MAX_ELEM_REPEATS_def IES_PER_TPL_EXT_DB_ENTRY_def)

lemma length_wrap_endless:
  assumes "is_var s" "legacy_spec s \<or> fst s \<noteq> 0" "spec_ok 10 s" "256 \<le> unat tid" "length hdr = 12"
    "pkt = hdr @ bytes32 sid @ flowset 2 (tpl_bytes tid [s]) @ flowset tid (255 # 255 # 253 # rest)" "length pkt < 65536"
  shows "process_v9_packet (fuel + 4) (pkt @ stale) (length pkt) False agent 10 cache = Inl OutOfFuel"
proof -
  let ?b = "255 # 255 # 253 # rest"
  let ?pre = "hdr @ bytes32 sid @ flowset 2 (tpl_bytes tid [s]) @ bytes16 tid @ bytes16 (u16n (4 + length ?b))"
  have "pkt @ stale = ?pre @ 255 # 255 # 253 # (rest @ stale)" by (simp add: assms(6) flowset_def [of tid])
  moreover have "length ?pre = 24 + length (tpl_bytes tid [s])" by (simp add: assms(5) length_flowset)
  ultimately have d: "drop (24 + length (tpl_bytes tid [s])) (pkt @ stale) = 255 # 255 # 253 # (rest @ stale)"
    by (metis append_eq_conv_conj)
  have "process_v9_packet (Suc (Suc (fuel + 2))) (pkt @ stale) (length pkt) False agent 10 cache = Inl OutOfFuel"
  proof (rule packet_needs_fuel [OF fits_single [OF assms(2)] _ assms(4,5,6,7)])
    fix tpl f assume "ready tpl [s]"
    then show "data_records f (pkt @ stale) (4 + length ?b) (24 + length (tpl_bytes tid [s])) 4 tpl = Inl OutOfFuel"
      using assms(1) by (intro wrapped_records_endless [OF assms(1) fits_single [OF assms(2)] d]) (simp_all add: ready_def)
  qed (simp_all add: assms(3))
  then show ?thesis by (simp add: numeral_eq_Suc)
qed

section \<open>Templates that are cut\<close>

text \<open>A template that announces a field of which the packet has only one octet: three octets are read behind the
  packet. When the packet fills the buffer, they are behind the buffer.\<close>

definition cut_template :: "u8 list" where
  "cut_template = [0, 10, 0, 25, 0, 0, 0, 0, 0, 0, 0, 0, 0, 0, 0, 0, 0, 2, 0, 9, 1, 0, 0, 1, 0]"

lemma template_read_behind: "process_v9_packet 9 cut_template 25 False agent 10 Map.empty = Inl OutOfBounds"
proof -
  have rd: "peek16 cut_template 16 = Inr 2" "peek16 cut_template 18 = Inr 9" "peek16 cut_template 20 = Inr 256"
    "peek16 cut_template 22 = Inr 1" "peek16 cut_template 24 = Inl OutOfBounds" "peek32 cut_template 12 = Inr 0"
    by (simp_all add: cut_template_def peek16_def peek32_def be16_def be32_def u16n_def u32n_def)
  have "template_fields cut_template 20 5 (Suc 0) 0 4 0 (tpl_new a 10 0 256 0 1) = Inl OutOfBounds" for a
    by (simp add: rd tpl_new_def read_field_def TPL_LIST_ENTRIES_def)
  then have "compose_template cut_template 20 agent 0 10 5 = Inl OutOfBounds"
    by (simp add: compose_template_def rd NfTplHdrV9Sz_def)
  then have "handle_template_v2 cut_template 20 agent 2 0 5 Map.empty = Inl OutOfBounds"
    by (simp add: handle_template_v2_def rd find_template_v2_def Let_def)
  then have "template_flowset 8 cut_template 25 16 2 agent 0 9 20 4 Map.empty = Inl OutOfBounds"
    by (subst template_flowset.simps(2) [of 7, simplified]) (simp add: NfTplHdrV9Sz_def)
  then have "flowsets 9 cut_template 25 False agent 10 0 0 0 16 Map.empty = Inl OutOfBounds"
    by (subst flowsets.simps(2) [of 8, simplified]) (simp add: rd NfDataHdrV9Sz_def Let_def)
  then show ?thesis by (simp add: process_v9_packet_def IpFixHdrSz_def rd)
qed

section \<open>Fields that take the place of others\<close>

text \<open>The fourth field of a type takes the place of the third.\<close>

lemma fourth_repeat_overwrites:
  assumes "unat (of_count (te_fld tpl (unat t))) = 3"
  shows "item_loc (te_list (legacy_field opts t n idx tpl) idx) = Some (Fld (unat t), 2)"
  using assms by (simp add: legacy_field_def item_loc_def TPL_MAX_ELEM_REPEATS_def Let_def)

text \<open>An element of an enterprise with number 0 leaves its place free for the next of the chain.\<close>

lemma next_ie_free_again:
  "next_ie 0 ies i r0 = (Some k, r) \<Longrightarrow> uf_type ie = 0 \<Longrightarrow> \<exists>r'. next_ie t (ies[k - i := ie]) i r1 = (Some k, r')"
proof (induction ies arbitrary: i r0 r1)
  case (Cons a ies)
  show ?case
  proof (cases "uf_type a = 0")
    case True
    then show ?thesis using Cons.prems by auto
  next
    case False
    then have "next_ie 0 ies (Suc i) r0 = (Some k, r)" using Cons.prems(1) by simp
    moreover from next_ie_bound [OF this] have "k - i = Suc (k - Suc i)" by linarith
    ultimately show ?thesis using Cons.IH [of "Suc i" r0] Cons.prems(2) False by simp
  qed
qed simp

lemma element_zero_overwritten:
  assumes "ext_db_get_next_ie tpl 0 = (Some k, r)" "unat t mod TPL_EXT_DB_ENTRIES = 0"
  shows "\<exists>r'. ext_db_get_next_ie (ext_field 0 pen n idx tpl) t = (Some k, r')"
  using assms next_ie_free_again [of "te_ext_db tpl 0" 0 0 k r]
  by (auto simp: ext_field_def ext_db_get_next_ie_def Let_def)

text \<open>Padding of zeros behind records of a field of variable length is read as records.\<close>

lemma padding_is_record:
  assumes "is_var s"
  shows "recs_bytes [s] (rs @ [[(False, [])]]) = recs_bytes [s] rs @ [0]" "vals_ok [s] [(False, [])]"
  using assms by (simp_all add: recs_bytes_def enc_def vals_ok_def val_ok_def u8n_def)

section \<open>Templates of options\<close>

text \<open>More than 256 fields are written behind the end of the list.\<close>

lemma options_template_overflow:
  assumes "\<forall>s\<in>set ss. spec_ok (te_version tpl) s \<and> legacy_spec s" "TPL_LIST_ENTRIES < idx + length ss" "idx \<le> TPL_LIST_ENTRIES"
    "off + length (specs_bytes ss) \<le> len" "h + off = length xs"
  shows "opt_template_fields (xs @ specs_bytes ss @ ys) h len (length ss) idx off pens tpl = Inl OutOfBounds"
  using assms
proof (induction ss arbitrary: idx off pens tpl xs)
  case (Cons s ss)
  obtain t n p where s: "s = (t, n, p)" by (cases s) auto
  have leg: "is_legacy t p" using Cons.prems(1) by (simp add: s)
  have rd: "read_field (te_version tpl) (xs @ spec_bytes s @ specs_bytes ss @ ys) (h + off) = Inr s"
    by (rule read_field_bytes) (use Cons.prems in auto)
  have "0 < field_size p" by (simp add: field_size_def NfTplFieldV9Sz_def)
  then have guard: "off < len" using Cons.prems(4) by (simp add: s)
  show ?case
  proof (cases "idx = TPL_LIST_ENTRIES")
    case True
    then show ?thesis using rd guard leg by (simp add: s del: spec_bytes.simps)
  next
    case False
    have "opt_template_fields ((xs @ spec_bytes s) @ specs_bytes ss @ ys) h len (length ss) (Suc idx) (off + field_size p)
        (if p = None then pens else pens + 1) (add_field True idx s tpl) = Inl OutOfBounds"
      by (rule Cons.IH) (use Cons.prems False in \<open>simp_all add: s del: add_field.simps\<close>)
    then show ?thesis using rd guard leg False Cons.prems(3) by (simp add: s del: spec_bytes.simps split del: if_split)
  qed
qed simp

section \<open>Records whose rules are not looked at\<close>

text \<open>Without a count of octets a template is one of events, and the rules in its records are ignored, as they are
  in the records of other types than IPv4.\<close>

lemma event_template_type:
  assumes u: "usable tpl ss"
    and no: "\<not> list_ex (has_type ss) [NF9_IN_BYTES, NF9_OUT_BYTES, NF9_FLOW_BYTES, NF9_INITIATOR_OCTETS, NF9_RESPONDER_OCTETS,
      NF9_DATALINK_FRAME_SECTION, NF9_LAYER2_PKT_SECTION_DATA, NF9_LAYER2OCTETDELTACOUNT]"
  shows "NF_evaluate_flow_type pkt p tpl = Inr NF9_FTYPE_EVENT"
proof -
  have "event_flow tpl" using no by (simp add: event_flow_def usable_has_fld [OF u])
  moreover have "te_template_type tpl \<noteq> 1" using u by (simp add: usable_def data_template_def)
  ultimately show ?thesis by (simp add: NF_evaluate_flow_type_def NF9_FTYPE_EVENT_def NF9_FTYPE_NAT_EVENT_def)
qed

lemma event_rules_ignored:
  assumes "usable tpl ss"
    and "\<not> list_ex (has_type ss) [NF9_IN_BYTES, NF9_OUT_BYTES, NF9_FLOW_BYTES, NF9_INITIATOR_OCTETS, NF9_RESPONDER_OCTETS,
      NF9_DATALINK_FRAME_SECTION, NF9_LAYER2_PKT_SECTION_DATA, NF9_LAYER2OCTETDELTACOUNT]"
  shows "sav_flow ntop6 pkt p tpl st = Inr st"
  using event_template_type [OF assms, of pkt p] by (simp add: sav_flow_def NF9_FTYPE_EVENT_def PM_FTYPE_IPV4_def)

section \<open>Texts of rules\<close>

definition rule_2001_db8 :: sav_rule where
  "rule_2001_db8 = \<lparr>sr_interface_id = 1, sr_prefix = [0x20, 0x01, 0x0d, 0xb8] @ replicate 12 0, sr_prefix_len = 32, sr_validation_mode = 0\<rparr>"

text \<open>The prefix 2001:db8::/32 is printed as an IPv4 prefix, and 0.0.0.0/0 as an IPv6 prefix.\<close>

lemma ipv6_rule_as_ipv4: "sav_prefix_text ntop6 rule_2001_db8 = ''184.13.1.32/32''"
  by (simp add: sav_prefix_text_def rule_2001_db8_def ipv4_0_def ntop4_def inet_ntoa_def be32_def u32n_def bytes32_def u8n_def dec_eval)

lemma default_rule_as_ipv6: "ipv4_0 r = 0 \<Longrightarrow> sav_prefix_text ntop6 r = ntop6 (sr_prefix r) @ ''/'' @ dec (unat (sr_prefix_len r))"
  by (simp add: sav_prefix_text_def)

text \<open>A record of a packet that has no rules is printed with the rules of an earlier packet.\<close>

lemma stale_rules_printed:
  "sv_rules v = None \<Longrightarrow> rules \<noteq> [] \<Longrightarrow>
    compose_json_sav_fields ntop6 (Some v) (sav_vars_of mode rules) = Some (sav_json_of ntop6 mode rules)"
  by (simp add: compose_json_sav_fields_def sav_vars_of_def Let_def)

end
