(* ===== verification/CollectorFacts.thy ===== *)
theory CollectorFacts
  imports SavCollector SavFacts NfSafe
begin

text \<open>
  The collector of rules over TCP: that it reads a list of rules as the parser of nfacctd does, what it prints
  of a stream of messages however the stream is cut, and that it stays in its buffer on any stream.
\<close>

section \<open>The same rules in both collectors\<close>

fun rules_text :: "bool \<Rightarrow> sav_rule list \<Rightarrow> string" where
  "rules_text first [] = []"
| "rules_text first (r # rs) =
     (if first then [] else '','' @ newline) @ rule_901_text (sr_interface_id r) (ipv4_0 r) (sr_prefix_len r) @ rules_text False rs"

definition printed :: "sav_rule list \<Rightarrow> collector \<Rightarrow> collector" where
  "printed rs st = st\<lparr>co_output := co_output st @ rules_text (co_first st) rs, co_first := co_first st \<and> rs = [],
     co_decoded := co_decoded st + word_of_nat (length rs)\<rparr>"

lemma rules_text_append: "rules_text first (rs @ rs') = rules_text first rs @ rules_text (first \<and> rs = []) rs'"
  by (induction rs arbitrary: first) simp_all

lemma printed_append: "printed rs' (printed rs st) = printed (rs @ rs') st"
  by (simp add: printed_def rules_text_append ac_simps)

lemma printed_Nil: "printed [] st = st"
  by (simp add: printed_def)

lemma ipv4_0_set: "ipv4_0 (set_ipv4_0 w sav_rule_zero) = w"
  by (simp add: ipv4_0_def set_ipv4_0_def sav_rule_zero_def bytes32_def be32_bytes)

lemma peek_runs: "i < length s \<Longrightarrow> \<exists>b. peek s i = Inr b" "i + 2 \<le> length s \<Longrightarrow> \<exists>w. peek16 s i = Inr w"
    "i + 4 \<le> length s \<Longrightarrow> \<exists>w. peek32 s i = Inr w"
  using rd32_Some_iff [of "drop i s"] by (auto simp: peek_def peek16_nth peek32_def)

lemma stl_records_rules:
  assumes "p + stl_len \<le> length pkt"
  shows "pos \<le> stl_len \<Longrightarrow> n = (stl_len - pos) div 9 \<Longrightarrow>
    \<exists>rules. parse_sav_rules pkt (p + pos) SAV_TPL_IPV4_IF2PREFIX mode n = Inr (Some rules) \<and> length rules = n \<and>
      stl_records pkt p stl_len True 9 pos k st = Inr (k + n, printed rules st)"
proof (induction n arbitrary: pos k st)
  case 0
  then show ?case by (subst stl_records.simps) (auto simp: printed_Nil)
next
  case (Suc n)
  have le: "pos + 9 \<le> stl_len" using Suc.prems(2) by linarith
  have n: "n = (stl_len - (pos + 9)) div 9" using Suc.prems(2) le_div_geq [of 9 "stl_len - pos"] le by simp
  obtain ifid a plen where rd: "peek32 pkt (p + pos) = Inr ifid" "peek32 pkt (p + pos + 4) = Inr a" "peek pkt (p + pos + 8) = Inr plen"
    using peek_runs [of "p + pos + 8" pkt] peek_runs(3) [of "p + pos" pkt] peek_runs(3) [of "p + pos + 4" pkt] assms le by auto
  let ?r = "(set_ipv4_0 a sav_rule_zero)\<lparr>sr_interface_id := ifid, sr_prefix_len := plen, sr_validation_mode := mode\<rparr>"
  have r: "parse_sav_rule pkt (p + pos) SAV_TPL_IPV4_IF2PREFIX = Inr (9, ?r\<lparr>sr_validation_mode := 0\<rparr>)"
    using rd by (simp add: parse_sav_rule_def set_ipv4_0_def sav_rule_zero_def)
  have i: "ipv4_0 ?r = a" using ipv4_0_set [of a] by (simp add: ipv4_0_def)
  have o: "output_rule_901 pkt (p + pos) st = Inr (printed [?r] st)"
    using rd i by (simp add: output_rule_901_def printed_def)
  obtain rules where IH: "parse_sav_rules pkt (p + (pos + 9)) SAV_TPL_IPV4_IF2PREFIX mode n = Inr (Some rules)" "length rules = n"
      "stl_records pkt p stl_len True 9 (pos + 9) (k + 1) (printed [?r] st) = Inr (k + 1 + n, printed rules (printed [?r] st))"
    using Suc.IH [OF le n] by blast
  show ?case
    using IH r o le by (intro exI [of _ "?r # rules"] conjI, simp_all add: printed_append ac_simps, subst stl_records.simps, simp add: ac_simps)
qed

lemma rules_agree:
  assumes "p + len \<le> length pkt" "3 \<le> len" "peek16 pkt (p + 1) = Inr TMPL_SAV_901"
  shows "\<exists>rules. length rules = (len - 3) div 9 \<and>
    parse_sav_sub_template_list pkt p len mode =
      Inr (0, if rules = [] then None else Some rules, length rules, if rules = [] then None else Some SAV_TPL_IPV4_IF2PREFIX) \<and>
    parse_subtemplatelist pkt p len st = Inr (int (length rules), printed rules st)"
proof -
  let ?n = "(len - 3) div 9"
  obtain semantic where s: "peek pkt p = Inr semantic" using peek_runs(1) [of p pkt] assms by auto
  obtain rules where r: "parse_sav_rules pkt (p + 3) SAV_TPL_IPV4_IF2PREFIX mode ?n = Inr (Some rules)" "length rules = ?n"
      "stl_records pkt p len True 9 3 0 st = Inr (0 + ?n, printed rules st)"
    using stl_records_rules [OF assms(1,2) refl, of mode 0 st] by blast
  have "sav_record_size SAV_TPL_IPV4_IF2PREFIX = Some 9" by (simp add: sav_record_size_def)
  moreover have "rules = [] \<longleftrightarrow> ?n = 0" using r(2) by (metis length_0_conv)
  ultimately show ?thesis
    using assms s r by (intro exI [of _ rules])
      (auto simp: parse_sav_sub_template_list_def parse_subtemplatelist_def TMPL_SAV_901_def sav_tpl_consts Let_def)
qed

section \<open>What is printed of a stream\<close>

text \<open>The list of a record: of sub-templates 901, with less than a rule behind the rules, or any other octets: too
  few, or of another sub-template. Then the records of template 256, the types of rule and target, the list and
  the action; the sets, those of such records, with less than a record behind them, those of templates, of any
  octets, and others; and the messages, their sets with less than a set behind them.\<close>

datatype sub_list = Rules901 u8 "sav_rule list" "u8 list" | OtherList "u8 list"

type_synonym main_record = "u8 \<times> u8 \<times> sub_list \<times> u8"

datatype data_set = RuleSet "main_record list" "u8 list" | TemplateSet "u8 list" | OtherSet u16 "u8 list"

type_synonym sav_message = "u8 list \<times> data_set list \<times> u8 list"

fun list_bytes :: "sub_list \<Rightarrow> u8 list" where
  "list_bytes (Rules901 semantic rules rest) = stl_bytes semantic SAV_TPL_IPV4_IF2PREFIX rules rest"
| "list_bytes (OtherList bs) = bs"

fun list_rules :: "sub_list \<Rightarrow> sav_rule list" where
  "list_rules (Rules901 semantic rules rest) = rules"
| "list_rules (OtherList bs) = []"

fun list_ok :: "sub_list \<Rightarrow> bool" where
  "list_ok (Rules901 semantic rules rest) \<longleftrightarrow> (\<forall>x\<in>set rules. sav_rule_ok SAV_TPL_IPV4_IF2PREFIX 0 x) \<and> length rest < 9"
| "list_ok (OtherList bs) \<longleftrightarrow> rd16 (drop 1 bs) \<noteq> Some TMPL_SAV_901"

fun main_bytes :: "main_record \<Rightarrow> u8 list" where
  "main_bytes (rule_type, target_type, stl, action) =
     rule_type # target_type # bytes16 (u16n (length (list_bytes stl))) @ list_bytes stl @ [action]"

definition main_rules :: "main_record \<Rightarrow> sav_rule list" where
  "main_rules r = list_rules (fst (snd (snd r)))"

definition main_ok :: "main_record \<Rightarrow> bool" where
  "main_ok r \<longleftrightarrow> list_ok (fst (snd (snd r)))"

fun set_body :: "data_set \<Rightarrow> u8 list" where
  "set_body (RuleSet rs tail) = concat (map main_bytes rs) @ tail"
| "set_body (TemplateSet bs) = bs"
| "set_body (OtherSet sid bs) = bs"

fun data_set_id :: "data_set \<Rightarrow> u16" where
  "data_set_id (RuleSet rs tail) = TMPL_SAV_MAIN"
| "data_set_id (TemplateSet bs) = IPFIX_SET_ID_TEMPLATE"
| "data_set_id (OtherSet sid bs) = sid"

fun set_rules :: "data_set \<Rightarrow> sav_rule list" where
  "set_rules (RuleSet rs tail) = concat (map main_rules rs)"
| "set_rules _ = []"

fun data_set_ok :: "data_set \<Rightarrow> bool" where
  "data_set_ok (RuleSet rs tail) \<longleftrightarrow> (\<forall>r\<in>set rs. main_ok r) \<and> length tail < 4"
| "data_set_ok (TemplateSet bs) \<longleftrightarrow> True"
| "data_set_ok (OtherSet sid bs) \<longleftrightarrow> sid \<noteq> TMPL_SAV_MAIN \<and> sid \<noteq> IPFIX_SET_ID_TEMPLATE"

definition set_bytes :: "data_set \<Rightarrow> u8 list" where
  "set_bytes s = bytes16 (data_set_id s) @ bytes16 (u16n (4 + length (set_body s))) @ set_body s"

fun message_bytes :: "sav_message \<Rightarrow> u8 list" where
  "message_bytes (hdr, sets, tail) =
     bytes16 IPFIX_VERSION @ bytes16 (u16n (16 + length (concat (map set_bytes sets) @ tail))) @ hdr @ concat (map set_bytes sets) @ tail"

definition message_rules :: "sav_message \<Rightarrow> sav_rule list" where
  "message_rules m = concat (map set_rules (fst (snd m)))"

text \<open>A template set may make the collector read two octets behind the message, which has to leave them free.\<close>

definition message_ok :: "sav_message \<Rightarrow> bool" where
  "message_ok m \<longleftrightarrow> length (fst m) = 12 \<and> (\<forall>s\<in>set (fst (snd m)). data_set_ok s) \<and> length (snd (snd m)) < 4 \<and>
     length (message_bytes m) < (if IPFIX_SET_ID_TEMPLATE \<in> data_set_id ` set (fst (snd m)) then 65534 else 65536)"

text \<open>The rules are printed; what is kept of templates does not matter.\<close>

definition prints :: "sav_rule list \<Rightarrow> collector \<Rightarrow> collector \<Rightarrow> bool" where
  "prints rs st st' \<longleftrightarrow> (\<exists>ts. st' = (printed rs st)\<lparr>co_templates := ts\<rparr>)"

lemma prints_printed: "prints rs st (printed rs st)"
  unfolding prints_def by (rule exI [of _ "co_templates (printed rs st)"]) simp

lemma prints_Nil: "prints [] st st"
  using prints_printed [of "[]" st] by (simp add: printed_Nil)

lemma prints_append: "prints rs st st1 \<Longrightarrow> prints rs' st1 st2 \<Longrightarrow> prints (rs @ rs') st st2"
  by (auto simp: prints_def printed_def rules_text_append ac_simps)

lemma prints_templates: "prints [] st (st\<lparr>co_templates := ts\<rparr>)"
  by (auto simp: prints_def printed_Nil)

lemma stl_records_counted: "\<exists>k. stl_records msg p stl_len False rec pos n st = Inr (k, st)"
proof (induction "stl_len - pos" arbitrary: pos n rule: less_induct)
  case less
  show ?case
  proof (cases "0 < rec \<and> pos + rec \<le> stl_len")
    case True
    then have "\<exists>k. stl_records msg p stl_len False rec (pos + rec) (n + 1) st = Inr (k, st)" by (intro less.hyps) linarith
    with True show ?thesis by (subst stl_records.simps) simp
  qed (subst stl_records.simps, auto)
qed

lemma subtemplatelist_printed:
  assumes ok: "list_ok l" and p: "p = length xs"
  shows "\<exists>k. parse_subtemplatelist (xs @ list_bytes l @ ys) p (length (list_bytes l)) st = Inr (k, printed (list_rules l) st)"
proof (cases l)
  case (Rules901 semantic rules rest)
  let ?b = "stl_bytes semantic SAV_TPL_IPV4_IF2PREFIX rules rest" let ?pkt = "xs @ ?b @ ys"
  have ok: "\<forall>x\<in>set rules. sav_rule_ok SAV_TPL_IPV4_IF2PREFIX 0 x" "length rest < 9" using ok Rules901 by simp_all
  have v4: "rule_size SAV_TPL_IPV4_IF2PREFIX = 9" by (simp add: rule_size_def v4_tpl_def)
  have len: "length ?b = 3 + length rules * 9 + length rest" using length_rules_bytes [OF ok(1)] by (simp add: stl_bytes_def v4)
  have "peek16 ((xs @ [semantic]) @ bytes16 (u16n SAV_TPL_IPV4_IF2PREFIX) @
      concat (map (sav_rule_bytes SAV_TPL_IPV4_IF2PREFIX) rules) @ rest @ ys) (p + 1) = Inr (u16n SAV_TPL_IPV4_IF2PREFIX)"
    by (rule peek16_app) (simp add: p)
  then have "peek16 ?pkt (p + 1) = Inr TMPL_SAV_901" by (simp add: stl_bytes_def SAV_TPL_IPV4_IF2PREFIX_def TMPL_SAV_901_def u16n_def)
  moreover have "p + length ?b \<le> length ?pkt" "3 \<le> length ?b" by (simp_all add: p len)
  ultimately obtain rules' where r: "length rules' = (length ?b - 3) div 9"
      "parse_sav_sub_template_list ?pkt p (length ?b) 0 = Inr (0, if rules' = [] then None else Some rules', length rules', if rules' = [] then None else Some SAV_TPL_IPV4_IF2PREFIX)"
      "parse_subtemplatelist ?pkt p (length ?b) st = Inr (int (length rules'), printed rules' st)"
    using rules_agree by blast
  have "rules' = rules"
  proof (cases "rules = []")
    case False
    have "sav_tpl SAV_TPL_IPV4_IF2PREFIX" by (simp add: sav_tpl_def sav_tpl_consts)
    from parse_stl_bytes [OF this ok(1) False _ p, of rest semantic ys] r(2) ok(2) show ?thesis by (auto simp: v4 split: if_splits)
  qed (use r(1) len ok(2) in simp)
  then show ?thesis using r(3) Rules901 by simp
next
  case (OtherList bs)
  show ?thesis
  proof (cases "length bs < 3")
    case False
    then obtain a b c bs' where bs: "bs = a # b # c # bs'" by (metis Suc_le_length_iff numeral_3_eq_3 not_less)
    have "peek16 ((xs @ [a]) @ b # c # bs' @ ys) (length (xs @ [a])) = Inr (be16 b c)"
      by (simp only: peek16_def append_eq_conv_conj drop_append) simp
    then have rd: "peek (xs @ bs @ ys) p = Inr a" "peek16 (xs @ bs @ ys) (p + 1) = Inr (be16 b c)" "be16 b c \<noteq> TMPL_SAV_901"
      using ok peek_app [OF p, of a] by (simp_all add: p bs OtherList)
    then show ?thesis
      using stl_records_counted [of "xs @ bs @ ys" p "length bs" 21 3 0 st] False
      by (auto simp: parse_subtemplatelist_def OtherList printed_Nil)
  qed (simp add: parse_subtemplatelist_def OtherList printed_Nil)
qed

text \<open>Reading a set of templates stays in the buffer, with two octets behind the set.\<close>

lemma skip_fields_inside: "p + set_len + 3 \<le> length msg \<Longrightarrow> outcome {} (\<lambda>_. True) (skip_fields msg p set_len n pos)"
proof (induction n arbitrary: pos)
  case (Suc n)
  then show ?case by (auto intro!: outcome_bind [OF outcome_peek16])
qed simp

lemma template_set_inside: "p + set_len + 3 \<le> length msg \<Longrightarrow> outcome {} (\<lambda>_. True) (template_set msg p set_len pos st)"
proof (induction "set_len - pos" arbitrary: pos st rule: less_induct)
  case less
  show ?case
  proof (cases "pos + 4 \<le> set_len")
    case True
    have rd: "outcome {} (\<lambda>_. True) (peek16 msg (p + pos))" "outcome {} (\<lambda>_. True) (peek16 msg (p + pos + 2))"
      using less.prems True by (auto intro!: outcome_peek16)
    have sk: "outcome {} (\<lambda>q. pos + 4 \<le> q) (skip_fields msg p set_len n (pos + 4))" for n
      using skip_fields_inside [OF less.prems, of n "pos + 4"] by (cases "skip_fields msg p set_len n (pos + 4)") (auto dest: skip_fields_mono)
    have next_t: "outcome {} (\<lambda>_. True) (template_set msg p set_len q st')" if "pos + 4 \<le> q" for q st'
      by (rule less.hyps) (use that True less.prems in auto)
    show ?thesis
      unfolding template_set.simps [of msg p set_len pos] if_P [OF True]
      by (rule outcome_bind [OF rd(1)], rule outcome_bind [OF rd(2)], rule outcome_bind [OF sk], rule next_t)
  qed (subst template_set.simps, simp)
qed

lemma main_records_printed:
  assumes "\<forall>r\<in>set rs. length (main_bytes r) < 65536 \<and> main_ok r" "length tail < 4"
    and "p + pos = length xs" "set_len = pos + length (concat (map main_bytes rs)) + length tail"
  shows "sav_main_records (xs @ concat (map main_bytes rs) @ ys) p set_len pos st = Inr (printed (concat (map main_rules rs)) st)"
  using assms(1,3,4)
proof (induction rs arbitrary: pos xs st)
  case Nil
  then show ?case using assms(2) by (subst sav_main_records.simps) (simp add: printed_Nil)
next
  case (Cons r rs)
  obtain rt tt l act where r: "r = (rt, tt, l, act)" by (cases r) auto
  let ?stl = "list_bytes l" let ?more = "concat (map main_bytes rs) @ ys"
  let ?w = "u16n (length ?stl)"
  let ?msg = "xs @ rt # tt # bytes16 ?w @ ?stl @ act # ?more"
  have rest: "sav_main_records ((xs @ main_bytes r) @ concat (map main_bytes rs) @ ys) p set_len (pos + length (main_bytes r)) st' =
      Inr (printed (concat (map main_rules rs)) st')" for st'
    by (rule Cons.IH) (use Cons.prems in auto)
  have b: "main_bytes r = rt # tt # bytes16 ?w @ ?stl @ [act]" by (simp add: r)
  have msg: "xs @ concat (map main_bytes (r # rs)) @ ys = ?msg" "(xs @ main_bytes r) @ concat (map main_bytes rs) @ ys = ?msg" by (simp_all add: b)
  have small: "unat ?w = length ?stl" using Cons.prems(1) by (simp add: b)
  have l: "length (main_bytes r) = 4 + length ?stl + 1" by (simp add: b)
  have "peek16 ((xs @ [rt, tt]) @ bytes16 ?w @ ?stl @ act # ?more) (p + pos + 2) = Inr ?w"
    by (rule peek16_app) (simp add: Cons.prems(2))
  then have rd: "peek16 ?msg (p + pos + 2) = Inr ?w" "peek ?msg (p + pos) = Inr rt" "peek ?msg (p + pos + 1) = Inr tt"
    using peek_app [OF Cons.prems(2), of rt] peek_app [of "p + pos + 1" "xs @ [rt]" tt] Cons.prems(2) by simp_all
  have ok: "list_ok l" using Cons.prems(1) by (simp add: r main_ok_def)
  have "p + pos + 4 = length (xs @ rt # tt # bytes16 ?w)" using Cons.prems(2) by simp
  from subtemplatelist_printed [OF ok this, of "act # ?more" st] obtain k
    where stl: "parse_subtemplatelist ?msg (p + pos + 4) (length ?stl) st = Inr (k, printed (list_rules l) st)" by auto
  have len: "pos + 4 + length ?stl + 1 \<le> set_len" using Cons.prems(3) l by simp
  have mr: "main_rules r = list_rules l" by (simp add: r main_rules_def)
  have empty: "printed (list_rules l) st = st" if "\<not> 0 < ?w"
  proof -
    have "?stl = []" using that small by (metis length_0_conv unat_0 word_gt_0)
    then show ?thesis by (cases l) (simp_all add: stl_bytes_def printed_Nil)
  qed
  have "sav_main_records ?msg p set_len pos st = sav_main_records ?msg p set_len (pos + 4 + length ?stl + 1) (printed (list_rules l) st)"
    by (subst sav_main_records.simps) (use rd stl len small empty in \<open>cases "0 < ?w"; simp del: unat_u16n\<close>)
  then show ?case using rest [of "printed (list_rules l) st"] l
    unfolding msg by (simp add: printed_append mr ac_simps del: main_bytes.simps)
qed

lemma template_set_templates: "template_set msg p n pos st = Inr st' \<Longrightarrow> \<exists>ts. st' = st\<lparr>co_templates := ts\<rparr>"
proof (induction "n - pos" arbitrary: pos st rule: less_induct)
  case less
  show ?case
  proof (cases "pos + 4 \<le> n")
    case True
    from less.prems True obtain tid fc q where q: "skip_fields msg p n (unat (fc :: u16)) (pos + 4) = Inr q"
        "template_set msg p n q (store_template tid fc st) = Inr st'"
      by (subst (asm) template_set.simps) (auto simp: fault_simps)
    have "n - q < n - pos" using skip_fields_mono [OF q(1)] True by linarith
    from less.hyps [OF this q(2)] show ?thesis by (auto simp: store_template_def split: if_splits)
  next
    case False
    then have "st' = st\<lparr>co_templates := co_templates st\<rparr>" using less.prems by (subst (asm) template_set.simps) simp
    then show ?thesis by blast
  qed
qed

lemma set_printed:
  assumes ok: "data_set_ok s" and p: "p = length xs" and len: "length (set_bytes s) \<le> data_len" "length (set_bytes s) < 65536"
    and room: "data_set_id s = IPFIX_SET_ID_TEMPLATE \<longrightarrow> length xs + length (set_bytes s) + 3 \<le> length (xs @ set_bytes s @ ys)"
  shows "\<exists>st'. parse_set (xs @ set_bytes s @ ys) p data_len st = Inr (Some (length (set_bytes s)), st') \<and> prints (set_rules s) st st'"
proof -
  let ?n = "4 + length (set_body s)" let ?pkt = "xs @ set_bytes s @ ys"
  have n: "length (set_bytes s) = ?n" by (simp add: set_bytes_def)
  have "peek16 (xs @ bytes16 (data_set_id s) @ bytes16 (u16n ?n) @ set_body s @ ys) p = Inr (data_set_id s)"
    "peek16 ((xs @ bytes16 (data_set_id s)) @ bytes16 (u16n ?n) @ set_body s @ ys) (p + 2) = Inr (u16n ?n)"
    by (rule peek16_app; simp add: p)+
  then have rd: "peek16 ?pkt p = Inr (data_set_id s)" "peek16 ?pkt (p + 2) = Inr (u16n ?n)" by (simp_all add: set_bytes_def)
  have u: "unat (u16n ?n) = ?n" using len(2) n by simp
  obtain st' where st': "(if data_set_id s = IPFIX_SET_ID_TEMPLATE then parse_template_set ?pkt p ?n st
      else if data_set_id s = TMPL_SAV_MAIN then parse_data_set_256 ?pkt p ?n st else Inr st) = Inr st'" "prints (set_rules s) st st'"
  proof (cases s)
    case (RuleSet rs tail)
    have "length (main_bytes r) \<le> length (concat (map main_bytes rs))" if "r \<in> set rs" for r using that by (induction rs) auto
    then have rok: "\<forall>r\<in>set rs. length (main_bytes r) < 65536 \<and> main_ok r" "length tail < 4"
      using ok len(2) n RuleSet by fastforce+
    have "sav_main_records ((xs @ bytes16 (data_set_id s) @ bytes16 (u16n ?n)) @ concat (map main_bytes rs) @ tail @ ys) p ?n 4 st =
        Inr (printed (concat (map main_rules rs)) st)"
      by (rule main_records_printed [OF rok]) (simp_all add: p RuleSet)
    then have "parse_data_set_256 ?pkt p ?n st = Inr (printed (set_rules s) st)"
      by (simp add: parse_data_set_256_def set_bytes_def RuleSet)
    then show ?thesis using that [of "printed (set_rules s) st"] prints_printed RuleSet
      by (auto simp: TMPL_SAV_MAIN_def IPFIX_SET_ID_TEMPLATE_def)
  next
    case (TemplateSet bs)
    have "p + ?n + 3 \<le> length ?pkt" using room n TemplateSet p by simp
    then have "outcome {} (\<lambda>_. True) (parse_template_set ?pkt p ?n st)"
      unfolding parse_template_set_def by (rule template_set_inside)
    then obtain st1 where st1: "parse_template_set ?pkt p ?n st = Inr st1" by (cases "parse_template_set ?pkt p ?n st") auto
    obtain ts where "st1 = st\<lparr>co_templates := ts\<rparr>" using template_set_templates st1 unfolding parse_template_set_def by blast
    then show ?thesis using that [of st1] st1 prints_templates TemplateSet by simp
  next
    case (OtherSet sid bs)
    then show ?thesis using that [of st] prints_Nil ok by simp
  qed
  have "\<not> data_len < 4" "\<not> (?n < 4 \<or> data_len < ?n)" using len(1) n by linarith+
  then have "parse_set ?pkt p data_len st = Inr (Some ?n, st')"
    unfolding parse_set_def rd fbind.simps Let_def u st'(1) by simp
  then show ?thesis using st'(2) n by auto
qed

lemma sets_printed:
  assumes "\<forall>s\<in>set sets. data_set_ok s" "length tail < 4" "msg_len < 65536"
    and "pos = length xs" "msg_len = pos + length (concat (map set_bytes sets) @ tail)"
    and "IPFIX_SET_ID_TEMPLATE \<in> data_set_id ` set sets \<longrightarrow> msg_len + 3 \<le> length (xs @ concat (map set_bytes sets) @ tail @ ys)"
  shows "\<exists>st'. message_sets (xs @ concat (map set_bytes sets) @ tail @ ys) msg_len pos st = Inr st' \<and>
    prints (concat (map set_rules sets)) st st'"
  using assms
proof (induction sets arbitrary: pos xs st)
  case Nil
  then show ?case using prints_Nil by (subst message_sets.simps) auto
next
  case (Cons s sets)
  let ?more = "concat (map set_bytes sets) @ tail @ ys"
  have n: "4 \<le> length (set_bytes s)" by (simp add: set_bytes_def)
  obtain st1 where st1: "parse_set (xs @ set_bytes s @ ?more) pos (msg_len - pos) st = Inr (Some (length (set_bytes s)), st1)"
      "prints (set_rules s) st st1"
    using set_printed [of s pos xs "msg_len - pos" ?more st] Cons.prems by auto
  obtain st2 where st2: "message_sets ((xs @ set_bytes s) @ ?more) msg_len (pos + length (set_bytes s)) st1 = Inr st2"
      "prints (concat (map set_rules sets)) st1 st2"
    using Cons.IH [of "pos + length (set_bytes s)" "xs @ set_bytes s" st1] Cons.prems by auto
  have go: "pos + 4 \<le> msg_len" using Cons.prems(5) n by simp
  have "message_sets (xs @ set_bytes s @ ?more) msg_len pos st = Inr st2"
    unfolding message_sets.simps [of _ msg_len pos] if_P [OF go] st1(1) using st2(1) by simp
  then show ?case using prints_append [OF st1(2) st2(2)] by auto
qed

lemma message_read:
  assumes ok: "message_ok m" and stale: "length (message_bytes m @ stale) = 65536"
  shows "\<exists>st'. process_message (message_bytes m @ stale) st = Inr (0, st') \<and> prints (message_rules m) st st'"
    "peek16 (message_bytes m @ stale) 2 = Inr (u16n (length (message_bytes m)))"
proof -
  obtain hdr sets tail where m: "m = (hdr, sets, tail)" by (cases m) auto
  let ?b = "concat (map set_bytes sets)" let ?n = "16 + length (?b @ tail)" let ?msg = "message_bytes m @ stale"
  have hdr: "length hdr = 12" "length tail < 4" "\<forall>s\<in>set sets. data_set_ok s" using ok by (simp_all add: message_ok_def m)
  have len: "length (message_bytes m) = ?n" by (simp add: m hdr)
  have small: "?n < (if IPFIX_SET_ID_TEMPLATE \<in> data_set_id ` set sets then 65534 else 65536)"
    using ok len by (simp add: message_ok_def m)
  then have n: "?n < 65536" by (simp split: if_splits)
  let ?h = "bytes16 IPFIX_VERSION @ bytes16 (u16n ?n) @ hdr"
  have mb: "?msg = ?h @ ?b @ tail @ stale" by (simp add: m)
  have "peek16 ([] @ bytes16 IPFIX_VERSION @ bytes16 (u16n ?n) @ hdr @ ?b @ tail @ stale) 0 = Inr IPFIX_VERSION"
    "peek16 (bytes16 IPFIX_VERSION @ bytes16 (u16n ?n) @ hdr @ ?b @ tail @ stale) 2 = Inr (u16n ?n)"
    by (rule peek16_app; simp)+
  then have rd: "peek16 ?msg 0 = Inr IPFIX_VERSION" "peek16 ?msg 2 = Inr (u16n ?n)" by (simp_all add: mb)
  then show "peek16 ?msg 2 = Inr (u16n (length (message_bytes m)))" by (simp add: len)
  have "\<exists>st'. message_sets (?h @ ?b @ tail @ stale) ?n 16 st = Inr st' \<and> prints (concat (map set_rules sets)) st st'"
    by (rule sets_printed [OF hdr(3,2) n]) (use small stale [unfolded mb] hdr(1) in \<open>auto split: if_splits\<close>)
  then obtain st' where st': "message_sets ?msg ?n 16 st = Inr st'" "prints (concat (map set_rules sets)) st st'"
    unfolding mb by blast
  have "unat (u16n ?n) = ?n" using n by simp
  then have "process_message ?msg st = Inr (0, st')"
    unfolding process_message_def parse_ipfix_header_def using rd st'(1) by (simp del: unat_u16n)
  then show "\<exists>st'. process_message ?msg st = Inr (0, st') \<and> prints (message_rules m) st st'"
    using st'(2) by (simp add: message_rules_def m)
qed

section \<open>Reading a stream\<close>

lemma recv_some_split:
  assumes "recv_some ss n = (got, ss')" "0 < n" "[] \<notin> set ss" "concat ss \<noteq> []"
  shows "got \<noteq> []" "length got \<le> n" "concat ss = got @ concat ss'" "[] \<notin> set ss'"
  using assms by (cases ss; force split: if_splits)+

lemma read_exact_reads:
  "concat ss = xs @ ys \<Longrightarrow> length xs = len \<Longrightarrow> [] \<notin> set ss \<Longrightarrow> at + len \<le> length buf \<Longrightarrow>
    \<exists>ss'. read_exact buf at len ss = (True, take at buf @ xs @ drop (at + len) buf, ss') \<and> concat ss' = ys \<and> [] \<notin> set ss'"
proof (induction len arbitrary: buf at ss xs rule: less_induct)
  case (less len)
  show ?case
  proof (cases "len = 0")
    case True
    then show ?thesis using less.prems by (subst read_exact.simps) simp
  next
    case False
    obtain got ss' where g: "recv_some ss len = (got, ss')" by (cases "recv_some ss len") auto
    have "concat ss \<noteq> []" using less.prems(1,2) False by auto
    note sp = recv_some_split [OF g _ less.prems(3) this]
    have "got @ concat ss' = xs @ ys" "length got \<le> length xs" using sp False less.prems(1,2) by auto
    then obtain zs where z: "xs = got @ zs" "concat ss' = zs @ ys" by (auto simp: append_eq_append_conv2)
    let ?buf = "take at buf @ got @ drop (at + length got) buf"
    have g0: "got \<noteq> []" using sp(1) False by simp
    then have c: "len - length got < len" "length zs = len - length got"
      "at + length got + (len - length got) \<le> length ?buf"
      using z(1) less.prems(2,4) False by auto
    have "[] \<notin> set ss'" using sp(4) False by simp
    from less.IH [OF c(1) z(2) c(2) this c(3)] obtain ss'' where r:
      "read_exact ?buf (at + length got) (len - length got) ss' =
        (True, take (at + length got) ?buf @ zs @ drop (at + length got + (len - length got)) ?buf, ss'')"
      "concat ss'' = ys" "[] \<notin> set ss''" by blast
    have "take (at + length got) ?buf @ zs @ drop (at + length got + (len - length got)) ?buf = take at buf @ xs @ drop (at + len) buf"
      using z(1) less.prems(2,4) by (simp add: add.commute)
    then show ?thesis using r g g0 False by (subst read_exact.simps) simp
  qed
qed

lemma read_exact_end: "concat ss = [] \<Longrightarrow> [] \<notin> set ss \<Longrightarrow> 0 < len \<Longrightarrow> read_exact buf at len ss = (False, buf, [])"
  by (cases ss) (auto simp: read_exact.simps)

text \<open>The messages of a stream are read one after another, however it is cut.\<close>

lemma client_messages_printed:
  "\<forall>m\<in>set ms. message_ok m \<Longrightarrow> concat ss = concat (map message_bytes ms) \<Longrightarrow> [] \<notin> set ss \<Longrightarrow>
    length buf = MAX_MSG_SIZE \<Longrightarrow> length ms < fuel \<Longrightarrow>
    \<exists>st'. client_messages fuel buf ss st = Inr st' \<and> prints (concat (map message_rules ms)) st st'"
proof (induction ms arbitrary: fuel buf ss st)
  case Nil
  then show ?case using prints_Nil by (cases fuel) (auto simp: read_exact_end)
next
  case (Cons m ms)
  obtain f where f: "fuel = Suc f" "length ms < f" using Cons.prems(5) by (cases fuel) auto
  let ?m = "message_bytes m" let ?n = "length ?m" let ?more = "concat (map message_bytes ms)"
  have ok: "message_ok m" using Cons.prems(1) by simp
  have "16 \<le> ?n" using ok by (cases m) (simp add: message_ok_def)
  moreover have "?n < (if b then 65534 else 65536) \<Longrightarrow> ?n < 65536" for b by (cases b) simp_all
  then have "?n < 65536" using ok unfolding message_ok_def by blast
  ultimately have n: "16 \<le> ?n" "?n < 65536" by simp_all
  have buf: "length buf = 65536" using Cons.prems(4) by (simp add: MAX_MSG_SIZE_def)
  have "concat ss = take 16 ?m @ drop 16 ?m @ ?more" using Cons.prems(2) by simp
  then obtain ss1 where r1: "read_exact buf 0 16 ss = (True, take 0 buf @ take 16 ?m @ drop (0 + 16) buf, ss1)"
      "concat ss1 = drop 16 ?m @ ?more" "[] \<notin> set ss1"
    using read_exact_reads [of ss "take 16 ?m" "drop 16 ?m @ ?more" 16 0 buf] Cons.prems(3) n buf by auto
  let ?buf = "take 16 ?m @ drop 16 buf"
  obtain ss2 where r2: "read_exact ?buf 16 (?n - 16) ss1 = (True, take 16 ?buf @ drop 16 ?m @ drop (16 + (?n - 16)) ?buf, ss2)"
      "concat ss2 = ?more" "[] \<notin> set ss2"
    using read_exact_reads [OF r1(2) _ r1(3), of "?n - 16" 16 ?buf] n buf by auto
  have b2: "take 16 ?buf @ drop 16 ?m @ drop (16 + (?n - 16)) ?buf = ?m @ drop ?n buf" using n by simp
  have none: "(if 16 < ?n then read_exact ?buf 16 (?n - 16) ss1 else (True, ?buf, ss1)) = (True, ?m @ drop ?n buf, ss2)"
  proof (cases "16 < ?n")
    case False
    with n have "?n - 16 = 0" "?n = 16" by simp_all
    with r2(1) [unfolded b2] show ?thesis by (simp add: read_exact.simps)
  qed (use r2(1) [unfolded b2] in simp)
  have "length (?m @ drop ?n buf) = 65536" using n buf by simp
  note msg = message_read [OF ok this]
  obtain st1 where st1: "process_message (?m @ drop ?n buf) st = Inr (0, st1)" "prints (message_rules m) st st1"
    using msg(1) by blast
  have pk: "peek16 ?buf 2 = peek16 (?m @ drop ?n buf) 2"
    using n buf by (subst (1 2) peek16_nth) (auto simp: nth_append)
  obtain st2 where st2: "client_messages f (?m @ drop ?n buf) ss2 st1 = Inr st2" "prints (concat (map message_rules ms)) st1 st2"
    using Cons.IH [of ss2 "?m @ drop ?n buf" f st1] Cons.prems(1) r2 f(2) n buf by (auto simp: MAX_MSG_SIZE_def)
  have u: "unat (u16n ?n) = ?n" using n by simp
  have none: "(if 16 < ?n then read_exact ?buf 16 (unat (u16n ?n) - 16) ss1 else (True, ?buf, ss1)) = (True, ?m @ drop ?n buf, ss2)"
    unfolding u by (rule none)
  have "client_messages fuel buf ss st = client_messages f (?m @ drop ?n buf) ss2 st1"
    using r1(1) st1(1) pk msg(2) u n by (simp add: f(1) MAX_MSG_SIZE_def Let_def none del: unat_u16n split del: if_split)
  then show ?case using st2(1) prints_append [OF st1(2) st2(2)] by auto
qed

lemma handle_client_printed:
  assumes "\<forall>m\<in>set ms. message_ok m" "concat ss = concat (map message_bytes ms)" "[] \<notin> set ss" "length buf = MAX_MSG_SIZE"
  shows "\<exists>st'. handle_client buf ss st = Inr st' \<and> co_output st' = co_output st @ ''['' @ newline @
    rules_text True (concat (map message_rules ms)) @ newline @ '']'' @ newline \<and>
    co_decoded st' = co_decoded st + word_of_nat (length (concat (map message_rules ms)))"
proof -
  have "length ms \<le> length (concat (map message_bytes ms))"
  proof (induction ms)
    case (Cons m ms)
    then show ?case by (cases m) simp
  qed simp
  then have "length ms < Suc (length (concat ss))" by (simp add: assms(2))
  from client_messages_printed [OF assms this, of "st\<lparr>co_first := True, co_output := co_output st @ ''['' @ newline\<rparr>"]
  show ?thesis by (auto simp: handle_client_def prints_def printed_def)
qed

section \<open>Any stream\<close>

text \<open>With two octets behind the largest message no stream makes the collector read outside of its buffer.\<close>

lemma stl_records_inside:
  "p + stl_len \<le> length msg \<Longrightarrow> v4 \<longrightarrow> rec = 9 \<Longrightarrow> outcome {} (\<lambda>_. True) (stl_records msg p stl_len v4 rec pos n st)"
proof (induction "stl_len - pos" arbitrary: pos n st rule: less_induct)
  case less
  show ?case
  proof (cases "0 < rec \<and> pos + rec \<le> stl_len")
    case True
    have o: "outcome {} (\<lambda>_. True) (if v4 then output_rule_901 msg (p + pos) st else Inr st)"
      using True less.prems
      by (auto simp: output_rule_901_def intro!: outcome_bind [OF outcome_peek32] outcome_bind [OF outcome_peek])
    have next_r: "outcome {} (\<lambda>_. True) (stl_records msg p stl_len v4 rec (pos + rec) (n + 1) st')" for st'
      by (rule less.hyps) (use True less.prems in auto)
    show ?thesis
      unfolding stl_records.simps [of msg p stl_len v4 rec pos] if_P [OF True]
      by (rule outcome_bind [OF o], rule next_r)
  qed (subst stl_records.simps, auto)
qed

lemma subtemplatelist_inside:
  assumes "p + stl_len \<le> length msg"
  shows "outcome {} (\<lambda>_. True) (parse_subtemplatelist msg p stl_len st)"
  using assms unfolding parse_subtemplatelist_def
  by (auto intro!: outcome_bind [OF outcome_peek] outcome_bind [OF outcome_peek16] outcome_bind [OF stl_records_inside])

lemma main_records_inside: "p + set_len \<le> length msg \<Longrightarrow> outcome {} (\<lambda>_. True) (sav_main_records msg p set_len pos st)"
proof (induction "set_len - pos" arbitrary: pos st rule: less_induct)
  case less
  show ?case
  proof (cases "pos + 4 \<le> set_len")
    case True
    have rd: "outcome {} (\<lambda>_. True) (peek msg (p + pos))" "outcome {} (\<lambda>_. True) (peek msg (p + pos + 1))"
      "outcome {} (\<lambda>_. True) (peek16 msg (p + pos + 2))"
      using less.prems True by (auto intro!: outcome_peek outcome_peek16)
    have o: "outcome {} (\<lambda>_. True) (if 0 < w then parse_subtemplatelist msg (p + pos + 4) (unat w) st else Inr (0, st))"
      if "pos + 4 + unat w + 1 \<le> set_len" for w :: u16
      using that less.prems by (auto intro!: subtemplatelist_inside)
    have next_m: "outcome {} (\<lambda>_. True) (sav_main_records msg p set_len (pos + 4 + n + 1) st')" for n st'
      by (rule less.hyps) (use True less.prems in auto)
    have body: "outcome {} (\<lambda>_. True) (if set_len < pos + 4 + unat w + 1 then Inr st
        else fbind (if 0 < w then parse_subtemplatelist msg (p + pos + 4) (unat w) st else Inr (0, st))
               (\<lambda>(_, st). sav_main_records msg p set_len (pos + 4 + unat w + 1) st))" for w :: u16
      by (rule outcome_if, simp, rule outcome_bind [OF o], linarith) (simp only: split_paired_all prod.case, rule next_m)
    show ?thesis
      unfolding sav_main_records.simps [of msg p set_len pos] if_P [OF True]
      by (rule outcome_bind [OF rd(1)], rule outcome_bind [OF rd(2)], rule outcome_bind [OF rd(3)], rule body)
  qed (subst sav_main_records.simps, simp)
qed

lemma parse_set_inside:
  assumes "p + data_len + 3 \<le> length msg"
  shows "outcome {} (\<lambda>_. True) (parse_set msg p data_len st)"
proof (cases "data_len < 4")
  case False
  then have rd: "outcome {} (\<lambda>_. True) (peek16 msg p)" "outcome {} (\<lambda>_. True) (peek16 msg (p + 2))"
    using assms by (auto intro!: outcome_peek16)
  have t: "outcome {} (\<lambda>_. True) (if set_id = IPFIX_SET_ID_TEMPLATE then parse_template_set msg p n st
      else if set_id = TMPL_SAV_MAIN then parse_data_set_256 msg p n st else Inr st)" if "n \<le> data_len" for set_id n
    using that assms by (auto simp: parse_template_set_def parse_data_set_256_def intro!: template_set_inside main_records_inside)
  show ?thesis
    unfolding parse_set_def if_not_P [OF False] Let_def
    by (rule outcome_bind [OF rd(1)], rule outcome_bind [OF rd(2)], rule outcome_if, simp, rule outcome_bind [OF t]) auto
qed (simp add: parse_set_def)

lemma message_sets_inside: "msg_len + 3 \<le> length msg \<Longrightarrow> outcome {} (\<lambda>_. True) (message_sets msg msg_len pos st)"
proof (induction "msg_len - pos" arbitrary: pos st rule: less_induct)
  case less
  show ?case
  proof (cases "pos + 4 \<le> msg_len")
    case True
    have "outcome {} (\<lambda>_. True) (parse_set msg pos (msg_len - pos) st)" using True less.prems by (intro parse_set_inside) auto
    then obtain r st' where s: "parse_set msg pos (msg_len - pos) st = Inr (r, st')" by (cases "parse_set msg pos (msg_len - pos) st") auto
    have "outcome {} (\<lambda>_. True) (message_sets msg msg_len (pos + n) st')" if "r = Some n" for n
      by (rule less.hyps) (use parse_set_len [OF s [unfolded that]] True less.prems in auto)
    then show ?thesis using s True by (subst message_sets.simps) (auto split: option.splits)
  qed (subst message_sets.simps, simp)
qed

lemma recv_some_len: "recv_some ss n = (got, ss') \<Longrightarrow> length got \<le> n \<or> n = 0 \<and> got = []"
    "recv_some ss n = (got, ss') \<Longrightarrow> length (concat ss) = length got + length (concat ss')"
  by (cases ss; force split: if_splits)+

lemma read_exact_len:
  "at + len \<le> length buf \<Longrightarrow> read_exact buf at len ss = (b, buf', ss') \<Longrightarrow>
    length buf' = length buf \<and> (b \<longrightarrow> length (concat ss) = len + length (concat ss'))"
proof (induction len arbitrary: buf at ss rule: less_induct)
  case (less len)
  show ?case
  proof (cases "len = 0")
    case True
    then show ?thesis using less.prems by (simp add: read_exact.simps)
  next
    case False
    obtain got ss1 where g: "recv_some ss len = (got, ss1)" by (cases "recv_some ss len") auto
    note gl = recv_some_len [OF g]
    show ?thesis
    proof (cases "got = []")
      case True
      then show ?thesis using less.prems False g by (auto simp: read_exact.simps)
    next
      case ne: False
      let ?buf = "take at buf @ got @ drop (at + length got) buf"
      have r: "read_exact ?buf (at + length got) (len - length got) ss1 = (b, buf', ss')"
        using less.prems(2) False g ne by (subst (asm) read_exact.simps) auto
      have n: "len - length got < len" "at + length got + (len - length got) \<le> length ?buf" "length ?buf = length buf"
        using ne False gl(1) less.prems(1) by auto
      show ?thesis using less.IH [OF n(1,2) r] n(3) gl ne by auto
    qed
  qed
qed

lemma process_message_inside:
  assumes "65538 \<le> length msg"
  shows "outcome {} (\<lambda>_. True) (process_message msg st)"
proof -
  obtain v w where rd: "peek16 msg 0 = Inr v" "peek16 msg 2 = Inr w"
    using peek_runs(2) [of 0 msg] peek_runs(2) [of 2 msg] assms by auto
  have "unat w < 65536" by simp
  then have "unat w + 3 \<le> length msg" using assms by linarith
  from message_sets_inside [OF this, of 16 st] show ?thesis
    by (auto simp: process_message_def parse_ipfix_header_def rd intro!: outcome_bind)
qed

lemma client_messages_inside:
  "MAX_MSG_SIZE + 2 \<le> length buf \<Longrightarrow> length (concat ss) < fuel \<Longrightarrow> outcome {} (\<lambda>_. True) (client_messages fuel buf ss st)"
proof (induction fuel arbitrary: buf ss st)
  case (Suc fuel)
  have buf: "65538 \<le> length buf" using Suc.prems(1) by (simp add: MAX_MSG_SIZE_def)
  obtain b1 buf1 ss1 where r1: "read_exact buf 0 16 ss = (b1, buf1, ss1)" by (cases "read_exact buf 0 16 ss") auto
  note l1 = read_exact_len [OF _ r1]
  show ?case
  proof (cases b1)
    case True
    have l: "length buf1 = length buf" "length (concat ss) = 16 + length (concat ss1)" using l1 True buf by auto
    obtain w where w: "peek16 buf1 2 = Inr w" using peek_runs(2) [of 2 buf1] l(1) buf by auto
    have w16: "unat w < 65536" by simp
    let ?r = "if 16 < unat w then read_exact buf1 16 (unat w - 16) ss1 else (True, buf1, ss1)"
    obtain b2 buf2 ss2 where r2: "?r = (b2, buf2, ss2)" by (cases ?r) auto
    have wb: "unat w \<le> length buf" using w16 buf by linarith
    have l2: "length buf2 = length buf" "b2 \<longrightarrow> length (concat ss2) \<le> length (concat ss1)"
      using r2 read_exact_len [of 16 "unat w - 16" buf1 ss1 b2 buf2 ss2] l(1) buf wb by (auto split: if_splits)
    have p: "outcome {} (\<lambda>_. True) (process_message buf2 st)" using process_message_inside l2(1) buf by simp
    have IH: "outcome {} (\<lambda>_. True) (client_messages fuel buf2 ss2 st')" if b2 for st'
      by (rule Suc.IH) (use Suc.prems l l2 that in auto)
    have msg: "outcome {} (\<lambda>_. True) (fbind (process_message buf2 st) (\<lambda>(_, st). client_messages fuel buf2 ss2 st))" if b2
      by (rule outcome_bind [OF p]) (use IH that in auto)
    show ?thesis using True r1 w r2 msg by (cases b2) (simp_all add: Let_def)
  qed (use r1 in simp)
qed simp

lemma collector_inside:
  assumes "MAX_MSG_SIZE + 2 \<le> length buf"
  shows "\<exists>st'. handle_client buf ss st = Inr st'"
  using client_messages_inside [OF assms, of ss "Suc (length (concat ss))" "st\<lparr>co_first := True, co_output := co_output st @ ''['' @ newline\<rparr>"]
  by (cases "client_messages (Suc (length (concat ss))) buf ss (st\<lparr>co_first := True, co_output := co_output st @ ''['' @ newline\<rparr>)")
    (auto simp: handle_client_def)

end
