(* ===== verification/Spec2Isabelle.thy ===== *)
theory Spec2Isabelle
  imports AspathFacts CommunityFacts TableMatch Faults LookupRounds SessionRoutes RpkiSession NfFaults CollectorFacts
begin

text \<open>
  A verification development of the BGP engine of pmacct, the C code under src/src/bgp with the hash
  functions of src/src/jhash.h, of its RPKI daemon, src/src/rpki, and of the templates and packets of NetFlow and
  IPFIX with the rules of source address validation that they carry (src/src/nfv9\_template.c, part of
  src/src/nfacctd.c, src/src/sav\_parser.c), with the collector of such rules in src/sav-ipfix.

  The program. pmacct is a set of daemons that collect traffic records. Beside them runs a passive BGP
  speaker: routers open sessions to it and send it their tables, and the collectors look up the
  addresses of a flow in these tables. The engine that does this is shared by the BGP daemon, the BMP
  daemon and the reader of dumped tables. Octets arrive on a TCP connection and are cut into messages
  (bgp.c, bgp\_msg.c); OPEN, KEEPALIVE, NOTIFICATION and UPDATE messages change the state of the peer;
  an UPDATE message is parsed into path attributes and sections of prefixes; attributes and their parts
  (AS paths, standard, extended and large communities) are interned in hash tables with reference
  counts (bgp\_util.c, bgp\_aspath.c, bgp\_community.c, bgp\_ecommunity.c, bgp\_lcommunity.c,
  bgp\_hash.c); and each prefix becomes an entry in a Patricia tree with lock counts (bgp\_table.c,
  bgp\_prefix.c). A further daemon holds validated ROA payloads in tables of the same kind, from a file
  or from a cache over the RTR protocol, against which the origins of routes are checked (src/src/rpki). The
  NetFlow daemon keeps the templates that exporters send and finds with them the records and fields of their
  packets; records that carry source address validation rules are parsed further and printed.

  The theories that model the code, in the order of their imports:
  \<^item> Prelude: the widths of C integers, the faults (a read or write outside of a buffer, a failed
    assertion, a null pointer, a released object), the sequencing of steps that can fault, buffers and
    byte order. RunLogic: the rules for such runs (\<open>post\<close>).
  \<^item> BgpTypes: \<open>struct bgp_peer\<close> and its capabilities, the databases selected by the type of the
    daemon. BgpHash: bgp\_hash.c. Jhash: jhash.h. BgpIntern and BgpPool: the code that
    \<open>aspath_intern\<close>, \<open>community_intern\<close> and the others repeat, with the
    locale \<open>obj_class\<close> as the contract of what is interned (and \<open>hash_fun\<close> in BgpHash as that of the
    hash functions).
  \<^item> BgpAspath, AspathNormal, AspathText, AspathPool: bgp\_aspath.c, in this order the segments and
    their counts and printing, their normal form, reading paths from text, and the wire format, the
    table of paths and the reconciliation with AS4\_PATH. BgpValues and BgpCommunity: the three kinds of
    communities.
  \<^item> BgpPrefix: bgp\_prefix.c. BgpTable: bgp\_table.c. The tree is a datatype; the chain of parent
    pointers of a node is the path from the root, and a node is named by this path.
  \<^item> BgpOpen: OPEN, KEEPALIVE and NOTIFICATION messages. BgpAttr: \<open>struct bgp_attr\<close> and its
    interning with its parts, the extra attributes of a route (bgp\_util.c). BgpAttrParse:
    \<open>bgp_attr_parse\<close>. BgpRoute: the entries of the tables, \<open>bgp_process_update\<close> and
    \<open>bgp_process_withdraw\<close>. BgpUpdate: \<open>bgp_nlri_parse\<close> and \<open>bgp_parse_update_msg\<close>. BgpSession:
    \<open>bgp_parse_msg\<close>, and the part of the main loop of bgp.c that serves one peer. BgpPeer: creating and
    closing a peer with the deletion of its entries, the cache of peers, the batches (bgp\_util.c, and
    the hashes of addresses of addr.c). BgpDaemon: the main loop over all peers.
  \<^item> Rpki: the tables of payloads with their lookup and the file of payloads (rpki\_lookup.c, rpki\_util.c,
    part of rpki\_msg.c). RpkiCache: the session with the cache and the loop of the daemon (rpki\_msg.c,
    rpki.c).
  \<^item> BgpLookup: the lookups of the collectors (bgp\_lookup.c): the peer that stands for an exporter, the routes
    of source and destination, the default routes and next hops that lead to further peers. LookingGlass: the
    queries of the looking glass (of bgp\_lookup.c), and the copies of attributes as text between a packet and
    a cache.
  \<^item> NfTemplate: templates and their cache, and the places of fields in a record with fields of variable length
    (nfv9\_template.c). NfFlowset: the flowsets, templates and records of a packet (\<open>process_v9_packet\<close> and
    \<open>process_v5_packet\<close> of nfacctd.c), and the type of the flow of a record (\<open>NF_evaluate_flow_type\<close>). SavParser: the branch for flows of IPv4, the rules of a record and their output (sav\_parser.c,
    \<open>process_sav_fields\<close>, \<open>compose_json_sav_fields\<close>). SavCollector: the collector over TCP
    (sav\_collector\_raw.c).

  The theories that reason about it:
  \<^item> RouteCommon, PrefixFacts, TableFacts, TableMatch: prefixes are bit strings, a table stands for a
    finite map from networks to lock counts and entries (\<open>rib\<close>), and its operations are operations on
    this map; the vector of all matches that a lookup may ask for (\<open>match_vector\<close>). C1 to C4.
  \<^item> AspathFacts, CommunityFacts: the parsers stay inside their buffers, the printers inside the
    buffers whose size the code computes, text and wire forms read back, equal attributes are the same
    object. C7 to C11, C13, C14, C17, C19, C20.
  \<^item> AttrFacts, AttrBalance: the five pools together; a reference to an attribute stands for a
    reference to each of its parts, and all clients keep the balance of references and counts. C25.
  \<^item> StreamFacts, SessionFacts: reassembly, the invariant of a session over all turns of the main loop,
    and the end of each turn. C26 to C29.
  \<^item> RibFacts, RouteFacts: tables and pools together; announcing and withdrawing a prefix are an
    update and a deletion of the map of entries. C30, C31.
  \<^item> AttrSafe, UpdateFacts: the parsing of attributes and of whole UPDATE messages with sections of
    unicast prefixes cannot fault and keeps the routing database in order. C32, C34.
  \<^item> PeerRoutes, PeerFacts, SessionRoutes: whose entries are where; an UPDATE message changes the entries
    of its sender only, closing a session removes exactly its entries, and over any life of the sessions
    the tables hold entries of open sessions only. C38 to C40.
  \<^item> DaemonFacts: the array of peers and the cache over all turns of the main loop. C36, C37.
  \<^item> RpkiPaths, RpkiTables, RpkiLookup, RpkiData, RpkiFacts: the database of payloads stands for a map \<open>V\<close> from
    families and networks to lists of payloads (origin AS and maximum length), and for locks \<open>L\<close> that lookups
    left on nodes (the theories of tables carry such further locks, \<open>stands_with\<close>). C6, C23. RpkiSession: the
    turns of the daemon. C21, C24.
  \<^item> LookupFacts, LookupRounds: lookups for flows over a database whose tables stand for maps of entries with
    further locks (\<open>locked_ribs\<close>, \<open>lookup_inv\<close>): one address, both addresses in one table and in all of them,
    then the hops and the rounds. C5, C18, C22.
  \<^item> NfFacts, NfRecords: a template describes the fields it was composed of (\<open>describes\<close>), and with it the records
    of a flowset are found and their fields read back. C12. NfSafe: packets of any octets (\<open>outcome\<close> names the faults
    that may remain) with seven octets behind them. C33. SavFacts: the templates whose records are flows of
    IPv4 (\<open>ipv4_flows\<close>), and the rules of a packet. C15. CollectorFacts: the collector against nfacctd, over
    any stream (\<open>collector_inside\<close>: with two octets behind its buffer it never reads outside), and what it prints
    of sets, lists and templates of any kind (\<open>prints\<close>). C16, C35. NfFaults: packets for which loops do not end,
    that are read behind the buffer, or whose fields or rules are lost.
  \<^item> Faults: concrete messages on which the code does leave its buffers, for the parts where safety
    does not hold.

  How the state corresponds. A C pointer to an interned object is an address in the heap of its pool,
  and a pool is the pair of this heap and the hash table. A buffer is the list of its octets; a read is
  \<open>rd\<close>, a slice \<open>slice\<close>, and both fault outside of the list. Machine integers are words of their C
  width; lengths that the C code holds in an \<open>int\<close> or \<open>size_t\<close> and that cannot wrap are \<open>nat\<close> or \<open>int\<close>.
  Errors of the code (the negative return values of the parsers) are values beside the state they leave;
  undefined behaviour of C is \<open>Inl\<close> of a fault. The peer is passed and returned explicitly.

  Bounds and fuel. Loops are structural recursions or have a measure that decreases. Three take a bound:
  the walk over a table gets the number of nodes, which C4 shows to be exactly what it needs, and the
  loop over the messages in a buffer gets any positive number, since C27 shows that it runs at most
  once per turn. The rounds of a lookup get more than \<open>follow_default\<close> (C18). The loops
  over a NetFlow packet get a number above that of its records (C12), since they need not end on any packet
  (NfFaults), and the messages of a connection as many turns as the stream has octets (C35).

  Arguments of the model. \<open>inet_aton\<close> and \<open>inet_pton\<close> (system library), the parser of BGP-LS sections,
  the JSON value of a file of payloads, the octet that \<open>check_bit\<close> reads behind an address of full
  length (\<open>stray\<close>), the text of an IPv6 address (\<open>ntop6\<close>), and, for lookups, the map from agents to peers (pretag.c), the next hop that a collector
  reads from a flow, and a socket address on the stack that is not initialised. Hosts are
  little-endian, as the code's own switch has it. Allocation succeeds, since the code exits otherwise.

  Not modelled. Logging and the dumps of events through JSON and Avro; the system calls on sockets (what
  \<open>accept\<close>, \<open>select\<close> and \<open>recv\<close> return is an argument, and sending is assumed to succeed), and the
  cross-connect; the callbacks for extra data, which are those of
  the BGP daemon and null, so that BMP is left out; BGP-LS and blackholing; the BMP branch of \<open>bgp_srcdst_lookup\<close>. The
  NetFlow daemon is modelled up to the places of its records, the type of their flows and the rules in them: not
  what else is done with a record (of the branch for IPv4 only the copies of masks and protocol and the rules are
  there) nor with options, the status table of exporters, the replication to other collectors, and the file of
  templates. The other daemons of the repository (sFlow, libpcap and telemetry collectors), the plugins, the
  databases and the configuration are outside of this development.
\<close>

section \<open>Concrete inputs\<close>

text \<open>What the witnesses below are applied to.\<close>

definition ex_prefix :: "u8 list \<Rightarrow> nat \<Rightarrow> prefix" where
  "ex_prefix bs n = \<lparr>p_family = AF_INET, p_len = n, p_bytes = bs @ replicate 12 0\<rparr>"

definition ex_db :: misc_db where
  "ex_db = \<lparr>is_readonly = False, skip_rib = False, has_msglog = False, table_peer_buckets = 1, table_per_peer_buckets = 1,
     table_per_peer_hash = 2\<rparr>"

definition ex_table :: "nat bgp_table" where
  "ex_table = \<lparr>t_afi = AFI_IP, t_safi = SAFI_UNICAST,
     t_top = Node (ex_prefix [10, 0, 0, 0] 8) 1 [[7]] Tip
               (Node (ex_prefix [10, 128, 0, 0] 9) 1 [[]] Tip Tip),
     t_count = 2\<rparr>"

definition ex_peer :: bgp_peer where
  "ex_peer = zero_peer\<lparr>bp_type := FUNC_TYPE_BGP\<rparr>"

section \<open>The routing table\<close>

text \<open>
  C1. \<open>bgp_node_match\<close> is longest prefix match, on a well-formed table with a starting bucket inside the
  array, whatever octet \<open>check_bit\<close> reads behind a full-length address. What it returns is an entry its
  comparison accepts, at a network of the table that contains the address, and no accepted entry sits at a
  longer such network; it returns nothing only when there is none. The node found has its lock count raised
  and nothing else changes. A caller that wants the vector of all matches (\<open>bnv\<close>) gets the same, and in the
  vector entries that match, among them all of those at networks shorter than what was asked for. Without a
  vector there is no fault; with one there is a fault exactly when there are more matches than its 128 places,
  the last of which are written behind it.
\<close>

theorem node_match_longest:
  fixes table :: "'i bgp_table" and bms :: misc_db and mf :: "(nat \<Rightarrow> nat) option" and p :: prefix and stray :: u8 and ok :: "'i \<Rightarrow> bool"
  defines "m \<equiv> (case mf of None \<Rightarrow> 0 | Some f \<Rightarrow> f (match_buckets bms))"
  defines "ms \<equiv> match_vector ok stray p m (modulo_idx_max bms) (t_top table)"
  assumes "table_ok bms table" "prefix_ok p"
    and "m + modulo_idx_max bms \<le> table_peer_buckets bms * table_per_peer_buckets bms"
  shows "\<exists>found. bgp_node_match bms stray table p mf ok bnv
      = (if bnv \<and> BGP_NODE_VECTOR_MAX_DEPTH < length ms then Inl OutOfBounds
         else Inr (case found of None \<Rightarrow> table
                   | Some (q, x) \<Rightarrow> table\<lparr>t_top := relock (lock_count bms) (p_bits q) (t_top table)\<rparr>,
                   found, if bnv then Some ms else None))
    \<and> (case found of
         None \<Rightarrow> \<not> (\<exists>ks x. hit ok p m (modulo_idx_max bms) (t_top table) ks x)
       | Some (q, x) \<Rightarrow> hit ok p m (modulo_idx_max bms) (t_top table) (p_bits q) x
           \<and> (\<forall>ks y. hit ok p m (modulo_idx_max bms) (t_top table) ks y \<longrightarrow> length ks \<le> p_len q))
    \<and> (\<forall>q x. (q, x) \<in> set ms \<longrightarrow> hit ok p m (modulo_idx_max bms) (t_top table) (p_bits q) x)
    \<and> (\<forall>ks x. hit ok p m (modulo_idx_max bms) (t_top table) ks x \<longrightarrow> length ks < p_len p
         \<longrightarrow> (\<exists>q. p_bits q = ks \<and> (q, x) \<in> set ms))"
proof -
  have room: "m + modulo_idx_max bms \<le> length (empty_info bms :: 'i list list)"
    using assms(5) by (simp add: empty_info_def)
  from table_match_ok [of bms table p mf ok stray, folded m_def, OF assms(3,4) room] obtain found where
    f: "match_ok ok p m (modulo_idx_max bms) (t_top table) None found"
    "bgp_node_match bms stray table p mf ok False
      = Inr (case found of None \<Rightarrow> table
             | Some (q, x) \<Rightarrow> table\<lparr>t_top := relock (lock_count bms) (p_bits q) (t_top table)\<rparr>, found, None)"
    by blast
  note vec = table_match_vector [where bms = bms and mf = mf and ok = ok and stray = stray, folded m_def, OF assms(3,4) room f(2), folded ms_def]
  have "bgp_node_match bms stray table p mf ok bnv
      = (if bnv \<and> BGP_NODE_VECTOR_MAX_DEPTH < length ms then Inl OutOfBounds
         else Inr (case found of None \<Rightarrow> table
                   | Some (q, x) \<Rightarrow> table\<lparr>t_top := relock (lock_count bms) (p_bits q) (t_top table)\<rparr>,
                   found, if bnv then Some ms else None))"
    using f(2) vec by (cases bnv) simp_all
  then show ?thesis
    using f(1) table_vector_matches [OF assms(3,4), where m = m and n = "modulo_idx_max bms" and ok = ok and stray = stray, folded ms_def]
    by (intro exI [of _ found] conjI) (auto simp: match_ok_def split: if_splits)
qed

theorem node_match_longest_witness:
  "\<exists>found. bgp_node_match ex_db 0 ex_table (ex_prefix [10, 200, 0, 1] 32) None (\<lambda>x. x = 7) True
      = Inr (case found of None \<Rightarrow> ex_table
             | Some (q, x) \<Rightarrow> ex_table\<lparr>t_top := relock (lock_count ex_db) (p_bits q) (t_top ex_table)\<rparr>,
             found, Some [(ex_prefix [10, 0, 0, 0] 8, 7)])
    \<and> found \<noteq> None"
proof -
  have "table_ok ex_db ex_table" "prefix_ok (ex_prefix [10, 200, 0, 1] 32)"
    "(0 :: nat) + modulo_idx_max ex_db \<le> table_peer_buckets ex_db * table_per_peer_buckets ex_db"
    by code_simp+
  from node_match_longest [where bms = ex_db and table = ex_table and mf = None and ok = "\<lambda>x. x = 7" and stray = 0 and bnv = True,
      simplified option.case, OF this] obtain found where
    f: "bgp_node_match ex_db 0 ex_table (ex_prefix [10, 200, 0, 1] 32) None (\<lambda>x. x = 7) True
      = (if True \<and> BGP_NODE_VECTOR_MAX_DEPTH
              < length (match_vector (\<lambda>x. x = 7) 0 (ex_prefix [10, 200, 0, 1] 32) 0 (modulo_idx_max ex_db) (t_top ex_table))
         then Inl OutOfBounds
         else Inr (case found of None \<Rightarrow> ex_table
             | Some (q, x) \<Rightarrow> ex_table\<lparr>t_top := relock (lock_count ex_db) (p_bits q) (t_top ex_table)\<rparr>,
             found, if True then Some (match_vector (\<lambda>x. x = 7) 0 (ex_prefix [10, 200, 0, 1] 32) 0 (modulo_idx_max ex_db) (t_top ex_table))
               else None))"
    by blast
  have "match_vector (\<lambda>x. x = 7) 0 (ex_prefix [10, 200, 0, 1] 32) 0 (modulo_idx_max ex_db) (t_top ex_table)
      = [(ex_prefix [10, 0, 0, 0] 8, 7)]"
    by code_simp
  moreover have "bgp_node_match ex_db 0 ex_table (ex_prefix [10, 200, 0, 1] 32) None (\<lambda>x. x = 7) True
      = Inr (ex_table\<lparr>t_top := relock (lock_count ex_db) (p_bits (ex_prefix [10, 0, 0, 0] 8)) (t_top ex_table)\<rparr>,
             Some (ex_prefix [10, 0, 0, 0] 8, 7), Some [(ex_prefix [10, 0, 0, 0] 8, 7)])"
    by code_simp
  ultimately show ?thesis using f by (auto simp: BGP_NODE_VECTOR_MAX_DEPTH_def)
qed

text \<open>
  C2. \<open>bgp_node_get\<close> finds or adds exactly the network asked for. The table as a finite map from
  networks to lock count and entries changes at that network only: its lock count goes up by one, or
  it is new with lock count one and no entries. The nodes that split an edge are invisible in the map,
  the invariant and the node count are kept, and the pointer returned is the node of the network.
\<close>

theorem node_get_refines:
  assumes "table_ok bms table" "prefix_wf p" "\<not> is_readonly bms" "lock_room (table_rib table (p_bits p))"
  shows "\<exists>table' k. bgp_node_get bms stray table p = Inr (table', k) \<and> table_ok bms table'
    \<and> prefix_ok k \<and> p_bits k = p_bits p
    \<and> table_rib table' = (table_rib table)(p_bits p \<mapsto> bump bms (table_rib table (p_bits p)))"
  using node_get_ok [of bms "[]" "t_top table" p stray] assms
  by (auto simp: get_ok_def bgp_node_get_def table_ok_def)

theorem node_get_refines_witness:
  "\<exists>table' k. bgp_node_get ex_db 0 ex_table (ex_prefix [11, 0, 0, 0] 8) = Inr (table', k)
    \<and> table_ok ex_db table' \<and> t_count table' = 4"
proof -
  have "table_ok ex_db ex_table" "prefix_wf (ex_prefix [11, 0, 0, 0] 8)" "\<not> is_readonly ex_db"
    "lock_room (table_rib ex_table (p_bits (ex_prefix [11, 0, 0, 0] 8)))"
    by code_simp+
  from node_get_refines [OF this, of 0] obtain table' k where
    "bgp_node_get ex_db 0 ex_table (ex_prefix [11, 0, 0, 0] 8) = Inr (table', k)" "table_ok ex_db table'"
    by blast
  moreover have "map_sum id (t_count \<circ> fst) (bgp_node_get ex_db 0 ex_table (ex_prefix [11, 0, 0, 0] 8)) = Inr 4"
    by code_simp
  ultimately show ?thesis by auto
qed

text \<open>
  C3. \<open>bgp_unlock_node\<close> gives back one lock: on the map, the network's count goes down by one, and the
  last lock removes it. No assertion of \<open>bgp_node_delete\<close> fails, provided the caller has emptied the
  entries of a node before giving back its last lock; the stubs that become superfluous disappear and
  the invariant is kept.
\<close>

theorem node_unlock_refines:
  assumes "table_ok bms table" "prefix_ok k" "\<not> is_readonly bms"
    and "table_rib table (p_bits k) = Some (lk, info)" "lk = 1 \<Longrightarrow> info = empty_info bms"
  shows "\<exists>table'. bgp_unlock_node bms stray table k = Inr table' \<and> table_ok bms table'
    \<and> table_rib table' = (table_rib table)(p_bits k := drop_lock (lk, info))"
proof -
  have "unlock_ok bms [] (t_top table) k (node_unlock bms stray (t_top table) k)"
    using node_unlock_ok [OF _ assms(2,3,4,5)] assms(1) by (simp add: table_ok_def)
  then obtain t' del n where
    u: "node_unlock bms stray (t_top table) k = Inr (t', del, n)" "patricia bms [] t'"
      "num_nodes t' + n = num_nodes (t_top table)"
      "rib t' = (table_rib table)(p_bits k := Option.bind (table_rib table (p_bits k)) drop_lock)"
    by (auto simp: unlock_ok_def)
  with assms show ?thesis
    by (intro exI [of _ "table\<lparr>t_top := t', t_count := t_count table - n\<rparr>"])
      (auto simp: bgp_unlock_node_def table_ok_def)
qed

theorem node_unlock_refines_witness:
  "\<exists>table'. bgp_unlock_node ex_db 0 ex_table (ex_prefix [10, 128, 0, 0] 9) = Inr table'
    \<and> table_ok ex_db table' \<and> table_rib table' (p_bits (ex_prefix [10, 128, 0, 0] 9)) = None"
proof -
  have "table_ok ex_db ex_table" "prefix_ok (ex_prefix [10, 128, 0, 0] 9)" "\<not> is_readonly ex_db"
    "table_rib ex_table (p_bits (ex_prefix [10, 128, 0, 0] 9)) = Some (1, [[]])"
    "([[]] :: nat list list) = empty_info ex_db"
    by code_simp+
  from node_unlock_refines [OF this(1-4) this(5), of 0] show ?thesis by (auto simp: drop_lock_def)
qed

text \<open>
  C4. Walking a table, as every dump and every teardown of a session does: \<open>bgp_table_top\<close>, then
  \<open>bgp_route_next\<close> until it returns nothing. Within as many steps as the table counts nodes the walk has
  met every node exactly once, in preorder, and the table is what it was: each lock taken is given
  back and no stub is deleted behind the walk.
\<close>

theorem table_walk_complete:
  assumes "table_ok bms table" "\<And>k. k \<in> set (preorder (t_top table)) \<Longrightarrow> locks_room (p_bits k) (t_top table)"
    and "bgp_table_top bms (Some table) = (Some table', start)" "t_count table \<le> n"
  shows "table_walk bms stray n table' start = Inr (preorder (t_top table), table, None)
    \<and> distinct (map p_bits (preorder (t_top table)))
    \<and> dom (table_rib table) \<subseteq> p_bits ` set (preorder (t_top table))"
proof -
  have inv: "patricia bms [] (t_top table)" using assms(1) by (simp add: table_ok_def)
  show ?thesis
    using table_walk_ok [OF assms] distinct_preorder [OF inv] by (auto dest!: rib_preorder)
qed

theorem table_walk_complete_witness:
  "table_walk ex_db 0 2 (ex_table\<lparr>t_top := bgp_lock_node ex_db (t_top ex_table)\<rparr>) (Some (ex_prefix [10, 0, 0, 0] 8))
     = Inr ([ex_prefix [10, 0, 0, 0] 8, ex_prefix [10, 128, 0, 0] 9], ex_table, None)"
proof -
  have pre: "preorder (t_top ex_table) = [ex_prefix [10, 0, 0, 0] 8, ex_prefix [10, 128, 0, 0] 9]"
    by code_simp
  have ok: "table_ok ex_db ex_table" "t_count ex_table \<le> 2"
    "bgp_table_top ex_db (Some ex_table) = (Some (ex_table\<lparr>t_top := bgp_lock_node ex_db (t_top ex_table)\<rparr>),
       Some (ex_prefix [10, 0, 0, 0] 8))"
    by code_simp+
  have "\<forall>k \<in> set (preorder (t_top ex_table)). locks_room (p_bits k) (t_top ex_table)" by code_simp
  then have "k \<in> set (preorder (t_top ex_table)) \<Longrightarrow> locks_room (p_bits k) (t_top ex_table)" for k by blast
  from table_walk_complete [OF ok(1) this ok(3,2), of 0] show ?thesis unfolding pre by blast
qed

text \<open>
  The size of a table. \<open>count\<close> is the number of nodes, and there are fewer than twice as many nodes
  as networks in use: a node nobody holds is there only to hold two subtrees together. A table without
  networks is empty, and the assertion at the end of \<open>bgp_table_free\<close> holds.
\<close>

lemma table_size:
  assumes "table_ok bms table"
  shows "finite (dom (table_rib table)) \<and> t_count table \<le> 2 * card (dom (table_rib table)) - 1
    \<and> bgp_table_free (Some table) = Inr ()"
proof -
  have inv: "patricia bms [] (t_top table)" "t_count table = num_nodes (t_top table)"
    using assms by (simp_all add: table_ok_def)
  note card_dom_rib [OF inv(1)]
  moreover have "num_nodes (t_top table) \<le> 2 * held (t_top table) - 1"
    using num_nodes_bound [OF inv(1)] by (cases "t_top table = Tip") auto
  moreover have "bgp_table_free (Some table) = Inr ()"
    using inv by (simp add: bgp_table_free_def free_nodes_count)
  ultimately show ?thesis using inv by simp
qed

text \<open>
  \<open>route_common\<close> computes the longest common prefix of the two networks that a split node needs: its
  result is well formed, and its bits are the longest bit string that both start with.
\<close>

lemma route_common_longest:
  assumes "prefix_ok n" "prefix_ok p" "\<not> Sublist.prefix (p_bits n) (p_bits p)"
  shows "prefix_ok (route_common n p prefix_new)
    \<and> p_bits (route_common n p prefix_new) = longest_common_prefix (p_bits n) (p_bits p)"
proof -
  have new: "length (p_bytes prefix_new) = 16" by (simp add: prefix_new_def)
  show ?thesis
    using route_common_ok [OF assms(1,2) new] lcp_of_not_prefix(1) [OF assms(1,3)] by simp
qed

section \<open>AS paths\<close>

definition ex_path :: "assegment list" where
  "ex_path = [assegment_new AS_SEQUENCE [65001, 3356], assegment_new AS_SET [701, 7018]]"

lemmas ex_path_eval = ex_path_def assegment_new_def as_types is_set_type_def segs_normal_def seg_tidy_def
  assegment_types_packable_def full_sequences_def known_types_def separator_of_def total_asns_def
  path_text_def seg_text_def delim_text_def
  aspath_delimiter_char_def dec_eval

text \<open>
  C7. \<open>assegments_parse\<close> never reads outside the attribute: given at least the announced number of
  bytes it returns, for every content and every length, with or without the BMP heuristic that may
  switch the width of the AS numbers in the middle of the attribute. The path it returns is normal
  (sets sorted and without duplicates, no two adjacent sequences), and no sequence in it is empty.
\<close>

theorem parse_stays_inside:
  assumes "len \<le> length s"
  shows "\<exists>segs. assegments_parse bmp s len use32bit = Inr segs \<and> segs_normal segs
    \<and> (len < 131072 \<longrightarrow> full_sequences segs)"
  by (rule assegments_parse_ok [OF assms])

theorem parse_stays_inside_witness:
  "\<exists>segs. assegments_parse True [2, 1, 0, 0, 253, 233] 6 False = Inr segs \<and> segs_normal segs"
proof -
  have "(6 :: nat) \<le> length [2, 1, 0, 0, 253, 233 :: u8]" by simp
  from parse_stays_inside [OF this] show ?thesis by blast
qed

text \<open>
  C8. Parsing inverts the encoding of RFC 4271 and RFC 6793: from the octets of a list of segments (one
  to 255 AS numbers each, of two or four octets) comes its normal form, whatever follows in the message.
\<close>

theorem parse_wire:
  assumes "wire_fits use32bit segs"
  shows "assegments_parse False (wire_path use32bit segs @ rest) (length (wire_path use32bit segs)) use32bit
    = Inr (assegment_normalise segs)"
  by (rule parse_wire_lemma [OF assms])

theorem parse_wire_witness:
  "assegments_parse False (wire_path False ex_path @ [255]) (length (wire_path False ex_path)) False
     = Inr (assegment_normalise ex_path)
   \<and> wire_path False ex_path = [2, 2, 253, 233, 13, 28, 1, 2, 2, 189, 27, 106]"
proof -
  have "wire_fits False ex_path"
    by (simp add: wire_fits_def ex_path_def assegment_new_def)
  moreover have "wire_path False ex_path = [2, 2, 253, 233, 13, 28, 1, 2, 2, 189, 27, 106]"
    by (simp add: wire_path_def wire_seg_def wire_asn_def bytes16_def u8n_def ex_path_def
        assegment_new_def as_types)
  ultimately show ?thesis using parse_wire [of False ex_path "[255]"] by blast
qed

text \<open>
  C9. Normalisation is canonical: two paths have the same normal form exactly when they are the same
  sequence of hops and groups, where a set counts as the set of its members.
\<close>

theorem normalise_is_canonical:
  assumes "full_sequences xs" "full_sequences ys" "total_asns xs < 65536" "total_asns ys < 65536"
  shows "assegment_normalise xs = assegment_normalise ys \<longleftrightarrow> path_atoms xs = path_atoms ys"
  by (rule normalise_canonical [OF assms])

theorem normalise_is_canonical_witness:
  "assegment_normalise [assegment_new AS_SEQUENCE [65001], assegment_new AS_SEQUENCE [3356],
       assegment_new AS_SET [701, 7018, 701]] = assegment_normalise ex_path"
proof -
  let ?xs = "[assegment_new AS_SEQUENCE [65001], assegment_new AS_SEQUENCE [3356],
       assegment_new AS_SET [701, 7018, 701]]"
  have "full_sequences ?xs" "full_sequences ex_path" "total_asns ?xs < 65536" "total_asns ex_path < 65536"
    by (simp_all add: ex_path_eval)
  moreover have "path_atoms ?xs = path_atoms ex_path"
    by (simp add: ex_path_def assegment_new_def as_types is_set_type_def path_atoms_def seg_atoms_def
        insert_commute)
  ultimately show ?thesis using normalise_is_canonical by blast
qed

text \<open>
  C10. \<open>aspath_make_str_count\<close> never writes outside its buffer, its closing assertion holds, and its
  result is the text of the path (empty when a segment has an unknown type); \<open>last_as\<close> is the last AS
  number printed.
\<close>

theorem make_str_fits:
  "aspath_make_str_count p
    = Inr (path_text (as_segments p), p\<lparr>as_last := path_last (as_segments p) (as_last p)\<rparr>)"
  by (rule make_str_text)

text \<open>
  C11. \<open>aspath_str2aspath\<close> reads back what \<open>aspath_print\<close> shows: for a normal path of known segment
  types the text determines the segments.
\<close>

theorem str2aspath_roundtrip:
  assumes "segs_normal segs" "full_sequences segs" "known_types segs"
    and "\<forall>seg \<in> set segs. seg_length seg < 65536"
  shows "aspath_str2aspath (path_text segs)
    = Inr (Some (aspath_new\<lparr>as_segments := segs, as_last := path_last segs 0\<rparr>))"
  by (rule str2aspath_text [OF assms])

theorem str2aspath_roundtrip_witness:
  "aspath_str2aspath ''65001 3356 {701,7018}''
    = Inr (Some (aspath_new\<lparr>as_segments := ex_path, as_last := 7018\<rparr>))"
proof -
  have "segs_normal ex_path" "full_sequences ex_path" "known_types ex_path"
    "\<forall>seg \<in> set ex_path. seg_length seg < 65536"
    "path_text ex_path = ''65001 3356 {701,7018}''" "path_last ex_path 0 = 7018"
    by (simp_all add: ex_path_eval)
  from str2aspath_roundtrip [OF this(1-4)] this(5,6) show ?thesis by simp
qed

text \<open>
  \<open>aspath_parse\<close> interns: for an attribute of even length it returns a pointer to an object whose
  segments are those of the wire, with one reference more than before, and that object is the only one
  of its segments in the table, so two attributes give the same pointer exactly when their paths are
  equal. Everything else in the table is untouched.
\<close>

lemma aspath_parse_interns:
  assumes inv: "pool_inv aspath_ops aspath_good P" and peer: "peer_ok peer"
    and len: "len mod 2 = 0" "len \<le> length s"
  shows "\<exists>segs r x P'. assegments_parse (is_bmp peer) s len use32bit = Inr segs
    \<and> aspath_parse peer P s len use32bit = Inr (Some r, P') \<and> pool_inv aspath_ops aspath_good P'
    \<and> heap P' r = Some x \<and> as_segments x = segs
    \<and> pool_ptrs P' = insert r (pool_ptrs P) \<and> heap P' = (heap P)(r \<mapsto> x)
    \<and> as_refcnt x = Suc (case heap P r of Some y \<Rightarrow> if r \<in> pool_ptrs P then as_refcnt y else 0 | None \<Rightarrow> 0)
    \<and> (\<forall>q y. q \<in> pool_ptrs P' \<longrightarrow> heap P' q = Some y \<longrightarrow> as_segments y = segs \<longrightarrow> q = r)"
proof -
  from assegments_parse_ok [OF len(2)] obtain segs where
    segs: "assegments_parse (is_bmp peer) s len use32bit = Inr segs" by blast
  let ?x = "aspath_new\<lparr>as_segments := segs\<rparr>"
  have good: "aspath_good ?x" by (simp add: aspath_good_def aspath_new_def)
  have x: "as_segments ?x = segs" by simp
  from asp.get_dup_spec [OF inv peer good aspath_dup_ok] obtain r z P' where
    g: "obj_get_dup aspath_ops aspath_hash_alloc peer P ?x = Inr (Some r, P')"
      "pool_inv aspath_ops aspath_good P'" "as_segments z = segs" "heap P' = (heap P)(r \<mapsto> z)"
      "if r \<in> pool_ptrs P
       then pool_ptrs P' = pool_ptrs P \<and> (\<exists>y. heap P r = Some y \<and> as_refcnt z = Suc (as_refcnt y)
              \<and> as_segments y = as_segments z)
       else heap P r = None \<and> pool_ptrs P' = insert r (pool_ptrs P) \<and> as_refcnt z = 1"
    unfolding aspath_ops_simps x by blast
  have ptrs: "pool_ptrs P' = insert r (pool_ptrs P)" using g(5) by (auto split: if_splits)
  have "aspath_parse peer P s len use32bit = Inr (Some r, P')"
    using peer len(1) segs g(1) by (simp add: aspath_parse_def aspath_lookup_def)
  moreover have "q = r" if "q \<in> pool_ptrs P'" "heap P' q = Some y" "as_segments y = segs" for q y
    using asp.canonical [OF g(2) that(1) _ that(2), of r z] that(3) g(3,4) ptrs by simp
  moreover have "as_refcnt z
      = Suc (case heap P r of Some y \<Rightarrow> if r \<in> pool_ptrs P then as_refcnt y else 0 | None \<Rightarrow> 0)"
    using g(5) by (cases "r \<in> pool_ptrs P") auto
  moreover have "heap P' r = Some z" unfolding g(4) by simp
  ultimately show ?thesis using segs g(2-4) ptrs by blast
qed

text \<open>
  C13. References balance. In every state the clients of the AS path table can reach, by parsing,
  looking up, sharing and releasing, an object someone holds a reference to is there, its count is the
  number of references held, releasing it faults nowhere (the assertion of \<open>aspath_unintern\<close> holds), the
  table counts the distinct objects held, and when the last reference is gone the table is empty.
\<close>

theorem aspath_references_balance:
  assumes "pool_reach aspath_ops aspath_good peer n (P, H)" "peer_ok peer" "0 < n"
  shows "(\<forall>a. a \<in># H \<longrightarrow>
        (\<exists>x. heap P a = Some x \<and> aspath_good x \<and> as_refcnt x = count H a)
      \<and> (\<exists>P'. aspath_unintern peer P (Some a) = Inr P'))
    \<and> hash_count (tab P) = card (set_mset H) \<and> (H = {#} \<longrightarrow> hash_entries (tab P) = [])"
  using asp.reach_safe [OF assms] by (simp add: aspath_unintern_def)

theorem aspath_references_balance_witness:
  "\<exists>P H. pool_reach aspath_ops aspath_good (Some ex_peer) 7 (P, H) \<and> H \<noteq> {#}
    \<and> hash_count (tab P) = card (set_mset H)"
proof -
  have peer: "peer_ok (Some ex_peer)" by (simp add: ex_peer_def bgp_consts)
  have new: "aspath_good aspath_new" by (simp add: aspath_good_def aspath_new_def)
  have inv: "pool_inv aspath_ops aspath_good (pool_init 7)" by (simp add: pool_inv_init)
  from asp.get_dup_spec [OF inv peer new aspath_dup_ok] obtain r P' where
    "obj_get_dup aspath_ops aspath_hash_alloc (Some ex_peer) (pool_init 7) aspath_new = Inr (Some r, P')"
    by blast
  then have "pool_step aspath_ops aspath_good (Some ex_peer) (pool_init 7, {#}) (P', {#r#})"
    using pool_step.lookup [OF new aspath_dup_ok] by fastforce
  then have reach: "pool_reach aspath_ops aspath_good (Some ex_peer) 7 (P', {#r#})"
    by (rule pool_reach.step [OF pool_reach.init])
  from aspath_references_balance [OF this peer] reach show ?thesis by fastforce
qed

text \<open>
  C14. \<open>aspath_reconcile_as4\<close> is total on paths of known segment types: its assertion holds, the null
  dereference in \<open>aspath_merge\<close> is not reached, and the result carries its text and is normal if the
  AS4\_PATH is.
\<close>

theorem reconcile_safe:
  assumes "known_types (as_segments p)"
  shows "\<exists>r. aspath_reconcile_as4 (Some p) (Some p4) = Inr (Some r)
    \<and> (segs_normal (as_segments p4) \<longrightarrow> segs_normal (as_segments r)) \<and> aspath_good r"
  by (rule reconcile_safe_lemma [OF assms])

theorem reconcile_safe_witness:
  "\<exists>r. aspath_reconcile_as4 (Some (aspath_new\<lparr>as_segments := ex_path\<rparr>)) (Some aspath_new) = Inr (Some r)
    \<and> segs_normal (as_segments r)"
proof -
  have "known_types (as_segments (aspath_new\<lparr>as_segments := ex_path\<rparr>))"
    by (simp add: ex_path_eval)
  moreover have "segs_normal (as_segments aspath_new)" by (simp add: aspath_new_def segs_normal_def)
  ultimately show ?thesis using reconcile_safe by blast
qed

text \<open>
  Reconciliation keeps the length of the path: without confederation segments, and with an AS4\_PATH
  no longer than the AS\_PATH, the result has as many hops as the AS\_PATH had.
\<close>

lemma reconcile_keeps_length:
  assumes "no_confeds (as_segments p)" "aspath_count_hops p4 \<le> aspath_count_hops p"
    and "total_asns (as_segments p) + total_asns (as_segments p4) < 65536"
  shows "\<exists>r. aspath_reconcile_as4 (Some p) (Some p4) = Inr (Some r)
    \<and> aspath_count_hops r = aspath_count_hops p"
  by (rule reconcile_length_lemma [OF assms])

text \<open>
  On a path with a segment of unknown type the assertion can fail: the number of AS numbers to copy
  is left over from the segment before. A peer that sends two AS numbers, one in a segment of type 5,
  and one more, together with an AS4\_PATH without hops, ends the process.
\<close>

lemma reconcile_assert_fails:
  "aspath_reconcile_as4
     (Some (aspath_new\<lparr>as_segments := [assegment_new AS_SEQUENCE [1, 2], assegment_new 5 [9],
                                        assegment_new AS_SEQUENCE [3]]\<rparr>))
     (Some aspath_new) = Inl AssertFail"
  by (simp add: aspath_reconcile_as4_def reconcile_hops_def aspath_count_hops_def
      aspath_count_confeds_def aspath_new_def assegment_new_def as_types reconcile_switch_def
      is_set_type_def c_assert_def)

section \<open>Communities\<close>

text \<open>
  C17. Equal sets of communities give the same pointer: whatever the order and the repetitions of the
  values in two COMMUNITIES attributes parsed one after the other, the two interned objects are the same
  exactly when the attributes list the same set.
\<close>

theorem community_pointer_equality:
  assumes "pool_inv (community_ops num peer) (va_width 4) P" "peer_ok peer"
    and "len1 mod 4 = 0" "len1 \<le> length pnt1" "len2 mod 4 = 0" "len2 \<le> length pnt2"
  shows "\<exists>a1 P1 a2 P2. community_parse num peer P pnt1 len1 = Inr (Some a1, P1)
    \<and> community_parse num peer P1 pnt2 len2 = Inr (Some a2, P2)
    \<and> (a1 = a2 \<longleftrightarrow> set (chunks 4 (len1 div 4) pnt1) = set (chunks 4 (len2 div 4) pnt2))"
  by (rule community_parse_canonical [OF assms])

theorem community_pointer_equality_witness:
  "\<exists>a P1 P2. community_parse True (Some ex_peer) (community_init 5) [0, 1, 0, 2, 0, 3, 0, 4] 8 = Inr (Some a, P1)
    \<and> community_parse True (Some ex_peer) P1 [0, 3, 0, 4, 0, 1, 0, 2, 0, 3, 0, 4] 12 = Inr (Some a, P2)"
proof -
  have "pool_inv (community_ops True (Some ex_peer)) (va_width 4) (community_init 5)" "peer_ok (Some ex_peer)"
    "(8 :: nat) mod 4 = 0" "(8 :: nat) \<le> length [0, 1, 0, 2, 0, 3, 0, 4 :: u8]"
    "(12 :: nat) mod 4 = 0" "(12 :: nat) \<le> length [0, 3, 0, 4, 0, 1, 0, 2, 0, 3, 0, 4 :: u8]"
    by (simp_all add: community_init_def pool_inv_init ex_peer_def bgp_consts)
  from community_pointer_equality [OF this] obtain a1 P1 a2 P2 where
    p: "community_parse True (Some ex_peer) (community_init 5) [0, 1, 0, 2, 0, 3, 0, 4] 8 = Inr (Some a1, P1)"
    "community_parse True (Some ex_peer) P1 [0, 3, 0, 4, 0, 1, 0, 2, 0, 3, 0, 4] 12 = Inr (Some a2, P2)"
    and eq: "a1 = a2 \<longleftrightarrow> set (chunks 4 (8 div 4) [0, 1, 0, 2, 0, 3, 0, 4 :: u8])
      = set (chunks 4 (12 div 4) [0, 3, 0, 4, 0, 1, 0, 2, 0, 3, 0, 4])"
    by blast
  have "set (chunks 4 (8 div 4) [0, 1, 0, 2, 0, 3, 0, 4 :: u8])
      = set (chunks 4 (12 div 4) [0, 3, 0, 4, 0, 1, 0, 2, 0, 3, 0, 4])"
    by code_simp
  with p eq show ?thesis by blast
qed

text \<open>
  C19. The parsers of standard, extended and large communities yield the values of the attribute in
  ascending order without repetition (the first sorts them, the others insert them one by one into a
  sorted array), read nothing outside the attribute, and leave the values of all other interned objects
  alone.
\<close>

theorem communities_parse_sort:
  assumes "peer_ok peer"
  shows "(pool_inv (community_ops num peer) (va_width 4) P \<and> len mod 4 = 0 \<and> len \<le> length pnt \<longrightarrow>
      (\<exists>r P' com. community_parse num peer P pnt len = Inr (Some r, P')
    \<and> pool_inv (community_ops num peer) (va_width 4) P' \<and> r \<in> pool_ptrs P'
    \<and> heap P' r = Some com \<and> com_ascending (va_val com)
    \<and> set (va_val com) = set (chunks 4 (len div 4) pnt) \<and> same_values P P'))
    \<and> (pool_inv (ecommunity_ops num peer) (va_width 8) P \<and> len mod 8 = 0 \<and> len \<le> length pnt \<longrightarrow>
      (\<exists>r P' com. ecommunity_parse num peer P pnt len = Inr (Some r, P')
    \<and> pool_inv (ecommunity_ops num peer) (va_width 8) P' \<and> r \<in> pool_ptrs P'
    \<and> heap P' r = Some com \<and> ascending (va_val com)
    \<and> set (va_val com) = set (chunks 8 (len div 8) pnt) \<and> same_values P P'))
    \<and> (pool_inv (lcommunity_ops peer) (va_width 12) P \<and> len mod 12 = 0 \<and> len \<le> length pnt \<longrightarrow>
      (\<exists>r P' com. lcommunity_parse peer P pnt len = Inr (Some r, P')
    \<and> pool_inv (lcommunity_ops peer) (va_width 12) P' \<and> r \<in> pool_ptrs P'
    \<and> heap P' r = Some com \<and> ascending (va_val com)
    \<and> set (va_val com) = set (chunks 12 (len div 12) pnt) \<and> same_values P P'))"
  by (intro conjI impI; elim conjE)
    (rule community_parse_spec [OF _ assms] ecommunity_parse_spec [OF _ assms] lcommunity_parse_spec [OF _ assms];
      assumption)+

theorem communities_parse_sort_witness:
  "(\<exists>r P' com. community_parse True (Some ex_peer) (community_init 5) [0, 3, 0, 4, 0, 1, 0, 2] 8 = Inr (Some r, P')
      \<and> heap P' r = Some com \<and> com_ascending (va_val com))
   \<and> (\<exists>r P' com. lcommunity_parse (Some ex_peer) (lcommunity_init 5) [0, 0, 0, 1, 0, 0, 0, 2, 0, 0, 0, 3] 12
        = Inr (Some r, P') \<and> heap P' r = Some com \<and> ascending (va_val com))"
proof -
  have peer: "peer_ok (Some ex_peer)" by (simp add: ex_peer_def bgp_consts)
  have "pool_inv (community_ops True (Some ex_peer)) (va_width 4) (community_init 5)"
    "(8 :: nat) mod 4 = 0" "(8 :: nat) \<le> length [0, 3, 0, 4, 0, 1, 0, 2 :: u8]"
    by (simp_all add: community_init_def pool_inv_init)
  from communities_parse_sort [OF peer, THEN conjunct1, THEN mp, OF conjI [OF this(1) conjI [OF this(2,3)]]]
  have c: "\<exists>r P' com. community_parse True (Some ex_peer) (community_init 5) [0, 3, 0, 4, 0, 1, 0, 2] 8
      = Inr (Some r, P') \<and> heap P' r = Some com \<and> com_ascending (va_val com)"
    by blast
  have "pool_inv (lcommunity_ops (Some ex_peer)) (va_width 12) (lcommunity_init 5)"
    "(12 :: nat) mod 12 = 0" "(12 :: nat) \<le> length [0, 0, 0, 1, 0, 0, 0, 2, 0, 0, 0, 3 :: u8]"
    by (simp_all add: lcommunity_init_def pool_inv_init)
  from communities_parse_sort [OF peer, THEN conjunct2, THEN conjunct2, THEN mp, OF conjI [OF this(1) conjI [OF this(2,3)]]]
  have "\<exists>r P' com. lcommunity_parse (Some ex_peer) (lcommunity_init 5) [0, 0, 0, 1, 0, 0, 0, 2, 0, 0, 0, 3] 12
      = Inr (Some r, P') \<and> heap P' r = Some com \<and> ascending (va_val com)"
    by blast
  with c show ?thesis by blast
qed

text \<open>
  C20. The three printers never write outside the buffers they allocate, and print the words of all
  values separated by spaces.
\<close>

theorem community_text_fits:
  assumes "peer_ok peer"
  shows "community_com2str num peer com = Inr (Some (community_text num com))
    \<and> (va_width 8 com \<longrightarrow>
        ecommunity_ecom2str num format peer com = Inr (Some (ecommunity_text num format com)))
    \<and> (va_width 12 com \<longrightarrow> lcommunity_lcom2str peer com = Inr (Some (lcommunity_text com)))"
  using com2str_text ecom2str_text lcom2str_text assms by blast

theorem community_text_fits_witness:
  "community_com2str True (Some ex_peer) (va_new\<lparr>va_val := [bytes32 4294967295]\<rparr>)
     = Inr (Some (community_text True (va_new\<lparr>va_val := [bytes32 4294967295]\<rparr>)))
   \<and> lcommunity_lcom2str (Some ex_peer) (va_new\<lparr>va_val := [replicate 12 255]\<rparr>)
     = Inr (Some (lcommunity_text (va_new\<lparr>va_val := [replicate 12 255]\<rparr>)))"
proof -
  have "peer_ok (Some ex_peer)" "va_width 12 (va_new\<lparr>va_val := [replicate 12 255]\<rparr>)"
    by (simp_all add: ex_peer_def bgp_consts va_width_def)
  then show ?thesis using community_text_fits by blast
qed

text \<open>\<open>community_str2com_simple\<close> reads back the printed form of every community.\<close>

lemma str2com_roundtrip: "community_str2com_simple (as_val_text v) = Some v"
  by (rule str2com_text)

section \<open>Prefixes\<close>

text \<open>
  \<open>prefix_match\<close> is the prefix order on bit strings, and \<open>prefix_cmp\<close> tells apart exactly the
  prefixes of different family or different network bits; host bits do not matter to either.
\<close>

lemma prefix_comparisons:
  assumes "prefix_ok n" "prefix_ok p"
  shows "(prefix_match n p \<longleftrightarrow> Sublist.prefix (p_bits n) (p_bits p))
    \<and> (\<not> prefix_cmp n p \<longleftrightarrow> p_family n = p_family p \<and> p_bits n = p_bits p)"
  by (intro conjI prefix_match_bits [OF assms] prefix_cmp_bits [OF assms])

text \<open>
  Mask lengths and netmasks. \<open>masklen2ip\<close> and \<open>masklen2ip6\<close> write inside the address for the lengths
  of the family and give that many ones followed by zeros; \<open>ip_masklen\<close> and \<open>ip6_masklen\<close> count them
  back, whatever octet the latter reads behind an all-ones mask.
\<close>

lemma masklen_roundtrip:
  "(len \<le> 32 \<longrightarrow> (\<exists>m. masklen2ip len = Inr m
      \<and> bits m = replicate len True @ replicate (32 - len) False \<and> ip_masklen m = len))
   \<and> (len \<le> 128 \<longrightarrow> (\<exists>m. masklen2ip6 len = Inr m
      \<and> bits m = replicate len True @ replicate (128 - len) False \<and> ip6_masklen m stray = len))"
  using masklen2bytes_ok [of len 4] masklen2bytes_ok [of len 16] ip_masklen_roundtrip [of len]
    ip6_masklen_roundtrip [of len _ stray]
  by (auto simp: masklen2ip_def masklen2ip6_def)

section \<open>Hashing\<close>

text \<open>
  \<open>jhash2\<close> on words is \<open>jhash\<close> on the octets of the same memory of a little-endian machine, for
  every length and every initial value.
\<close>

lemma jhash2_is_jhash: "jhash2 ws initval = jhash (words_mem ws) initval"
  by (rule jhash2_bytes)

section \<open>The pool of attributes\<close>

text \<open>The configuration and the empty database of the witnesses.\<close>

definition ex_cfg :: bgp_config where
  "ex_cfg = \<lparr>disable_router_id_check = True, has_id_check = True, cap_add_path_ignore = False,
     tmp_route_refresh = False, comms_num = False, daemon_as = 65000, daemon_ip = None, daemon_id = None,
     inet_aton = (\<lambda>s. if s = ''1.2.3.4'' then Some [1, 2, 3, 4] else None), inet_pton6 = (\<lambda>s. None)\<rparr>"

definition ex_rt :: rt_db where
  "ex_rt = \<lparr>rt_attrs = bgp_attr_init 4, rt_rib = \<lambda>afi safi. bgp_table_init afi safi\<rparr>"

definition no_entries :: ribs where
  "no_entries = (\<lambda>_ _ _. empty_info ex_db)"

lemma ex_rt_ok: "db_ok ex_cfg ex_db ex_peer ex_rt no_entries no_refs"
  using db_ok_init [of 4 ex_cfg ex_db ex_peer] by (simp add: ex_rt_def no_entries_def no_refs_def)

lemma ex_conf: "\<not> is_readonly ex_db" "\<not> skip_rib ex_db" "buckets_ok ex_db" "peer_ok (Some ex_peer)"
  "total (no_entries afi safi ks) = 0" "prefix_wf (ex_prefix [10, 0, 0, 0] 8)"
  by (simp_all add: ex_db_def buckets_ok_def ex_peer_def bgp_consts no_entries_def ex_prefix_def prefix_wf_def prefix_ok_def)

lemma good_zero: "attr_good attr_zero"
  by (simp add: attr_good_def attr_zero_def ha_good_def)

text \<open>
  C25. The reference counts of the five pools agree with their holders. In every state the daemon can
  reach from empty pools by interning and releasing AS paths, communities and attributes that are
  built from parts it holds: an attribute that is held is allocated, with its count equal to the
  number of its holders and all of its parts allocated; interning attributes from held parts and
  releasing held ones never faults; and once nothing is held all five hash tables are empty.
\<close>

theorem attr_references_balance:
  assumes "attr_reach cfg peer n (D, R)" "peer_ok peer" "0 < n"
  shows "(\<forall>a. a \<in># h_attr R \<longrightarrow> (\<exists>x D'. heap (attrhash D) a = Some x \<and> at_refcnt x = count (h_attr R) a
      \<and> (\<forall>p. at_aspath x = Some p \<longrightarrow> heap (ashash D) p \<noteq> None)
      \<and> (\<forall>p. at_community x = Some p \<longrightarrow> heap (comhash D) p \<noteq> None)
      \<and> (\<forall>p. at_ecommunity x = Some p \<longrightarrow> heap (ecomhash D) p \<noteq> None)
      \<and> (\<forall>p. at_lcommunity x = Some p \<longrightarrow> heap (lcomhash D) p \<noteq> None)
      \<and> bgp_attr_unintern cfg peer D a = Inr D'))
    \<and> (\<forall>x. owns R x \<longrightarrow> (\<exists>a D'. bgp_attr_intern cfg peer D x = Inr (Some a, x, D')))
    \<and> (R = no_refs \<longrightarrow> hash_entries (tab (ashash D)) = [] \<and> hash_entries (tab (comhash D)) = []
      \<and> hash_entries (tab (ecomhash D)) = [] \<and> hash_entries (tab (lcomhash D)) = []
      \<and> hash_entries (tab (attrhash D)) = [])"
proof (intro conjI allI impI)
  note bal = attr_reach_balanced [OF assms]
  show "\<exists>x D'. heap (attrhash D) a = Some x \<and> at_refcnt x = count (h_attr R) a
      \<and> (\<forall>p. at_aspath x = Some p \<longrightarrow> heap (ashash D) p \<noteq> None)
      \<and> (\<forall>p. at_community x = Some p \<longrightarrow> heap (comhash D) p \<noteq> None)
      \<and> (\<forall>p. at_ecommunity x = Some p \<longrightarrow> heap (ecomhash D) p \<noteq> None)
      \<and> (\<forall>p. at_lcommunity x = Some p \<longrightarrow> heap (lcomhash D) p \<noteq> None)
      \<and> bgp_attr_unintern cfg peer D a = Inr D'" if "a \<in># h_attr R" for a
    using attr_held [OF bal that] attr_unintern_step [OF bal assms(2) that] by blast
  show "\<exists>a D'. bgp_attr_intern cfg peer D x = Inr (Some a, x, D')" if "owns R x" for x
    using attr_intern_step [OF bal assms(2), of x] that unfolding owns_def by blast
  show "hash_entries (tab (ashash D)) = []" "hash_entries (tab (comhash D)) = []"
      "hash_entries (tab (ecomhash D)) = []" "hash_entries (tab (lcomhash D)) = []"
      "hash_entries (tab (attrhash D)) = []" if "R = no_refs"
    using attr_nothing_held [OF bal] that by (simp_all add: no_refs_def)
qed

theorem attr_references_balance_witness:
  "\<exists>a D. bgp_attr_intern ex_cfg (Some ex_peer) (bgp_attr_init 4) attr_zero = Inr (Some a, attr_zero, D)
    \<and> (\<exists>x D'. heap (attrhash D) a = Some x \<and> at_refcnt x = 1 \<and> bgp_attr_unintern ex_cfg (Some ex_peer) D a = Inr D')"
proof -
  have r0: "attr_reach ex_cfg (Some ex_peer) 4 (bgp_attr_init 4, no_refs)"
    unfolding no_refs_def by (rule attr_reach.init)
  have own: "owns no_refs attr_zero" using good_zero by (simp add: owns_def) (simp add: attr_zero_def)
  from attr_references_balance [OF r0 ex_conf(4)] own obtain a D where
    i: "bgp_attr_intern ex_cfg (Some ex_peer) (bgp_attr_init 4) attr_zero = Inr (Some a, attr_zero, D)" by auto
  have "attr_step ex_cfg (Some ex_peer) (bgp_attr_init 4, no_refs)
      (D, no_refs\<lparr>h_attr := add_mset a (h_attr no_refs)\<rparr>)"
    using own i by (intro attr_step.intern) (auto simp: owns_def)
  with r0 have "attr_reach ex_cfg (Some ex_peer) 4 (D, no_refs\<lparr>h_attr := add_mset a (h_attr no_refs)\<rparr>)"
    by (rule attr_reach.step)
  from attr_references_balance [OF this ex_conf(4)] i show ?thesis by (auto simp: no_refs_def)
qed

section \<open>Sessions\<close>

text \<open>
  C26. Messages are reassembled from the stream of a connection exactly as they were sent: however
  the network cuts the stream into pieces (each \<open>recv\<close> gives at least one octet), the messages that
  the main loop hands to the parser are the messages that were sent, in their order.
\<close>

theorem stream_reassembly:
  assumes "pb_cur_len b = 0" "pb_exp_len b = 0" "length (pb_base b) = BGP_BUFFER_SIZE"
    and ms: "\<forall>m \<in> set ms. framed m" and amounts: "\<forall>(j1, j2) \<in> set amounts. 0 < j1 \<and> 0 < j2"
    and enough: "length (concat ms) \<le> length amounts"
  shows "recv_stream b l amounts (concat ms) = Inr ms"
proof (cases ms)
  case Nil
  then show ?thesis by (cases amounts) auto
next
  case (Cons m rest)
  have small: "length m' \<le> BGP_BUFFER_SIZE" if "framed m'" for m'
    using that unat_u16_less [of "be16 (m' ! 16) (m' ! 17)"] by (simp add: framed_def msg_consts)
  have "holds BGP_BUFFER_SIZE m 0 b"
    using assms Cons small [of m] by (auto simp: holds_def framed_def msg_consts)
  from recv_stream_rest [OF this, of rest amounts l] show ?thesis
    using Cons ms amounts enough small by auto
qed

theorem stream_reassembly_witness:
  "recv_stream \<lparr>pb_base = replicate BGP_BUFFER_SIZE 0, pb_cur_len = 0, pb_exp_len = 0\<rparr> 0 (replicate 38 (3, 5))
     (concat [bgp_write_keepalive_msg, bgp_write_keepalive_msg]) = Inr [bgp_write_keepalive_msg, bgp_write_keepalive_msg]"
proof (rule stream_reassembly)
  have k: "bgp_write_keepalive_msg = replicate 16 0xff @ [0, 19, BGP_KEEPALIVE]"
    by (simp add: bgp_write_keepalive_msg_def marker_def msg_consts bytes16_def u8n_def)
  show "\<forall>m \<in> set [bgp_write_keepalive_msg, bgp_write_keepalive_msg]. framed m"
    by (simp add: k framed_def msg_consts nth_append be16_def)
  show "length (concat [bgp_write_keepalive_msg, bgp_write_keepalive_msg]) \<le> length (replicate 38 (3, 5))"
    by (simp add: k)
qed simp_all

text \<open>
  C27. A turn of the main loop ends: on every connection, whatever the peer sent so far and sends now,
  the loop over the messages in the buffer stops after its first turn, and more fuel changes nothing.
\<close>

theorem turn_terminates:
  assumes "conn_reach d (b, s)"
  shows "\<exists>r. \<forall>fuel \<ge> 1. peer_turn fuel d now b data1 data2 s = Some r"
proof -
  from peer_turn_ends [OF conn_reach_inv [OF assms]] obtain r where
    "peer_turn 1 d now b data1 data2 s = Some r" by blast
  then show ?thesis using peer_turn_more by blast
qed

definition ex_daemon :: daemon where
  "ex_daemon = \<lparr>d_cfg = ex_cfg, d_bms = ex_db, d_peers = [], d_junk = 0, d_stray = 0, d_ls = (\<lambda>_ _ u. Inr u)\<rparr>"

definition ex_buf :: bgp_peer_buf where
  "ex_buf = \<lparr>pb_base = replicate 64 0, pb_cur_len = 0, pb_exp_len = 0\<rparr>"

definition ex_session :: session where
  "ex_session = \<lparr>ss_peer = ex_peer, ss_db = ex_rt, ss_sent = [], ss_count = 0\<rparr>"

lemma ex_conn: "conn_reach ex_daemon (ex_buf, ex_session)"
  by (rule conn_reach.init) (simp_all add: ex_buf_def ex_session_def ex_peer_def zero_peer_def bgp_consts)

theorem turn_terminates_witness:
  "\<exists>r. \<forall>fuel \<ge> 1. peer_turn fuel ex_daemon 7 ex_buf bgp_write_keepalive_msg [] ex_session = Some r"
  using turn_terminates [OF ex_conn] .

text \<open>
  C28. The types of a session. Between the turns of the main loop a peer is of a known type and idle,
  active or established; the peer of an established session has spoken version 4 and has a hold time
  of at least 5 seconds and an IPv4 router identifier; no message is pending; and a buffer that
  expects a message holds its header, whose length field is what is expected.
\<close>

theorem session_types:
  assumes "conn_reach d (b, s)"
  shows "bp_type (ss_peer s) < FUNC_TYPE_MAX \<and> bp_status (ss_peer s) \<in> {Idle, Active, Established}
    \<and> (bp_status (ss_peer s) = Established \<longrightarrow> bp_version (ss_peer s) = BGP_VERSION4 \<and> 5 \<le> bp_ht (ss_peer s)
         \<and> fst (bp_id (ss_peer s)) = AF_INET \<and> length (snd (bp_id (ss_peer s))) = 4)
    \<and> bp_msglen (ss_peer s) = 0
    \<and> (pb_exp_len b \<noteq> 0 \<longrightarrow> BGP_HEADER_SIZE \<le> pb_cur_len b \<and> pb_cur_len b \<le> length (pb_base b)
         \<and> (\<exists>w. peek16 (pb_base b) 16 = Inr w \<and> unat w = pb_exp_len b))"
  using conn_reach_inv [OF assms] by (simp add: conn_inv_def peer_inv_def buf_ok_def)

theorem session_types_witness:
  "bp_status (ss_peer ex_session) \<in> {Idle, Active, Established} \<and> bp_msglen (ss_peer ex_session) = 0"
  using session_types [OF ex_conn] by simp

text \<open>
  C29. A length field below the size of the header makes \<open>exp_len - cur_len\<close> wrap: with a complete
  header whose length is 1 to 18, \<open>recv\<close> is asked for about four gigabytes, and a peer that sends
  more than the rest of the buffer writes behind it.
\<close>

theorem header_length_wraps:
  assumes "pb_cur_len b = 0" "pb_exp_len b = 0" "length (pb_base b) = BGP_BUFFER_SIZE"
    and "length h = BGP_HEADER_SIZE" "take BGP_MARKER_SIZE h = marker"
      "0 < unat (be16 (h ! 16) (h ! 17))" "unat (be16 (h ! 16) (h ! 17)) < BGP_HEADER_SIZE"
    and "BGP_BUFFER_SIZE - BGP_HEADER_SIZE < length data" "length data < 2 ^ 31"
  shows "recv_turn b l h data = Inl OutOfBounds"
  using assms by (rule header_overrun)

theorem header_length_wraps_witness:
  "recv_turn \<lparr>pb_base = replicate BGP_BUFFER_SIZE 0, pb_cur_len = 0, pb_exp_len = 0\<rparr> 0
     (marker @ [0, 18, BGP_UPDATE]) (replicate 100000 1) = Inl OutOfBounds"
  by (rule header_length_wraps) (simp_all add: marker_def msg_consts nth_append be16_def)

text \<open>
  C30. Announcing a prefix is an update of a map. In a database that stands for the maps \<open>Es\<close> from
  networks to entries, \<open>bgp_process_update\<close> of a well-formed prefix succeeds; the new database
  stands for the maps with the entry of the route added at the network of the prefix, or with its
  attributes replaced; the attributes of the entry read as those of the message, other entries read
  as before; and the pools stay in balance with the references of the entries.
\<close>

theorem route_update_refines:
  assumes "db_ok cfg bms peer db Es R" "peer_ok (Some peer)" "prefix_wf p"
    and "\<not> is_readonly bms" "\<not> skip_rib bms" "buckets_ok bms" "(afi, safi) \<in> tables"
    and "Suc (Suc (total (Es afi safi (p_bits p)))) < 2 ^ 32" "owns R x"
  shows "\<exists>b a db' Es'. bgp_route_info_modulo bms peer (Some (ax_rd ex)) (Some (ax_path_id ex)) (table_per_peer_buckets bms) = Inr b
    \<and> bgp_process_update cfg bms stray peer p x ex afi safi db = Inr (SUCCESS, x, db')
    \<and> db_ok cfg bms peer db' Es' R
    \<and> Es' = set_rib Es afi safi ((Es afi safi)(p_bits p := announced peer afi safi ex b a (Es afi safi (p_bits p))))
    \<and> attr_at (rt_attrs db') a = Some (attr_view x) \<and> a \<in># rib_refs Es'
    \<and> (\<forall>c. c \<in># rib_refs Es \<longrightarrow> c \<in># rib_refs Es' \<longrightarrow> attr_at (rt_attrs db') c = attr_at (rt_attrs db) c)"
  using assms(9) by (intro process_update_ok [OF assms(1-8)]) (simp_all add: owns_def)

theorem route_update_refines_witness:
  "\<exists>a db'. bgp_process_update ex_cfg ex_db 0 ex_peer (ex_prefix [10, 0, 0, 0] 8) attr_zero extra_zero AFI_IP SAFI_UNICAST
       ex_rt = Inr (SUCCESS, attr_zero, db')
     \<and> attr_at (rt_attrs db') a = Some (attr_view attr_zero)"
proof -
  have own: "owns no_refs attr_zero" using good_zero by (simp add: owns_def) (simp add: attr_zero_def)
  have "Suc (Suc (total (no_entries AFI_IP SAFI_UNICAST (p_bits (ex_prefix [10, 0, 0, 0] 8))))) < 2 ^ 32"
    by (simp only: ex_conf) simp
  from route_update_refines [OF ex_rt_ok ex_conf(4,6,1-3) _ this own, of extra_zero 0] show ?thesis
    by (auto simp: tables_def bgp_consts)
qed

text \<open>
  C31. Withdrawing a prefix is an update of a map: \<open>bgp_process_withdraw\<close> succeeds, the new database
  stands for the maps with the entry of the route removed, if there was one, the reference of that
  entry is given back, and the remaining entries read as before. A route that was announced as a new
  one and is then withdrawn leaves the map as it was.
\<close>

theorem route_withdraw_refines:
  assumes "db_ok cfg bms peer db Es R" "peer_ok (Some peer)" "prefix_wf p"
    and "\<not> is_readonly bms" "\<not> skip_rib bms" "buckets_ok bms" "(afi, safi) \<in> tables"
    and "Suc (total (Es afi safi (p_bits p))) < 2 ^ 32"
  shows "\<exists>b db' Es'. bgp_route_info_modulo bms peer (Some (ax_rd ex)) (Some (ax_path_id ex)) (table_per_peer_buckets bms) = Inr b
    \<and> bgp_process_withdraw cfg bms stray peer p ex afi safi db = Inr (SUCCESS, db')
    \<and> db_ok cfg bms peer db' Es' R
    \<and> Es' = set_rib Es afi safi ((Es afi safi)(p_bits p := withdrawn peer afi safi ex b (Es afi safi (p_bits p))))
    \<and> (\<forall>c. c \<in># rib_refs Es' \<longrightarrow> attr_at (rt_attrs db') c = attr_at (rt_attrs db) c)
    \<and> (\<forall>a info. b < length info \<longrightarrow> find_route (same_route peer afi safi ex) (info ! b) = None \<longrightarrow>
         withdrawn peer afi safi ex b (announced peer afi safi ex b a info) = info)"
proof -
  from process_withdraw_ok [OF assms, of ex stray] obtain b db' where
    "bgp_route_info_modulo bms peer (Some (ax_rd ex)) (Some (ax_path_id ex)) (table_per_peer_buckets bms) = Inr b"
    "bgp_process_withdraw cfg bms stray peer p ex afi safi db = Inr (SUCCESS, db')"
    "db_ok cfg bms peer db' (set_rib Es afi safi ((Es afi safi)(p_bits p := withdrawn peer afi safi ex b (Es afi safi (p_bits p))))) R"
    "\<forall>c. c \<in># rib_refs (set_rib Es afi safi ((Es afi safi)(p_bits p := withdrawn peer afi safi ex b (Es afi safi (p_bits p)))))
       \<longrightarrow> attr_at (rt_attrs db') c = attr_at (rt_attrs db) c" by blast
  moreover have "\<forall>a info. b < length info \<longrightarrow> find_route (same_route peer afi safi ex) (info ! b) = None \<longrightarrow>
      withdrawn peer afi safi ex b (announced peer afi safi ex b a info) = info"
    by (simp add: withdrawn_announced)
  ultimately show ?thesis by blast
qed

theorem route_withdraw_refines_witness:
  "\<exists>db'. bgp_process_withdraw ex_cfg ex_db 0 ex_peer (ex_prefix [10, 0, 0, 0] 8) extra_zero AFI_IP SAFI_UNICAST ex_rt
     = Inr (SUCCESS, db')"
proof -
  have "Suc (total (no_entries AFI_IP SAFI_UNICAST (p_bits (ex_prefix [10, 0, 0, 0] 8)))) < 2 ^ 32"
    by (simp only: ex_conf) simp
  from route_withdraw_refines [OF ex_rt_ok ex_conf(4,6,1-3) _ this, of extra_zero 0] show ?thesis
    by (auto simp: tables_def bgp_consts)
qed

section \<open>UPDATE messages\<close>

text \<open>
  C32. The parsing of attributes is safe: for a peer with four-octet AS numbers, with twenty octets
  readable behind the attributes, \<open>bgp_attr_parse\<close> ends without a fault whatever the octets are.
  Afterwards the pools are in balance again, the message owns a reference to each part of the
  attributes it built, the pool of attributes is as it was, and the sections of multiprotocol
  prefixes it found lie inside of what is readable.
\<close>

theorem attributes_parse_safe:
  assumes "attr_bal cfg (Some peer) (D, R)" "peer_ok (Some peer)" "len + 20 \<le> length ptr"
    and "is_used (bp_cap_4as peer)"
  shows "\<exists>ret s R'. bgp_attr_parse cfg peer ptr len (attr_start D) = Inr (ret, s)
    \<and> attr_bal cfg (Some peer) (s_db s, R') \<and> owns R' (s_attr s) \<and> h_attr R' = h_attr R
    \<and> attrhash (s_db s) = attrhash D
    \<and> (\<forall>n \<in> {s_mp_update s, s_mp_withdraw s}. nl_length n < 65536
         \<and> (nl_length n = 0 \<or> nl_length n + 20 \<le> length (nl_nlri n)))"
proof -
  have "runs (\<lambda>(ret, s'). \<exists>R'. attr_inv cfg peer R' (s'\<lparr>s_as4_path := None\<rparr>) \<and> h_attr R' = h_attr R
      \<and> attrhash (s_db s') = attrhash (s_db (attr_start D))) (bgp_attr_parse cfg peer ptr len (attr_start D))"
    using assms by (intro safe_attr_parse) simp_all
  then show ?thesis by (fastforce simp: runs_iff attr_inv_def owns_def mp_room_def)
qed

theorem attributes_parse_safe_witness:
  "\<exists>ret s. bgp_attr_parse ex_cfg (ex_peer\<lparr>bp_cap_4as := \<lparr>is_used = True, as4 = 1\<rparr>\<rparr>)
     ([0x40, 2, 6, 2, 1, 0, 0, 0, 7] @ replicate 20 0) 9 (attr_start (bgp_attr_init 4)) = Inr (ret, s)"
proof -
  let ?p = "ex_peer\<lparr>bp_cap_4as := \<lparr>is_used = True, as4 = 1\<rparr>\<rparr>"
  have "attr_bal ex_cfg (Some ?p) (bgp_attr_init 4, no_refs)" unfolding no_refs_def by (rule attr_bal_init) simp
  from attributes_parse_safe [OF this, of 9 "[0x40, 2, 6, 2, 1, 0, 0, 0, 7] @ replicate 20 0"] show ?thesis
    by (auto simp: ex_peer_def bgp_consts)
qed

text \<open>
  A section of prefixes is parsed as it was written: of the octets of a list of well-formed
  unicast prefixes, each with its path identifier when the peer announced ADD-PATH,
  \<open>bgp_nlri_parse\<close> makes exactly one update or withdrawal per prefix, in their order, whatever
  stands behind the section.
\<close>

lemma nlri_section_parses:
  assumes "\<forall>x \<in> set xs. wire_ok afi x" "afi = AFI_IP \<or> afi = AFI_IP6" "peer_ok (Some peer)"
    and "section = wire_section (cap_of peer afi SAFI_UNICAST) xs"
  shows "bgp_nlri_parse cfg bms stray peer upd
      \<lparr>nl_afi = afi, nl_safi = SAFI_UNICAST, nl_nlri = section @ behind, nl_length = length section\<rparr> st
    = nlri_turns cfg bms stray peer afi xs st"
proof (cases xs rule: rev_cases)
  case Nil
  then show ?thesis using assms by (simp add: bgp_nlri_parse_def nlri_loop.simps)
next
  case (snoc ys y)
  let ?c = "cap_of peer afi SAFI_UNICAST"
  have sec: "length section = length (wire_section ?c ys) + length (wire_octets ?c y)"
    using assms(4) snoc by (simp add: wire_section_def)
  have "length ys \<le> length (wire_section ?c ys)" by (induction ys) (simp_all add: length_wire)
  then have "int (wire_size y) + int (length xs) \<le> int (length section)"
    using sec snoc by (simp add: length_wire)
  then have "nlri_loop cfg bms stray peer upd afi SAFI_UNICAST (wire_section ?c xs @ behind)
      (int (length section)) (int (length section)) 0 st = nlri_turns cfg bms stray peer afi xs st"
    using assms(1,2,4) snoc sec by (intro nlri_loop_turns) (simp_all add: length_wire)
  then show ?thesis using assms(3,4) by (simp add: bgp_nlri_parse_def)
qed

text \<open>
  C34. UPDATE messages keep the database in order. For a peer with four-octet AS numbers, a database
  that stands for the maps \<open>Es\<close> (with room in the lock counts), and a message whose lengths stay
  within what is readable: whatever its octets are, as long as its multiprotocol sections are plain
  prefixes (not labelled, VPN or BGP-LS), \<open>bgp_parse_update_msg\<close> ends without a fault, the new
  database stands for some maps again, with balanced references, and no entry of another peer is added,
  removed or changed.
\<close>

theorem update_message_safe:
  assumes "db_ok cfg bms peer db Es R" "room Es 393216" "conf_ok bms" "peer_ok (Some peer)"
    and "is_used (bp_cap_4as peer)" "update_lengths pkt = Inr (Some (wlen, alen, ulen))"
    and "43 + unat wlen + unat alen + unat ulen \<le> length pkt"
    and "\<forall>ret s. bgp_attr_parse cfg peer (drop (23 + unat wlen) pkt) (unat alen) (attr_start (rt_attrs db)) = Inr (ret, s)
      \<longrightarrow> plain_section (s_mp_update s) \<and> plain_section (s_mp_withdraw s)"
  shows "\<exists>ret peer' db' count' Es' R'. bgp_parse_update_msg cfg bms stray ls peer pkt db n = Inr (ret, peer', db', count')
    \<and> peer_ok (Some peer') \<and> db_ok cfg bms peer' db' Es' R'
    \<and> (\<forall>afi safi ks. map (filter (\<lambda>ri. ri_peer ri \<noteq> bp_idx peer)) (Es' afi safi ks)
         = map (filter (\<lambda>ri. ri_peer ri \<noteq> bp_idx peer)) (Es afi safi ks))"
proof -
  from update_safe [OF assms, of stray ls n] obtain ret peer' db' count' Es' R' where
    "bgp_parse_update_msg cfg bms stray ls peer pkt db n = Inr (ret, peer', db', count')" "peer_ok (Some peer')"
    "db_ok cfg bms peer' db' Es' R'" "own_change bms peer Es Es'" by (auto simp: runs_iff)
  moreover have "foreign peer = (\<lambda>ri. ri_peer ri \<noteq> bp_idx peer)" by (simp add: foreign_def fun_eq_iff)
  ultimately show ?thesis unfolding own_change_def others_def by metis
qed

text \<open>The example is a message that withdraws 10.0.0.0/8.\<close>

theorem update_message_safe_witness:
  "\<exists>ret peer' db' count'. bgp_parse_update_msg ex_cfg ex_db 0 (\<lambda>_ _ u. Inr u) (ex_peer\<lparr>bp_cap_4as := \<lparr>is_used = True, as4 = 1\<rparr>\<rparr>)
     (marker @ [0, 25, BGP_UPDATE, 0, 2, 8, 10, 0, 0] @ replicate 20 0) ex_rt 0 = Inr (ret, peer', db', count')"
proof -
  let ?p = "ex_peer\<lparr>bp_cap_4as := \<lparr>is_used = True, as4 = 1\<rparr>\<rparr>"
  let ?pkt = "marker @ [0, 25, BGP_UPDATE, 0, 2, 8, 10, 0, 0] @ replicate 20 0"
  have p: "peer_ok (Some ?p)" "is_used (bp_cap_4as ?p)" by (simp_all add: ex_peer_def bgp_consts)
  have db: "db_ok ex_cfg ex_db ?p ex_rt no_entries no_refs"
    using db_ok_init [of 4 ex_cfg ex_db ?p] by (simp add: ex_rt_def no_entries_def no_refs_def)
  have conf: "room no_entries 393216" "conf_ok ex_db" by (simp_all add: room_def conf_ok_def ex_conf del: total_0)
  have m: "length marker = 16" by (simp add: marker_def msg_consts)
  have lens: "update_lengths ?pkt = Inr (Some (2, 0, 0))"
    using m by (simp add: update_lengths_def block_def peek16_def be16_def u16n_def)
  have "bgp_attr_parse ex_cfg ?p (drop 25 ?pkt) 0 (attr_start (rt_attrs ex_rt)) = Inr (ret, s)
      \<longrightarrow> plain_section (s_mp_update s) \<and> plain_section (s_mp_withdraw s)" for ret s
    using p(1) by (auto simp: bgp_attr_parse_def attr_loop.simps plain_section_def nlri_zero_def)
  with update_message_safe [OF db conf p lens, of 0 "\<lambda>_ _ u. Inr u" 0] m show ?thesis by auto
qed

text \<open>
  The counters of the lengths of an UPDATE have 16 bits. They add up to the length of the message
  exactly when the withdrawn routes and the attributes fit it; for a message that is an octet or two
  short of a length field they add up to 65536 or 131072 more, and the parser goes on behind the
  message.
\<close>

lemma update_lengths_wrap:
  assumes "update_lengths pkt = Inr (Some (wlen, alen, ulen))" "peek16 pkt 16 = Inr len" "19 \<le> len"
  shows "(\<exists>k \<le> 2. 23 + unat wlen + unat alen + unat ulen = unat len + k * 65536)
    \<and> (23 + unat wlen + unat alen + unat ulen = unat len \<longleftrightarrow> 23 + unat wlen + unat alen \<le> unat len)"
  using assms by (rule lengths_add_up)

section \<open>All sessions together\<close>

text \<open>
  C36. At most one session with a peer. Whatever connections are accepted, octets arrive and sessions are
  closed, in any order, two slots of the array of peers that are in use never have the same address (the
  same address and port, if ports are compared), each peer knows its slot, and the slots that are
  searched for readable sockets are within the array.
\<close>

theorem one_session_per_address:
  assumes "daemon_reach d ports n s"
  shows "single_but ports {} (dm_peers s) \<and> length (dm_peers s) = n \<and> dm_max_idx s \<le> n
    \<and> (\<forall>i < n. slot_ok i (dm_peers s ! i))"
  using reach_inv [OF assms] by (auto simp: daemon_inv_def slots_ok_def)

definition ex_conn :: connection where
  "ex_conn = \<lparr>cn_fd = 5, cn_addr = (AF_INET, [192, 0, 2, 1]), cn_port = 1790, cn_allowed = True\<rparr>"

definition ex_start :: bgp_daemon where
  "ex_start = daemon_start (bgp_batch_init 0 0) 1 True 0 0 4"

text \<open>The example: with one slot and the cache, a peer connects.\<close>

lemma ex_turn:
  "\<exists>s. daemon_turn 1 ex_daemon False 9 (Some ex_conn) (\<lambda>_. False) [] [] ex_start = Inr s \<and> bp_fd (dm_peers s ! 0) = 5
    \<and> bp_addr (dm_peers s ! 0) = (AF_INET, [192, 0, 2, 1]) \<and> length (dm_peers s) = 1 \<and> dm_caches s \<noteq> None"
  by (simp add: daemon_turn_def ex_start_def daemon_start_def daemon_recalc_def daemon_accept_def ex_conn_def zero_peer_def
      bgp_batch_init_def bgp_batch_is_admitted_def bgp_batch_is_not_empty_def bgp_batch_is_expired_def of_test_def
      bgp_peer_init_def bgp_select_misc_db_def bgp_consts sa_to_addr_def ipv4_mapped_to_ipv4_def cache_enter_def addr_hash_def
      addr_port_hash_def hash_modulo_def bgp_peer_cache_insert_def bgp_peer_cache_init_def daemon_read_def Let_def)

lemma ex_reach:
  "\<exists>s c. daemon_reach ex_daemon False 1 s \<and> dm_peers s \<noteq> [] \<and> bp_fd (dm_peers s ! 0) = 5
     \<and> bp_addr (dm_peers s ! 0) = (AF_INET, [192, 0, 2, 1]) \<and> dm_caches s = Some c"
proof -
  from ex_turn obtain s c where s: "daemon_turn 1 ex_daemon False 9 (Some ex_conn) (\<lambda>_. False) [] [] ex_start = Inr s"
    "bp_fd (dm_peers s ! 0) = 5" "bp_addr (dm_peers s ! 0) = (AF_INET, [192, 0, 2, 1])" "length (dm_peers s) = 1"
    "dm_caches s = Some c" by auto
  have "daemon_reach ex_daemon False 1 ex_start" unfolding ex_start_def by (rule daemon_reach.start)
  then have "daemon_reach ex_daemon False 1 s"
    by (rule daemon_reach.turn [OF _ s(1)]) (auto simp: ex_conn_def sock_wf_def)
  with s show ?thesis by (intro exI [of _ s] exI [of _ c]) auto
qed

theorem one_session_per_address_witness:
  "\<exists>s. daemon_reach ex_daemon False 1 s \<and> bp_fd (dm_peers s ! 0) = 5 \<and> bp_idx (dm_peers s ! 0) = 0"
proof -
  from ex_reach obtain s where s: "daemon_reach ex_daemon False 1 s" "bp_fd (dm_peers s ! 0) = 5" by auto
  from one_session_per_address [OF s(1)] have "slot_ok 0 (dm_peers s ! 0)" by auto
  with s show ?thesis by (auto simp: slot_ok_def)
qed

text \<open>
  C37. The cache of peers is exact. In every reachable state a search by address finds a peer exactly if
  an open session has that address, and a search by address and port exactly if one has both; what it
  finds is such a session. It reads no slot outside of the array. (\<open>which\<close> is the list that the code
  means to search; it makes no difference.)
\<close>

theorem cache_search_finds:
  assumes "daemon_reach d ports n s" "dm_caches s = Some c" "addr_wf ha"
    and "(if port = 0 then addr_hash ha n else addr_port_hash ha port n) = Inr b"
  shows "\<exists>r. bgp_peer_cache_search (dm_peers s) which b ha port c = Inr r
    \<and> (case r of None \<Rightarrow> \<forall>i. \<not> wanted (dm_peers s) ha port i | Some i \<Rightarrow> wanted (dm_peers s) ha port i)"
proof -
  have inv: "daemon_inv ports s" and n: "length (dm_peers s) = n" using reach_inv [OF assms(1)] by auto
  note search = search_exact [OF inv assms(2,3), unfolded n, OF assms(4)]
  show ?thesis unfolding search(1)
    using search(2) by (auto simp: find_None_iff find_Some_iff split: option.split)
qed

theorem cache_search_finds_witness:
  "\<exists>(s :: bgp_daemon) c. dm_caches s = Some c \<and> bp_fd (dm_peers s ! 0) = 5
     \<and> bgp_peer_cache_search (dm_peers s) By_addr 0 (AF_INET, [192, 0, 2, 1]) 0 c = Inr (Some 0)"
proof -
  let ?ha = "(AF_INET, [192, 0, 2, 1 :: u8])"
  from ex_reach obtain s c where s: "daemon_reach ex_daemon False 1 s" "dm_peers s \<noteq> []" "bp_fd (dm_peers s ! 0) = 5"
    "bp_addr (dm_peers s ! 0) = ?ha" "dm_caches s = Some c" by auto
  have "addr_wf ?ha" "addr_hash ?ha 1 = Inr 0"
    by (simp_all add: addr_wf_def sock_wf_def addr_hash_def hash_modulo_def AF_INET_def AF_INET6_def)
  with cache_search_finds [OF s(1,5), of ?ha 0 0 By_addr] obtain r where
    r: "bgp_peer_cache_search (dm_peers s) By_addr 0 ?ha 0 c = Inr r"
      "case r of None \<Rightarrow> \<forall>i. \<not> wanted (dm_peers s) ?ha 0 i | Some i \<Rightarrow> wanted (dm_peers s) ?ha 0 i" by auto
  have "length (dm_peers s) = 1" using s(1) reach_inv by blast
  then have "wanted (dm_peers s) ?ha 0 i \<longleftrightarrow> i = 0" for i using s(3,4) by (auto simp: wanted_def in_slot_def)
  with r(2) have "r = Some 0" by (auto split: option.splits)
  with r(1) s(3,5) show ?thesis by (intro exI [of _ s] exI [of _ c]) simp
qed

text \<open>
  C38. Closing a session takes back exactly its routes. If all entries of the peer are in its buckets, as
  C39 shows, \<open>bgp_peer_info_delete\<close> succeeds; the new database stands for the maps without the entries of
  the peer, the entries of all other peers and their attributes are as before, and the pools stay in
  balance with the references of the entries that are left.
\<close>

theorem peer_routes_removed:
  assumes "db_ok cfg bms peer db Es R" "\<forall>afi safi. lock_space (Es afi safi)"
    and "peer_ok (Some peer)" "\<not> is_readonly bms" "buckets_ok bms" "fd_ok bms peer" "all_placed bms peer Es"
  shows "\<exists>db' Es'. bgp_peer_info_delete cfg bms stray peer db = Inr db' \<and> db_ok cfg bms peer db' Es' R
    \<and> (\<forall>afi safi ks. Es' afi safi ks = (if (afi, safi) \<in> set all_tables
         then map (filter (\<lambda>ri. ri_peer ri \<noteq> bp_idx peer)) (Es afi safi ks) else Es afi safi ks))
    \<and> (\<forall>c. c \<in># rib_refs Es' \<longrightarrow> c \<in># rib_refs Es \<and> attr_at (rt_attrs db') c = attr_at (rt_attrs db) c)"
proof -
  from peer_info_delete_ok [OF assms, of stray] obtain db' where
    "bgp_peer_info_delete cfg bms stray peer db = Inr db'" "db_ok cfg bms peer db' (without peer Es) R"
    "rib_refs (without peer Es) \<subseteq># rib_refs Es"
    "\<forall>c. c \<in># rib_refs (without peer Es) \<longrightarrow> attr_at (rt_attrs db') c = attr_at (rt_attrs db) c" by blast
  moreover have "foreign peer = (\<lambda>ri. ri_peer ri \<noteq> bp_idx peer)" by (simp add: foreign_def fun_eq_iff)
  ultimately show ?thesis
    by (intro exI [of _ db'] exI [of _ "without peer Es"]) (auto simp: without_def others_def dest: mset_subset_eqD)
qed

lemma ex_fd: "fd_ok ex_db ex_peer"
  by (simp add: fd_ok_def ex_db_def ex_peer_def zero_peer_def)

text \<open>The example: a session with one route, which is announced and then goes with the session.\<close>

lemma ex_route:
  "\<exists>db Es ri. bgp_process_update ex_cfg ex_db 0 ex_peer (ex_prefix [10, 0, 0, 0] 8) attr_zero extra_zero AFI_IP SAFI_UNICAST
       ex_rt = Inr (SUCCESS, attr_zero, db) \<and> db_ok ex_cfg ex_db ex_peer db Es no_refs \<and> ri_peer ri = bp_idx ex_peer
     \<and> (\<exists>x. heap (attrhash (rt_attrs db)) (ri_attr ri) = Some x \<and> fst (at_mp_nexthop x) = 0)
     \<and> (\<forall>afi safi ks. Es afi safi ks = (if afi = AFI_IP \<and> safi = SAFI_UNICAST \<and> ks = p_bits (ex_prefix [10, 0, 0, 0] 8)
          then [[ri]] else [[]]))"
proof -
  let ?ks = "p_bits (ex_prefix [10, 0, 0, 0] 8)"
  have own: "owns no_refs attr_zero" using good_zero by (simp add: owns_def) (simp add: attr_zero_def)
  have room: "Suc (Suc (total (no_entries AFI_IP SAFI_UNICAST ?ks))) < 2 ^ 32" by (simp only: ex_conf) simp
  have tab: "(AFI_IP, SAFI_UNICAST) \<in> tables" by (simp add: tables_def bgp_consts)
  from process_update_ok [OF ex_rt_ok ex_conf(4,6,1-3) tab room, of attr_zero extra_zero 0] own obtain b a db Es where
    u: "bgp_process_update ex_cfg ex_db 0 ex_peer (ex_prefix [10, 0, 0, 0] 8) attr_zero extra_zero AFI_IP SAFI_UNICAST ex_rt
        = Inr (SUCCESS, attr_zero, db)" "db_ok ex_cfg ex_db ex_peer db Es no_refs"
    and Es: "Es = set_rib no_entries AFI_IP SAFI_UNICAST ((no_entries AFI_IP SAFI_UNICAST)
         (?ks := announced ex_peer AFI_IP SAFI_UNICAST extra_zero b a (no_entries AFI_IP SAFI_UNICAST ?ks)))"
    and at: "attr_at (rt_attrs db) a = Some (attr_view attr_zero)"
    and b: "bgp_route_info_modulo ex_db ex_peer (Some (ax_rd extra_zero)) (Some (ax_path_id extra_zero))
        (table_per_peer_buckets ex_db) = Inr b"
    by (auto simp: owns_def)
  let ?ri = "\<lparr>ri_peer = bp_idx ex_peer, ri_attr = a,
    ri_extra = bgp_attr_extra_process ex_peer AFI_IP SAFI_UNICAST extra_zero None\<rparr>"
  have "b = 0" using bucket_own [OF ex_conf(3) ex_fd b] by (simp add: own_bucket_def first_bucket_def ex_db_def)
  then have "\<forall>afi safi ks. Es afi safi ks = (if afi = AFI_IP \<and> safi = SAFI_UNICAST \<and> ks = ?ks then [[?ri]] else [[]])"
    by (simp add: Es set_rib_def no_entries_def empty_info_def announced_def ex_db_def)
  moreover have "\<exists>x. heap (attrhash (rt_attrs db)) a = Some x \<and> fst (at_mp_nexthop x) = 0"
    using at by (auto simp: attr_at_def attr_view_def attr_zero_def ha_view_def split: if_splits)
  ultimately show ?thesis using u by (intro exI [of _ db] exI [of _ Es] exI [of _ ?ri]) simp
qed

theorem peer_routes_removed_witness:
  "\<exists>db db'. bgp_process_update ex_cfg ex_db 0 ex_peer (ex_prefix [10, 0, 0, 0] 8) attr_zero extra_zero AFI_IP SAFI_UNICAST
       ex_rt = Inr (SUCCESS, attr_zero, db) \<and> t_top (rt_rib db AFI_IP SAFI_UNICAST) \<noteq> Tip
     \<and> bgp_peer_info_delete ex_cfg ex_db 0 ex_peer db = Inr db' \<and> t_top (rt_rib db' AFI_IP SAFI_UNICAST) = Tip"
proof -
  let ?ks = "p_bits (ex_prefix [10, 0, 0, 0] 8)"
  from ex_route obtain db Es ri where
    u: "bgp_process_update ex_cfg ex_db 0 ex_peer (ex_prefix [10, 0, 0, 0] 8) attr_zero extra_zero AFI_IP SAFI_UNICAST ex_rt
        = Inr (SUCCESS, attr_zero, db)" "db_ok ex_cfg ex_db ex_peer db Es no_refs" and ri: "ri_peer ri = bp_idx ex_peer"
    and Es: "\<And>afi safi ks. Es afi safi ks = (if afi = AFI_IP \<and> safi = SAFI_UNICAST \<and> ks = ?ks then [[ri]] else [[]])" by blast
  have space: "\<forall>afi safi. lock_space (Es afi safi)" by (simp add: lock_space_def Es total_def)
  have "own_bucket ex_db ex_peer 0" by (simp add: own_bucket_def first_bucket_def ex_db_def)
  then have placed: "all_placed ex_db ex_peer Es" by (simp add: all_placed_def placed_def Es)
  from peer_routes_removed [OF u(2) space ex_conf(4,1,3) ex_fd placed, of 0] obtain db' Es' where
    d: "bgp_peer_info_delete ex_cfg ex_db 0 ex_peer db = Inr db'" "db_ok ex_cfg ex_db ex_peer db' Es' no_refs"
      "\<And>afi safi ks. (afi, safi) \<in> set all_tables \<Longrightarrow> Es' afi safi ks = map (filter (\<lambda>ri. ri_peer ri \<noteq> bp_idx ex_peer)) (Es afi safi ks)"
    by metis
  have "(AFI_IP, SAFI_UNICAST) \<in> set all_tables" by (simp add: set_all_tables bgp_consts)
  from d(3) [OF this] have "total (Es' AFI_IP SAFI_UNICAST ks) = 0" for ks by (simp add: Es ri total_def)
  with no_entries_empty d(2) have "t_top (rt_rib db' AFI_IP SAFI_UNICAST) = Tip" by (metis db_ok_def)
  moreover have "t_top (rt_rib db AFI_IP SAFI_UNICAST) \<noteq> Tip"
  proof -
    have "stands_for ex_db (rt_rib db AFI_IP SAFI_UNICAST) (Es AFI_IP SAFI_UNICAST)" using u(2) unfolding db_ok_def by blast
    then have "table_rib (rt_rib db AFI_IP SAFI_UNICAST) ?ks \<noteq> None" by (simp add: stands_for_def rib_of_def Es total_def)
    then show ?thesis by auto
  qed
  ultimately show ?thesis using u(1) d(1) by blast
qed

text \<open>
  C39. The tables hold routes of open sessions only. Start with empty tables and let sessions be opened,
  UPDATE messages be read (those that C34 admits) and sessions be closed, in any order: every entry of
  every table, wherever it is in the tree, belongs to a session that is open then; and as long as the
  lock counts have room, reading another message and closing one of the sessions cannot fault.
\<close>

theorem routes_of_open_sessions:
  assumes "(rib_step cfg bms stray)\<^sup>*\<^sup>* (rib_start n) (P, db)" "conf_ok bms" "0 < n"
  shows "(\<forall>(afi, safi) \<in> set all_tables. list_all (\<lambda>ri. P (ri_peer ri) \<noteq> None) (tree_entries (t_top (rt_rib db afi safi))))
    \<and> (\<forall>i p. has_room bms db \<longrightarrow> P i = Some p \<longrightarrow> (\<exists>db'. bgp_peer_info_delete cfg bms stray p db = Inr db')
         \<and> (\<forall>pkt ls k. good_message cfg p db pkt \<longrightarrow> (\<exists>r. bgp_parse_update_msg cfg bms stray ls p pkt db k = Inr r)))"
proof -
  from reach_routes [OF assms] obtain Es where inv: "routes_inv cfg bms P db Es" .
  have "\<forall>(afi, safi) \<in> set all_tables. list_all (\<lambda>ri. P (ri_peer ri) \<noteq> None) (tree_entries (t_top (rt_rib db afi safi)))"
    using table_of_open [OF inv] by auto
  moreover have "\<exists>db'. bgp_peer_info_delete cfg bms stray p db = Inr db'" if "has_room bms db" "P i = Some p" for i p
    using close_runs [OF inv assms(2) that] by blast
  moreover have "\<exists>r. bgp_parse_update_msg cfg bms stray ls p pkt db k = Inr r"
    if "has_room bms db" "P i = Some p" "good_message cfg p db pkt" for i p pkt ls k
    using update_runs [OF inv assms(2) that] by blast
  ultimately show ?thesis by blast
qed

text \<open>The example: a session is opened and reads a message that withdraws 10.0.0.0/8.\<close>

definition ex_peer4 :: bgp_peer where
  "ex_peer4 = ex_peer\<lparr>bp_cap_4as := \<lparr>is_used = True, as4 = 1\<rparr>\<rparr>"

definition ex_withdraw :: "u8 list" where
  "ex_withdraw = marker @ [0, 25, BGP_UPDATE, 0, 2, 8, 10, 0, 0] @ replicate 20 0"

lemma ex_message: "good_message ex_cfg ex_peer4 ex_rt ex_withdraw"
proof -
  have m: "length marker = 16" by (simp add: marker_def msg_consts)
  have "update_lengths ex_withdraw = Inr (Some (2, 0, 0))"
    using m by (simp add: ex_withdraw_def update_lengths_def block_def peek16_def be16_def u16n_def)
  moreover have "peer_ok (Some ex_peer4)" "is_used (bp_cap_4as ex_peer4)"
    by (simp_all add: ex_peer4_def ex_peer_def bgp_consts)
  ultimately show ?thesis using m
    by (auto simp: good_message_def ex_withdraw_def bgp_attr_parse_def attr_loop.simps plain_section_def nlri_zero_def)
qed

lemma ex_room: "has_room ex_db ex_rt"
  unfolding has_room_def room_def
proof (intro allI impI)
  fix Es :: ribs and afi safi ks
  assume "\<forall>afi safi. stands_for ex_db (rt_rib ex_rt afi safi) (Es afi safi)"
  then have "rib_of (Es afi safi) ks = None"
    by (auto simp: stands_for_def ex_rt_def bgp_table_init_def)
  then have "total (Es afi safi ks) = 0" by (auto simp: rib_of_def simp del: total_0 split: if_splits)
  then show "total (Es afi safi ks) + 393216 + 2 < 2 ^ 32" by (simp del: total_0)
qed

lemma ex_opened: "rib_step ex_cfg ex_db 0 (rib_start 4) ([0 \<mapsto> ex_peer4], ex_rt)"
proof -
  have "fresh_session ex_db 0 ex_peer4"
    by (simp add: fresh_session_def ex_peer4_def ex_peer_def zero_peer_def fd_ok_def ex_db_def bgp_consts)
  then show ?thesis unfolding rib_start_def ex_rt_def by (rule sess_open [OF refl])
qed

theorem routes_of_open_sessions_witness:
  "\<exists>ret p' db' k. bgp_parse_update_msg ex_cfg ex_db 0 (\<lambda>_ _ u. Inr u) ex_peer4 ex_withdraw ex_rt 0 = Inr (ret, p', db', k)
     \<and> list_all (\<lambda>ri. ri_peer ri = 0) (tree_entries (t_top (rt_rib db' AFI_IP SAFI_UNICAST)))"
proof -
  have conf: "conf_ok ex_db" by (simp add: conf_ok_def ex_conf)
  from routes_of_open_sessions [OF r_into_rtranclp [where r = "rib_step ex_cfg ex_db 0", OF ex_opened] conf] ex_room ex_message
  obtain ret p' db' k where u: "bgp_parse_update_msg ex_cfg ex_db 0 (\<lambda>_ _ u. Inr u) ex_peer4 ex_withdraw ex_rt 0
    = Inr (ret, p', db', k)" by fastforce
  from sess_update [of "[0 \<mapsto> ex_peer4]" 0, OF _ ex_message ex_room u] ex_opened
  have "(rib_step ex_cfg ex_db 0)\<^sup>*\<^sup>* (rib_start 4) ([0 \<mapsto> ex_peer4, 0 \<mapsto> p'], db')"
    by (auto intro: rtranclp.rtrancl_into_rtrancl)
  from routes_of_open_sessions [OF this conf]
  have "list_all (\<lambda>ri. [0 \<mapsto> p'] (ri_peer ri) \<noteq> None) (tree_entries (t_top (rt_rib db' AFI_IP SAFI_UNICAST)))"
    by (auto simp: set_all_tables bgp_consts)
  then have "list_all (\<lambda>ri. ri_peer ri = 0) (tree_entries (t_top (rt_rib db' AFI_IP SAFI_UNICAST)))"
    by (auto simp: list_all_iff split: if_splits)
  with u show ?thesis by blast
qed

text \<open>
  C40. Sessions leave nothing behind: whenever no session is open, after whatever was opened, read and closed
  before, every table is empty, without a single node or stub.
\<close>

theorem closed_sessions_leave_nothing:
  assumes "(rib_step cfg bms stray)\<^sup>*\<^sup>* (rib_start n) (\<lambda>_. None, db)" "conf_ok bms" "0 < n" "(afi, safi) \<in> set all_tables"
  shows "t_top (rt_rib db afi safi) = Tip \<and> t_count (rt_rib db afi safi) = 0"
  using reach_routes [OF assms(1-3)] closed_tables_empty [OF _ assms(4)] by metis

theorem closed_sessions_leave_nothing_witness:
  "\<exists>db. bgp_peer_info_delete ex_cfg ex_db 0 ex_peer4 ex_rt = Inr db \<and> t_top (rt_rib db AFI_IP SAFI_UNICAST) = Tip"
proof -
  have conf: "conf_ok ex_db" by (simp add: conf_ok_def ex_conf)
  have open_one: "(rib_step ex_cfg ex_db 0)\<^sup>*\<^sup>* (rib_start 4) ([0 \<mapsto> ex_peer4], ex_rt)" using ex_opened by blast
  from reach_routes [OF this conf] obtain Es where "routes_inv ex_cfg ex_db [0 \<mapsto> ex_peer4] ex_rt Es" by auto
  from close_runs [OF this conf ex_room, of 0] obtain db where db: "bgp_peer_info_delete ex_cfg ex_db 0 ex_peer4 ex_rt = Inr db"
    "rib_step ex_cfg ex_db 0 ([0 \<mapsto> ex_peer4], ex_rt) ([0 \<mapsto> ex_peer4](0 := None), db)" by auto
  with open_one have "(rib_step ex_cfg ex_db 0)\<^sup>*\<^sup>* (rib_start 4) (\<lambda>_. None, db)"
    by (auto intro: rtranclp.rtrancl_into_rtrancl)
  from closed_sessions_leave_nothing [OF this conf, of AFI_IP SAFI_UNICAST] db(1) show ?thesis
    by (auto simp: set_all_tables bgp_consts)
qed

section \<open>Lookups for flows\<close>

text \<open>The example: a flow from 192.168.1.1 to 10.1.2.3, of an exporter whose session is the first one.\<close>

definition ex_agent :: sockaddr where
  "ex_agent = \<lparr>sa_addr = (AF_INET, [192, 0, 2, 1]), sa_port = 0\<rparr>"

definition ex_env :: lookup_env where
  "ex_env = \<lparr>le_cfg = ex_cfg, le_bms = ex_db, le_stray = 0, le_junk = ex_agent,
     le_peers = [ex_peer\<lparr>bp_addr := (AF_INET, [192, 0, 2, 1])\<rparr>], le_rpki = False, le_flow_collector = False,
     le_compare_ports = False, le_follow_default = 0, le_follow_nexthop = [], le_follow_nexthop_external = False,
     le_agent_map = None\<rparr>"

definition ex_flow :: packet_ptrs where
  "ex_flow = \<lparr>pp_agent = ex_agent, pp_l3_proto = ETHERTYPE_IP, pp_traffic_type = 0, pp_ip_src = [192, 168, 1, 1],
     pp_ip_dst = [10, 1, 2, 3], pp_bta_af = 0, pp_bta = 0, pp_bta2 = 0, pp_lookup_bgp_port = None, pp_bitr = rd_zero,
     pp_peer_dst_ip = (0, [])\<rparr>"

definition ex_side :: lookup_side where
  "ex_side = \<lparr>sd_hit = None, sd_mask = 0, sd_method = 0, sd_roa = 0\<rparr>"

definition ex_lookup :: "rt_db \<Rightarrow> lookup_state" where
  "ex_lookup db = \<lparr>ls_src = ex_side, ls_dst = ex_side, ls_info = None, ls_peer = None, ls_nexthop_info = None, ls_status = None,
     ls_db = db, ls_roas = None\<rparr>"

text \<open>
  C5. The routes of a flow. When the exporter stands for an open session, its buckets are chosen by the path
  identifier or are one, and neither default routes nor next hops are followed nor origins validated, \<open>bgp_srcdst_lookup\<close> finds, for the source and the destination, the longest match
  among the entries of that session: in the tables of the route distinguisher of the flow or the unicast
  ones and, if there is none, in those of labelled routes; the next hop is compared for the destination, when
  the session has additional paths. The tables keep their entries and attributes, and the nodes that were
  found stay locked, which nobody undoes (they stay in their tables when the session is closed).
\<close>

theorem flow_routes_longest:
  assumes "env_ok E" "live_entries (rt_attrs (ls_db s)) Es" "flow_addrs bl pp afi src dst"
    and "locked_ribs (le_bms E) L (ls_db s) Es" "spare_locks 4 L Es" "exporter E pp = Inr (sa, ports)"
    and "bgp_lookup_find_bgp_peer (le_cfg E) (le_peers E) sa (ls_status s) (pp_l3_proto pp) ports = Inr (Some i, xs)"
    and "fd_ok (le_bms E) (le_peers E ! i)" "all_placed (le_bms E) (le_peers E ! i) Es"
    and "le_follow_default E = 0" "le_follow_nexthop E = []" "flow_rd pp rd_zero SAFI_UNICAST = (rd, safi)"
  defines "D \<equiv> rt_attrs (ls_db s)" and "peer \<equiv> le_peers E ! i"
  shows "\<exists>s' L' f g. bgp_srcdst_lookup (Suc fuel) E bl pp s = Inr s' \<and> ls_peer s' = Some i
    \<and> sd_hit (ls_src s') = f \<and> sd_hit (ls_dst s') = g
    \<and> best_route D Es (flow_match peer afi rd None) afi (addr_prefix afi src) [safi, SAFI_MPLS_LABEL] f
    \<and> best_route D Es (flow_match peer afi rd (Some (flow_dst_ip E pp peer))) afi (addr_prefix afi dst)
        [safi, SAFI_MPLS_LABEL] g
    \<and> rt_attrs (ls_db s') = D \<and> locked_ribs (le_bms E) L' (ls_db s') Es \<and> L \<le> L'
    \<and> (\<forall>q ri. f = Some (q, ri) \<or> g = Some (q, ri) \<longrightarrow> (\<exists>safi. 0 < L' afi safi (p_bits q)))"
proof -
  from srcdst_longest [OF assms(1-12), of fuel, folded D_def peer_def] obtain s' L' f g where
    s': "bgp_srcdst_lookup (Suc fuel) E bl pp s = Inr s'" "ls_peer s' = Some i"
    "ls_src s' = hit_side ((ls_src s)\<lparr>sd_hit := None\<rparr>) f" "ls_dst s' = hit_side ((ls_dst s)\<lparr>sd_hit := None\<rparr>) g"
    and r: "best_route D Es (flow_match peer afi rd None) afi (addr_prefix afi src) [safi, SAFI_MPLS_LABEL] f"
    "best_route D Es (flow_match peer afi rd (Some (flow_dst_ip E pp peer))) afi (addr_prefix afi dst)
        [safi, SAFI_MPLS_LABEL] g"
    "rt_attrs (ls_db s') = D" "locked_ribs (le_bms E) L' (ls_db s') Es" "L \<le> L'"
    "\<forall>q ri. f = Some (q, ri) \<or> g = Some (q, ri) \<longrightarrow> (\<exists>safi. 0 < L' afi safi (p_bits q))" by blast
  have "sd_hit (ls_src s') = f" "sd_hit (ls_dst s') = g" using s'(3,4) by simp_all
  with s'(1,2) r show ?thesis by blast
qed

text \<open>Its session has announced 10.0.0.0/8.\<close>

lemma ex_lookup_ok:
  "env_ok ex_env" "flow_addrs None ex_flow AFI_IP [192, 168, 1, 1] [10, 1, 2, 3]" "exporter ex_env ex_flow = Inr (ex_agent, False)"
  "fd_ok (le_bms ex_env) (le_peers ex_env ! 0)" "flow_rd ex_flow rd_zero SAFI_UNICAST = (rd_zero, SAFI_UNICAST)"
  "le_follow_default ex_env = 0" "le_follow_nexthop ex_env = []"
  "bgp_lookup_find_bgp_peer (le_cfg ex_env) (le_peers ex_env) ex_agent (ls_status (ex_lookup db)) (pp_l3_proto ex_flow) False
    = Inr (Some 0, None)"
proof -
  show "env_ok ex_env" using ex_conf(1,3) by (simp add: env_ok_def ex_env_def all_buckets_def ex_db_def)
  show "bgp_lookup_find_bgp_peer (le_cfg ex_env) (le_peers ex_env) ex_agent (ls_status (ex_lookup db)) (pp_l3_proto ex_flow) False
    = Inr (Some 0, None)"
    by (simp add: bgp_lookup_find_bgp_peer_def ex_env_def ex_agent_def ex_lookup_def get_peer_idx_def put_peer_idx_def
        peer_is_def sa_addr_cmp_def)
qed (simp_all add: ex_env_def ex_flow_def flow_addrs_def lookup_addrs_def addr_ok_def exporter_def flow_rd_def fd_ok_def ex_peer_def zero_peer_def ex_db_def)

theorem flow_routes_longest_witness:
  "\<exists>db s' q ri. bgp_process_update ex_cfg ex_db 0 ex_peer (ex_prefix [10, 0, 0, 0] 8) attr_zero extra_zero AFI_IP SAFI_UNICAST
       ex_rt = Inr (SUCCESS, attr_zero, db)
     \<and> bgp_srcdst_lookup 1 ex_env None ex_flow (ex_lookup db) = Inr s' \<and> ls_peer s' = Some 0
     \<and> sd_hit (ls_src s') = None \<and> sd_hit (ls_dst s') = Some (q, ri) \<and> p_bits q = p_bits (ex_prefix [10, 0, 0, 0] 8)"
proof -
  let ?ks = "p_bits (ex_prefix [10, 0, 0, 0] 8)" and ?peer = "le_peers ex_env ! 0"
  from ex_route obtain db Es ri where
    u: "bgp_process_update ex_cfg ex_db 0 ex_peer (ex_prefix [10, 0, 0, 0] 8) attr_zero extra_zero AFI_IP SAFI_UNICAST ex_rt
        = Inr (SUCCESS, attr_zero, db)" "db_ok ex_cfg ex_db ex_peer db Es no_refs" and ri: "ri_peer ri = bp_idx ex_peer"
    and Es: "\<And>afi safi ks. Es afi safi ks = (if afi = AFI_IP \<and> safi = SAFI_UNICAST \<and> ks = ?ks then [[ri]] else [[]])" by blast
  note start = db_ok_locked [OF u(2)]
  have s: "ls_db (ex_lookup db) = db" "le_bms ex_env = ex_db" by (simp_all add: ex_lookup_def ex_env_def)
  have "own_bucket ex_db ?peer 0" by (simp add: own_bucket_def first_bucket_def ex_db_def)
  then have placed: "all_placed (le_bms ex_env) ?peer Es" by (simp add: all_placed_def placed_def Es s)
  have spare: "spare_locks 4 (\<lambda>_ _ _. 0) Es" by (simp add: spare_locks_def Es total_def)
  from flow_routes_longest [OF ex_lookup_ok(1) _ ex_lookup_ok(2) _ spare ex_lookup_ok(3,8,4) placed ex_lookup_ok(6,7,5),
      of db 0, unfolded s, OF start(2,1)] obtain s' f g where
    r: "bgp_srcdst_lookup 1 ex_env None ex_flow (ex_lookup db) = Inr s'" "ls_peer s' = Some 0"
      "sd_hit (ls_src s') = f" "sd_hit (ls_dst s') = g"
    and f: "best_route (rt_attrs db) Es (flow_match ?peer AFI_IP rd_zero None) AFI_IP (addr_prefix AFI_IP [192, 168, 1, 1])
        [SAFI_UNICAST, SAFI_MPLS_LABEL] f"
    and g: "best_route (rt_attrs db) Es (flow_match ?peer AFI_IP rd_zero (Some (flow_dst_ip ex_env ex_flow ?peer))) AFI_IP
        (addr_prefix AFI_IP [10, 1, 2, 3]) [SAFI_UNICAST, SAFI_MPLS_LABEL] g" by auto
  have in10: "Sublist.prefix ?ks (p_bits (addr_prefix AFI_IP [10, 1, 2, 3]))"
    "\<not> Sublist.prefix ?ks (p_bits (addr_prefix AFI_IP [192, 168, 1, 1]))" by code_simp+
  have wanted: "wanted_entry (rt_attrs db) (flow_match ?peer AFI_IP rd_zero d SAFI_UNICAST) ri" for d
    using ri by (simp add: wanted_entry_def flow_match_def ex_env_def ex_peer_def zero_peer_def zero_caps_def cap_of_def bgp_consts)
  have "f = None"
    using f in10(2) by (auto simp: route_is_def longest_def Es bgp_consts split: if_splits)
  moreover have "\<exists>q. g = Some (q, ri) \<and> p_bits q = ?ks"
    using g in10(1) wanted by (auto simp: route_is_def longest_def Es split: if_splits)
  ultimately show ?thesis using u(1) r by blast
qed

text \<open>
  C18. Every lookup for a flow ends and does not fault, through all rounds of default routes, which are at
  most \<open>follow_default\<close> after the first, and the hops from peer to peer, which are at most 20, whatever the
  routes and the map of agents are, loops included. This supposes that no entry has an IPv6 next hop and no
  map names an IPv6 exporter, which the code writes to a socket address that is too small, that
  \<open>follow_default\<close> is not negative, that buckets are as for C5 and origins are not validated, and that the lock counts have room. All that is found are entries of
  the tables, which are as before but for the locks.
\<close>

theorem flow_lookup_safe:
  assumes "env_ok E" "peers_ok E" "hops_v4 (rt_attrs (ls_db s)) Es" "dst_ok pp" "flow_addrs bl pp afi src dst"
    and "pp_bta pp = 0 \<and> pp_bta2 pp = 0 \<or> pp_bta_af pp \<noteq> ETHERTYPE_IPV6"
    and "locked_ribs (le_bms E) L (ls_db s) Es" "spare_locks (4 * Suc (nat (le_follow_default E)) + 1) L Es"
    and "status_ok (length (le_peers E)) (ls_status s)" "0 \<le> le_follow_default E" "nat (le_follow_default E) < fuel"
  shows "\<exists>s' L'. bgp_srcdst_lookup fuel E bl pp s = Inr s' \<and> rt_attrs (ls_db s') = rt_attrs (ls_db s)
    \<and> locked_ribs (le_bms E) L' (ls_db s') Es \<and> L \<le> L' \<and> status_ok (length (le_peers E)) (ls_status s')
    \<and> (\<forall>i. ls_peer s' = Some i \<longrightarrow> i < length (le_peers E))
    \<and> (\<forall>ri. (\<exists>q. sd_hit (ls_src s') = Some (q, ri) \<or> sd_hit (ls_dst s') = Some (q, ri)) \<or> ls_nexthop_info s' = Some ri
         \<longrightarrow> entry_of Es ri)"
proof -
  from srcdst_safe [OF assms(1-5) assms(6) assms(7-11)] obtain s' L' where
    s': "bgp_srcdst_lookup fuel E bl pp s = Inr s'" "lookup_inv E (rt_attrs (ls_db s)) Es 0 L' s'" "L \<le> L'" "hits_ok Es s'"
    "status_ok (length (le_peers E)) (ls_status s')" "\<forall>i. ls_peer s' = Some i \<longrightarrow> i < length (le_peers E)"
    by (auto simp: lookup_done_def)
  then show ?thesis by (intro exI [of _ s'] exI [of _ L']) (auto simp: lookup_inv_def hits_ok_def)
qed

theorem flow_lookup_safe_witness:
  "\<exists>db s'. bgp_process_update ex_cfg ex_db 0 ex_peer (ex_prefix [10, 0, 0, 0] 8) attr_zero extra_zero AFI_IP SAFI_UNICAST
       ex_rt = Inr (SUCCESS, attr_zero, db)
     \<and> bgp_srcdst_lookup 2 (ex_env\<lparr>le_follow_default := 1, le_follow_nexthop := [ex_prefix [0, 0, 0, 0] 0]\<rparr>) None ex_flow
         (ex_lookup db) = Inr s'"
proof -
  let ?E = "ex_env\<lparr>le_follow_default := 1, le_follow_nexthop := [ex_prefix [0, 0, 0, 0] 0]\<rparr>"
  from ex_route obtain db Es ri x where
    u: "bgp_process_update ex_cfg ex_db 0 ex_peer (ex_prefix [10, 0, 0, 0] 8) attr_zero extra_zero AFI_IP SAFI_UNICAST ex_rt
        = Inr (SUCCESS, attr_zero, db)" "db_ok ex_cfg ex_db ex_peer db Es no_refs"
    and ri: "heap (attrhash (rt_attrs db)) (ri_attr ri) = Some x" "fst (at_mp_nexthop x) = 0"
    and Es: "\<And>afi safi ks. Es afi safi ks = (if afi = AFI_IP \<and> safi = SAFI_UNICAST
          \<and> ks = p_bits (ex_prefix [10, 0, 0, 0] 8) then [[ri]] else [[]])" by blast
  have hops: "hops_v4 (rt_attrs db) Es"
    unfolding hops_v4_def
  proof (intro allI impI)
    fix r assume "entry_of Es r"
    then have "r = ri" by (auto simp: entry_of_def Es split: if_splits)
    with ri show "\<exists>x. heap (attrhash (rt_attrs db)) (ri_attr r) = Some x \<and> fst (at_mp_nexthop x) \<noteq> AF_INET6"
      by (simp add: AF_INET6_def)
  qed
  have s: "ls_db (ex_lookup db) = db" "le_bms ?E = ex_db" "le_follow_default ?E = 1" "ls_status (ex_lookup db) = None"
    by (simp_all add: ex_lookup_def ex_env_def)
  have spare: "spare_locks (4 * Suc (nat 1) + 1) (\<lambda>_ _ _. 0) Es" by (simp add: spare_locks_def Es total_def)
  have E: "env_ok ?E" "peers_ok ?E" "dst_ok ex_flow" "pp_bta ex_flow = 0 \<and> pp_bta2 ex_flow = 0 \<or> pp_bta_af ex_flow \<noteq> ETHERTYPE_IPV6"
    "status_ok (length (le_peers ?E)) None" "(0 :: int) \<le> 1" "nat 1 < 2"
    using ex_lookup_ok(1,4) by (simp_all add: env_ok_def peers_ok_def dst_ok_def addr_ok_def pkt_afi_def status_ok_def ex_flow_def
        ex_env_def fd_ok_def)
  from flow_lookup_safe [where E = ?E and s = "ex_lookup db" and fuel = 2, unfolded s, OF E(1,2) hops E(3) ex_lookup_ok(2) E(4)
      db_ok_locked(1) [OF u(2)] spare E(5-7)] u(1) show ?thesis by blast
qed

text \<open>
  C22. The peer of an exporter. In every reachable state of the BGP daemon and with any configuration, what
  \<open>bgp_lookup_find_bgp_peer\<close> finds is an open session: one with the address of the exporter, also when it is
  IPv4 in one place and mapped to IPv6 in the other, or, unless \<open>bgp_disable_router_id_check\<close> is set, one whose
  router id is the address of the exporter, wherever it comes from. A session found by its address has to agree
  on the port where ports are compared, but the port is that of slot \<open>j\<close>, the remembered one or else the
  first. Without a remembered slot the first such session is found, and nothing only when there is none; a
  remembered slot that is no such session any more is not returned and is forgotten.
\<close>

theorem exporter_peer:
  fixes cfg :: bgp_config and proto :: nat and port :: bool
  assumes "daemon_reach d ports n s" "sock_wf (sa_addr sa)" "status_ok n xs"
  defines "j \<equiv> get_peer_idx proto xs"
  defines "is_peer \<equiv> \<lambda>i. in_slot (dm_peers s) i \<and>
     (bp_addr (dm_peers s ! i) = ipv4_mapped_to_ipv4 (sa_addr sa) \<and> (port \<longrightarrow> sa_port_cmp sa (bp_tcp_port (dm_peers s ! j)) = 0)
      \<or> \<not> disable_router_id_check cfg \<and> sa_addr_cmp sa (bp_id (dm_peers s ! i)) = 0)"
  shows "\<exists>r xs'. bgp_lookup_find_bgp_peer cfg (dm_peers s) sa xs proto port = Inr (r, xs') \<and> status_ok n xs'
    \<and> (\<forall>i. r = Some i \<longrightarrow> is_peer i \<and> (if j = 0 then \<forall>k<i. \<not> is_peer k else i = j))
    \<and> (r = None \<longrightarrow> get_peer_idx proto xs' = 0 \<and> (if j = 0 then \<forall>i. \<not> is_peer i else \<not> is_peer j))"
proof -
  have inv: "daemon_inv ports s" and n: "length (dm_peers s) = n" using reach_inv [OF assms(1)] by auto
  have "is_peer = exporter_session cfg (dm_peers s) sa port j"
    unfolding is_peer_def by (intro ext) (simp add: exporter_session_def)
  then show ?thesis
    using find_peer_exact [where cfg = cfg and proto = proto and port = port, OF inv assms(2), unfolded n, OF assms(3), folded j_def]
    by (simp only:)
qed

theorem exporter_peer_witness:
  "\<exists>(s :: bgp_daemon). bp_fd (dm_peers s ! 0) = 5
     \<and> bgp_lookup_find_bgp_peer ex_cfg (dm_peers s) ex_agent None ETHERTYPE_IP False = Inr (Some 0, None)"
proof -
  from ex_reach obtain s c where s: "daemon_reach ex_daemon False 1 s" "bp_fd (dm_peers s ! 0) = 5"
    "bp_addr (dm_peers s ! 0) = (AF_INET, [192, 0, 2, 1])" by auto
  have l: "length (dm_peers s) = 1" using s(1) reach_inv by blast
  have ok: "sock_wf (sa_addr ex_agent)" "status_ok 1 None" "ipv4_mapped_to_ipv4 (sa_addr ex_agent) = (AF_INET, [192, 0, 2, 1])"
    by (simp_all add: sock_wf_def ex_agent_def status_ok_def ipv4_mapped_to_ipv4_def AF_INET_def AF_INET6_def)
  have w: "in_slot (dm_peers s) i \<longleftrightarrow> i = 0" for i using s(2) l by (auto simp: in_slot_def)
  obtain r xs' where
    r: "bgp_lookup_find_bgp_peer ex_cfg (dm_peers s) ex_agent None ETHERTYPE_IP False = Inr (r, xs')"
    and i: "\<forall>i. r = Some i \<longrightarrow> i = 0" "r \<noteq> None"
    using exporter_peer [where cfg = ex_cfg and proto = ETHERTYPE_IP and port = False, OF s(1) ok(1,2)] s(3)
    unfolding ok(3) w by (fastforce simp: get_peer_idx_def)
  have "xs' = None"
    using r by (auto simp: bgp_lookup_find_bgp_peer_def get_peer_idx_def put_peer_idx_def split: option.splits)
  moreover have "r = Some 0" using i by (cases r) auto
  ultimately show ?thesis using r s(2) by blast
qed

section \<open>Route origin validation\<close>

text \<open>
  C6. \<open>rpki_prefix_lookup\<close> is the origin validation of RFC 6811: on a database that stands for the payloads
  \<open>V\<close>, the answer is valid if a payload of the prefix itself or of a shorter one has the origin AS and a
  maximum length that is long enough, invalid if there are payloads but none like that, and unknown if there
  are none. The payloads stay as they are. With a valid answer a lock is left on a node on the way, which
  nobody takes back.
\<close>

theorem rpki_lookup_validates:
  assumes "holds_roas cfg db L V" "prefix_wf p" "spare 1 L V"
  shows "\<exists>status db' ks. status = origin_validation (V (family2afi (p_family p))) p asn
    \<and> rpki_prefix_lookup stray (Some db) p asn = Inr (status, Some db') \<and> Sublist.prefix ks (p_bits p)
    \<and> holds_roas cfg db'
        (if status = ROA_STATUS_VALID
         then L(family2afi (p_family p) := (L (family2afi (p_family p)))(ks := Suc (L (family2afi (p_family p)) ks)))
         else L) V"
proof -
  from assms(1) obtain Z where "holds_with cfg {#} Z db L V" by (auto simp: holds_roas_def)
  from prefix_lookup_ok [OF this assms(2,3) refl refl, of stray asn] obtain db' ks Z' where
    r: "rpki_prefix_lookup stray (Some db) p asn
        = Inr (origin_validation (V (family2afi (p_family p))) p asn, Some db')" "Sublist.prefix ks (p_bits p)"
      "holds_with cfg {#} Z' db' (if origin_validation (V (family2afi (p_family p))) p asn = ROA_STATUS_VALID
         then L(family2afi (p_family p) := (L (family2afi (p_family p)))(ks := Suc (L (family2afi (p_family p)) ks)))
         else L) V"
    by blast
  show ?thesis
    unfolding holds_roas_def by (intro exI conjI, rule refl) (rule r)+
qed

lemma ex_roas: "holds_roas ex_cfg roa_db_init no_locks no_vrps"
  using roa_db_init_ok by (auto simp: holds_roas_def)

lemma ex_wf: "prefix_wf (ex_prefix [10, 0, 0, 0] 8)" "prefix_wf (ex_prefix [10, 1, 0, 0] 16)"
  "prefix_wf ((ex_prefix [10, 0, 0, 0] 8)\<lparr>p_len := max (p_len (ex_prefix [10, 0, 0, 0] 8)) (unat (24 :: u8))\<rparr>)"
  by (simp_all add: ex_prefix_def prefix_wf_def prefix_ok_def)

lemma ex_announced:
  "\<exists>db. rpki_info_add ex_cfg 0 rpki_peer (ex_prefix [10, 0, 0, 0] 8) 7 24 roa_db_init = Inr (SUCCESS, db)
    \<and> holds_roas ex_cfg db no_locks (announce AFI_IP (p_bits (ex_prefix [10, 0, 0, 0] 8)) (7, 24) no_vrps)"
proof -
  have "family2afi (p_family (ex_prefix [10, 0, 0, 0] 8)) = AFI_IP" by (simp add: ex_prefix_def family2afi_def)
  then show ?thesis
    using info_add_ok [OF roa_db_init_ok ex_wf(1), of ex_cfg 0 7 24] by (auto simp: holds_roas_def)
qed

theorem rpki_lookup_validates_witness:
  "\<exists>db db'. rpki_info_add ex_cfg 0 rpki_peer (ex_prefix [10, 0, 0, 0] 8) 7 24 roa_db_init = Inr (SUCCESS, db)
    \<and> rpki_prefix_lookup 0 (Some db) (ex_prefix [10, 1, 0, 0] 16) 7 = Inr (ROA_STATUS_VALID, Some db')"
proof -
  let ?V = "announce AFI_IP (p_bits (ex_prefix [10, 0, 0, 0] 8)) (7, 24) no_vrps"
  from ex_announced obtain db where
    a: "rpki_info_add ex_cfg 0 rpki_peer (ex_prefix [10, 0, 0, 0] 8) 7 24 roa_db_init = Inr (SUCCESS, db)"
      "holds_roas ex_cfg db no_locks ?V" by blast
  have "spare 1 no_locks ?V" by (rule announce_spare) simp
  moreover have "origin_validation (?V (family2afi (p_family (ex_prefix [10, 1, 0, 0] 16)))) (ex_prefix [10, 1, 0, 0] 16) 7
      = ROA_STATUS_VALID" by code_simp
  ultimately show ?thesis using rpki_lookup_validates [OF a(2) ex_wf(2), of 7 0] a(1) by auto
qed

text \<open>
  C23. Adding and withdrawing payloads are operations on the map \<open>V\<close>: \<open>rpki_info_add\<close> puts the payload in
  front of those of its network; \<open>rpki_info_delete\<close> takes, from each of the networks with the address of
  the prefix and a length between its own and the maximum length, the first payload of the AS, whatever
  maximum length that payload has. No reference is lost and no lock is left.
\<close>

theorem rpki_payloads_refine:
  assumes "holds_roas cfg db L V" "prefix_wf p" "spare 2 L V"
  shows "(\<exists>db'. rpki_info_add cfg stray rpki_peer p asn maxlen db = Inr (SUCCESS, db')
      \<and> holds_roas cfg db' L (announce (family2afi (p_family p)) (p_bits p) (asn, maxlen) V))
    \<and> (prefix_wf (p\<lparr>p_len := max (p_len p) (unat maxlen)\<rparr>) \<longrightarrow>
      (\<exists>db'. rpki_info_delete cfg stray rpki_peer p asn maxlen db = Inr (SUCCESS, db')
        \<and> holds_roas cfg db' L (withdraw (family2afi (p_family p)) (withdrawn_nets p maxlen) asn V)))"
proof -
  from assms(1) obtain Z where h: "holds_with cfg {#} Z db L V" by (auto simp: holds_roas_def)
  show ?thesis
    using info_add_ok [OF h assms(2,3), of stray asn maxlen] info_delete_roa_ok [OF h _ assms(3), of p maxlen stray asn]
    unfolding holds_roas_def by blast
qed

theorem rpki_payloads_refine_witness:
  "\<exists>db db' V. rpki_info_add ex_cfg 0 rpki_peer (ex_prefix [10, 0, 0, 0] 8) 7 24 roa_db_init = Inr (SUCCESS, db)
    \<and> rpki_info_delete ex_cfg 0 rpki_peer (ex_prefix [10, 0, 0, 0] 8) 7 24 db = Inr (SUCCESS, db')
    \<and> holds_roas ex_cfg db' no_locks V \<and> V AFI_IP (p_bits (ex_prefix [10, 0, 0, 0] 8)) = []"
proof -
  let ?p = "ex_prefix [10, 0, 0, 0] 8" and ?V = "announce AFI_IP (p_bits (ex_prefix [10, 0, 0, 0] 8)) (7, 24) no_vrps"
  from ex_announced obtain db where
    a: "rpki_info_add ex_cfg 0 rpki_peer ?p 7 24 roa_db_init = Inr (SUCCESS, db)" "holds_roas ex_cfg db no_locks ?V" by blast
  have afi: "family2afi (p_family ?p) = AFI_IP" by (simp add: ex_prefix_def family2afi_def)
  have "spare 2 no_locks ?V" by (rule announce_spare) simp
  from rpki_payloads_refine [OF a(2) ex_wf(1) this, of 0 7 24, unfolded afi] ex_wf(3) obtain db' where
    d: "rpki_info_delete ex_cfg 0 rpki_peer ?p 7 24 db = Inr (SUCCESS, db')"
      "holds_roas ex_cfg db' no_locks (withdraw AFI_IP (withdrawn_nets ?p 24) 7 ?V)" by blast
  have "p_bits ?p \<in> withdrawn_nets ?p 24"
    unfolding withdrawn_nets_def nets_def p_bits_def by (rule imageI) (simp add: ex_prefix_def)
  then have "withdraw AFI_IP (withdrawn_nets ?p 24) 7 ?V AFI_IP (p_bits ?p) = []"
    by (simp add: withdraw_def withdraw_in_def announce_def no_vrps_def)
  with a(1) d show ?thesis by blast
qed

text \<open>
  C24. The answers of the RPKI daemon: in every state that its turns and lookups reach, from the start with a
  file or with a cache, all lookups agree with the origin validation over one map of payloads. With a cache,
  there are no payloads while there is no connection to it: every lookup answers unknown.
\<close>

theorem rpki_answers:
  assumes "rpki_reach cfg rc aton pton s" "inet_ok aton pton" "roa_room (rk_db s)"
  shows "\<exists>V. (\<forall>stray p asn. prefix_wf p \<longrightarrow> (\<exists>db. rpki_prefix_lookup stray (Some (rk_db s)) p asn
        = Inr (origin_validation (V (family2afi (p_family p))) p asn, Some db)))
    \<and> (rc_rtr_cache rc \<longrightarrow> rh_fd (rk_cache s) < 0 \<longrightarrow>
        (\<forall>stray p asn. prefix_wf p \<longrightarrow>
          (\<exists>db. rpki_prefix_lookup stray (Some (rk_db s)) p asn = Inr (ROA_STATUS_UNKNOWN, Some db))))"
proof -
  from rpki_reach_inv [OF assms(1,2)] obtain V where V: "cache_state 0 cfg (rc_rtr_cache rc) V s"
    by (auto simp: cache_ok_def)
  have none: "origin_validation (no_vrps afi) p asn = ROA_STATUS_UNKNOWN" for afi p asn
    by (auto simp: origin_validation_def covering_def no_vrps_def list_ex_iff)
  have "V = no_vrps" if "rc_rtr_cache rc" "rh_fd (rk_cache s) < 0" using V that by (auto simp: cache_state_def)
  then show ?thesis using lookup_state [OF V assms(3)] none by metis
qed

definition ex_rc :: rpki_config where
  "ex_rc = \<lparr>rc_roas_file = False, rc_rtr_cache = True, rc_version = RPKI_RTR_V1\<rparr>"

definition ex_rpki :: rpki_state where
  "ex_rpki = \<lparr>rk_cache = handle_init RPKI_RTR_V1 1000, rk_db = roa_db_init, rk_in = [], rk_sent = []\<rparr>"

lemma ex_rpki_start: "rpki_daemon_init ex_cfg ex_rc 0 (\<lambda>_. None) (\<lambda>_. None) False None 1000 = Inr ex_rpki"
  by (simp add: rpki_daemon_init_def ex_rc_def ex_rpki_def RPKI_RTR_V0_def)

lemma ex_rpki_reach: "rpki_reach ex_cfg ex_rc (\<lambda>_. None) (\<lambda>_. None) ex_rpki"
  by (rule rpki_reach.start [OF _ ex_rpki_start]) (simp add: files_small_def file_roas_def)

lemma ex_rpki_room: "roa_room (rk_db ex_rpki)" "inet_ok (\<lambda>_. None) (\<lambda>_. None)"
  by (simp_all add: roa_room_def ex_rpki_def roa_db_init_def table_init_ok inet_ok_def)

theorem rpki_answers_witness:
  "\<exists>db. rpki_prefix_lookup 0 (Some (rk_db ex_rpki)) (ex_prefix [10, 1, 0, 0] 16) 7 = Inr (ROA_STATUS_UNKNOWN, Some db)"
  using rpki_answers [OF ex_rpki_reach ex_rpki_room(2,1)] ex_wf(2)
  by (auto simp: ex_rc_def ex_rpki_def handle_init_def ERR_def)

text \<open>
  C21. No turn of the RPKI daemon faults, in any state that it reaches: whatever \<open>select\<close>, the clock, the
  socket, the file and the cache do, as long as the cache sends prefix lengths and maximum lengths that
  the family has, error reports of possible lengths (in the byte order of the host, as the code reads
  them), and the lock counts have room. Closing, expiry, reloads and resets in the middle of a turn are
  part of this.
\<close>

theorem rpki_daemon_safe:
  assumes "rpki_reach cfg rc aton pton s" "inet_ok aton pton" "turn_ok ev s"
  shows "\<exists>s'. rpki_daemon_turn cfg rc stray aton pton ev s = Inr s' \<and> rpki_reach cfg rc aton pton s'"
  using turn_runs [OF assms(2) _ assms(3)] rpki_reach_inv [OF assms(1,2)] rpki_reach.turn [OF assms(1,3)]
  by (metis runs_iff)

definition ex_event :: "int \<Rightarrow> u8 list \<Rightarrow> rpki_turn" where
  "ex_event sel stream = \<lparr>rt_select = sel, rt_now = 2000, rt_reload = False, rt_errno = False, rt_file = None, rt_socket = 5,
     rt_connect = True, rt_stream = stream, rt_send_reset = True, rt_send_serial = True, rt_avail = 2\<rparr>"

text \<open>A turn that connects, and one that reads 10.0.0.0/8 with maximum length 24 and AS 7.\<close>

definition ex_pdu :: "u8 list" where
  "ex_pdu = [1, 4, 0, 0, 0, 0, 0, 20, 1, 8, 24, 0, 10, 0, 0, 0, 0, 0, 0, 7]"

lemma ex_rpki_connects:
  "\<exists>s. rpki_daemon_turn ex_cfg ex_rc 0 (\<lambda>_. None) (\<lambda>_. None) (ex_event 0 ex_pdu) ex_rpki = Inr s
    \<and> rk_in s = ex_pdu \<and> rk_db s = roa_db_init"
proof -
  let ?s = "ex_rpki\<lparr>rk_cache := (rk_cache ex_rpki)\<lparr>rh_now := 2000\<rparr>\<rparr>"
  have turn: "rpki_daemon_turn ex_cfg ex_rc 0 (\<lambda>_. None) (\<lambda>_. None) (ex_event 0 ex_pdu) ex_rpki
      = rpki_timeout ex_cfg ex_rc 0 (ex_event 0 ex_pdu) ?s"
    by (simp add: rpki_daemon_turn_def ex_event_def ex_rc_def)
  show ?thesis
    unfolding turn
    by (simp add: rpki_timeout_def ex_event_def ex_rc_def ex_rpki_def handle_init_def handle_zero_def ERR_def
        rpki_rtr_connect_def timer_end_def RPKI_RTR_V0_def RPKI_RTR_V1_def rpki_rtr_send_reset_query_def rpki_query_def
        RPKI_RTR_V1_DEFAULT_RETRY_IVL_def RPKI_RTR_V1_DEFAULT_REFRESH_IVL_def RPKI_RTR_V1_DEFAULT_EXPIRE_IVL_def
        rpki_rtr_eval_expire_def)
qed

theorem rpki_daemon_safe_witness:
  "\<exists>s s'. rpki_daemon_turn ex_cfg ex_rc 0 (\<lambda>_. None) (\<lambda>_. None) (ex_event 0 ex_pdu) ex_rpki = Inr s
    \<and> rk_in s = ex_pdu \<and> rpki_daemon_turn ex_cfg ex_rc 0 (\<lambda>_. None) (\<lambda>_. None) (ex_event 1 []) s = Inr s'"
proof -
  have ev: "turn_ok (ex_event 0 ex_pdu) ex_rpki"
    using ex_rpki_room by (simp add: turn_ok_def ex_event_def files_small_def file_roas_def ex_rpki_def handle_init_def ERR_def)
  from ex_rpki_connects obtain s where
    s: "rpki_daemon_turn ex_cfg ex_rc 0 (\<lambda>_. None) (\<lambda>_. None) (ex_event 0 ex_pdu) ex_rpki = Inr s"
      "rk_in s = ex_pdu" "rk_db s = roa_db_init" by blast
  have "pdu_ok ex_pdu" by (simp add: pdu_ok_def ex_pdu_def rtr_pdus prefix_fits_def)
  then have "turn_ok (ex_event 1 []) s"
    using ex_rpki_room(1) s(2,3) by (simp add: turn_ok_def ex_event_def files_small_def file_roas_def ex_rpki_def)
  from rpki_daemon_safe [OF rpki_reach.turn [OF ex_rpki_reach ev s(1)] ex_rpki_room(2) this, of 0] s(1,2)
  show ?thesis by blast
qed

section \<open>Records of NetFlow v9 and IPFIX\<close>

text \<open>The example: the source and destination addresses of a flow, and the name of an interface.\<close>

definition ex_fields :: "fspec list" where
  "ex_fields = [(8, 4, None), (12, 4, None), (82, 65535, None)]"

definition ex_values :: "fval list" where
  "ex_values = [(False, [192, 168, 1, 1]), (False, [10, 1, 2, 3]), (False, [101, 116, 104])]"

lemma fits_short:
  assumes "length ss \<le> 32" "length (filter legacy_spec ss) \<le> 3" "\<forall>s\<in>set ss. legacy_spec s \<or> fst s \<noteq> 0"
  shows "fits ss"
proof -
  have "occurs (same_type t) ss \<le> length (filter legacy_spec ss)" for t
    unfolding occurs_def by (induction ss) (auto simp: same_type_def)
  then have "occurs (same_type t) ss \<le> TPL_MAX_ELEM_REPEATS" for t
    unfolding TPL_MAX_ELEM_REPEATS_def using assms(2) by (rule order.trans)
  moreover have "occurs (same_chain m) ss \<le> length ss" for m by (simp add: occurs_def)
  then have "occurs (same_chain m) ss \<le> IES_PER_TPL_EXT_DB_ENTRY" for m
    unfolding IES_PER_TPL_EXT_DB_ENTRY_def using assms(1) by (rule order.trans)
  ultimately show ?thesis using assms(1,3) by (simp add: fits_def TPL_LIST_ENTRIES_def)
qed



lemma vals_ok_list: "vals_ok ss vs \<longleftrightarrow> list_all2 val_ok ss vs"
  by (simp add: vals_ok_def list_all2_conv_all_nth)

text \<open>
  C12. The values of an IPFIX packet are read back. Of a packet with a template whose fields have room in
  the template (256 in all, three of a type below 384, 32 in a chain of the others), in any mix of fixed and
  variable lengths, and with records of it, \<open>process_v9_packet\<close> finds all records in their order, ends, and
  the template that it hands on with a record gives, at the place of every field, the octets that were sent.
  The octets behind the packet, of earlier ones, do not matter.
\<close>

theorem ipfix_values_read:
  assumes "fits ss" "\<forall>s\<in>set ss. spec_ok 10 s" "256 \<le> unat tid" "\<forall>vs\<in>set rs. vals_ok ss vs" "rs \<noteq> []"
    and "ends ss (length pad)" "length hdr = 12" "pkt = ipfix_packet hdr sid tid ss rs pad" "length pkt < 65536"
    and "length rs + 3 < fuel"
  shows "\<exists>recs cache'. process_v9_packet fuel (pkt @ stale) (length pkt) False agent 10 cache =
      Inr (cache', map (\<lambda>(p, tpl). FlowRecord p tpl) recs) \<and> length recs = length rs \<and>
      (\<forall>j<length rs. \<forall>i<length ss. item_value (snd (recs ! j)) i (drop (fst (recs ! j)) (pkt @ stale)) = Some (snd (rs ! j ! i)))"
proof -
  obtain recs cache' where r: "process_v9_packet fuel (pkt @ stale) (length pkt) False agent 10 cache =
      Inr (cache', map (\<lambda>(p, tpl). FlowRecord p tpl) recs)" "length recs = length rs"
      "\<forall>j<length rs. record_at (pkt @ stale) ss rs (24 + length (tpl_bytes tid ss)) (recs ! j) j"
    using packet_read [OF assms] by blast
  have "length (rec_bytes ss vs) < 65536" if "vs \<in> set rs" for vs
  proof -
    have "length (rec_bytes ss vs) \<le> length (recs_bytes ss rs)" using that by (induction rs) (auto simp: recs_bytes_def)
    then show ?thesis using assms(8,9) by (simp add: ipfix_packet_def length_flowset)
  qed
  then have small: "\<forall>vs\<in>set rs. length (rec_bytes ss vs) < 65536" by blast
  have "item_value (snd (recs ! j)) i (drop (fst (recs ! j)) (pkt @ stale)) = Some (snd (rs ! j ! i))"
    if j: "j < length rs" and i: "i < length ss" for j i
  proof -
    obtain rest where "baked (snd (recs ! j)) ss (rs ! j)" and d: "drop (fst (recs ! j)) (pkt @ stale) = rec_bytes ss (rs ! j) @ rest"
      using r(3) [rule_format, OF j] unfolding record_at_def by blast
    then have "usable (snd (recs ! j)) ss" "resolved (snd (recs ! j)) ss (rs ! j) i" using i by (simp_all add: baked_def)
    moreover have "vals_ok ss (rs ! j)" "length (rec_bytes ss (rs ! j)) < 65536" using j assms(4) small by simp_all
    ultimately show ?thesis unfolding d using i by (intro resolved_value)
  qed
  then show ?thesis using r(1,2) by blast
qed

theorem ipfix_values_read_witness:
  "\<exists>p tpl cache'. process_v9_packet 5 (ipfix_packet (replicate 12 0) 1 256 ex_fields [ex_values] [] @ [7, 7])
      (length (ipfix_packet (replicate 12 0) 1 256 ex_fields [ex_values] [])) False ex_agent 10 Map.empty = Inr (cache', [FlowRecord p tpl])
    \<and> item_value tpl 2 (drop p (ipfix_packet (replicate 12 0) 1 256 ex_fields [ex_values] [] @ [7, 7])) = Some [101, 116, 104]"
proof -
  have "fits ex_fields"
    by (rule fits_short) (simp_all add: ex_fields_def is_legacy_def NF9_MAX_DEFINED_FIELD_def)
  moreover have "\<forall>s\<in>set ex_fields. spec_ok 10 s" by (simp add: ex_fields_def IPFIX_TPL_EBIT_def)
  moreover have "\<forall>vs\<in>set [ex_values]. vals_ok ex_fields vs"
    by (simp add: vals_ok_list val_ok_def ex_fields_def ex_values_def slen_def IPFIX_VARIABLE_LENGTH_def)
  moreover have "ends ex_fields (length [])" by (simp add: ends_def ex_fields_def IPFIX_VARIABLE_LENGTH_def)
  moreover have "length (ipfix_packet (replicate 12 0) 1 256 ex_fields [ex_values] []) < 65536"
    by (simp add: ipfix_packet_def length_flowset recs_bytes_def length_tpl_bytes ex_fields_def ex_values_def enc_def occurs_def has_pen_def)
  ultimately obtain recs cache' where
    "process_v9_packet 5 (ipfix_packet (replicate 12 0) 1 256 ex_fields [ex_values] [] @ [7, 7])
      (length (ipfix_packet (replicate 12 0) 1 256 ex_fields [ex_values] [])) False ex_agent 10 Map.empty =
      Inr (cache', map (\<lambda>(p, tpl). FlowRecord p tpl) recs)" "length recs = 1"
    "\<forall>i<length ex_fields. item_value (snd (recs ! 0)) i (drop (fst (recs ! 0)) (ipfix_packet (replicate 12 0) 1 256 ex_fields [ex_values] [] @ [7, 7])) =
      Some (snd (ex_values ! i))"
    using ipfix_values_read [of ex_fields 256 "[ex_values]" "[]" "replicate 12 0" _ 1 5 "[7, 7]" ex_agent Map.empty] by auto
  moreover from this(2) obtain p tpl where "recs = [(p, tpl)]" by (cases recs) auto
  ultimately show ?thesis by (auto simp: ex_fields_def ex_values_def)
qed

text \<open>
  C33. Packets of any octets. Without templates of options, a packet of \<open>len\<close> octets is read up to seven octets
  behind its end and no further: in a buffer with seven octets more than the packet has, neither the parsing of
  templates nor that of records reads outside of the buffer, and every record that is found lies within the
  packet. The buffer of 10000 octets is such a one for packets of at most 9993; a template cut at the end of a
  longer one is read behind the buffer, and \<open>template_read_behind\<close> in NfFaults is a packet that is. What
  remains is the null pointer of a field for which there was no room, and loops over records of no octets;
  NfFaults has packets for those, too.
\<close>

theorem v9_packets_stay_inside:
  assumes "len + 7 \<le> length pkt" "len < 65529" "templates_ok cache" "version = 9 \<or> version = 10" "2 * len < fuel"
    and "\<forall>fid\<in>set (flowset_ids pkt len (if version = 9 then 20 else 16)). fid \<noteq> 1 \<and> fid \<noteq> 3"
  shows "case process_v9_packet fuel pkt len checks agent version cache of
      Inl e \<Rightarrow> e = NullDeref \<or> e = OutOfFuel
    | Inr (cache', recs) \<Rightarrow> templates_ok cache' \<and> (\<forall>r\<in>set recs. record_inside len r)"
  using v9_packet_outcome [OF assms, of checks agent]
  by (cases "process_v9_packet fuel pkt len checks agent version cache") auto

text \<open>A template that announces more fields than the packet has.\<close>

definition ex_short :: "u8 list" where
  "ex_short = [0, 10, 0, 24] @ replicate 12 0 @ [0, 2, 0, 8, 1, 0, 0, 2] @ replicate 7 9"

theorem v9_packets_stay_inside_witness:
  "process_v9_packet 49 ex_short 24 False ex_agent 10 Map.empty \<noteq> Inl OutOfBounds"
proof -
  have "24 + 7 \<le> length ex_short" by (simp add: ex_short_def)
  moreover have "\<forall>fid\<in>set (flowset_ids ex_short 24 (if (10 :: u8) = 9 then 20 else 16)). fid \<noteq> 1 \<and> fid \<noteq> 3" by code_simp
  ultimately show ?thesis
    using v9_packets_stay_inside [of 24 ex_short Map.empty 10 49 False ex_agent] by (auto split: sum.splits)
qed

section \<open>Source address validation\<close>


definition ex_rule :: sav_rule where
  "ex_rule = \<lparr>sr_interface_id = 5, sr_prefix = [0, 0, 0, 10] @ replicate 12 0, sr_prefix_len = 8, sr_validation_mode = 0\<rparr>"


lemma ex_rule_ok: "sav_rule_ok 901 0 ex_rule"
  by (simp add: sav_rule_ok_def ex_rule_def)




text \<open>
  C16. nfacctd and the collector over TCP read the same rules: of any list of sub-templates with number 901
  inside of a buffer, whatever its octets, both read as many rules as are complete, without a fault, and
  what the collector prints is the text of the rules that nfacctd keeps.
\<close>

theorem collectors_agree:
  assumes "p + len \<le> length pkt" "3 \<le> len" "peek16 pkt (p + 1) = Inr TMPL_SAV_901"
  shows "\<exists>rules. length rules = (len - 3) div 9 \<and>
    parse_sav_sub_template_list pkt p len mode =
      Inr (0, if rules = [] then None else Some rules, length rules, if rules = [] then None else Some SAV_TPL_IPV4_IF2PREFIX) \<and>
    parse_subtemplatelist pkt p len st = Inr (int (length rules), printed rules st)"
  by (rule rules_agree [OF assms])

definition ex_collector :: collector where
  "ex_collector = \<lparr>co_templates = [], co_output = [], co_first = True, co_decoded = 0\<rparr>"

theorem collectors_agree_witness:
  "\<exists>rules. length rules = 1 \<and> parse_subtemplatelist (3 # [3, 133] @ [0, 0, 0, 5, 10, 0, 0, 0, 8]) 0 12 ex_collector = Inr (1, printed rules ex_collector)
    \<and> parse_sav_sub_template_list (3 # [3, 133] @ [0, 0, 0, 5, 10, 0, 0, 0, 8]) 0 12 0 = Inr (0, Some rules, 1, Some 901)"
proof -
  let ?b = "3 # [3, 133] @ [0, 0, 0, 5, 10, 0, 0, 0, 8 :: u8]"
  have "0 + 12 \<le> length ?b" "3 \<le> (12 :: nat)" "peek16 ?b (0 + 1) = Inr TMPL_SAV_901"
    by (simp_all add: peek16_def be16_def u16n_def TMPL_SAV_901_def)
  from collectors_agree [OF this, of 0 ex_collector] show ?thesis by (auto simp: sav_tpl_consts split: if_splits)
qed

text \<open>
  C35. The collector over TCP prints, as one JSON list, the rules of sub-template 901 in the records of template
  256 of all messages of a connection, each once and in their order, however the stream of the messages is cut
  by \<open>recv\<close>, and counts them. The messages may have any sets: of records of template 256, of templates, which
  print nothing, and others, which are skipped; and a record any list: of rules of sub-template 901, or of another
  sub-template or of too few octets, of which nothing is printed (those of 902 are not read, and 903 and 904
  not known). Sets, records and messages are complete, but for less than four octets behind the last of them,
  and a message with a set of templates leaves two octets of the buffer free.
\<close>

theorem collector_prints_stream:
  assumes "\<forall>m\<in>set ms. message_ok m" "concat ss = concat (map message_bytes ms)" "[] \<notin> set ss"
    and "length buf = MAX_MSG_SIZE"
  shows "\<exists>st'. handle_client buf ss st = Inr st' \<and> co_output st' = co_output st @ ''['' @ newline @
    rules_text True (concat (map message_rules ms)) @ newline @ '']'' @ newline \<and>
    co_decoded st' = co_decoded st + word_of_nat (length (concat (map message_rules ms)))"
  by (rule handle_client_printed [OF assms])

text \<open>The example: a message with a set of templates and one of two records, with one rule and with an empty list
  of sub-template 902, in two pieces.\<close>

definition ex_message :: sav_message where
  "ex_message = (replicate 12 0, [TemplateSet [1, 0, 0, 0],
     RuleSet [(0, 0, Rules901 3 [ex_rule] [], 1), (0, 0, OtherList [3, 3, 0x86], 1)] []], [])"

theorem collector_prints_stream_witness:
  "\<exists>st'. handle_client (replicate MAX_MSG_SIZE 0) [take 7 (message_bytes ex_message), drop 7 (message_bytes ex_message)] ex_collector = Inr st' \<and>
    co_output st' = ''['' @ newline @ rule_901_text 5 0x0A000000 8 @ newline @ '']'' @ newline"
proof -
  have l: "length (stl_bytes 3 901 [ex_rule] []) = 12"
    using length_sav_rule_bytes [OF ex_rule_ok] by (simp add: stl_bytes_def rule_size_def v4_tpl_def sav_tpl_consts)
  then have len: "length (message_bytes ex_message) = 53"
    by (simp add: ex_message_def set_bytes_def sav_tpl_consts)
  have "message_ok ex_message"
    using len ex_rule_ok
    by (simp add: message_ok_def main_ok_def ex_message_def sav_tpl_consts TMPL_SAV_901_def be16_def u16n_def del: message_bytes.simps)
  moreover have "take 7 (message_bytes ex_message) \<noteq> []" "drop 7 (message_bytes ex_message) \<noteq> []" using len by auto
  moreover have "ipv4_0 ex_rule = 0x0A000000" by (simp add: ex_rule_def ipv4_0_def be32_def u32n_def)
  moreover have "message_rules ex_message = [ex_rule]" by (simp add: message_rules_def main_rules_def ex_message_def)
  ultimately show ?thesis
    using collector_prints_stream [of "[ex_message]" "[take 7 (message_bytes ex_message), drop 7 (message_bytes ex_message)]"
      "replicate MAX_MSG_SIZE 0" ex_collector]
    by (auto simp: ex_collector_def ex_rule_def)
qed

end
